(* ===== verification/Prelude.thy ===== *)
theory Prelude
  imports Complex_Main "HOL-Library.Word" "HOL-Library.AList" "HOL-Library.Sublist"
begin

text \<open>
  Vocabulary shared by every theory of the development: the errors a Python function can
  raise, the result type and its sequencing operators, the string methods of the standard
  library that the sources call, and generic facts on lists and association lists. A Python
  \<open>str\<close> is a \<open>string\<close> of ASCII characters; a Python \<open>dict\<close> is an association list in
  insertion order with distinct keys, updated by \<open>AList.update\<close>, which overwrites in place or
  appends, as a \<open>dict\<close> does.
\<close>

named_theorems py_defs "definitions of the Python-level helper operations"
named_theorems result_simps "case analysis of the result type"

section \<open>Errors and results\<close>

text \<open>
  One constructor per exception class the modelled code raises or catches. An exception that is
  raised with a message carries the literal part of that message.
\<close>

datatype py_error =
    ValueError string
  | TypeError string
  | KeyError string
  | IndexError
  | AttributeError string
  | RuntimeError string
  | ZeroDivisionError
  | OverflowError
  | StructError
  | ProtocolError string
  | WebSocketError string
  | TimeoutError
  | OSError
  | ZmqError string
  | SystemExit string
  | ArgumentTypeError string

type_synonym 'a result = "py_error + 'a"

abbreviation Ok :: "'a \<Rightarrow> 'a result" where "Ok \<equiv> Inr"
abbreviation Err :: "py_error \<Rightarrow> 'a result" where "Err \<equiv> Inl"

definition bindR :: "'e + 'a \<Rightarrow> ('a \<Rightarrow> 'e + 'b) \<Rightarrow> 'e + 'b" where
  "bindR m f = (case m of Inl e \<Rightarrow> Inl e | Inr x \<Rightarrow> f x)"

lemma bindR_simps [simp]:
  "bindR (Inl e) f = Inl e"
  "bindR (Inr x) f = f x"
  by (simp_all add: bindR_def)

lemma bindR_Inr_conv [result_simps]:
  "bindR m f = Inr y \<longleftrightarrow> (\<exists>x. m = Inr x \<and> f x = Inr y)"
  by (cases m) auto

lemma bindR_Inl_conv [result_simps]:
  "bindR m f = Inl e \<longleftrightarrow> m = Inl e \<or> (\<exists>x. m = Inr x \<and> f x = Inl e)"
  by (cases m) auto

lemma bindR_cong [fundef_cong]:
  assumes "m = m'" and "\<And>x. m' = Inr x \<Longrightarrow> f x = g x"
  shows "bindR m f = bindR m' g"
  using assms by (cases m') auto

text \<open>\<open>checkR c e\<close>: the statement \<open>if not c: raise e\<close>.\<close>

definition checkR :: "bool \<Rightarrow> 'e \<Rightarrow> 'e + unit" where
  "checkR c e = (if c then Inr () else Inl e)"

lemma checkR_conv [result_simps, simp]:
  "checkR c e = Inr u \<longleftrightarrow> c"
  "checkR c e = Inl e' \<longleftrightarrow> \<not> c \<and> e = e'"
  by (auto simp: checkR_def)

lemma checkR_eval [simp]: "checkR True e = Inr ()" "checkR False e = Inl e"
  by (simp_all add: checkR_def)

text \<open>A loop over a list that raises at the first failing element.\<close>

fun mapR :: "('a \<Rightarrow> 'e + 'b) \<Rightarrow> 'a list \<Rightarrow> 'e + 'b list" where
  "mapR f [] = Inr []"
| "mapR f (x # xs) = bindR (f x) (\<lambda>y. bindR (mapR f xs) (\<lambda>ys. Inr (y # ys)))"

lemma mapR_Inr: "mapR f xs = Inr ys \<Longrightarrow> list_all2 (\<lambda>x y. f x = Inr y) xs ys"
  by (induction xs arbitrary: ys) (auto simp: result_simps)

lemma mapR_length: "mapR f xs = Inr ys \<Longrightarrow> length ys = length xs"
  by (drule mapR_Inr) (simp add: list_all2_lengthD)

text \<open>A loop with an accumulator that raises at the first failing step.\<close>

fun foldR :: "('a \<Rightarrow> 'b \<Rightarrow> 'e + 'b) \<Rightarrow> 'a list \<Rightarrow> 'b \<Rightarrow> 'e + 'b" where
  "foldR f [] acc = Inr acc"
| "foldR f (x # xs) acc = bindR (f x acc) (foldR f xs)"

lemma foldR_invariant:
  assumes "foldR f xs a = Inr b" and "P a"
    and "\<And>x a b. x \<in> set xs \<Longrightarrow> P a \<Longrightarrow> f x a = Inr b \<Longrightarrow> P b"
  shows "P b"
  using assms
proof (induction xs arbitrary: a)
  case Nil
  then show ?case by simp
next
  case (Cons x xs)
  then obtain c where "f x a = Inr c" and "foldR f xs c = Inr b"
    by (auto simp: result_simps)
  with Cons show ?case by (metis list.set_intros)
qed

section \<open>String methods\<close>

definition is_space :: "char \<Rightarrow> bool" where
  "is_space c \<longleftrightarrow> c \<in> {CHR '' '', CHR 0x09, CHR 0x0A, CHR 0x0B, CHR 0x0C, CHR 0x0D, CHR 0x1C, CHR 0x1D, CHR 0x1E, CHR 0x1F}"

definition str_strip :: "string \<Rightarrow> string" where
  "str_strip s = rev (dropWhile is_space (rev (dropWhile is_space s)))"

text \<open>\<open>s.partition(c)\<close>: the part before the first \<open>c\<close>, whether \<open>c\<close> occurs, the part after.\<close>

fun str_partition :: "char \<Rightarrow> string \<Rightarrow> string \<times> bool \<times> string" where
  "str_partition c [] = ([], False, [])"
| "str_partition c (x # xs) =
     (if x = c then ([], True, xs)
      else case str_partition c xs of (h, f, t) \<Rightarrow> (x # h, f, t))"

text \<open>\<open>s.rpartition(c)\<close>: splits at the last \<open>c\<close>; without one, everything is the last part.\<close>

definition str_rpartition :: "char \<Rightarrow> string \<Rightarrow> string \<times> bool \<times> string" where
  "str_rpartition c s =
     (case str_partition c (rev s) of (h, f, t) \<Rightarrow> (rev t, f, rev h))"

text \<open>\<open>s.split(c)\<close> with a one-character separator: never empty.\<close>

fun str_split :: "char \<Rightarrow> string \<Rightarrow> string list" where
  "str_split c [] = [[]]"
| "str_split c (x # xs) =
     (if x = c then [] # str_split c xs
      else case str_split c xs of [] \<Rightarrow> [[x]] | y # ys \<Rightarrow> (x # y) # ys)"

text \<open>\<open>s.split()\<close>: the maximal runs of non-whitespace.\<close>

fun str_words_acc :: "string \<Rightarrow> string \<Rightarrow> string list" where
  "str_words_acc w [] = (if w = [] then [] else [rev w])"
| "str_words_acc w (x # xs) =
     (if is_space x then (if w = [] then str_words_acc [] xs else rev w # str_words_acc [] xs)
      else str_words_acc (x # w) xs)"

definition str_words :: "string \<Rightarrow> string list" where
  "str_words = str_words_acc []"

definition str_startswith :: "string \<Rightarrow> string \<Rightarrow> bool" where
  "str_startswith p s = prefix p s"

lemma str_startswith_code [code]: "str_startswith p s = (take (length p) s = p)"
  by (auto simp: str_startswith_def prefix_def intro: exI [of _ "drop (length p) s"])
    (metis append_take_drop_id)

lemma str_partition_found:
  "c \<notin> set h \<Longrightarrow> str_partition c (h @ c # t) = (h, True, t)"
  by (induction h) auto

lemma str_partition_none: "c \<notin> set s \<Longrightarrow> str_partition c s = (s, False, [])"
  by (induction s) auto

lemma str_partition_sound:
  "str_partition c s = (h, f, t) \<Longrightarrow>
     c \<notin> set h \<and> (if f then s = h @ c # t else s = h \<and> t = [])"
  by (induction s arbitrary: h f t) (auto split: if_splits prod.splits)

lemma str_split_nonempty [simp]: "str_split c s \<noteq> []"
  by (induction s) (auto split: list.splits)

text \<open>\<open>s.partition(sep)\<close> and \<open>s.split(sep)\<close> with a longer, non-empty separator; \<open>sep in s\<close>.\<close>

fun partition_sub :: "'a list \<Rightarrow> 'a list \<Rightarrow> 'a list \<times> bool \<times> 'a list" where
  "partition_sub sep [] = ([], False, [])"
| "partition_sub sep (x # xs) =
     (if take (length sep) (x # xs) = sep then ([], True, drop (length sep) (x # xs))
      else case partition_sub sep xs of (h, f, t) \<Rightarrow> (x # h, f, t))"

definition contains_sub :: "'a list \<Rightarrow> 'a list \<Rightarrow> bool" where
  "contains_sub sep s = fst (snd (partition_sub sep s))"

lemma partition_sub_sound:
  "partition_sub sep s = (h, f, t) \<Longrightarrow> (if f then s = h @ sep @ t else s = h \<and> t = [])"
  by (induction s arbitrary: h f t)
    (auto split: if_splits prod.splits, metis append_take_drop_id)

lemma partition_sub_shorter:
  assumes "p = partition_sub sep s" and "(h, q) = p" and "(f, t) = q" and "f \<and> sep \<noteq> []"
  shows "length t < length s"
proof -
  have "partition_sub sep s = (h, f, t)" using assms by simp
  from partition_sub_sound [OF this] assms(4) show ?thesis by simp
qed

function split_sub :: "'a list \<Rightarrow> 'a list \<Rightarrow> 'a list list" where
  "split_sub sep s =
     (case partition_sub sep s of (h, f, t) \<Rightarrow>
        if f \<and> sep \<noteq> [] then h # split_sub sep t else [s])"
  by pat_completeness auto
termination
  by (relation "measure (\<lambda>(_, s). length s)") (simp_all add: partition_sub_shorter)

declare split_sub.simps [simp del]

definition char_lower :: "char \<Rightarrow> char" where
  "char_lower c = (if 65 \<le> (of_char c :: nat) \<and> (of_char c :: nat) \<le> 90
                   then char_of (of_char c + 32 :: nat) else c)"

definition str_lower :: "string \<Rightarrow> string" where
  "str_lower = map char_lower"

section \<open>Decimal numbers\<close>

definition is_digit :: "char \<Rightarrow> bool" where
  "is_digit c \<longleftrightarrow> of_char c - 48 < (10 :: nat) \<and> 48 \<le> (of_char c :: nat)"

definition digit_val :: "char \<Rightarrow> nat" where
  "digit_val c = of_char c - 48"

definition digit_chr :: "nat \<Rightarrow> char" where
  "digit_chr d = char_of (48 + d)"

text \<open>\<open>str(n)\<close> for a natural number, and for an integer.\<close>

fun str_nat :: "nat \<Rightarrow> string" where
  "str_nat n = (if n < 10 then [digit_chr n] else str_nat (n div 10) @ [digit_chr (n mod 10)])"

declare str_nat.simps [simp del]

definition str_int :: "int \<Rightarrow> string" where
  "str_int i = (if i < 0 then CHR ''-'' # str_nat (nat (- i)) else str_nat (nat i))"

text \<open>
  \<open>int(s)\<close>: surrounding whitespace, an optional sign, digits; one underscore may stand
  between two digits. \<open>None\<close> is the \<open>ValueError\<close>.
\<close>

fun digits_acc :: "bool \<Rightarrow> nat \<Rightarrow> string \<Rightarrow> nat option" where
  "digits_acc after_digit a [] = (if after_digit then Some a else None)"
| "digits_acc after_digit a (c # cs) =
     (if is_digit c then digits_acc True (10 * a + digit_val c) cs
      else if c = CHR ''_'' \<and> after_digit then digits_acc False a cs
      else None)"

definition parse_nat :: "string \<Rightarrow> nat option" where
  "parse_nat s = digits_acc False 0 s"

definition parse_int :: "string \<Rightarrow> int option" where
  "parse_int s =
     (case str_strip s of
        [] \<Rightarrow> None
      | c # cs \<Rightarrow>
          if c = CHR ''-'' then map_option (\<lambda>n. - int n) (parse_nat cs)
          else if c = CHR ''+'' then map_option int (parse_nat cs)
          else map_option int (parse_nat (c # cs)))"

section \<open>Generic facts\<close>

lemma of_char_digit_chr: "d < 10 \<Longrightarrow> of_char (digit_chr d) = 48 + d"
  by (simp add: digit_chr_def of_char_of take_bit_eq_mod)

lemma is_digit_digit_chr [simp]: "d < 10 \<Longrightarrow> is_digit (digit_chr d)"
  by (simp add: is_digit_def of_char_digit_chr)

lemma digit_val_digit_chr [simp]: "d < 10 \<Longrightarrow> digit_val (digit_chr d) = d"
  by (simp add: digit_val_def of_char_digit_chr)

lemma str_nat_ne [simp]: "str_nat n \<noteq> []"
  by (subst str_nat.simps) simp

lemma str_nat_digits: "c \<in> set (str_nat n) \<Longrightarrow> is_digit c"
proof (induction n rule: str_nat.induct)
  case (1 n)
  then show ?case by (subst (asm) str_nat.simps) (auto split: if_splits)
qed

lemma is_digit_not [simp]:
  "\<not> is_digit CHR ''_''" "\<not> is_digit CHR ''-''" "\<not> is_digit CHR '':''" "\<not> is_digit CHR '',''"
  "\<not> is_digit CHR ''>''" "\<not> is_digit CHR '' ''"
  by (simp_all add: is_digit_def)

lemma digits_acc_digits:
  "(\<And>c. c \<in> set s \<Longrightarrow> is_digit c) \<Longrightarrow> s \<noteq> [] \<or> ok \<Longrightarrow>
     digits_acc ok a s = Some (foldl (\<lambda>n c. 10 * n + digit_val c) a s)"
  by (induction s arbitrary: ok a) auto

lemma digits_acc_str_nat: "digits_acc False 0 (str_nat n) = Some n"
proof -
  have "foldl (\<lambda>n c. 10 * n + digit_val c) 0 (str_nat n) = n"
  proof (induction n rule: str_nat.induct)
    case (1 n)
    then show ?case by (cases "n < 10"; subst str_nat.simps) simp_all
  qed
  then show ?thesis by (simp add: digits_acc_digits str_nat_digits)
qed

lemma parse_nat_str_nat [simp]: "parse_nat (str_nat n) = Some n"
  by (simp add: parse_nat_def digits_acc_str_nat)

lemma str_nat_inj [simp]: "str_nat m = str_nat n \<longleftrightarrow> m = n"
  by (metis digits_acc_str_nat option.inject)

text \<open>Association lists as dictionaries.\<close>

abbreviation dict_keys :: "('k \<times> 'v) list \<Rightarrow> 'k list" where
  "dict_keys d \<equiv> map fst d"

definition dict_pop :: "'k \<Rightarrow> ('k \<times> 'v) list \<Rightarrow> ('k \<times> 'v) list" where
  "dict_pop k d = filter (\<lambda>p. fst p \<noteq> k) d"

lemma map_of_dict_pop: "map_of (dict_pop k d) = (map_of d)(k := None)"
  by (induction d) (auto simp: dict_pop_def fun_eq_iff)

lemma distinct_dict_pop: "distinct (dict_keys d) \<Longrightarrow> distinct (dict_keys (dict_pop k d))"
  by (simp add: dict_pop_def distinct_map_filter)

lemma map_of_update [simp]: "map_of (AList.update k v d) = (map_of d)(k \<mapsto> v)"
  by (rule AList.update_conv')

lemma dict_keys_update [simp]:
  "set (dict_keys (AList.update k v d)) = insert k (set (dict_keys d))"
  by (simp add: AList.dom_update [simplified])

section \<open>Bounded queues\<close>

text \<open>\<open>append\<close> on a \<open>deque\<close> with a maximum length.\<close>

definition deque_append :: "nat \<Rightarrow> 'a \<Rightarrow> 'a list \<Rightarrow> 'a list" where
  "deque_append maxlen x xs = (let ys = xs @ [x] in drop (length ys - maxlen) ys)"

lemma deque_append_newest:
  "xs = drop (length ys - n) ys \<Longrightarrow> deque_append n y xs = drop (length (ys @ [y]) - n) (ys @ [y])"
  by (cases "n \<le> length ys") (auto simp: deque_append_def Let_def Suc_diff_le)

lemma length_deque_append: "length xs \<le> n \<Longrightarrow> length (deque_append n x xs) \<le> n"
  by (simp add: deque_append_def Let_def)

end
