(* ===== verification/PyFloat.thy ===== *)
theory PyFloat
  imports Prelude "HOL-Library.Log_Nat"
begin

text \<open>
  Python floats are IEEE binary64 numbers. A finite float is its exact rational value, and every
  arithmetic operation returns the exact result rounded to the nearest representable number,
  ties to even, with gradual underflow and overflow to an infinity. The same rounding with
  binary32 parameters gives the wire format of \<open>struct\<close>'s code \<open>f\<close>. The sign of a zero and the
  payload of a NaN are not represented; no modelled operation but \<open>struct.pack\<close> can tell them
  apart.
\<close>

section \<open>Values and comparison\<close>

datatype pyfloat = Fin rat | PInf | NInf | NaN

definition is_finite :: "pyfloat \<Rightarrow> bool" where
  "is_finite x = (case x of Fin _ \<Rightarrow> True | _ \<Rightarrow> False)"

lemma is_finite_simps [simp]:
  "is_finite (Fin r)" "\<not> is_finite PInf" "\<not> is_finite NInf" "\<not> is_finite NaN"
  by (simp_all add: is_finite_def)

lemma is_finite_conv: "is_finite x \<longleftrightarrow> (\<exists>r. x = Fin r)"
  by (cases x) auto

text \<open>The comparison operators: every comparison with a NaN is false.\<close>

fun flt :: "pyfloat \<Rightarrow> pyfloat \<Rightarrow> bool" where
  "flt (Fin a) (Fin b) = (a < b)"
| "flt (Fin _) PInf = True"
| "flt NInf (Fin _) = True"
| "flt NInf PInf = True"
| "flt _ _ = False"

fun fle :: "pyfloat \<Rightarrow> pyfloat \<Rightarrow> bool" where
  "fle (Fin a) (Fin b) = (a \<le> b)"
| "fle NaN _ = False"
| "fle _ NaN = False"
| "fle NInf _ = True"
| "fle _ PInf = True"
| "fle _ _ = False"

definition feq :: "pyfloat \<Rightarrow> pyfloat \<Rightarrow> bool" where
  "feq a b \<longleftrightarrow> a = b \<and> a \<noteq> NaN"

fun fneg :: "pyfloat \<Rightarrow> pyfloat" where
  "fneg (Fin a) = Fin (- a)"
| "fneg PInf = NInf"
| "fneg NInf = PInf"
| "fneg NaN = NaN"

fun fabs :: "pyfloat \<Rightarrow> pyfloat" where
  "fabs (Fin a) = Fin \<bar>a\<bar>"
| "fabs NaN = NaN"
| "fabs _ = PInf"

text \<open>
  Python's \<open>max(a, b)\<close> and \<open>min(a, b)\<close> keep the first argument unless the second compares
  strictly beyond it, which decides what a NaN does.
\<close>

definition fmax :: "pyfloat \<Rightarrow> pyfloat \<Rightarrow> pyfloat" where
  "fmax a b = (if flt a b then b else a)"

definition fmin :: "pyfloat \<Rightarrow> pyfloat \<Rightarrow> pyfloat" where
  "fmin a b = (if flt b a then b else a)"

section \<open>Rounding\<close>

text \<open>Nearest integer, ties to even; also Python's \<open>round(x)\<close> of a finite float.\<close>

definition rhe :: "rat \<Rightarrow> int" where
  "rhe x = (let n = \<lfloor>x\<rfloor>; d = x - of_int n
            in if d < 1/2 then n else if d > 1/2 then n + 1 else if even n then n else n + 1)"

definition pow2 :: "int \<Rightarrow> rat" where
  "pow2 e = (if 0 \<le> e then 2 ^ nat e else 1 / 2 ^ nat (- e))"

text \<open>The exponent of the binade of a positive rational.\<close>

definition ilog2 :: "rat \<Rightarrow> int" where
  "ilog2 x = (if 1 \<le> x then bitlen \<lfloor>x\<rfloor> - 1 else - bitlen (\<lceil>1 / x\<rceil> - 1))"

definition ulp_exp :: "int \<Rightarrow> int \<Rightarrow> rat \<Rightarrow> int" where
  "ulp_exp mb emin r = max (ilog2 \<bar>r\<bar> - mb) emin"

definition quant :: "int \<Rightarrow> int \<Rightarrow> rat \<Rightarrow> rat" where
  "quant mb emin r =
     (if r = 0 then 0
      else of_int (rhe (r / pow2 (ulp_exp mb emin r))) * pow2 (ulp_exp mb emin r))"

definition huge64 :: rat where "huge64 = 2 ^ 1024"

definition rnd64 :: "rat \<Rightarrow> pyfloat" where
  "rnd64 r = (let q = quant 52 (- 1074) r
              in if huge64 \<le> q then PInf else if q \<le> - huge64 then NInf else Fin q)"

section \<open>Arithmetic\<close>

fun fadd :: "pyfloat \<Rightarrow> pyfloat \<Rightarrow> pyfloat" where
  "fadd (Fin a) (Fin b) = rnd64 (a + b)"
| "fadd NaN _ = NaN"
| "fadd _ NaN = NaN"
| "fadd PInf NInf = NaN"
| "fadd NInf PInf = NaN"
| "fadd PInf _ = PInf"
| "fadd _ PInf = PInf"
| "fadd NInf _ = NInf"
| "fadd _ NInf = NInf"

definition fsub :: "pyfloat \<Rightarrow> pyfloat \<Rightarrow> pyfloat" where
  "fsub a b = fadd a (fneg b)"

definition sgn_inf :: "bool \<Rightarrow> pyfloat" where
  "sgn_inf pos = (if pos then PInf else NInf)"

fun fpos :: "pyfloat \<Rightarrow> bool" where
  "fpos (Fin a) = (0 < a)" | "fpos PInf = True" | "fpos _ = False"

fun fmul :: "pyfloat \<Rightarrow> pyfloat \<Rightarrow> pyfloat" where
  "fmul (Fin a) (Fin b) = rnd64 (a * b)"
| "fmul NaN _ = NaN"
| "fmul _ NaN = NaN"
| "fmul a b = (if a = Fin 0 \<or> b = Fin 0 then NaN else sgn_inf (fpos a = fpos b))"

text \<open>Division: a zero divisor raises in Python.\<close>

fun fdiv :: "pyfloat \<Rightarrow> pyfloat \<Rightarrow> pyfloat result" where
  "fdiv a (Fin b) =
     (if b = 0 then Err ZeroDivisionError
      else case a of Fin x \<Rightarrow> Ok (rnd64 (x / b)) | NaN \<Rightarrow> Ok NaN
           | PInf \<Rightarrow> Ok (sgn_inf (0 < b)) | NInf \<Rightarrow> Ok (sgn_inf (b < 0)))"
| "fdiv a NaN = Ok NaN"
| "fdiv a _ = (case a of Fin x \<Rightarrow> Ok (Fin 0) | _ \<Rightarrow> Ok NaN)"

text \<open>
  \<open>float(i)\<close> of an integer; \<open>int(x)\<close>, \<open>math.floor(x)\<close> and \<open>round(x)\<close> of a float, which raise on
  infinities and NaN.
\<close>

definition float_of_int :: "int \<Rightarrow> pyfloat result" where
  "float_of_int i = (case rnd64 (of_int i) of Fin r \<Rightarrow> Ok (Fin r) | _ \<Rightarrow> Err OverflowError)"

text \<open>An integer as the operand of a float operation.\<close>

definition fl :: "int \<Rightarrow> pyfloat" where "fl i = rnd64 (of_int i)"

definition int_of_rat :: "(rat \<Rightarrow> int) \<Rightarrow> pyfloat \<Rightarrow> int result" where
  "int_of_rat f x = (case x of Fin r \<Rightarrow> Ok (f r) | NaN \<Rightarrow> Err (ValueError ''cannot convert float NaN to integer'')
                      | _ \<Rightarrow> Err OverflowError)"

definition ftrunc :: "pyfloat \<Rightarrow> int result" where
  "ftrunc = int_of_rat (\<lambda>r. if 0 \<le> r then \<lfloor>r\<rfloor> else \<lceil>r\<rceil>)"

definition ffloor :: "pyfloat \<Rightarrow> int result" where
  "ffloor = int_of_rat (\<lambda>r. \<lfloor>r\<rfloor>)"

definition fround :: "pyfloat \<Rightarrow> int result" where
  "fround = int_of_rat rhe"

section \<open>Facts on rounding\<close>

lemma rhe_of_int [simp]: "rhe (of_int n) = n"
  by (simp add: rhe_def)

lemma rhe_bounds: "of_int (rhe x) - 1/2 \<le> x" "x \<le> of_int (rhe x) + 1/2"
  by (auto simp: rhe_def Let_def) linarith+

lemma rhe_mono: "x \<le> y \<Longrightarrow> rhe x \<le> rhe y"
proof (rule ccontr)
  assume le: "x \<le> y" and "\<not> rhe x \<le> rhe y"
  then have "rhe y + 1 \<le> rhe x" by simp
  then have lt: "of_int (rhe y) + 1 \<le> (of_int (rhe x) :: rat)"
    by (metis of_int_1 of_int_add of_int_le_iff)
  with rhe_bounds(1) [of x] rhe_bounds(2) [of y] le have "x = y" by linarith
  with \<open>\<not> rhe x \<le> rhe y\<close> show False by simp
qed

lemma pow2_pos [simp]: "0 < pow2 e"
  by (simp add: pow2_def)

lemma pow2_nonzero [simp]: "pow2 e \<noteq> 0"
  using pow2_pos [of e] by linarith

lemma pow2_powi: "pow2 e = 2 powi e"
  by (simp add: pow2_def power_int_def power_one_over)

lemma pow2_add: "pow2 (a + b) = pow2 a * pow2 b"
  by (simp add: pow2_powi power_int_add)

lemma pow2_nat [simp]: "0 \<le> e \<Longrightarrow> pow2 e = of_int (2 ^ nat e)"
  by (simp add: pow2_def)

lemma pow2_mono: "a \<le> b \<Longrightarrow> pow2 a \<le> pow2 b"
  by (simp add: pow2_powi power_int_increasing)

lemma pow2_strict_mono: "a < b \<Longrightarrow> pow2 a < pow2 b"
  by (simp add: pow2_powi power_int_strict_increasing)

lemma pow2_less_iff: "pow2 a < pow2 b \<longleftrightarrow> a < b"
  using pow2_strict_mono pow2_mono by (metis linorder_not_less)

lemma bitlen_bounds_rat:
  assumes "0 < n" shows "pow2 (bitlen n - 1) \<le> of_int n" and "of_int n + 1 \<le> pow2 (bitlen n)"
proof -
  have b: "1 \<le> bitlen n"
    using assms bitlen_nonneg [of n] bitlen_eq_zero_iff [of n] by linarith
  have "2 ^ nat (bitlen n - 1) \<le> n \<and> n < 2 ^ nat (bitlen n)" by (rule bitlen_bounds [OF assms])
  then have "of_int (2 ^ nat (bitlen n - 1)) \<le> (of_int n :: rat)" and
    "of_int (n + 1) \<le> (of_int (2 ^ nat (bitlen n)) :: rat)"
    by (simp_all only: of_int_le_iff) simp
  then show "pow2 (bitlen n - 1) \<le> of_int n" and "of_int n + 1 \<le> pow2 (bitlen n)"
    using b by simp_all
qed

lemma ilog2_bounds:
  assumes "0 < x" shows "pow2 (ilog2 x) \<le> x \<and> x < pow2 (ilog2 x + 1)"
proof (cases "1 \<le> x")
  case True
  then have "0 < \<lfloor>x\<rfloor>" by simp
  from bitlen_bounds_rat [OF this] have "pow2 (bitlen \<lfloor>x\<rfloor> - 1) \<le> of_int \<lfloor>x\<rfloor>"
    and "of_int \<lfloor>x\<rfloor> + 1 \<le> pow2 (bitlen \<lfloor>x\<rfloor>)" .
  moreover have "of_int \<lfloor>x\<rfloor> \<le> x" and "x < of_int \<lfloor>x\<rfloor> + 1" by linarith+
  ultimately have "pow2 (bitlen \<lfloor>x\<rfloor> - 1) \<le> x" and "x < pow2 (bitlen \<lfloor>x\<rfloor>)" by linarith+
  with True show ?thesis by (simp add: ilog2_def)
next
  case False
  define m where "m = \<lceil>1 / x\<rceil> - 1"
  have "1 < 1 / x" using False assms by (simp add: less_divide_eq)
  then have m: "0 < m" unfolding m_def by linarith
  have up: "of_int m < 1 / x" and lo: "1 / x \<le> of_int m + 1" unfolding m_def by linarith+
  have "1 / x \<le> pow2 (bitlen m)" using lo bitlen_bounds_rat(2) [OF m] by linarith
  then have 1: "pow2 (- bitlen m) \<le> x"
    using assms by (simp add: pow2_powi power_int_minus inverse_eq_divide divide_le_eq mult.commute
        pos_divide_le_eq)
  have "pow2 (bitlen m - 1) < 1 / x" using up bitlen_bounds_rat(1) [OF m] by linarith
  then have "x * pow2 (bitlen m - 1) < 1" using assms by (simp add: less_divide_eq mult.commute)
  moreover have "pow2 (bitlen m - 1) * pow2 (- bitlen m + 1) = 1"
    by (simp flip: pow2_add)
  ultimately have 2: "x < pow2 (- bitlen m + 1)"
    by (metis mult.commute mult_less_cancel_right_pos pow2_pos)
  from 1 2 False show ?thesis by (simp add: ilog2_def m_def)
qed

lemma ilog2_le: "0 < x \<Longrightarrow> x < pow2 e \<Longrightarrow> ilog2 x < e"
  using ilog2_bounds [of x] by (metis order_le_less_trans pow2_less_iff)

text \<open>A multiple of a unit that is not finer than the format is represented exactly.\<close>

lemma quant_exact:
  assumes "\<bar>n\<bar> < 2 ^ nat (mb + 1)" and "emin \<le> e" and "0 \<le> mb"
  shows "quant mb emin (of_int n * pow2 e) = of_int n * pow2 e"
proof (cases "n = 0")
  case True
  then show ?thesis by (simp add: quant_def)
next
  case False
  define r where "r = of_int n * pow2 e"
  define u where "u = ulp_exp mb emin r"
  have ab: "\<bar>r\<bar> = of_int \<bar>n\<bar> * pow2 e" by (simp add: r_def abs_mult order_less_imp_le [OF pow2_pos])
  have "of_int \<bar>n\<bar> < (of_int (2 ^ nat (mb + 1)) :: rat)" using assms(1) by (simp only: of_int_less_iff)
  then have "of_int \<bar>n\<bar> < pow2 (mb + 1)" using assms(3) by simp
  then have "\<bar>r\<bar> < pow2 (mb + 1) * pow2 e" unfolding ab by (rule mult_strict_right_mono) simp
  then have lt: "\<bar>r\<bar> < pow2 (mb + 1 + e)" by (simp add: pow2_add)
  have "0 < \<bar>r\<bar>" using False by (simp add: r_def)
  from ilog2_le [OF this lt] have ue: "u \<le> e" using assms(2) by (simp add: u_def ulp_exp_def)
  then have "r / pow2 u = of_int (n * 2 ^ nat (e - u))"
    by (simp add: r_def field_simps flip: pow2_add pow2_nat)
      (metis add.commute diff_add_cancel diff_ge_0_iff_ge of_int_numeral of_int_power pow2_add pow2_nat)
  then have "rhe (r / pow2 u) = n * 2 ^ nat (e - u)" by (metis rhe_of_int)
  then have "of_int (rhe (r / pow2 u)) = r / pow2 u"
    using \<open>r / pow2 u = _\<close> by simp
  then have "quant mb emin r = r"
    using False by (simp add: quant_def r_def u_def)
  then show ?thesis by (simp add: r_def)
qed

lemma rnd64_of_int:
  assumes "\<bar>n\<bar> < 2 ^ 53" shows "rnd64 (of_int n) = Fin (of_int n)"
proof -
  have "quant 52 (- 1074) (of_int n * pow2 0) = of_int n * pow2 0"
    by (rule quant_exact) (use assms in simp_all)
  then have q: "quant 52 (- 1074) (of_int n) = of_int n" by (simp add: pow2_def)
  have "\<bar>of_int n\<bar> < (2 ^ 53 :: rat)" using assms
    by (metis of_int_abs of_int_less_iff of_int_numeral of_int_power)
  also have "\<dots> \<le> huge64" unfolding huge64_def by (rule power_increasing) simp_all
  finally have "- huge64 < of_int n" and "of_int n < huge64" by linarith+
  then show ?thesis by (simp add: rnd64_def Let_def q)
qed

lemma rnd64_0 [simp]: "rnd64 0 = Fin 0" using rnd64_of_int [of 0] by simp
lemma rnd64_1 [simp]: "rnd64 1 = Fin 1" using rnd64_of_int [of 1] by simp

lemma rnd64_numeral:
  "(numeral k :: int) < 2 ^ 53 \<Longrightarrow> rnd64 (numeral k) = Fin (numeral k)"
  using rnd64_of_int [of "numeral k"] by simp

lemma rnd64_neg_numeral:
  "(numeral k :: int) < 2 ^ 53 \<Longrightarrow> rnd64 (- numeral k) = Fin (- numeral k)"
  using rnd64_of_int [of "- numeral k"] by simp

lemmas float_eval = rnd64_numeral rnd64_neg_numeral

end
