(* ===== verification/PyValue.thy ===== *)
theory PyValue
  imports PyFloat
begin

text \<open>
  Untyped Python data as the dashboard and the bridge receive it from \<open>json.loads\<close>: the value
  datatype, \<open>isinstance\<close> tests, truth values, \<open>dict.get\<close>, and the numeric comparisons that mix
  \<open>int\<close>, \<open>bool\<close> and \<open>float\<close>. A JSON object is an association list in insertion order.
\<close>

section \<open>Values\<close>

datatype pyval =
    VNone
  | VBool bool
  | VInt int
  | VFloat pyfloat
  | VStr string
  | VList "pyval list"
  | VDict "(string \<times> pyval) list"

type_synonym pydict = "(string \<times> pyval) list"

text \<open>\<open>isinstance\<close>: a \<open>bool\<close> is an \<open>int\<close> in Python.\<close>

fun is_int :: "pyval \<Rightarrow> bool" where
  "is_int (VInt _) = True" | "is_int (VBool _) = True" | "is_int _ = False"

fun is_bool :: "pyval \<Rightarrow> bool" where
  "is_bool (VBool _) = True" | "is_bool _ = False"

fun is_str :: "pyval \<Rightarrow> bool" where
  "is_str (VStr _) = True" | "is_str _ = False"

fun is_dict :: "pyval \<Rightarrow> bool" where
  "is_dict (VDict _) = True" | "is_dict _ = False"

fun is_list :: "pyval \<Rightarrow> bool" where
  "is_list (VList _) = True" | "is_list _ = False"

fun is_num :: "pyval \<Rightarrow> bool" where
  "is_num (VFloat _) = True" | "is_num v = is_int v"

text \<open>The value of an \<open>int\<close> or a \<open>bool\<close>; the number a value stands for in a comparison.\<close>

fun int_of :: "pyval \<Rightarrow> int" where
  "int_of (VInt i) = i" | "int_of (VBool b) = of_bool b" | "int_of _ = 0"

fun num_of :: "pyval \<Rightarrow> pyfloat" where
  "num_of (VFloat x) = x" | "num_of v = Fin (of_int (int_of v))"

fun truthy :: "pyval \<Rightarrow> bool" where
  "truthy VNone = False"
| "truthy (VBool b) = b"
| "truthy (VInt i) = (i \<noteq> 0)"
| "truthy (VFloat x) = (x \<noteq> Fin 0)"
| "truthy (VStr s) = (s \<noteq> [])"
| "truthy (VList xs) = (xs \<noteq> [])"
| "truthy (VDict d) = (d \<noteq> [])"

text \<open>
  Equality of hashable values (the ones a \<open>dict\<close> can be keyed by): numbers are equal by value
  across \<open>bool\<close>, \<open>int\<close> and \<open>float\<close>. \<open>vnorm\<close> picks one representative.
\<close>

fun vnorm :: "pyval \<Rightarrow> pyval" where
  "vnorm (VBool b) = VInt (of_bool b)"
| "vnorm (VFloat (Fin r)) = (if of_int \<lfloor>r\<rfloor> = r then VInt \<lfloor>r\<rfloor> else VFloat (Fin r))"
| "vnorm v = v"

definition py_eq :: "pyval \<Rightarrow> pyval \<Rightarrow> bool" where
  "py_eq a b \<longleftrightarrow> vnorm a = vnorm b \<and> a \<noteq> VFloat NaN"

lemma py_eq_str [simp]: "py_eq v (VStr s) \<longleftrightarrow> v = VStr s"
proof (cases v)
  case (VFloat x)
  then show ?thesis by (cases x) (auto simp: py_eq_def)
qed (auto simp: py_eq_def)

section \<open>Dictionaries\<close>

definition vget :: "string \<Rightarrow> pydict \<Rightarrow> pyval" where
  "vget k d = (case map_of d k of None \<Rightarrow> VNone | Some v \<Rightarrow> v)"

definition vget_or :: "string \<Rightarrow> pyval \<Rightarrow> pydict \<Rightarrow> pyval" where
  "vget_or k dflt d = (case map_of d k of None \<Rightarrow> dflt | Some v \<Rightarrow> v)"

text \<open>\<open>(v or {})\<close> where a falsy value stands for the empty object.\<close>

definition dict_or_empty :: "pyval \<Rightarrow> pydict" where
  "dict_or_empty v = (case v of VDict d \<Rightarrow> d | _ \<Rightarrow> [])"

lemma vget_update [simp]:
  "vget k (AList.update k' v d) = (if k = k' then v else vget k d)"
  by (simp add: vget_def)

lemma vget_Nil [simp]: "vget k [] = VNone"
  by (simp add: vget_def)

lemma vget_Cons [simp]: "vget k ((k', v) # d) = (if k = k' then v else vget k d)"
  by (auto simp: vget_def)

lemma is_int_conv: "is_int v \<longleftrightarrow> (\<exists>i. v = VInt i) \<or> (\<exists>b. v = VBool b)"
  by (cases v) auto

lemma is_str_conv: "is_str v \<longleftrightarrow> (\<exists>s. v = VStr s)"
  by (cases v) auto

lemma is_dict_conv: "is_dict v \<longleftrightarrow> (\<exists>d. v = VDict d)"
  by (cases v) auto

lemma is_list_conv: "is_list v \<longleftrightarrow> (\<exists>xs. v = VList xs)"
  by (cases v) auto

end
