(* ===== verification/History.thy ===== *)
theory History
  imports PyValue
begin

text \<open>
  The bounded histories of the dashboard (\<^verbatim>\<open>apps/dashboard/server.py\<close>): \<open>trim_history\<close> drops
  what is older than the retention span and caps the count, \<open>slice_history\<close> cuts the window a
  chart draws, and the two chart projections. Entries are appended in observation order, so both
  functions only ever walk a prefix or a suffix; the theorems say that on a history in time order
  this walk selects exactly the entries the span asks for, and that trimming never takes away what
  a narrower window would show.
\<close>

section \<open>Trimming\<close>

text \<open>How many leading entries the loop of \<open>trim_history\<close> counts as expired.\<close>

fun expired_count :: "string \<Rightarrow> int \<Rightarrow> pydict list \<Rightarrow> nat" where
  "expired_count key cutoff [] = 0"
| "expired_count key cutoff (entry # rest) =
     (let stamp = vget key entry
      in if \<not> is_num stamp \<or> fle (Fin (of_int cutoff)) (num_of stamp) then 0
         else Suc (expired_count key cutoff rest))"

definition trim_history :: "pydict list \<Rightarrow> string \<Rightarrow> int \<Rightarrow> int \<Rightarrow> nat \<Rightarrow> pydict list" where
  "trim_history entries key now_unix_ms retain_ms max_entries =
     (let cutoff = now_unix_ms - retain_ms;
          kept = drop (expired_count key cutoff entries) entries
      in if length kept > max_entries then drop (length kept - max_entries) kept else kept)"

section \<open>Slicing\<close>

text \<open>The newest numeric stamp, found from the end.\<close>

fun newest_stamp :: "string \<Rightarrow> pydict list \<Rightarrow> pyval option" where
  "newest_stamp key [] = None"
| "newest_stamp key (entry # older) =
     (if is_num (vget key entry) then Some (vget key entry) else newest_stamp key older)"

text \<open>\<open>newest - window_ms\<close>: exact on integers, rounded on a float stamp.\<close>

definition cutoff_of :: "pyval \<Rightarrow> int \<Rightarrow> pyfloat" where
  "cutoff_of newest window =
     (case newest of VFloat x \<Rightarrow> fsub x (rnd64 (of_int window))
      | v \<Rightarrow> Fin (of_int (int_of v - window)))"

fun kept_count :: "string \<Rightarrow> pyfloat \<Rightarrow> pydict list \<Rightarrow> nat" where
  "kept_count key cutoff [] = 0"
| "kept_count key cutoff (entry # older) =
     (let stamp = vget key entry
      in if is_num stamp \<and> flt (num_of stamp) cutoff then 0
         else Suc (kept_count key cutoff older))"

definition slice_history :: "pydict list \<Rightarrow> string \<Rightarrow> int option \<Rightarrow> pydict list" where
  "slice_history entries key window_ms =
     (case window_ms of
        None \<Rightarrow> entries
      | Some w \<Rightarrow>
          (if entries = [] then entries
           else case newest_stamp key (rev entries) of
                  None \<Rightarrow> entries
                | Some newest \<Rightarrow>
                    (let kept = kept_count key (cutoff_of newest w) (rev entries)
                     in if kept = 0 then [] else drop (length entries - kept) entries)))"

section \<open>Chart projections\<close>

text \<open>\<open>x.get(k)\<close> on a value that must be an object, and the idiom \<open>x.get(k) or {}\<close>.\<close>

definition attr_get :: "string \<Rightarrow> pyval \<Rightarrow> pyval result" where
  "attr_get k v = (case v of VDict d \<Rightarrow> Ok (vget k d) | _ \<Rightarrow> Err (AttributeError ''get''))"

definition or_empty :: "pyval \<Rightarrow> pyval" where
  "or_empty v = (if truthy v then v else VDict [])"

definition chart_telemetry_row :: "pydict \<Rightarrow> pyval result" where
  "chart_telemetry_row entry =
     bindR (attr_get ''nominal'' (or_empty (vget ''slot_processing'' entry))) (\<lambda>nominal.
     bindR (attr_get ''latest_estimated_us'' (or_empty nominal)) (\<lambda>latest.
     Ok (VDict
       [(''observed_unix_ms'', vget ''observed_unix_ms'' entry),
        (''link_id'', vget ''link_id'' entry),
        (''slot_processing'', VDict [(''nominal'', VDict [(''latest_estimated_us'', latest)])])])))"

definition resource_roles :: "string list" where
  "resource_roles = [''sionna'', ''gpu_channel'', ''web_ui'']"

definition chart_resource_row :: "pydict \<Rightarrow> pyval result" where
  "chart_resource_row entry =
     (let roles = or_empty (vget ''roles'' entry); pcie = or_empty (vget ''pcie'' entry)
      in bindR (mapR (\<lambda>role.
                  bindR (attr_get role roles) (\<lambda>r.
                  bindR (attr_get ''cpu_util_percent'' (or_empty r)) (\<lambda>c.
                  Ok (role, VDict [(''cpu_util_percent'', c)])))) resource_roles) (\<lambda>rows.
         bindR (attr_get ''other_os_cpu_cores'' (or_empty (vget ''system'' entry))) (\<lambda>other.
         bindR (attr_get ''h2d_mb_s'' pcie) (\<lambda>h2d.
         bindR (attr_get ''d2h_mb_s'' pcie) (\<lambda>d2h.
         Ok (VDict
           [(''sampled_unix_ms'', vget ''sampled_unix_ms'' entry),
            (''roles'', VDict rows),
            (''system'', VDict [(''other_os_cpu_cores'', other)]),
            (''pcie'', VDict [(''h2d_mb_s'', h2d), (''d2h_mb_s'', d2h)])]))))))"

section \<open>Histories in time order\<close>

text \<open>Every entry carries an integer stamp, and the stamps do not decrease.\<close>

definition stamp :: "string \<Rightarrow> pydict \<Rightarrow> int" where
  "stamp key entry = int_of (vget key entry)"

definition in_time_order :: "string \<Rightarrow> pydict list \<Rightarrow> bool" where
  "in_time_order key entries \<longleftrightarrow>
     (\<forall>e \<in> set entries. \<exists>t. vget key e = VInt t) \<and> sorted (map (stamp key) entries)"

lemma in_time_order_Cons:
  "in_time_order key (e # es) \<longleftrightarrow>
     (\<exists>t. vget key e = VInt t) \<and> (\<forall>x \<in> set es. stamp key e \<le> stamp key x) \<and> in_time_order key es"
  by (auto simp: in_time_order_def)

lemma in_time_order_drop: "in_time_order key es \<Longrightarrow> in_time_order key (drop n es)"
  by (auto simp: in_time_order_def sorted_wrt_drop drop_map [symmetric] dest: in_set_dropD)

lemma in_time_order_snoc:
  "in_time_order key (es @ [e]) \<longleftrightarrow>
     (\<exists>t. vget key e = VInt t) \<and> (\<forall>x \<in> set es. stamp key x \<le> stamp key e) \<and> in_time_order key es"
  by (auto simp: in_time_order_def sorted_append)

lemma num_of_stamp: "vget key e = VInt t \<Longrightarrow> num_of (vget key e) = Fin (of_int (stamp key e))"
  by (simp add: stamp_def)

lemma drop_expired:
  "in_time_order key es \<Longrightarrow>
     drop (expired_count key cutoff es) es = filter (\<lambda>e. cutoff \<le> stamp key e) es"
proof (induction es)
  case Nil
  then show ?case by simp
next
  case (Cons e es)
  then obtain t where t: "vget key e = VInt t" and io: "in_time_order key es"
    and le: "\<forall>x \<in> set es. stamp key e \<le> stamp key x" by (auto simp: in_time_order_Cons)
  show ?case
  proof (cases "cutoff \<le> stamp key e")
    case True
    with le have "filter (\<lambda>e. cutoff \<le> stamp key e) es = es"
      by (auto simp: filter_id_conv)
    with True t show ?thesis by (simp add: stamp_def)
  next
    case False
    with t Cons.IH [OF io] show ?thesis by (simp add: stamp_def)
  qed
qed

lemma kept_length:
  "in_time_order key es \<Longrightarrow>
     kept_count key (Fin (of_int cutoff)) (rev es) = length (filter (\<lambda>e. cutoff \<le> stamp key e) es)"
proof (induction es rule: rev_induct)
  case Nil
  then show ?case by simp
next
  case (snoc e es)
  then obtain t where t: "vget key e = VInt t" and io: "in_time_order key es"
    and le: "\<forall>x \<in> set es. stamp key x \<le> stamp key e" by (auto simp: in_time_order_snoc)
  show ?case
  proof (cases "cutoff \<le> stamp key e")
    case True
    with t snoc.IH [OF io] show ?thesis by (simp add: stamp_def)
  next
    case False
    with le have "filter (\<lambda>e. cutoff \<le> stamp key e) es = []"
      by (force simp: filter_empty_conv)
    with False t show ?thesis by (simp add: stamp_def)
  qed
qed

lemma filter_suffix:
  "in_time_order key es \<Longrightarrow>
     drop (length es - length (filter (\<lambda>e. cutoff \<le> stamp key e) es)) es
       = filter (\<lambda>e. cutoff \<le> stamp key e) es"
proof (induction es rule: rev_induct)
  case Nil
  then show ?case by simp
next
  case (snoc e es)
  let ?f = "filter (\<lambda>e. cutoff \<le> stamp key e) es"
  have io: "in_time_order key es" and le: "\<forall>x \<in> set es. stamp key x \<le> stamp key e"
    using snoc.prems by (auto simp: in_time_order_snoc)
  show ?case
  proof (cases "cutoff \<le> stamp key e")
    case True
    have "length ?f \<le> length es" by simp
    with True snoc.IH [OF io] show ?thesis by (simp add: Suc_diff_le)
  next
    case False
    with le have "?f = []" by (force simp: filter_empty_conv)
    with False show ?thesis by simp
  qed
qed

lemma newest_last:
  "in_time_order key es \<Longrightarrow> es \<noteq> [] \<Longrightarrow> newest_stamp key (rev es) = Some (VInt (stamp key (last es)))"
  by (cases es rule: rev_cases) (auto simp: in_time_order_snoc stamp_def)

lemma slice_filter:
  assumes "in_time_order key es" and "es \<noteq> []"
  shows "slice_history es key (Some w) = filter (\<lambda>e. stamp key (last es) - w \<le> stamp key e) es"
proof -
  let ?c = "stamp key (last es) - w"
  let ?k = "kept_count key (Fin (of_int ?c)) (rev es)"
  have "slice_history es key (Some w) = (if ?k = 0 then [] else drop (length es - ?k) es)"
    using newest_last [OF assms] assms(2) by (simp add: slice_history_def cutoff_of_def Let_def)
  with kept_length [OF assms(1), of ?c] filter_suffix [OF assms(1), of ?c] show ?thesis
    by (metis length_0_conv)
qed

lemma trim_filter:
  assumes "in_time_order key es"
  shows "trim_history es key now retain m =
    (let f = filter (\<lambda>e. now - retain \<le> stamp key e) es in drop (length f - m) f)"
  by (simp add: trim_history_def Let_def drop_expired [OF assms])

text \<open>On a history in time order, \<open>trim_history\<close> keeps exactly the entries of the last
  \<open>retain_ms\<close>, and of those the newest \<open>max_entries\<close>.\<close>

theorem trim_history_exact:
  assumes "in_time_order key entries"
  shows "trim_history entries key now retain m =
      drop (length (filter (\<lambda>e. now - retain \<le> stamp key e) entries) - m)
        (filter (\<lambda>e. now - retain \<le> stamp key e) entries)
    \<and> length (trim_history entries key now retain m) \<le> m
    \<and> in_time_order key (trim_history entries key now retain m)"
proof -
  let ?f = "filter (\<lambda>e. now - retain \<le> stamp key e) entries"
  have eq: "trim_history entries key now retain m = drop (length ?f - m) ?f"
    by (simp add: trim_filter [OF assms] Let_def)
  have "in_time_order key ?f" using assms
    by (auto simp: in_time_order_def sorted_wrt_map intro: sorted_wrt_filter)
  with eq show ?thesis by (simp add: in_time_order_drop)
qed

definition sample_history :: "pydict list" where
  "sample_history = [[(''t'', VInt 10)], [(''t'', VInt 20)], [(''t'', VInt 30)], [(''t'', VInt 40)]]"

lemma sample_in_order: "in_time_order ''t'' sample_history"
  by (simp add: in_time_order_def sample_history_def stamp_def)

theorem trim_history_exact_witness:
  "trim_history sample_history ''t'' 45 30 2 = [[(''t'', VInt 30)], [(''t'', VInt 40)]]"
  using trim_history_exact [OF sample_in_order, of 45 30 2]
  by (simp add: sample_history_def stamp_def)

text \<open>Trimming loses nothing a chart would draw: when the newest entry is current and the
  window is no wider than the retention span, slicing the trimmed history gives the same entries
  as slicing the untrimmed one, as long as the count cap does not bind.\<close>

theorem slice_after_trim:
  assumes "in_time_order key entries" and "entries \<noteq> []"
    and "stamp key (last entries) \<le> now" and "now - retain \<le> stamp key (last entries) - window"
    and "0 \<le> window"
    and "length (filter (\<lambda>e. now - retain \<le> stamp key e) entries) \<le> m"
  shows "slice_history (trim_history entries key now retain m) key (Some window)
       = slice_history entries key (Some window)"
proof -
  let ?f = "filter (\<lambda>e. now - retain \<le> stamp key e) entries"
  have trim: "trim_history entries key now retain m = ?f"
    using assms(6) by (simp add: trim_filter [OF assms(1)] Let_def)
  have lastk: "now - retain \<le> stamp key (last entries)" using assms(4,5) by linarith
  have ne: "?f \<noteq> []" using lastk assms(2) by (metis (mono_tags) filter_empty_conv last_in_set)
  have last: "last ?f = last entries"
    using lastk assms(2) by (cases entries rule: rev_cases) simp_all
  have "in_time_order key ?f" using trim_history_exact [OF assms(1), of now retain m] trim by simp
  from slice_filter [OF this ne] last have
    "slice_history ?f key (Some window)
       = filter (\<lambda>e. stamp key (last entries) - window \<le> stamp key e) ?f" by simp
  also have "\<dots> = filter (\<lambda>e. stamp key (last entries) - window \<le> stamp key e) entries"
    using assms(4) by (auto simp: filter_filter intro!: filter_cong)
  finally show ?thesis by (simp add: trim slice_filter [OF assms(1,2)])
qed

theorem slice_after_trim_witness:
  "slice_history (trim_history sample_history ''t'' 45 35 9) ''t'' (Some 15)
     = [[(''t'', VInt 30)], [(''t'', VInt 40)]]"
  using slice_after_trim [OF sample_in_order, of 45 35 15 9]
    slice_filter [OF sample_in_order, of 15]
  by (simp add: sample_history_def stamp_def)

end
