(* ===== verification/Delivery.thy ===== *)
theory Delivery
  imports PyValue "HOL-Library.List_Lexorder" "HOL-Library.Char_ord"
begin

text \<open>
  The dashboard's two read-only judgements on the broker feed
  (\<^verbatim>\<open>apps/dashboard/server.py\<close>): \<open>parse_telemetry_frame\<close>, which accepts a PUB frame, and
  \<open>delivery_status\<close>, which correlates one Sionna batch acknowledgement with the sequence numbers
  the back end reports. The theorems say what a reported \<open>backend_applied\<close> proves about every
  link, that the counters agree with the rows, and that a stale frame never confirms anything.
  \<open>json.loads\<close> is the argument \<open>loads\<close>; \<open>None\<close> is its \<open>JSONDecodeError\<close>.
\<close>

section \<open>Telemetry frames\<close>

definition parse_telemetry_frame ::
  "(string \<Rightarrow> pyval option) \<Rightarrow> string \<Rightarrow> (string \<times> pydict) result" where
  "parse_telemetry_frame loads frame =
     (case str_partition CHR '' '' frame of (topic, found, body) \<Rightarrow>
        if \<not> found then Err (ValueError ''invalid telemetry frame'')
        else case loads body of
               None \<Rightarrow> Err (ValueError ''invalid telemetry frame'')
             | Some payload \<Rightarrow>
                 if topic = [] \<or> \<not> is_dict payload then Err (ValueError ''invalid telemetry frame'')
                 else let d = dict_or_empty payload
                      in if vget ''event'' d \<noteq> VStr ''telemetry''
                         then Err (ValueError ''unexpected telemetry event'')
                         else if vget ''link_id'' d \<noteq> VStr topic
                         then Err (ValueError ''telemetry topic/link_id mismatch'')
                         else Ok (topic, d))"

text \<open>A frame is accepted exactly when it is a non-empty topic without a space, one space, and
  a JSON object that is a telemetry event for that very topic.\<close>

theorem parse_telemetry_frame_accepts:
  "parse_telemetry_frame loads frame = Ok (topic, d) \<longleftrightarrow>
     (\<exists>body. frame = topic @ CHR '' '' # body \<and> CHR '' '' \<notin> set topic \<and> topic \<noteq> []
        \<and> loads body = Some (VDict d) \<and> vget ''event'' d = VStr ''telemetry''
        \<and> vget ''link_id'' d = VStr topic)"
  (is "?lhs \<longleftrightarrow> ?rhs")
proof
  assume ?lhs
  obtain h f b where p: "str_partition CHR '' '' frame = (h, f, b)" by (metis prod_cases3)
  from \<open>?lhs\<close> p str_partition_sound [OF p] show ?rhs
    by (auto simp: parse_telemetry_frame_def Let_def is_dict_conv dict_or_empty_def
        split: if_splits option.splits)
next
  assume ?rhs
  then show ?lhs
    by (auto simp: parse_telemetry_frame_def str_partition_found dict_or_empty_def)
qed

section \<open>Delivery status\<close>

record link_row =
  lr_link_id :: string
  lr_fresh :: bool
  lr_stale :: bool
  lr_age :: "pyfloat option"
  lr_expected_seqno :: "int option"
  lr_observed_seqno :: pyval
  lr_observed_slot :: pyval
  lr_profile_active :: bool
  lr_matrix_profile_active :: bool
  lr_array :: pydict
  lr_backend :: pyval
  lr_applied :: bool
  lr_warming_up :: bool
  lr_warmup_until_slot :: int
  lr_usable :: bool

record delivery =
  d_state :: string
  d_batch_id :: pyval
  d_backend :: "string option"
  d_control_received :: bool
  d_control_received_links :: nat
  d_expected_links :: nat
  d_backend_applied :: bool
  d_backend_applied_links :: nat
  d_backend_usable :: bool
  d_backend_usable_links :: nat
  d_stale_links :: nat
  d_warmup_links :: nat
  d_links :: "link_row list"

definition telemetry_fresh_seconds :: pyfloat where
  "telemetry_fresh_seconds = Fin 2"

definition empty_delivery :: "string \<Rightarrow> pyval \<Rightarrow> delivery" where
  "empty_delivery state batch_id =
     \<lparr>d_state = state, d_batch_id = batch_id, d_backend = None, d_control_received = False,
      d_control_received_links = 0, d_expected_links = 0, d_backend_applied = False,
      d_backend_applied_links = 0, d_backend_usable = False, d_backend_usable_links = 0,
      d_stale_links = 0, d_warmup_links = 0, d_links = []\<rparr>"

text \<open>The string link ids among the batch's channels, each once.\<close>

definition channel_ids_of :: "pyval \<Rightarrow> string list" where
  "channel_ids_of raw_channels =
     remdups (List.map_filter (\<lambda>item. case item of
         VDict d \<Rightarrow> (case vget ''link_id'' d of VStr s \<Rightarrow> Some s | _ \<Rightarrow> None) | _ \<Rightarrow> None)
       (case raw_channels of VList xs \<Rightarrow> xs | _ \<Rightarrow> []))"

text \<open>The loop over the acknowledgement's links: the acknowledged sequence number and warm-up slot
  of each link.\<close>

definition ack_step ::
  "pyval \<Rightarrow> (string \<times> int) list \<times> (string \<times> int) list \<Rightarrow> (string \<times> int) list \<times> (string \<times> int) list"
where
  "ack_step item acc =
     (case item of
        VDict d \<Rightarrow>
          (case vget ''link_id'' d of
             VStr link_id \<Rightarrow>
               if is_int (vget ''seqno'' d) then
                 (AList.update link_id (int_of (vget ''seqno'' d)) (fst acc),
                  if is_int (vget ''warmup_until_slot'' d)
                  then AList.update link_id (int_of (vget ''warmup_until_slot'' d)) (snd acc)
                  else snd acc)
               else acc
           | _ \<Rightarrow> acc)
      | _ \<Rightarrow> acc)"

definition acknowledged_of :: "pyval \<Rightarrow> (string \<times> int) list \<times> (string \<times> int) list" where
  "acknowledged_of raw_links = fold ack_step (case raw_links of VList xs \<Rightarrow> xs | _ \<Rightarrow> []) ([], [])"

definition link_row_of ::
  "string option \<Rightarrow> (string \<times> int) list \<Rightarrow> (string \<times> int) list \<Rightarrow> (string \<times> pydict) list
     \<Rightarrow> (string \<times> pyfloat) list \<Rightarrow> string \<Rightarrow> link_row" where
  "link_row_of backend acknowledged acknowledged_warmup telemetry ages link_id =
     (let expected_seqno = map_of acknowledged link_id;
          observed = (case map_of telemetry link_id of None \<Rightarrow> [] | Some d \<Rightarrow> d);
          age = map_of ages link_id;
          fresh = (case age of None \<Rightarrow> False
                   | Some a \<Rightarrow> fle (Fin 0) a \<and> fle a telemetry_fresh_seconds);
          stale = (observed \<noteq> [] \<and> \<not> fresh);
          observed_seqno = vget ''seqno'' observed;
          observed_backend = vget ''backend'' observed;
          backend_matches =
            (case backend of None \<Rightarrow> True
             | Some b \<Rightarrow> b = ''unknown'' \<or> observed_backend = VStr b);
          applied = (fresh \<and> expected_seqno \<noteq> None \<and> is_int observed_seqno
            \<and> the expected_seqno \<le> int_of observed_seqno
            \<and> vget ''profile_active'' observed = VBool True \<and> backend_matches);
          observed_slot = vget ''slot'' observed;
          reported = vget ''warmup_until_slot'' observed;
          warmup_until_slot =
            (if is_int reported then int_of reported
             else case map_of acknowledged_warmup link_id of None \<Rightarrow> 0 | Some w \<Rightarrow> w);
          warming_up = (applied \<and> is_int observed_slot \<and> 0 < warmup_until_slot
            \<and> int_of observed_slot < warmup_until_slot)
      in \<lparr>lr_link_id = link_id, lr_fresh = fresh, lr_stale = stale, lr_age = age,
          lr_expected_seqno = expected_seqno, lr_observed_seqno = observed_seqno,
          lr_observed_slot = observed_slot,
          lr_profile_active = (vget ''profile_active'' observed = VBool True),
          lr_matrix_profile_active = (vget ''matrix_profile_active'' observed = VBool True),
          lr_array = dict_or_empty (vget ''array'' observed), lr_backend = observed_backend,
          lr_applied = applied, lr_warming_up = warming_up,
          lr_warmup_until_slot = warmup_until_slot, lr_usable = (applied \<and> \<not> warming_up)\<rparr>)"

definition count_rows :: "(link_row \<Rightarrow> bool) \<Rightarrow> link_row list \<Rightarrow> nat" where
  "count_rows p rows = length (filter p rows)"

text \<open>The part of the function behind the early returns: the acknowledgement is accepted.\<close>

definition delivery_of_reply ::
  "pydict \<Rightarrow> pydict \<Rightarrow> pyval \<Rightarrow> (string \<times> pydict) list \<Rightarrow> (string \<times> pyfloat) list \<Rightarrow> delivery" where
  "delivery_of_reply s reply batch_id telemetry ages =
     (let channel_ids = channel_ids_of (vget ''channels'' s);
          acked = acknowledged_of (vget ''links'' reply);
          acknowledged = fst acked; acknowledged_warmup = snd acked;
          expected_count = (if channel_ids \<noteq> [] then length channel_ids else length acknowledged);
          control_received = (0 < expected_count
            \<and> list_all (\<lambda>c. map_of acknowledged c \<noteq> None) channel_ids
            \<and> py_eq (vget ''link_count'' reply) (VInt (int expected_count)));
          backend = (case vget ''backend'' reply of VStr b \<Rightarrow> Some b | _ \<Rightarrow> None);
          rows = map (link_row_of backend acknowledged acknowledged_warmup telemetry ages)
                   (sort (if channel_ids \<noteq> [] then channel_ids else dict_keys acknowledged));
          applied_count = count_rows lr_applied rows;
          warmup_count = count_rows lr_warming_up rows;
          usable_count = count_rows (\<lambda>r. \<not> lr_warming_up r \<and> lr_applied r) rows;
          stale_count = count_rows lr_stale rows;
          backend_applied = (control_received \<and> 0 < expected_count
            \<and> applied_count = expected_count);
          backend_usable = (backend_applied \<and> usable_count = expected_count \<and> warmup_count = 0);
          state = (if acknowledged = [] then ''accepted_without_seqnos''
            else if \<not> control_received then ''partial_control_ack''
            else if 0 < stale_count then ''stale_backend_telemetry''
            else if backend_applied \<and> \<not> backend_usable then ''backend_warmup''
            else if backend_usable then ''backend_applied''
            else if 0 < applied_count then ''partially_applied''
            else ''awaiting_backend_telemetry'')
      in \<lparr>d_state = state, d_batch_id = batch_id, d_backend = backend,
          d_control_received = control_received,
          d_control_received_links = length acknowledged,
          d_expected_links = expected_count, d_backend_applied = backend_applied,
          d_backend_applied_links = applied_count, d_backend_usable = backend_usable,
          d_backend_usable_links = usable_count, d_stale_links = stale_count,
          d_warmup_links = warmup_count, d_links = rows\<rparr>)"

definition delivery_status ::
  "pydict option \<Rightarrow> (string \<times> pydict) list \<Rightarrow> (string \<times> pyfloat) list \<Rightarrow> delivery" where
  "delivery_status sionna telemetry ages =
     (case sionna of
        None \<Rightarrow> empty_delivery ''waiting_for_sionna'' VNone
      | Some s \<Rightarrow>
          if s = [] then empty_delivery ''waiting_for_sionna'' VNone
          else case vget ''control_reply'' s of
            VDict reply \<Rightarrow>
              (let batch_id = (if truthy (vget ''batch_id'' reply) then vget ''batch_id'' reply
                               else vget ''batch_id'' s)
               in if truthy (vget ''dry_run'' reply) then empty_delivery ''dry_run'' batch_id
                  else if \<not> truthy (vget ''ok'' reply) then empty_delivery ''control_rejected'' batch_id
                  else delivery_of_reply s reply batch_id telemetry ages)
          | _ \<Rightarrow> empty_delivery ''missing_control_reply'' VNone)"

section \<open>What a delivery status proves\<close>

lemma count_rows_all: "count_rows p rows = length rows \<Longrightarrow> r \<in> set rows \<Longrightarrow> p r"
  unfolding count_rows_def by (metis filter_id_conv length_filter_less less_irrefl)

lemma count_rows_split:
  "(\<And>r. r \<in> set rows \<Longrightarrow> q r \<Longrightarrow> p r) \<Longrightarrow>
     count_rows p rows = count_rows (\<lambda>r. \<not> q r \<and> p r) rows + count_rows q rows"
  by (induction rows) (auto simp: count_rows_def)

lemma row_warming_applied: "lr_warming_up (link_row_of b a w t g l) \<Longrightarrow> lr_applied (link_row_of b a w t g l)"
  by (simp add: link_row_of_def Let_def)

lemma row_link_id [simp]: "lr_link_id (link_row_of b a w t g l) = l"
  by (simp add: link_row_of_def Let_def)

lemma row_applied_iff:
  "lr_applied (link_row_of b a w t g l) \<longleftrightarrow>
     (\<exists>seqno d age. map_of a l = Some seqno \<and> map_of t l = Some d
        \<and> is_int (vget ''seqno'' d) \<and> seqno \<le> int_of (vget ''seqno'' d)
        \<and> vget ''profile_active'' d = VBool True
        \<and> (b = None \<or> b = Some ''unknown'' \<or> (\<exists>n. b = Some n \<and> vget ''backend'' d = VStr n))
        \<and> map_of g l = Some age \<and> fle (Fin 0) age \<and> fle age telemetry_fresh_seconds)"
  by (auto simp: link_row_of_def Let_def split: option.splits)

text \<open>Every status that is not one of the early returns is built from these parts.\<close>

definition delivery_parts ::
  "pydict \<Rightarrow> pydict \<Rightarrow> (string \<times> pydict) list \<Rightarrow> (string \<times> pyfloat) list \<Rightarrow> delivery \<Rightarrow> bool" where
  "delivery_parts s reply telemetry ages d \<longleftrightarrow>
     (let ids = channel_ids_of (vget ''channels'' s);
          (a, w) = acknowledged_of (vget ''links'' reply)
      in d_links d = map (link_row_of (d_backend d) a w telemetry ages)
                       (sort (if ids \<noteq> [] then ids else dict_keys a))
       \<and> d_expected_links d = length (d_links d)
       \<and> d_backend_applied_links d = count_rows lr_applied (d_links d)
       \<and> d_backend_usable_links d = count_rows (\<lambda>r. \<not> lr_warming_up r \<and> lr_applied r) (d_links d)
       \<and> d_warmup_links d = count_rows lr_warming_up (d_links d)
       \<and> d_stale_links d = count_rows lr_stale (d_links d)
       \<and> (d_backend_applied d \<longleftrightarrow> d_control_received d \<and> d_backend_applied_links d = d_expected_links d)
       \<and> (d_backend_usable d \<longleftrightarrow> d_backend_applied d \<and> d_backend_usable_links d = d_expected_links d
            \<and> d_warmup_links d = 0)
       \<and> (d_control_received d \<longrightarrow> 0 < d_expected_links d)
       \<and> (d_control_received d \<longrightarrow> (\<forall>c \<in> set ids. map_of a c \<noteq> None))
       \<and> (d_state d = ''backend_applied'' \<longrightarrow> d_backend_usable d \<and> d_stale_links d = 0))"

lemma early_returns [simp]:
  "d_state (empty_delivery st b) = st" "d_links (empty_delivery st b) = []"
  "\<not> d_backend_usable (empty_delivery st b)" "\<not> d_backend_applied (empty_delivery st b)"
  "\<not> d_control_received (empty_delivery st b)"
  "d_backend_applied_links (empty_delivery st b) = 0" "d_expected_links (empty_delivery st b) = 0"
  "d_backend_usable_links (empty_delivery st b) = 0" "d_warmup_links (empty_delivery st b) = 0"
  by (simp_all add: empty_delivery_def)

lemma delivery_of_reply_parts:
  "delivery_parts s reply telemetry ages (delivery_of_reply s reply b telemetry ages)"
proof -
  obtain a w where aw: "acknowledged_of (vget ''links'' reply) = (a, w)" by (metis prod.exhaust)
  let ?d = "delivery_of_reply s reply b telemetry ages"
  note eval = delivery_of_reply_def Let_def aw fst_conv snd_conv
  show ?thesis
    unfolding delivery_parts_def Let_def aw prod.case
  proof (intro conjI)
    show "d_expected_links ?d = length (d_links ?d)" by (simp add: eval)
    show "d_state ?d = ''backend_applied'' \<longrightarrow> d_backend_usable ?d \<and> d_stale_links ?d = 0"
      unfolding eval delivery.select_convs by (auto split: if_splits)
    show "d_control_received ?d \<longrightarrow>
        (\<forall>c \<in> set (channel_ids_of (vget ''channels'' s)). map_of a c \<noteq> None)"
      unfolding eval delivery.select_convs by (auto simp: list_all_iff)
    show "d_backend_applied ?d \<longleftrightarrow>
        d_control_received ?d \<and> d_backend_applied_links ?d = d_expected_links ?d"
      unfolding eval delivery.select_convs by blast
    show "d_control_received ?d \<longrightarrow> 0 < d_expected_links ?d"
      unfolding eval delivery.select_convs by blast
  qed (simp_all only: eval delivery.select_convs)
qed

lemma delivery_cases:
  obtains (early) st b where "delivery_status sionna telemetry ages = empty_delivery st b"
      and "st \<noteq> ''backend_applied''"
  | (full) s reply where "sionna = Some s" and "vget ''control_reply'' s = VDict reply"
      and "truthy (vget ''ok'' reply)"
      and "delivery_parts s reply telemetry ages (delivery_status sionna telemetry ages)"
proof (cases "\<exists>s reply. sionna = Some s \<and> s \<noteq> [] \<and> vget ''control_reply'' s = VDict reply
      \<and> \<not> truthy (vget ''dry_run'' reply) \<and> truthy (vget ''ok'' reply)")
  case True
  then obtain s reply where h: "sionna = Some s" "s \<noteq> []" "vget ''control_reply'' s = VDict reply"
    "\<not> truthy (vget ''dry_run'' reply)" "truthy (vget ''ok'' reply)" by blast
  then have "delivery_parts s reply telemetry ages (delivery_status sionna telemetry ages)"
    by (simp add: delivery_status_def Let_def delivery_of_reply_parts)
  with h show thesis by (intro full) simp_all
next
  case False
  then have "\<exists>st b. delivery_status sionna telemetry ages = empty_delivery st b
      \<and> st \<noteq> ''backend_applied''"
    unfolding delivery_status_def Let_def
    by (auto split: option.split pyval.split if_split intro!: exI)
  then show thesis using early by blast
qed

text \<open>C12. A status of \<open>backend_applied\<close> is proof for every link of the batch: the control server
  acknowledged it with a sequence number, a telemetry frame at most two seconds old reports a
  sequence number at or beyond it with an active profile on the acknowledging back end, and the
  link is not warming up.\<close>

theorem backend_applied_sound:
  assumes "delivery_status (Some s) telemetry ages = d" and "d_state d = ''backend_applied''"
    and "link_id \<in> set (channel_ids_of (vget ''channels'' s))"
  shows "\<exists>row \<in> set (d_links d). lr_link_id row = link_id \<and> \<not> lr_warming_up row \<and> \<not> lr_stale row
    \<and> (\<exists>seqno obs age. lr_expected_seqno row = Some seqno \<and> map_of telemetry link_id = Some obs
        \<and> is_int (vget ''seqno'' obs) \<and> seqno \<le> int_of (vget ''seqno'' obs)
        \<and> vget ''profile_active'' obs = VBool True
        \<and> (d_backend d = None \<or> d_backend d = Some ''unknown''
            \<or> (\<exists>n. d_backend d = Some n \<and> vget ''backend'' obs = VStr n))
        \<and> map_of ages link_id = Some age \<and> fle (Fin 0) age \<and> fle age (Fin 2))"
proof (cases rule: delivery_cases [of "Some s" telemetry ages])
  case (early st b)
  with assms(1) have "d_state d = st" by (metis early_returns(1))
  with assms(2) early show ?thesis by simp
next
  case (full s' reply)
  then have s': "s' = s" and parts: "delivery_parts s reply telemetry ages d" using assms(1) by auto
  obtain a w where aw: "acknowledged_of (vget ''links'' reply) = (a, w)" by (metis prod.exhaust)
  let ?ids = "channel_ids_of (vget ''channels'' s)"
  let ?row = "link_row_of (d_backend d) a w telemetry ages link_id"
  from assms(3) have "?ids \<noteq> []" by auto
  with parts aw have rows: "d_links d = map (link_row_of (d_backend d) a w telemetry ages) (sort ?ids)"
    and use: "d_backend_usable d" "d_stale_links d = 0"
    and cnt: "count_rows lr_applied (d_links d) = length (d_links d)"
      "count_rows lr_stale (d_links d) = 0" "count_rows lr_warming_up (d_links d) = 0"
    using assms(2) by (auto simp: delivery_parts_def Let_def)
  have mem: "?row \<in> set (d_links d)" using rows assms(3) by simp
  have none: "\<not> p r" if "count_rows p (d_links d) = 0" "r \<in> set (d_links d)" for p r
    using that by (auto simp: count_rows_def filter_empty_conv)
  have "lr_applied ?row" using count_rows_all [OF cnt(1) mem] .
  moreover have "lr_expected_seqno ?row = map_of a link_id" by (simp add: link_row_of_def Let_def)
  ultimately show ?thesis
    using mem none [OF cnt(2) mem] none [OF cnt(3) mem]
    by (auto simp: row_applied_iff telemetry_fresh_seconds_def intro!: bexI [of _ ?row])
qed

text \<open>The counters are consistent with the rows: applied links are exactly the usable ones and
  the ones warming up, never more than the expected ones; a batch is usable only when applied, and
  applied only when the control server received it.\<close>

theorem delivery_counters_consistent:
  "let d = delivery_status sionna telemetry ages
   in d_backend_applied_links d = d_backend_usable_links d + d_warmup_links d
    \<and> d_backend_applied_links d \<le> d_expected_links d
    \<and> d_expected_links d = length (d_links d)
    \<and> (d_backend_applied d \<longrightarrow> d_control_received d)
    \<and> (d_backend_usable d \<longleftrightarrow> d_backend_applied d \<and> d_warmup_links d = 0)"
proof (cases rule: delivery_cases [of sionna telemetry ages])
  case (early st b)
  then show ?thesis by (simp add: Let_def)
next
  case (full s reply)
  define d where "d = delivery_status sionna telemetry ages"
  obtain a w where aw: "acknowledged_of (vget ''links'' reply) = (a, w)" by (metis prod.exhaust)
  have parts: "delivery_parts s reply telemetry ages d" using full by (simp add: d_def)
  have warm: "lr_applied r" if "r \<in> set (d_links d)" "lr_warming_up r" for r
    using that parts aw by (auto simp: delivery_parts_def Let_def intro: row_warming_applied)
  have split: "count_rows lr_applied (d_links d)
      = count_rows (\<lambda>r. \<not> lr_warming_up r \<and> lr_applied r) (d_links d)
        + count_rows lr_warming_up (d_links d)"
    by (rule count_rows_split) (rule warm)
  have "count_rows lr_applied (d_links d) \<le> length (d_links d)" by (simp add: count_rows_def)
  with split parts aw show ?thesis unfolding d_def [symmetric] by (auto simp: delivery_parts_def Let_def)
qed

definition sample_reply :: pydict where
  "sample_reply = [(''ok'', VBool True), (''batch_id'', VStr ''b7''), (''backend'', VStr ''cuda''),
     (''link_count'', VInt 1), (''links'', VList [VDict [(''link_id'', VStr ''g>u:m''), (''seqno'', VInt 5)]])]"

definition sample_update :: pydict where
  "sample_update = [(''control_reply'', VDict sample_reply),
     (''channels'', VList [VDict [(''link_id'', VStr ''g>u:m'')]])]"

definition sample_telemetry :: "(string \<times> pydict) list" where
  "sample_telemetry = [(''g>u:m'', [(''seqno'', VInt 6), (''profile_active'', VBool True),
     (''backend'', VStr ''cuda'')])]"

lemma sample_delivery:
  "d_state (delivery_status (Some sample_update) sample_telemetry [(''g>u:m'', Fin 1)]) = ''backend_applied''"
  "channel_ids_of (vget ''channels'' sample_update) = [''g>u:m'']"
  by code_simp+

theorem backend_applied_sound_witness:
  "\<exists>row \<in> set (d_links (delivery_status (Some sample_update) sample_telemetry [(''g>u:m'', Fin 1)])).
     lr_link_id row = ''g>u:m'' \<and> \<not> lr_warming_up row \<and> \<not> lr_stale row"
  using backend_applied_sound [OF refl sample_delivery(1), of "''g>u:m''"] sample_delivery(2) by auto

theorem parse_telemetry_frame_accepts_witness:
  "parse_telemetry_frame (\<lambda>_. Some (VDict [(''event'', VStr ''telemetry''), (''link_id'', VStr ''l'')])) ''l {}''
     = Ok (''l'', [(''event'', VStr ''telemetry''), (''link_id'', VStr ''l'')])"
  by (subst parse_telemetry_frame_accepts) simp

theorem delivery_counters_consistent_witness:
  "d_control_received (delivery_status (Some sample_update) sample_telemetry [(''g>u:m'', Fin 1)])"
proof -
  have "d_backend_applied (delivery_status (Some sample_update) sample_telemetry [(''g>u:m'', Fin 1)])"
    by code_simp
  then show ?thesis
    using delivery_counters_consistent [of "Some sample_update" sample_telemetry "[(''g>u:m'', Fin 1)]"]
    by (simp add: Let_def)
qed

end
