(* ===== verification/Bytes.thy ===== *)
theory Bytes
  imports Prelude
begin

text \<open>
  Byte strings: \<open>bytes\<close> values as lists of 8-bit words, the fixed-width integer fields of the
  \<open>struct\<close> module in both byte orders, the validity of UTF-8 that \<open>bytes.decode\<close> checks, and the
  interface of a self-delimiting wire format. A Python \<open>str\<close> that crosses the wire is the list
  of the bytes of its UTF-8 encoding, which is also how \<open>string\<close> holds it elsewhere.
\<close>

unbundle bit_operations_syntax

type_synonym byte = "8 word"
type_synonym bytes = "byte list"

named_theorems codec_simps "evaluation of byte encodings"

section \<open>Integers\<close>

fun le_enc :: "nat \<Rightarrow> nat \<Rightarrow> bytes" where
  "le_enc 0 n = []"
| "le_enc (Suc k) n = of_nat (n mod 256) # le_enc k (n div 256)"

fun le_dec :: "bytes \<Rightarrow> nat" where
  "le_dec [] = 0"
| "le_dec (b # bs) = unat b + 256 * le_dec bs"

definition be_enc :: "nat \<Rightarrow> nat \<Rightarrow> bytes" where
  "be_enc k n = rev (le_enc k n)"

definition be_dec :: "bytes \<Rightarrow> nat" where
  "be_dec bs = le_dec (rev bs)"

lemma length_le_enc [simp]: "length (le_enc k n) = k"
  by (induction k arbitrary: n) auto

lemma length_be_enc [simp]: "length (be_enc k n) = k"
  by (simp add: be_enc_def)

lemma unat_byte_of_nat: "unat (of_nat (n mod 256) :: byte) = n mod 256"
  by (simp add: unat_of_nat take_bit_eq_mod)

lemma le_dec_enc: "n < 256 ^ k \<Longrightarrow> le_dec (le_enc k n) = n"
proof (induction k arbitrary: n)
  case 0
  then show ?case by simp
next
  case (Suc k)
  then have "n div 256 < 256 ^ k" by (simp add: less_mult_imp_div_less mult.commute)
  with Suc.IH show ?case by (simp add: unat_byte_of_nat)
qed

lemma be_dec_enc: "n < 256 ^ k \<Longrightarrow> be_dec (be_enc k n) = n"
  by (simp add: be_dec_def be_enc_def le_dec_enc)

lemma unat_byte_less: "unat (b :: byte) < 256"
  using unsigned_less [of b] by (simp flip: of_nat_less_iff [where 'a = int])

lemma le_dec_bound: "le_dec bs < 256 ^ length bs"
proof (induction bs)
  case Nil
  then show ?case by simp
next
  case (Cons b bs)
  then have "le_dec bs + 1 \<le> 256 ^ length bs" by simp
  then have "256 * (le_dec bs + 1) \<le> 256 * 256 ^ length bs" by (rule mult_le_mono2)
  with unat_byte_less [of b] show ?case by simp
qed

lemma le_enc_dec: "le_enc (length bs) (le_dec bs) = bs"
proof (induction bs)
  case Nil
  then show ?case by simp
next
  case (Cons b bs)
  have "(unat b + 256 * le_dec bs) mod 256 = unat b" and "(unat b + 256 * le_dec bs) div 256 = le_dec bs"
    using unat_byte_less [of b] by simp_all
  with Cons show ?case by simp
qed

lemma be_enc_dec: "be_enc (length bs) (be_dec bs) = bs"
  using le_enc_dec [of "rev bs"] by (simp add: be_enc_def be_dec_def)

lemma be_dec_bound: "be_dec bs < 256 ^ length bs"
  using le_dec_bound [of "rev bs"] by (simp add: be_dec_def)

section \<open>UTF-8\<close>

definition utf8_cont :: "byte \<Rightarrow> bool" where
  "utf8_cont b \<longleftrightarrow> 0x80 \<le> b \<and> b \<le> 0xBF"

text \<open>The well-formed byte sequences (no overlong form, no surrogate, nothing above U+10FFFF).\<close>

fun utf8_valid :: "bytes \<Rightarrow> bool" where
  "utf8_valid [] = True"
| "utf8_valid (a # bs) =
     (if a \<le> 0x7F then utf8_valid bs
      else if 0xC2 \<le> a \<and> a \<le> 0xDF then
        (case bs of b # r \<Rightarrow> utf8_cont b \<and> utf8_valid r | _ \<Rightarrow> False)
      else if 0xE0 \<le> a \<and> a \<le> 0xEF then
        (case bs of b # c # r \<Rightarrow> utf8_cont b \<and> utf8_cont c \<and> (a = 0xE0 \<longrightarrow> 0xA0 \<le> b)
             \<and> (a = 0xED \<longrightarrow> b \<le> 0x9F) \<and> utf8_valid r
         | _ \<Rightarrow> False)
      else if 0xF0 \<le> a \<and> a \<le> 0xF4 then
        (case bs of b # c # d # r \<Rightarrow> utf8_cont b \<and> utf8_cont c \<and> utf8_cont d
             \<and> (a = 0xF0 \<longrightarrow> 0x90 \<le> b) \<and> (a = 0xF4 \<longrightarrow> b \<le> 0x8F) \<and> utf8_valid r
         | _ \<Rightarrow> False)
      else False)"

definition encode_utf8 :: "string \<Rightarrow> bytes" where
  "encode_utf8 = map of_char"

definition bytes_chars :: "bytes \<Rightarrow> string" where
  "bytes_chars = map (\<lambda>b. char_of (unat b))"

text \<open>\<open>body.decode("utf-8")\<close>; \<open>None\<close> is its \<open>UnicodeDecodeError\<close>.\<close>

definition decode_utf8 :: "bytes \<Rightarrow> string option" where
  "decode_utf8 bs = (if utf8_valid bs then Some (bytes_chars bs) else None)"

lemma unat_of_char [simp]: "unat (of_char c :: byte) = of_char c"
proof -
  have "(of_char c :: byte) = of_nat (of_char c)" by (simp add: of_nat_of_char)
  then show ?thesis by (simp add: unat_of_nat take_bit_eq_mod)
qed

lemma bytes_chars_encode [simp]: "bytes_chars (encode_utf8 s) = s"
  by (simp add: bytes_chars_def encode_utf8_def comp_def)

lemma encode_bytes_chars [simp]: "encode_utf8 (bytes_chars bs) = bs"
proof -
  have "(of_char (char_of (unat b) :: char) :: byte) = b" for b :: byte
  proof -
    have n: "(of_char (char_of (unat b) :: char) :: nat) = unat b mod 256" by (rule of_char_of)
    have "(of_char (char_of (unat b) :: char) :: byte) = of_nat (of_char (char_of (unat b) :: char) :: nat)"
      by (rule of_nat_of_char [symmetric])
    also have "\<dots> = b" unfolding n using unat_byte_less [of b] by simp
    finally show ?thesis .
  qed
  then show ?thesis by (simp add: encode_utf8_def bytes_chars_def comp_def)
qed

lemma length_bytes_chars [simp]: "length (bytes_chars bs) = length bs"
  by (simp add: bytes_chars_def)

lemma length_encode_utf8 [simp]: "length (encode_utf8 s) = length s"
  by (simp add: encode_utf8_def)

section \<open>Self-delimiting formats\<close>

text \<open>
  The interface of a wire format that a receiver can read off the front of a stream: encoding and
  then decoding gives the message back and leaves whatever follows it.
\<close>

locale wire_format =
  fixes enc :: "'a \<Rightarrow> bytes" and dec :: "bytes \<Rightarrow> ('a \<times> bytes) option" and fits :: "'a \<Rightarrow> bool"
  assumes dec_enc: "fits x \<Longrightarrow> dec (enc x @ rest) = Some (x, rest)"
begin

lemma enc_inj:
  assumes "fits x" and "fits y" and "enc x @ r = enc y @ r'"
  shows "x = y \<and> r = r'"
  using dec_enc [OF assms(1), of r] dec_enc [OF assms(2), of r'] unfolding assms(3) by simp

text \<open>Decoding a whole stream message by message.\<close>

fun dec_all :: "nat \<Rightarrow> bytes \<Rightarrow> ('a list \<times> bytes) option" where
  "dec_all 0 bs = Some ([], bs)"
| "dec_all (Suc n) bs =
     (case dec bs of None \<Rightarrow> None
      | Some (x, r) \<Rightarrow> map_option (\<lambda>(xs, r'). (x # xs, r')) (dec_all n r))"

lemma dec_all_enc:
  "list_all fits xs \<Longrightarrow> dec_all (length xs) (concat (map enc xs) @ rest) = Some (xs, rest)"
  by (induction xs) (auto simp: dec_enc)

lemma stream_inj:
  assumes "list_all fits xs" and "list_all fits ys" and "length xs = length ys"
    and eq: "concat (map enc xs) @ r = concat (map enc ys) @ r'"
  shows "xs = ys \<and> r = r'"
proof -
  have "Some (xs, r) = Some (ys, r')"
    using dec_all_enc [OF assms(1), of r] dec_all_enc [OF assms(2), of r'] assms(3)
    unfolding eq by metis
  then show ?thesis by blast
qed

end

text \<open>A fixed-width field is such a format.\<close>

definition take_field :: "nat \<Rightarrow> (bytes \<Rightarrow> 'a) \<Rightarrow> bytes \<Rightarrow> ('a \<times> bytes) option" where
  "take_field k f bs = (if length bs < k then None else Some (f (take k bs), drop k bs))"

interpretation be16: wire_format "be_enc 2" "take_field 2 be_dec" "\<lambda>n. n < 65536"
  by unfold_locales (simp add: take_field_def be_dec_enc)

interpretation be64: wire_format "be_enc 8" "take_field 8 be_dec" "\<lambda>n. n < 2 ^ 64"
  by unfold_locales (simp add: take_field_def be_dec_enc)

interpretation le64: wire_format "le_enc 8" "take_field 8 le_dec" "\<lambda>n. n < 2 ^ 64"
  by unfold_locales (simp add: take_field_def le_dec_enc)

end
