(* ===== verification/WebSocket.thy ===== *)
theory WebSocket
  imports Bytes PyFloat
begin

text \<open>
  The dashboard's RFC 6455 client (class \<^verbatim>\<open>WebSocketClient\<close> of \<^verbatim>\<open>apps/dashboard/server.py\<close>).
  The socket's input is the list of what the following \<open>recv\<close> calls give: a chunk (empty when
  the peer closed) or a poll timeout; when the list ends the peer stays silent and the call never
  returns, which is the value \<open>None\<close>. The stop event, the monotonic clock and \<open>secrets.token_bytes\<close>
  are the argument \<open>env\<close>, one reading per use. The main theorem says that a message split into
  fragments, interleaved with control frames and cut into arbitrary chunks by TCP is reassembled,
  and that every ping is answered.
\<close>

section \<open>State\<close>

datatype net_event = Chunk bytes | PollTimeout

record reading =
  stop_set :: bool
  now :: pyfloat
  token8 :: bytes
  token4 :: bytes

record ws =
  buffer :: bytes
  inbox :: "net_event list"
  outbox :: "bytes list"
  ticks :: nat
  monitored :: bool
  idle_seconds :: pyfloat
  pong_seconds :: pyfloat
  last_frame_at :: pyfloat
  ping_payload :: "bytes option"
  pong_deadline :: pyfloat

type_synonym env = "nat \<Rightarrow> reading"

text \<open>A call that may never return, may raise, or returns a value and a state.\<close>

type_synonym 'a io = "(py_error + 'a) option"

definition bindI :: "'a io \<Rightarrow> ('a \<Rightarrow> 'b io) \<Rightarrow> 'b io" where
  "bindI m f = (case m of None \<Rightarrow> None | Some (Inl e) \<Rightarrow> Some (Inl e) | Some (Inr x) \<Rightarrow> f x)"

lemma bindI_simps [simp]:
  "bindI None f = None" "bindI (Some (Inl e)) f = Some (Inl e)" "bindI (Some (Inr x)) f = f x"
  by (simp_all add: bindI_def)

lemma bindI_cong [fundef_cong]:
  assumes "m = m'" and "\<And>x. m' = Some (Inr x) \<Longrightarrow> f x = g x"
  shows "bindI m f = bindI m' g"
  using assms by (auto simp: bindI_def split: option.split sum.split)

lemma bindI_Inr [result_simps]:
  "bindI m f = Some (Inr y) \<longleftrightarrow> (\<exists>x. m = Some (Inr x) \<and> f x = Some (Inr y))"
  by (auto simp: bindI_def split: option.split sum.split)

definition WS_OP_CONTINUATION :: byte where "WS_OP_CONTINUATION = 0x0"
definition WS_OP_TEXT :: byte where "WS_OP_TEXT = 0x1"
definition WS_OP_BINARY :: byte where "WS_OP_BINARY = 0x2"
definition WS_OP_CLOSE :: byte where "WS_OP_CLOSE = 0x8"
definition WS_OP_PING :: byte where "WS_OP_PING = 0x9"
definition WS_OP_PONG :: byte where "WS_OP_PONG = 0xA"

lemmas ws_ops = WS_OP_CONTINUATION_def WS_OP_TEXT_def WS_OP_BINARY_def WS_OP_CLOSE_def
  WS_OP_PING_def WS_OP_PONG_def

definition WS_MAX_MESSAGE_BYTES :: nat where
  "WS_MAX_MESSAGE_BYTES = 8 * 1024 * 1024"

section \<open>Sending\<close>

definition mask_bytes :: "bytes \<Rightarrow> bytes \<Rightarrow> bytes" where
  "mask_bytes key bs = map (\<lambda>(i, b). b XOR key ! (i mod 4)) (enumerate 0 bs)"

definition send_text_frame :: "bytes \<Rightarrow> string \<Rightarrow> bytes result" where
  "send_text_frame key text =
     (let payload = encode_utf8 text; len = length payload
      in bindR (if len < 126 then Ok [0x80 OR of_nat len]
                else if len < 2 ^ 16 then Ok ((0x80 OR 126) # be_enc 2 len)
                else if len < 2 ^ 64 then Ok ((0x80 OR 127) # be_enc 8 len)
                else Err StructError) (\<lambda>length_field.
         Ok ((0x80 OR WS_OP_TEXT) # length_field @ key @ mask_bytes key payload)))"

definition send_text :: "env \<Rightarrow> string \<Rightarrow> ws \<Rightarrow> ws result" where
  "send_text env text s =
     bindR (send_text_frame (token4 (env (ticks s))) text) (\<lambda>frame.
       Ok (s\<lparr>ticks := ticks s + 1, outbox := outbox s @ [frame]\<rparr>))"

text \<open>\<open>bytes([...])\<close> raises for a length above 127; control payloads are at most 125 bytes.\<close>

definition control_frame :: "bytes \<Rightarrow> byte \<Rightarrow> bytes \<Rightarrow> bytes" where
  "control_frame key opcode payload =
     [0x80 OR opcode, 0x80 OR of_nat (length payload)] @ key @ mask_bytes key payload"

definition send_control :: "env \<Rightarrow> byte \<Rightarrow> bytes \<Rightarrow> ws \<Rightarrow> ws" where
  "send_control env opcode payload s =
     s\<lparr>ticks := ticks s + 1,
       outbox := outbox s @ [control_frame (token4 (env (ticks s))) opcode payload]\<rparr>"

section \<open>Liveness\<close>

definition monitor_connection :: "env \<Rightarrow> pyfloat \<Rightarrow> pyfloat \<Rightarrow> ws \<Rightarrow> ws" where
  "monitor_connection env idle pong s =
     s\<lparr>monitored := True, idle_seconds := idle, pong_seconds := pong,
       last_frame_at := now (env (ticks s)), ticks := ticks s + 1,
       ping_payload := None, pong_deadline := Fin 0\<rparr>"

definition check_liveness :: "env \<Rightarrow> ws \<Rightarrow> ws result" where
  "check_liveness env s =
     (if \<not> monitored s then Ok s
      else let r = env (ticks s); s = s\<lparr>ticks := ticks s + 1\<rparr>
           in if stop_set r then Err (WebSocketError ''metrics reader stopped'')
              else if ping_payload s \<noteq> None then
                (if fle (pong_deadline s) (now r) then Err (WebSocketError ''heartbeat Pong timed out'')
                 else Ok s)
              else if fle (idle_seconds s) (fsub (now r) (last_frame_at s)) then
                Ok (send_control env WS_OP_PING (token8 r)
                      (s\<lparr>ping_payload := Some (token8 r),
                         pong_deadline := fadd (now r) (pong_seconds s)\<rparr>))
              else Ok s)"

section \<open>Reading\<close>

fun read_loop :: "env \<Rightarrow> nat \<Rightarrow> net_event list \<Rightarrow> ws \<Rightarrow> (bytes \<times> ws) io" where
  "read_loop env count evs s =
     (if count \<le> length (buffer s)
      then Some (Ok (take count (buffer s), s\<lparr>buffer := drop count (buffer s), inbox := evs\<rparr>))
      else case check_liveness env s of
             Inl e \<Rightarrow> Some (Err e)
           | Inr s' \<Rightarrow>
               (case evs of
                  [] \<Rightarrow> None
                | PollTimeout # evs' \<Rightarrow>
                    if monitored s' then read_loop env count evs' s' else Some (Err TimeoutError)
                | Chunk chunk # evs' \<Rightarrow>
                    if chunk = [] then Some (Err (WebSocketError ''connection closed''))
                    else read_loop env count evs' (s'\<lparr>buffer := buffer s' @ chunk\<rparr>)))"

declare read_loop.simps [simp del]

definition read_exactly :: "env \<Rightarrow> nat \<Rightarrow> ws \<Rightarrow> (bytes \<times> ws) io" where
  "read_exactly env count s =
     (case check_liveness env s of
        Inl e \<Rightarrow> Some (Err e)
      | Inr s' \<Rightarrow> read_loop env count (inbox s') s')"

record frame =
  f_fin :: bool
  f_opcode :: byte
  f_payload :: bytes

text \<open>The header checks and the payload of one frame: the first half of the loop of
  \<open>recv_message\<close>.\<close>

definition recv_length :: "env \<Rightarrow> byte \<Rightarrow> ws \<Rightarrow> (nat \<times> ws) io" where
  "recv_length env len7 s =
     (if len7 = 126 then bindI (read_exactly env 2 s) (\<lambda>(bs, s). Some (Ok (be_dec bs, s)))
      else if len7 = 127 then bindI (read_exactly env 8 s) (\<lambda>(bs, s). Some (Ok (be_dec bs, s)))
      else Some (Ok (unat len7, s)))"

text \<open>The checks on the two header bytes, in the order of the code.\<close>

definition parse_header :: "byte \<Rightarrow> byte \<Rightarrow> (bool \<times> byte \<times> byte) result" where
  "parse_header first second =
     (let fin = (first AND 0x80 \<noteq> 0); opcode = first AND 0x0F; len7 = second AND 0x7F
      in if first AND 0x70 \<noteq> 0 \<or> opcode \<notin> set [WS_OP_CONTINUATION, WS_OP_TEXT, WS_OP_BINARY,
             WS_OP_CLOSE, WS_OP_PING, WS_OP_PONG]
         then Err (WebSocketError ''invalid frame flags or opcode'')
         else if second AND 0x80 \<noteq> 0
         then Err (WebSocketError ''server frame must not be masked'')
         else if WS_OP_CLOSE \<le> opcode \<and> (\<not> fin \<or> 125 < len7)
         then Err (WebSocketError ''invalid control frame'')
         else Ok (fin, opcode, len7))"

definition note_frame :: "env \<Rightarrow> ws \<Rightarrow> ws" where
  "note_frame env s =
     (if monitored s then s\<lparr>last_frame_at := now (env (ticks s)), ticks := ticks s + 1\<rparr> else s)"

definition recv_payload :: "env \<Rightarrow> bool \<Rightarrow> byte \<Rightarrow> nat \<Rightarrow> ws \<Rightarrow> (frame \<times> ws) io" where
  "recv_payload env fin opcode len s =
     (if WS_MAX_MESSAGE_BYTES < len then Some (Err (WebSocketError ''frame exceeds cap''))
      else bindI (if len = 0 then Some (Ok ([], s)) else read_exactly env len s) (\<lambda>(payload, s).
        Some (Ok (\<lparr>f_fin = fin, f_opcode = opcode, f_payload = payload\<rparr>, note_frame env s))))"

definition recv_frame :: "env \<Rightarrow> ws \<Rightarrow> (frame \<times> ws) io" where
  "recv_frame env s =
     bindI (read_exactly env 2 s) (\<lambda>(head, s).
       case parse_header (head ! 0) (head ! 1) of
         Inl e \<Rightarrow> Some (Err e)
       | Inr (fin, opcode, len7) \<Rightarrow>
           bindI (recv_length env len7 s) (\<lambda>(len, s). recv_payload env fin opcode len s))"

datatype verdict =
    Again "byte option" "bytes list" ws
  | Give "string option" ws
  | Throw py_error

text \<open>What the loop does with a frame: the second half of its body.\<close>

definition handle_frame :: "env \<Rightarrow> frame \<Rightarrow> byte option \<Rightarrow> bytes list \<Rightarrow> ws \<Rightarrow> verdict" where
  "handle_frame env f message_opcode chunks s =
     (if f_opcode f = WS_OP_CLOSE then Give None s
      else if f_opcode f = WS_OP_PING
      then Again message_opcode chunks (send_control env WS_OP_PONG (f_payload f) s)
      else if f_opcode f = WS_OP_PONG
      then Again message_opcode chunks
             (if monitored s \<and> ping_payload s = Some (f_payload f) then s\<lparr>ping_payload := None\<rparr> else s)
      else if f_opcode f = WS_OP_CONTINUATION \<and> message_opcode = None
      then Throw (WebSocketError ''continuation without a start frame'')
      else if f_opcode f \<noteq> WS_OP_CONTINUATION \<and> message_opcode \<noteq> None
      then Throw (WebSocketError ''new message before final continuation'')
      else
        let opcode = (if f_opcode f = WS_OP_CONTINUATION then message_opcode else Some (f_opcode f));
            chunks = (if f_opcode f = WS_OP_CONTINUATION then chunks else []) @ [f_payload f]
        in if WS_MAX_MESSAGE_BYTES < sum_list (map length chunks)
           then Throw (WebSocketError ''reassembled message exceeds cap'')
           else if \<not> f_fin f then Again opcode chunks s
           else if opcode = Some WS_OP_TEXT
           then (case decode_utf8 (concat chunks) of
                   Some text \<Rightarrow> Give (Some text) s
                 | None \<Rightarrow> Throw (WebSocketError ''invalid text encoding''))
           else Again None [] s)"

section \<open>Handshake\<close>

definition b64_char :: "nat \<Rightarrow> char" where
  "b64_char n = (if n < 26 then char_of (65 + n) else if n < 52 then char_of (71 + n)
     else if n < 62 then char_of (n - 4) else if n = 62 then CHR ''+'' else CHR ''/'')"

fun b64encode :: "bytes \<Rightarrow> string" where
  "b64encode [] = []"
| "b64encode [a] = [b64_char (unat a div 4), b64_char (unat a mod 4 * 16), CHR ''='', CHR ''='']"
| "b64encode [a, b] = [b64_char (unat a div 4), b64_char (unat a mod 4 * 16 + unat b div 16),
     b64_char (unat b mod 16 * 4), CHR ''='']"
| "b64encode (a # b # c # bs) = b64_char (unat a div 4) # b64_char (unat a mod 4 * 16 + unat b div 16)
     # b64_char (unat b mod 16 * 4 + unat c div 64) # b64_char (unat c mod 64) # b64encode bs"

definition WS_GUID :: string where
  "WS_GUID = ''258EAFA5-E914-47DA-95CA-C5AB0DC85B11''"

definition crlf :: string where "crlf = [CHR 0x0D, CHR 0x0A]"

definition blank_line :: bytes where "blank_line = [0x0D, 0x0A, 0x0D, 0x0A]"

definition handshake_request :: "string \<Rightarrow> string \<Rightarrow> int \<Rightarrow> string \<Rightarrow> string" where
  "handshake_request path host port key =
     ''GET '' @ path @ '' HTTP/1.1'' @ crlf @ ''Host: '' @ host @ '':'' @ str_int port @ crlf
     @ ''Upgrade: websocket'' @ crlf @ ''Connection: Upgrade'' @ crlf
     @ ''Sec-WebSocket-Key: '' @ key @ crlf @ ''Sec-WebSocket-Version: 13'' @ crlf @ crlf"

fun handshake_header :: "bytes \<Rightarrow> net_event list \<Rightarrow> (bytes \<times> net_event list) io" where
  "handshake_header header evs =
     (if contains_sub blank_line header then Some (Ok (header, evs))
      else case evs of
             [] \<Rightarrow> None
           | PollTimeout # _ \<Rightarrow> Some (Err TimeoutError)
           | Chunk c # evs' \<Rightarrow>
               if c = [] then Some (Err (WebSocketError ''connection closed during handshake''))
               else if 64 * 1024 < length (header @ c)
               then Some (Err (WebSocketError ''handshake response too large''))
               else handshake_header (header @ c) evs')"

declare handshake_header.simps [simp del]

text \<open>The value of the last \<open>Sec-WebSocket-Accept\<close> line of the response.\<close>

definition accept_value :: "string list \<Rightarrow> string" where
  "accept_value lines = fold (\<lambda>line accept.
     case str_partition CHR '':'' line of (name, _, value) \<Rightarrow>
       if str_lower (str_strip name) = ''sec-websocket-accept'' then str_strip value else accept) lines []"

text \<open>\<open>hashlib.sha1\<close> is the argument \<open>sha1\<close>; \<open>nonce\<close> is the sixteen random bytes.\<close>

definition handshake ::
  "(bytes \<Rightarrow> bytes) \<Rightarrow> bytes \<Rightarrow> string \<Rightarrow> string \<Rightarrow> int \<Rightarrow> ws \<Rightarrow> ws io" where
  "handshake sha1 nonce path host port s =
     (let key = b64encode nonce; request = encode_utf8 (handshake_request path host port key)
      in bindI (handshake_header [] (inbox s)) (\<lambda>(header, evs).
         case partition_sub blank_line header of (head, _, rest) \<Rightarrow>
           let lines = split_sub crlf (bytes_chars head);
               expected = b64encode (sha1 (encode_utf8 (key @ WS_GUID)))
           in if \<not> contains_sub ''101'' (hd lines)
              then Some (Err (WebSocketError ''server refused upgrade''))
              else if accept_value (tl lines) \<noteq> expected
              then Some (Err (WebSocketError ''Sec-WebSocket-Accept mismatch''))
              else Some (Ok (s\<lparr>buffer := rest, inbox := evs, outbox := outbox s @ [request]\<rparr>))))"

section \<open>The stream\<close>

text \<open>The bytes still to be read: the buffer, then the chunks up to a close.\<close>

fun stream_of :: "net_event list \<Rightarrow> bytes" where
  "stream_of [] = []"
| "stream_of (Chunk c # evs) = (if c = [] then [] else c @ stream_of evs)"
| "stream_of (PollTimeout # evs) = stream_of evs"

definition pending :: "ws \<Rightarrow> bytes" where
  "pending s = buffer s @ stream_of (inbox s)"

lemma send_control_keeps [simp]:
  "buffer (send_control env opc p s) = buffer s" "inbox (send_control env opc p s) = inbox s"
  "pending (send_control env opc p s) = pending s"
  "monitored (send_control env opc p s) = monitored s"
  "ping_payload (send_control env opc p s) = ping_payload s"
  by (simp_all add: send_control_def pending_def)

lemma check_liveness_keeps:
  "check_liveness env s = Inr s' \<Longrightarrow>
     buffer s' = buffer s \<and> inbox s' = inbox s \<and> monitored s' = monitored s"
  by (auto simp: check_liveness_def Let_def split: if_splits)

lemma read_loop_splits:
  "read_loop env count evs s = Some (Inr (bs, s')) \<Longrightarrow>
     buffer s @ stream_of evs = bs @ pending s' \<and> length bs = count"
proof (induction env count evs s rule: read_loop.induct)
  case (1 env count evs s)
  show ?case
  proof (cases "count \<le> length (buffer s)")
    case True
    with 1(3) show ?thesis by (auto simp: read_loop.simps pending_def)
  next
    case False
    then obtain s1 where s1: "check_liveness env s = Inr s1"
      using 1(3) by (auto simp: read_loop.simps split: sum.splits)
    note keep = check_liveness_keeps [OF s1]
    show ?thesis
    proof (cases evs)
      case Nil
      with 1(3) False s1 show ?thesis by (auto simp: read_loop.simps)
    next
      case (Cons e evs')
      show ?thesis
      proof (cases e)
        case (Chunk c)
        then have "c \<noteq> []" and "read_loop env count evs' (s1\<lparr>buffer := buffer s1 @ c\<rparr>) = Some (Inr (bs, s'))"
          using 1(3) False s1 Cons by (subst (asm) read_loop.simps; auto split: if_splits)+
        with 1(1) [OF False s1 Cons Chunk \<open>c \<noteq> []\<close>] keep Cons Chunk show ?thesis by simp
      next
        case PollTimeout
        then have "monitored s1" and "read_loop env count evs' s1 = Some (Inr (bs, s'))"
          using 1(3) False s1 Cons by (subst (asm) read_loop.simps; auto split: if_splits)+
        with 1(2) [OF False s1 Cons PollTimeout \<open>monitored s1\<close>] keep Cons PollTimeout show ?thesis by simp
      qed
    qed
  qed
qed

lemma read_exactly_splits:
  "read_exactly env count s = Some (Inr (bs, s')) \<Longrightarrow> pending s = bs @ pending s' \<and> length bs = count"
  by (auto simp: read_exactly_def pending_def split: sum.splits
      dest!: read_loop_splits dest: check_liveness_keeps)

lemma recv_length_shrinks:
  "recv_length env l s = Some (Inr (n, s')) \<Longrightarrow> length (pending s') \<le> length (pending s)"
  by (auto simp: recv_length_def result_simps dest!: read_exactly_splits split: if_splits)

lemma note_frame_keeps [simp]:
  "pending (note_frame env s) = pending s" "buffer (note_frame env s) = buffer s"
  "inbox (note_frame env s) = inbox s" "monitored (note_frame env s) = monitored s"
  "outbox (note_frame env s) = outbox s" "ping_payload (note_frame env s) = ping_payload s"
  by (simp_all add: note_frame_def pending_def)

lemma recv_payload_splits:
  "recv_payload env fin opcode len s = Some (Inr (f, s')) \<Longrightarrow>
     pending s = f_payload f @ pending s' \<and> length (f_payload f) = len \<and> len \<le> WS_MAX_MESSAGE_BYTES
     \<and> f_fin f = fin \<and> f_opcode f = opcode"
  by (auto simp: recv_payload_def result_simps split: if_splits dest!: read_exactly_splits)

lemma recv_frame_elim:
  assumes "recv_frame env s = Some (Inr (f, s'))"
  obtains head s1 fin opcode len7 len s2 where "read_exactly env 2 s = Some (Inr (head, s1))"
    and "parse_header (head ! 0) (head ! 1) = Inr (fin, opcode, len7)"
    and "recv_length env len7 s1 = Some (Inr (len, s2))"
    and "recv_payload env fin opcode len s2 = Some (Inr (f, s'))"
proof -
  obtain head s1 where h: "read_exactly env 2 s = Some (Inr (head, s1))"
    using assms by (auto simp: recv_frame_def result_simps)
  obtain fin opcode len7 where p: "parse_header (head ! 0) (head ! 1) = Inr (fin, opcode, len7)"
    using assms h by (cases "parse_header (head ! 0) (head ! 1)") (auto simp: recv_frame_def)
  with h assms obtain len s2 where "recv_length env len7 s1 = Some (Inr (len, s2))"
    and "recv_payload env fin opcode len s2 = Some (Inr (f, s'))"
    by (auto simp: recv_frame_def result_simps)
  with h p show thesis by (rule that)
qed

lemma recv_frame_shrinks:
  assumes "recv_frame env s = Some (Inr (f, s'))"
  shows "length (pending s') < length (pending s)"
  using assms
proof (rule recv_frame_elim)
  fix head s1 fin opcode len7 len s2
  assume "read_exactly env 2 s = Some (Inr (head, s1))"
    and l: "recv_length env len7 s1 = Some (Inr (len, s2))"
    and "recv_payload env fin opcode len s2 = Some (Inr (f, s'))"
  then show ?thesis
    using recv_length_shrinks [OF l]
    by (auto dest!: read_exactly_splits recv_payload_splits)
qed

lemma handle_frame_keeps:
  "handle_frame env f mop chunks s = Again mop' chunks' s' \<Longrightarrow> pending s' = pending s"
  by (auto simp: handle_frame_def Let_def pending_def split: if_splits option.splits)

section \<open>Receiving a message\<close>

function recv_loop :: "env \<Rightarrow> byte option \<Rightarrow> bytes list \<Rightarrow> ws \<Rightarrow> (string option \<times> ws) io" where
  "recv_loop env message_opcode chunks s =
     bindI (recv_frame env s) (\<lambda>(f, s').
       case handle_frame env f message_opcode chunks s' of
         Again mop chunks' s'' \<Rightarrow> recv_loop env mop chunks' s''
       | Give text s'' \<Rightarrow> Some (Ok (text, s''))
       | Throw e \<Rightarrow> Some (Err e))"
  by pat_completeness auto
termination
  by (relation "measure (\<lambda>(_, _, _, s). length (pending s))")
    (auto dest!: recv_frame_shrinks dest: handle_frame_keeps)

declare recv_loop.simps [simp del]

definition recv_message :: "env \<Rightarrow> ws \<Rightarrow> (string option \<times> ws) io" where
  "recv_message env s = recv_loop env None [] s"

section \<open>Masked frames\<close>

text \<open>
  What a server reads: the reference decoder of RFC 6455 for an unfragmented masked frame, which
  gives the opcode, the unmasked payload and what follows the frame.
\<close>

definition rfc_unmask :: "byte \<Rightarrow> nat \<Rightarrow> bytes \<Rightarrow> ((byte \<times> bytes) \<times> bytes) option" where
  "rfc_unmask opcode len r =
     (if length r < 4 + len then None
      else Some ((opcode, mask_bytes (take 4 r) (take len (drop 4 r))), drop (4 + len) r))"

definition rfc_decode :: "bytes \<Rightarrow> ((byte \<times> bytes) \<times> bytes) option" where
  "rfc_decode bs =
     (case bs of
        a # b # r \<Rightarrow>
          if a AND 0xF0 \<noteq> 0x80 \<or> b AND 0x80 = 0 then None
          else let len7 = b AND 0x7F; opcode = a AND 0x0F
            in if len7 = 126 then
                 (case take_field 2 be_dec r of None \<Rightarrow> None | Some (n, r') \<Rightarrow> rfc_unmask opcode n r')
               else if len7 = 127 then
                 (case take_field 8 be_dec r of None \<Rightarrow> None | Some (n, r') \<Rightarrow> rfc_unmask opcode n r')
               else rfc_unmask opcode (unat len7) r
      | _ \<Rightarrow> None)"

lemma length_mask_bytes [simp]: "length (mask_bytes key bs) = length bs"
  by (simp add: mask_bytes_def)

lemma mask_bytes_involution: "mask_bytes key (mask_bytes key bs) = bs"
  by (rule nth_equalityI) (simp_all add: mask_bytes_def nth_enumerate_eq xor.assoc)

lemma rfc_unmask_frame:
  "length key = 4 \<Longrightarrow>
     rfc_unmask opcode (length payload) (key @ mask_bytes key payload @ rest) = Some ((opcode, payload), rest)"
  by (simp add: rfc_unmask_def mask_bytes_involution)

lemma small_length_field:
  assumes "n < 126"
  shows "(0x80 OR of_nat n :: byte) AND 0x7F = of_nat n" and "(0x80 OR of_nat n :: byte) AND 0x80 = 0x80"
    and "unat (of_nat n :: byte) = n" and "(of_nat n :: byte) \<noteq> 126" and "(of_nat n :: byte) \<noteq> 127"
proof -
  have "list_all (\<lambda>n. (0x80 OR of_nat n :: byte) AND 0x7F = of_nat n
      \<and> (0x80 OR of_nat n :: byte) AND 0x80 = 0x80
      \<and> (of_nat n :: byte) \<noteq> 126 \<and> (of_nat n :: byte) \<noteq> 127) [0..<126]"
    by code_simp
  with assms show "(0x80 OR of_nat n :: byte) AND 0x7F = of_nat n"
    and "(0x80 OR of_nat n :: byte) AND 0x80 = 0x80"
    and "(of_nat n :: byte) \<noteq> 126" and "(of_nat n :: byte) \<noteq> 127"
    by (simp_all add: list_all_iff)
  show "unat (of_nat n :: byte) = n" using assms by (simp add: unat_of_nat take_bit_eq_mod)
qed

lemma text_frame_decodes:
  assumes "send_text_frame key text = Ok frame" and "length key = 4"
  shows "rfc_decode (frame @ rest) = Some ((WS_OP_TEXT, encode_utf8 text), rest)"
proof -
  let ?p = "encode_utf8 text"
  note out = rfc_unmask_frame [OF assms(2), of _ ?p rest]
  consider "length ?p < 126" | "126 \<le> length ?p" "length ?p < 2 ^ 16"
    | "2 ^ 16 \<le> length ?p" "length ?p < 2 ^ 64"
    using assms(1) by (auto simp: send_text_frame_def Let_def not_less split: if_splits)
  then show ?thesis
  proof cases
    case 1
    with assms(1) out small_length_field [OF 1] show ?thesis
      by (auto simp: send_text_frame_def Let_def rfc_decode_def WS_OP_TEXT_def)
  next
    case 2
    with assms(1) out be16.dec_enc [of "length ?p"] show ?thesis
      by (auto simp: send_text_frame_def Let_def rfc_decode_def WS_OP_TEXT_def)
  next
    case 3
    with assms(1) out be64.dec_enc [of "length ?p"] show ?thesis
      by (auto simp: send_text_frame_def Let_def rfc_decode_def WS_OP_TEXT_def)
  qed
qed

lemma control_frame_decodes:
  assumes "length key = 4" and "length p \<le> 125" and "opcode = WS_OP_PING \<or> opcode = WS_OP_PONG"
  shows "rfc_decode (control_frame key opcode p @ rest) = Some ((opcode, p), rest)"
proof -
  have l: "length p < 126" using assms(2) by simp
  from assms(3) show ?thesis
    using rfc_unmask_frame [OF assms(1), of opcode p rest] small_length_field [OF l]
    by (auto simp: control_frame_def rfc_decode_def Let_def ws_ops)
qed

text \<open>Text frames are a self-delimiting format: a server that reads the stream frame by frame
  gets every text back, whatever follows.\<close>

definition text_frame :: "bytes \<times> string \<Rightarrow> bytes" where
  "text_frame kt = (case send_text_frame (fst kt) (snd kt) of Inr f \<Rightarrow> f | Inl _ \<Rightarrow> [])"

definition decode_text_frame :: "bytes \<Rightarrow> (bytes \<times> bytes) option" where
  "decode_text_frame bs = map_option (\<lambda>((_, p), r). (p, r)) (rfc_decode bs)"

interpretation client_text: wire_format "\<lambda>p. text_frame (key, bytes_chars p)"
  "\<lambda>bs. decode_text_frame bs" "\<lambda>p. length p < 2 ^ 64 \<and> length key = 4" for key
proof unfold_locales
  fix p rest :: bytes
  assume p: "length p < 2 ^ 64 \<and> length key = 4"
  obtain f where f: "send_text_frame key (bytes_chars p) = Ok f"
    using p by (cases "send_text_frame key (bytes_chars p)")
      (auto simp: send_text_frame_def Let_def encode_utf8_def bytes_chars_def split: if_splits)
  with text_frame_decodes [OF f] p show "decode_text_frame (text_frame (key, bytes_chars p) @ rest) = Some (p, rest)"
    by (simp add: text_frame_def decode_text_frame_def)
qed

section \<open>Reassembly\<close>

text \<open>The random tokens have the length asked for; no heartbeat expires and nobody stops the
  reader; a socket without a poll timeout has no timeout events.\<close>

definition live :: "env \<Rightarrow> ws \<Rightarrow> bool" where
  "live env s \<longleftrightarrow>
     (\<forall>n. length (token4 (env n)) = 4 \<and> length (token8 (env n)) = 8)
     \<and> (monitored s \<longrightarrow> (\<forall>n. \<not> stop_set (env n))
          \<and> (\<forall>n m. \<not> fle (fadd (now (env n)) (pong_seconds s)) (now (env m)))
          \<and> (ping_payload s \<noteq> None \<longrightarrow> (\<forall>m. \<not> fle (pong_deadline s) (now (env m)))))
     \<and> (monitored s \<or> PollTimeout \<notin> set (inbox s))"

text \<open>The payloads of the pongs among the frames sent.\<close>

definition sent_pongs :: "bytes list \<Rightarrow> bytes list" where
  "sent_pongs fs = List.map_filter (\<lambda>f. case rfc_decode f of
       Some ((opcode, p), _) \<Rightarrow> if opcode = WS_OP_PONG then Some p else None | None \<Rightarrow> None) fs"

definition pongs :: "ws \<Rightarrow> bytes list" where
  "pongs s = sent_pongs (outbox s)"

lemma sent_pongs_snoc:
  "sent_pongs (fs @ [f]) = sent_pongs fs @ sent_pongs [f]"
  by (simp add: sent_pongs_def map_filter_def)

lemma pongs_control:
  assumes "live env s" and "length p \<le> 125" and "opcode = WS_OP_PING \<or> opcode = WS_OP_PONG"
  shows "pongs (send_control env opcode p s) = pongs s @ (if opcode = WS_OP_PONG then [p] else [])"
proof -
  have "length (token4 (env (ticks s))) = 4" using assms(1) by (simp add: live_def)
  from control_frame_decodes [OF this assms(2,3), of "[]"] show ?thesis
    by (cases "opcode = WS_OP_PONG")
      (simp_all add: pongs_def send_control_def sent_pongs_snoc,
        simp_all add: sent_pongs_def map_filter_def)
qed

lemma live_send [simp]: "live env (send_control env opc p s) = live env s"
  by (simp add: live_def send_control_def)

lemma live_note [simp]: "live env (note_frame env s) = live env s"
  by (simp add: live_def note_frame_def)

lemma live_clear: "live env s \<Longrightarrow> live env (s\<lparr>ping_payload := None\<rparr>)"
  by (simp add: live_def)

lemma pongs_update [simp]:
  "pongs (s\<lparr>buffer := b\<rparr>) = pongs s" "pongs (s\<lparr>inbox := i\<rparr>) = pongs s"
  "pongs (s\<lparr>ping_payload := pp\<rparr>) = pongs s" "pongs (note_frame env s) = pongs s"
  "pongs (s\<lparr>ticks := n\<rparr>) = pongs s" "pongs (s\<lparr>pong_deadline := x\<rparr>) = pongs s"
  by (simp_all add: pongs_def)

lemma check_liveness_live:
  assumes "live env s"
  obtains s' where "check_liveness env s = Inr s'" and "live env s'" and "pongs s' = pongs s"
    and "buffer s' = buffer s" and "inbox s' = inbox s" and "monitored s' = monitored s"
proof (cases "monitored s")
  case False
  then show thesis using that [of s] assms by (simp add: check_liveness_def)
next
  case m: True
  let ?r = "env (ticks s)" let ?s = "s\<lparr>ticks := ticks s + 1\<rparr>"
  have ns: "\<not> stop_set ?r" and ls: "live env ?s" using assms m by (simp_all add: live_def)
  show thesis
  proof (cases "ping_payload s = None \<and> fle (idle_seconds s) (fsub (now ?r) (last_frame_at s))")
    case True
    let ?t = "?s\<lparr>ping_payload := Some (token8 ?r), pong_deadline := fadd (now ?r) (pong_seconds s)\<rparr>"
    have lt: "live env ?t" using ls m by (simp add: live_def)
    have "length (token8 ?r) = 8" using assms by (simp add: live_def)
    then have "pongs (send_control env WS_OP_PING (token8 ?r) ?t) = pongs s"
      using pongs_control [OF lt, of "token8 ?r" WS_OP_PING] by (simp add: ws_ops)
    with True m ns lt show thesis
      by (intro that [of "send_control env WS_OP_PING (token8 ?r) ?t"])
        (simp_all add: check_liveness_def Let_def)
  next
    case False
    then have "check_liveness env s = Inr ?s"
      using m ns assms by (auto simp: check_liveness_def Let_def live_def)
    with ls show thesis using that [of ?s] by simp
  qed
qed

lemma read_loop_live:
  "live env s \<Longrightarrow> monitored s \<or> PollTimeout \<notin> set evs \<Longrightarrow> count \<le> length (buffer s @ stream_of evs) \<Longrightarrow>
     \<exists>s'. read_loop env count evs s = Some (Inr (take count (buffer s @ stream_of evs), s'))
       \<and> pending s' = drop count (buffer s @ stream_of evs) \<and> live env s' \<and> pongs s' = pongs s"
proof (induction evs arbitrary: s)
  case Nil
  then show ?case
    by (auto simp: read_loop.simps [of env count "[]"] pending_def live_def)
next
  case (Cons e evs)
  show ?case
  proof (cases "count \<le> length (buffer s)")
    case True
    have "live env (s\<lparr>buffer := drop count (buffer s), inbox := e # evs\<rparr>)"
      using Cons.prems by (auto simp: live_def)
    with True show ?thesis by (subst read_loop.simps) (simp add: pending_def)
  next
    case False
    obtain s1 where s1: "check_liveness env s = Inr s1" "live env s1" "pongs s1 = pongs s"
      "buffer s1 = buffer s" "inbox s1 = inbox s" "monitored s1 = monitored s"
      using check_liveness_live [OF Cons.prems(1)] by metis
    show ?thesis
    proof (cases e)
      case (Chunk c)
      then have c: "c \<noteq> []" using Cons.prems(3) False by auto
      have "live env (s1\<lparr>buffer := buffer s1 @ c\<rparr>)" using s1(2) by (simp add: live_def)
      from Cons.IH [OF this] c Chunk Cons.prems s1 False show ?thesis
        by (subst read_loop.simps) auto
    next
      case PollTimeout
      with Cons.prems s1 have "monitored s1" by simp
      with Cons.IH [OF s1(2)] PollTimeout Cons.prems s1 False show ?thesis
        by (subst read_loop.simps) auto
    qed
  qed
qed

lemma read_exactly_live:
  assumes "live env s" and "pending s = bs @ rest"
  obtains s' where "read_exactly env (length bs) s = Some (Inr (bs, s'))" and "pending s' = rest"
    and "live env s'" and "pongs s' = pongs s"
proof -
  obtain s1 where s1: "check_liveness env s = Inr s1" "live env s1" "pongs s1 = pongs s"
    "buffer s1 = buffer s" "inbox s1 = inbox s" "monitored s1 = monitored s"
    using check_liveness_live [OF assms(1)] by metis
  have "monitored s1 \<or> PollTimeout \<notin> set (inbox s1)" using s1(2) by (simp add: live_def)
  moreover have "buffer s1 @ stream_of (inbox s1) = bs @ rest"
    using assms(2) s1 by (simp add: pending_def)
  ultimately show thesis
    using read_loop_live [OF s1(2), of "inbox s1" "length bs"] s1 that
    by (auto simp: read_exactly_def)
qed

text \<open>The reference encoding of a server frame: unmasked, shortest length form.\<close>

definition server_frame :: "frame \<Rightarrow> bytes" where
  "server_frame f =
     (let n = length (f_payload f)
      in ((if f_fin f then 0x80 else 0) OR f_opcode f)
         # (if n < 126 then [of_nat n] else if n < 2 ^ 16 then 126 # be_enc 2 n else 127 # be_enc 8 n)
         @ f_payload f)"

definition is_control :: "frame \<Rightarrow> bool" where
  "is_control f \<longleftrightarrow> f_opcode f = WS_OP_PING \<or> f_opcode f = WS_OP_PONG"

definition frame_fits :: "frame \<Rightarrow> bool" where
  "frame_fits f \<longleftrightarrow> length (f_payload f) \<le> WS_MAX_MESSAGE_BYTES
     \<and> (if is_control f then f_fin f \<and> length (f_payload f) \<le> 125
        else f_opcode f = WS_OP_TEXT \<or> f_opcode f = WS_OP_CONTINUATION)"

lemma header_of_frame:
  assumes "frame_fits f" and "n < 128" and "is_control f \<Longrightarrow> n \<le> 125"
  shows "parse_header ((if f_fin f then 0x80 else 0) OR f_opcode f) (of_nat n)
    = Ok (f_fin f, f_opcode f, of_nat n)"
proof -
  have "list_all (\<lambda>n. (of_nat n :: byte) AND 0x7F = of_nat n \<and> (of_nat n :: byte) AND 0x80 = 0
      \<and> ((of_nat n :: byte) \<le> 125) = (n \<le> 125)) [0..<128]"
    by code_simp
  with assms(2) have n: "(of_nat n :: byte) AND 0x7F = of_nat n" "(of_nat n :: byte) AND 0x80 = 0"
    "(of_nat n :: byte) \<le> 125 \<longleftrightarrow> n \<le> 125"
    by (simp_all add: list_all_iff)
  from assms(1,3) n show ?thesis
    by (auto simp: parse_header_def Let_def frame_fits_def is_control_def ws_ops not_less [symmetric]
        split: if_splits)
qed

lemma recv_frame_live:
  assumes "live env s" and "frame_fits f" and "pending s = server_frame f @ rest"
  obtains s' where "recv_frame env s = Some (Inr (f, s'))" and "pending s' = rest"
    and "live env s'" and "pongs s' = pongs s"
proof -
  define n where "n = length (f_payload f)"
  define a where "a = (if f_fin f then 0x80 else 0) OR f_opcode f"
  define b :: byte where "b = (if n < 126 then of_nat n else if n < 2 ^ 16 then 126 else 127)"
  define ext where "ext = (if n < 126 then [] else if n < 2 ^ 16 then be_enc 2 n else be_enc 8 n)"
  have enc: "pending s = [a, b] @ (ext @ f_payload f @ rest)"
    using assms(3) by (simp add: server_frame_def Let_def n_def a_def b_def ext_def)
  from read_exactly_live [OF assms(1) enc] obtain s1 where s1:
    "read_exactly env 2 s = Some (Inr ([a, b], s1))" "pending s1 = ext @ f_payload f @ rest"
    "live env s1" "pongs s1 = pongs s"
    by (metis length_Cons list.size(3) One_nat_def Suc_1)
  have cap: "n \<le> WS_MAX_MESSAGE_BYTES" and ctl: "is_control f \<Longrightarrow> n \<le> 125"
    using assms(2) by (auto simp: frame_fits_def n_def split: if_splits)
  define m where "m = (if n < 126 then n else if n < 2 ^ 16 then 126 else 127)"
  have "m < 128" and "is_control f \<Longrightarrow> m \<le> 125" using ctl by (auto simp: m_def)
  then have hd: "parse_header a b = Ok (f_fin f, f_opcode f, b)"
    using header_of_frame [OF assms(2), of m] by (simp add: a_def b_def m_def split: if_splits)
  obtain s2 where s2: "recv_length env b s1 = Some (Inr (n, s2))" "pending s2 = f_payload f @ rest"
    "live env s2" "pongs s2 = pongs s"
  proof -
    consider "n < 126" | "126 \<le> n" "n < 2 ^ 16" | "2 ^ 16 \<le> n" by linarith
    then show thesis
    proof cases
      case 1
      with s1 that [of s1] small_length_field [OF 1] show thesis
        by (simp add: recv_length_def b_def ext_def)
    next
      case 2
      from read_exactly_live [OF s1(3,2)] obtain s2 where
        "read_exactly env (length ext) s1 = Some (Inr (ext, s2))" "pending s2 = f_payload f @ rest"
        "live env s2" "pongs s2 = pongs s1" by metis
      with 2 s1 that [of s2] show thesis
        by (simp add: recv_length_def b_def ext_def be_dec_enc)
    next
      case 3
      have "n < 256 ^ 8" using cap by (simp add: WS_MAX_MESSAGE_BYTES_def)
      moreover from read_exactly_live [OF s1(3,2)] obtain s2 where
        "read_exactly env (length ext) s1 = Some (Inr (ext, s2))" "pending s2 = f_payload f @ rest"
        "live env s2" "pongs s2 = pongs s1" by metis
      ultimately show thesis using 3 s1 that [of s2]
        by (simp add: recv_length_def b_def ext_def be_dec_enc)
    qed
  qed
  obtain s3 where s3: "(if n = 0 then Some (Ok ([], s2)) else read_exactly env n s2)
      = Some (Inr (f_payload f, s3))" "pending s3 = rest" "live env s3" "pongs s3 = pongs s"
  proof (cases "n = 0")
    case True
    with s2 that [of s2] show thesis by (simp add: n_def)
  next
    case False
    from read_exactly_live [OF s2(3,2)] obtain s3 where
      "read_exactly env (length (f_payload f)) s2 = Some (Inr (f_payload f, s3))" "pending s3 = rest"
      "live env s3" "pongs s3 = pongs s2" by metis
    with False s2 that [of s3] show thesis by (simp add: n_def)
  qed
  have "recv_frame env s = Some (Inr (f, note_frame env s3))"
    using s1(1) s2(1) s3(1) hd cap
    by (simp add: recv_frame_def recv_payload_def not_less)
  with s3 that [of "note_frame env s3"] show thesis by simp
qed

text \<open>A text message as a server may send it: a text frame and continuations, the last one final,
  with pings and pongs anywhere between them.\<close>

fun text_run :: "bool \<Rightarrow> frame list \<Rightarrow> bool" where
  "text_run started [] = False"
| "text_run started (f # fs) =
     (if is_control f then text_run started fs
      else f_opcode f = (if started then WS_OP_CONTINUATION else WS_OP_TEXT)
        \<and> (if f_fin f then fs = [] else text_run True fs))"

definition data_bytes :: "frame list \<Rightarrow> bytes" where
  "data_bytes fs = concat (map f_payload (filter (\<lambda>f. \<not> is_control f) fs))"

definition ping_payloads :: "frame list \<Rightarrow> bytes list" where
  "ping_payloads fs = map f_payload (filter (\<lambda>f. f_opcode f = WS_OP_PING) fs)"

lemma data_bytes_simps [simp]:
  "data_bytes [] = []"
  "data_bytes (f # fs) = (if is_control f then [] else f_payload f) @ data_bytes fs"
  by (simp_all add: data_bytes_def)

lemma ping_payloads_simps [simp]:
  "ping_payloads [] = []"
  "ping_payloads (f # fs) = (if f_opcode f = WS_OP_PING then [f_payload f] else []) @ ping_payloads fs"
  by (simp_all add: ping_payloads_def)

lemma handle_control:
  assumes "is_control f" and "frame_fits f" and "live env s"
  obtains s' where "handle_frame env f mop chunks s = Again mop chunks s'" and "pending s' = pending s"
    and "live env s'" and "pongs s' = pongs s @ (if f_opcode f = WS_OP_PING then [f_payload f] else [])"
proof (cases "f_opcode f = WS_OP_PING")
  case True
  have "length (f_payload f) \<le> 125" using assms by (simp add: frame_fits_def)
  with True pongs_control [OF assms(3), of "f_payload f" WS_OP_PONG] assms(3) show thesis
    by (intro that [of "send_control env WS_OP_PONG (f_payload f) s"])
      (simp_all add: handle_frame_def ws_ops)
next
  case False
  with assms(1) have op: "f_opcode f = WS_OP_PONG" by (simp add: is_control_def)
  let ?s = "if monitored s \<and> ping_payload s = Some (f_payload f) then s\<lparr>ping_payload := None\<rparr> else s"
  have "live env ?s" using assms(3) live_clear by simp
  moreover have "pending ?s = pending s" by (simp add: pending_def)
  moreover have "pongs ?s = pongs s" by simp
  moreover have "handle_frame env f mop chunks s = Again mop chunks ?s"
    using op by (simp add: handle_frame_def ws_ops)
  ultimately show thesis using that [of ?s] op False by simp
qed

lemma recv_loop_run:
  assumes "live env s" and "list_all frame_fits fs" and "text_run (mop \<noteq> None) fs"
    and "mop = None \<or> mop = Some WS_OP_TEXT" and "acc = (if mop = None then [] else concat chunks)"
    and "length acc + length (data_bytes fs) \<le> WS_MAX_MESSAGE_BYTES"
    and "utf8_valid (acc @ data_bytes fs)" and "pending s = concat (map server_frame fs) @ rest"
  shows "\<exists>s'. recv_loop env mop chunks s = Some (Inr (Some (bytes_chars (acc @ data_bytes fs)), s'))
    \<and> pending s' = rest \<and> pongs s' = pongs s @ ping_payloads fs"
  using assms
proof (induction fs arbitrary: mop chunks acc s)
  case Nil
  then show ?case by simp
next
  case (Cons f fs)
  from Cons.prems obtain s1 where s1: "recv_frame env s = Some (Inr (f, s1))"
    "pending s1 = concat (map server_frame fs) @ rest" "live env s1" "pongs s1 = pongs s"
    using recv_frame_live [of env s f "concat (map server_frame fs) @ rest"] by auto
  show ?case
  proof (cases "is_control f")
    case True
    from Cons.prems have fit: "frame_fits f" by simp
    from handle_control [OF True fit s1(3), of mop chunks] obtain s2 where
      s2: "handle_frame env f mop chunks s1 = Again mop chunks s2" "pending s2 = pending s1"
      "live env s2" "pongs s2 = pongs s1 @ (if f_opcode f = WS_OP_PING then [f_payload f] else [])"
      by metis
    have "\<exists>s'. recv_loop env mop chunks s2 = Some (Inr (Some (bytes_chars (acc @ data_bytes fs)), s'))
        \<and> pending s' = rest \<and> pongs s' = pongs s2 @ ping_payloads fs"
      by (rule Cons.IH) (use Cons.prems True s2 s1 in auto)
    with s1 s2 True show ?thesis by (subst recv_loop.simps) auto
  next
    case False
    let ?chunks = "(if f_opcode f = WS_OP_CONTINUATION then chunks else []) @ [f_payload f]"
    have op: "f_opcode f = (if mop \<noteq> None then WS_OP_CONTINUATION else WS_OP_TEXT)"
      using Cons.prems(3) False by auto
    have np: "f_opcode f \<noteq> WS_OP_PING" using False by (simp add: is_control_def)
    have acc: "concat ?chunks = acc @ f_payload f" using Cons.prems(4,5) op by (auto simp: ws_ops)
    have len: "sum_list (map length ?chunks) = length (acc @ f_payload f)"
      unfolding acc [symmetric] by (simp add: length_concat)
    have cap: "\<not> WS_MAX_MESSAGE_BYTES < sum_list (map length ?chunks)"
      using Cons.prems(6) False unfolding len by simp
    show ?thesis
    proof (cases "f_fin f")
      case True
      then have "fs = []" using Cons.prems(3) False by auto
      moreover have "decode_utf8 (concat ?chunks) = Some (bytes_chars (acc @ f_payload f))"
        using Cons.prems(7) False \<open>fs = []\<close> unfolding acc by (simp add: decode_utf8_def)
      ultimately show ?thesis
        using s1 True op cap Cons.prems(4) False np
        by (subst recv_loop.simps) (auto simp: handle_frame_def Let_def ws_ops split: if_splits)
    next
      case nf: False
      have h: "handle_frame env f mop chunks s1 = Again (Some WS_OP_TEXT) ?chunks s1"
        using nf op cap Cons.prems(4) by (auto simp: handle_frame_def Let_def ws_ops)
      have "\<exists>s'. recv_loop env (Some WS_OP_TEXT) ?chunks s1
          = Some (Inr (Some (bytes_chars ((acc @ f_payload f) @ data_bytes fs)), s'))
          \<and> pending s' = rest \<and> pongs s' = pongs s1 @ ping_payloads fs"
        by (rule Cons.IH) (use Cons.prems False nf s1 acc in auto)
      with s1 h False np show ?thesis by (subst recv_loop.simps) auto
    qed
  qed
qed

text \<open>C9. A text message that the peer fragments at will, interleaves with pings and pongs and that
  TCP cuts into arbitrary chunks (with poll timeouts between them) is received as exactly its text;
  nothing after it is consumed, and every ping was answered with a pong of the same payload.\<close>

theorem recv_message_reassembles:
  assumes "live env s" and "list_all frame_fits fs" and "text_run False fs"
    and "length (data_bytes fs) \<le> WS_MAX_MESSAGE_BYTES" and "utf8_valid (data_bytes fs)"
    and "pending s = concat (map server_frame fs) @ rest"
  shows "\<exists>s'. recv_message env s = Some (Inr (Some (bytes_chars (data_bytes fs)), s'))
    \<and> pending s' = rest \<and> pongs s' = pongs s @ ping_payloads fs"
  using recv_loop_run [of env s fs None "[]" "[]" rest] assms by (simp add: recv_message_def)

section \<open>Outcomes\<close>

lemma check_liveness_error:
  "check_liveness env s = Inl e \<Longrightarrow> \<exists>m. e = WebSocketError m"
  by (auto simp: check_liveness_def Let_def split: if_splits)

lemma read_loop_error:
  "read_loop env count evs s = Some (Inl e) \<Longrightarrow>
     (\<exists>m. e = WebSocketError m) \<or> e = TimeoutError \<and> \<not> monitored s"
proof (induction env count evs s rule: read_loop.induct)
  case (1 env count evs s)
  then show ?case
    by (subst (asm) (3) read_loop.simps)
      (auto split: if_splits sum.splits list.splits net_event.splits
        dest: check_liveness_error check_liveness_keeps)
qed

lemma read_loop_monitored:
  "read_loop env count evs s = Some (Inr (bs, s')) \<Longrightarrow> monitored s' = monitored s"
proof (induction env count evs s rule: read_loop.induct)
  case (1 env count evs s)
  then show ?case
    by (subst (asm) (3) read_loop.simps)
      (auto split: if_splits sum.splits list.splits net_event.splits dest: check_liveness_keeps)
qed

lemma read_exactly_error:
  "read_exactly env count s = Some (Inl e) \<Longrightarrow>
     (\<exists>m. e = WebSocketError m) \<or> e = TimeoutError \<and> \<not> monitored s"
  by (auto simp: read_exactly_def split: sum.splits
      dest!: read_loop_error dest: check_liveness_error check_liveness_keeps)

lemma read_exactly_monitored:
  "read_exactly env count s = Some (Inr (bs, s')) \<Longrightarrow> monitored s' = monitored s"
  by (auto simp: read_exactly_def split: sum.splits
      dest!: read_loop_monitored dest: check_liveness_keeps)

lemma bindI_Inl:
  "bindI m f = Some (Inl e) \<longleftrightarrow> m = Some (Inl e) \<or> (\<exists>x. m = Some (Inr x) \<and> f x = Some (Inl e))"
  by (auto simp: bindI_def split: option.split sum.split)

lemma recv_length_outcome:
  "recv_length env l s = Some (Inl e) \<Longrightarrow> (\<exists>m. e = WebSocketError m) \<or> e = TimeoutError \<and> \<not> monitored s"
  "recv_length env l s = Some (Inr (n, s')) \<Longrightarrow> monitored s' = monitored s"
  by (auto simp: recv_length_def bindI_Inl result_simps split: if_splits
      dest: read_exactly_error read_exactly_monitored)

lemma recv_payload_outcome:
  "recv_payload env fin opc n s = Some (Inl e) \<Longrightarrow> (\<exists>m. e = WebSocketError m) \<or> e = TimeoutError \<and> \<not> monitored s"
  "recv_payload env fin opc n s = Some (Inr (f, s')) \<Longrightarrow> monitored s' = monitored s"
  by (auto simp: recv_payload_def bindI_Inl result_simps split: if_splits
      dest: read_exactly_error read_exactly_monitored)

lemma recv_frame_monitored:
  "recv_frame env s = Some (Inr (f, s')) \<Longrightarrow> monitored s' = monitored s"
  by (erule recv_frame_elim)
    (metis read_exactly_monitored recv_length_outcome(2) recv_payload_outcome(2))

lemma recv_frame_error:
  assumes "recv_frame env s = Some (Inl e)"
  shows "(\<exists>m. e = WebSocketError m) \<or> e = TimeoutError \<and> \<not> monitored s"
proof -
  consider "read_exactly env 2 s = Some (Inl e)"
    | head s1 where "read_exactly env 2 s = Some (Inr (head, s1))"
      and "parse_header (head ! 0) (head ! 1) = Inl e"
    | head s1 fin opc l where "read_exactly env 2 s = Some (Inr (head, s1))"
      and "bindI (recv_length env l s1) (\<lambda>(len, s). recv_payload env fin opc len s) = Some (Inl e)"
  proof (cases "read_exactly env 2 s = Some (Inl e)")
    case True
    then show thesis by (rule that(1))
  next
    case False
    then obtain head s1 where h: "read_exactly env 2 s = Some (Inr (head, s1))"
      using assms by (auto simp: recv_frame_def bindI_Inl)
    then show thesis
      using assms that(2) [OF h] that(3) [OF h]
      by (cases "parse_header (head ! 0) (head ! 1)") (auto simp: recv_frame_def)
  qed
  then show ?thesis
  proof cases
    case 1
    then show ?thesis by (rule read_exactly_error)
  next
    case 2
    then show ?thesis by (auto simp: parse_header_def Let_def split: if_splits)
  next
    case 3
    then show ?thesis
      by (auto simp: bindI_Inl dest!: recv_length_outcome recv_payload_outcome read_exactly_monitored)
  qed
qed

lemma handle_frame_outcome:
  "handle_frame env f mop chunks s = Throw e \<Longrightarrow> \<exists>m. e = WebSocketError m"
  "handle_frame env f mop chunks s = Again mop' chunks' s' \<Longrightarrow> monitored s' = monitored s"
  "handle_frame env f mop chunks s = Give (Some text) s' \<Longrightarrow>
     length text \<le> WS_MAX_MESSAGE_BYTES \<and> utf8_valid (encode_utf8 text)"
  by (auto simp: handle_frame_def Let_def decode_utf8_def length_concat
      split: if_splits option.splits)

lemma recv_loop_error:
  "recv_loop env mop chunks s = Some (Inl e) \<Longrightarrow>
     (\<exists>m. e = WebSocketError m) \<or> e = TimeoutError \<and> \<not> monitored s"
proof (induction env mop chunks s rule: recv_loop.induct)
  case (1 env mop chunks s)
  consider "recv_frame env s = Some (Inl e)"
    | f s1 where "recv_frame env s = Some (Inr (f, s1))" "handle_frame env f mop chunks s1 = Throw e"
    | f s1 mop' chunks' s2 where "recv_frame env s = Some (Inr (f, s1))"
      "handle_frame env f mop chunks s1 = Again mop' chunks' s2"
      "recv_loop env mop' chunks' s2 = Some (Inl e)"
  proof (cases "recv_frame env s = Some (Inl e)")
    case True
    then show thesis by (rule that(1))
  next
    case False
    with 1(2) obtain f s1 where f: "recv_frame env s = Some (Inr (f, s1))"
      by (subst (asm) recv_loop.simps [of env mop chunks s]) (auto simp: bindI_Inl)
    have "(case handle_frame env f mop chunks s1 of
         Again mop' chunks' s2 \<Rightarrow> recv_loop env mop' chunks' s2
       | Give text s2 \<Rightarrow> Some (Ok (text, s2)) | Throw e' \<Rightarrow> Some (Err e')) = Some (Inl e)"
      using 1(2) f by (simp add: recv_loop.simps [of env mop chunks s])
    with that(2) [OF f] that(3) [OF f] show thesis
      by (cases "handle_frame env f mop chunks s1") auto
  qed
  then show ?case
  proof cases
    case 1
    then show ?thesis by (rule recv_frame_error)
  next
    case 2
    then show ?thesis using handle_frame_outcome(1) by blast
  next
    case 3
    with 1(1) [OF 3(1) refl 3(2,3)] handle_frame_outcome(2) [OF 3(2)] recv_frame_monitored [OF 3(1)]
    show ?thesis by simp
  qed
qed

lemma recv_loop_text:
  "recv_loop env mop chunks s = Some (Inr (Some text, s')) \<Longrightarrow>
     length text \<le> WS_MAX_MESSAGE_BYTES \<and> utf8_valid (encode_utf8 text)"
proof (induction env mop chunks s rule: recv_loop.induct)
  case (1 env mop chunks s)
  from 1(2) obtain f s1 where f: "recv_frame env s = Some (Inr (f, s1))"
    and h: "(case handle_frame env f mop chunks s1 of
       Again mop chunks' s'' \<Rightarrow> recv_loop env mop chunks' s''
     | Give text s'' \<Rightarrow> Some (Ok (text, s'')) | Throw e \<Rightarrow> Some (Err e)) = Some (Inr (Some text, s'))"
    by (subst (asm) recv_loop.simps [of env mop chunks s]) (auto simp: result_simps)
  show ?case
  proof (cases "handle_frame env f mop chunks s1")
    case (Again mop' chunks' s2)
    with h 1(1) [OF f refl Again] show ?thesis by simp
  next
    case (Give x2 s2)
    with h handle_frame_outcome(3) [of env f mop chunks s1] show ?thesis by simp
  next
    case (Throw e)
    with h show ?thesis by simp
  qed
qed

text \<open>Whatever bytes the peer sends: a returned text is valid UTF-8 and at most 8 MiB, a
  monitored read fails only with \<open>WebSocketError\<close> (which makes the caller reconnect), and only an
  unmonitored one can time out.\<close>

theorem recv_message_outcomes:
  shows "(\<forall>text s'. recv_message env s = Some (Inr (Some text, s')) \<longrightarrow>
            length text \<le> 8388608 \<and> utf8_valid (encode_utf8 text))
    \<and> (\<forall>e. recv_message env s = Some (Inl e) \<longrightarrow>
            (\<exists>m. e = WebSocketError m) \<or> e = TimeoutError \<and> \<not> monitored s)"
  unfolding recv_message_def
  using recv_loop_text [of env None "[]" s] recv_loop_error [of env None "[]" s]
  by (auto simp: WS_MAX_MESSAGE_BYTES_def)

text \<open>A client text frame is masked, and a server that decodes it by RFC 6455 gets exactly the
  text's bytes and the rest of the stream, for every length class of the header.\<close>

theorem send_text_decodes:
  assumes "send_text env text s = Ok s'" and "length (token4 (env (ticks s))) = 4"
  shows "\<exists>frame. outbox s' = outbox s @ [frame]
    \<and> rfc_decode (frame @ rest) = Some ((WS_OP_TEXT, encode_utf8 text), rest)"
  using assms text_frame_decodes by (auto simp: send_text_def result_simps)

section \<open>The handshake loses nothing\<close>

lemma handshake_header_sound:
  "handshake_header h evs = Some (Inr (header, evs')) \<Longrightarrow>
     contains_sub blank_line header \<and> h @ stream_of evs = header @ stream_of evs'"
proof (induction h evs rule: handshake_header.induct)
  case (1 h evs)
  from 1(2) show ?case
    by (subst (asm) handshake_header.simps)
      (auto split: if_splits list.splits net_event.splits dest: 1(1))
qed

text \<open>A completed handshake means that the response carried the accept value of this client's own
  key, and every byte the server sent after the blank line is still to be read: frames that arrive
  in the same packet as the response are not lost.\<close>

theorem handshake_keeps_stream:
  assumes "handshake sha1 nonce path host port s = Some (Inr s')"
  shows "\<exists>head. stream_of (inbox s) = head @ blank_line @ pending s'
    \<and> accept_value (tl (split_sub crlf (bytes_chars head)))
        = b64encode (sha1 (encode_utf8 (b64encode nonce @ WS_GUID)))"
proof -
  from assms obtain header evs where h: "handshake_header [] (inbox s) = Some (Inr (header, evs))"
    by (auto simp: handshake_def Let_def result_simps)
  obtain head f rest where p: "partition_sub blank_line header = (head, f, rest)" by (metis prod_cases3)
  from handshake_header_sound [OF h] p have f: "f" and st: "stream_of (inbox s) = header @ stream_of evs"
    by (auto simp: contains_sub_def)
  from partition_sub_sound [OF p] f have "header = head @ blank_line @ rest" by simp
  moreover from assms h p have "pending s' = rest @ stream_of evs"
    and "accept_value (tl (split_sub crlf (bytes_chars head)))
        = b64encode (sha1 (encode_utf8 (b64encode nonce @ WS_GUID)))"
    by (auto simp: handshake_def Let_def pending_def split: if_splits)
  ultimately show ?thesis using st by auto
qed

section \<open>Silent peers\<close>

lemma read_loop_timeouts:
  assumes "monitored s" and "length (buffer s) < count"
  shows "read_loop env count (PollTimeout # replicate m PollTimeout) s =
     (case check_liveness env s of Inl e \<Rightarrow> Some (Err e)
      | Inr s' \<Rightarrow> read_loop env count (replicate m PollTimeout) s')"
  using assms by (subst read_loop.simps) (auto split: sum.split dest: check_liveness_keeps)

lemma silent_after_ping:
  assumes "monitored s" and "length (buffer s) < count" and "ping_payload s \<noteq> None"
    and "\<And>k. \<not> stop_set (env k)" and "\<And>k. j \<le> k \<Longrightarrow> fle (pong_deadline s) (now (env k))"
    and "j - ticks s < m"
  shows "read_loop env count (replicate m PollTimeout) s
    = Some (Err (WebSocketError ''heartbeat Pong timed out''))"
  using assms
proof (induction m arbitrary: s)
  case 0
  then show ?case by simp
next
  case (Suc m)
  show ?case
  proof (cases "fle (pong_deadline s) (now (env (ticks s)))")
    case True
    with Suc.prems show ?thesis
      by (auto simp add: read_loop_timeouts check_liveness_def Let_def)
  next
    case False
    then have "ticks s < j" using Suc.prems(5) by (meson not_less)
    with Suc.IH [of "s\<lparr>ticks := ticks s + 1\<rparr>"] False Suc.prems show ?thesis
      by (auto simp add: read_loop_timeouts check_liveness_def Let_def)
  qed
qed

lemma silent_before_ping:
  assumes "monitored s" and "length (buffer s) < count" and "ping_payload s = None"
    and "\<And>k. \<not> stop_set (env k)"
    and "ticks s \<le> i" and "fle (idle_seconds s) (fsub (now (env i)) (last_frame_at s))"
    and "\<And>k. ticks s \<le> k \<Longrightarrow> k < i \<Longrightarrow>
      \<not> fle (idle_seconds s) (fsub (now (env k)) (last_frame_at s))"
    and "\<And>k. j \<le> k \<Longrightarrow> fle (fadd (now (env i)) (pong_seconds s)) (now (env k))"
  shows "\<exists>n. \<forall>m \<ge> n. \<forall>x. read_loop env count (replicate m PollTimeout) (s\<lparr>inbox := x\<rparr>)
    = Some (Err (WebSocketError ''heartbeat Pong timed out''))"
  using assms
proof (induction "i - ticks s" arbitrary: s rule: less_induct)
  case less
  show ?case
  proof (cases "ticks s = i")
    case True
    let ?r = "env i"
    have "read_loop env count (replicate m PollTimeout) (s\<lparr>inbox := x\<rparr>)
        = Some (Err (WebSocketError ''heartbeat Pong timed out''))" if m: "j + 2 \<le> m" for m x
    proof -
      define s1 where "s1 = send_control env WS_OP_PING (token8 ?r)
        (s\<lparr>inbox := x, ticks := ticks s + 1, ping_payload := Some (token8 ?r),
           pong_deadline := fadd (now ?r) (pong_seconds s)\<rparr>)"
      have c: "check_liveness env (s\<lparr>inbox := x\<rparr>) = Inr s1"
        using True less.prems by (simp add: check_liveness_def Let_def s1_def)
      have "read_loop env count (replicate m' PollTimeout) s1
          = Some (Err (WebSocketError ''heartbeat Pong timed out''))" if "j < m'" for m'
        by (rule silent_after_ping [where j = j])
          (use less.prems that in \<open>auto simp: s1_def send_control_def\<close>)
      then show ?thesis using m less.prems c by (cases m) (simp_all add: read_loop_timeouts)
    qed
    then show ?thesis by blast
  next
    case False
    let ?s = "s\<lparr>ticks := ticks s + 1\<rparr>"
    have lt: "ticks s < i" using False less.prems(5) by simp
    have c: "check_liveness env (s\<lparr>inbox := x\<rparr>) = Inr (s\<lparr>inbox := x, ticks := ticks s + 1\<rparr>)" for x
      using lt less.prems by (simp add: check_liveness_def Let_def)
    have "i - ticks ?s < i - ticks s" using lt by simp
    from less.hyps [OF this] less.prems lt have "\<exists>n. \<forall>m \<ge> n. \<forall>x.
        read_loop env count (replicate m PollTimeout) (?s\<lparr>inbox := x\<rparr>)
        = Some (Err (WebSocketError ''heartbeat Pong timed out''))" by simp
    then obtain n where
      n: "\<And>m x. n \<le> m \<Longrightarrow> read_loop env count (replicate m PollTimeout) (?s\<lparr>inbox := x\<rparr>)
        = Some (Err (WebSocketError ''heartbeat Pong timed out''))" by blast
    have sw: "s\<lparr>inbox := x, ticks := ticks s + 1\<rparr> = ?s\<lparr>inbox := x\<rparr>" for x by simp
    have "read_loop env count (replicate m PollTimeout) (s\<lparr>inbox := x\<rparr>)
        = Some (Err (WebSocketError ''heartbeat Pong timed out''))" if "Suc n \<le> m" for m x
      using that less.prems c n unfolding sw by (cases m) (simp_all add: read_loop_timeouts)
    then show ?thesis by blast
  qed
qed

text \<open>C30. A peer that goes silent is always detected: once the clock has passed the idle bound and,
  after the ping, the pong bound, some finite number of poll timeouts makes \<open>recv_message\<close> raise
  instead of waiting for ever.\<close>

theorem silent_peer_detected:
  assumes "monitored s" and "length (buffer s) < 2" and "ping_payload s = None"
    and "\<And>k. \<not> stop_set (env k)"
    and "ticks s \<le> i" and "fle (idle_seconds s) (fsub (now (env i)) (last_frame_at s))"
    and "\<And>k. ticks s \<le> k \<Longrightarrow> k < i \<Longrightarrow>
      \<not> fle (idle_seconds s) (fsub (now (env k)) (last_frame_at s))"
    and "\<And>k. j \<le> k \<Longrightarrow> fle (fadd (now (env i)) (pong_seconds s)) (now (env k))"
  shows "\<exists>n. \<forall>m \<ge> n. recv_message env (s\<lparr>inbox := replicate m PollTimeout\<rparr>)
    = Some (Err (WebSocketError ''heartbeat Pong timed out''))"
proof (cases "ticks s = i")
  case True
  let ?r = "env i"
  have "recv_message env (s\<lparr>inbox := replicate m PollTimeout\<rparr>)
      = Some (Err (WebSocketError ''heartbeat Pong timed out''))" if m: "j < m" for m
  proof -
    define s1 where "s1 = send_control env WS_OP_PING (token8 ?r)
      (s\<lparr>inbox := replicate m PollTimeout, ticks := ticks s + 1, ping_payload := Some (token8 ?r),
         pong_deadline := fadd (now ?r) (pong_seconds s)\<rparr>)"
    have "check_liveness env (s\<lparr>inbox := replicate m PollTimeout\<rparr>) = Inr s1"
      using True assms by (simp add: check_liveness_def Let_def s1_def)
    moreover have "inbox s1 = replicate m PollTimeout" by (simp add: s1_def)
    moreover have "read_loop env 2 (replicate m PollTimeout) s1
        = Some (Err (WebSocketError ''heartbeat Pong timed out''))"
      by (rule silent_after_ping [where j = j])
        (use assms m in \<open>auto simp: s1_def send_control_def\<close>)
    ultimately show ?thesis
      by (simp add: recv_message_def recv_loop.simps recv_frame_def read_exactly_def)
  qed
  then show ?thesis by (meson less_eq_Suc_le)
next
  case False
  let ?s = "s\<lparr>ticks := ticks s + 1\<rparr>"
  have "\<exists>n. \<forall>m \<ge> n. \<forall>x. read_loop env 2 (replicate m PollTimeout) (?s\<lparr>inbox := x\<rparr>)
      = Some (Err (WebSocketError ''heartbeat Pong timed out''))"
    by (rule silent_before_ping [where i = i and j = j]) (use assms False in auto)
  then obtain n where n: "\<And>m x. n \<le> m \<Longrightarrow> read_loop env 2 (replicate m PollTimeout) (?s\<lparr>inbox := x\<rparr>)
      = Some (Err (WebSocketError ''heartbeat Pong timed out''))" by blast
  have "check_liveness env (s\<lparr>inbox := x\<rparr>) = Inr (?s\<lparr>inbox := x\<rparr>)" for x
    using False assms by (simp add: check_liveness_def Let_def)
  with n show ?thesis
    by (intro exI [of _ n]) (simp add: recv_message_def recv_loop.simps recv_frame_def read_exactly_def)
qed

section \<open>Witnesses\<close>

definition calm_env :: env where
  "calm_env n = \<lparr>stop_set = False, now = Fin (of_nat n), token8 = replicate 8 1, token4 = replicate 4 2\<rparr>"

definition idle_ws :: "net_event list \<Rightarrow> ws" where
  "idle_ws evs = \<lparr>buffer = [], inbox = evs, outbox = [], ticks = 0, monitored = False,
     idle_seconds = Fin 5, pong_seconds = Fin 10, last_frame_at = Fin 0, ping_payload = None,
     pong_deadline = Fin 0\<rparr>"

definition hello_frames :: "frame list" where
  "hello_frames = [\<lparr>f_fin = False, f_opcode = WS_OP_TEXT, f_payload = [104]\<rparr>,
     \<lparr>f_fin = True, f_opcode = WS_OP_PING, f_payload = [7]\<rparr>,
     \<lparr>f_fin = True, f_opcode = WS_OP_CONTINUATION, f_payload = [105]\<rparr>]"

definition hello_ws :: ws where
  "hello_ws = idle_ws [Chunk [1, 1, 104, 0x89], Chunk [1, 7, 0x80, 1, 105]]"

lemma hello_facts:
  "live calm_env hello_ws" "list_all frame_fits hello_frames" "text_run False hello_frames"
  "data_bytes hello_frames = [104, 105]" "ping_payloads hello_frames = [[7]]"
  "pending hello_ws = concat (map server_frame hello_frames) @ []" "utf8_valid [104, 105]"
  "bytes_chars [104, 105] = ''hi''" "pongs hello_ws = []"
proof -
  show "live calm_env hello_ws" by (simp add: live_def calm_env_def hello_ws_def idle_ws_def)
  show "list_all frame_fits hello_frames" and "text_run False hello_frames"
    and "data_bytes hello_frames = [104, 105]" and "ping_payloads hello_frames = [[7]]"
    by (simp_all add: hello_frames_def frame_fits_def is_control_def ws_ops WS_MAX_MESSAGE_BYTES_def)
  show "pending hello_ws = concat (map server_frame hello_frames) @ []"
    by (simp add: pending_def hello_ws_def idle_ws_def hello_frames_def server_frame_def ws_ops)
  show "utf8_valid [104, 105]" and "bytes_chars [104, 105] = ''hi''" by (simp, code_simp)
  show "pongs hello_ws = []"
    by (simp add: pongs_def hello_ws_def idle_ws_def sent_pongs_def map_filter_def)
qed

lemma hello_received:
  "\<exists>s'. recv_message calm_env hello_ws = Some (Inr (Some ''hi'', s'))"
  using recv_loop_run [of calm_env hello_ws hello_frames None "[]" "[]" "[]"] hello_facts
  by (auto simp: recv_message_def WS_MAX_MESSAGE_BYTES_def)

theorem recv_message_reassembles_witness:
  "\<exists>s'. recv_message calm_env hello_ws = Some (Inr (Some ''hi'', s')) \<and> pongs s' = [[7]]"
  using recv_message_reassembles [of calm_env hello_ws hello_frames "[]"] hello_facts
  by (auto simp: WS_MAX_MESSAGE_BYTES_def)

theorem recv_message_outcomes_witness:
  "\<exists>text s'. recv_message calm_env hello_ws = Some (Inr (Some text, s'))
     \<and> length text \<le> 8388608 \<and> utf8_valid (encode_utf8 text)"
  using recv_message_outcomes [of calm_env hello_ws] hello_received by blast

theorem send_text_decodes_witness:
  "\<exists>s' frame. send_text calm_env ''hi'' (idle_ws []) = Ok s' \<and> outbox s' = [frame]
     \<and> rfc_decode (frame @ []) = Some ((WS_OP_TEXT, encode_utf8 ''hi''), [])"
proof -
  obtain s' where s': "send_text calm_env ''hi'' (idle_ws []) = Ok s'"
    by (simp add: send_text_def send_text_frame_def Let_def)
  have "length (token4 (calm_env (ticks (idle_ws [])))) = 4" by (simp add: calm_env_def)
  from send_text_decodes [OF s' this, of "[]"] s' show ?thesis by (auto simp: idle_ws_def)
qed

definition slow_env :: env where
  "slow_env n = (calm_env n)\<lparr>now := Fin (of_nat (min n 20))\<rparr>"

theorem silent_peer_detected_witness:
  "\<exists>n. \<forall>m \<ge> n. recv_message slow_env ((idle_ws [])\<lparr>monitored := True, inbox := replicate m PollTimeout\<rparr>)
    = Some (Err (WebSocketError ''heartbeat Pong timed out''))"
proof -
  have sub: "fsub (now (slow_env k)) (Fin 0) = Fin (of_nat k)" if "k < 20" for k
    using that rnd64_of_int [of "int k"] by (simp add: fsub_def slow_env_def calm_env_def min_def)
  have at5: "now (slow_env 5) = Fin 5" by (simp add: slow_env_def)
  show ?thesis
    using silent_peer_detected [of "(idle_ws [])\<lparr>monitored := True\<rparr>" slow_env 5 15]
      sub [of 5] sub at5 by (simp add: idle_ws_def float_eval) (simp add: slow_env_def calm_env_def)
qed

definition upgrade_response :: bytes where
  "upgrade_response = encode_utf8 (''H 101'' @ crlf @ ''Sec-WebSocket-Accept: AAAA'' @ crlf @ crlf)
     @ [0x81, 0]"

lemma upgrade_header:
  "handshake_header [] [Chunk upgrade_response] = Some (Inr (upgrade_response, []))"
  by (simp add: handshake_header.simps contains_sub_def upgrade_response_def blank_line_def
      encode_utf8_def crlf_def)

lemma upgrade_facts:
  "snd (snd (partition_sub blank_line upgrade_response)) = [0x81, 0]"
  "split_sub crlf (bytes_chars (fst (partition_sub blank_line upgrade_response)))
     = [''H 101'', ''Sec-WebSocket-Accept: AAAA'']"
  "contains_sub ''101'' ''H 101''"
  "accept_value [''Sec-WebSocket-Accept: AAAA''] = b64encode [0, 0, 0]"
  by code_simp+

theorem handshake_keeps_stream_witness:
  "\<exists>s'. handshake (\<lambda>_. [0, 0, 0]) [1, 2, 3] ''/'' ''h'' 1 (idle_ws [Chunk upgrade_response]) = Some (Inr s')
     \<and> (\<exists>head. upgrade_response = head @ blank_line @ pending s')"
proof -
  have i: "inbox (idle_ws [Chunk upgrade_response]) = [Chunk upgrade_response]"
    by (simp add: idle_ws_def)
  obtain s' where s': "handshake (\<lambda>_. [0, 0, 0]) [1, 2, 3] ''/'' ''h'' 1
    (idle_ws [Chunk upgrade_response]) = Some (Inr s')"
    by (simp add: handshake_def Let_def i upgrade_header upgrade_facts case_prod_beta)
  have "stream_of (inbox (idle_ws [Chunk upgrade_response])) = upgrade_response"
    by (simp only: i stream_of.simps) (simp add: upgrade_response_def)
  with handshake_keeps_stream [OF s'] s' show ?thesis by auto
qed

end
