(* ===== verification/GnbMetrics.thy ===== *)
theory GnbMetrics
  imports PyValue
begin

text \<open>
  What a gNB metrics notification says about UEs (\<open>is_scheduler_report\<close> and \<open>extract_ue_rows\<close> of
  \<^verbatim>\<open>apps/dashboard/server.py\<close>), and the feed record the dashboard keeps for each gNB
  (\<open>_gnb_feed\<close>, \<open>_gnb_snapshot\<close>, \<open>update_gnb_metrics\<close>, \<open>set_gnb_metrics_state\<close>). The document walks
  are recursions on the levels left (thirteen: depth 0 to 12). The theorems relate the capped
  walk to the list of all rows, and say that only a scheduler report ever touches a UE table.
\<close>

section \<open>Document walks\<close>

fun report_walk :: "nat \<Rightarrow> pyval \<Rightarrow> bool" where
  "report_walk 0 node = False"
| "report_walk (Suc levels) node =
     (case node of
        VDict d \<Rightarrow>
          is_list (vget ''ue_list'' d)
          \<or> (case vget ''cells'' d of VList cells \<Rightarrow> list_ex is_dict cells | _ \<Rightarrow> False)
          \<or> list_ex (\<lambda>(k, v). report_walk levels v) d
      | VList xs \<Rightarrow> list_ex (report_walk levels) xs
      | _ \<Rightarrow> False)"

definition is_scheduler_report :: "pyval \<Rightarrow> bool" where
  "is_scheduler_report payload = report_walk 13 payload"

definition has_key :: "string \<Rightarrow> pydict \<Rightarrow> bool" where
  "has_key k d \<longleftrightarrow> map_of d k \<noteq> None"

definition merged_row :: "pydict \<Rightarrow> pydict \<Rightarrow> pydict" where
  "merged_row node entry =
     (if has_key ''pci'' node \<and> \<not> has_key ''pci'' entry
      then AList.update ''pci'' (vget ''pci'' node) entry else entry)"

text \<open>The rows of one object's own \<open>ue_list\<close>.\<close>

definition own_rows :: "pydict \<Rightarrow> pydict list" where
  "own_rows node =
     (case vget ''ue_list'' node of
        VList entries \<Rightarrow>
          List.map_filter (\<lambda>e. case e of VDict entry \<Rightarrow> Some (merged_row node entry) | _ \<Rightarrow> None) entries
      | _ \<Rightarrow> [])"

fun rows_walk :: "nat \<Rightarrow> pyval \<Rightarrow> pydict list \<Rightarrow> pydict list" where
  "rows_walk 0 node rows = rows"
| "rows_walk (Suc levels) node rows =
     (if 512 < length rows then rows
      else case node of
        VDict d \<Rightarrow> fold (\<lambda>(k, v). if k \<noteq> ''ue_list'' then rows_walk levels v else id) d (rows @ own_rows d)
      | VList xs \<Rightarrow> fold (rows_walk levels) xs rows
      | _ \<Rightarrow> rows)"

definition extract_ue_rows :: "pyval \<Rightarrow> pydict list" where
  "extract_ue_rows payload = rows_walk 13 payload []"

text \<open>The reference: every row of the document down to the same depth, without a cap.\<close>

fun all_rows :: "nat \<Rightarrow> pyval \<Rightarrow> pydict list" where
  "all_rows 0 node = []"
| "all_rows (Suc levels) node =
     (case node of
        VDict d \<Rightarrow> own_rows d @ concat (map (\<lambda>(k, v). if k \<noteq> ''ue_list'' then all_rows levels v else []) d)
      | VList xs \<Rightarrow> concat (map (all_rows levels) xs)
      | _ \<Rightarrow> [])"

text \<open>The capped walk appends a prefix of the reference rows, all of them unless the cap is hit.\<close>

definition capped :: "pydict list \<Rightarrow> pydict list \<Rightarrow> pydict list \<Rightarrow> bool" where
  "capped rows out rs \<longleftrightarrow> (\<exists>taken. out = rows @ taken \<and> prefix taken rs \<and> (taken \<noteq> rs \<longrightarrow> 512 < length out))"

lemma capped_refl: "512 < length rows \<Longrightarrow> capped rows rows rs"
  by (auto simp: capped_def)

lemma capped_trans:
  assumes "capped rows mid rs" and "capped mid out rs'" and "512 < length mid \<Longrightarrow> out = mid"
  shows "capped rows out (rs @ rs')"
proof -
  obtain t where t: "mid = rows @ t" "prefix t rs" "t \<noteq> rs \<longrightarrow> 512 < length mid"
    using assms(1) by (auto simp: capped_def)
  obtain t' where t': "out = mid @ t'" "prefix t' rs'" "t' \<noteq> rs' \<longrightarrow> 512 < length out"
    using assms(2) by (auto simp: capped_def)
  show ?thesis
  proof (cases "t = rs")
    case True
    with t t' show ?thesis by (auto simp: capped_def intro!: exI [of _ "rs @ t'"])
  next
    case False
    with t assms(3) have "out = mid" "512 < length mid" by auto
    with t show ?thesis by (auto simp: capped_def intro!: exI [of _ t] intro: prefix_prefix)
  qed
qed

lemma rows_walk_full: "512 < length rows \<Longrightarrow> rows_walk levels node rows = rows"
  by (cases levels) auto

lemma fold_full:
  "512 < length rows \<Longrightarrow> (\<And>x r. x \<in> set xs \<Longrightarrow> 512 < length r \<Longrightarrow> f x r = r) \<Longrightarrow> fold f xs rows = rows"
  by (induction xs) auto

lemma capped_fold:
  assumes "\<And>x r. x \<in> set xs \<Longrightarrow> capped r (f x r) (g x)"
    and "\<And>x r. x \<in> set xs \<Longrightarrow> 512 < length r \<Longrightarrow> f x r = r"
  shows "capped rows (fold f xs rows) (concat (map g xs))"
  using assms
proof (induction xs arbitrary: rows)
  case Nil
  then show ?case by (simp add: capped_def)
next
  case (Cons x xs)
  have "capped rows (f x rows) (g x)" using Cons.prems by simp
  moreover have "capped (f x rows) (fold f xs (f x rows)) (concat (map g xs))"
    by (rule Cons.IH) (use Cons.prems in auto)
  moreover have "fold f xs (f x rows) = f x rows" if "512 < length (f x rows)"
    using that Cons.prems(2) by (intro fold_full) auto
  ultimately show ?case by (auto intro: capped_trans)
qed

lemma rows_walk_capped: "capped rows (rows_walk levels node rows) (all_rows levels node)"
proof (induction levels arbitrary: node rows)
  case 0
  then show ?case by (simp add: capped_def)
next
  case (Suc levels)
  show ?case
  proof (cases "512 < length rows")
    case True
    then show ?thesis by (simp add: capped_refl)
  next
    case False
    show ?thesis
    proof (cases node)
      case (VDict d)
      let ?f = "\<lambda>(k, v). if k \<noteq> ''ue_list'' then rows_walk levels v else id"
      let ?g = "\<lambda>(k, v). if k \<noteq> ''ue_list'' then all_rows levels v else []"
      have f: "512 < length r \<Longrightarrow> ?f x r = r" for x r by (auto simp: rows_walk_full split: prod.split)
      have "capped (rows @ own_rows d) (fold ?f d (rows @ own_rows d)) (concat (map ?g d))"
        by (rule capped_fold) (use f Suc in \<open>auto simp: capped_def\<close>)
      moreover have "capped rows (rows @ own_rows d) (own_rows d)" by (simp add: capped_def)
      moreover have "512 < length (rows @ own_rows d) \<Longrightarrow>
          fold ?f d (rows @ own_rows d) = rows @ own_rows d"
        using f by (intro fold_full) auto
      ultimately have "capped rows (fold ?f d (rows @ own_rows d)) (own_rows d @ concat (map ?g d))"
        by (intro capped_trans [of rows "rows @ own_rows d"]) simp_all
      with False VDict show ?thesis by simp
    next
      case (VList xs)
      have "capped rows (fold (rows_walk levels) xs rows) (concat (map (all_rows levels) xs))"
        by (rule capped_fold) (use Suc in \<open>auto simp: rows_walk_full\<close>)
      with False VList show ?thesis by simp
    qed (use False in \<open>simp_all add: capped_def\<close>)
  qed
qed

text \<open>The extracted rows are a prefix of all UE rows of the document (each with the cell's
  \<open>pci\<close> where it has none of its own), in document order; a row is missing only when more than 512
  were collected.\<close>

theorem extract_ue_rows_complete:
  "prefix (extract_ue_rows payload) (all_rows 13 payload)
    \<and> (extract_ue_rows payload = all_rows 13 payload \<or> 512 < length (extract_ue_rows payload))"
  using rows_walk_capped [of "[]" 13 payload] by (auto simp: capped_def extract_ue_rows_def)

lemma all_rows_report: "all_rows levels node \<noteq> [] \<Longrightarrow> report_walk levels node"
proof (induction levels arbitrary: node)
  case 0
  then show ?case by simp
next
  case (Suc levels)
  show ?case
  proof (cases node)
    case (VDict d)
    show ?thesis
    proof (cases "own_rows d = []")
      case True
      with Suc.prems VDict obtain k v where "(k, v) \<in> set d" and "all_rows levels v \<noteq> []"
        by (auto split: if_splits)
      with Suc.IH VDict show ?thesis by (auto simp: list_ex_iff)
    next
      case False
      with VDict show ?thesis by (auto simp: own_rows_def split: pyval.splits)
    qed
  next
    case (VList xs)
    with Suc show ?thesis by (auto simp: list_ex_iff)
  qed (use Suc.prems in simp_all)
qed

text \<open>A document that yields UE rows is a scheduler report: the two walks can never disagree in
  the direction that would leave a populated table undisplayed.\<close>

theorem rows_imply_report:
  "extract_ue_rows payload \<noteq> [] \<Longrightarrow> is_scheduler_report payload"
  using rows_walk_capped [of "[]" 13 payload] all_rows_report [of 13 payload]
  by (cases "all_rows 13 payload")
    (auto simp: capped_def extract_ue_rows_def is_scheduler_report_def)

section \<open>Feeds\<close>

record gnb_feed =
  g_state :: string
  g_error :: "string option"
  g_messages :: nat
  g_seen :: "pyfloat option"
  g_ue_seen :: "pyfloat option"
  g_ue_reports :: nat
  g_received_unix_ms :: "int option"
  g_ue_list_unix_ms :: "int option"
  g_ue_list :: "pydict list"
  g_ue_list_current_connection :: bool

definition new_feed :: gnb_feed where
  "new_feed = \<lparr>g_state = ''disabled'', g_error = None, g_messages = 0, g_seen = None,
     g_ue_seen = None, g_ue_reports = 0, g_received_unix_ms = None, g_ue_list_unix_ms = None,
     g_ue_list = [], g_ue_list_current_connection = False\<rparr>"

type_synonym feeds = "(string \<times> gnb_feed) list"

definition feed_of :: "feeds \<Rightarrow> string \<Rightarrow> gnb_feed" where
  "feed_of fs gnb_id = (case map_of fs gnb_id of Some f \<Rightarrow> f | None \<Rightarrow> new_feed)"

text \<open>The part of \<open>update_gnb_metrics\<close> that touches one feed; \<open>now\<close> is the monotonic clock and
  \<open>unix_ms\<close> the wall clock in milliseconds.\<close>

definition note_message :: "pyval \<Rightarrow> pyfloat \<Rightarrow> int \<Rightarrow> gnb_feed \<Rightarrow> gnb_feed" where
  "note_message payload now unix_ms f =
     (if is_scheduler_report payload
      then f\<lparr>g_ue_list := extract_ue_rows payload, g_ue_list_unix_ms := Some unix_ms,
             g_ue_seen := Some now, g_ue_reports := g_ue_reports f + 1,
             g_ue_list_current_connection := True\<rparr>
      else f)\<lparr>g_received_unix_ms := Some unix_ms, g_seen := Some now,
        g_messages := g_messages f + 1, g_state := ''connected'', g_error := None\<rparr>"

definition update_gnb_feeds :: "pyval \<Rightarrow> string \<Rightarrow> pyfloat \<Rightarrow> int \<Rightarrow> feeds \<Rightarrow> feeds" where
  "update_gnb_feeds payload gnb_id now unix_ms fs =
     AList.update gnb_id (note_message payload now unix_ms (feed_of fs gnb_id)) fs"

definition set_feed_state :: "string \<Rightarrow> string option \<Rightarrow> string \<Rightarrow> feeds \<Rightarrow> feeds" where
  "set_feed_state state err gnb_id fs =
     (let f = (feed_of fs gnb_id)\<lparr>g_state := state, g_error := err\<rparr>
      in AList.update gnb_id
           (if state = ''connecting'' \<or> state = ''disconnected''
            then f\<lparr>g_ue_list_current_connection := False\<rparr> else f) fs)"

definition GNB_UE_REPORT_STALE_SECONDS :: pyfloat where
  "GNB_UE_REPORT_STALE_SECONDS = Fin 5"

text \<open>\<open>round(x, 3)\<close> of a float: the nearest multiple of a thousandth, ties to even, as a float.\<close>

definition round3 :: "pyfloat \<Rightarrow> pyfloat" where
  "round3 x = (case x of Fin r \<Rightarrow> rnd64 (of_int (rhe (r * 1000)) / 1000) | _ \<Rightarrow> x)"

record gnb_view =
  v_feed :: gnb_feed
  v_age_seconds :: "pyfloat option"
  v_ue_list_age_seconds :: "pyfloat option"
  v_ue_list_stale :: bool

definition gnb_snapshot :: "gnb_feed \<Rightarrow> pyfloat \<Rightarrow> gnb_view" where
  "gnb_snapshot f now =
     (let age = map_option (fsub now) (g_seen f); ue_age = map_option (fsub now) (g_ue_seen f)
      in \<lparr>v_feed = f, v_age_seconds = map_option round3 age,
          v_ue_list_age_seconds = map_option round3 ue_age,
          v_ue_list_stale =
            (case ue_age of None \<Rightarrow> False
             | Some a \<Rightarrow> \<not> g_ue_list_current_connection f \<or> flt GNB_UE_REPORT_STALE_SECONDS a)\<rparr>)"

lemma feed_of_update [simp]:
  "feed_of (AList.update k f fs) k' = (if k' = k then f else feed_of fs k')"
  by (simp add: feed_of_def)

lemma feed_of_messages [simp]:
  "feed_of (update_gnb_feeds p g now ms fs) k =
     (if k = g then note_message p now ms (feed_of fs g) else feed_of fs k)"
  by (simp add: update_gnb_feeds_def)

lemma feed_of_state [simp]:
  "feed_of (set_feed_state st e g fs) k =
     (if k = g then (if st = ''connecting'' \<or> st = ''disconnected''
        then (feed_of fs g)\<lparr>g_state := st, g_error := e, g_ue_list_current_connection := False\<rparr>
        else (feed_of fs g)\<lparr>g_state := st, g_error := e\<rparr>) else feed_of fs k)"
  by (simp add: set_feed_state_def Let_def)

text \<open>A feed's history as the operations applied to it.\<close>

datatype feed_op = Message pyval pyfloat int | State string "string option"

fun apply_feed_op :: "string \<Rightarrow> feed_op \<Rightarrow> feeds \<Rightarrow> feeds" where
  "apply_feed_op g (Message p now ms) fs = update_gnb_feeds p g now ms fs"
| "apply_feed_op g (State st e) fs = set_feed_state st e g fs"

definition run_feed_ops :: "(string \<times> feed_op) list \<Rightarrow> feeds \<Rightarrow> feeds" where
  "run_feed_ops ops fs = fold (\<lambda>(g, op). apply_feed_op g op) ops fs"

text \<open>The reference meaning of a UE table: the rows of the last scheduler report addressed to this
  gNB, whatever else arrived since, and its time.\<close>

definition report_of :: "string \<Rightarrow> string \<times> feed_op \<Rightarrow> (pydict list \<times> int) option" where
  "report_of g x =
     (case x of (g', Message p now ms) \<Rightarrow>
        if g' = g \<and> is_scheduler_report p then Some (extract_ue_rows p, ms) else None
      | _ \<Rightarrow> None)"

definition reconnects :: "string \<Rightarrow> string \<times> feed_op \<Rightarrow> bool" where
  "reconnects g x =
     (case x of (g', State st e) \<Rightarrow> g' = g \<and> (st = ''connecting'' \<or> st = ''disconnected'') | _ \<Rightarrow> False)"

lemma report_of_simps [simp]:
  "report_of g (g', Message p now ms) =
     (if g' = g \<and> is_scheduler_report p then Some (extract_ue_rows p, ms) else None)"
  "report_of g (g', State st e) = None"
  by (simp_all add: report_of_def)

lemma reconnects_simps [simp]:
  "\<not> reconnects g (g', Message p now ms)"
  "reconnects g (g', State st e) \<longleftrightarrow> g' = g \<and> (st = ''connecting'' \<or> st = ''disconnected'')"
  by (simp_all add: reconnects_def)

text \<open>Whether a report arrived after the last reconnection, the newest operation last.\<close>

definition reported_since_connect :: "string \<Rightarrow> (string \<times> feed_op) list \<Rightarrow> bool" where
  "reported_since_connect g ops =
     fold (\<lambda>x b. if report_of g x \<noteq> None then True else if reconnects g x then False else b) ops False"

lemma run_feed_ops_snoc:
  "run_feed_ops (ops @ [(g, op)]) fs = apply_feed_op g op (run_feed_ops ops fs)"
  by (simp add: run_feed_ops_def)

text \<open>After any sequence of notifications and state changes on any number of gNBs, a gNB's UE
  table and its time are those of the last scheduler report that this gNB itself sent (an empty
  table before the first), the number of reports counted is right, and the table counts as current
  exactly when that report came over the present connection.\<close>

theorem ue_table_is_last_report:
  fixes ops g
  defines "f \<equiv> feed_of (run_feed_ops ops []) g"
    and "reports \<equiv> List.map_filter (report_of g) ops"
  shows "g_ue_list f = (if reports = [] then [] else fst (last reports))
    \<and> g_ue_list_unix_ms f = (if reports = [] then None else Some (snd (last reports)))
    \<and> g_ue_reports f = length reports
    \<and> g_ue_list_current_connection f = reported_since_connect g ops"
  unfolding f_def reports_def
proof (induction ops rule: rev_induct)
  case Nil
  then show ?case
    by (simp add: run_feed_ops_def feed_of_def new_feed_def map_filter_def reported_since_connect_def)
next
  case (snoc x ops)
  obtain g' op where x: "x = (g', op)" by (cases x)
  have mf: "List.map_filter (report_of g) (ops @ [y])
      = List.map_filter (report_of g) ops @ (case report_of g y of None \<Rightarrow> [] | Some r \<Rightarrow> [r])" for y
    by (simp add: map_filter_def split: option.split)
  have rs: "reported_since_connect g (ops @ [y]) =
      (if report_of g y \<noteq> None then True else if reconnects g y then False
       else reported_since_connect g ops)" for y
    by (simp add: reported_since_connect_def)
  show ?case
  proof (cases op)
    case (Message p now ms)
    show ?thesis
    proof (cases "g' = g")
      case False
      with snoc.IH Message show ?thesis
        by (simp add: x run_feed_ops_snoc mf rs)
    next
      case True
      with snoc.IH Message show ?thesis
        by (cases "is_scheduler_report p")
          (simp_all add: x run_feed_ops_snoc mf rs note_message_def)
    qed
  next
    case (State st e)
    have r: "report_of g x = None" by (simp add: x State)
    have c: "reconnects g x \<longleftrightarrow> g' = g \<and> (st = ''connecting'' \<or> st = ''disconnected'')"
      by (simp add: x State)
    show ?thesis
    proof (cases "reconnects g x")
      case True
      with snoc.IH c show ?thesis unfolding mf rs r
        by (simp add: x State run_feed_ops_snoc split del: if_split) simp
    next
      case False
      have "g_ue_list (feed_of (run_feed_ops (ops @ [x]) []) g) = g_ue_list (feed_of (run_feed_ops ops []) g)"
        "g_ue_list_unix_ms (feed_of (run_feed_ops (ops @ [x]) []) g) = g_ue_list_unix_ms (feed_of (run_feed_ops ops []) g)"
        "g_ue_reports (feed_of (run_feed_ops (ops @ [x]) []) g) = g_ue_reports (feed_of (run_feed_ops ops []) g)"
        "g_ue_list_current_connection (feed_of (run_feed_ops (ops @ [x]) []) g)
          = g_ue_list_current_connection (feed_of (run_feed_ops ops []) g)"
        using False c by (simp_all add: x State run_feed_ops_snoc)
      with snoc.IH False show ?thesis unfolding mf rs r by simp
    qed
  qed
qed

text \<open>A UE table is shown as stale exactly when a report exists and it is older than five seconds
  or belongs to an earlier connection; a gNB that never reported is not stale.\<close>

theorem ue_list_stale_exact:
  "v_ue_list_stale (gnb_snapshot f now) =
     (\<exists>seen. g_ue_seen f = Some seen
        \<and> (if g_ue_list_current_connection f then flt (Fin 5) (fsub now seen) else True))"
  by (auto simp: gnb_snapshot_def Let_def GNB_UE_REPORT_STALE_SECONDS_def split: option.split)

section \<open>Witnesses\<close>

definition sample_report :: pyval where
  "sample_report = VDict [(''cells'', VList [VDict [(''pci'', VInt 7),
     (''ue_list'', VList [VDict [(''rnti'', VInt 17921)]])]])]"

lemma sample_rows:
  "extract_ue_rows sample_report = [[(''rnti'', VInt 17921), (''pci'', VInt 7)]]"
  by code_simp

theorem rows_imply_report_witness: "is_scheduler_report sample_report"
  by (rule rows_imply_report) (simp add: sample_rows)

end
