(* ===== verification/StatusStore.thy ===== *)
theory StatusStore
  imports History Delivery GnbMetrics
begin

text \<open>
  The dashboard's shared state (class \<^verbatim>\<open>StatusStore\<close> of \<^verbatim>\<open>apps/dashboard/server.py\<close>): the latest
  telemetry per link, the latest Sionna update and runtime events, the bounded histories, and the
  warm-up targets that telemetry later closes. Every method runs under one lock, so each is one
  step on the record; the clock readings a method takes are its arguments. A method that an
  exception leaves early returns the state reached and the exception. The theorems: the histories
  stay bounded, an iteration has one event, a session change leaves nothing of the old session, and
  a warm-up target is retired exactly when every one of its links is through.
\<close>

section \<open>State\<close>

type_synonym iter_key = "pyval \<times> pyval"

record store =
  st_started_monotonic :: pyfloat
  st_telemetry :: "(string \<times> pydict) list"
  st_telemetry_seen :: "(string \<times> pyfloat) list"
  st_sionna :: "pydict option"
  st_sionna_seen :: "pyfloat option"
  st_sionna_runtime :: "pydict option"
  st_sionna_runtime_seen :: "pyfloat option"
  st_sionna_session_id :: pyval
  st_gpu_usage :: "pydict option"
  st_gpu_history :: "pydict list"
  st_telemetry_history :: "pydict list"
  st_iteration_history :: "pydict list"
  st_warmup_targets :: "(iter_key \<times> (string \<times> pyval) list) list"
  st_bad_telemetry_frames :: nat
  st_gnb_metrics :: feeds

definition new_store :: "pyfloat \<Rightarrow> store" where
  "new_store started =
     \<lparr>st_started_monotonic = started, st_telemetry = [], st_telemetry_seen = [], st_sionna = None,
      st_sionna_seen = None, st_sionna_runtime = None, st_sionna_runtime_seen = None,
      st_sionna_session_id = VNone, st_gpu_usage = None, st_gpu_history = [],
      st_telemetry_history = [], st_iteration_history = [], st_warmup_targets = [],
      st_bad_telemetry_frames = 0, st_gnb_metrics = []\<rparr>"

text \<open>What a method leaves behind: the state, and the exception that left it, if any.\<close>

type_synonym left = "store \<times> py_error option"

section \<open>Iteration events\<close>

definition event_matches :: "pyval \<Rightarrow> pyval \<Rightarrow> pydict \<Rightarrow> bool" where
  "event_matches session iteration event \<longleftrightarrow>
     py_eq (vget ''session_id'' event) session \<and> py_eq (vget ''iteration'' event) iteration"

text \<open>The index of the newest matching event: the object the code goes on to mutate.\<close>

fun iteration_event :: "pyval \<Rightarrow> pyval \<Rightarrow> pydict list \<Rightarrow> nat option" where
  "iteration_event session iteration [] = None"
| "iteration_event session iteration (event # rest) =
     (case iteration_event session iteration rest of
        Some i \<Rightarrow> Some (Suc i)
      | None \<Rightarrow> if event_matches session iteration event then Some 0 else None)"

definition map_at :: "nat option \<Rightarrow> ('a \<Rightarrow> 'a) \<Rightarrow> 'a list \<Rightarrow> 'a list" where
  "map_at i f xs = (case i of None \<Rightarrow> xs | Some n \<Rightarrow> xs[n := f (xs ! n)])"

section \<open>Closing warm-ups\<close>

record scan =
  sc_ready :: bool
  sc_legacy :: bool
  sc_begin_times :: "(string \<times> pyfloat) list"
  sc_end_times :: "(string \<times> pyfloat) list"
  sc_begin_slots :: pydict
  sc_end_slots :: pydict

definition empty_scan :: scan where
  "empty_scan = \<lparr>sc_ready = True, sc_legacy = False, sc_begin_times = [], sc_end_times = [],
     sc_begin_slots = [], sc_end_slots = []\<rparr>"

text \<open>\<open>ns / 1_000_000.0\<close>: an integer too large for a float raises.\<close>

definition ms_of_ns :: "int \<Rightarrow> pyfloat result" where
  "ms_of_ns ns = bindR (float_of_int ns) (\<lambda>x. fdiv x (Fin 1000000))"

definition exact_cycle :: "pydict \<Rightarrow> pyval \<Rightarrow> bool" where
  "exact_cycle payload expected \<longleftrightarrow>
     is_int (vget ''warmup_event_seq'' payload) \<and> 0 < int_of (vget ''warmup_event_seq'' payload)
     \<and> py_eq (vget ''warmup_profile_seqno'' payload) expected"

definition positive_int :: "pyval \<Rightarrow> bool" where
  "positive_int v \<longleftrightarrow> is_int v \<and> 0 < int_of v"

definition legacy_warming :: "pydict \<Rightarrow> pyval \<Rightarrow> bool" where
  "legacy_warming payload expected \<longleftrightarrow>
     \<not> is_int (vget ''warmup_event_seq'' payload) \<and> is_int (vget ''seqno'' payload)
     \<and> int_of expected \<le> int_of (vget ''seqno'' payload)
     \<and> vget ''profile_active'' payload = VBool True \<and> is_int (vget ''slot'' payload)
     \<and> is_int (vget ''warmup_until_slot'' payload)
     \<and> int_of (vget ''slot'' payload) < int_of (vget ''warmup_until_slot'' payload)"

definition link_not_ready :: "pydict \<Rightarrow> pyval \<Rightarrow> bool \<Rightarrow> bool" where
  "link_not_ready payload expected ended \<longleftrightarrow>
     \<not> is_int (vget ''seqno'' payload)
     \<or> int_of (vget ''seqno'' payload) < int_of expected
     \<or> vget ''profile_active'' payload \<noteq> VBool True
     \<or> \<not> is_int (vget ''slot'' payload)
     \<or> (exact_cycle payload expected \<and> \<not> ended)
     \<or> (\<not> exact_cycle payload expected \<and> positive_int (vget ''warmup_until_slot'' payload)
         \<and> int_of (vget ''slot'' payload) < int_of (vget ''warmup_until_slot'' payload))"

text \<open>One boundary of a link: its time and, when the slot is an integer, its slot.\<close>

definition note_boundary ::
  "bool \<Rightarrow> string \<Rightarrow> pyval \<Rightarrow> pyval \<Rightarrow> (string \<times> pyfloat) list \<times> pydict
     \<Rightarrow> ((string \<times> pyfloat) list \<times> pydict) result" where
  "note_boundary exact link_id ns slot acc =
     (if exact \<and> positive_int ns
      then bindR (ms_of_ns (int_of ns)) (\<lambda>t.
             Ok (AList.update link_id t (fst acc),
                 if is_int slot then AList.update link_id slot (snd acc) else snd acc))
      else Ok acc)"

fun scan_links :: "(string \<times> pydict) list \<Rightarrow> (string \<times> pyval) list \<Rightarrow> scan \<Rightarrow> scan result" where
  "scan_links telemetry [] sc = Ok sc"
| "scan_links telemetry ((link_id, expected) # targets) sc =
     (let payload = (case map_of telemetry link_id of None \<Rightarrow> [] | Some d \<Rightarrow> d);
          exact = exact_cycle payload expected
      in bindR (note_boundary exact link_id (vget ''warmup_begin_unix_ns'' payload)
                  (vget ''warmup_begin_slot'' payload) (sc_begin_times sc, sc_begin_slots sc)) (\<lambda>(bt, bs).
         bindR (note_boundary exact link_id (vget ''warmup_end_unix_ns'' payload)
                  (vget ''warmup_end_slot'' payload) (sc_end_times sc, sc_end_slots sc)) (\<lambda>(et, es).
         let sc = sc\<lparr>sc_begin_times := bt, sc_begin_slots := bs, sc_end_times := et, sc_end_slots := es,
                     sc_legacy := sc_legacy sc \<or> legacy_warming payload expected\<rparr>
         in if link_not_ready payload expected (map_of et link_id \<noteq> None)
            then Ok (sc\<lparr>sc_ready := False\<rparr>)
            else scan_links telemetry targets sc)))"

definition min_of :: "pyfloat list \<Rightarrow> pyfloat" where
  "min_of xs = fold (\<lambda>x a. fmin a x) (tl xs) (hd xs)"

definition max_of :: "pyfloat list \<Rightarrow> pyfloat" where
  "max_of xs = fold (\<lambda>x a. fmax a x) (tl xs) (hd xs)"

definition set_keys :: "pydict \<Rightarrow> pydict \<Rightarrow> pydict" where
  "set_keys kvs event = fold (\<lambda>(k, v). AList.update k v) kvs event"

definition fill_started :: "scan \<Rightarrow> int \<Rightarrow> pydict \<Rightarrow> pydict" where
  "fill_started sc observed_unix_ms event =
     (let event = (if sc_begin_slots sc \<noteq> []
                   then AList.update ''warmup_begin_slots'' (VDict (sc_begin_slots sc)) event else event);
          event = (if sc_end_slots sc \<noteq> []
                   then AList.update ''warmup_end_slots'' (VDict (sc_end_slots sc)) event else event)
      in if sc_begin_times sc \<noteq> []
         then set_keys [(''warmup_started_unix_ms'', VFloat (min_of (map snd (sc_begin_times sc)))),
                        (''warmup_boundary_source'', VStr ''backend'')] event
         else if sc_legacy sc \<and> vget ''warmup_started_unix_ms'' event = VNone
         then set_keys [(''warmup_started_unix_ms'', VInt observed_unix_ms),
                        (''warmup_boundary_source'', VStr ''telemetry_observed'')] event
         else event)"

definition fill_ended :: "scan \<Rightarrow> int \<Rightarrow> pydict \<Rightarrow> pydict" where
  "fill_ended sc observed_unix_ms event =
     (if vget ''warmup_ended_unix_ms'' event = VNone
      then if sc_end_times sc \<noteq> []
           then set_keys [(''warmup_ended_unix_ms'', VFloat (max_of (map snd (sc_end_times sc)))),
                          (''warmup_boundary_source'', VStr ''backend'')] event
           else if vget ''warmup_started_unix_ms'' event \<noteq> VNone
           then set_keys [(''warmup_ended_unix_ms'', VInt observed_unix_ms),
                          (''warmup_boundary_source'', VStr ''telemetry_observed'')] event
           else AList.update ''warmup_expected'' (VBool False) event
      else event)"

definition fill_event :: "scan \<Rightarrow> int \<Rightarrow> pydict \<Rightarrow> pydict" where
  "fill_event sc observed event =
     (let event = fill_started sc observed event
      in if sc_ready sc then fill_ended sc observed event else event)"

text \<open>The loop over the targets: the mutated history and the completed keys.\<close>

fun close_targets ::
  "(string \<times> pydict) list \<Rightarrow> int \<Rightarrow> (iter_key \<times> (string \<times> pyval) list) list
     \<Rightarrow> pydict list \<Rightarrow> iter_key list \<Rightarrow> pydict list \<times> iter_key list result" where
  "close_targets telemetry observed [] hist completed = (hist, Ok completed)"
| "close_targets telemetry observed ((key, targets) # rest) hist completed =
     (case scan_links telemetry targets empty_scan of
        Inl e \<Rightarrow> (hist, Err e)
      | Inr sc \<Rightarrow>
          (let hist' = map_at (iteration_event (fst key) (snd key) hist) (fill_event sc observed) hist
           in close_targets telemetry observed rest hist'
                (if sc_ready sc then completed @ [key] else completed)))"

definition close_completed_warmups :: "int \<Rightarrow> store \<Rightarrow> left" where
  "close_completed_warmups observed s =
     (case close_targets (st_telemetry s) observed (st_warmup_targets s) (st_iteration_history s) [] of
        (hist, Inl e) \<Rightarrow> (s\<lparr>st_iteration_history := hist\<rparr>, Some e)
      | (hist, Inr completed) \<Rightarrow>
          (s\<lparr>st_iteration_history := hist,
             st_warmup_targets := fold dict_pop completed (st_warmup_targets s)\<rparr>, None))"

section \<open>Telemetry\<close>

definition TELEMETRY_HISTORY_RETAIN_MS :: int where "TELEMETRY_HISTORY_RETAIN_MS = 2000"
definition TELEMETRY_HISTORY_MAX_ENTRIES :: nat where "TELEMETRY_HISTORY_MAX_ENTRIES = 16384"
definition GPU_HISTORY_RETAIN_MS :: int where "GPU_HISTORY_RETAIN_MS = 4000"
definition GPU_HISTORY_MAX_ENTRIES :: nat where "GPU_HISTORY_MAX_ENTRIES = 2048"

definition telemetry_entry :: "string \<Rightarrow> pydict \<Rightarrow> int \<Rightarrow> pydict" where
  "telemetry_entry link_id payload observed =
     [(''observed_unix_ms'', VInt observed), (''link_id'', VStr link_id),
      (''slot'', vget ''slot'' payload), (''backend'', vget ''backend'' payload),
      (''slot_processing'', VDict (dict_or_empty (vget ''slot_processing'' payload))),
      (''live'', VDict (dict_or_empty (vget ''live'' payload)))]"

definition update_telemetry :: "string \<Rightarrow> pydict \<Rightarrow> pyfloat \<Rightarrow> int \<Rightarrow> store \<Rightarrow> left" where
  "update_telemetry link_id payload now observed s =
     close_completed_warmups observed
       (s\<lparr>st_telemetry := AList.update link_id payload (st_telemetry s),
          st_telemetry_seen := AList.update link_id now (st_telemetry_seen s),
          st_telemetry_history :=
            trim_history (st_telemetry_history s @ [telemetry_entry link_id payload observed])
              ''observed_unix_ms'' observed TELEMETRY_HISTORY_RETAIN_MS TELEMETRY_HISTORY_MAX_ENTRIES\<rparr>)"

definition update_gnb_metrics :: "pyval \<Rightarrow> string \<Rightarrow> pyfloat \<Rightarrow> int \<Rightarrow> store \<Rightarrow> store" where
  "update_gnb_metrics payload gnb_id now unix_ms s =
     s\<lparr>st_gnb_metrics := update_gnb_feeds payload gnb_id now unix_ms (st_gnb_metrics s)\<rparr>"

definition set_gnb_metrics_state :: "string \<Rightarrow> string option \<Rightarrow> string \<Rightarrow> store \<Rightarrow> store" where
  "set_gnb_metrics_state state err gnb_id s =
     s\<lparr>st_gnb_metrics := set_feed_state state err gnb_id (st_gnb_metrics s)\<rparr>"

definition note_bad_telemetry :: "store \<Rightarrow> store" where
  "note_bad_telemetry s = s\<lparr>st_bad_telemetry_frames := st_bad_telemetry_frames s + 1\<rparr>"

section \<open>Sionna updates\<close>

text \<open>\<open>for item in v\<close>: lists, the keys of an object and the characters of a string can be iterated
  over; nothing else can.\<close>

definition iter_items :: "pyval \<Rightarrow> pyval list result" where
  "iter_items v =
     (case v of VList xs \<Rightarrow> Ok xs | VDict d \<Rightarrow> Ok (map (\<lambda>p. VStr (fst p)) d)
      | VStr s \<Rightarrow> Ok (map (\<lambda>c. VStr [c]) s) | _ \<Rightarrow> Err (TypeError ''object is not iterable''))"

definition hashable :: "pyval \<Rightarrow> bool" where
  "hashable v = (case v of VList _ \<Rightarrow> False | VDict _ \<Rightarrow> False | _ \<Rightarrow> True)"

text \<open>The first block: a new session id drops what belongs to the old session.\<close>

definition switch_session :: "pyval \<Rightarrow> store \<Rightarrow> store" where
  "switch_session session_id s =
     (if session_id \<noteq> VNone \<and> \<not> py_eq session_id (st_sionna_session_id s)
      then (if st_sionna_session_id s \<noteq> VNone
            then s\<lparr>st_iteration_history := [], st_telemetry_history := [], st_warmup_targets := [],
                   st_sionna := None, st_sionna_seen := None\<rparr>
            else s)\<lparr>st_sionna_session_id := session_id\<rparr>
      else s)"

definition update_times ::
  "pydict \<Rightarrow> int \<Rightarrow> (int \<times> int) result" where
  "update_times payload received =
     (let ack = vget ''control_ack_unix_ms'' payload;
          started_raw = vget ''update_started_unix_ms'' payload;
          started = (if is_int started_raw then int_of started_raw
                     else if is_int ack then int_of ack else received);
          total = (case vget ''timing_ms'' payload of VDict d \<Rightarrow> vget ''total_update'' d | _ \<Rightarrow> VNone)
      in if is_int total then Ok (started, max started (started + int_of total))
         else case total of
           VFloat x \<Rightarrow> bindR (float_of_int started) (\<lambda>f. bindR (fround (fadd f x)) (\<lambda>e.
                         Ok (started, max started e)))
         | _ \<Rightarrow> Ok (started, if is_int ack then max started (int_of ack) else max started received))"

definition warmup_targets_of :: "pyval \<Rightarrow> (string \<times> pyval) list result" where
  "warmup_targets_of reply =
     (case reply of
        VDict r \<Rightarrow>
          bindR (iter_items (vget_or ''links'' (VList []) r)) (\<lambda>items.
            Ok (fold (\<lambda>item acc. case item of
                VDict d \<Rightarrow>
                  (case vget ''link_id'' d of
                     VStr link_id \<Rightarrow>
                       if is_int (vget ''seqno'' d) \<and> positive_int (vget ''warmup_until_slot'' d)
                       then AList.update link_id (vget ''seqno'' d) acc else acc
                   | _ \<Rightarrow> acc)
              | _ \<Rightarrow> acc) items []))
      | _ \<Rightarrow> Ok [])"

definition channel_keys :: "string list" where
  "channel_keys = [''link_id'', ''direction'', ''total_path_power_db'', ''strongest_tap_gain_db'',
     ''ray_count'', ''tap_count'']"

definition event_channels :: "pydict \<Rightarrow> pyval list result" where
  "event_channels payload =
     bindR (iter_items (vget_or ''channels'' (VList []) payload)) (\<lambda>items.
       Ok (List.map_filter (\<lambda>item. case item of
             VDict d \<Rightarrow> (if is_str (vget ''link_id'' d)
                         then Some (VDict (map (\<lambda>k. (k, vget k d)) channel_keys)) else None)
           | _ \<Rightarrow> None) items))"

definition event_fields ::
  "pydict \<Rightarrow> int \<Rightarrow> int \<Rightarrow> (string \<times> pyval) list \<Rightarrow> pyval list \<Rightarrow> pydict" where
  "event_fields payload started ended targets channels =
     [(''observed_unix_ms'', VInt ended), (''started_unix_ms'', VInt started),
      (''ended_unix_ms'', VInt ended),
      (''channel_arrived_unix_ms'',
         if is_int (vget ''control_ack_unix_ms'' payload) then vget ''control_ack_unix_ms'' payload
         else VInt ended),
      (''warmup_expected'', VBool (targets \<noteq> [])), (''warmup_started_unix_ms'', VNone),
      (''warmup_ended_unix_ms'', VNone),
      (''timing_ms'', VDict (dict_or_empty (vget ''timing_ms'' payload))),
      (''channels'', VList channels)]"

definition new_event :: "pyval \<Rightarrow> pyval \<Rightarrow> pydict" where
  "new_event iteration session = [(''iteration'', iteration), (''session_id'', session)]"

text \<open>\<open>del history[:-512]\<close>.\<close>

definition keep_last :: "nat \<Rightarrow> 'a list \<Rightarrow> 'a list" where
  "keep_last n xs = drop (length xs - n) xs"

definition iter_key_of :: "pyval \<Rightarrow> pyval \<Rightarrow> iter_key" where
  "iter_key_of session iteration = (vnorm session, vnorm iteration)"

definition ensure_event :: "pyval \<Rightarrow> pyval \<Rightarrow> store \<Rightarrow> store" where
  "ensure_event session iteration s =
     (if iteration_event session iteration (st_iteration_history s) = None
      then s\<lparr>st_iteration_history := st_iteration_history s @ [new_event iteration session]\<rparr> else s)"

text \<open>The branch for a \<open>sionna_rt_update\<close> event.\<close>

definition rt_update :: "pydict \<Rightarrow> pyval \<Rightarrow> pyfloat \<Rightarrow> int \<Rightarrow> store \<Rightarrow> left" where
  "rt_update payload session now received s =
     (let s = s\<lparr>st_sionna := Some payload, st_sionna_seen := Some now\<rparr>;
          iteration = vget ''iteration'' payload
      in case bindR (update_times payload received) (\<lambda>times.
               bindR (warmup_targets_of (vget ''control_reply'' payload)) (\<lambda>targets. Ok (times, targets))) of
           Inl e \<Rightarrow> (s, Some e)
         | Inr ((started, ended), targets) \<Rightarrow>
             (let s = ensure_event session iteration s
              in case event_channels payload of
                   Inl e \<Rightarrow> (s, Some e)
                 | Inr channels \<Rightarrow>
                     (let s = s\<lparr>st_iteration_history :=
                            map_at (iteration_event session iteration (st_iteration_history s))
                              (set_keys (event_fields payload started ended targets channels))
                              (st_iteration_history s)\<rparr>
                      in if \<not> hashable session \<or> \<not> hashable iteration
                         then (s, Some (TypeError ''unhashable type''))
                         else case (if targets \<noteq> []
                                    then close_completed_warmups received
                                      (s\<lparr>st_warmup_targets :=
                                         AList.update (iter_key_of session iteration) targets
                                           (st_warmup_targets s)\<rparr>)
                                    else (s\<lparr>st_warmup_targets :=
                                         dict_pop (iter_key_of session iteration) (st_warmup_targets s)\<rparr>, None)) of
                           (s, Some e) \<Rightarrow> (s, Some e)
                         | (s, None) \<Rightarrow>
                             (s\<lparr>st_iteration_history := keep_last 512 (st_iteration_history s)\<rparr>, None))))"

text \<open>The branch for a \<open>sionna_rt_runtime\<close> event.\<close>

definition rt_runtime :: "pydict \<Rightarrow> pyval \<Rightarrow> pyfloat \<Rightarrow> int \<Rightarrow> store \<Rightarrow> store" where
  "rt_runtime payload session now unix_ms s =
     (let s = s\<lparr>st_sionna_runtime := Some payload, st_sionna_runtime_seen := Some now\<rparr>
      in if vget ''phase'' payload = VStr ''tracing_channels''
         then let iteration = vget ''iteration'' payload;
                  started = (if is_int (vget ''observed_unix_ms'' payload)
                             then vget ''observed_unix_ms'' payload else VInt unix_ms)
              in if iteration_event session iteration (st_iteration_history s) = None
                 then s\<lparr>st_iteration_history := keep_last 512 (st_iteration_history s @
                        [[(''observed_unix_ms'', started), (''iteration'', iteration),
                          (''session_id'', session), (''started_unix_ms'', started),
                          (''ended_unix_ms'', VNone), (''warmup_expected'', VBool False),
                          (''warmup_started_unix_ms'', VNone), (''warmup_ended_unix_ms'', VNone)]])\<rparr>
                 else s
         else s)"

definition update_sionna :: "pydict \<Rightarrow> pyfloat \<Rightarrow> int \<Rightarrow> store \<Rightarrow> left" where
  "update_sionna payload now unix_ms s =
     (let session = vget ''session_id'' payload; s = switch_session session s
      in if vget ''event'' payload = VStr ''sionna_rt_update''
         then rt_update payload session now unix_ms s
         else if vget ''event'' payload = VStr ''sionna_rt_runtime''
         then (rt_runtime payload session now unix_ms s, None)
         else (s, None))"

section \<open>Resource usage\<close>

definition process_targets :: "int \<Rightarrow> store \<Rightarrow> (string \<times> int list) list" where
  "process_targets own_pid s =
     (let sionna_pid = (case st_sionna_runtime s of None \<Rightarrow> VNone | Some d \<Rightarrow> vget ''process_id'' d);
          channel_pids = remdups (map int_of (filter is_int
            (map (\<lambda>(_, d). vget ''process_id'' d) (st_telemetry s))))
      in [(''sionna'', if is_int sionna_pid then [int_of sionna_pid] else []),
          (''gpu_channel'', channel_pids), (''web_ui'', [own_pid])])"

text \<open>\<open>x.get(k, {})\<close> on a value that must be an object.\<close>

definition attr_get_obj :: "string \<Rightarrow> pyval \<Rightarrow> pyval result" where
  "attr_get_obj k v =
     (case v of VDict d \<Rightarrow> Ok (vget_or k (VDict []) d) | _ \<Rightarrow> Err (AttributeError ''get''))"

definition role_row :: "pyval \<Rightarrow> pyval result" where
  "role_row process =
     bindR (attr_get ''running'' process) (\<lambda>running.
       let p = dict_or_empty process in Ok (VDict
         [(''running'', VBool (running = VBool True)),
          (''gpu_resident'', VBool (vget ''gpu_resident'' p = VBool True)),
          (''sm_util_percent'', vget ''sm_util_percent'' p),
          (''gpu_memory_mib'', vget ''gpu_memory_mib'' p),
          (''cpu_util_percent'', vget ''cpu_util_percent'' p),
          (''ram_rss_mib'', vget ''ram_rss_mib'' p)]))"

definition warming_items :: "store \<Rightarrow> pydict list" where
  "warming_items s =
     filter (\<lambda>d. is_int (vget ''slot'' d) \<and> positive_int (vget ''warmup_until_slot'' d)
       \<and> int_of (vget ''slot'' d) < int_of (vget ''warmup_until_slot'' d)) (map snd (st_telemetry s))"

text \<open>\<open>dict(x)\<close> of a JSON value: an object is copied, an empty list or string gives an empty object;
  lists of pairs, which the producers never send, are an error here.\<close>

definition copy_dict :: "pyval \<Rightarrow> pyval result" where
  "copy_dict v = (case v of VDict d \<Rightarrow> Ok v | VList [] \<Rightarrow> Ok (VDict []) | VStr [] \<Rightarrow> Ok (VDict [])
      | _ \<Rightarrow> Err (TypeError ''cannot convert to dict''))"

definition sampled_ms :: "pyval \<Rightarrow> int \<Rightarrow> int result" where
  "sampled_ms v unix_ms =
     (if is_int v then Ok (int_of v) else case v of VFloat x \<Rightarrow> ftrunc x | _ \<Rightarrow> Ok unix_ms)"

definition gpu_entry :: "pydict \<Rightarrow> store \<Rightarrow> pydict result" where
  "gpu_entry payload s =
     (let warming = warming_items s
      in bindR (mapR (\<lambda>role. bindR (attr_get_obj role (vget_or ''processes'' (VDict []) payload)) (\<lambda>p.
                bindR (role_row p) (\<lambda>r. Ok (role, r)))) resource_roles) (\<lambda>roles.
         bindR (copy_dict (vget_or ''system'' (VDict []) payload)) (\<lambda>system.
         bindR (copy_dict (vget_or ''gpu_compute'' (VDict []) payload)) (\<lambda>compute.
         bindR (copy_dict (vget_or ''pcie'' (VDict []) payload)) (\<lambda>pcie.
         Ok [(''sampled_unix_ms'', vget ''sampled_unix_ms'' payload),
             (''iteration'', case st_sionna s of None \<Rightarrow> VNone | Some d \<Rightarrow> vget ''iteration'' d),
             (''phase'', case st_sionna_runtime s of None \<Rightarrow> VNone | Some d \<Rightarrow> vget ''phase'' d),
             (''warmup_link_count'', VInt (int (length warming))),
             (''warmup_until_slot'',
                VInt (fold max (map (\<lambda>d. int_of (vget ''warmup_until_slot'' d)) warming) 0)),
             (''system'', system), (''gpu_compute'', compute), (''pcie'', pcie),
             (''roles'', VDict roles)])))))"

definition update_gpu_usage :: "pydict \<Rightarrow> int \<Rightarrow> store \<Rightarrow> left" where
  "update_gpu_usage payload unix_ms s =
     (let s = s\<lparr>st_gpu_usage := Some payload\<rparr>
      in case gpu_entry payload s of
           Inl e \<Rightarrow> (s, Some e)
         | Inr entry \<Rightarrow>
             (let s = s\<lparr>st_gpu_history := st_gpu_history s @ [entry]\<rparr>
              in case sampled_ms (vget ''sampled_unix_ms'' payload) unix_ms of
                   Inl e \<Rightarrow> (s, Some e)
                 | Inr ms \<Rightarrow> (s\<lparr>st_gpu_history := trim_history (st_gpu_history s) ''sampled_unix_ms'' ms
                                GPU_HISTORY_RETAIN_MS GPU_HISTORY_MAX_ENTRIES\<rparr>, None)))"

section \<open>Snapshots\<close>

record web_status =
  w_uptime :: pyfloat
  w_telemetry_connected :: bool
  w_telemetry_link_count :: nat
  w_telemetry_cached_link_count :: nat
  w_telemetry_ages :: "(string \<times> pyfloat) list"
  w_sionna_connected :: bool
  w_sionna_age :: "pyfloat option"
  w_sionna_process_alive :: bool
  w_bad_frames :: nat
  w_telemetry :: "(string \<times> pydict) list"
  w_sionna :: "pydict option"
  w_sionna_runtime :: "pydict option"
  w_gpu_usage :: "pydict option"
  w_history_telemetry :: "pydict list"
  w_history_iterations :: "pydict list"
  w_delivery :: delivery
  w_ran :: gnb_view
  w_ran_gnbs :: "(string \<times> gnb_view) list"

definition fresh_age :: "pyfloat \<Rightarrow> bool" where
  "fresh_age age \<longleftrightarrow> fle (Fin 0) age \<and> fle age telemetry_fresh_seconds"

definition opt_float :: "pyfloat option \<Rightarrow> pyval" where
  "opt_float x = (case x of None \<Rightarrow> VNone | Some f \<Rightarrow> VFloat f)"

text \<open>A cached object that is empty counts as absent.\<close>

definition non_empty :: "pydict option \<Rightarrow> pydict option" where
  "non_empty x = (case x of Some [] \<Rightarrow> None | _ \<Rightarrow> x)"

definition snapshot :: "(pyval \<Rightarrow> bool) \<Rightarrow> int option \<Rightarrow> pyfloat \<Rightarrow> store \<Rightarrow> web_status" where
  "snapshot process_is_alive history_ms now s =
     (let telemetry_ages = map (\<lambda>(l, seen). (l, fsub now seen)) (st_telemetry_seen s);
          runtime_age = map_option (\<lambda>seen. round3 (fsub now seen)) (st_sionna_runtime_seen s);
          gpu_history = slice_history (st_gpu_history s) ''sampled_unix_ms'' history_ms;
          iterations = (if history_ms \<noteq> None
                        then slice_history (st_iteration_history s) ''observed_unix_ms'' history_ms
                        else keep_last 32 (st_iteration_history s));
          ran_gnbs = map (\<lambda>(g, f). (g, gnb_snapshot f now)) (st_gnb_metrics s);
          legacy_ran = (case ran_gnbs of [] \<Rightarrow> gnb_snapshot new_feed now | (_, v) # _ \<Rightarrow> v);
          runtime = map_option (\<lambda>d. AList.update ''phase_age_seconds'' (opt_float runtime_age)
            (AList.update ''process_alive'' (VBool (process_is_alive (vget ''process_id'' d))) d))
            (non_empty (st_sionna_runtime s));
          gpu_usage = map_option (\<lambda>d. AList.update ''iterations'' (VList (map VDict iterations))
            (AList.update ''history'' (VList (map VDict gpu_history)) d)) (non_empty (st_gpu_usage s))
      in \<lparr>w_uptime = round3 (fsub now (st_started_monotonic s)),
          w_telemetry_connected = list_ex (\<lambda>(_, age). fresh_age age) telemetry_ages,
          w_telemetry_link_count = length (filter (\<lambda>(_, age). fresh_age age) telemetry_ages),
          w_telemetry_cached_link_count = length (st_telemetry s),
          w_telemetry_ages = telemetry_ages,
          w_sionna_connected = (st_sionna s \<noteq> None),
          w_sionna_age = map_option (\<lambda>seen. round3 (fsub now seen)) (st_sionna_seen s),
          w_sionna_process_alive =
            (case runtime of None \<Rightarrow> False | Some d \<Rightarrow> truthy (vget ''process_alive'' d)),
          w_bad_frames = st_bad_telemetry_frames s,
          w_telemetry = st_telemetry s, w_sionna = st_sionna s, w_sionna_runtime = runtime,
          w_gpu_usage = gpu_usage,
          w_history_telemetry = slice_history (st_telemetry_history s) ''observed_unix_ms'' history_ms,
          w_history_iterations = iterations,
          w_delivery = delivery_status (st_sionna s) (st_telemetry s) telemetry_ages,
          w_ran = legacy_ran, w_ran_gnbs = ran_gnbs\<rparr>)"

record realtime =
  rt_gpu_history :: "pyval list"
  rt_history_telemetry :: "pyval list"
  rt_history_iterations :: "pydict list"
  rt_target_update_hz :: pyval
  rt_update_rate_hz :: pyval

definition realtime_snapshot :: "int option \<Rightarrow> store \<Rightarrow> realtime result" where
  "realtime_snapshot history_ms s =
     bindR (case non_empty (st_sionna s) of
              None \<Rightarrow> Ok VNone
            | Some d \<Rightarrow> attr_get ''update_rate_hz'' (or_empty (vget ''environment'' d))) (\<lambda>rate.
     bindR (mapR chart_resource_row
              (slice_history (st_gpu_history s) ''sampled_unix_ms'' history_ms)) (\<lambda>gpu_rows.
     bindR (mapR chart_telemetry_row
              (slice_history (st_telemetry_history s) ''observed_unix_ms'' history_ms)) (\<lambda>rows.
     Ok \<lparr>rt_gpu_history = gpu_rows, rt_history_telemetry = rows,
         rt_history_iterations = slice_history (st_iteration_history s) ''observed_unix_ms'' history_ms,
         rt_target_update_hz =
           (case non_empty (st_sionna_runtime s) of None \<Rightarrow> VNone | Some d \<Rightarrow> vget ''target_update_hz'' d),
         rt_update_rate_hz = rate\<rparr>)))"

section \<open>Warm-up targets are retired exactly when they are through\<close>

text \<open>What it takes for a link to be through its warm-up: its profile is live at the expected
  sequence number, and either the back end reported the end of exactly this cycle or no reset is
  pending at its current slot.\<close>

definition link_through :: "(string \<times> pydict) list \<Rightarrow> string \<times> pyval \<Rightarrow> bool" where
  "link_through telemetry target \<longleftrightarrow>
     (let payload = (case map_of telemetry (fst target) of None \<Rightarrow> [] | Some d \<Rightarrow> d); expected = snd target
      in is_int (vget ''seqno'' payload) \<and> int_of expected \<le> int_of (vget ''seqno'' payload)
         \<and> vget ''profile_active'' payload = VBool True \<and> is_int (vget ''slot'' payload)
         \<and> (if exact_cycle payload expected then positive_int (vget ''warmup_end_unix_ns'' payload)
            else positive_int (vget ''warmup_until_slot'' payload) \<longrightarrow>
              int_of (vget ''warmup_until_slot'' payload) \<le> int_of (vget ''slot'' payload)))"

lemma note_boundary_times:
  "note_boundary exact l ns slot acc = Ok acc' \<Longrightarrow>
     map_of (fst acc') l' \<noteq> None \<longleftrightarrow> map_of (fst acc) l' \<noteq> None \<or> l' = l \<and> exact \<and> positive_int ns"
  by (auto simp: note_boundary_def result_simps split: if_splits)

lemma link_not_ready_iff:
  assumes "payload = (case map_of telemetry l of None \<Rightarrow> [] | Some d \<Rightarrow> d)"
    and "exact_cycle payload e \<Longrightarrow> ended \<longleftrightarrow> positive_int (vget ''warmup_end_unix_ns'' payload)"
  shows "link_not_ready payload e ended \<longleftrightarrow> \<not> link_through telemetry (l, e)"
  using assms by (auto simp: link_not_ready_def link_through_def Let_def not_less)

lemma scan_links_ready:
  "scan_links telemetry targets sc = Ok sc' \<Longrightarrow> distinct (map fst targets) \<Longrightarrow> sc_ready sc \<Longrightarrow>
     (\<And>l. l \<in> set (map fst targets) \<Longrightarrow> map_of (sc_end_times sc) l = None) \<Longrightarrow>
     sc_ready sc' \<longleftrightarrow> list_all (link_through telemetry) targets"
proof (induction targets arbitrary: sc)
  case Nil
  then show ?case by simp
next
  case (Cons target targets)
  obtain l e where target: "target = (l, e)" by (cases target)
  define payload where "payload = (case map_of telemetry l of None \<Rightarrow> [] | Some d \<Rightarrow> d)"
  from Cons.prems(1) obtain bt bs et es where
    b: "note_boundary (exact_cycle payload e) l (vget ''warmup_end_unix_ns'' payload)
          (vget ''warmup_end_slot'' payload) (sc_end_times sc, sc_end_slots sc) = Ok (et, es)"
    and rest: "(let sc = sc\<lparr>sc_begin_times := bt, sc_begin_slots := bs, sc_end_times := et,
          sc_end_slots := es, sc_legacy := sc_legacy sc \<or> legacy_warming payload e\<rparr>
        in if link_not_ready payload e (map_of et l \<noteq> None) then Ok (sc\<lparr>sc_ready := False\<rparr>)
           else scan_links telemetry targets sc) = Ok sc'"
    by (auto simp: target Let_def payload_def [symmetric] result_simps)
  have none: "map_of (sc_end_times sc) l = None" using Cons.prems(4) by (simp add: target)
  have et: "map_of et l' \<noteq> None \<longleftrightarrow> map_of (sc_end_times sc) l' \<noteq> None
      \<or> l' = l \<and> exact_cycle payload e \<and> positive_int (vget ''warmup_end_unix_ns'' payload)" for l'
    using note_boundary_times [OF b] by simp
  have nr: "link_not_ready payload e (map_of et l \<noteq> None) \<longleftrightarrow> \<not> link_through telemetry (l, e)"
    by (rule link_not_ready_iff) (use none et in \<open>auto simp: payload_def\<close>)
  show ?case
  proof (cases "link_through telemetry (l, e)")
    case False
    with rest nr show ?thesis by (auto simp: target Let_def)
  next
    case True
    let ?sc = "sc\<lparr>sc_begin_times := bt, sc_begin_slots := bs, sc_end_times := et,
      sc_end_slots := es, sc_legacy := sc_legacy sc \<or> legacy_warming payload e\<rparr>"
    have "scan_links telemetry targets ?sc = Ok sc'" using rest nr True by (simp add: Let_def)
    moreover have "map_of (sc_end_times ?sc) l' = None" if "l' \<in> set (map fst targets)" for l'
    proof -
      have "l' \<noteq> l" using that Cons.prems(2) by (auto simp: target)
      with et [of l'] Cons.prems(4) [of l'] that show ?thesis by auto
    qed
    ultimately have "sc_ready sc' \<longleftrightarrow> list_all (link_through telemetry) targets"
      using Cons.prems by (intro Cons.IH [of ?sc]) auto
    with True show ?thesis by (simp add: target)
  qed
qed

lemma close_targets_completed:
  "close_targets telemetry observed ts hist done = (hist', Ok completed) \<Longrightarrow>
     (\<And>k t. (k, t) \<in> set ts \<Longrightarrow> distinct (map fst t)) \<Longrightarrow>
     completed = done @ map fst (filter (\<lambda>(k, t). list_all (link_through telemetry) t) ts)"
proof (induction ts arbitrary: hist "done")
  case Nil
  then show ?case by simp
next
  case (Cons x ts)
  obtain k t where x: "x = (k, t)" by (cases x)
  from Cons.prems(1) obtain sc where sc: "scan_links telemetry t empty_scan = Ok sc"
    by (cases "scan_links telemetry t empty_scan") (auto simp: x)
  have r: "sc_ready sc \<longleftrightarrow> list_all (link_through telemetry) t"
    by (rule scan_links_ready [OF sc]) (use Cons.prems(2) [of k t] x in \<open>auto simp: empty_scan_def\<close>)
  have "completed = (if sc_ready sc then done @ [k] else done)
      @ map fst (filter (\<lambda>(k, t). list_all (link_through telemetry) t) ts)"
    by (rule Cons.IH) (use Cons.prems sc x in \<open>auto simp: Let_def split: if_splits\<close>)
  with r show ?case by (simp add: x)
qed

lemma map_of_fold_pop: "map_of (fold dict_pop ks d) k = (if k \<in> set ks then None else map_of d k)"
  by (induction ks arbitrary: d) (auto simp: map_of_dict_pop)

definition targets_wf :: "(iter_key \<times> (string \<times> pyval) list) list \<Rightarrow> bool" where
  "targets_wf ts \<longleftrightarrow> distinct (map fst ts) \<and> (\<forall>(k, t) \<in> set ts. distinct (map fst t))"

text \<open>C17. Closing warm-ups retires a target exactly when every one of its links is through, whatever
  the order of links and telemetry; every other target is kept as it was.\<close>

theorem close_completed_exact:
  assumes "close_completed_warmups observed s = (s', None)" and "targets_wf (st_warmup_targets s)"
  shows "map_of (st_warmup_targets s') key =
    (case map_of (st_warmup_targets s) key of
       None \<Rightarrow> None
     | Some targets \<Rightarrow> if list_all (link_through (st_telemetry s)) targets then None else Some targets)"
proof -
  let ?ts = "st_warmup_targets s" and ?p = "\<lambda>(k, t). list_all (link_through (st_telemetry s)) t"
  obtain hist completed where c: "close_targets (st_telemetry s) observed ?ts (st_iteration_history s) []
      = (hist, Ok completed)" and s': "st_warmup_targets s' = fold dict_pop completed ?ts"
    using assms(1) by (auto simp: close_completed_warmups_def split: prod.splits sum.splits)
  have comp: "completed = map fst (filter ?p ?ts)"
    using close_targets_completed [OF c] assms(2) by (auto simp: targets_wf_def)
  have dist: "distinct (map fst ?ts)" using assms(2) by (simp add: targets_wf_def)
  have mem: "key \<in> set completed \<longleftrightarrow> (\<exists>t. map_of ?ts key = Some t \<and> ?p (key, t))"
    using dist by (cases key) (auto simp: comp map_of_eq_Some_iff image_iff)
  show ?thesis unfolding s' map_of_fold_pop using mem by (auto split: option.split)
qed

section \<open>Reachable stores\<close>

text \<open>The operations of the threads that share the store, each returning normally.\<close>

inductive store_step :: "store \<Rightarrow> store \<Rightarrow> bool" where
  telemetry: "update_telemetry link_id payload now observed s = (s', None) \<Longrightarrow> store_step s s'"
| sionna: "update_sionna payload now unix_ms s = (s', None) \<Longrightarrow> store_step s s'"
| gpu: "update_gpu_usage payload unix_ms s = (s', None) \<Longrightarrow> store_step s s'"
| gnb: "store_step s (update_gnb_metrics doc gnb_id now unix_ms s)"
| gnb_state: "store_step s (set_gnb_metrics_state state err gnb_id s)"
| bad: "store_step s (note_bad_telemetry s)"

inductive_cases store_stepE: "store_step s s'"

definition reachable :: "store \<Rightarrow> bool" where
  "reachable s \<longleftrightarrow> (\<exists>started. store_step\<^sup>*\<^sup>* (new_store started) s)"

lemma reachable_induct [consumes 1, case_names new step]:
  assumes "reachable s" and "\<And>started. P (new_store started)"
    and "\<And>s s'. reachable s \<Longrightarrow> P s \<Longrightarrow> store_step s s' \<Longrightarrow> P s'"
  shows "P s"
proof -
  obtain started where "store_step\<^sup>*\<^sup>* (new_store started) s" using assms(1) by (auto simp: reachable_def)
  then have "reachable s \<and> P s"
    by (induction rule: rtranclp_induct)
      (use assms in \<open>auto simp: reachable_def intro: rtranclp.rtrancl_into_rtrancl\<close>)
  then show ?thesis ..
qed

text \<open>The keys that identify an event survive every back-fill.\<close>

definition event_key :: "pydict \<Rightarrow> iter_key" where
  "event_key e = (vget ''session_id'' e, vget ''iteration'' e)"

lemma vget_set_keys:
  "k \<notin> set (map fst kvs) \<Longrightarrow> vget k (set_keys kvs e) = vget k e"
  by (induction kvs arbitrary: e) (auto simp: set_keys_def)

lemma event_key_update [simp]:
  "k \<noteq> ''session_id'' \<Longrightarrow> k \<noteq> ''iteration'' \<Longrightarrow> event_key (AList.update k v e) = event_key e"
  by (simp add: event_key_def)

lemma event_key_set_keys:
  "''session_id'' \<notin> set (map fst kvs) \<Longrightarrow> ''iteration'' \<notin> set (map fst kvs) \<Longrightarrow>
     event_key (set_keys kvs e) = event_key e"
  by (simp add: event_key_def vget_set_keys)

lemma event_key_fields [simp]:
  "event_key (set_keys (event_fields p st en ts cs) e) = event_key e"
  by (rule event_key_set_keys) (simp_all add: event_fields_def)

lemma event_key_if: "event_key (if b then x else y) = (if b then event_key x else event_key y)"
  by simp

lemma event_key_warmup_keys:
  "event_key (AList.update ''warmup_begin_slots'' v e) = event_key e"
  "event_key (AList.update ''warmup_end_slots'' v e) = event_key e"
  "event_key (AList.update ''warmup_expected'' v e) = event_key e"
  "event_key (set_keys [(''warmup_started_unix_ms'', v), (''warmup_boundary_source'', w)] e) = event_key e"
  "event_key (set_keys [(''warmup_ended_unix_ms'', v), (''warmup_boundary_source'', w)] e) = event_key e"
  by (simp_all add: event_key_set_keys)

lemma event_key_fill [simp]: "event_key (fill_event sc obs e) = event_key e"
  unfolding fill_event_def fill_started_def fill_ended_def Let_def
  by (simp only: event_key_if event_key_warmup_keys if_cancel)

lemma keys_map_at:
  "(\<And>e. event_key (f e) = event_key e) \<Longrightarrow> map event_key (map_at i f xs) = map event_key xs"
  by (auto simp: map_at_def map_update split: option.split)
    (metis list_update_beyond list_update_id not_le nth_map length_map)

lemma close_targets_keys:
  "map event_key (fst (close_targets tel obs ts hist done)) = map event_key hist"
  by (induction ts arbitrary: hist "done")
    (auto simp: Let_def keys_map_at split: sum.split prod.split)

lemma close_completed_keeps:
  assumes "close_completed_warmups obs s = (s', r)"
  shows "map event_key (st_iteration_history s') = map event_key (st_iteration_history s)"
    and "st_telemetry_history s' = st_telemetry_history s" and "st_gpu_history s' = st_gpu_history s"
    and "st_sionna_session_id s' = st_sionna_session_id s"
    and "set (st_warmup_targets s') \<subseteq> set (st_warmup_targets s)"
    and "targets_wf (st_warmup_targets s) \<Longrightarrow> targets_wf (st_warmup_targets s')"
proof -
  have pop: "fold dict_pop ks d = filter (\<lambda>p. fst p \<notin> set ks) d"
    for ks :: "iter_key list" and d :: "(iter_key \<times> 'b) list"
    by (induction ks arbitrary: d) (auto simp: dict_pop_def intro: filter_cong)
  have sub: "set (fold dict_pop ks d) \<subseteq> set d" for ks :: "iter_key list" and d :: "(iter_key \<times> 'b) list"
    by (auto simp: pop)
  have dist: "distinct (map fst d) \<Longrightarrow> distinct (map fst (fold dict_pop ks d))"
    for ks :: "iter_key list" and d :: "(iter_key \<times> 'b) list"
    by (simp add: pop distinct_map_filter)
  have keys: "map event_key hist = map event_key (st_iteration_history s)"
    if "close_targets (st_telemetry s) obs (st_warmup_targets s) (st_iteration_history s) [] = (hist, out)"
    for hist out
    using close_targets_keys [of "st_telemetry s" obs "st_warmup_targets s" "st_iteration_history s" "[]"]
      that by simp
  show "map event_key (st_iteration_history s') = map event_key (st_iteration_history s)"
    and "st_telemetry_history s' = st_telemetry_history s" and "st_gpu_history s' = st_gpu_history s"
    and "st_sionna_session_id s' = st_sionna_session_id s"
    and w: "set (st_warmup_targets s') \<subseteq> set (st_warmup_targets s)"
    using assms keys
    by (auto simp: close_completed_warmups_def split: prod.splits sum.splits dest: subsetD [OF sub])
  show "targets_wf (st_warmup_targets s')" if "targets_wf (st_warmup_targets s)"
    using assms w dist that
    by (auto simp: close_completed_warmups_def targets_wf_def split: prod.splits sum.splits)
qed

lemma length_trim_history: "length (trim_history es k n r m) \<le> m"
  by (auto simp: trim_history_def Let_def)

text \<open>Sessions: every event and every target belongs to the current session, or was reported
  without a session id.\<close>

definition in_session :: "pyval \<Rightarrow> pyval \<Rightarrow> bool" where
  "in_session current session \<longleftrightarrow> vnorm session = VNone \<or> vnorm session = vnorm current"

definition unique_events :: "iter_key list \<Rightarrow> bool" where
  "unique_events ks \<longleftrightarrow>
     sorted_wrt (\<lambda>e f. \<not> (py_eq (fst e) (fst f) \<and> py_eq (snd e) (snd f))) ks"

definition events_inv :: "pyval \<Rightarrow> iter_key list \<Rightarrow> bool" where
  "events_inv current ks \<longleftrightarrow> unique_events ks \<and> (\<forall>k \<in> set ks. in_session current (fst k))"

definition targets_inv :: "pyval \<Rightarrow> (iter_key \<times> (string \<times> pyval) list) list \<Rightarrow> bool" where
  "targets_inv current ts \<longleftrightarrow> targets_wf ts \<and> (\<forall>x \<in> set ts. in_session current (fst (fst x)))"

text \<open>What holds at every point of a step, and what holds between steps.\<close>

definition loose_inv :: "store \<Rightarrow> bool" where
  "loose_inv s \<longleftrightarrow>
     length (st_telemetry_history s) \<le> TELEMETRY_HISTORY_MAX_ENTRIES
     \<and> length (st_gpu_history s) \<le> GPU_HISTORY_MAX_ENTRIES
     \<and> events_inv (st_sionna_session_id s) (map event_key (st_iteration_history s))
     \<and> targets_inv (st_sionna_session_id s) (st_warmup_targets s)"

definition store_inv :: "store \<Rightarrow> bool" where
  "store_inv s \<longleftrightarrow> loose_inv s \<and> length (st_iteration_history s) \<le> 512"

lemma store_inv_new: "store_inv (new_store started)"
  by (simp add: store_inv_def loose_inv_def new_store_def events_inv_def unique_events_def
      targets_inv_def targets_wf_def)

lemma targets_inv_close:
  assumes "targets_inv c (st_warmup_targets s)" and "close_completed_warmups obs s = (s', r)"
  shows "targets_inv c (st_warmup_targets s')"
  using assms(1) close_completed_keeps(5,6) [OF assms(2)] unfolding targets_inv_def by blast

lemma loose_inv_close:
  assumes "loose_inv s" and c: "close_completed_warmups obs s = (s', r)"
  shows "loose_inv s'" and "length (st_iteration_history s') = length (st_iteration_history s)"
proof -
  note k = close_completed_keeps [OF c]
  show "loose_inv s'" using assms targets_inv_close [OF _ c] by (simp add: loose_inv_def k(1-4))
  show "length (st_iteration_history s') = length (st_iteration_history s)"
    using k(1) by (metis length_map)
qed

lemma iteration_event_None:
  "iteration_event session it hist = None \<longleftrightarrow> (\<forall>e \<in> set hist. \<not> event_matches session it e)"
  by (induction hist) (auto split: option.split)

lemma event_matches_key:
  "event_matches session it e \<longleftrightarrow> py_eq (fst (event_key e)) session \<and> py_eq (snd (event_key e)) it"
  by (simp add: event_matches_def event_key_def)

lemma length_keep_last [simp]: "length (keep_last n xs) = min n (length xs)"
  by (simp add: keep_last_def)

lemma events_inv_keep_last:
  "events_inv c (map event_key es) \<Longrightarrow> events_inv c (map event_key (keep_last n es))"
proof -
  have "k \<in> set (map event_key (keep_last n es)) \<Longrightarrow> k \<in> set (map event_key es)" for k
    unfolding keep_last_def drop_map [symmetric] by (rule in_set_dropD)
  moreover have "unique_events (map event_key es) \<Longrightarrow> unique_events (map event_key (keep_last n es))"
    unfolding unique_events_def keep_last_def drop_map [symmetric] by (rule sorted_wrt_drop)
  moreover assume "events_inv c (map event_key es)"
  ultimately show ?thesis unfolding events_inv_def by blast
qed

lemma events_inv_snoc:
  assumes "events_inv c (map event_key es)" and "in_session c (fst (event_key e))"
    and "iteration_event (fst (event_key e)) (snd (event_key e)) es = None"
  shows "events_inv c (map event_key (es @ [e]))"
  using assms by (auto simp: events_inv_def unique_events_def sorted_wrt_append
      iteration_event_None event_matches_key)

lemma store_inv_trim:
  "loose_inv s \<Longrightarrow> store_inv (s\<lparr>st_iteration_history := keep_last 512 (st_iteration_history s)\<rparr>)"
  by (simp add: store_inv_def loose_inv_def events_inv_keep_last)

lemma switch_session_inv:
  assumes "store_inv s" shows "store_inv (switch_session v s)"
    and "in_session (st_sionna_session_id (switch_session v s)) v"
proof -
  have first: "in_session VNone x \<Longrightarrow> in_session v x" for x by (simp add: in_session_def)
  have "in_session w v" if "v = VNone \<or> py_eq v w" for w
    using that by (auto simp: in_session_def py_eq_def)
  moreover have "in_session v v" by (simp add: in_session_def)
  ultimately show "in_session (st_sionna_session_id (switch_session v s)) v"
    by (simp add: switch_session_def)
  show "store_inv (switch_session v s)"
    using assms first
    by (auto simp: switch_session_def store_inv_def loose_inv_def events_inv_def targets_inv_def
        unique_events_def targets_wf_def)
qed

lemma event_key_new [simp]: "event_key (new_event it session) = (session, it)"
  by (simp add: event_key_def new_event_def)

lemma ensure_event_inv:
  "loose_inv s \<Longrightarrow> in_session (st_sionna_session_id s) session \<Longrightarrow> loose_inv (ensure_event session it s)"
  using events_inv_snoc [of "st_sionna_session_id s" "st_iteration_history s" "new_event it session"]
  by (simp add: ensure_event_def loose_inv_def)

lemma in_session_vnorm [simp]: "in_session c (vnorm v) = in_session c v"
proof -
  have "vnorm (vnorm v) = vnorm v" for v
  proof (cases v)
    case (VFloat x)
    then show ?thesis by (cases x) auto
  qed auto
  then show ?thesis by (simp add: in_session_def)
qed

lemma targets_inv_update:
  assumes "targets_inv c ts" and "in_session c session" and "distinct (map fst t)"
  shows "targets_inv c (AList.update (iter_key_of session it) t ts)"
proof -
  let ?k = "iter_key_of session it"
  have "x \<in> set (AList.update ?k t ts) \<Longrightarrow> x \<in> set ts \<or> x = (?k, t)" for x
    by (induction ts) (auto split: if_splits)
  moreover have "distinct (map fst (AList.update ?k t ts))"
    using assms(1) by (simp add: targets_inv_def targets_wf_def AList.distinct_update)
  moreover have "in_session c (fst (fst (?k, t)))" using assms(2) by (simp add: iter_key_of_def)
  moreover have "case (?k, t) of (k, t) \<Rightarrow> distinct (map fst t)" using assms(3) by simp
  ultimately show ?thesis using assms(1) unfolding targets_inv_def targets_wf_def by blast
qed

lemma targets_inv_pop: "targets_inv c ts \<Longrightarrow> targets_inv c (dict_pop k ts)"
  by (auto simp: targets_inv_def targets_wf_def distinct_dict_pop) (auto simp: dict_pop_def)

lemma warmup_targets_distinct:
  assumes "warmup_targets_of reply = Ok ts" shows "distinct (map fst ts)"
proof -
  have "distinct (map fst (fold (\<lambda>item acc. case item of
      VDict d \<Rightarrow> (case vget ''link_id'' d of
         VStr link_id \<Rightarrow>
           if is_int (vget ''seqno'' d) \<and> positive_int (vget ''warmup_until_slot'' d)
           then AList.update link_id (vget ''seqno'' d) acc else acc
       | _ \<Rightarrow> acc)
    | _ \<Rightarrow> acc) items acc))" if "distinct (map fst acc)" for items acc
    using that
    by (induction items arbitrary: acc) (auto simp: AList.distinct_update split: pyval.split)
  from this [of "[]"] assms show ?thesis
    by (auto simp: warmup_targets_of_def result_simps split: pyval.splits)
qed

lemma rt_update_inv:
  assumes "store_inv s" and "in_session (st_sionna_session_id s) session"
    and "rt_update payload session now received s = (s', None)"
  shows "store_inv s'"
proof -
  let ?c = "st_sionna_session_id s" and ?it = "vget ''iteration'' payload"
  define s1 where "s1 = s\<lparr>st_sionna := Some payload, st_sionna_seen := Some now\<rparr>"
  define s2 where "s2 = ensure_event session ?it s1"
  note run = assms(3) [unfolded rt_update_def Let_def, folded s1_def, folded s2_def]
  obtain started ended targets where tt: "bindR (update_times payload received) (\<lambda>times.
      bindR (warmup_targets_of (vget ''control_reply'' payload)) (\<lambda>targets. Ok (times, targets)))
      = Ok ((started, ended), targets)"
    using run by (auto split: sum.splits prod.splits)
  then have t: "warmup_targets_of (vget ''control_reply'' payload) = Ok targets"
    by (auto simp: result_simps)
  obtain channels where ch: "event_channels payload = Ok channels"
    using run unfolding tt by (auto split: sum.splits)
  have "\<not> (\<not> hashable session \<or> \<not> hashable ?it)"
    using run unfolding tt ch by (auto split: if_splits)
  then have close: "(case (if targets \<noteq> []
        then close_completed_warmups received
          (s2\<lparr>st_iteration_history :=
                map_at (iteration_event session ?it (st_iteration_history s2))
                  (set_keys (event_fields payload started ended targets channels)) (st_iteration_history s2),
              st_warmup_targets := AList.update (iter_key_of session ?it) targets (st_warmup_targets s2)\<rparr>)
        else (s2\<lparr>st_iteration_history :=
                map_at (iteration_event session ?it (st_iteration_history s2))
                  (set_keys (event_fields payload started ended targets channels)) (st_iteration_history s2),
              st_warmup_targets := dict_pop (iter_key_of session ?it) (st_warmup_targets s2)\<rparr>, None)) of
        (s, Some e) \<Rightarrow> (s, Some e)
      | (s, None) \<Rightarrow> (s\<lparr>st_iteration_history := keep_last 512 (st_iteration_history s)\<rparr>, None)) = (s', None)"
    using run unfolding tt ch by (simp cong: if_cong)
  have "loose_inv s1" using assms(1) by (simp add: s1_def store_inv_def loose_inv_def)
  then have l2: "loose_inv s2" and c2: "st_sionna_session_id s2 = ?c"
    using assms(2) by (simp_all add: s2_def s1_def ensure_event_inv) (simp add: ensure_event_def)
  define h where "h = map_at (iteration_event session ?it (st_iteration_history s2))
    (set_keys (event_fields payload started ended targets channels)) (st_iteration_history s2)"
  have keys: "map event_key h = map event_key (st_iteration_history s2)"
    unfolding h_def by (rule keys_map_at) simp
  have inv: "loose_inv (s2\<lparr>st_iteration_history := h, st_warmup_targets := ts\<rparr>)"
    if "targets_inv ?c ts" for ts
    using l2 that by (simp add: loose_inv_def keys c2)
  have ts: "targets_inv ?c (st_warmup_targets s2)" using l2 by (simp add: loose_inv_def c2)
  show ?thesis
  proof (cases "targets \<noteq> []")
    case True
    let ?s3 = "s2\<lparr>st_iteration_history := h,
      st_warmup_targets := AList.update (iter_key_of session ?it) targets (st_warmup_targets s2)\<rparr>"
    obtain s4 where s4: "close_completed_warmups received ?s3 = (s4, None)"
      and s': "s' = s4\<lparr>st_iteration_history := keep_last 512 (st_iteration_history s4)\<rparr>"
      using close True unfolding h_def [symmetric]
      by (auto split: prod.splits option.splits)
    have "loose_inv ?s3"
      by (rule inv) (rule targets_inv_update [OF ts assms(2) warmup_targets_distinct [OF t]])
    from loose_inv_close(1) [OF this s4] show ?thesis unfolding s' by (rule store_inv_trim)
  next
    case False
    let ?s3 = "s2\<lparr>st_iteration_history := h,
      st_warmup_targets := dict_pop (iter_key_of session ?it) (st_warmup_targets s2)\<rparr>"
    have "s' = ?s3\<lparr>st_iteration_history := keep_last 512 (st_iteration_history ?s3)\<rparr>"
      using close False unfolding h_def [symmetric] by simp
    moreover have "loose_inv ?s3" by (rule inv) (rule targets_inv_pop [OF ts])
    ultimately show ?thesis using store_inv_trim by blast
  qed
qed

lemma rt_runtime_inv:
  assumes "store_inv s" and "in_session (st_sionna_session_id s) session"
  shows "store_inv (rt_runtime payload session now unix_ms s)"
proof -
  define s1 where "s1 = s\<lparr>st_sionna_runtime := Some payload, st_sionna_runtime_seen := Some now\<rparr>"
  have s1: "store_inv s1" using assms(1) by (simp add: s1_def store_inv_def loose_inv_def)
  let ?it = "vget ''iteration'' payload"
  show ?thesis
  proof (cases "vget ''phase'' payload = VStr ''tracing_channels''
      \<and> iteration_event session ?it (st_iteration_history s1) = None")
    case True
    define started where "started = (if is_int (vget ''observed_unix_ms'' payload)
      then vget ''observed_unix_ms'' payload else VInt unix_ms)"
    define e where "e = [(''observed_unix_ms'', started), (''iteration'', ?it), (''session_id'', session),
      (''started_unix_ms'', started), (''ended_unix_ms'', VNone), (''warmup_expected'', VBool False),
      (''warmup_started_unix_ms'', VNone), (''warmup_ended_unix_ms'', VNone)]"
    have k: "event_key e = (session, ?it)" by (simp add: e_def event_key_def)
    have c: "st_sionna_session_id s1 = st_sionna_session_id s" by (simp add: s1_def)
    have "events_inv (st_sionna_session_id s) (map event_key (st_iteration_history s1 @ [e]))"
      by (rule events_inv_snoc) (use True s1 assms(2) k c in \<open>auto simp: store_inv_def loose_inv_def\<close>)
    then have "loose_inv (s1\<lparr>st_iteration_history := st_iteration_history s1 @ [e]\<rparr>)"
      using s1 c by (simp add: store_inv_def loose_inv_def)
    from store_inv_trim [OF this] True show ?thesis
      by (simp add: rt_runtime_def Let_def s1_def [symmetric] started_def [symmetric] e_def [symmetric])
  next
    case False
    with s1 show ?thesis by (auto simp: rt_runtime_def Let_def s1_def [symmetric])
  qed
qed

lemma update_sionna_inv:
  assumes "store_inv s" and "update_sionna payload now unix_ms s = (s', None)"
  shows "store_inv s'"
proof -
  let ?v = "vget ''session_id'' payload"
  note sw = switch_session_inv [OF assms(1), of ?v]
  from assms(2) show ?thesis
    using sw rt_update_inv [OF sw] rt_runtime_inv [OF sw]
    by (auto simp: update_sionna_def Let_def split: if_splits)
qed

lemma update_telemetry_inv:
  assumes "store_inv s" and "update_telemetry l payload now obs s = (s', None)"
  shows "store_inv s'"
proof -
  define s1 where "s1 = s\<lparr>st_telemetry := AList.update l payload (st_telemetry s),
    st_telemetry_seen := AList.update l now (st_telemetry_seen s),
    st_telemetry_history := trim_history (st_telemetry_history s @ [telemetry_entry l payload obs])
      ''observed_unix_ms'' obs TELEMETRY_HISTORY_RETAIN_MS TELEMETRY_HISTORY_MAX_ENTRIES\<rparr>"
  have c: "close_completed_warmups obs s1 = (s', None)"
    using assms(2) by (simp add: update_telemetry_def s1_def)
  have "store_inv s1" using assms(1) by (simp add: s1_def store_inv_def loose_inv_def length_trim_history)
  then show ?thesis using loose_inv_close [OF _ c] by (simp add: store_inv_def)
qed

lemma update_gpu_usage_inv:
  assumes "store_inv s" and "update_gpu_usage payload unix_ms s = (s', None)"
  shows "store_inv s'"
  using assms
  by (auto simp: update_gpu_usage_def Let_def store_inv_def loose_inv_def length_trim_history
      split: sum.splits)

lemma store_step_inv: "store_step s s' \<Longrightarrow> store_inv s \<Longrightarrow> store_inv s'"
proof (induction rule: store_step.induct)
  case telemetry
  then show ?case by (metis update_telemetry_inv)
next
  case sionna
  then show ?case by (metis update_sionna_inv)
next
  case gpu
  then show ?case by (metis update_gpu_usage_inv)
next
  case gnb
  then show ?case by (simp add: update_gnb_metrics_def store_inv_def loose_inv_def)
next
  case gnb_state
  then show ?case by (simp add: set_gnb_metrics_state_def store_inv_def loose_inv_def)
next
  case bad
  then show ?case by (simp add: note_bad_telemetry_def store_inv_def loose_inv_def)
qed


section \<open>The status document agrees with itself\<close>

lemma acknowledged_distinct: "distinct (map fst (fst (acknowledged_of v)))"
proof -
  have "distinct (map fst (fst (fold ack_step items acc)))" if "distinct (map fst (fst acc))" for items acc
    using that
    by (induction items arbitrary: acc)
      (auto simp: ack_step_def AList.distinct_update split: pyval.split)
  then show ?thesis by (simp add: acknowledged_of_def)
qed

lemma applied_rows_fresh:
  assumes "delivery_parts s reply telemetry ages d" and "d_state d = ''backend_applied''"
  shows "d_expected_links d \<le> length (filter (\<lambda>(_, age). fresh_age age) ages)"
proof -
  obtain a w where aw: "acknowledged_of (vget ''links'' reply) = (a, w)" by (metis prod.exhaust)
  let ?ids = "channel_ids_of (vget ''channels'' s)"
  define ids where "ids = sort (if ?ids \<noteq> [] then ?ids else dict_keys a)"
  have links: "d_links d = map (link_row_of (d_backend d) a w telemetry ages) ids"
    and exp: "d_expected_links d = length (d_links d)"
    and all: "count_rows lr_applied (d_links d) = length (d_links d)"
    using assms aw by (auto simp: delivery_parts_def Let_def ids_def)
  have "distinct (dict_keys a)" using acknowledged_distinct [of "vget ''links'' reply"] aw by simp
  then have dist: "distinct ids" by (auto simp: ids_def channel_ids_of_def)
  have "l \<in> set (map fst (filter (\<lambda>(_, age). fresh_age age) ages))" if "l \<in> set ids" for l
  proof -
    have "link_row_of (d_backend d) a w telemetry ages l \<in> set (d_links d)" using that links by simp
    from count_rows_all [OF all this] obtain age where "map_of ages l = Some age" and "fresh_age age"
      by (auto simp: row_applied_iff fresh_age_def)
    then have "(l, age) \<in> set (filter (\<lambda>(_, age). fresh_age age) ages)" by (auto dest: map_of_SomeD)
    then show ?thesis by force
  qed
  then have "card (set ids) \<le> card (set (map fst (filter (\<lambda>(_, age). fresh_age age) ages)))"
    by (intro card_mono) auto
  also have "\<dots> \<le> length (filter (\<lambda>(_, age). fresh_age age) ages)" by (metis card_length length_map)
  finally show ?thesis using links exp dist by (simp add: distinct_card)
qed

text \<open>The parts of one status document are judged against one set of ages: when its delivery says
  \<open>backend_applied\<close>, at least as many links are counted as connected as the batch has, and the
  telemetry feed is shown as connected.\<close>

theorem snapshot_delivery_consistent:
  assumes "w_delivery (snapshot alive history_ms now s) = d" and "d_state d = ''backend_applied''"
  shows "d_expected_links d \<le> w_telemetry_link_count (snapshot alive history_ms now s)
    \<and> w_telemetry_connected (snapshot alive history_ms now s)"
proof -
  let ?ages = "map (\<lambda>(l, seen). (l, fsub now seen)) (st_telemetry_seen s)"
  let ?w = "snapshot alive history_ms now s"
  have d: "d = delivery_status (st_sionna s) (st_telemetry s) ?ages"
    using assms(1) by (simp add: snapshot_def Let_def)
  have n: "w_telemetry_link_count ?w = length (filter (\<lambda>(_, age). fresh_age age) ?ages)"
    and c: "w_telemetry_connected ?w \<longleftrightarrow> list_ex (\<lambda>(_, age). fresh_age age) ?ages"
    by (simp_all add: snapshot_def Let_def)
  show ?thesis
  proof (cases rule: delivery_cases [of "st_sionna s" "st_telemetry s" ?ages])
    case (early st b)
    have "d_state d = st" using early(1) d by (metis early_returns(1))
    with assms(2) early show ?thesis by simp
  next
    case (full p reply)
    have parts: "delivery_parts p reply (st_telemetry s) ?ages d" using full d by simp
    have le: "d_expected_links d \<le> w_telemetry_link_count ?w"
      unfolding n by (rule applied_rows_fresh [OF parts assms(2)])
    have "0 < d_expected_links d" using parts assms(2) by (auto simp: delivery_parts_def Let_def)
    with le n have "filter (\<lambda>(_, age). fresh_age age) ?ages \<noteq> []"
      by (metis length_greater_0_conv less_le_trans)
    then have "w_telemetry_connected ?w"
      unfolding c list_ex_iff filter_empty_conv by blast
    with le show ?thesis by blast
  qed
qed

section \<open>Witnesses\<close>

definition sample_store :: store where
  "sample_store = (new_store (Fin 0))
     \<lparr>st_sionna := Some sample_update, st_telemetry := sample_telemetry,
      st_telemetry_seen := [(''g>u:m'', Fin 1)],
      st_warmup_targets := [((VStr ''s'', VInt 1), [(''g>u:m'', VInt 5)])]\<rparr>"

lemma sample_ages: "fsub (Fin 2) (Fin 1) = Fin 1"
  by (simp add: fsub_def)

theorem snapshot_delivery_consistent_witness:
  "1 \<le> w_telemetry_link_count (snapshot (\<lambda>_. True) None (Fin 2) sample_store)"
proof -
  have ages: "map (\<lambda>(l, seen). (l, fsub (Fin 2) seen)) (st_telemetry_seen sample_store) = [(''g>u:m'', Fin 1)]"
    by (simp add: sample_store_def sample_ages)
  have st: "st_sionna sample_store = Some sample_update" "st_telemetry sample_store = sample_telemetry"
    by (simp_all add: sample_store_def)
  have del: "w_delivery (snapshot (\<lambda>_. True) None (Fin 2) sample_store)
      = delivery_status (Some sample_update) sample_telemetry [(''g>u:m'', Fin 1)]"
    by (simp add: snapshot_def Let_def ages st)
  have "d_expected_links (delivery_status (Some sample_update) sample_telemetry [(''g>u:m'', Fin 1)]) = 1"
    by code_simp
  with snapshot_delivery_consistent [OF del sample_delivery(1)] show ?thesis by simp
qed

definition through_telemetry :: "(string \<times> pydict) list" where
  "through_telemetry = [(''l'', [(''seqno'', VInt 5), (''profile_active'', VBool True), (''slot'', VInt 9),
     (''warmup_until_slot'', VInt 8)])]"

definition through_store :: store where
  "through_store = (new_store (Fin 0))\<lparr>st_telemetry := through_telemetry,
     st_warmup_targets := [((VStr ''s'', VInt 1), [(''l'', VInt 5)]), ((VStr ''s'', VInt 2), [(''l'', VInt 6)])]\<rparr>"

lemma through_closes:
  "\<exists>s'. close_completed_warmups 1 through_store = (s', None)"
  by (simp add: through_store_def through_telemetry_def new_store_def close_completed_warmups_def
      empty_scan_def exact_cycle_def note_boundary_def legacy_warming_def link_not_ready_def
      positive_int_def Let_def)

theorem close_completed_exact_witness:
  "\<exists>s'. close_completed_warmups 1 through_store = (s', None)
     \<and> map_of (st_warmup_targets s') (VStr ''s'', VInt 1) = None
     \<and> map_of (st_warmup_targets s') (VStr ''s'', VInt 2) = Some [(''l'', VInt 6)]"
proof -
  obtain s' where s': "close_completed_warmups 1 through_store = (s', None)"
    using through_closes by blast
  have wf: "targets_wf (st_warmup_targets through_store)"
    by (simp add: targets_wf_def through_store_def)
  have "link_through through_telemetry (''l'', VInt 5)" and "\<not> link_through through_telemetry (''l'', VInt 6)"
    by (simp_all add: link_through_def through_telemetry_def exact_cycle_def positive_int_def)
  with close_completed_exact [OF s' wf, of "(VStr ''s'', VInt 1)"]
    close_completed_exact [OF s' wf, of "(VStr ''s'', VInt 2)"]
  show ?thesis using s' by - (rule exI [of _ s'], simp add: through_store_def)
qed


end
