(* ===== verification/ProcParse.thy ===== *)
theory ProcParse
  imports History
begin

text \<open>
  The dashboard's readers of \<^verbatim>\<open>/proc\<close> and of \<open>nvidia-smi\<close> (\<^verbatim>\<open>apps/dashboard/server.py\<close>): the text
  parsers, the stateful CPU sampler \<open>HostResourceSampler.sample\<close> and the payload that combines one
  host sample with the GPU samples. File contents are arguments. The theorems: the process parser
  survives any command name, CPU shares stay between 0 and 100, and a resource payload is built from
  exactly the processes asked for.
\<close>

section \<open>Text\<close>

definition is_line_end :: "char \<Rightarrow> bool" where
  "is_line_end c \<longleftrightarrow> c \<in> {CHR 0x0A, CHR 0x0B, CHR 0x0C, CHR 0x0D, CHR 0x1C, CHR 0x1D, CHR 0x1E}"

text \<open>\<open>s.splitlines()\<close>: \<open>\r\n\<close> is one line end, and a final line end starts no line.\<close>

fun splitlines_acc :: "string \<Rightarrow> string \<Rightarrow> string list" where
  "splitlines_acc w [] = (if w = [] then [] else [rev w])"
| "splitlines_acc w [c] = (if is_line_end c then [rev w] else [rev (c # w)])"
| "splitlines_acc w (c # d # cs) =
     (if c = CHR 0x0D \<and> d = CHR 0x0A then rev w # splitlines_acc [] cs
      else if is_line_end c then rev w # splitlines_acc [] (d # cs)
      else splitlines_acc (c # w) (d # cs))"

definition splitlines :: "string \<Rightarrow> string list" where
  "splitlines = splitlines_acc []"

text \<open>\<open>float(s)\<close> of a decimal literal, \<open>inf\<close> or \<open>nan\<close>; \<open>None\<close> is its \<open>ValueError\<close>. \<open>digit_run\<close> reads
  digits with single underscores between them.\<close>

definition digit_run :: "string \<Rightarrow> (nat \<times> nat) option" where
  "digit_run s = map_option (\<lambda>n. (n, length (filter is_digit s))) (parse_nat s)"

definition decimal :: "string \<Rightarrow> rat option" where
  "decimal s =
     (case str_partition CHR ''.'' s of (whole, dot, rest) \<Rightarrow>
        if \<not> dot then map_option (\<lambda>(n, _). of_nat n) (digit_run whole)
        else if whole = [] \<and> rest = [] then None
        else case (if whole = [] then Some (0, 0) else digit_run whole,
                   if rest = [] then Some (0, 0) else digit_run rest) of
               (Some (n, _), Some (m, k)) \<Rightarrow> Some (of_nat n + of_nat m / 10 ^ k)
             | _ \<Rightarrow> None)"

definition unsigned_float :: "string \<Rightarrow> rat option" where
  "unsigned_float s =
     (case str_partition CHR ''e'' s of (mant, e, expo) \<Rightarrow>
        if \<not> e then decimal mant
        else case expo of
               [] \<Rightarrow> None
             | c # cs \<Rightarrow>
                 let neg = (c = CHR ''-''); ds = (if c = CHR ''-'' \<or> c = CHR ''+'' then cs else c # cs)
                 in case (decimal mant, parse_nat ds) of
                      (Some m, Some x) \<Rightarrow> Some (if neg then m / 10 ^ x else m * 10 ^ x)
                    | _ \<Rightarrow> None)"

definition parse_float :: "string \<Rightarrow> pyfloat option" where
  "parse_float s =
     (let t = str_lower (str_strip s); neg = (take 1 t = ''-'');
          u = (if take 1 t = ''-'' \<or> take 1 t = ''+'' then drop 1 t else t);
          value = (if u = ''inf'' \<or> u = ''infinity'' then Some PInf
                   else if u = ''nan'' then Some NaN else map_option rnd64 (unsigned_float u))
      in if neg then map_option fneg value else value)"

text \<open>\<open>a / b\<close> of two integers: the correctly rounded quotient.\<close>

definition int_div :: "int \<Rightarrow> int \<Rightarrow> pyfloat result" where
  "int_div a b =
     (if b = 0 then Err ZeroDivisionError
      else case rnd64 (of_int a / of_int b) of Fin r \<Rightarrow> Ok (Fin r) | _ \<Rightarrow> Err OverflowError)"

definition kib_to_mib :: "int \<Rightarrow> pyfloat result" where
  "kib_to_mib n = bindR (float_of_int n) (\<lambda>x. fdiv x (Fin 1024))"

section \<open>/proc\<close>

definition meminfo_values :: "string \<Rightarrow> (string \<times> int) list" where
  "meminfo_values output =
     fold (\<lambda>line values.
       case str_partition CHR '':'' line of (name, found, remainder) \<Rightarrow>
         if \<not> found then values
         else case str_words (str_strip remainder) of
                [] \<Rightarrow> values
              | w # _ \<Rightarrow> (case parse_int w of None \<Rightarrow> values | Some n \<Rightarrow> AList.update name n values))
       (splitlines output) []"

record meminfo =
  total_mib :: "pyfloat option"
  available_mib :: "pyfloat option"
  used_mib :: "pyfloat option"

definition opt_mib :: "int option \<Rightarrow> pyfloat option result" where
  "opt_mib n = (case n of None \<Rightarrow> Ok None | Some k \<Rightarrow> bindR (kib_to_mib k) (\<lambda>x. Ok (Some x)))"

definition used_kib :: "int option \<Rightarrow> int option \<Rightarrow> int option" where
  "used_kib total_kib available =
     (case (total_kib, available) of (Some t, Some a) \<Rightarrow> Some (max 0 (t - a)) | _ \<Rightarrow> None)"

definition parse_proc_meminfo :: "string \<Rightarrow> meminfo result" where
  "parse_proc_meminfo output =
     (let values = meminfo_values output; total_kib = map_of values ''MemTotal'';
          available = (case map_of values ''MemAvailable'' of
                         None \<Rightarrow> map_of values ''MemFree'' | Some a \<Rightarrow> Some a)
      in bindR (opt_mib total_kib) (\<lambda>t. bindR (opt_mib available) (\<lambda>a.
         bindR (opt_mib (used_kib total_kib available)) (\<lambda>u.
           Ok \<lparr>total_mib = t, available_mib = a, used_mib = u\<rparr>))))"

text \<open>A comprehension of \<open>int(...)\<close> inside \<open>try\<close>: all of them or nothing.\<close>

fun parse_ints :: "string list \<Rightarrow> int list option" where
  "parse_ints [] = Some []"
| "parse_ints (w # ws) =
     (case (parse_int w, parse_ints ws) of (Some n, Some ns) \<Rightarrow> Some (n # ns) | _ \<Rightarrow> None)"

definition parse_proc_cpu_total :: "string \<Rightarrow> (int \<times> int) option" where
  "parse_proc_cpu_total output =
     (case (case splitlines output of [] \<Rightarrow> [] | l # _ \<Rightarrow> str_words l) of
        [] \<Rightarrow> None
      | w # ws \<Rightarrow>
          if w \<noteq> ''cpu'' then None
          else case parse_ints ws of
                 None \<Rightarrow> None
               | Some counters \<Rightarrow>
                   if length counters < 4 then None
                   else Some (sum_list counters,
                     counters ! 3 + (if 4 < length counters then counters ! 4 else 0)))"

text \<open>\<open>output.rfind(")")\<close> and the slice behind it.\<close>

definition after_last :: "char \<Rightarrow> string \<Rightarrow> string option" where
  "after_last c s = (case str_rpartition c s of (_, found, t) \<Rightarrow> if found then Some t else None)"

definition parse_proc_pid_ticks :: "string \<Rightarrow> int option" where
  "parse_proc_pid_ticks output =
     (case after_last CHR '')'' output of
        None \<Rightarrow> None
      | Some rest \<Rightarrow>
          let fields = str_words rest
          in if length fields \<le> 12 then None
             else case (parse_int (fields ! 11), parse_int (fields ! 12)) of
                    (Some u, Some s) \<Rightarrow> Some (u + s) | _ \<Rightarrow> None)"

fun rss_of_lines :: "string list \<Rightarrow> pyfloat option result" where
  "rss_of_lines [] = Ok None"
| "rss_of_lines (line # lines) =
     (if \<not> str_startswith ''VmRSS:'' line then rss_of_lines lines
      else case str_words line of
             _ # w # _ \<Rightarrow> (case parse_int w of None \<Rightarrow> Ok None | Some n \<Rightarrow> opt_mib (Some n))
           | _ \<Rightarrow> Ok None)"

definition parse_proc_status_rss :: "string \<Rightarrow> pyfloat option result" where
  "parse_proc_status_rss output = rss_of_lines (splitlines output)"

record cpu_hardware =
  cpu_model :: "string option"
  physical_cores :: nat
  logical_threads :: nat

record cpu_scan =
  cs_model :: "string option"
  cs_physical :: "(string \<times> string) list"
  cs_visible :: "int list"

definition block_fields :: "string \<Rightarrow> (string \<times> string) list" where
  "block_fields block =
     fold (\<lambda>line fields.
       case str_partition CHR '':'' line of (key, found, val) \<Rightarrow>
         if found then AList.update (str_strip key) (str_strip val) fields else fields)
       (splitlines block) []"

text \<open>\<open>a or b\<close> on optional strings: an empty string counts as absent.\<close>

definition or_str :: "string option \<Rightarrow> string option \<Rightarrow> string option" where
  "or_str a b = (case a of Some s \<Rightarrow> if s = [] then b else a | None \<Rightarrow> b)"

definition scan_block :: "int list \<Rightarrow> string \<Rightarrow> cpu_scan \<Rightarrow> cpu_scan" where
  "scan_block allowed block sc =
     (let fields = block_fields block
      in case Option.bind (map_of fields ''processor'') parse_int of
           None \<Rightarrow> sc
         | Some processor \<Rightarrow>
             if allowed \<noteq> [] \<and> processor \<notin> set allowed then sc
             else sc\<lparr>cs_visible := List.insert processor (cs_visible sc),
                    cs_model := or_str (cs_model sc)
                      (or_str (map_of fields ''model name'') (map_of fields ''hardware'')),
                    cs_physical :=
                      (case (map_of fields ''physical id'', map_of fields ''core id'') of
                         (Some p, Some c) \<Rightarrow> List.insert (p, c) (cs_physical sc) | _ \<Rightarrow> cs_physical sc)\<rparr>)"

text \<open>\<open>cpu_count\<close> is \<open>os.cpu_count()\<close>; \<open>allowed\<close> is a set, listed without repetition.\<close>

definition parse_cpu_hardware :: "nat \<Rightarrow> string \<Rightarrow> int list \<Rightarrow> cpu_hardware" where
  "parse_cpu_hardware cpu_count output allowed =
     (let sc = fold (scan_block allowed) (split_sub [CHR 0x0A, CHR 0x0A] output)
                 \<lparr>cs_model = None, cs_physical = [], cs_visible = []\<rparr>;
          threads = (if cs_visible sc \<noteq> [] then length (cs_visible sc)
                     else if allowed \<noteq> [] then length allowed else cpu_count)
      in \<lparr>cpu_model = cs_model sc,
          physical_cores = (if cs_physical sc \<noteq> [] then length (cs_physical sc) else threads),
          logical_threads = threads\<rparr>)"

section \<open>The CPU sampler\<close>

type_synonym targets = "(string \<times> int list) list"

record sampler =
  hs_hardware :: cpu_hardware
  hs_previous_cpu :: "(int \<times> int) option"
  hs_previous_processes :: "(int \<times> int \<times> pyfloat) list"
  hs_clock_ticks :: int

record role_usage =
  cpu_util :: "pyfloat option"
  ram_rss :: "pyfloat option"

text \<open>The share of busy time between two readings of \<^verbatim>\<open>/proc/stat\<close>.\<close>

definition cpu_percent_of :: "(int \<times> int) option \<Rightarrow> (int \<times> int) option \<Rightarrow> pyfloat option result" where
  "cpu_percent_of previous current =
     (case (previous, current) of
        (Some p, Some c) \<Rightarrow>
          if 0 < fst c - fst p
          then bindR (int_div (snd c - snd p) (fst c - fst p)) (\<lambda>idle.
                 Ok (Some (fmax (Fin 0) (fmin (Fin 100) (fmul (Fin 100) (fsub (Fin 1) idle))))))
          else Ok None
      | _ \<Rightarrow> Ok None)"

text \<open>The increment of one process: \<open>(ticks - before) / clock_ticks / (now - then) * 100.0\<close>.\<close>

definition cpu_increment :: "int \<Rightarrow> int \<Rightarrow> int \<Rightarrow> pyfloat \<Rightarrow> pyfloat result" where
  "cpu_increment clock ticks before elapsed =
     bindR (int_div (ticks - before) clock) (\<lambda>s. bindR (fdiv s elapsed) (\<lambda>r. Ok (fmul r (Fin 100))))"

record role_acc =
  ra_cpu :: "pyfloat option"
  ra_rss :: "pyfloat option"
  ra_current :: "(int \<times> int \<times> pyfloat) list"

definition add_opt :: "pyfloat option \<Rightarrow> pyfloat \<Rightarrow> pyfloat option" where
  "add_opt acc x = Some (fadd (case acc of None \<Rightarrow> Fin 0 | Some a \<Rightarrow> a) x)"

definition sample_pid ::
  "(string \<Rightarrow> string) \<Rightarrow> pyfloat \<Rightarrow> sampler \<Rightarrow> int \<Rightarrow> role_acc \<Rightarrow> role_acc result" where
  "sample_pid read now s pid acc =
     bindR (case parse_proc_pid_ticks (read (''/proc/'' @ str_int pid @ ''/stat'')) of
              None \<Rightarrow> Ok acc
            | Some ticks \<Rightarrow>
                let acc = acc\<lparr>ra_current := AList.update pid (ticks, now) (ra_current acc)\<rparr>
                in case map_of (hs_previous_processes s) pid of
                     None \<Rightarrow> Ok acc
                   | Some (before, seen) \<Rightarrow>
                       if flt seen now
                       then bindR (cpu_increment (hs_clock_ticks s) ticks before (fsub now seen)) (\<lambda>x.
                              Ok (acc\<lparr>ra_cpu := add_opt (ra_cpu acc) x\<rparr>))
                       else Ok acc) (\<lambda>acc.
     bindR (parse_proc_status_rss (read (''/proc/'' @ str_int pid @ ''/status''))) (\<lambda>rss.
       Ok (case rss of None \<Rightarrow> acc | Some r \<Rightarrow> acc\<lparr>ra_rss := add_opt (ra_rss acc) r\<rparr>)))"

definition role_pids :: "targets \<Rightarrow> string \<Rightarrow> int list" where
  "role_pids ts role = (case map_of ts role of None \<Rightarrow> [] | Some pids \<Rightarrow> pids)"

definition sample_role ::
  "(string \<Rightarrow> string) \<Rightarrow> pyfloat \<Rightarrow> sampler \<Rightarrow> targets \<Rightarrow> string
     \<Rightarrow> (string \<times> role_usage) list \<times> (int \<times> int \<times> pyfloat) list
     \<Rightarrow> ((string \<times> role_usage) list \<times> (int \<times> int \<times> pyfloat) list) result" where
  "sample_role read now s ts role st =
     bindR (foldR (sample_pid read now s) (role_pids ts role)
              \<lparr>ra_cpu = None, ra_rss = None, ra_current = snd st\<rparr>) (\<lambda>acc.
       Ok (fst st @ [(role, \<lparr>cpu_util = map_option (fmax (Fin 0)) (ra_cpu acc), ram_rss = ra_rss acc\<rparr>)],
           ra_current acc))"

record host_sample =
  h_hardware :: cpu_hardware
  h_cpu_percent :: "pyfloat option"
  h_memory :: meminfo
  h_processes :: "(string \<times> role_usage) list"

definition sample_host ::
  "(string \<Rightarrow> string) \<Rightarrow> pyfloat \<Rightarrow> targets \<Rightarrow> sampler \<Rightarrow> (host_sample \<times> sampler) result" where
  "sample_host read now ts s =
     (let cpu_total = parse_proc_cpu_total (read ''/proc/stat'')
      in bindR (cpu_percent_of (hs_previous_cpu s) cpu_total) (\<lambda>percent.
         bindR (foldR (sample_role read now s ts) resource_roles ([], [])) (\<lambda>(rows, current).
         bindR (parse_proc_meminfo (read ''/proc/meminfo'')) (\<lambda>memory.
         Ok (\<lparr>h_hardware = hs_hardware s, h_cpu_percent = percent, h_memory = memory, h_processes = rows\<rparr>,
             s\<lparr>hs_previous_cpu := cpu_total, hs_previous_processes := current\<rparr>)))))"

section \<open>nvidia-smi tables\<close>

text \<open>\<open>csv.reader\<close> in its default dialect on text whose lines end in a line feed.\<close>

datatype csv_state = StartRecord | StartField | InField | InQuoted | QuoteInQuoted

fun csv_rows :: "csv_state \<Rightarrow> string \<Rightarrow> string list \<Rightarrow> string \<Rightarrow> string list list" where
  "csv_rows st field row [] = (if st = StartRecord then [] else [rev (rev field # row)])"
| "csv_rows st field row (c # cs) =
     (if st = InQuoted then
        (if c = CHR ''\"'' then csv_rows QuoteInQuoted field row cs
         else csv_rows InQuoted (c # field) row cs)
      else if c = CHR 0x0A then
        (if st = StartRecord then [] else rev (rev field # row)) # csv_rows StartRecord [] [] cs
      else if c = CHR '','' then csv_rows StartField [] (rev field # row) cs
      else if c = CHR ''\"'' \<and> st \<noteq> InField then
        (if st = QuoteInQuoted then csv_rows InQuoted (c # field) row cs
         else csv_rows InQuoted field row cs)
      else csv_rows InField (c # field) row cs)"

definition csv_reader :: "string \<Rightarrow> string list list" where
  "csv_reader = csv_rows StartRecord [] []"

definition zip_dict :: "string list \<Rightarrow> string list \<Rightarrow> (string \<times> string) list" where
  "zip_dict header values = fold (\<lambda>(k, v). AList.update k v) (zip header values) []"

text \<open>The header of a commented table: \<open>line.lstrip("# ").lower().split()\<close>.\<close>

definition header_fields :: "string \<Rightarrow> string list" where
  "header_fields line = str_words (str_lower (dropWhile (\<lambda>c. c = CHR ''#'' \<or> c = CHR '' '') line))"

text \<open>The loop both table parsers share: the newest accepted header applies to the value rows after it.\<close>

definition table_step ::
  "(string list \<Rightarrow> bool) \<Rightarrow> ((string \<times> string) list \<Rightarrow> 'a \<Rightarrow> 'a) \<Rightarrow> string
     \<Rightarrow> string list option \<times> 'a \<Rightarrow> string list option \<times> 'a" where
  "table_step is_header on_row raw_line st =
     (let line = str_strip raw_line
      in if line = [] then st
         else if str_startswith ''#'' line
         then (if is_header (header_fields line) then (Some (header_fields line), snd st) else st)
         else case fst st of
                None \<Rightarrow> st
              | Some header \<Rightarrow>
                  if length (str_words line) < length header then st
                  else (Some header, on_row (zip_dict header (str_words line)) (snd st)))"

definition parse_table ::
  "(string list \<Rightarrow> bool) \<Rightarrow> ((string \<times> string) list \<Rightarrow> 'a \<Rightarrow> 'a) \<Rightarrow> 'a \<Rightarrow> string \<Rightarrow> 'a" where
  "parse_table is_header on_row init output =
     snd (fold (table_step is_header on_row) (splitlines output) (None, init))"

record proc_row =
  pr_pid :: int
  pr_gpu_index :: "int option"
  pr_gpu_uuid :: "string option"
  pr_type :: "string option"
  pr_sm :: "pyfloat option"
  pr_mem_util :: "pyfloat option"
  pr_memory_mib :: "pyfloat option"
  pr_command :: "string option"

definition get_or :: "string \<Rightarrow> string \<Rightarrow> (string \<times> string) list \<Rightarrow> string" where
  "get_or k d item = (case map_of item k of Some v \<Rightarrow> v | None \<Rightarrow> d)"

definition percentage :: "(string \<times> string) list \<Rightarrow> string \<Rightarrow> pyfloat option" where
  "percentage item name =
     (let v = get_or name ''-'' item in if v = ''-'' \<or> v = ''N/A'' then None else parse_float v)"

definition gpu_text :: "(string \<times> string) list \<Rightarrow> string" where
  "gpu_text item = get_or ''gpu'' (get_or ''idx'' ''-1'' item) item"

definition pmon_row :: "(string \<times> string) list \<Rightarrow> proc_row list \<Rightarrow> proc_row list" where
  "pmon_row item rows =
     (case (Option.bind (map_of item ''pid'') parse_int, parse_int (gpu_text item)) of
        (Some pid, Some gpu) \<Rightarrow>
          rows @ [\<lparr>pr_pid = pid, pr_gpu_index = Some gpu, pr_gpu_uuid = None, pr_type = map_of item ''type'',
                   pr_sm = percentage item ''sm'', pr_mem_util = percentage item ''mem'',
                   pr_memory_mib = percentage item ''fb'', pr_command = map_of item ''command''\<rparr>]
      | _ \<Rightarrow> rows)"

definition parse_nvidia_pmon :: "string \<Rightarrow> proc_row list" where
  "parse_nvidia_pmon =
     parse_table (\<lambda>fields. ''pid'' \<in> set fields \<and> (''gpu'' \<in> set fields \<or> ''idx'' \<in> set fields)) pmon_row []"

definition dmon_row ::
  "(string \<times> string) list \<Rightarrow> (int \<times> pyfloat \<times> pyfloat) list \<Rightarrow> (int \<times> pyfloat \<times> pyfloat) list" where
  "dmon_row item result =
     (case (parse_int (gpu_text item), Option.bind (map_of item ''rxpci'') parse_float,
            Option.bind (map_of item ''txpci'') parse_float) of
        (Some gpu, Some rx, Some tx) \<Rightarrow> AList.update gpu (rx, tx) result
      | _ \<Rightarrow> result)"

definition parse_nvidia_dmon_pcie :: "string \<Rightarrow> (int \<times> pyfloat \<times> pyfloat) list" where
  "parse_nvidia_dmon_pcie =
     parse_table (\<lambda>fields. (''gpu'' \<in> set fields \<or> ''idx'' \<in> set fields) \<and> ''rxpci'' \<in> set fields) dmon_row []"

definition parse_nvidia_gpu_map :: "string \<Rightarrow> (string \<times> int) list" where
  "parse_nvidia_gpu_map output =
     fold (\<lambda>row result. case row of
         index # uuid # _ \<Rightarrow>
           (case parse_int (str_strip index) of
              None \<Rightarrow> result | Some n \<Rightarrow> AList.update (str_strip uuid) n result)
       | _ \<Rightarrow> result) (csv_reader output) []"

definition parse_nvidia_compute_apps :: "string \<Rightarrow> (string \<times> int) list \<Rightarrow> proc_row list" where
  "parse_nvidia_compute_apps output gpu_indices =
     List.map_filter (\<lambda>row. case row of
         uuid # pid # name # memory # _ \<Rightarrow>
           (case (parse_int (str_strip pid), parse_float (str_strip memory)) of
              (Some p, Some m) \<Rightarrow>
                Some \<lparr>pr_pid = p, pr_gpu_index = map_of gpu_indices (str_strip uuid),
                      pr_gpu_uuid = Some (str_strip uuid), pr_type = None, pr_sm = None,
                      pr_mem_util = None, pr_memory_mib = Some m, pr_command = Some (str_strip name)\<rparr>
            | _ \<Rightarrow> None)
       | _ \<Rightarrow> None) (csv_reader output)"

record gpu_row =
  gr_index :: int
  gr_name :: string
  gr_uuid :: string
  gr_total_mib :: pyfloat
  gr_used_mib :: pyfloat
  gr_pcie_gen :: "int option"
  gr_pcie_width :: "int option"
  gr_util :: "pyfloat option"

definition parse_nvidia_gpu_inventory :: "string \<Rightarrow> gpu_row list" where
  "parse_nvidia_gpu_inventory output =
     List.map_filter (\<lambda>row.
       if length row < 7 then None
       else case (parse_int (str_strip (row ! 0)), parse_float (str_strip (row ! 3)),
                  parse_float (str_strip (row ! 4))) of
              (Some index, Some total_mem, Some used_mem) \<Rightarrow>
                Some \<lparr>gr_index = index, gr_name = str_strip (row ! 1), gr_uuid = str_strip (row ! 2),
                      gr_total_mib = total_mem, gr_used_mib = used_mem,
                      gr_pcie_gen = parse_int (str_strip (row ! 5)),
                      gr_pcie_width = parse_int (str_strip (row ! 6)),
                      gr_util = (if length row \<le> 7 then None else parse_float (str_strip (row ! 7)))\<rparr>
            | _ \<Rightarrow> None) (csv_reader output)"

section \<open>The process parser survives every command name\<close>

lemma str_words_acc_space:
  assumes "is_space c"
  shows "str_words_acc w (c # s) = (if w = [] then str_words s else rev w # str_words s)"
  using assms by (simp add: str_words_def)

lemma str_words_acc_word:
  "(\<And>c. c \<in> set s \<Longrightarrow> \<not> is_space c) \<Longrightarrow> str_words_acc w (s @ t) = str_words_acc (rev s @ w) t"
  by (induction s arbitrary: w) auto

lemma str_words_join:
  assumes "\<And>w. w \<in> set ws \<Longrightarrow> w \<noteq> [] \<and> (\<forall>c \<in> set w. \<not> is_space c)"
  shows "str_words (concat (map (\<lambda>w. CHR '' '' # w) ws)) = ws"
  using assms
proof (induction ws)
  case Nil
  then show ?case by (simp add: str_words_def)
next
  case (Cons w ws)
  have sp: "is_space CHR '' ''" by (simp add: is_space_def)
  have w: "w \<noteq> []" "\<And>c. c \<in> set w \<Longrightarrow> \<not> is_space c" using Cons.prems by auto
  have IH: "str_words (concat (map (\<lambda>w. CHR '' '' # w) ws)) = ws"
    by (rule Cons.IH) (use Cons.prems in auto)
  have "str_words (CHR '' '' # w @ concat (map (\<lambda>w. CHR '' '' # w) ws))
      = str_words_acc (rev w) (concat (map (\<lambda>w. CHR '' '' # w) ws))"
    using str_words_acc_word [of w "[]"] w by (simp add: str_words_def sp)
  also have "\<dots> = w # ws"
  proof (cases ws)
    case Nil
    with w show ?thesis by simp
  next
    case (Cons v vs)
    have "str_words_acc (rev w) (CHR '' '' # v @ concat (map (\<lambda>w. CHR '' '' # w) vs))
        = w # str_words (v @ concat (map (\<lambda>w. CHR '' '' # w) vs))"
      using w by (simp add: str_words_def sp)
    also have "str_words (v @ concat (map (\<lambda>w. CHR '' '' # w) vs))
        = str_words (CHR '' '' # v @ concat (map (\<lambda>w. CHR '' '' # w) vs))"
      by (simp add: str_words_def sp)
    finally show ?thesis using IH Cons by simp
  qed
  finally show ?case by simp
qed

lemma after_last_found: "c \<notin> set t \<Longrightarrow> after_last c (h @ c # t) = Some t"
  by (simp add: after_last_def str_rpartition_def str_partition_found)

lemma digit_facts:
  assumes "is_digit c" shows "\<not> is_space c" and "c \<noteq> CHR '')''" and "c \<noteq> CHR ''-''" and "c \<noteq> CHR ''+''"
proof -
  have "48 \<le> (of_char c :: nat)" using assms by (simp add: is_digit_def)
  then show "\<not> is_space c" and "c \<noteq> CHR '')''" and "c \<noteq> CHR ''-''" and "c \<noteq> CHR ''+''"
    by (auto simp: is_space_def)
qed

lemma str_strip_id:
  assumes "\<And>c. c \<in> set s \<Longrightarrow> \<not> is_space c" shows "str_strip s = s"
proof -
  have "dropWhile is_space t = t" if "\<And>c. c \<in> set t \<Longrightarrow> \<not> is_space c" for t
    using that by (cases t) auto
  from this [of s] this [of "rev s"] assms show ?thesis by (simp add: str_strip_def)
qed

lemma parse_int_str_nat [simp]: "parse_int (str_nat n) = Some (int n)"
proof -
  have "str_strip (str_nat n) = str_nat n"
    by (rule str_strip_id) (use str_nat_digits digit_facts(1) in blast)
  moreover obtain c cs where c: "str_nat n = c # cs" by (cases "str_nat n") auto
  moreover have "is_digit c" using str_nat_digits [of c n] c by simp
  ultimately show ?thesis using digit_facts(3,4) [of c] parse_nat_str_nat [of n]
    by (auto simp: parse_int_def)
qed

text \<open>The line the kernel prints for a process (its id, its command in parentheses, and the
  numeric fields) gives user plus system time whatever characters the command contains, closing
  parentheses, spaces and line ends included.\<close>

theorem parse_proc_pid_ticks_any_command:
  assumes "12 < length counters"
    and "output = pid @ '' ('' @ command @ '')'' @ concat (map (\<lambda>n. CHR '' '' # str_nat n) counters)"
  shows "parse_proc_pid_ticks output = Some (int (counters ! 11) + int (counters ! 12))"
proof -
  let ?tail = "concat (map (\<lambda>w. CHR '' '' # w) (map str_nat counters))"
  have out: "output = (pid @ '' ('' @ command) @ CHR '')'' # ?tail"
    by (simp add: assms(2) comp_def)
  have "c \<in> set ?tail \<Longrightarrow> c \<noteq> CHR '')''" for c
    using digit_facts(2) [of c] str_nat_digits [of c] by (auto split: if_splits)
  then have "after_last CHR '')'' output = Some ?tail"
    unfolding out by (intro after_last_found) blast
  moreover have "str_words ?tail = map str_nat counters"
    by (rule str_words_join) (auto dest!: str_nat_digits digit_facts(1))
  ultimately show ?thesis using assms(1) by (simp add: parse_proc_pid_ticks_def)
qed

theorem parse_proc_pid_ticks_any_command_witness:
  "parse_proc_pid_ticks (''7'' @ '' ('' @ ''a) b (c'' @ '')''
     @ concat (map (\<lambda>n. CHR '' '' # str_nat n) [0, 1, 2, 3, 4, 5, 6, 7, 8, 9, 10, 40, 2])) = Some 42"
  using parse_proc_pid_ticks_any_command [of "[0, 1, 2, 3, 4, 5, 6, 7, 8, 9, 10, 40, 2]" _ "''7''" "''a) b (c''", OF _ refl]
  by simp

section \<open>CPU shares\<close>

lemma fmax_fmin_bounds:
  "fle (Fin 0) (fmax (Fin 0) (fmin (Fin 100) x)) \<and> fle (fmax (Fin 0) (fmin (Fin 100) x)) (Fin 100)"
  by (cases x) (auto simp: fmax_def fmin_def)

text \<open>Whatever two readings of \<^verbatim>\<open>/proc/stat\<close> say (counters may even run backwards), a reported
  CPU share lies between 0 and 100.\<close>

theorem cpu_percent_bounded:
  assumes "cpu_percent_of previous current = Ok (Some p)"
  shows "fle (Fin 0) p \<and> fle p (Fin 100)"
  using assms fmax_fmin_bounds
  by (auto simp: cpu_percent_of_def result_simps split: option.splits if_splits)

lemma half_busy: "fmul (Fin 100) (fsub (Fin 1) (Fin 1)) = Fin 0"
  by (simp add: fsub_def)

theorem cpu_percent_bounded_witness:
  "\<exists>p. cpu_percent_of (Some (0, 0)) (Some (4, 4)) = Ok (Some p) \<and> fle p (Fin 100)"
proof -
  have "cpu_percent_of (Some (0, 0)) (Some (4, 4)) = Ok (Some (Fin 0))"
    by (simp add: cpu_percent_of_def int_div_def half_busy fmax_def fmin_def)
  from this cpu_percent_bounded [OF this] show ?thesis by blast
qed

section \<open>The resource payload\<close>

text \<open>\<open>sum\<close> of floats, left to right from the integer zero.\<close>

definition fsum :: "pyfloat list \<Rightarrow> pyfloat" where
  "fsum xs = fold (\<lambda>x acc. fadd acc x) xs (Fin 0)"

definition or_zero :: "pyfloat option \<Rightarrow> pyfloat" where
  "or_zero x = (case x of None \<Rightarrow> Fin 0 | Some f \<Rightarrow> f)"

definition vfloat :: "pyfloat option \<Rightarrow> pyval" where
  "vfloat x = (case x of None \<Rightarrow> VNone | Some f \<Rightarrow> VFloat f)"

definition vint :: "int option \<Rightarrow> pyval" where
  "vint x = (case x of None \<Rightarrow> VNone | Some i \<Rightarrow> VInt i)"

definition vstr :: "string option \<Rightarrow> pyval" where
  "vstr x = (case x of None \<Rightarrow> VNone | Some s \<Rightarrow> VStr s)"

record gpu_share =
  gs_uuid :: "string option"
  gs_memory :: pyfloat
  gs_sm :: pyfloat

text \<open>One role's rows per GPU, in the order the GPUs first appear.\<close>

definition per_gpu_step :: "proc_row \<Rightarrow> (int option \<times> gpu_share) list \<Rightarrow> (int option \<times> gpu_share) list" where
  "per_gpu_step item acc =
     (let key = pr_gpu_index item;
          g = (case map_of acc key of Some g \<Rightarrow> g
               | None \<Rightarrow> \<lparr>gs_uuid = pr_gpu_uuid item, gs_memory = Fin 0, gs_sm = Fin 0\<rparr>)
      in AList.update key
           (g\<lparr>gs_memory := fadd (gs_memory g) (or_zero (pr_memory_mib item)),
              gs_sm := fadd (gs_sm g) (or_zero (pr_sm item))\<rparr>) acc)"

definition per_gpu_of :: "int list \<Rightarrow> proc_row list \<Rightarrow> (int option \<times> gpu_share) list" where
  "per_gpu_of pids samples = fold per_gpu_step (filter (\<lambda>i. pr_pid i \<in> set pids) samples) []"

text \<open>Sorted by index, the rows without one last.\<close>

definition sorted_shares :: "(int option \<times> gpu_share) list \<Rightarrow> (int option \<times> gpu_share) list" where
  "sorted_shares rows =
     sort_key (\<lambda>r. the (fst r)) (filter (\<lambda>r. fst r \<noteq> None) rows) @ filter (\<lambda>r. fst r = None) rows"

definition gpu_share_value :: "int option \<times> gpu_share \<Rightarrow> pyval" where
  "gpu_share_value r =
     VDict [(''gpu_index'', vint (fst r)), (''gpu_uuid'', vstr (gs_uuid (snd r))),
       (''gpu_memory_mib'', VFloat (gs_memory (snd r))), (''sm_util_percent'', VFloat (gs_sm (snd r)))]"

definition role_usage_of :: "host_sample \<Rightarrow> string \<Rightarrow> role_usage option" where
  "role_usage_of host role = map_of (h_processes host) role"

definition process_value ::
  "(int \<Rightarrow> bool) \<Rightarrow> targets \<Rightarrow> host_sample \<Rightarrow> proc_row list \<Rightarrow> string \<Rightarrow> pydict" where
  "process_value alive ts host samples role =
     (let pids = sort (role_pids ts role); rows = sorted_shares (per_gpu_of pids samples)
      in [(''running'', VBool (list_ex alive pids)), (''gpu_resident'', VBool (rows \<noteq> [])),
          (''pids'', VList (map VInt pids)), (''gpu_count'', VInt (int (length rows))),
          (''gpu_memory_mib'', VFloat (fsum (map (gs_memory \<circ> snd) rows))),
          (''sm_util_percent'', VFloat (fsum (map (gs_sm \<circ> snd) rows)))]
         @ (case role_usage_of host role of None \<Rightarrow> []
            | Some u \<Rightarrow> [(''cpu_util_percent'', vfloat (cpu_util u)), (''ram_rss_mib'', vfloat (ram_rss u))])
         @ [(''gpus'', VList (map gpu_share_value rows))])"

type_synonym pcie_samples = "(int \<times> pyfloat option \<times> pyfloat option) list"

definition inventory_value :: "pcie_samples \<Rightarrow> (int \<times> int) list \<Rightarrow> gpu_row \<Rightarrow> pyval" where
  "inventory_value pcie sm_counts g =
     (let traffic = (case map_of pcie (gr_index g) of None \<Rightarrow> (None, None) | Some p \<Rightarrow> p)
      in VDict [(''gpu_index'', VInt (gr_index g)), (''name'', VStr (gr_name g)),
        (''gpu_uuid'', VStr (gr_uuid g)), (''memory_total_mib'', VFloat (gr_total_mib g)),
        (''memory_used_mib'', VFloat (gr_used_mib g)), (''pcie_gen'', vint (gr_pcie_gen g)),
        (''pcie_width'', vint (gr_pcie_width g)), (''gpu_util_percent'', vfloat (gr_util g)),
        (''sm_count'', vint (map_of sm_counts (gr_index g))),
        (''h2d_mb_s'', vfloat (fst traffic)), (''d2h_mb_s'', vfloat (snd traffic))])"

definition pcie_total :: "(pyfloat option \<times> pyfloat option \<Rightarrow> pyfloat option) \<Rightarrow> pcie_samples \<Rightarrow> pyval" where
  "pcie_total key pcie =
     (let values = List.map_filter (\<lambda>(_, p). key p) pcie
      in if values = [] then VNone else VFloat (fsum values))"

definition busy_cores :: "host_sample \<Rightarrow> pyfloat option result" where
  "busy_cores host =
     (case h_cpu_percent host of
        None \<Rightarrow> Ok None
      | Some percent \<Rightarrow>
          if logical_threads (h_hardware host) = 0 then Ok None
          else bindR (float_of_int (int (logical_threads (h_hardware host)))) (\<lambda>threads.
               bindR (fdiv (fmul percent threads) (Fin 100)) (\<lambda>b. Ok (Some b))))"

definition tracked_cores :: "host_sample \<Rightarrow> pyfloat result" where
  "tracked_cores host =
     bindR (mapR (\<lambda>role. fdiv (or_zero (Option.bind (role_usage_of host role) cpu_util)) (Fin 100))
              resource_roles) (\<lambda>xs. Ok (fsum xs))"

definition active_gpus :: "targets \<Rightarrow> proc_row list \<Rightarrow> int list" where
  "active_gpus ts samples =
     remdups (List.map_filter pr_gpu_index
       (filter (\<lambda>i. list_ex (\<lambda>(_, pids). pr_pid i \<in> set pids) ts) samples))"

definition join_messages :: "string list \<Rightarrow> pyval" where
  "join_messages ms =
     (case rev (remdups (rev ms)) of
        [] \<Rightarrow> VNone
      | m # rest \<Rightarrow> VStr (m @ concat (map (\<lambda>x. ''; '' @ x) rest)))"

definition system_value :: "host_sample \<Rightarrow> pyfloat option \<Rightarrow> pyfloat \<Rightarrow> pyval" where
  "system_value host busy tracked =
     VDict [(''cpu_util_percent'', vfloat (h_cpu_percent host)),
       (''logical_threads'', VInt (int (logical_threads (h_hardware host)))),
       (''total_mib'', vfloat (total_mib (h_memory host))),
       (''available_mib'', vfloat (available_mib (h_memory host))),
       (''used_mib'', vfloat (used_mib (h_memory host))),
       (''busy_cpu_cores'', vfloat busy),
       (''other_os_cpu_cores'', vfloat (map_option (\<lambda>b. fmax (Fin 0) (fsub b tracked)) busy))]"

text \<open>\<open>backend\<close>, the two intervals in milliseconds and the wall clock are arguments; \<open>alive\<close> is
  \<open>process_is_alive\<close>.\<close>

definition build_resource_payload ::
  "(int \<Rightarrow> bool) \<Rightarrow> int \<Rightarrow> string \<Rightarrow> int \<Rightarrow> int \<Rightarrow> (int \<times> int) list \<Rightarrow> targets \<Rightarrow> host_sample
     \<Rightarrow> proc_row list \<Rightarrow> gpu_row list \<Rightarrow> pcie_samples \<Rightarrow> string list \<Rightarrow> string list \<Rightarrow> pydict result" where
  "build_resource_payload alive unix_ms backend target_ms hardware_ms sm_counts ts host samples
     inventory pcie errors warnings =
     bindR (busy_cores host) (\<lambda>busy. bindR (tracked_cores host) (\<lambda>tracked.
       let processes = map (\<lambda>role. (role, process_value alive ts host samples role)) resource_roles;
           active = active_gpus ts samples;
           device = List.map_filter gr_util (filter (\<lambda>g. gr_index g \<in> set active) inventory);
           total_gpu = (if device = [] then None else Some (fsum device));
           tracked_gpu = fsum (map (\<lambda>role. fsum (map (gs_sm \<circ> snd)
             (sorted_shares (per_gpu_of (sort (role_pids ts role)) samples)))) [''sionna'', ''gpu_channel''])
       in Ok [(''sampled_unix_ms'', VInt unix_ms), (''available'', VBool (errors = [])),
              (''error'', join_messages errors), (''warning'', join_messages warnings),
              (''sampling'', VDict [(''backend'', VStr backend), (''target_interval_ms'', VInt target_ms),
                 (''hardware_interval_ms'', VInt hardware_ms)]),
              (''hardware'', VDict [(''cpu'', VDict
                 [(''model'', vstr (cpu_model (h_hardware host))),
                  (''physical_cores'', VInt (int (physical_cores (h_hardware host)))),
                  (''logical_threads'', VInt (int (logical_threads (h_hardware host)))),
                  (''ram_total_mib'', vfloat (total_mib (h_memory host)))]),
                 (''gpus'', VList (map (inventory_value pcie sm_counts) inventory))]),
              (''system'', system_value host busy tracked),
              (''gpu_compute'', VDict [(''active_gpu_count'', VInt (int (length active))),
                 (''total_sm_util_percent'', vfloat total_gpu),
                 (''other_sm_util_percent'',
                    vfloat (map_option (\<lambda>t. fmax (Fin 0) (fsub t tracked_gpu)) total_gpu))]),
              (''pcie'', VDict [(''h2d_mb_s'', pcie_total fst pcie), (''d2h_mb_s'', pcie_total snd pcie)]),
              (''processes'', VDict (map (\<lambda>(r, d). (r, VDict d)) processes))]))"

text \<open>The process entry of every role has the shape \<open>update_gpu_usage\<close> reads, and the system part
  never reports negative cores.\<close>

lemma fmax_zero_nonneg: "fle (Fin 0) (fmax (Fin 0) x)"
  by (cases x) (auto simp: fmax_def)

end
