(* ===== verification/Feeds.thy ===== *)
theory Feeds
  imports StatusStore WebSocket ProcParse
begin

text \<open>
  The threads that fill the dashboard's store and the handler that reads it
  (\<^verbatim>\<open>apps/dashboard/server.py\<close>): the tail of the bridge's JSONL file, the drain of the telemetry
  socket, the reconnecting gNB metrics reader, the parsing of the named metrics sources and the
  GET routes. The file system, the sockets and the clocks are arguments. The theorems: lines that
  are complete when polled are delivered once each and in order, a line seen half written is lost,
  every reconnection wait is between one and thirty seconds, and nothing outside the vendor
  directory is ever served.
\<close>

section \<open>The JSONL tail\<close>

text \<open>The lines a text file object yields, without their line feeds.\<close>

fun text_lines_acc :: "string \<Rightarrow> string \<Rightarrow> string list" where
  "text_lines_acc w [] = (if w = [] then [] else [rev w])"
| "text_lines_acc w (c # cs) =
     (if c = CHR 0x0A then rev w # text_lines_acc [] cs else text_lines_acc (c # w) cs)"

definition text_lines :: "string \<Rightarrow> string list" where
  "text_lines = text_lines_acc []"

record tail =
  tl_initial_bytes :: nat
  tl_offset :: "nat option"

definition INITIAL_JSONL_TAIL_BYTES :: nat where
  "INITIAL_JSONL_TAIL_BYTES = 4 * 1024 * 1024"

definition new_tail :: "int \<Rightarrow> tail" where
  "new_tail initial = \<lparr>tl_initial_bytes = nat (max 1 initial), tl_offset = None\<rparr>"

text \<open>Where a poll starts to read a file of the given size, and whether it is the first read.\<close>

definition poll_start :: "tail \<Rightarrow> nat \<Rightarrow> nat" where
  "poll_start t len =
     (case tl_offset t of
        None \<Rightarrow> len - tl_initial_bytes t
      | Some off \<Rightarrow> if len < off then 0 else off)"

definition poll_lines :: "tail \<Rightarrow> string \<Rightarrow> string list" where
  "poll_lines t content =
     (let start = poll_start t (length content); lines = text_lines (drop start content)
      in if tl_offset t = None \<and> 0 < start then drop 1 lines else lines)"

text \<open>The payloads of the lines that are JSON objects; \<open>loads\<close> is \<open>json.loads\<close>, \<open>None\<close> its error.\<close>

definition line_payloads :: "(string \<Rightarrow> pyval option) \<Rightarrow> string list \<Rightarrow> pydict list" where
  "line_payloads loads lines =
     List.map_filter (\<lambda>l. case loads l of Some (VDict d) \<Rightarrow> Some d | _ \<Rightarrow> None) lines"

type_synonym clocks = "nat \<Rightarrow> pyfloat \<times> int"

fun feed_sionna :: "clocks \<Rightarrow> nat \<Rightarrow> pydict list \<Rightarrow> store \<Rightarrow> left" where
  "feed_sionna clk n [] s = (s, None)"
| "feed_sionna clk n (d # ds) s =
     (case update_sionna d (fst (clk n)) (snd (clk n)) s of
        (s', Some e) \<Rightarrow> (s', Some e)
      | (s', None) \<Rightarrow> feed_sionna clk (Suc n) ds s')"

text \<open>\<open>file\<close> is the content of the file, \<open>None\<close> when it does not exist. An exception of
  \<open>update_sionna\<close> leaves before the offset moves.\<close>

definition poll_once ::
  "(string \<Rightarrow> pyval option) \<Rightarrow> clocks \<Rightarrow> string option \<Rightarrow> tail \<Rightarrow> store \<Rightarrow> tail \<times> left" where
  "poll_once loads clk file t s =
     (case file of
        None \<Rightarrow> (t, s, None)
      | Some content \<Rightarrow>
          (case feed_sionna clk 0 (line_payloads loads (poll_lines t content)) s of
             (s', None) \<Rightarrow> (t\<lparr>tl_offset := Some (length content)\<rparr>, s', None)
           | (s', Some e) \<Rightarrow>
               (t\<lparr>tl_offset := Some (poll_start t (length content))\<rparr>, s', Some e)))"

text \<open>What a sequence of polls reads while the file grows: the contents are the file's at each poll.\<close>

fun polled :: "string list \<Rightarrow> tail \<Rightarrow> string list" where
  "polled [] t = []"
| "polled (c # cs) t = poll_lines t c @ polled cs (t\<lparr>tl_offset := Some (length c)\<rparr>)"

text \<open>A chunk of complete lines, and the file after each of several appends.\<close>

definition complete :: "string \<Rightarrow> bool" where
  "complete d \<longleftrightarrow> d = [] \<or> last d = CHR 0x0A"

fun grown :: "string \<Rightarrow> string list \<Rightarrow> string list" where
  "grown base [] = []"
| "grown base (d # ds) = (base @ d) # grown (base @ d) ds"

lemma text_lines_acc_complete:
  "text_lines_acc w (a @ [CHR 0x0A] @ b) = text_lines_acc w (a @ [CHR 0x0A]) @ text_lines b"
  by (induction a arbitrary: w) (auto simp: text_lines_def)

lemma text_lines_append: "complete a \<Longrightarrow> text_lines (a @ b) = text_lines a @ text_lines b"
proof (cases a rule: rev_cases)
  case Nil
  then show ?thesis by (simp add: text_lines_def)
next
  case (snoc ys y)
  assume "complete a"
  with snoc have "a = ys @ [CHR 0x0A]" by (simp add: complete_def)
  then show ?thesis using text_lines_acc_complete [of "[]" ys b] by (simp add: text_lines_def)
qed

text \<open>While the file only grows and every poll sees complete lines, the polls together deliver
  every line appended since the tail's position exactly once and in order, however the appends are
  grouped into polls.\<close>

theorem polls_deliver_each_line_once:
  assumes "tl_offset t = Some (length base)" and "list_all complete appended"
  shows "polled (grown base appended) t = text_lines (concat appended)"
  using assms
proof (induction appended arbitrary: base t)
  case Nil
  then show ?case by (simp add: text_lines_def)
next
  case (Cons d ds)
  have "poll_lines t (base @ d) = text_lines d"
    using Cons.prems(1) by (simp add: poll_lines_def poll_start_def)
  moreover have "polled (grown (base @ d) ds) (t\<lparr>tl_offset := Some (length (base @ d))\<rparr>)
      = text_lines (concat ds)"
    by (rule Cons.IH) (use Cons.prems in auto)
  ultimately show ?case using Cons.prems(2) text_lines_append [of d "concat ds"] by simp
qed

text \<open>A record that a poll sees half written is lost for good: the first half and, at the next
  poll, the second half are parsed on their own, and when neither is a JSON object nothing is
  delivered, although the whole line is one.\<close>

theorem torn_record_lost:
  assumes "tl_offset t = Some (length base)" and "CHR 0x0A \<notin> set (h @ r)" and "h \<noteq> []" and "r \<noteq> []"
    and "loads h = None" and "loads r = None" and "loads (h @ r) = Some (VDict d)"
  shows "line_payloads loads (polled (grown base [h, r @ [CHR 0x0A]]) t) = []
    \<and> line_payloads loads (polled (grown base [h @ r @ [CHR 0x0A]]) t) = [d]"
proof -
  have one: "text_lines_acc w x = [rev w @ x]" if "CHR 0x0A \<notin> set x" "x \<noteq> []" for w x
    using that by (induction x arbitrary: w) (auto split: if_splits, case_tac x, auto)
  have nl: "text_lines_acc w (x @ [CHR 0x0A]) = [rev w @ x]" if "CHR 0x0A \<notin> set x" for w x
    using that by (induction x arbitrary: w) auto
  have "polled (grown base [h, r @ [CHR 0x0A]]) t = [h, r]"
    using assms(1-4) one [of h "[]"] nl [of r "[]"]
    by (simp add: poll_lines_def poll_start_def text_lines_def)
  moreover have "polled (grown base [h @ r @ [CHR 0x0A]]) t = [h @ r]"
    using assms(1,2) nl [of "h @ r" "[]"] by (simp add: poll_lines_def poll_start_def text_lines_def)
  ultimately show ?thesis using assms(5-7) by (simp add: line_payloads_def map_filter_def)
qed

section \<open>The telemetry drain\<close>

text \<open>The frames of the inner loop until the socket has none left.\<close>

fun drain_frames ::
  "(string \<Rightarrow> pyval option) \<Rightarrow> clocks \<Rightarrow> nat \<Rightarrow> string list \<Rightarrow> store \<Rightarrow> left" where
  "drain_frames loads clk n [] s = (s, None)"
| "drain_frames loads clk n (frame # frames) s =
     (case parse_telemetry_frame loads frame of
        Inl e \<Rightarrow> drain_frames loads clk (Suc n) frames (note_bad_telemetry s)
      | Inr (topic, payload) \<Rightarrow>
          (case update_telemetry topic payload (fst (clk n)) (snd (clk n)) s of
             (s', Some e) \<Rightarrow> (s', Some e)
           | (s', None) \<Rightarrow> drain_frames loads clk (Suc n) frames s'))"

section \<open>The gNB metrics reader\<close>

definition caught :: "py_error \<Rightarrow> string option" where
  "caught e = (case e of WebSocketError m \<Rightarrow> Some m | ValueError m \<Rightarrow> Some m | TimeoutError \<Rightarrow> Some ''timed out''
     | OSError \<Rightarrow> Some ''OSError'' | _ \<Rightarrow> None)"

datatype session_end = Closed | Failed py_error | Waiting

text \<open>The loop over one connection's messages.\<close>

function read_feed ::
  "env \<Rightarrow> (string \<Rightarrow> pyval option) \<Rightarrow> clocks \<Rightarrow> nat \<Rightarrow> string \<Rightarrow> ws \<Rightarrow> store \<Rightarrow> store \<times> session_end" where
  "read_feed env loads clk n gnb_id w s =
     (if stop_set (env (ticks w)) then (s, Closed)
      else case recv_message env w of
             None \<Rightarrow> (s, Waiting)
           | Some (Inl e) \<Rightarrow> (s, Failed e)
           | Some (Inr (None, w')) \<Rightarrow> (s, Closed)
           | Some (Inr (Some message, w')) \<Rightarrow>
               read_feed env loads clk (Suc n) gnb_id w'
                 (case loads message of
                    Some (VDict d) \<Rightarrow> update_gnb_metrics (VDict d) gnb_id (fst (clk n)) (snd (clk n)) s
                  | _ \<Rightarrow> s))"
  by pat_completeness auto

lemma recv_loop_shrinks:
  "recv_loop env mop chunks s = Some (Inr (r, s')) \<Longrightarrow> length (pending s') < length (pending s)"
proof (induction env mop chunks s rule: recv_loop.induct)
  case (1 env mop chunks s)
  from 1(2) obtain f s1 where f: "recv_frame env s = Some (Inr (f, s1))"
    and h: "(case handle_frame env f mop chunks s1 of
       Again mop chunks' s'' \<Rightarrow> recv_loop env mop chunks' s''
     | Give text s'' \<Rightarrow> Some (Ok (text, s'')) | Throw e \<Rightarrow> Some (Err e)) = Some (Inr (r, s'))"
    by (subst (asm) recv_loop.simps [of env mop chunks s]) (auto simp: result_simps)
  note lt = recv_frame_shrinks [OF f]
  show ?case
  proof (cases "handle_frame env f mop chunks s1")
    case (Again mop' chunks' s2)
    with h 1(1) [OF f refl Again] handle_frame_keeps [OF Again] lt show ?thesis by simp
  next
    case (Give x s2)
    then have "s2 = s1" by (auto simp: handle_frame_def Let_def split: if_splits option.splits)
    with h Give lt show ?thesis by simp
  next
    case (Throw e)
    with h show ?thesis by simp
  qed
qed

termination read_feed
  by (relation "measure (\<lambda>(_, _, _, _, _, w, _). length (pending w))")
    (auto simp: recv_message_def dest: recv_loop_shrinks)

declare read_feed.simps [simp del]

text \<open>One attempt: the connection either fails or gives a subscribed client.\<close>

type_synonym attempt = "ws result"

definition GNB_METRICS_SUBSCRIBE :: string where
  "GNB_METRICS_SUBSCRIBE = ''{\"cmd\":\"metrics_subscribe\"}''"

text \<open>The body of the outer loop: the store it leaves, the back-off it leaves, and an exception that
  ends the thread.\<close>

definition metrics_session ::
  "env \<Rightarrow> (string \<Rightarrow> pyval option) \<Rightarrow> clocks \<Rightarrow> string \<Rightarrow> attempt \<Rightarrow> pyfloat \<Rightarrow> store
     \<Rightarrow> store \<times> pyfloat \<times> session_end" where
  "metrics_session env loads clk gnb_id attempt backoff s =
     (let s = set_gnb_metrics_state ''connecting'' None gnb_id s;
          (s, backoff, outcome) =
            (case attempt of
               Inl e \<Rightarrow> (s, backoff, Failed e)
             | Inr w \<Rightarrow>
                 (case send_text env GNB_METRICS_SUBSCRIBE w of
                    Inl e \<Rightarrow> (s, backoff, Failed e)
                  | Inr w \<Rightarrow>
                      (let w = monitor_connection env (Fin 5) (Fin 10) w;
                           s = set_gnb_metrics_state ''subscribed'' None gnb_id s;
                           (s, outcome) = read_feed env loads clk 0 gnb_id w s
                       in (s, Fin 1, outcome))))
      in case outcome of
           Closed \<Rightarrow> (set_gnb_metrics_state ''disconnected'' (Some ''gNB closed the feed'') gnb_id s,
                      backoff, Closed)
         | Failed e \<Rightarrow> (case caught e of
               Some m \<Rightarrow> (set_gnb_metrics_state ''disconnected'' (Some m) gnb_id s, backoff, Closed)
             | None \<Rightarrow> (s, backoff, Failed e))
         | Waiting \<Rightarrow> (s, backoff, Waiting))"

text \<open>The outer loop over the attempts that are made: the store and the waits between them.\<close>

fun gnb_metrics_loop ::
  "env \<Rightarrow> (string \<Rightarrow> pyval option) \<Rightarrow> clocks \<Rightarrow> string \<Rightarrow> attempt list \<Rightarrow> pyfloat \<Rightarrow> store
     \<Rightarrow> store \<times> pyfloat list" where
  "gnb_metrics_loop env loads clk gnb_id [] backoff s = (s, [])"
| "gnb_metrics_loop env loads clk gnb_id (a # as) backoff s =
     (case metrics_session env loads clk gnb_id a backoff s of
        (s, backoff, Closed) \<Rightarrow>
          (case gnb_metrics_loop env loads clk gnb_id as (fmin (fmul backoff (Fin 2)) (Fin 30)) s of
             (s, waits) \<Rightarrow> (s, backoff # waits))
      | (s, _, _) \<Rightarrow> (s, []))"

definition back_off :: "pyfloat \<Rightarrow> bool" where
  "back_off x \<longleftrightarrow> x \<in> {Fin 1, Fin 2, Fin 4, Fin 8, Fin 16, Fin 30}"

lemma back_off_next: "back_off x \<Longrightarrow> back_off (fmin (fmul x (Fin 2)) (Fin 30))"
  by (auto simp: back_off_def fmin_def float_eval)

lemma metrics_session_backoff:
  "back_off b \<Longrightarrow> metrics_session env loads clk g a b s = (s', b', out) \<Longrightarrow> back_off b'"
  by (auto simp: metrics_session_def Let_def back_off_def split: sum.splits session_end.splits
      prod.splits option.splits)

text \<open>Whatever happens to the connections, every wait before the next attempt is 1, 2, 4, 8, 16 or 30
  seconds: the reader neither spins nor backs off without bound.\<close>

theorem metrics_waits_bounded:
  "w \<in> set (snd (gnb_metrics_loop env loads clk gnb_id attempts (Fin 1) s)) \<Longrightarrow>
     w \<in> {Fin 1, Fin 2, Fin 4, Fin 8, Fin 16, Fin 30}"
proof -
  have "back_off b \<Longrightarrow> w \<in> set (snd (gnb_metrics_loop env loads clk gnb_id attempts b s)) \<Longrightarrow> back_off w"
    for b
  proof (induction attempts arbitrary: b s)
    case Nil
    then show ?case by simp
  next
    case (Cons a as)
    obtain s' b' out where m: "metrics_session env loads clk gnb_id a b s = (s', b', out)"
      by (metis prod_cases3)
    have b': "back_off b'" using metrics_session_backoff [OF Cons.prems(1) m] .
    from Cons.prems(2) m Cons.IH [OF back_off_next [OF b'], of s'] b' show ?case
      by (auto split: session_end.splits prod.splits)
  qed
  then show "w \<in> set (snd (gnb_metrics_loop env loads clk gnb_id attempts (Fin 1) s)) \<Longrightarrow>
     w \<in> {Fin 1, Fin 2, Fin 4, Fin 8, Fin 16, Fin 30}"
    unfolding back_off_def by blast
qed

section \<open>Named metrics sources\<close>

text \<open>The checks of \<open>parse_args\<close>; \<open>endpoint_ok\<close> says whether \<open>parse_ws_endpoint\<close> accepts an endpoint.
  \<open>parser.error\<close> exits.\<close>

fun add_sources :: "string list \<Rightarrow> (string \<times> string) list \<Rightarrow> (string \<times> string) list result" where
  "add_sources [] acc = Ok acc"
| "add_sources (source # rest) acc =
     (case str_partition CHR ''='' source of (gnb_id, found, endpoint) \<Rightarrow>
        if \<not> found \<or> str_strip gnb_id = [] \<or> str_strip endpoint = []
        then Err (SystemExit ''gnb-metrics-source requires ID=URL'')
        else if map_of acc gnb_id \<noteq> None then Err (SystemExit ''duplicate gNB metrics ID'')
        else add_sources rest (AList.update gnb_id endpoint acc))"

definition metrics_sources ::
  "(string \<Rightarrow> bool) \<Rightarrow> string \<Rightarrow> string list \<Rightarrow> (string \<times> string) list result" where
  "metrics_sources endpoint_ok endpoint sources =
     (if endpoint \<noteq> [] \<and> sources \<noteq> []
      then Err (SystemExit ''use either --gnb-metrics-endpoint or --gnb-metrics-source'')
      else bindR (add_sources sources (if endpoint \<noteq> [] then [(''gnb0'', endpoint)] else [])) (\<lambda>acc.
        if list_all (\<lambda>(_, e). endpoint_ok e) acc then Ok acc
        else Err (SystemExit ''gNB metrics endpoint'')))"

definition parse_args_checks :: "int \<Rightarrow> pyfloat \<Rightarrow> unit result" where
  "parse_args_checks port interval =
     bindR (checkR (1 \<le> port \<and> port \<le> 65535) (SystemExit ''port must be in [1, 65535]'')) (\<lambda>_.
       checkR (\<not> fle interval (Fin 0)) (SystemExit ''resource-interval-ms must be positive''))"

section \<open>Requests\<close>

definition hex_val :: "char \<Rightarrow> nat option" where
  "hex_val c =
     (let n = of_char c :: nat
      in if 48 \<le> n \<and> n \<le> 57 then Some (n - 48)
         else if 65 \<le> n \<and> n \<le> 70 then Some (n - 55)
         else if 97 \<le> n \<and> n \<le> 102 then Some (n - 87) else None)"

text \<open>\<open>unquote\<close> of a form value: plus signs are spaces, two hexadecimal digits after a percent sign are a
  byte, anything else stays.\<close>

fun unquote :: "string \<Rightarrow> string" where
  "unquote (c # a # b # cs) =
     (if c = CHR ''%'' then
        (case (hex_val a, hex_val b) of
           (Some x, Some y) \<Rightarrow> char_of (16 * x + y) # unquote cs
         | _ \<Rightarrow> c # unquote (a # b # cs))
      else (if c = CHR ''+'' then CHR '' '' else c) # unquote (a # b # cs))"
| "unquote (c # cs) = (if c = CHR ''+'' then CHR '' '' else c) # unquote cs"
| "unquote [] = []"

text \<open>\<open>parse_qs(query).get(name)\<close>: the values of a parameter; blank values are dropped.\<close>

definition query_values :: "string \<Rightarrow> string \<Rightarrow> string list" where
  "query_values name query =
     List.map_filter (\<lambda>part. case str_partition CHR ''='' part of (k, found, v) \<Rightarrow>
         if found \<and> v \<noteq> [] \<and> unquote k = name then Some (unquote v) else None)
       (str_split CHR ''&'' query)"

definition DEFAULT_HISTORY_WINDOW_MS :: int where
  "DEFAULT_HISTORY_WINDOW_MS = 1000"

definition history_window_ms :: "string \<Rightarrow> int option" where
  "history_window_ms query =
     (case query_values ''history_ms'' query of
        [] \<Rightarrow> None
      | v # _ \<Rightarrow>
          (case parse_int v of
             None \<Rightarrow> Some DEFAULT_HISTORY_WINDOW_MS
           | Some n \<Rightarrow> Some (if 0 \<le> n then n else DEFAULT_HISTORY_WINDOW_MS)))"

text \<open>\<open>(base / name).resolve()\<close> on a tree without symbolic links: an absolute name replaces the base,
  empty and dot components vanish, two dots go up.\<close>

definition resolve_step :: "string \<Rightarrow> string list \<Rightarrow> string list" where
  "resolve_step part acc =
     (if part = [] \<or> part = ''.'' then acc else if part = ''..'' then butlast acc else acc @ [part])"

definition resolve_path :: "string list \<Rightarrow> string \<Rightarrow> string list" where
  "resolve_path base name =
     fold resolve_step (str_split CHR ''/'' name) (if take 1 name = ''/'' then [] else base)"

text \<open>\<open>PurePath.suffix\<close> of the last component.\<close>

definition path_suffix :: "string list \<Rightarrow> string" where
  "path_suffix comps =
     (case comps of [] \<Rightarrow> []
      | _ \<Rightarrow>
        (case str_rpartition CHR ''.'' (last comps) of (h, found, t) \<Rightarrow>
           if found \<and> h \<noteq> [] \<and> t \<noteq> [] then CHR ''.'' # t else []))"

definition vendor_content_type :: "string \<Rightarrow> string option" where
  "vendor_content_type ext =
     (if ext = ''.js'' then Some ''text/javascript; charset=utf-8''
      else if ext = ''.css'' then Some ''text/css; charset=utf-8'' else None)"

datatype page =
    IndexPage
  | RealtimeDoc "realtime result"
  | SceneMesh
  | NoSceneMesh
  | VendorFile "string list" string
  | StatusDoc web_status
  | HealthDoc web_status
  | NotFound

text \<open>The routes. \<open>vendor\<close> is the resolved vendor directory, \<open>is_file\<close> the file system's answer,
  \<open>has_mesh\<close> whether the scene mesh exists; documents are what \<open>json.dumps\<close> is given.\<close>

definition do_GET ::
  "string list \<Rightarrow> (string list \<Rightarrow> bool) \<Rightarrow> bool \<Rightarrow> (pyval \<Rightarrow> bool) \<Rightarrow> pyfloat \<Rightarrow> store \<Rightarrow> string \<Rightarrow> page" where
  "do_GET vendor is_file has_mesh alive clock s request =
     (case str_partition CHR ''?'' request of (path, _, query) \<Rightarrow>
        if path = ''/'' \<or> path = ''/index.html'' then IndexPage
        else if path = ''/api/realtime'' then
          RealtimeDoc (realtime_snapshot
            (Some (case history_window_ms query of None \<Rightarrow> DEFAULT_HISTORY_WINDOW_MS | Some w \<Rightarrow> w)) s)
        else if path = ''/api/scene_mesh'' then (if has_mesh then SceneMesh else NoSceneMesh)
        else if str_startswith ''/vendor/'' path then
          (let candidate = resolve_path vendor (drop (length ''/vendor/'') path)
           in case vendor_content_type (path_suffix candidate) of
                None \<Rightarrow> NotFound
              | Some content_type \<Rightarrow>
                  if \<not> strict_prefix vendor candidate \<or> \<not> is_file candidate then NotFound
                  else VendorFile candidate content_type)
        else if path = ''/api/status'' then StatusDoc (snapshot alive (history_window_ms query) clock s)
        else if path = ''/healthz'' then HealthDoc (snapshot alive (Some 0) clock s)
        else NotFound)"

lemma resolve_clean:
  "''..'' \<notin> set acc \<Longrightarrow> ''..'' \<notin> set (fold resolve_step comps acc)"
  by (induction comps arbitrary: acc) (auto simp: resolve_step_def dest: in_set_butlastD)

text \<open>No request path, whatever dots, empty components or absolute names it contains, is answered
  with a file outside the vendor directory, and only existing scripts and style sheets are served
  from it.\<close>

theorem vendor_requests_confined:
  assumes "do_GET vendor is_file has_mesh alive clock s request = VendorFile candidate content_type"
    and "''..'' \<notin> set vendor"
  shows "strict_prefix vendor candidate \<and> ''..'' \<notin> set candidate \<and> is_file candidate
    \<and> path_suffix candidate \<in> {''.js'', ''.css''}"
proof -
  obtain path q query where p: "str_partition CHR ''?'' request = (path, q, query)" by (metis prod_cases3)
  from assms(1) have "candidate = resolve_path vendor (drop (length ''/vendor/'') path)"
    and "vendor_content_type (path_suffix candidate) = Some content_type"
    and c: "strict_prefix vendor candidate" "is_file candidate"
    unfolding do_GET_def p Let_def prod.case by (auto split: if_splits option.splits)
  then show ?thesis using assms(2) resolve_clean
    by (auto simp: resolve_path_def vendor_content_type_def split: if_splits)
qed

section \<open>Witnesses\<close>

theorem polls_deliver_each_line_once_witness:
  "polled (grown ''x'' [''a'' @ [CHR 0x0A], ''b'' @ [CHR 0x0A]]) \<lparr>tl_initial_bytes = 9, tl_offset = Some 1\<rparr>
     = [''a'', ''b'']"
  by (subst polls_deliver_each_line_once) (simp_all add: complete_def text_lines_def)

definition half_loads :: "string \<Rightarrow> pyval option" where
  "half_loads s = (if s = ''{}'' then Some (VDict []) else None)"

theorem torn_record_lost_witness:
  "line_payloads half_loads (polled (grown [] [''{'', ''}'' @ [CHR 0x0A]])
     \<lparr>tl_initial_bytes = 9, tl_offset = Some 0\<rparr>) = []"
  using torn_record_lost [of "\<lparr>tl_initial_bytes = 9, tl_offset = Some 0\<rparr>" "[]" "''{''" "''}''" half_loads "[]"]
  by (simp add: half_loads_def)

theorem metrics_waits_bounded_witness:
  "Fin 1 \<in> {Fin 1, Fin 2, Fin 4, Fin 8, Fin 16, Fin 30}"
  by (rule metrics_waits_bounded [of _ calm_env "\<lambda>_. None" "\<lambda>_. (Fin 0, 0)" "''g''" "[Inl OSError]" "new_store (Fin 0)"])
    (simp add: metrics_session_def Let_def caught_def)

theorem vendor_requests_confined_witness:
  "strict_prefix [''srv'', ''vendor''] [''srv'', ''vendor'', ''a.js'']"
proof -
  have "do_GET [''srv'', ''vendor''] (\<lambda>_. True) False (\<lambda>_. True) (Fin 0) (new_store (Fin 0))
      ''/vendor/x/../a.js'' = VendorFile [''srv'', ''vendor'', ''a.js''] ''text/javascript; charset=utf-8''"
    by (simp add: do_GET_def str_startswith_def resolve_path_def resolve_step_def path_suffix_def
        str_rpartition_def vendor_content_type_def Let_def strict_prefix_def)
  from vendor_requests_confined [OF this] show ?thesis by simp
qed

end
