(* ===== verification/FloatWire.thy ===== *)
theory FloatWire
  imports PyValue Bytes
begin

text \<open>
  The field codes of Python's \<open>struct\<close> module in little-endian order: unsigned integers, which
  raise outside their range, and IEEE floats in their binary32 and binary64 encodings. A float is
  rounded to the format first; a finite float beyond the binary32 range raises. Decoding an
  encoding gives the rounded float back.
\<close>

section \<open>Rounding leaves numbers of the format\<close>

lemma rhe_minus: "rhe (- x) = - rhe x"
proof -
  have d: "x = of_int n + d \<Longrightarrow> 0 \<le> d \<Longrightarrow> d < 1 \<Longrightarrow> \<lfloor>x\<rfloor> = n" for x d :: rat and n by linarith
  show ?thesis
  proof (cases "x = of_int \<lfloor>x\<rfloor>")
    case True
    then show ?thesis by (metis of_int_minus rhe_of_int)
  next
    case False
    then have "\<lfloor>- x\<rfloor> = - \<lfloor>x\<rfloor> - 1" by linarith
    then show ?thesis by (auto simp: rhe_def Let_def)
  qed
qed

lemma quant_form:
  assumes "r \<noteq> 0" and "0 \<le> mb"
  shows "\<exists>n u. quant mb emin r = of_int n * pow2 u \<and> \<bar>n\<bar> < 2 ^ nat (mb + 1) \<and> emin \<le> u"
proof -
  define u where "u = ulp_exp mb emin r"
  define n where "n = rhe (r / pow2 u)"
  define B :: int where "B = 2 ^ nat (mb + 1)"
  have q: "quant mb emin r = of_int n * pow2 u" using assms(1) by (simp add: quant_def u_def n_def)
  have "\<bar>r\<bar> < pow2 (ilog2 \<bar>r\<bar> + 1)" using ilog2_bounds [of "\<bar>r\<bar>"] assms(1) by simp
  also have "\<dots> \<le> pow2 (mb + 1 + u)" by (rule pow2_mono) (simp add: u_def ulp_exp_def)
  finally have "\<bar>r\<bar> < of_int B * pow2 u" using assms(2) by (simp add: pow2_add B_def nat_add_distrib)
  then have "\<bar>r / pow2 u\<bar> \<le> of_int B" by (simp add: abs_divide divide_le_eq abs_of_pos)
  then have "r / pow2 u \<le> of_int B" and "- of_int B \<le> r / pow2 u" by linarith+
  then have "n \<le> B" and "- B \<le> n"
    using rhe_mono [of "r / pow2 u" "of_int B"] rhe_mono [of "of_int (- B)" "r / pow2 u"]
    by (simp_all add: n_def del: of_int_minus)
  have e: "emin \<le> u" by (simp add: u_def ulp_exp_def)
  show ?thesis
  proof (cases "\<bar>n\<bar> = B")
    case False
    with \<open>n \<le> B\<close> \<open>- B \<le> n\<close> have "\<bar>n\<bar> < B" by linarith
    with q e show ?thesis by (auto simp: B_def)
  next
    case True
    have B2: "B = 2 * 2 ^ nat mb" using assms(2) by (simp add: B_def nat_add_distrib)
    define k :: int where "k = (if 0 \<le> n then 2 ^ nat mb else - (2 ^ nat mb))"
    have n: "n = 2 * k" using True B2 by (auto simp: k_def)
    have "quant mb emin r = of_int k * pow2 (u + 1)"
      using q n by (simp add: pow2_add pow2_def [of 1])
    moreover have "\<bar>k\<bar> < 2 ^ nat (mb + 1)" using assms(2) by (simp add: k_def nat_add_distrib)
    ultimately show ?thesis using e by force
  qed
qed

lemma quant_idem: "0 \<le> mb \<Longrightarrow> quant mb emin (quant mb emin r) = quant mb emin r"
proof (cases "r = 0")
  case False
  assume "0 \<le> mb"
  with quant_form [OF False this, of emin] quant_exact [OF _ _ this] show ?thesis by metis
qed (simp add: quant_def)

section \<open>IEEE encodings\<close>

record float_format =
  ff_eb :: nat
  ff_mb :: nat

definition ff_emin :: "float_format \<Rightarrow> int" where
  "ff_emin f = 2 - 2 ^ (ff_eb f - 1) - int (ff_mb f)"

text \<open>The smallest power of two the format cannot hold.\<close>

definition ff_huge :: "float_format \<Rightarrow> rat" where
  "ff_huge f = pow2 (2 ^ (ff_eb f - 1))"

definition binary32 :: float_format where "binary32 = \<lparr>ff_eb = 8, ff_mb = 23\<rparr>"
definition binary64 :: float_format where "binary64 = \<lparr>ff_eb = 11, ff_mb = 52\<rparr>"

definition ff_quant :: "float_format \<Rightarrow> rat \<Rightarrow> rat" where
  "ff_quant f = quant (int (ff_mb f)) (ff_emin f)"

text \<open>The bits of exponent and significand of a magnitude of the format: consecutive magnitudes
  have consecutive codes, so a subnormal needs no case of its own.\<close>

definition mag_code :: "float_format \<Rightarrow> rat \<Rightarrow> nat" where
  "mag_code f a =
     (if a = 0 then 0
      else let e = ulp_exp (int (ff_mb f)) (ff_emin f) a
           in nat ((e - ff_emin f) * 2 ^ ff_mb f + rhe (a / pow2 e)))"

definition sign_bit :: "float_format \<Rightarrow> nat" where
  "sign_bit f = 2 ^ (ff_eb f + ff_mb f)"

definition inf_code :: "float_format \<Rightarrow> nat" where
  "inf_code f = (2 ^ ff_eb f - 1) * 2 ^ ff_mb f"

definition ieee_code :: "float_format \<Rightarrow> pyfloat \<Rightarrow> nat result" where
  "ieee_code f x =
     (case x of
        PInf \<Rightarrow> Ok (inf_code f)
      | NInf \<Rightarrow> Ok (sign_bit f + inf_code f)
      | NaN \<Rightarrow> Ok (inf_code f + 2 ^ (ff_mb f - 1))
      | Fin r \<Rightarrow>
          (let q = ff_quant f r
           in if ff_huge f \<le> \<bar>q\<bar> then Err OverflowError
              else Ok ((if q < 0 then sign_bit f else 0) + mag_code f \<bar>q\<bar>)))"

definition mag_value :: "float_format \<Rightarrow> nat \<Rightarrow> rat" where
  "mag_value f m =
     (let biased = m div 2 ^ ff_mb f; frac_bits = m mod 2 ^ ff_mb f
      in if biased = 0 then of_nat frac_bits * pow2 (ff_emin f)
         else of_nat (2 ^ ff_mb f + frac_bits) * pow2 (int biased - 1 + ff_emin f))"

definition ieee_value :: "float_format \<Rightarrow> nat \<Rightarrow> pyfloat" where
  "ieee_value f n =
     (let m = n mod sign_bit f; negative = odd (n div sign_bit f)
      in if m < inf_code f then Fin (if negative then - mag_value f m else mag_value f m)
         else if m = inf_code f then (if negative then NInf else PInf) else NaN)"

section \<open>Decoding an encoding\<close>

lemma mag_code_parts:
  assumes form: "a = of_int n * pow2 u" "\<bar>n\<bar> < 2 ^ (ff_mb f + 1)" "ff_emin f \<le> u" and "0 < a"
  shows "\<exists>k j. mag_code f a = k * 2 ^ ff_mb f + j \<and> a = of_nat j * pow2 (int k + ff_emin f)
    \<and> j < 2 * 2 ^ ff_mb f \<and> (0 < k \<longrightarrow> 2 ^ ff_mb f \<le> j)"
proof -
  define mb where "mb = int (ff_mb f)"
  define e where "e = ulp_exp mb (ff_emin f) a"
  define P :: nat where "P = 2 ^ ff_mb f"
  have pos: "0 < n" using assms(4) form(1) pow2_pos [of u] by (auto simp: zero_less_mult_iff)
  have lb: "pow2 (ilog2 a) \<le> a" and ub: "a < pow2 (ilog2 a + 1)" using ilog2_bounds [OF assms(4)] by auto
  have "of_int n < (of_int (2 ^ (ff_mb f + 1)) :: rat)" using form(2) pos by (simp only: of_int_less_iff)
  then have "of_int n < pow2 (mb + 1)" by (simp add: mb_def nat_add_distrib)
  then have "a < pow2 (mb + 1 + u)" unfolding form(1) pow2_add [of "mb + 1" u] by simp
  from ilog2_le [OF assms(4) this] form(3) assms(4) have eu: "e \<le> u"
    by (simp add: e_def ulp_exp_def abs_of_pos)
  define m where "m = n * 2 ^ nat (u - e)"
  have m: "a = of_int m * pow2 e"
  proof -
    have "pow2 u = of_int (2 ^ nat (u - e)) * pow2 e" using eu pow2_add [of "u - e" e] by simp
    then show ?thesis by (simp add: form(1) m_def)
  qed
  have mpos: "0 < m" using pos by (simp add: m_def)
  have "a < pow2 (mb + 1 + e)"
  proof -
    have "ilog2 a + 1 \<le> mb + 1 + e" using assms(4) by (auto simp: e_def ulp_exp_def abs_of_pos max_def)
    with ub show ?thesis using pow2_mono by fastforce
  qed
  then have "of_int m < pow2 (mb + 1)" unfolding m by (simp add: pow2_add)
  then have "of_int m < (of_int (2 * int P) :: rat)" by (simp add: P_def mb_def nat_add_distrib)
  then have mub: "m < 2 * int P" by (simp only: of_int_less_iff)
  have mlb: "int P \<le> m" if "ff_emin f < e"
  proof -
    have "e = ilog2 a - mb" using that assms(4)
      by (simp add: e_def ulp_exp_def max_def abs_of_pos split: if_splits)
    with lb have "pow2 (mb + e) \<le> a" by simp
    then have "pow2 mb \<le> of_int m" unfolding m pow2_add by simp
    then have "of_int (int P) \<le> (of_int m :: rat)" by (simp add: P_def mb_def)
    then show ?thesis by (simp only: of_int_le_iff)
  qed
  have rm: "rhe (a / pow2 e) = m" by (simp add: m)
  have e0: "ff_emin f \<le> e" by (simp add: e_def ulp_exp_def)
  define k where "k = nat (e - ff_emin f)"
  define j where "j = nat m"
  have mag: "mag_code f a = k * P + j"
  proof -
    have "(e - ff_emin f) * 2 ^ ff_mb f + m = int (k * P + j)"
      using e0 mpos by (simp add: k_def j_def P_def)
    moreover have "mag_code f a = nat ((e - ff_emin f) * 2 ^ ff_mb f + m)" using assms(4) rm
      by (simp add: mag_code_def Let_def e_def [unfolded mb_def, symmetric])
    ultimately show ?thesis by (simp only: nat_int)
  qed
  have aj: "a = of_nat j * pow2 (int k + ff_emin f)" using m mpos e0 by (simp add: j_def k_def)
  have "j < 2 * P" using mub mpos unfolding j_def by linarith
  moreover have "P \<le> j" if "0 < k" using mlb that e0 mpos unfolding k_def j_def by linarith
  ultimately show ?thesis using mag aj by (auto simp: P_def)
qed

lemma mag_code_value:
  assumes form: "a = of_int n * pow2 u" "\<bar>n\<bar> < 2 ^ (ff_mb f + 1)" "ff_emin f \<le> u" and "0 < a"
  shows "mag_value f (mag_code f a) = a"
proof -
  define P :: nat where "P = 2 ^ ff_mb f"
  from mag_code_parts [OF assms] obtain k j where mag: "mag_code f a = k * P + j"
    and aj: "a = of_nat j * pow2 (int k + ff_emin f)" and j: "j < 2 * P" "0 < k \<Longrightarrow> P \<le> j"
    by (auto simp: P_def)
  have P0: "0 < P" by (simp add: P_def)
  show ?thesis
  proof (cases "j < P")
    case True
    then have "k = 0" using j(2) by force
    with True mag aj show ?thesis by (simp add: mag_value_def Let_def P_def)
  next
    case False
    define i where "i = j - P"
    have i: "j = P + i" "i < P" using False j(1) by (auto simp: i_def)
    have "mag_code f a = i + P * (k + 1)" using mag i by (simp add: mult.commute)
    then have "mag_code f a div P = k + 1" and "mag_code f a mod P = i"
      using i(2) by (simp_all only: div_mult_self2 [OF P0 [THEN less_imp_neq, symmetric]] mod_mult_self2) simp_all
    then show ?thesis using aj i by (simp add: mag_value_def Let_def P_def)
  qed
qed

lemma mag_code_bound:
  assumes form: "a = of_int n * pow2 u" "\<bar>n\<bar> < 2 ^ (ff_mb f + 1)" "ff_emin f \<le> u" and "0 < a"
    and "a < ff_huge f" and eb: "2 \<le> ff_eb f"
  shows "mag_code f a < inf_code f"
proof -
  define P :: nat where "P = 2 ^ ff_mb f"
  define E :: nat where "E = 2 ^ (ff_eb f - 1)"
  have E: "2 ^ ff_eb f = 2 * E" "2 \<le> E" using eb power_increasing [of 1 "ff_eb f - 1" "2::nat"]
    by (auto simp: E_def simp flip: power_Suc)
  from mag_code_parts [OF form \<open>0 < a\<close>] obtain k j where mag: "mag_code f a = k * P + j"
    and aj: "a = of_nat j * pow2 (int k + ff_emin f)" and j: "j < 2 * P" "0 < k \<Longrightarrow> P \<le> j"
    by (auto simp: P_def)
  have "k + 3 \<le> 2 * E"
  proof (cases "k = 0")
    case True
    then show ?thesis using E(2) by simp
  next
    case False
    then have "(of_nat P :: rat) \<le> of_nat j" using j(2) by (simp only: of_nat_le_iff)
    then have "pow2 (int (ff_mb f)) * pow2 (int k + ff_emin f) \<le> a"
      unfolding aj by (intro mult_right_mono) (simp_all add: P_def order_less_imp_le)
    with \<open>a < ff_huge f\<close> have "pow2 (int (ff_mb f) + (int k + ff_emin f)) < pow2 (int E)"
      by (simp only: pow2_add ff_huge_def E_def of_nat_power of_nat_numeral)
    then have "int (ff_mb f) + (int k + ff_emin f) < int E" by (simp only: pow2_less_iff)
    then have "int (k + 3) \<le> int (2 * E)" by (simp add: ff_emin_def E_def)
    then show ?thesis by (simp only: of_nat_le_iff)
  qed
  then have "(k + 2) * P \<le> (2 * E - 1) * P" by (intro mult_le_mono1) simp
  with mag j(1) show ?thesis by (simp add: inf_code_def E(1) P_def)
qed

definition ieee_round :: "float_format \<Rightarrow> pyfloat \<Rightarrow> pyfloat" where
  "ieee_round f x = (case x of Fin r \<Rightarrow> Fin (ff_quant f r) | _ \<Rightarrow> x)"

locale format_ok =
  fixes f :: float_format
  assumes eb: "2 \<le> ff_eb f" and mb: "1 \<le> ff_mb f"
begin

lemma sign_bit_split: "sign_bit f = inf_code f + 2 ^ ff_mb f"
  by (simp add: sign_bit_def inf_code_def power_add algebra_simps)

lemma quiet_bit: "0 < (2::nat) ^ (ff_mb f - 1)" "(2::nat) ^ (ff_mb f - 1) < 2 ^ ff_mb f"
  using mb by (simp_all add: power_strict_increasing_iff)

lemma quant_parts:
  assumes "ff_quant f r \<noteq> 0"
  shows "\<exists>n u. \<bar>ff_quant f r\<bar> = of_int n * pow2 u \<and> \<bar>n\<bar> < 2 ^ (ff_mb f + 1) \<and> ff_emin f \<le> u"
proof -
  have "r \<noteq> 0" using assms by (auto simp: ff_quant_def quant_def)
  from quant_form [OF this, of "int (ff_mb f)" "ff_emin f"] obtain n u
    where "ff_quant f r = of_int n * pow2 u" "\<bar>n\<bar> < 2 ^ (ff_mb f + 1)" "ff_emin f \<le> u"
    by (auto simp: ff_quant_def nat_add_distrib)
  then have "\<bar>ff_quant f r\<bar> = of_int \<bar>n\<bar> * pow2 u" "\<bar>\<bar>n\<bar>\<bar> < 2 ^ (ff_mb f + 1)"
    by (simp_all add: abs_mult abs_of_pos)
  with \<open>ff_emin f \<le> u\<close> show ?thesis by blast
qed

lemma mag_code_quant:
  assumes "\<bar>ff_quant f r\<bar> < ff_huge f"
  shows "mag_value f (mag_code f \<bar>ff_quant f r\<bar>) = \<bar>ff_quant f r\<bar>"
    and "mag_code f \<bar>ff_quant f r\<bar> < inf_code f"
proof -
  have z: "mag_value f (mag_code f 0) = 0 \<and> mag_code f 0 < inf_code f"
    using eb power_increasing [of 2 "ff_eb f" "2::nat"]
    by (simp add: mag_code_def mag_value_def inf_code_def Let_def)
  show "mag_value f (mag_code f \<bar>ff_quant f r\<bar>) = \<bar>ff_quant f r\<bar>"
    using z quant_parts [of r] mag_code_value by (metis abs_zero zero_less_abs_iff)
  show "mag_code f \<bar>ff_quant f r\<bar> < inf_code f"
    using z quant_parts [of r] mag_code_bound [OF _ _ _ _ assms eb] by (metis abs_zero zero_less_abs_iff)
qed

text \<open>An encoding fits the field and decodes to the rounded float.\<close>

lemma ieee_code_fits: "ieee_code f x = Ok c \<Longrightarrow> c < 2 * sign_bit f"
proof (cases x)
  case (Fin r)
  assume "ieee_code f x = Ok c"
  with Fin have "\<bar>ff_quant f r\<bar> < ff_huge f"
    and c: "c = (if ff_quant f r < 0 then sign_bit f else 0) + mag_code f \<bar>ff_quant f r\<bar>"
    by (auto simp: ieee_code_def Let_def not_le split: if_splits)
  from mag_code_quant(2) [OF this(1)] have "mag_code f \<bar>ff_quant f r\<bar> < sign_bit f"
    using sign_bit_split by simp
  with c show ?thesis by (auto split: if_splits)
next
  case NaN
  have "(2::nat) ^ (ff_mb f - 1) < sign_bit f - inf_code f" using quiet_bit(2) sign_bit_split by simp
  moreover assume "ieee_code f x = Ok c"
  ultimately show ?thesis using NaN by (auto simp: ieee_code_def)
qed (use sign_bit_split in \<open>auto simp: ieee_code_def\<close>)

lemma ieee_code_value:
  assumes "ieee_code f x = Ok c" shows "ieee_value f c = ieee_round f x"
proof (cases x)
  case (Fin r)
  let ?q = "ff_quant f r"
  from assms Fin have lt: "\<bar>?q\<bar> < ff_huge f"
    and c: "c = (if ?q < 0 then sign_bit f else 0) + mag_code f \<bar>?q\<bar>"
    by (auto simp: ieee_code_def Let_def not_le split: if_splits)
  have m: "mag_code f \<bar>?q\<bar> < inf_code f" and v: "mag_value f (mag_code f \<bar>?q\<bar>) = \<bar>?q\<bar>"
    using mag_code_quant [OF lt] by auto
  have ms: "mag_code f \<bar>?q\<bar> < sign_bit f" using m sign_bit_split by simp
  then have "c mod sign_bit f = mag_code f \<bar>?q\<bar>" and "odd (c div sign_bit f) \<longleftrightarrow> ?q < 0"
    by (simp_all add: c div_add_self1)
  then have "ieee_value f c = Fin (if ?q < 0 then - \<bar>?q\<bar> else \<bar>?q\<bar>)"
    using m v by (simp only: ieee_value_def Let_def if_True)
  then show ?thesis using Fin by (simp add: ieee_round_def abs_if)
next
  case NInf
  have "inf_code f < sign_bit f" using sign_bit_split by simp
  with NInf assms show ?thesis
    by (auto simp: ieee_code_def ieee_value_def ieee_round_def Let_def div_add_self1)
qed (use assms sign_bit_split quiet_bit in \<open>auto simp: ieee_code_def ieee_value_def ieee_round_def Let_def\<close>)

end

text \<open>Every code of the field width is the encoding of a number of the format, and encoding that
  number again is decoded to it.\<close>

context format_ok begin

lemma mag_value_parts:
  assumes "m < inf_code f"
  shows "\<exists>n u. mag_value f m = of_int n * pow2 u \<and> \<bar>n\<bar> < 2 ^ nat (int (ff_mb f) + 1) \<and> ff_emin f \<le> u"
    and "0 \<le> mag_value f m" and "mag_value f m < ff_huge f"
proof -
  define P :: nat where "P = 2 ^ ff_mb f"
  define E :: nat where "E = 2 ^ (ff_eb f - 1)"
  define k i where "k = m div P" and "i = m mod P"
  have P0: "0 < P" by (simp add: P_def)
  have i: "i < P" by (simp add: i_def P0)
  have eb1: "ff_eb f = Suc (ff_eb f - 1)" using eb by simp
  have E: "2 ^ ff_eb f = 2 * E" unfolding E_def by (subst eb1) simp
  have k: "k < 2 * E - 1" using assms unfolding k_def inf_code_def E P_def
    by (simp add: less_mult_imp_div_less)
  have P2: "(2::int) ^ nat (int (ff_mb f) + 1) = 2 * int P" by (simp add: P_def nat_add_distrib)
  have huge: "ff_huge f = pow2 (int E)" by (simp add: ff_huge_def E_def)
  have emin: "ff_emin f = 2 - int E - int (ff_mb f)" by (simp add: ff_emin_def E_def)
  define j where "j = (if k = 0 then i else P + i)"
  define u where "u = (if k = 0 then ff_emin f else int k - 1 + ff_emin f)"
  have v: "mag_value f m = of_int (int j) * pow2 u"
    by (simp add: mag_value_def Let_def j_def u_def flip: P_def k_def i_def)
  have j: "j < 2 * P" using i by (simp add: j_def)
  have u: "ff_emin f \<le> u" by (simp add: u_def)
  show "\<exists>n u. mag_value f m = of_int n * pow2 u \<and> \<bar>n\<bar> < 2 ^ nat (int (ff_mb f) + 1) \<and> ff_emin f \<le> u"
    using v u j P2 by (intro exI [of _ "int j"] exI [of _ u]) simp
  show "0 \<le> mag_value f m" unfolding v by (simp add: order_less_imp_le)
  have "of_int (int j) < (of_int (2 * int P) :: rat)" using j by (simp only: of_int_less_iff)
  also have "of_int (2 * int P) = pow2 (int (ff_mb f) + 1)" by (simp add: P_def nat_add_distrib)
  finally have "mag_value f m < pow2 (int (ff_mb f) + 1 + u)" unfolding v pow2_add [of _ u] by simp
  also have "\<dots> \<le> pow2 (int E)"
  proof (rule pow2_mono)
    have "2 \<le> E" using power_increasing [of 1 "ff_eb f - 1" "2::nat"] eb by (simp add: E_def)
    then show "int (ff_mb f) + 1 + u \<le> int E" using k by (auto simp: u_def emin)
  qed
  finally show "mag_value f m < ff_huge f" by (simp add: huge)
qed

lemma ff_quant_mag_value: "m < inf_code f \<Longrightarrow> ff_quant f (mag_value f m) = mag_value f m"
  using mag_value_parts(1) [of m] quant_exact [of _ "int (ff_mb f)" "ff_emin f"] by (force simp: ff_quant_def)

lemma ff_quant_minus: "ff_quant f (- r) = - ff_quant f r"
  by (simp add: ff_quant_def quant_def ulp_exp_def rhe_minus flip: minus_divide_left)

lemma ieee_round_value: "ieee_round f (ieee_value f n) = ieee_value f n"
  by (simp add: ieee_value_def ieee_round_def Let_def ff_quant_mag_value ff_quant_minus)

lemma ieee_code_of_value: "\<exists>c. ieee_code f (ieee_value f n) = Ok c"
proof (cases "n mod sign_bit f < inf_code f")
  case True
  then show ?thesis
    using mag_value_parts(2,3) [OF True]
    by (simp add: ieee_value_def ieee_code_def Let_def ff_quant_mag_value ff_quant_minus)
qed (simp add: ieee_value_def ieee_code_def Let_def)

end

interpretation b32: format_ok binary32 by unfold_locales (simp_all add: binary32_def)
interpretation b64: format_ok binary64 by unfold_locales (simp_all add: binary64_def)

section \<open>Fields and records of fields\<close>

datatype code = UInt nat | F32 | F64 | Pad nat | Chars nat

definition format_of :: "code \<Rightarrow> float_format" where
  "format_of c = (if c = F32 then binary32 else binary64)"

definition code_size :: "code \<Rightarrow> nat" where
  "code_size c = (case c of UInt n \<Rightarrow> n | F32 \<Rightarrow> 4 | F64 \<Rightarrow> 8 | Pad n \<Rightarrow> n | Chars n \<Rightarrow> n)"

definition calcsize :: "code list \<Rightarrow> nat" where
  "calcsize cs = sum_list (map code_size cs)"

definition pad_chars :: "nat \<Rightarrow> string \<Rightarrow> string" where
  "pad_chars n s = take n (s @ replicate n (CHR 0x00))"

definition pack_uint :: "nat \<Rightarrow> int \<Rightarrow> bytes result" where
  "pack_uint n i = (if 0 \<le> i \<and> i < 256 ^ n then Ok (le_enc n (nat i)) else Err StructError)"

definition pack_one :: "code \<Rightarrow> pyval \<Rightarrow> bytes result" where
  "pack_one c v =
     (case (c, v) of
        (UInt n, VInt i) \<Rightarrow> pack_uint n i
      | (UInt n, VBool b) \<Rightarrow> pack_uint n (of_bool b)
      | (Chars n, VStr s) \<Rightarrow> Ok (encode_utf8 (pad_chars n s))
      | (F32, VFloat x) \<Rightarrow> bindR (ieee_code binary32 x) (\<lambda>k. Ok (le_enc 4 k))
      | (F64, VFloat x) \<Rightarrow> bindR (ieee_code binary64 x) (\<lambda>k. Ok (le_enc 8 k))
      | _ \<Rightarrow> Err StructError)"

fun struct_pack :: "code list \<Rightarrow> pyval list \<Rightarrow> bytes result" where
  "struct_pack [] vs = (if vs = [] then Ok [] else Err StructError)"
| "struct_pack (c # cs) vs =
     (case c of
        Pad n \<Rightarrow> bindR (struct_pack cs vs) (\<lambda>r. Ok (replicate n 0 @ r))
      | _ \<Rightarrow> (case vs of
               [] \<Rightarrow> Err StructError
             | v # vs' \<Rightarrow> bindR (pack_one c v) (\<lambda>b. bindR (struct_pack cs vs') (\<lambda>r. Ok (b @ r)))))"

definition unpack_one :: "code \<Rightarrow> bytes \<Rightarrow> pyval" where
  "unpack_one c bs =
     (case c of
        UInt n \<Rightarrow> VInt (int (le_dec bs))
      | F32 \<Rightarrow> VFloat (ieee_value binary32 (le_dec bs))
      | F64 \<Rightarrow> VFloat (ieee_value binary64 (le_dec bs))
      | Chars n \<Rightarrow> VStr (bytes_chars bs)
      | Pad n \<Rightarrow> VNone)"

fun unpack_codes :: "code list \<Rightarrow> bytes \<Rightarrow> pyval list" where
  "unpack_codes [] bs = []"
| "unpack_codes (c # cs) bs =
     (case c of
        Pad n \<Rightarrow> unpack_codes cs (drop n bs)
      | _ \<Rightarrow> unpack_one c (take (code_size c) bs) # unpack_codes cs (drop (code_size c) bs))"

text \<open>\<open>unpack\<close> wants exactly the size, \<open>unpack_from\<close> at least.\<close>

definition struct_unpack :: "code list \<Rightarrow> bytes \<Rightarrow> pyval list result" where
  "struct_unpack cs bs = (if length bs = calcsize cs then Ok (unpack_codes cs bs) else Err StructError)"

definition struct_unpack_from :: "code list \<Rightarrow> bytes \<Rightarrow> pyval list result" where
  "struct_unpack_from cs bs = (if calcsize cs \<le> length bs then Ok (unpack_codes cs bs) else Err StructError)"

text \<open>What a value is after the wire.\<close>

definition wire_value :: "code \<Rightarrow> pyval \<Rightarrow> pyval" where
  "wire_value c v =
     (case (c, v) of
        (UInt n, v) \<Rightarrow> VInt (int_of v)
      | (Chars n, VStr s) \<Rightarrow> VStr (pad_chars n s)
      | (F32, VFloat x) \<Rightarrow> VFloat (ieee_round binary32 x)
      | (F64, VFloat x) \<Rightarrow> VFloat (ieee_round binary64 x)
      | _ \<Rightarrow> v)"

definition is_pad :: "code \<Rightarrow> bool" where "is_pad c = (case c of Pad _ \<Rightarrow> True | _ \<Rightarrow> False)"

fun wire_values :: "code list \<Rightarrow> pyval list \<Rightarrow> pyval list" where
  "wire_values [] vs = []"
| "wire_values (c # cs) vs =
     (if is_pad c then wire_values cs vs
      else case vs of [] \<Rightarrow> [] | v # vs' \<Rightarrow> wire_value c v # wire_values cs vs')"

lemma length_pad_chars [simp]: "length (pad_chars n s) = n"
  by (simp add: pad_chars_def)

lemma pack_uint_ok:
  "pack_uint n i = Ok b \<Longrightarrow> length b = n \<and> int (le_dec b) = i"
  by (auto simp: pack_uint_def le_dec_enc nat_less_iff split: if_splits)

lemma ieee_code_width:
  "ieee_code binary32 x = Ok k \<Longrightarrow> k < 256 ^ 4" "ieee_code binary64 x = Ok k \<Longrightarrow> k < 256 ^ 8"
  using b32.ieee_code_fits [of x k] b64.ieee_code_fits [of x k]
  by (simp_all add: sign_bit_def binary32_def binary64_def)

lemma pack_one_ok:
  assumes "pack_one c v = Ok b" and "\<not> is_pad c"
  shows "length b = code_size c \<and> unpack_one c b = wire_value c v"
proof (cases c)
  case (UInt n)
  with assms show ?thesis
    by (cases v) (auto simp: pack_one_def code_size_def unpack_one_def wire_value_def dest!: pack_uint_ok)
next
  case F32
  with assms(1) obtain x k where "v = VFloat x" "ieee_code binary32 x = Ok k" "b = le_enc 4 k"
    by (cases v) (auto simp: pack_one_def bindR_Inr_conv)
  with F32 ieee_code_width(1) show ?thesis
    by (simp add: code_size_def unpack_one_def wire_value_def le_dec_enc b32.ieee_code_value)
next
  case F64
  with assms(1) obtain x k where "v = VFloat x" "ieee_code binary64 x = Ok k" "b = le_enc 8 k"
    by (cases v) (auto simp: pack_one_def bindR_Inr_conv)
  with F64 ieee_code_width(2) show ?thesis
    by (simp add: code_size_def unpack_one_def wire_value_def le_dec_enc b64.ieee_code_value)
next
  case (Pad n)
  with assms(2) show ?thesis by (simp add: is_pad_def)
next
  case (Chars n)
  with assms show ?thesis
    by (cases v) (auto simp: pack_one_def code_size_def unpack_one_def wire_value_def)
qed

lemma unpack_pack:
  "struct_pack cs vs = Ok bs \<Longrightarrow> unpack_codes cs (bs @ rest) = wire_values cs vs \<and> length bs = calcsize cs"
proof (induction cs arbitrary: vs bs)
  case Nil
  then show ?case by (auto simp: calcsize_def split: if_splits)
next
  case (Cons c cs)
  show ?case
  proof (cases "is_pad c")
    case True
    then obtain n where "c = Pad n" by (auto simp: is_pad_def split: code.splits)
    with Cons show ?thesis by (auto simp: bindR_Inr_conv calcsize_def code_size_def is_pad_def)
  next
    case False
    with Cons.prems obtain v vs' b r where vs: "vs = v # vs'" and b: "pack_one c v = Ok b"
      and r: "struct_pack cs vs' = Ok r" and bs: "bs = b @ r"
      by (auto simp: is_pad_def bindR_Inr_conv split: code.splits list.splits)
    from pack_one_ok [OF b False] Cons.IH [OF r] False vs bs show ?thesis
      by (auto simp: is_pad_def calcsize_def split: code.splits)
  qed
qed

text \<open>Whatever the bytes, the values they decode to can be packed again and do not change.\<close>

lemma unpack_one_repack:
  assumes "\<not> is_pad c" and "length bs = code_size c"
  shows "(\<exists>b. pack_one c (unpack_one c bs) = Ok b) \<and> wire_value c (unpack_one c bs) = unpack_one c bs"
proof (cases c)
  case (UInt n)
  have "int (le_dec bs) < int (256 ^ length bs)" using le_dec_bound [of bs] by (simp only: of_nat_less_iff)
  with UInt assms(2) show ?thesis
    by (simp add: unpack_one_def pack_one_def wire_value_def code_size_def pack_uint_def)
next
  case F32
  then show ?thesis using b32.ieee_code_of_value [of "le_dec bs"]
    by (auto simp: unpack_one_def pack_one_def wire_value_def b32.ieee_round_value)
next
  case F64
  then show ?thesis using b64.ieee_code_of_value [of "le_dec bs"]
    by (auto simp: unpack_one_def pack_one_def wire_value_def b64.ieee_round_value)
next
  case (Pad n)
  with assms(1) show ?thesis by (simp add: is_pad_def)
next
  case (Chars n)
  with assms(2) show ?thesis
    by (simp add: unpack_one_def pack_one_def wire_value_def code_size_def pad_chars_def)
qed

lemma unpack_repack:
  "calcsize cs \<le> length bs \<Longrightarrow>
     (\<exists>d. struct_pack cs (unpack_codes cs bs) = Ok d) \<and> wire_values cs (unpack_codes cs bs) = unpack_codes cs bs"
proof (induction cs arbitrary: bs)
  case Nil
  then show ?case by simp
next
  case (Cons c cs)
  have ih: "(\<exists>d. struct_pack cs (unpack_codes cs (drop (code_size c) bs)) = Ok d)
      \<and> wire_values cs (unpack_codes cs (drop (code_size c) bs)) = unpack_codes cs (drop (code_size c) bs)"
    by (rule Cons.IH) (use Cons.prems in \<open>simp add: calcsize_def\<close>)
  show ?case
  proof (cases "is_pad c")
    case True
    with ih show ?thesis by (auto simp: is_pad_def code_size_def bindR_Inr_conv split: code.splits)
  next
    case False
    have "length (take (code_size c) bs) = code_size c" using Cons.prems by (simp add: calcsize_def)
    from unpack_one_repack [OF False this] ih False show ?thesis
      by (auto simp: is_pad_def bindR_Inr_conv split: code.splits)
  qed
qed

end
