(* ===== verification/FloatBounds.thy ===== *)
theory FloatBounds
  imports FloatWire
begin

text \<open>
  Order and error of float rounding: rounding is monotone, leaves the numbers of the format alone,
  and is off by at most half a unit in the last place. The bounds on clamped motor commands and on
  the length of the loops that add up float time steps rest on these facts.
\<close>

section \<open>Rounding is monotone\<close>

lemma ilog2_mono: "0 < x \<Longrightarrow> x \<le> y \<Longrightarrow> ilog2 x \<le> ilog2 y"
  using ilog2_bounds [of x] ilog2_bounds [of y] ilog2_le [of x "ilog2 y + 1"] by simp

lemma rhe_ge: "of_int n \<le> x \<Longrightarrow> n \<le> rhe x"
  using rhe_mono [of "of_int n" x] by simp

lemma rhe_le: "x \<le> of_int n \<Longrightarrow> rhe x \<le> n"
  using rhe_mono [of x "of_int n"] by simp

lemma quant_0 [simp]: "quant mb emin 0 = 0"
  by (simp add: quant_def)

lemma quant_minus: "quant mb emin (- r) = - quant mb emin r"
  by (simp add: quant_def ulp_exp_def rhe_minus)

lemma quant_nonneg: "0 \<le> r \<Longrightarrow> 0 \<le> quant mb emin r"
  using rhe_ge [of 0 "r / pow2 (ulp_exp mb emin r)"] order_less_imp_le [OF pow2_pos]
  by (simp add: quant_def)

lemma quant_mono_pos:
  assumes "0 < x" and "x \<le> y" and "0 \<le> mb"
  shows "quant mb emin x \<le> quant mb emin y"
proof -
  define ux where "ux = ulp_exp mb emin x"
  define uy where "uy = ulp_exp mb emin y"
  define ly where "ly = ilog2 y"
  have y0: "0 < y" using assms by linarith
  have q: "quant mb emin x = of_int (rhe (x / pow2 ux)) * pow2 ux"
    "quant mb emin y = of_int (rhe (y / pow2 uy)) * pow2 uy"
    using assms y0 by (simp_all add: quant_def ux_def uy_def)
  have le: "ux \<le> uy"
    using ilog2_mono [OF assms(1,2)] assms y0 by (simp add: ux_def uy_def ulp_exp_def)
  show ?thesis
  proof (cases "ux = uy")
    case True
    then have "rhe (x / pow2 ux) \<le> rhe (y / pow2 uy)"
      using assms(2) by (intro rhe_mono) (simp add: divide_right_mono order_less_imp_le)
    with True show ?thesis by (simp add: q mult_right_mono order_less_imp_le)
  next
    case False
    with le have "ux < uy" by simp
    then have uy: "uy = ly - mb" and lx: "ilog2 x < ly"
      using assms y0 by (auto simp: ux_def uy_def ulp_exp_def ly_def split: if_splits)
    have "of_int (2 ^ nat mb) * pow2 uy = pow2 ly"
      using assms(3) pow2_add [of mb uy] by (simp add: uy)
    moreover have "pow2 ly \<le> y" using ilog2_bounds [OF y0] by (simp add: ly_def)
    ultimately have "of_int (2 ^ nat mb) \<le> y / pow2 uy" by (simp add: le_divide_eq)
    then have "2 ^ nat mb \<le> rhe (y / pow2 uy)" by (rule rhe_ge)
    then have "(of_int (2 ^ nat mb) :: rat) \<le> of_int (rhe (y / pow2 uy))" by (simp only: of_int_le_iff)
    then have "of_int (2 ^ nat mb) * pow2 uy \<le> quant mb emin y"
      unfolding q by (rule mult_right_mono) (simp add: order_less_imp_le)
    then have hi: "pow2 ly \<le> quant mb emin y" using \<open>_ = pow2 ly\<close> by simp
    have n: "0 \<le> ly - ux" using \<open>ux < uy\<close> uy assms(3) by linarith
    have "of_int (2 ^ nat (ly - ux)) * pow2 ux = pow2 ly"
      using n pow2_add [of "ly - ux" ux] by simp
    moreover have "x \<le> pow2 ly"
      using ilog2_bounds [OF assms(1)] pow2_mono [of "ilog2 x + 1" ly] lx by linarith
    ultimately have "x / pow2 ux \<le> of_int (2 ^ nat (ly - ux))" by (simp add: divide_le_eq)
    then have "rhe (x / pow2 ux) \<le> 2 ^ nat (ly - ux)" by (rule rhe_le)
    then have "(of_int (rhe (x / pow2 ux)) :: rat) \<le> of_int (2 ^ nat (ly - ux))" by (simp only: of_int_le_iff)
    then have "quant mb emin x \<le> of_int (2 ^ nat (ly - ux)) * pow2 ux"
      unfolding q by (rule mult_right_mono) (simp add: order_less_imp_le)
    then have "quant mb emin x \<le> pow2 ly" using \<open>_ * pow2 ux = pow2 ly\<close> by simp
    with hi show ?thesis by linarith
  qed
qed

lemma quant_mono:
  assumes "x \<le> y" and "0 \<le> mb"
  shows "quant mb emin x \<le> quant mb emin y"
proof -
  consider "0 < x" | "x \<le> 0" "0 \<le> y" | "y < 0" by linarith
  then show ?thesis
  proof cases
    case 1
    then show ?thesis using assms by (rule quant_mono_pos)
  next
    case 2
    then show ?thesis
      using quant_nonneg [of "- x" mb emin] quant_nonneg [of y mb emin] by (simp add: quant_minus)
  next
    case 3
    then show ?thesis
      using quant_mono_pos [of "- y" "- x" mb emin] assms by (simp add: quant_minus)
  qed
qed

text \<open>The rounding error.\<close>

lemma quant_error:
  "\<bar>quant mb emin r - r\<bar> \<le> pow2 (ulp_exp mb emin r) / 2"
proof (cases "r = 0")
  case True
  then show ?thesis by (simp add: order_less_imp_le)
next
  case False
  define u where "u = pow2 (ulp_exp mb emin r)"
  have u: "0 < u" by (simp add: u_def)
  have "\<bar>of_int (rhe (r / u)) - r / u\<bar> \<le> 1 / 2"
    using rhe_bounds [of "r / u"] unfolding abs_le_iff by linarith
  then have "\<bar>of_int (rhe (r / u)) - r / u\<bar> * u \<le> 1 / 2 * u"
    using u by (intro mult_right_mono) simp_all
  then have "\<bar>(of_int (rhe (r / u)) - r / u) * u\<bar> \<le> u / 2"
    using u by (simp add: abs_mult)
  moreover have "(of_int (rhe (r / u)) - r / u) * u = quant mb emin r - r"
    using False u by (simp add: quant_def u_def left_diff_distrib)
  ultimately show ?thesis by (simp add: u_def)
qed

section \<open>Rounding to binary64\<close>

text \<open>The finite numbers of the format, and the values a Python float can have.\<close>

definition is_f64 :: "rat \<Rightarrow> bool" where
  "is_f64 r \<longleftrightarrow> rnd64 r = Fin r"

lemma rnd64_cases:
  obtains "rnd64 r = PInf" "huge64 \<le> quant 52 (- 1074) r"
  | "rnd64 r = NInf" "quant 52 (- 1074) r \<le> - huge64"
  | "rnd64 r = Fin (quant 52 (- 1074) r)" "\<bar>quant 52 (- 1074) r\<bar> < huge64"
  by (cases "huge64 \<le> quant 52 (- 1074) r"; cases "quant 52 (- 1074) r \<le> - huge64")
    (auto simp: rnd64_def Let_def abs_if)

lemma huge64_pos: "0 < huge64"
  by (simp add: huge64_def)

lemma rnd64_mono: "x \<le> y \<Longrightarrow> fle (rnd64 x) (rnd64 y)"
  using quant_mono [of x y 52 "- 1074"] huge64_pos by (auto simp: rnd64_def Let_def)

lemma rnd64_le_f64: "is_f64 b \<Longrightarrow> x \<le> b \<Longrightarrow> fle (rnd64 x) (Fin b)"
  using rnd64_mono [of x b] by (simp add: is_f64_def)

lemma rnd64_ge_f64: "is_f64 a \<Longrightarrow> a \<le> x \<Longrightarrow> fle (Fin a) (rnd64 x)"
  using rnd64_mono [of a x] by (simp add: is_f64_def)

lemma fle_Fin_bounds: "fle (Fin a) x \<Longrightarrow> fle x (Fin b) \<Longrightarrow> \<exists>r. x = Fin r \<and> a \<le> r \<and> r \<le> b"
  by (cases x) auto

text \<open>Between two numbers of the format, rounding stays between them.\<close>

lemma rnd64_between:
  assumes "is_f64 a" and "is_f64 b" and "a \<le> x" and "x \<le> b"
  shows "\<exists>r. rnd64 x = Fin r \<and> a \<le> r \<and> r \<le> b"
  using assms by (intro fle_Fin_bounds rnd64_le_f64 rnd64_ge_f64)

lemma is_f64_scaled:
  assumes "\<bar>n\<bar> < 2 ^ 53" and "- 1074 \<le> e" and "e \<le> 900"
  shows "is_f64 (of_int n * pow2 e)"
proof -
  have q: "quant 52 (- 1074) (of_int n * pow2 e) = of_int n * pow2 e"
    by (rule quant_exact) (use assms in simp_all)
  have "\<bar>of_int n * pow2 e\<bar> < of_int (2 ^ 53) * pow2 e"
    using assms(1) by (simp add: abs_mult order_less_imp_le flip: of_int_abs)
  also have "\<dots> = pow2 (53 + e)" by (simp add: pow2_add)
  also have "\<dots> \<le> pow2 1024" using assms(3) by (intro pow2_mono) simp
  also have "\<dots> = huge64" by (simp add: huge64_def pow2_def)
  finally show ?thesis using q by (auto simp: is_f64_def rnd64_def Let_def)
qed

lemma is_f64_of_int: "\<bar>n\<bar> < 2 ^ 53 \<Longrightarrow> is_f64 (of_int n)"
  by (simp add: is_f64_def rnd64_of_int)

lemma is_f64_0 [simp]: "is_f64 0" and is_f64_1 [simp]: "is_f64 1"
  by (simp_all add: is_f64_def)

lemma is_f64_minus: "is_f64 r \<Longrightarrow> is_f64 (- r)"
  by (auto simp: is_f64_def rnd64_def Let_def quant_minus split: if_splits)

lemma rnd64_minus: "rnd64 (- x) = fneg (rnd64 x)"
  using huge64_pos by (auto simp: rnd64_def Let_def quant_minus)

lemma fneg_Fin: "fneg (Fin r) = Fin (- r)"
  by simp

text \<open>Rounding twice changes nothing; every result of an addition is a value a float can have.\<close>

lemma rnd64_is_f64: "rnd64 x = Fin r \<Longrightarrow> is_f64 r"
  by (auto simp: is_f64_def rnd64_def Let_def quant_idem split: if_splits)

definition is_float :: "pyfloat \<Rightarrow> bool" where
  "is_float x = (case x of Fin r \<Rightarrow> is_f64 r | _ \<Rightarrow> True)"

lemma is_float_rnd64 [simp]: "is_float (rnd64 r)"
  by (cases "rnd64 r") (auto simp: is_float_def dest: rnd64_is_f64)

lemma is_float_fadd [simp]: "is_float (fadd a b)"
proof (cases "\<exists>x y. a = Fin x \<and> b = Fin y")
  case True
  then show ?thesis by auto
next
  case False
  then have "\<not> is_finite (fadd a b)" by (cases a; cases b) auto
  then show ?thesis by (cases "fadd a b") (simp_all add: is_float_def)
qed

lemma double_nonzero:
  assumes "is_float x" and "\<not> fle x (Fin 0)"
  shows "fmul (Fin 2) x \<noteq> Fin 0"
proof (cases x)
  case (Fin b)
  with assms have b: "rnd64 b = Fin b" "0 < b" by (auto simp: is_float_def is_f64_def)
  have "fle (rnd64 b) (rnd64 (2 * b))" by (rule rnd64_mono) (use b(2) in simp)
  with Fin b show ?thesis by auto
qed (auto simp: sgn_inf_def)

lemma rnd64_error:
  assumes "\<bar>x\<bar> < pow2 k" and "- 1000 \<le> k" and "rnd64 x = Fin r"
  shows "\<bar>r - x\<bar> \<le> pow2 (k - 54)"
proof (cases "x = 0")
  case True
  with assms(3) show ?thesis by (simp add: order_less_imp_le)
next
  case False
  then have "ulp_exp 52 (- 1074) x \<le> k - 53"
    using ilog2_le [of "\<bar>x\<bar>" k] assms by (simp add: ulp_exp_def)
  then have "pow2 (ulp_exp 52 (- 1074) x) \<le> pow2 (k - 53)" by (rule pow2_mono)
  moreover have "pow2 (k - 53) / 2 = pow2 (k - 54)"
    using pow2_add [of "k - 54" 1] by (simp add: pow2_def [of 1])
  moreover have "r = quant 52 (- 1074) x"
    using assms(3) by (auto simp: rnd64_def Let_def split: if_splits)
  ultimately show ?thesis using quant_error [of 52 "- 1074" x] by linarith
qed

lemma f64_near:
  assumes "\<bar>x\<bar> < pow2 k" and "- 1000 \<le> k" and "k \<le> 900"
  shows "\<exists>r. rnd64 x = Fin r \<and> \<bar>r - x\<bar> \<le> pow2 (k - 54)"
proof -
  have f: "is_f64 (of_int 1 * pow2 k)" by (rule is_f64_scaled) (use assms in simp_all)
  have "\<exists>r. rnd64 x = Fin r \<and> - pow2 k \<le> r \<and> r \<le> pow2 k"
    using f by (intro rnd64_between is_f64_minus) (use assms(1) in \<open>simp_all add: abs_less_iff\<close>)
  then show ?thesis using rnd64_error [OF assms(1,2)] by blast
qed

section \<open>Minimum, maximum and clamping\<close>

lemma fle_refl: "a \<noteq> NaN \<Longrightarrow> fle a a" by (cases a) simp_all
lemma fle_trans: "fle a b \<Longrightarrow> fle b c \<Longrightarrow> fle a c"
  by (cases a; cases b; cases c) auto
lemma flt_imp_fle: "flt a b \<Longrightarrow> fle a b" by (cases a; cases b) auto
lemma flt_fle_trans: "flt a b \<Longrightarrow> fle b c \<Longrightarrow> flt a c" by (cases a; cases b; cases c) auto
lemma not_flt: "a \<noteq> NaN \<Longrightarrow> b \<noteq> NaN \<Longrightarrow> \<not> flt a b \<Longrightarrow> fle b a" by (cases a; cases b) auto

text \<open>Clamping a value, a NaN included, into a range gives a number of the range.\<close>

lemma clamp_range:
  assumes "lo \<le> hi"
  shows "\<exists>r. fmax (Fin lo) (fmin (Fin hi) x) = Fin r \<and> lo \<le> r \<and> r \<le> hi"
  using assms by (cases x) (auto simp: fmax_def fmin_def)

lemma clamp_value:
  "lo \<le> hi \<Longrightarrow> fmax (Fin lo) (fmin (Fin hi) (Fin x)) = Fin (max lo (min hi x))"
  by (auto simp: fmax_def fmin_def)

section \<open>Quotients and remainders\<close>

text \<open>A quotient whose divisor is a constant other than zero.\<close>

definition fquot :: "pyfloat \<Rightarrow> pyfloat \<Rightarrow> pyfloat" where
  "fquot a b = (case fdiv a b of Inr x \<Rightarrow> x | Inl _ \<Rightarrow> NaN)"

text \<open>The \<open>%\<close> of floats: the exact remainder of the truncated quotient, moved to the divisor's sign.\<close>

definition trunc_rat :: "rat \<Rightarrow> int" where
  "trunc_rat r = (if 0 \<le> r then \<lfloor>r\<rfloor> else \<lceil>r\<rceil>)"

definition fmod :: "pyfloat \<Rightarrow> rat \<Rightarrow> pyfloat" where
  "fmod x b =
     (case x of
        Fin a \<Rightarrow> (let m = a - b * of_int (trunc_rat (a / b))
                  in if m \<noteq> 0 \<and> (b < 0) \<noteq> (m < 0) then rnd64 (m + b) else Fin m)
      | _ \<Rightarrow> NaN)"

text \<open>The same for any float divisor, which raises when it is zero.\<close>

definition fmodR :: "pyfloat \<Rightarrow> pyfloat \<Rightarrow> pyfloat result" where
  "fmodR x y =
     (case y of
        Fin b \<Rightarrow> if b = 0 then Err ZeroDivisionError else Ok (fmod x b)
      | NaN \<Rightarrow> Ok NaN
      | PInf \<Rightarrow> Ok (case x of Fin a \<Rightarrow> if a < 0 then PInf else Fin a | _ \<Rightarrow> NaN)
      | NInf \<Rightarrow> Ok (case x of Fin a \<Rightarrow> if 0 < a then NInf else Fin a | _ \<Rightarrow> NaN))"

lemma trunc_rat_rem:
  assumes "0 < b"
  shows "0 \<le> a \<Longrightarrow> 0 \<le> a - b * of_int (trunc_rat (a / b)) \<and> a - b * of_int (trunc_rat (a / b)) < b"
    and "a < 0 \<Longrightarrow> - b < a - b * of_int (trunc_rat (a / b)) \<and> a - b * of_int (trunc_rat (a / b)) \<le> 0"
proof -
  have f: "of_int \<lfloor>a / b\<rfloor> \<le> a / b" "a / b < of_int \<lfloor>a / b\<rfloor> + 1"
    and c: "a / b \<le> of_int \<lceil>a / b\<rceil>" "of_int \<lceil>a / b\<rceil> < a / b + 1" by linarith+
  have f': "of_int \<lfloor>a / b\<rfloor> * b \<le> a" "a < of_int \<lfloor>a / b\<rfloor> * b + b"
    using f assms by (simp_all add: le_divide_eq divide_less_eq distrib_right)
  have c': "a \<le> of_int \<lceil>a / b\<rceil> * b" "of_int \<lceil>a / b\<rceil> * b - b < a"
    using mult_strict_right_mono [OF c(2), of b] mult_right_mono [OF c(1), of b] assms
    by (simp_all add: distrib_right)
  show "0 \<le> a \<Longrightarrow> 0 \<le> a - b * of_int (trunc_rat (a / b)) \<and> a - b * of_int (trunc_rat (a / b)) < b"
    using f' assms by (simp add: trunc_rat_def mult.commute)
  show "a < 0 \<Longrightarrow> - b < a - b * of_int (trunc_rat (a / b)) \<and> a - b * of_int (trunc_rat (a / b)) \<le> 0"
    using c' assms by (simp add: trunc_rat_def mult.commute zero_le_divide_iff)
qed

lemma fmod_range_finite:
  assumes "0 < b" and "is_f64 b"
  shows "\<exists>m. fmod (Fin a) b = Fin m \<and> 0 \<le> m \<and> m \<le> b"
proof -
  define m where "m = a - b * of_int (trunc_rat (a / b))"
  have e: "fmod (Fin a) b = (if m < 0 then rnd64 (m + b) else Fin m)"
    using assms(1) by (auto simp: fmod_def m_def Let_def)
  have rng: "- b < m \<and> m < b"
    using trunc_rat_rem [OF assms(1), of a] assms(1) unfolding m_def by (cases "0 \<le> a") linarith+
  show ?thesis
  proof (cases "m < 0")
    case True
    then show ?thesis
      using rnd64_between [OF is_f64_0 assms(2), of "m + b"] rng by (auto simp: e)
  next
    case False
    then show ?thesis using rng by (auto simp: e)
  qed
qed

lemma fmod_range:
  assumes "0 < b" and "is_f64 b"
  shows "fmod x b = NaN \<or> (\<exists>m. fmod x b = Fin m \<and> 0 \<le> m \<and> m \<le> b)"
  using fmod_range_finite [OF assms] by (cases x) (auto simp: fmod_def)

lemma fadd_mono: "fle a b \<Longrightarrow> fle (fadd a (Fin c)) (fadd b (Fin c))"
proof -
  have "fle (rnd64 x) PInf" and "fle NInf (rnd64 x)" for x by (simp_all add: rnd64_def Let_def)
  then show "fle a b \<Longrightarrow> fle (fadd a (Fin c)) (fadd b (Fin c))"
    by (cases a; cases b) (auto intro: rnd64_mono)
qed

end
