(* ===== verification/ChannelAdapter.thy ===== *)
theory ChannelAdapter
  imports FloatBounds "HOL-Library.Multiset"
begin

text \<open>
  The conversion of Sionna propagation paths into the emulator's runtime taps
  (\<^verbatim>\<open>apps/sionna_bridge/channel_adapter.py\<close>): \<open>rays_to_taps\<close> with its binning, merging, pruning and
  selection, the two profile-swap messages and the status record. The transcendental functions of
  the C library (\<open>abs\<close> of a complex number, \<open>math.log10\<close>, \<open>cmath.phase\<close>, \<open>math.degrees\<close>) are the
  argument \<open>lib\<close>; everything else is exact binary64 arithmetic. The theorems: a profile is never
  empty and never exceeds the device limit, its delays come from strictly increasing bins, every
  bin is the coherent sum of the rays that fall into it, the selection keeps the strongest bins,
  and a matrix message is accepted only for a complete set of lanes, which it sends in row order.
\<close>

section \<open>Data\<close>

record pycomplex =
  c_re :: pyfloat
  c_im :: pyfloat

definition cadd :: "pycomplex \<Rightarrow> pycomplex \<Rightarrow> pycomplex" where
  "cadd a b = \<lparr>c_re = fadd (c_re a) (c_re b), c_im = fadd (c_im a) (c_im b)\<rparr>"

definition czero :: pycomplex where "czero = \<lparr>c_re = Fin 0, c_im = Fin 0\<rparr>"

record mathlib =
  m_abs :: "pycomplex \<Rightarrow> pyfloat"
  m_log10 :: "pyfloat \<Rightarrow> pyfloat"
  m_phase :: "pycomplex \<Rightarrow> pyfloat"
  m_degrees :: "pyfloat \<Rightarrow> pyfloat"

record ray =
  delay_seconds :: pyfloat
  coefficient :: pycomplex
  doppler_hz :: pyfloat

record tap =
  delay_samples :: pyfloat
  gain_db :: pyfloat
  phase_rad :: pyfloat

record lane_profile =
  rx_port :: int
  tx_port :: int
  lane_taps :: "tap list"

record matrix_profile =
  mp_nt :: int
  mp_nr :: int
  mp_lanes :: "lane_profile list"

definition control_link_id :: "string \<Rightarrow> string \<Rightarrow> string \<Rightarrow> string" where
  "control_link_id source destination model = source @ ''>'' @ destination @ '':'' @ model"

text \<open>\<open>round(x, d)\<close>: the nearest multiple of \<open>10^-d\<close>, ties to even, as a float.\<close>

definition round_dec :: "nat \<Rightarrow> pyfloat \<Rightarrow> pyfloat" where
  "round_dec d x = (case x of Fin r \<Rightarrow> rnd64 (of_int (rhe (r * 10 ^ d)) / 10 ^ d) | _ \<Rightarrow> x)"

section \<open>From rays to taps\<close>

record tap_params =
  sample_rate_hz :: pyfloat
  gain_offset_db :: pyfloat
  max_taps :: int
  max_delay_samples :: pyfloat
  min_gain_db :: pyfloat
  max_gain_db :: pyfloat
  delay_quantum :: pyfloat
  outage_gain_db :: pyfloat

definition default_params :: "pyfloat \<Rightarrow> tap_params" where
  "default_params rate =
     \<lparr>sample_rate_hz = rate, gain_offset_db = Fin 0, max_taps = 32, max_delay_samples = Fin 1023,
      min_gain_db = Fin (- 100), max_gain_db = Fin 20, delay_quantum = Fin (1 / 16),
      outage_gain_db = Fin (- 100)\<rparr>"

definition check_params :: "tap_params \<Rightarrow> unit result" where
  "check_params p =
     bindR (checkR (\<not> fle (sample_rate_hz p) (Fin 0)) (ValueError ''sample_rate_hz must be positive'')) (\<lambda>_.
     bindR (checkR (0 < max_taps p) (ValueError ''max_taps must be positive'')) (\<lambda>_.
     bindR (checkR (\<not> fle (delay_quantum p) (Fin 0)) (ValueError ''delay_quantum_samples must be positive'')) (\<lambda>_.
     checkR (fle (min_gain_db p) (outage_gain_db p) \<and> fle (outage_gain_db p) (max_gain_db p))
       (ValueError ''outage_gain_db must be inside the accepted gain range''))))"

text \<open>\<open>bin_index * delay_quantum_samples\<close>.\<close>

definition bin_delay :: "tap_params \<Rightarrow> int \<Rightarrow> pyfloat result" where
  "bin_delay p b = bindR (float_of_int b) (\<lambda>x. Ok (fmul x (delay_quantum p)))"

text \<open>The bin a ray falls into; \<open>None\<close> when the loop skips the ray.\<close>

definition ray_bin :: "mathlib \<Rightarrow> tap_params \<Rightarrow> ray \<Rightarrow> int option result" where
  "ray_bin lib p ray =
     (let delay = fmul (delay_seconds ray) (sample_rate_hz p); coeff = coefficient ray
      in if \<not> is_finite delay \<or> flt delay (Fin 0) \<or> flt (max_delay_samples p) delay then Ok None
         else if \<not> (is_finite (c_re coeff) \<and> is_finite (c_im coeff)) then Ok None
         else if feq (m_abs lib coeff) (Fin 0) then Ok None
         else bindR (fdiv delay (delay_quantum p)) (\<lambda>q. bindR (fround q) (\<lambda>b.
              bindR (bin_delay p b) (\<lambda>quantized.
                Ok (if flt (max_delay_samples p) quantized then None else Some b)))))"

definition add_to_bin :: "int \<Rightarrow> pycomplex \<Rightarrow> (int \<times> pycomplex) list \<Rightarrow> (int \<times> pycomplex) list" where
  "add_to_bin b coeff bins =
     AList.update b (cadd (case map_of bins b of None \<Rightarrow> czero | Some c \<Rightarrow> c) coeff) bins"

definition bin_step :: "mathlib \<Rightarrow> tap_params \<Rightarrow> ray \<Rightarrow> (int \<times> pycomplex) list \<Rightarrow> (int \<times> pycomplex) list result"
  where
  "bin_step lib p ray bins =
     bindR (ray_bin lib p ray) (\<lambda>b. Ok (case b of None \<Rightarrow> bins
       | Some i \<Rightarrow> add_to_bin i (coefficient ray) bins))"

type_synonym candidate = "int \<times> pycomplex \<times> pyfloat"

definition candidate_of :: "mathlib \<Rightarrow> tap_params \<Rightarrow> int \<times> pycomplex \<Rightarrow> candidate option" where
  "candidate_of lib p bin =
     (let magnitude = m_abs lib (snd bin)
      in if feq magnitude (Fin 0) then None
         else let gain = fadd (fmul (Fin 20) (m_log10 lib magnitude)) (gain_offset_db p)
              in if flt gain (min_gain_db p) then None
                 else Some (fst bin, snd bin, fmin gain (max_gain_db p)))"

text \<open>The stable sort by descending magnitude.\<close>

fun insert_desc :: "('a \<Rightarrow> pyfloat) \<Rightarrow> 'a \<Rightarrow> 'a list \<Rightarrow> 'a list" where
  "insert_desc key x [] = [x]"
| "insert_desc key x (y # ys) = (if flt (key x) (key y) then y # insert_desc key x ys else x # y # ys)"

definition sort_desc :: "('a \<Rightarrow> pyfloat) \<Rightarrow> 'a list \<Rightarrow> 'a list" where
  "sort_desc key xs = foldr (insert_desc key) xs []"

definition cand_magnitude :: "mathlib \<Rightarrow> candidate \<Rightarrow> pyfloat" where
  "cand_magnitude lib c = m_abs lib (fst (snd c))"

definition select_candidates :: "mathlib \<Rightarrow> tap_params \<Rightarrow> candidate list \<Rightarrow> candidate list" where
  "select_candidates lib p cands =
     sort_key fst (take (nat (max_taps p)) (sort_desc (cand_magnitude lib) cands))"

definition tap_of :: "mathlib \<Rightarrow> tap_params \<Rightarrow> candidate \<Rightarrow> tap result" where
  "tap_of lib p c =
     bindR (bin_delay p (fst c)) (\<lambda>delay.
       Ok \<lparr>delay_samples = round_dec 9 delay, gain_db = round_dec 9 (snd (snd c)),
           phase_rad = round_dec 9 (m_phase lib (fst (snd c)))\<rparr>)"

definition rays_to_taps :: "mathlib \<Rightarrow> tap_params \<Rightarrow> ray list \<Rightarrow> tap list result" where
  "rays_to_taps lib p rays =
     bindR (check_params p) (\<lambda>_. bindR (foldR (bin_step lib p) rays []) (\<lambda>bins.
       bindR (mapR (tap_of lib p)
                (select_candidates lib p (List.map_filter (candidate_of lib p) bins))) (\<lambda>taps.
       Ok (if taps \<noteq> [] then taps
           else [\<lparr>delay_samples = Fin 0, gain_db = outage_gain_db p, phase_rad = Fin 0\<rparr>]))))"

section \<open>Messages\<close>

definition tap_value :: "tap \<Rightarrow> pyval" where
  "tap_value t = VDict [(''delay_samples'', VFloat (delay_samples t)), (''gain_db'', VFloat (gain_db t)),
     (''phase_rad'', VFloat (phase_rad t))]"

definition add_options :: "string option \<Rightarrow> int option \<Rightarrow> pydict \<Rightarrow> pydict" where
  "add_options batch_id slot message =
     (let message = (case batch_id of None \<Rightarrow> message | Some b \<Rightarrow> message @ [(''batch_id'', VStr b)])
      in case slot of None \<Rightarrow> message | Some n \<Rightarrow> message @ [(''take_effect_at_slot'', VInt n)])"

definition make_profile_swap ::
  "string \<Rightarrow> tap list \<Rightarrow> string option \<Rightarrow> int option \<Rightarrow> pydict result" where
  "make_profile_swap link_id taps batch_id slot =
     (if link_id = [] then Err (ValueError ''link_id must not be empty'')
      else if taps = [] then Err (ValueError ''profile_swap requires at least one tap'')
      else Ok (add_options batch_id slot
        [(''type'', VStr ''profile_swap''), (''link_id'', VStr link_id), (''taps'', VList (map tap_value taps)),
         (''fading'', VDict [(''enabled'', VBool False), (''f_d_max_hz'', VFloat (Fin 0)),
            (''spectrum'', VStr ''jakes''), (''grid_us'', VFloat (Fin 100))])]))"

definition port_pairs :: "int \<Rightarrow> int \<Rightarrow> (int \<times> int) list" where
  "port_pairs nr nt = List.product [0 .. nr - 1] [0 .. nt - 1]"

definition lane_value :: "lane_profile \<Rightarrow> pyval" where
  "lane_value l = VDict [(''rx_port'', VInt (rx_port l)), (''tx_port'', VInt (tx_port l)),
     (''taps'', VList (map tap_value (lane_taps l)))]"

definition lane_position :: "lane_profile \<Rightarrow> int \<times> int" where
  "lane_position l = (rx_port l, tx_port l)"

definition sorted_lanes :: "matrix_profile \<Rightarrow> lane_profile list" where
  "sorted_lanes mp = sort_key (\<lambda>l. rx_port l * mp_nt mp + tx_port l) (mp_lanes mp)"

definition make_matrix_profile_swap ::
  "string \<Rightarrow> matrix_profile \<Rightarrow> string option \<Rightarrow> int option \<Rightarrow> pydict result" where
  "make_matrix_profile_swap link_id mp batch_id slot =
     (if link_id = [] then Err (ValueError ''link_id must not be empty'')
      else if mp_nt mp \<le> 0 \<or> mp_nr mp \<le> 0
      then Err (ValueError ''matrix profile dimensions must be positive'')
      else if int (length (mp_lanes mp)) \<noteq> mp_nt mp * mp_nr mp
      then Err (ValueError ''matrix profile requires exactly Nr x Nt lanes'')
      else if set (map lane_position (mp_lanes mp)) \<noteq> set (port_pairs (mp_nr mp) (mp_nt mp))
           \<or> list_ex (\<lambda>l. lane_taps l = []) (mp_lanes mp)
      then Err (ValueError ''matrix profile lanes must cover every port pair exactly once'')
      else Ok (add_options batch_id slot
        [(''type'', VStr ''matrix_profile_swap''), (''link_id'', VStr link_id), (''nt'', VInt (mp_nt mp)),
         (''nr'', VInt (mp_nr mp)), (''lanes'', VList (map lane_value (sorted_lanes mp)))]))"

section \<open>The channel status record\<close>

definition ray_power :: "mathlib \<Rightarrow> ray \<Rightarrow> pyfloat" where
  "ray_power lib r = fmul (m_abs lib (coefficient r)) (m_abs lib (coefficient r))"

definition to_db :: "mathlib \<Rightarrow> pyfloat \<Rightarrow> pyfloat" where
  "to_db lib x = fmul (Fin 10) (m_log10 lib x)"

record dd_point =
  dp_path_index :: nat
  dp_delay_samples :: "pyfloat option"
  dp_delay_ns :: pyfloat
  dp_doppler_hz :: pyfloat
  dp_power_db :: pyfloat

definition good_rate :: "pyfloat option \<Rightarrow> pyfloat option" where
  "good_rate rate = (case rate of Some r \<Rightarrow> if flt (Fin 0) r then Some r else None | None \<Rightarrow> None)"

definition dd_point_of :: "mathlib \<Rightarrow> pyfloat option \<Rightarrow> nat \<times> ray \<Rightarrow> dd_point option" where
  "dd_point_of lib rate ir =
     (let r = snd ir; power = ray_power lib r
      in if is_finite (delay_seconds r) \<and> is_finite (doppler_hz r) \<and> is_finite power \<and> flt (Fin 0) power
         then Some \<lparr>dp_path_index = fst ir,
                dp_delay_samples = map_option (fmul (delay_seconds r)) (good_rate rate),
                dp_delay_ns = fmul (delay_seconds r) (Fin 1000000000), dp_doppler_hz = doppler_hz r,
                dp_power_db = to_db lib power\<rparr>
         else None)"

text \<open>Ascending order of pairs of floats, as Python compares tuples.\<close>

definition pair_lt :: "pyfloat \<times> pyfloat \<Rightarrow> pyfloat \<times> pyfloat \<Rightarrow> bool" where
  "pair_lt a b \<longleftrightarrow> flt (fst a) (fst b) \<or> feq (fst a) (fst b) \<and> flt (snd a) (snd b)"

fun insert_pair :: "('a \<Rightarrow> pyfloat \<times> pyfloat) \<Rightarrow> 'a \<Rightarrow> 'a list \<Rightarrow> 'a list" where
  "insert_pair key x [] = [x]"
| "insert_pair key x (y # ys) = (if pair_lt (key y) (key x) then y # insert_pair key x ys else x # y # ys)"

definition dd_points :: "mathlib \<Rightarrow> pyfloat option \<Rightarrow> ray list \<Rightarrow> dd_point list" where
  "dd_points lib rate rays =
     foldr (insert_pair (\<lambda>d. (case dp_delay_samples d of None \<Rightarrow> Fin 0 | Some x \<Rightarrow> x, dp_doppler_hz d)))
       (take 128 (sort_desc dp_power_db
         (List.map_filter (dd_point_of lib rate) (enumerate 0 rays)))) []"

record tap_row =
  tr_index :: nat
  tr_tap :: tap
  tr_delay_ns :: "pyfloat option"
  tr_phase_deg :: pyfloat

definition tap_row_of :: "mathlib \<Rightarrow> pyfloat option \<Rightarrow> nat \<times> tap \<Rightarrow> tap_row result" where
  "tap_row_of lib rate it =
     bindR (case good_rate rate of
              None \<Rightarrow> Ok None
            | Some r \<Rightarrow> bindR (fdiv (delay_samples (snd it)) r) (\<lambda>x. Ok (Some (fmul x (Fin 1000000000))))) (\<lambda>ns.
       Ok \<lparr>tr_index = fst it, tr_tap = snd it, tr_delay_ns = ns,
           tr_phase_deg = m_degrees lib (phase_rad (snd it))\<rparr>)"

record channel_record =
  cr_link_id :: string
  cr_ray_count :: nat
  cr_tap_count :: nat
  cr_total_power_db :: "pyfloat option"
  cr_strongest_gain_db :: pyfloat
  cr_first_delay :: pyfloat
  cr_last_delay :: pyfloat
  cr_point_count :: nat
  cr_points :: "dd_point list"
  cr_taps :: "tap_row list"

definition py_max :: "pyfloat list \<Rightarrow> pyfloat result" where
  "py_max xs = (case xs of [] \<Rightarrow> Err (ValueError ''max() arg is an empty sequence'')
                 | x # r \<Rightarrow> Ok (fold (\<lambda>y a. fmax a y) r x))"

definition py_min :: "pyfloat list \<Rightarrow> pyfloat result" where
  "py_min xs = (case xs of [] \<Rightarrow> Err (ValueError ''min() arg is an empty sequence'')
                 | x # r \<Rightarrow> Ok (fold (\<lambda>y a. fmin a y) r x))"

definition channel_status ::
  "mathlib \<Rightarrow> string \<Rightarrow> ray list \<Rightarrow> tap list \<Rightarrow> pyfloat option \<Rightarrow> channel_record result" where
  "channel_status lib link_id rays taps rate =
     (let power = fold (\<lambda>r acc. fadd acc (ray_power lib r)) rays (Fin 0);
          delays = map delay_samples taps
      in bindR (mapR (tap_row_of lib rate) (enumerate 0 taps)) (\<lambda>rows.
         bindR (py_max (map gain_db taps)) (\<lambda>strongest.
         bindR (py_min delays) (\<lambda>first. bindR (py_max delays) (\<lambda>last_delay.
         Ok \<lparr>cr_link_id = link_id, cr_ray_count = length rays, cr_tap_count = length taps,
             cr_total_power_db = (if flt (Fin 0) power then Some (to_db lib power) else None),
             cr_strongest_gain_db = strongest, cr_first_delay = first, cr_last_delay = last_delay,
             cr_point_count = length (List.map_filter (dd_point_of lib rate) (enumerate 0 rays)),
             cr_points = dd_points lib rate rays, cr_taps = rows\<rparr>)))))"

section \<open>Every bin is a coherent sum\<close>

definition rays_in_bin :: "mathlib \<Rightarrow> tap_params \<Rightarrow> int \<Rightarrow> ray list \<Rightarrow> ray list" where
  "rays_in_bin lib p b rays = filter (\<lambda>r. ray_bin lib p r = Ok (Some b)) rays"

definition coherent_sum :: "pycomplex list \<Rightarrow> pycomplex" where
  "coherent_sum cs = fold (\<lambda>c acc. cadd acc c) cs czero"

lemma map_of_add_to_bin:
  "map_of (add_to_bin b c bins) b' =
     (if b' = b then Some (cadd (case map_of bins b of None \<Rightarrow> czero | Some c \<Rightarrow> c) c) else map_of bins b')"
  by (simp add: add_to_bin_def)

lemma foldR_bins:
  "foldR (bin_step lib p) rays bins0 = Ok bins \<Longrightarrow>
     map_of bins b = (let cs = map coefficient (rays_in_bin lib p b rays)
       in if cs = [] then map_of bins0 b
          else Some (fold (\<lambda>c acc. cadd acc c) cs (case map_of bins0 b of None \<Rightarrow> czero | Some c \<Rightarrow> c)))"
proof (induction rays arbitrary: bins0)
  case Nil
  then show ?case by (simp add: rays_in_bin_def)
next
  case (Cons r rays)
  then obtain mid where mid: "bin_step lib p r bins0 = Ok mid"
    and rest: "foldR (bin_step lib p) rays mid = Ok bins"
    by (auto simp: result_simps)
  obtain rb where rb: "ray_bin lib p r = Ok rb"
    and m: "mid = (case rb of None \<Rightarrow> bins0 | Some i \<Rightarrow> add_to_bin i (coefficient r) bins0)"
    using mid by (auto simp: bin_step_def result_simps)
  show ?case
    using Cons.IH [OF rest] rb m
    by (cases rb) (auto simp: rays_in_bin_def Let_def map_of_add_to_bin)
qed

text \<open>C28. The bins the loop leaves are the coherent sums: a bin exists exactly when some ray falls into
  it, and then holds the sum of the coefficients of exactly those rays, in the order of the paths.\<close>

theorem bins_are_coherent_sums:
  assumes "foldR (bin_step lib p) rays [] = Ok bins"
  shows "map_of bins b = (if rays_in_bin lib p b rays = [] then None
    else Some (coherent_sum (map coefficient (rays_in_bin lib p b rays))))"
  using foldR_bins [OF assms, of b] by (auto simp: coherent_sum_def Let_def)

section \<open>The selection keeps the strongest\<close>

lemma mset_insert_desc [simp]: "mset (insert_desc key x ys) = add_mset x (mset ys)"
  by (induction ys) auto

lemma mset_sort_desc [simp]: "mset (sort_desc key xs) = mset xs"
  by (induction xs) (auto simp: sort_desc_def)

lemma set_sort_desc [simp]: "set (sort_desc key xs) = set xs"
  by (metis mset_sort_desc set_mset_mset)

lemma length_sort_desc [simp]: "length (sort_desc key xs) = length xs"
  by (metis mset_sort_desc size_mset)

lemma fle_total: "a \<noteq> NaN \<Longrightarrow> b \<noteq> NaN \<Longrightarrow> fle a b \<longleftrightarrow> \<not> flt b a"
  by (cases a; cases b) auto

definition descending :: "('a \<Rightarrow> pyfloat) \<Rightarrow> 'a list \<Rightarrow> bool" where
  "descending key = sorted_wrt (\<lambda>x y. fle (key y) (key x))"

lemma set_insert_desc [simp]: "set (insert_desc key x ys) = insert x (set ys)"
  by (induction ys) auto

lemma descending_insert:
  "(\<And>y. y \<in> insert x (set ys) \<Longrightarrow> key y \<noteq> NaN) \<Longrightarrow> descending key ys \<Longrightarrow> descending key (insert_desc key x ys)"
proof (induction ys)
  case Nil
  then show ?case by (simp add: descending_def)
next
  case (Cons y ys)
  show ?case
  proof (cases "flt (key x) (key y)")
    case True
    with Cons show ?thesis by (auto simp: descending_def dest: flt_imp_fle)
  next
    case False
    then have "fle (key y) (key x)" using Cons.prems(1) fle_total by auto
    with Cons.prems False show ?thesis by (auto simp: descending_def intro: fle_trans)
  qed
qed

lemma descending_sort:
  "(\<And>y. y \<in> set xs \<Longrightarrow> key y \<noteq> NaN) \<Longrightarrow> descending key (sort_desc key xs)"
proof (induction xs)
  case Nil
  then show ?case by (simp add: sort_desc_def descending_def)
next
  case (Cons x xs)
  have "sort_desc key (x # xs) = insert_desc key x (sort_desc key xs)" by (simp add: sort_desc_def)
  with Cons show ?case by (auto intro!: descending_insert)
qed

text \<open>Of the bins that pass the gain floor, the selection keeps as many as the device can hold, all
  of them if they fit, in the order of delay; and no bin it drops is stronger than one it keeps.\<close>

theorem selection_keeps_strongest:
  assumes "\<And>c. c \<in> set cands \<Longrightarrow> cand_magnitude lib c \<noteq> NaN" and "distinct cands"
  shows "length (select_candidates lib p cands) = min (nat (max_taps p)) (length cands)
    \<and> set (select_candidates lib p cands) \<subseteq> set cands
    \<and> sorted (map fst (select_candidates lib p cands))
    \<and> (\<forall>kept \<in> set (select_candidates lib p cands). \<forall>d \<in> set cands - set (select_candidates lib p cands).
         fle (cand_magnitude lib d) (cand_magnitude lib kept))"
proof -
  let ?s = "sort_desc (cand_magnitude lib) cands" and ?n = "nat (max_taps p)"
  have sel: "set (select_candidates lib p cands) = set (take ?n ?s)" by (simp add: select_candidates_def)
  have "descending (cand_magnitude lib) (take ?n ?s @ drop ?n ?s)"
    using descending_sort [of cands "cand_magnitude lib"] assms(1) by simp
  then have desc: "\<forall>x \<in> set (take ?n ?s). \<forall>y \<in> set (drop ?n ?s).
      fle (cand_magnitude lib y) (cand_magnitude lib x)"
    unfolding descending_def sorted_wrt_append by blast
  have "fle (cand_magnitude lib d) (cand_magnitude lib kept)"
    if "kept \<in> set (take ?n ?s)" "d \<in> set cands" "d \<notin> set (take ?n ?s)" for kept d
  proof -
    have "d \<in> set (take ?n ?s @ drop ?n ?s)" using that(2) by simp
    then have "d \<in> set (drop ?n ?s)" using that(3) by (simp only: set_append Un_iff) blast
    with desc that(1) show ?thesis by blast
  qed
  moreover have "set (take ?n ?s) \<subseteq> set cands" using set_take_subset [of ?n ?s] by simp
  ultimately show ?thesis
    unfolding sel by (simp add: select_candidates_def min.commute)
qed

section \<open>The shape of a profile\<close>

lemma distinct_bins:
  "foldR (bin_step lib p) rays bins0 = Ok bins \<Longrightarrow> distinct (map fst bins0) \<Longrightarrow> distinct (map fst bins)"
proof (erule foldR_invariant [where P = "\<lambda>b. distinct (map fst b)"])
  fix r :: ray and a b :: "(int \<times> pycomplex) list"
  assume d: "distinct (map fst a)" and "bin_step lib p r a = Ok b"
  then obtain i where "b = (case i of None \<Rightarrow> a | Some i \<Rightarrow> add_to_bin i (coefficient r) a)"
    by (auto simp: bin_step_def result_simps)
  with d show "distinct (map fst b)"
    by (cases i) (simp_all add: add_to_bin_def AList.distinct_update)
qed

lemma candidates_bins:
  "map fst (List.map_filter (candidate_of lib p) bins)
     = map fst (filter (\<lambda>b. candidate_of lib p b \<noteq> None) bins)"
  by (induction bins) (auto simp: map_filter_def candidate_of_def Let_def split: if_splits)

lemma distinct_candidates:
  "distinct (map fst bins) \<Longrightarrow> distinct (map fst (List.map_filter (candidate_of lib p) bins))"
  unfolding candidates_bins by (rule distinct_map_filter)

lemma select_distinct:
  assumes "distinct (map fst cands)"
  shows "sorted_wrt (<) (map fst (select_candidates lib p cands))"
proof -
  let ?s = "sort_desc (cand_magnitude lib) cands" and ?t = "take (nat (max_taps p)) (sort_desc (cand_magnitude lib) cands)"
  have "mset (map fst ?s) = mset (map fst cands)" by simp
  then have "distinct (map fst ?s)" using assms mset_eq_imp_distinct_iff by blast
  then have "distinct (map fst ?t)" by (simp add: take_map [symmetric])
  then have "distinct (map fst (sort_key fst ?t))"
    by (metis mset_eq_imp_distinct_iff mset_map mset_sort)
  then show ?thesis by (simp add: select_candidates_def strict_sorted_iff)
qed

text \<open>A profile always has a tap and never more than the limit; unless it is the single outage tap,
  its taps carry the delays of strictly increasing bins, none beyond the longest delay.\<close>

theorem rays_to_taps_shape:
  assumes "rays_to_taps lib p rays = Ok taps"
  shows "taps \<noteq> [] \<and> int (length taps) \<le> max_taps p
    \<and> (taps = [\<lparr>delay_samples = Fin 0, gain_db = outage_gain_db p, phase_rad = Fin 0\<rparr>]
       \<or> (\<exists>bs. sorted_wrt (<) bs
            \<and> list_all2 (\<lambda>b t. \<exists>d. bin_delay p b = Ok d \<and> delay_samples t = round_dec 9 d) bs taps))"
proof -
  from assms obtain bins taps' where pos: "0 < max_taps p"
    and b: "foldR (bin_step lib p) rays [] = Ok bins"
    and t: "mapR (tap_of lib p) (select_candidates lib p (List.map_filter (candidate_of lib p) bins)) = Ok taps'"
    and taps: "taps = (if taps' \<noteq> [] then taps'
      else [\<lparr>delay_samples = Fin 0, gain_db = outage_gain_db p, phase_rad = Fin 0\<rparr>])"
    by (auto simp: rays_to_taps_def result_simps check_params_def)
  let ?sel = "select_candidates lib p (List.map_filter (candidate_of lib p) bins)"
  have inc: "sorted_wrt (<) (map fst ?sel)"
    using distinct_bins [OF b] distinct_candidates by (intro select_distinct) simp
  have "int (length taps') \<le> max_taps p"
    using mapR_length [OF t] pos by (simp add: select_candidates_def)
  moreover have "list_all2 (\<lambda>b t. \<exists>d. bin_delay p b = Ok d \<and> delay_samples t = round_dec 9 d)
      (map fst ?sel) taps'"
    using mapR_Inr [OF t] by (auto simp: list_all2_map1 tap_of_def result_simps elim!: list_all2_mono)
  ultimately show ?thesis using taps pos inc by auto
qed

section \<open>Matrix messages\<close>

definition port_index :: "int \<Rightarrow> int \<times> int \<Rightarrow> int" where
  "port_index nt pos = fst pos * nt + snd pos"

lemma port_index_inj: "inj_on (port_index nt) {pos. 0 \<le> snd pos \<and> snd pos < nt}"
proof (rule inj_onI)
  fix a b :: "int \<times> int"
  assume h: "a \<in> {pos. 0 \<le> snd pos \<and> snd pos < nt}" "b \<in> {pos. 0 \<le> snd pos \<and> snd pos < nt}"
    "port_index nt a = port_index nt b"
  then have "(fst a * nt + snd a) div nt = fst a" "(fst b * nt + snd b) div nt = fst b" by auto
  with h show "a = b" by (simp add: port_index_def prod_eq_iff)
qed

lemma sorted_product:
  assumes "sorted_wrt (<) xs" and "sorted ys" and "\<And>y. y \<in> set ys \<Longrightarrow> 0 \<le> y \<and> y < nt"
  shows "sorted (map (port_index nt) (List.product xs ys))"
  using assms(1)
proof (induction xs)
  case Nil
  then show ?case by simp
next
  case (Cons x xs)
  have "port_index nt (x, y) \<le> port_index nt (x', y')"
    if "x' \<in> set xs" "y \<in> set ys" "y' \<in> set ys" for x' y y'
  proof -
    have "x + 1 \<le> x'" using that Cons.prems by auto
    moreover have "0 < nt" using assms(3) [OF that(2)] by simp
    ultimately have "(x + 1) * nt \<le> x' * nt" by simp
    with assms(3) [OF that(2)] assms(3) [OF that(3)] show ?thesis
      by (simp add: port_index_def distrib_right)
  qed
  with Cons assms(2) show ?case
    by (auto simp: sorted_append comp_def sorted_wrt_map port_index_def)
qed

text \<open>A matrix message is built only for a complete profile, and then lists one lane for every pair
  of ports in row-major order, whatever order the lanes were given in.\<close>

theorem matrix_lanes_row_major:
  assumes "make_matrix_profile_swap link_id mp batch_id slot = Ok message"
  shows "map lane_position (sorted_lanes mp) = port_pairs (mp_nr mp) (mp_nt mp)
    \<and> mset (sorted_lanes mp) = mset (mp_lanes mp)"
proof -
  let ?nt = "mp_nt mp" and ?nr = "mp_nr mp" and ?ls = "mp_lanes mp"
  from assms have pos: "0 < ?nt" "0 < ?nr" and len: "int (length ?ls) = ?nt * ?nr"
    and cover: "set (map lane_position ?ls) = set (port_pairs ?nr ?nt)"
    by (auto simp: make_matrix_profile_swap_def split: if_splits)
  have dp: "distinct (port_pairs ?nr ?nt)" by (simp add: port_pairs_def distinct_product)
  have lp: "length (port_pairs ?nr ?nt) = nat (?nt * ?nr)"
    using pos by (simp add: port_pairs_def nat_mult_distrib mult.commute)
  have dl: "distinct (map lane_position ?ls)"
  proof (rule card_distinct)
    have "card (set (map lane_position ?ls)) = length (port_pairs ?nr ?nt)"
      unfolding cover using dp by (rule distinct_card)
    with lp len show "card (set (map lane_position ?ls)) = length (map lane_position ?ls)" by simp
  qed
  have ms: "mset (map lane_position ?ls) = mset (port_pairs ?nr ?nt)"
    using dl dp cover by (simp only: set_eq_iff_mset_eq_distinct)
  define key where "key (l :: lane_profile) = rx_port l * ?nt + tx_port l" for l
  have sl: "sorted_lanes mp = sort_key key ?ls" by (simp add: sorted_lanes_def key_def [abs_def])
  have key: "map key (sort_key key ?ls) = map (port_index ?nt) (map lane_position (sort_key key ?ls))"
    by (simp add: key_def port_index_def lane_position_def)
  have "mset (map (port_index ?nt) (map lane_position (sort_key key ?ls)))
      = mset (map (port_index ?nt) (port_pairs ?nr ?nt))"
    using ms by (simp only: mset_map mset_sort)
  moreover have "sorted (map (port_index ?nt) (map lane_position (sort_key key ?ls)))"
    unfolding key [symmetric] by simp
  moreover have "sorted (map (port_index ?nt) (port_pairs ?nr ?nt))"
    unfolding port_pairs_def by (rule sorted_product) (auto simp: sorted_wrt_upto)
  ultimately have eq: "map (port_index ?nt) (map lane_position (sort_key key ?ls))
      = map (port_index ?nt) (port_pairs ?nr ?nt)"
    by (metis properties_for_sort)
  have "set (map lane_position (sort_key key ?ls)) = set (port_pairs ?nr ?nt)" using cover by simp
  moreover have "set (port_pairs ?nr ?nt) \<subseteq> {pos. 0 \<le> snd pos \<and> snd pos < ?nt}"
    by (auto simp: port_pairs_def)
  ultimately have "inj_on (port_index ?nt)
      (set (map lane_position (sort_key key ?ls)) \<union> set (port_pairs ?nr ?nt))"
    using port_index_inj [of ?nt] by (auto intro: inj_on_subset)
  from inj_on_map_eq_map [OF this] eq have
    "map lane_position (sort_key key ?ls) = port_pairs ?nr ?nt" by blast
  then show ?thesis by (simp add: sl)
qed

section \<open>Witnesses\<close>

definition unit_lib :: mathlib where
  "unit_lib = \<lparr>m_abs = (\<lambda>c. fabs (c_re c)), m_log10 = (\<lambda>x. Fin 0), m_phase = (\<lambda>_. Fin 0), m_degrees = id\<rparr>"

definition unit_ray :: ray where
  "unit_ray = \<lparr>delay_seconds = Fin 0, coefficient = \<lparr>c_re = Fin 1, c_im = Fin 0\<rparr>, doppler_hz = Fin 0\<rparr>"

lemma unit_bins:
  "foldR (bin_step unit_lib (default_params (Fin 1))) [unit_ray] []
     = Ok [(0, \<lparr>c_re = Fin 1, c_im = Fin 0\<rparr>)]"
  by (simp add: bin_step_def ray_bin_def default_params_def unit_lib_def unit_ray_def add_to_bin_def
      cadd_def czero_def feq_def bin_delay_def float_of_int_def fround_def int_of_rat_def rhe_def)

theorem bins_are_coherent_sums_witness:
  "map_of [(0, \<lparr>c_re = Fin 1, c_im = Fin 0\<rparr>)] (0 :: int) = Some (coherent_sum [coefficient unit_ray])"
proof -
  have "rays_in_bin unit_lib (default_params (Fin 1)) 0 [unit_ray] = [unit_ray]"
    by (simp add: rays_in_bin_def ray_bin_def default_params_def unit_lib_def unit_ray_def feq_def
        bin_delay_def float_of_int_def fround_def int_of_rat_def rhe_def)
  then show ?thesis using bins_are_coherent_sums [OF unit_bins, of 0] by simp
qed

definition two_candidates :: "candidate list" where
  "two_candidates = [(0, czero, Fin 0), (1, \<lparr>c_re = Fin 1, c_im = Fin 0\<rparr>, Fin 0)]"

theorem selection_keeps_strongest_witness:
  "length (select_candidates unit_lib ((default_params (Fin 1))\<lparr>max_taps := 1\<rparr>) two_candidates) = 1"
proof -
  have "cand_magnitude unit_lib c \<noteq> NaN" if "c \<in> set two_candidates" for c
    using that by (auto simp: two_candidates_def cand_magnitude_def unit_lib_def czero_def)
  moreover have "distinct two_candidates" and "length two_candidates = 2"
    by (simp_all add: two_candidates_def)
  ultimately show ?thesis
    using selection_keeps_strongest [of two_candidates unit_lib "(default_params (Fin 1))\<lparr>max_taps := 1\<rparr>"]
    by simp
qed

theorem rays_to_taps_shape_witness:
  "\<exists>taps. rays_to_taps unit_lib (default_params (Fin 1)) [unit_ray] = Ok taps \<and> int (length taps) \<le> 32"
proof -
  have "\<exists>taps. rays_to_taps unit_lib (default_params (Fin 1)) [unit_ray] = Ok taps"
    unfolding rays_to_taps_def unit_bins
    by (simp add: check_params_def candidate_of_def select_candidates_def map_filter_def
        sort_desc_def tap_of_def bin_delay_def float_of_int_def default_params_def unit_lib_def feq_def
        float_eval fmin_def Let_def)
  then obtain taps where t: "rays_to_taps unit_lib (default_params (Fin 1)) [unit_ray] = Ok taps" ..
  from rays_to_taps_shape [OF t] t show ?thesis by (auto simp: default_params_def)
qed

definition one_tap :: tap where
  "one_tap = \<lparr>delay_samples = Fin 0, gain_db = Fin 0, phase_rad = Fin 0\<rparr>"

definition two_lanes :: matrix_profile where
  "two_lanes = \<lparr>mp_nt = 2, mp_nr = 1,
     mp_lanes = [\<lparr>rx_port = 0, tx_port = 1, lane_taps = [one_tap]\<rparr>, \<lparr>rx_port = 0, tx_port = 0, lane_taps = [one_tap]\<rparr>]\<rparr>"

theorem matrix_lanes_row_major_witness:
  "map lane_position (sorted_lanes two_lanes) = [(0, 0), (0, 1)]"
proof -
  have p: "port_pairs 1 2 = [(0, 0), (0, 1)]" by code_simp
  have "\<exists>m. make_matrix_profile_swap ''l'' two_lanes None None = Ok m"
    by (auto simp: make_matrix_profile_swap_def two_lanes_def p lane_position_def)
  then show ?thesis using matrix_lanes_row_major p by (auto simp: two_lanes_def)
qed

end
