(* ===== verification/ControlBatch.thy ===== *)
theory ControlBatch
  imports ChannelAdapter
begin

text \<open>
  Both ends of the control plane's atomic profile batches: the REQ client of the bridge
  (\<open>ZmqControlClient\<close> in \<^verbatim>\<open>apps/sionna_bridge/channel_adapter.py\<close>) and the batch handlers of the
  C++ control server (\<^verbatim>\<open>src/control_server.cpp\<close>). The contract between them is the locale
  \<open>control_server\<close>; the client's all-or-nothing theorem is proved against the contract and then
  instantiated with the server's handlers. The network may lose requests and replies; a REQ socket
  whose reply was lost refuses every later send, as ZeroMQ documents.
\<close>

section \<open>The server's batch handlers\<close>

record link_ctl =
  lc_profile :: pydict
  lc_profile_pending :: bool
  lc_matrix :: pydict
  lc_matrix_pending :: bool
  lc_take_effect :: nat
  lc_seqno :: "32 word"
  lc_slot :: nat

record server =
  srv_links :: "(string \<times> link_ctl) list"
  srv_open :: "(string \<times> pydict list) list"
  srv_received :: nat
  srv_applied :: nat
  srv_committed :: nat
  srv_aborted :: nat
  srv_rejected :: nat

definition rejection :: "string \<Rightarrow> server \<Rightarrow> pydict \<times> server" where
  "rejection reason s =
     ([(''ok'', VBool False), (''error'', VStr reason)], s\<lparr>srv_rejected := srv_rejected s + 1\<rparr>)"

definition str_field :: "string \<Rightarrow> pydict \<Rightarrow> string option" where
  "str_field k m = (case vget k m of VStr v \<Rightarrow> Some v | _ \<Rightarrow> None)"

definition handle_batch_begin :: "pydict \<Rightarrow> server \<Rightarrow> pydict \<times> server" where
  "handle_batch_begin m s =
     (case str_field ''id'' m of
        None \<Rightarrow> rejection ''batch_begin: missing or non-string id'' s
      | Some b \<Rightarrow>
          if b = [] then rejection ''batch_begin: id must be non-empty'' s
          else if map_of (srv_open s) b \<noteq> None then rejection ''batch_begin: id already open'' s
          else ([(''ok'', VBool True), (''batch_id'', VStr b)],
                s\<lparr>srv_open := AList.update b [] (srv_open s)\<rparr>))"

text \<open>What applying a staged swap does to its link; a link that vanished is skipped.\<close>

definition install_swap :: "nat \<Rightarrow> pydict \<Rightarrow> (string \<times> link_ctl) list \<Rightarrow> (string \<times> link_ctl) list" where
  "install_swap apply_at m links =
     (case str_field ''link_id'' m of
        None \<Rightarrow> links
      | Some l \<Rightarrow>
          (case map_of links l of
             None \<Rightarrow> links
           | Some c \<Rightarrow>
               AList.update l
                 ((if vget ''type'' m = VStr ''profile_swap''
                   then c\<lparr>lc_profile := m, lc_profile_pending := True, lc_matrix_pending := False\<rparr>
                   else c\<lparr>lc_matrix := m, lc_matrix_pending := True, lc_profile_pending := False\<rparr>)
                  \<lparr>lc_take_effect := apply_at, lc_seqno := lc_seqno c + 1\<rparr>) links))"

text \<open>A profile swap with a batch id is staged. The field checks of the two swap messages (tap ranges, the
  prepared matrix dimensions, the options) are the argument \<open>valid\<close>: nothing below depends on which
  messages they refuse.\<close>

definition stage_swap_op :: "(pydict \<Rightarrow> bool) \<Rightarrow> pydict \<Rightarrow> server \<Rightarrow> pydict \<times> server" where
  "stage_swap_op valid m s =
     (case str_field ''link_id'' m of
        None \<Rightarrow> rejection ''missing or non-string link_id'' s
      | Some l \<Rightarrow>
          if map_of (srv_links s) l = None then rejection ''unknown link_id'' s
          else if \<not> valid m then rejection ''invalid profile'' s
          else (case str_field ''batch_id'' m of
                  None \<Rightarrow> rejection ''batch_id must be a string'' s
                | Some b \<Rightarrow>
                    if b = [] then rejection ''batch_id must be non-empty when present'' s
                    else case map_of (srv_open s) b of
                           None \<Rightarrow> rejection ''unknown batch_id'' s
                         | Some ops \<Rightarrow>
                             ([(''ok'', VBool True), (''staged'', VBool True)],
                              s\<lparr>srv_open := AList.update b (ops @ [m]) (srv_open s), srv_applied := srv_applied s + 1\<rparr>)))"

text \<open>A JSON number, or the default when the field is absent.\<close>

definition number_field :: "string \<Rightarrow> pyfloat \<Rightarrow> pydict \<Rightarrow> pyfloat option" where
  "number_field k d m =
     (case map_of m k of
        None \<Rightarrow> Some d
      | Some (VInt i) \<Rightarrow> Some (Fin (of_int i))
      | Some (VFloat x) \<Rightarrow> Some x
      | _ \<Rightarrow> None)"

definition effective_slot :: "nat \<Rightarrow> link_ctl \<Rightarrow> nat" where
  "effective_slot apply_at c = (if lc_slot c < apply_at then apply_at else lc_slot c + 1)"

text \<open>The acknowledgement rows: one per link, with its sequence number after the batch.\<close>

definition ack_row :: "nat \<Rightarrow> (string \<times> link_ctl) list \<Rightarrow> string \<Rightarrow> pyval" where
  "ack_row apply_at links l =
     (case map_of links l of
        None \<Rightarrow> VNone
      | Some c \<Rightarrow> VDict [(''link_id'', VStr l), (''seqno'', VInt (uint (lc_seqno c))),
          (''warmup_until_slot'', VInt (int (effective_slot apply_at c + 1)))])"

definition applied_links :: "pydict list \<Rightarrow> (string \<times> link_ctl) list \<Rightarrow> string list" where
  "applied_links ops links =
     filter (\<lambda>l. map_of links l \<noteq> None) (List.map_filter (str_field ''link_id'') ops)"

definition handle_batch_commit :: "string \<Rightarrow> pydict \<Rightarrow> server \<Rightarrow> pydict \<times> server" where
  "handle_batch_commit backend m s =
     (case str_field ''id'' m of
        None \<Rightarrow> rejection ''batch_commit: missing or non-string id'' s
      | Some b \<Rightarrow>
          (case map_of (srv_open s) b of
             None \<Rightarrow> rejection ''batch_commit: unknown id'' s
           | Some ops \<Rightarrow>
               (case number_field ''take_effect_at_slot'' (Fin 0) m of
                  None \<Rightarrow> rejection ''take_effect_at_slot is not a number'' s
                | Some tea \<Rightarrow>
                    if flt tea (Fin 0) then rejection ''batch_commit: take_effect_at_slot must be >= 0'' s
                    else
                    let apply_at = (case ftrunc tea of Inr i \<Rightarrow> nat i | Inl _ \<Rightarrow> 0);
                        links = fold (install_swap apply_at) ops (srv_links s);
                        applied = applied_links ops (srv_links s)
                    in ([(''ok'', VBool True), (''batch_id'', VStr b),
                         (''backend'', VStr (if backend = [] then ''unknown'' else backend)),
                         (''link_count'', VInt (int (length applied))),
                         (''apply_at_slot'', VInt (int apply_at)),
                         (''links'', VList (map (ack_row apply_at links) (remdups applied)))],
                        s\<lparr>srv_links := links, srv_open := dict_pop b (srv_open s),
                          srv_committed := srv_committed s + 1\<rparr>))))"

definition handle_batch_abort :: "pydict \<Rightarrow> server \<Rightarrow> pydict \<times> server" where
  "handle_batch_abort m s =
     (case str_field ''id'' m of
        None \<Rightarrow> rejection ''batch_abort: missing or non-string id'' s
      | Some b \<Rightarrow>
          (case map_of (srv_open s) b of
             None \<Rightarrow> rejection ''batch_abort: unknown id'' s
           | Some ops \<Rightarrow>
               ([(''ok'', VBool True), (''dropped_ops'', VInt (int (length ops)))],
                s\<lparr>srv_open := dict_pop b (srv_open s), srv_aborted := srv_aborted s + 1\<rparr>)))"

definition received :: "server \<Rightarrow> server" where
  "received s = s\<lparr>srv_received := srv_received s + 1\<rparr>"

lemma received_simps [simp]: "srv_links (received s) = srv_links s" "srv_open (received s) = srv_open s"
  by (simp_all add: received_def)

text \<open>The dispatch on the message type. The messages that are not part of a batch (scalar updates, the
  default type; correlation swaps; swaps without a batch id) go to \<open>other\<close>.\<close>

definition handle_message ::
  "(pydict \<Rightarrow> bool) \<Rightarrow> (pydict \<Rightarrow> server \<Rightarrow> pydict \<times> server) \<Rightarrow> string \<Rightarrow> pydict \<Rightarrow> server
     \<Rightarrow> pydict \<times> server" where
  "handle_message valid other backend m s0 =
     (let s = received s0 in
      case vget_or ''type'' (VStr ''scalar'') m of
        VStr t \<Rightarrow>
          if (t = ''profile_swap'' \<or> t = ''matrix_profile_swap'') \<and> map_of m ''batch_id'' \<noteq> None
          then stage_swap_op valid m s
          else if t = ''batch_begin'' then handle_batch_begin m s
          else if t = ''batch_commit'' then handle_batch_commit backend m s
          else if t = ''batch_abort'' then handle_batch_abort m s
          else other m s
      | _ \<Rightarrow> rejection ''type must be a string'' s)"

section \<open>The client\<close>

text \<open>What the network does to one request.\<close>

datatype transport = Delivered | ReplyLost | RequestLost | SendTimeout

record chan =
  ch_awaiting :: bool
  ch_count :: nat

type_synonym 's link_state = "chan \<times> 's"

definition timed_out :: py_error where "timed_out = RuntimeError ''control request timed out''"
definition was_rejected :: py_error where "was_rejected = RuntimeError ''control request rejected''"
definition efsm :: py_error where
  "efsm = ZmqError ''Operation cannot be accomplished in current state''"

definition request ::
  "(pydict \<Rightarrow> 's \<Rightarrow> pydict \<times> 's) \<Rightarrow> (nat \<Rightarrow> transport) \<Rightarrow> pydict \<Rightarrow> 's link_state
     \<Rightarrow> pydict result \<times> 's link_state" where
  "request serve net m st =
     (case st of (c, s) \<Rightarrow>
        if ch_awaiting c then (Err efsm, (c, s))
        else let c = c\<lparr>ch_count := ch_count c + 1\<rparr>
             in case net (ch_count c) of
                  SendTimeout \<Rightarrow> (Err timed_out, (c, s))
                | RequestLost \<Rightarrow> (Err timed_out, (c\<lparr>ch_awaiting := True\<rparr>, s))
                | ReplyLost \<Rightarrow> (Err timed_out, (c\<lparr>ch_awaiting := True\<rparr>, snd (serve m s)))
                | Delivered \<Rightarrow>
                    (case serve m s of (reply, s') \<Rightarrow>
                       (if truthy (vget_or ''ok'' (VBool False) reply) then Ok reply
                        else Err was_rejected, (c, s'))))"

definition batch_msg :: "string \<Rightarrow> string \<Rightarrow> pydict" where
  "batch_msg kind batch_id = [(''type'', VStr kind), (''id'', VStr batch_id)]"

text \<open>The loop over the profiles: building a message may raise, and so may sending it.\<close>

fun send_swaps ::
  "(pydict \<Rightarrow> 's \<Rightarrow> pydict \<times> 's) \<Rightarrow> (nat \<Rightarrow> transport) \<Rightarrow> pydict result list \<Rightarrow> 's link_state
     \<Rightarrow> unit result \<times> 's link_state" where
  "send_swaps serve net [] st = (Ok (), st)"
| "send_swaps serve net (m # ms) st =
     (case m of
        Inl e \<Rightarrow> (Err e, st)
      | Inr msg \<Rightarrow>
          (case request serve net msg st of
             (Inl e, st') \<Rightarrow> (Err e, st')
           | (Inr _, st') \<Rightarrow> send_swaps serve net ms st'))"

definition send_batch ::
  "(pydict \<Rightarrow> 's \<Rightarrow> pydict \<times> 's) \<Rightarrow> (nat \<Rightarrow> transport) \<Rightarrow> pydict result list \<Rightarrow> string \<Rightarrow> 's link_state
     \<Rightarrow> pydict result \<times> 's link_state" where
  "send_batch serve net ms batch_id st =
     (case request serve net (batch_msg ''batch_begin'' batch_id) st of
        (Inl e, st1) \<Rightarrow> (Err e, st1)
      | (Inr _, st1) \<Rightarrow>
          (case (case send_swaps serve net ms st1 of
                   (Inl e, st2) \<Rightarrow> (Err e, st2)
                 | (Inr _, st2) \<Rightarrow> request serve net (batch_msg ''batch_commit'' batch_id) st2) of
             (Inr reply, st3) \<Rightarrow> (Ok reply, st3)
           | (Inl e, st3) \<Rightarrow>
               (Err e, snd (request serve net (batch_msg ''batch_abort'' batch_id) st3))))"

definition send_profiles ::
  "(pydict \<Rightarrow> 's \<Rightarrow> pydict \<times> 's) \<Rightarrow> (nat \<Rightarrow> transport) \<Rightarrow> (string \<times> tap list) list \<Rightarrow> string
     \<Rightarrow> 's link_state \<Rightarrow> pydict result \<times> 's link_state" where
  "send_profiles serve net profiles batch_id st =
     send_batch serve net
       (map (\<lambda>(l, taps). make_profile_swap l taps (Some batch_id) None) profiles) batch_id st"

definition send_matrix_profiles ::
  "(pydict \<Rightarrow> 's \<Rightarrow> pydict \<times> 's) \<Rightarrow> (nat \<Rightarrow> transport) \<Rightarrow> (string \<times> matrix_profile) list \<Rightarrow> string
     \<Rightarrow> 's link_state \<Rightarrow> pydict result \<times> 's link_state" where
  "send_matrix_profiles serve net profiles batch_id st =
     send_batch serve net
       (map (\<lambda>(l, mp). make_matrix_profile_swap l mp (Some batch_id) None) profiles) batch_id st"

section \<open>The contract\<close>

definition reply_ok :: "pydict \<Rightarrow> bool" where
  "reply_ok r = truthy (vget_or ''ok'' (VBool False) r)"

definition is_swap :: "pydict \<Rightarrow> string \<Rightarrow> bool" where
  "is_swap m b \<longleftrightarrow> str_field ''batch_id'' m = Some b
     \<and> (str_field ''type'' m = Some ''profile_swap'' \<or> str_field ''type'' m = Some ''matrix_profile_swap'')"

text \<open>What the client relies on: nothing but a commit touches the installed profiles, an accepted swap is
  appended to its open batch, an accepted commit installs exactly the batch, in order.\<close>

text \<open>The messages of a batch that could be built.\<close>

definition built :: "pydict result list \<Rightarrow> pydict list" where
  "built ms = List.map_filter (\<lambda>m. case m of Inr x \<Rightarrow> Some x | Inl _ \<Rightarrow> None) ms"

lemma built_simps [simp]: "built [] = []" "built (Inr x # ms) = x # built ms" "built (Inl e # ms) = built ms"
  by (simp_all add: built_def map_filter_def)

locale control_server =
  fixes serve :: "pydict \<Rightarrow> 's \<Rightarrow> pydict \<times> 's"
    and installed :: "'s \<Rightarrow> 'v" and staged :: "'s \<Rightarrow> string \<Rightarrow> pydict list option"
    and install :: "pydict \<Rightarrow> 'v \<Rightarrow> 'v"
  assumes begin_batch: "serve (batch_msg ''batch_begin'' b) s = (r, s') \<Longrightarrow>
      installed s' = installed s \<and> (reply_ok r \<longrightarrow> staged s' b = Some [])"
    and stage_swap: "is_swap m b \<Longrightarrow> serve m s = (r, s') \<Longrightarrow>
      installed s' = installed s
      \<and> (reply_ok r \<longrightarrow> (\<exists>ms. staged s b = Some ms \<and> staged s' b = Some (ms @ [m])))"
    and commit_batch: "serve (batch_msg ''batch_commit'' b) s = (r, s') \<Longrightarrow>
      (if reply_ok r then \<exists>ms. staged s b = Some ms \<and> installed s' = fold install ms (installed s)
       else installed s' = installed s)"
    and commit_staged: "staged s b = Some ms \<Longrightarrow> reply_ok (fst (serve (batch_msg ''batch_commit'' b) s))"
    and abort_batch: "serve (batch_msg ''batch_abort'' b) s = (r, s') \<Longrightarrow>
      installed s' = installed s \<and> staged s' b = None"
begin

lemma request_ok:
  assumes "request serve net m (c, s) = (Ok r, (c', s'))"
  shows "serve m s = (r, s')" and "reply_ok r" and "\<not> ch_awaiting c'"
  using assms by (auto simp: request_def Let_def reply_ok_def split: if_splits transport.splits prod.splits)

lemma request_cases:
  assumes "request serve net m (c, s) = (res, (c', s'))"
  shows "s' = s \<or> s' = snd (serve m s)"
  using assms by (auto simp: request_def Let_def split: if_splits transport.splits prod.splits)

lemma swaps_staged:
  assumes "send_swaps serve net ms (c, s) = (res, (c', s'))"
    and "\<And>m. Inr m \<in> set ms \<Longrightarrow> is_swap m b" and "staged s b = Some done"
  shows "installed s' = installed s
    \<and> (res = Ok () \<longrightarrow> staged s' b = Some (done @ built ms)
         \<and> (\<forall>m \<in> set ms. \<exists>x. m = Inr x))"
  using assms
proof (induction ms arbitrary: c s "done")
  case Nil
  then show ?case by simp
next
  case (Cons m ms)
  show ?case
  proof (cases m)
    case (Inl e)
    with Cons.prems show ?thesis by auto
  next
    case (Inr x)
    obtain r c1 s1 where q: "request serve net x (c, s) = (r, (c1, s1))" by (metis prod_cases3)
    have sw: "is_swap x b" using Cons.prems(2) Inr by simp
    have i1: "installed s1 = installed s"
      using request_cases [OF q] stage_swap [OF sw] by (metis prod.exhaust_sel)
    show ?thesis
    proof (cases r)
      case (Inl e)
      with Cons.prems(1) Inr q i1 show ?thesis by auto
    next
      case (Inr y)
      from request_ok [OF q [unfolded Inr]] stage_swap [OF sw, of s] Cons.prems(3)
      have st: "staged s1 b = Some (done @ [x])" by auto
      have "send_swaps serve net ms (c1, s1) = (res, (c', s'))"
        using Cons.prems(1) \<open>m = Inr x\<close> q Inr by simp
      from Cons.IH [OF this _ st] Cons.prems(2) i1 \<open>m = Inr x\<close> show ?thesis
        by auto
    qed
  qed
qed

lemma abort_keeps:
  "installed (snd (snd (request serve net (batch_msg ''batch_abort'' b) (c, s)))) = installed s"
  using request_cases [of net "batch_msg ''batch_abort'' b" c s] abort_batch [of b s]
  by (metis prod.collapse)

lemma commit_step:
  assumes "request serve net (batch_msg ''batch_commit'' b) (c, s) = (res, (c', s'))"
    and "staged s b = Some ms"
  shows "installed s' = fold install ms (installed s) \<and> (res = Err timed_out \<or> (\<exists>r. res = Ok r))
    \<or> (\<exists>e. res = Err e) \<and> installed s' = installed s"
proof -
  obtain r s1 where sv: "serve (batch_msg ''batch_commit'' b) s = (r, s1)" by fastforce
  have ok: "reply_ok r" using commit_staged [OF assms(2)] sv by simp
  have "installed s1 = fold install ms (installed s)"
    using commit_batch [OF sv] ok assms(2) by auto
  with sv ok assms(1) show ?thesis
    by (auto simp: request_def Let_def reply_ok_def split: if_splits transport.splits)
qed

text \<open>All or nothing, whatever the network loses.\<close>

lemma batch_atomic:
  assumes "send_batch serve net ms b (c, s) = (res, (c', s'))"
    and swaps: "\<And>m. Inr m \<in> set ms \<Longrightarrow> is_swap m b"
  shows "(\<exists>e. res = Err e) \<and> installed s' = installed s
    \<or> (res = Err timed_out \<or> (\<exists>r. res = Ok r)) \<and> (\<forall>m \<in> set ms. \<exists>x. m = Inr x)
       \<and> installed s' = fold install (built ms) (installed s)"
proof -
  obtain r1 c1 s1 where q1: "request serve net (batch_msg ''batch_begin'' b) (c, s) = (r1, (c1, s1))"
    by (metis prod_cases3)
  have i1: "installed s1 = installed s"
    using request_cases [OF q1] begin_batch by (metis prod.exhaust_sel)
  show ?thesis
  proof (cases r1)
    case (Inl e)
    with assms(1) q1 i1 show ?thesis by (auto simp: send_batch_def)
  next
    case o1: (Inr y)
    have st1: "staged s1 b = Some []" using request_ok [OF q1 [unfolded o1]] begin_batch by blast
    obtain r2 c2 s2 where q2: "send_swaps serve net ms (c1, s1) = (r2, (c2, s2))" by (metis prod_cases3)
    note sw = swaps_staged [OF q2 swaps st1]
    have i2: "installed s2 = installed s" using sw [THEN conjunct1] i1 by simp
    show ?thesis
    proof (cases r2)
      case e2: (Inl e)
      have "send_batch serve net ms b (c, s) =
          (Err e, snd (request serve net (batch_msg ''batch_abort'' b) (c2, s2)))"
        using q1 o1 q2 e2 by (simp add: send_batch_def)
      with assms(1) have "snd (request serve net (batch_msg ''batch_abort'' b) (c2, s2)) = (c', s')"
        and re: "res = Err e" by simp_all
      then have "installed s' = installed s" using abort_keeps [of net b c2 s2] i2 by simp
      with re show ?thesis by blast
    next
      case o2: (Inr u)
      have st2: "staged s2 b = Some (built ms)" and all: "\<forall>m \<in> set ms. \<exists>x. m = Inr x"
        using sw o2 by simp_all
      obtain r3 c3 s3 where q3: "request serve net (batch_msg ''batch_commit'' b) (c2, s2) = (r3, (c3, s3))"
        by (metis prod_cases3)
      note co = commit_step [OF q3 st2, unfolded i2]
      have "res = r3 \<and> installed s' = installed s3"
      proof (cases r3)
        case (Inr reply)
        have "send_batch serve net ms b (c, s) = (Ok reply, (c3, s3))"
          using q1 o1 q2 o2 q3 Inr by (simp add: send_batch_def)
        with assms(1) Inr show ?thesis by simp
      next
        case (Inl e)
        have "send_batch serve net ms b (c, s) =
            (Err e, snd (request serve net (batch_msg ''batch_abort'' b) (c3, s3)))"
          using q1 o1 q2 o2 q3 Inl by (simp add: send_batch_def)
        with assms(1) have "snd (request serve net (batch_msg ''batch_abort'' b) (c3, s3)) = (c', s')"
          and "res = Err e" by simp_all
        with Inl show ?thesis using abort_keeps [of net b c3 s3] by simp
      qed
      with co all show ?thesis by metis
    qed
  qed
qed

end

section \<open>The contract holds of the server\<close>

lemma batch_msg_fields:
  "vget_or ''type'' d (batch_msg k b) = VStr k" "str_field ''id'' (batch_msg k b) = Some b"
  "number_field ''take_effect_at_slot'' x (batch_msg k b) = Some x"
  by (simp_all add: vget_or_def vget_def str_field_def batch_msg_def number_field_def)

lemma reply_ok_flag: "reply_ok ((''ok'', VBool v) # r) = v"
  by (simp add: reply_ok_def vget_or_def)

lemma rejection_not_ok: "\<not> reply_ok (fst (rejection x s))"
  "srv_links (snd (rejection x s)) = srv_links s"
  by (simp_all add: rejection_def reply_ok_flag)

lemma rejection_cases: "rejection x s = (r, s') \<Longrightarrow> \<not> reply_ok r \<and> srv_links s' = srv_links s"
  using rejection_not_ok [of x s] by simp

text \<open>Every message of the stated batch kinds, the swaps of the dispatch.\<close>

lemma swap_dispatch:
  assumes "is_swap m b"
  shows "handle_message valid other backend m s = stage_swap_op valid m (received s)"
  using assms
  by (auto simp: is_swap_def handle_message_def Let_def str_field_def vget_def vget_or_def
      split: option.splits pyval.splits)

lemma batch_dispatch:
  "handle_message valid other backend (batch_msg ''batch_begin'' b) s = handle_batch_begin (batch_msg ''batch_begin'' b) (received s)"
  "handle_message valid other backend (batch_msg ''batch_commit'' b) s = handle_batch_commit backend (batch_msg ''batch_commit'' b) (received s)"
  "handle_message valid other backend (batch_msg ''batch_abort'' b) s = handle_batch_abort (batch_msg ''batch_abort'' b) (received s)"
  by (simp_all add: handle_message_def batch_msg_fields Let_def)

interpretation ctl: control_server "handle_message valid other backend" srv_links
    "\<lambda>s b. map_of (srv_open s) b" "install_swap 0" for valid other backend
proof
  fix b r and s s' :: server
  assume "handle_message valid other backend (batch_msg ''batch_begin'' b) s = (r, s')"
  then show "srv_links s' = srv_links s \<and> (reply_ok r \<longrightarrow> map_of (srv_open s') b = Some [])"
    by (auto simp: batch_dispatch handle_batch_begin_def batch_msg_fields map_of_update
        split: if_splits dest!: rejection_cases)
next
  fix m b r and s s' :: server
  assume "is_swap m b" and "handle_message valid other backend m s = (r, s')"
  then show "srv_links s' = srv_links s \<and>
      (reply_ok r \<longrightarrow> (\<exists>ms. map_of (srv_open s) b = Some ms \<and> map_of (srv_open s') b = Some (ms @ [m])))"
    by (auto simp: swap_dispatch stage_swap_op_def is_swap_def map_of_update
        split: if_splits option.splits dest!: rejection_cases)
next
  fix b r and s s' :: server
  assume "handle_message valid other backend (batch_msg ''batch_commit'' b) s = (r, s')"
  then show "if reply_ok r then \<exists>ms. map_of (srv_open s) b = Some ms
      \<and> srv_links s' = fold (install_swap 0) ms (srv_links s) else srv_links s' = srv_links s"
    by (auto simp: batch_dispatch handle_batch_commit_def batch_msg_fields Let_def reply_ok_flag ftrunc_def
        int_of_rat_def split: if_splits option.splits dest!: rejection_cases)
next
  fix b ms and s :: server
  assume "map_of (srv_open s) b = Some ms"
  then show "reply_ok (fst (handle_message valid other backend (batch_msg ''batch_commit'' b) s))"
    by (simp add: batch_dispatch handle_batch_commit_def batch_msg_fields Let_def reply_ok_flag)
next
  fix b r and s s' :: server
  assume "handle_message valid other backend (batch_msg ''batch_abort'' b) s = (r, s')"
  then show "srv_links s' = srv_links s \<and> map_of (srv_open s') b = None"
    by (auto simp: batch_dispatch handle_batch_abort_def batch_msg_fields map_of_dict_pop rejection_def
        split: option.splits)
qed

section \<open>The batches of the bridge\<close>

lemma profile_swap_is_swap:
  "make_profile_swap l taps (Some b) slot = Ok m \<Longrightarrow> is_swap m b \<and> str_field ''link_id'' m = Some l"
  by (cases slot) (auto simp: make_profile_swap_def add_options_def is_swap_def str_field_def vget_def Let_def
      split: if_splits)

lemma matrix_swap_is_swap:
  "make_matrix_profile_swap l mp (Some b) slot = Ok m \<Longrightarrow> is_swap m b \<and> str_field ''link_id'' m = Some l"
  by (cases slot) (auto simp: make_matrix_profile_swap_def add_options_def is_swap_def str_field_def vget_def Let_def
      split: if_splits)

definition matrix_messages :: "(string \<times> matrix_profile) list \<Rightarrow> string \<Rightarrow> pydict result list" where
  "matrix_messages profiles b =
     map (\<lambda>(l, mp). make_matrix_profile_swap l mp (Some b) None) profiles"

definition fresh_chan :: chan where "fresh_chan = \<lparr>ch_awaiting = False, ch_count = 0\<rparr>"

text \<open>The length of the built messages when every profile could be built.\<close>

lemma built_all: "\<forall>m \<in> set ms. \<exists>x. m = Inr x \<Longrightarrow> map Inr (built ms) = ms"
  by (induction ms) auto

text \<open>The atomicity of a matrix batch, for the theories that build on it.\<close>

lemma matrix_batch_all_or_nothing:
  assumes "send_matrix_profiles (handle_message valid other backend) net profiles b (c, s) = (res, (c', s'))"
  shows "(case res of Inl e \<Rightarrow> e = timed_out \<or> srv_links s' = srv_links s | Inr _ \<Rightarrow> True)
    \<and> ((\<exists>e. res = Err e) \<and> srv_links s' = srv_links s
      \<or> (\<exists>ms. map Inr ms = matrix_messages profiles b
           \<and> srv_links s' = fold (install_swap 0) ms (srv_links s)))"
proof -
  let ?ms = "matrix_messages profiles b"
  have sb: "send_batch (handle_message valid other backend) net ?ms b (c, s) = (res, (c', s'))"
    using assms by (simp add: send_matrix_profiles_def matrix_messages_def)
  have sw: "is_swap m b" if "Inr m \<in> set ?ms" for m
  proof -
    from that obtain l mp where "make_matrix_profile_swap l mp (Some b) None = Inr m"
      by (auto simp: matrix_messages_def)
    then show ?thesis by (rule matrix_swap_is_swap [THEN conjunct1])
  qed
  from ctl.batch_atomic [OF sb sw] show ?thesis using built_all [of ?ms] by (auto split: sum.split)
qed

text \<open>C10. Whatever the network loses, a matrix batch either leaves every link of the server as it was, or it
  was wholly built and every one of its profiles is installed, in order. An error other than a time-out
  of the control request means that nothing was installed, a reply means that everything was.\<close>

theorem matrix_batch_atomic:
  assumes "send_matrix_profiles (handle_message valid other backend) net profiles b (c, s) = (res, (c', s'))"
  shows "(case res of Inl e \<Rightarrow> e = timed_out \<or> srv_links s' = srv_links s | Inr _ \<Rightarrow> True)
    \<and> ((\<exists>e. res = Err e) \<and> srv_links s' = srv_links s
      \<or> (\<exists>ms. map Inr ms = matrix_messages profiles b
           \<and> srv_links s' = fold (install_swap 0) ms (srv_links s)))"
  using assms by (rule matrix_batch_all_or_nothing)

text \<open>On a network that delivers, a batch for known links goes through: every request is answered with
  \<open>ok\<close> and the batch is closed.\<close>

lemma delivered_request:
  assumes "\<not> ch_awaiting c" and "\<And>i. net i = Delivered"
  shows "request serve net m (c, s) =
    (case serve m s of (reply, s') \<Rightarrow>
       (if reply_ok reply then Ok reply else Err was_rejected, (c\<lparr>ch_count := ch_count c + 1\<rparr>, s')))"
  using assms by (simp add: request_def Let_def reply_ok_def)

lemma stage_known:
  assumes "is_swap m b" and "str_field ''link_id'' m = Some l" and "map_of (srv_links s) l \<noteq> None"
    and "valid m" and "b \<noteq> []" and "map_of (srv_open s) b = Some ops"
  shows "handle_message valid other backend m s =
    ([(''ok'', VBool True), (''staged'', VBool True)],
     (received s)\<lparr>srv_open := AList.update b (ops @ [m]) (srv_open s), srv_applied := srv_applied (received s) + 1\<rparr>)"
  using assms by (auto simp: swap_dispatch stage_swap_op_def is_swap_def)

definition acceptable :: "(pydict \<Rightarrow> bool) \<Rightarrow> string \<Rightarrow> server \<Rightarrow> pydict \<Rightarrow> bool" where
  "acceptable valid b s m \<longleftrightarrow> is_swap m b \<and> valid m
     \<and> (case str_field ''link_id'' m of None \<Rightarrow> False | Some l \<Rightarrow> map_of (srv_links s) l \<noteq> None)"

lemma acceptable_open [simp]:
  "acceptable valid b (s\<lparr>srv_open := x\<rparr>) = acceptable valid b s"
  "acceptable valid b (s\<lparr>srv_applied := n\<rparr>) = acceptable valid b s"
  "acceptable valid b (received s) = acceptable valid b s"
  by (simp_all add: acceptable_def fun_eq_iff cong: option.case_cong)

lemma delivered_swaps:
  assumes "\<And>i. net i = Delivered" and "\<not> ch_awaiting c" and "b \<noteq> []"
    and "list_all (acceptable valid b s) ms" and "map_of (srv_open s) b = Some ops"
  shows "\<exists>c' s'. send_swaps (handle_message valid other backend) net (map Inr ms) (c, s) = (Ok (), (c', s'))
    \<and> \<not> ch_awaiting c' \<and> srv_links s' = srv_links s \<and> map_of (srv_open s') b = Some (ops @ ms)"
  using assms(2-)
proof (induction ms arbitrary: c s ops)
  case (Cons m ms)
  let ?c = "c\<lparr>ch_count := ch_count c + 1\<rparr>"
  let ?s = "(received s)\<lparr>srv_open := AList.update b (ops @ [m]) (srv_open s), srv_applied := srv_applied (received s) + 1\<rparr>"
  from Cons.prems obtain l where acc: "is_swap m b" "valid m" "str_field ''link_id'' m = Some l"
    "map_of (srv_links s) l \<noteq> None" by (auto simp: acceptable_def split: option.splits)
  have "request (handle_message valid other backend) net m (c, s) =
      (Ok [(''ok'', VBool True), (''staged'', VBool True)], (?c, ?s))"
    using stage_known [where s = s and valid = valid, OF acc(1,3,4,2) Cons.prems(2, 4)] Cons.prems(1) assms(1)
    by (simp add: delivered_request reply_ok_flag)
  moreover have "\<exists>c' s'. send_swaps (handle_message valid other backend) net (map Inr ms) (?c, ?s) = (Ok (), (c', s'))
      \<and> \<not> ch_awaiting c' \<and> srv_links s' = srv_links ?s \<and> map_of (srv_open s') b = Some ((ops @ [m]) @ ms)"
    by (rule Cons.IH) (use Cons.prems in \<open>simp_all add: map_of_update\<close>)
  ultimately show ?case by auto
qed auto


text \<open>When the answer to a swap of a batch does not come back in time, the abort cannot be sent (the
  REQ socket still waits for the answer), so the server keeps the batch open; a later client that uses
  the same batch id, as the bridge does after a restart since its ids only count iterations, is
  refused.\<close>

theorem lost_answer_blocks_id:
  assumes "net 1 = Delivered" and "net 2 = ReplyLost \<or> net 2 = RequestLost" and "\<And>i. net' i = Delivered"
    and "b \<noteq> []" and "map_of (srv_open s) b = None" and "is_swap m b"
    and run: "send_batch (handle_message valid other backend) net (Inr m # ms) b (fresh_chan, s) = (res, (c', s'))"
  shows "res = Err timed_out \<and> map_of (srv_open s') b \<noteq> None
    \<and> fst (send_batch (handle_message valid other backend) net' ms' b (fresh_chan, s')) = Err was_rejected"
proof -
  let ?h = "handle_message valid other backend"
  let ?c = "\<lparr>ch_awaiting = False, ch_count = 1\<rparr>" and ?s = "(received s)\<lparr>srv_open := AList.update b [] (srv_open s)\<rparr>"
  have q1: "request ?h net (batch_msg ''batch_begin'' b) (fresh_chan, s) =
      (Ok [(''ok'', VBool True), (''batch_id'', VStr b)], (?c, ?s))"
    using assms(1,4,5) by (simp add: request_def Let_def fresh_chan_def batch_dispatch handle_batch_begin_def
        batch_msg_fields reply_ok_flag [unfolded reply_ok_def])
  obtain s2 where q2: "request ?h net m (?c, ?s) = (Err timed_out, (\<lparr>ch_awaiting = True, ch_count = 2\<rparr>, s2))"
    and s2: "s2 = ?s \<or> s2 = snd (?h m ?s)"
    using assms(2) by (auto simp: request_def Let_def numeral_2_eq_2)
  have open2: "map_of (srv_open s2) b \<noteq> None"
    using s2 \<open>is_swap m b\<close>
    by (auto simp: swap_dispatch stage_swap_op_def rejection_def map_of_update split: option.splits if_splits)
  have "send_batch ?h net (Inr m # ms) b (fresh_chan, s) =
      (Err timed_out, (\<lparr>ch_awaiting = True, ch_count = 2\<rparr>, s2))"
    using q1 q2 by (simp add: send_batch_def request_def)
  with run have r: "res = Err timed_out" "s' = s2" by simp_all
  have "request ?h net' (batch_msg ''batch_begin'' b) (fresh_chan, s2) =
      (Err was_rejected, (fresh_chan\<lparr>ch_count := 1\<rparr>, snd (?h (batch_msg ''batch_begin'' b) s2)))"
    using assms(3,4) open2 by (auto simp: request_def Let_def fresh_chan_def batch_dispatch handle_batch_begin_def
        batch_msg_fields rejection_def reply_ok_flag [unfolded reply_ok_def])
  with r open2 show ?thesis by (simp add: send_batch_def)
qed

section \<open>Witnesses\<close>

definition idle_link :: link_ctl where
  "idle_link = \<lparr>lc_profile = [], lc_profile_pending = False, lc_matrix = [], lc_matrix_pending = False,
     lc_take_effect = 0, lc_seqno = 0, lc_slot = 7\<rparr>"

definition one_link_server :: server where
  "one_link_server = \<lparr>srv_links = [(''ue_gnb'', idle_link)], srv_open = [], srv_received = 0, srv_applied = 0, srv_committed = 0, srv_aborted = 0,
     srv_rejected = 0\<rparr>"

definition demo_swap :: pydict where
  "demo_swap = [(''type'', VStr ''profile_swap''), (''link_id'', VStr ''ue_gnb''), (''batch_id'', VStr ''b'')]"

abbreviation demo_serve :: "pydict \<Rightarrow> server \<Rightarrow> pydict \<times> server" where
  "demo_serve \<equiv> handle_message (\<lambda>_. True) (\<lambda>m. rejection ''other'') ''cuda''"

lemma demo_swap_is_swap: "is_swap demo_swap ''b''" "acceptable (\<lambda>_. True) ''b'' one_link_server demo_swap"
  by (simp_all add: is_swap_def acceptable_def demo_swap_def str_field_def vget_def one_link_server_def)

theorem matrix_batch_atomic_witness:
  "\<exists>res c' s'. send_matrix_profiles demo_serve (\<lambda>_. Delivered) [(''ue_gnb'', two_lanes)] ''b''
      (fresh_chan, one_link_server) = (res, (c', s'))
    \<and> ((\<exists>e. res = Err e) \<and> srv_links s' = srv_links one_link_server
      \<or> (\<exists>ms. map Inr ms = matrix_messages [(''ue_gnb'', two_lanes)] ''b''
           \<and> srv_links s' = fold (install_swap 0) ms (srv_links one_link_server)))"
proof -
  obtain res c' s' where q: "send_matrix_profiles demo_serve (\<lambda>_. Delivered) [(''ue_gnb'', two_lanes)] ''b''
      (fresh_chan, one_link_server) = (res, (c', s'))" by (metis prod_cases3)
  show ?thesis using matrix_batch_atomic [OF q] q by blast
qed


theorem lost_answer_blocks_id_witness:
  "\<exists>res c' s'. send_batch demo_serve (\<lambda>i. if i = 2 then ReplyLost else Delivered) (Inr demo_swap # []) ''b''
      (fresh_chan, one_link_server) = (res, (c', s'))
    \<and> res = Err timed_out \<and> map_of (srv_open s') ''b'' \<noteq> None
    \<and> fst (send_batch demo_serve (\<lambda>_. Delivered) [] ''b'' (fresh_chan, s')) = Err was_rejected"
proof -
  obtain res c' s' where q: "send_batch demo_serve (\<lambda>i. if i = 2 then ReplyLost else Delivered)
      (Inr demo_swap # []) ''b'' (fresh_chan, one_link_server) = (res, (c', s'))" by (metis prod_cases3)
  have "map_of (srv_open one_link_server) ''b'' = None" by (simp add: one_link_server_def)
  from lost_answer_blocks_id [OF _ _ _ _ this demo_swap_is_swap(1) q, of "\<lambda>_. Delivered" "[]"] q
  show ?thesis by simp
qed

end
