(* ===== verification/Protocol.thy ===== *)
theory Protocol
  imports FloatWire
begin

text \<open>
  The wire formats of the robot fight, \<^verbatim>\<open>use_cases/robot_fight/protocol.py\<close>: the datagrams of the
  control plane (a common header, then a STATE or a CMD payload) and the JSON frames of the position
  plane. \<open>json.loads\<close> is the argument \<open>loads\<close>.
\<close>

section \<open>Constants and records\<close>

definition MAGIC :: string where "MAGIC = ''RF''"
definition PROTOCOL_VERSION :: int where "PROTOCOL_VERSION = 2"
definition KIND_STATE :: int where "KIND_STATE = 1"
definition KIND_CMD :: int where "KIND_CMD = 2"

definition FLAG_RUNNING :: int where "FLAG_RUNNING = 1"
definition FLAG_OVER :: int where "FLAG_OVER = 2"
definition FLAG_WON :: int where "FLAG_WON = 4"
definition FLAG_LOST :: int where "FLAG_LOST = 8"

text \<open>\<open><2sBBB3xIQI4xQ\<close>, \<open><d3f3f3f2f3f4fI\<close> and \<open><2fH2x\<close>.\<close>

definition header_codes :: "code list" where
  "header_codes = [Chars 2, UInt 1, UInt 1, UInt 1, Pad 3, UInt 4, UInt 8, UInt 4, Pad 4, UInt 8]"

definition state_codes :: "code list" where
  "state_codes = F64 # replicate 18 F32 @ [UInt 4]"

definition cmd_codes :: "code list" where
  "cmd_codes = [F32, F32, UInt 2, Pad 2]"

definition HEADER_SIZE :: nat where "HEADER_SIZE = calcsize header_codes"
definition STATE_SIZE :: nat where "STATE_SIZE = HEADER_SIZE + calcsize state_codes"
definition CMD_SIZE :: nat where "CMD_SIZE = HEADER_SIZE + calcsize cmd_codes"

record header =
  h_kind :: int
  h_robot_id :: int
  h_seq :: int
  h_t_send_us :: int
  h_echo_seq :: int
  h_t_echo_us :: int

record bot_state =
  sim_time_s :: pyfloat
  st_x :: pyfloat
  st_y :: pyfloat
  st_yaw :: pyfloat
  st_vx :: pyfloat
  st_vy :: pyfloat
  st_wz :: pyfloat
  opp_x :: pyfloat
  opp_y :: pyfloat
  opp_yaw :: pyfloat
  opp_vx :: pyfloat
  opp_vy :: pyfloat
  ring_radius_m :: pyfloat
  dist_to_edge_m :: pyfloat
  opp_dist_to_edge_m :: pyfloat
  st_pitch :: pyfloat
  st_pitch_rate :: pyfloat
  st_wheel_left :: pyfloat
  st_wheel_right :: pyfloat
  st_flags :: int

record command =
  wheel_left :: pyfloat
  wheel_right :: pyfloat
  ttl_ms :: int

datatype payload = StateBody bot_state | CommandBody command

section \<open>Encoding\<close>

text \<open>\<open>seq & 0xFFFFFFFF\<close> of a Python integer is its remainder.\<close>

definition header_values :: "header \<Rightarrow> pyval list" where
  "header_values h = [VStr MAGIC, VInt PROTOCOL_VERSION, VInt (h_kind h), VInt (h_robot_id h),
     VInt (h_seq h mod 2 ^ 32), VInt (h_t_send_us h), VInt (h_echo_seq h mod 2 ^ 32), VInt (h_t_echo_us h)]"

definition state_values :: "bot_state \<Rightarrow> pyval list" where
  "state_values s = map VFloat [sim_time_s s, st_x s, st_y s, st_yaw s, st_vx s, st_vy s, st_wz s, opp_x s, opp_y s,
     opp_yaw s, opp_vx s, opp_vy s, ring_radius_m s, dist_to_edge_m s, opp_dist_to_edge_m s, st_pitch s,
     st_pitch_rate s, st_wheel_left s, st_wheel_right s] @ [VInt (st_flags s)]"

definition command_values :: "command \<Rightarrow> pyval list" where
  "command_values c = [VFloat (wheel_left c), VFloat (wheel_right c), VInt (ttl_ms c)]"

definition pack_header :: "header \<Rightarrow> bytes result" where
  "pack_header h = struct_pack header_codes (header_values h)"

definition pack_state :: "header \<Rightarrow> bot_state \<Rightarrow> bytes result" where
  "pack_state h s =
     (if h_kind h \<noteq> KIND_STATE then Err (ProtocolError ''header kind is not STATE'')
      else bindR (pack_header h) (\<lambda>a. bindR (struct_pack state_codes (state_values s)) (\<lambda>b. Ok (a @ b))))"

definition pack_command :: "header \<Rightarrow> command \<Rightarrow> bytes result" where
  "pack_command h c =
     (if h_kind h \<noteq> KIND_CMD then Err (ProtocolError ''header kind is not CMD'')
      else bindR (pack_header h) (\<lambda>a. bindR (struct_pack cmd_codes (command_values c)) (\<lambda>b. Ok (a @ b))))"

section \<open>Decoding\<close>

definition header_of :: "pyval list \<Rightarrow> header" where
  "header_of vs = \<lparr>h_kind = int_of (vs ! 2), h_robot_id = int_of (vs ! 3), h_seq = int_of (vs ! 4),
     h_t_send_us = int_of (vs ! 5), h_echo_seq = int_of (vs ! 6), h_t_echo_us = int_of (vs ! 7)\<rparr>"

definition state_of :: "pyval list \<Rightarrow> bot_state" where
  "state_of vs = (let f = (\<lambda>i. num_of (vs ! i)) in
     \<lparr>sim_time_s = f 0, st_x = f 1, st_y = f 2, st_yaw = f 3, st_vx = f 4, st_vy = f 5, st_wz = f 6, opp_x = f 7,
      opp_y = f 8, opp_yaw = f 9, opp_vx = f 10, opp_vy = f 11, ring_radius_m = f 12, dist_to_edge_m = f 13,
      opp_dist_to_edge_m = f 14, st_pitch = f 15, st_pitch_rate = f 16, st_wheel_left = f 17, st_wheel_right = f 18,
      st_flags = int_of (vs ! 19)\<rparr>)"

definition command_of :: "pyval list \<Rightarrow> command" where
  "command_of vs = \<lparr>wheel_left = num_of (vs ! 0), wheel_right = num_of (vs ! 1), ttl_ms = int_of (vs ! 2)\<rparr>"

definition unpack_header :: "bytes \<Rightarrow> header result" where
  "unpack_header data =
     (if length data < HEADER_SIZE then Err (ProtocolError ''datagram too short'')
      else bindR (struct_unpack_from header_codes data) (\<lambda>vs.
        if vs ! 0 \<noteq> VStr MAGIC then Err (ProtocolError ''bad magic'')
        else if vs ! 1 \<noteq> VInt PROTOCOL_VERSION then Err (ProtocolError ''unsupported version'')
        else Ok (header_of vs)))"

definition unpack :: "bytes \<Rightarrow> (header \<times> payload) result" where
  "unpack data =
     bindR (unpack_header data) (\<lambda>h. let body = drop HEADER_SIZE data in
       if h_kind h = KIND_STATE then
         (if length body \<noteq> calcsize state_codes then Err (ProtocolError ''STATE payload size'')
          else bindR (struct_unpack state_codes body) (\<lambda>vs. Ok (h, StateBody (state_of vs))))
       else if h_kind h = KIND_CMD then
         (if length body \<noteq> calcsize cmd_codes then Err (ProtocolError ''CMD payload size'')
          else bindR (struct_unpack cmd_codes body) (\<lambda>vs. Ok (h, CommandBody (command_of vs))))
       else Err (ProtocolError ''unknown kind''))"

definition rtt_us :: "header \<Rightarrow> int \<Rightarrow> int option" where
  "rtt_us h received_at_us = (if h_t_echo_us h = 0 then None else Some (received_at_us - h_t_echo_us h))"

section \<open>The position plane\<close>

definition is_number :: "pyval \<Rightarrow> bool" where
  "is_number v = (case v of VInt _ \<Rightarrow> True | VFloat _ \<Rightarrow> True | VBool _ \<Rightarrow> True | _ \<Rightarrow> False)"

definition good_vector :: "pyval \<Rightarrow> bool" where
  "good_vector v = (case v of VList xs \<Rightarrow> length xs = 3 \<and> list_all is_number xs | _ \<Rightarrow> False)"

definition check_node :: "pyval \<Rightarrow> unit result" where
  "check_node node =
     (case node of
        VDict d \<Rightarrow>
          bindR (checkR (good_vector (vget ''position_m'' d)) (ProtocolError ''bad position_m'')) (\<lambda>_.
            checkR (good_vector (vget ''velocity_mps'' d)) (ProtocolError ''bad velocity_mps''))
      | _ \<Rightarrow> Err (AttributeError ''get''))"

definition parse_positions_message :: "(string \<Rightarrow> pyval option) \<Rightarrow> bytes \<Rightarrow> pydict result" where
  "parse_positions_message loads data =
     (case decode_utf8 data of
        None \<Rightarrow> Err (ValueError ''invalid utf-8'')
      | Some text \<Rightarrow>
          (case loads text of
             None \<Rightarrow> Err (ValueError ''invalid JSON'')
           | Some (VDict d) \<Rightarrow>
               if \<not> py_eq (vget ''event'' d) (VStr ''positions'') then Err (ProtocolError ''not a positions event'')
               else if \<not> py_eq (vget ''frame'' d) (VStr ''arena'') then Err (ProtocolError ''unexpected frame'')
               else (case vget ''nodes'' d of
                       VDict nodes \<Rightarrow>
                         if nodes = [] then Err (ProtocolError ''positions without nodes'')
                         else bindR (mapR (\<lambda>n. check_node (snd n)) nodes) (\<lambda>_. Ok d)
                     | _ \<Rightarrow> Err (ProtocolError ''positions without nodes''))
           | Some _ \<Rightarrow> Err (AttributeError ''get'')))"

type_synonym vec3 = "pyfloat \<times> pyfloat \<times> pyfloat"

definition vec_value :: "vec3 \<Rightarrow> pyval" where
  "vec_value v = (case v of (a, b, c) \<Rightarrow> VList [VFloat a, VFloat b, VFloat c])"

text \<open>The object \<open>positions_message\<close> serialises.\<close>

definition positions_payload :: "int \<Rightarrow> (string \<times> vec3 \<times> vec3) list \<Rightarrow> pydict" where
  "positions_payload t nodes =
     [(''event'', VStr ''positions''), (''t_unix_ms'', VInt t), (''frame'', VStr ''arena''),
      (''nodes'', VDict (map (\<lambda>(n, p, v). (n, VDict [(''position_m'', vec_value p), (''velocity_mps'', vec_value v)])) nodes))]"

section \<open>Round trips\<close>

lemma sizes: "HEADER_SIZE = 36" "STATE_SIZE = 120" "CMD_SIZE = 48" "calcsize header_codes = 36"
  "calcsize state_codes = 84" "calcsize cmd_codes = 12"
  by (simp_all add: HEADER_SIZE_def STATE_SIZE_def CMD_SIZE_def calcsize_def header_codes_def state_codes_def
      cmd_codes_def code_size_def sum_list_replicate)

definition pack_datagram :: "header \<Rightarrow> payload \<Rightarrow> bytes result" where
  "pack_datagram h b = (case b of StateBody s \<Rightarrow> pack_state h s | CommandBody c \<Rightarrow> pack_command h c)"

text \<open>What the other end sees: sequence numbers on 32 bits, floats in the precision of their field.\<close>

definition wire_header :: "header \<Rightarrow> header" where
  "wire_header h = h\<lparr>h_seq := h_seq h mod 2 ^ 32, h_echo_seq := h_echo_seq h mod 2 ^ 32\<rparr>"

definition single :: "pyfloat \<Rightarrow> pyfloat" where "single = ieee_round binary32"

definition wire_state :: "bot_state \<Rightarrow> bot_state" where
  "wire_state s =
     \<lparr>sim_time_s = ieee_round binary64 (sim_time_s s), st_x = single (st_x s), st_y = single (st_y s),
      st_yaw = single (st_yaw s), st_vx = single (st_vx s), st_vy = single (st_vy s), st_wz = single (st_wz s),
      opp_x = single (opp_x s), opp_y = single (opp_y s), opp_yaw = single (opp_yaw s), opp_vx = single (opp_vx s),
      opp_vy = single (opp_vy s), ring_radius_m = single (ring_radius_m s),
      dist_to_edge_m = single (dist_to_edge_m s), opp_dist_to_edge_m = single (opp_dist_to_edge_m s),
      st_pitch = single (st_pitch s), st_pitch_rate = single (st_pitch_rate s),
      st_wheel_left = single (st_wheel_left s), st_wheel_right = single (st_wheel_right s), st_flags = st_flags s\<rparr>"

definition wire_command :: "command \<Rightarrow> command" where
  "wire_command c = c\<lparr>wheel_left := single (wheel_left c), wheel_right := single (wheel_right c)\<rparr>"

definition wire_payload :: "payload \<Rightarrow> payload" where
  "wire_payload b = (case b of StateBody s \<Rightarrow> StateBody (wire_state s) | CommandBody c \<Rightarrow> CommandBody (wire_command c))"

lemmas value_simps = wire_value_def is_pad_def num_of.simps int_of.simps pad_chars_def MAGIC_def

lemma header_wire:
  "wire_values header_codes (header_values h) =
     [VStr MAGIC, VInt PROTOCOL_VERSION, VInt (h_kind h), VInt (h_robot_id h), VInt (h_seq h mod 2 ^ 32),
      VInt (h_t_send_us h), VInt (h_echo_seq h mod 2 ^ 32), VInt (h_t_echo_us h)]"
  by (simp add: header_codes_def header_values_def value_simps)

lemma state_wire: "state_of (wire_values state_codes (state_values s)) = wire_state s"
  by (simp add: state_codes_def state_values_def value_simps numeral_eq_Suc state_of_def wire_state_def single_def)

lemma command_wire: "command_of (wire_values cmd_codes (command_values c)) = wire_command c"
  by (simp add: cmd_codes_def command_values_def value_simps command_of_def wire_command_def single_def)

lemma unpack_packed_header:
  assumes "pack_header h = Ok a"
  shows "unpack_header (a @ r) = Ok (wire_header h)" and "length a = 36"
proof -
  from unpack_pack [OF assms [unfolded pack_header_def]]
  have u: "unpack_codes header_codes (a @ r) = wire_values header_codes (header_values h)" and l: "length a = 36"
    by (simp_all add: sizes)
  show "unpack_header (a @ r) = Ok (wire_header h)"
    by (simp add: unpack_header_def struct_unpack_from_def sizes l u header_wire header_of_def wire_header_def)
  show "length a = 36" by (rule l)
qed

text \<open>Every packed datagram decodes.\<close>

lemma packed_unpacks:
  assumes "pack_datagram h b = Ok data"
  shows "unpack data = Ok (wire_header h, wire_payload b)"
proof (cases b)
  case (StateBody s)
  with assms obtain a d where k: "h_kind h = KIND_STATE" and a: "pack_header h = Ok a"
    and d: "struct_pack state_codes (state_values s) = Ok d" and data: "data = a @ d"
    by (auto simp: pack_datagram_def pack_state_def bindR_Inr_conv split: if_splits)
  from unpack_pack [OF d, of "[]"] unpack_packed_header(1) [OF a, of d] unpack_packed_header(2) [OF a] StateBody k data show ?thesis
    by (simp add: unpack_def sizes struct_unpack_def state_wire wire_header_def wire_payload_def)
next
  case (CommandBody c)
  with assms obtain a d where k: "h_kind h = KIND_CMD" and a: "pack_header h = Ok a"
    and d: "struct_pack cmd_codes (command_values c) = Ok d" and data: "data = a @ d"
    by (auto simp: pack_datagram_def pack_command_def bindR_Inr_conv split: if_splits)
  from unpack_pack [OF d, of "[]"] unpack_packed_header(1) [OF a, of d] unpack_packed_header(2) [OF a] CommandBody k data show ?thesis
    by (simp add: unpack_def sizes struct_unpack_def command_wire wire_header_def wire_payload_def
        KIND_STATE_def KIND_CMD_def)
qed

text \<open>C27. Every datagram that can be sent is accepted at the other end, which sees the header with its
  sequence numbers on 32 bits and the payload with every float rounded to the precision of its field.\<close>

theorem datagram_roundtrip:
  assumes "pack_datagram h b = Ok data"
  shows "unpack data = Ok (wire_header h, wire_payload b)"
  using assms by (rule packed_unpacks)

section \<open>Every datagram\<close>

lemma unpack_cases:
  assumes "unpack data = res"
  shows "(\<exists>m. res = Err (ProtocolError m))
    \<or> (\<exists>h. res = Ok (h, StateBody (state_of (unpack_codes state_codes (drop 36 data)))) \<and> length data = 120
         \<and> h_kind h = KIND_STATE \<and> unpack_header data = Ok h)
    \<or> (\<exists>h. res = Ok (h, CommandBody (command_of (unpack_codes cmd_codes (drop 36 data)))) \<and> length data = 48
         \<and> h_kind h = KIND_CMD \<and> unpack_header data = Ok h)"
  using assms
  by (auto simp: unpack_def unpack_header_def bindR_def struct_unpack_from_def struct_unpack_def sizes Let_def
      split: if_splits sum.splits)

lemma state_of_fixed:
  assumes "84 \<le> length bs"
  shows "wire_state (state_of (unpack_codes state_codes bs)) = state_of (unpack_codes state_codes bs)
    \<and> (\<exists>d. struct_pack state_codes (state_values (state_of (unpack_codes state_codes bs))) = Ok d)"
proof -
  let ?vs = "unpack_codes state_codes bs"
  have vs: "state_values (state_of ?vs) = ?vs"
    by (simp add: state_codes_def numeral_eq_Suc unpack_one_def state_of_def state_values_def)
  from unpack_repack [of state_codes bs] assms have r: "\<exists>d. struct_pack state_codes ?vs = Ok d"
    and w: "wire_values state_codes ?vs = ?vs" by (simp_all add: sizes)
  show ?thesis using r w state_wire [of "state_of ?vs"] vs by simp
qed

lemma command_of_fixed:
  assumes "12 \<le> length bs"
  shows "wire_command (command_of (unpack_codes cmd_codes bs)) = command_of (unpack_codes cmd_codes bs)
    \<and> (\<exists>d. struct_pack cmd_codes (command_values (command_of (unpack_codes cmd_codes bs))) = Ok d)"
proof -
  let ?vs = "unpack_codes cmd_codes bs"
  have vs: "command_values (command_of ?vs) = ?vs"
    by (simp add: cmd_codes_def unpack_one_def command_of_def command_values_def)
  from unpack_repack [of cmd_codes bs] assms have r: "\<exists>d. struct_pack cmd_codes ?vs = Ok d"
    and w: "wire_values cmd_codes ?vs = ?vs" by (simp_all add: sizes)
  show ?thesis using r w command_wire [of "command_of ?vs"] vs by simp
qed

lemma header_fixed:
  assumes "unpack_header bs = Ok h"
  shows "wire_header h = h \<and> (\<exists>d. pack_header h = Ok d)"
proof -
  let ?vs = "unpack_codes header_codes bs"
  from assms have l: "36 \<le> length bs" and h: "h = header_of ?vs" and m: "?vs ! 0 = VStr MAGIC"
    and v: "?vs ! 1 = VInt PROTOCOL_VERSION"
    by (auto simp: unpack_header_def struct_unpack_from_def sizes split: if_splits)
  from unpack_repack [of header_codes bs] l have r: "\<exists>d. struct_pack header_codes ?vs = Ok d"
    and w: "wire_values header_codes ?vs = ?vs" by (simp_all add: sizes)
  have b: "int (le_dec (take 4 xs)) < 2 ^ 32" for xs
  proof -
    have "le_dec (take 4 xs) < 256 ^ length (take 4 xs)" by (rule le_dec_bound)
    also have "\<dots> \<le> 256 ^ 4" by (rule power_increasing) simp_all
    finally show ?thesis by simp
  qed
  have vs: "header_values h = ?vs"
    using m v b by (simp add: h header_codes_def unpack_one_def header_of_def header_values_def code_size_def mod_pos_pos_trivial)
  have "wire_header h = h"
    using b by (simp add: h header_codes_def unpack_one_def header_of_def wire_header_def code_size_def mod_pos_pos_trivial)
  with r vs show ?thesis by (simp add: pack_header_def)
qed

text \<open>Whatever bytes arrive, decoding raises nothing but \<open>ProtocolError\<close>, and accepts only datagrams
  of exactly the two sizes; what it accepts can be sent on, arrives unchanged, and is again of the same
  kind.\<close>

theorem unpack_total:
  "case unpack data of
     Inl e \<Rightarrow> (case e of ProtocolError _ \<Rightarrow> True | _ \<Rightarrow> False)
   | Inr (h, b) \<Rightarrow> length data = (case b of StateBody _ \<Rightarrow> STATE_SIZE | CommandBody _ \<Rightarrow> CMD_SIZE)
       \<and> (\<exists>data'. pack_datagram h b = Ok data' \<and> unpack data' = Ok (h, b))"
proof -
  have resend: "\<exists>data'. pack_datagram h b = Ok data' \<and> unpack data' = Ok (h, b)"
    if "\<exists>d. pack_datagram h b = Ok d" and "wire_header h = h" and "wire_payload b = b" for h b
    using that packed_unpacks [of h b] by metis
  consider m where "unpack data = Err (ProtocolError m)"
    | h s where "unpack data = Ok (h, StateBody s)" "s = state_of (unpack_codes state_codes (drop 36 data))"
        "length data = 120" "h_kind h = KIND_STATE" "unpack_header data = Ok h"
    | h c where "unpack data = Ok (h, CommandBody c)" "c = command_of (unpack_codes cmd_codes (drop 36 data))"
        "length data = 48" "h_kind h = KIND_CMD" "unpack_header data = Ok h"
    using unpack_cases [OF refl, of data] by blast
  then show ?thesis
  proof cases
    case 2
    have "84 \<le> length (drop 36 data)" using 2(3) by simp
    from state_of_fixed [OF this] header_fixed [OF 2(5)] have "\<exists>d. pack_datagram h (StateBody s) = Ok d"
      "wire_header h = h" "wire_payload (StateBody s) = StateBody s"
      using 2(2,4) by (auto simp: pack_datagram_def pack_state_def wire_payload_def bindR_Inr_conv)
    from resend [OF this] 2 show ?thesis by (simp add: sizes)
  next
    case 3
    have "12 \<le> length (drop 36 data)" using 3(3) by simp
    from command_of_fixed [OF this] header_fixed [OF 3(5)] have "\<exists>d. pack_datagram h (CommandBody c) = Ok d"
      "wire_header h = h" "wire_payload (CommandBody c) = CommandBody c"
      using 3(2,4) by (auto simp: pack_datagram_def pack_command_def wire_payload_def bindR_Inr_conv)
    from resend [OF this] 3 show ?thesis by (simp add: sizes)
  qed simp
qed

section \<open>A datagram\<close>

lemma quant_three_halves: "ff_quant binary32 (3/2) = 3/2"
  using quant_exact [of 3 23 "-149" "-1"] by (simp add: ff_quant_def binary32_def ff_emin_def pow2_def)

lemma ilog2_three_halves: "ilog2 (3/2) = 0"
proof -
  have "\<lfloor>3/2 :: rat\<rfloor> = 1" by (rule floor_unique) simp_all
  moreover have "bitlen 1 = 1" by (subst compute_bitlen) simp
  ultimately show ?thesis by (simp add: ilog2_def)
qed

text \<open>The well-known encoding of 1.5.\<close>

lemma code_three_halves: "ieee_code binary32 (Fin (3/2)) = Ok 0x3FC00000"
proof -
  have "mag_code binary32 (3/2) = 0x3FC00000"
    by (simp add: mag_code_def ulp_exp_def ilog2_three_halves binary32_def ff_emin_def pow2_def Let_def rhe_def)
  moreover have "ff_huge binary32 = 2 ^ 128" by (simp add: ff_huge_def binary32_def pow2_def)
  ultimately show ?thesis by (simp add: ieee_code_def quant_three_halves)
qed

definition sample_header :: header where
  "sample_header = \<lparr>h_kind = KIND_CMD, h_robot_id = 1, h_seq = 2 ^ 32 + 5, h_t_send_us = 1790685008187000, h_echo_seq = 7,
     h_t_echo_us = 0\<rparr>"

definition sample_command :: command where
  "sample_command = \<lparr>wheel_left = Fin (3/2), wheel_right = NaN, ttl_ms = 60\<rparr>"

lemma sample_packs: "\<exists>data. pack_datagram sample_header (CommandBody sample_command) = Ok data"
proof -
  have "\<exists>a. pack_header sample_header = Ok a"
    by (simp add: pack_header_def header_codes_def header_values_def sample_header_def pack_one_def pack_uint_def
        KIND_CMD_def PROTOCOL_VERSION_def)
  moreover have "\<exists>d. struct_pack cmd_codes (command_values sample_command) = Ok d"
    by (simp add: cmd_codes_def command_values_def sample_command_def pack_one_def pack_uint_def code_three_halves)
      (simp add: ieee_code_def)
  ultimately show ?thesis by (auto simp: pack_datagram_def pack_command_def sample_header_def)
qed

lemma sample_wire:
  "wire_payload (CommandBody sample_command) = CommandBody sample_command"
  "wire_header sample_header = sample_header\<lparr>h_seq := 5\<rparr>"
  by (simp_all add: wire_payload_def wire_command_def sample_command_def single_def ieee_round_def
      quant_three_halves wire_header_def sample_header_def)

lemma sample_datagram: "\<exists>data. unpack data = Ok (sample_header\<lparr>h_seq := 5\<rparr>, CommandBody sample_command)"
proof -
  from sample_packs obtain data where "pack_datagram sample_header (CommandBody sample_command) = Ok data" ..
  from packed_unpacks [OF this] show ?thesis by (auto simp: sample_wire)
qed

theorem datagram_roundtrip_witness:
  "\<exists>data. pack_datagram sample_header (CommandBody sample_command) = Ok data
    \<and> unpack data = Ok (sample_header\<lparr>h_seq := 5\<rparr>, CommandBody sample_command)"
proof -
  from sample_packs obtain data where d: "pack_datagram sample_header (CommandBody sample_command) = Ok data" ..
  from datagram_roundtrip [OF d] d show ?thesis by (simp add: sample_wire)
qed

end
