(* ===== verification/Arena.thy ===== *)
theory Arena
  imports Protocol FloatBounds
begin

text \<open>
  The robot-fight arena, \<^verbatim>\<open>use_cases/robot_fight/arena.py\<close>: the address tables, the command socket
  of a robot, the staleness machine that decides which command drives the motors, the referee, the
  STATE datagrams and the catch-up loop of the physics. The simulator is a parameter: a pose, the
  wheel speeds, the simulation time and a step function. The JSON log is the list of its events.
\<close>

section \<open>Addresses\<close>

datatype addr = Udp string int | UnixPath string

text \<open>\<open>int(port)\<close> raises a \<open>ValueError\<close> that nothing catches.\<close>

definition int_arg :: "string \<Rightarrow> int result" where
  "int_arg s = (case parse_int s of Some n \<Rightarrow> Ok n | None \<Rightarrow> Err (ValueError ''invalid literal for int()''))"

definition host_port :: "string \<Rightarrow> string \<times> string" where
  "host_port a = (case str_rpartition CHR '':'' a of (host, _, port) \<Rightarrow> (host, port))"

definition bind_item :: "string \<Rightarrow> (string \<times> addr) list \<Rightarrow> (string \<times> addr) list result" where
  "bind_item item binds =
     (if str_strip item = [] then Ok binds
      else case str_partition CHR ''='' item of (node, _, a) \<Rightarrow>
        (case host_port a of (host, port) \<Rightarrow>
           if node = [] \<or> host = [] \<or> port = [] then Err (SystemExit ''bad --robot-bind item'')
           else bindR (int_arg port) (\<lambda>p. Ok (AList.update (str_strip node) (Udp (str_strip host) p) binds))))"

definition unix_item :: "string \<Rightarrow> (string \<times> addr) list \<Rightarrow> (string \<times> addr) list result" where
  "unix_item item binds =
     (if str_strip item = [] then Ok binds
      else case str_partition CHR ''='' item of (node, _, path) \<Rightarrow>
        if node = [] \<or> path = [] then Err (SystemExit ''bad --robot-unix item'')
        else Ok (AList.update (str_strip node) (UnixPath (str_strip path)) binds))"

definition parse_binds :: "string \<Rightarrow> string list \<Rightarrow> string option \<Rightarrow> addr list result" where
  "parse_binds text node_ids unix_text =
     bindR (foldR bind_item (str_split CHR '','' text) []) (\<lambda>binds.
     bindR (foldR unix_item (str_split CHR '','' (case unix_text of None \<Rightarrow> [] | Some u \<Rightarrow> u)) binds) (\<lambda>binds.
       if list_ex (\<lambda>n. map_of binds n = None) node_ids then Err (SystemExit ''--robot-bind/--robot-unix lacks'')
       else Ok (List.map_filter (map_of binds) node_ids)))"

definition dest_item :: "string \<Rightarrow> (string \<times> addr) list \<Rightarrow> (string \<times> addr) list result" where
  "dest_item item dests =
     (case str_partition CHR ''='' item of (node, _, a) \<Rightarrow>
        (case host_port a of (host, port) \<Rightarrow>
           bindR (int_arg port) (\<lambda>p. Ok (AList.update (str_strip node) (Udp (str_strip host) p) dests))))"

definition parse_dests :: "string option \<Rightarrow> string list \<Rightarrow> addr option list result" where
  "parse_dests text node_ids =
     (case text of
        None \<Rightarrow> Ok (map (\<lambda>_. None) node_ids)
      | Some t \<Rightarrow>
          if t = [] then Ok (map (\<lambda>_. None) node_ids)
          else bindR (foldR dest_item (str_split CHR '','' t) []) (\<lambda>dests. Ok (map (map_of dests) node_ids)))"

section \<open>The state of a robot\<close>

record robot_io =
  ri_index :: int
  ri_node_id :: string
  ri_dest :: "addr option"
  ri_dest_fixed :: bool
  ri_unix_path :: "string option"
  ri_last_cmd :: "command option"
  ri_last_cmd_recv_us :: int
  ri_last_cmd_seq :: int
  ri_last_cmd_t_send_us :: int
  ri_state_seq :: int
  ri_cmds_received :: nat
  ri_cmds_stale_rejected :: nat
  ri_seq_gaps :: int
  ri_stale :: bool
  ri_ever_fresh :: bool
  ri_stale_since :: pyfloat
  ri_stale_intervals :: nat
  ri_stale_total :: pyfloat
  ri_one_way_us :: "int list"
  ri_turnaround_us :: "int list"

definition new_robot :: "int \<Rightarrow> string \<Rightarrow> addr option \<Rightarrow> string option \<Rightarrow> robot_io" where
  "new_robot index node_id dest unix_path =
     \<lparr>ri_index = index, ri_node_id = node_id, ri_dest = dest, ri_dest_fixed = (dest \<noteq> None), ri_unix_path = unix_path,
      ri_last_cmd = None, ri_last_cmd_recv_us = 0, ri_last_cmd_seq = 0, ri_last_cmd_t_send_us = 0, ri_state_seq = 0,
      ri_cmds_received = 0, ri_cmds_stale_rejected = 0, ri_seq_gaps = 0, ri_stale = True, ri_ever_fresh = False,
      ri_stale_since = Fin 0, ri_stale_intervals = 0, ri_stale_total = Fin 0, ri_one_way_us = [],
      ri_turnaround_us = []\<rparr>"

datatype arena_event =
    BadDatagram int
  | BrainLearned int addr
  | CmdAccepted int header "int option" command
  | FirstCommand int
  | StaleEnd int pyfloat
  | StaleBegin int int

section \<open>Receiving commands\<close>

text \<open>The branch for a well-formed command of this robot; \<open>now\<close> is read once per drain.\<close>

definition note_dest :: "addr \<Rightarrow> robot_io \<Rightarrow> robot_io \<times> arena_event list" where
  "note_dest a r =
     (if \<not> ri_dest_fixed r \<and> ri_dest r \<noteq> Some a
      then (r\<lparr>ri_dest := Some a\<rparr>, [BrainLearned (ri_index r) a]) else (r, []))"

definition count_gap :: "int \<Rightarrow> robot_io \<Rightarrow> robot_io" where
  "count_gap s r =
     (if ri_last_cmd_seq r \<noteq> 0 \<and> s > ri_last_cmd_seq r + 1
      then r\<lparr>ri_seq_gaps := ri_seq_gaps r + (s - ri_last_cmd_seq r - 1)\<rparr> else r)"

definition reordered :: "int \<Rightarrow> robot_io \<Rightarrow> bool" where
  "reordered s r \<longleftrightarrow> s \<le> ri_last_cmd_seq r \<and> ri_last_cmd_seq r - s < 1000"

definition turnaround_of :: "header \<Rightarrow> int option" where
  "turnaround_of h = (if h_t_echo_us h \<noteq> 0 then Some (h_t_send_us h - h_t_echo_us h) else None)"

definition accept_command ::
  "int \<Rightarrow> header \<Rightarrow> command \<Rightarrow> addr \<Rightarrow> robot_io \<Rightarrow> robot_io \<times> arena_event list" where
  "accept_command now_us h c a r =
     (case note_dest a r of (r, learned) \<Rightarrow>
        let r = count_gap (h_seq h) (r\<lparr>ri_cmds_received := ri_cmds_received r + 1\<rparr>)
        in if reordered (h_seq h) r
           then (r\<lparr>ri_cmds_stale_rejected := ri_cmds_stale_rejected r + 1\<rparr>, learned)
           else (r\<lparr>ri_one_way_us := ri_one_way_us r @ [now_us - h_t_send_us h],
                   ri_turnaround_us := ri_turnaround_us r @ (case turnaround_of h of None \<Rightarrow> [] | Some t \<Rightarrow> [t]),
                   ri_last_cmd := Some c, ri_last_cmd_recv_us := now_us, ri_last_cmd_seq := h_seq h,
                   ri_last_cmd_t_send_us := h_t_send_us h\<rparr>,
                 learned @ [CmdAccepted (ri_index r) h (turnaround_of h) c]))"

definition receive_datagram ::
  "int \<Rightarrow> bytes \<Rightarrow> addr \<Rightarrow> robot_io \<Rightarrow> (robot_io \<times> arena_event list) result" where
  "receive_datagram now_us data a r =
     (case unpack data of
        Inl (ProtocolError m) \<Rightarrow> Ok (r, [BadDatagram (ri_index r)])
      | Inl e \<Rightarrow> Err e
      | Inr (h, StateBody _) \<Rightarrow> Ok (r, [])
      | Inr (h, CommandBody c) \<Rightarrow>
          if h_kind h \<noteq> KIND_CMD then Ok (r, [])
          else if h_robot_id h \<noteq> ri_index r then Ok (r, [BadDatagram (ri_index r)])
          else Ok (accept_command now_us h c a r))"

text \<open>What the socket delivers; an empty queue (or a refused connection) ends the drain, any other
  socket error is raised.\<close>

datatype recv = Datagram bytes addr | WouldBlock | SocketError

fun drain_robot :: "int \<Rightarrow> recv list \<Rightarrow> robot_io \<Rightarrow> (robot_io \<times> arena_event list) result" where
  "drain_robot now_us [] r = Ok (r, [])"
| "drain_robot now_us (WouldBlock # q) r = Ok (r, [])"
| "drain_robot now_us (SocketError # q) r = Err OSError"
| "drain_robot now_us (Datagram data a # q) r =
     bindR (receive_datagram now_us data a r) (\<lambda>(r, ev).
     bindR (drain_robot now_us q r) (\<lambda>(r, ev'). Ok (r, ev @ ev')))"

section \<open>Driving the motors\<close>

datatype stale_policy = Coast | Zero | Hold

definition clamp :: "pyfloat \<Rightarrow> pyfloat \<Rightarrow> pyfloat" where
  "clamp m x = fmax (fneg m) (fmin m x)"

definition is_fresh :: "int \<Rightarrow> robot_io \<Rightarrow> bool" where
  "is_fresh now_us r =
     (case ri_last_cmd r of None \<Rightarrow> False | Some c \<Rightarrow> now_us - ri_last_cmd_recv_us r \<le> ttl_ms c * 1000)"

definition note_fresh :: "pyfloat \<Rightarrow> robot_io \<Rightarrow> robot_io \<times> arena_event list" where
  "note_fresh sim r =
     (if ri_stale r then
        (if ri_ever_fresh r then
           let duration = fsub sim (ri_stale_since r)
           in (r\<lparr>ri_stale_intervals := ri_stale_intervals r + 1, ri_stale_total := fadd (ri_stale_total r) duration,
                 ri_stale := False, ri_ever_fresh := True\<rparr>, [StaleEnd (ri_index r) duration])
         else (r\<lparr>ri_stale := False, ri_ever_fresh := True\<rparr>, [FirstCommand (ri_index r)]))
      else (r, []))"

definition note_stale :: "pyfloat \<Rightarrow> robot_io \<Rightarrow> robot_io \<times> arena_event list" where
  "note_stale sim r =
     (if ri_stale r then (r, [])
      else (r\<lparr>ri_stale := True, ri_stale_since := sim\<rparr>, [StaleBegin (ri_index r) (ri_last_cmd_seq r)]))"

definition stale_command ::
  "stale_policy \<Rightarrow> bool \<Rightarrow> pyfloat \<times> pyfloat \<Rightarrow> command option \<Rightarrow> pyfloat \<times> pyfloat" where
  "stale_command policy balance_bot wheels cmd =
     (case (policy, cmd) of
        (Hold, Some c) \<Rightarrow> (wheel_left c, wheel_right c)
      | _ \<Rightarrow> if policy = Coast \<and> \<not> balance_bot then wheels else (Fin 0, Fin 0))"

definition apply_control ::
  "stale_policy \<Rightarrow> bool \<Rightarrow> pyfloat \<Rightarrow> int \<Rightarrow> pyfloat \<Rightarrow> pyfloat \<times> pyfloat \<Rightarrow> robot_io
     \<Rightarrow> robot_io \<times> arena_event list \<times> pyfloat \<times> pyfloat" where
  "apply_control policy balance_bot ctrl_max now_us sim wheels r =
     (if is_fresh now_us r then
        (case note_fresh sim r of (r, ev) \<Rightarrow>
           (case ri_last_cmd r of
              Some c \<Rightarrow> (r, ev, clamp ctrl_max (wheel_left c), clamp ctrl_max (wheel_right c))
            | None \<Rightarrow> (r, ev, Fin 0, Fin 0)))
      else
        (case note_stale sim r of (r, ev) \<Rightarrow>
           (case stale_command policy balance_bot wheels (ri_last_cmd r) of (left_u, right_u) \<Rightarrow>
              (r, ev, clamp ctrl_max left_u, clamp ctrl_max right_u))))"

text \<open>The part of \<open>robot_summary\<close> that closes an open interval.\<close>

definition close_stale :: "pyfloat \<Rightarrow> robot_io \<Rightarrow> robot_io" where
  "close_stale sim r =
     (if ri_stale r \<and> ri_ever_fresh r
      then r\<lparr>ri_stale_total := fadd (ri_stale_total r) (fsub sim (ri_stale_since r)),
             ri_stale_intervals := ri_stale_intervals r + 1\<rparr>
      else r)"

section \<open>The referee\<close>

definition BAL_FALL_UP :: pyfloat where "BAL_FALL_UP = rnd64 (64/100)"
definition SUMO_FALL_UP :: pyfloat where "SUMO_FALL_UP = rnd64 (3/10)"
definition TIMESTEP :: pyfloat where "TIMESTEP = rnd64 (1/1000)"

text \<open>What the referee reads of a pose: distance from the centre, height, and how upright the body is.\<close>

record pose =
  p_radial :: pyfloat
  p_z :: pyfloat
  p_up :: pyfloat

datatype reason = BothFell | Fall | BothOut | RingOut | Timeout | TimeoutEdge

record ring =
  rg_radius :: pyfloat
  rg_fall_up :: pyfloat
  rg_time_limit :: pyfloat
  rg_margin :: pyfloat

definition is_out :: "ring \<Rightarrow> pose \<Rightarrow> bool" where
  "is_out g p \<longleftrightarrow> flt (rg_radius g) (p_radial p)"

definition is_fallen :: "ring \<Rightarrow> bool \<Rightarrow> pose \<Rightarrow> bool" where
  "is_fallen g holding p \<longleftrightarrow> (flt (p_up p) (rg_fall_up g) \<or> flt (p_z p) (rnd64 (- 1/2))) \<and> \<not> holding"

text \<open>The indices of the robots for which a test holds, and the verdict \<open>1 - idx[0]\<close> on them.\<close>

definition who :: "(pose \<Rightarrow> bool) \<Rightarrow> pose \<Rightarrow> pose \<Rightarrow> nat list" where
  "who test p0 p1 = (if test p0 then [0] else []) @ (if test p1 then [1] else [])"

definition referee ::
  "ring \<Rightarrow> bool \<Rightarrow> pyfloat \<Rightarrow> pose \<Rightarrow> pose \<Rightarrow> (nat option \<times> reason) option" where
  "referee g holding sim p0 p1 =
     (let out = who (is_out g) p0 p1; fallen = who (is_fallen g holding) p0 p1
      in if fallen \<noteq> [] then
           (if length fallen = 2 then Some (None, BothFell) else Some (Some (1 - hd fallen), Fall))
         else if out \<noteq> [] then
           (if length out = 2 then Some (None, BothOut) else Some (Some (1 - hd out), RingOut))
         else if fle (rg_time_limit g) sim then
           (if flt (fabs (fsub (p_radial p0) (p_radial p1))) (rg_margin g) then Some (None, Timeout)
            else let loser = (if flt (p_radial p1) (p_radial p0) then 0 else 1)
                 in Some (Some (1 - loser), TimeoutEdge))
         else None)"

text \<open>The flags both robots are told after the verdict.\<close>

definition over_flags :: "nat option \<Rightarrow> nat \<Rightarrow> int" where
  "over_flags winner i =
     (case winner of None \<Rightarrow> FLAG_OVER
      | Some w \<Rightarrow> FLAG_OVER + (if w = i then FLAG_WON else FLAG_LOST))"

section \<open>Telling the brains\<close>

text \<open>What the simulator shows of a robot: the pose tuple and the lean of its body.\<close>

record view =
  vw_x :: pyfloat
  vw_y :: pyfloat
  vw_yaw :: pyfloat
  vw_vx :: pyfloat
  vw_vy :: pyfloat
  vw_wz :: pyfloat
  vw_pitch :: pyfloat
  vw_pitch_rate :: pyfloat
  vw_wl :: pyfloat
  vw_wr :: pyfloat

definition state_for ::
  "(pyfloat \<Rightarrow> pyfloat \<Rightarrow> pyfloat) \<Rightarrow> pyfloat \<Rightarrow> pyfloat \<Rightarrow> view \<Rightarrow> view \<Rightarrow> int \<Rightarrow> bot_state" where
  "state_for hypot sim radius me opp flags =
     \<lparr>sim_time_s = sim, st_x = vw_x me, st_y = vw_y me, st_yaw = vw_yaw me, st_vx = vw_vx me, st_vy = vw_vy me,
      st_wz = vw_wz me, opp_x = vw_x opp, opp_y = vw_y opp, opp_yaw = vw_yaw opp, opp_vx = vw_vx opp,
      opp_vy = vw_vy opp, ring_radius_m = radius, dist_to_edge_m = fsub radius (hypot (vw_x me) (vw_y me)),
      opp_dist_to_edge_m = fsub radius (hypot (vw_x opp) (vw_y opp)), st_pitch = vw_pitch me,
      st_pitch_rate = vw_pitch_rate me, st_wheel_left = vw_wl me, st_wheel_right = vw_wr me, st_flags = flags\<rparr>"

definition state_header :: "int \<Rightarrow> robot_io \<Rightarrow> header" where
  "state_header now_us r =
     \<lparr>h_kind = KIND_STATE, h_robot_id = ri_index r, h_seq = ri_state_seq r, h_t_send_us = now_us,
      h_echo_seq = ri_last_cmd_seq r, h_t_echo_us = ri_last_cmd_t_send_us r\<rparr>"

text \<open>The datagram of one robot and its destination, if it has one.\<close>

definition send_state :: "int \<Rightarrow> bot_state \<Rightarrow> robot_io \<Rightarrow> (robot_io \<times> (bytes \<times> addr) option) result" where
  "send_state now_us st r =
     (case ri_dest r of
        None \<Rightarrow> Ok (r, None)
      | Some a \<Rightarrow>
          let r = r\<lparr>ri_state_seq := ri_state_seq r + 1\<rparr>
          in bindR (pack_state (state_header now_us r) st) (\<lambda>d. Ok (r, Some (d, a))))"

section \<open>The clockwork\<close>

text \<open>The catch-up loop: physics steps until the simulation has reached the wall clock, at most
  \<open>max_catchup_steps\<close> of them. \<open>control\<close> stands for \<open>apply_controls\<close> and, while the starter holds the
  robots, \<open>hold_upright\<close>; \<open>mj_step\<close> for the simulator.\<close>

fun catch_up ::
  "('w \<Rightarrow> 'w) \<Rightarrow> ('w \<Rightarrow> 'w) \<Rightarrow> ('w \<Rightarrow> pyfloat) \<Rightarrow> pyfloat \<Rightarrow> nat \<Rightarrow> 'w \<Rightarrow> 'w \<times> nat" where
  "catch_up control mj_step time target 0 w = (w, 0)"
| "catch_up control mj_step time target (Suc n) w =
     (if flt (time w) target
      then (case catch_up control mj_step time target n (mj_step (control w)) of (w, k) \<Rightarrow> (w, Suc k))
      else (w, 0))"

text \<open>Releasing the held robots, and the bookkeeping of late loops.\<close>

record loop_state =
  ls_holding :: bool
  ls_release_sim :: "pyfloat option"
  ls_loops :: nat
  ls_late :: nat
  ls_max_lag :: pyfloat

definition release_hold :: "pyfloat \<Rightarrow> pyfloat \<Rightarrow> robot_io list \<Rightarrow> loop_state \<Rightarrow> loop_state" where
  "release_hold hold_max sim robots s =
     (if ls_holding s \<and> (list_all ri_ever_fresh robots \<or> fle hold_max sim)
      then s\<lparr>ls_holding := False, ls_release_sim := Some sim\<rparr> else s)"

definition note_lag :: "pyfloat \<Rightarrow> pyfloat \<Rightarrow> loop_state \<Rightarrow> loop_state" where
  "note_lag lag loop_period s =
     (if flt (fmul (Fin 2) loop_period) lag
      then s\<lparr>ls_late := ls_late s + 1, ls_max_lag := fmax (ls_max_lag s) lag\<rparr> else s)"

definition due :: "pyfloat \<Rightarrow> pyfloat \<Rightarrow> pyfloat \<Rightarrow> bool \<times> pyfloat" where
  "due sim period next_at = (if fle next_at sim then (True, fadd sim period) else (False, next_at))"

section \<open>Facts\<close>

text \<open>Whatever datagrams and addresses the socket delivers, draining it raises nothing: malformed
  datagrams are logged and skipped.\<close>

theorem drain_never_raises:
  "case drain_robot now_us (map (\<lambda>(d, a). Datagram d a) q @ [WouldBlock]) r of Inl _ \<Rightarrow> False | Inr _ \<Rightarrow> True"
proof (induction q arbitrary: r)
  case Nil
  then show ?case by simp
next
  case (Cons da q)
  obtain d a where da: "da = (d, a)" by fastforce
  have "\<exists>x. receive_datagram now_us d a r = Ok x"
    using unpack_cases [OF refl, of d] by (auto simp: receive_datagram_def)
  then obtain r' ev where "receive_datagram now_us d a r = Ok (r', ev)" by fastforce
  with Cons.IH [of r'] show ?case by (auto simp: da bindR_def split: sum.splits)
qed

text \<open>A datagram either is a command for this robot, and then handled by \<open>accept_command\<close>, or leaves it
  unchanged.\<close>

definition command_in :: "int \<Rightarrow> bytes \<Rightarrow> (header \<times> command) option" where
  "command_in index data =
     (case unpack data of
        Inr (h, CommandBody c) \<Rightarrow> if h_kind h = KIND_CMD \<and> h_robot_id h = index then Some (h, c) else None
      | _ \<Rightarrow> None)"

lemma receive_cases:
  "(case command_in (ri_index r) data of
      None \<Rightarrow> (\<exists>ev. receive_datagram now_us data a r = Ok (r, ev))
    | Some (h, c) \<Rightarrow> receive_datagram now_us data a r = Ok (accept_command now_us h c a r))"
  using unpack_cases [OF refl, of data]
  by (auto simp: receive_datagram_def command_in_def)

lemma accept_keeps_index: "ri_index (fst (accept_command now_us h c a r)) = ri_index r"
  by (simp add: accept_command_def note_dest_def count_gap_def Let_def split: prod.splits if_splits)

lemma accept_newest:
  "accept_command now_us h c a r = (r', ev) \<Longrightarrow>
     (if h_seq h \<le> ri_last_cmd_seq r \<and> ri_last_cmd_seq r - h_seq h < 1000
      then ri_last_cmd_seq r' = ri_last_cmd_seq r \<and> ri_last_cmd r' = ri_last_cmd r
      else ri_last_cmd_seq r' = h_seq h \<and> ri_last_cmd r' = Some c)"
  by (auto simp: accept_command_def note_dest_def count_gap_def reordered_def Let_def split: if_splits)

text \<open>The commands of a queue for one robot, and the command a robot should act on: the one with the
  highest sequence number, the first of them when it was duplicated.\<close>

definition commands_in :: "int \<Rightarrow> (bytes \<times> addr) list \<Rightarrow> (header \<times> command) list" where
  "commands_in index q = List.map_filter (\<lambda>(d, _). command_in index d) q"

fun newest :: "int \<times> command option \<Rightarrow> (header \<times> command) list \<Rightarrow> int \<times> command option" where
  "newest best [] = best"
| "newest best ((h, c) # cs) = newest (if fst best < h_seq h then (h_seq h, Some c) else best) cs"

lemma newest_seq: "fst (newest best cs) = fold max (map (\<lambda>(h, _). h_seq h) cs) (fst best)"
  by (induction best cs rule: newest.induct) (auto simp: max_def)

lemma commands_in_Cons:
  "commands_in i ((d, a) # q) = (case command_in i d of None \<Rightarrow> commands_in i q | Some x \<Rightarrow> x # commands_in i q)"
  by (simp add: commands_in_def map_filter_def split: option.split)

lemma drain_newest:
  assumes "drain_robot now_us (map (\<lambda>(d, a). Datagram d a) q @ [WouldBlock]) r = Ok (r', ev)"
    and "\<And>h c. (h, c) \<in> set (commands_in (ri_index r) q) \<Longrightarrow> lo \<le> h_seq h \<and> h_seq h < lo + 1000"
    and "lo \<le> ri_last_cmd_seq r" and "ri_last_cmd_seq r < lo + 1000"
  shows "(ri_last_cmd_seq r', ri_last_cmd r') =
    newest (ri_last_cmd_seq r, ri_last_cmd r) (commands_in (ri_index r) q)"
  using assms
proof (induction q arbitrary: r ev)
  case Nil
  then show ?case by (simp add: commands_in_def map_filter_def)
next
  case (Cons da q)
  obtain d a where da: "da = (d, a)" by fastforce
  show ?case
  proof (cases "command_in (ri_index r) d")
    case None
    then obtain e where "receive_datagram now_us d a r = Ok (r, e)"
      using receive_cases [where r = r and data = d and now_us = now_us and a = a] by auto
    then obtain ev' where "drain_robot now_us (map (\<lambda>(d, a). Datagram d a) q @ [WouldBlock]) r = Ok (r', ev')"
      using Cons.prems(1) by (auto simp: da bindR_Inr_conv)
    from Cons.IH [OF this] Cons.prems(2-) None show ?thesis by (simp add: da commands_in_Cons)
  next
    case (Some hc)
    obtain h c where hc: "hc = (h, c)" by fastforce
    obtain r1 e1 where acc: "accept_command now_us h c a r = (r1, e1)" by fastforce
    have "receive_datagram now_us d a r = Ok (r1, e1)"
      using receive_cases [where r = r and data = d and now_us = now_us and a = a] Some hc acc by auto
    then obtain ev' where dr: "drain_robot now_us (map (\<lambda>(d, a). Datagram d a) q @ [WouldBlock]) r1 = Ok (r', ev')"
      using Cons.prems(1) by (auto simp: da bindR_Inr_conv)
    have i1: "ri_index r1 = ri_index r" using accept_keeps_index [of now_us h c a r] acc by simp
    have cs: "commands_in (ri_index r) (da # q) = (h, c) # commands_in (ri_index r) q"
      by (simp add: da hc Some commands_in_Cons)
    have b: "lo \<le> h_seq h" "h_seq h < lo + 1000" using Cons.prems(2) [of h c] cs by auto
    have n: "(ri_last_cmd_seq r1, ri_last_cmd r1) =
        (if ri_last_cmd_seq r < h_seq h then (h_seq h, Some c) else (ri_last_cmd_seq r, ri_last_cmd r))"
      using accept_newest [OF acc] b Cons.prems(3,4) by (auto split: if_splits)
    have "(ri_last_cmd_seq r', ri_last_cmd r') =
        newest (ri_last_cmd_seq r1, ri_last_cmd r1) (commands_in (ri_index r1) q)"
      by (rule Cons.IH [OF dr]) (use Cons.prems(2-) b i1 cs n in \<open>auto split: if_splits\<close>)
    then show ?thesis by (simp only: cs i1 newest.simps n fst_conv)
  qed
qed

text \<open>C16. Draining a queue whose commands for this robot lie within one window of 1000 sequence numbers,
  the previous one included, refines a register in which the newest command wins: however the
  datagrams were reordered, duplicated or mixed with others, the robot ends with the highest sequence
  number and the command that carried it first.\<close>

theorem drain_refines_newest:
  assumes "drain_robot now_us (map (\<lambda>(d, a). Datagram d a) q @ [WouldBlock]) r = Ok (r', ev)"
    and "\<And>h c. (h, c) \<in> set (commands_in (ri_index r) q) \<Longrightarrow> lo \<le> h_seq h \<and> h_seq h < lo + 1000"
    and "lo \<le> ri_last_cmd_seq r" and "ri_last_cmd_seq r < lo + 1000"
  shows "(ri_last_cmd_seq r', ri_last_cmd r') =
      newest (ri_last_cmd_seq r, ri_last_cmd r) (commands_in (ri_index r) q)
    \<and> ri_last_cmd_seq r' = fold max (map (\<lambda>(h, _). h_seq h) (commands_in (ri_index r) q)) (ri_last_cmd_seq r)"
proof -
  note eq = drain_newest [OF assms]
  have "ri_last_cmd_seq r' = fst (newest (ri_last_cmd_seq r, ri_last_cmd r) (commands_in (ri_index r) q))"
    by (simp flip: eq)
  with eq show ?thesis by (simp add: newest_seq)
qed

section \<open>Staleness\<close>

datatype arena_op = Drain int "recv list" | Tick int pyfloat "pyfloat \<times> pyfloat"

definition arena_step ::
  "stale_policy \<Rightarrow> bool \<Rightarrow> pyfloat \<Rightarrow> arena_op \<Rightarrow> robot_io \<Rightarrow> (robot_io \<times> arena_event list) result" where
  "arena_step policy balance_bot ctrl_max op r =
     (case op of
        Drain now_us q \<Rightarrow> drain_robot now_us q r
      | Tick now_us sim wheels \<Rightarrow>
          (case apply_control policy balance_bot ctrl_max now_us sim wheels r of (r, ev, _) \<Rightarrow> Ok (r, ev)))"

fun run_arena ::
  "stale_policy \<Rightarrow> bool \<Rightarrow> pyfloat \<Rightarrow> arena_op list \<Rightarrow> robot_io \<Rightarrow> (robot_io \<times> arena_event list) result" where
  "run_arena policy balance_bot ctrl_max [] r = Ok (r, [])"
| "run_arena policy balance_bot ctrl_max (op # ops) r =
     bindR (arena_step policy balance_bot ctrl_max op r) (\<lambda>(r, ev).
     bindR (run_arena policy balance_bot ctrl_max ops r) (\<lambda>(r, ev'). Ok (r, ev @ ev')))"

text \<open>The log of one robot's staleness, read from a state (stale, ever fresh): one first command, then
  stale intervals that begin and end in turn.\<close>

fun alternates :: "bool \<Rightarrow> bool \<Rightarrow> arena_event list \<Rightarrow> bool" where
  "alternates stale ever [] = True"
| "alternates stale ever (FirstCommand i # es) = (stale \<and> \<not> ever \<and> alternates False True es)"
| "alternates stale ever (StaleEnd i d # es) = (stale \<and> ever \<and> alternates False True es)"
| "alternates stale ever (StaleBegin i n # es) = (\<not> stale \<and> alternates True ever es)"
| "alternates stale ever (_ # es) = alternates stale ever es"

definition ends :: "arena_event list \<Rightarrow> nat" where
  "ends ev = length (filter (\<lambda>e. case e of StaleEnd _ _ \<Rightarrow> True | _ \<Rightarrow> False) ev)"

definition starts :: "arena_event list \<Rightarrow> nat" where
  "starts ev = length (filter (\<lambda>e. case e of FirstCommand _ \<Rightarrow> True | _ \<Rightarrow> False) ev)"

definition stale_kept :: "robot_io \<Rightarrow> robot_io \<Rightarrow> arena_event list \<Rightarrow> bool" where
  "stale_kept r r' ev \<longleftrightarrow>
     (\<forall>es. alternates (ri_stale r) (ri_ever_fresh r) (ev @ es) = alternates (ri_stale r') (ri_ever_fresh r') es)
     \<and> ri_stale_intervals r' = ri_stale_intervals r + ends ev
     \<and> of_bool (ri_ever_fresh r') = (of_bool (ri_ever_fresh r) + starts ev :: nat)"

lemma stale_kept_refl: "stale_kept r r []"
  by (simp add: stale_kept_def ends_def starts_def)

lemma stale_kept_bad: "stale_kept r r [BadDatagram i]"
  by (simp add: stale_kept_def ends_def starts_def)

lemma stale_kept_trans: "stale_kept r r1 ev \<Longrightarrow> stale_kept r1 r2 ev' \<Longrightarrow> stale_kept r r2 (ev @ ev')"
  by (simp add: stale_kept_def ends_def starts_def)

lemma accept_stale: "accept_command now_us h c a r = (r', ev) \<Longrightarrow> stale_kept r r' ev"
  by (auto simp: accept_command_def note_dest_def count_gap_def Let_def stale_kept_def ends_def starts_def
      split: if_splits)

lemma drain_stale: "drain_robot now_us q r = Ok (r', ev) \<Longrightarrow> stale_kept r r' ev"
proof (induction now_us q r arbitrary: ev rule: drain_robot.induct)
  case (4 now_us data a q r)
  then obtain r1 e1 e2 where d: "receive_datagram now_us data a r = Ok (r1, e1)"
    and q: "drain_robot now_us q r1 = Ok (r', e2)" and ev: "ev = e1 @ e2" by (auto simp: bindR_Inr_conv)
  have "stale_kept r r1 e1"
    using d unfolding receive_datagram_def
    by (auto simp: stale_kept_refl stale_kept_bad dest: accept_stale
        split: sum.splits py_error.splits payload.splits if_splits)
  moreover have "stale_kept r1 r' e2" using "4.IH" [OF d] q by simp
  ultimately show ?case unfolding ev by (rule stale_kept_trans)
qed (auto simp: stale_kept_refl)

lemma apply_stale:
  "apply_control policy balance_bot ctrl_max now_us sim wheels r = (r', ev, out) \<Longrightarrow>
     stale_kept r r' ev \<and> ri_stale r' = (\<not> is_fresh now_us r)"
  by (auto simp: apply_control_def note_fresh_def note_stale_def is_fresh_def Let_def stale_kept_def ends_def
      starts_def split: if_splits option.splits prod.splits)

text \<open>Whatever arrives and however receiving and driving interleave, the staleness log of a robot is one
  first command followed by intervals that begin and end in turn, and the counters agree with it: the
  number of closed intervals, and whether a command was ever fresh.\<close>

theorem staleness_log_alternates:
  assumes "run_arena policy balance_bot ctrl_max ops (new_robot index node_id dest unix_path) = Ok (r, ev)"
  shows "alternates True False ev \<and> ri_stale_intervals r = ends ev \<and> starts ev = of_bool (ri_ever_fresh r)"
proof -
  have "stale_kept r0 r ev" if "run_arena policy balance_bot ctrl_max ops r0 = Ok (r, ev)" for r0
    using that
  proof (induction ops arbitrary: r0 ev)
    case Nil
    then show ?case by (simp add: stale_kept_refl)
  next
    case (Cons op ops)
    then obtain r1 e1 e2 where s: "arena_step policy balance_bot ctrl_max op r0 = Ok (r1, e1)"
      and t: "run_arena policy balance_bot ctrl_max ops r1 = Ok (r, e2)" and ev: "ev = e1 @ e2"
      by (auto simp: bindR_Inr_conv)
    have "stale_kept r0 r1 e1"
      using s drain_stale apply_stale by (auto simp: arena_step_def split: arena_op.splits prod.splits)
    with Cons.IH [OF t] show ?case unfolding ev by (blast intro: stale_kept_trans)
  qed
  from this [OF assms] have k: "stale_kept (new_robot index node_id dest unix_path) r ev" .
  then have "alternates True False (ev @ []) = alternates (ri_stale r) (ri_ever_fresh r) []"
    unfolding stale_kept_def by (metis new_robot_def robot_io.select_convs(14) robot_io.select_convs(15))
  with k show ?thesis by (simp add: stale_kept_def new_robot_def)
qed

section \<open>What reaches the motors\<close>

definition in_limit :: "pyfloat \<Rightarrow> pyfloat \<Rightarrow> bool" where
  "in_limit m x \<longleftrightarrow> fle (fneg m) x \<and> fle x m"

lemma clamp_in_limit: "m = Fin k \<Longrightarrow> 0 \<le> k \<Longrightarrow> in_limit m (clamp m x)"
  by (cases x) (auto simp: in_limit_def clamp_def fmax_def fmin_def)

lemma clamp_id: "in_limit m x \<Longrightarrow> clamp m x = x"
  by (cases x; cases m) (auto simp: in_limit_def clamp_def fmax_def fmin_def)

lemma clamp_zero: "m = Fin k \<Longrightarrow> 0 \<le> k \<Longrightarrow> clamp m (Fin 0) = Fin 0"
  by (auto simp: clamp_def fmax_def fmin_def)

text \<open>Whatever a brain sends and whenever it stops, both motors are driven within the limit and never
  with a NaN; a robot without a fresh command is marked stale and, under the zero policy, stopped;
  with a fresh command inside the limit that command is what drives it.\<close>

theorem motors_within_limit:
  assumes "0 \<le> k"
  shows "case apply_control policy balance_bot (Fin k) now_us sim wheels r of (r', ev, left_u, right_u) \<Rightarrow>
     in_limit (Fin k) left_u \<and> in_limit (Fin k) right_u
     \<and> ri_stale r' = (\<not> is_fresh now_us r)
     \<and> (if \<not> is_fresh now_us r \<and> policy = Zero then left_u = Fin 0 \<and> right_u = Fin 0 else True)
     \<and> (case ri_last_cmd r of None \<Rightarrow> True
        | Some c \<Rightarrow> if is_fresh now_us r \<and> in_limit (Fin k) (wheel_left c) \<and> in_limit (Fin k) (wheel_right c)
                     then left_u = wheel_left c \<and> right_u = wheel_right c else True)"
proof -
  obtain r' ev l u where a: "apply_control policy balance_bot (Fin k) now_us sim wheels r = (r', ev, l, u)"
    by (metis prod_cases4)
  have cz: "clamp (Fin k) (Fin 0) = Fin 0" using clamp_zero [OF refl assms] .
  have w: "in_limit (Fin k) (clamp (Fin k) x)" for x by (rule clamp_in_limit [OF refl assms])
  have z: "in_limit (Fin k) (Fin 0)" using w [of "Fin 0"] cz by simp
  have lr: "in_limit (Fin k) l \<and> in_limit (Fin k) u"
    using a w z by (auto simp: apply_control_def split: if_splits option.splits prod.splits)
  have zero: "l = Fin 0 \<and> u = Fin 0" if "\<not> is_fresh now_us r" "policy = Zero"
    using a that cz by (auto simp: apply_control_def stale_command_def split: prod.splits)
  have fresh: "l = wheel_left c \<and> u = wheel_right c"
    if "ri_last_cmd r = Some c" "is_fresh now_us r" "in_limit (Fin k) (wheel_left c)" "in_limit (Fin k) (wheel_right c)" for c
    using a that clamp_id
    by (auto simp: apply_control_def note_fresh_def Let_def split: prod.splits if_splits)
  show ?thesis unfolding a prod.case
    using lr zero fresh apply_stale [OF a] by (auto split: option.split)
qed

text \<open>A NaN on the wire is not a stop: the clamp turns it into full power forward.\<close>

theorem nan_command_drives:
  "is_fresh now_us r \<Longrightarrow> ri_last_cmd r = Some c \<Longrightarrow> wheel_left c = NaN \<Longrightarrow> 0 < k \<Longrightarrow>
     fst (snd (snd (apply_control policy balance_bot (Fin k) now_us sim wheels r))) = Fin k"
  by (auto simp: apply_control_def note_fresh_def Let_def clamp_def fmax_def fmin_def split: prod.splits if_splits)

section \<open>Verdicts\<close>

definition swap_verdict :: "(nat option \<times> reason) option \<Rightarrow> (nat option \<times> reason) option" where
  "swap_verdict = map_option (\<lambda>(w, why). (map_option (\<lambda>i. 1 - i) w, why))"

lemma fabs_fneg: "fabs (fneg x) = fabs x"
  by (cases x) auto

lemma fsub_swap: "fabs (fsub (Fin a) (Fin b)) = fabs (fsub (Fin b) (Fin a))"
  using rnd64_minus [of "b - a"] fabs_fneg [of "rnd64 (b - a)"] by (simp add: fsub_def)

lemmas verdict_simps = referee_def who_def Let_def swap_verdict_def

text \<open>The referee is fair: with finite positions and a positive margin, exchanging the two robots exchanges
  the verdict.\<close>

theorem referee_symmetric:
  assumes "is_finite (p_radial p0)" and "is_finite (p_radial p1)" and "rg_margin g = Fin m" and "0 < m"
  shows "referee g holding sim p1 p0 = swap_verdict (referee g holding sim p0 p1)"
proof -
  obtain a b where ab: "p_radial p0 = Fin a" "p_radial p1 = Fin b" using assms(1,2) by (auto simp: is_finite_conv)
  have d: "fabs (fsub (Fin b) (Fin a)) = fabs (fsub (Fin a) (Fin b))" by (rule fsub_swap)
  have "flt (fabs (fsub (Fin a) (Fin b))) (Fin m)" if "a = b" using that assms(4) by (simp add: fsub_def)
  then show ?thesis using assms(3) d ab by (auto simp: verdict_simps)
qed

text \<open>A verdict is just: the fight goes on only while nobody fell or left the ring before the time limit;
  a winner did not fall, and the other robot fell, or left the ring alone, or was not nearer to the
  centre when time ran out with nobody outside.\<close>

theorem verdict_just:
  "case referee g holding sim p0 p1 of
     None \<Rightarrow> \<not> is_fallen g holding p0 \<and> \<not> is_fallen g holding p1 \<and> \<not> is_out g p0 \<and> \<not> is_out g p1
       \<and> \<not> fle (rg_time_limit g) sim
   | Some (None, why) \<Rightarrow> why = BothFell \<and> is_fallen g holding p0 \<and> is_fallen g holding p1
       \<or> why = BothOut \<and> is_out g p0 \<and> is_out g p1 \<or> why = Timeout \<and> fle (rg_time_limit g) sim
   | Some (Some w, why) \<Rightarrow>
       (let won = (if w = 0 then p0 else p1); lost = (if w = 0 then p1 else p0)
        in w \<le> 1 \<and> \<not> is_fallen g holding won
           \<and> (is_fallen g holding lost \<or> is_out g lost \<and> \<not> is_out g won
              \<or> \<not> is_out g lost \<and> \<not> is_out g won \<and> fle (rg_time_limit g) sim
                \<and> \<not> flt (p_radial lost) (p_radial won)))"
proof -
  have asym: "flt a b \<Longrightarrow> \<not> flt b a" for a b by (cases a; cases b) auto
  show ?thesis
    by (cases "is_fallen g holding p0"; cases "is_fallen g holding p1"; cases "is_out g p0"; cases "is_out g p1")
      (auto simp: referee_def who_def Let_def dest: asym)
qed

text \<open>The catch-up loop takes at most \<open>max_catchup_steps\<close> steps, each from a state behind the wall clock,
  and stops early only once the simulation has caught up.\<close>

theorem catch_up_bounded:
  "case catch_up control mj_step time target n w of (w', k) \<Rightarrow>
     k \<le> n \<and> w' = ((\<lambda>w. mj_step (control w)) ^^ k) w
     \<and> list_all (\<lambda>j. flt (time (((\<lambda>w. mj_step (control w)) ^^ j) w)) target) [0..<k]
     \<and> (if k < n then \<not> flt (time w') target else True)"
proof (induction n arbitrary: w)
  case 0
  then show ?case by simp
next
  case (Suc n)
  let ?f = "\<lambda>w. mj_step (control w)"
  show ?case
  proof (cases "flt (time w) target")
    case True
    obtain w' k where c: "catch_up control mj_step time target n (?f w) = (w', k)" by fastforce
    have ih: "list_all (\<lambda>j. flt (time ((?f ^^ j) (?f w))) target) [0..<k]" using Suc.IH [of "?f w"] c by simp
    have "list_all (\<lambda>j. flt (time ((?f ^^ j) w)) target) [0..<Suc k]"
      unfolding upt_conv_Cons [OF zero_less_Suc] map_Suc_upt [symmetric]
      using True ih by (simp add: list.pred_map comp_def del: funpow.simps add: funpow_Suc_right)
    moreover from Suc.IH [of "?f w", unfolded c prod.case]
    have "k \<le> n" "w' = (?f ^^ Suc k) w" and "k < n \<Longrightarrow> \<not> flt (time w') target"
      by (simp_all add: funpow_Suc_right del: funpow.simps, meson)
    moreover have "catch_up control mj_step time target (Suc n) w = (w', Suc k)" using True c by simp
    ultimately show ?thesis by (simp del: catch_up.simps funpow.simps upt_Suc)
  qed auto
qed

section \<open>Witnesses\<close>

definition demo_robot :: robot_io where "demo_robot = new_robot 1 ''ue1'' None None"

theorem drain_refines_newest_witness:
  "\<exists>data r' ev. drain_robot 9 (map (\<lambda>(d, a). Datagram d a) [(data, UnixPath ''m'')] @ [WouldBlock]) demo_robot = Ok (r', ev)
    \<and> commands_in 1 [(data, UnixPath ''m'')] = [(sample_header\<lparr>h_seq := 5\<rparr>, sample_command)]
    \<and> (ri_last_cmd_seq r', ri_last_cmd r') = (5, Some sample_command)"
proof -
  obtain data where u: "unpack data = Ok (sample_header\<lparr>h_seq := 5\<rparr>, CommandBody sample_command)"
    using sample_datagram by blast
  have c: "commands_in 1 [(data, UnixPath ''m'')] = [(sample_header\<lparr>h_seq := 5\<rparr>, sample_command)]"
    by (simp add: commands_in_def map_filter_def command_in_def u sample_header_def)
  have i: "ri_index demo_robot = 1" "ri_last_cmd_seq demo_robot = 0" "ri_last_cmd demo_robot = None"
    by (simp_all add: demo_robot_def new_robot_def)
  obtain r' ev where d: "drain_robot 9 (map (\<lambda>(d, a). Datagram d a) [(data, UnixPath ''m'')] @ [WouldBlock]) demo_robot
      = Ok (r', ev)"
    using u i by (cases "accept_command 9 (sample_header\<lparr>h_seq := 5\<rparr>) sample_command (UnixPath ''m'') demo_robot")
      (auto simp: receive_datagram_def sample_header_def)
  have "(ri_last_cmd_seq r', ri_last_cmd r') = newest (0, None) [(sample_header\<lparr>h_seq := 5\<rparr>, sample_command)]"
    using drain_refines_newest [OF d, of 0] c i by simp
  with d c show ?thesis by (auto simp: sample_header_def)
qed

theorem staleness_log_alternates_witness:
  "\<exists>r ev. run_arena Coast False (Fin 30) [Drain 0 [WouldBlock], Tick 1 (Fin 0) (Fin 0, Fin 0)]
      (new_robot 1 ''ue1'' None None) = Ok (r, ev)
    \<and> alternates True False ev \<and> ri_stale_intervals r = ends ev \<and> starts ev = of_bool (ri_ever_fresh r)"
proof -
  obtain r ev where "run_arena Coast False (Fin 30) [Drain 0 [WouldBlock], Tick 1 (Fin 0) (Fin 0, Fin 0)]
      (new_robot 1 ''ue1'' None None) = Ok (r, ev)"
    by (cases "apply_control Coast False (Fin 30) 1 (Fin 0) (Fin 0, Fin 0) (new_robot 1 ''ue1'' None None)")
      (simp add: arena_step_def)
  with staleness_log_alternates [OF this] show ?thesis by blast
qed

theorem motors_within_limit_witness:
  "case apply_control Hold True (Fin (3/2)) 0 (Fin 0) (Fin 0, Fin 0) demo_robot of (r', ev, left_u, right_u) \<Rightarrow>
     in_limit (Fin (3/2)) left_u \<and> in_limit (Fin (3/2)) right_u"
  using motors_within_limit [where k = "3/2" and policy = Hold and balance_bot = True and now_us = 0
      and sim = "Fin 0" and wheels = "(Fin 0, Fin 0)" and r = demo_robot] by (auto split: prod.splits)

definition demo_ring :: ring where
  "demo_ring = \<lparr>rg_radius = Fin 2, rg_fall_up = Fin (1/4), rg_time_limit = Fin 60, rg_margin = Fin (1/16)\<rparr>"

definition standing :: "rat \<Rightarrow> pose" where
  "standing d = \<lparr>p_radial = Fin d, p_z = Fin 0, p_up = Fin 1\<rparr>"

theorem referee_symmetric_witness:
  "referee demo_ring False (Fin 61) (standing 3) (standing 1)
    = swap_verdict (referee demo_ring False (Fin 61) (standing 1) (standing 3))"
  by (rule referee_symmetric [where m = "1/16"]) (simp_all add: demo_ring_def standing_def)

end
