(* ===== verification/Brain.thy ===== *)
theory Brain
  imports Protocol FloatBounds
begin

text \<open>
  The brain of a robot, class \<open>Brain\<close> of \<^verbatim>\<open>use_cases/robot_fight/brain.py\<close>: what its receiver thread
  keeps of the STATE datagrams, the link estimate, and the commands it sends. Clock readings are
  arguments in microseconds; an integer that meets a float in an expression is converted first, as
  Python does. The policy is a parameter.
\<close>

unbundle bit_operations_syntax

section \<open>State\<close>

record link_est =
  lk_now_us :: int
  lk_state_age_us :: "pyfloat option"
  lk_cmd_one_way_us :: "pyfloat option"
  lk_period_us :: int
  lk_shared_clock :: "bool option"
  lk_rtt_min_us :: "int option"

record brain =
  br_robot_id :: int
  br_ttl_ms :: int
  br_cmd_seq :: int
  br_last_state :: "bot_state option"
  br_last_header :: "header option"
  br_last_recv_us :: int
  br_states_received :: nat
  br_state_gaps :: int
  br_rtt_us :: "int list"
  br_last_echoed_seq :: int
  br_one_way_us :: "int list"
  br_fresh :: bool
  br_ticks :: nat
  br_ticks_without_fresh :: nat
  br_deadline_misses :: nat
  br_over_flags :: int
  br_window_size :: nat
  br_rtt_window :: "int list"
  br_ow_est_us :: "pyfloat option"
  br_horizons_us :: "pyfloat list"
  br_link_last_log :: int
  br_link :: link_est

definition new_brain :: "int \<Rightarrow> int \<Rightarrow> nat \<Rightarrow> int \<Rightarrow> brain" where
  "new_brain robot_id ttl window_size period_us =
     \<lparr>br_robot_id = robot_id, br_ttl_ms = ttl, br_cmd_seq = 0, br_last_state = None, br_last_header = None,
      br_last_recv_us = 0, br_states_received = 0, br_state_gaps = 0, br_rtt_us = [], br_last_echoed_seq = 0,
      br_one_way_us = [], br_fresh = False, br_ticks = 0, br_ticks_without_fresh = 0, br_deadline_misses = 0,
      br_over_flags = 0, br_window_size = window_size, br_rtt_window = [], br_ow_est_us = None,
      br_horizons_us = [], br_link_last_log = 0,
      br_link = \<lparr>lk_now_us = 0, lk_state_age_us = None, lk_cmd_one_way_us = None, lk_period_us = period_us,
                 lk_shared_clock = None, lk_rtt_min_us = None\<rparr>\<rparr>"

section \<open>Receiving\<close>

definition note_gap :: "header \<Rightarrow> brain \<Rightarrow> brain" where
  "note_gap h b =
     (case br_last_header b of
        None \<Rightarrow> b
      | Some lh \<Rightarrow>
          if h_seq h > h_seq lh + 1 then b\<lparr>br_state_gaps := br_state_gaps b + (h_seq h - h_seq lh - 1)\<rparr> else b)"

definition note_rtt :: "header \<Rightarrow> int \<Rightarrow> brain \<Rightarrow> brain" where
  "note_rtt h now_us b =
     (case rtt_us h now_us of
        None \<Rightarrow> b
      | Some rtt \<Rightarrow>
          if h_echo_seq h \<noteq> br_last_echoed_seq b
          then b\<lparr>br_last_echoed_seq := h_echo_seq h, br_rtt_us := br_rtt_us b @ [rtt],
                 br_rtt_window := deque_append (br_window_size b) rtt (br_rtt_window b)\<rparr>
          else b)"

definition note_one_way :: "int \<Rightarrow> brain \<Rightarrow> brain" where
  "note_one_way one_way b =
     b\<lparr>br_one_way_us := br_one_way_us b @ [one_way],
       br_ow_est_us := Some (case br_ow_est_us b of
          None \<Rightarrow> fl one_way
        | Some est \<Rightarrow> fadd est (fmul (rnd64 (5/100)) (fsub (fl one_way) est)))\<rparr>"

definition has_flag :: "int \<Rightarrow> int \<Rightarrow> bool" where "has_flag flags f \<longleftrightarrow> flags AND f \<noteq> 0"

definition keep_state :: "header \<Rightarrow> bot_state \<Rightarrow> int \<Rightarrow> brain \<Rightarrow> brain" where
  "keep_state h st now_us b =
     b\<lparr>br_last_state := Some st, br_last_header := Some h, br_last_recv_us := now_us, br_fresh := True,
       br_over_flags := (if has_flag (st_flags st) FLAG_OVER then st_flags st else br_over_flags b)\<rparr>"

definition is_old :: "header \<Rightarrow> brain \<Rightarrow> bool" where
  "is_old h b = (case br_last_header b of None \<Rightarrow> False | Some lh \<Rightarrow> h_seq h \<le> h_seq lh)"

definition on_state :: "header \<Rightarrow> bot_state \<Rightarrow> int \<Rightarrow> brain \<Rightarrow> brain" where
  "on_state h st now_us b =
     (let b = b\<lparr>br_states_received := br_states_received b + 1\<rparr>
      in if is_old h b then b
         else keep_state h st now_us
                (note_one_way (now_us - h_t_send_us h) (note_rtt h now_us (note_gap h b))))"

text \<open>One datagram: what cannot be decoded is logged, what is not a STATE for this robot ignored.\<close>

definition state_in :: "int \<Rightarrow> bytes \<Rightarrow> (header \<times> bot_state) option" where
  "state_in robot_id data =
     (case unpack data of
        Inr (h, StateBody st) \<Rightarrow> if h_kind h = KIND_STATE \<and> h_robot_id h = robot_id then Some (h, st) else None
      | _ \<Rightarrow> None)"

definition receive :: "int \<Rightarrow> bytes \<Rightarrow> brain \<Rightarrow> brain" where
  "receive now_us data b =
     (case state_in (br_robot_id b) data of None \<Rightarrow> b | Some (h, st) \<Rightarrow> on_state h st now_us b)"

fun receiver :: "(int \<times> bytes) list \<Rightarrow> brain \<Rightarrow> brain" where
  "receiver [] b = b"
| "receiver ((now_us, data) # q) b = receiver q (receive now_us data b)"

definition take_state :: "brain \<Rightarrow> (bot_state option \<times> bool \<times> header option \<times> int) \<times> brain" where
  "take_state b = ((br_last_state b, br_fresh b, br_last_header b, br_last_recv_us b), b\<lparr>br_fresh := False\<rparr>)"

section \<open>Sending\<close>

definition command_header :: "int \<Rightarrow> brain \<Rightarrow> header" where
  "command_header now_us b =
     \<lparr>h_kind = KIND_CMD, h_robot_id = br_robot_id b, h_seq = br_cmd_seq b, h_t_send_us = now_us,
      h_echo_seq = (case br_last_header b of None \<Rightarrow> 0 | Some h \<Rightarrow> h_seq h),
      h_t_echo_us = (case br_last_header b of None \<Rightarrow> 0 | Some h \<Rightarrow> h_t_send_us h)\<rparr>"

definition send_command :: "int \<Rightarrow> pyfloat \<times> pyfloat \<Rightarrow> brain \<Rightarrow> brain \<times> bytes result" where
  "send_command now_us u b =
     (let b = b\<lparr>br_cmd_seq := br_cmd_seq b + 1\<rparr>
      in (b, pack_command (command_header now_us b)
               \<lparr>wheel_left = fst u, wheel_right = snd u, ttl_ms = br_ttl_ms b\<rparr>))"

section \<open>The link estimate\<close>

definition min_of_list :: "int list \<Rightarrow> int option" where
  "min_of_list xs = (case xs of [] \<Rightarrow> None | y # ys \<Rightarrow> Some (fold min ys y))"

definition clock_shared :: "int \<Rightarrow> pyfloat option \<Rightarrow> bool" where
  "clock_shared rtt_min ow =
     (case ow of None \<Rightarrow> False
      | Some w \<Rightarrow> fle (Fin (- 500)) w \<and> fle w (fadd (fl rtt_min) (Fin 500)))"

text \<open>\<open>rtt / 2.0\<close>.\<close>

definition half :: "int \<Rightarrow> pyfloat" where
  "half rtt = (case fdiv (fl rtt) (Fin 2) of Inr x \<Rightarrow> x | Inl _ \<Rightarrow> NaN)"

definition update_link :: "int \<Rightarrow> header option \<Rightarrow> int \<Rightarrow> brain \<Rightarrow> brain" where
  "update_link now_us state_header recv_us b =
     (let lk = (br_link b)\<lparr>lk_now_us := now_us, lk_rtt_min_us := min_of_list (br_rtt_window b)\<rparr>
      in case (min_of_list (br_rtt_window b), state_header) of
           (Some rtt, Some h) \<Rightarrow>
             (let shared = clock_shared rtt (br_ow_est_us b);
                  ow = (case br_ow_est_us b of None \<Rightarrow> Fin 0 | Some w \<Rightarrow> w);
                  age = (if shared then fl (max 0 (now_us - h_t_send_us h))
                         else fadd (fl (max 0 (now_us - recv_us))) (half rtt));
                  one_way = (if shared then fmax (Fin 0) (fsub (fl rtt) (fmax (Fin 0) ow)) else half rtt)
              in b\<lparr>br_link := lk\<lparr>lk_shared_clock := Some shared, lk_state_age_us := Some age,
                                  lk_cmd_one_way_us := Some one_way\<rparr>,
                   br_horizons_us := br_horizons_us b @ [fadd age one_way],
                   br_link_last_log := (if 1000000 < now_us - br_link_last_log b then now_us else br_link_last_log b)\<rparr>)
         | _ \<Rightarrow> b\<lparr>br_link := lk\<lparr>lk_state_age_us := None, lk_cmd_one_way_us := None\<rparr>,
                  br_link_last_log := (if 1000000 < now_us - br_link_last_log b then now_us else br_link_last_log b)\<rparr>)"

section \<open>A tick\<close>

text \<open>Pacing: not yet due; due; or so late that the schedule is restarted.\<close>

definition pace :: "pyfloat \<Rightarrow> pyfloat \<Rightarrow> pyfloat \<Rightarrow> brain \<Rightarrow> (pyfloat \<times> brain) option" where
  "pace now_s period next_tick b =
     (if flt now_s next_tick then None
      else if flt period (fsub now_s next_tick)
      then Some (fadd now_s period, b\<lparr>br_deadline_misses := br_deadline_misses b + 1, br_ticks := br_ticks b + 1\<rparr>)
      else Some (fadd next_tick period, b\<lparr>br_ticks := br_ticks b + 1\<rparr>))"

datatype tick_result = FightOver | Sent "bytes result"

definition tick ::
  "(bot_state \<Rightarrow> link_est \<Rightarrow> pyfloat \<times> pyfloat) \<Rightarrow> int \<Rightarrow> int \<Rightarrow> brain \<Rightarrow> tick_result \<times> brain" where
  "tick policy link_us send_us b =
     (case take_state b of ((state, fresh, state_header, recv_us), b) \<Rightarrow>
        if br_over_flags b \<noteq> 0 then (FightOver, b)
        else case state of
          None \<Rightarrow> (case send_command send_us (Fin 0, Fin 0) b of (b, d) \<Rightarrow> (Sent d, b))
        | Some st \<Rightarrow>
            (let b = (if fresh then b else b\<lparr>br_ticks_without_fresh := br_ticks_without_fresh b + 1\<rparr>);
                 b = update_link link_us state_header recv_us b
             in case send_command send_us (policy st (br_link b)) b of (b, d) \<Rightarrow> (Sent d, b)))"

datatype outcome = Unknown | Won | Lost | Draw

definition outcome_of :: "int \<Rightarrow> outcome" where
  "outcome_of flags =
     (if has_flag flags FLAG_WON then Won else if has_flag flags FLAG_LOST then Lost
      else if has_flag flags FLAG_OVER then Draw else Unknown)"

section \<open>What the receiver keeps\<close>

text \<open>The accepted STATE datagrams of a queue are its successive maxima.\<close>

definition newer :: "header option \<Rightarrow> header \<Rightarrow> bool" where
  "newer last_h h = (case last_h of None \<Rightarrow> True | Some lh \<Rightarrow> h_seq lh < h_seq h)"

lemma newer_simps [simp]: "newer None h" "newer (Some lh) h = (h_seq lh < h_seq h)"
  by (simp_all add: newer_def)

lemma is_old_newer: "is_old h b = (\<not> newer (br_last_header b) h)"
  by (auto simp: is_old_def newer_def split: option.split)

fun accepted :: "header option \<Rightarrow> (header \<times> bot_state) list \<Rightarrow> (header \<times> bot_state) list" where
  "accepted last_h [] = []"
| "accepted last_h ((h, st) # q) =
     (if newer last_h h then (h, st) # accepted (Some h) q else accepted last_h q)"

definition states_in :: "int \<Rightarrow> (int \<times> bytes) list \<Rightarrow> (header \<times> bot_state) list" where
  "states_in robot_id q = List.map_filter (\<lambda>(_, data). state_in robot_id data) q"

lemma states_in_simps:
  "states_in i [] = []"
  "states_in i ((t, d) # q) = (case state_in i d of None \<Rightarrow> states_in i q | Some x \<Rightarrow> x # states_in i q)"
  by (simp_all add: states_in_def map_filter_def split: option.split)

lemma on_state_old: "is_old h b \<Longrightarrow> on_state h st t b = b\<lparr>br_states_received := br_states_received b + 1\<rparr>"
  by (simp add: on_state_def is_old_def)

lemmas receiver_defs = note_gap_def note_rtt_def note_one_way_def keep_state_def Let_def

definition gap_after :: "header option \<Rightarrow> header \<Rightarrow> int" where
  "gap_after last_h h = (case last_h of None \<Rightarrow> 0 | Some lh \<Rightarrow> max 0 (h_seq h - h_seq lh - 1))"

lemma on_state_new:
  assumes "\<not> is_old h b"
  shows "br_robot_id (on_state h st t b) = br_robot_id b"
    "br_last_header (on_state h st t b) = Some h" "br_last_state (on_state h st t b) = Some st"
    "br_last_recv_us (on_state h st t b) = t" "br_fresh (on_state h st t b)"
    "br_states_received (on_state h st t b) = br_states_received b + 1"
    "br_one_way_us (on_state h st t b) = br_one_way_us b @ [t - h_t_send_us h]"
    "br_state_gaps (on_state h st t b) = br_state_gaps b + gap_after (br_last_header b) h"
  using assms
  by (auto simp: on_state_def is_old_def receiver_defs gap_after_def split: option.splits)

definition last_or :: "'a option \<Rightarrow> 'a list \<Rightarrow> 'a option" where
  "last_or x xs = (if xs = [] then x else Some (last xs))"

lemma last_or_Cons: "last_or x (y # ys) = last_or (Some y) ys"
  by (simp add: last_or_def)

lemma receiver_kept:
  "receiver q b = b' \<Longrightarrow>
     br_last_header b' = last_or (br_last_header b) (map fst (accepted (br_last_header b) (states_in (br_robot_id b) q)))
     \<and> br_last_state b' = last_or (br_last_state b) (map snd (accepted (br_last_header b) (states_in (br_robot_id b) q)))
     \<and> br_states_received b' = br_states_received b + length (states_in (br_robot_id b) q)
     \<and> length (br_one_way_us b') = length (br_one_way_us b)
          + length (accepted (br_last_header b) (states_in (br_robot_id b) q))
     \<and> br_robot_id b' = br_robot_id b"
proof (induction q b rule: receiver.induct)
  case (1 b)
  then show ?case by (auto simp: states_in_simps last_or_def)
next
  case (2 t d q b)
  show ?case
  proof (cases "state_in (br_robot_id b) d")
    case None
    with 2 show ?thesis by (simp add: receive_def states_in_simps)
  next
    case (Some hs)
    obtain h st where hs: "hs = (h, st)" by fastforce
    have rc: "receive t d b = on_state h st t b" using Some hs by (simp add: receive_def)
    show ?thesis
    proof (cases "is_old h b")
      case True
      with 2 show ?thesis
        by (simp add: rc on_state_old states_in_simps Some hs is_old_newer)
    next
      case False
      have acc: "accepted (br_last_header b) ((h, st) # xs) = (h, st) # accepted (Some h) xs" for xs
        using False by (simp add: is_old_newer)
      from 2 False show ?thesis
        by (simp add: rc on_state_new states_in_simps Some hs acc last_or_Cons del: accepted.simps)
    qed
  qed
qed

text \<open>Whatever the network reorders or repeats, the receiver refines a newest-wins register: what a tick
  takes is the newest of the STATE datagrams for this robot, no older one ever replaces it, and every
  datagram is counted.\<close>

theorem receiver_refines_newest:
  "(let got = states_in (br_robot_id b) q; kept = accepted (br_last_header b) got; b' = receiver q b
    in fst (take_state b') = (last_or (br_last_state b) (map snd kept), br_fresh b',
         last_or (br_last_header b) (map fst kept), br_last_recv_us b')
       \<and> br_states_received b' = br_states_received b + length got
       \<and> sorted_wrt (<) (map (\<lambda>p. h_seq (fst p)) kept))"
proof -
  have "sorted_wrt (<) (map (\<lambda>p. h_seq (fst p)) (accepted lh xs))
      \<and> (\<forall>p \<in> set (accepted lh xs). \<forall>l. lh = Some l \<longrightarrow> h_seq l < h_seq (fst p))" for lh xs
    by (induction lh xs rule: accepted.induct) (force split: option.splits)+
  with receiver_kept [OF refl, of q b] show ?thesis by (simp add: take_state_def Let_def)
qed

fun gaps_in :: "header option \<Rightarrow> header list \<Rightarrow> int" where
  "gaps_in last_h [] = 0"
| "gaps_in last_h (h # hs) = gap_after last_h h + gaps_in (Some h) hs"

lemma receiver_gaps:
  "br_state_gaps (receiver q b) = br_state_gaps b
     + gaps_in (br_last_header b) (map fst (accepted (br_last_header b) (states_in (br_robot_id b) q)))"
proof (induction q b rule: receiver.induct)
  case (1 b)
  then show ?case by (simp add: states_in_simps)
next
  case (2 t d q b)
  show ?case
  proof (cases "state_in (br_robot_id b) d")
    case None
    with 2 show ?thesis by (simp add: receive_def states_in_simps)
  next
    case (Some hs)
    obtain h st where hs: "hs = (h, st)" by fastforce
    have rc: "receive t d b = on_state h st t b" using Some hs by (simp add: receive_def)
    show ?thesis
    proof (cases "is_old h b")
      case True
      with 2 show ?thesis
        by (simp add: rc on_state_old states_in_simps Some hs is_old_newer)
    next
      case False
      have acc: "accepted (br_last_header b) ((h, st) # xs) = (h, st) # accepted (Some h) xs" for xs
        using False by (simp add: is_old_newer)
      from 2 False show ?thesis by (simp add: rc on_state_new states_in_simps Some hs acc del: accepted.simps)
    qed
  qed
qed

lemma gaps_span:
  "gaps_in (Some l) (map fst (accepted (Some l) xs)) =
     h_seq (the (last_or (Some l) (map fst (accepted (Some l) xs)))) - h_seq l - int (length (accepted (Some l) xs))"
proof (induction xs arbitrary: l)
  case Nil
  then show ?case by (simp add: last_or_def)
next
  case (Cons x xs)
  then show ?case by (cases x) (simp add: gap_after_def last_or_Cons)
qed

lemma accepted_None: "accepted None xs = (case xs of [] \<Rightarrow> [] | (h, st) # q \<Rightarrow> (h, st) # accepted (Some h) q)"
  by (cases xs) (auto split: prod.split)

text \<open>Loss accounting: from a new brain on, the sequence number of the newest STATE is that of the first
  accepted one plus the number of accepted ones after it plus the counted gaps.\<close>

theorem loss_accounting:
  "(let kept = accepted None (states_in robot_id q); b = receiver q (new_brain robot_id ttl size_w period)
    in case kept of [] \<Rightarrow> br_last_header b = None \<and> br_state_gaps b = 0
       | k # ks \<Rightarrow> (case br_last_header b of None \<Rightarrow> False
          | Some h \<Rightarrow> h_seq h = h_seq (fst k) + int (length ks) + br_state_gaps b))"
proof -
  let ?b = "new_brain robot_id ttl size_w period"
  have b: "br_last_header ?b = None" "br_robot_id ?b = robot_id" "br_state_gaps ?b = 0"
    by (simp_all add: new_brain_def)
  show ?thesis
  proof (cases "states_in robot_id q")
    case Nil
    then show ?thesis using receiver_kept [OF refl, of q ?b] receiver_gaps [of q ?b] b
      by (simp add: Let_def last_or_def)
  next
    case (Cons x xs)
    obtain h st where x: "x = (h, st)" by fastforce
    have kept: "accepted None (states_in robot_id q) = (h, st) # accepted (Some h) xs"
      by (simp add: Cons x)
    have "br_state_gaps (receiver q ?b) = gaps_in (Some h) (map fst (accepted (Some h) xs))"
      using receiver_gaps [of q ?b] b kept by (simp add: gap_after_def)
    moreover have "br_last_header (receiver q ?b) = last_or (Some h) (map fst (accepted (Some h) xs))"
      using receiver_kept [OF refl, of q ?b] b kept by (simp add: last_or_Cons)
    ultimately show ?thesis using gaps_span [of h xs] kept by (simp add: last_or_def split: if_splits)
  qed
qed

section \<open>Round trips and the link estimate\<close>

datatype brain_op = Receive int bytes | TickAt int int

definition brain_step ::
  "(bot_state \<Rightarrow> link_est \<Rightarrow> pyfloat \<times> pyfloat) \<Rightarrow> brain_op \<Rightarrow> brain \<Rightarrow> brain" where
  "brain_step policy op b =
     (case op of Receive now_us data \<Rightarrow> receive now_us data b
      | TickAt link_us send_us \<Rightarrow> snd (tick policy link_us send_us b))"

text \<open>The window of the link estimate against all samples, and the samples against the accepted STATEs.\<close>

definition samples_kept :: "brain \<Rightarrow> bool" where
  "samples_kept b \<longleftrightarrow>
     br_rtt_window b = drop (length (br_rtt_us b) - br_window_size b) (br_rtt_us b)
     \<and> length (br_rtt_us b) \<le> length (br_one_way_us b)"

lemma note_rtt_samples:
  "samples_kept b \<Longrightarrow> samples_kept (note_one_way w (note_rtt h t b))"
  using deque_append_newest [of "br_rtt_window b" "br_rtt_us b" "br_window_size b"]
  by (auto simp: samples_kept_def note_rtt_def note_one_way_def split: option.split)

lemma receive_samples: "samples_kept b \<Longrightarrow> samples_kept (receive t d b)"
proof -
  assume k: "samples_kept b"
  have "samples_kept (on_state h st t b)" for h st
  proof -
    have "samples_kept (note_gap h (b\<lparr>br_states_received := br_states_received b + 1\<rparr>))"
      using k by (simp add: samples_kept_def note_gap_def split: option.split)
    from note_rtt_samples [OF this] have
      "samples_kept (keep_state h st t (note_one_way (t - h_t_send_us h) (note_rtt h t
         (note_gap h (b\<lparr>br_states_received := br_states_received b + 1\<rparr>)))))"
      by (simp add: samples_kept_def keep_state_def)
    with k show ?thesis by (simp add: on_state_def Let_def samples_kept_def)
  qed
  with k show ?thesis by (simp add: receive_def split: option.split prod.split)
qed

lemma update_link_keeps:
  "br_rtt_window (update_link t h r b) = br_rtt_window b" "br_rtt_us (update_link t h r b) = br_rtt_us b"
  "br_one_way_us (update_link t h r b) = br_one_way_us b" "br_window_size (update_link t h r b) = br_window_size b"
  "br_cmd_seq (update_link t h r b) = br_cmd_seq b"
  by (simp_all add: update_link_def Let_def split: option.split)

lemma tick_samples: "samples_kept b \<Longrightarrow> samples_kept (snd (tick policy t t' b))"
  by (simp add: tick_def take_state_def send_command_def samples_kept_def Let_def update_link_keeps
      split: option.split)

text \<open>However receiving and ticking interleave, the window of the link estimate holds exactly the newest
  round-trip samples, as many as it has room for, and at most one sample was taken per accepted STATE.\<close>

theorem window_holds_newest_samples:
  "(let b = fold (brain_step policy) ops (new_brain robot_id ttl size_w period)
    in br_rtt_window b = drop (length (br_rtt_us b) - br_window_size b) (br_rtt_us b)
       \<and> length (br_rtt_us b) \<le> length (br_one_way_us b))"
proof -
  have "samples_kept b \<Longrightarrow> samples_kept (fold (brain_step policy) ops b)" for b
    by (induction ops arbitrary: b)
      (auto simp: brain_step_def receive_samples tick_samples split: brain_op.split)
  moreover have "samples_kept (new_brain robot_id ttl size_w period)"
    by (simp add: samples_kept_def new_brain_def)
  ultimately show ?thesis by (simp add: samples_kept_def Let_def)
qed

section \<open>Signs\<close>

definition nonneg :: "pyfloat \<Rightarrow> bool" where "nonneg x \<longleftrightarrow> fle (Fin 0) x"

lemma nonneg_PInf [simp]: "nonneg PInf"
  by (simp add: nonneg_def)

lemma nonneg_rnd64: "0 \<le> r \<Longrightarrow> nonneg (rnd64 r)"
  using quant_nonneg [of r 52 "- 1074"] by (auto simp: nonneg_def rnd64_def Let_def huge64_def)

lemma nonneg_cases: "nonneg x \<Longrightarrow> x = PInf \<or> (\<exists>r. x = Fin r \<and> 0 \<le> r)"
  by (cases x) (auto simp: nonneg_def)

lemma nonneg_fadd: "nonneg x \<Longrightarrow> nonneg y \<Longrightarrow> nonneg (fadd x y)"
  using nonneg_cases [of x] nonneg_cases [of y] by (auto simp: nonneg_rnd64)

lemma nonneg_half: "0 \<le> rtt \<Longrightarrow> nonneg (half rtt)"
  using nonneg_cases [OF nonneg_rnd64, of "of_int rtt"]
  by (auto simp: half_def fl_def nonneg_rnd64 sgn_inf_def)

lemma nonneg_fmax: "nonneg (fmax (Fin 0) x)"
  by (cases x) (auto simp: nonneg_def fmax_def)

lemma nonneg_fl: "0 \<le> i \<Longrightarrow> nonneg (fl i)"
  by (simp add: fl_def nonneg_rnd64)

lemma min_of_list_mem: "min_of_list xs = Some m \<Longrightarrow> m \<in> set xs"
proof -
  have "fold min ys y \<in> insert y (set ys)" for y ys
    by (induction ys arbitrary: y) (auto simp: min_def split: if_splits)
  then show "min_of_list xs = Some m \<Longrightarrow> m \<in> set xs" by (auto simp: min_of_list_def split: list.splits)
qed

text \<open>While no round-trip sample is negative, the estimate a delay-compensating policy is given is sane
  whatever the clocks of the two hosts say: the age of the state and the one-way delay of a command
  are never negative and never NaN, and so is the prediction horizon that is recorded for it.\<close>

theorem link_estimate_sane:
  assumes "list_all (\<lambda>r. 0 \<le> r) (br_rtt_window b)"
  shows "(case lk_state_age_us (br_link (update_link now_us h recv_us b)) of None \<Rightarrow> True
      | Some age \<Rightarrow> nonneg age
          \<and> (case lk_cmd_one_way_us (br_link (update_link now_us h recv_us b)) of None \<Rightarrow> False
             | Some one_way \<Rightarrow> nonneg one_way
                 \<and> br_horizons_us (update_link now_us h recv_us b) = br_horizons_us b @ [fadd age one_way]
                 \<and> nonneg (fadd age one_way)))"
proof (cases "min_of_list (br_rtt_window b)")
  case (Some rtt)
  then have "0 \<le> rtt" using assms min_of_list_mem by (auto simp: list_all_iff)
  then show ?thesis using Some
    by (auto simp: update_link_def Let_def nonneg_fl nonneg_fadd nonneg_half nonneg_fmax split: option.split)
qed (simp add: update_link_def Let_def)

section \<open>An arena that starts again\<close>

text \<open>A brain that has seen STATE number \<open>n\<close> ignores every STATE with a number up to \<open>n\<close>: after the arena is
  restarted, and counts from one again, what the brain acts on does not change until the new arena
  has sent as many datagrams as the old one.\<close>

theorem restarted_arena_ignored:
  assumes "br_last_header b = Some lh"
    and "\<And>h st. (h, st) \<in> set (states_in (br_robot_id b) q) \<Longrightarrow> h_seq h \<le> h_seq lh"
  shows "br_last_state (receiver q b) = br_last_state b \<and> br_last_header (receiver q b) = Some lh"
proof -
  have "(\<And>h st. (h, st) \<in> set xs \<Longrightarrow> h_seq h \<le> h_seq lh) \<Longrightarrow> accepted (Some lh) xs = []" for xs
    by (induction xs) (force split: prod.split)+
  from this [OF assms(2)] show ?thesis
    using receiver_kept [OF refl, of q b] assms(1) by (simp add: last_or_def)
qed

section \<open>Witnesses\<close>

definition demo_brain :: brain where
  "demo_brain = (new_brain 0 60 50 10000)\<lparr>br_rtt_window := [40000, 30000], br_ow_est_us := Some (Fin (- 700)),
     br_last_header := Some \<lparr>h_kind = KIND_STATE, h_robot_id = 0, h_seq = 9, h_t_send_us = 5, h_echo_seq = 0, h_t_echo_us = 0\<rparr>\<rparr>"

theorem link_estimate_sane_witness:
  "(case lk_state_age_us (br_link (update_link 90000 (br_last_header demo_brain) 80000 demo_brain)) of
      None \<Rightarrow> False | Some age \<Rightarrow> nonneg age)"
  using link_estimate_sane [of demo_brain 90000 "br_last_header demo_brain" 80000]
  by (simp add: demo_brain_def new_brain_def update_link_def Let_def min_of_list_def split: option.splits)

theorem restarted_arena_ignored_witness:
  "br_last_state (receiver [(1, [])] demo_brain) = br_last_state demo_brain
    \<and> br_last_header (receiver [(1, [])] demo_brain) =
      Some \<lparr>h_kind = KIND_STATE, h_robot_id = 0, h_seq = 9, h_t_send_us = 5, h_echo_seq = 0, h_t_echo_us = 0\<rparr>"
proof -
  have "states_in (br_robot_id demo_brain) [(1, [])] = []"
    by (simp add: states_in_simps state_in_def unpack_def unpack_header_def sizes)
  then show ?thesis by (intro restarted_arena_ignored) (simp_all add: demo_brain_def)
qed

end
