(* ===== verification/FightLink.thy ===== *)
theory FightLink
  imports Arena Brain
begin

text \<open>
  The robot fight end to end: a command of a brain through the wire format into the arena, and the
  STATE that echoes it back into the brain.
\<close>

lemma wire_header_id:
  "0 \<le> h_seq h \<Longrightarrow> h_seq h < 2 ^ 32 \<Longrightarrow> 0 \<le> h_echo_seq h \<Longrightarrow> h_echo_seq h < 2 ^ 32 \<Longrightarrow> wire_header h = h"
  by (simp add: wire_header_def)

text \<open>The command arrives in the arena as it was sent, up to the precision of the wire.\<close>

lemma command_arrives:
  assumes "send_command t1 u b = (b1, Ok data)" and "ri_index r = br_robot_id b"
    and "0 < br_cmd_seq b1" and "br_cmd_seq b1 < 2 ^ 32"
  shows "\<exists>h. receive_datagram ta data a r = Ok (accept_command ta h
      (wire_command \<lparr>wheel_left = fst u, wheel_right = snd u, ttl_ms = br_ttl_ms b\<rparr>) a r)
    \<and> h_seq h = br_cmd_seq b1 \<and> h_t_send_us h = t1"
proof -
  let ?b = "b\<lparr>br_cmd_seq := br_cmd_seq b + 1\<rparr>"
  let ?c = "\<lparr>wheel_left = fst u, wheel_right = snd u, ttl_ms = br_ttl_ms b\<rparr>"
  from assms(1) have b1: "b1 = ?b" and d: "pack_datagram (command_header t1 ?b) (CommandBody ?c) = Ok data"
    by (auto simp: send_command_def Let_def pack_datagram_def)
  from packed_unpacks [OF d]
  have u: "unpack data = Ok (wire_header (command_header t1 ?b), CommandBody (wire_command ?c))"
    by (simp add: wire_payload_def)
  have "h_seq (wire_header (command_header t1 ?b)) = br_cmd_seq b1"
    using assms(3,4) by (simp add: wire_header_def command_header_def b1)
  then show ?thesis
    using assms(2) by (intro exI [of _ "wire_header (command_header t1 ?b)"])
      (simp add: receive_datagram_def u wire_header_def command_header_def)
qed

lemma accept_new:
  assumes "accept_command now_us h c a r = (r', ev)" and "ri_last_cmd_seq r < h_seq h"
  shows "ri_last_cmd_seq r' = h_seq h" "ri_last_cmd_t_send_us r' = h_t_send_us h" "ri_last_cmd r' = Some c"
    "ri_index r' = ri_index r" "ri_state_seq r' = ri_state_seq r"
  using assms by (auto simp: accept_command_def note_dest_def count_gap_def reordered_def Let_def split: if_splits)

text \<open>A STATE arrives in the brain as it was sent.\<close>

lemma state_arrives:
  assumes "send_state tb st r = Ok (r', Some (data, a))" and "ri_index r = br_robot_id b"
    and "0 \<le> ri_state_seq r" and "ri_state_seq r + 1 < 2 ^ 32"
    and "0 \<le> ri_last_cmd_seq r" and "ri_last_cmd_seq r < 2 ^ 32"
  shows "receive t2 data b = on_state (state_header tb (r\<lparr>ri_state_seq := ri_state_seq r + 1\<rparr>)) (wire_state st) t2 b"
proof -
  let ?h = "state_header tb (r\<lparr>ri_state_seq := ri_state_seq r + 1\<rparr>)"
  from assms(1) have "pack_datagram ?h (StateBody st) = Ok data"
    by (auto simp: send_state_def Let_def pack_datagram_def bindR_Inr_conv split: option.splits)
  from packed_unpacks [OF this] have "unpack data = Ok (wire_header ?h, StateBody (wire_state st))"
    by (simp add: wire_payload_def)
  moreover have "wire_header ?h = ?h" by (rule wire_header_id) (use assms in \<open>simp_all add: state_header_def\<close>)
  ultimately show ?thesis
    using assms(2) by (simp add: receive_def state_in_def) (simp add: state_header_def)
qed

text \<open>C15. A round-trip sample is the elapsed time: when the arena receives a new command, and the STATE it then
  sends is new to the brain, the brain ends with that STATE in the precision of the wire, and its new
  sample is the time from sending the command to receiving the STATE, on the brain's own clock,
  whatever the clock of the arena showed.\<close>

theorem rtt_sample_is_elapsed:
  assumes cmd: "send_command t1 u b = (b1, Ok data)"
    and drained: "drain_robot ta [Datagram data a] r = Ok (r1, ev)"
    and state: "send_state tb st r1 = Ok (r2, Some (data2, a2))"
    and robot: "ri_index r = br_robot_id b" and "t1 \<noteq> 0"
    and new_cmd: "ri_last_cmd_seq r < br_cmd_seq b1" "0 < br_cmd_seq b1" "br_cmd_seq b1 < 2 ^ 32"
    and state_range: "0 \<le> ri_state_seq r" "ri_state_seq r + 1 < 2 ^ 32"
    and new_state: "(case br_last_header b of None \<Rightarrow> True | Some lh \<Rightarrow> h_seq lh < ri_state_seq r + 1)"
    and not_echoed: "br_last_echoed_seq b \<noteq> br_cmd_seq b1"
  shows "br_rtt_us (receive t2 data2 b1) = br_rtt_us b @ [t2 - t1]
    \<and> br_last_state (receive t2 data2 b1) = Some (wire_state st)
    \<and> ri_last_cmd r1 = Some (wire_command \<lparr>wheel_left = fst u, wheel_right = snd u, ttl_ms = br_ttl_ms b\<rparr>)"
proof -
  obtain h where h: "receive_datagram ta data a r = Ok (accept_command ta h
      (wire_command \<lparr>wheel_left = fst u, wheel_right = snd u, ttl_ms = br_ttl_ms b\<rparr>) a r)"
    and hs: "h_seq h = br_cmd_seq b1" "h_t_send_us h = t1"
    using command_arrives [OF cmd robot new_cmd(2,3)] by blast
  obtain r' e where acc: "accept_command ta h
      (wire_command \<lparr>wheel_left = fst u, wheel_right = snd u, ttl_ms = br_ttl_ms b\<rparr>) a r = (r', e)"
    by fastforce
  have "r' = r1" using drained h acc by simp
  note r1 = accept_new [OF acc [unfolded this], unfolded hs, OF new_cmd(1)]
  have b1: "b1 = b\<lparr>br_cmd_seq := br_cmd_seq b + 1\<rparr>" using cmd by (simp add: send_command_def Let_def)
  let ?h2 = "state_header tb (r1\<lparr>ri_state_seq := ri_state_seq r1 + 1\<rparr>)"
  have rc: "receive t2 data2 b1 = on_state ?h2 (wire_state st) t2 b1"
    by (rule state_arrives [OF state]) (use robot r1 state_range new_cmd in \<open>simp_all add: b1\<close>)
  have "\<not> is_old ?h2 b1"
    using new_state r1 by (auto simp: is_old_def state_header_def b1 split: option.splits)
  moreover have "rtt_us ?h2 t2 = Some (t2 - t1)" using \<open>t1 \<noteq> 0\<close> r1 by (simp add: rtt_us_def state_header_def)
  moreover have "h_echo_seq ?h2 = br_cmd_seq b1" using r1 by (simp add: state_header_def)
  ultimately show ?thesis
    using not_echoed r1 unfolding rc
    by (simp add: on_state_def Let_def note_gap_def note_rtt_def note_one_way_def keep_state_def is_old_def b1
        split: option.splits)
qed

section \<open>Witness\<close>

definition still :: view where
  "still = \<lparr>vw_x = Fin 0, vw_y = Fin 0, vw_yaw = Fin 0, vw_vx = Fin 0, vw_vy = Fin 0, vw_wz = Fin 0,
     vw_pitch = Fin 0, vw_pitch_rate = Fin 0, vw_wl = Fin 0, vw_wr = Fin 0\<rparr>"

definition still_state :: bot_state where
  "still_state = state_for (\<lambda>_ _. Fin 0) (Fin 0) (Fin 0) still still FLAG_RUNNING"

lemma zero_codes: "ieee_code binary32 (Fin 0) = Ok 0" "ieee_code binary64 (Fin 0) = Ok 0"
  by (simp_all add: ieee_code_def ff_quant_def quant_def mag_code_def ff_huge_def Let_def not_le)

lemma state_codes_list:
  "state_codes = [F64, F32, F32, F32, F32, F32, F32, F32, F32, F32, F32, F32, F32, F32, F32, F32, F32, F32, F32, UInt 4]"
  by (simp add: state_codes_def numeral_eq_Suc)

lemma still_packs: "\<exists>d. struct_pack state_codes (state_values still_state) = Ok d"
  by (simp add: state_codes_list state_values_def still_state_def still_def state_for_def fsub_def FLAG_RUNNING_def
      pack_one_def pack_uint_def zero_codes)

theorem rtt_sample_is_elapsed_witness:
  "\<exists>b1 data r1 ev r2 data2.
     send_command 1000 (Fin 0, Fin 0) (new_brain 1 60 50 10000) = (b1, Ok data)
     \<and> drain_robot 77 [Datagram data (UnixPath ''m'')] (new_robot 1 ''ue1'' None None) = Ok (r1, ev)
     \<and> send_state 78 still_state r1 = Ok (r2, Some (data2, UnixPath ''m''))
     \<and> br_rtt_us (receive 1500 data2 b1) = [500]"
proof -
  let ?b = "new_brain 1 60 50 10000" and ?r = "new_robot 1 ''ue1'' None None"
  have "\<exists>d. pack_command (command_header 1000 (?b\<lparr>br_cmd_seq := 1\<rparr>))
      \<lparr>wheel_left = Fin 0, wheel_right = Fin 0, ttl_ms = 60\<rparr> = Ok d"
    by (simp add: pack_command_def pack_header_def header_codes_def header_values_def command_header_def new_brain_def
        pack_one_def pack_uint_def KIND_CMD_def PROTOCOL_VERSION_def cmd_codes_def command_values_def zero_codes)
  then obtain data where c: "send_command 1000 (Fin 0, Fin 0) ?b = (?b\<lparr>br_cmd_seq := 1\<rparr>, Ok data)"
    by (auto simp: send_command_def new_brain_def Let_def)
  obtain h where "receive_datagram 77 data (UnixPath ''m'') ?r = Ok (accept_command 77 h
      (wire_command \<lparr>wheel_left = Fin 0, wheel_right = Fin 0, ttl_ms = 60\<rparr>) (UnixPath ''m'') ?r)"
    and hs: "h_seq h = 1" "h_t_send_us h = 1000"
    using command_arrives [OF c, of ?r 77 "UnixPath ''m''"] by (auto simp: new_brain_def new_robot_def)
  then have r: "drain_robot 77 [Datagram data (UnixPath ''m'')] ?r =
      Ok (accept_command 77 h (wire_command \<lparr>wheel_left = Fin 0, wheel_right = Fin 0, ttl_ms = 60\<rparr>) (UnixPath ''m'') ?r)"
    by (cases "accept_command 77 h (wire_command \<lparr>wheel_left = Fin 0, wheel_right = Fin 0, ttl_ms = 60\<rparr>) (UnixPath ''m'') ?r") simp
  obtain r1 ev where acc: "accept_command 77 h (wire_command \<lparr>wheel_left = Fin 0, wheel_right = Fin 0, ttl_ms = 60\<rparr>)
      (UnixPath ''m'') ?r = (r1, ev)" by fastforce
  have r1: "ri_dest r1 = Some (UnixPath ''m'')" "ri_state_seq r1 = 0" "ri_index r1 = 1" "ri_last_cmd_seq r1 = 1"
    "ri_last_cmd_t_send_us r1 = 1000"
    using acc hs by (auto simp: accept_command_def note_dest_def count_gap_def reordered_def new_robot_def Let_def)
  have "\<exists>d. pack_header (state_header 78 (r1\<lparr>ri_state_seq := 1\<rparr>)) = Ok d"
    by (simp add: pack_header_def header_codes_def header_values_def state_header_def r1 pack_one_def
        pack_uint_def KIND_STATE_def PROTOCOL_VERSION_def)
  then have "\<exists>d. pack_state (state_header 78 (r1\<lparr>ri_state_seq := 1\<rparr>)) still_state = Ok d"
    using still_packs by (auto simp: pack_state_def state_header_def)
  then obtain data2 where s: "send_state 78 still_state r1 = Ok (r1\<lparr>ri_state_seq := 1\<rparr>, Some (data2, UnixPath ''m''))"
    by (auto simp: send_state_def r1 Let_def)
  have "br_rtt_us (receive 1500 data2 (?b\<lparr>br_cmd_seq := 1\<rparr>)) = br_rtt_us ?b @ [1500 - 1000]"
    by (rule rtt_sample_is_elapsed [THEN conjunct1, OF c r [unfolded acc] s])
      (simp_all add: new_brain_def new_robot_def)
  then show ?thesis using c r acc s by (intro exI) (auto simp: new_brain_def)
qed

end
