(* ===== verification/BrainPolicy.thy ===== *)
theory BrainPolicy
  imports Brain FloatBounds
begin

text \<open>
  The policies of \<^verbatim>\<open>use_cases/robot_fight/brain.py\<close>: steering helpers, the sumo policies \<open>pusher\<close>,
  \<open>reactive\<close> and \<open>ram\<close>, the balance law of the inverted-pendulum robot, the pendulum model and the
  delay-compensating policy that predicts the robot's state at the time its command lands. A policy
  maps the last STATE and its own memory to two motor commands. The transcendental functions are
  those of the platform (record \<open>trig\<close>); the draws of the seeded random generator that a call would
  make are an argument. An exception (a cosine of an infinity) is an error result.
\<close>

section \<open>Numbers\<close>

text \<open>\<open>math.pi\<close>, exactly.\<close>

definition pi_rat :: rat where "pi_rat = 884279719003555 / 281474976710656"
definition pi64 :: pyfloat where "pi64 = Fin pi_rat"

record trig =
  tg_cos :: "rat \<Rightarrow> pyfloat"
  tg_sin :: "rat \<Rightarrow> pyfloat"
  tg_acos :: "pyfloat \<Rightarrow> pyfloat"
  tg_atan2 :: "pyfloat \<Rightarrow> pyfloat \<Rightarrow> pyfloat"
  tg_hypot :: "pyfloat \<Rightarrow> pyfloat \<Rightarrow> pyfloat"

text \<open>\<open>math.cos\<close> and \<open>math.sin\<close> raise on an infinity and keep a NaN; \<open>math.acos\<close> is only called on
  values clamped to its domain.\<close>

definition on_finite :: "(rat \<Rightarrow> pyfloat) \<Rightarrow> pyfloat \<Rightarrow> pyfloat result" where
  "on_finite f x =
     (case x of Fin r \<Rightarrow> Ok (f r) | NaN \<Rightarrow> Ok NaN | _ \<Rightarrow> Err (ValueError ''math domain error''))"

definition cosR :: "trig \<Rightarrow> pyfloat \<Rightarrow> pyfloat result" where "cosR lib = on_finite (tg_cos lib)"
definition sinR :: "trig \<Rightarrow> pyfloat \<Rightarrow> pyfloat result" where "sinR lib = on_finite (tg_sin lib)"

definition degrees :: "pyfloat \<Rightarrow> pyfloat" where
  "degrees x = fmul x (rnd64 (180 / pi_rat))"

definition acos_deg :: "trig \<Rightarrow> pyfloat \<Rightarrow> pyfloat" where
  "acos_deg lib c = degrees (tg_acos lib (fmax (Fin (- 1)) (fmin (Fin 1) c)))"

definition wrap_angle :: "pyfloat \<Rightarrow> pyfloat" where
  "wrap_angle a = fsub (fmod (fadd a pi64) (2 * pi_rat)) pi64"

definition WHEEL_RADIUS :: pyfloat where "WHEEL_RADIUS = rnd64 (6/100)"
definition WHEEL_BASE :: pyfloat where "WHEEL_BASE = rnd64 (28/100)"

definition diff_drive :: "pyfloat \<Rightarrow> pyfloat \<Rightarrow> pyfloat \<times> pyfloat" where
  "diff_drive v w =
     (let h = fquot (fmul w WHEEL_BASE) (Fin 2)
      in (fquot (fsub v h) WHEEL_RADIUS, fquot (fadd v h) WHEEL_RADIUS))"

text \<open>The draws of one call: \<open>rng.gauss(0.0, noise_rad)\<close> and \<open>rng.choice((-1.0, 1.0))\<close>.\<close>

record draws =
  dr_gauss :: pyfloat
  dr_choice :: pyfloat

definition choose_turn :: "draws \<Rightarrow> pyfloat \<Rightarrow> pyfloat" where
  "choose_turn dr noise = (if flt (Fin 0) noise then dr_choice dr else Fin 1)"

definition add_noise :: "draws \<Rightarrow> pyfloat \<Rightarrow> pyfloat \<Rightarrow> pyfloat" where
  "add_noise dr noise err = (if flt (Fin 0) noise then fadd err (dr_gauss dr) else err)"

definition clamp_to :: "pyfloat \<Rightarrow> pyfloat \<Rightarrow> pyfloat" where
  "clamp_to m x = fmax (fneg m) (fmin m x)"

text \<open>The steering law all policies share: heading error, yaw rate, speed.\<close>

definition steer ::
  "trig \<Rightarrow> draws \<Rightarrow> pyfloat \<Rightarrow> pyfloat \<Rightarrow> pyfloat \<Rightarrow> pyfloat \<Rightarrow> bot_state \<Rightarrow> pyfloat \<Rightarrow> pyfloat
     \<Rightarrow> (pyfloat \<times> pyfloat) result" where
  "steer lib dr noise v_top w_max k_heading st tx ty =
     (let err = add_noise dr noise (wrap_angle (fsub (tg_atan2 lib (fsub ty (st_y st)) (fsub tx (st_x st))) (st_yaw st)));
          w = clamp_to w_max (fmul k_heading err)
      in bindR (cosR lib err) (\<lambda>c. Ok (fmul v_top (fmax (Fin 0) c), w)))"

section \<open>The pusher\<close>

record pusher_params =
  pp_v_max :: pyfloat
  pp_k_heading :: pyfloat
  pp_w_max :: pyfloat
  pp_flank_m :: pyfloat
  pp_charge_deg :: pyfloat
  pp_edge_margin_m :: pyfloat
  pp_noise_rad :: pyfloat
  pp_stall_s :: pyfloat
  pp_backoff_s :: pyfloat

definition DEFAULT_PARAMS :: pusher_params where
  "DEFAULT_PARAMS =
     \<lparr>pp_v_max = rnd64 (16/10), pp_k_heading = Fin 5, pp_w_max = Fin 7, pp_flank_m = rnd64 (7/10),
      pp_charge_deg = Fin 55, pp_edge_margin_m = rnd64 (45/100), pp_noise_rad = rnd64 (2/100),
      pp_stall_s = rnd64 (3/2), pp_backoff_s = rnd64 (6/10)\<rparr>"

record pusher_mem =
  pm_stall_since :: "pyfloat option"
  pm_backoff_until :: "pyfloat option"
  pm_backoff_turn :: pyfloat
  pm_side :: "pyfloat option"

definition new_pusher_mem :: pusher_mem where
  "new_pusher_mem = \<lparr>pm_stall_since = None, pm_backoff_until = None, pm_backoff_turn = Fin 1, pm_side = None\<rparr>"

text \<open>The side of the opponent the robot is on already.\<close>

definition own_side :: "pyfloat \<Rightarrow> pyfloat \<Rightarrow> pyfloat \<Rightarrow> pyfloat \<Rightarrow> pyfloat" where
  "own_side nx ny rx ry =
     (if fle (Fin 0) (fadd (fmul nx (fneg rx)) (fmul ny (fneg ry))) then Fin 1 else Fin (- 1))"

definition keep_side :: "pyfloat \<Rightarrow> pyfloat option \<Rightarrow> pyfloat" where
  "keep_side found side = (case side of None \<Rightarrow> found | Some s \<Rightarrow> s)"

definition note_contact :: "pusher_params \<Rightarrow> draws \<Rightarrow> pyfloat \<Rightarrow> pyfloat \<Rightarrow> pusher_mem \<Rightarrow> pusher_mem" where
  "note_contact p dr gap t m =
     (if flt gap (rnd64 (1/2)) then
        (case pm_stall_since m of
           None \<Rightarrow> m\<lparr>pm_stall_since := Some t\<rparr>
         | Some s \<Rightarrow>
             if flt (pp_stall_s p) (fsub t s)
             then m\<lparr>pm_backoff_until := Some (fadd t (pp_backoff_s p)),
                    pm_backoff_turn := choose_turn dr (pp_noise_rad p), pm_stall_since := None\<rparr>
             else m)
      else m\<lparr>pm_stall_since := None\<rparr>)"

definition off_heading ::
  "trig \<Rightarrow> pyfloat \<Rightarrow> pyfloat \<Rightarrow> pyfloat \<Rightarrow> pyfloat \<Rightarrow> pyfloat \<Rightarrow> pyfloat result" where
  "off_heading lib hx hy rx ry gap =
     (if flt (rnd64 (1/1000)) gap
      then bindR (fdiv (fadd (fmul hx (fneg rx)) (fmul hy (fneg ry))) gap) (\<lambda>c. Ok (acos_deg lib c))
      else Ok (Fin 0))"

text \<open>Near the edge and heading outward: creep.\<close>

definition outward_of :: "trig \<Rightarrow> bot_state \<Rightarrow> pyfloat \<Rightarrow> pyfloat result" where
  "outward_of lib st my_rad =
     bindR (cosR lib (st_yaw st)) (\<lambda>c. bindR (sinR lib (st_yaw st)) (\<lambda>s.
       fdiv (fadd (fmul c (st_x st)) (fmul s (st_y st))) my_rad))"

definition edge_creep :: "trig \<Rightarrow> pyfloat \<Rightarrow> pyfloat \<Rightarrow> bot_state \<Rightarrow> pyfloat \<Rightarrow> pyfloat result" where
  "edge_creep lib edge_margin gap st v =
     (let my_rad = tg_hypot lib (st_x st) (st_y st)
      in if flt (rnd64 (1/1000)) my_rad \<and> flt (dist_to_edge_m st) edge_margin
         then bindR (outward_of lib st my_rad) (\<lambda>outward.
           Ok (if flt (rnd64 (3/10)) outward \<and> flt (rnd64 (1/2)) gap then fmul v (rnd64 (1/4)) else v))
         else Ok v)"

definition push_on ::
  "trig \<Rightarrow> pusher_params \<Rightarrow> draws \<Rightarrow> bot_state \<Rightarrow> pyfloat \<Rightarrow> pyfloat \<Rightarrow> pyfloat \<Rightarrow> pyfloat \<Rightarrow> pyfloat \<Rightarrow> pyfloat \<Rightarrow> pyfloat
     \<Rightarrow> (pyfloat \<times> pyfloat) result" where
  "push_on lib p dr st hx hy side off_deg rx ry gap =
     (let tx = (if fle (pp_charge_deg p) off_deg then opp_x st
                else fadd (opp_x st) (fmul (fmul side (fneg hy)) (pp_flank_m p)));
          ty = (if fle (pp_charge_deg p) off_deg then opp_y st
                else fadd (opp_y st) (fmul (fmul side hx) (pp_flank_m p)))
      in bindR (steer lib dr (pp_noise_rad p) (pp_v_max p) (pp_w_max p) (pp_k_heading p) st tx ty) (\<lambda>(v, w).
         bindR (edge_creep lib (pp_edge_margin_m p) gap st v) (\<lambda>v. Ok (diff_drive v w))))"

definition pusher ::
  "trig \<Rightarrow> pusher_params \<Rightarrow> draws \<Rightarrow> bot_state \<Rightarrow> pusher_mem \<Rightarrow> ((pyfloat \<times> pyfloat) \<times> pusher_mem) result" where
  "pusher lib p dr st m =
     (let rx = fsub (opp_x st) (st_x st); ry = fsub (opp_y st) (st_y st); gap = tg_hypot lib rx ry; t = sim_time_s st
      in bindR (cosR lib (opp_yaw st)) (\<lambda>hx. bindR (sinR lib (opp_yaw st)) (\<lambda>hy.
         let side = keep_side (own_side (fneg hy) hx rx ry) (pm_side m); m = m\<lparr>pm_side := Some side\<rparr>
         in case pm_backoff_until m of
              Some u \<Rightarrow>
                if flt t u
                then Ok (diff_drive (fmul (rnd64 (- 6/10)) (pp_v_max p))
                           (fmul (fmul (pm_backoff_turn m) (rnd64 (1/2))) (pp_w_max p)), m)
                else (let m = note_contact p dr gap t
                                (m\<lparr>pm_backoff_until := None, pm_stall_since := None, pm_side := Some (fneg side)\<rparr>)
                      in bindR (off_heading lib hx hy rx ry gap) (\<lambda>off.
                         bindR (push_on lib p dr st hx hy (fneg side) off rx ry gap) (\<lambda>u. Ok (u, m))))
            | None \<Rightarrow>
                (let m = note_contact p dr gap t m
                 in bindR (off_heading lib hx hy rx ry gap) (\<lambda>off.
                    bindR (push_on lib p dr st hx hy side off rx ry gap) (\<lambda>u. Ok (u, m)))))))"

section \<open>The reactive policy\<close>

record reactive_params =
  rp_v_max :: pyfloat
  rp_k_heading :: pyfloat
  rp_w_max :: pyfloat
  rp_lead_s :: pyfloat
  rp_flank_m :: pyfloat
  rp_side_deg :: pyfloat
  rp_contact_m :: pyfloat
  rp_push_out_m :: pyfloat
  rp_head_on_s :: pyfloat
  rp_disengage_s :: pyfloat
  rp_edge_margin_m :: pyfloat
  rp_escape_s :: pyfloat
  rp_dodge_dist_m :: pyfloat
  rp_dodge_align_deg :: pyfloat
  rp_dodge_closing_mps :: pyfloat
  rp_dodge_s :: pyfloat
  rp_brake_mps2 :: pyfloat
  rp_brake_margin_m :: pyfloat
  rp_noise_rad :: pyfloat

definition REACTIVE_PARAMS :: reactive_params where
  "REACTIVE_PARAMS =
     \<lparr>rp_v_max = rnd64 (17/10), rp_k_heading = Fin 6, rp_w_max = Fin 8, rp_lead_s = rnd64 (12/100),
      rp_flank_m = rnd64 (55/100), rp_side_deg = Fin 60, rp_contact_m = rnd64 (48/100),
      rp_push_out_m = rnd64 (6/10), rp_head_on_s = rnd64 (35/100), rp_disengage_s = rnd64 (4/10),
      rp_edge_margin_m = rnd64 (6/10), rp_escape_s = rnd64 (45/100), rp_dodge_dist_m = rnd64 (9/10),
      rp_dodge_align_deg = Fin 30, rp_dodge_closing_mps = rnd64 (8/10), rp_dodge_s = rnd64 (30/100),
      rp_brake_mps2 = Fin 6, rp_brake_margin_m = rnd64 (10/100), rp_noise_rad = rnd64 (2/100)\<rparr>"

datatype mode = Escape | Dodge | Disengage

record reactive_mem =
  rm_mode :: "mode option"
  rm_mode_until :: pyfloat
  rm_mode_dx :: pyfloat
  rm_mode_dy :: pyfloat
  rm_side :: "pyfloat option"
  rm_head_on_since :: "pyfloat option"
  rm_disengage_turn :: pyfloat
  rm_escapes :: nat
  rm_disengages :: nat
  rm_pushes :: nat
  rm_dodges :: nat
  rm_brakes :: nat

definition new_reactive_mem :: reactive_mem where
  "new_reactive_mem =
     \<lparr>rm_mode = None, rm_mode_until = Fin 0, rm_mode_dx = Fin 0, rm_mode_dy = Fin 0, rm_side = None,
      rm_head_on_since = None, rm_disengage_turn = Fin 1, rm_escapes = 0, rm_disengages = 0, rm_pushes = 0,
      rm_dodges = 0, rm_brakes = 0\<rparr>"

text \<open>What the rules look at: the geometry of the two robots.\<close>

record sight =
  sg_rx :: pyfloat
  sg_ry :: pyfloat
  sg_gap :: pyfloat
  sg_nx :: pyfloat
  sg_ny :: pyfloat
  sg_radx :: pyfloat
  sg_rady :: pyfloat
  sg_my_rad :: pyfloat
  sg_oradx :: pyfloat
  sg_orady :: pyfloat
  sg_closing :: pyfloat
  sg_off_deg :: pyfloat
  sg_ux :: pyfloat
  sg_uy :: pyfloat

text \<open>The robot's own heading, looked at once no reflex is running.\<close>

record own_heading =
  oh_mine_deg :: pyfloat
  oh_cos :: pyfloat
  oh_sin :: pyfloat

definition dot :: "pyfloat \<Rightarrow> pyfloat \<Rightarrow> pyfloat \<Rightarrow> pyfloat \<Rightarrow> pyfloat" where
  "dot ax ay bx by' = fadd (fmul ax bx) (fmul ay by')"

definition unit_of :: "pyfloat \<Rightarrow> pyfloat \<Rightarrow> pyfloat \<Rightarrow> (pyfloat \<times> pyfloat) result" where
  "unit_of x y n =
     (if flt (rnd64 (1/1000000)) n
      then bindR (fdiv x n) (\<lambda>a. bindR (fdiv y n) (\<lambda>b. Ok (a, b)))
      else Ok (Fin 1, Fin 0))"

definition look :: "trig \<Rightarrow> bot_state \<Rightarrow> sight result" where
  "look lib st =
     (let rx = fsub (opp_x st) (st_x st); ry = fsub (opp_y st) (st_y st); gap = tg_hypot lib rx ry
      in bindR (unit_of rx ry gap) (\<lambda>(ux, uy).
         bindR (cosR lib (opp_yaw st)) (\<lambda>hx. bindR (sinR lib (opp_yaw st)) (\<lambda>hy.
         let my_rad = tg_hypot lib (st_x st) (st_y st); opp_rad = tg_hypot lib (opp_x st) (opp_y st)
         in bindR (unit_of (st_x st) (st_y st) my_rad) (\<lambda>(radx, rady).
            bindR (unit_of (opp_x st) (opp_y st) opp_rad) (\<lambda>(oradx, orady).
            Ok \<lparr>sg_rx = rx, sg_ry = ry, sg_gap = gap, sg_nx = fneg hy, sg_ny = hx, sg_radx = radx,
                sg_rady = rady, sg_my_rad = my_rad, sg_oradx = oradx, sg_orady = orady,
                sg_closing = fadd (fneg (dot (opp_vx st) (opp_vy st) ux uy)) (dot (st_vx st) (st_vy st) ux uy),
                sg_off_deg = acos_deg lib (fadd (fmul hx (fneg ux)) (fmul hy (fneg uy))),
                sg_ux = ux, sg_uy = uy\<rparr>))))))"

definition look_own :: "trig \<Rightarrow> bot_state \<Rightarrow> sight \<Rightarrow> own_heading result" where
  "look_own lib st g =
     bindR (cosR lib (st_yaw st)) (\<lambda>c. bindR (sinR lib (st_yaw st)) (\<lambda>s.
       Ok \<lparr>oh_mine_deg = acos_deg lib (dot c s (sg_ux g) (sg_uy g)), oh_cos = c, oh_sin = s\<rparr>))"

definition steer_to ::
  "trig \<Rightarrow> reactive_params \<Rightarrow> draws \<Rightarrow> bot_state \<Rightarrow> pyfloat \<Rightarrow> pyfloat \<Rightarrow> (pyfloat \<times> pyfloat) result" where
  "steer_to lib p dr st tx ty =
     bindR (steer lib dr (rp_noise_rad p) (fmul (Fin 1) (rp_v_max p)) (rp_w_max p) (rp_k_heading p) st tx ty)
       (\<lambda>(v, w). Ok (diff_drive v w))"

definition steer_heading ::
  "trig \<Rightarrow> reactive_params \<Rightarrow> draws \<Rightarrow> bot_state \<Rightarrow> pyfloat \<Rightarrow> pyfloat \<Rightarrow> (pyfloat \<times> pyfloat) result" where
  "steer_heading lib p dr st dx dy = steer_to lib p dr st (fadd (st_x st) dx) (fadd (st_y st) dy)"

definition back_away :: "reactive_params \<Rightarrow> reactive_mem \<Rightarrow> pyfloat \<times> pyfloat" where
  "back_away p m =
     diff_drive (fmul (rnd64 (- 7/10)) (rp_v_max p)) (fmul (fmul (rm_disengage_turn m) (rnd64 (6/10))) (rp_w_max p))"

text \<open>A reflex already running goes on, or ends.\<close>

definition run_reflex ::
  "trig \<Rightarrow> reactive_params \<Rightarrow> draws \<Rightarrow> bot_state \<Rightarrow> mode \<Rightarrow> reactive_mem \<Rightarrow> (pyfloat \<times> pyfloat) result" where
  "run_reflex lib p dr st md m =
     (if md = Disengage then Ok (back_away p m) else steer_heading lib p dr st (rm_mode_dx m) (rm_mode_dy m))"

definition end_reflex :: "mode \<Rightarrow> pyfloat \<Rightarrow> reactive_mem \<Rightarrow> reactive_mem" where
  "end_reflex md side m =
     m\<lparr>rm_side := Some (if md = Disengage then fneg side else side), rm_mode := None, rm_head_on_since := None\<rparr>"

text \<open>The rules, in order of priority; each tells whether it fires.\<close>

definition in_contact :: "reactive_params \<Rightarrow> sight \<Rightarrow> bool" where
  "in_contact p g \<longleftrightarrow> flt (sg_gap g) (rp_contact_m p)"

definition pushed :: "reactive_params \<Rightarrow> sight \<Rightarrow> bool" where
  "pushed p g \<longleftrightarrow> in_contact p g \<and> flt (rnd64 (1/4)) (sg_closing g)"

definition escapes_now :: "reactive_params \<Rightarrow> bot_state \<Rightarrow> sight \<Rightarrow> bool" where
  "escapes_now p st g \<longleftrightarrow>
     pushed p g \<and> flt (dist_to_edge_m st) (rp_edge_margin_m p) \<and> flt (sg_off_deg g) (Fin 70)"

definition escape_dir :: "sight \<Rightarrow> pyfloat \<times> pyfloat" where
  "escape_dir g =
     (let flip = flt (Fin 0) (dot (fneg (sg_rady g)) (sg_radx g) (sg_rx g) (sg_ry g));
          tx = (if flip then fneg (fneg (sg_rady g)) else fneg (sg_rady g));
          ty = (if flip then fneg (sg_radx g) else sg_radx g)
      in (fsub (fmul tx (rnd64 (8/10))) (fmul (sg_radx g) (rnd64 (6/10))),
          fsub (fmul ty (rnd64 (8/10))) (fmul (sg_rady g) (rnd64 (6/10)))))"

definition start_reflex :: "mode \<Rightarrow> pyfloat \<Rightarrow> pyfloat \<times> pyfloat \<Rightarrow> reactive_mem \<Rightarrow> reactive_mem" where
  "start_reflex md until_t d m =
     m\<lparr>rm_mode := Some md, rm_mode_until := until_t, rm_mode_dx := fst d, rm_mode_dy := snd d\<rparr>"

definition outward_speed :: "sight \<Rightarrow> own_heading \<Rightarrow> pyfloat" where
  "outward_speed g h =
     (if flt (rnd64 (1/1000)) (sg_my_rad g) then dot (oh_cos h) (oh_sin h) (sg_radx g) (sg_rady g) else Fin 0)"

definition brakes_now :: "trig \<Rightarrow> reactive_params \<Rightarrow> bot_state \<Rightarrow> sight \<Rightarrow> own_heading \<Rightarrow> bool result" where
  "brakes_now lib p st g h =
     (let speed = tg_hypot lib (st_vx st) (st_vy st)
      in if flt (rnd64 (1/2)) (outward_speed g h) \<and> flt (rnd64 (3/10)) speed \<and> \<not> pushed p g
         then bindR (fdiv (fmul speed speed) (fmul (Fin 2) (rp_brake_mps2 p))) (\<lambda>d.
           Ok (flt (dist_to_edge_m st) (fadd d (rp_brake_margin_m p))))
         else Ok False)"

definition brake_drive :: "reactive_params \<Rightarrow> sight \<Rightarrow> own_heading \<Rightarrow> pyfloat \<times> pyfloat" where
  "brake_drive p g h =
     (let turn = (if fle (Fin 0) (fadd (fmul (fneg (sg_radx g)) (fneg (oh_sin h))) (fmul (fneg (sg_rady g)) (oh_cos h)))
                  then Fin 1 else Fin (- 1))
      in diff_drive (fneg (rp_v_max p)) (fmul (fmul turn (rnd64 (1/2))) (rp_w_max p)))"

definition dodges_now :: "trig \<Rightarrow> reactive_params \<Rightarrow> bot_state \<Rightarrow> sight \<Rightarrow> bool" where
  "dodges_now lib p st g \<longleftrightarrow>
     \<not> in_contact p g \<and> flt (sg_gap g) (rp_dodge_dist_m p)
     \<and> flt (rnd64 (2/10)) (tg_hypot lib (opp_vx st) (opp_vy st))
     \<and> flt (rp_dodge_closing_mps p) (sg_closing g) \<and> flt (sg_off_deg g) (rp_dodge_align_deg p)"

definition dodge_dir :: "sight \<Rightarrow> pyfloat \<times> pyfloat" where
  "dodge_dir g =
     (if flt (Fin 0) (dot (sg_nx g) (sg_ny g) (sg_radx g) (sg_rady g))
      then (fneg (sg_nx g), fneg (sg_ny g)) else (sg_nx g, sg_ny g))"

definition head_on :: "reactive_params \<Rightarrow> sight \<Rightarrow> own_heading \<Rightarrow> bool" where
  "head_on p g h \<longleftrightarrow> in_contact p g \<and> flt (sg_off_deg g) (rp_side_deg p) \<and> flt (oh_mine_deg h) (Fin 60)"

text \<open>The shove: remember since when, disengage when it lasts too long.\<close>

definition shove ::
  "reactive_params \<Rightarrow> draws \<Rightarrow> pyfloat \<Rightarrow> sight \<Rightarrow> own_heading \<Rightarrow> reactive_mem \<Rightarrow> bool \<times> reactive_mem" where
  "shove p dr t g h m =
     (if head_on p g h then
        (case rm_head_on_since m of
           None \<Rightarrow> (False, m\<lparr>rm_head_on_since := Some t\<rparr>)
         | Some s \<Rightarrow>
             if flt (rp_head_on_s p) (fsub t s)
             then (True, m\<lparr>rm_mode := Some Disengage, rm_mode_until := fadd t (rp_disengage_s p),
                           rm_disengage_turn := choose_turn dr (rp_noise_rad p), rm_head_on_since := None,
                           rm_disengages := rm_disengages m + 1\<rparr>)
             else (False, m))
      else (False, m\<lparr>rm_head_on_since := None\<rparr>))"

definition attack ::
  "trig \<Rightarrow> reactive_params \<Rightarrow> draws \<Rightarrow> bot_state \<Rightarrow> sight \<Rightarrow> pyfloat \<Rightarrow> reactive_mem
     \<Rightarrow> ((pyfloat \<times> pyfloat) \<times> reactive_mem) result" where
  "attack lib p dr st g side m =
     (let px = fadd (opp_x st) (fmul (opp_vx st) (rp_lead_s p)); py = fadd (opp_y st) (fmul (opp_vy st) (rp_lead_s p))
      in if fle (rp_side_deg p) (sg_off_deg g) \<and> flt (sg_gap g) (fmul (rnd64 (5/2)) (rp_contact_m p))
         then bindR (steer_to lib p dr st (fadd px (fmul (sg_oradx g) (rp_push_out_m p)))
                       (fadd py (fmul (sg_orady g) (rp_push_out_m p))))
                (\<lambda>u. Ok (u, m\<lparr>rm_pushes := rm_pushes m + 1\<rparr>))
         else bindR (steer_to lib p dr st (fadd px (fmul (fmul side (sg_nx g)) (rp_flank_m p)))
                       (fadd py (fmul (fmul side (sg_ny g)) (rp_flank_m p))))
                (\<lambda>u. Ok (u, m)))"

definition decide ::
  "trig \<Rightarrow> reactive_params \<Rightarrow> draws \<Rightarrow> bot_state \<Rightarrow> sight \<Rightarrow> pyfloat \<Rightarrow> reactive_mem
     \<Rightarrow> ((pyfloat \<times> pyfloat) \<times> reactive_mem) result" where
  "decide lib p dr st g side m =
     (let t = sim_time_s st
      in bindR (look_own lib st g) (\<lambda>h.
         if escapes_now p st g
         then (let d = escape_dir g
               in bindR (steer_heading lib p dr st (fst d) (snd d)) (\<lambda>u.
                    Ok (u, (start_reflex Escape (fadd t (rp_escape_s p)) d m)\<lparr>rm_escapes := rm_escapes m + 1\<rparr>)))
         else bindR (brakes_now lib p st g h) (\<lambda>braking.
           if braking then Ok (brake_drive p g h, m\<lparr>rm_brakes := rm_brakes m + 1\<rparr>)
           else if dodges_now lib p st g
           then (let d = dodge_dir g
                 in bindR (steer_heading lib p dr st (fst d) (snd d)) (\<lambda>u.
                      Ok (u, (start_reflex Dodge (fadd t (rp_dodge_s p)) d m)\<lparr>rm_dodges := rm_dodges m + 1\<rparr>)))
           else (case shove p dr t g h m of
                   (True, m) \<Rightarrow> Ok (back_away p m, m)
                 | (False, m) \<Rightarrow> attack lib p dr st g side m))))"

definition reactive ::
  "trig \<Rightarrow> reactive_params \<Rightarrow> draws \<Rightarrow> bot_state \<Rightarrow> reactive_mem \<Rightarrow> ((pyfloat \<times> pyfloat) \<times> reactive_mem) result"
  where
  "reactive lib p dr st m =
     bindR (look lib st) (\<lambda>g.
       let side = keep_side (own_side (sg_nx g) (sg_ny g) (sg_rx g) (sg_ry g)) (rm_side m);
           m = m\<lparr>rm_side := Some side\<rparr>
       in case rm_mode m of
            Some md \<Rightarrow>
              if flt (sim_time_s st) (rm_mode_until m)
              then bindR (run_reflex lib p dr st md m) (\<lambda>u. Ok (u, m))
              else (let m = end_reflex md side m
                    in decide lib p dr st g (keep_side side (rm_side m)) m)
          | None \<Rightarrow> decide lib p dr st g side m)"

section \<open>The balance robot\<close>

text \<open>Strategies on top of the balance loop: stand still, drive straight, ram.\<close>

definition stand :: "pyfloat \<times> pyfloat" where "stand = (Fin 0, Fin 0)"

definition cruise :: "pyfloat option \<Rightarrow> pyfloat \<times> pyfloat" where
  "cruise cruise_v = diff_drive (case cruise_v of None \<Rightarrow> rnd64 (1/2) | Some v \<Rightarrow> v) (Fin 0)"

record ram_params =
  mp_v_max :: pyfloat
  mp_w_max :: pyfloat
  mp_k_heading :: pyfloat
  mp_lead_s :: pyfloat
  mp_edge_margin_m :: pyfloat
  mp_noise_rad :: pyfloat

definition RAM_PARAMS :: ram_params where
  "RAM_PARAMS = \<lparr>mp_v_max = rnd64 (7/10), mp_w_max = rnd64 (5/2), mp_k_heading = Fin 4, mp_lead_s = rnd64 (15/100),
     mp_edge_margin_m = rnd64 (45/100), mp_noise_rad = rnd64 (2/100)\<rparr>"

record ram_mem =
  mm_pushes :: nat
  mm_brakes :: nat

definition ram_turns_back :: "trig \<Rightarrow> ram_params \<Rightarrow> bot_state \<Rightarrow> bool result" where
  "ram_turns_back lib p st =
     (let my_rad = tg_hypot lib (st_x st) (st_y st)
      in if flt (rnd64 (1/1000)) my_rad \<and> flt (dist_to_edge_m st) (mp_edge_margin_m p)
         then bindR (outward_of lib st my_rad) (\<lambda>outward. Ok (flt (rnd64 (2/10)) outward))
         else Ok False)"

definition ram ::
  "trig \<Rightarrow> ram_params \<Rightarrow> draws \<Rightarrow> bot_state \<Rightarrow> ram_mem \<Rightarrow> ((pyfloat \<times> pyfloat) \<times> ram_mem) result" where
  "ram lib p dr st m =
     bindR (ram_turns_back lib p st) (\<lambda>back.
       let m = (if back then m\<lparr>mm_brakes := mm_brakes m + 1\<rparr> else m);
           tx = (if back then fneg (st_x st) else fadd (opp_x st) (fmul (opp_vx st) (mp_lead_s p)));
           ty = (if back then fneg (st_y st) else fadd (opp_y st) (fmul (opp_vy st) (mp_lead_s p)))
       in bindR (steer lib dr (mp_noise_rad p) (mp_v_max p) (mp_w_max p) (mp_k_heading p) st tx ty) (\<lambda>(v, w).
            Ok (diff_drive v w, m\<lparr>mm_pushes := mm_pushes m + 1\<rparr>)))"

datatype strategy =
    Ram ram_params ram_mem
  | Reactive reactive_params reactive_mem
  | Pusher pusher_params pusher_mem
  | Stand
  | Cruise pyfloat

record balance_params =
  bp_strategy :: string
  bp_v_cmd_max :: pyfloat
  bp_w_cmd_max :: pyfloat
  bp_ref_tau_s :: pyfloat
  bp_k_pitch :: pyfloat
  bp_k_pitch_rate :: pyfloat
  bp_k_v :: pyfloat
  bp_k_yaw :: pyfloat
  bp_v_lean_limit :: pyfloat
  bp_v_ref_accel :: pyfloat
  bp_w_ref_accel :: pyfloat
  bp_noise_rad :: pyfloat
  bp_cruise_v :: "pyfloat option"
  bp_torque_max :: "pyfloat option"
  bp_horizon_extra_ms :: pyfloat
  bp_max_horizon_ms :: pyfloat
  bp_cmd_hist :: nat

definition BALANCE_PARAMS :: balance_params where
  "BALANCE_PARAMS =
     \<lparr>bp_strategy = ''ram'', bp_v_cmd_max = rnd64 (7/10), bp_w_cmd_max = rnd64 (5/2), bp_ref_tau_s = rnd64 (1/4),
      bp_k_pitch = Fin 8, bp_k_pitch_rate = rnd64 (9/2), bp_k_v = Fin 3, bp_k_yaw = rnd64 (15/100),
      bp_v_lean_limit = Fin 1, bp_v_ref_accel = rnd64 (3/2), bp_w_ref_accel = Fin 8, bp_noise_rad = rnd64 (2/100),
      bp_cruise_v = None, bp_torque_max = None, bp_horizon_extra_ms = Fin 1, bp_max_horizon_ms = Fin 500,
      bp_cmd_hist = 128\<rparr>"

record balance_mem =
  bm_strategy :: "strategy option"
  bm_t_prev :: "pyfloat option"
  bm_v_ref :: pyfloat
  bm_w_ref :: pyfloat
  bm_cmd_hist :: "(int \<times> pyfloat) list"

definition new_balance_mem :: balance_mem where
  "new_balance_mem = \<lparr>bm_strategy = None, bm_t_prev = None, bm_v_ref = Fin 0, bm_w_ref = Fin 0, bm_cmd_hist = []\<rparr>"

definition new_strategy :: "balance_params \<Rightarrow> strategy result" where
  "new_strategy p =
     (if bp_strategy p = ''ram''
      then Ok (Ram (RAM_PARAMS\<lparr>mp_v_max := bp_v_cmd_max p, mp_w_max := bp_w_cmd_max p, mp_noise_rad := bp_noise_rad p\<rparr>)
                 \<lparr>mm_pushes = 0, mm_brakes = 0\<rparr>)
      else if bp_strategy p = ''reactive''
      then Ok (Reactive (REACTIVE_PARAMS\<lparr>rp_v_max := bp_v_cmd_max p, rp_w_max := bp_w_cmd_max p,
                                         rp_noise_rad := bp_noise_rad p\<rparr>) new_reactive_mem)
      else if bp_strategy p = ''pusher''
      then Ok (Pusher (DEFAULT_PARAMS\<lparr>pp_v_max := bp_v_cmd_max p, pp_w_max := bp_w_cmd_max p,
                                      pp_noise_rad := bp_noise_rad p\<rparr>) new_pusher_mem)
      else if bp_strategy p = ''stand'' then Ok Stand
      else if bp_strategy p = ''cruise''
      then Ok (Cruise (case bp_cruise_v p of None \<Rightarrow> rnd64 (1/2) | Some v \<Rightarrow> v))
      else Err (KeyError (bp_strategy p)))"

definition run_strategy ::
  "trig \<Rightarrow> draws \<Rightarrow> bot_state \<Rightarrow> strategy \<Rightarrow> ((pyfloat \<times> pyfloat) \<times> strategy) result" where
  "run_strategy lib dr st s =
     (case s of
        Ram p m \<Rightarrow> bindR (ram lib p dr st m) (\<lambda>(u, m). Ok (u, Ram p m))
      | Reactive p m \<Rightarrow> bindR (reactive lib p dr st m) (\<lambda>(u, m). Ok (u, Reactive p m))
      | Pusher p m \<Rightarrow> bindR (pusher lib p dr st m) (\<lambda>(u, m). Ok (u, Pusher p m))
      | Stand \<Rightarrow> Ok (stand, Stand)
      | Cruise v \<Rightarrow> Ok (cruise (Some v), Cruise v))"

text \<open>The references follow the strategy's wishes through a low pass and a slew limit.\<close>

definition time_step :: "pyfloat \<Rightarrow> pyfloat option \<Rightarrow> pyfloat" where
  "time_step t prev = fmax (Fin 0) (fmin (rnd64 (5/100)) (fsub t (case prev of None \<Rightarrow> t | Some p \<Rightarrow> p)))"

definition low_pass :: "pyfloat \<Rightarrow> pyfloat \<Rightarrow> pyfloat result" where
  "low_pass tau dt = (if flt (Fin 0) tau then fdiv dt (fadd tau dt) else Ok (Fin 1))"

definition slew :: "pyfloat \<Rightarrow> pyfloat \<Rightarrow> pyfloat \<Rightarrow> pyfloat \<Rightarrow> pyfloat" where
  "slew d alpha want ref = fadd ref (clamp_to d (fmul alpha (fsub want ref)))"

text \<open>The feedback law: balance torque first, the differential uses what the limit leaves.\<close>

definition share_torque :: "pyfloat \<Rightarrow> pyfloat \<Rightarrow> pyfloat \<Rightarrow> pyfloat \<times> pyfloat" where
  "share_torque limit u d =
     (let u = clamp_to limit u; d = clamp_to (fsub limit (fabs u)) d in (fsub u d, fadd u d))"

definition balance_law ::
  "balance_params \<Rightarrow> pyfloat \<Rightarrow> pyfloat \<Rightarrow> pyfloat \<Rightarrow> pyfloat \<Rightarrow> pyfloat \<Rightarrow> pyfloat \<Rightarrow> pyfloat \<times> pyfloat" where
  "balance_law p pitch pitch_rate v wz v_ref w_ref =
     (let v_err = clamp_to (bp_v_lean_limit p) (fsub v v_ref);
          u = fadd (fadd (fmul (bp_k_pitch p) pitch) (fmul (bp_k_pitch_rate p) pitch_rate)) (fmul (bp_k_v p) v_err);
          d = fmul (bp_k_yaw p) (fsub w_ref wz)
      in share_torque (case bp_torque_max p of None \<Rightarrow> rnd64 (3/2) | Some m \<Rightarrow> m) u d)"

definition the_strategy :: "balance_params \<Rightarrow> balance_mem \<Rightarrow> strategy result" where
  "the_strategy p m = (case bm_strategy m of None \<Rightarrow> new_strategy p | Some s \<Rightarrow> Ok s)"

definition balance_core ::
  "trig \<Rightarrow> balance_params \<Rightarrow> draws \<Rightarrow> bot_state \<Rightarrow> pyfloat \<Rightarrow> pyfloat \<Rightarrow> pyfloat \<Rightarrow> balance_mem
     \<Rightarrow> ((pyfloat \<times> pyfloat) \<times> balance_mem) result" where
  "balance_core lib p dr st pitch pitch_rate v m =
     bindR (the_strategy p m) (\<lambda>s. bindR (run_strategy lib dr st s) (\<lambda>((left_ref, right_ref), s).
       let v_want = clamp_to (bp_v_cmd_max p) (fmul (fquot (fadd left_ref right_ref) (Fin 2)) WHEEL_RADIUS);
           w_want = clamp_to (bp_w_cmd_max p) (fquot (fmul (fsub right_ref left_ref) WHEEL_RADIUS) WHEEL_BASE);
           t = sim_time_s st; dt = time_step t (bm_t_prev m)
       in bindR (low_pass (bp_ref_tau_s p) dt) (\<lambda>alpha.
            let v_ref = slew (fmul (bp_v_ref_accel p) dt) alpha v_want (bm_v_ref m);
                w_ref = slew (fmul (bp_w_ref_accel p) dt) alpha w_want (bm_w_ref m)
            in Ok (balance_law p pitch pitch_rate v (st_wz st) v_ref w_ref,
                   m\<lparr>bm_strategy := Some s, bm_t_prev := Some t, bm_v_ref := v_ref, bm_w_ref := w_ref\<rparr>))))"

definition forward_speed :: "trig \<Rightarrow> bot_state \<Rightarrow> pyfloat result" where
  "forward_speed lib st =
     bindR (cosR lib (st_yaw st)) (\<lambda>c. bindR (sinR lib (st_yaw st)) (\<lambda>s.
       Ok (fadd (fmul (st_vx st) c) (fmul (st_vy st) s))))"

definition balance ::
  "trig \<Rightarrow> balance_params \<Rightarrow> draws \<Rightarrow> bot_state \<Rightarrow> balance_mem \<Rightarrow> ((pyfloat \<times> pyfloat) \<times> balance_mem) result" where
  "balance lib p dr st m =
     bindR (forward_speed lib st) (\<lambda>v. balance_core lib p dr st (st_pitch st) (st_pitch_rate st) v m)"

section \<open>Delay compensation\<close>

record pendulum =
  pl_r :: pyfloat
  pl_c :: pyfloat
  pl_a11 :: pyfloat
  pl_a12 :: pyfloat
  pl_a22 :: pyfloat
  pl_det :: pyfloat
  pl_mgl :: pyfloat

text \<open>The arguments of the constructor, with their defaults.\<close>

record pendulum_build =
  pb_base_mass :: pyfloat
  pb_plate_mass :: pyfloat
  pb_pole_mass :: pyfloat
  pb_head_mass :: pyfloat
  pb_base_half_z :: pyfloat
  pb_pole_top :: pyfloat
  pb_head_z :: pyfloat
  pb_head_half :: pyfloat
  pb_base_half_x :: pyfloat
  pb_wheel_mass :: pyfloat
  pb_wheel_radius :: pyfloat
  pb_wheel_damping :: pyfloat
  pb_g :: pyfloat

definition default_build :: pendulum_build where
  "default_build =
     \<lparr>pb_base_mass = Fin 1, pb_plate_mass = rnd64 (2/10), pb_pole_mass = rnd64 (3/10), pb_head_mass = Fin 2,
      pb_base_half_z = rnd64 (2/100), pb_pole_top = rnd64 (89/100), pb_head_z = rnd64 (95/100),
      pb_head_half = rnd64 (6/100), pb_base_half_x = rnd64 (8/100), pb_wheel_mass = rnd64 (2/10),
      pb_wheel_radius = WHEEL_RADIUS, pb_wheel_damping = rnd64 (2/100), pb_g = rnd64 (981/100)\<rparr>"

definition sq :: "pyfloat \<Rightarrow> pyfloat" where "sq x = fmul x x"

definition new_pendulum :: "pendulum_build \<Rightarrow> pendulum result" where
  "new_pendulum b =
     (let m_b = fadd (fadd (fadd (pb_base_mass b) (pb_plate_mass b)) (pb_pole_mass b)) (pb_head_mass b);
          pole_mid = fquot (fadd (pb_base_half_z b) (pb_pole_top b)) (Fin 2);
          pole_len = fsub (pb_pole_top b) (pb_base_half_z b);
          moment = fadd (fadd (fadd (fmul (pb_base_mass b) (Fin 0)) (fmul (pb_plate_mass b) (Fin 0)))
                           (fmul (pb_pole_mass b) pole_mid)) (fmul (pb_head_mass b) (pb_head_z b));
          i_head = fadd (fmul (fquot (pb_head_mass b) (Fin 12)) (fmul (Fin 2) (sq (fmul (Fin 2) (pb_head_half b)))))
                     (fmul (pb_head_mass b) (sq (pb_head_z b)));
          i_base = fmul (fquot (pb_base_mass b) (Fin 12))
                     (fadd (sq (fmul (Fin 2) (pb_base_half_x b))) (sq (fmul (Fin 2) (pb_base_half_z b))));
          i_plate = fmul (pb_plate_mass b) (sq (rnd64 (10/100)));
          i_pole = fadd (fquot (fmul (pb_pole_mass b) (sq pole_len)) (Fin 12)) (fmul (pb_pole_mass b) (sq pole_mid));
          i_axle = fadd (fadd (fadd i_head i_base) i_plate) i_pole;
          r = pb_wheel_radius b;
          i_w = fmul (fmul (rnd64 (1/2)) (pb_wheel_mass b)) (sq r)
      in bindR (fdiv moment m_b) (\<lambda>l. bindR (fdiv (fmul (Fin 2) i_w) (sq r)) (\<lambda>rim.
         let a11 = fadd (fadd m_b (fmul (Fin 2) (pb_wheel_mass b))) rim; a12 = fmul m_b l
         in Ok \<lparr>pl_r = r, pl_c = pb_wheel_damping b, pl_a11 = a11, pl_a12 = a12, pl_a22 = i_axle,
                pl_det = fsub (fmul a11 i_axle) (sq a12), pl_mgl = fmul (fmul m_b (pb_g b)) l\<rparr>)))"

record motion =
  mo_pitch :: pyfloat
  mo_rate :: pyfloat
  mo_v :: pyfloat

definition accel :: "pendulum \<Rightarrow> motion \<Rightarrow> pyfloat \<Rightarrow> (pyfloat \<times> pyfloat) result" where
  "accel pl s u_total =
     bindR (fdiv (mo_v s) (pl_r pl)) (\<lambda>spin.
       let torque = fsub u_total (fmul (fmul (Fin 2) (pl_c pl)) (fsub spin (mo_rate s)))
       in bindR (fdiv torque (pl_r pl)) (\<lambda>rhs_v.
          let rhs_t = fsub (fmul (pl_mgl pl) (mo_pitch s)) torque
          in bindR (fdiv (fsub (fmul (pl_a22 pl) rhs_v) (fmul (pl_a12 pl) rhs_t)) (pl_det pl)) (\<lambda>v_dot.
             bindR (fdiv (fsub (fmul (pl_a11 pl) rhs_t) (fmul (pl_a12 pl) rhs_v)) (pl_det pl)) (\<lambda>pitch_ddot.
               Ok (v_dot, pitch_ddot)))))"

definition move :: "pyfloat \<Rightarrow> pyfloat \<times> pyfloat \<Rightarrow> motion \<Rightarrow> motion" where
  "move step a s =
     (let rate = fadd (mo_rate s) (fmul (snd a) step)
      in \<lparr>mo_pitch = fadd (mo_pitch s) (fmul rate step), mo_rate = rate, mo_v = fadd (mo_v s) (fmul (fst a) step)\<rparr>)"

text \<open>The integration loop adds float time steps, so that it ends is a theorem below, not a
  property of its shape: \<open>None\<close> stands for a loop that never ends.\<close>

partial_function (option) rollout_loop ::
  "pendulum \<Rightarrow> pyfloat \<Rightarrow> pyfloat \<Rightarrow> (pyfloat \<Rightarrow> pyfloat) \<Rightarrow> pyfloat \<Rightarrow> motion \<Rightarrow> motion result option" where
  "rollout_loop pl dt horizon torque t s =
     (if flt t (fsub horizon (rnd64 (1/1000000000)))
      then (case accel pl s (fmul (Fin 2) (torque t)) of
              Inl e \<Rightarrow> Some (Inl e)
            | Inr a \<Rightarrow> (let step = fmin dt (fsub horizon t)
                       in rollout_loop pl dt horizon torque (fadd t step) (move step a s)))
      else Some (Inr s))"

definition rollout :: "pendulum \<Rightarrow> pyfloat \<Rightarrow> (pyfloat \<Rightarrow> pyfloat) \<Rightarrow> motion \<Rightarrow> motion result option" where
  "rollout pl horizon torque s = rollout_loop pl (rnd64 (1/1000)) horizon torque (Fin 0) s"

text \<open>The torque in force at the arena: the scan stops at the first command not landed yet.\<close>

fun scan_landed :: "pyfloat \<Rightarrow> (pyfloat \<times> pyfloat) list \<Rightarrow> pyfloat \<Rightarrow> pyfloat" where
  "scan_landed t_abs [] u = u"
| "scan_landed t_abs ((t_l, u_k) # q) u = (if fle t_l t_abs then scan_landed t_abs q u_k else u)"

definition landed :: "pyfloat \<Rightarrow> (int \<times> pyfloat) list \<Rightarrow> (pyfloat \<times> pyfloat) list" where
  "landed cmd_one_way hist = map (\<lambda>(t_send, u). (fadd (fl t_send) cmd_one_way, u)) hist"

definition torque_at :: "pyfloat \<Rightarrow> (pyfloat \<times> pyfloat) list \<Rightarrow> pyfloat \<Rightarrow> pyfloat" where
  "torque_at t_state lands t_rel = scan_landed (fadd t_state (fmul t_rel (Fin 1000000))) lands (Fin 0)"

text \<open>How far ahead to predict, in microseconds.\<close>

definition horizon_us :: "balance_params \<Rightarrow> int \<Rightarrow> pyfloat \<Rightarrow> pyfloat \<Rightarrow> pyfloat" where
  "horizon_us p now_us age one_way =
     (let t_state = fsub (fl now_us) age;
          t_land = fadd (fadd (fl now_us) one_way) (fmul (bp_horizon_extra_ms p) (Fin 1000))
      in fmax (Fin 0) (fmin (fmul (bp_max_horizon_ms p) (Fin 1000)) (fsub t_land t_state)))"

definition predict ::
  "balance_params \<Rightarrow> link_est \<Rightarrow> (int \<times> pyfloat) list \<Rightarrow> motion \<Rightarrow> motion result option" where
  "predict p link hist s =
     (case (lk_state_age_us link, lk_cmd_one_way_us link) of
        (Some age, Some one_way) \<Rightarrow>
          (case new_pendulum default_build of
             Inl e \<Rightarrow> Some (Inl e)
           | Inr pl \<Rightarrow>
               rollout pl (fquot (horizon_us p (lk_now_us link) age one_way) (Fin 1000000))
                 (torque_at (fsub (fl (lk_now_us link)) age) (landed one_way hist)) s)
      | _ \<Rightarrow> Some (Inr s))"

definition balance_comp ::
  "trig \<Rightarrow> balance_params \<Rightarrow> draws \<Rightarrow> link_est \<Rightarrow> bot_state \<Rightarrow> balance_mem
     \<Rightarrow> ((pyfloat \<times> pyfloat) \<times> balance_mem) result option" where
  "balance_comp lib p dr link st m =
     (case forward_speed lib st of
        Inl e \<Rightarrow> Some (Inl e)
      | Inr v \<Rightarrow>
          map_option (\<lambda>res. bindR res (\<lambda>s.
             bindR (balance_core lib p dr st (mo_pitch s) (mo_rate s) (mo_v s) m) (\<lambda>((left_u, right_u), m).
               Ok ((left_u, right_u),
                   m\<lparr>bm_cmd_hist := deque_append (bp_cmd_hist p)
                        (lk_now_us link, fquot (fadd left_u right_u) (Fin 2)) (bm_cmd_hist m)\<rparr>))))
            (predict p link (bm_cmd_hist m) \<lparr>mo_pitch = st_pitch st, mo_rate = st_pitch_rate st, mo_v = v\<rparr>))"

end
