(* ===== verification/PolicyFacts.thy ===== *)
theory PolicyFacts
  imports BrainPolicy
begin

text \<open>
  What the policies guarantee: headings stay in one turn, the balance law never asks for more torque
  than the motors have, the torque history is read as the newest landed command, the prediction loop
  ends, and a reflex never outlives its time.
\<close>

section \<open>Headings\<close>

lemma is_f64_pi: "is_f64 pi_rat" and is_f64_2pi: "is_f64 (2 * pi_rat)"
proof -
  have "is_f64 (of_int 884279719003555 * pow2 (- 48))" and "is_f64 (of_int 884279719003555 * pow2 (- 47))"
    by (rule is_f64_scaled; simp)+
  then show "is_f64 pi_rat" and "is_f64 (2 * pi_rat)"
    by (simp_all add: pi_rat_def pow2_def)
qed

definition in_turn :: "pyfloat \<Rightarrow> bool" where
  "in_turn x = (case x of Fin r \<Rightarrow> - pi_rat \<le> r \<and> r \<le> pi_rat | NaN \<Rightarrow> True | _ \<Rightarrow> False)"

lemma wrap_angle_in_turn: "in_turn (wrap_angle a)"
proof -
  have p: "0 < 2 * pi_rat" by (simp add: pi_rat_def)
  from fmod_range [OF p is_f64_2pi, of "fadd a pi64"]
  consider "fmod (fadd a pi64) (2 * pi_rat) = NaN"
    | m where "fmod (fadd a pi64) (2 * pi_rat) = Fin m" "0 \<le> m" "m \<le> 2 * pi_rat" by blast
  then show ?thesis
  proof cases
    case 1
    then show ?thesis by (simp add: wrap_angle_def fsub_def in_turn_def pi64_def)
  next
    case 2
    then have "\<exists>r. rnd64 (m + - pi_rat) = Fin r \<and> - pi_rat \<le> r \<and> r \<le> pi_rat"
      by (intro rnd64_between is_f64_minus is_f64_pi) simp_all
    with 2 show ?thesis by (auto simp: wrap_angle_def fsub_def in_turn_def pi64_def)
  qed
qed

section \<open>Torque\<close>

definition torque_ok :: "rat \<Rightarrow> pyfloat \<times> pyfloat \<Rightarrow> bool" where
  "torque_ok limit u \<longleftrightarrow>
     fle (Fin (- limit)) (fst u) \<and> fle (fst u) (Fin limit) \<and> fle (Fin (- limit)) (snd u) \<and> fle (snd u) (Fin limit)"

text \<open>The sum of the two shares may exceed the limit by half a unit of rounding, which the last
  addition rounds away: the limit is a number of even significand.\<close>

lemma rnd64_3_2: "rnd64 (3/2) = Fin (3/2)"
  using is_f64_scaled [of 3 "- 1"] by (simp add: is_f64_def pow2_def)

lemma rhe_half_even: "even n \<Longrightarrow> rhe (of_int n + 1/2) = n"
proof -
  have "\<lfloor>of_int n + 1/2 :: rat\<rfloor> = n" by linarith
  then show "even n \<Longrightarrow> rhe (of_int n + 1/2) = n" by (simp add: rhe_def Let_def)
qed

lemma ilog2_eq: "pow2 k \<le> x \<Longrightarrow> x < pow2 (k + 1) \<Longrightarrow> ilog2 x = k"
  using ilog2_bounds [of x] ilog2_le [of x "k + 1"] pow2_less_iff [of k "ilog2 x + 1"]
    order_less_le_trans [OF pow2_pos, of k x] by fastforce

lemma rnd64_above_3_2: "rnd64 (3/2 + 1 / 2 ^ 53) = Fin (3/2)"
proof -
  define x :: rat where "x = 3/2 + 1 / 2 ^ 53"
  have i: "ilog2 x = 0" by (rule ilog2_eq) (simp_all add: x_def pow2_def)
  have u: "ulp_exp 52 (- 1074) x = - 52"
  proof -
    have "\<bar>x\<bar> = x" by (simp add: x_def)
    then show ?thesis by (simp add: ulp_exp_def i)
  qed
  have p: "pow2 (- 52) = 1 / 4503599627370496" by (simp add: pow2_def)
  have "x / pow2 (- 52) = of_int 6755399441055744 + 1/2" by (simp add: p x_def)
  then have "rhe (x / pow2 (- 52)) = 6755399441055744" by (simp only: rhe_half_even even_numeral)
  then have "quant 52 (- 1074) x = 3/2" by (simp add: quant_def u p) (simp add: x_def)
  moreover have "(3/2 :: rat) < huge64"
  proof -
    have "(3/2 :: rat) < 2 ^ 1" by simp
    also have "\<dots> \<le> huge64" unfolding huge64_def by (rule power_increasing) simp_all
    finally show ?thesis .
  qed
  ultimately show ?thesis using huge64_pos unfolding x_def [symmetric] by (simp add: rnd64_def Let_def)
qed

lemma rnd64_in_3_2:
  assumes "\<bar>x\<bar> \<le> 3/2 + 1 / 2 ^ 53"
  shows "fle (Fin (- (3/2))) (rnd64 x)" and "fle (rnd64 x) (Fin (3/2))"
proof -
  have "- (3/2 + 1 / 2 ^ 53) \<le> x" and "x \<le> 3/2 + 1 / 2 ^ 53" using assms by linarith+
  from rnd64_mono [OF this(1)] rnd64_mono [OF this(2)]
  show "fle (Fin (- (3/2))) (rnd64 x)" and "fle (rnd64 x) (Fin (3/2))"
    unfolding rnd64_minus rnd64_above_3_2 by simp_all
qed

lemma clamp_to_range: "0 \<le> m \<Longrightarrow> \<exists>r. clamp_to (Fin m) x = Fin r \<and> \<bar>r\<bar> \<le> m"
  using clamp_range [of "- m" m x] by (auto simp: clamp_to_def abs_le_iff)

lemma share_torque_ok: "torque_ok (3/2) (share_torque (Fin (3/2)) u d)"
proof -
  obtain a where a: "clamp_to (Fin (3/2)) u = Fin a" "\<bar>a\<bar> \<le> 3/2"
    using clamp_to_range [of "3/2" u] by auto
  obtain r where r: "rnd64 (3/2 - \<bar>a\<bar>) = Fin r" "0 \<le> r" "r \<le> 3/2"
    using rnd64_between [of 0 "3/2" "3/2 - \<bar>a\<bar>"] a(2) rnd64_3_2 by (auto simp: is_f64_def)
  have "\<bar>r - (3/2 - \<bar>a\<bar>)\<bar> \<le> pow2 (1 - 54)"
    by (rule rnd64_error [OF _ _ r(1)]) (use a(2) in \<open>simp_all add: pow2_def abs_if\<close>)
  moreover have "pow2 (1 - 54) = 1 / 2 ^ 53" by (simp add: pow2_def)
  ultimately have err: "r \<le> 3/2 - \<bar>a\<bar> + 1 / 2 ^ 53" by linarith
  obtain e where e: "clamp_to (Fin r) d = Fin e" "\<bar>e\<bar> \<le> r"
    using clamp_to_range [OF r(2)] by blast
  have "\<bar>a + - e\<bar> \<le> 3/2 + 1 / 2 ^ 53" and "\<bar>a + e\<bar> \<le> 3/2 + 1 / 2 ^ 53"
    using err e(2) by linarith+
  with a(1) r(1) e(1) show ?thesis
    using rnd64_in_3_2 [of "a + - e"] rnd64_in_3_2 [of "a + e"]
    by (simp add: share_torque_def torque_ok_def fsub_def Let_def)
qed

lemma balance_law_ok:
  "bp_torque_max p = None \<Longrightarrow> torque_ok (3/2) (balance_law p pitch pitch_rate v wz v_ref w_ref)"
  by (simp add: balance_law_def Let_def rnd64_3_2 share_torque_ok)

lemma balance_core_ok:
  assumes "bp_torque_max p = None" and "balance_core lib p dr st pitch pitch_rate v m = Inr (u, m')"
  shows "torque_ok (3/2) u"
  using assms by (auto simp: balance_core_def Let_def result_simps balance_law_ok split: prod.splits)

section \<open>The prediction loop ends\<close>

text \<open>The constants of the loop.\<close>

lemma pow2_tiny: "pow2 (- 54) = 1 / 18014398509481984" "pow2 (- 53) = 1 / 9007199254740992"
  "pow2 (- 52) = 1 / 4503599627370496"
  by (simp_all add: pow2_def)

lemma step_size: "\<exists>d. rnd64 (1/1000) = Fin d \<and> 9/10000 \<le> d \<and> d \<le> 11/10000"
proof -
  from f64_near [of "1/1000" 0] obtain r where "rnd64 (1/1000) = Fin r" "\<bar>r - 1/1000\<bar> \<le> pow2 (- 54)"
    by (auto simp: pow2_def [of 0])
  moreover from this(2) have "9/10000 \<le> r \<and> r \<le> 11/10000" unfolding pow2_tiny by linarith
  ultimately show ?thesis by blast
qed

lemma slack: "\<exists>e. rnd64 (1/1000000000) = Fin e \<and> 9/10000000000 \<le> e \<and> e \<le> 11/10000000000"
proof -
  from f64_near [of "1/1000000000" 0]
  obtain r where "rnd64 (1/1000000000) = Fin r" "\<bar>r - 1/1000000000\<bar> \<le> pow2 (- 54)"
    by (auto simp: pow2_def [of 0])
  moreover from this(2) have "9/10000000000 \<le> r \<and> r \<le> 11/10000000000" unfolding pow2_tiny by linarith
  ultimately show ?thesis by blast
qed

text \<open>Where the loop stops: a little before the horizon.\<close>

lemma loop_end:
  assumes "is_f64 h" and "0 \<le> h" and "h \<le> 1"
  shows "\<exists>b. fsub (Fin h) (rnd64 (1/1000000000)) = Fin b \<and> b \<le> h \<and> b \<le> h - 1/10000000000"
proof -
  obtain e where e: "rnd64 (1/1000000000) = Fin e" "9/10000000000 \<le> e" "e \<le> 11/10000000000"
    using slack by blast
  have "\<bar>h + - e\<bar> < pow2 1" using assms e by (simp add: pow2_def abs_if)
  from f64_near [OF this] obtain b where "rnd64 (h + - e) = Fin b" "\<bar>b - (h + - e)\<bar> \<le> pow2 (- 53)" by auto
  moreover from this(2) have "b \<le> h - 1/10000000000" using e(2) unfolding pow2_tiny by linarith
  ultimately show ?thesis using e(1) by (auto simp: fsub_def)
qed

lemma add_step:
  assumes "0 \<le> a" and "a \<le> 1" and "0 \<le> d" and "d \<le> 1/2"
  shows "\<exists>r. rnd64 (a + d) = Fin r \<and> a + d - 1/4503599627370496 \<le> r \<and> r \<le> 2"
proof -
  have "\<bar>a + d\<bar> < pow2 1" using assms by (simp add: pow2_def)
  from f64_near [OF this] obtain r where "rnd64 (a + d) = Fin r" "\<bar>r - (a + d)\<bar> \<le> pow2 (- 53)" by auto
  moreover from this(2) have "a + d - 1/4503599627370496 \<le> r \<and> r \<le> 2"
    using assms unfolding pow2_tiny by linarith
  ultimately show ?thesis by blast
qed

lemma rollout_loop_returns:
  assumes h: "is_f64 h" "0 \<le> h" "h \<le> 1"
  shows "0 \<le> a \<Longrightarrow> h - a \<le> of_nat n * (8/10000)
    \<Longrightarrow> \<exists>y. rollout_loop pl (rnd64 (1/1000)) (Fin h) torque (Fin a) s = Some y"
proof (induction n arbitrary: a s)
  case 0
  obtain b where "fsub (Fin h) (rnd64 (1/1000000000)) = Fin b" "b \<le> h" using loop_end [OF h] by blast
  with 0 show ?case by (subst rollout_loop.simps) simp
next
  case (Suc n)
  obtain b where b: "fsub (Fin h) (rnd64 (1/1000000000)) = Fin b" "b \<le> h" "b \<le> h - 1/10000000000"
    using loop_end [OF h] by blast
  obtain d where d: "rnd64 (1/1000) = Fin d" "9/10000 \<le> d" "d \<le> 11/10000" using step_size by blast
  show ?case
  proof (cases "a < b")
    case False
    with b show ?thesis by (subst rollout_loop.simps) simp
  next
    case True
    then have a1: "a \<le> 1" "\<bar>h + - a\<bar> < pow2 1" using b(2) h Suc.prems(1) by (simp_all add: pow2_def)
    from f64_near [OF a1(2)] obtain l where l: "rnd64 (h + - a) = Fin l" "\<bar>l - (h + - a)\<bar> \<le> pow2 (- 53)" by auto
    then have l': "h - a - 1/9007199254740992 \<le> l" unfolding pow2_tiny by linarith
    have next_step: "\<exists>y. rollout_loop pl (rnd64 (1/1000)) (Fin h) torque (fadd (Fin a) (fmin (Fin d) (Fin l))) s' = Some y"
      for s'
    proof (cases "l < d")
      case False
      then have f: "fmin (Fin d) (Fin l) = Fin d" by (simp add: fmin_def)
      obtain r where r: "rnd64 (a + d) = Fin r" "a + d - 1/4503599627370496 \<le> r"
        using add_step [of a d] Suc.prems(1) a1(1) d by auto
      have "h - r \<le> of_nat n * (8/10000)" using r(2) d(2) Suc.prems(2) by (simp add: algebra_simps)
      moreover have "0 \<le> r" using r(2) d(2) Suc.prems(1) by linarith
      ultimately show ?thesis using Suc.IH [of r s'] r(1) f by simp
    next
      case True
      then have f: "fmin (Fin d) (Fin l) = Fin l" by (simp add: fmin_def)
      have "0 \<le> l" using l' True \<open>a < b\<close> b(3) by linarith
      then obtain r where r: "rnd64 (a + l) = Fin r" "a + l - 1/4503599627370496 \<le> r"
        using add_step [of a l] Suc.prems(1) a1(1) d(3) True by auto
      have "\<not> r < b" using r(2) l' b(3) by linarith
      with b(1) r(1) f show ?thesis by (subst rollout_loop.simps) simp
    qed
    have e: "fsub (Fin h) (Fin a) = Fin l" using l(1) by (simp add: fsub_def)
    show ?thesis
      using True b(1) next_step
      by (subst rollout_loop.simps) (simp add: e d(1) Let_def split: sum.split)
  qed
qed

lemma rollout_returns:
  assumes "is_f64 h" and "0 \<le> h" and "h \<le> 1"
  shows "\<exists>y. rollout pl (Fin h) torque s = Some y"
  unfolding rollout_def using assms
  by (intro rollout_loop_returns [where n = 1250]) simp_all

text \<open>The horizon is a number of the format, at most a second.\<close>

lemma horizon_seconds:
  assumes "bp_max_horizon_ms p = Fin m" and "0 \<le> m" and "m \<le> 1000"
  shows "\<exists>h. fquot (horizon_us p now_us age one_way) (Fin 1000000) = Fin h \<and> is_f64 h \<and> 0 \<le> h \<and> h \<le> 1"
proof -
  have "is_f64 (of_int 1000000)" by (rule is_f64_of_int) simp
  then obtain k where k: "rnd64 (m * 1000) = Fin k" "0 \<le> k" "k \<le> 1000000"
    using rnd64_between [of 0 "1000000" "m * 1000"] assms by auto
  obtain z where z: "horizon_us p now_us age one_way = Fin z" "0 \<le> z" "z \<le> k"
    using clamp_range [OF k(2)] assms(1) k(1) by (fastforce simp: horizon_us_def Let_def)
  obtain h where h: "rnd64 (z / 1000000) = Fin h" "0 \<le> h" "h \<le> 1"
    using rnd64_between [of 0 1 "z / 1000000"] z k(3) by auto
  then show ?thesis using z(1) rnd64_is_f64 [OF h(1)] by (simp add: fquot_def)
qed

lemma predict_returns:
  assumes "bp_max_horizon_ms p = Fin m" and "0 \<le> m" and "m \<le> 1000"
  shows "\<exists>y. predict p link hist s = Some y"
  using horizon_seconds [OF assms] rollout_returns
  by (auto simp: predict_def split: option.split sum.split) (metis)

text \<open>C14. A tick of the delay-compensating policy always returns, whatever the link estimate, the STATE
  (infinities and NaNs included) and the command history are: the prediction loop, which adds float time
  steps until a float horizon, ends. What it returns, if no exception is raised, never exceeds the torque
  limit of a wheel, not even by rounding.\<close>

theorem balance_comp_returns_in_limit:
  assumes "bp_torque_max p = None" and "bp_max_horizon_ms p = Fin m" and "0 \<le> m" and "m \<le> 1000"
  shows "\<exists>r. balance_comp lib p dr link st mem = Some r \<and> (case r of Inl _ \<Rightarrow> True | Inr (u, _) \<Rightarrow> torque_ok (3/2) u)"
proof (cases "forward_speed lib st")
  case (Inl e)
  then show ?thesis by (simp add: balance_comp_def)
next
  case (Inr v)
  obtain y where "predict p link (bm_cmd_hist mem) \<lparr>mo_pitch = st_pitch st, mo_rate = st_pitch_rate st, mo_v = v\<rparr> = Some y"
    using predict_returns [OF assms(2-4)] by blast
  with Inr show ?thesis
    using balance_core_ok [OF assms(1)]
    by (auto simp: balance_comp_def bindR_def split: sum.splits prod.splits)
qed

section \<open>The torque history\<close>

text \<open>The reference: of all commands landed by a time, the one sent last; before the first, no torque.\<close>

definition newest_torque :: "pyfloat \<Rightarrow> pyfloat \<Rightarrow> (int \<times> pyfloat) list \<Rightarrow> pyfloat" where
  "newest_torque cmd_one_way t_abs hist =
     (case filter (\<lambda>(t_send, _). fle (fadd (fl t_send) cmd_one_way) t_abs) hist of
        [] \<Rightarrow> Fin 0 | q \<Rightarrow> snd (last q))"

lemma scan_landed_newest:
  "sorted_wrt (\<lambda>a b. fle (fst a) (fst b)) q \<Longrightarrow>
   scan_landed t q u = (case filter (\<lambda>(t_l, _). fle t_l t) q of [] \<Rightarrow> u | z \<Rightarrow> snd (last z))"
proof (induction q arbitrary: u)
  case Nil
  then show ?case by simp
next
  case (Cons e q)
  obtain t_l v where e: "e = (t_l, v)" by (cases e)
  show ?case
  proof (cases "fle t_l t")
    case True
    then show ?thesis using Cons by (auto simp: e split: list.split)
  next
    case False
    then have "filter (\<lambda>(t_l, _). fle t_l t) q = []"
      using Cons.prems fle_trans by (fastforce simp: e filter_empty_conv)
    with False show ?thesis by (simp add: e)
  qed
qed

lemma fl_mono: "a \<le> b \<Longrightarrow> fle (fl a) (fl b)"
  unfolding fl_def by (rule rnd64_mono) simp

lemma landed_sorted: "sorted (map fst hist) \<Longrightarrow> sorted_wrt (\<lambda>a b. fle (fst a) (fst b)) (landed (Fin c) hist)"
  by (auto simp: landed_def sorted_wrt_map sorted_map split_beta
      intro!: fadd_mono fl_mono elim!: sorted_wrt_mono_rel [rotated])

lemma torque_at_newest:
  assumes "sorted (map fst hist)"
  shows "torque_at ts (landed (Fin c) hist) t = newest_torque (Fin c) (fadd ts (fmul t (Fin 1000000))) hist"
proof -
  have "filter (\<lambda>(t_l, _). fle t_l T) (landed (Fin c) hist)
      = map (\<lambda>(t_send, u). (fadd (fl t_send) (Fin c), u)) (filter (\<lambda>(t_send, _). fle (fadd (fl t_send) (Fin c)) T) hist)"
    for T by (induction hist) (auto simp: landed_def)
  then show ?thesis
    using scan_landed_newest [OF landed_sorted [OF assms]]
    by (auto simp: torque_at_def newest_torque_def last_map split_beta split: list.split)
qed

text \<open>The ticks of a brain: each runs the policy on the memory the last one left.\<close>

fun run_comp ::
  "trig \<Rightarrow> balance_params \<Rightarrow> (link_est \<times> bot_state \<times> draws) list \<Rightarrow> balance_mem \<Rightarrow> balance_mem" where
  "run_comp lib p [] m = m"
| "run_comp lib p ((link, st, dr) # q) m =
     (case balance_comp lib p dr link st m of
        Some (Inr (_, m')) \<Rightarrow> run_comp lib p q m'
      | _ \<Rightarrow> m)"

lemma balance_comp_hist:
  assumes "balance_comp lib p dr link st m = Some (Inr (u, m'))"
  shows "\<exists>t. bm_cmd_hist m' = deque_append (bp_cmd_hist p) (lk_now_us link, t) (bm_cmd_hist m)"
proof -
  have "bm_cmd_hist m'' = bm_cmd_hist m" if "balance_core lib p dr st a b c m = Inr (u', m'')" for a b c u' m''
    using that by (auto simp: balance_core_def Let_def result_simps split: prod.splits)
  with assms show ?thesis
    by (auto simp: balance_comp_def result_simps split: sum.splits prod.splits)
qed

lemma sorted_deque_append:
  assumes "sorted (map fst hist)" and "\<forall>x \<in> set hist. fst x \<le> t"
  shows "sorted (map fst (deque_append n (t, u) hist))" and "\<forall>x \<in> set (deque_append n (t, u) hist). fst x \<le> t"
proof -
  have "sorted (map fst (hist @ [(t, u)]))" using assms by (auto simp: sorted_append)
  then show "sorted (map fst (deque_append n (t, u) hist))"
    by (metis deque_append_def drop_map sorted_wrt_drop)
  show "\<forall>x \<in> set (deque_append n (t, u) hist). fst x \<le> t"
    using assms(2) by (auto simp: deque_append_def Let_def dest: in_set_dropD)
qed

lemma run_comp_sorted:
  "sorted (map (lk_now_us \<circ> fst) ticks) \<Longrightarrow> sorted (map fst (bm_cmd_hist m)) \<Longrightarrow>
   \<forall>x \<in> set (bm_cmd_hist m). \<forall>y \<in> set ticks. fst x \<le> lk_now_us (fst y) \<Longrightarrow>
   sorted (map fst (bm_cmd_hist (run_comp lib p ticks m)))"
proof (induction ticks arbitrary: m)
  case Nil
  then show ?case by simp
next
  case (Cons tk q)
  obtain link st dr where tk: "tk = (link, st, dr)" by (cases tk)
  show ?case
  proof (cases "\<exists>u m'. balance_comp lib p dr link st m = Some (Inr (u, m'))")
    case True
    then obtain u m' where b: "balance_comp lib p dr link st m = Some (Inr (u, m'))" by blast
    from balance_comp_hist [OF this] obtain t
      where h: "bm_cmd_hist m' = deque_append (bp_cmd_hist p) (lk_now_us link, t) (bm_cmd_hist m)" by blast
    have "\<forall>x \<in> set (bm_cmd_hist m). fst x \<le> lk_now_us link" using Cons.prems(3) by (simp add: tk)
    note sorted_deque_append [OF Cons.prems(2) this]
    then have "sorted (map fst (bm_cmd_hist m'))" and "\<forall>x \<in> set (bm_cmd_hist m'). fst x \<le> lk_now_us link"
      by (simp_all add: h)
    then have "sorted (map fst (bm_cmd_hist (run_comp lib p q m')))"
      using Cons.prems(1) by (intro Cons.IH) (fastforce simp: tk intro: order_trans)+
    then show ?thesis by (simp add: tk b)
  next
    case False
    then have "run_comp lib p (tk # q) m = m" by (auto simp: tk split: option.split sum.split)
    then show ?thesis using Cons.prems(2) by simp
  qed
qed

text \<open>Over any run of a brain whose clock does not go back, the scan of the command history (which
  stops at the first command not landed) reads, for every time, exactly the newest command landed by then.\<close>

theorem history_reads_newest:
  assumes "sorted (map (lk_now_us \<circ> fst) ticks)"
    and "hist = bm_cmd_hist (run_comp lib p ticks new_balance_mem)"
  shows "torque_at ts (landed (Fin c) hist) t = newest_torque (Fin c) (fadd ts (fmul t (Fin 1000000))) hist"
  unfolding assms(2)
  by (intro torque_at_newest run_comp_sorted) (use assms(1) in \<open>simp_all add: new_balance_mem_def\<close>)

section \<open>Without a link estimate\<close>

text \<open>Without a link estimate the compensating policy is the plain one: same torques, same errors.\<close>

theorem balance_comp_without_link:
  assumes "lk_state_age_us link = None"
  shows "map_option (map_sum id fst) (balance_comp lib p dr link st m) = Some (map_sum id fst (balance lib p dr st m))"
  using assms
  by (auto simp: balance_comp_def balance_def predict_def bindR_def split: sum.split)

section \<open>Witnesses\<close>

definition flat_trig :: trig where
  "flat_trig = \<lparr>tg_cos = \<lambda>_. Fin 1, tg_sin = \<lambda>_. Fin 0, tg_acos = \<lambda>_. Fin 0, tg_atan2 = \<lambda>_ _. Fin 0,
     tg_hypot = \<lambda>_ _. Fin 1\<rparr>"

definition level_state :: bot_state where
  "level_state =
     \<lparr>sim_time_s = Fin 1, st_x = Fin 0, st_y = Fin 0, st_yaw = Fin 0, st_vx = Fin 0, st_vy = Fin 0,
      st_wz = Fin 0, opp_x = Fin 1, opp_y = Fin 0, opp_yaw = Fin 0, opp_vx = Fin 0,
      opp_vy = Fin 0, ring_radius_m = Fin 2, dist_to_edge_m = Fin 2,
      opp_dist_to_edge_m = Fin 1, st_pitch = Fin 0,
      st_pitch_rate = Fin 0, st_wheel_left = Fin 0, st_wheel_right = Fin 0, st_flags = 1\<rparr>"

definition link_at :: "int \<Rightarrow> link_est" where
  "link_at t = \<lparr>lk_now_us = t, lk_state_age_us = Some (Fin 30000), lk_cmd_one_way_us = Some (Fin 20000),
     lk_period_us = 10000, lk_shared_clock = Some True, lk_rtt_min_us = Some 40000\<rparr>"

definition no_noise :: draws where "no_noise = \<lparr>dr_gauss = Fin 0, dr_choice = Fin 1\<rparr>"

theorem balance_comp_returns_in_limit_witness:
  "\<exists>r. balance_comp flat_trig BALANCE_PARAMS no_noise (link_at 5000000) level_state new_balance_mem = Some r
     \<and> (case r of Inl _ \<Rightarrow> True | Inr (u, _) \<Rightarrow> torque_ok (3/2) u)"
  by (rule balance_comp_returns_in_limit [where m = 500]) (simp_all add: BALANCE_PARAMS_def)

theorem history_reads_newest_witness:
  "torque_at (Fin 5000000) (landed (Fin 20000) (bm_cmd_hist (run_comp flat_trig BALANCE_PARAMS
       [(link_at 5000000, level_state, no_noise), (link_at 5010000, level_state, no_noise)] new_balance_mem))) (Fin 1)
   = newest_torque (Fin 20000) (fadd (Fin 5000000) (fmul (Fin 1) (Fin 1000000))) (bm_cmd_hist (run_comp flat_trig BALANCE_PARAMS
       [(link_at 5000000, level_state, no_noise), (link_at 5010000, level_state, no_noise)] new_balance_mem))"
  by (rule history_reads_newest [OF _ refl]) (simp add: link_at_def)

theorem balance_comp_without_link_witness:
  "map_option (map_sum id fst) (balance_comp flat_trig BALANCE_PARAMS no_noise
       ((link_at 7)\<lparr>lk_state_age_us := None\<rparr>) level_state new_balance_mem)
   = Some (map_sum id fst (balance flat_trig BALANCE_PARAMS no_noise level_state new_balance_mem))"
  by (rule balance_comp_without_link) simp

end
