(* ===== verification/Motion.thy ===== *)
theory Motion
  imports Protocol FloatBounds
begin

text \<open>
  Where a node is at an elapsed time, dataclass \<open>Motion\<close> of \<^verbatim>\<open>apps/sionna_bridge/run_bridge.py\<close>: a drift,
  a drift bouncing between two x bounds, or a polyline walked at constant speed, back and forth or
  around a closed ring. Distances between points (\<open>math.dist\<close>) are a parameter.
\<close>

section \<open>Routes\<close>

record motion_spec =
  mt_start :: vec3
  mt_velocity :: vec3
  mt_x_bounds :: "(pyfloat \<times> pyfloat) option"
  mt_mobility :: string
  mt_waypoints :: "vec3 list"
  mt_route_mode :: string
  mt_speed_mps :: pyfloat

type_synonym distance = "vec3 \<Rightarrow> vec3 \<Rightarrow> pyfloat"

text \<open>Componentwise comparison of tuples of floats.\<close>

definition vec_eq :: "vec3 \<Rightarrow> vec3 \<Rightarrow> bool" where
  "vec_eq a b \<longleftrightarrow> feq (fst a) (fst b) \<and> feq (fst (snd a)) (fst (snd b)) \<and> feq (snd (snd a)) (snd (snd b))"

definition route_points :: "motion_spec \<Rightarrow> vec3 list" where
  "route_points m =
     (let points = mt_waypoints m
      in if mt_route_mode m = ''loop'' \<and> \<not> vec_eq (hd points) (last points) then points @ [hd points] else points)"

text \<open>The cumulative lengths, first point first.\<close>

fun cumulative :: "distance \<Rightarrow> pyfloat \<Rightarrow> vec3 list \<Rightarrow> pyfloat list" where
  "cumulative d l (p # q # ps) = l # cumulative d (fadd l (d p q)) (q # ps)"
| "cumulative d l ps = [l]"

definition route_of :: "distance \<Rightarrow> motion_spec \<Rightarrow> vec3 list \<times> pyfloat list \<times> pyfloat" where
  "route_of d m =
     (let points = route_points m; lengths = cumulative d (Fin 0) points in (points, lengths, last lengths))"

text \<open>The distance along the polyline and the direction of travel.\<close>

definition travelled :: "motion_spec \<Rightarrow> pyfloat \<Rightarrow> pyfloat \<Rightarrow> (pyfloat \<times> pyfloat) result" where
  "travelled m elapsed total_m =
     (if fle total_m (Fin 0) \<or> feq (mt_speed_mps m) (Fin 0) then Ok (Fin 0, Fin 1)
      else let distance = fmul (mt_speed_mps m) elapsed
           in if mt_route_mode m = ''loop'' then bindR (fmodR distance total_m) (\<lambda>r. Ok (r, Fin 1))
              else bindR (fmodR distance (fmul (Fin 2) total_m)) (\<lambda>phase.
                Ok (if fle phase total_m then (phase, Fin 1) else (fsub (fmul (Fin 2) total_m) phase, Fin (- 1)))))"

record leg =
  lg_from :: vec3
  lg_to :: vec3
  lg_start :: pyfloat
  lg_end :: pyfloat

definition legs :: "vec3 list \<Rightarrow> pyfloat list \<Rightarrow> leg list" where
  "legs points lengths =
     map (\<lambda>((a, b), (s, e)). \<lparr>lg_from = a, lg_to = b, lg_start = s, lg_end = e\<rparr>)
       (zip (zip points (tl points)) (zip lengths (tl lengths)))"

text \<open>The first leg that reaches far enough; the last one in any case.\<close>

fun pick_leg :: "pyfloat \<Rightarrow> leg list \<Rightarrow> leg option" where
  "pick_leg t [] = None"
| "pick_leg t [g] = Some g"
| "pick_leg t (g # gs) = (if fle t (lg_end g) then Some g else pick_leg t gs)"

definition vmap2 :: "(pyfloat \<Rightarrow> pyfloat \<Rightarrow> pyfloat) \<Rightarrow> vec3 \<Rightarrow> vec3 \<Rightarrow> vec3" where
  "vmap2 f a b = (case (a, b) of ((a1, a2, a3), (b1, b2, b3)) \<Rightarrow> (f a1 b1, f a2 b2, f a3 b3))"

definition leg_ratio :: "pyfloat \<Rightarrow> leg \<Rightarrow> pyfloat result" where
  "leg_ratio t g =
     (let segment = fsub (lg_end g) (lg_start g)
      in bindR (if fle segment (Fin 0) then Ok (Fin 0) else fdiv (fsub t (lg_start g)) segment) (\<lambda>ratio.
           Ok (fmin (Fin 1) (fmax (Fin 0) ratio))))"

definition along :: "pyfloat \<Rightarrow> pyfloat \<Rightarrow> pyfloat \<Rightarrow> pyfloat" where
  "along ratio a b = fadd a (fmul (fsub b a) ratio)"

text \<open>Bouncing along x.\<close>

definition bounce_phase :: "motion_spec \<Rightarrow> pyfloat \<Rightarrow> pyfloat \<Rightarrow> pyfloat \<Rightarrow> pyfloat result" where
  "bounce_phase m elapsed low width =
     fmodR (fadd (fsub (fst (mt_start m)) low) (fmul elapsed (fst (mt_velocity m)))) (fmul (Fin 2) width)"

definition drift :: "motion_spec \<Rightarrow> pyfloat \<Rightarrow> vec3" where
  "drift m elapsed = vmap2 (\<lambda>origin speed. fadd origin (fmul elapsed speed)) (mt_start m) (mt_velocity m)"

definition bounce_x :: "pyfloat \<Rightarrow> pyfloat \<Rightarrow> pyfloat \<Rightarrow> pyfloat" where
  "bounce_x low high phase =
     (let width = fsub high low in if fle phase width then fadd low phase else fsub high (fsub phase width))"

definition position_at :: "distance \<Rightarrow> motion_spec \<Rightarrow> pyfloat \<Rightarrow> vec3 result" where
  "position_at d m elapsed =
     (if 2 \<le> length (mt_waypoints m) then
        (case route_of d m of (points, lengths, total_m) \<Rightarrow>
           bindR (travelled m elapsed total_m) (\<lambda>(t, _).
             (case pick_leg t (legs points lengths) of
                None \<Rightarrow> Ok (last points)
              | Some g \<Rightarrow> bindR (leg_ratio t g) (\<lambda>ratio. Ok (vmap2 (along ratio) (lg_from g) (lg_to g))))))
      else case mt_x_bounds m of
        None \<Rightarrow> Ok (drift m elapsed)
      | Some (low, high) \<Rightarrow>
          if feq (fst (mt_velocity m)) (Fin 0) then Ok (drift m elapsed)
          else bindR (bounce_phase m elapsed low (fsub high low)) (\<lambda>phase.
                 Ok (bounce_x low high phase, snd (drift m elapsed))))"

definition velocity_at :: "distance \<Rightarrow> motion_spec \<Rightarrow> pyfloat \<Rightarrow> vec3 result" where
  "velocity_at d m elapsed =
     (if 2 \<le> length (mt_waypoints m) then
        (case route_of d m of (points, lengths, total_m) \<Rightarrow>
           bindR (travelled m elapsed total_m) (\<lambda>(t, direction).
             (case pick_leg t (legs points lengths) of
                None \<Rightarrow> Ok (Fin 0, Fin 0, Fin 0)
              | Some g \<Rightarrow>
                  let segment = fsub (lg_end g) (lg_start g)
                  in if fle segment (Fin 0) then Ok (Fin 0, Fin 0, Fin 0)
                     else Ok (vmap2 (\<lambda>a b. fmul (fmul (fquot (fsub b a) segment) (mt_speed_mps m)) direction)
                                (lg_from g) (lg_to g)))))
      else case mt_x_bounds m of
        None \<Rightarrow> Ok (mt_velocity m)
      | Some (low, high) \<Rightarrow>
          if feq (fst (mt_velocity m)) (Fin 0) then Ok (mt_velocity m)
          else bindR (bounce_phase m elapsed low (fsub high low)) (\<lambda>phase.
                 Ok (fmul (fst (mt_velocity m)) (if flt phase (fsub high low) then Fin 1 else Fin (- 1)),
                     snd (mt_velocity m))))"

section \<open>A bouncing node stays on its route\<close>

definition inside :: "pyfloat \<Rightarrow> pyfloat \<Rightarrow> pyfloat \<Rightarrow> bool" where
  "inside low high x \<longleftrightarrow> fle low x \<and> fle x high"

lemma bounce_x_inside:
  assumes f: "is_f64 low" "is_f64 high" "is_f64 (high - low)" and lt: "low < high"
    and ph: "0 \<le> p" "p \<le> 2 * (high - low)"
  shows "inside (Fin low) (Fin high) (bounce_x (Fin low) (Fin high) (Fin p))"
proof -
  have width: "fsub (Fin high) (Fin low) = Fin (high - low)" using f(3) by (simp add: fsub_def is_f64_def)
  show ?thesis
  proof (cases "p \<le> high - low")
    case True
    then obtain r where "rnd64 (low + p) = Fin r" "low \<le> r" "r \<le> high"
      using rnd64_between [OF f(1,2), of "low + p"] ph by auto
    with True width show ?thesis by (simp add: bounce_x_def inside_def Let_def)
  next
    case False
    have "0 \<le> p + - (high - low)" and "p + - (high - low) \<le> high - low" using False ph by simp_all
    then obtain q where q: "rnd64 (p + - (high - low)) = Fin q" "0 \<le> q" "q \<le> high - low"
      using rnd64_between [OF is_f64_0 f(3)] by blast
    have "low \<le> high + - q" and "high + - q \<le> high" using q(2,3) by linarith+
    then obtain r where "rnd64 (high + - q) = Fin r" "low \<le> r" "r \<le> high"
      using rnd64_between [OF f(1,2)] by blast
    with False width q(1) show ?thesis by (simp add: bounce_x_def inside_def Let_def fsub_def)
  qed
qed

text \<open>A node that bounces between two x bounds is between them at every time, the roundings of the
  floating-point phase included, when the bounds and the width of the route are numbers of the format.\<close>

theorem bouncing_node_confined:
  assumes "length (mt_waypoints m) < 2" and "mt_x_bounds m = Some (Fin low, Fin high)"
    and "is_f64 low" and "is_f64 high" and "is_f64 (high - low)" and "is_f64 (2 * (high - low))" and "low < high"
    and "fst (mt_velocity m) \<noteq> Fin 0"
    and "is_finite (fadd (fsub (fst (mt_start m)) (Fin low)) (fmul elapsed (fst (mt_velocity m))))"
  shows "\<exists>p. position_at d m elapsed = Ok p \<and> inside (Fin low) (Fin high) (fst p)"
proof -
  obtain a where a: "fadd (fsub (fst (mt_start m)) (Fin low)) (fmul elapsed (fst (mt_velocity m))) = Fin a"
    using assms(9) is_finite_conv by blast
  have w: "fsub (Fin high) (Fin low) = Fin (high - low)" using assms(5) by (simp add: fsub_def is_f64_def)
  have two: "fmul (Fin 2) (Fin (high - low)) = Fin (2 * (high - low))" using assms(6) by (simp add: is_f64_def)
  have pos: "0 < 2 * (high - low)" using assms(7) by simp
  from fmod_range_finite [OF pos assms(6)] obtain p
    where p: "fmod (Fin a) (2 * (high - low)) = Fin p" "0 \<le> p" "p \<le> 2 * (high - low)" by blast
  have ph: "bounce_phase m elapsed (Fin low) (fsub (Fin high) (Fin low)) = Ok (Fin p)"
    unfolding bounce_phase_def a w two fmodR_def using pos p(1) by simp
  show ?thesis
    using assms(1,2,8) ph bounce_x_inside [OF assms(3-5,7) p(2,3)]
    by (simp add: position_at_def feq_def)
qed

section \<open>A walking node stays on its polyline\<close>

text \<open>On a leg: every coordinate is between the start and the float end point of the leg.\<close>

definition between :: "pyfloat \<Rightarrow> pyfloat \<Rightarrow> pyfloat \<Rightarrow> bool" where
  "between a b x \<longleftrightarrow> inside a b x \<or> inside b a x"

definition on_leg :: "leg \<Rightarrow> vec3 \<Rightarrow> bool" where
  "on_leg g p \<longleftrightarrow>
     (case (lg_from g, vmap2 (along (Fin 1)) (lg_from g) (lg_to g), p) of
        ((a1, a2, a3), (b1, b2, b3), (p1, p2, p3)) \<Rightarrow> between a1 b1 p1 \<and> between a2 b2 p2 \<and> between a3 b3 p3)"

definition ordinary :: "pyfloat \<Rightarrow> bool" where
  "ordinary x = (case x of Fin r \<Rightarrow> is_f64 r \<and> \<bar>r\<bar> \<le> 1000000000 | _ \<Rightarrow> False)"

definition ordinary_point :: "vec3 \<Rightarrow> bool" where
  "ordinary_point p \<longleftrightarrow> ordinary (fst p) \<and> ordinary (fst (snd p)) \<and> ordinary (snd (snd p))"

lemma along_between:
  assumes "ordinary a" and "ordinary b" and "0 \<le> r" and "r \<le> 1"
  shows "between a (along (Fin 1) a b) (along (Fin r) a b)"
proof -
  obtain x where x: "a = Fin x" "is_f64 x" "\<bar>x\<bar> \<le> 1000000000"
    using assms(1) by (auto simp: ordinary_def split: pyfloat.splits)
  obtain y where y: "b = Fin y" "is_f64 y" "\<bar>y\<bar> \<le> 1000000000"
    using assms(2) by (auto simp: ordinary_def split: pyfloat.splits)
  have big: "is_f64 (of_int 2000000000)" "is_f64 (of_int 3000000000)" by (rule is_f64_of_int; simp)+
  obtain d where d: "rnd64 (y + - x) = Fin d" "\<bar>d\<bar> \<le> 2000000000"
    using rnd64_between [OF is_f64_minus [OF big(1)] big(1), of "y + - x"] x(3) y(3) by (auto simp: abs_le_iff)
  have fd: "is_f64 d" using d(1) by (rule rnd64_is_f64)
  have e1: "along (Fin 1) a b = rnd64 (x + d)"
    using d(1) fd x y by (simp add: along_def fsub_def is_f64_def)
  have fin: "\<exists>z. rnd64 (x + d) = Fin z"
    using rnd64_between [OF is_f64_minus [OF big(2)] big(2), of "x + d"] x(3) d(2) by (auto simp: abs_le_iff)
  show ?thesis
  proof (cases "0 \<le> d")
    case True
    then have "0 \<le> d * r" and "d * r \<le> d" using assms(3,4) by (simp_all add: mult_left_le)
    then obtain q where q: "rnd64 (d * r) = Fin q" "0 \<le> q" "q \<le> d"
      using rnd64_between [OF is_f64_0 fd] by blast
    have "fle (Fin x) (rnd64 (x + q))" using x(2) q(2) by (intro rnd64_ge_f64) simp_all
    moreover have "fle (rnd64 (x + q)) (rnd64 (x + d))" using q(3) by (intro rnd64_mono) simp
    ultimately show ?thesis using d(1) q(1) x y e1 by (simp add: between_def inside_def along_def fsub_def)
  next
    case False
    then have "d \<le> d * r" and "d * r \<le> 0"
      using assms(3,4) by (simp_all add: mult_le_cancel_left2 mult_nonpos_nonneg)
    then obtain q where q: "rnd64 (d * r) = Fin q" "d \<le> q" "q \<le> 0"
      using rnd64_between [OF fd is_f64_0] by blast
    have "fle (rnd64 (x + q)) (Fin x)" using x(2) q(3) by (intro rnd64_le_f64) simp_all
    moreover have "fle (rnd64 (x + d)) (rnd64 (x + q))" using q(2) by (intro rnd64_mono) simp
    ultimately show ?thesis using d(1) q(1) x y e1 by (simp add: between_def inside_def along_def fsub_def)
  qed
qed

lemma leg_ratio_range: "\<exists>r. leg_ratio t g = Ok (Fin r) \<and> 0 \<le> r \<and> r \<le> 1"
proof -
  have "\<exists>x. (if fle s (Fin 0) then Ok (Fin 0) else fdiv a s) = Ok x" for a s :: pyfloat
    by (cases s; cases a) auto
  then obtain x where "(if fle (fsub (lg_end g) (lg_start g)) (Fin 0) then Ok (Fin 0)
      else fdiv (fsub t (lg_start g)) (fsub (lg_end g) (lg_start g))) = Ok x" by blast
  moreover have "\<exists>r. fmin (Fin 1) (fmax (Fin 0) x) = Fin r \<and> 0 \<le> r \<and> r \<le> 1"
    by (cases x) (auto simp: fmin_def fmax_def)
  ultimately show ?thesis by (auto simp: leg_ratio_def Let_def)
qed

lemma fmodR_ok: "y \<noteq> Fin 0 \<Longrightarrow> \<exists>r. fmodR x y = Ok r"
  by (cases y) (auto simp: fmodR_def)

lemma travelled_ok:
  assumes "is_float total_m"
  shows "\<exists>t. travelled m elapsed total_m = Ok t"
proof (cases "fle total_m (Fin 0) \<or> feq (mt_speed_mps m) (Fin 0)")
  case False
  then have "total_m \<noteq> Fin 0" and "fmul (Fin 2) total_m \<noteq> Fin 0"
    using double_nonzero [OF assms] by auto
  from fmodR_ok [OF this(1), of "fmul (mt_speed_mps m) elapsed"] fmodR_ok [OF this(2), of "fmul (mt_speed_mps m) elapsed"]
  show ?thesis using False by (auto simp: travelled_def Let_def)
qed (simp add: travelled_def)

lemma cumulative_float: "is_float l \<Longrightarrow> is_float (last (cumulative d l ps))"
  by (induction d l ps rule: cumulative.induct) simp_all

lemma length_cumulative: "length (cumulative d l ps) = max 1 (length ps)"
  by (induction d l ps rule: cumulative.induct) auto

lemma pick_leg_in: "gs \<noteq> [] \<Longrightarrow> \<exists>g \<in> set gs. pick_leg t gs = Some g"
  by (induction t gs rule: pick_leg.induct) auto

lemma legs_of_route:
  assumes "2 \<le> length points"
  shows "legs points (cumulative d l points) \<noteq> []"
  using assms length_cumulative [of d l points]
  by (cases points; cases "tl points"; cases "cumulative d l points"; cases "tl (cumulative d l points)")
    (auto simp: legs_def)

lemma set_tl_subset: "x \<in> set (tl xs) \<Longrightarrow> x \<in> set xs"
  by (cases xs) auto

lemma legs_points: "g \<in> set (legs points lengths) \<Longrightarrow> lg_from g \<in> set points \<and> lg_to g \<in> set points"
  by (auto simp: legs_def elim!: in_set_zipE dest: set_tl_subset)


section \<open>Witnesses\<close>

definition bouncing_car :: motion_spec where
  "bouncing_car = \<lparr>mt_start = (Fin (- 70), Fin 0, Fin (3/2)), mt_velocity = (Fin 14, Fin 0, Fin 0),
     mt_x_bounds = Some (Fin (- 82), Fin 82), mt_mobility = ''car'', mt_waypoints = [], mt_route_mode = ''pingpong'',
     mt_speed_mps = Fin 0\<rparr>"

definition ring_walker :: motion_spec where
  "ring_walker = \<lparr>mt_start = (Fin 0, Fin 0, Fin 1), mt_velocity = (Fin 0, Fin 0, Fin 0),
     mt_x_bounds = None, mt_mobility = ''pedestrian'',
     mt_waypoints = [(Fin 0, Fin 0, Fin 1), (Fin 4, Fin 0, Fin 1), (Fin 4, Fin 3, Fin 1)],
     mt_route_mode = ''loop'', mt_speed_mps = Fin 1\<rparr>"

lemma f64_ints: "\<bar>n\<bar> < 2 ^ 53 \<Longrightarrow> of_int n = r \<Longrightarrow> is_f64 r"
  using is_f64_of_int by blast

theorem bouncing_node_confined_witness:
  "\<exists>p. position_at (\<lambda>_ _. Fin 1) bouncing_car (Fin 20) = Ok p \<and> inside (Fin (- 82)) (Fin 82) (fst p)"
proof (rule bouncing_node_confined)
  show "is_f64 (- 82)" by (rule f64_ints [of "- 82"]) simp_all
  show "is_f64 82" by (rule f64_ints [of 82]) simp_all
  show "is_f64 (82 - (- 82))" by (rule f64_ints [of 164]) simp_all
  show "is_f64 (2 * (82 - (- 82)))" by (rule f64_ints [of 328]) simp_all
  show "is_finite (fadd (fsub (fst (mt_start bouncing_car)) (Fin (- 82))) (fmul (Fin 20) (fst (mt_velocity bouncing_car))))"
    by (simp add: bouncing_car_def fsub_def float_eval)
qed (simp_all add: bouncing_car_def)


end
