(* ===== verification/Scenario.thy ===== *)
theory Scenario
  imports Motion ProcParse ControlBatch
begin

text \<open>
  The scenario configuration of the bridge, \<^verbatim>\<open>load_scenario_config\<close> and its helpers in
  \<^verbatim>\<open>apps/sionna_bridge/run_bridge.py\<close>: antenna arrays, node motions, links with their lane limit, the
  pinned solver settings, and the built-in layouts. \<open>repr_of\<close> stands for \<open>str()\<close> of a value that is not
  a string, \<open>loads\<close> for \<open>json.loads\<close>.
\<close>

section \<open>Arrays and vectors\<close>

record array_spec =
  ar_rows :: int
  ar_cols :: int
  ar_pattern :: string
  ar_polarization :: string

definition default_array :: array_spec where
  "default_array = \<lparr>ar_rows = 1, ar_cols = 1, ar_pattern = ''iso'', ar_polarization = ''V''\<rparr>"

definition antenna_count :: "array_spec \<Rightarrow> int" where
  "antenna_count a = ar_rows a * ar_cols a"

definition positive_count :: "pyval \<Rightarrow> int option" where
  "positive_count v = (case v of VInt i \<Rightarrow> if 0 < i then Some i else None | _ \<Rightarrow> None)"

definition non_empty_str :: "pyval \<Rightarrow> string option" where
  "non_empty_str v = (case v of VStr s \<Rightarrow> if s \<noteq> [] then Some s else None | _ \<Rightarrow> None)"

definition array_spec_of :: "pyval \<Rightarrow> array_spec result" where
  "array_spec_of v =
     (case v of
        VNone \<Rightarrow> Ok default_array
      | VDict d \<Rightarrow>
          (case positive_count (vget_or ''rows'' (VInt 1) d) of
             None \<Rightarrow> Err (ValueError ''rows must be a positive integer'')
           | Some rows \<Rightarrow>
          (case positive_count (vget_or ''cols'' (VInt 1) d) of
             None \<Rightarrow> Err (ValueError ''cols must be a positive integer'')
           | Some cols \<Rightarrow>
          (case non_empty_str (vget_or ''pattern'' (VStr ''iso'') d) of
             None \<Rightarrow> Err (ValueError ''pattern must be a non-empty string'')
           | Some pat \<Rightarrow>
          (case non_empty_str (vget_or ''polarization'' (VStr ''V'') d) of
             None \<Rightarrow> Err (ValueError ''polarization must be a non-empty string'')
           | Some pol \<Rightarrow>
               Ok \<lparr>ar_rows = rows, ar_cols = cols, ar_pattern = pat, ar_polarization = pol\<rparr>))))
      | _ \<Rightarrow> Err (ValueError ''must be an object''))"

text \<open>\<open>float(v)\<close> of an arbitrary value.\<close>

definition to_float :: "pyval \<Rightarrow> pyfloat result" where
  "to_float v =
     (case v of
        VFloat x \<Rightarrow> Ok x
      | VInt i \<Rightarrow> float_of_int i
      | VBool b \<Rightarrow> Ok (Fin (of_bool b))
      | VStr s \<Rightarrow> (case parse_float s of None \<Rightarrow> Err (ValueError ''could not convert string to float'') | Some x \<Rightarrow> Ok x)
      | _ \<Rightarrow> Err (TypeError ''float() argument must be a string or a real number''))"

definition finite_vector :: "pyval \<Rightarrow> vec3 result" where
  "finite_vector v =
     (case v of
        VList [a, b, c] \<Rightarrow>
          bindR (to_float a) (\<lambda>x. bindR (to_float b) (\<lambda>y. bindR (to_float c) (\<lambda>z.
            if is_finite x \<and> is_finite y \<and> is_finite z then Ok (x, y, z)
            else Err (ValueError ''values must be finite''))))
      | _ \<Rightarrow> Err (ValueError ''must be a three-number array''))"

section \<open>Nodes\<close>

record scenario_node =
  sn_motion :: motion_spec
  sn_tx :: array_spec
  sn_rx :: array_spec

definition route_bounds :: "pyval \<Rightarrow> (pyfloat \<times> pyfloat) option result" where
  "route_bounds v =
     (case v of
        VNone \<Rightarrow> Ok None
      | VList [a, b] \<Rightarrow>
          bindR (to_float a) (\<lambda>low. bindR (to_float b) (\<lambda>high.
            if \<not> (is_finite low \<and> is_finite high) \<or> fle high low
            then Err (ValueError ''route_x_m must have finite min < max'') else Ok (Some (low, high))))
      | _ \<Rightarrow> Err (ValueError ''route_x_m must be [min,max]''))"

definition as_str :: "(pyval \<Rightarrow> string) \<Rightarrow> pyval \<Rightarrow> string" where
  "as_str repr_of v = (case v of VStr s \<Rightarrow> s | _ \<Rightarrow> repr_of v)"

definition walking_speed :: "pyval \<Rightarrow> pyfloat result" where
  "walking_speed v =
     (if \<not> is_num v \<or> is_bool v then Err (ValueError ''speed_mps must accompany route_m'')
      else bindR (to_float v) (\<lambda>s.
        if \<not> is_finite s \<or> fle s (Fin 0) then Err (ValueError ''speed_mps must be positive'') else Ok s))"

text \<open>The walked route: its points and its speed; none without \<open>route_m\<close>.\<close>

definition walk_of :: "string \<Rightarrow> (pyfloat \<times> pyfloat) option \<Rightarrow> pydict \<Rightarrow> (vec3 list \<times> pyfloat) result" where
  "walk_of route_mode x_bounds d =
     (case vget ''route_m'' d of
        VNone \<Rightarrow> Ok ([], Fin 0)
      | VList raw \<Rightarrow>
          if length raw < 2 then Err (ValueError ''route_m needs at least two points'')
          else bindR (mapR finite_vector raw) (\<lambda>waypoints.
            if route_mode \<noteq> ''pingpong'' \<and> route_mode \<noteq> ''loop''
            then Err (ValueError ''route_mode must be pingpong or loop'')
            else bindR (walking_speed (vget ''speed_mps'' d)) (\<lambda>speed.
              if x_bounds \<noteq> None then Err (ValueError ''cannot set both route_m and route_x_m'')
              else Ok (waypoints, speed)))
      | _ \<Rightarrow> Err (ValueError ''route_m needs at least two points''))"

definition start_of :: "vec3 list \<Rightarrow> pydict \<Rightarrow> vec3 result" where
  "start_of waypoints d =
     (case (vget ''start_m'' d, waypoints) of
        (VNone, w # _) \<Rightarrow> Ok w
      | (v, _) \<Rightarrow> finite_vector v)"

definition node_of :: "(pyval \<Rightarrow> string) \<Rightarrow> string \<times> pyval \<Rightarrow> (string \<times> scenario_node) result" where
  "node_of repr_of item =
     (case item of
        (node_id, VDict d) \<Rightarrow>
          if node_id = [] then Err (ValueError ''scenario node ids must map to objects'')
          else
            bindR (array_spec_of (vget_or ''tx_array'' (vget ''array'' d) d)) (\<lambda>tx.
            bindR (array_spec_of (vget_or ''rx_array'' (vget ''array'' d) d)) (\<lambda>rx.
            bindR (route_bounds (vget ''route_x_m'' d)) (\<lambda>x_bounds.
            let route_mode = as_str repr_of (vget_or ''route_mode'' (VStr ''pingpong'') d)
            in bindR (walk_of route_mode x_bounds d) (\<lambda>(waypoints, speed).
               bindR (start_of waypoints d) (\<lambda>start.
               bindR (finite_vector (vget_or ''velocity_mps'' (VList [VFloat (Fin 0), VFloat (Fin 0), VFloat (Fin 0)]) d)) (\<lambda>velocity.
                 Ok (node_id,
                   \<lparr>sn_motion = \<lparr>mt_start = start, mt_velocity = velocity, mt_x_bounds = x_bounds,
                                  mt_mobility = as_str repr_of (vget_or ''mobility'' (VStr ''static'') d),
                                  mt_waypoints = waypoints, mt_route_mode = route_mode, mt_speed_mps = speed\<rparr>,
                     sn_tx = tx, sn_rx = rx\<rparr>)))))))
      | _ \<Rightarrow> Err (ValueError ''scenario node ids must map to objects''))"

section \<open>Links\<close>

record scenario_link =
  sl_source :: string
  sl_destination :: string
  sl_direction :: string
  sl_model :: string

text \<open>Looking a value up in the node dict: a list or an object is not hashable.\<close>

definition node_ref :: "(string \<times> scenario_node) list \<Rightarrow> pyval \<Rightarrow> (string \<times> scenario_node) option result" where
  "node_ref nodes v =
     (case v of
        VList _ \<Rightarrow> Err (TypeError ''unhashable type'')
      | VDict _ \<Rightarrow> Err (TypeError ''unhashable type'')
      | VStr s \<Rightarrow> Ok (map_option (Pair s) (map_of nodes s))
      | _ \<Rightarrow> Ok None)"

definition direction_of :: "pyval \<Rightarrow> string option" where
  "direction_of v =
     (case v of VStr s \<Rightarrow> if s \<in> {''downlink'', ''uplink'', ''crosstalk''} then Some s else None | _ \<Rightarrow> None)"

definition lane_count :: "scenario_node \<Rightarrow> scenario_node \<Rightarrow> int" where
  "lane_count source destination = antenna_count (sn_tx source) * antenna_count (sn_rx destination)"

definition link_key_of :: "scenario_link \<Rightarrow> string \<times> string \<times> string" where
  "link_key_of l = (sl_source l, sl_destination l, sl_model l)"

definition add_link ::
  "(string \<times> scenario_node) list \<Rightarrow> pyval \<Rightarrow> scenario_link list \<Rightarrow> scenario_link list result" where
  "add_link nodes v links =
     (case v of
        VDict d \<Rightarrow>
          bindR (node_ref nodes (vget ''from'' d)) (\<lambda>s.
          (case s of
             None \<Rightarrow> Err (ValueError ''references an unknown node'')
           | Some (source, src) \<Rightarrow>
          bindR (node_ref nodes (vget ''to'' d)) (\<lambda>t.
          (case t of
             None \<Rightarrow> Err (ValueError ''references an unknown node'')
           | Some (destination, dst) \<Rightarrow>
          (case direction_of (vget ''direction'' d) of
             None \<Rightarrow> Err (ValueError ''direction is invalid'')
           | Some direction \<Rightarrow>
          (case non_empty_str (vget_or ''model'' (VStr ''sionna_rt'') d) of
             None \<Rightarrow> Err (ValueError ''model must be a non-empty string'')
           | Some model \<Rightarrow>
               let l = \<lparr>sl_source = source, sl_destination = destination, sl_direction = direction, sl_model = model\<rparr>
               in if link_key_of l \<in> set (map link_key_of links) then Err (ValueError ''duplicates'')
                  else if lane_count src dst > 16 then Err (ValueError ''broker limit is 16'')
                  else Ok (links @ [l])))))))
      | _ \<Rightarrow> Err (ValueError ''must be an object''))"

section \<open>Solver settings\<close>

definition SOLVER_INTEGER_KEYS :: "(string \<times> string) list" where
  "SOLVER_INTEGER_KEYS =
     [(''max_depth'', ''max_depth''), (''samples_per_source'', ''samples_per_src''), (''seed'', ''seed''),
      (''path_polylines'', ''path_polylines'')]"

definition SOLVER_PROPAGATION_KEYS :: "string list" where
  "SOLVER_PROPAGATION_KEYS =
     [''los'', ''specular_reflection'', ''diffuse_reflection'', ''refraction'', ''diffraction'']"

definition solver_integer :: "pydict \<Rightarrow> string \<times> string \<Rightarrow> pydict \<Rightarrow> pydict result" where
  "solver_integer raw kd settings =
     (case map_of raw (fst kd) of
        None \<Rightarrow> Ok settings
      | Some (VInt i) \<Rightarrow>
          if i < 0 then Err (ValueError ''must be a non-negative integer'')
          else if fst kd \<noteq> ''path_polylines'' \<and> i \<le> 0 then Err (ValueError ''must be positive'')
          else Ok (AList.update (snd kd) (VInt i) settings)
      | Some _ \<Rightarrow> Err (ValueError ''must be a non-negative integer''))"

definition solver_mechanism :: "string \<times> pyval \<Rightarrow> pydict \<Rightarrow> pydict result" where
  "solver_mechanism kv settings =
     (if fst kv \<notin> set SOLVER_PROPAGATION_KEYS then Err (ValueError ''unknown solver.propagation key'')
      else case snd kv of
             VBool b \<Rightarrow> Ok (AList.update (fst kv) (VBool b) settings)
           | _ \<Rightarrow> Err (ValueError ''must be true or false''))"

definition solver_propagation :: "pyval \<Rightarrow> pydict \<Rightarrow> pydict result" where
  "solver_propagation v settings =
     (case v of
        VNone \<Rightarrow> Ok settings
      | VDict p \<Rightarrow> foldR solver_mechanism p settings
      | _ \<Rightarrow> Err (ValueError ''solver.propagation must be an object''))"

definition solver_settings :: "pyval \<Rightarrow> pydict option result" where
  "solver_settings v =
     (case v of
        VNone \<Rightarrow> Ok None
      | VDict raw \<Rightarrow>
          bindR (foldR (solver_integer raw) SOLVER_INTEGER_KEYS []) (\<lambda>settings.
          bindR (solver_propagation (vget ''propagation'' raw) settings) (\<lambda>settings.
            if list_ex (\<lambda>k. k \<notin> set (map fst SOLVER_INTEGER_KEYS) \<and> k \<noteq> ''propagation'') (map fst raw)
            then Err (ValueError ''unknown solver keys'') else Ok (Some settings)))
      | _ \<Rightarrow> Err (ValueError ''scenario solver must be an object''))"

section \<open>The definition\<close>

record scenario_def =
  sd_name :: string
  sd_nodes :: "(string \<times> scenario_node) list"
  sd_links :: "scenario_link list"
  sd_scene :: "string option"
  sd_simple_road :: "bool option"
  sd_solver :: "pydict option"

definition opt_scene :: "pyval \<Rightarrow> string option result" where
  "opt_scene v =
     (case v of
        VNone \<Rightarrow> Ok None
      | _ \<Rightarrow> (case non_empty_str v of None \<Rightarrow> Err (ValueError ''scenario scene must be a non-empty string'')
               | Some s \<Rightarrow> Ok (Some s)))"

definition opt_bool :: "pyval \<Rightarrow> bool option result" where
  "opt_bool v =
     (case v of VNone \<Rightarrow> Ok None | VBool b \<Rightarrow> Ok (Some b)
      | _ \<Rightarrow> Err (ValueError ''scenario simple_road must be true or false''))"

definition scenario_of_root :: "(pyval \<Rightarrow> string) \<Rightarrow> string \<Rightarrow> pydict \<Rightarrow> scenario_def result" where
  "scenario_of_root repr_of stem rootv =
     (case (vget ''nodes'' rootv, vget ''links'' rootv) of
        (VDict raw_nodes, VList raw_links) \<Rightarrow>
          if raw_nodes = [] then Err (ValueError ''scenario config requires a non-empty nodes object'')
          else if raw_links = [] then Err (ValueError ''scenario config requires a non-empty links array'')
          else
            bindR (mapR (node_of repr_of) raw_nodes) (\<lambda>nodes.
            bindR (foldR (add_link nodes) raw_links []) (\<lambda>links.
            (case non_empty_str (vget_or ''name'' (VStr stem) rootv) of
               None \<Rightarrow> Err (ValueError ''scenario name must be a non-empty string'')
             | Some name \<Rightarrow>
            bindR (opt_scene (vget ''scene'' rootv)) (\<lambda>scene.
            bindR (opt_bool (vget ''simple_road'' rootv)) (\<lambda>road.
            bindR (solver_settings (vget ''solver'' rootv)) (\<lambda>solver.
              Ok \<lparr>sd_name = name, sd_nodes = nodes, sd_links = links, sd_scene = scene, sd_simple_road = road,
                  sd_solver = solver\<rparr>))))))
      | (VDict raw_nodes, _) \<Rightarrow>
          if raw_nodes = [] then Err (ValueError ''scenario config requires a non-empty nodes object'')
          else Err (ValueError ''scenario config requires a non-empty links array'')
      | _ \<Rightarrow> Err (ValueError ''scenario config requires a non-empty nodes object''))"

text \<open>The file: unreadable (\<open>None\<close>), or a text.\<close>

definition load_scenario_config ::
  "(string \<Rightarrow> pyval option) \<Rightarrow> (pyval \<Rightarrow> string) \<Rightarrow> string \<Rightarrow> string option \<Rightarrow> scenario_def result" where
  "load_scenario_config loads repr_of stem file =
     (case Option.bind file loads of
        None \<Rightarrow> Err (ValueError ''cannot load scenario config'')
      | Some (VDict rootv) \<Rightarrow> scenario_of_root repr_of stem rootv
      | Some _ \<Rightarrow> Err (ValueError ''scenario config root must be an object''))"

section \<open>What a loaded scenario is\<close>

definition finite_vec :: "vec3 \<Rightarrow> bool" where
  "finite_vec v \<longleftrightarrow> is_finite (fst v) \<and> is_finite (fst (snd v)) \<and> is_finite (snd (snd v))"

definition array_wf :: "array_spec \<Rightarrow> bool" where
  "array_wf a \<longleftrightarrow> 0 < ar_rows a \<and> 0 < ar_cols a \<and> ar_pattern a \<noteq> [] \<and> ar_polarization a \<noteq> []"

definition motion_wf :: "motion_spec \<Rightarrow> bool" where
  "motion_wf m \<longleftrightarrow>
     finite_vec (mt_start m) \<and> finite_vec (mt_velocity m)
     \<and> (case mt_x_bounds m of None \<Rightarrow> True
        | Some (low, high) \<Rightarrow> is_finite low \<and> is_finite high \<and> flt low high \<and> mt_waypoints m = [])
     \<and> (mt_waypoints m = []
        \<or> 2 \<le> length (mt_waypoints m) \<and> list_all finite_vec (mt_waypoints m)
          \<and> is_finite (mt_speed_mps m) \<and> flt (Fin 0) (mt_speed_mps m)
          \<and> mt_route_mode m \<in> {''pingpong'', ''loop''})"

definition node_wf :: "string \<times> scenario_node \<Rightarrow> bool" where
  "node_wf n \<longleftrightarrow> fst n \<noteq> [] \<and> motion_wf (sn_motion (snd n)) \<and> array_wf (sn_tx (snd n)) \<and> array_wf (sn_rx (snd n))"

definition link_wf :: "(string \<times> scenario_node) list \<Rightarrow> scenario_link \<Rightarrow> bool" where
  "link_wf nodes l \<longleftrightarrow>
     sl_direction l \<in> {''downlink'', ''uplink'', ''crosstalk''} \<and> sl_model l \<noteq> []
     \<and> (case (map_of nodes (sl_source l), map_of nodes (sl_destination l)) of
          (Some s, Some t) \<Rightarrow> lane_count s t \<le> 16
        | _ \<Rightarrow> False)"

definition setting_wf :: "string \<times> pyval \<Rightarrow> bool" where
  "setting_wf kv \<longleftrightarrow>
     (case snd kv of
        VInt i \<Rightarrow> fst kv \<in> set (map snd SOLVER_INTEGER_KEYS) \<and> (if fst kv = ''path_polylines'' then 0 \<le> i else 0 < i)
      | VBool _ \<Rightarrow> fst kv \<in> set SOLVER_PROPAGATION_KEYS
      | _ \<Rightarrow> False)"

definition scenario_wf :: "scenario_def \<Rightarrow> bool" where
  "scenario_wf sd \<longleftrightarrow>
     sd_name sd \<noteq> [] \<and> sd_nodes sd \<noteq> [] \<and> list_all node_wf (sd_nodes sd)
     \<and> sd_links sd \<noteq> [] \<and> list_all (link_wf (sd_nodes sd)) (sd_links sd) \<and> distinct (map link_key_of (sd_links sd))
     \<and> sd_scene sd \<noteq> Some []
     \<and> (case sd_solver sd of None \<Rightarrow> True | Some settings \<Rightarrow> list_all setting_wf settings)"

lemma positive_count_pos: "positive_count v = Some i \<Longrightarrow> 0 < i"
  by (auto simp: positive_count_def split: pyval.splits if_splits)

lemma non_empty_str_ok: "non_empty_str v = Some s \<Longrightarrow> s \<noteq> []"
  by (auto simp: non_empty_str_def split: pyval.splits if_splits)

lemma array_spec_of_wf: "array_spec_of v = Ok a \<Longrightarrow> array_wf a"
  by (auto simp: array_spec_of_def array_wf_def default_array_def dest: positive_count_pos non_empty_str_ok
      split: pyval.splits option.splits)

lemma finite_vector_wf: "finite_vector v = Ok x \<Longrightarrow> finite_vec x"
  by (auto simp: finite_vector_def finite_vec_def result_simps split: pyval.splits list.splits if_splits)

lemma route_bounds_wf:
  "route_bounds v = Ok (Some (low, high)) \<Longrightarrow> is_finite low \<and> is_finite high \<and> flt low high"
  by (auto simp: route_bounds_def result_simps is_finite_conv not_le split: pyval.splits list.splits if_splits)

lemma walking_speed_wf: "walking_speed v = Ok s \<Longrightarrow> is_finite s \<and> flt (Fin 0) s"
  by (auto simp: walking_speed_def result_simps is_finite_conv not_le split: if_splits)

lemma mapR_all: "mapR f xs = Ok ys \<Longrightarrow> (\<And>x y. x \<in> set xs \<Longrightarrow> f x = Ok y \<Longrightarrow> P y) \<Longrightarrow> list_all P ys"
  by (drule mapR_Inr) (fastforce simp: list_all_iff list_all2_conv_all_nth in_set_conv_nth)

lemma walk_of_wf:
  assumes "walk_of route_mode x_bounds d = Ok (waypoints, speed)"
  shows "waypoints = [] \<or> x_bounds = None \<and> 2 \<le> length waypoints \<and> list_all finite_vec waypoints \<and> is_finite speed
    \<and> flt (Fin 0) speed \<and> route_mode \<in> {''pingpong'', ''loop''}"
proof (cases "vget ''route_m'' d")
  case VNone
  then show ?thesis using assms by (simp add: walk_of_def)
next
  case (VList raw)
  then have len: "\<not> length raw < 2" and pts: "mapR finite_vector raw = Ok waypoints"
    and mode: "route_mode = ''pingpong'' \<or> route_mode = ''loop''"
    and sp: "walking_speed (vget ''speed_mps'' d) = Ok speed"
    using assms by (auto simp: walk_of_def result_simps split: if_splits)
  have xb: "x_bounds = None"
    using assms len pts mode sp VList by (cases x_bounds) (simp_all add: walk_of_def split: if_splits)
  have "list_all finite_vec waypoints" by (rule mapR_all [OF pts finite_vector_wf])
  then show ?thesis using len mapR_length [OF pts] mode walking_speed_wf [OF sp] xb by simp
qed (use assms in \<open>auto simp: walk_of_def\<close>)

lemma start_of_wf: "start_of waypoints d = Ok v \<Longrightarrow> list_all finite_vec waypoints \<Longrightarrow> finite_vec v"
  by (cases waypoints) (auto simp: start_of_def dest: finite_vector_wf split: pyval.splits)

lemma node_of_wf:
  assumes "node_of repr_of item = Ok n" shows "node_wf n"
proof -
  obtain node_id d where item: "item = (node_id, VDict d)" "node_id \<noteq> []"
    using assms by (cases item) (auto simp: node_of_def split: pyval.splits if_splits)
  define mode where "mode = as_str repr_of (vget_or ''route_mode'' (VStr ''pingpong'') d)"
  obtain tx rx xb w sp st ve where
    p: "array_spec_of (vget_or ''tx_array'' (vget ''array'' d) d) = Ok tx"
      "array_spec_of (vget_or ''rx_array'' (vget ''array'' d) d) = Ok rx"
      "route_bounds (vget ''route_x_m'' d) = Ok xb" "walk_of mode xb d = Ok (w, sp)" "start_of w d = Ok st"
      "finite_vector (vget_or ''velocity_mps'' (VList [VFloat (Fin 0), VFloat (Fin 0), VFloat (Fin 0)]) d) = Ok ve"
    and n: "n = (node_id, \<lparr>sn_motion = \<lparr>mt_start = st, mt_velocity = ve, mt_x_bounds = xb,
                                  mt_mobility = as_str repr_of (vget_or ''mobility'' (VStr ''static'') d),
                                  mt_waypoints = w, mt_route_mode = mode, mt_speed_mps = sp\<rparr>,
                     sn_tx = tx, sn_rx = rx\<rparr>)"
    using assms item by (auto simp: node_of_def result_simps Let_def mode_def split: prod.splits)
  have w: "list_all finite_vec w" using walk_of_wf [OF p(4)] by auto
  show ?thesis
    using item(2) walk_of_wf [OF p(4)] start_of_wf [OF p(5) w] finite_vector_wf [OF p(6)] array_spec_of_wf [OF p(1)]
      array_spec_of_wf [OF p(2)] route_bounds_wf [of "vget ''route_x_m'' d"] p(3)
    by (auto simp: n node_wf_def motion_wf_def split: option.split)
qed

lemma node_ref_some: "node_ref nodes v = Ok (Some (s, n)) \<Longrightarrow> map_of nodes s = Some n"
  by (auto simp: node_ref_def split: pyval.splits)

lemma direction_of_some: "direction_of v = Some s \<Longrightarrow> s \<in> {''downlink'', ''uplink'', ''crosstalk''}"
  by (auto simp: direction_of_def split: pyval.splits if_splits)

lemma add_link_wf:
  assumes "add_link nodes v links = Ok links'"
  shows "\<exists>l. links' = links @ [l] \<and> link_wf nodes l \<and> link_key_of l \<notin> set (map link_key_of links)"
proof -
  obtain d where v: "v = VDict d" using assms by (cases v) (auto simp: add_link_def)
  obtain s0 where s0: "node_ref nodes (vget ''from'' d) = Ok s0" using assms by (auto simp: v add_link_def result_simps)
  then obtain source src where s: "node_ref nodes (vget ''from'' d) = Ok (Some (source, src))"
    using assms by (cases s0) (auto simp: v add_link_def)
  obtain t0 where t0: "node_ref nodes (vget ''to'' d) = Ok t0" using assms s by (auto simp: v add_link_def result_simps)
  then obtain destination dst where t: "node_ref nodes (vget ''to'' d) = Ok (Some (destination, dst))"
    using assms s by (cases t0) (auto simp: v add_link_def)
  obtain direction where dr: "direction_of (vget ''direction'' d) = Some direction"
    using assms s t by (auto simp: v add_link_def split: option.splits)
  obtain model where m: "non_empty_str (vget_or ''model'' (VStr ''sionna_rt'') d) = Some model"
    using assms s t dr by (auto simp: v add_link_def split: option.splits)
  define l where "l = \<lparr>sl_source = source, sl_destination = destination, sl_direction = direction, sl_model = model\<rparr>"
  have "links' = links @ [l]" "link_key_of l \<notin> set (map link_key_of links)" "\<not> lane_count src dst > 16"
    using assms s t dr m unfolding v by (simp_all add: add_link_def Let_def flip: l_def split: if_splits)
  then show ?thesis
    using node_ref_some [OF s] node_ref_some [OF t] direction_of_some [OF dr] non_empty_str_ok [OF m]
    by (auto simp: link_wf_def l_def)
qed

lemma add_links_wf:
  assumes "foldR (add_link nodes) vs links = Ok links'"
    and "list_all (link_wf nodes) links" and "distinct (map link_key_of links)"
  shows "list_all (link_wf nodes) links' \<and> distinct (map link_key_of links') \<and> length links' = length links + length vs"
  using assms
proof (induction vs arbitrary: links)
  case Nil
  then show ?case by simp
next
  case (Cons v vs)
  from Cons.prems(1) obtain l where a: "add_link nodes v links = Ok l" "foldR (add_link nodes) vs l = Ok links'"
    by (auto simp: result_simps)
  from add_link_wf [OF a(1)] Cons.IH [OF a(2)] Cons.prems(2,3) show ?case by auto
qed

lemma update_all: "list_all P d \<Longrightarrow> P (k, v) \<Longrightarrow> list_all P (AList.update k v d)"
  by (induction d) auto

lemma solver_settings_wf:
  assumes "solver_settings v = Ok (Some settings)" shows "list_all setting_wf settings"
proof -
  obtain raw s1 where v: "v = VDict raw" "foldR (solver_integer raw) SOLVER_INTEGER_KEYS [] = Ok s1"
    "solver_propagation (vget ''propagation'' raw) s1 = Ok settings"
    using assms by (auto simp: solver_settings_def result_simps split: pyval.splits if_splits)
  have 1: "list_all setting_wf s1"
  proof (rule foldR_invariant [where P = "list_all setting_wf", OF v(2)])
    fix kd acc acc'
    assume "kd \<in> set SOLVER_INTEGER_KEYS" "list_all setting_wf acc" "solver_integer raw kd acc = Ok acc'"
    then show "list_all setting_wf acc'"
      by (auto simp: solver_integer_def setting_wf_def SOLVER_INTEGER_KEYS_def intro!: update_all
          split: option.splits pyval.splits if_splits)
  qed simp
  have "list_all setting_wf settings" if "foldR solver_mechanism p s1 = Ok settings" for p
  proof (rule foldR_invariant [where P = "list_all setting_wf", OF that 1])
    fix kv acc acc'
    assume "list_all setting_wf acc" "solver_mechanism kv acc = Ok acc'"
    then show "list_all setting_wf acc'"
      by (auto simp: solver_mechanism_def setting_wf_def intro!: update_all split: pyval.splits if_splits)
  qed
  then show ?thesis using v(3) 1 by (auto simp: solver_propagation_def split: pyval.splits)
qed

lemma scenario_of_root_wf:
  assumes "scenario_of_root repr_of stem rootv = Ok sd" shows "scenario_wf sd"
proof -
  obtain raw_nodes raw_links nodes links name scene road solver where
    p: "raw_nodes \<noteq> []" "raw_links \<noteq> []" "mapR (node_of repr_of) raw_nodes = Ok nodes"
      "foldR (add_link nodes) raw_links [] = Ok links" "non_empty_str (vget_or ''name'' (VStr stem) rootv) = Some name"
      "opt_scene (vget ''scene'' rootv) = Ok scene" "solver_settings (vget ''solver'' rootv) = Ok solver"
    and sd: "sd = \<lparr>sd_name = name, sd_nodes = nodes, sd_links = links, sd_scene = scene, sd_simple_road = road,
                  sd_solver = solver\<rparr>"
    using assms by (auto simp: scenario_of_root_def result_simps split: pyval.splits if_splits option.splits)
  have "list_all node_wf nodes" by (rule mapR_all [OF p(3) node_of_wf])
  moreover have "nodes \<noteq> []" using mapR_length [OF p(3)] p(1) by auto
  moreover have "list_all (link_wf nodes) links \<and> distinct (map link_key_of links) \<and> links \<noteq> []"
    using add_links_wf [OF p(4)] p(2) by auto
  moreover have "scene \<noteq> Some []"
    using p(6) by (auto simp: opt_scene_def dest: non_empty_str_ok split: pyval.splits option.splits)
  ultimately show ?thesis
    using p(5,7) solver_settings_wf by (auto simp: sd scenario_wf_def dest: non_empty_str_ok split: option.split)
qed

lemma load_scenario_wf: "load_scenario_config loads repr_of stem file = Ok sd \<Longrightarrow> scenario_wf sd"
  by (auto simp: load_scenario_config_def scenario_of_root_wf split: option.splits pyval.splits)

text \<open>C19. Whatever the configuration file holds, a scenario the loader accepts is well formed: it has nodes
  with finite motions and real antenna arrays, its links join known nodes, are distinct, and have at
  most the sixteen lanes the broker takes, and its solver settings have their names and types.\<close>

theorem loaded_scenario_wf:
  "case load_scenario_config loads repr_of stem file of Inl _ \<Rightarrow> True | Inr sd \<Rightarrow> scenario_wf sd"
  by (simp add: load_scenario_wf split: sum.split)

end
