(* ===== verification/PositionFeed.thy ===== *)
theory PositionFeed
  imports Scenario
begin

text \<open>
  The live position feed of the bridge, class \<open>ExternalPositionSource\<close> of
  \<^verbatim>\<open>apps/sionna_bridge/run_bridge.py\<close>: frames are parsed and validated, a poll drains the socket and
  keeps the newest valid frame, and positions are resolved per node from the feed or from the scripted
  route. The socket is the list of frames a poll finds; \<open>loads\<close> stands for \<open>json.loads\<close> on bytes.
\<close>

section \<open>State\<close>

type_synonym live_nodes = "(string \<times> (vec3 \<times> vec3 option)) list"

record position_sample =
  ps_received :: pyfloat
  ps_t_unix_ms :: "int option"
  ps_nodes :: live_nodes

record position_source =
  px_offset :: vec3
  px_timeout_s :: pyfloat
  px_known_nodes :: "string list"
  px_messages_received :: nat
  px_messages_invalid :: nat
  px_messages_dropped :: nat
  px_ignored_nodes :: "string list"
  px_warned :: "string list"
  px_last_sample :: "position_sample option"
  px_last_error :: "string option"

definition new_source :: "vec3 \<Rightarrow> pyfloat \<Rightarrow> string list \<Rightarrow> position_source" where
  "new_source offset timeout known =
     \<lparr>px_offset = offset, px_timeout_s = timeout, px_known_nodes = known, px_messages_received = 0,
      px_messages_invalid = 0, px_messages_dropped = 0, px_ignored_nodes = [], px_warned = [],
      px_last_sample = None, px_last_error = None\<rparr>"

section \<open>Parsing a frame\<close>

definition node_vectors :: "pydict \<Rightarrow> (vec3 \<times> vec3 option) result" where
  "node_vectors d =
     bindR (finite_vector (vget ''position_m'' d)) (\<lambda>position.
       (case vget ''velocity_mps'' d of
          VNone \<Rightarrow> Ok (position, None)
        | v \<Rightarrow> bindR (finite_vector v) (\<lambda>velocity. Ok (position, Some velocity))))"

definition ignore_node :: "string \<Rightarrow> position_source \<Rightarrow> position_source" where
  "ignore_node n s =
     (if n \<in> set (px_ignored_nodes s) then s
      else s\<lparr>px_ignored_nodes := px_ignored_nodes s @ [n], px_warned := px_warned s @ [n]\<rparr>)"

definition note_error :: "string \<Rightarrow> position_source \<Rightarrow> position_source" where
  "note_error e s = s\<lparr>px_last_error := Some e\<rparr>"

text \<open>The loop over the nodes of a frame; \<open>None\<close> is a rejected frame. Only \<open>ValueError\<close> and
  \<open>TypeError\<close> are caught.\<close>

fun parse_nodes ::
  "(string \<times> pyval) list \<Rightarrow> live_nodes \<Rightarrow> position_source \<Rightarrow> (live_nodes option \<times> position_source) result" where
  "parse_nodes [] acc s = Ok (Some acc, s)"
| "parse_nodes ((n, item) # q) acc s =
     (if n \<notin> set (px_known_nodes s) then parse_nodes q acc (ignore_node n s)
      else case item of
        VDict d \<Rightarrow>
          (case node_vectors d of
             Inl (ValueError e) \<Rightarrow> Ok (None, note_error e s)
           | Inl (TypeError e) \<Rightarrow> Ok (None, note_error e s)
           | Inl e \<Rightarrow> Err e
           | Inr pv \<Rightarrow> parse_nodes q (acc @ [(n, pv)]) s)
      | _ \<Rightarrow> Ok (None, note_error ''must be an object'' s))"

definition stamp_of :: "pyval \<Rightarrow> int option result" where
  "stamp_of v =
     (case v of
        VInt i \<Rightarrow> Ok (Some i)
      | VBool b \<Rightarrow> Ok (Some (of_bool b))
      | VFloat x \<Rightarrow> bindR (ftrunc x) (\<lambda>i. Ok (Some i))
      | _ \<Rightarrow> Ok None)"

definition parse_frame ::
  "(bytes \<Rightarrow> pyval option) \<Rightarrow> bytes \<Rightarrow> pyfloat \<Rightarrow> position_source \<Rightarrow> (position_sample option \<times> position_source) result"
  where
  "parse_frame loads frame now_s s =
     (case loads frame of
        None \<Rightarrow> Ok (None, note_error ''not JSON'' s)
      | Some (VDict d) \<Rightarrow>
          if \<not> py_eq (vget ''event'' d) (VStr ''positions'') then Ok (None, note_error ''not a positions event'' s)
          else if \<not> py_eq (vget_or ''frame'' (VStr ''arena'') d) (VStr ''arena'')
          then Ok (None, note_error ''unexpected frame'' s)
          else (case vget ''nodes'' d of
                  VDict raw \<Rightarrow>
                    bindR (parse_nodes raw [] s) (\<lambda>(nodes, s).
                      (case nodes of
                         None \<Rightarrow> Ok (None, s)
                       | Some ns \<Rightarrow>
                           bindR (stamp_of (vget ''t_unix_ms'' d)) (\<lambda>t.
                             Ok (Some \<lparr>ps_received = now_s, ps_t_unix_ms = t, ps_nodes = ns\<rparr>, s))))
                | _ \<Rightarrow> Ok (None, note_error ''nodes must be an object'' s))
      | Some _ \<Rightarrow> Ok (None, note_error ''not a positions event'' s))"

section \<open>Polling\<close>

fun drain_frames ::
  "(bytes \<Rightarrow> pyval option) \<Rightarrow> pyfloat \<Rightarrow> bytes list \<Rightarrow> position_sample option \<Rightarrow> position_source
     \<Rightarrow> (position_sample option \<times> position_source) result" where
  "drain_frames loads now_s [] newest s = Ok (newest, s)"
| "drain_frames loads now_s (frame # q) newest s =
     bindR (parse_frame loads frame now_s (s\<lparr>px_messages_received := px_messages_received s + 1\<rparr>)) (\<lambda>(sample, s).
       (case sample of
          None \<Rightarrow> drain_frames loads now_s q newest (s\<lparr>px_messages_invalid := px_messages_invalid s + 1\<rparr>)
        | Some p \<Rightarrow>
            drain_frames loads now_s q (Some p)
              (if newest \<noteq> None then s\<lparr>px_messages_dropped := px_messages_dropped s + 1\<rparr> else s)))"

definition poll ::
  "(bytes \<Rightarrow> pyval option) \<Rightarrow> pyfloat \<Rightarrow> bytes list \<Rightarrow> position_source
     \<Rightarrow> (position_sample option \<times> position_source) result" where
  "poll loads now_s frames s =
     bindR (drain_frames loads now_s frames None s) (\<lambda>(newest, s).
       Ok (newest, case newest of None \<Rightarrow> s | Some p \<Rightarrow> s\<lparr>px_last_sample := Some p\<rparr>))"

definition age_ms :: "pyfloat \<Rightarrow> position_source \<Rightarrow> pyfloat option" where
  "age_ms now_s s =
     (case px_last_sample s of None \<Rightarrow> None | Some p \<Rightarrow> Some (fmul (fsub now_s (ps_received p)) (Fin 1000)))"

definition stale_feed :: "pyfloat \<Rightarrow> position_source \<Rightarrow> bool" where
  "stale_feed now_s s =
     (case age_ms now_s s of None \<Rightarrow> False | Some age \<Rightarrow> flt (fmul (px_timeout_s s) (Fin 1000)) age)"

section \<open>Where every node is\<close>

datatype position_origin = External | Scripted

record placed =
  pc_position :: vec3
  pc_velocity :: vec3
  pc_origin :: position_origin

definition live_of :: "position_source \<Rightarrow> live_nodes" where
  "live_of s = (case px_last_sample s of None \<Rightarrow> [] | Some p \<Rightarrow> ps_nodes p)"

definition place :: "distance \<Rightarrow> pyfloat \<Rightarrow> position_source \<Rightarrow> string \<times> motion_spec \<Rightarrow> (string \<times> placed) result" where
  "place d elapsed s nm =
     (case map_of (live_of s) (fst nm) of
        Some (position, velocity) \<Rightarrow>
          Ok (fst nm, \<lparr>pc_position = vmap2 fadd position (px_offset s),
                      pc_velocity = (case velocity of None \<Rightarrow> (Fin 0, Fin 0, Fin 0) | Some v \<Rightarrow> v),
                      pc_origin = External\<rparr>)
      | None \<Rightarrow>
          bindR (position_at d (snd nm) elapsed) (\<lambda>position. bindR (velocity_at d (snd nm) elapsed) (\<lambda>velocity.
            Ok (fst nm, \<lparr>pc_position = position, pc_velocity = velocity, pc_origin = Scripted\<rparr>))))"

definition resolve ::
  "distance \<Rightarrow> (string \<times> motion_spec) list \<Rightarrow> pyfloat \<Rightarrow> position_source \<Rightarrow> (string \<times> placed) list result" where
  "resolve d motion elapsed s = mapR (place d elapsed s) motion"

section \<open>The newest valid frame wins\<close>

text \<open>What a frame is, whatever has been received before.\<close>

fun nodes_in :: "string list \<Rightarrow> (string \<times> pyval) list \<Rightarrow> live_nodes option result" where
  "nodes_in known [] = Ok (Some [])"
| "nodes_in known ((n, item) # q) =
     (if n \<notin> set known then nodes_in known q
      else case item of
        VDict d \<Rightarrow>
          (case node_vectors d of
             Inl (ValueError e) \<Rightarrow> Ok None
           | Inl (TypeError e) \<Rightarrow> Ok None
           | Inl e \<Rightarrow> Err e
           | Inr pv \<Rightarrow> bindR (nodes_in known q) (\<lambda>ns. Ok (map_option (Cons (n, pv)) ns)))
      | _ \<Rightarrow> Ok None)"

definition frame_sample ::
  "(bytes \<Rightarrow> pyval option) \<Rightarrow> string list \<Rightarrow> pyfloat \<Rightarrow> bytes \<Rightarrow> position_sample option result" where
  "frame_sample loads known now_s frame =
     (case loads frame of
        Some (VDict d) \<Rightarrow>
          if py_eq (vget ''event'' d) (VStr ''positions'') \<and> py_eq (vget_or ''frame'' (VStr ''arena'') d) (VStr ''arena'')
          then (case vget ''nodes'' d of
                  VDict raw \<Rightarrow>
                    bindR (nodes_in known raw) (\<lambda>nodes.
                      (case nodes of
                         None \<Rightarrow> Ok None
                       | Some ns \<Rightarrow>
                           bindR (stamp_of (vget ''t_unix_ms'' d)) (\<lambda>t.
                             Ok (Some \<lparr>ps_received = now_s, ps_t_unix_ms = t, ps_nodes = ns\<rparr>))))
                | _ \<Rightarrow> Ok None)
          else Ok None
      | _ \<Rightarrow> Ok None)"

text \<open>Parsing changes only the error note and the list of ignored nodes.\<close>

definition same_feed :: "position_source \<Rightarrow> position_source \<Rightarrow> bool" where
  "same_feed s s' \<longleftrightarrow>
     px_offset s' = px_offset s \<and> px_timeout_s s' = px_timeout_s s \<and> px_known_nodes s' = px_known_nodes s
     \<and> px_messages_received s' = px_messages_received s \<and> px_messages_invalid s' = px_messages_invalid s
     \<and> px_messages_dropped s' = px_messages_dropped s \<and> px_last_sample s' = px_last_sample s"

lemma same_feed_refl [simp]: "same_feed s s" by (simp add: same_feed_def)
lemma same_feed_ignore [simp]:
  "same_feed (ignore_node n s) s' \<longleftrightarrow> same_feed s s'" "same_feed s (ignore_node n s') \<longleftrightarrow> same_feed s s'"
  by (cases "n \<in> set (px_ignored_nodes s)"; simp add: same_feed_def ignore_node_def;
      cases "n \<in> set (px_ignored_nodes s')"; simp)+
lemma same_feed_note [simp]: "same_feed s (note_error e s') \<longleftrightarrow> same_feed s s'"
  by (simp add: same_feed_def note_error_def)
lemma known_ignore [simp]: "px_known_nodes (ignore_node n s) = px_known_nodes s"
  by (simp add: ignore_node_def)

lemma parse_nodes_spec:
  "(case parse_nodes q acc s of
      Inl e \<Rightarrow> nodes_in (px_known_nodes s) q = Inl e
    | Inr (ns, s') \<Rightarrow> same_feed s s' \<and> (\<exists>r. nodes_in (px_known_nodes s) q = Ok r \<and> ns = map_option ((@) acc) r))"
proof (induction q acc s rule: parse_nodes.induct)
  case (1 acc s)
  then show ?case by simp
next
  case (2 n item q acc s)
  show ?case
  proof (cases "n \<in> set (px_known_nodes s)")
    case False
    then show ?thesis using "2.IH"(1) by (simp split: sum.splits prod.splits)
  next
    case True
    show ?thesis
    proof (cases item)
      case (VDict d)
      show ?thesis
      proof (cases "node_vectors d")
        case (Inl e)
        with True VDict show ?thesis by (cases e) simp_all
      next
        case (Inr pv)
        have IH: "(case parse_nodes q (acc @ [(n, pv)]) s of
            Inl e \<Rightarrow> nodes_in (px_known_nodes s) q = Inl e
          | Inr (ns, s') \<Rightarrow> same_feed s s'
              \<and> (\<exists>r. nodes_in (px_known_nodes s) q = Ok r \<and> ns = map_option ((@) (acc @ [(n, pv)])) r))"
          using "2.IH"(2) True VDict Inr by simp
        then show ?thesis using True VDict Inr
          by (auto simp: bindR_def option.map_comp comp_def split: sum.splits intro: option.map_cong)
      qed
    qed (use True in simp_all)
  qed
qed

lemma parse_frame_spec:
  "(case parse_frame loads frame t s of
      Inl e \<Rightarrow> frame_sample loads (px_known_nodes s) t frame = Inl e
    | Inr (p, s') \<Rightarrow> same_feed s s' \<and> frame_sample loads (px_known_nodes s) t frame = Ok p)"
proof -
  have id: "map_option ((@) []) r = r" for r :: "live_nodes option" by (cases r) simp_all
  show ?thesis
  proof (cases "loads frame")
    case None
    then show ?thesis by (simp add: parse_frame_def frame_sample_def)
  next
    case (Some v)
    show ?thesis
    proof (cases v)
      case (VDict d)
      show ?thesis
      proof (cases "vget ''nodes'' d")
        case (VDict raw)
        from parse_nodes_spec [where q = raw and acc = "[]" and s = s] show ?thesis
          using Some \<open>v = _\<close> VDict
          by (cases "parse_nodes raw [] s"; cases "stamp_of (vget ''t_unix_ms'' d)")
            (auto simp: parse_frame_def frame_sample_def id split: option.split)
      qed (use Some \<open>v = _\<close> in \<open>simp_all add: parse_frame_def frame_sample_def\<close>)
    qed (use Some in \<open>simp_all add: parse_frame_def frame_sample_def\<close>)
  qed
qed

text \<open>Unknown nodes are reported once each.\<close>

definition warned_once :: "position_source \<Rightarrow> bool" where
  "warned_once s \<longleftrightarrow>
     px_warned s = px_ignored_nodes s \<and> distinct (px_warned s) \<and> list_all (\<lambda>n. n \<notin> set (px_known_nodes s)) (px_warned s)"

lemma warned_once_note [simp]: "warned_once (note_error e s) \<longleftrightarrow> warned_once s"
  by (simp add: warned_once_def note_error_def)

lemma warned_once_counts [simp]:
  "warned_once (s\<lparr>px_messages_received := k\<rparr>) \<longleftrightarrow> warned_once s"
  "warned_once (s\<lparr>px_messages_invalid := k\<rparr>) \<longleftrightarrow> warned_once s"
  "warned_once (s\<lparr>px_messages_dropped := k\<rparr>) \<longleftrightarrow> warned_once s"
  "warned_once (s\<lparr>px_last_sample := p\<rparr>) \<longleftrightarrow> warned_once s"
  by (simp_all add: warned_once_def)

lemma warned_once_ignore: "n \<notin> set (px_known_nodes s) \<Longrightarrow> warned_once s \<Longrightarrow> warned_once (ignore_node n s)"
  by (auto simp: warned_once_def ignore_node_def)

lemma parse_nodes_warned: "parse_nodes q acc s = Ok (ns, s') \<Longrightarrow> warned_once s \<Longrightarrow> warned_once s'"
proof (induction q acc s arbitrary: ns s' rule: parse_nodes.induct)
  case (1 acc s)
  then show ?case by simp
next
  case (2 n item q acc s)
  show ?case
  proof (cases "n \<in> set (px_known_nodes s)")
    case False
    then show ?thesis using 2 warned_once_ignore by simp
  next
    case True
    then show ?thesis using 2
      by (auto split: pyval.splits sum.splits py_error.splits)
  qed
qed

lemma parse_frame_warned: "parse_frame loads frame t s = Ok (p, s') \<Longrightarrow> warned_once s \<Longrightarrow> warned_once s'"
  by (auto simp: parse_frame_def result_simps dest: parse_nodes_warned
      split: option.splits pyval.splits if_splits)

text \<open>One poll.\<close>

definition valid_of :: "'a option list \<Rightarrow> 'a list" where
  "valid_of ps = List.map_filter id ps"

lemma valid_of_simps [simp]: "valid_of [] = []" "valid_of (None # ps) = valid_of ps" "valid_of (Some p # ps) = p # valid_of ps"
  by (simp_all add: valid_of_def List.map_filter_simps)

lemma length_valid_of: "length (valid_of ps) \<le> length ps"
proof (induction ps)
  case (Cons x ps)
  then show ?case by (cases x) simp_all
qed simp

definition latest :: "'a option \<Rightarrow> 'a list \<Rightarrow> 'a option" where
  "latest before xs = (if xs = [] then before else Some (last xs))"

lemma latest_simps [simp]: "latest before [] = before" "latest before (x # xs) = latest (Some x) xs"
  by (simp_all add: latest_def)

lemma latest_append: "latest before (xs @ ys) = latest (latest before xs) ys"
  by (simp add: latest_def)

lemma drain_frames_spec:
  assumes "drain_frames loads t frames newest s = Ok (newest', s')"
  shows "\<exists>ps. mapR (frame_sample loads (px_known_nodes s) t) frames = Ok ps
    \<and> newest' = latest newest (valid_of ps) \<and> px_known_nodes s' = px_known_nodes s
    \<and> px_last_sample s' = px_last_sample s
    \<and> px_messages_received s' = px_messages_received s + length frames
    \<and> px_messages_invalid s' + length (valid_of ps) = px_messages_invalid s + length frames
    \<and> px_messages_dropped s' + of_bool (newest' \<noteq> None)
        = px_messages_dropped s + of_bool (newest \<noteq> None) + length (valid_of ps)
    \<and> (warned_once s \<longrightarrow> warned_once s')"
  using assms
proof (induction frames arbitrary: newest s)
  case Nil
  then show ?case by simp
next
  case (Cons frame q)
  define s0 where "s0 = s\<lparr>px_messages_received := px_messages_received s + 1\<rparr>"
  obtain p s1 where p: "parse_frame loads frame t s0 = Ok (p, s1)"
    using Cons.prems by (auto simp: s0_def result_simps)
  have sp: "same_feed s0 s1" "frame_sample loads (px_known_nodes s) t frame = Ok p"
    using parse_frame_spec [where loads = loads and frame = frame and t = t and s = s0] p by (simp_all add: s0_def)
  have w: "warned_once s \<Longrightarrow> warned_once s1"
    using parse_frame_warned [OF p] by (simp add: s0_def)
  show ?case
  proof (cases p)
    case None
    define s2 where "s2 = s1\<lparr>px_messages_invalid := px_messages_invalid s1 + 1\<rparr>"
    have "drain_frames loads t q newest s2 = Ok (newest', s')"
      using Cons.prems p [unfolded s0_def] None by (simp add: s2_def)
    from Cons.IH [OF this] show ?thesis
      using sp w None by (auto simp: s2_def s0_def same_feed_def)
  next
    case (Some v)
    define s2 where "s2 = (if newest \<noteq> None then s1\<lparr>px_messages_dropped := px_messages_dropped s1 + 1\<rparr> else s1)"
    have "drain_frames loads t q (Some v) s2 = Ok (newest', s')"
      using Cons.prems p [unfolded s0_def] Some by (simp add: s2_def)
    from Cons.IH [OF this] show ?thesis
      using sp w Some by (auto simp: s2_def s0_def same_feed_def)
  qed
qed

text \<open>A run: at each poll, the clock and the frames that were waiting.\<close>

fun run_polls ::
  "(bytes \<Rightarrow> pyval option) \<Rightarrow> (pyfloat \<times> bytes list) list \<Rightarrow> position_source \<Rightarrow> position_source result" where
  "run_polls loads [] s = Ok s"
| "run_polls loads ((t, frames) # q) s = bindR (poll loads t frames s) (\<lambda>(_, s). run_polls loads q s)"

definition samples_in ::
  "(bytes \<Rightarrow> pyval option) \<Rightarrow> string list \<Rightarrow> (pyfloat \<times> bytes list) list \<Rightarrow> position_sample list list result" where
  "samples_in loads known polls =
     mapR (\<lambda>(t, frames). bindR (mapR (frame_sample loads known t) frames) (\<lambda>ps. Ok (valid_of ps))) polls"

definition used_polls :: "'a list list \<Rightarrow> nat" where
  "used_polls vs = length (filter (\<lambda>v. v \<noteq> []) vs)"

lemma run_polls_spec:
  assumes "run_polls loads polls s = Ok s'"
  shows "\<exists>vs. samples_in loads (px_known_nodes s) polls = Ok vs
    \<and> px_last_sample s' = latest (px_last_sample s) (concat vs)
    \<and> px_messages_received s' = px_messages_received s + length (concat (map snd polls))
    \<and> px_messages_invalid s' + length (concat vs) = px_messages_invalid s + length (concat (map snd polls))
    \<and> px_messages_dropped s' + used_polls vs = px_messages_dropped s + length (concat vs)
    \<and> px_known_nodes s' = px_known_nodes s \<and> (warned_once s \<longrightarrow> warned_once s')"
  using assms
proof (induction polls arbitrary: s)
  case Nil
  then show ?case by (simp add: samples_in_def used_polls_def)
next
  case (Cons tf q)
  obtain t frames where tf: "tf = (t, frames)" by (cases tf)
  obtain newest s1 where d: "drain_frames loads t frames None s = Ok (newest, s1)"
    using Cons.prems by (auto simp: tf poll_def result_simps)
  define s2 where "s2 = (case newest of None \<Rightarrow> s1 | Some p \<Rightarrow> s1\<lparr>px_last_sample := Some p\<rparr>)"
  have r: "run_polls loads q s2 = Ok s'" using Cons.prems d by (simp add: tf poll_def s2_def)
  obtain ps where ps: "mapR (frame_sample loads (px_known_nodes s) t) frames = Ok ps"
    "newest = latest None (valid_of ps)" "px_known_nodes s1 = px_known_nodes s" "px_last_sample s1 = px_last_sample s"
    "px_messages_received s1 = px_messages_received s + length frames"
    "px_messages_invalid s1 + length (valid_of ps) = px_messages_invalid s + length frames"
    "px_messages_dropped s1 + of_bool (newest \<noteq> None) = px_messages_dropped s + length (valid_of ps)"
    "warned_once s \<Longrightarrow> warned_once s1"
    using drain_frames_spec [OF d] by auto
  have s2: "px_known_nodes s2 = px_known_nodes s" "px_last_sample s2 = latest (px_last_sample s) (valid_of ps)"
    "px_messages_received s2 = px_messages_received s1" "px_messages_invalid s2 = px_messages_invalid s1"
    "px_messages_dropped s2 = px_messages_dropped s1" "warned_once s2 = warned_once s1"
    using ps(2-4) by (auto simp: s2_def latest_def warned_once_def split: option.splits)
  have u: "of_bool (newest \<noteq> None) + used_polls vs = used_polls (valid_of ps # vs)" for vs :: "position_sample list list"
    using ps(2) by (simp add: used_polls_def latest_def)
  from Cons.IH [OF r] obtain vs where vs: "samples_in loads (px_known_nodes s) q = Ok vs"
    "px_last_sample s' = latest (px_last_sample s2) (concat vs)"
    "px_messages_received s' = px_messages_received s2 + length (concat (map snd q))"
    "px_messages_invalid s' + length (concat vs) = px_messages_invalid s2 + length (concat (map snd q))"
    "px_messages_dropped s' + used_polls vs = px_messages_dropped s2 + length (concat vs)"
    "px_known_nodes s' = px_known_nodes s" "warned_once s2 \<Longrightarrow> warned_once s'"
    using s2(1) by auto
  have "samples_in loads (px_known_nodes s) (tf # q) = Ok (valid_of ps # vs)"
    using ps(1) vs(1) by (simp add: samples_in_def tf)
  then show ?case
    using vs s2 ps u [of vs] by (intro exI [of _ "valid_of ps # vs"]) (simp add: tf latest_append)
qed

text \<open>C11. However the frames of the feed are spread over the polls, and however many are malformed, the sample
  in use is the last valid frame of the whole stream; every frame is counted once as received, every
  malformed one as invalid, every valid one that a newer one of the same poll replaced as dropped; and
  each unknown node is reported once.\<close>

theorem newest_valid_frame_wins:
  assumes "run_polls loads polls (new_source offset timeout known) = Ok s"
  shows "\<exists>vs. samples_in loads known polls = Ok vs
    \<and> px_last_sample s = latest None (concat vs)
    \<and> px_messages_received s = length (concat (map snd polls))
    \<and> px_messages_invalid s + length (concat vs) = px_messages_received s
    \<and> px_messages_dropped s + used_polls vs = length (concat vs)
    \<and> warned_once s"
  using run_polls_spec [OF assms] by (auto simp: new_source_def warned_once_def)

section \<open>Publisher and subscriber agree\<close>

definition finite_node :: "string \<times> vec3 \<times> vec3 \<Rightarrow> bool" where
  "finite_node n = (case n of (_, p, v) \<Rightarrow> finite_vec p \<and> finite_vec v)"

lemma finite_vector_of_value: "finite_vec v \<Longrightarrow> finite_vector (vec_value v) = Ok v"
  by (auto simp: finite_vector_def vec_value_def to_float_def finite_vec_def split: prod.split)

lemma parse_published_nodes:
  assumes "list_all finite_node nodes" and "list_all (\<lambda>n. fst n \<in> set (px_known_nodes s)) nodes"
  shows "parse_nodes (map (\<lambda>(n, p, v). (n, VDict [(''position_m'', vec_value p), (''velocity_mps'', vec_value v)])) nodes) acc s
    = Ok (Some (acc @ map (\<lambda>(n, p, v). (n, (p, Some v))) nodes), s)"
  using assms
proof (induction nodes arbitrary: acc)
  case Nil
  then show ?case by simp
next
  case (Cons x nodes)
  obtain n p v where x: "x = (n, p, v)" by (metis prod_cases3)
  have "finite_vec p" "finite_vec v" using Cons.prems(1) by (simp_all add: x finite_node_def)
  from finite_vector_of_value [OF this(1)] finite_vector_of_value [OF this(2)]
  have "node_vectors [(''position_m'', vec_value p), (''velocity_mps'', vec_value v)] = Ok (p, Some v)"
    by (cases v) (simp add: node_vectors_def vec_value_def)
  with Cons show ?case by (simp add: x)
qed

text \<open>What the arena publishes the bridge accepts: a frame the arena's \<open>positions_message\<close> makes, read back
  as the JSON it is, is parsed to exactly the positions and velocities the arena sent, for any finite
  values and any nodes of the scenario.\<close>

theorem published_frame_accepted:
  assumes "loads frame = Some (VDict (positions_payload t nodes))"
    and "list_all finite_node nodes" and "list_all (\<lambda>n. fst n \<in> set (px_known_nodes s)) nodes"
  shows "parse_frame loads frame now_s s
    = Ok (Some \<lparr>ps_received = now_s, ps_t_unix_ms = Some t, ps_nodes = map (\<lambda>(n, p, v). (n, (p, Some v))) nodes\<rparr>, s)"
  using parse_published_nodes [OF assms(2,3), of "[]"] assms(1)
  by (simp add: parse_frame_def positions_payload_def vget_or_def stamp_of_def)

section \<open>A frame that ends the bridge\<close>

text \<open>A frame whose time stamp is not a number, or infinite (JSON has both words in Python), is not counted as
  invalid: converting it raises an exception nothing catches, and the poll fails.\<close>

theorem bad_stamp_raises:
  assumes "loads frame = Some (VDict [(''event'', VStr ''positions''), (''t_unix_ms'', VFloat x), (''nodes'', VDict [])])"
    and "\<not> is_finite x"
  shows "\<exists>e. poll loads now_s (frame # q) s = Err e"
  using assms
  by (cases x) (simp_all add: poll_def parse_frame_def vget_or_def stamp_of_def ftrunc_def int_of_rat_def)

section \<open>Witnesses\<close>

definition demo_nodes :: "(string \<times> vec3 \<times> vec3) list" where
  "demo_nodes = [(''ue0'', (Fin 1, Fin 2, Fin 0), (Fin 0, Fin 0, Fin 0))]"

definition demo_loads :: "bytes \<Rightarrow> pyval option" where
  "demo_loads f = (if f = [] then None else Some (VDict (positions_payload (int (length f)) demo_nodes)))"

definition demo_source :: position_source where
  "demo_source = new_source (Fin 0, Fin 0, Fin 0) (Fin 1) [''ue0'']"

lemma demo_nodes_ok: "list_all finite_node demo_nodes" "list_all (\<lambda>n. fst n \<in> set [''ue0'']) demo_nodes"
  by (simp_all add: demo_nodes_def finite_node_def finite_vec_def)

theorem published_frame_accepted_witness:
  "parse_frame demo_loads [1] (Fin 5) demo_source
    = Ok (Some \<lparr>ps_received = Fin 5, ps_t_unix_ms = Some 1, ps_nodes = map (\<lambda>(n, p, v). (n, (p, Some v))) demo_nodes\<rparr>,
          demo_source)"
  by (rule published_frame_accepted) (use demo_nodes_ok in \<open>simp_all add: demo_loads_def demo_source_def new_source_def\<close>)

theorem newest_valid_frame_wins_witness:
  "\<exists>s vs. run_polls demo_loads [(Fin 5, [[], [1], [1, 2]])] demo_source = Ok s
    \<and> samples_in demo_loads [''ue0''] [(Fin 5, [[], [1], [1, 2]])] = Ok vs
    \<and> px_last_sample s = latest None (concat vs) \<and> px_messages_received s = length (concat (map snd [(Fin 5, [[], [1], [1, 2::byte]])]))
    \<and> px_messages_invalid s + length (concat vs) = px_messages_received s
    \<and> px_messages_dropped s + used_polls vs = length (concat vs) \<and> warned_once s"
proof -
  obtain s where r: "run_polls demo_loads [(Fin 5, [[], [1], [1, 2]])] demo_source = Ok s"
    by (simp add: poll_def parse_frame_def demo_loads_def positions_payload_def demo_nodes_def demo_source_def new_source_def
        vget_or_def node_vectors_def finite_vector_def vec_value_def to_float_def stamp_of_def note_error_def)
  from newest_valid_frame_wins [OF r [unfolded demo_source_def]] r show ?thesis by blast
qed

theorem bad_stamp_raises_witness:
  "\<exists>e. poll (\<lambda>_. Some (VDict [(''event'', VStr ''positions''), (''t_unix_ms'', VFloat NaN), (''nodes'', VDict [])]))
     (Fin 5) ([] # []) demo_source = Err e"
  by (rule bad_stamp_raises [where x = NaN]) simp_all

end
