(* ===== verification/BridgeTimeline.thy ===== *)
theory BridgeTimeline
  imports ControlBatch FloatBounds
begin

text \<open>
  The reproducible timeline and the fan-out of \<^verbatim>\<open>apps/sionna_bridge/run_bridge.py\<close>: the scenario clock
  \<open>GridTimeline\<close>, and one solved batch sent to several brokers with renamed nodes.
\<close>

section \<open>The grid\<close>

record grid =
  gl_update_hz :: pyfloat
  gl_anchor :: "pyfloat option"
  gl_anchor_unix_ms :: "int option"
  gl_last :: "int option"
  gl_skipped :: int

definition new_grid :: "pyfloat \<Rightarrow> grid result" where
  "new_grid hz =
     (if is_finite hz \<and> flt (Fin 0) hz
      then Ok \<lparr>gl_update_hz = hz, gl_anchor = None, gl_anchor_unix_ms = None, gl_last = None, gl_skipped = 0\<rparr>
      else Err (ValueError ''update_hz must be positive''))"

definition anchor :: "pyfloat \<Rightarrow> int \<Rightarrow> grid \<Rightarrow> grid" where
  "anchor monotonic_now unix_ms_now g =
     g\<lparr>gl_anchor := Some monotonic_now, gl_anchor_unix_ms := Some unix_ms_now, gl_last := None, gl_skipped := 0\<rparr>"

definition scenario_time :: "grid \<Rightarrow> int \<Rightarrow> pyfloat result" where
  "scenario_time g index = fdiv (fl index) (gl_update_hz g)"

definition due_at :: "grid \<Rightarrow> int \<Rightarrow> pyfloat result" where
  "due_at g index =
     (case gl_anchor g of
        None \<Rightarrow> Err (RuntimeError ''timeline is not anchored'')
      | Some a \<Rightarrow> bindR (fdiv (fl index) (gl_update_hz g)) (\<lambda>d. Ok (fadd a d)))"

definition following :: "grid \<Rightarrow> int" where
  "following g = (case gl_last g of None \<Rightarrow> 0 | Some l \<Rightarrow> l + 1)"

definition next_point :: "pyfloat \<Rightarrow> grid \<Rightarrow> (int \<times> grid) result" where
  "next_point monotonic_now g =
     (case gl_anchor g of
        None \<Rightarrow> Err (RuntimeError ''timeline is not anchored'')
      | Some a \<Rightarrow>
          bindR (ffloor (fmul (fsub monotonic_now a) (gl_update_hz g))) (\<lambda>current.
            let index = max (following g) current
            in Ok (index, g\<lparr>gl_skipped := gl_skipped g + (index - following g), gl_last := Some index\<rparr>)))"

text \<open>The points a loop solves, given the clock at each of its turns.\<close>

fun run_points :: "pyfloat list \<Rightarrow> grid \<Rightarrow> (int list \<times> grid) result" where
  "run_points [] g = Ok ([], g)"
| "run_points (t # ts) g =
     bindR (next_point t g) (\<lambda>(i, g). bindR (run_points ts g) (\<lambda>(is, g). Ok (i # is, g)))"

text \<open>Grid point \<open>i\<close> is at most one step behind the wall clock.\<close>

definition keeps_up :: "pyfloat \<Rightarrow> pyfloat \<Rightarrow> pyfloat \<Rightarrow> int \<Rightarrow> bool" where
  "keeps_up hz a t i = (case fmul (fsub t a) hz of Fin r \<Rightarrow> r < of_int (i + 1) | _ \<Rightarrow> False)"

lemma next_point_facts:
  assumes "next_point t g = Ok (i, g')" and "gl_anchor g = Some a"
  shows "following g \<le> i" and "gl_last g' = Some i" and "following g' = i + 1"
    and "gl_skipped g' = gl_skipped g + (i - following g)"
    and "gl_anchor g' = Some a" and "gl_update_hz g' = gl_update_hz g"
    and "keeps_up (gl_update_hz g) a t i"
proof -
  obtain c where c: "ffloor (fmul (fsub t a) (gl_update_hz g)) = Ok c" "i = max (following g) c"
    "g' = g\<lparr>gl_skipped := gl_skipped g + (i - following g), gl_last := Some i\<rparr>"
    using assms by (auto simp: next_point_def result_simps Let_def)
  then obtain r where r: "fmul (fsub t a) (gl_update_hz g) = Fin r" "c = \<lfloor>r\<rfloor>"
    by (auto simp: ffloor_def int_of_rat_def split: pyfloat.splits)
  show "following g \<le> i" using c(2) by simp
  show "gl_last g' = Some i" and "following g' = i + 1"
    and "gl_skipped g' = gl_skipped g + (i - following g)"
    and "gl_anchor g' = Some a" and "gl_update_hz g' = gl_update_hz g"
    using c(3) assms(2) by (simp_all add: following_def)
  have "\<lfloor>r\<rfloor> \<le> i" using c(2) r(2) by simp
  then have "r < of_int (i + 1)" by linarith
  then show "keeps_up (gl_update_hz g) a t i" by (simp add: keeps_up_def r(1))
qed

lemma run_points_facts:
  assumes "run_points ts g = Ok (is, g')" and "gl_anchor g = Some a"
  shows "sorted_wrt (<) is \<and> list_all (\<lambda>i. following g \<le> i) is
    \<and> following g' = following g + int (length is) + (gl_skipped g' - gl_skipped g)
    \<and> list_all2 (keeps_up (gl_update_hz g) a) ts is"
  using assms
proof (induction ts arbitrary: g "is")
  case Nil
  then show ?case by simp
next
  case (Cons t ts)
  then obtain i g1 is' where p: "next_point t g = Ok (i, g1)" "run_points ts g1 = Ok (is', g')" "is = i # is'"
    by (auto simp: result_simps)
  note f = next_point_facts [OF p(1) Cons.prems(2)]
  from Cons.IH [OF p(2) f(5)] have IH: "sorted_wrt (<) is'" "list_all (\<lambda>j. following g1 \<le> j) is'"
    "following g' = following g1 + int (length is') + (gl_skipped g' - gl_skipped g1)"
    "list_all2 (keeps_up (gl_update_hz g1) a) ts is'" by blast+
  have "list_all (\<lambda>j. i < j) is'" and "list_all (\<lambda>j. following g \<le> j) is'"
    using IH(2) f(1,3) by (auto simp: list_all_iff)
  then show ?case using IH f p(3) by (simp add: list_all_iff)
qed

text \<open>However late the turns of the loop are, the grid points it solves strictly increase from the
  anchor on, each is less than one step behind the wall clock, and the skip counter accounts for every
  grid point that was not solved.\<close>

theorem grid_schedule:
  assumes "run_points ts (anchor t0 u0 g) = Ok (is, g')"
  shows "sorted_wrt (<) is \<and> list_all (\<lambda>i. 0 \<le> i) is
    \<and> following g' = int (length is) + gl_skipped g'
    \<and> list_all2 (keeps_up (gl_update_hz g) t0) ts is"
  using run_points_facts [OF assms, of t0] by (simp add: anchor_def following_def)

theorem grid_schedule_witness:
  "\<exists>g'. run_points [Fin 100, Fin 104, Fin 105] (anchor (Fin 100) 7
        \<lparr>gl_update_hz = Fin 1, gl_anchor = None, gl_anchor_unix_ms = None, gl_last = None, gl_skipped = 0\<rparr>) = Ok ([0, 4, 5], g')
    \<and> sorted_wrt (<) [0, 4, 5::int] \<and> list_all (\<lambda>i. 0 \<le> i) [0, 4, 5::int]
    \<and> following g' = int (length [0, 4, 5::int]) + gl_skipped g'
    \<and> list_all2 (keeps_up (Fin 1) (Fin 100)) [Fin 100, Fin 104, Fin 105] [0, 4, 5]"
proof -
  define g where
    "g = \<lparr>gl_update_hz = Fin 1, gl_anchor = None, gl_anchor_unix_ms = None, gl_last = None, gl_skipped = 0\<rparr>"
  obtain g' where r: "run_points [Fin 100, Fin 104, Fin 105] (anchor (Fin 100) 7 g) = Ok ([0, 4, 5], g')"
    by (simp add: g_def anchor_def next_point_def following_def fsub_def ffloor_def int_of_rat_def float_eval)
  from grid_schedule [OF r] r show ?thesis unfolding g_def by (intro exI [of _ g']) simp
qed

section \<open>Fan-out\<close>

text \<open>One item \<open>old:new\<close> of the rename list.\<close>

definition rename_item :: "string \<Rightarrow> (string \<times> string) list \<Rightarrow> (string \<times> string) list result" where
  "rename_item item rename =
     (case str_partition CHR '':'' (str_strip item) of (old, colon, new) \<Rightarrow>
        if \<not> colon \<or> old = [] \<or> new = [] then Err (ArgumentTypeError ''fan-out rename must be old:new'')
        else if map_of rename old \<noteq> None then Err (ArgumentTypeError ''fan-out renames twice'')
        else Ok (rename @ [(old, new)]))"

definition parse_fanout :: "string \<Rightarrow> (string \<times> (string \<times> string) list) result" where
  "parse_fanout text =
     (case str_partition CHR ''='' text of (endpoint, separator, mapping) \<Rightarrow>
        if str_strip endpoint = [] then Err (ArgumentTypeError ''fan-out endpoint must not be empty'')
        else if \<not> separator then Ok (str_strip endpoint, [])
        else bindR (foldR rename_item (str_split CHR '','' mapping) []) (\<lambda>rename.
               if card (set (map snd rename)) \<noteq> length rename
               then Err (ArgumentTypeError ''fan-out rename targets must be distinct'')
               else Ok (str_strip endpoint, rename)))"

definition renamed :: "(string \<times> string) list \<Rightarrow> string \<Rightarrow> string" where
  "renamed rename n = (case map_of rename n of None \<Rightarrow> n | Some m \<Rightarrow> m)"

definition remap_link_id :: "string \<Rightarrow> (string \<times> string) list \<Rightarrow> string result" where
  "remap_link_id link_id rename =
     (case str_partition CHR '':'' link_id of (nodes, colon, model) \<Rightarrow>
        case str_partition CHR ''>'' nodes of (source, arrow, destination) \<Rightarrow>
          if \<not> colon \<or> \<not> arrow \<or> source = [] \<or> destination = [] then Err (ValueError ''not a control link id'')
          else Ok (renamed rename source @ ''>'' @ renamed rename destination @ '':'' @ model))"

text \<open>The renamed dict: a later link overwrites an earlier one of the same new id.\<close>

definition rename_step ::
  "(string \<times> string) list \<Rightarrow> string \<times> 'p \<Rightarrow> (string \<times> 'p) list \<Rightarrow> (string \<times> 'p) list result" where
  "rename_step rename lp acc = bindR (remap_link_id (fst lp) rename) (\<lambda>l. Ok (AList.update l (snd lp) acc))"

definition renamed_profiles :: "(string \<times> string) list \<Rightarrow> (string \<times> 'p) list \<Rightarrow> (string \<times> 'p) list result" where
  "renamed_profiles rename profiles = foldR (rename_step rename) profiles []"

text \<open>One broker: its rename map, the network to it and the state of its socket and server. Each
  worker has its own, so the order in which they run does not matter; the first error in the order of
  the clients is raised when all have run.\<close>

record 's broker_client =
  bc_endpoint :: string
  bc_rename :: "(string \<times> string) list"
  bc_net :: "nat \<Rightarrow> transport"
  bc_state :: "'s link_state"

definition send_one ::
  "(pydict \<Rightarrow> 's \<Rightarrow> pydict \<times> 's) \<Rightarrow> (string \<times> matrix_profile) list \<Rightarrow> string \<Rightarrow> 's broker_client
     \<Rightarrow> pydict result \<times> 's link_state" where
  "send_one serve profiles batch_id c =
     (case renamed_profiles (bc_rename c) profiles of
        Inl e \<Rightarrow> (Err e, bc_state c)
      | Inr ps \<Rightarrow> send_matrix_profiles serve (bc_net c) ps batch_id (bc_state c))"

definition send_fanout ::
  "(pydict \<Rightarrow> 's \<Rightarrow> pydict \<times> 's) \<Rightarrow> 's broker_client list \<Rightarrow> (string \<times> matrix_profile) list \<Rightarrow> string
     \<Rightarrow> pydict list result \<times> 's broker_client list" where
  "send_fanout serve clients profiles batch_id =
     (mapR (\<lambda>c. fst (send_one serve profiles batch_id c)) clients,
      map (\<lambda>c. c\<lparr>bc_state := snd (send_one serve profiles batch_id c)\<rparr>) clients)"

section \<open>What a fan-out keeps\<close>

text \<open>Node ids that make up readable link ids, and nodes whose new name is not a kept node's name.\<close>

definition plain_id :: "string \<Rightarrow> bool" where
  "plain_id n \<longleftrightarrow> n \<noteq> [] \<and> CHR '':'' \<notin> set n \<and> CHR ''>'' \<notin> set n"

definition not_taken :: "(string \<times> string) list \<Rightarrow> string \<Rightarrow> bool" where
  "not_taken rename n \<longleftrightarrow> map_of rename n \<noteq> None \<or> n \<notin> set (map snd rename)"

type_synonym link_key = "string \<times> string \<times> string"

definition link_key_id :: "link_key \<Rightarrow> string" where
  "link_key_id k = (case k of (source, destination, model) \<Rightarrow> control_link_id source destination model)"

definition rename_key :: "(string \<times> string) list \<Rightarrow> link_key \<Rightarrow> link_key" where
  "rename_key rename k = (case k of (source, destination, model) \<Rightarrow> (renamed rename source, renamed rename destination, model))"

definition plain_key :: "link_key \<Rightarrow> bool" where
  "plain_key k = (case k of (source, destination, _) \<Rightarrow> plain_id source \<and> plain_id destination)"

definition free_key :: "(string \<times> string) list \<Rightarrow> link_key \<Rightarrow> bool" where
  "free_key rename k = (case k of (source, destination, _) \<Rightarrow> not_taken rename source \<and> not_taken rename destination)"

lemma link_id_parts:
  assumes "plain_id source" and "plain_id destination"
  shows "str_partition CHR '':'' (control_link_id source destination model) = (source @ ''>'' @ destination, True, model)"
    and "str_partition CHR ''>'' (source @ ''>'' @ destination) = (source, True, destination)"
proof -
  have "CHR '':'' \<notin> set (source @ ''>'' @ destination)" using assms by (simp add: plain_id_def)
  from str_partition_found [OF this, of model]
  show "str_partition CHR '':'' (control_link_id source destination model) = (source @ ''>'' @ destination, True, model)"
    by (simp add: control_link_id_def)
  have "CHR ''>'' \<notin> set source" using assms(1) by (simp add: plain_id_def)
  from str_partition_found [OF this, of destination]
  show "str_partition CHR ''>'' (source @ ''>'' @ destination) = (source, True, destination)" by simp
qed

lemma remap_control_link_id:
  assumes "plain_key k" shows "remap_link_id (link_key_id k) rename = Ok (link_key_id (rename_key rename k))"
proof -
  obtain a b c where k: "k = (a, b, c)" by (cases k)
  have p: "plain_id a" "plain_id b" using assms by (simp_all add: k plain_key_def)
  then have "a \<noteq> []" and "b \<noteq> []" by (simp_all add: plain_id_def)
  then show ?thesis
    using link_id_parts(2) [OF p]
    by (simp add: k remap_link_id_def link_key_id_def link_id_parts(1) [OF p] rename_key_def)
      (simp add: control_link_id_def)
qed

lemma link_key_id_inj:
  assumes "plain_key j" and "plain_key k" and "link_key_id j = link_key_id k" shows "j = k"
proof -
  obtain a b c where j: "j = (a, b, c)" by (cases j)
  obtain a' b' c' where k: "k = (a', b', c')" by (cases k)
  have p: "plain_id a" "plain_id b" "plain_id a'" "plain_id b'"
    using assms(1,2) by (simp_all add: j k plain_key_def)
  have "str_partition CHR '':'' (control_link_id a b c) = str_partition CHR '':'' (control_link_id a' b' c')"
    using assms(3) by (simp add: j k link_key_id_def)
  then have e: "a @ ''>'' @ b = a' @ ''>'' @ b'" and "c = c'"
    unfolding link_id_parts [OF p(1,2)] link_id_parts [OF p(3,4)] by simp_all
  have "str_partition CHR ''>'' (a @ ''>'' @ b) = str_partition CHR ''>'' (a' @ ''>'' @ b')" using e by (rule arg_cong)
  then have "a = a'" "b = b'" unfolding link_id_parts(2) [OF p(1,2)] link_id_parts(2) [OF p(3,4)] by simp_all
  with \<open>c = c'\<close> show ?thesis by (simp add: j k)
qed

lemma renamed_inj:
  assumes "distinct (map snd rename)" and "distinct (map fst rename)"
    and "not_taken rename m" and "not_taken rename n" and "renamed rename m = renamed rename n"
  shows "m = n"
proof (cases "map_of rename m"; cases "map_of rename n")
  fix a assume "map_of rename m = None" and a: "map_of rename n = Some a"
  then have "m = a" using assms(5) by (simp add: renamed_def)
  moreover have "a \<in> set (map snd rename)" using map_of_SomeD [OF a] by force
  ultimately show ?thesis using assms(3) \<open>map_of rename m = None\<close> by (simp add: not_taken_def)
next
  fix a assume a: "map_of rename m = Some a" and "map_of rename n = None"
  then have "n = a" using assms(5) by (simp add: renamed_def)
  moreover have "a \<in> set (map snd rename)" using map_of_SomeD [OF a] by force
  ultimately show ?thesis using assms(4) \<open>map_of rename n = None\<close> by (simp add: not_taken_def)
next
  fix a b assume "map_of rename m = Some a" and "map_of rename n = Some b"
  then have "(m, a) \<in> set rename" and "(n, a) \<in> set rename"
    using assms(5) by (auto simp: renamed_def dest: map_of_SomeD)
  then show ?thesis using assms(1) by (metis distinct_map inj_onD prod.inject snd_conv)
qed (use assms(5) in \<open>simp add: renamed_def\<close>)

lemma parse_fanout_distinct:
  assumes "parse_fanout text = Ok (endpoint, rename)"
  shows "distinct (map snd rename)" and "distinct (map fst rename)"
proof -
  have step: "distinct (map fst acc) \<Longrightarrow> rename_item item acc = Ok acc' \<Longrightarrow> distinct (map fst acc')" for item acc acc'
    by (auto simp: rename_item_def map_of_eq_None_iff split: prod.splits if_splits)
  have "foldR rename_item items [] = Ok r \<Longrightarrow> distinct (map fst r)" for items r
    by (rule foldR_invariant [where P = "\<lambda>acc. distinct (map fst acc)"]) (auto intro: step)
  then show "distinct (map snd rename)" and "distinct (map fst rename)"
    using assms
    by (auto simp: parse_fanout_def result_simps split: prod.splits if_splits intro: card_distinct)
qed

lemma update_fresh_append: "k \<notin> set (map fst acc) \<Longrightarrow> AList.update k v acc = acc @ [(k, v)]"
  by (induction acc) auto

lemma renamed_profiles_kept:
  assumes "list_all plain_key (map fst links)"
    and "distinct (map (\<lambda>lp. link_key_id (rename_key rename (fst lp))) links)"
    and "set (map (\<lambda>lp. link_key_id (rename_key rename (fst lp))) links) \<inter> set (map fst acc) = {}"
  shows "foldR (rename_step rename) (map (\<lambda>(k, p). (link_key_id k, p)) links) acc
    = Ok (acc @ map (\<lambda>(k, p). (link_key_id (rename_key rename k), p)) links)"
  using assms
proof (induction links arbitrary: acc)
  case Nil
  then show ?case by simp
next
  case (Cons lp links)
  obtain k p where lp: "lp = (k, p)" by (cases lp)
  define acc' where "acc' = acc @ [(link_key_id (rename_key rename k), p)]"
  have "rename_step rename (link_key_id k, p) acc = Ok acc'"
    using Cons.prems by (simp add: rename_step_def lp remap_control_link_id update_fresh_append acc'_def)
  moreover have "foldR (rename_step rename) (map (\<lambda>(k, p). (link_key_id k, p)) links) acc'
      = Ok (acc' @ map (\<lambda>(k, p). (link_key_id (rename_key rename k), p)) links)"
    using Cons.prems by (intro Cons.IH) (auto simp: lp acc'_def)
  ultimately show ?case by (simp add: lp acc'_def)
qed

text \<open>A fan-out loses no link: whatever rename list \<open>parse_fanout\<close> accepts, if no new name is the name
  of a node that keeps its own, every broker gets every link of the batch, in the same order, with the
  same profile, under the link id of the renamed nodes.\<close>

theorem fanout_keeps_links:
  assumes "parse_fanout text = Ok (endpoint, rename)" and "list_all plain_id (map snd rename)"
    and "distinct (map fst links)" and "list_all plain_key (map fst links)"
    and "list_all (free_key rename) (map fst links)"
  shows "renamed_profiles rename (map (\<lambda>(k, p). (link_key_id k, p)) links)
    = Ok (map (\<lambda>(k, p). (link_key_id (rename_key rename k), p)) links)"
proof -
  note d = parse_fanout_distinct [OF assms(1)]
  have pl: "plain_key (rename_key rename k)" if "plain_key k" for k
    using that assms(2)
    by (auto simp: plain_key_def rename_key_def renamed_def list_all_iff split: option.split dest!: map_of_SomeD)
      fastforce+
  have inj: "j = k" if "j \<in> set (map fst links)" "k \<in> set (map fst links)"
    and "link_key_id (rename_key rename j) = link_key_id (rename_key rename k)" for j k
  proof -
    have jk: "plain_key j" "plain_key k" "free_key rename j" "free_key rename k"
      using assms(4,5) that(1,2) by (auto simp: list_all_iff)
    from link_key_id_inj [OF pl [OF jk(1)] pl [OF jk(2)] that(3)]
    show ?thesis using jk(3,4) renamed_inj [OF d]
      by (auto simp: rename_key_def free_key_def split: prod.splits)
  qed
  have "distinct (map (\<lambda>k. link_key_id (rename_key rename k)) (map fst links))"
    using assms(3) inj by (auto simp: distinct_map inj_on_def)
  then have "distinct (map (\<lambda>lp. link_key_id (rename_key rename (fst lp))) links)" by (simp add: o_def)
  with renamed_profiles_kept [OF assms(4) this, of "[]"] show ?thesis by (simp add: renamed_profiles_def)
qed

text \<open>Nothing checks that: a rename list whose target is the name of a kept node is accepted, two links
  of the batch fall together, and one profile is silently never sent.\<close>

theorem fanout_merges_links:
  "parse_fanout ''b=gnb0:gnb1'' = Ok (''b'', [(''gnb0'', ''gnb1'')])
   \<and> renamed_profiles [(''gnb0'', ''gnb1'')] [(''gnb0>ue0:rt'', p), (''gnb1>ue0:rt'', q)] = Ok [(''gnb1>ue0:rt'', q)]"
  by (simp add: parse_fanout_def rename_item_def str_strip_def is_space_def renamed_profiles_def rename_step_def
      remap_link_id_def renamed_def)

theorem fanout_keeps_links_witness:
  "renamed_profiles [(''gnb0'', ''gnb1''), (''ue0'', ''ue2'')]
      (map (\<lambda>(k, p). (link_key_id k, p)) [((''gnb0'', ''ue0'', ''rt''), True), ((''ue0'', ''gnb0'', ''rt''), False)])
    = Ok (map (\<lambda>(k, p). (link_key_id (rename_key [(''gnb0'', ''gnb1''), (''ue0'', ''ue2'')] k), p))
        [((''gnb0'', ''ue0'', ''rt''), True), ((''ue0'', ''gnb0'', ''rt''), False)])"
  by (rule fanout_keeps_links [of "''b=gnb0:gnb1,ue0:ue2''" "''b''"])
    (simp_all add: parse_fanout_def rename_item_def str_strip_def is_space_def plain_id_def plain_key_def free_key_def
      not_taken_def)

end
