(* ===== verification/BridgeArgs.thy ===== *)
theory BridgeArgs
  imports Scenario BridgeTimeline
begin

text \<open>
  The command line of the bridge, \<^verbatim>\<open>parse_args\<close> in \<^verbatim>\<open>apps/sionna_bridge/run_bridge.py\<close> (the values
  \<open>argparse\<close> leaves in the namespace, and the checks after it), the built-in layouts, and the scenario
  that is in force. \<open>parser.error\<close> ends the process, here as \<open>SystemExit\<close>.
\<close>

section \<open>Vectors and ranges\<close>

definition piece_float :: "string \<Rightarrow> pyfloat result" where
  "piece_float piece =
     (case parse_float (str_strip piece) of None \<Rightarrow> Err (ArgumentTypeError ''expected numeric vector'') | Some x \<Rightarrow> Ok x)"

definition parse_vector :: "string \<Rightarrow> vec3 result" where
  "parse_vector text =
     bindR (mapR piece_float (str_split CHR '','' text)) (\<lambda>values.
       (case values of
          [a, b, c] \<Rightarrow> if is_finite a \<and> is_finite b \<and> is_finite c then Ok (a, b, c)
                       else Err (ArgumentTypeError ''expected exactly three finite values: x,y,z'')
        | _ \<Rightarrow> Err (ArgumentTypeError ''expected exactly three finite values: x,y,z'')))"

definition parse_range :: "string \<Rightarrow> (pyfloat \<times> pyfloat) result" where
  "parse_range text =
     bindR (mapR piece_float (str_split CHR '','' text)) (\<lambda>values.
       (case values of
          [a, b] \<Rightarrow> if is_finite a \<and> is_finite b \<and> \<not> fle b a then Ok (a, b)
                    else Err (ArgumentTypeError ''expected two finite values with min < max'')
        | _ \<Rightarrow> Err (ArgumentTypeError ''expected two finite values with min < max'')))"

section \<open>Built-in layouts\<close>

type_synonym edge = "string \<times> string"

definition NODE_IDS :: "string list" where "NODE_IDS = [''gnb0'', ''gnb1'', ''ue0'', ''ue1'']"

definition DOWNLINK_LINKS :: "edge list" where
  "DOWNLINK_LINKS = List.product [''gnb0'', ''gnb1''] [''ue0'', ''ue1'']"

definition UPLINK_LINKS :: "edge list" where
  "UPLINK_LINKS = List.product [''ue0'', ''ue1''] [''gnb0'', ''gnb1'']"

definition CROSSTALK_LINKS :: "edge list" where "CROSSTALK_LINKS = []"

definition ONE_GNB_ONE_UE_NODE_IDS :: "string list" where "ONE_GNB_ONE_UE_NODE_IDS = [''gnb0'', ''ue0'']"
definition ONE_GNB_ONE_UE_DOWNLINK_LINKS :: "edge list" where
  "ONE_GNB_ONE_UE_DOWNLINK_LINKS = [(''gnb0'', ''ue0'')]"
definition ONE_GNB_ONE_UE_UPLINK_LINKS :: "edge list" where "ONE_GNB_ONE_UE_UPLINK_LINKS = [(''ue0'', ''gnb0'')]"
definition ONE_GNB_ONE_UE_CROSSTALK_LINKS :: "edge list" where "ONE_GNB_ONE_UE_CROSSTALK_LINKS = []"

definition DEFAULT_ROAD_WIDTH_M :: pyfloat where "DEFAULT_ROAD_WIDTH_M = Fin 14"
definition DEFAULT_ROUTE_X_M :: "pyfloat \<times> pyfloat" where "DEFAULT_ROUTE_X_M = (Fin (- 82), Fin 82)"
definition DEFAULT_GNB_HEIGHT_M :: pyfloat where "DEFAULT_GNB_HEIGHT_M = Fin 60"
definition CAR_SPEED_MPS :: pyfloat where "CAR_SPEED_MPS = fquot (Fin 50) (rnd64 (36/10))"
definition PEDESTRIAN_SPEED_MPS :: pyfloat where "PEDESTRIAN_SPEED_MPS = rnd64 (14/10)"
definition DEFAULT_POSITION_TIMEOUT_S :: pyfloat where "DEFAULT_POSITION_TIMEOUT_S = Fin 1"
definition DEFAULT_DOWNLINK_FREQUENCY_HZ :: pyfloat where "DEFAULT_DOWNLINK_FREQUENCY_HZ = Fin 1842500000"
definition DEFAULT_UPLINK_FREQUENCY_HZ :: pyfloat where "DEFAULT_UPLINK_FREQUENCY_HZ = Fin 1747500000"

text \<open>The node ids and the three groups of links of a layout.\<close>

definition link_layout :: "string \<Rightarrow> (string list \<times> edge list \<times> edge list \<times> edge list) result" where
  "link_layout layout =
     (if layout = ''1x1''
      then Ok (ONE_GNB_ONE_UE_NODE_IDS, ONE_GNB_ONE_UE_DOWNLINK_LINKS, ONE_GNB_ONE_UE_UPLINK_LINKS,
               ONE_GNB_ONE_UE_CROSSTALK_LINKS)
      else if layout = ''2x2'' then Ok (NODE_IDS, DOWNLINK_LINKS, UPLINK_LINKS, CROSSTALK_LINKS)
      else Err (ValueError ''unsupported link layout''))"

text \<open>A motion with the defaults of the dataclass after its third field.\<close>

definition plain_motion :: "vec3 \<Rightarrow> vec3 \<Rightarrow> (pyfloat \<times> pyfloat) option \<Rightarrow> string \<Rightarrow> motion_spec" where
  "plain_motion start velocity x_bounds mobility =
     \<lparr>mt_start = start, mt_velocity = velocity, mt_x_bounds = x_bounds, mt_mobility = mobility, mt_waypoints = [],
      mt_route_mode = ''pingpong'', mt_speed_mps = Fin 0\<rparr>"

definition still_velocity :: vec3 where "still_velocity = (Fin 0, Fin 0, Fin 0)"

definition DEFAULT_MOTION :: "(string \<times> motion_spec) list" where
  "DEFAULT_MOTION =
     [(''gnb0'', plain_motion (rnd64 (65/2), rnd64 (21/2), DEFAULT_GNB_HEIGHT_M) still_velocity None ''fixed''),
      (''gnb1'', plain_motion (rnd64 (65/2), Fin 45, DEFAULT_GNB_HEIGHT_M) still_velocity None ''fixed''),
      (''ue0'', plain_motion (Fin (- 70), Fin 0, rnd64 (3/2)) (CAR_SPEED_MPS, Fin 0, Fin 0) (Some DEFAULT_ROUTE_X_M) ''car''),
      (''ue1'', plain_motion (Fin 20, Fin 8, rnd64 (3/2)) (fneg PEDESTRIAN_SPEED_MPS, Fin 0, Fin 0)
                  (Some DEFAULT_ROUTE_X_M) ''pedestrian'')]"

definition default_motion :: "string \<Rightarrow> motion_spec" where
  "default_motion n = (case map_of DEFAULT_MOTION n of Some m \<Rightarrow> m | None \<Rightarrow> plain_motion still_velocity still_velocity None ''static'')"

section \<open>The namespace\<close>

record bridge_args =
  ba_control_endpoint :: string
  ba_fanout :: "(string \<times> (string \<times> string) list) list"
  ba_timeline :: string
  ba_hold_until_file :: "string option"
  ba_profile_digest :: bool
  ba_scenario_config :: "string option"
  ba_layout :: string
  ba_scene :: string
  ba_duration :: pyfloat
  ba_iterations :: int
  ba_update_hz :: pyfloat
  ba_profile_timing :: bool
  ba_sample_rate_hz :: pyfloat
  ba_downlink_frequency_hz :: pyfloat
  ba_uplink_frequency_hz :: pyfloat
  ba_carrier_frequency_hz :: "pyfloat option"
  ba_gain_offset_db :: pyfloat
  ba_max_depth :: int
  ba_samples_per_src :: int
  ba_seed :: int
  ba_los :: bool
  ba_specular_reflection :: bool
  ba_diffuse_reflection :: bool
  ba_refraction :: bool
  ba_diffraction :: bool
  ba_path_polylines :: int
  ba_simple_road :: bool
  ba_road_width_m :: pyfloat
  ba_gnb_height_m :: pyfloat
  ba_ue0_start :: vec3
  ba_ue1_start :: vec3
  ba_ue0_velocity :: vec3
  ba_ue1_velocity :: vec3
  ba_ue0_route_x :: "pyfloat \<times> pyfloat"
  ba_ue1_route_x :: "pyfloat \<times> pyfloat"
  ba_status_jsonl :: "string option"
  ba_position_endpoint :: "string option"
  ba_position_frame_offset :: vec3
  ba_position_timeout_s :: pyfloat
  ba_dry_run :: bool
  ba_scenario_definition :: "scenario_def option"

definition default_args :: bridge_args where
  "default_args =
     \<lparr>ba_control_endpoint = ''tcp://127.0.0.1:5559'', ba_fanout = [], ba_timeline = ''wallclock'',
      ba_hold_until_file = None, ba_profile_digest = False, ba_scenario_config = None, ba_layout = ''2x2'',
      ba_scene = ''sionna_simple_test'', ba_duration = Fin 30, ba_iterations = 0, ba_update_hz = Fin 500,
      ba_profile_timing = False, ba_sample_rate_hz = Fin 23040000,
      ba_downlink_frequency_hz = DEFAULT_DOWNLINK_FREQUENCY_HZ, ba_uplink_frequency_hz = DEFAULT_UPLINK_FREQUENCY_HZ,
      ba_carrier_frequency_hz = None, ba_gain_offset_db = Fin 60, ba_max_depth = 3, ba_samples_per_src = 200000,
      ba_seed = 42, ba_los = True, ba_specular_reflection = True, ba_diffuse_reflection = False,
      ba_refraction = False, ba_diffraction = False, ba_path_polylines = 6, ba_simple_road = True,
      ba_road_width_m = DEFAULT_ROAD_WIDTH_M, ba_gnb_height_m = DEFAULT_GNB_HEIGHT_M,
      ba_ue0_start = mt_start (default_motion ''ue0''), ba_ue1_start = mt_start (default_motion ''ue1''),
      ba_ue0_velocity = mt_velocity (default_motion ''ue0''), ba_ue1_velocity = mt_velocity (default_motion ''ue1''),
      ba_ue0_route_x = DEFAULT_ROUTE_X_M, ba_ue1_route_x = DEFAULT_ROUTE_X_M, ba_status_jsonl = None,
      ba_position_endpoint = None, ba_position_frame_offset = (Fin 0, Fin 0, Fin 0),
      ba_position_timeout_s = DEFAULT_POSITION_TIMEOUT_S, ba_dry_run = False, ba_scenario_definition = None\<rparr>"

section \<open>The checks\<close>

definition usage :: "string \<Rightarrow> py_error" where "usage text = SystemExit text"

definition check_endpoints :: "bridge_args \<Rightarrow> unit result" where
  "check_endpoints a =
     (if ba_hold_until_file a \<noteq> None \<and> ba_timeline a \<noteq> ''grid'' then Err (usage ''--hold-until-file needs --timeline grid'')
      else if ba_timeline a = ''grid'' \<and> (case ba_position_endpoint a of None \<Rightarrow> False | Some e \<Rightarrow> e \<noteq> [])
      then Err (usage ''--timeline grid cannot follow a live --position-endpoint'')
      else if \<not> distinct (map fst (ba_fanout a) @ [ba_control_endpoint a])
      then Err (usage ''every control endpoint must be distinct'') else Ok ())"

definition check_numbers :: "bridge_args \<Rightarrow> unit result" where
  "check_numbers a =
     (if fle (ba_position_timeout_s a) (Fin 0) then Err (usage ''--position-timeout-s must be positive'')
      else if flt (ba_duration a) (Fin 0) then Err (usage ''--duration must be >= 0'')
      else if ba_iterations a < 0 then Err (usage ''--iterations must be >= 0'')
      else if fle (ba_update_hz a) (Fin 0) then Err (usage ''--update-hz must be positive'')
      else Ok ())"

definition one_carrier :: "bridge_args \<Rightarrow> bridge_args" where
  "one_carrier a =
     (case ba_carrier_frequency_hz a of
        None \<Rightarrow> a
      | Some f \<Rightarrow> a\<lparr>ba_downlink_frequency_hz := f, ba_uplink_frequency_hz := f\<rparr>)"

definition check_radio :: "bridge_args \<Rightarrow> unit result" where
  "check_radio a =
     (if fle (ba_sample_rate_hz a) (Fin 0) \<or> fle (ba_downlink_frequency_hz a) (Fin 0) \<or> fle (ba_uplink_frequency_hz a) (Fin 0)
      then Err (usage ''sample rate and DL/UL carrier frequencies must be positive'')
      else if ba_max_depth a < 0 \<or> ba_samples_per_src a \<le> 0
      then Err (usage ''max depth must be non-negative and samples-per-src positive'')
      else if fle (ba_road_width_m a) (Fin 0) then Err (usage ''--road-width-m must be positive'')
      else if \<not> is_finite (ba_gnb_height_m a) \<or> fle (ba_gnb_height_m a) (Fin 0)
      then Err (usage ''--gnb-height-m must be finite and positive'') else Ok ())"

definition start_on_route :: "vec3 \<Rightarrow> pyfloat \<times> pyfloat \<Rightarrow> bool" where
  "start_on_route start route \<longleftrightarrow> fle (fst route) (fst start) \<and> fle (fst start) (snd route)"

text \<open>What a scenario pins: its scene, its road flag, and each solver setting by name.\<close>

definition set_arg :: "string \<times> pyval \<Rightarrow> bridge_args \<Rightarrow> bridge_args" where
  "set_arg kv a =
     (case kv of
        (k, VInt i) \<Rightarrow>
          if k = ''max_depth'' then a\<lparr>ba_max_depth := i\<rparr>
          else if k = ''samples_per_src'' then a\<lparr>ba_samples_per_src := i\<rparr>
          else if k = ''seed'' then a\<lparr>ba_seed := i\<rparr>
          else if k = ''path_polylines'' then a\<lparr>ba_path_polylines := i\<rparr> else a
      | (k, VBool b) \<Rightarrow>
          if k = ''los'' then a\<lparr>ba_los := b\<rparr>
          else if k = ''specular_reflection'' then a\<lparr>ba_specular_reflection := b\<rparr>
          else if k = ''diffuse_reflection'' then a\<lparr>ba_diffuse_reflection := b\<rparr>
          else if k = ''refraction'' then a\<lparr>ba_refraction := b\<rparr>
          else if k = ''diffraction'' then a\<lparr>ba_diffraction := b\<rparr> else a
      | _ \<Rightarrow> a)"

definition pin_scenario :: "scenario_def \<Rightarrow> bridge_args \<Rightarrow> bridge_args" where
  "pin_scenario sd a =
     (let a = a\<lparr>ba_scenario_definition := Some sd\<rparr>;
          a = (case sd_scene sd of None \<Rightarrow> a | Some s \<Rightarrow> a\<lparr>ba_scene := s\<rparr>);
          a = (case sd_simple_road sd of None \<Rightarrow> a | Some b \<Rightarrow> a\<lparr>ba_simple_road := b\<rparr>)
      in fold set_arg (case sd_solver sd of None \<Rightarrow> [] | Some s \<Rightarrow> s) a)"

text \<open>\<open>load\<close> stands for \<open>load_scenario_config\<close> of the file; only its \<open>ValueError\<close> is caught.\<close>

definition check_args :: "(string \<Rightarrow> scenario_def result) \<Rightarrow> bridge_args \<Rightarrow> bridge_args result" where
  "check_args load a =
     bindR (check_endpoints a) (\<lambda>_. bindR (check_numbers a) (\<lambda>_.
     let a = one_carrier a
     in bindR (check_radio a) (\<lambda>_.
        (case ba_scenario_config a of
           None \<Rightarrow>
             if \<not> start_on_route (ba_ue0_start a) (ba_ue0_route_x a)
             then Err (usage ''--ue0-start x must be inside --ue0-route-x'')
             else if \<not> start_on_route (ba_ue1_start a) (ba_ue1_route_x a)
             then Err (usage ''--ue1-start x must be inside --ue1-route-x'')
             else Ok (a\<lparr>ba_scenario_definition := None\<rparr>)
         | Some file \<Rightarrow>
             (case load file of
                Inl (ValueError text) \<Rightarrow> Err (usage text)
              | Inl e \<Rightarrow> Err e
              | Inr sd \<Rightarrow> Ok (pin_scenario sd a))))))"

section \<open>The scenario in force\<close>

definition configured_motion :: "bridge_args \<Rightarrow> (string \<times> motion_spec) list result" where
  "configured_motion a =
     (case ba_scenario_definition a of
        Some sd \<Rightarrow> Ok (map (\<lambda>(n, node). (n, sn_motion node)) (sd_nodes sd))
      | None \<Rightarrow>
          let gnb = (\<lambda>n. plain_motion (fst (mt_start (default_motion n)), fst (snd (mt_start (default_motion n))), ba_gnb_height_m a)
                           still_velocity None ''fixed'');
              motion = [(''gnb0'', gnb ''gnb0''), (''gnb1'', gnb ''gnb1''),
                        (''ue0'', plain_motion (ba_ue0_start a) (ba_ue0_velocity a) (Some (ba_ue0_route_x a)) ''car''),
                        (''ue1'', plain_motion (ba_ue1_start a) (ba_ue1_velocity a) (Some (ba_ue1_route_x a)) ''pedestrian'')]
          in bindR (link_layout (ba_layout a)) (\<lambda>(node_ids, _).
               mapR (\<lambda>n. case map_of motion n of None \<Rightarrow> Err (KeyError n) | Some m \<Rightarrow> Ok (n, m)) node_ids))"

definition group_links :: "string \<Rightarrow> edge list \<Rightarrow> scenario_link list" where
  "group_links direction edges =
     map (\<lambda>(s, d). \<lparr>sl_source = s, sl_destination = d, sl_direction = direction, sl_model = ''sionna_rt''\<rparr>) edges"

definition effective_scenario :: "bridge_args \<Rightarrow> scenario_def result" where
  "effective_scenario a =
     (case ba_scenario_definition a of
        Some sd \<Rightarrow> Ok sd
      | None \<Rightarrow>
          bindR (link_layout (ba_layout a)) (\<lambda>(node_ids, downlink, uplink, crosstalk).
          bindR (configured_motion a) (\<lambda>motion.
            Ok \<lparr>sd_name = ba_layout a,
                sd_nodes = map (\<lambda>(n, m). (n, \<lparr>sn_motion = m, sn_tx = default_array, sn_rx = default_array\<rparr>)) motion,
                sd_links = group_links ''downlink'' downlink @ group_links ''uplink'' uplink
                             @ group_links ''crosstalk'' crosstalk,
                sd_scene = Some (ba_scene a), sd_simple_road = None, sd_solver = None\<rparr>)))"

text \<open>The counts of the environment record.\<close>

definition link_group_count :: "string \<Rightarrow> scenario_def \<Rightarrow> nat" where
  "link_group_count direction sd = length (filter (\<lambda>l. sl_direction l = direction) (sd_links sd))"

definition matrix_lane_count :: "scenario_def \<Rightarrow> int" where
  "matrix_lane_count sd =
     sum_list (map (\<lambda>l. case (map_of (sd_nodes sd) (sl_source l), map_of (sd_nodes sd) (sl_destination l)) of
                        (Some s, Some t) \<Rightarrow> lane_count s t | _ \<Rightarrow> 0) (sd_links sd))"

section \<open>What passes the checks\<close>

text \<open>What the argument types of the parser guarantee of a namespace.\<close>

definition args_typed :: "bridge_args \<Rightarrow> bool" where
  "args_typed a \<longleftrightarrow>
     list_all finite_vec [ba_ue0_start a, ba_ue1_start a, ba_ue0_velocity a, ba_ue1_velocity a]
     \<and> list_all (\<lambda>r. is_finite (fst r) \<and> is_finite (snd r) \<and> flt (fst r) (snd r)) [ba_ue0_route_x a, ba_ue1_route_x a]
     \<and> ba_layout a \<in> {''1x1'', ''2x2''} \<and> ba_scene a \<noteq> []"

lemma parse_vector_finite:
  assumes "parse_vector text = Ok v" shows "finite_vec v"
proof -
  obtain vs where "(case vs of [a, b, c] \<Rightarrow> if is_finite a \<and> is_finite b \<and> is_finite c then Ok (a, b, c)
        else Err (ArgumentTypeError ''expected exactly three finite values: x,y,z'')
      | _ \<Rightarrow> Err (ArgumentTypeError ''expected exactly three finite values: x,y,z'')) = Ok v"
    using assms unfolding parse_vector_def bindR_Inr_conv by blast
  then show ?thesis by (auto simp: finite_vec_def split: list.splits if_splits)
qed

lemma parse_range_ordered:
  assumes "parse_range text = Ok r" shows "is_finite (fst r) \<and> is_finite (snd r) \<and> flt (fst r) (snd r)"
proof -
  obtain vs where "(case vs of [a, b] \<Rightarrow> if is_finite a \<and> is_finite b \<and> \<not> fle b a then Ok (a, b)
        else Err (ArgumentTypeError ''expected two finite values with min < max'')
      | _ \<Rightarrow> Err (ArgumentTypeError ''expected two finite values with min < max'')) = Ok r"
    using assms unfolding parse_range_def bindR_Inr_conv by blast
  then show ?thesis by (auto simp: is_finite_conv not_le split: list.splits if_splits)
qed

definition solver_sane :: "bridge_args \<Rightarrow> bool" where
  "solver_sane a \<longleftrightarrow> 0 \<le> ba_max_depth a \<and> 0 < ba_samples_per_src a"

lemma set_arg_keeps:
  "ba_scenario_definition (set_arg kv a) = ba_scenario_definition a"
  by (auto simp: set_arg_def split: prod.split pyval.split)

lemma fold_set_arg_keeps: "ba_scenario_definition (fold set_arg kvs a) = ba_scenario_definition a"
  by (induction kvs arbitrary: a) (simp_all add: set_arg_keeps)

lemma set_arg_sane:
  assumes "setting_wf kv" and "solver_sane a" shows "solver_sane (set_arg kv a)"
proof -
  obtain k v where kv: "kv = (k, v)" by (cases kv)
  show ?thesis
  proof (cases v)
    case (VInt i)
    then consider "k = ''max_depth''" "0 < i" | "k = ''samples_per_src''" "0 < i" | "k = ''seed''" | "k = ''path_polylines''"
      using assms(1) by (auto simp: kv setting_wf_def SOLVER_INTEGER_KEYS_def)
    then show ?thesis by cases (use assms(2) in \<open>simp_all add: kv VInt set_arg_def solver_sane_def\<close>)
  qed (use assms in \<open>simp_all add: kv setting_wf_def set_arg_def solver_sane_def\<close>)
qed

lemma fold_set_arg_sane: "list_all setting_wf kvs \<Longrightarrow> solver_sane a \<Longrightarrow> solver_sane (fold set_arg kvs a)"
  by (induction kvs arbitrary: a) (simp_all add: set_arg_sane)

lemma pin_scenario_facts:
  assumes "scenario_wf sd" and "solver_sane a"
  shows "ba_scenario_definition (pin_scenario sd a) = Some sd" and "solver_sane (pin_scenario sd a)"
proof -
  show "ba_scenario_definition (pin_scenario sd a) = Some sd"
    by (simp add: pin_scenario_def Let_def fold_set_arg_keeps split: option.split)
  have "list_all setting_wf (case sd_solver sd of None \<Rightarrow> [] | Some s \<Rightarrow> s)"
    using assms(1) by (simp add: scenario_wf_def split: option.splits)
  then show "solver_sane (pin_scenario sd a)"
    unfolding pin_scenario_def Let_def
    by (rule fold_set_arg_sane) (use assms(2) in \<open>simp add: solver_sane_def split: option.split\<close>)
qed

lemma one_carrier_keeps:
  "ba_scenario_config (one_carrier a) = ba_scenario_config a" "ba_layout (one_carrier a) = ba_layout a"
  "ba_ue0_start (one_carrier a) = ba_ue0_start a" "ba_ue1_start (one_carrier a) = ba_ue1_start a"
  "ba_ue0_velocity (one_carrier a) = ba_ue0_velocity a" "ba_ue1_velocity (one_carrier a) = ba_ue1_velocity a"
  "ba_ue0_route_x (one_carrier a) = ba_ue0_route_x a" "ba_ue1_route_x (one_carrier a) = ba_ue1_route_x a"
  "ba_scene (one_carrier a) = ba_scene a" "ba_gnb_height_m (one_carrier a) = ba_gnb_height_m a"
  by (simp_all add: one_carrier_def split: option.split)

lemma default_starts: "is_finite (rnd64 (65/2))" "is_finite (rnd64 (21/2))"
  using is_f64_scaled [of 65 "- 1"] is_f64_scaled [of 21 "- 1"] by (simp_all add: is_f64_def pow2_def)

lemma built_in_scenario_wf:
  assumes "args_typed a" and "ba_scenario_definition a = None" and "is_finite (ba_gnb_height_m a)"
  shows "\<exists>sd. effective_scenario a = Ok sd \<and> scenario_wf sd"
proof -
  note defs = effective_scenario_def configured_motion_def link_layout_def NODE_IDS_def DOWNLINK_LINKS_def
    UPLINK_LINKS_def CROSSTALK_LINKS_def ONE_GNB_ONE_UE_NODE_IDS_def ONE_GNB_ONE_UE_DOWNLINK_LINKS_def
    ONE_GNB_ONE_UE_UPLINK_LINKS_def ONE_GNB_ONE_UE_CROSSTALK_LINKS_def group_links_def Let_def
  note wf = scenario_wf_def node_wf_def motion_wf_def link_wf_def link_key_of_def plain_motion_def array_wf_def
    default_array_def lane_count_def antenna_count_def finite_vec_def still_velocity_def
  have d: "is_finite (fst (mt_start (default_motion ''gnb0'')))" "is_finite (fst (snd (mt_start (default_motion ''gnb0''))))"
    "is_finite (fst (mt_start (default_motion ''gnb1'')))" "is_finite (fst (snd (mt_start (default_motion ''gnb1''))))"
    by (simp_all add: default_motion_def DEFAULT_MOTION_def plain_motion_def default_starts)
  obtain l0 h0 l1 h1 where r: "ba_ue0_route_x a = (l0, h0)" "ba_ue1_route_x a = (l1, h1)" by (metis prod.exhaust)
  from assms(1) consider "ba_layout a = ''1x1''" | "ba_layout a = ''2x2''" by (auto simp: args_typed_def)
  then show ?thesis
  proof cases
    case 1
    then show ?thesis using assms d r by (simp add: defs wf args_typed_def)
  next
    case 2
    then show ?thesis using assms d r by (simp add: defs wf args_typed_def)
  qed
qed

text \<open>A command line that passes the checks starts the bridge on a well-formed scenario, whether built in
  or loaded from a file, with solver settings the checks allow even after the scenario pinned its own.\<close>

theorem checked_args_start_well:
  assumes "args_typed a0"
    and "check_args (\<lambda>f. load_scenario_config loads repr_of (stem f) (read f)) a0 = Ok a"
  shows "\<exists>sd. effective_scenario a = Ok sd \<and> scenario_wf sd \<and> solver_sane a"
proof -
  define a1 where "a1 = one_carrier a0"
  have s1: "solver_sane a1" and g1: "is_finite (ba_gnb_height_m a1)"
    using assms(2) by (auto simp: check_args_def check_radio_def solver_sane_def result_simps Let_def a1_def split: if_splits)
  have t1: "args_typed a1" using assms(1) by (simp add: args_typed_def a1_def one_carrier_keeps)
  show ?thesis
  proof (cases "ba_scenario_config a1")
    case None
    then have "a = a1\<lparr>ba_scenario_definition := None\<rparr>"
      using assms(2) by (auto simp: check_args_def result_simps Let_def a1_def split: if_splits)
    then show ?thesis
      using s1 g1 t1 by (auto simp: solver_sane_def args_typed_def intro!: built_in_scenario_wf)
  next
    case (Some f)
    then obtain sd where l: "load_scenario_config loads repr_of (stem f) (read f) = Ok sd" and "a = pin_scenario sd a1"
      using assms(2) by (auto simp: check_args_def result_simps Let_def a1_def split: sum.splits py_error.splits)
    with pin_scenario_facts [OF load_scenario_wf [OF l] s1] load_scenario_wf [OF l]
    show ?thesis by (simp add: effective_scenario_def)
  qed
qed

lemma default_args_typed: "args_typed default_args"
proof -
  have "rnd64 (3/2) = Fin (3/2)" using is_f64_scaled [of 3 "- 1"] by (simp add: is_f64_def pow2_def)
  moreover have "is_finite (fneg PEDESTRIAN_SPEED_MPS)"
    using rnd64_between [of 0 2 "14/10"] is_f64_of_int [of 2] by (auto simp: PEDESTRIAN_SPEED_MPS_def)
  moreover have "is_finite CAR_SPEED_MPS"
  proof -
    obtain y where y: "rnd64 (36/10) = Fin y" "1 \<le> y" "y \<le> 4"
      using rnd64_between [of 1 4 "36/10"] is_f64_of_int [of 4] by auto
    then obtain z where "rnd64 (50 / y) = Fin z"
      using rnd64_between [of 0 50 "50 / y"] is_f64_of_int [of 50] by (auto simp: divide_le_eq)
    with y show ?thesis by (simp add: CAR_SPEED_MPS_def fquot_def)
  qed
  ultimately show ?thesis
    by (simp add: args_typed_def default_args_def default_motion_def DEFAULT_MOTION_def plain_motion_def finite_vec_def
        DEFAULT_ROUTE_X_M_def)
qed

theorem checked_args_start_well_witness:
  "\<exists>a sd. check_args (\<lambda>f. load_scenario_config (\<lambda>_. None) (\<lambda>_. []) f None) default_args = Ok a
     \<and> effective_scenario a = Ok sd \<and> scenario_wf sd \<and> solver_sane a"
proof -
  have "check_args (\<lambda>f. load_scenario_config (\<lambda>_. None) (\<lambda>_. []) f None) default_args
      = Ok (default_args\<lparr>ba_scenario_definition := None\<rparr>)"
    by (simp add: check_args_def check_endpoints_def check_numbers_def check_radio_def one_carrier_def default_args_def
        start_on_route_def default_motion_def DEFAULT_MOTION_def plain_motion_def DEFAULT_ROUTE_X_M_def
        DEFAULT_POSITION_TIMEOUT_S_def DEFAULT_DOWNLINK_FREQUENCY_HZ_def DEFAULT_UPLINK_FREQUENCY_HZ_def
        DEFAULT_ROAD_WIDTH_M_def DEFAULT_GNB_HEIGHT_M_def Let_def)
  from checked_args_start_well [OF default_args_typed, where stem = "\<lambda>f. f" and read = "\<lambda>_. None", OF this] this
  show ?thesis by blast
qed

end
