(* ===== verification/BridgeLoop.thy ===== *)
theory BridgeLoop
  imports PositionFeed BridgeArgs
begin

text \<open>
  The repeating update loop of the bridge, \<open>main\<close> of \<^verbatim>\<open>apps/sionna_bridge/run_bridge.py\<close>: when an update is
  due on the wall clock or on the grid, the hold before the start file appears, the positions an update
  uses, and how its profiles reach the brokers. One turn of the loop reads its clocks, signals and
  sockets from a \<open>reading\<close>; \<open>trace\<close> stands for Sionna RT, from the placed nodes to the lane profiles.
\<close>

section \<open>Positions of an update\<close>

definition place_scripted :: "distance \<Rightarrow> pyfloat \<Rightarrow> string \<times> motion_spec \<Rightarrow> (string \<times> placed) result" where
  "place_scripted d elapsed nm =
     bindR (position_at d (snd nm) elapsed) (\<lambda>position. bindR (velocity_at d (snd nm) elapsed) (\<lambda>velocity.
       Ok (fst nm, \<lparr>pc_position = position, pc_velocity = velocity, pc_origin = Scripted\<rparr>)))"

definition update_positions ::
  "(bytes \<Rightarrow> pyval option) \<Rightarrow> distance \<Rightarrow> (string \<times> motion_spec) list \<Rightarrow> pyfloat \<Rightarrow> pyfloat \<Rightarrow> bytes list
     \<Rightarrow> position_source option \<Rightarrow> ((string \<times> placed) list \<times> position_source option) result" where
  "update_positions loads d motion elapsed now_s frames source =
     (case source of
        None \<Rightarrow> bindR (mapR (place_scripted d elapsed) motion) (\<lambda>ps. Ok (ps, None))
      | Some s \<Rightarrow>
          bindR (poll loads now_s frames s) (\<lambda>(_, s).
          bindR (resolve d motion elapsed s) (\<lambda>ps. Ok (ps, Some s))))"

text \<open>\<open>position_source\<close> of the status record.\<close>

definition update_origin :: "(string \<times> placed) list \<Rightarrow> position_origin" where
  "update_origin ps = (if list_ex (\<lambda>p. pc_origin (snd p) = External) ps then External else Scripted)"

section \<open>State and readings\<close>

record loop =
  bl_iteration :: int
  bl_start :: pyfloat
  bl_next_update :: pyfloat
  bl_grid :: "grid option"
  bl_hold_pending :: bool
  bl_last_hold_note :: pyfloat
  bl_source :: "position_source option"

record reading =
  rd_stop :: bool
  rd_now :: pyfloat
  rd_anchor_now :: pyfloat
  rd_unix_ms :: int
  rd_start_file :: bool
  rd_due_now :: pyfloat
  rd_stop_waiting :: bool
  rd_woken :: pyfloat
  rd_poll_now :: pyfloat
  rd_frames :: "bytes list"
  rd_done :: pyfloat

datatype phase = Wall | HoldPhase | RunPhase int

record update_rec =
  up_iteration :: int
  up_batch_id :: string
  up_phase :: phase
  up_scenario_s :: pyfloat
  up_profiles :: "(string \<times> matrix_profile) list"

text \<open>What a turn decides before it works: stop, come back later, or update at a scenario time.\<close>

datatype plan = PStop | PLater | PUpdate phase pyfloat

definition limits_reached :: "bridge_args \<Rightarrow> pyfloat \<Rightarrow> loop \<Rightarrow> bool" where
  "limits_reached a now_s l \<longleftrightarrow>
     flt (Fin 0) (ba_duration a) \<and> fle (ba_duration a) (fsub now_s (bl_start l))
     \<or> 0 < ba_iterations a \<and> ba_iterations a \<le> bl_iteration l"

definition plan_wall :: "reading \<Rightarrow> loop \<Rightarrow> plan \<times> loop" where
  "plan_wall rd l =
     (if flt (rd_now rd) (bl_next_update l) \<and> rd_stop_waiting rd then (PStop, l)
      else (PUpdate Wall (fsub (rd_woken rd) (bl_start l)), l))"

text \<open>The held scenario time 0 ends when the start file is there: grid point 0 is anchored to that instant.\<close>

definition release_grid :: "reading \<Rightarrow> grid \<Rightarrow> loop \<Rightarrow> loop" where
  "release_grid rd g l =
     (if bl_hold_pending l \<and> 0 < bl_iteration l \<and> rd_start_file rd
      then l\<lparr>bl_hold_pending := False, bl_grid := Some (anchor (rd_anchor_now rd) (rd_unix_ms rd) g)\<rparr> else l)"

definition plan_run :: "reading \<Rightarrow> grid \<Rightarrow> loop \<Rightarrow> (plan \<times> loop) result" where
  "plan_run rd g l =
     bindR (due_at g (following g)) (\<lambda>due.
       if flt (rd_due_now rd) due \<and> rd_stop_waiting rd then Ok (PStop, l)
       else bindR (next_point (rd_woken rd) g) (\<lambda>(i, g).
            bindR (scenario_time g i) (\<lambda>t. Ok (PUpdate (RunPhase i) t, l\<lparr>bl_grid := Some g\<rparr>))))"

definition plan_grid :: "reading \<Rightarrow> grid \<Rightarrow> loop \<Rightarrow> (plan \<times> loop) result" where
  "plan_grid rd g l =
     (if bl_hold_pending l \<and> 0 < bl_iteration l \<and> \<not> rd_start_file rd
      then Ok (PLater, if fle (Fin 1) (fsub (rd_now rd) (bl_last_hold_note l))
                       then l\<lparr>bl_last_hold_note := rd_now rd\<rparr> else l)
      else let l = release_grid rd g l
           in if bl_hold_pending l then Ok (PUpdate HoldPhase (Fin 0), l)
              else (case bl_grid l of None \<Rightarrow> Ok (PStop, l) | Some g \<Rightarrow> plan_run rd g l))"

definition plan_turn :: "bridge_args \<Rightarrow> reading \<Rightarrow> loop \<Rightarrow> (plan \<times> loop) result" where
  "plan_turn a rd l =
     (if rd_stop rd \<or> limits_reached a (rd_now rd) l then Ok (PStop, l)
      else case bl_grid l of None \<Rightarrow> Ok (plan_wall rd l) | Some g \<Rightarrow> plan_grid rd g l)"

section \<open>Sending\<close>

text \<open>No broker is a dry run, which only builds the messages; one broker gets the batch directly, several
  through the fan-out.\<close>

definition transmit ::
  "(pydict \<Rightarrow> 's \<Rightarrow> pydict \<times> 's) \<Rightarrow> 's broker_client list \<Rightarrow> (string \<times> matrix_profile) list \<Rightarrow> string
     \<Rightarrow> unit result \<times> 's broker_client list" where
  "transmit serve clients profiles batch_id =
     (case clients of
        [] \<Rightarrow> (bindR (mapR (\<lambda>(l, p). make_matrix_profile_swap l p (Some batch_id) None) profiles) (\<lambda>_. Ok ()), [])
      | [c] \<Rightarrow>
          (case send_matrix_profiles serve (bc_net c) profiles batch_id (bc_state c) of
             (res, st) \<Rightarrow> (bindR res (\<lambda>_. Ok ()), [c\<lparr>bc_state := st\<rparr>]))
      | _ \<Rightarrow>
          (case send_fanout serve clients profiles batch_id of
             (res, clients) \<Rightarrow> (bindR res (\<lambda>_. Ok ()), clients)))"

definition batch_name :: "int \<Rightarrow> string" where
  "batch_name iteration = ''sionna-'' @ str_int iteration"

definition after_update :: "bridge_args \<Rightarrow> reading \<Rightarrow> loop \<Rightarrow> loop" where
  "after_update a rd l =
     (let l = l\<lparr>bl_iteration := bl_iteration l + 1\<rparr>
      in if bl_grid l = None
         then l\<lparr>bl_next_update := fmax (fadd (bl_next_update l) (fquot (Fin 1) (ba_update_hz a))) (rd_done rd)\<rparr>
         else l)"

section \<open>The loop\<close>

record 's bridge =
  bg_args :: bridge_args
  bg_loads :: "bytes \<Rightarrow> pyval option"
  bg_distance :: distance
  bg_motion :: "(string \<times> motion_spec) list"
  bg_trace :: "(string \<times> placed) list \<Rightarrow> (string \<times> matrix_profile) list result"
  bg_serve :: "pydict \<Rightarrow> 's \<Rightarrow> pydict \<times> 's"

text \<open>One update: positions, profiles, batch. The record is what was attempted.\<close>

definition do_update ::
  "'s bridge \<Rightarrow> reading \<Rightarrow> phase \<Rightarrow> pyfloat \<Rightarrow> loop \<Rightarrow> 's broker_client list
     \<Rightarrow> unit result \<times> update_rec list \<times> loop \<times> 's broker_client list" where
  "do_update b rd ph secs l clients =
     (case update_positions (bg_loads b) (bg_distance b) (bg_motion b) secs (rd_poll_now rd) (rd_frames rd) (bl_source l) of
        Inl e \<Rightarrow> (Err e, [], l, clients)
      | Inr (placed, source) \<Rightarrow>
          (case bg_trace b placed of
             Inl e \<Rightarrow> (Err e, [], l, clients)
           | Inr profiles \<Rightarrow>
               (case transmit (bg_serve b) clients profiles (batch_name (bl_iteration l)) of
                  (res, clients') \<Rightarrow>
                    (res,
                     [\<lparr>up_iteration = bl_iteration l, up_batch_id = batch_name (bl_iteration l), up_phase = ph,
                       up_scenario_s = secs, up_profiles = profiles\<rparr>],
                     after_update (bg_args b) rd (l\<lparr>bl_source := source\<rparr>), clients'))))"

fun bridge_run ::
  "'s bridge \<Rightarrow> reading list \<Rightarrow> loop \<Rightarrow> 's broker_client list
     \<Rightarrow> unit result \<times> update_rec list \<times> loop \<times> 's broker_client list" where
  "bridge_run b [] l clients = (Ok (), [], l, clients)"
| "bridge_run b (rd # rds) l clients =
     (case plan_turn (bg_args b) rd l of
        Inl e \<Rightarrow> (Err e, [], l, clients)
      | Inr (PStop, l) \<Rightarrow> (Ok (), [], l, clients)
      | Inr (PLater, l) \<Rightarrow> bridge_run b rds l clients
      | Inr (PUpdate ph secs, l) \<Rightarrow>
          (case do_update b rd ph secs l clients of
             (Inl e, ups, l, clients) \<Rightarrow> (Err e, ups, l, clients)
           | (Inr _, ups, l, clients) \<Rightarrow>
               (case bridge_run b rds l clients of (res, later, l, clients) \<Rightarrow> (res, ups @ later, l, clients))))"

definition start_loop :: "bridge_args \<Rightarrow> pyfloat \<Rightarrow> int \<Rightarrow> position_source option \<Rightarrow> loop result" where
  "start_loop a start unix_ms source =
     (let hold = (ba_timeline a = ''grid'' \<and> ba_hold_until_file a \<noteq> None);
          l = \<lparr>bl_iteration = 0, bl_start = start, bl_next_update = start, bl_grid = None, bl_hold_pending = hold,
               bl_last_hold_note = Fin 0, bl_source = source\<rparr>
      in if ba_timeline a = ''grid''
         then bindR (new_grid (ba_update_hz a)) (\<lambda>g.
                Ok (l\<lparr>bl_grid := Some (if hold then g else anchor start unix_ms g)\<rparr>))
         else Ok l)"

section \<open>Every batch whole, in order\<close>

text \<open>The messages of an update for a broker; with several brokers its links are renamed first.\<close>

definition batch_messages :: "bool \<Rightarrow> (string \<times> string) list \<Rightarrow> update_rec \<Rightarrow> pydict result list" where
  "batch_messages many rename u =
     (case (if many then renamed_profiles rename (up_profiles u) else Ok (up_profiles u)) of
        Inl e \<Rightarrow> [Inl e] | Inr ps \<Rightarrow> matrix_messages ps (up_batch_id u))"

text \<open>The links of a server after whole batches in order.\<close>

fun applied ::
  "bool \<Rightarrow> (string \<times> string) list \<Rightarrow> update_rec list \<Rightarrow> (string \<times> link_ctl) list \<Rightarrow> (string \<times> link_ctl) list \<Rightarrow> bool"
  where
  "applied many rename [] ls ls' \<longleftrightarrow> ls' = ls"
| "applied many rename (u # us) ls ls' \<longleftrightarrow>
     (\<exists>ms. map Inr ms = batch_messages many rename u \<and> applied many rename us (fold (install_swap 0) ms ls) ls')"

definition links_of :: "server broker_client \<Rightarrow> (string \<times> link_ctl) list" where
  "links_of c = srv_links (snd (bc_state c))"

definition sent_ok :: "bool \<Rightarrow> update_rec \<Rightarrow> bool \<Rightarrow> server broker_client \<Rightarrow> server broker_client \<Rightarrow> bool" where
  "sent_ok many u ok c c' \<longleftrightarrow> bc_rename c' = bc_rename c
     \<and> ((\<not> ok \<and> links_of c' = links_of c) \<or> applied many (bc_rename c) [u] (links_of c) (links_of c'))"

lemma send_matrix_applied:
  assumes "send_matrix_profiles (handle_message valid other backend) net ps b st = (res, st')"
  shows "((\<exists>e. res = Err e) \<and> srv_links (snd st') = srv_links (snd st))
    \<or> (\<exists>ms. map Inr ms = matrix_messages ps b \<and> srv_links (snd st') = fold (install_swap 0) ms (srv_links (snd st)))"
proof -
  obtain c s c' s' where "st = (c, s)" "st' = (c', s')" by (cases st; cases st')
  with matrix_batch_all_or_nothing [of valid other backend net ps b c s res c' s'] assms show ?thesis by simp
qed

lemma send_one_ok:
  assumes "up_profiles u = profiles" and "up_batch_id u = b"
    and "send_one (handle_message valid other backend) profiles b c = (res, st')"
  shows "sent_ok True u (case res of Inl _ \<Rightarrow> False | Inr _ \<Rightarrow> True) c (c\<lparr>bc_state := st'\<rparr>)"
proof (cases "renamed_profiles (bc_rename c) profiles")
  case (Inl e)
  then show ?thesis using assms(3) by (auto simp: send_one_def sent_ok_def links_of_def)
next
  case (Inr ps)
  then have "send_matrix_profiles (handle_message valid other backend) (bc_net c) ps b (bc_state c) = (res, st')"
    using assms(3) by (simp add: send_one_def)
  from send_matrix_applied [OF this] Inr assms(1,2) show ?thesis
    by (auto simp: sent_ok_def links_of_def batch_messages_def)
qed

lemma mapR_Ok_all: "mapR f xs = Ok ys \<Longrightarrow> x \<in> set xs \<Longrightarrow> \<exists>y. f x = Ok y"
  by (induction xs arbitrary: ys) (auto simp: result_simps)

lemma transmit_ok:
  assumes "transmit (handle_message valid other backend) clients profiles b = (res, clients')"
    and "up_profiles u = profiles" and "up_batch_id u = b"
  shows "list_all2 (sent_ok (1 < length clients) u (res = Ok ())) clients clients'"
proof -
  consider "clients = []" | c where "clients = [c]" | c d q where "clients = c # d # q" by (metis neq_Nil_conv)
  then show ?thesis
  proof cases
    case 1
    then show ?thesis using assms(1) by (simp add: transmit_def)
  next
    case 2
    obtain r st where s: "send_matrix_profiles (handle_message valid other backend) (bc_net c) profiles b (bc_state c) = (r, st)"
      by (metis prod.exhaust)
    then have "res = bindR r (\<lambda>_. Ok ())" "clients' = [c\<lparr>bc_state := st\<rparr>]" using assms(1) 2 by (simp_all add: transmit_def)
    then show ?thesis
      using send_matrix_applied [OF s] 2 assms(2,3)
      by (cases r) (auto simp: sent_ok_def links_of_def batch_messages_def)
  next
    case 3
    define one where "one = send_one (handle_message valid other backend) profiles b"
    have c': "clients' = map (\<lambda>c. c\<lparr>bc_state := snd (one c)\<rparr>) clients"
      and res: "res = bindR (mapR (\<lambda>c. fst (one c)) clients) (\<lambda>_. Ok ())"
      using assms(1) 3 by (auto simp: transmit_def send_fanout_def one_def)
    have "sent_ok True u (res = Ok ()) c (c\<lparr>bc_state := snd (one c)\<rparr>)" if "c \<in> set clients" for c
    proof -
      have o: "sent_ok True u (case fst (one c) of Inl _ \<Rightarrow> False | Inr _ \<Rightarrow> True) c (c\<lparr>bc_state := snd (one c)\<rparr>)"
        using send_one_ok [OF assms(2,3)] by (metis one_def prod.collapse)
      show ?thesis
      proof (cases "res = Ok ()")
        case True
        then obtain ys where "mapR (\<lambda>c. fst (one c)) clients = Ok ys" using res by (auto simp: result_simps)
        from mapR_Ok_all [OF this that] o True show ?thesis by auto
      next
        case False
        with o show ?thesis by (auto simp: sent_ok_def)
      qed
    qed
    then have "list_all2 (sent_ok True u (res = Ok ())) clients clients'"
      by (auto simp: c' list_all2_conv_all_nth)
    then show ?thesis using 3 by simp
  qed
qed

lemma applied_Cons: "applied many rn [u] ls ls1 \<Longrightarrow> applied many rn us ls1 ls2 \<Longrightarrow> applied many rn (u # us) ls ls2"
  by auto

text \<open>What a run has done to a broker: all its batches if it ended well; all, or all but the last one, if it
  ended with an error.\<close>

definition run_ok :: "bool \<Rightarrow> update_rec list \<Rightarrow> bool \<Rightarrow> server broker_client \<Rightarrow> server broker_client \<Rightarrow> bool" where
  "run_ok many ups ok c c' \<longleftrightarrow> bc_rename c' = bc_rename c
     \<and> (applied many (bc_rename c) ups (links_of c) (links_of c')
        \<or> (\<not> ok \<and> applied many (bc_rename c) (butlast ups) (links_of c) (links_of c')))"

lemma run_ok_step:
  assumes "sent_ok many u True c c1" and "run_ok many us ok c1 c2"
  shows "run_ok many (u # us) ok c c2"
proof -
  have r: "bc_rename c2 = bc_rename c" "applied many (bc_rename c) [u] (links_of c) (links_of c1)"
    using assms by (auto simp: sent_ok_def run_ok_def)
  have "applied many (bc_rename c) us (links_of c1) (links_of c2)
      \<or> (\<not> ok \<and> us \<noteq> [] \<and> applied many (bc_rename c) (butlast us) (links_of c1) (links_of c2))"
    using assms by (cases "us = []") (auto simp: sent_ok_def run_ok_def)
  then consider "applied many (bc_rename c) us (links_of c1) (links_of c2)"
    | "\<not> ok" "us \<noteq> []" "applied many (bc_rename c) (butlast us) (links_of c1) (links_of c2)" by blast
  then show ?thesis
  proof cases
    case 1
    from applied_Cons [OF r(2) this] r(1) show ?thesis by (simp add: run_ok_def)
  next
    case 2
    from applied_Cons [OF r(2) this(3)] this(1,2) r(1) show ?thesis by (simp add: run_ok_def)
  qed
qed

lemma plan_turn_iteration: "plan_turn a rd l = Ok (p, l') \<Longrightarrow> bl_iteration l' = bl_iteration l"
  by (auto simp: plan_turn_def plan_wall_def plan_grid_def plan_run_def release_grid_def result_simps Let_def
      split: if_splits option.splits)

lemma after_update_iteration [simp]: "bl_iteration (after_update a rd l) = bl_iteration l + 1"
  by (simp add: after_update_def Let_def)

lemma plan_update_limit:
  assumes "plan_turn a rd l = Ok (PUpdate ph secs, l')" shows "0 < ba_iterations a \<Longrightarrow> bl_iteration l < ba_iterations a"
  using assms by (auto simp: plan_turn_def limits_reached_def split: if_splits)

lemma do_update_facts:
  assumes "do_update b rd ph secs l clients = (res, ups, l', clients')"
    and "bg_serve b = handle_message valid other backend"
  shows "(ups = [] \<and> clients' = clients \<and> res \<noteq> Ok ())
    \<or> (\<exists>u. ups = [u] \<and> up_batch_id u = batch_name (bl_iteration l) \<and> up_phase u = ph \<and> up_scenario_s u = secs
         \<and> bl_iteration l' = bl_iteration l + 1
         \<and> bl_hold_pending l' = bl_hold_pending l \<and> (bl_grid l \<noteq> None \<longrightarrow> bl_grid l' = bl_grid l)
         \<and> list_all2 (sent_ok (1 < length clients) u (res = Ok ())) clients clients')"
proof (cases "update_positions (bg_loads b) (bg_distance b) (bg_motion b) secs (rd_poll_now rd) (rd_frames rd) (bl_source l)")
  case (Inl e)
  then show ?thesis using assms(1) by (auto simp: do_update_def)
next
  case (Inr ps)
  obtain placed source where ps: "ps = (placed, source)" by (cases ps)
  show ?thesis
  proof (cases "bg_trace b placed")
    case (Inl e)
    then show ?thesis using assms(1) Inr ps by (auto simp: do_update_def)
  next
    case (Inr profiles)
    obtain r cs where t: "transmit (bg_serve b) clients profiles (batch_name (bl_iteration l)) = (r, cs)"
      by (metis prod.exhaust)
    have g: "after_update a rd (l\<lparr>bl_source := source\<rparr>) = l' \<Longrightarrow>
      bl_hold_pending l' = bl_hold_pending l \<and> (bl_grid l \<noteq> None \<longrightarrow> bl_grid l' = bl_grid l)" for a
      by (auto simp: after_update_def Let_def split: if_splits)
    show ?thesis
      using assms(1) \<open>update_positions _ _ _ _ _ _ _ = Inr ps\<close> ps Inr t g [of "bg_args b"]
        transmit_ok [OF t [unfolded assms(2)]]
      by (auto simp: do_update_def)
  qed
qed

lemma bridge_run_facts:
  assumes "bridge_run b rds l clients = (res, ups, l', clients')"
    and "bg_serve b = handle_message valid other backend"
  shows "list_all2 (run_ok (1 < length clients) ups (res = Ok ())) clients clients'
    \<and> map up_batch_id ups = map (\<lambda>i. batch_name (bl_iteration l + int i)) [0..<length ups]
    \<and> (0 < ba_iterations (bg_args b) \<longrightarrow> bl_iteration l + int (length ups) \<le> max (bl_iteration l) (ba_iterations (bg_args b)))"
  using assms(1)
proof (induction rds arbitrary: l clients res ups)
  case Nil
  then show ?case by (auto simp: run_ok_def intro: list_all2_refl)
next
  case (Cons rd rds)
  show ?case
  proof (cases "plan_turn (bg_args b) rd l")
    case (Inl e)
    then show ?thesis using Cons.prems by (auto simp: run_ok_def intro: list_all2_refl)
  next
    case (Inr pl)
    obtain p l1 where pl: "pl = (p, l1)" by (cases pl)
    have it: "bl_iteration l1 = bl_iteration l" using plan_turn_iteration Inr pl by blast
    show ?thesis
    proof (cases p)
      case PStop
      then show ?thesis using Cons.prems Inr pl by (auto simp: run_ok_def intro: list_all2_refl)
    next
      case PLater
      then show ?thesis using Cons.prems Cons.IH [of l1 clients res ups] Inr pl it by simp
    next
      case (PUpdate ph secs)
      have lim: "0 < ba_iterations (bg_args b) \<Longrightarrow> bl_iteration l < ba_iterations (bg_args b)"
        using plan_update_limit Inr pl PUpdate by blast
      obtain r us l2 cs where d: "do_update b rd ph secs l1 clients = (r, us, l2, cs)" by (metis prod_cases4)
      note f = do_update_facts [OF d assms(2)]
      show ?thesis
      proof (cases "r = Ok ()")
        case False
        then obtain e where e: "r = Inl e" by (cases r) auto
        then have x: "res = Inl e" "ups = us" "clients' = cs"
          using Cons.prems Inr pl PUpdate d by simp_all
        show ?thesis
        proof (cases "us = []")
          case True
          with f have "cs = clients" by auto
          with x True show ?thesis by (auto simp: run_ok_def intro: list_all2_refl)
        next
          case False
          with f obtain u where u: "us = [u]" "up_batch_id u = batch_name (bl_iteration l1)"
            "list_all2 (sent_ok (1 < length clients) u (r = Ok ())) clients cs" by auto
          have "list_all2 (run_ok (1 < length clients) us (res = Ok ())) clients cs"
            using u(3) by (rule list_all2_mono) (auto simp: sent_ok_def run_ok_def u(1) x(1) e)
          then show ?thesis using x u(1,2) it lim by (auto simp: max_def)
        qed
      next
        case True
        with f obtain u where u: "us = [u]" "up_batch_id u = batch_name (bl_iteration l1)"
          "bl_iteration l2 = bl_iteration l1 + 1" "list_all2 (sent_ok (1 < length clients) u True) clients cs" by auto
        obtain res2 later l3 cs2 where q: "bridge_run b rds l2 cs = (res2, later, l3, cs2)" by (metis prod_cases4)
        have x: "res = res2" "ups = u # later" "clients' = cs2" "l' = l3"
          using Cons.prems Inr pl PUpdate d True u(1) q by simp_all
        have len: "length cs = length clients" using u(4) by (metis list_all2_lengthD)
        from Cons.IH [of l2 cs res later] q x len
        have IH: "list_all2 (run_ok (1 < length clients) later (res = Ok ())) cs clients'"
          "map up_batch_id later = map (\<lambda>i. batch_name (bl_iteration l2 + int i)) [0..<length later]"
          "0 < ba_iterations (bg_args b) \<Longrightarrow> bl_iteration l2 + int (length later) \<le> max (bl_iteration l2) (ba_iterations (bg_args b))"
          by simp_all
        have 1: "list_all2 (run_ok (1 < length clients) ups (res = Ok ())) clients clients'"
          unfolding x(2) by (rule list_all2_trans [OF _ u(4) IH(1)]) (rule run_ok_step)
        have 2: "map up_batch_id ups = map (\<lambda>i. batch_name (bl_iteration l + int i)) [0..<length ups]"
          using IH(2) u(2,3) it x(2) by (simp add: upt_conv_Cons map_Suc_upt [symmetric] o_def add_ac del: upt_Suc)
        show ?thesis using 1 2 IH(3) lim u(3) it x(2) by auto
      qed
    qed
  qed
qed

text \<open>C1. A whole run of the bridge, whatever the network loses and however many brokers it drives: every broker
  ends with the batches of the updates wholly installed, in the order of the updates; only the last
  batch may be missing, wholly, and only if the run ended with an error. The batch ids are
  \<open>sionna-0\<close>, \<open>sionna-1\<close> and so on, and an iteration limit is kept.\<close>

theorem bridge_run_installs_in_order:
  assumes "start_loop (bg_args b) start unix_ms source = Ok l"
    and "bridge_run b rds l clients = (res, ups, l', clients')"
    and "bg_serve b = handle_message valid other backend"
  shows "list_all2 (run_ok (1 < length clients) ups (res = Ok ())) clients clients'
    \<and> map up_batch_id ups = map (\<lambda>i. batch_name (int i)) [0..<length ups]
    \<and> (if 0 < ba_iterations (bg_args b) then int (length ups) \<le> ba_iterations (bg_args b) else True)"
proof -
  have "bl_iteration l = 0" using assms(1) by (auto simp: start_loop_def Let_def result_simps split: if_splits)
  with bridge_run_facts [OF assms(2,3)] show ?thesis by auto
qed

section \<open>The grid is followed\<close>

text \<open>Grid points from \<open>lo\<close> on, strictly increasing, each update at the scenario time of its point.\<close>

fun grid_seq :: "pyfloat \<Rightarrow> int \<Rightarrow> update_rec list \<Rightarrow> bool" where
  "grid_seq hz lo [] \<longleftrightarrow> True"
| "grid_seq hz lo (u # us) \<longleftrightarrow>
     (case up_phase u of
        RunPhase i \<Rightarrow> lo \<le> i \<and> fdiv (fl i) hz = Ok (up_scenario_s u) \<and> grid_seq hz (i + 1) us
      | _ \<Rightarrow> False)"

fun held_then_grid :: "pyfloat \<Rightarrow> update_rec list \<Rightarrow> bool" where
  "held_then_grid hz [] \<longleftrightarrow> True"
| "held_then_grid hz (u # us) \<longleftrightarrow>
     (if up_phase u = HoldPhase then up_scenario_s u = Fin 0 \<and> held_then_grid hz us else grid_seq hz 0 (u # us))"

lemma grid_seq_held: "grid_seq hz 0 us \<Longrightarrow> held_then_grid hz us"
  by (cases us) (auto split: phase.splits)

lemma plan_run_facts:
  assumes "plan_run rd g l = Ok (p, l')" and "gl_update_hz g = hz"
  shows "p = PStop \<or> (\<exists>i t g'. p = PUpdate (RunPhase i) t \<and> l' = l\<lparr>bl_grid := Some g'\<rparr> \<and> following g \<le> i
    \<and> following g' = i + 1 \<and> gl_update_hz g' = hz \<and> fdiv (fl i) hz = Ok t)"
proof (cases "p = PStop")
  case False
  then obtain due i g' t where n: "due_at g (following g) = Ok due" "next_point (rd_woken rd) g = Ok (i, g')"
    "scenario_time g' i = Ok t" "p = PUpdate (RunPhase i) t" "l' = l\<lparr>bl_grid := Some g'\<rparr>"
    using assms(1) by (auto simp: plan_run_def result_simps split: if_splits)
  obtain a where a: "gl_anchor g = Some a" using n(1) by (auto simp: due_at_def split: option.splits)
  note f = next_point_facts [OF n(2) a]
  show ?thesis using n f assms(2) by (auto simp: scenario_time_def)
qed simp

lemma run_grid_seq:
  assumes "bridge_run b rds l clients = (res, ups, l', clients')"
    and "bg_serve b = handle_message valid other backend"
    and "bl_grid l = Some g" and "gl_update_hz g = hz" and "\<not> bl_hold_pending l"
  shows "grid_seq hz (following g) ups"
  using assms(1,3,4,5)
proof (induction rds arbitrary: l g clients res ups)
  case Nil
  then show ?case by simp
next
  case (Cons rd rds)
  show ?case
  proof (cases "plan_turn (bg_args b) rd l")
    case (Inl e)
    then show ?thesis using Cons.prems(1) by simp
  next
    case (Inr pl)
    obtain p l1 where pl: "pl = (p, l1)" by (cases pl)
    have "p = PStop \<or> (\<exists>i t g'. p = PUpdate (RunPhase i) t \<and> l1 = l\<lparr>bl_grid := Some g'\<rparr> \<and> following g \<le> i
        \<and> following g' = i + 1 \<and> gl_update_hz g' = hz \<and> fdiv (fl i) hz = Ok t)"
      using Inr pl Cons.prems(2-4) plan_run_facts [of rd g l p l1 hz]
      by (auto simp: plan_turn_def plan_grid_def release_grid_def Let_def split: if_splits)
    then show ?thesis
    proof
      assume "p = PStop"
      then show ?thesis using Cons.prems(1) Inr pl by simp
    next
      assume "\<exists>i t g'. p = PUpdate (RunPhase i) t \<and> l1 = l\<lparr>bl_grid := Some g'\<rparr> \<and> following g \<le> i
        \<and> following g' = i + 1 \<and> gl_update_hz g' = hz \<and> fdiv (fl i) hz = Ok t"
      then obtain i t g' where p: "p = PUpdate (RunPhase i) t" "l1 = l\<lparr>bl_grid := Some g'\<rparr>" "following g \<le> i"
        "following g' = i + 1" "gl_update_hz g' = hz" "fdiv (fl i) hz = Ok t" by blast
      obtain r us l2 cs where d: "do_update b rd (RunPhase i) t l1 clients = (r, us, l2, cs)" by (metis prod_cases4)
      from do_update_facts [OF d assms(2)] p(2) Cons.prems(4)
      consider "us = []" "r \<noteq> Ok ()"
        | u where "us = [u]" "up_phase u = RunPhase i" "up_scenario_s u = t" "bl_grid l2 = Some g'" "\<not> bl_hold_pending l2"
        by auto
      then show ?thesis
      proof cases
        case 1
        then show ?thesis using Cons.prems(1) Inr pl p(1) d by (cases r) simp_all
      next
        case 2
        show ?thesis
        proof (cases r)
          case (Inl e)
          then show ?thesis using Cons.prems(1) Inr pl p(1,3,6) d 2 by (auto split: sum.splits)
        next
          case r: (Inr x)
          obtain res2 later l3 cs2 where q: "bridge_run b rds l2 cs = (res2, later, l3, cs2)" by (metis prod_cases4)
          have x: "ups = u # later" "l' = l3" "clients' = cs2" using Cons.prems(1) Inr pl p(1) d r 2(1) q by simp_all
          from q x have "bridge_run b rds l2 cs = (res2, later, l', clients')" by simp
          from Cons.IH [OF this 2(4) p(5) 2(5)] show ?thesis using x(1) 2(2,3) p(3,4,6) by simp
        qed
      qed
    qed
  qed
qed

lemma bridge_run_rename_grid: "following (anchor t u g) = 0"
  by (simp add: following_def anchor_def)

lemma run_held:
  assumes "bridge_run b rds l clients = (res, ups, l', clients')"
    and "bg_serve b = handle_message valid other backend"
    and "bl_grid l = Some g" and "gl_update_hz g = hz" and "bl_hold_pending l"
  shows "held_then_grid hz ups"
  using assms(1,3,4,5)
proof (induction rds arbitrary: l clients res ups)
  case Nil
  then show ?case by simp
next
  case (Cons rd rds)
  show ?case
  proof (cases "0 < bl_iteration l \<and> rd_start_file rd \<and> \<not> (rd_stop rd \<or> limits_reached (bg_args b) (rd_now rd) l)")
    case True
    define l0 where "l0 = release_grid rd g l"
    have l0: "bl_grid l0 = Some (anchor (rd_anchor_now rd) (rd_unix_ms rd) g)" "\<not> bl_hold_pending l0"
      using True Cons.prems(4) by (simp_all add: l0_def release_grid_def)
    have nl: "\<not> (rd_stop rd \<or> limits_reached (bg_args b) (rd_now rd) l0)"
      using True Cons.prems(4) by (simp add: l0_def release_grid_def limits_reached_def)
    have held: "plan_grid rd g l = plan_run rd (anchor (rd_anchor_now rd) (rd_unix_ms rd) g) l0"
      using True l0 by (simp add: plan_grid_def Let_def l0_def [symmetric])
    have free: "plan_grid rd g' l0 = plan_run rd g' l0" if "bl_grid l0 = Some g'" for g'
      using l0(2) that by (simp add: plan_grid_def release_grid_def Let_def)
    have "plan_turn (bg_args b) rd l = plan_turn (bg_args b) rd l0"
      using True Cons.prems(2) nl l0(1) held free [OF l0(1)] by (simp add: plan_turn_def)
    then have "bridge_run b (rd # rds) l0 clients = (res, ups, l', clients') \<or> ups = []"
      using Cons.prems(1) by (cases "plan_turn (bg_args b) rd l0") simp_all
    moreover have "gl_update_hz (anchor (rd_anchor_now rd) (rd_unix_ms rd) g) = hz" using Cons.prems(3) by (simp add: anchor_def)
    ultimately consider "bridge_run b (rd # rds) l0 clients = (res, ups, l', clients')"
      "gl_update_hz (anchor (rd_anchor_now rd) (rd_unix_ms rd) g) = hz" | "ups = []" by blast
    then show ?thesis
    proof cases
      case 1
      from run_grid_seq [OF 1(1) assms(2) l0(1) 1(2) l0(2)] show ?thesis
        by (simp only: bridge_run_rename_grid grid_seq_held)
    qed simp
  next
    case False
    show ?thesis
    proof (cases "plan_turn (bg_args b) rd l")
      case (Inl e)
      then show ?thesis using Cons.prems(1) by simp
    next
      case (Inr pl)
      obtain p l1 where pl: "pl = (p, l1)" by (cases pl)
      have "(p = PStop \<or> p = PLater \<or> p = PUpdate HoldPhase (Fin 0)) \<and> bl_grid l1 = Some g \<and> bl_hold_pending l1"
        using Inr pl Cons.prems(2,4) False
        by (auto simp: plan_turn_def plan_grid_def release_grid_def Let_def split: if_splits)
      then consider "p = PStop" | "p = PLater" "bl_grid l1 = Some g" "bl_hold_pending l1"
        | "p = PUpdate HoldPhase (Fin 0)" "bl_grid l1 = Some g" "bl_hold_pending l1" by blast
      then show ?thesis
      proof cases
        case 1
        then show ?thesis using Cons.prems(1) Inr pl by simp
      next
        case 2
        then show ?thesis using Cons.prems(1,3) Inr pl Cons.IH [of l1 clients res ups] by simp
      next
        case 3
        obtain r us l2 cs where d: "do_update b rd HoldPhase (Fin 0) l1 clients = (r, us, l2, cs)" by (metis prod_cases4)
        from do_update_facts [OF d assms(2)] 3
        consider "us = []" "r \<noteq> Ok ()"
          | u where "us = [u]" "up_phase u = HoldPhase" "up_scenario_s u = Fin 0" "bl_grid l2 = Some g" "bl_hold_pending l2"
          by auto
        then show ?thesis
        proof cases
          case 1
          then show ?thesis using Cons.prems(1) Inr pl 3(1) d by (cases r) simp_all
        next
          case u: 2
          show ?thesis
          proof (cases r)
            case (Inl e)
            then show ?thesis using Cons.prems(1) Inr pl 3(1) d u by (auto split: sum.splits)
          next
            case r: (Inr x)
            obtain res2 later l3 cs2 where q: "bridge_run b rds l2 cs = (res2, later, l3, cs2)" by (metis prod_cases4)
            have x: "ups = u # later" "l' = l3" "clients' = cs2" using Cons.prems(1) Inr pl 3(1) d r u(1) q by simp_all
            from q x have "bridge_run b rds l2 cs = (res2, later, l', clients')" by simp
            from Cons.IH [OF this u(4) Cons.prems(3) u(5)] show ?thesis using x(1) u(2,3) by simp
          qed
        qed
      qed
    qed
  qed
qed

text \<open>C13. On the grid timeline every update is at the scenario time of its grid point, whatever the clock says
  and however long solves take: the scenario time is 0 while the start file is awaited, and from the
  anchor on the points strictly increase and each fixes its scenario time.\<close>

theorem grid_run_reproducible:
  assumes "start_loop (bg_args b) start unix_ms source = Ok l" and "ba_timeline (bg_args b) = ''grid''"
    and "bridge_run b rds l clients = (res, ups, l', clients')"
    and "bg_serve b = handle_message valid other backend"
  shows "if ba_hold_until_file (bg_args b) = None then grid_seq (ba_update_hz (bg_args b)) 0 ups
    else held_then_grid (ba_update_hz (bg_args b)) ups"
proof -
  obtain g where g: "new_grid (ba_update_hz (bg_args b)) = Ok g" and l: "bl_hold_pending l \<longleftrightarrow> ba_hold_until_file (bg_args b) \<noteq> None"
    "bl_grid l = Some (if ba_hold_until_file (bg_args b) \<noteq> None then g else anchor start unix_ms g)"
    using assms(1,2) by (auto simp: start_loop_def Let_def result_simps)
  have hz: "gl_update_hz g = ba_update_hz (bg_args b)" "gl_update_hz (anchor start unix_ms g) = ba_update_hz (bg_args b)"
    using g by (auto simp: new_grid_def anchor_def split: if_splits)
  show ?thesis
  proof (cases "ba_hold_until_file (bg_args b) = None")
    case True
    with l have "bl_grid l = Some (anchor start unix_ms g)" and "\<not> bl_hold_pending l" by simp_all
    from run_grid_seq [OF assms(3,4) this(1) hz(2) this(2)] True show ?thesis
      by (simp add: bridge_run_rename_grid)
  next
    case False
    with l have "bl_grid l = Some g" and "bl_hold_pending l" by simp_all
    from run_held [OF assms(3,4) this(1) hz(1) this(2)] False show ?thesis by (simp only: if_False)
  qed
qed

section \<open>Witnesses\<close>

text \<open>Two turns of a dry run without nodes, four seconds apart, on a grid of one point a second.\<close>

definition demo_args :: bridge_args where
  "demo_args = default_args\<lparr>ba_timeline := ''grid'', ba_update_hz := Fin 1, ba_duration := Fin 0\<rparr>"

definition demo_bridge :: "server bridge" where
  "demo_bridge = \<lparr>bg_args = demo_args, bg_loads = (\<lambda>_. None), bg_distance = (\<lambda>_ _. Fin 0), bg_motion = [],
     bg_trace = (\<lambda>_. Ok []), bg_serve = demo_serve\<rparr>"

definition demo_reading :: "pyfloat \<Rightarrow> reading" where
  "demo_reading t = \<lparr>rd_stop = False, rd_now = t, rd_anchor_now = t, rd_unix_ms = 7, rd_start_file = False, rd_due_now = t,
     rd_stop_waiting = False, rd_woken = t, rd_poll_now = t, rd_frames = [], rd_done = t\<rparr>"

definition demo_loop :: loop where
  "demo_loop = \<lparr>bl_iteration = 0, bl_start = Fin 100, bl_next_update = Fin 100,
     bl_grid = Some \<lparr>gl_update_hz = Fin 1, gl_anchor = Some (Fin 100), gl_anchor_unix_ms = Some 7, gl_last = None, gl_skipped = 0\<rparr>,
     bl_hold_pending = False, bl_last_hold_note = Fin 0, bl_source = None\<rparr>"

lemma demo_start: "start_loop (bg_args demo_bridge) (Fin 100) 7 None = Ok demo_loop"
  by (simp add: start_loop_def demo_bridge_def demo_args_def default_args_def new_grid_def anchor_def demo_loop_def)

lemma demo_run:
  obtains l ups where "bridge_run demo_bridge [demo_reading (Fin 100), demo_reading (Fin 104)] demo_loop [] = (Ok (), ups, l, [])"
    and "map up_phase ups = [RunPhase 0, RunPhase 4]" and "map up_scenario_s ups = [Fin 0, Fin 4]"
  by (simp add: demo_bridge_def demo_reading_def demo_loop_def demo_args_def default_args_def plan_turn_def limits_reached_def
      plan_grid_def release_grid_def plan_run_def due_at_def next_point_def following_def scenario_time_def fsub_def ffloor_def
      int_of_rat_def fl_def float_eval do_update_def update_positions_def transmit_def after_update_def Let_def)

theorem grid_run_reproducible_witness:
  "\<exists>ups l. bridge_run demo_bridge [demo_reading (Fin 100), demo_reading (Fin 104)] demo_loop [] = (Ok (), ups, l, [])
    \<and> map up_phase ups = [RunPhase 0, RunPhase 4] \<and> map up_scenario_s ups = [Fin 0, Fin 4]
    \<and> (if ba_hold_until_file (bg_args demo_bridge) = None then grid_seq (ba_update_hz (bg_args demo_bridge)) 0 ups
       else held_then_grid (ba_update_hz (bg_args demo_bridge)) ups)"
proof -
  obtain l ups where r: "bridge_run demo_bridge [demo_reading (Fin 100), demo_reading (Fin 104)] demo_loop [] = (Ok (), ups, l, [])"
    and p: "map up_phase ups = [RunPhase 0, RunPhase 4]" "map up_scenario_s ups = [Fin 0, Fin 4]" by (rule demo_run)
  have "ba_timeline (bg_args demo_bridge) = ''grid''" "bg_serve demo_bridge = demo_serve"
    by (simp_all add: demo_bridge_def demo_args_def)
  note f = grid_run_reproducible [OF demo_start this(1) r this(2)]
  show ?thesis by (rule exI [of _ ups], rule exI [of _ l]) (intro conjI r p f)
qed

text \<open>The same run against two brokers, one of which loses its answers.\<close>

definition demo_clients :: "server broker_client list" where
  "demo_clients =
     [\<lparr>bc_endpoint = ''a'', bc_rename = [], bc_net = (\<lambda>_. Delivered), bc_state = (fresh_chan, one_link_server)\<rparr>,
      \<lparr>bc_endpoint = ''b'', bc_rename = [(''ue0'', ''ue2'')], bc_net = (\<lambda>_. ReplyLost), bc_state = (fresh_chan, one_link_server)\<rparr>]"

theorem bridge_run_installs_in_order_witness:
  "\<exists>res ups l clients. bridge_run demo_bridge [demo_reading (Fin 100), demo_reading (Fin 104)] demo_loop demo_clients
      = (res, ups, l, clients)
    \<and> list_all2 (run_ok (1 < length demo_clients) ups (res = Ok ())) demo_clients clients
    \<and> map up_batch_id ups = map (\<lambda>i. batch_name (int i)) [0..<length ups]
    \<and> (if 0 < ba_iterations (bg_args demo_bridge) then int (length ups) \<le> ba_iterations (bg_args demo_bridge) else True)"
proof -
  obtain res ups l clients
    where r: "bridge_run demo_bridge [demo_reading (Fin 100), demo_reading (Fin 104)] demo_loop demo_clients = (res, ups, l, clients)"
    by (metis prod_cases4)
  have "bg_serve demo_bridge = demo_serve" by (simp add: demo_bridge_def)
  note f = bridge_run_installs_in_order [OF demo_start r this]
  show ?thesis by (rule exI [of _ res], rule exI [of _ ups], rule exI [of _ l], rule exI [of _ clients]) (intro conjI r f [THEN conjunct1] f [THEN conjunct2, THEN conjunct1] f [THEN conjunct2, THEN conjunct2])
qed

end
