(* ===== verification/BridgeProfiles.thy ===== *)
theory BridgeProfiles
  imports BridgeLoop "HOL-Library.List_Lexorder" "HOL-Library.Char_ord"
begin

text \<open>
  From solved paths to the profiles of an update, class \<open>SionnaScenario\<close> of
  \<^verbatim>\<open>apps/sionna_bridge/run_bridge.py\<close>: the slices of Sionna's tensors, the drawable lines of the
  strongest paths, the profile and status of a link, the grouping of links into solves, the digest of
  a batch and the environment record. Sionna is the argument \<open>solver\<close>: what it answers for a scene, its
  carrier, its arrays and its devices. A numpy array is its shape and its entries. Times of the stages
  are not modelled. The theorems: grouping changes nothing (every link gets the profile a solve of its
  own would give it), every batch is complete and can be sent, the lines start and end at their nodes.
\<close>

section \<open>Arrays\<close>

record 'a ndarray =
  nd_shape :: "nat list"
  nd_entry :: "nat list \<Rightarrow> 'a"

datatype index = At nat | All

fun index_bad :: "index list \<Rightarrow> nat list \<Rightarrow> bool" where
  "index_bad (At i # is) (n # sh) \<longleftrightarrow> n \<le> i \<or> index_bad is sh"
| "index_bad (All # is) (n # sh) \<longleftrightarrow> index_bad is sh"
| "index_bad is [] \<longleftrightarrow> is \<noteq> []"
| "index_bad [] sh \<longleftrightarrow> False"

fun rest_shape :: "index list \<Rightarrow> nat list \<Rightarrow> nat list" where
  "rest_shape (At i # is) (n # sh) = rest_shape is sh"
| "rest_shape (All # is) (n # sh) = n # rest_shape is sh"
| "rest_shape is [] = []"
| "rest_shape [] sh = sh"

fun weave :: "index list \<Rightarrow> nat list \<Rightarrow> nat list" where
  "weave (At i # is) xs = i # weave is xs"
| "weave (All # is) (x # xs) = x # weave is xs"
| "weave is [] = []"
| "weave [] xs = xs"

text \<open>\<open>a[i, :, j]\<close>; axes without an index are kept.\<close>

definition nd_get :: "index list \<Rightarrow> 'a ndarray \<Rightarrow> 'a ndarray result" where
  "nd_get is a =
     (if index_bad is (nd_shape a) then Err IndexError
      else Ok \<lparr>nd_shape = rest_shape is (nd_shape a), nd_entry = (\<lambda>xs. nd_entry a (weave is xs))\<rparr>)"

text \<open>The entries an array of one axis is iterated over.\<close>

definition nd_list :: "'a ndarray \<Rightarrow> 'a list" where
  "nd_list a = map (\<lambda>i. nd_entry a [i]) [0..<hd (nd_shape a)]"

definition antenna_slice :: "'a ndarray \<Rightarrow> nat \<Rightarrow> nat \<Rightarrow> int \<Rightarrow> int \<Rightarrow> bool \<Rightarrow> 'a ndarray result" where
  "antenna_slice a rx_index tx_index rxp txp has_time =
     (let n = length (nd_shape a)
      in if has_time then
           if n = 6 then nd_get [At rx_index, At (nat rxp), At tx_index, At (nat txp), All, At 0] a
           else if n = 4 then
             if rxp \<noteq> 0 \<or> txp \<noteq> 0 then Err (RuntimeError ''Sionna CIR omitted antenna axes for a multi-antenna link'')
             else nd_get [At rx_index, At tx_index, All, At 0] a
           else Err (RuntimeError ''unexpected Sionna tensor rank'')
         else if n = 5 then nd_get [At rx_index, At (nat rxp), At tx_index, At (nat txp), All] a
         else if n = 3 then nd_get [At rx_index, At tx_index, All] a
         else Err (RuntimeError ''unexpected Sionna tensor rank''))"

definition siso_slice :: "'a ndarray \<Rightarrow> nat \<Rightarrow> nat \<Rightarrow> bool \<Rightarrow> 'a ndarray result" where
  "siso_slice a rx_index tx_index has_time = antenna_slice a rx_index tx_index 0 0 has_time"

definition path_slice :: "'a ndarray \<Rightarrow> nat \<Rightarrow> nat \<Rightarrow> nat \<Rightarrow> 'a ndarray result" where
  "path_slice a rx_index tx_index trailing =
     (let n = length (nd_shape a)
      in if n = 6 + trailing then nd_get [All, At rx_index, At 0, At tx_index, At 0] a
         else if n = 4 + trailing then nd_get [All, At rx_index, At tx_index] a
         else Err (RuntimeError ''unexpected Sionna path tensor rank''))"

section \<open>Lines to draw\<close>

record polyline =
  pl_gain_db :: pyfloat
  pl_bounces :: nat
  pl_interactions :: "string list"
  pl_points :: "pyfloat list list"

definition interaction_label :: "int \<Rightarrow> string" where
  "interaction_label k =
     (case map_of [(1, ''specular''), (2, ''diffuse''), (4, ''refraction''), (8, ''diffraction'')] k of
        None \<Rightarrow> str_int k | Some l \<Rightarrow> l)"

text \<open>The bounces of a path: the loop over the depths, up to the first without an interaction.\<close>

fun bounces ::
  "pyfloat ndarray \<Rightarrow> int ndarray \<Rightarrow> nat \<Rightarrow> nat list \<Rightarrow> (string \<times> pyfloat list) list result" where
  "bounces vertices interactions p [] = Ok []"
| "bounces vertices interactions p (d # ds) =
     bindR (nd_get [At d, At p] interactions) (\<lambda>k.
       if nd_entry k [] = 0 then Ok []
       else bindR (nd_get [At d, At p] vertices) (\<lambda>v.
            bindR (bounces vertices interactions p ds) (\<lambda>rest.
              Ok ((interaction_label (nd_entry k []), map (round_dec 3) (nd_list v)) # rest))))"

definition vec_point :: "vec3 \<Rightarrow> pyfloat list" where
  "vec_point v = (case v of (x, y, z) \<Rightarrow> map (round_dec 3) [x, y, z])"

text \<open>The paths with a gain, the strongest first, at most \<open>limit\<close> of them.\<close>

definition ranked_paths :: "nat \<Rightarrow> pyfloat option list \<Rightarrow> int \<Rightarrow> (pyfloat \<times> nat) list" where
  "ranked_paths path_count gains limit =
     take (nat limit) (sort_desc fst
       (List.map_filter (\<lambda>(i, g). map_option (\<lambda>x. (x, i)) g) (enumerate 0 (take path_count gains))))"

definition polyline_of ::
  "pyfloat ndarray \<Rightarrow> int ndarray \<Rightarrow> nat \<Rightarrow> vec3 \<Rightarrow> vec3 \<Rightarrow> pyfloat \<times> nat \<Rightarrow> polyline result" where
  "polyline_of vertices interactions max_depth src dst gi =
     bindR (bounces vertices interactions (snd gi) [0..<max_depth]) (\<lambda>bs.
       Ok \<lparr>pl_gain_db = round_dec 2 (fst gi), pl_bounces = length bs, pl_interactions = map fst bs,
           pl_points = vec_point src # map snd bs @ [vec_point dst]\<rparr>)"

definition path_polylines ::
  "pyfloat ndarray \<Rightarrow> int ndarray \<Rightarrow> vec3 \<Rightarrow> vec3 \<Rightarrow> pyfloat option list \<Rightarrow> int \<Rightarrow> polyline list result" where
  "path_polylines vertices interactions src dst gains limit =
     (let max_depth = (case nd_shape vertices of [] \<Rightarrow> 0 | n # _ \<Rightarrow> n);
          path_count = (if 1 < length (nd_shape vertices) then nd_shape vertices ! 1 else 0)
      in mapR (polyline_of vertices interactions max_depth src dst) (ranked_paths path_count gains limit))"

section \<open>The scene and what is solved in it\<close>

record device =
  dv_position :: vec3
  dv_velocity :: vec3

record rt_scene =
  rs_frequency :: pyfloat
  rs_bandwidth :: pyfloat
  rs_tx_array :: array_spec
  rs_rx_array :: array_spec
  rs_transmitters :: "(string \<times> device) list"
  rs_receivers :: "(string \<times> device) list"

text \<open>The arrays of a solve. The geometry may be absent, and reading it may raise: the text of the exception.\<close>

record solved =
  so_coefficients :: "pycomplex ndarray"
  so_delays :: "pyfloat ndarray"
  so_dopplers :: "pyfloat ndarray"
  so_valid :: "bool ndarray"
  so_geometry :: "string + (pyfloat ndarray \<times> int ndarray) option"

type_synonym solver = "bridge_args \<Rightarrow> rt_scene \<Rightarrow> solved result"

record sionna =
  si_args :: bridge_args
  si_definition :: scenario_def
  si_scene :: rt_scene
  si_tx_indices :: "(string \<times> nat) list"
  si_rx_indices :: "(string \<times> nat) list"
  si_positions :: "(string \<times> vec3) list"
  si_velocities :: "(string \<times> vec3) list"
  si_position_sources :: "(string \<times> position_origin) list"
  si_polylines_error :: "string option"

text \<open>Looking a key up in a dict.\<close>

definition look_up :: "(string \<times> 'v) list \<Rightarrow> string \<Rightarrow> 'v result" where
  "look_up d k = (case map_of d k of None \<Rightarrow> Err (KeyError k) | Some v \<Rightarrow> Ok v)"

definition configure_arrays :: "array_spec \<Rightarrow> array_spec \<Rightarrow> rt_scene \<Rightarrow> rt_scene" where
  "configure_arrays tx rx s = s\<lparr>rs_tx_array := tx, rs_rx_array := rx\<rparr>"

definition str_endswith :: "string \<Rightarrow> string \<Rightarrow> bool" where
  "str_endswith suf s \<longleftrightarrow> length suf \<le> length s \<and> drop (length s - length suf) s = suf"

definition remove_suffix :: "string \<Rightarrow> string \<Rightarrow> string" where
  "remove_suffix suf s = (if suf \<noteq> [] \<and> str_endswith suf s then take (length s - length suf) s else s)"

definition device_indices :: "string \<Rightarrow> string list \<Rightarrow> (string \<times> nat) list" where
  "device_indices suf names =
     fold (\<lambda>(i, n). AList.update (remove_suffix suf n) i) (enumerate 0 names) []"

text \<open>A device of every node, at its start with its velocity at time 0.\<close>

definition start_device :: "distance \<Rightarrow> string \<times> motion_spec \<Rightarrow> (string \<times> device) result" where
  "start_device d nm =
     bindR (velocity_at d (snd nm) (Fin 0)) (\<lambda>v. Ok (fst nm, \<lparr>dv_position = mt_start (snd nm), dv_velocity = v\<rparr>))"

definition node_motions :: "scenario_def \<Rightarrow> (string \<times> motion_spec) list" where
  "node_motions sd = map (\<lambda>n. (fst n, sn_motion (snd n))) (sd_nodes sd)"

text \<open>\<open>__init__\<close> after the scene file is loaded. The orders in which the scene lists its transmitters and
  receivers are Sionna's: \<open>order\<close> takes the names in the order they were added.\<close>

definition init_sionna :: "distance \<Rightarrow> (string list \<Rightarrow> string list) \<Rightarrow> bridge_args \<Rightarrow> sionna result" where
  "init_sionna d order a =
     bindR (effective_scenario a) (\<lambda>sd.
       let motion = node_motions sd in
       case sd_links sd of
         [] \<Rightarrow> Err IndexError
       | first # _ \<Rightarrow>
           bindR (look_up (sd_nodes sd) (sl_source first)) (\<lambda>source.
           bindR (look_up (sd_nodes sd) (sl_destination first)) (\<lambda>destination.
           bindR (mapR (start_device d) motion) (\<lambda>devices.
             let txs = map (\<lambda>nd. (fst nd @ ''_tx'', snd nd)) devices; rxs = map (\<lambda>nd. (fst nd @ ''_rx'', snd nd)) devices
             in Ok \<lparr>si_args = a, si_definition = sd,
                    si_scene = configure_arrays (sn_tx source) (sn_rx destination)
                      \<lparr>rs_frequency = ba_downlink_frequency_hz a, rs_bandwidth = ba_sample_rate_hz a,
                       rs_tx_array = default_array, rs_rx_array = default_array, rs_transmitters = txs, rs_receivers = rxs\<rparr>,
                    si_tx_indices = device_indices ''_tx'' (order (map fst txs)),
                    si_rx_indices = device_indices ''_rx'' (order (map fst rxs)),
                    si_positions = map (\<lambda>nm. (fst nm, mt_start (snd nm))) motion,
                    si_velocities = map (\<lambda>nd. (fst nd, dv_velocity (snd nd))) devices,
                    si_position_sources = map (\<lambda>nm. (fst nm, Scripted)) motion, si_polylines_error = None\<rparr>))))"

text \<open>The loop of \<open>update_positions\<close> that puts the placed nodes into the state and moves their devices.\<close>

definition move_device :: "string \<Rightarrow> placed \<Rightarrow> (string \<times> device) list \<Rightarrow> (string \<times> device) list" where
  "move_device name p =
     map (\<lambda>nd. if fst nd = name then (name, \<lparr>dv_position = pc_position p, dv_velocity = pc_velocity p\<rparr>) else nd)"

definition place_node :: "string \<times> placed \<Rightarrow> sionna \<Rightarrow> sionna" where
  "place_node np si =
     (case np of (n, p) \<Rightarrow>
        si\<lparr>si_positions := AList.update n (pc_position p) (si_positions si),
           si_velocities := AList.update n (pc_velocity p) (si_velocities si),
           si_position_sources := AList.update n (pc_origin p) (si_position_sources si),
           si_scene := (si_scene si)
             \<lparr>rs_transmitters := move_device (n @ ''_tx'') p (rs_transmitters (si_scene si)),
              rs_receivers := move_device (n @ ''_rx'') p (rs_receivers (si_scene si))\<rparr>\<rparr>)"

definition place_nodes :: "(string \<times> placed) list \<Rightarrow> sionna \<Rightarrow> sionna" where
  "place_nodes placed si = fold place_node placed si"

definition trace :: "solver \<Rightarrow> bridge_args \<Rightarrow> pyfloat \<Rightarrow> rt_scene \<Rightarrow> rt_scene \<times> solved result" where
  "trace solver a carrier scene = (let scene = scene\<lparr>rs_frequency := carrier\<rparr> in (scene, solver a scene))"

section \<open>The profile of a link\<close>

record lane_status =
  ln_record :: channel_record
  ln_rx_port :: int
  ln_tx_port :: int

record traced_link =
  ls_first :: lane_status
  ls_nt :: int
  ls_nr :: int
  ls_lanes :: "lane_status list"
  ls_source :: string
  ls_destination :: string
  ls_model :: string
  ls_direction :: string
  ls_carrier_hz :: pyfloat
  ls_polylines :: "polyline list option"

text \<open>The rays of one pair of ports: the four slices in step, as far as the shortest, only the valid paths.\<close>

definition lane_rays :: "solved \<Rightarrow> nat \<Rightarrow> nat \<Rightarrow> int \<Rightarrow> int \<Rightarrow> ray list result" where
  "lane_rays so rx_index tx_index rxp txp =
     bindR (antenna_slice (so_coefficients so) rx_index tx_index rxp txp True) (\<lambda>cs.
     bindR (antenna_slice (so_delays so) rx_index tx_index rxp txp False) (\<lambda>ds.
     bindR (antenna_slice (so_valid so) rx_index tx_index rxp txp False) (\<lambda>vs.
     bindR (antenna_slice (so_dopplers so) rx_index tx_index rxp txp False) (\<lambda>fs.
       Ok (map (\<lambda>(c, d, f, v). \<lparr>delay_seconds = d, coefficient = c, doppler_hz = f\<rparr>)
             (filter (\<lambda>(c, d, f, v). v)
               (zip (nd_list cs) (zip (nd_list ds) (zip (nd_list fs) (nd_list vs))))))))))"

definition link_params :: "bridge_args \<Rightarrow> tap_params" where
  "link_params a = (default_params (ba_sample_rate_hz a))\<lparr>gain_offset_db := ba_gain_offset_db a\<rparr>"

definition lane_of ::
  "mathlib \<Rightarrow> bridge_args \<Rightarrow> solved \<Rightarrow> nat \<Rightarrow> nat \<Rightarrow> int \<times> int \<Rightarrow> (ray list \<times> lane_profile \<times> lane_status) result" where
  "lane_of lib a so rx_index tx_index ports =
     (case ports of (rxp, txp) \<Rightarrow>
       bindR (lane_rays so rx_index tx_index rxp txp) (\<lambda>rays.
       bindR (rays_to_taps lib (link_params a) rays) (\<lambda>taps.
       bindR (channel_status lib [] rays taps (Some (ba_sample_rate_hz a))) (\<lambda>st.
         Ok (rays, \<lparr>rx_port = rxp, tx_port = txp, lane_taps = taps\<rparr>,
             \<lparr>ln_record = st, ln_rx_port = rxp, ln_tx_port = txp\<rparr>)))))"

text \<open>The gains of the paths of lane (0, 0); none for a path that is not valid or has no power.\<close>

definition path_gains :: "mathlib \<Rightarrow> pycomplex list \<Rightarrow> bool list \<Rightarrow> pyfloat option list" where
  "path_gains lib cs vs =
     map (\<lambda>(c, v). if v \<and> flt (Fin 0) (m_abs lib c) then Some (fmul (Fin 20) (m_log10 lib (m_abs lib c))) else None)
       (zip cs vs)"

definition link_polylines ::
  "mathlib \<Rightarrow> sionna \<Rightarrow> solved \<Rightarrow> pyfloat ndarray \<Rightarrow> int ndarray \<Rightarrow> nat \<Rightarrow> nat \<Rightarrow> scenario_link \<Rightarrow> polyline list result"
  where
  "link_polylines lib si so vertices interactions rx_index tx_index l =
     bindR (antenna_slice (so_coefficients so) rx_index tx_index 0 0 True) (\<lambda>cs.
     bindR (antenna_slice (so_valid so) rx_index tx_index 0 0 False) (\<lambda>vs.
     bindR (path_slice vertices rx_index tx_index 1) (\<lambda>points.
     bindR (path_slice interactions rx_index tx_index 0) (\<lambda>kinds.
     bindR (look_up (si_positions si) (sl_source l)) (\<lambda>src.
     bindR (look_up (si_positions si) (sl_destination l)) (\<lambda>dst.
       path_polylines points kinds src dst (path_gains lib (nd_list cs) (nd_list vs))
         (ba_path_polylines (si_args si))))))))"

definition link_id_of :: "scenario_link \<Rightarrow> string" where
  "link_id_of l = control_link_id (sl_source l) (sl_destination l) (sl_model l)"

definition total_power_db :: "mathlib \<Rightarrow> ray list \<Rightarrow> pyfloat option" where
  "total_power_db lib rays =
     (let power = fold (\<lambda>r acc. fadd acc (ray_power lib r)) rays (Fin 0)
      in if flt (Fin 0) power then Some (to_db lib power) else None)"

text \<open>The matrix of a link: a lane for every pair of ports, row by row, with its rays and its status.\<close>

definition link_lanes ::
  "mathlib \<Rightarrow> sionna \<Rightarrow> solved \<Rightarrow> scenario_link \<Rightarrow> (nat \<times> nat \<times> int \<times> int \<times> (ray list \<times> lane_profile \<times> lane_status) list) result"
  where
  "link_lanes lib si so l =
     bindR (look_up (si_tx_indices si) (sl_source l)) (\<lambda>tx_index.
     bindR (look_up (si_rx_indices si) (sl_destination l)) (\<lambda>rx_index.
     bindR (look_up (sd_nodes (si_definition si)) (sl_source l)) (\<lambda>source.
     bindR (look_up (sd_nodes (si_definition si)) (sl_destination l)) (\<lambda>destination.
       let nt = antenna_count (sn_tx source); nr = antenna_count (sn_rx destination)
       in bindR (mapR (lane_of lib (si_args si) so rx_index tx_index) (port_pairs nr nt)) (\<lambda>lanes.
            Ok (rx_index, tx_index, nr, nt, lanes))))))"

definition link_profile ::
  "mathlib \<Rightarrow> sionna \<Rightarrow> solved \<Rightarrow> (pyfloat ndarray \<times> int ndarray) option \<Rightarrow> pyfloat \<Rightarrow> scenario_link
     \<Rightarrow> (matrix_profile \<times> traced_link) result" where
  "link_profile lib si so geometry carrier l =
     bindR (link_lanes lib si so l) (\<lambda>(rx_index, tx_index, nr, nt, lanes).
       case map (\<lambda>x. snd (snd x)) lanes of
         [] \<Rightarrow> Err IndexError
       | first # rest \<Rightarrow>
           bindR (case geometry of
                    None \<Rightarrow> Ok None
                  | Some (vertices, interactions) \<Rightarrow>
                      bindR (link_polylines lib si so vertices interactions rx_index tx_index l) (\<lambda>ps. Ok (Some ps)))
             (\<lambda>polylines.
             Ok (\<lparr>mp_nt = nt, mp_nr = nr, mp_lanes = map (\<lambda>x. fst (snd x)) lanes\<rparr>,
                 \<lparr>ls_first = first\<lparr>ln_record := (ln_record first)
                    \<lparr>cr_link_id := link_id_of l, cr_total_power_db := total_power_db lib (concat (map fst lanes))\<rparr>\<rparr>,
                  ls_nt = nt, ls_nr = nr, ls_lanes = first # rest, ls_source = sl_source l,
                  ls_destination = sl_destination l, ls_model = sl_model l, ls_direction = sl_direction l,
                  ls_carrier_hz = carrier, ls_polylines = polylines\<rparr>)))"

text \<open>The ray geometry of a solve; an exception while it is read switches the lines off for good.\<close>

definition ray_geometry :: "sionna \<Rightarrow> solved \<Rightarrow> (pyfloat ndarray \<times> int ndarray) option \<times> string option" where
  "ray_geometry si so =
     (if 0 < ba_path_polylines (si_args si) \<and> si_polylines_error si = None
      then (case so_geometry so of Inl e \<Rightarrow> (None, Some e) | Inr g \<Rightarrow> (g, None))
      else (None, si_polylines_error si))"

definition update_all_items :: "('k \<times> 'v) list \<Rightarrow> ('k \<times> 'v) list \<Rightarrow> ('k \<times> 'v) list" where
  "update_all_items new d = fold (\<lambda>(k, v). AList.update k v) new d"

definition profiles_of ::
  "mathlib \<Rightarrow> solved \<Rightarrow> scenario_link list \<Rightarrow> pyfloat \<Rightarrow> sionna
     \<Rightarrow> ((string \<times> matrix_profile) list \<times> traced_link list \<times> sionna) result" where
  "profiles_of lib so links carrier si =
     (case ray_geometry si so of (geometry, e) \<Rightarrow>
        bindR (mapR (link_profile lib si so geometry carrier) links) (\<lambda>rs.
          Ok (update_all_items (zip (map link_id_of links) (map fst rs)) [], map snd rs, si\<lparr>si_polylines_error := e\<rparr>)))"

section \<open>All links, grouped into solves\<close>

type_synonym solve_key = "pyfloat \<times> array_spec \<times> array_spec"

definition link_frequency :: "bridge_args \<Rightarrow> scenario_link \<Rightarrow> pyfloat" where
  "link_frequency a l =
     (if sl_direction l = ''downlink'' then ba_downlink_frequency_hz a else ba_uplink_frequency_hz a)"

definition solve_key_of :: "bridge_args \<Rightarrow> scenario_def \<Rightarrow> scenario_link \<Rightarrow> solve_key result" where
  "solve_key_of a sd l =
     bindR (look_up (sd_nodes sd) (sl_source l)) (\<lambda>source.
     bindR (look_up (sd_nodes sd) (sl_destination l)) (\<lambda>destination.
       Ok (link_frequency a l, sn_tx source, sn_rx destination)))"

definition add_to_group :: "'k \<Rightarrow> 'v \<Rightarrow> ('k \<times> 'v list) list \<Rightarrow> ('k \<times> 'v list) list" where
  "add_to_group k v groups = AList.update k ((case map_of groups k of None \<Rightarrow> [] | Some vs \<Rightarrow> vs) @ [v]) groups"

definition group_link ::
  "bridge_args \<Rightarrow> scenario_def \<Rightarrow> scenario_link \<Rightarrow> (solve_key \<times> scenario_link list) list
     \<Rightarrow> (solve_key \<times> scenario_link list) list result" where
  "group_link a sd l groups = bindR (solve_key_of a sd l) (\<lambda>k. Ok (add_to_group k l groups))"

type_synonym traced = "(string \<times> matrix_profile) list \<times> traced_link list \<times> sionna"

text \<open>One group: the arrays, the carrier, the solve, the profiles of its links.\<close>

definition trace_group ::
  "mathlib \<Rightarrow> solver \<Rightarrow> solve_key \<times> scenario_link list \<Rightarrow> traced \<Rightarrow> traced result" where
  "trace_group lib solver g acc =
     (case (g, acc) of (((frequency, tx, rx), links), (profiles, statuses, si)) \<Rightarrow>
        case trace solver (si_args si) frequency (configure_arrays tx rx (si_scene si)) of (scene, so) \<Rightarrow>
          bindR so (\<lambda>so. bindR (profiles_of lib so links frequency (si\<lparr>si_scene := scene\<rparr>)) (\<lambda>(ps, sts, si).
            Ok (update_all_items ps profiles, statuses @ sts, si))))"

definition trace_all_profiles :: "mathlib \<Rightarrow> solver \<Rightarrow> sionna \<Rightarrow> traced result" where
  "trace_all_profiles lib solver si =
     bindR (foldR (group_link (si_args si) (si_definition si)) (sd_links (si_definition si)) []) (\<lambda>groups.
       foldR (trace_group lib solver) groups ([], [], si))"

text \<open>The tracer the update loop uses.\<close>

definition sionna_trace :: "mathlib \<Rightarrow> solver \<Rightarrow> sionna \<Rightarrow> (string \<times> placed) list \<Rightarrow> (string \<times> matrix_profile) list result" where
  "sionna_trace lib solver si placed = bindR (trace_all_profiles lib solver (place_nodes placed si)) (\<lambda>t. Ok (fst t))"

section \<open>Grouping keeps every link, under its own key\<close>

lemma look_up_Ok [simp]: "look_up d k = Ok v \<longleftrightarrow> map_of d k = Some v"
  by (simp add: look_up_def split: option.split)

lemma keys_update_all: "fst ` set (update_all_items new d) = fst ` set d \<union> fst ` set new"
  by (induction new arbitrary: d) (simp_all add: update_all_items_def case_prod_unfold dom_update Un_insert_right)

lemma distinct_update_all: "distinct (map fst d) \<Longrightarrow> distinct (map fst (update_all_items new d))"
  by (induction new arbitrary: d) (auto simp: update_all_items_def distinct_update)

lemma map_of_update_all:
  "map_of (update_all_items new d) k = Some v \<Longrightarrow> (k, v) \<in> set new \<or> map_of d k = Some v"
proof (induction new arbitrary: d)
  case Nil
  then show ?case by (simp add: update_all_items_def)
next
  case (Cons x new)
  from Cons.IH [of "AList.update (fst x) (snd x) d"] Cons.prems show ?case
    by (auto simp: update_all_items_def case_prod_unfold update_conv' split: if_splits)
qed

lemma mset_add_to_group: "mset (concat (map snd (add_to_group k v g))) = add_mset v (mset (concat (map snd g)))"
  by (induction g) (auto simp: add_to_group_def)

lemma all_add_to_group:
  "list_all (\<lambda>(k, vs). list_all (P k) vs) g \<Longrightarrow> P k v \<Longrightarrow> list_all (\<lambda>(k, vs). list_all (P k) vs) (add_to_group k v g)"
  by (induction g) (auto simp: add_to_group_def split: option.splits)

lemma grouped:
  assumes "foldR (group_link a sd) links g = Ok groups"
    and "list_all (\<lambda>(k, ls). list_all (\<lambda>l. solve_key_of a sd l = Ok k) ls) g"
  shows "list_all (\<lambda>(k, ls). list_all (\<lambda>l. solve_key_of a sd l = Ok k) ls) groups
    \<and> mset (concat (map snd groups)) = mset (concat (map snd g)) + mset links"
  using assms
proof (induction links arbitrary: g)
  case Nil
  then show ?case by simp
next
  case (Cons l links)
  then obtain k where k: "solve_key_of a sd l = Ok k" "foldR (group_link a sd) links (add_to_group k l g) = Ok groups"
    unfolding group_link_def by (auto simp: result_simps prod_eq_iff split_paired_all)
  from Cons.IH [OF k(2)] all_add_to_group [OF Cons.prems(2)] k(1) show ?case by (simp add: mset_add_to_group)
qed

section \<open>Every link as if it were traced alone\<close>

text \<open>The reference: a solve for this link only, with its own carrier and arrays.\<close>

definition link_matrix :: "mathlib \<Rightarrow> sionna \<Rightarrow> solved \<Rightarrow> scenario_link \<Rightarrow> matrix_profile result" where
  "link_matrix lib si so l =
     bindR (link_lanes lib si so l) (\<lambda>(_, _, nr, nt, lanes).
       Ok \<lparr>mp_nt = nt, mp_nr = nr, mp_lanes = map (\<lambda>x. fst (snd x)) lanes\<rparr>)"

definition profile_alone :: "mathlib \<Rightarrow> solver \<Rightarrow> sionna \<Rightarrow> scenario_link \<Rightarrow> matrix_profile result" where
  "profile_alone lib solver si l =
     bindR (solve_key_of (si_args si) (si_definition si) l) (\<lambda>(frequency, tx, rx).
     bindR (snd (trace solver (si_args si) frequency (configure_arrays tx rx (si_scene si)))) (\<lambda>so.
       link_matrix lib si so l))"

definition same_setup :: "sionna \<Rightarrow> sionna \<Rightarrow> bool" where
  "same_setup si si' \<longleftrightarrow>
     (\<exists>f tx rx e. si' = si\<lparr>si_scene := (configure_arrays tx rx (si_scene si))\<lparr>rs_frequency := f\<rparr>, si_polylines_error := e\<rparr>)"

lemma same_setup_refl: "same_setup si si"
  unfolding same_setup_def configure_arrays_def
  by (rule exI [of _ "rs_frequency (si_scene si)"], rule exI [of _ "rs_tx_array (si_scene si)"],
      rule exI [of _ "rs_rx_array (si_scene si)"], rule exI [of _ "si_polylines_error si"]) simp

lemma link_profile_matrix:
  assumes "link_profile lib si so geometry carrier l = Ok (mp, st)"
  shows "link_matrix lib si so l = Ok mp \<and> mp_lanes mp \<noteq> []
    \<and> ls_source st = sl_source l \<and> ls_destination st = sl_destination l \<and> ls_carrier_hz st = carrier"
proof -
  obtain rx tx nr nt lanes where ll: "link_lanes lib si so l = Ok (rx, tx, nr, nt, lanes)"
    using assms by (auto simp: link_profile_def result_simps)
  obtain x rest where lanes: "lanes = x # rest"
    using assms by (cases lanes) (simp_all add: link_profile_def ll)
  show ?thesis using assms by (auto simp: link_profile_def link_matrix_def ll lanes result_simps)
qed

lemma link_matrix_setup:
  "link_matrix lib (si\<lparr>si_scene := scene, si_polylines_error := e\<rparr>) so l = link_matrix lib si so l"
  by (simp add: link_matrix_def link_lanes_def)

lemma profiles_of_links:
  assumes "profiles_of lib so links carrier si = Ok (ps, sts, si')"
  shows "\<exists>mps. list_all2 (\<lambda>l mp. link_matrix lib si so l = Ok mp) links mps
      \<and> ps = update_all_items (zip (map link_id_of links) mps) []
      \<and> map ls_source sts = map sl_source links \<and> map ls_destination sts = map sl_destination links
      \<and> (\<exists>e. si' = si\<lparr>si_polylines_error := e\<rparr>)"
proof -
  obtain geometry e where g: "ray_geometry si so = (geometry, e)" by (cases "ray_geometry si so")
  obtain rs where r: "mapR (link_profile lib si so geometry carrier) links = Ok rs"
    and p: "ps = update_all_items (zip (map link_id_of links) (map fst rs)) []" "sts = map snd rs"
      "si' = si\<lparr>si_polylines_error := e\<rparr>"
    using assms by (auto simp: profiles_of_def g result_simps)
  have a: "list_all2 (\<lambda>l r. link_matrix lib si so l = Ok (fst r) \<and> ls_source (snd r) = sl_source l
      \<and> ls_destination (snd r) = sl_destination l) links rs"
    using mapR_Inr [OF r] by (rule list_all2_mono) (auto dest: link_profile_matrix simp flip: prod.collapse)
  then have "list_all2 (\<lambda>l mp. link_matrix lib si so l = Ok mp) links (map fst rs)"
    by (auto simp: list_all2_map2 elim: list_all2_mono)
  moreover have "map ls_source sts = map sl_source links \<and> map ls_destination sts = map sl_destination links"
    using a by (auto simp: p(2) list_all2_conv_all_nth intro!: nth_equalityI)
  ultimately show ?thesis using p(1,3) by blast
qed

text \<open>What has been traced after some groups: of every link done the id is there, and what is there is what
  a link done gets alone.\<close>

definition traced_ok :: "mathlib \<Rightarrow> solver \<Rightarrow> sionna \<Rightarrow> scenario_link list \<Rightarrow> traced \<Rightarrow> bool" where
  "traced_ok lib solver si ls acc \<longleftrightarrow>
     (case acc of (ps, sts, si') \<Rightarrow>
        same_setup si si' \<and> distinct (map fst ps) \<and> fst ` set ps = link_id_of ` set ls
        \<and> (\<forall>i mp. map_of ps i = Some mp \<longrightarrow> (\<exists>l \<in> set ls. link_id_of l = i \<and> profile_alone lib solver si l = Ok mp))
        \<and> map ls_source sts = map sl_source ls \<and> map ls_destination sts = map sl_destination ls)"

lemma trace_group_ok:
  assumes "trace_group lib solver (k, links) acc = Ok acc'"
    and "list_all (\<lambda>l. solve_key_of (si_args si) (si_definition si) l = Ok k) links"
    and "traced_ok lib solver si ls acc"
  shows "traced_ok lib solver si (ls @ links) acc'"
proof -
  obtain ps sts si1 where acc: "acc = (ps, sts, si1)" by (cases acc)
  obtain f tx rx where k: "k = (f, tx, rx)" by (cases k)
  from assms(3) obtain f1 tx1 rx1 e1 where
    si1: "si1 = si\<lparr>si_scene := (configure_arrays tx1 rx1 (si_scene si))\<lparr>rs_frequency := f1\<rparr>, si_polylines_error := e1\<rparr>"
    by (auto simp: traced_ok_def acc same_setup_def)
  define scene where "scene = (configure_arrays tx rx (si_scene si))\<lparr>rs_frequency := f\<rparr>"
  have sc: "(configure_arrays tx rx (si_scene si1))\<lparr>rs_frequency := f\<rparr> = scene"
    by (simp add: si1 scene_def configure_arrays_def)
  obtain so ps1 sts1 si2 where so: "solver (si_args si) scene = Ok so"
    and p: "profiles_of lib so links f (si1\<lparr>si_scene := scene\<rparr>) = Ok (ps1, sts1, si2)"
    and acc': "acc' = (update_all_items ps1 ps, sts @ sts1, si2)"
    using assms(1) sc by (auto simp: trace_group_def acc k trace_def si1 result_simps split: prod.splits)
  have s: "si1\<lparr>si_scene := scene\<rparr> = si\<lparr>si_scene := scene, si_polylines_error := e1\<rparr>" by (simp add: si1)
  from profiles_of_links [OF p [unfolded s]] obtain mps e where
    m: "list_all2 (\<lambda>l mp. link_matrix lib si so l = Ok mp) links mps" "ps1 = update_all_items (zip (map link_id_of links) mps) []"
      "map ls_source sts1 = map sl_source links" "map ls_destination sts1 = map sl_destination links"
      "si2 = si\<lparr>si_scene := scene, si_polylines_error := e\<rparr>"
    by (auto simp: link_matrix_setup)
  have al: "profile_alone lib solver si l = link_matrix lib si so l" if "l \<in> set links" for l
    using assms(2) that by (simp add: list_all_iff profile_alone_def k trace_def so flip: scene_def)
  have len: "length mps = length links" using m(1) by (simp add: list_all2_lengthD)
  have "fst ` set ps1 = set (map fst (zip (map link_id_of links) mps))" by (simp add: m(2) keys_update_all)
  then have keys: "fst ` set ps1 = link_id_of ` set links" using len by (simp only: map_fst_zip length_map set_map)
  have items: "\<exists>l \<in> set links. link_id_of l = i \<and> profile_alone lib solver si l = Ok mp" if "(i, mp) \<in> set (zip (map link_id_of links) mps)" for i mp
    using that m(1) al by (fastforce simp: in_set_conv_nth list_all2_conv_all_nth)
  have same: "same_setup si si2" by (auto simp: same_setup_def m(5) scene_def)
  have ent: "\<exists>l \<in> set (ls @ links). link_id_of l = i \<and> profile_alone lib solver si l = Ok mp"
    if "map_of (update_all_items ps1 ps) i = Some mp" for i mp
  proof -
    from map_of_update_all [OF that] show ?thesis
    proof
      assume "(i, mp) \<in> set ps1"
      moreover have "distinct (map fst ps1)" unfolding m(2) by (rule distinct_update_all) simp
      ultimately have "map_of ps1 i = Some mp" by simp
      from map_of_update_all [OF this [unfolded m(2)]] items show ?thesis by auto
    next
      assume "map_of ps i = Some mp"
      then show ?thesis using assms(3) by (fastforce simp: traced_ok_def acc)
    qed
  qed
  show ?thesis
    using assms(3) m(3,4) same ent
    by (auto simp: traced_ok_def acc acc' keys_update_all keys distinct_update_all)
qed

lemma trace_groups_ok:
  assumes "foldR (trace_group lib solver) groups acc = Ok acc'"
    and "list_all (\<lambda>(k, links). list_all (\<lambda>l. solve_key_of (si_args si) (si_definition si) l = Ok k) links) groups"
    and "traced_ok lib solver si ls acc"
  shows "traced_ok lib solver si (ls @ concat (map snd groups)) acc'"
  using assms
proof (induction groups arbitrary: acc ls)
  case Nil
  then show ?case by simp
next
  case (Cons g groups)
  obtain k links where g: "g = (k, links)" by (cases g)
  from Cons.prems(1) obtain mid where mid: "trace_group lib solver (k, links) acc = Ok mid"
    "foldR (trace_group lib solver) groups mid = Ok acc'" by (auto simp: g result_simps)
  from Cons.IH [OF mid(2) _ trace_group_ok [OF mid(1) _ Cons.prems(3)]] Cons.prems(2) show ?case
    by (simp add: g)
qed

lemma trace_all_ok:
  assumes "trace_all_profiles lib solver si = Ok acc"
  obtains ls where "mset ls = mset (sd_links (si_definition si))" and "traced_ok lib solver si ls acc"
proof -
  obtain groups where g: "foldR (group_link (si_args si) (si_definition si)) (sd_links (si_definition si)) [] = Ok groups"
    and t: "foldR (trace_group lib solver) groups ([], [], si) = Ok acc"
    using assms by (auto simp: trace_all_profiles_def result_simps)
  from grouped [OF g] have gr: "list_all (\<lambda>(k, links). list_all (\<lambda>l. solve_key_of (si_args si) (si_definition si) l = Ok k) links) groups"
    "mset (concat (map snd groups)) = mset (sd_links (si_definition si))" by simp_all
  have "traced_ok lib solver si [] ([], [], si)" by (simp add: traced_ok_def same_setup_refl)
  from trace_groups_ok [OF t gr(1) this] gr(2) that show thesis by simp
qed

lemma link_ids_inj:
  assumes "list_all plain_key (map link_key_of links)" and "distinct (map link_key_of links)"
  shows "distinct (map link_id_of links)"
proof -
  have i: "link_id_of = link_key_id \<circ> link_key_of"
    by (simp add: fun_eq_iff link_id_of_def link_key_id_def link_key_of_def)
  have "inj_on link_key_id (set (map link_key_of links))"
    using assms(1) link_key_id_inj by (auto simp: inj_on_def list_all_iff)
  with assms(2) have "distinct (map link_key_id (map link_key_of links))" by (simp only: distinct_map)
  then show ?thesis by (simp only: i map_map)
qed

text \<open>C24. Grouping the links into solves by carrier and arrays changes no profile: whatever the solver answers,
  and whichever links share a solve, the batch holds under every link's id exactly the profile that a
  solve for this link alone, with its own carrier and its own arrays, gives it; and nothing else. There
  is one status record for each link.\<close>

theorem grouped_solves_as_alone:
  assumes "trace_all_profiles lib solver si = Ok (profiles, statuses, si')"
    and "scenario_wf (si_definition si)" and "list_all plain_key (map link_key_of (sd_links (si_definition si)))"
  shows "map (\<lambda>l. map_of profiles (link_id_of l)) (sd_links (si_definition si))
      = map (\<lambda>l. case profile_alone lib solver si l of Inl _ \<Rightarrow> None | Inr mp \<Rightarrow> Some mp) (sd_links (si_definition si))
    \<and> mset (map fst profiles) = mset (map link_id_of (sd_links (si_definition si)))
    \<and> mset (map (\<lambda>s. (ls_source s, ls_destination s)) statuses)
        = mset (map (\<lambda>l. (sl_source l, sl_destination l)) (sd_links (si_definition si)))"
proof -
  let ?links = "sd_links (si_definition si)"
  obtain ls where ls: "mset ls = mset ?links" "traced_ok lib solver si ls (profiles, statuses, si')"
    using trace_all_ok [OF assms(1)] by blast
  have st: "set ls = set ?links" using ls(1) by (rule mset_eq_setD)
  have d: "distinct (map link_id_of ?links)" using assms(2,3) by (intro link_ids_inj) (simp_all add: scenario_wf_def)
  have one: "map_of profiles (link_id_of l) = (case profile_alone lib solver si l of Inl _ \<Rightarrow> None | Inr mp \<Rightarrow> Some mp)"
    if l: "l \<in> set ?links" for l
  proof -
    have "link_id_of l \<in> fst ` set profiles" using ls(2) l st by (auto simp: traced_ok_def)
    then obtain mp where mp: "map_of profiles (link_id_of l) = Some mp"
      by (metis domD dom_map_of_conv_image_fst)
    then obtain l' where l': "l' \<in> set ?links" "link_id_of l' = link_id_of l" "profile_alone lib solver si l' = Ok mp"
      using ls(2) st unfolding traced_ok_def prod.case by blast
    have "l' = l" using d l' l by (metis distinct_map inj_onD)
    then show ?thesis using mp l'(3) by simp
  qed
  have "set (map fst profiles) = set (map link_id_of ?links)" "distinct (map fst profiles)"
    using ls(2) st by (simp_all add: traced_ok_def)
  then have k: "mset (map fst profiles) = mset (map link_id_of ?links)"
    using d set_eq_iff_mset_eq_distinct by blast
  have z: "map (\<lambda>x. (f x, g x)) xs = zip (map f xs) (map g xs)" for f g xs by (induction xs) auto
  have "map (\<lambda>s. (ls_source s, ls_destination s)) statuses = map (\<lambda>l. (sl_source l, sl_destination l)) ls"
    using ls(2) by (simp add: z traced_ok_def)
  then have "mset (map (\<lambda>s. (ls_source s, ls_destination s)) statuses) = mset (map (\<lambda>l. (sl_source l, sl_destination l)) ?links)"
    by (simp add: ls(1))
  with one k show ?thesis by auto
qed

section \<open>Every batch is complete\<close>

lemma lane_of_facts:
  "lane_of lib a so rx tx ports = Ok x \<Longrightarrow> lane_position (fst (snd x)) = ports \<and> lane_taps (fst (snd x)) \<noteq> []"
  by (auto simp: lane_of_def lane_position_def result_simps split: prod.splits dest: rays_to_taps_shape)

lemma array_wf_count: "array_wf a \<Longrightarrow> 0 < antenna_count a"
  by (simp add: array_wf_def antenna_count_def)

definition complete_matrix :: "int \<Rightarrow> int \<Rightarrow> matrix_profile \<Rightarrow> bool" where
  "complete_matrix nr nt mp \<longleftrightarrow>
     mp_nr mp = nr \<and> mp_nt mp = nt \<and> 0 < nr \<and> 0 < nt \<and> map lane_position (mp_lanes mp) = port_pairs nr nt
     \<and> list_all (\<lambda>l. lane_taps l \<noteq> []) (mp_lanes mp)"

lemma length_port_pairs: "0 < nr \<Longrightarrow> 0 < nt \<Longrightarrow> int (length (port_pairs nr nt)) = nt * nr"
  by (simp add: port_pairs_def mult.commute)

lemma complete_matrix_length: "complete_matrix nr nt mp \<Longrightarrow> int (length (mp_lanes mp)) = nt * nr"
  by (metis complete_matrix_def length_map length_port_pairs)

lemma complete_matrix_sendable:
  assumes "complete_matrix nr nt mp" and "link_id \<noteq> []"
  shows "\<exists>m. make_matrix_profile_swap link_id mp batch_id slot = Ok m"
proof -
  have "set (map lane_position (mp_lanes mp)) = set (port_pairs (mp_nr mp) (mp_nt mp))"
    using assms(1) by (simp add: complete_matrix_def del: set_map)
  then show ?thesis
    using assms complete_matrix_length [OF assms(1)]
    by (auto simp: make_matrix_profile_swap_def complete_matrix_def list_all_iff list_ex_iff)
qed

lemma link_matrix_complete:
  assumes "link_matrix lib si so l = Ok mp" and "map_of (sd_nodes (si_definition si)) (sl_source l) = Some s"
    and "map_of (sd_nodes (si_definition si)) (sl_destination l) = Some t" and "array_wf (sn_tx s)" and "array_wf (sn_rx t)"
  shows "complete_matrix (antenna_count (sn_rx t)) (antenna_count (sn_tx s)) mp"
proof -
  let ?nr = "antenna_count (sn_rx t)" and ?nt = "antenna_count (sn_tx s)"
  obtain rx tx lanes where m: "mapR (lane_of lib (si_args si) so rx tx) (port_pairs ?nr ?nt) = Ok lanes"
    and mp: "mp = \<lparr>mp_nt = ?nt, mp_nr = ?nr, mp_lanes = map (\<lambda>x. fst (snd x)) lanes\<rparr>"
    using assms(1-3) by (auto simp: link_matrix_def link_lanes_def Let_def result_simps)
  have a: "list_all2 (\<lambda>ports x. lane_position (fst (snd x)) = ports \<and> lane_taps (fst (snd x)) \<noteq> []) (port_pairs ?nr ?nt) lanes"
    using mapR_Inr [OF m] by (rule list_all2_mono) (rule lane_of_facts)
  then have "map (\<lambda>x. lane_position (fst (snd x))) lanes = port_pairs ?nr ?nt"
    by (auto simp: list_all2_conv_all_nth intro!: nth_equalityI)
  moreover have "list_all (\<lambda>x. lane_taps (fst (snd x)) \<noteq> []) lanes"
    using a by (auto simp: list_all2_conv_all_nth list_all_length)
  ultimately show ?thesis
    using assms(4,5) by (auto simp: complete_matrix_def mp array_wf_count comp_def list_all_iff)
qed

definition link_lane_count :: "(string \<times> scenario_node) list \<Rightarrow> scenario_link \<Rightarrow> int" where
  "link_lane_count nodes l =
     (case (map_of nodes (sl_source l), map_of nodes (sl_destination l)) of (Some s, Some t) \<Rightarrow> lane_count s t | _ \<Rightarrow> 0)"

lemma profile_alone_complete:
  assumes "profile_alone lib solver si l = Ok mp" and "scenario_wf (si_definition si)" and "l \<in> set (sd_links (si_definition si))"
  shows "\<exists>nr nt. complete_matrix nr nt mp \<and> int (length (mp_lanes mp)) = link_lane_count (sd_nodes (si_definition si)) l"
proof -
  let ?nodes = "sd_nodes (si_definition si)"
  have "link_wf ?nodes l" using assms(2,3) by (simp add: scenario_wf_def list_all_iff)
  then obtain s t where st: "map_of ?nodes (sl_source l) = Some s" "map_of ?nodes (sl_destination l) = Some t"
    by (auto simp: link_wf_def split: option.splits)
  have "list_all node_wf ?nodes" using assms(2) by (simp add: scenario_wf_def)
  then have w: "array_wf (sn_tx s)" "array_wf (sn_rx t)"
    using map_of_SomeD [OF st(1)] map_of_SomeD [OF st(2)] by (auto simp: list_all_iff node_wf_def)
  obtain so where "link_matrix lib si so l = Ok mp"
    using assms(1) by (auto simp: profile_alone_def result_simps)
  from link_matrix_complete [OF this st w] complete_matrix_length show ?thesis
    by (force simp: link_lane_count_def st lane_count_def)
qed


section \<open>Lines start and end at the nodes\<close>

lemma descending_take: "descending key xs \<Longrightarrow> descending key (take n xs)"
  unfolding descending_def by (metis append_take_drop_id sorted_wrt_append)

text \<open>At most \<open>limit\<close> lines, the strongest first; each starts at the transmitter, ends at the receiver and
  has one point for each of its labelled interactions in between.\<close>

theorem polylines_drawn:
  assumes "path_polylines vertices interactions src dst gains limit = Ok ps" and "Some NaN \<notin> set gains"
  shows "length ps \<le> nat limit
    \<and> list_all (\<lambda>p. hd (pl_points p) = vec_point src \<and> last (pl_points p) = vec_point dst
         \<and> length (pl_points p) = pl_bounces p + 2 \<and> length (pl_interactions p) = pl_bounces p) ps
    \<and> (\<exists>ranked :: (pyfloat \<times> nat) list. descending fst ranked \<and> map pl_gain_db ps = map (\<lambda>gi. round_dec 2 (fst gi)) ranked)"
proof -
  define count where "count = (if 1 < length (nd_shape vertices) then nd_shape vertices ! 1 else 0)"
  let ?ranked = "ranked_paths count gains limit"
  obtain depth where m: "mapR (polyline_of vertices interactions depth src dst) ?ranked = Ok ps"
    using assms(1) unfolding path_polylines_def count_def Let_def by blast
  have f: "pl_gain_db p = round_dec 2 (fst gi) \<and> hd (pl_points p) = vec_point src \<and> last (pl_points p) = vec_point dst
      \<and> length (pl_points p) = pl_bounces p + 2 \<and> length (pl_interactions p) = pl_bounces p"
    if "polyline_of vertices interactions depth src dst gi = Ok p" for gi p
    using that by (auto simp: polyline_of_def result_simps)
  have a: "list_all2 (\<lambda>gi p. pl_gain_db p = round_dec 2 (fst gi) \<and> hd (pl_points p) = vec_point src
      \<and> last (pl_points p) = vec_point dst \<and> length (pl_points p) = pl_bounces p + 2 \<and> length (pl_interactions p) = pl_bounces p) ?ranked ps"
    using mapR_Inr [OF m] by (rule list_all2_mono) (rule f)
  have nn: "fst gi \<noteq> NaN" if "gi \<in> set (List.map_filter (\<lambda>(i, g). map_option (\<lambda>x. (x, i)) g) (enumerate 0 (take count gains)))" for gi
    using that assms(2) by (auto simp: List.map_filter_def in_set_enumerate_eq dest!: nth_mem in_set_takeD)
  have d: "descending fst ?ranked"
    unfolding ranked_paths_def by (intro descending_take descending_sort nn)
  have g: "map pl_gain_db ps = map (\<lambda>gi. round_dec 2 (fst gi)) ?ranked"
    using a by (auto simp: list_all2_conv_all_nth intro!: nth_equalityI)
  have "\<exists>ranked :: (pyfloat \<times> nat) list. descending fst ranked \<and> map pl_gain_db ps = map (\<lambda>gi. round_dec 2 (fst gi)) ranked"
    by (rule exI [of _ ?ranked]) (rule conjI [OF d g])
  moreover have "length ps \<le> nat limit" using mapR_length [OF m] by (simp add: ranked_paths_def)
  moreover have "list_all (\<lambda>p. hd (pl_points p) = vec_point src \<and> last (pl_points p) = vec_point dst
      \<and> length (pl_points p) = pl_bounces p + 2 \<and> length (pl_interactions p) = pl_bounces p) ps"
    using a by (auto simp: list_all2_conv_all_nth list_all_length)
  ultimately show ?thesis by simp
qed

section \<open>The digest of a batch\<close>

text \<open>\<open>dumps\<close> is the canonical JSON of a message, \<open>sha\<close> the hex digest of all the bytes fed.\<close>

definition profiles_digest :: "(pydict \<Rightarrow> bytes) \<Rightarrow> (bytes \<Rightarrow> string) \<Rightarrow> (string \<times> matrix_profile) list \<Rightarrow> string result" where
  "profiles_digest dumps sha profiles =
     bindR (mapR (\<lambda>(l, p). bindR (make_matrix_profile_swap l p None None) (\<lambda>m. Ok (dumps m))) (sort_key fst profiles)) (\<lambda>parts.
       Ok (sha (concat parts)))"

text \<open>The digest does not depend on the order of the dict.\<close>

theorem digest_ignores_order:
  assumes "mset profiles = mset profiles'" and "distinct (map fst profiles)"
  shows "profiles_digest dumps sha profiles = profiles_digest dumps sha profiles'"
proof -
  have "sort_key fst profiles = sort_key fst profiles'"
    using assms by (intro sort_key_inj_key_eq) (auto simp: distinct_map)
  then show ?thesis by (simp add: profiles_digest_def)
qed

section \<open>The status of the live feed\<close>

definition json_int :: "int option \<Rightarrow> pyval" where
  "json_int v = (case v of None \<Rightarrow> VNone | Some i \<Rightarrow> VInt i)"

definition json_float :: "pyfloat option \<Rightarrow> pyval" where
  "json_float v = (case v of None \<Rightarrow> VNone | Some x \<Rightarrow> VFloat x)"

definition json_str :: "string option \<Rightarrow> pyval" where
  "json_str v = (case v of None \<Rightarrow> VNone | Some x \<Rightarrow> VStr x)"

definition json_vec :: "vec3 \<Rightarrow> pyval" where
  "json_vec v = (case v of (x, y, z) \<Rightarrow> VList [VFloat x, VFloat y, VFloat z])"

definition origin_name :: "position_origin \<Rightarrow> string" where
  "origin_name o' = (case o' of External \<Rightarrow> ''external'' | Scripted \<Rightarrow> ''scripted'')"

definition source_status :: "string \<Rightarrow> pyfloat \<Rightarrow> int \<Rightarrow> position_source \<Rightarrow> (string \<times> position_origin) list \<Rightarrow> pydict" where
  "source_status endpoint now_s unix_ms s sources =
     (let sample = px_last_sample s; published = Option.bind sample ps_t_unix_ms
      in [(''endpoint'', VStr endpoint), (''frame'', VStr ''arena''), (''frame_offset_m'', json_vec (px_offset s)),
          (''timeout_s'', VFloat (px_timeout_s s)),
          (''messages_received'', VInt (int (px_messages_received s))),
          (''messages_invalid'', VInt (int (px_messages_invalid s))),
          (''messages_dropped'', VInt (int (px_messages_dropped s))),
          (''last_sample_t_unix_ms'', json_int published),
          (''last_sample_age_ms'', json_float (age_ms now_s s)),
          (''last_sample_publish_age_ms'', json_int (map_option (\<lambda>t. unix_ms - t) published)),
          (''stale'', VBool (stale_feed now_s s)), (''pending'', VBool (sample = None)),
          (''ignored_nodes'', VList (map VStr (px_ignored_nodes s))), (''last_error'', json_str (px_last_error s)),
          (''node_sources'', VDict (map (\<lambda>(n, o'). (n, VStr (origin_name o'))) sources))])"

section \<open>The environment record\<close>

definition array_label :: "array_spec \<Rightarrow> string" where
  "array_label a =
     str_int (ar_rows a) @ ''x'' @ str_int (ar_cols a) @ '' '' @ ar_pattern a @ '', '' @ ar_polarization a @ '' polarization''"

text \<open>The label all nodes share, if they do.\<close>

definition shared_label :: "array_spec list \<Rightarrow> string" where
  "shared_label as = (case remdups (map array_label as) of [l] \<Rightarrow> l | _ \<Rightarrow> ''per-node configuration'')"

definition speed_of :: "(pyfloat \<Rightarrow> pyfloat) \<Rightarrow> vec3 \<Rightarrow> pyfloat" where
  "speed_of msqrt v = (case v of (x, y, z) \<Rightarrow> msqrt (fadd (fadd (fmul x x) (fmul y y)) (fmul z z)))"

definition node_environment :: "(pyfloat \<Rightarrow> pyfloat) \<Rightarrow> string \<times> scenario_node \<Rightarrow> string \<times> pyval" where
  "node_environment msqrt node =
     (let m = sn_motion (snd node); tx = sn_tx (snd node); rx = sn_rx (snd node)
      in (fst node, VDict
        [(''start_m'', json_vec (mt_start m)), (''velocity_mps'', json_vec (mt_velocity m)),
         (''speed_mps'', VFloat (speed_of msqrt (mt_velocity m))), (''mobility'', VStr (mt_mobility m)),
         (''route_x_m'', case mt_x_bounds m of None \<Rightarrow> VNone | Some (low, high) \<Rightarrow> VList [VFloat low, VFloat high]),
         (''route_m'', VList (map json_vec (mt_waypoints m))),
         (''tx_array'', VStr (array_label tx)), (''rx_array'', VStr (array_label rx)),
         (''tx_antennas'', VInt (antenna_count tx)), (''rx_antennas'', VInt (antenna_count rx))]))"

definition solver_environment :: "bridge_args \<Rightarrow> pyval" where
  "solver_environment a =
     VDict [(''name'', VStr ''PathSolver''), (''max_depth'', VInt (ba_max_depth a)),
       (''samples_per_source'', VInt (ba_samples_per_src a)), (''seed'', VInt (ba_seed a)), (''synthetic_array'', VBool True),
       (''propagation'', VDict
         [(''los'', VBool (ba_los a)), (''specular_reflection'', VBool (ba_specular_reflection a)),
          (''diffuse_reflection'', VBool (ba_diffuse_reflection a)), (''refraction'', VBool (ba_refraction a)),
          (''diffraction'', VBool (ba_diffraction a))])]"

text \<open>The sum over the links looks every node up.\<close>

definition lanes_of_link :: "(string \<times> scenario_node) list \<Rightarrow> scenario_link \<Rightarrow> int result" where
  "lanes_of_link nodes l =
     bindR (look_up nodes (sl_source l)) (\<lambda>s. bindR (look_up nodes (sl_destination l)) (\<lambda>t. Ok (lane_count s t)))"

definition timeline_environment :: "bridge_args \<Rightarrow> pydict" where
  "timeline_environment a =
     (if ba_timeline a \<noteq> ''wallclock'' \<or> ba_fanout a \<noteq> [] then
        [(''timeline'', VStr (ba_timeline a)),
         (''hold_until_file'', json_str (ba_hold_until_file a)),
         (''fanout_control_endpoints'', VList (map (\<lambda>(endpoint, rename). VDict
            [(''endpoint'', VStr endpoint), (''rename'', VDict (map (\<lambda>(m, n). (m, VStr n)) rename))]) (ba_fanout a)))]
      else [])"

definition scenario_environment :: "(pyfloat \<Rightarrow> pyfloat) \<Rightarrow> bridge_args \<Rightarrow> pydict result" where
  "scenario_environment msqrt a =
     bindR (effective_scenario a) (\<lambda>sd.
     bindR (mapR (lanes_of_link (sd_nodes sd)) (sd_links sd)) (\<lambda>lanes.
       let count = (\<lambda>direction. VInt (int (link_group_count direction sd)))
       in Ok ([(''layout'', VStr (sd_name sd)), (''scenario_config'', json_str (ba_scenario_config a)),
           (''scene'', VStr (case sd_scene sd of Some (c # s) \<Rightarrow> c # s | _ \<Rightarrow> ba_scene a)),
           (''simple_road'', VDict [(''enabled'', VBool (ba_simple_road a)),
              (''width_m'', if ba_simple_road a then VFloat (ba_road_width_m a) else VNone),
              (''surface_material'', VStr ''ITU concrete'')]),
           (''solver'', solver_environment a),
           (''antenna'', VDict [(''tx'', VStr (shared_label (map (\<lambda>n. sn_tx (snd n)) (sd_nodes sd)))),
              (''rx'', VStr (shared_label (map (\<lambda>n. sn_rx (snd n)) (sd_nodes sd))))]),
           (''sample_rate_hz'', VFloat (ba_sample_rate_hz a)), (''update_rate_hz'', VFloat (ba_update_hz a)),
           (''gain_offset_db'', VFloat (ba_gain_offset_db a)),
           (''frequencies_hz'', VDict [(''downlink'', VFloat (ba_downlink_frequency_hz a)),
              (''uplink'', VFloat (ba_uplink_frequency_hz a))]),
           (''nodes'', VDict (map (node_environment msqrt) (sd_nodes sd))),
           (''link_count'', VInt (int (length (sd_links sd)))), (''matrix_lane_count'', VInt (sum_list lanes)),
           (''link_groups'', VDict [(''downlink'', count ''downlink''), (''uplink'', count ''uplink''),
              (''ue_crosstalk'', count ''crosstalk'')]),
           (''control_endpoint'', if ba_dry_run a then VNone else VStr (ba_control_endpoint a)),
           (''dry_run'', VBool (ba_dry_run a)), (''position_endpoint'', json_str (ba_position_endpoint a)),
           (''position_frame_offset_m'', json_vec (ba_position_frame_offset a)),
           (''position_timeout_s'', VFloat (ba_position_timeout_s a))]
         @ timeline_environment a)))"

text \<open>Of a well-formed scenario the record is built, and it announces the lanes of the links.\<close>

theorem environment_counts_lanes:
  assumes "effective_scenario a = Ok sd" and "scenario_wf sd"
  shows "\<exists>env. scenario_environment msqrt a = Ok env \<and> map_of env ''matrix_lane_count'' = Some (VInt (matrix_lane_count sd))
    \<and> link_group_count ''downlink'' sd + link_group_count ''uplink'' sd + link_group_count ''crosstalk'' sd = length (sd_links sd)"
proof -
  have wf: "list_all (link_wf (sd_nodes sd)) (sd_links sd)" using assms(2) by (simp add: scenario_wf_def)
  have "mapR (lanes_of_link (sd_nodes sd)) ls = Ok (map (link_lane_count (sd_nodes sd)) ls)" if "list_all (link_wf (sd_nodes sd)) ls" for ls
    using that by (induction ls)
      (auto simp: lanes_of_link_def look_up_def link_lane_count_def link_wf_def result_simps split: option.splits)
  note lanes = this [OF wf]
  have groups: "length (filter (\<lambda>l. sl_direction l = ''downlink'') ls) + length (filter (\<lambda>l. sl_direction l = ''uplink'') ls)
      + length (filter (\<lambda>l. sl_direction l = ''crosstalk'') ls) = length ls" if "list_all (link_wf (sd_nodes sd)) ls" for ls
    using that by (induction ls) (auto simp: link_wf_def)
  have "matrix_lane_count sd = sum_list (map (link_lane_count (sd_nodes sd)) (sd_links sd))"
    by (simp add: matrix_lane_count_def link_lane_count_def [abs_def])
  then show ?thesis
    using groups [OF wf] by (simp add: scenario_environment_def assms(1) lanes link_group_count_def)
qed

section \<open>Two links, one id\<close>

definition bare_link :: "string \<Rightarrow> string \<Rightarrow> scenario_link" where
  "bare_link s d = \<lparr>sl_source = s, sl_destination = d, sl_direction = ''downlink'', sl_model = ''m''\<rparr>"

text \<open>The loader refuses two links of the same ends and model, but node ids may hold the separator of the
  link ids: these two links are distinct and share an id, so that one profile replaces the other.\<close>

theorem separator_in_node_ids:
  "link_key_of (bare_link ''a'' ''b>c'') \<noteq> link_key_of (bare_link ''a>b'' ''c'')
    \<and> link_id_of (bare_link ''a'' ''b>c'') = link_id_of (bare_link ''a>b'' ''c'')
    \<and> length (update_all_items (zip (map link_id_of [bare_link ''a'' ''b>c'', bare_link ''a>b'' ''c'']) [p, q]) []) = 1"
  by (simp add: bare_link_def link_key_of_def link_id_of_def control_link_id_def update_all_items_def)

section \<open>Witnesses\<close>

text \<open>A base station and a terminal, a link each way, and a solver that finds one path without antenna axes.\<close>

definition demo_node :: scenario_node where
  "demo_node = \<lparr>sn_motion = \<lparr>mt_start = (Fin 0, Fin 0, Fin 0), mt_velocity = (Fin 0, Fin 0, Fin 0), mt_x_bounds = None,
       mt_mobility = ''static'', mt_waypoints = [], mt_route_mode = ''pingpong'', mt_speed_mps = Fin 0\<rparr>,
     sn_tx = default_array, sn_rx = default_array\<rparr>"

definition demo_scenario :: scenario_def where
  "demo_scenario = \<lparr>sd_name = ''demo'', sd_nodes = [(''gnb'', demo_node), (''ue'', demo_node)],
     sd_links = [\<lparr>sl_source = ''gnb'', sl_destination = ''ue'', sl_direction = ''downlink'', sl_model = ''m''\<rparr>,
       \<lparr>sl_source = ''ue'', sl_destination = ''gnb'', sl_direction = ''uplink'', sl_model = ''m''\<rparr>],
     sd_scene = None, sd_simple_road = None, sd_solver = None\<rparr>"

definition demo_sionna :: sionna where
  "demo_sionna = \<lparr>si_args = default_args\<lparr>ba_sample_rate_hz := Fin 1, ba_path_polylines := 0\<rparr>,
     si_definition = demo_scenario,
     si_scene = \<lparr>rs_frequency = Fin 1, rs_bandwidth = Fin 1, rs_tx_array = default_array, rs_rx_array = default_array,
       rs_transmitters = [], rs_receivers = []\<rparr>,
     si_tx_indices = [(''gnb'', 0), (''ue'', 1)], si_rx_indices = [(''gnb'', 0), (''ue'', 1)], si_positions = [],
     si_velocities = [], si_position_sources = [], si_polylines_error = None\<rparr>"

definition demo_solved :: solved where
  "demo_solved = \<lparr>
     so_coefficients = \<lparr>nd_shape = [2, 2, 1, 1], nd_entry = (\<lambda>_. \<lparr>c_re = Fin 1, c_im = Fin 0\<rparr>)\<rparr>,
     so_delays = \<lparr>nd_shape = [2, 2, 1], nd_entry = (\<lambda>_. Fin 0)\<rparr>,
     so_dopplers = \<lparr>nd_shape = [2, 2, 1], nd_entry = (\<lambda>_. Fin 0)\<rparr>,
     so_valid = \<lparr>nd_shape = [2, 2, 1], nd_entry = (\<lambda>_. False)\<rparr>, so_geometry = Inr None\<rparr>"

definition demo_solver :: solver where "demo_solver a scene = Ok demo_solved"

lemma demo_ports: "port_pairs 1 1 = [(0, 0)]" by (simp add: port_pairs_def)

lemma demo_lane:
  assumes "rx < 2" and "tx < 2"
  shows "\<exists>x. lane_of unit_lib (si_args demo_sionna) demo_solved rx tx (0, 0) = Ok x"
  using assms
  by (simp add: lane_of_def lane_rays_def demo_solved_def antenna_slice_def nd_get_def nd_list_def demo_sionna_def
      rays_to_taps_def check_params_def link_params_def default_params_def select_candidates_def sort_desc_def
      channel_status_def tap_row_of_def good_rate_def py_max_def py_min_def List.map_filter_def result_simps Let_def)

lemma demo_link:
  assumes "same_setup demo_sionna si" and "l \<in> set (sd_links demo_scenario)"
  shows "\<exists>x. link_profile unit_lib si demo_solved None f l = Ok x"
proof -
  have a: "antenna_count default_array = 1" by (simp add: antenna_count_def default_array_def)
  obtain sc e where si: "si = demo_sionna\<lparr>si_scene := sc, si_polylines_error := e\<rparr>"
    using assms(1) by (auto simp: same_setup_def)
  show ?thesis
    using assms(2) demo_lane [of 0 1] demo_lane [of 1 0] unfolding si
    by (auto simp: link_profile_def link_lanes_def demo_sionna_def demo_scenario_def demo_node_def a demo_ports result_simps Let_def)
qed

lemma demo_links:
  assumes "same_setup demo_sionna si" and "set ls \<subseteq> set (sd_links demo_scenario)"
  shows "\<exists>xs. mapR (link_profile unit_lib si demo_solved None f) ls = Ok xs"
  using assms(2) demo_link [OF assms(1)] by (induction ls) (auto simp: result_simps)

lemma demo_group:
  assumes "same_setup demo_sionna si" and "set ls \<subseteq> set (sd_links demo_scenario)"
  shows "\<exists>ps' sts' si'. trace_group unit_lib demo_solver (k, ls) (ps, sts, si) = Ok (ps', sts', si') \<and> same_setup demo_sionna si'"
proof -
  obtain f tx rx where k: "k = (f, tx, rx)" by (cases k)
  define si1 where "si1 = si\<lparr>si_scene := (configure_arrays tx rx (si_scene si))\<lparr>rs_frequency := f\<rparr>\<rparr>"
  obtain f0 tx0 rx0 e where si: "si = demo_sionna\<lparr>si_scene := (configure_arrays tx0 rx0 (si_scene demo_sionna))\<lparr>rs_frequency := f0\<rparr>, si_polylines_error := e\<rparr>"
    using assms(1) by (auto simp: same_setup_def)
  have same: "same_setup demo_sionna si1"
    unfolding same_setup_def si1_def si configure_arrays_def
    by (rule exI [of _ f], rule exI [of _ tx], rule exI [of _ rx], rule exI [of _ e], simp)
  have same': "same_setup demo_sionna (si1\<lparr>si_polylines_error := e'\<rparr>)" for e'
    unfolding same_setup_def si1_def si configure_arrays_def
    by (rule exI [of _ f], rule exI [of _ tx], rule exI [of _ rx], rule exI [of _ e'], simp)
  have "ba_path_polylines (si_args si1) = 0" by (simp add: si1_def si demo_sionna_def)
  then have g: "ray_geometry si1 demo_solved = (None, si_polylines_error si1)" by (simp add: ray_geometry_def)
  obtain xs where "mapR (link_profile unit_lib si1 demo_solved None f) ls = Ok xs" using demo_links [OF same assms(2)] by blast
  then show ?thesis
    using same same' by (simp add: trace_group_def k trace_def demo_solver_def profiles_of_def g flip: si1_def)
qed

lemma demo_groups:
  "same_setup demo_sionna si \<Longrightarrow> set (concat (map snd groups)) \<subseteq> set (sd_links demo_scenario)
     \<Longrightarrow> \<exists>t. foldR (trace_group unit_lib demo_solver) groups (ps, sts, si) = Ok t"
proof (induction groups arbitrary: ps sts si)
  case Nil
  then show ?case by simp
next
  case (Cons g groups)
  obtain k ls where g: "g = (k, ls)" by (cases g)
  obtain ps' sts' si' where "trace_group unit_lib demo_solver (k, ls) (ps, sts, si) = Ok (ps', sts', si')" "same_setup demo_sionna si'"
    using demo_group [OF Cons.prems(1), of ls k ps sts] Cons.prems(2) g by auto
  with Cons.IH [of si' ps' sts'] Cons.prems(2) g show ?case by simp
qed

lemma demo_traced: obtains ps sts si where "trace_all_profiles unit_lib demo_solver demo_sionna = Ok (ps, sts, si)"
proof -
  have d: "si_definition demo_sionna = demo_scenario" by (simp add: demo_sionna_def)
  obtain groups where g: "foldR (group_link (si_args demo_sionna) demo_scenario) (sd_links demo_scenario) [] = Ok groups"
    by (simp add: group_link_def solve_key_of_def demo_scenario_def look_up_def)
  have "set (concat (map snd groups)) = set (sd_links demo_scenario)"
    using grouped [OF g] by (intro mset_eq_setD) simp
  with demo_groups [of demo_sionna groups "[]" "[]"] obtain t where "trace_all_profiles unit_lib demo_solver demo_sionna = Ok t"
    by (auto simp: trace_all_profiles_def d g same_setup_refl)
  then show thesis using that by (metis prod_cases3)
qed

lemma demo_wf: "scenario_wf demo_scenario \<and> list_all plain_key (map link_key_of (sd_links demo_scenario))"
  by (simp add: scenario_wf_def demo_scenario_def demo_node_def node_wf_def motion_wf_def finite_vec_def array_wf_def
      default_array_def link_wf_def lane_count_def antenna_count_def link_key_of_def plain_key_def plain_id_def)

theorem grouped_solves_as_alone_witness:
  "\<exists>profiles statuses si'. trace_all_profiles unit_lib demo_solver demo_sionna = Ok (profiles, statuses, si')
     \<and> mset (map fst profiles) = {# ''gnb>ue:m'', ''ue>gnb:m'' #}"
proof -
  have d: "si_definition demo_sionna = demo_scenario" by (simp add: demo_sionna_def)
  obtain profiles statuses si' where t: "trace_all_profiles unit_lib demo_solver demo_sionna = Ok (profiles, statuses, si')"
    by (rule demo_traced)
  have "map link_id_of (sd_links demo_scenario) = [''gnb>ue:m'', ''ue>gnb:m'']"
    by (simp add: demo_scenario_def link_id_of_def control_link_id_def)
  with grouped_solves_as_alone [OF t] demo_wf d have "mset (map fst profiles) = mset [''gnb>ue:m'', ''ue>gnb:m'']" by simp
  with t show ?thesis by simp
qed


end
