(* ===== verification/BridgeRecord.thy ===== *)
theory BridgeRecord
  imports BridgeProfiles StatusStore
begin

text \<open>
  The status records of the bridge (\<open>publish_runtime\<close> and the update record of \<open>main\<close> in
  \<^verbatim>\<open>apps/sionna_bridge/run_bridge.py\<close>, with the status dict of \<^verbatim>\<open>channel_adapter.py\<close>), and what the dashboard
  makes of them. The theorem composes both programs: a record the store takes in leaves one event of
  its iteration, which shows every traced link.
\<close>

section \<open>The status of a link\<close>

definition dd_value :: "dd_point \<Rightarrow> pyval" where
  "dd_value d = VDict [(''path_index'', VInt (int (dp_path_index d))), (''delay_samples'', json_float (dp_delay_samples d)),
     (''delay_ns'', VFloat (dp_delay_ns d)), (''doppler_hz'', VFloat (dp_doppler_hz d)), (''power_db'', VFloat (dp_power_db d))]"

definition tap_row_value :: "tap_row \<Rightarrow> pyval" where
  "tap_row_value r = VDict [(''index'', VInt (int (tr_index r))), (''delay_samples'', VFloat (delay_samples (tr_tap r))),
     (''delay_ns'', json_float (tr_delay_ns r)), (''gain_db'', VFloat (gain_db (tr_tap r))),
     (''phase_rad'', VFloat (phase_rad (tr_tap r))), (''phase_deg'', VFloat (tr_phase_deg r))]"

definition channel_pairs :: "channel_record \<Rightarrow> pydict" where
  "channel_pairs c =
     [(''link_id'', VStr (cr_link_id c)), (''ray_count'', VInt (int (cr_ray_count c))),
      (''tap_count'', VInt (int (cr_tap_count c))), (''total_path_power_db'', json_float (cr_total_power_db c)),
      (''strongest_tap_gain_db'', VFloat (cr_strongest_gain_db c)), (''first_delay_samples'', VFloat (cr_first_delay c)),
      (''last_delay_samples'', VFloat (cr_last_delay c)), (''delay_doppler_point_count'', VInt (int (cr_point_count c))),
      (''delay_doppler_points'', VList (map dd_value (cr_points c))), (''taps'', VList (map tap_row_value (cr_taps c)))]"

definition lane_pairs :: "lane_status \<Rightarrow> pydict" where
  "lane_pairs s = channel_pairs (ln_record s) @ [(''rx_port'', VInt (ln_rx_port s)), (''tx_port'', VInt (ln_tx_port s))]"

definition polyline_value :: "polyline \<Rightarrow> pyval" where
  "polyline_value p = VDict [(''gain_db'', VFloat (pl_gain_db p)), (''bounces'', VInt (int (pl_bounces p))),
     (''interactions'', VList (map VStr (pl_interactions p))),
     (''points'', VList (map (\<lambda>xs. VList (map VFloat xs)) (pl_points p)))]"

definition link_pairs :: "traced_link \<Rightarrow> pydict" where
  "link_pairs s =
     lane_pairs (ls_first s) @
     [(''matrix'', VDict [(''nt'', VInt (ls_nt s)), (''nr'', VInt (ls_nr s))]),
      (''lanes'', VList (map (\<lambda>l. VDict (lane_pairs l)) (ls_lanes s))), (''source'', VStr (ls_source s)),
      (''destination'', VStr (ls_destination s)), (''model'', VStr (ls_model s)), (''direction'', VStr (ls_direction s)),
      (''carrier_frequency_hz'', VFloat (ls_carrier_hz s))]
     @ (case ls_polylines s of None \<Rightarrow> [] | Some ps \<Rightarrow> [(''path_polylines'', VList (map polyline_value ps))])"

section \<open>The records\<close>

record process =
  pr_session :: string
  pr_process_id :: int
  pr_started_unix_ms :: int
  pr_link_count :: nat

definition runtime_record ::
  "bridge_args \<Rightarrow> process \<Rightarrow> string \<Rightarrow> int \<Rightarrow> string option \<Rightarrow> pyfloat option \<Rightarrow> int \<Rightarrow> pydict" where
  "runtime_record a p phase iteration detail next_update_in_ms observed =
     [(''event'', VStr ''sionna_rt_runtime''), (''session_id'', VStr (pr_session p)), (''process_id'', VInt (pr_process_id p)),
      (''process_started_unix_ms'', VInt (pr_started_unix_ms p)), (''observed_unix_ms'', VInt observed), (''phase'', VStr phase),
      (''detail'', json_str detail), (''iteration'', VInt iteration),
      (''execution_mode'', VStr ''single_process_repeating_update_loop''), (''scenario_initialized_once'', VBool True),
      (''channel_trace_per_iteration'', VBool True), (''control_send_per_iteration'', VBool (\<not> ba_dry_run a)),
      (''link_count'', VInt (int (pr_link_count p))), (''target_update_hz'', VFloat (ba_update_hz a)),
      (''configured_duration_seconds'', VFloat (ba_duration a)), (''configured_iteration_limit'', VInt (ba_iterations a)),
      (''next_update_in_ms'', json_float next_update_in_ms)]"

text \<open>What one update has measured, placed, traced and been answered. The timeline is there on the grid: the
  grid, and the point and the start of the update.\<close>

record update_facts =
  uf_iteration :: int
  uf_elapsed :: pyfloat
  uf_started_unix_ms :: int
  uf_started :: pyfloat
  uf_ack_unix_ms :: "int option"
  uf_generation_ms :: pyfloat
  uf_control_ms :: "pyfloat option"
  uf_to_ack_ms :: "pyfloat option"
  uf_total_ms :: pyfloat
  uf_directions :: "(string \<times> pyfloat) list"
  uf_environment :: pydict
  uf_scene_geometry :: pyval
  uf_positions :: "(string \<times> vec3) list"
  uf_velocities :: "(string \<times> vec3) list"
  uf_sources :: "(string \<times> position_origin) list"
  uf_position_status :: "pydict option"
  uf_statuses :: "traced_link list"
  uf_reply :: pydict
  uf_stages :: pyval
  uf_profiles :: "(string \<times> matrix_profile) list"
  uf_grid :: "(grid \<times> phase) option"
  uf_fanout :: "pydict list option"

definition phase_name :: "phase \<Rightarrow> pyval" where
  "phase_name ph = (case ph of Wall \<Rightarrow> VNone | HoldPhase \<Rightarrow> VStr ''hold'' | RunPhase _ \<Rightarrow> VStr ''run'')"

definition phase_index :: "phase \<Rightarrow> int option" where
  "phase_index ph = (case ph of RunPhase i \<Rightarrow> Some i | _ \<Rightarrow> None)"

definition timeline_record :: "update_facts \<Rightarrow> grid \<Rightarrow> phase \<Rightarrow> pydict result" where
  "timeline_record uf g ph =
     bindR (case phase_index ph of
              None \<Rightarrow> Ok None
            | Some i \<Rightarrow> bindR (due_at g i) (\<lambda>due. Ok (Some (fmul (fsub (uf_started uf) due) (Fin 1000))))) (\<lambda>lag.
       Ok [(''mode'', VStr ''grid''), (''phase'', phase_name ph), (''grid_index'', json_int (phase_index ph)),
           (''scenario_time_s'', VFloat (uf_elapsed uf)), (''anchor_unix_ms'', json_int (gl_anchor_unix_ms g)),
           (''skipped_grid_points'', VInt (gl_skipped g)), (''lag_ms'', json_float lag)])"

text \<open>The record of one broker without its reply, of which only \<open>ok\<close> stays.\<close>

definition fanout_record :: "pydict \<Rightarrow> pydict" where
  "fanout_record item =
     AList.update ''ok'' (VBool (truthy (vget ''ok'' (dict_or_empty (vget ''reply'' item)))))
       (filter (\<lambda>kv. fst kv \<noteq> ''reply'') item)"

definition update_timing :: "bridge_args \<Rightarrow> update_facts \<Rightarrow> pydict" where
  "update_timing a uf =
     [(''channel_generation'', VFloat (uf_generation_ms uf)), (''control_transaction'', json_float (uf_control_ms uf)),
      (''generate_to_control_ack'', json_float (uf_to_ack_ms uf)), (''total_update'', VFloat (uf_total_ms uf)),
      (''directions'', VDict (map (\<lambda>(k, v). (k, VFloat v)) (uf_directions uf)))]
     @ (if ba_profile_timing a then [(''generation_stages'', uf_stages uf)] else [])"

definition update_base :: "bridge_args \<Rightarrow> process \<Rightarrow> update_facts \<Rightarrow> pydict" where
  "update_base a p uf =
     [(''event'', VStr ''sionna_rt_update''), (''session_id'', VStr (pr_session p)), (''process_id'', VInt (pr_process_id p)),
      (''iteration'', VInt (uf_iteration uf)), (''batch_id'', VStr (batch_name (uf_iteration uf))),
      (''elapsed_seconds'', VFloat (uf_elapsed uf)), (''update_started_unix_ms'', VInt (uf_started_unix_ms uf)),
      (''control_ack_unix_ms'', json_int (uf_ack_unix_ms uf)), (''trace_ms'', VFloat (uf_generation_ms uf)),
      (''direction_trace_ms'', VDict (map (\<lambda>(k, v). (k, VFloat v)) (uf_directions uf))),
      (''timing_ms'', VDict (update_timing a uf)), (''environment'', VDict (uf_environment uf)),
      (''scene_geometry'', uf_scene_geometry uf),
      (''frequencies_hz'', VDict [(''downlink'', VFloat (ba_downlink_frequency_hz a)), (''uplink'', VFloat (ba_uplink_frequency_hz a))]),
      (''positions'', VDict (map (\<lambda>(n, v). (n, json_vec v)) (uf_positions uf))),
      (''velocities_mps'', VDict (map (\<lambda>(n, v). (n, json_vec v)) (uf_velocities uf))),
      (''position_source'', VStr (if External \<in> set (map snd (uf_sources uf)) then ''external'' else ''scripted'')),
      (''position_status'', case uf_position_status uf of None \<Rightarrow> VNone | Some d \<Rightarrow> VDict d),
      (''channels'', VList (map (\<lambda>s. VDict (link_pairs s)) (uf_statuses uf))), (''control_reply'', VDict (uf_reply uf))]"

definition update_record ::
  "(pydict \<Rightarrow> bytes) \<Rightarrow> (bytes \<Rightarrow> string) \<Rightarrow> bridge_args \<Rightarrow> process \<Rightarrow> update_facts \<Rightarrow> pydict result" where
  "update_record dumps sha a p uf =
     bindR (if ba_profile_digest a
            then bindR (profiles_digest dumps sha (uf_profiles uf)) (\<lambda>h. Ok [(''profile_sha256'', VStr h)]) else Ok []) (\<lambda>digest.
     bindR (case uf_grid uf of
              None \<Rightarrow> Ok []
            | Some (g, ph) \<Rightarrow> bindR (timeline_record uf g ph) (\<lambda>t. Ok [(''timeline'', VDict t)])) (\<lambda>timeline.
       Ok (update_base a p uf @ digest @ timeline
         @ (case uf_fanout uf of None \<Rightarrow> [] | Some items \<Rightarrow> [(''fanout'', VList (map (\<lambda>i. VDict (fanout_record i)) items))]))))"

text \<open>The reply a dry run puts in the place of a broker's.\<close>

definition dry_run_reply :: "string \<Rightarrow> (string \<times> matrix_profile) list \<Rightarrow> pydict result" where
  "dry_run_reply batch_id profiles =
     bindR (mapR (\<lambda>(l, p). make_matrix_profile_swap l p (Some batch_id) None) profiles) (\<lambda>ms.
       Ok [(''ok'', VBool True), (''dry_run'', VBool True), (''batch_id'', VStr batch_id), (''messages'', VList (map VDict ms))])"

definition append_status :: "(pydict \<Rightarrow> string) \<Rightarrow> string option \<Rightarrow> pydict \<Rightarrow> (string \<times> string) list \<Rightarrow> (string \<times> string) list" where
  "append_status dumps path rec files =
     (case path of None \<Rightarrow> files
      | Some p \<Rightarrow> AList.update p ((case map_of files p of None \<Rightarrow> [] | Some text \<Rightarrow> text) @ dumps rec @ [CHR 0x0A]) files)"

section \<open>What the dashboard shows of an update\<close>

text \<open>The part of a link's status the history keeps.\<close>

definition shown_channel :: "traced_link \<Rightarrow> pyval" where
  "shown_channel s = (let c = ln_record (ls_first s) in VDict
     [(''link_id'', VStr (cr_link_id c)), (''direction'', VStr (ls_direction s)),
      (''total_path_power_db'', json_float (cr_total_power_db c)),
      (''strongest_tap_gain_db'', VFloat (cr_strongest_gain_db c)),
      (''ray_count'', VInt (int (cr_ray_count c))), (''tap_count'', VInt (int (cr_tap_count c)))])"

lemma shown_channel_keys: "VDict (map (\<lambda>k. (k, vget k (link_pairs s))) channel_keys) = shown_channel s"
  by (simp add: shown_channel_def channel_keys_def link_pairs_def lane_pairs_def channel_pairs_def vget_def Let_def)

lemma link_pairs_id: "is_str (vget ''link_id'' (link_pairs s))"
  by (simp add: link_pairs_def lane_pairs_def channel_pairs_def vget_def)

lemma update_record_base:
  assumes "update_record dumps sha a p uf = Ok rec" and "k \<in> set (map fst (update_base a p uf))"
  shows "vget k rec = vget k (update_base a p uf)"
proof -
  obtain rest where r: "rec = update_base a p uf @ rest" using assms(1) by (auto simp: update_record_def result_simps)
  from assms(2) have "map_of (update_base a p uf) k \<noteq> None" by (simp add: map_of_eq_None_iff)
  then show ?thesis by (auto simp: r vget_def map_add_def split: option.splits)
qed

lemma update_record_fields:
  assumes "update_record dumps sha a p uf = Ok rec"
  shows "vget ''event'' rec = VStr ''sionna_rt_update''" and "vget ''session_id'' rec = VStr (pr_session p)"
    and "vget ''iteration'' rec = VInt (uf_iteration uf)"
    and "vget ''channels'' rec = VList (map (\<lambda>s. VDict (link_pairs s)) (uf_statuses uf))"
  using update_record_base [OF assms] by (simp_all add: update_base_def vget_def)

lemma update_record_channels:
  assumes "update_record dumps sha a p uf = Ok rec"
  shows "event_channels rec = Ok (map shown_channel (uf_statuses uf))"
proof -
  have v: "vget_or ''channels'' (VList []) rec = VList (map (\<lambda>s. VDict (link_pairs s)) (uf_statuses uf))"
    using update_record_fields(4) [OF assms] by (auto simp: vget_def vget_or_def split: option.splits)
  have "List.map_filter (\<lambda>item. case item of
             VDict d \<Rightarrow> (if is_str (vget ''link_id'' d) then Some (VDict (map (\<lambda>k. (k, vget k d)) channel_keys)) else None)
           | _ \<Rightarrow> None) (map (\<lambda>s. VDict (link_pairs s)) ss) = map shown_channel ss" for ss
    by (induction ss) (simp_all add: List.map_filter_def link_pairs_id shown_channel_keys)
  then show ?thesis by (simp add: event_channels_def v iter_items_def)
qed

section \<open>An update reaches the history\<close>

text \<open>The back-fills of warm-ups leave the identity and the channels of an event alone.\<close>

definition event_view :: "pydict \<Rightarrow> iter_key \<times> pyval" where
  "event_view e = (event_key e, vget ''channels'' e)"

lemma channels_update: "k \<noteq> ''channels'' \<Longrightarrow> vget ''channels'' (AList.update k v e) = vget ''channels'' e"
  by (simp add: vget_def update_conv')

lemma channels_if: "vget ''channels'' (if b then x else y) = (if b then vget ''channels'' x else vget ''channels'' y)"
  by simp

lemma channels_fill: "vget ''channels'' (fill_event sc obs e) = vget ''channels'' e"
proof -
  have s: "vget ''channels'' (set_keys [(''warmup_started_unix_ms'', v), (''warmup_boundary_source'', w)] e) = vget ''channels'' e"
    "vget ''channels'' (set_keys [(''warmup_ended_unix_ms'', v), (''warmup_boundary_source'', w)] e) = vget ''channels'' e" for v w e
    by (simp_all add: vget_set_keys)
  have u: "vget ''channels'' (AList.update ''warmup_begin_slots'' v e) = vget ''channels'' e"
    "vget ''channels'' (AList.update ''warmup_end_slots'' v e) = vget ''channels'' e"
    "vget ''channels'' (AList.update ''warmup_expected'' v e) = vget ''channels'' e" for v e
    by (simp_all add: channels_update)
  show ?thesis
    unfolding fill_event_def fill_started_def fill_ended_def Let_def by (simp only: channels_if s u if_cancel)
qed

lemma view_map_at: "(\<And>e. event_view (f e) = event_view e) \<Longrightarrow> map event_view (map_at i f xs) = map event_view xs"
  by (auto simp: map_at_def map_update split: option.split)
    (metis list_update_beyond list_update_id not_le nth_map length_map)

lemma close_targets_views:
  "map event_view (fst (close_targets tel obs ts hist done)) = map event_view hist"
  by (induction ts arbitrary: hist "done")
    (auto simp: Let_def view_map_at event_view_def channels_fill split: sum.split prod.split)

lemma close_completed_views:
  assumes "close_completed_warmups obs s = (s', r)"
  shows "map event_view (st_iteration_history s') = map event_view (st_iteration_history s)
    \<and> st_sionna s' = st_sionna s \<and> st_sionna_session_id s' = st_sionna_session_id s"
  using assms close_targets_views [of "st_telemetry s" obs "st_warmup_targets s" "st_iteration_history s" "[]"]
  by (auto simp: close_completed_warmups_def split: prod.splits sum.splits)

lemma iteration_event_Some: "iteration_event session it hist = Some n \<Longrightarrow> n < length hist \<and> event_matches session it (hist ! n)"
  by (induction hist arbitrary: n) (auto split: option.splits if_splits)

lemma ensure_event_at:
  assumes "length (st_iteration_history s) \<le> 512" and "py_eq session session" and "py_eq it it"
  obtains n where "iteration_event session it (st_iteration_history (ensure_event session it s)) = Some n"
    and "n < length (st_iteration_history (ensure_event session it s))"
    and "length (st_iteration_history (ensure_event session it s)) \<le> 512 + n"
    and "event_matches session it (st_iteration_history (ensure_event session it s) ! n)"
proof -
  let ?h = "st_iteration_history s" and ?h' = "st_iteration_history (ensure_event session it s)"
  show thesis
  proof (cases "iteration_event session it ?h")
    case None
    have h: "?h' = ?h @ [new_event it session]" by (simp add: ensure_event_def None)
    have m: "event_matches session it (new_event it session)"
      using assms(2,3) by (simp add: event_matches_def new_event_def vget_def)
    have "iteration_event session it (xs @ [new_event it session]) = Some (length xs)" for xs
      using m by (induction xs) auto
    then show thesis using that [of "length ?h"] m assms(1) by (simp add: h)
  next
    case (Some n)
    then have "?h' = ?h" by (simp add: ensure_event_def)
    with that [of n] Some iteration_event_Some [OF Some] assms(1) show thesis by simp
  qed
qed

lemma keep_last_nth: "n < length xs \<Longrightarrow> length xs \<le> k + n \<Longrightarrow> xs ! n \<in> set (keep_last k xs)"
proof -
  assume a: "n < length xs" "length xs \<le> k + n"
  have "drop (length xs - k) xs ! (n - (length xs - k)) = xs ! n" using a by (subst nth_drop) auto
  moreover have "n - (length xs - k) < length (drop (length xs - k) xs)" using a by auto
  ultimately show ?thesis unfolding keep_last_def by (metis nth_mem)
qed

lemma rt_update_shows:
  assumes "length (st_iteration_history s) \<le> 512" and "event_channels payload = Ok channels"
    and "py_eq session session" and "py_eq (vget ''iteration'' payload) (vget ''iteration'' payload)"
    and "rt_update payload session now unix_ms s = (s', None)"
  shows "st_sionna s' = Some payload \<and> st_sionna_session_id s' = st_sionna_session_id s
    \<and> (\<exists>e \<in> set (st_iteration_history s'). event_matches session (vget ''iteration'' payload) e
         \<and> vget ''channels'' e = VList channels)"
proof -
  let ?it = "vget ''iteration'' payload"
  define s1 where "s1 = s\<lparr>st_sionna := Some payload, st_sionna_seen := Some now\<rparr>"
  define s2 where "s2 = ensure_event session ?it s1"
  note run = assms(5) [unfolded rt_update_def Let_def, folded s1_def, folded s2_def]
  obtain started ended targets where tt: "bindR (update_times payload unix_ms) (\<lambda>times.
      bindR (warmup_targets_of (vget ''control_reply'' payload)) (\<lambda>targets. Ok (times, targets)))
      = Ok ((started, ended), targets)"
    using run by (auto split: sum.splits prod.splits)
  define f where "f = set_keys (event_fields payload started ended targets channels)"
  define h where "h = map_at (iteration_event session ?it (st_iteration_history s2)) f (st_iteration_history s2)"
  have "length (st_iteration_history s1) \<le> 512" using assms(1) by (simp add: s1_def)
  then obtain n where n: "iteration_event session ?it (st_iteration_history s2) = Some n"
    "n < length (st_iteration_history s2)" "length (st_iteration_history s2) \<le> 512 + n"
    "event_matches session ?it (st_iteration_history s2 ! n)"
    unfolding s2_def by (rule ensure_event_at [OF _ assms(3,4)])
  have h: "length h = length (st_iteration_history s2)" "h ! n = f (st_iteration_history s2 ! n)"
    using n(1,2) by (simp_all add: h_def map_at_def)
  have view: "event_view (h ! n) = (event_key (st_iteration_history s2 ! n), VList channels)"
  proof -
    have "vget ''channels'' (f e) = VList channels" for e
      by (simp add: f_def event_fields_def set_keys_def vget_def update_conv')
    then show ?thesis by (simp add: event_view_def h(2)) (simp add: f_def)
  qed
  have "\<not> (\<not> hashable session \<or> \<not> hashable ?it)"
    using run unfolding tt assms(2) by (auto split: if_splits)
  then have close: "(case (if targets \<noteq> []
        then close_completed_warmups unix_ms
          (s2\<lparr>st_iteration_history := h, st_warmup_targets := AList.update (iter_key_of session ?it) targets (st_warmup_targets s2)\<rparr>)
        else (s2\<lparr>st_iteration_history := h, st_warmup_targets := dict_pop (iter_key_of session ?it) (st_warmup_targets s2)\<rparr>, None)) of
        (s, Some e) \<Rightarrow> (s, Some e)
      | (s, None) \<Rightarrow> (s\<lparr>st_iteration_history := keep_last 512 (st_iteration_history s)\<rparr>, None)) = (s', None)"
    using run unfolding tt assms(2) by (simp add: h_def f_def cong: if_cong)
  obtain s4 where s4: "map event_view (st_iteration_history s4) = map event_view h \<and> st_sionna s4 = st_sionna s2
      \<and> st_sionna_session_id s4 = st_sionna_session_id s2"
    and s': "s' = s4\<lparr>st_iteration_history := keep_last 512 (st_iteration_history s4)\<rparr>"
  proof (cases "targets \<noteq> []")
    case True
    let ?s3 = "s2\<lparr>st_iteration_history := h, st_warmup_targets := AList.update (iter_key_of session ?it) targets (st_warmup_targets s2)\<rparr>"
    obtain s4 where c: "close_completed_warmups unix_ms ?s3 = (s4, None)"
      and "s' = s4\<lparr>st_iteration_history := keep_last 512 (st_iteration_history s4)\<rparr>"
      using close True by (auto split: prod.splits option.splits)
    with that [of s4] close_completed_views [OF c] show ?thesis by simp
  next
    case False
    let ?s3 = "s2\<lparr>st_iteration_history := h, st_warmup_targets := dict_pop (iter_key_of session ?it) (st_warmup_targets s2)\<rparr>"
    show ?thesis using that [of ?s3] close False by simp
  qed
  have len: "length (st_iteration_history s4) = length h" using s4 by (metis length_map)
  have v: "event_view (st_iteration_history s4 ! n) = event_view (h ! n)"
    using s4 n(2) h(1) len by (metis nth_map)
  have "st_iteration_history s4 ! n \<in> set (st_iteration_history s')"
    using keep_last_nth [of n "st_iteration_history s4" 512] n(2,3) h(1) len by (simp add: s')
  moreover have "event_matches session ?it (st_iteration_history s4 ! n)"
    using n(4) v view by (simp add: event_matches_key event_view_def)
  moreover have "vget ''channels'' (st_iteration_history s4 ! n) = VList channels"
    using v view by (simp add: event_view_def)
  moreover have "st_sionna s' = Some payload \<and> st_sionna_session_id s' = st_sionna_session_id s"
    using s4 by (simp add: s' s2_def s1_def ensure_event_def)
  ultimately show ?thesis by blast
qed

text \<open>C26. What the bridge traced is what the dashboard shows: when a reachable store takes in the record of an
  update, it holds the record, belongs to the bridge's session, and has an event of the session and
  iteration with one entry for each traced link, in the order of tracing, with its id and gains.\<close>

theorem traced_links_shown:
  assumes "reachable s" and "update_record dumps sha a p uf = Ok rec" and "update_sionna rec now unix_ms s = (s', None)"
  shows "st_sionna s' = Some rec \<and> st_sionna_session_id s' = VStr (pr_session p)
    \<and> (\<exists>e \<in> set (st_iteration_history s'). event_matches (VStr (pr_session p)) (VInt (uf_iteration uf)) e
         \<and> vget ''channels'' e = VList (map shown_channel (uf_statuses uf)))"
proof -
  note f = update_record_fields [OF assms(2)]
  have inv: "store_inv s" using assms(1) by (induction rule: reachable_induct) (auto simp: store_inv_new intro: store_step_inv)
  define s1 where "s1 = switch_session (VStr (pr_session p)) s"
  have "store_inv s1" unfolding s1_def by (rule switch_session_inv [OF inv])
  then have len: "length (st_iteration_history s1) \<le> 512" by (simp add: store_inv_def)
  have "py_eq (VStr (pr_session p)) x \<Longrightarrow> x = VStr (pr_session p)" for x
  proof (cases x)
    case (VFloat y)
    then show "py_eq (VStr (pr_session p)) x \<Longrightarrow> x = VStr (pr_session p)" by (cases y) (auto simp: py_eq_def split: if_splits)
  qed (auto simp: py_eq_def)
  then have sess: "st_sionna_session_id s1 = VStr (pr_session p)" by (auto simp: s1_def switch_session_def)
  have run: "rt_update rec (VStr (pr_session p)) now unix_ms s1 = (s', None)"
    using assms(3) by (simp add: update_sionna_def f(1,2) Let_def s1_def)
  have "py_eq (VStr (pr_session p)) (VStr (pr_session p))" and "py_eq (VInt (uf_iteration uf)) (VInt (uf_iteration uf))"
    by (simp_all add: py_eq_def)
  with rt_update_shows [OF len update_record_channels [OF assms(2)] _ _ run] sess f(3) show ?thesis by simp
qed

section \<open>Witness\<close>

text \<open>A dry run with one traced link, shown by a new store.\<close>

definition quiet_link :: traced_link where
  "quiet_link = (let l = \<lparr>ln_record = \<lparr>cr_link_id = ''gnb>ue:m'', cr_ray_count = 0, cr_tap_count = 1, cr_total_power_db = None,
        cr_strongest_gain_db = Fin (- 100), cr_first_delay = Fin 0, cr_last_delay = Fin 0, cr_point_count = 0, cr_points = [],
        cr_taps = []\<rparr>, ln_rx_port = 0, ln_tx_port = 0\<rparr>
     in \<lparr>ls_first = l, ls_nt = 1, ls_nr = 1, ls_lanes = [l], ls_source = ''gnb'', ls_destination = ''ue'', ls_model = ''m'',
        ls_direction = ''downlink'', ls_carrier_hz = Fin 1, ls_polylines = None\<rparr>)"

definition quiet_update :: update_facts where
  "quiet_update = \<lparr>uf_iteration = 0, uf_elapsed = Fin 0, uf_started_unix_ms = 5, uf_started = Fin 0, uf_ack_unix_ms = None,
     uf_generation_ms = Fin 1, uf_control_ms = None, uf_to_ack_ms = None, uf_total_ms = Fin 1, uf_directions = [],
     uf_environment = [], uf_scene_geometry = VList [], uf_positions = [], uf_velocities = [], uf_sources = [],
     uf_position_status = None, uf_statuses = [quiet_link], uf_reply = [(''ok'', VBool True)], uf_stages = VNone,
     uf_profiles = [], uf_grid = None, uf_fanout = None\<rparr>"

definition quiet_process :: process where
  "quiet_process = \<lparr>pr_session = ''s'', pr_process_id = 1, pr_started_unix_ms = 1, pr_link_count = 1\<rparr>"

lemma quiet_record: "update_record (\<lambda>_. []) (\<lambda>_. []) default_args quiet_process quiet_update
    = Ok (update_base default_args quiet_process quiet_update)"
  by (simp add: update_record_def default_args_def quiet_update_def)

lemma quiet_times: "update_times (update_base default_args quiet_process quiet_update) 9 = Ok (5, 6)"
  by (simp add: update_times_def update_base_def vget_def quiet_update_def quiet_process_def update_timing_def json_int_def
      float_of_int_def fround_def int_of_rat_def rhe_def float_eval Let_def)

lemma quiet_targets: "warmup_targets_of (vget ''control_reply'' (update_base default_args quiet_process quiet_update)) = Ok []"
  by (simp add: warmup_targets_of_def update_base_def vget_def vget_or_def quiet_update_def iter_items_def)

theorem traced_links_shown_witness:
  "\<exists>s'. update_sionna (update_base default_args quiet_process quiet_update) (Fin 0) 9 (new_store (Fin 0)) = (s', None)
     \<and> st_sionna_session_id s' = VStr ''s''
     \<and> (\<exists>e \<in> set (st_iteration_history s'). vget ''channels'' e = VList [shown_channel quiet_link])"
proof -
  note f = update_record_fields [OF quiet_record]
  obtain s' where s: "update_sionna (update_base default_args quiet_process quiet_update) (Fin 0) 9 (new_store (Fin 0)) = (s', None)"
    by (simp add: update_sionna_def f(1-3) rt_update_def quiet_times quiet_targets update_record_channels [OF quiet_record]
        hashable_def Let_def)
  have "reachable (new_store (Fin 0))" by (auto simp: reachable_def)
  from traced_links_shown [OF this quiet_record s] s show ?thesis by (auto simp: quiet_process_def quiet_update_def)
qed

end
