(* ===== verification/BenchDefs.thy ===== *)
theory BenchDefs
  imports ProcParse FloatBounds
begin

text \<open>
  The shared definitions of the scheduler benchmark,
  \<^verbatim>\<open>use_cases/scheduler_benchmark/definitions.py\<close>: the two cells, the 5QI table, the traffic profiles,
  their overrides from the command line, and the 16-bit flow id every packet carries.
\<close>

section \<open>Cells\<close>

record bench_gnb =
  bg_device_id :: string
  bg_tx_port :: int
  bg_rx_port :: int
  bg_pci :: int
  bg_gnb_id :: int
  bg_bind :: string
  bg_metrics_port :: int
  bg_prach_root :: int

record bench_cell =
  ce_name :: string
  ce_gnb :: bench_gnb
  ce_ues :: "string list"

definition CELLS :: "bench_cell list" where
  "CELLS =
     [\<lparr>ce_name = ''a'',
       ce_gnb = \<lparr>bg_device_id = ''gnb0'', bg_tx_port = 2000, bg_rx_port = 2001, bg_pci = 1, bg_gnb_id = 411,
         bg_bind = ''127.0.0.11'', bg_metrics_port = 8001, bg_prach_root = 1\<rparr>, ce_ues = [''ue0'', ''ue1'']\<rparr>,
      \<lparr>ce_name = ''b'',
       ce_gnb = \<lparr>bg_device_id = ''gnb1'', bg_tx_port = 2010, bg_rx_port = 2011, bg_pci = 2, bg_gnb_id = 412,
         bg_bind = ''127.0.0.12'', bg_metrics_port = 8002, bg_prach_root = 1\<rparr>, ce_ues = [''ue2'', ''ue3'']\<rparr>]"

definition FANOUT_RENAME :: "(string \<times> string) list" where
  "FANOUT_RENAME = [(''gnb0'', ''gnb1''), (''ue0'', ''ue2''), (''ue1'', ''ue3'')]"

definition TWINS :: "(string \<times> string) list" where
  "TWINS = [(''ue0'', ''ue2''), (''ue1'', ''ue3''), (''ue2'', ''ue0''), (''ue3'', ''ue1'')]"

definition UE_GATEWAY :: string where "UE_GATEWAY = ''10.45.1.1''"
definition DL_BASE_PORT :: int where "DL_BASE_PORT = 47000"
definition UL_PORT :: int where "UL_PORT = 47900"

section \<open>QoS classes\<close>

record qos_class =
  qc_type :: string
  qc_priority :: int
  qc_pdb_ms :: int
  qc_rlc :: string

definition FIVE_QI :: "(int \<times> qos_class) list" where
  "FIVE_QI =
     [(5, \<lparr>qc_type = ''non-GBR'', qc_priority = 10, qc_pdb_ms = 100, qc_rlc = ''AM''\<rparr>),
      (6, \<lparr>qc_type = ''non-GBR'', qc_priority = 60, qc_pdb_ms = 300, qc_rlc = ''AM''\<rparr>),
      (7, \<lparr>qc_type = ''non-GBR'', qc_priority = 70, qc_pdb_ms = 100, qc_rlc = ''UM''\<rparr>),
      (8, \<lparr>qc_type = ''non-GBR'', qc_priority = 80, qc_pdb_ms = 300, qc_rlc = ''AM''\<rparr>),
      (9, \<lparr>qc_type = ''non-GBR'', qc_priority = 90, qc_pdb_ms = 300, qc_rlc = ''AM''\<rparr>)]"

section \<open>Traffic profiles\<close>

text \<open>A flow is a dictionary whose numeric keys depend on its pattern; an absent key is \<open>None\<close>.\<close>

record flow =
  fw_name :: string
  fw_direction :: string
  fw_pattern :: string
  fw_size_bytes :: int
  fw_rate_mbps :: "pyfloat option"
  fw_interval_ms :: "pyfloat option"
  fw_on_mean_s :: "pyfloat option"
  fw_off_mean_s :: "pyfloat option"

record ue_profile =
  pu_role :: string
  pu_five_qi :: int
  pu_flows :: "flow list"

record profile =
  pf_name :: string
  pf_ues :: "ue_profile list"

definition FLOW_PATTERNS :: "string list" where
  "FLOW_PATTERNS = [''cbr'', ''periodic'', ''poisson'', ''onoff'']"

definition plain_flow :: "string \<Rightarrow> string \<Rightarrow> string \<Rightarrow> int \<Rightarrow> flow" where
  "plain_flow name direction pattern size_bytes =
     \<lparr>fw_name = name, fw_direction = direction, fw_pattern = pattern, fw_size_bytes = size_bytes, fw_rate_mbps = None,
      fw_interval_ms = None, fw_on_mean_s = None, fw_off_mean_s = None\<rparr>"

definition rated :: "string \<Rightarrow> string \<Rightarrow> string \<Rightarrow> rat \<Rightarrow> int \<Rightarrow> flow" where
  "rated name direction pattern rate size_bytes =
     (plain_flow name direction pattern size_bytes)\<lparr>fw_rate_mbps := Some (Fin rate)\<rparr>"

definition periodic :: "string \<Rightarrow> string \<Rightarrow> rat \<Rightarrow> int \<Rightarrow> flow" where
  "periodic name direction interval size_bytes =
     (plain_flow name direction ''periodic'' size_bytes)\<lparr>fw_interval_ms := Some (Fin interval)\<rparr>"

definition bulk_ue :: ue_profile where
  "bulk_ue = \<lparr>pu_role = ''bulk'', pu_five_qi = 9,
     pu_flows = [rated ''dl_bulk'' ''dl'' ''cbr'' 40 1200, rated ''ul_bulk'' ''ul'' ''cbr'' 2 1200]\<rparr>"

definition interactive_ue :: ue_profile where
  "interactive_ue = \<lparr>pu_role = ''interactive'', pu_five_qi = 7,
     pu_flows = [(rated ''dl_video'' ''dl'' ''onoff'' 12 1200)\<lparr>fw_on_mean_s := Some (Fin 2), fw_off_mean_s := Some (Fin 1)\<rparr>,
       periodic ''dl_control'' ''dl'' 10 200, periodic ''ul_control'' ''ul'' 10 200]\<rparr>"

definition light_ue :: ue_profile where
  "light_ue = \<lparr>pu_role = ''light'', pu_five_qi = 9,
     pu_flows = [rated ''dl_poisson'' ''dl'' ''poisson'' 4 1000, rated ''ul_poisson'' ''ul'' ''poisson'' (1/2) 500]\<rparr>"

definition TRAFFIC_PROFILES :: "(string \<times> ue_profile list) list" where
  "TRAFFIC_PROFILES =
     [(''mixed'', [bulk_ue, interactive_ue]), (''full_buffer'', [bulk_ue, bulk_ue]), (''light'', [light_ue, light_ue])]"

section \<open>Flow ids\<close>

definition flow_id :: "int \<Rightarrow> int \<Rightarrow> int \<Rightarrow> int result" where
  "flow_id cell_index ue_index flow_index =
     (if 0 \<le> cell_index \<and> cell_index < 16 \<and> 0 \<le> ue_index \<and> ue_index < 16 \<and> 0 \<le> flow_index \<and> flow_index < 256
      then Ok (or (or (push_bit 12 cell_index) (push_bit 8 ue_index)) flow_index)
      else Err (ValueError ''flow id field out of range''))"

definition split_flow_id :: "int \<Rightarrow> int \<times> int \<times> int" where
  "split_flow_id v = (and (drop_bit 12 v) 15, and (drop_bit 8 v) 15, and v 255)"

text \<open>The fields do not overlap, so the id is their weighted sum.\<close>

lemma or_field: "0 \<le> b \<Longrightarrow> b < 2 ^ n \<Longrightarrow> or (push_bit n a) b = a * 2 ^ n + (b :: int)"
proof -
  assume b: "0 \<le> b" "b < 2 ^ n"
  then have "take_bit n b = b" by (simp add: take_bit_int_eq_self)
  then have low: "m < n" if "bit b m" for m using that by (metis bit_take_bit_iff)
  have "and (push_bit n a) b = 0"
    by (intro bit_eqI) (auto simp: bit_and_iff bit_push_bit_iff dest: low)
  then show ?thesis by (simp add: push_bit_eq_mult disjunctive_add_eq_or [symmetric])
qed

lemma flow_id_value:
  assumes "flow_id c u f = Ok v"
  shows "v = c * 4096 + u * 256 + f \<and> 0 \<le> c \<and> c < 16 \<and> 0 \<le> u \<and> u < 16 \<and> 0 \<le> f \<and> f < 256"
proof -
  have r: "0 \<le> c" "c < 16" "0 \<le> u" "u < 16" "0 \<le> f" "f < 256"
    and v: "v = or (or (push_bit 12 c) (push_bit 8 u)) f"
    using assms by (auto simp: flow_id_def split: if_splits)
  have "or (push_bit 8 u) f = u * 256 + f" using or_field [of f 8 u] r by simp
  then have "v = or (push_bit 12 c) (u * 256 + f)" by (simp add: v or.assoc)
  then show ?thesis using or_field [of "u * 256 + f" 12 c] r by simp
qed

lemma flow_id_bounds: "flow_id c u f = Ok v \<Longrightarrow> 0 \<le> v \<and> v < 2 ^ 16"
  by (drule flow_id_value) simp

lemma mask_fields: "and v 15 = v mod (16 :: int)" "and v 255 = v mod (256 :: int)"
proof -
  have m: "and v (mask n) = v mod 2 ^ n" for n by (simp flip: take_bit_eq_mask add: take_bit_eq_mod)
  show "and v 15 = v mod 16" "and v 255 = v mod 256"
    using m [of 4] m [of 8] by (simp_all add: mask_eq_exp_minus_1)
qed

lemma flow_id_split:
  assumes "flow_id c u f = Ok v"
  shows "split_flow_id v = (c, u, f) \<and> 0 \<le> v \<and> v < 2 ^ 16"
proof -
  note v = flow_id_value [OF assms]
  have "drop_bit 12 v = v div 4096" "drop_bit 8 v = v div 256" by (simp_all add: drop_bit_eq_div)
  moreover have "v div 4096 = c" using v by linarith
  moreover have "v = f + (c * 16 + u) * 256" using v by simp
  then have "v div 256 = c * 16 + u" "v mod 256 = f" using v by (simp_all only: div_mult_self1 mod_mult_self1) simp_all
  ultimately show ?thesis using v by (simp add: split_flow_id_def mask_fields)
qed

text \<open>A flow id carries its three fields: whatever \<open>flow_id\<close> accepts fits 16 bits and is split into what it
  was made of.\<close>

theorem flow_id_roundtrip:
  assumes "flow_id c u f = Ok v"
  shows "split_flow_id v = (c, u, f) \<and> 0 \<le> v \<and> v < 2 ^ 16"
  using assms by (rule flow_id_split)

section \<open>Checking a profile\<close>

definition positive :: "pyfloat option \<Rightarrow> bool" where
  "positive x = (case x of Some v \<Rightarrow> flt (Fin 0) v | None \<Rightarrow> False)"

definition validate_flow :: "flow \<Rightarrow> string list \<Rightarrow> string list result" where
  "validate_flow f names =
     (if fw_name f \<in> set names then Err (ValueError ''duplicate flow'')
      else if fw_direction f \<notin> {''dl'', ''ul''} then Err (ValueError ''direction must be dl or ul'')
      else if fw_pattern f \<notin> set FLOW_PATTERNS then Err (ValueError ''pattern must be one of'')
      else if \<not> (64 \<le> fw_size_bytes f \<and> fw_size_bytes f \<le> 1400) then Err (ValueError ''size_bytes must be 64..1400'')
      else if fw_pattern f = ''periodic'' \<and> \<not> positive (fw_interval_ms f)
      then Err (ValueError ''periodic needs interval_ms > 0'')
      else if fw_pattern f \<noteq> ''periodic'' \<and> \<not> positive (fw_rate_mbps f) then Err (ValueError ''needs rate_mbps > 0'')
      else if fw_pattern f = ''onoff'' \<and> \<not> (positive (fw_on_mean_s f) \<and> positive (fw_off_mean_s f))
      then Err (ValueError ''onoff needs on_mean_s and off_mean_s > 0'')
      else Ok (fw_name f # names))"

definition validate_ue :: "ue_profile \<Rightarrow> unit \<Rightarrow> unit result" where
  "validate_ue u _ =
     (if map_of FIVE_QI (pu_five_qi u) = None then Err (ValueError ''5QI is not in the supported table'')
      else bindR (foldR validate_flow (pu_flows u) []) (\<lambda>_.
        if 10 < length (pu_flows u) then Err (ValueError ''at most 10 flows (DL port block of 10)'') else Ok ()))"

definition validate_profile :: "profile \<Rightarrow> unit result" where
  "validate_profile p =
     (if length (pf_ues p) \<noteq> 2 then Err (ValueError ''a traffic profile defines exactly two UEs per cell'')
      else foldR validate_ue (pf_ues p) ())"

section \<open>Overrides\<close>

text \<open>The dictionary of the flows by name holds, of two flows with one name, the later.\<close>

fun set_first :: "('a \<Rightarrow> bool) \<Rightarrow> ('a \<Rightarrow> 'a) \<Rightarrow> 'a list \<Rightarrow> 'a list" where
  "set_first P f [] = []"
| "set_first P f (x # xs) = (if P x then f x # xs else x # set_first P f xs)"

definition update_flow :: "string \<Rightarrow> (flow \<Rightarrow> flow) \<Rightarrow> flow list \<Rightarrow> flow list" where
  "update_flow name f fs = rev (set_first (\<lambda>x. fw_name x = name) f (rev fs))"

definition flow_field :: "string \<Rightarrow> pyfloat \<Rightarrow> (flow \<Rightarrow> flow) result" where
  "flow_field key v =
     (if key = ''rate_mbps'' then Ok (fw_rate_mbps_update (\<lambda>_. Some v))
      else if key = ''size_bytes'' then bindR (ftrunc v) (\<lambda>n. Ok (fw_size_bytes_update (\<lambda>_. n)))
      else if key = ''interval_ms'' then Ok (fw_interval_ms_update (\<lambda>_. Some v))
      else if key = ''on_mean_s'' then Ok (fw_on_mean_s_update (\<lambda>_. Some v))
      else if key = ''off_mean_s'' then Ok (fw_off_mean_s_update (\<lambda>_. Some v))
      else Err (ValueError ''field cannot be overridden''))"

definition ue_index_of :: "string \<Rightarrow> nat option" where
  "ue_index_of part =
     (if str_startswith ''ue'' part \<and> drop 2 part \<noteq> [] \<and> list_all is_digit (drop 2 part) then parse_nat (drop 2 part)
      else None)"

definition override_ue :: "string \<Rightarrow> string \<Rightarrow> pyfloat \<Rightarrow> ue_profile \<Rightarrow> ue_profile result" where
  "override_ue name key v u =
     (if name = ''five_qi'' \<and> key = ''value'' then bindR (ftrunc v) (\<lambda>q. Ok (u\<lparr>pu_five_qi := q\<rparr>))
      else if name \<notin> set (map fw_name (pu_flows u)) then Err (ValueError ''override: no flow'')
      else bindR (flow_field key v) (\<lambda>f. Ok (u\<lparr>pu_flows := update_flow name f (pu_flows u)\<rparr>)))"

definition apply_override :: "string \<times> pyfloat \<Rightarrow> ue_profile list \<Rightarrow> ue_profile list result" where
  "apply_override kv ues =
     (case str_split (CHR ''.'') (fst kv) of
        [part, name, key] \<Rightarrow>
          (case ue_index_of part of
             None \<Rightarrow> Err (ValueError ''override must be ue<i>.<flow>.<field>'')
           | Some i \<Rightarrow>
               if length ues \<le> i then Err (ValueError ''override: too few UEs'')
               else bindR (override_ue name key (snd kv) (ues ! i)) (\<lambda>u. Ok (ues[i := u])))
      | _ \<Rightarrow> Err (ValueError ''override must be ue<i>.<flow>.<field>''))"

definition resolve_profile :: "string \<Rightarrow> (string \<times> pyfloat) list \<Rightarrow> profile result" where
  "resolve_profile name overrides =
     (case map_of TRAFFIC_PROFILES name of
        None \<Rightarrow> Err (ValueError ''unknown traffic profile'')
      | Some ues \<Rightarrow>
          bindR (foldR apply_override overrides ues) (\<lambda>ues.
          let p = \<lparr>pf_name = name, pf_ues = ues\<rparr> in bindR (validate_profile p) (\<lambda>_. Ok p)))"

text \<open>The overrides of the command line, \<open>key=value\<close> joined by commas.\<close>

definition override_item :: "string \<Rightarrow> (string \<times> pyfloat) list \<Rightarrow> (string \<times> pyfloat) list result" where
  "override_item item out =
     (case str_strip item of
        [] \<Rightarrow> Ok out
      | stripped \<Rightarrow>
          (case str_partition (CHR ''='') stripped of
             (key, found, text) \<Rightarrow>
               if \<not> found then Err (ValueError ''traffic override must be key=value'')
               else case parse_float text of
                      None \<Rightarrow> Err (ValueError ''could not convert string to float'')
                    | Some v \<Rightarrow> Ok (AList.update (str_strip key) v out)))"

definition parse_overrides :: "string option \<Rightarrow> (string \<times> pyfloat) list result" where
  "parse_overrides text = foldR override_item (str_split (CHR '','') (case text of None \<Rightarrow> [] | Some s \<Rightarrow> s)) []"

text \<open>The mean offered payload rate of a flow.\<close>

definition need :: "'a option \<Rightarrow> string \<Rightarrow> 'a result" where
  "need x key = (case x of None \<Rightarrow> Err (KeyError key) | Some v \<Rightarrow> Ok v)"

definition offered_rate_mbps :: "flow \<Rightarrow> pyfloat result" where
  "offered_rate_mbps f =
     (if fw_pattern f = ''periodic''
      then bindR (need (fw_interval_ms f) ''interval_ms'') (\<lambda>ms.
           bindR (fdiv (fl (fw_size_bytes f * 8)) (fquot ms (Fin 1000))) (\<lambda>r. Ok (fquot r (Fin 1000000))))
      else if fw_pattern f = ''onoff''
      then bindR (need (fw_on_mean_s f) ''on_mean_s'') (\<lambda>on. bindR (need (fw_off_mean_s f) ''off_mean_s'') (\<lambda>off.
           bindR (fdiv on (fadd on off)) (\<lambda>duty. bindR (need (fw_rate_mbps f) ''rate_mbps'') (\<lambda>r. Ok (fmul r duty)))))
      else need (fw_rate_mbps f) ''rate_mbps'')"

section \<open>Accepted profiles\<close>

definition flow_wf :: "flow \<Rightarrow> bool" where
  "flow_wf f \<longleftrightarrow> fw_direction f \<in> {''dl'', ''ul''} \<and> fw_pattern f \<in> set FLOW_PATTERNS
     \<and> 64 \<le> fw_size_bytes f \<and> fw_size_bytes f \<le> 1400
     \<and> (if fw_pattern f = ''periodic'' then positive (fw_interval_ms f) else positive (fw_rate_mbps f))
     \<and> (if fw_pattern f = ''onoff'' then positive (fw_on_mean_s f) \<and> positive (fw_off_mean_s f) else True)"

definition ue_wf :: "ue_profile \<Rightarrow> bool" where
  "ue_wf u \<longleftrightarrow> map_of FIVE_QI (pu_five_qi u) \<noteq> None \<and> length (pu_flows u) \<le> 10
     \<and> distinct (map fw_name (pu_flows u)) \<and> list_all flow_wf (pu_flows u)"

definition profile_wf :: "profile \<Rightarrow> bool" where
  "profile_wf p \<longleftrightarrow> length (pf_ues p) = 2 \<and> list_all ue_wf (pf_ues p)"

lemma validate_flow_ok:
  "validate_flow f names = Ok names' \<Longrightarrow> flow_wf f \<and> fw_name f \<notin> set names \<and> names' = fw_name f # names"
  by (auto simp: validate_flow_def flow_wf_def split: if_splits)

lemma validate_flows_ok:
  "foldR validate_flow fs names = Ok names' \<Longrightarrow>
     list_all flow_wf fs \<and> distinct (map fw_name fs) \<and> set (map fw_name fs) \<inter> set names = {}"
proof (induction fs arbitrary: names)
  case (Cons f fs)
  then obtain ns where "validate_flow f names = Ok ns" and r: "foldR validate_flow fs ns = Ok names'"
    by (auto simp: result_simps)
  from validate_flow_ok [OF this(1)] Cons.IH [OF r] show ?case by auto
qed simp

lemma validate_ue_ok: "validate_ue u x = Ok y \<Longrightarrow> ue_wf u"
  by (auto simp: validate_ue_def ue_wf_def result_simps dest!: validate_flows_ok split: if_splits)

lemma validate_profile_ok: "validate_profile p = Ok y \<Longrightarrow> profile_wf p"
proof -
  have "foldR validate_ue us a = Ok b \<Longrightarrow> list_all ue_wf us" for us a b
    by (induction us arbitrary: a) (auto simp: result_simps dest!: validate_ue_ok)
  then show "validate_profile p = Ok y \<Longrightarrow> profile_wf p"
    by (auto simp: validate_profile_def profile_wf_def split: if_splits)
qed

lemma resolve_profile_ok: "resolve_profile name ovs = Ok p \<Longrightarrow> pf_name p = name \<and> profile_wf p"
  by (auto simp: resolve_profile_def result_simps Let_def split: option.splits dest: validate_profile_ok)

text \<open>Every profile that is accepted, whatever its overrides, is well formed: two UEs with a known 5QI, at most
  ten flows with names of their own, each with a size that fits a datagram and the rates its pattern needs.\<close>

theorem accepted_profile_wf:
  "case resolve_profile name overrides of Inl e \<Rightarrow> True | Inr p \<Rightarrow> pf_name p = name \<and> profile_wf p"
  by (auto split: sum.split dest: resolve_profile_ok)

theorem flow_id_roundtrip_witness:
  "split_flow_id 4870 = (1, 3, 6) \<and> 0 \<le> (4870 :: int) \<and> (4870 :: int) < 2 ^ 16"
  by (rule flow_id_roundtrip) (simp add: flow_id_def push_bit_eq_mult)

end
