(* ===== verification/BenchTraffic.thy ===== *)
theory BenchTraffic
  imports BenchDefs
begin

text \<open>
  The packet schedules of \<^verbatim>\<open>use_cases/scheduler_benchmark/traffic.py\<close>: the send offsets of a flow as a
  function of the seed. The generator is modelled by the list it yields; a schedule that never ends is
  \<open>None\<close>. The pseudo-random generator is the parameter \<open>rand\<close>, from the seed string to the numbers
  \<open>random()\<close> returns, and the natural logarithm is the parameter \<open>lg\<close>.
\<close>

section \<open>Random variates\<close>

type_synonym random = "string \<Rightarrow> nat \<Rightarrow> pyfloat"

definition rng_key :: "int \<Rightarrow> int \<Rightarrow> string \<Rightarrow> string" where
  "rng_key seed ue_index name =
     ''scheduler-benchmark:'' @ str_int seed @ '':ue'' @ str_int ue_index @ '':'' @ name @ '':traffic''"

text \<open>\<open>uniform(a, b)\<close> and \<open>expovariate(lambd)\<close> from one number of the generator.\<close>

definition uniform :: "pyfloat \<Rightarrow> pyfloat \<Rightarrow> pyfloat \<Rightarrow> pyfloat" where
  "uniform a b u = fadd a (fmul (fsub b a) u)"

definition expovariate :: "(pyfloat \<Rightarrow> pyfloat) \<Rightarrow> pyfloat \<Rightarrow> pyfloat \<Rightarrow> pyfloat result" where
  "expovariate lg lambd u = fdiv (fneg (lg (fsub (Fin 1) u))) lambd"

text \<open>An exponential gap of the given mean.\<close>

definition gap_of_mean :: "(pyfloat \<Rightarrow> pyfloat) \<Rightarrow> pyfloat \<Rightarrow> pyfloat \<Rightarrow> pyfloat result" where
  "gap_of_mean lg m u = bindR (fdiv (Fin 1) m) (\<lambda>lambd. expovariate lg lambd u)"

section \<open>Schedules\<close>

partial_function (option) steady :: "pyfloat \<Rightarrow> pyfloat \<Rightarrow> pyfloat \<Rightarrow> pyfloat list option" where
  "steady interval duration t =
     (if flt t duration
      then Option.bind (steady interval duration (fadd t interval)) (\<lambda>ts. Some (t # ts))
      else Some [])"

partial_function (option) poisson ::
  "(nat \<Rightarrow> pyfloat result) \<Rightarrow> pyfloat \<Rightarrow> nat \<Rightarrow> pyfloat \<Rightarrow> pyfloat list result option" where
  "poisson gap duration n t =
     (if flt t duration
      then (case gap n of
              Inl e \<Rightarrow> Some (Inl e)
            | Inr g \<Rightarrow> Option.bind (poisson gap duration (Suc n) (fadd t g)) (\<lambda>r. Some (bindR r (\<lambda>ts. Inr (t # ts)))))
      else Some (Inr []))"

text \<open>One ON period: its packets, and the time after the last one.\<close>

partial_function (option) burst :: "pyfloat \<Rightarrow> pyfloat \<Rightarrow> pyfloat \<Rightarrow> (pyfloat list \<times> pyfloat) option" where
  "burst interval stop t =
     (if flt t stop
      then Option.bind (burst interval stop (fadd t interval)) (\<lambda>r. Some (t # fst r, snd r))
      else Some ([], t))"

partial_function (option) onoff ::
  "pyfloat \<Rightarrow> (bool \<Rightarrow> nat \<Rightarrow> pyfloat result) \<Rightarrow> pyfloat \<Rightarrow> nat \<Rightarrow> bool \<Rightarrow> pyfloat \<Rightarrow> pyfloat list result option" where
  "onoff interval period duration n on t =
     (if flt t duration
      then (case period on n of
              Inl e \<Rightarrow> Some (Inl e)
            | Inr p \<Rightarrow>
                Option.bind (if on then burst interval (fmin (fadd t p) duration) t else Some ([], t)) (\<lambda>b.
                Option.bind (onoff interval period duration (Suc n) (\<not> on) (fmax (snd b) (fmin (fadd t p) duration))) (\<lambda>r.
                Some (bindR r (\<lambda>ts. Inr (fst b @ ts))))))
      else Some (Inr []))"

definition bindO :: "'a result \<Rightarrow> ('a \<Rightarrow> 'b result option) \<Rightarrow> 'b result option" where
  "bindO m f = (case m of Inl e \<Rightarrow> Some (Inl e) | Inr x \<Rightarrow> f x)"

definition flow_schedule ::
  "random \<Rightarrow> (pyfloat \<Rightarrow> pyfloat) \<Rightarrow> int \<Rightarrow> int \<Rightarrow> flow \<Rightarrow> pyfloat \<Rightarrow> pyfloat list result option" where
  "flow_schedule rand lg seed ue_index f duration =
     (let draws = rand (rng_key seed ue_index (fw_name f))
      in if fw_pattern f = ''periodic''
         then bindO (need (fw_interval_ms f) ''interval_ms'') (\<lambda>ms.
              let interval = fquot ms (Fin 1000)
              in map_option Inr (steady interval duration (uniform (Fin 0) interval (draws 0))))
         else bindO (need (fw_rate_mbps f) ''rate_mbps'') (\<lambda>rate.
              bindO (fdiv (fl (fw_size_bytes f * 8)) (fmul rate (Fin 1000000))) (\<lambda>interval.
              if fw_pattern f = ''cbr''
              then map_option Inr (steady interval duration (uniform (Fin 0) interval (draws 0)))
              else if fw_pattern f = ''poisson''
              then bindO (gap_of_mean lg interval (draws 0)) (\<lambda>t.
                   poisson (\<lambda>n. gap_of_mean lg interval (draws n)) duration 1 t)
              else if fw_pattern f = ''onoff''
              then bindO (need (fw_on_mean_s f) ''on_mean_s'') (\<lambda>on_mean.
                   bindO (need (fw_off_mean_s f) ''off_mean_s'') (\<lambda>off_mean.
                   bindO (fdiv on_mean (fadd on_mean off_mean)) (\<lambda>duty.
                   onoff interval (\<lambda>on n. gap_of_mean lg (if on then on_mean else off_mean) (draws n)) duration 1
                     (flt (draws 0) duty) (Fin 0))))
              else Some (Inl (ValueError ''unknown pattern'')))))"

section \<open>Schedules are in order\<close>

text \<open>Times a schedule can hold: a float that is a NaN or at least 0.\<close>

definition clock_time :: "pyfloat \<Rightarrow> bool" where
  "clock_time t \<longleftrightarrow> is_float t \<and> (t = NaN \<or> fle (Fin 0) t)"

definition step_ok :: "pyfloat \<Rightarrow> bool" where
  "step_ok g \<longleftrightarrow> g = NaN \<or> fle (Fin 0) g"

lemma fadd_forward:
  assumes "clock_time t" and "step_ok g"
  shows "clock_time (fadd t g)" and "fadd t g \<noteq> NaN \<Longrightarrow> fle t (fadd t g)"
proof -
  have "fadd t g = NaN \<or> fle t (fadd t g)"
  proof (cases "\<exists>x y. t = Fin x \<and> g = Fin y")
    case True
    then obtain x y where xy: "t = Fin x" "g = Fin y" by blast
    with assms have "is_f64 x" "0 \<le> y" by (auto simp: clock_time_def step_ok_def is_float_def)
    with rnd64_ge_f64 [of x "x + y"] xy show ?thesis by simp
  next
    case False
    with assms show ?thesis by (cases t; cases g) (auto simp: clock_time_def step_ok_def)
  qed
  moreover have "fadd t g = NaN" if "t = NaN" using that by (cases g) simp_all
  ultimately show "clock_time (fadd t g)" "fadd t g \<noteq> NaN \<Longrightarrow> fle t (fadd t g)"
    using assms(1) by (auto simp: clock_time_def intro: fle_trans)
qed

text \<open>A list of times from \<open>lo\<close> on, in order, below \<open>hi\<close>.\<close>

definition in_window :: "pyfloat \<Rightarrow> pyfloat \<Rightarrow> pyfloat list \<Rightarrow> bool" where
  "in_window lo hi ts \<longleftrightarrow> sorted_wrt fle ts \<and> list_all (\<lambda>x. fle lo x \<and> flt x hi) ts"

lemma in_window_Nil [simp]: "in_window lo hi []"
  by (simp add: in_window_def)

lemma flt_not_NaN: "flt a b \<Longrightarrow> a \<noteq> NaN" and fle_not_NaN: "fle a b \<Longrightarrow> a \<noteq> NaN \<and> b \<noteq> NaN"
  by (cases a; cases b; simp)+

lemma in_window_Cons:
  assumes "flt t hi" and "clock_time t" and "step_ok g" and "in_window (fadd t g) hi ts"
  shows "in_window t hi (t # ts)"
proof -
  have "fle t x" if "x \<in> set ts" for x
  proof -
    from that assms(4) have x: "fle (fadd t g) x" by (auto simp: in_window_def list_all_iff)
    with fle_not_NaN [OF x] fadd_forward(2) [OF assms(2,3)] show ?thesis by (blast intro: fle_trans)
  qed
  with assms(1,4) flt_not_NaN [OF assms(1)] show ?thesis by (auto simp: in_window_def list_all_iff fle_refl)
qed

lemma steady_in_window:
  assumes "steady interval duration t = Some ts" and "clock_time t" and "step_ok interval"
  shows "in_window t duration ts"
  using assms
proof (induction rule: steady.raw_induct [rotated 1, consumes 1, case_names 1])
  case (1 rec interval duration t ts)
  show ?case
  proof (cases "flt t duration")
    case True
    with 1(2) obtain us where us: "rec interval duration (fadd t interval) = Some us" "ts = t # us"
      by (auto simp: bind_eq_Some_conv)
    from 1(1) [OF us(1) fadd_forward(1) [OF 1(3,4)] 1(4)] us(2) in_window_Cons [OF True 1(3,4)]
    show ?thesis by simp
  next
    case False
    with 1(2) show ?thesis by simp
  qed
qed

lemma poisson_in_window:
  assumes "poisson gap duration n t = Some r" and "clock_time t" and "\<And>i g. gap i = Inr g \<Longrightarrow> step_ok g" and "r = Inr ts"
  shows "in_window t duration ts"
  using assms
proof (induction arbitrary: ts rule: poisson.raw_induct [rotated 1, consumes 1, case_names 1])
  case (1 rec gap duration n t r ts)
  show ?case
  proof (cases "flt t duration")
    case True
    with 1(2,5) obtain g where g0: "gap n = Inr g" by (cases "gap n") auto
    with True 1(2,5) obtain r' where g: "gap n = Inr g" "rec gap duration (Suc n) (fadd t g) = Some r'"
      "bindR r' (\<lambda>us. Inr (t # us)) = Inr ts" by (auto simp: bind_eq_Some_conv)
    then obtain us where us: "r' = Inr us" "ts = t # us" by (auto simp: result_simps)
    have sg: "step_ok g" using 1(4) g(1) .
    from 1(1) [OF g(2) fadd_forward(1) [OF 1(3) sg] 1(4) us(1)] us(2) in_window_Cons [OF True 1(3) sg]
    show ?thesis by simp
  next
    case False
    with 1(2,5) show ?thesis by simp
  qed
qed

lemma burst_in_window:
  assumes "burst interval stop t = Some (ts, t')" and "clock_time t" and "step_ok interval"
  shows "in_window t stop ts \<and> clock_time t' \<and> (t' = NaN \<or> fle t t')"
  using assms
proof (induction interval stop t "(ts, t')" arbitrary: ts t' rule: burst.raw_induct [rotated 1, consumes 1, case_names 1])
  case (1 rec interval stop t ts t')
  show ?case
  proof (cases "flt t stop")
    case True
    with 1(2) obtain us where us: "rec interval stop (fadd t interval) = Some (us, t')" "ts = t # us"
      by (auto simp: bind_eq_Some_conv)
    from 1(1) [OF us(1) fadd_forward(1) [OF 1(3,4)] 1(4)] us(2) in_window_Cons [OF True 1(3,4)]
      fadd_forward(2) [OF 1(3,4)] fle_not_NaN [of "fadd t interval" t']
    show ?thesis by (auto intro: fle_trans)
  next
    case False
    with 1(2,3) show ?thesis by (cases "t = NaN") (auto intro: fle_refl)
  qed
qed

lemma in_window_append:
  assumes "in_window t e us" and "fle e hi" and "in_window t2 hi rs" and "t2 = NaN \<or> fle e t2 \<and> fle t t2" and "t2 = NaN \<Longrightarrow> rs = []"
  shows "in_window t hi (us @ rs)"
proof -
  have below: "flt x hi" "fle x e" if "x \<in> set us" for x
    using that assms(1,2) by (auto simp: in_window_def list_all_iff intro: flt_fle_trans flt_imp_fle)
  have "fle e y \<and> fle t y" if "y \<in> set rs" for y
  proof -
    have y: "fle t2 y" using that assms(3) by (auto simp: in_window_def list_all_iff)
    with fle_not_NaN [OF y] assms(4) show ?thesis by (blast intro: fle_trans)
  qed
  with below assms(1,3) show ?thesis
    by (auto simp: in_window_def list_all_iff sorted_wrt_append intro: fle_trans)
qed

lemma fmin_le: "fle (fmin a b) b \<or> fmin a b = NaN \<or> b = NaN"
  by (cases a; cases b) (auto simp: fmin_def)

lemma fmax_ge: "fmax a b = NaN \<or> fle a (fmax a b) \<and> (fle b (fmax a b) \<or> b = NaN)"
  by (cases a; cases b) (auto simp: fmax_def)

lemma onoff_in_window:
  assumes "onoff interval period duration n on t = Some r" and "clock_time t" and "step_ok interval" and "is_float duration"
    and "\<And>b i g. period b i = Inr g \<Longrightarrow> step_ok g" and "r = Inr ts"
  shows "in_window t duration ts"
  using assms
proof (induction arbitrary: ts rule: onoff.raw_induct [rotated 1, consumes 1, case_names 1])
  case (1 rec interval period duration n on t r ts)
  show ?case
  proof (cases "flt t duration")
    case True
    with 1(2,7) obtain p where p: "period on n = Inr p" by (cases "period on n") auto
    define e where "e = fmin (fadd t p) duration"
    from True p 1(2,7) obtain us t' r' rs where
      b0: "(if on then burst interval (fmin (fadd t p) duration) t else Some ([], t)) = Some (us, t')"
      and r': "rec interval period duration (Suc n) (\<not> on) (fmax t' e) = Some r'" "r' = Inr rs" "ts = us @ rs"
      by (auto simp: bind_eq_Some_conv e_def result_simps)
    note b = b0 [folded e_def]
    note sp = 1(6) [OF p]
    have d: "clock_time duration" "duration \<noteq> NaN" using True 1(3,5) by (cases t; cases duration; auto simp: clock_time_def)+
    have e: "clock_time e"
      using fadd_forward(1) [OF 1(3) sp] d(1) by (simp add: e_def fmin_def)
    have us: "in_window t e us \<and> clock_time t' \<and> (t' = NaN \<or> fle t t')"
    proof (cases on)
      case True
      with b burst_in_window [of interval e t us t'] 1(3,4) show ?thesis by simp
    next
      case False
      with b 1(3) show ?thesis by (cases "t = NaN") (auto intro: fle_refl)
    qed
    have t2: "clock_time (fmax t' e)" using us e by (simp add: fmax_def)
    have rs: "in_window (fmax t' e) duration rs" using 1(1) [OF r'(1) t2 1(4,5,6) r'(2)] .
    show ?thesis
    proof (cases "e = NaN")
      case True
      have "us = []" using us True flt_not_NaN by (cases us) (auto simp: in_window_def elim: flt.elims)
      moreover have "fmax t' e = t'" using True by (cases t') (simp_all add: fmax_def)
      ultimately show ?thesis using rs us r'(3)
        by (auto simp: in_window_def list_all_iff dest: fle_not_NaN intro: fle_trans)
    next
      case False
      have "fmax t' e = NaN \<Longrightarrow> rs = []" using rs by (cases rs) (auto simp: in_window_def dest: fle_not_NaN)
      moreover have "fle e duration" using fmin_le [of "fadd t p" duration] False d(2) by (auto simp: e_def)
      moreover have "fmax t' e = NaN \<or> fle e (fmax t' e) \<and> fle t (fmax t' e)"
        using fmax_ge [of t' e] us False by (auto intro: fle_trans dest: fle_not_NaN)
      ultimately show ?thesis using in_window_append [OF us [THEN conjunct1] _ rs] r'(3) by simp
    qed
  next
    case False
    with 1(2,7) show ?thesis by simp
  qed
qed

section \<open>Variates move forward\<close>

text \<open>What the standard library documents of \<open>random()\<close> and of the logarithm on (0, 1].\<close>

definition unit_draws :: "(nat \<Rightarrow> pyfloat) \<Rightarrow> bool" where
  "unit_draws draws \<longleftrightarrow> (\<forall>n. \<exists>r. draws n = Fin r \<and> 0 \<le> r \<and> r \<le> 1 - pow2 (- 53))"

definition log_ok :: "(pyfloat \<Rightarrow> pyfloat) \<Rightarrow> bool" where
  "log_ok lg \<longleftrightarrow> (\<forall>r. 0 < r \<and> r \<le> 1 \<longrightarrow> (\<exists>y. lg (Fin r) = Fin y \<and> y \<le> 0))"

lemma fle_zero_rnd64: "0 \<le> x \<Longrightarrow> fle (Fin 0) (rnd64 x)"
  using rnd64_ge_f64 [of 0 x] by simp

lemma fdiv_forward: "fle (Fin 0) a \<Longrightarrow> fle (Fin 0) b \<Longrightarrow> fdiv a b = Ok q \<Longrightarrow> fle (Fin 0) q \<or> q = NaN"
  by (cases a; cases b) (auto simp: sgn_inf_def fle_zero_rnd64 split: if_splits)

lemma fmul_forward: "fle (Fin 0) a \<Longrightarrow> fle (Fin 0) b \<Longrightarrow> fle (Fin 0) (fmul a b) \<or> fmul a b = NaN"
  by (cases a; cases b) (auto simp: sgn_inf_def fle_zero_rnd64)

lemma uniform_clock:
  assumes "fle (Fin 0) interval" and "unit_draws draws"
  shows "clock_time (uniform (Fin 0) interval (draws n))"
proof -
  obtain r where r: "draws n = Fin r" "0 \<le> r" using assms(2) by (auto simp: unit_draws_def)
  have i: "fle (Fin 0) (fsub interval (Fin 0))" using assms(1) by (cases interval) (simp_all add: fsub_def fle_zero_rnd64)
  have "fle (Fin 0) (draws n)" using r by simp
  from fmul_forward [OF i this] have "step_ok (fmul (fsub interval (Fin 0)) (draws n))" by (auto simp: step_ok_def)
  moreover have "clock_time (Fin 0)" by (simp add: clock_time_def is_float_def)
  ultimately show ?thesis unfolding uniform_def by (intro fadd_forward)
qed

lemma gap_forward:
  assumes "fle (Fin 0) m" and "unit_draws draws" and "log_ok lg" and "gap_of_mean lg m (draws n) = Ok g"
  shows "step_ok g"
proof -
  obtain lambd where l: "fdiv (Fin 1) m = Ok lambd" and g: "fdiv (fneg (lg (fsub (Fin 1) (draws n)))) lambd = Ok g"
    using assms(4) by (auto simp: gap_of_mean_def expovariate_def result_simps)
  obtain r where r: "draws n = Fin r" "0 \<le> r" "r \<le> 1 - pow2 (- 53)" using assms(2) by (auto simp: unit_draws_def)
  have "is_f64 (of_int 1 * pow2 (- 53))" by (rule is_f64_scaled) simp_all
  then obtain x where x: "fsub (Fin 1) (draws n) = Fin x" "pow2 (- 53) \<le> x" "x \<le> 1"
    using rnd64_between [of "pow2 (- 53)" 1 "1 - r"] r by (auto simp: fsub_def)
  have "0 < x" using x(2) pow2_pos [of "- 53"] by linarith
  then obtain y where y: "lg (Fin x) = Fin y" "y \<le> 0" using assms(3) x(3) by (auto simp: log_ok_def)
  have "fle (Fin 0) lambd \<or> lambd = NaN" using fdiv_forward [OF _ assms(1) l] by simp
  moreover have "fle (Fin 0) g \<or> g = NaN" if "fle (Fin 0) lambd" using fdiv_forward [OF _ that g] y x(1) by simp
  moreover have "g = NaN" if "lambd = NaN" using g that by simp
  ultimately show ?thesis by (auto simp: step_ok_def)
qed

section \<open>What schedules hold\<close>

text \<open>The step of a flow.\<close>

definition flow_interval :: "flow \<Rightarrow> pyfloat result" where
  "flow_interval f =
     (if fw_pattern f = ''periodic'' then bindR (need (fw_interval_ms f) ''interval_ms'') (\<lambda>ms. Ok (fquot ms (Fin 1000)))
      else bindR (need (fw_rate_mbps f) ''rate_mbps'') (\<lambda>r. fdiv (fl (fw_size_bytes f * 8)) (fmul r (Fin 1000000))))"

lemma positive_cases: "positive x \<Longrightarrow> \<exists>v. x = Some v \<and> flt (Fin 0) v"
  by (auto simp: positive_def split: option.splits)

lemma flow_interval_forward:
  assumes "flow_wf f" and "flow_interval f = Ok i"
  shows "fle (Fin 0) i \<or> i = NaN"
proof (cases "fw_pattern f = ''periodic''")
  case True
  then obtain v where v: "fw_interval_ms f = Some v" "flt (Fin 0) v"
    using assms(1) by (auto simp: flow_wf_def dest: positive_cases)
  with True assms(2) have "i = fquot v (Fin 1000)" by (simp add: flow_interval_def need_def)
  with v(2) show ?thesis by (cases v) (auto simp: fquot_def sgn_inf_def fle_zero_rnd64)
next
  case False
  then obtain v where v: "fw_rate_mbps f = Some v" "flt (Fin 0) v" and size: "64 \<le> fw_size_bytes f"
    using assms(1) by (auto simp: flow_wf_def dest: positive_cases)
  from False v assms(2) have i: "fdiv (fl (fw_size_bytes f * 8)) (fmul v (Fin 1000000)) = Ok i"
    by (simp add: flow_interval_def need_def)
  have "fle (Fin 0) (fl (fw_size_bytes f * 8))" using size by (simp add: fl_def fle_zero_rnd64)
  moreover have "fle (Fin 0) (fmul v (Fin 1000000))" using v(2) by (cases v) (simp_all add: sgn_inf_def fle_zero_rnd64)
  ultimately show ?thesis using fdiv_forward [OF _ _ i] by blast
qed

lemma flow_schedule_cases:
  assumes "flow_schedule rand lg seed u f duration = Some (Ok ts)"
  obtains (steady) i where "flow_interval f = Ok i"
      "steady i duration (uniform (Fin 0) i (rand (rng_key seed u (fw_name f)) 0)) = Some ts"
  | (poisson) i t where "flow_interval f = Ok i" "gap_of_mean lg i (rand (rng_key seed u (fw_name f)) 0) = Ok t"
      "poisson (\<lambda>n. gap_of_mean lg i (rand (rng_key seed u (fw_name f)) n)) duration 1 t = Some (Ok ts)"
  | (onoff) i on off b where "flow_interval f = Ok i" "fw_pattern f = ''onoff''" "fw_on_mean_s f = Some on" "fw_off_mean_s f = Some off"
      "onoff i (\<lambda>b n. gap_of_mean lg (if b then on else off) (rand (rng_key seed u (fw_name f)) n)) duration 1 b (Fin 0) = Some (Ok ts)"
  using assms
  by (fastforce simp: flow_schedule_def flow_interval_def need_def bindO_def Let_def
      split: if_splits option.splits sum.splits)

lemma clock_start: "step_ok g \<Longrightarrow> is_float g \<Longrightarrow> clock_time g"
  by (auto simp: clock_time_def step_ok_def)

lemma is_float_fdiv: "fdiv a b = Ok q \<Longrightarrow> is_float q"
  by (cases a; cases b) (auto simp: sgn_inf_def is_float_def [of PInf] is_float_def [of NInf] is_float_def [of NaN]
      is_float_def [of "Fin 0"] split: if_splits)

lemma poisson_start_float: "gap_of_mean lg m x = Ok g \<Longrightarrow> is_float g"
  by (auto simp: gap_of_mean_def expovariate_def result_simps intro: is_float_fdiv)

lemma schedule_in_window:
  assumes "flow_schedule rand lg seed u f duration = Some (Ok ts)" and "flow_wf f" and "is_float duration"
    and "unit_draws (rand (rng_key seed u (fw_name f)))" and "log_ok lg"
  shows "in_window (Fin 0) duration ts"
proof -
  have from_start: "in_window t duration ts \<Longrightarrow> clock_time t \<Longrightarrow> in_window (Fin 0) duration ts" for t
    by (cases ts) (auto simp: in_window_def clock_time_def list_all_iff intro: fle_trans dest: fle_not_NaN)
  from assms(1) show ?thesis
  proof (cases rule: flow_schedule_cases)
    case (steady i)
    show ?thesis
    proof (cases "i = NaN")
      case True
      then have "uniform (Fin 0) i x = NaN" for x by (cases x) (simp_all add: uniform_def fsub_def)
      with steady(2) True show ?thesis by (subst (asm) steady.simps) simp
    next
      case False
      with flow_interval_forward [OF assms(2) steady(1)] have i: "fle (Fin 0) i" by simp
      then have "step_ok i" by (simp add: step_ok_def)
      note c = uniform_clock [OF i assms(4), of 0]
      from steady_in_window [OF steady(2) c \<open>step_ok i\<close>] c show ?thesis by (rule from_start)
    qed
  next
    case (poisson i t)
    have i: "fle (Fin 0) i \<or> i = NaN" using flow_interval_forward [OF assms(2) poisson(1)] .
    have gaps: "step_ok g" if "gap_of_mean lg i (rand (rng_key seed u (fw_name f)) n) = Ok g" for n g
    proof (cases "i = NaN")
      case True
      with that show ?thesis by (cases "fneg (lg (fsub (Fin 1) (rand (rng_key seed u (fw_name f)) n)))")
          (auto simp: gap_of_mean_def expovariate_def step_ok_def)
    next
      case False
      with i gap_forward [OF _ assms(4,5) that] show ?thesis by simp
    qed
    have "clock_time t" using gaps [OF poisson(2)] poisson_start_float [OF poisson(2)] by (rule clock_start)
    with poisson_in_window [OF poisson(3) this gaps] show ?thesis by (intro from_start) auto
  next
    case (onoff i on off b)
    have m: "fle (Fin 0) on" "fle (Fin 0) off"
      using onoff(2-4) assms(2) by (auto simp: flow_wf_def positive_def intro: flt_imp_fle)
    have z: "clock_time (Fin 0)" by (simp add: clock_time_def is_float_def)
    have i: "step_ok i" using flow_interval_forward [OF assms(2) onoff(1)] by (auto simp: step_ok_def)
    have g: "step_ok g" if "gap_of_mean lg (if b then on else off) (rand (rng_key seed u (fw_name f)) n) = Ok g" for b n g
      using gap_forward [OF _ assms(4,5) that] m by (cases b) simp_all
    show ?thesis by (rule onoff_in_window [OF onoff(5) z i assms(3) g refl])
  qed
qed

text \<open>Whatever the seed, the send times of an accepted flow are in order, none before the start and each
  before the end of the run: which is what the sender's queue and the analyzer's binary searches over them
  rest on.\<close>

theorem schedule_in_order:
  assumes "flow_schedule rand lg seed u f duration = Some (Ok ts)" and "flow_wf f" and "is_float duration"
    and "unit_draws (rand (rng_key seed u (fw_name f)))" and "log_ok lg"
  shows "sorted_wrt fle ts \<and> list_all (\<lambda>t. fle (Fin 0) t \<and> flt t duration) ts"
  using schedule_in_window [OF assms] by (simp add: in_window_def)

section \<open>Schedules that end\<close>

lemma steady_returns:
  assumes i: "pow2 (- 30) \<le> i" "i \<le> 2 ^ 20" and d: "d \<le> 2 ^ 20"
  shows "0 \<le> a \<Longrightarrow> d - a \<le> of_nat n * (i / 2) \<Longrightarrow> \<exists>ts. steady (Fin i) (Fin d) (Fin a) = Some ts \<and> length ts \<le> n"
proof (induction n arbitrary: a)
  case 0
  then show ?case by (subst steady.simps) simp
next
  case (Suc n)
  show ?case
  proof (cases "a < d")
    case False
    then show ?thesis by (subst steady.simps) simp
  next
    case True
    have "0 < i" using i(1) pow2_pos [of "- 30"] by linarith
    then have "\<bar>a + i\<bar> < pow2 22" using True i(2) d Suc.prems(1) by (simp add: pow2_def)
    from f64_near [OF this] obtain r where r: "rnd64 (a + i) = Fin r" "\<bar>r - (a + i)\<bar> \<le> pow2 (- 32)" by auto
    have "pow2 (- 32) \<le> i / 4" using i(1) by (simp add: pow2_def)
    with r(2) have "a + i / 2 \<le> r" using \<open>0 < i\<close> by linarith
    then have "0 \<le> r" "d - r \<le> of_nat n * (i / 2)" using Suc.prems \<open>0 < i\<close> by (simp_all add: field_simps)
    from Suc.IH [OF this] r(1) True show ?thesis by (subst steady.simps) (auto simp: bind_eq_Some_conv)
  qed
qed

text \<open>A steady flow (constant bit rate or periodic) whose step is at least 2^-30 s has a finite schedule,
  for any run of at most 2^20 s: the float loop ends although every step rounds, after at most twice as many
  packets as the exact quotient.\<close>

theorem steady_schedule_ends:
  assumes "fw_pattern f \<in> {''periodic'', ''cbr''}" and "flow_interval f = Ok (Fin i)" and "pow2 (- 30) \<le> i" and "i \<le> 2 ^ 20"
    and "d \<le> 2 ^ 20" and "0 \<le> d" and "is_f64 i" and "unit_draws (rand (rng_key seed u (fw_name f)))"
  shows "\<exists>ts. flow_schedule rand lg seed u f (Fin d) = Some (Ok ts) \<and> length ts \<le> nat \<lceil>2 * d / i\<rceil>"
proof -
  define x where "x = rand (rng_key seed u (fw_name f)) 0"
  have s: "flow_schedule rand lg seed u f (Fin d) = map_option Inr (steady (Fin i) (Fin d) (uniform (Fin 0) (Fin i) x))"
    using assms(1,2) by (auto simp: flow_schedule_def flow_interval_def need_def bindO_def Let_def x_def split: option.splits)
  have i: "0 < i" using assms(3) pow2_pos [of "- 30"] by linarith
  obtain r where r: "x = Fin r" "0 \<le> r" using assms(8) by (auto simp: unit_draws_def x_def)
  have "fle (Fin 0) (Fin i)" using i by simp
  from uniform_clock [OF this assms(8), of 0] have c: "clock_time (uniform (Fin 0) (Fin i) x)" by (simp add: x_def)
  define n where "n = nat \<lceil>2 * d / i\<rceil>"
  have "2 * d / i \<le> of_nat n" unfolding n_def by (meson le_of_int_ceiling of_nat_ceiling order_trans)
  then have n: "d \<le> of_nat n * (i / 2)" using i by (simp add: field_simps)
  have e: "steady (Fin i) (Fin d) y = Some []" if "\<not> flt y (Fin d)" for y
    using that by (subst steady.simps) simp
  show ?thesis
  proof (cases "uniform (Fin 0) (Fin i) x")
    case (Fin a)
    then have "0 \<le> a" using c by (simp add: clock_time_def)
    then have "d - a \<le> of_nat n * (i / 2)" using n by linarith
    from steady_returns [OF assms(3,4,5) \<open>0 \<le> a\<close> this] s Fin n_def show ?thesis by auto
  qed (use s c e in \<open>auto simp: clock_time_def\<close>)
qed

text \<open>A step of 0 never passes the end of the run.\<close>

lemma steady_stuck:
  assumes "steady interval duration t = Some ts" and "interval = Fin 0" and "t = Fin 0" and "flt (Fin 0) duration"
  shows False
  using assms
proof (induction rule: steady.raw_induct [rotated 1, consumes 1, case_names 1])
  case (1 rec interval duration t ts)
  then show ?case by (auto simp: bind_eq_Some_conv)
qed

definition endless_flow :: flow where
  "endless_flow = (rated ''dl_bulk'' ''dl'' ''cbr'' 40 1200)\<lparr>fw_rate_mbps := Some PInf\<rparr>"

text \<open>C31. A rate of infinity passes every check of the command line and of the profile, and makes the step of the flow
  0: its schedule never ends, whatever the length of the run. The sender then sends without pause and
  past the end of the run, and the analyzer does not return.\<close>

theorem infinite_rate_never_ends:
  assumes "unit_draws (rand (rng_key seed 0 ''dl_bulk''))" and "0 < d"
  shows "case parse_overrides (Some ''ue0.dl_bulk.rate_mbps=inf'') of
      Inl e \<Rightarrow> False
    | Inr overrides \<Rightarrow>
        (case resolve_profile ''mixed'' overrides of
           Inl e \<Rightarrow> False
         | Inr p \<Rightarrow> profile_wf p \<and> flow_schedule rand lg seed 0 (pu_flows (pf_ues p ! 0) ! 0) (Fin d) = None)"
proof -
  have o: "parse_overrides (Some ''ue0.dl_bulk.rate_mbps=inf'') = Ok [(''ue0.dl_bulk.rate_mbps'', PInf)]"
    by (simp add: parse_overrides_def override_item_def str_strip_def is_space_def parse_float_def str_lower_def char_lower_def Let_def)
  obtain p where p: "resolve_profile ''mixed'' [(''ue0.dl_bulk.rate_mbps'', PInf)] = Ok p"
    and f: "pu_flows (pf_ues p ! 0) ! 0 = endless_flow"
    by (simp add: resolve_profile_def TRAFFIC_PROFILES_def apply_override_def ue_index_of_def str_startswith_def is_digit_def
        parse_nat_def digit_val_def override_ue_def bulk_ue_def flow_field_def update_flow_def rated_def plain_flow_def
        interactive_ue_def periodic_def validate_profile_def validate_ue_def validate_flow_def FIVE_QI_def FLOW_PATTERNS_def
        positive_def endless_flow_def)
  obtain r where r: "rand (rng_key seed 0 ''dl_bulk'') 0 = Fin r" using assms(1) by (auto simp: unit_draws_def)
  have i: "flow_interval endless_flow = Ok (Fin 0)"
    by (simp add: endless_flow_def rated_def plain_flow_def flow_interval_def need_def fl_def float_eval sgn_inf_def)
  have u: "uniform (Fin 0) (Fin 0) (Fin r) = Fin 0" by (simp add: uniform_def fsub_def)
  have "steady (Fin 0) (Fin d) (Fin 0) = None"
    using steady_stuck [of "Fin 0" "Fin d" "Fin 0"] assms(2) by (cases "steady (Fin 0) (Fin d) (Fin 0)") auto
  with i u r have "flow_schedule rand lg seed 0 endless_flow (Fin d) = None"
    by (simp add: flow_schedule_def flow_interval_def need_def bindO_def Let_def endless_flow_def rated_def plain_flow_def)
  with o p f resolve_profile_ok [OF p] show ?thesis by simp
qed

text \<open>A generator that always returns 1/2, and a logarithm of the right sign.\<close>

definition half_rand :: random where "half_rand = (\<lambda>_ _. Fin (1/2))"
definition flat_log :: "pyfloat \<Rightarrow> pyfloat" where "flat_log = (\<lambda>_. Fin (- 1))"

lemma demo_random: "unit_draws (half_rand k)" "log_ok flat_log"
  by (auto simp: unit_draws_def half_rand_def log_ok_def flat_log_def pow2_def intro: exI [of _ "1/2"])

theorem infinite_rate_never_ends_witness:
  "case parse_overrides (Some ''ue0.dl_bulk.rate_mbps=inf'') of
      Inl e \<Rightarrow> False
    | Inr overrides \<Rightarrow>
        (case resolve_profile ''mixed'' overrides of
           Inl e \<Rightarrow> False
         | Inr p \<Rightarrow> profile_wf p \<and> flow_schedule half_rand flat_log 1 0 (pu_flows (pf_ues p ! 0) ! 0) (Fin 120) = None)"
  by (rule infinite_rate_never_ends) (simp_all add: demo_random)

definition slow_control :: flow where
  "slow_control = periodic ''ctl'' ''dl'' 64000 200"

lemma slow_interval: "flow_interval slow_control = Ok (Fin 64)"
  by (simp add: slow_control_def periodic_def plain_flow_def flow_interval_def need_def fquot_def float_eval)

theorem steady_schedule_ends_witness:
  "\<exists>ts. flow_schedule half_rand flat_log 1 0 slow_control (Fin 120) = Some (Ok ts) \<and> length ts \<le> nat \<lceil>2 * 120 / (64 :: rat)\<rceil>"
proof (rule steady_schedule_ends [OF _ slow_interval])
  show "fw_pattern slow_control \<in> {''periodic'', ''cbr''}" by (simp add: slow_control_def periodic_def plain_flow_def)
  show "is_f64 64" using is_f64_of_int [of 64] by simp
qed (simp_all add: demo_random pow2_def)

theorem schedule_in_order_witness:
  "\<exists>ts. flow_schedule half_rand flat_log 1 0 slow_control (Fin 120) = Some (Ok ts)
    \<and> sorted_wrt fle ts \<and> list_all (\<lambda>t. fle (Fin 0) t \<and> flt t (Fin 120)) ts"
proof -
  have s: "flow_schedule half_rand flat_log 1 0 slow_control (Fin 120) = map_option Inr (steady (Fin 64) (Fin 120) (Fin 32))"
    using slow_interval
    by (simp add: flow_schedule_def flow_interval_def need_def bindO_def Let_def slow_control_def periodic_def plain_flow_def
        uniform_def fsub_def half_rand_def float_eval)
  have "steady (Fin 64) (Fin 120) (Fin 32) = Some [Fin 32, Fin 96]"
    by (subst steady.simps, simp add: float_eval, subst steady.simps, simp add: float_eval, subst steady.simps, simp add: float_eval)
  with s have r: "flow_schedule half_rand flat_log 1 0 slow_control (Fin 120) = Some (Ok [Fin 32, Fin 96])" by simp
  have "flow_wf slow_control" "is_float (Fin 120)"
    using is_f64_of_int [of 120]
    by (simp_all add: slow_control_def periodic_def plain_flow_def flow_wf_def FLOW_PATTERNS_def positive_def is_float_def)
  from schedule_in_order [OF r this demo_random] r show ?thesis by blast
qed

end
