(* ===== verification/BenchSender.thy ===== *)
theory BenchSender
  imports BenchTraffic FloatWire "HOL-Library.Multiset"
begin

text \<open>
  The sender of \<^verbatim>\<open>use_cases/scheduler_benchmark/traffic.py\<close>: its targets, the queue that merges the schedules of
  all flows, the packets it sends to both cells, and its progress log. One turn of its loop reads its clocks,
  the stop flag and the outcome of each \<open>sendto\<close> from a \<open>send_turn\<close>.
\<close>

section \<open>The run description\<close>

record bench_ue =
  bu_device_id :: string
  bu_ipv4 :: string
  bu_cell_index :: int
  bu_twin :: string
  bu_role :: string
  bu_five_qi :: int
  bu_pdb_ms :: int
  bu_flows :: "flow list"

record benchmark =
  bk_seed :: int
  bk_measure_seconds :: int
  bk_traffic_duration_s :: "pyfloat option"
  bk_profile :: "ue_profile list"
  bk_cells :: "(string \<times> bench_ue list) list"

type_synonym address = "string \<times> int"

record target =
  tg_ue_index :: int
  tg_flow :: flow
  tg_destinations :: "(int \<times> address) list"

definition enum :: "'a list \<Rightarrow> (nat \<times> 'a) list" where
  "enum xs = zip [0..<length xs] xs"

text \<open>The destinations of a DL flow, one in each cell of the run.\<close>

definition dl_destination ::
  "benchmark \<Rightarrow> nat \<Rightarrow> nat \<Rightarrow> nat \<times> bench_cell \<Rightarrow> (int \<times> address) list \<Rightarrow> (int \<times> address) list result" where
  "dl_destination bk ue_index flow_index ic acc =
     (case map_of (bk_cells bk) (ce_name (snd ic)) of
        None \<Rightarrow> Ok acc
      | Some ues \<Rightarrow>
          if length ues \<le> ue_index then Err IndexError
          else bindR (flow_id (int (fst ic)) (int ue_index) (int flow_index)) (\<lambda>fid.
               Ok (acc @ [(fid, bu_ipv4 (ues ! ue_index), DL_BASE_PORT + 10 * int ue_index + int flow_index)])))"

definition dl_flow_target :: "benchmark \<Rightarrow> nat \<Rightarrow> nat \<times> flow \<Rightarrow> target list \<Rightarrow> target list result" where
  "dl_flow_target bk ue_index jf acc =
     (if fw_direction (snd jf) \<noteq> ''dl'' then Ok acc
      else bindR (foldR (dl_destination bk ue_index (fst jf)) (enum CELLS) []) (\<lambda>ds.
           Ok (acc @ [\<lparr>tg_ue_index = int ue_index, tg_flow = snd jf, tg_destinations = ds\<rparr>])))"

definition dl_targets :: "benchmark \<Rightarrow> target list result" where
  "dl_targets bk =
     foldR (\<lambda>iu acc. foldR (dl_flow_target bk (fst iu)) (enum (pu_flows (snd iu))) acc) (enum (bk_profile bk)) []"

definition cell_index_of :: "benchmark \<Rightarrow> string \<Rightarrow> (nat \<times> bench_ue) result" where
  "cell_index_of bk ue =
     (case concat (map (\<lambda>(i, cell). case map_of (bk_cells bk) (ce_name cell) of
              None \<Rightarrow> [] | Some ues \<Rightarrow> map (Pair i) (filter (\<lambda>u. bu_device_id u = ue) ues)) (enum CELLS)) of
        [] \<Rightarrow> Err (ValueError ''is not in benchmark.json'')
      | hit # _ \<Rightarrow> Ok hit)"

definition ul_flow_target :: "nat \<Rightarrow> int \<Rightarrow> nat \<times> flow \<Rightarrow> target list \<Rightarrow> target list result" where
  "ul_flow_target cell_index ue_index jf acc =
     (if fw_direction (snd jf) \<noteq> ''ul'' then Ok acc
      else bindR (flow_id (int cell_index) ue_index (int (fst jf))) (\<lambda>fid.
           Ok (acc @ [\<lparr>tg_ue_index = ue_index, tg_flow = snd jf, tg_destinations = [(fid, UE_GATEWAY, UL_PORT)]\<rparr>])))"

definition ul_targets :: "benchmark \<Rightarrow> string \<Rightarrow> target list result" where
  "ul_targets bk ue =
     bindR (cell_index_of bk ue) (\<lambda>(cell_index, u).
       foldR (ul_flow_target cell_index (bu_cell_index u)) (enum (bu_flows u)) [])"

section \<open>Packets\<close>

definition MAGIC_SB :: string where "MAGIC_SB = ''SBM1''"

definition HEADER :: "code list" where "HEADER = [Chars 4, UInt 2, UInt 2, UInt 4, UInt 8]"
definition RECORD :: "code list" where "RECORD = [UInt 2, UInt 2, UInt 4, UInt 8, UInt 8]"

text \<open>The signed 64-bit code \<open>q\<close> as an unsigned field of the two's complement.\<close>

definition to_q :: "int \<Rightarrow> int result" where
  "to_q i = (if - (2 ^ 63) \<le> i \<and> i < 2 ^ 63 then Ok (i mod 2 ^ 64) else Err StructError)"

definition of_q :: "int \<Rightarrow> int" where
  "of_q n = (if n < 2 ^ 63 then n else n - 2 ^ 64)"

definition packet :: "int \<Rightarrow> int \<Rightarrow> int \<Rightarrow> int \<Rightarrow> bytes result" where
  "packet size_bytes fid seq now_ns =
     bindR (to_q now_ns) (\<lambda>q. bindR (struct_pack HEADER [VStr MAGIC_SB, VInt fid, VInt 0, VInt seq, VInt q]) (\<lambda>h.
       Ok (h @ replicate (nat size_bytes - calcsize HEADER) 0)))"

section \<open>The queue\<close>

text \<open>\<open>heapq\<close> on pairs of a time and an index: the smallest pair leaves first. The queue is kept as the sorted list
  of its items.\<close>

definition item_le :: "pyfloat \<times> nat \<Rightarrow> pyfloat \<times> nat \<Rightarrow> bool" where
  "item_le x y \<longleftrightarrow> flt (fst x) (fst y) \<or> (fst x = fst y \<and> snd x \<le> snd y)"

fun heappush :: "pyfloat \<times> nat \<Rightarrow> (pyfloat \<times> nat) list \<Rightarrow> (pyfloat \<times> nat) list" where
  "heappush x [] = [x]"
| "heappush x (y # ys) = (if item_le x y then x # y # ys else y # heappush x ys)"

definition heappop :: "(pyfloat \<times> nat) list \<Rightarrow> ((pyfloat \<times> nat) \<times> (pyfloat \<times> nat) list) option" where
  "heappop h = (case h of [] \<Rightarrow> None | x # xs \<Rightarrow> Some (x, xs))"

section \<open>The sender\<close>

record send_turn =
  sn_stop :: bool
  sn_now :: pyfloat
  sn_stamps :: "int list"
  sn_accepted :: "bool list"
  sn_after :: pyfloat
  sn_tick_ns :: int

record sender =
  se_heap :: "(pyfloat \<times> nat) list"
  se_rest :: "pyfloat list list"
  se_seqs :: "(int \<times> int) list"
  se_parity :: bool
  se_sent :: int
  se_errors :: int
  se_max_lag :: pyfloat
  se_tick_last :: pyfloat
  se_ticks :: "string list"

record shot =
  sx_fid :: int
  sx_address :: address
  sx_seq :: int
  sx_packet :: bytes
  sx_accepted :: bool

record burst_rec =
  bx_offset :: pyfloat
  bx_index :: nat
  bx_shots :: "shot list"

text \<open>\<open>TickLog.maybe\<close>: one line per flow, at most every tenth of a second unless forced.\<close>

definition TICK_SECONDS :: pyfloat where "TICK_SECONDS = rnd64 (1/10)"

definition tick_line :: "int \<Rightarrow> int \<times> int \<Rightarrow> string" where
  "tick_line t_ns fs = str_int t_ns @ '','' @ str_int (fst fs) @ '','' @ str_int (snd fs)"

definition tick_maybe :: "pyfloat \<Rightarrow> bool \<Rightarrow> int \<Rightarrow> sender \<Rightarrow> sender" where
  "tick_maybe now_s force t_ns s =
     (if \<not> force \<and> flt (fsub now_s (se_tick_last s)) TICK_SECONDS then s
      else s\<lparr>se_tick_last := now_s, se_ticks := se_ticks s @ map (tick_line t_ns) (sort_key fst (se_seqs s))\<rparr>)"

text \<open>One packet to each destination, in order; a refused \<open>sendto\<close> uses up its sequence number too.\<close>

fun shoot :: "int \<Rightarrow> (int \<times> address) list \<Rightarrow> int list \<Rightarrow> bool list \<Rightarrow> sender \<Rightarrow> (shot list \<times> sender) result" where
  "shoot size_bytes [] stamps oks s = Ok ([], s)"
| "shoot size_bytes ((fid, address) # ds) stamps oks s =
     (let seq = (case map_of (se_seqs s) fid of None \<Rightarrow> 0 | Some n \<Rightarrow> n);
          ok = (case oks of [] \<Rightarrow> True | b # _ \<Rightarrow> b);
          stamp = (case stamps of [] \<Rightarrow> 0 | t # _ \<Rightarrow> t)
      in bindR (packet size_bytes fid seq stamp) (\<lambda>p.
         let s = s\<lparr>se_sent := (if ok then se_sent s + 1 else se_sent s), se_errors := (if ok then se_errors s else se_errors s + 1),
                   se_seqs := AList.update fid (seq + 1) (se_seqs s)\<rparr>
         in bindR (shoot size_bytes ds (tl stamps) (tl oks) s) (\<lambda>(shots, s).
            Ok (\<lparr>sx_fid = fid, sx_address = address, sx_seq = seq, sx_packet = p, sx_accepted = ok\<rparr> # shots, s))))"

text \<open>The next offset of a schedule enters the queue.\<close>

definition refill :: "nat \<Rightarrow> sender \<Rightarrow> sender" where
  "refill i s =
     (case se_rest s ! i of
        [] \<Rightarrow> s
      | t # ts \<Rightarrow> s\<lparr>se_heap := heappush (t, i) (se_heap s), se_rest := (se_rest s)[i := ts]\<rparr>)"

definition send_turn_step ::
  "target list \<Rightarrow> pyfloat \<Rightarrow> send_turn \<Rightarrow> pyfloat \<times> nat \<Rightarrow> sender \<Rightarrow> (burst_rec \<times> sender) result" where
  "send_turn_step targets start rd item s =
     (let due = fadd start (fst item); i = snd item; t = targets ! i;
          s = (if flt (sn_now rd) due then s
               else s\<lparr>se_max_lag := fmax (se_max_lag s) (fsub (sn_now rd) due)\<rparr>);
          order = (if se_parity s then rev (tg_destinations t) else tg_destinations t)
      in bindR (shoot (fw_size_bytes (tg_flow t)) order (sn_stamps rd) (sn_accepted rd) (s\<lparr>se_parity := \<not> se_parity s\<rparr>)) (\<lambda>(shots, s).
         Ok (\<lparr>bx_offset = fst item, bx_index = i, bx_shots = shots\<rparr>,
             tick_maybe (sn_after rd) False (sn_tick_ns rd) (refill i s))))"

fun send_loop :: "target list \<Rightarrow> pyfloat \<Rightarrow> send_turn list \<Rightarrow> sender \<Rightarrow> unit result \<times> burst_rec list \<times> sender" where
  "send_loop targets start [] s = (Ok (), [], s)"
| "send_loop targets start (rd # rds) s =
     (case heappop (se_heap s) of
        None \<Rightarrow> (Ok (), [], s)
      | Some (item, h) \<Rightarrow>
          if sn_stop rd then (Ok (), [], s)
          else (case send_turn_step targets start rd item (s\<lparr>se_heap := h\<rparr>) of
                  Inl e \<Rightarrow> (Err e, [], s\<lparr>se_heap := h\<rparr>)
                | Inr (b, s) \<Rightarrow> (case send_loop targets start rds s of (res, bs, s) \<Rightarrow> (res, b # bs, s))))"

definition new_sender :: "target list \<Rightarrow> pyfloat list list \<Rightarrow> int \<Rightarrow> sender" where
  "new_sender targets schedules t_ns =
     (let s = fold refill [0..<length targets]
                \<lparr>se_heap = [], se_rest = schedules, se_seqs = [], se_parity = False, se_sent = 0, se_errors = 0,
                 se_max_lag = Fin 0, se_tick_last = Fin 0, se_ticks = []\<rparr>
      in tick_maybe (Fin 0) True t_ns
           (s\<lparr>se_seqs := fold (\<lambda>fid seqs. AList.update fid 0 seqs) (concat (map (\<lambda>t. map fst (tg_destinations t)) targets)) []\<rparr>))"

text \<open>\<open>run_sender\<close>: the schedules of all targets, the loop from \<open>start_at_ms\<close>, and the last progress lines. The
  generators are lazy in the code: a schedule that has no end, and one that fails part of the way, are outside
  \<open>run_sender\<close> here, which has the lists.\<close>

fun schedules_of ::
  "random \<Rightarrow> (pyfloat \<Rightarrow> pyfloat) \<Rightarrow> int \<Rightarrow> pyfloat \<Rightarrow> target list \<Rightarrow> pyfloat list list result option" where
  "schedules_of rand lg seed duration [] = Some (Ok [])"
| "schedules_of rand lg seed duration (t # ts) =
     (case flow_schedule rand lg seed (tg_ue_index t) (tg_flow t) duration of
        None \<Rightarrow> None
      | Some r \<Rightarrow> bindO r (\<lambda>s. map_option (\<lambda>q. bindR q (\<lambda>ss. Ok (s # ss))) (schedules_of rand lg seed duration ts)))"

definition run_sender ::
  "target list \<Rightarrow> pyfloat list list \<Rightarrow> int \<Rightarrow> int \<Rightarrow> send_turn list \<Rightarrow> pyfloat \<times> int \<Rightarrow> unit result \<times> burst_rec list \<times> sender" where
  "run_sender targets schedules start_at_ms t_ns rds final =
     (if list_ex (\<lambda>t. fw_size_bytes (tg_flow t) < int (calcsize HEADER)) targets
      then (Err (ValueError ''negative count''), [], new_sender targets schedules t_ns)
      else (case send_loop targets (fquot (fl start_at_ms) (Fin 1000)) rds (new_sender targets schedules t_ns) of
              (Inl e, bs, s) \<Rightarrow> (Err e, bs, s)
            | (Inr _, bs, s) \<Rightarrow> (Ok (), bs, tick_maybe (fst final) True (snd final) s)))"

section \<open>The interface of the queue\<close>

locale min_queue =
  fixes push :: "'x \<Rightarrow> 'q \<Rightarrow> 'q" and pop :: "'q \<Rightarrow> ('x \<times> 'q) option"
    and items :: "'q \<Rightarrow> 'x multiset" and valid :: "'q \<Rightarrow> bool" and good :: "'x \<Rightarrow> bool" and le :: "'x \<Rightarrow> 'x \<Rightarrow> bool"
  assumes items_push: "items (push x q) = add_mset x (items q)"
    and valid_push: "valid q \<Longrightarrow> good x \<Longrightarrow> valid (push x q)"
    and pop_None: "pop q = None \<longleftrightarrow> items q = {#}"
    and pop_Some: "valid q \<Longrightarrow> pop q = Some (x, q') \<Longrightarrow> items q = add_mset x (items q') \<and> valid q'
      \<and> (\<forall>y\<in>#items q'. le x y)"
    and le_refl: "good x \<Longrightarrow> le x x"
begin

text \<open>What a merge needs: the item that leaves is one that was in, and below whatever stays and whatever enters for it.\<close>

lemma popped_least:
  assumes "valid q" and "pop q = Some (x, q')" and "good x" and "y \<in># items q"
  shows "x \<in># items q" and "le x y"
  using pop_Some [OF assms(1,2)] assms(3,4) le_refl by auto

lemma pop_push_items:
  assumes "valid q" and "pop q = Some (x, q')"
  shows "items (push y q') + {#x#} = items q + {#y#}"
  using pop_Some [OF assms] by (simp add: items_push)

end

definition queue_ok :: "(pyfloat \<times> nat) list \<Rightarrow> bool" where
  "queue_ok h \<longleftrightarrow> sorted_wrt item_le h \<and> list_all (\<lambda>x. fst x \<noteq> NaN) h"

lemma item_le_trans: "item_le x y \<Longrightarrow> item_le y z \<Longrightarrow> item_le x z"
  by (cases "fst x"; cases "fst y"; cases "fst z") (auto simp: item_le_def)

lemma item_le_total: "fst x \<noteq> NaN \<Longrightarrow> fst y \<noteq> NaN \<Longrightarrow> item_le x y \<or> item_le y x"
  by (cases "fst x"; cases "fst y") (auto simp: item_le_def)

lemma item_le_fle: "item_le x y \<Longrightarrow> fst x \<noteq> NaN \<Longrightarrow> fle (fst x) (fst y)"
  by (auto simp: item_le_def intro: flt_imp_fle fle_refl)

lemma mset_heappush: "mset (heappush x h) = add_mset x (mset h)"
  by (induction h) auto

lemma set_heappush: "set (heappush x h) = insert x (set h)"
  using mset_heappush [of x h] by (metis set_mset_add_mset_insert set_mset_mset)

lemma queue_ok_push:
  assumes "queue_ok h" and "fst x \<noteq> NaN"
  shows "queue_ok (heappush x h)"
  using assms(1)
proof (induction h)
  case Nil
  with assms(2) show ?case by (simp add: queue_ok_def)
next
  case (Cons y ys)
  then have IH: "queue_ok (heappush x ys)" by (simp add: queue_ok_def)
  show ?case
  proof (cases "item_le x y")
    case True
    with Cons.prems assms(2) show ?thesis by (auto simp: queue_ok_def intro: item_le_trans)
  next
    case False
    then have "item_le y x" using item_le_total [of x y] Cons.prems assms(2) by (simp add: queue_ok_def)
    with IH False Cons.prems show ?thesis by (auto simp: queue_ok_def set_heappush list_all_iff)
  qed
qed

interpretation hq: min_queue heappush heappop mset queue_ok "\<lambda>x. fst x \<noteq> NaN" item_le
proof
  show "queue_ok q \<Longrightarrow> heappop q = Some (x, q') \<Longrightarrow> mset q = add_mset x (mset q') \<and> queue_ok q' \<and> (\<forall>y\<in>#mset q'. item_le x y)"
    for q x q' by (cases q) (auto simp: heappop_def queue_ok_def)
qed (auto simp: mset_heappush queue_ok_push heappop_def item_le_def split: list.splits)

section \<open>Merging the schedules\<close>

text \<open>The queue holds the head of every schedule that is left, and the sender the rest.\<close>

definition head_items :: "nat \<Rightarrow> pyfloat list \<Rightarrow> (pyfloat \<times> nat) list" where
  "head_items j r = (case r of [] \<Rightarrow> [] | t # _ \<Rightarrow> [(t, j)])"

definition heads :: "pyfloat list list \<Rightarrow> (pyfloat \<times> nat) list" where
  "heads R = concat (map (\<lambda>j. head_items j (R ! j)) [0..<length R])"

definition in_order :: "pyfloat list \<Rightarrow> bool" where
  "in_order ts \<longleftrightarrow> sorted_wrt fle ts \<and> NaN \<notin> set ts"

definition merging :: "sender \<Rightarrow> pyfloat list list \<Rightarrow> bool" where
  "merging s R \<longleftrightarrow> queue_ok (se_heap s) \<and> mset (se_heap s) = mset (heads R) \<and> se_rest s = map tl R \<and> list_all in_order R"

lemma heads_split:
  assumes "j < length R"
  obtains A B where "\<And>r. heads (R[j := r]) = A @ head_items j r @ B"
proof
  fix r
  obtain k where "length R = Suc (j + k)" using assms less_imp_Suc_add by blast
  then have e: "[0..<length R] = [0..<j] @ j # [Suc j..<length R]"
    using upt_add_eq_append [of 0 j "Suc k"] by (simp add: upt_conv_Cons)
  have e': "map (\<lambda>i. head_items i (R[j := r] ! i)) [0..<j] = map (\<lambda>i. head_items i (R ! i)) [0..<j]"
    "map (\<lambda>i. head_items i (R[j := r] ! i)) [Suc j..<length R] = map (\<lambda>i. head_items i (R ! i)) [Suc j..<length R]"
    by simp_all
  show "heads (R[j := r]) = concat (map (\<lambda>i. head_items i (R ! i)) [0..<j]) @ head_items j r
      @ concat (map (\<lambda>i. head_items i (R ! i)) [Suc j..<length R])"
    using assms by (simp add: heads_def e e')
qed

lemma list_all_update: "list_all P xs \<Longrightarrow> P x \<Longrightarrow> list_all P (xs[i := x])"
  by (auto simp: list_all_iff dest: set_update_subset_insert [THEN subsetD])

lemma head_in: "(t, j) \<in> set (heads R) \<longleftrightarrow> j < length R \<and> (\<exists>ts. R ! j = t # ts)"
  by (auto simp: heads_def head_items_def split: list.splits dest: sym)

lemma merging_pop:
  assumes "merging s R" and "heappop (se_heap s) = Some ((t, j), h)"
  obtains ts where "j < length R" and "R ! j = t # ts" and "merging (refill j (s\<lparr>se_heap := h\<rparr>)) (R[j := ts])"
    and "\<And>i x. i < length R \<Longrightarrow> x \<in> set (R ! i) \<Longrightarrow> fle t x"
proof -
  note m = assms(1) [unfolded merging_def]
  have p: "mset (se_heap s) = add_mset (t, j) (mset h)" "queue_ok h"
    using hq.pop_Some [of "se_heap s" "(t, j)" h] m assms(2) by auto
  have "(t, j) \<in> set (heads R)" using p(1) m by (metis mset_eq_setD set_mset_add_mset_insert set_mset_mset insertI1)
  then obtain ts where j: "j < length R" "R ! j = t # ts" by (auto simp: head_in)
  obtain A B where AB: "\<And>r. heads (R[j := r]) = A @ head_items j r @ B" using heads_split [OF j(1)] by blast
  have R: "heads R = A @ [(t, j)] @ B" using AB [of "R ! j", unfolded list_update_id] j(2) by (simp add: head_items_def)
  have o: "in_order (t # ts)" using m j nth_mem [OF j(1)] by (auto simp: list_all_iff)
  have rest: "se_rest s ! j = ts" "j < length (se_rest s)" using m j by simp_all
  have mh: "mset h = mset (A @ B)" using p(1) m R by simp
  have ts: "in_order ts" using o by (simp add: in_order_def)
  have all: "list_all in_order (R[j := ts])" using m ts by (intro list_all_update) simp_all
  have tl: "map tl (R[j := ts]) = (map tl R)[j := tl ts]" by (rule map_update)
  have "merging (refill j (s\<lparr>se_heap := h\<rparr>)) (R[j := ts])"
  proof (cases ts)
    case Nil
    have "(map tl R)[j := []] = map tl R" using j(2) Nil rest m by (metis list_update_id)
    with Nil rest m mh p(2) AB [of "[]"] all tl show ?thesis
      by (simp add: merging_def refill_def head_items_def)
  next
    case (Cons u us)
    have u: "fst (u, j) \<noteq> NaN" using ts Cons by (auto simp: in_order_def)
    have "mset (heappush (u, j) h) = mset (heads (R[j := ts]))"
      using AB [of ts] Cons mh by (simp add: head_items_def mset_heappush)
    with Cons rest m hq.valid_push [OF p(2) u] all tl show ?thesis by (simp add: merging_def refill_def)
  qed
  moreover have "fle t x" if i: "i < length R" "x \<in> set (R ! i)" for i x
  proof -
    obtain y ys where y: "R ! i = y # ys" using i(2) by (cases "R ! i") auto
    have "(y, i) \<in># mset (se_heap s)" using m y i(1) by (auto simp: head_in)
    moreover have "t \<noteq> NaN" using o by (auto simp: in_order_def)
    ultimately have "item_le (t, j) (y, i)" using hq.popped_least(2) [of "se_heap s" "(t, j)" h] m assms(2) by simp
    then have "fle t y" using \<open>t \<noteq> NaN\<close> item_le_fle [of "(t, j)" "(y, i)"] by simp
    moreover have "in_order (y # ys)" using m i y nth_mem [OF i(1)] by (auto simp: list_all_iff)
    then have "fle y x" using i(2) y by (auto simp: in_order_def intro: fle_refl)
    ultimately show ?thesis by (rule fle_trans)
  qed
  ultimately show ?thesis using that j by blast
qed

section \<open>What is sent\<close>

definition offsets_of :: "nat \<Rightarrow> burst_rec list \<Rightarrow> pyfloat list" where
  "offsets_of j bs = map bx_offset (filter (\<lambda>b. bx_index b = j) bs)"

text \<open>The shots of each burst: one packet to every destination of its target, all with the sequence number that
  counts the bursts of this target from \<open>n\<close> on.\<close>

definition shot_key :: "shot \<Rightarrow> int \<times> address \<times> int" where
  "shot_key x = (sx_fid x, sx_address x, sx_seq x)"

definition shot_sound :: "int \<Rightarrow> shot \<Rightarrow> bool" where
  "shot_sound size_bytes x \<longleftrightarrow> (\<exists>stamp. packet size_bytes (sx_fid x) (sx_seq x) stamp = Ok (sx_packet x))"

fun shots_ok :: "target list \<Rightarrow> (nat \<Rightarrow> int) \<Rightarrow> burst_rec list \<Rightarrow> bool" where
  "shots_ok targets n [] \<longleftrightarrow> True"
| "shots_ok targets n (b # bs) \<longleftrightarrow>
     mset (map shot_key (bx_shots b))
       = mset (map (\<lambda>(fid, address). (fid, address, n (bx_index b))) (tg_destinations (targets ! bx_index b)))
     \<and> list_all (shot_sound (fw_size_bytes (tg_flow (targets ! bx_index b)))) (bx_shots b)
     \<and> shots_ok targets (n(bx_index b := n (bx_index b) + 1)) bs"

definition fids :: "target \<Rightarrow> int list" where
  "fids t = map fst (tg_destinations t)"

definition numbered :: "target list \<Rightarrow> (nat \<Rightarrow> int) \<Rightarrow> sender \<Rightarrow> bool" where
  "numbered targets n s \<longleftrightarrow> (\<forall>j<length targets. \<forall>fid\<in>set (fids (targets ! j)). map_of (se_seqs s) fid = Some (n j))"

lemma shoot_ok:
  assumes "shoot size_bytes ds stamps oks s = Ok (shots, s')" and "distinct (map fst ds)"
    and "\<forall>fid\<in>set (map fst ds). map_of (se_seqs s) fid = Some n"
  shows "map shot_key shots = map (\<lambda>(fid, address). (fid, address, n)) ds \<and> list_all (shot_sound size_bytes) shots
    \<and> map_of (se_seqs s') = (\<lambda>fid. if fid \<in> set (map fst ds) then Some (n + 1) else map_of (se_seqs s) fid)
    \<and> se_heap s' = se_heap s \<and> se_rest s' = se_rest s \<and> se_parity s' = se_parity s"
  using assms
proof (induction ds arbitrary: stamps oks s shots)
  case Nil
  then show ?case by auto
next
  case (Cons d ds)
  obtain fid address where d: "d = (fid, address)" by (cases d)
  define ok where "ok = (case oks of [] \<Rightarrow> True | b # _ \<Rightarrow> b)"
  define s1 where "s1 = s\<lparr>se_sent := (if ok then se_sent s + 1 else se_sent s), se_errors := (if ok then se_errors s else se_errors s + 1),
                   se_seqs := AList.update fid (n + 1) (se_seqs s)\<rparr>"
  have "map_of (se_seqs s) fid = Some n" using Cons.prems(3) d by simp
  with Cons.prems(1) d obtain p rest where p: "packet size_bytes fid n (case stamps of [] \<Rightarrow> 0 | t # _ \<Rightarrow> t) = Ok p"
    "shoot size_bytes ds (tl stamps) (tl oks) s1 = Ok (rest, s')"
    "shots = \<lparr>sx_fid = fid, sx_address = address, sx_seq = n, sx_packet = p, sx_accepted = ok\<rparr> # rest"
    by (auto simp: Let_def result_simps ok_def s1_def)
  have "\<forall>f\<in>set (map fst ds). map_of (se_seqs s1) f = Some n" using Cons.prems(2,3) d by (auto simp: s1_def)
  with Cons.IH [OF p(2)] Cons.prems(2) d have IH:
    "map shot_key rest = map (\<lambda>(fid, address). (fid, address, n)) ds" "list_all (shot_sound size_bytes) rest"
    "map_of (se_seqs s') = (\<lambda>f. if f \<in> set (map fst ds) then Some (n + 1) else map_of (se_seqs s1) f)"
    "se_heap s' = se_heap s1" "se_rest s' = se_rest s1" "se_parity s' = se_parity s1" by simp_all
  have "shot_key \<lparr>sx_fid = fid, sx_address = address, sx_seq = n, sx_packet = p, sx_accepted = ok\<rparr> = (fid, address, n)"
    "shot_sound size_bytes \<lparr>sx_fid = fid, sx_address = address, sx_seq = n, sx_packet = p, sx_accepted = ok\<rparr>"
    using p(1) by (auto simp: shot_key_def shot_sound_def)
  moreover have "map_of (se_seqs s1) = (map_of (se_seqs s))(fid \<mapsto> n + 1)" by (simp add: s1_def)
  moreover have "se_heap s1 = se_heap s" "se_rest s1 = se_rest s" "se_parity s1 = se_parity s" by (simp_all add: s1_def)
  ultimately show ?case using IH p(3) d by (auto simp: fun_eq_iff)
qed

lemma tick_maybe_keeps [simp]:
  "se_heap (tick_maybe t f ns s) = se_heap s" "se_rest (tick_maybe t f ns s) = se_rest s"
  "se_seqs (tick_maybe t f ns s) = se_seqs s"
  by (simp_all add: tick_maybe_def)

lemma refill_seqs [simp]: "se_seqs (refill j s) = se_seqs s"
  by (simp add: refill_def split: list.split)

lemma refill_shape:
  assumes "se_heap a = se_heap b" and "se_rest a = se_rest b"
  shows "se_heap (refill j a) = se_heap (refill j b)" "se_rest (refill j a) = se_rest (refill j b)"
  using assms by (simp_all add: refill_def split: list.split)

lemma merging_shape: "se_heap a = se_heap b \<Longrightarrow> se_rest a = se_rest b \<Longrightarrow> merging a R \<longleftrightarrow> merging b R"
  by (simp add: merging_def)

definition apart :: "target list \<Rightarrow> bool" where
  "apart targets \<longleftrightarrow> distinct (concat (map fids targets))"

lemma distinct_concat_nth:
  assumes "distinct (concat xss)" and "i < length xss" and "j < length xss" and "i \<noteq> j"
  shows "set (xss ! i) \<inter> set (xss ! j) = {}"
  using assms
proof (induction xss arbitrary: i j)
  case (Cons xs xss)
  have sub: "set (xss ! k) \<subseteq> set (concat xss)" if "k < length xss" for k
    using nth_mem [OF that] by auto
  have d: "set xs \<inter> set (concat xss) = {}" "distinct (concat xss)" using Cons.prems(1) by simp_all
  show ?case
  proof (cases i)
    case 0
    with Cons.prems obtain k where "j = Suc k" "k < length xss" by (cases j) simp_all
    with 0 d(1) sub [of k] show ?thesis by auto
  next
    case (Suc m)
    show ?thesis
    proof (cases j)
      case 0
      with Suc d(1) sub [of m] Cons.prems(2) show ?thesis by auto
    next
      case (Suc k)
      with \<open>i = Suc m\<close> Cons.IH [OF d(2), of m k] Cons.prems show ?thesis by simp
    qed
  qed
qed simp

lemma apartD:
  assumes "apart targets" and "i < length targets"
  shows "distinct (fids (targets ! i))" and "j < length targets \<Longrightarrow> i \<noteq> j \<Longrightarrow> set (fids (targets ! i)) \<inter> set (fids (targets ! j)) = {}"
proof -
  have "fids (targets ! i) \<in> set (map fids targets)" using assms(2) by simp
  then show "distinct (fids (targets ! i))" using assms(1) by (auto simp: apart_def distinct_concat_iff)
  show "j < length targets \<Longrightarrow> i \<noteq> j \<Longrightarrow> set (fids (targets ! i)) \<inter> set (fids (targets ! j)) = {}"
    using assms distinct_concat_nth [of "map fids targets" i j] by (simp add: apart_def)
qed

lemma turn_facts:
  assumes "send_turn_step targets start rd (t, j) s = Ok (b, s')" and "apart targets" and "j < length targets" and "numbered targets n s"
  shows "bx_offset b = t \<and> bx_index b = j
    \<and> mset (map shot_key (bx_shots b)) = mset (map (\<lambda>(fid, address). (fid, address, n j)) (tg_destinations (targets ! j)))
    \<and> list_all (shot_sound (fw_size_bytes (tg_flow (targets ! j)))) (bx_shots b)
    \<and> numbered targets (n(j := n j + 1)) s'
    \<and> se_heap s' = se_heap (refill j s) \<and> se_rest s' = se_rest (refill j s)"
proof -
  define ds where "ds = tg_destinations (targets ! j)"
  define s0 where "s0 = (if flt (sn_now rd) (fadd start t) then s
    else s\<lparr>se_max_lag := fmax (se_max_lag s) (fsub (sn_now rd) (fadd start t))\<rparr>)"
  define order where "order = (if se_parity s0 then rev ds else ds)"
  have s0: "se_heap s0 = se_heap s" "se_rest s0 = se_rest s" "se_seqs s0 = se_seqs s" by (simp_all add: s0_def)
  have st: "send_turn_step targets start rd (t, j) s
      = bindR (shoot (fw_size_bytes (tg_flow (targets ! j))) order (sn_stamps rd) (sn_accepted rd)
          (s0\<lparr>se_parity := \<not> se_parity s0\<rparr>)) (\<lambda>(shots, s1).
          Ok (\<lparr>bx_offset = t, bx_index = j, bx_shots = shots\<rparr>, tick_maybe (sn_after rd) False (sn_tick_ns rd) (refill j s1)))"
    by (simp only: send_turn_step_def Let_def fst_conv snd_conv s0_def order_def ds_def)
  obtain shots s1 where sh: "shoot (fw_size_bytes (tg_flow (targets ! j))) order (sn_stamps rd) (sn_accepted rd)
      (s0\<lparr>se_parity := \<not> se_parity s0\<rparr>) = Ok (shots, s1)"
    and b: "b = \<lparr>bx_offset = t, bx_index = j, bx_shots = shots\<rparr>"
    and s': "s' = tick_maybe (sn_after rd) False (sn_tick_ns rd) (refill j s1)"
    using assms(1) unfolding st by (auto simp: result_simps)
  have o: "set order = set ds" "mset order = mset ds" "set (map fst order) = set (fids (targets ! j))"
    by (simp_all add: order_def fids_def ds_def)
  have dist: "distinct (map fst order)" using apartD(1) [OF assms(2,3)] by (simp add: order_def fids_def ds_def rev_map [symmetric])
  have num: "\<forall>fid\<in>set (map fst order). map_of (se_seqs (s0\<lparr>se_parity := \<not> se_parity s0\<rparr>)) fid = Some (n j)"
    using assms(3,4) o(3) s0(3) by (simp add: numbered_def)
  have f: "map shot_key shots = map (\<lambda>(fid, address). (fid, address, n j)) order"
    "list_all (shot_sound (fw_size_bytes (tg_flow (targets ! j)))) shots"
    "map_of (se_seqs s1) = (\<lambda>fid. if fid \<in> set (map fst order) then Some (n j + 1) else map_of (se_seqs s0) fid)"
    "se_heap s1 = se_heap s" "se_rest s1 = se_rest s"
    using shoot_ok [OF sh dist num] s0 by (simp_all cong: if_cong)
  have "numbered targets (n(j := n j + 1)) s'"
    unfolding numbered_def
  proof (intro allI impI ballI)
    fix i fid
    assume i: "i < length targets" and fid: "fid \<in> set (fids (targets ! i))"
    show "map_of (se_seqs s') fid = Some ((n(j := n j + 1)) i)"
    proof (cases "i = j")
      case True
      then show ?thesis using fid f(3) o(3) by (simp add: s')
    next
      case False
      with apartD(2) [OF assms(2,3) i] fid o(3) have "fid \<notin> set (map fst order)" by auto
      then show ?thesis using False f(3) s0(3) i fid assms(4) by (simp add: s' numbered_def)
    qed
  qed
  moreover have "mset (map shot_key shots) = mset (map (\<lambda>(fid, address). (fid, address, n j)) ds)"
    using f(1) o(2) by simp
  ultimately show ?thesis
    using f(2) refill_shape [OF f(4,5)] by (simp add: b s' ds_def)
qed

lemma sum_list_replaced:
  "j < length R \<Longrightarrow> sum_list (map f (R[j := x])) + f (R ! j) = sum_list (map f R) + (f x :: nat)"
proof (induction R arbitrary: j)
  case (Cons r R)
  then show ?case by (cases j) (simp_all add: add.assoc add.left_commute)
qed simp

text \<open>A loop that starts with the schedules \<open>R\<close> left sends a merge of prefixes of them.\<close>

lemma send_loop_facts:
  assumes "send_loop targets start rds s = (res, bs, s')" and "apart targets" and "length R = length targets"
    and "merging s R" and "numbered targets n s"
  shows "sorted_wrt fle (map bx_offset bs)
    \<and> (\<forall>b\<in>set bs. bx_index b < length R \<and> bx_offset b \<in> set (R ! bx_index b))
    \<and> (\<forall>j<length R. prefix (offsets_of j bs) (R ! j))
    \<and> shots_ok targets n bs
    \<and> (if res = Ok () \<and> list_all (\<lambda>rd. \<not> sn_stop rd) rds \<and> sum_list (map length R) \<le> length rds
       then \<forall>j<length R. offsets_of j bs = R ! j else True)"
  using assms(1,3-5)
proof (induction rds arbitrary: s R n bs)
  case Nil
  have e: "R ! j = []" if "\<forall>r\<in>set R. r = []" "j < length targets" for j
    using that nth_mem [of j R] Nil.prems(2) by simp
  show ?case using Nil by (auto simp: offsets_of_def e)
next
  case (Cons rd rds)
  have stopped: ?case if "bs = []" "\<not> list_all (\<lambda>rd. \<not> sn_stop rd) (rd # rds) \<or> res \<noteq> Ok () \<or> (\<forall>r\<in>set R. r = [])"
    using that by (auto simp: offsets_of_def dest!: bspec [OF _ nth_mem])
  show ?case
  proof (cases "heappop (se_heap s)")
    case None
    then have h: "heads R = []" using Cons.prems(3) hq.pop_None [of "se_heap s"] by (simp add: merging_def)
    have "R ! i = []" if "i < length R" for i
      using head_in [of "hd (R ! i)" i R] h that by (cases "R ! i") simp_all
    then have "\<forall>r\<in>set R. r = []" by (auto simp: in_set_conv_nth)
    then show ?thesis by (intro stopped) (use Cons.prems(1) None in auto)
  next
    case (Some ih)
    obtain t j h where ih: "ih = ((t, j), h)" by (metis prod.exhaust)
    obtain ts where j: "j < length R" "R ! j = t # ts" "merging (refill j (s\<lparr>se_heap := h\<rparr>)) (R[j := ts])"
      and least: "\<And>i x. i < length R \<Longrightarrow> x \<in> set (R ! i) \<Longrightarrow> fle t x"
      using merging_pop [OF Cons.prems(3)] Some ih by metis
    show ?thesis
    proof (cases "sn_stop rd")
      case True
      then show ?thesis by (intro stopped) (use Cons.prems(1) Some ih in auto)
    next
      case False
      show ?thesis
      proof (cases "send_turn_step targets start rd (t, j) (s\<lparr>se_heap := h\<rparr>)")
        case (Inl e)
        then show ?thesis by (intro stopped) (use Cons.prems(1) Some ih False in auto)
      next
        case (Inr bs1)
        obtain b s1 where b: "bs1 = (b, s1)" by (cases bs1)
        obtain res2 later s2 where q: "send_loop targets start rds s1 = (res2, later, s2)" by (metis prod_cases3)
        have x: "res = res2" "bs = b # later" "s' = s2" using Cons.prems(1) Some ih False Inr b q by auto
        have "numbered targets n (s\<lparr>se_heap := h\<rparr>)" using Cons.prems(4) by (simp add: numbered_def)
        from turn_facts [OF Inr [unfolded b] assms(2) _ this] j(1) Cons.prems(2)
        have f: "bx_offset b = t" "bx_index b = j"
          "mset (map shot_key (bx_shots b)) = mset (map (\<lambda>(fid, address). (fid, address, n j)) (tg_destinations (targets ! j)))"
          "list_all (shot_sound (fw_size_bytes (tg_flow (targets ! j)))) (bx_shots b)"
          "numbered targets (n(j := n j + 1)) s1"
          "se_heap s1 = se_heap (refill j (s\<lparr>se_heap := h\<rparr>))" "se_rest s1 = se_rest (refill j (s\<lparr>se_heap := h\<rparr>))"
          by simp_all
        have m: "merging s1 (R[j := ts])" using j(3) merging_shape [OF f(6,7)] by blast
        have "send_loop targets start rds s1 = (res, later, s')" using q x by simp
        define n' where "n' = n(j := n j + 1)"
        define R' where "R' = R[j := ts]"
        have "length R' = length targets" using Cons.prems(2) by (simp add: R'_def)
        note ih = Cons.IH [OF \<open>send_loop targets start rds s1 = (res, later, s')\<close> this m [folded R'_def] f(5) [folded n'_def]]
        have len: "length R' = length R" by (simp add: R'_def)
        from ih have IH: "sorted_wrt fle (map bx_offset later)"
          "\<forall>c\<in>set later. bx_index c < length R \<and> bx_offset c \<in> set (R' ! bx_index c)"
          "\<forall>i<length R. prefix (offsets_of i later) (R' ! i)"
          "shots_ok targets n' later"
          "res = Ok () \<and> list_all (\<lambda>rd. \<not> sn_stop rd) rds \<and> sum_list (map length R') \<le> length rds \<Longrightarrow>
            \<forall>i<length R. offsets_of i later = R' ! i" unfolding len by simp_all
        note IH = IH [unfolded R'_def n'_def]
        have sub: "x \<in> set (R ! i)" if "x \<in> set (R[j := ts] ! i)" "i < length R" for x i
          using that j by (cases "i = j") simp_all
        have 1: "sorted_wrt fle (map bx_offset bs)"
          using IH(1,2) x(2) f(1) least sub by (fastforce)
        have 2: "\<forall>c\<in>set bs. bx_index c < length R \<and> bx_offset c \<in> set (R ! bx_index c)"
          using IH(2) x(2) f(1,2) j(1,2) sub by auto
        have o: "offsets_of i bs = (if i = j then t # offsets_of i later else offsets_of i later)" for i
          using x(2) f(1,2) by (simp add: offsets_of_def)
        have 3: "\<forall>i<length R. prefix (offsets_of i bs) (R ! i)"
          using IH(3) o j(1,2) by (auto simp: nth_list_update)
        have 4: "shots_ok targets n bs" using IH(4) x(2) f(2-4) by simp
        have "sum_list (map length R) = Suc (sum_list (map length (R[j := ts])))"
          using sum_list_replaced [OF j(1), of length ts] j(2) by simp
        then have 5: "\<forall>i<length R. offsets_of i bs = R ! i"
          if "res = Ok () \<and> list_all (\<lambda>rd. \<not> sn_stop rd) (rd # rds) \<and> sum_list (map length R) \<le> length (rd # rds)"
          using that IH(5) o j(1,2) by (auto simp: nth_list_update)
        from 1 2 3 4 5 show ?thesis by simp
      qed
    qed
  qed
qed

section \<open>The start of a run\<close>

lemma refills_ok:
  assumes "list_all in_order R" and "k \<le> length R"
  shows "queue_ok (se_heap (fold refill [0..<k] (s\<lparr>se_heap := [], se_rest := R\<rparr>)))
    \<and> mset (se_heap (fold refill [0..<k] (s\<lparr>se_heap := [], se_rest := R\<rparr>))) = mset (concat (map (\<lambda>j. head_items j (R ! j)) [0..<k]))
    \<and> se_rest (fold refill [0..<k] (s\<lparr>se_heap := [], se_rest := R\<rparr>)) = map tl (take k R) @ drop k R"
  using assms(2)
proof (induction k)
  case 0
  then show ?case by (simp add: queue_ok_def)
next
  case (Suc k)
  define s1 where "s1 = fold refill [0..<k] (s\<lparr>se_heap := [], se_rest := R\<rparr>)"
  have k: "k < length R" using Suc.prems by simp
  have IH: "queue_ok (se_heap s1)" "mset (se_heap s1) = mset (concat (map (\<lambda>j. head_items j (R ! j)) [0..<k]))"
    "se_rest s1 = map tl (take k R) @ drop k R" using Suc by (simp_all add: s1_def)
  have rest: "se_rest s1 ! k = R ! k" using k IH(3) by (simp add: nth_append)
  have dr: "drop k R = R ! k # drop (Suc k) R" using k by (simp add: Cons_nth_drop_Suc)
  have tk: "take (Suc k) R = take k R @ [R ! k]" using k by (rule take_Suc_conv_app_nth)
  have fold: "fold refill [0..<Suc k] (s\<lparr>se_heap := [], se_rest := R\<rparr>) = refill k s1" by (simp add: s1_def)
  show ?case
  proof (cases "R ! k")
    case Nil
    with rest IH dr tk show ?thesis unfolding fold by (simp add: refill_def head_items_def)
  next
    case (Cons t ts)
    have "in_order (R ! k)" using assms(1) nth_mem [OF k] by (simp add: list_all_iff)
    then have "fst (t, k) \<noteq> NaN" using Cons by (auto simp: in_order_def)
    from hq.valid_push [OF IH(1) this] rest IH(2,3) dr tk Cons show ?thesis
      unfolding fold by (simp add: refill_def head_items_def mset_heappush list_update_append k)
  qed
qed

lemma seqs_zero: "map_of (fold (\<lambda>fid seqs. AList.update fid 0 seqs) fs acc) x = (if x \<in> set fs then Some 0 else map_of acc x)"
  by (induction fs arbitrary: acc) auto

lemma new_sender_facts:
  assumes "length R = length targets" and "list_all in_order R"
  shows "merging (new_sender targets R t_ns) R" and "numbered targets (\<lambda>_. 0) (new_sender targets R t_ns)"
proof -
  define s0 where "s0 = \<lparr>se_heap = [], se_rest = R, se_seqs = [], se_parity = False, se_sent = 0, se_errors = 0,
    se_max_lag = Fin 0, se_tick_last = Fin 0, se_ticks = []\<rparr>"
  have s0: "s0\<lparr>se_heap := [], se_rest := R\<rparr> = s0" by (simp add: s0_def)
  note r = refills_ok [OF assms(2) order_refl, of s0, unfolded s0]
  show "merging (new_sender targets R t_ns) R"
    using r assms by (simp add: merging_def new_sender_def Let_def heads_def flip: s0_def)
  show "numbered targets (\<lambda>_. 0) (new_sender targets R t_ns)"
    by (auto simp: numbered_def new_sender_def Let_def seqs_zero fids_def split: if_splits)
qed

section \<open>Flow ids keep packets apart\<close>

lemma foldR_enum:
  assumes "foldR f (enum xs) a = Ok b" and "P 0 a"
    and "\<And>k a b. k < length xs \<Longrightarrow> P k a \<Longrightarrow> f (k, xs ! k) a = Ok b \<Longrightarrow> P (Suc k) b"
  shows "P (length xs) b"
proof -
  have "P (n + length ys) b" if "foldR f (zip [n..<n + length ys] ys) a = Ok b" "P n a" "drop n xs = ys" "n \<le> length xs" for n ys a
    using that
  proof (induction ys arbitrary: n a)
    case (Cons y ys)
    then have n: "n < length xs" by (metis drop_all leI list.distinct(1))
    have y: "y = xs ! n" "drop (Suc n) xs = ys" using Cons.prems(3) n by (metis Cons_nth_drop_Suc list.inject)+
    have "[n..<n + length (y # ys)] = n # [Suc n..<Suc n + length ys]" by (simp add: upt_conv_Cons del: upt_Suc)
    then obtain c where c: "f (n, y) a = Ok c" "foldR f (zip [Suc n..<Suc n + length ys] ys) c = Ok b"
      using Cons.prems(1) by (auto simp: result_simps simp del: upt_Suc)
    from Cons.IH [OF c(2) assms(3) [OF n Cons.prems(2) c(1) [unfolded y(1)]] y(2)] n show ?case by simp
  qed simp
  from this [of 0 xs a] assms(1,2) show ?thesis by (simp add: enum_def)
qed

text \<open>The cell, the UE and the flow a flow id stands for.\<close>

definition fid_at :: "int \<Rightarrow> nat \<Rightarrow> nat \<Rightarrow> nat \<Rightarrow> bool" where
  "fid_at v c u f \<longleftrightarrow> flow_id (int c) (int u) (int f) = Ok v"

lemma fid_at_inj: "fid_at v c u f \<Longrightarrow> fid_at v c' u' f' \<Longrightarrow> c = c' \<and> u = u' \<and> f = f'"
  by (auto simp: fid_at_def dest!: flow_id_split)

lemma dl_destination_fids:
  assumes "foldR (dl_destination bk u f) (enum CELLS) [] = Ok ds"
  shows "distinct (map fst ds) \<and> (\<forall>v\<in>set (map fst ds). \<exists>c. fid_at v c u f)"
proof -
  define P where "P = (\<lambda>k (ds :: (int \<times> address) list). distinct (map fst ds) \<and> (\<forall>v\<in>set (map fst ds). \<exists>c<k. fid_at v c u f))"
  have "P (length CELLS) ds"
  proof (rule foldR_enum [OF assms])
    show "P 0 []" by (simp add: P_def)
    fix k a b
    assume k: "k < length CELLS" and P: "P k a" and "dl_destination bk u f (k, CELLS ! k) a = Ok b"
    then consider "b = a" | v ad where "b = a @ [(v, ad)]" "fid_at v k u f"
      by (auto simp: dl_destination_def result_simps fid_at_def split: option.splits if_splits)
    then show "P (Suc k) b"
    proof cases
      case 1
      with P show ?thesis by (auto simp: P_def less_Suc_eq)
    next
      case 2
      have "v \<notin> set (map fst a)" using P 2(2) by (auto simp: P_def dest: fid_at_inj)
      moreover have "\<exists>c<Suc k. fid_at w c u f" if "w \<in> set (map fst b)" for w
      proof (cases "w = v")
        case True
        with 2(2) show ?thesis by blast
      next
        case False
        with that 2(1) have "w \<in> set (map fst a)" by simp
        with P have "\<exists>c<k. fid_at w c u f" unfolding P_def by blast
        then show ?thesis using less_SucI by blast
      qed
      ultimately show ?thesis using P 2(1) by (simp add: P_def)
    qed
  qed
  then show ?thesis by (auto simp: P_def)
qed

text \<open>All destinations made so far belong to UEs before \<open>u\<close>, or to \<open>u\<close> and flows before \<open>f\<close>.\<close>

definition made_before :: "nat \<Rightarrow> nat \<Rightarrow> target list \<Rightarrow> bool" where
  "made_before u f ts \<longleftrightarrow> apart ts
     \<and> (\<forall>v\<in>set (concat (map fids ts)). \<exists>c i j. fid_at v c i j \<and> (i < u \<or> i = u \<and> j < f))"

lemma made_before_mono:
  assumes "made_before u f ts" and "u < u' \<or> u = u' \<and> f \<le> f'"
  shows "made_before u' f' ts"
proof -
  have "i < u \<or> i = u \<and> j < f \<Longrightarrow> i < u' \<or> i = u' \<and> j < f'" for i j using assms(2) by linarith
  with assms(1) show ?thesis unfolding made_before_def by meson
qed

lemma dl_targets_apart:
  assumes "dl_targets bk = Ok targets"
  shows "apart targets"
proof -
  have "made_before (length (bk_profile bk)) 0 targets"
  proof (rule foldR_enum [OF assms [unfolded dl_targets_def]])
    show "made_before 0 0 []" by (simp add: made_before_def apart_def)
    fix u a b
    assume "made_before u 0 a"
      and b: "foldR (dl_flow_target bk (fst (u, bk_profile bk ! u))) (enum (pu_flows (snd (u, bk_profile bk ! u)))) a = Ok b"
    have "made_before u (length (pu_flows (bk_profile bk ! u))) b"
    proof (rule foldR_enum [OF b [unfolded fst_conv snd_conv]])
      show "made_before u 0 a" by fact
      fix f a b
      assume m: "made_before u f a" and "dl_flow_target bk u (f, pu_flows (bk_profile bk ! u) ! f) a = Ok b"
      then consider "b = a" | t where "b = a @ [t]" "distinct (fids t)" "\<forall>v\<in>set (fids t). \<exists>c. fid_at v c u f"
        by (auto simp: dl_flow_target_def result_simps fids_def dest!: dl_destination_fids split: if_splits)
      then show "made_before u (Suc f) b"
      proof cases
        case 1
        with m show ?thesis by (auto intro: made_before_mono)
      next
        case 2
        have "v \<notin> set (fids t)" if v: "v \<in> set (concat (map fids a))" for v
        proof
          assume "v \<in> set (fids t)"
          then obtain c where c: "fid_at v c u f" using 2(3) by blast
          obtain c' i j where "fid_at v c' i j" "i < u \<or> i = u \<and> j < f" using m v unfolding made_before_def by blast
          with fid_at_inj [OF c] show False by blast
        qed
        then have "set (concat (map fids a)) \<inter> set (fids t) = {}" by blast
        then have "apart b" using m 2(1,2) by (simp add: made_before_def apart_def)
        moreover have "\<exists>c i j. fid_at v c i j \<and> (i < u \<or> i = u \<and> j < Suc f)" if "v \<in> set (concat (map fids b))" for v
        proof (cases "v \<in> set (fids t)")
          case True
          with 2(3) show ?thesis by blast
        next
          case False
          with that 2(1) have "v \<in> set (concat (map fids a))" by simp
          moreover have "made_before u (Suc f) a" by (rule made_before_mono [OF m]) simp
          ultimately show ?thesis unfolding made_before_def by blast
        qed
        ultimately show ?thesis by (simp add: made_before_def)
      qed
    qed
    then show "made_before (Suc u) 0 b" by (rule made_before_mono) simp
  qed
  then show ?thesis by (simp add: made_before_def)
qed

section \<open>What the sender offers\<close>

lemma schedules_in_order:
  assumes "schedules_of rand lg seed duration targets = Some (Ok R)" and "list_all (\<lambda>t. flow_wf (tg_flow t)) targets"
    and "is_float duration" and "\<forall>k. unit_draws (rand k)" and "log_ok lg"
  shows "length R = length targets \<and> list_all in_order R"
  using assms(1,2)
proof (induction targets arbitrary: R)
  case (Cons t ts)
  then obtain q qs where q: "flow_schedule rand lg seed (tg_ue_index t) (tg_flow t) duration = Some (Ok q)"
    "schedules_of rand lg seed duration ts = Some (Ok qs)" "R = q # qs"
    by (auto simp: bindO_def result_simps split: option.splits sum.splits)
  have "in_window (Fin 0) duration q"
    using schedule_in_window [OF q(1) _ assms(3) spec [OF assms(4)] assms(5)] Cons.prems(2) by simp
  then have "in_order q" by (auto simp: in_window_def in_order_def list_all_iff dest: fle_not_NaN)
  with q Cons.IH [OF q(2)] Cons.prems(2) show ?case by simp
qed simp

lemma run_sender_facts:
  assumes "run_sender targets R start t_ns rds final = (res, bs, s)" and "apart targets" and "length R = length targets"
    and "list_all in_order R"
  shows "sorted_wrt fle (map bx_offset bs) \<and> (\<forall>j<length targets. prefix (offsets_of j bs) (R ! j)) \<and> shots_ok targets (\<lambda>_. 0) bs
    \<and> (if res = Ok () \<and> list_all (\<lambda>rd. \<not> sn_stop rd) rds \<and> sum_list (map length R) \<le> length rds
       then \<forall>j<length targets. offsets_of j bs = R ! j else True)"
proof (cases "list_ex (\<lambda>t. fw_size_bytes (tg_flow t) < int (calcsize HEADER)) targets")
  case True
  with assms(1) show ?thesis by (auto simp: run_sender_def offsets_of_def)
next
  case False
  obtain res' bs' s' where l: "send_loop targets (fquot (fl start) (Fin 1000)) rds (new_sender targets R t_ns) = (res', bs', s')"
    by (metis prod_cases3)
  then have e: "bs = bs'" "res = res'" using assms(1) False by (auto simp: run_sender_def split: sum.splits)
  note f = send_loop_facts [OF l assms(2,3) new_sender_facts(1) [OF assms(3,4)] new_sender_facts(2) [OF assms(3,4)]]
  from f show ?thesis unfolding e assms(3) by simp
qed

text \<open>C2. The downlink sender offers both cells the same packets at the same instants: it sends in the order of the
  schedules' times whatever its clock does, each flow sends a prefix of its own schedule and, when nothing stops
  it, all of it, and the packets of one instant go to every cell's UE with one and the same sequence number, which
  counts the instants of that flow from 0.\<close>

theorem twins_offered_same_packets:
  assumes "dl_targets bk = Ok targets" and "list_all (\<lambda>t. flow_wf (tg_flow t)) targets"
    and "schedules_of rand lg seed duration targets = Some (Ok R)"
    and "is_float duration" and "\<forall>k. unit_draws (rand k)" and "log_ok lg"
    and "run_sender targets R start t_ns rds final = (res, bs, s)"
  shows "sorted_wrt fle (map bx_offset bs) \<and> (\<forall>j<length targets. prefix (offsets_of j bs) (R ! j)) \<and> shots_ok targets (\<lambda>_. 0) bs
    \<and> (if res = Ok () \<and> list_all (\<lambda>rd. \<not> sn_stop rd) rds \<and> sum_list (map length R) \<le> length rds
       then \<forall>j<length targets. offsets_of j bs = R ! j else True)"
  using run_sender_facts [OF assms(7) dl_targets_apart [OF assms(1)]] schedules_in_order [OF assms(3,2,4-6)] by simp

text \<open>One periodic flow to two cells, with a step of one second, for a second and a half.\<close>

definition demo_flow :: flow where
  "demo_flow = periodic ''dl_demo'' ''dl'' 1000 64"

definition demo_ue :: "string \<Rightarrow> string \<Rightarrow> bench_ue" where
  "demo_ue name ip = \<lparr>bu_device_id = name, bu_ipv4 = ip, bu_cell_index = 0, bu_twin = ''ue2'', bu_role = ''demo'', bu_five_qi = 9,
     bu_pdb_ms = 300, bu_flows = [demo_flow]\<rparr>"

definition demo_benchmark :: benchmark where
  "demo_benchmark = \<lparr>bk_seed = 1, bk_measure_seconds = 2, bk_traffic_duration_s = None,
     bk_profile = [\<lparr>pu_role = ''demo'', pu_five_qi = 9, pu_flows = [demo_flow]\<rparr>],
     bk_cells = [(''a'', [demo_ue ''ue0'' ''10.45.1.2'']), (''b'', [demo_ue ''ue2'' ''10.45.1.4''])]\<rparr>"

definition demo_target :: target where
  "demo_target = \<lparr>tg_ue_index = 0, tg_flow = demo_flow,
     tg_destinations = [(0, ''10.45.1.2'', 47000), (4096, ''10.45.1.4'', 47000)]\<rparr>"

definition demo_turn :: send_turn where
  "demo_turn = \<lparr>sn_stop = False, sn_now = Fin 0, sn_stamps = [5, 6], sn_accepted = [True, False], sn_after = Fin 0, sn_tick_ns = 7\<rparr>"

lemma demo_targets: "dl_targets demo_benchmark = Ok [demo_target]"
  by (simp add: dl_targets_def demo_benchmark_def enum_def demo_flow_def periodic_def plain_flow_def dl_flow_target_def CELLS_def
      dl_destination_def result_simps flow_id_def demo_ue_def demo_target_def DL_BASE_PORT_def)

lemma demo_schedule: "schedules_of half_rand flat_log 1 (Fin 2) [demo_target] = Some (Ok [[Fin (1/2), Fin (3/2)]])"
proof -
  have h: "is_f64 (1/2)" "is_f64 (3/2)" "is_f64 (5/2)"
    using is_f64_scaled [of 1 "- 1"] is_f64_scaled [of 3 "- 1"] is_f64_scaled [of 5 "- 1"] by (simp_all add: pow2_def)
  have r: "rnd64 (1/2) = Fin (1/2)" "rnd64 (3/2) = Fin (3/2)" "rnd64 (5/2) = Fin (5/2)"
    using rnd64_between [OF h(1) h(1), of "1/2"] rnd64_between [OF h(2) h(2), of "3/2"] rnd64_between [OF h(3) h(3), of "5/2"] by auto
  have "steady (Fin 1) (Fin 2) (Fin (5/2)) = Some []" by (subst steady.simps) simp
  then have "steady (Fin 1) (Fin 2) (Fin (3/2)) = Some [Fin (3/2)]" by (subst steady.simps) (simp add: r)
  then have "steady (Fin 1) (Fin 2) (Fin (1/2)) = Some [Fin (1/2), Fin (3/2)]" by (subst steady.simps) (simp add: r)
  then show ?thesis
    by (simp add: demo_target_def demo_flow_def periodic_def plain_flow_def flow_schedule_def need_def bindO_def Let_def
        half_rand_def fquot_def uniform_def fsub_def r result_simps)
qed

definition demo_sent :: "unit result \<times> burst_rec list \<times> sender" where
  "demo_sent = run_sender [demo_target] [[Fin (1/2), Fin (3/2)]] 1000 0 [demo_turn, demo_turn, demo_turn] (Fin 0, 9)"

theorem twins_offered_same_packets_witness:
  "sorted_wrt fle (map bx_offset (fst (snd demo_sent))) \<and> shots_ok [demo_target] (\<lambda>_. 0) (fst (snd demo_sent))
    \<and> prefix (offsets_of 0 (fst (snd demo_sent))) [Fin (1/2), Fin (3/2)]"
proof -
  have f: "list_all (\<lambda>t. flow_wf (tg_flow t)) [demo_target]"
    by (simp add: demo_target_def demo_flow_def periodic_def plain_flow_def flow_wf_def FLOW_PATTERNS_def positive_def)
  have d: "is_float (Fin 2)" using is_f64_scaled [of 1 1] by (simp add: is_float_def pow2_def)
  have u: "\<forall>k. unit_draws (half_rand k)" by (simp add: demo_random)
  have "run_sender [demo_target] [[Fin (1/2), Fin (3/2)]] 1000 0 [demo_turn, demo_turn, demo_turn] (Fin 0, 9)
      = (fst demo_sent, fst (snd demo_sent), snd (snd demo_sent))" by (simp add: demo_sent_def)
  from twins_offered_same_packets [OF demo_targets f demo_schedule d u demo_random(2) this] show ?thesis by simp
qed

end
