(* ===== verification/BenchLogs.thy ===== *)
theory BenchLogs
  imports BenchSender
begin

text \<open>
  How a packet's record travels in the scheduler benchmark: the receiver of
  \<^verbatim>\<open>use_cases/scheduler_benchmark/traffic.py\<close> logs each packet as a fixed-size record, and the
  \<open>TailReader\<close> of \<^verbatim>\<open>analyze.py\<close> reads the growing log while it is written. A turn of the receiver reads
  its sockets and its clock from a \<open>recv_turn\<close>; a poll of the reader reads the file as it is at that moment.
\<close>

section \<open>The receiver\<close>

record receiver =
  rv_log :: bytes
  rv_pending :: bytes
  rv_received :: int
  rv_malformed :: int
  rv_last_flush :: pyfloat

text \<open>The datagrams of a turn in the order the selector gives them, each with its reading of the real-time clock.\<close>

record recv_turn =
  vt_over :: bool
  vt_data :: "(bytes \<times> int) list"
  vt_now :: pyfloat

definition FLUSH_SECONDS :: pyfloat where "FLUSH_SECONDS = rnd64 (1/2)"
definition RECV_BYTES :: nat where "RECV_BYTES = 2048"

definition log_packet :: "bytes \<Rightarrow> int \<Rightarrow> bytes option result" where
  "log_packet data rx_ns =
     (if length data < calcsize HEADER then Ok None
      else bindR (struct_unpack_from HEADER data) (\<lambda>vs.
        case vs of
          [VStr magic, VInt fid, _, VInt seq, VInt tx] \<Rightarrow>
            if magic \<noteq> MAGIC_SB then Ok None
            else bindR (to_q (of_q tx)) (\<lambda>tx. bindR (to_q rx_ns) (\<lambda>rx.
                 bindR (struct_pack RECORD [VInt fid, VInt 0, VInt seq, VInt tx, VInt rx]) (\<lambda>r. Ok (Some r))))
        | _ \<Rightarrow> Err StructError))"

definition receive :: "bytes \<times> int \<Rightarrow> receiver \<Rightarrow> receiver result" where
  "receive d s =
     bindR (log_packet (take RECV_BYTES (fst d)) (snd d)) (\<lambda>r.
       case r of
         None \<Rightarrow> Ok (s\<lparr>rv_malformed := rv_malformed s + 1\<rparr>)
       | Some r \<Rightarrow> Ok (s\<lparr>rv_pending := rv_pending s @ r, rv_received := rv_received s + 1\<rparr>))"

definition flush_due :: "pyfloat \<Rightarrow> receiver \<Rightarrow> receiver" where
  "flush_due now s =
     (if rv_pending s \<noteq> [] \<and> fle FLUSH_SECONDS (fsub now (rv_last_flush s))
      then s\<lparr>rv_log := rv_log s @ rv_pending s, rv_pending := [], rv_last_flush := now\<rparr>
      else s)"

fun receive_loop :: "recv_turn list \<Rightarrow> receiver \<Rightarrow> receiver result" where
  "receive_loop [] s = Ok s"
| "receive_loop (t # ts) s =
     (if vt_over t then Ok s
      else bindR (foldR receive (vt_data t) s) (\<lambda>s. receive_loop ts (flush_due (vt_now t) s)))"

definition run_receiver :: "bytes \<Rightarrow> pyfloat \<Rightarrow> recv_turn list \<Rightarrow> receiver result" where
  "run_receiver log0 start turns =
     bindR (receive_loop turns \<lparr>rv_log = log0, rv_pending = [], rv_received = 0, rv_malformed = 0, rv_last_flush = start\<rparr>)
       (\<lambda>s. Ok (if rv_pending s \<noteq> [] then s\<lparr>rv_log := rv_log s @ rv_pending s\<rparr> else s))"

section \<open>The reader of a growing file\<close>

record tail_reader =
  td_offset :: nat
  td_record_size :: nat
  td_partial :: bytes

definition new_tail :: "nat \<Rightarrow> tail_reader" where
  "new_tail n = \<lparr>td_offset = 0, td_record_size = n, td_partial = []\<rparr>"

text \<open>\<open>rfind\<close> of a newline, plus one.\<close>

definition after_last_newline :: "bytes \<Rightarrow> nat" where
  "after_last_newline data = length data - length (takeWhile (\<lambda>b. b \<noteq> 10) (rev data))"

definition tail_usable :: "nat \<Rightarrow> bytes \<Rightarrow> nat" where
  "tail_usable record_size data =
     (if record_size \<noteq> 0 then length data - length data mod record_size else after_last_newline data)"

text \<open>One \<open>read\<close>: the file is \<open>None\<close> while it does not exist.\<close>

definition tail_read :: "bytes option \<Rightarrow> tail_reader \<Rightarrow> bytes \<times> tail_reader" where
  "tail_read file t =
     (case file of
        None \<Rightarrow> ([], t)
      | Some bs \<Rightarrow>
          let new = drop (td_offset t) bs;
              data = td_partial t @ new;
              usable = tail_usable (td_record_size t) data
          in (take usable data, t\<lparr>td_offset := td_offset t + length new, td_partial := drop usable data\<rparr>))"

fun tail_polls :: "bytes option list \<Rightarrow> tail_reader \<Rightarrow> bytes list \<times> tail_reader" where
  "tail_polls [] t = ([], t)"
| "tail_polls (f # fs) t = (case tail_read f t of (d, t) \<Rightarrow> case tail_polls fs t of (ds, t) \<Rightarrow> (d # ds, t))"

text \<open>\<open>iter_unpack\<close> of the record format, as the loop of \<open>poll_receivers\<close> takes it apart: flow id, sequence number, and the
  two times.\<close>

type_synonym rx_record = "int \<times> int \<times> int \<times> int"

definition rx_record_of :: "pyval list \<Rightarrow> rx_record option" where
  "rx_record_of vs =
     (case vs of [VInt fid, _, VInt seq, VInt tx, VInt rx] \<Rightarrow> Some (fid, seq, of_q tx, of_q rx) | _ \<Rightarrow> None)"

function rx_records :: "bytes \<Rightarrow> rx_record list result" where
  "rx_records data =
     (if data = [] then Ok []
      else bindR (struct_unpack RECORD (take 24 data)) (\<lambda>vs.
        case rx_record_of vs of
          None \<Rightarrow> Err StructError
        | Some r \<Rightarrow> bindR (rx_records (drop 24 data)) (\<lambda>rs. Ok (r # rs))))"
  by pat_completeness auto
termination
  by (relation "measure length") auto

declare rx_records.simps [simp del]

section \<open>Framing\<close>

text \<open>What makes a reader's cut safe: it hands out whole units only, and leaves no whole unit behind.\<close>

locale framing =
  fixes usable :: "bytes \<Rightarrow> nat" and whole :: "bytes \<Rightarrow> bool"
  assumes usable_bound: "usable d \<le> length d"
    and whole_taken: "whole (take (usable d) d)"
    and whole_append: "whole a \<Longrightarrow> whole (a @ b) \<longleftrightarrow> whole b"
    and rest_short: "0 < n \<Longrightarrow> n \<le> length (drop (usable d) d) \<Longrightarrow> \<not> whole (take n (drop (usable d) d))"
    and whole_Nil: "whole []"
begin

lemma whole_concat: "list_all whole ds \<Longrightarrow> whole (concat ds)"
  by (induction ds) (simp_all add: whole_Nil whole_append)

end

text \<open>The readers of the analyzer: records of 24 bytes, and lines.\<close>

definition whole_records :: "bytes \<Rightarrow> bool" where "whole_records d \<longleftrightarrow> length d mod 24 = 0"
definition whole_lines :: "bytes \<Rightarrow> bool" where "whole_lines d \<longleftrightarrow> d = [] \<or> last d = 10"

interpretation rec: framing "tail_usable 24" whole_records
proof
  show "whole_records (take (tail_usable 24 d) d)" for d
    by (simp add: whole_records_def tail_usable_def)
  show "0 < n \<Longrightarrow> n \<le> length (drop (tail_usable 24 d) d) \<Longrightarrow> \<not> whole_records (take n (drop (tail_usable 24 d) d))" for n d
  proof -
    assume "0 < n" and n: "n \<le> length (drop (tail_usable 24 d) d)"
    moreover have "length (drop (tail_usable 24 d) d) = length d mod 24" by (simp add: tail_usable_def)
    moreover have "length d mod 24 < 24" by simp
    ultimately show "\<not> whole_records (take n (drop (tail_usable 24 d) d))"
      unfolding whole_records_def by (simp only: length_take min.absorb2) (metis mod_less neq0_conv order.strict_trans1)
  qed
qed (auto simp: whole_records_def tail_usable_def mod_add_eq [symmetric])

lemma after_last_newline_cut:
  "drop (after_last_newline d) d = rev (takeWhile (\<lambda>b. b \<noteq> 10) (rev d))"
  "take (after_last_newline d) d = rev (dropWhile (\<lambda>b. b \<noteq> 10) (rev d))"
proof -
  have d: "d = rev (dropWhile (\<lambda>b. b \<noteq> 10) (rev d)) @ rev (takeWhile (\<lambda>b. b \<noteq> 10) (rev d))"
    by (metis rev_append rev_rev_ident takeWhile_dropWhile_id)
  have n: "after_last_newline d = length (rev (dropWhile (\<lambda>b. b \<noteq> 10) (rev d)))"
    unfolding after_last_newline_def using arg_cong [OF d, of length] by simp
  show "drop (after_last_newline d) d = rev (takeWhile (\<lambda>b. b \<noteq> 10) (rev d))"
    "take (after_last_newline d) d = rev (dropWhile (\<lambda>b. b \<noteq> 10) (rev d))"
    unfolding n using d by (metis append_eq_conv_conj)+
qed

interpretation line: framing "tail_usable 0" whole_lines
proof
  show "whole_lines (take (tail_usable 0 d) d)" for d
  proof (cases "dropWhile (\<lambda>b. b \<noteq> 10) (rev d)")
    case Nil
    then show ?thesis by (simp add: whole_lines_def tail_usable_def after_last_newline_cut)
  next
    case (Cons b bs)
    then have "b = 10" using hd_dropWhile [of "\<lambda>b. b \<noteq> 10" "rev d"] by simp
    with Cons show ?thesis by (simp add: whole_lines_def tail_usable_def after_last_newline_cut)
  qed
  show "0 < n \<Longrightarrow> n \<le> length (drop (tail_usable 0 d) d) \<Longrightarrow> \<not> whole_lines (take n (drop (tail_usable 0 d) d))" for n d
  proof -
    define r where "r = drop (tail_usable 0 d) d"
    assume "0 < n" and "n \<le> length (drop (tail_usable 0 d) d)"
    then have ne: "take n r \<noteq> []" by (auto simp: r_def)
    have r: "r = rev (takeWhile (\<lambda>b. b \<noteq> 10) (rev d))" by (simp add: r_def tail_usable_def after_last_newline_cut)
    have "b \<noteq> 10" if "b \<in> set r" for b using that unfolding r by (auto dest: set_takeWhileD)
    moreover have "last (take n r) \<in> set r" using last_in_set [OF ne] set_take_subset by fast
    ultimately show "\<not> whole_lines (take n (drop (tail_usable 0 d) d))" using ne by (auto simp: whole_lines_def simp flip: r_def)
  qed
qed (auto simp: whole_lines_def tail_usable_def after_last_newline_def last_append)

section \<open>Growing files\<close>

text \<open>What a file that is only appended to looks like at the polls, from \<open>prev\<close> on.\<close>

fun grows :: "bytes \<Rightarrow> bytes option list \<Rightarrow> bool" where
  "grows prev [] \<longleftrightarrow> True"
| "grows prev (None # fs) \<longleftrightarrow> grows prev fs"
| "grows prev (Some g # fs) \<longleftrightarrow> prefix prev g \<and> grows g fs"

fun last_seen :: "bytes \<Rightarrow> bytes option list \<Rightarrow> bytes" where
  "last_seen prev [] = prev"
| "last_seen prev (None # fs) = last_seen prev fs"
| "last_seen prev (Some g # fs) = last_seen g fs"

text \<open>A reader in step with the file: what it read is whole units, and the part it holds back.\<close>

context framing
begin

lemma polls_deliver:
  assumes "tail_usable (td_record_size t) = usable" and "tail_polls files t = (ds, t')" and "grows prev files"
    and "td_offset t = length prev" and "prev = W @ td_partial t"
    and "\<And>n. 0 < n \<Longrightarrow> n \<le> length (td_partial t) \<Longrightarrow> \<not> whole (take n (td_partial t))"
  shows "last_seen prev files = W @ concat ds @ td_partial t' \<and> list_all whole ds
    \<and> (\<forall>n. 0 < n \<and> n \<le> length (td_partial t') \<longrightarrow> \<not> whole (take n (td_partial t')))"
  using assms
proof (induction files arbitrary: t ds prev W)
  case Nil
  then show ?case by simp
next
  case (Cons f fs)
  obtain d t1 where r: "tail_read f t = (d, t1)" by (metis prod.exhaust)
  obtain ds1 where ds: "tail_polls fs t1 = (ds1, t')" "ds = d # ds1" using Cons.prems(2) r by (auto split: prod.splits)
  show ?case
  proof (cases f)
    case None
    with r have "d = []" "t1 = t" by (simp_all add: tail_read_def)
    with Cons.IH [of t ds1 prev W] Cons.prems None ds show ?thesis by (simp add: whole_Nil)
  next
    case (Some g)
    with Cons.prems(3) obtain new where g: "g = prev @ new" "grows g fs" by (auto elim: prefixE)
    define x where "x = td_partial t @ new"
    have t1: "d = take (usable x) x" "td_partial t1 = drop (usable x) x" "td_offset t1 = length g" "td_record_size t1 = td_record_size t"
      using r Some g Cons.prems(1,4) by (auto simp: tail_read_def Let_def x_def)
    have "x = d @ td_partial t1" unfolding t1(1,2) by (rule append_take_drop_id [symmetric])
    moreover have "g = W @ x" using g(1) Cons.prems(5) by (simp add: x_def)
    ultimately have "g = (W @ d) @ td_partial t1" by simp
    with Cons.IH [of t1 ds1 g "W @ d"] ds g(2) t1 Cons.prems(1) rest_short [of _ x] whole_taken [of x] Some
    show ?thesis by simp
  qed
qed

lemma polls_from_start:
  assumes "tail_usable n = usable" and "tail_polls files (new_tail n) = (ds, t)" and "grows [] files"
  shows "last_seen [] files = concat ds @ td_partial t" and "list_all whole ds" and "whole (last_seen [] files) \<Longrightarrow> td_partial t = []"
proof -
  have f: "last_seen [] files = [] @ concat ds @ td_partial t \<and> list_all whole ds
    \<and> (\<forall>n. 0 < n \<and> n \<le> length (td_partial t) \<longrightarrow> \<not> whole (take n (td_partial t)))"
    by (rule polls_deliver [of "new_tail n"]) (use assms in \<open>simp_all add: new_tail_def\<close>)
  then show l: "last_seen [] files = concat ds @ td_partial t" and w: "list_all whole ds" by simp_all
  assume "whole (last_seen [] files)"
  then have "whole (td_partial t)" using l whole_append [OF whole_concat [OF w]] by simp
  with f have "\<not> 0 < length (td_partial t)" by (metis order_refl take_all)
  then show "td_partial t = []" by simp
qed

end

section \<open>What the receiver logs\<close>

definition arrivals :: "recv_turn list \<Rightarrow> (bytes \<times> int) list" where
  "arrivals turns = concat (map vt_data (takeWhile (\<lambda>t. \<not> vt_over t) turns))"

definition logged :: "bytes \<times> int \<Rightarrow> bytes list" where
  "logged d = (case log_packet (take RECV_BYTES (fst d)) (snd d) of Inr (Some r) \<Rightarrow> [r] | _ \<Rightarrow> [])"

definition took :: "receiver \<Rightarrow> (bytes \<times> int) list \<Rightarrow> receiver \<Rightarrow> bool" where
  "took s ds s' \<longleftrightarrow> rv_log s' @ rv_pending s' = rv_log s @ rv_pending s @ concat (concat (map logged ds))
     \<and> rv_received s' = rv_received s + int (length (concat (map logged ds)))
     \<and> rv_received s' + rv_malformed s' = rv_received s + rv_malformed s + int (length ds)"

lemma took_trans: "took s ds s1 \<Longrightarrow> took s1 es s2 \<Longrightarrow> took s (ds @ es) s2"
  by (simp add: took_def)

lemma receive_took: "receive d s = Ok s' \<Longrightarrow> took s [d] s'"
proof -
  assume r: "receive d s = Ok s'"
  then obtain o' where o: "log_packet (take RECV_BYTES (fst d)) (snd d) = Ok o'" by (auto simp: receive_def result_simps)
  with r show ?thesis by (cases o') (auto simp: receive_def result_simps took_def logged_def)
qed

lemma receive_all_took: "foldR receive ds s = Ok s' \<Longrightarrow> took s ds s'"
proof (induction ds arbitrary: s)
  case Nil
  then show ?case by (simp add: took_def)
next
  case (Cons d ds)
  then obtain s1 where "receive d s = Ok s1" "foldR receive ds s1 = Ok s'" by (auto simp: result_simps)
  with took_trans [OF receive_took [OF this(1)] Cons.IH] show ?case by simp
qed

lemma flush_took: "took s [] (flush_due now s)"
  by (simp add: took_def flush_due_def)

lemma receive_loop_took: "receive_loop ts s = Ok s' \<Longrightarrow> took s (arrivals ts) s'"
proof (induction ts arbitrary: s)
  case Nil
  then show ?case by (simp add: took_def arrivals_def)
next
  case (Cons t ts)
  show ?case
  proof (cases "vt_over t")
    case True
    with Cons.prems show ?thesis by (simp add: took_def arrivals_def)
  next
    case False
    with Cons.prems obtain s1 where s1: "foldR receive (vt_data t) s = Ok s1" "receive_loop ts (flush_due (vt_now t) s1) = Ok s'"
      by (auto simp: result_simps)
    from took_trans [OF took_trans [OF receive_all_took [OF s1(1)] flush_took] Cons.IH [OF s1(2)]] False
    show ?thesis by (simp add: arrivals_def)
  qed
qed

lemma run_receiver_took:
  assumes "run_receiver log0 start turns = Ok s"
  shows "rv_log s = log0 @ concat (concat (map logged (arrivals turns)))"
    and "rv_received s = int (length (concat (map logged (arrivals turns))))"
    and "rv_received s + rv_malformed s = int (length (arrivals turns))"
proof -
  obtain s1 where "receive_loop turns \<lparr>rv_log = log0, rv_pending = [], rv_received = 0, rv_malformed = 0, rv_last_flush = start\<rparr> = Ok s1"
    and s: "s = (if rv_pending s1 \<noteq> [] then s1\<lparr>rv_log := rv_log s1 @ rv_pending s1\<rparr> else s1)"
    using assms by (auto simp: run_receiver_def result_simps)
  from receive_loop_took [OF this(1)] s
  show "rv_log s = log0 @ concat (concat (map logged (arrivals turns)))"
    "rv_received s = int (length (concat (map logged (arrivals turns))))"
    "rv_received s + rv_malformed s = int (length (arrivals turns))"
    by (auto simp: took_def split: if_splits)
qed

section \<open>A packet's record\<close>

lemma record_sizes: "calcsize HEADER = 20" "calcsize RECORD = 24"
  by (simp_all add: calcsize_def HEADER_def RECORD_def code_size_def)

lemma to_q_ok: "to_q i = Ok q \<Longrightarrow> of_q q = i \<and> 0 \<le> q \<and> q < 2 ^ 64 \<and> - (2 ^ 63) \<le> i \<and> i < 2 ^ 63"
proof -
  assume "to_q i = Ok q"
  then have i: "- (2 ^ 63) \<le> i" "i < 2 ^ 63" "q = i mod 2 ^ 64" by (auto simp: to_q_def split: if_splits)
  show ?thesis
  proof (cases "0 \<le> i")
    case True
    then show ?thesis using i by (simp add: of_q_def)
  next
    case False
    then have "i mod 2 ^ 64 = i + 2 ^ 64" using i mod_pos_pos_trivial [of "i + 2 ^ 64" "2 ^ 64"] by simp
    then show ?thesis using i False by (simp add: of_q_def)
  qed
qed

lemma packet_logged:
  assumes "packet size_bytes fid seq now_ns = Ok p" and "- (2 ^ 63) \<le> rx" and "rx < 2 ^ 63"
  shows "\<exists>r. logged (p, rx) = [r] \<and> rx_records r = Ok [(fid, seq, now_ns, rx)] \<and> length r = 24"
proof -
  obtain q h where q: "to_q now_ns = Ok q" and h: "struct_pack HEADER [VStr MAGIC_SB, VInt fid, VInt 0, VInt seq, VInt q] = Ok h"
    and p: "p = h @ replicate (nat size_bytes - 20) 0"
    using assms(1) by (auto simp: packet_def result_simps record_sizes)
  define z where "z = take (RECV_BYTES - 20) (replicate (nat size_bytes - 20) 0 :: bytes)"
  have len: "length h = 20" using unpack_pack [OF h] record_sizes by simp
  then have t: "take RECV_BYTES p = h @ z" by (simp add: p RECV_BYTES_def z_def)
  have "wire_values HEADER [VStr MAGIC_SB, VInt fid, VInt 0, VInt seq, VInt q] = [VStr MAGIC_SB, VInt fid, VInt 0, VInt seq, VInt q]"
    by (simp add: HEADER_def is_pad_def wire_value_def MAGIC_SB_def pad_chars_def)
  with unpack_pack [OF h, of z]
  have w: "unpack_codes HEADER (h @ z) = [VStr MAGIC_SB, VInt fid, VInt 0, VInt seq, VInt q]" by simp
  obtain qr where qr: "to_q rx = Ok qr" using assms(2,3) by (simp add: to_q_def)
  have tx: "to_q (of_q q) = Ok q" using q to_q_ok [OF q] by simp
  have fields: "0 \<le> fid" "fid < 256 ^ 2" "0 \<le> seq" "seq < 256 ^ 4"
    using h by (auto simp: HEADER_def result_simps pack_one_def pack_uint_def split: if_splits)
  have "0 \<le> q" "q < 256 ^ 8" "0 \<le> qr" "qr < 256 ^ 8" using to_q_ok [OF q] to_q_ok [OF qr] by simp_all
  with fields obtain r where r: "struct_pack RECORD [VInt fid, VInt 0, VInt seq, VInt q, VInt qr] = Ok r"
    by (simp add: RECORD_def pack_one_def pack_uint_def result_simps)
  have lr: "length r = 24" using unpack_pack [OF r] record_sizes by simp
  have "log_packet (h @ z) rx = Ok (Some r)"
    using len w tx qr r by (simp add: log_packet_def record_sizes struct_unpack_from_def result_simps)
  then have l: "logged (p, rx) = [r]" by (simp add: logged_def t)
  have "wire_values RECORD [VInt fid, VInt 0, VInt seq, VInt q, VInt qr] = [VInt fid, VInt 0, VInt seq, VInt q, VInt qr]"
    by (simp add: RECORD_def is_pad_def wire_value_def)
  with unpack_pack [OF r, of "[]"] lr
  have u: "struct_unpack RECORD r = Ok [VInt fid, VInt 0, VInt seq, VInt q, VInt qr]" by (simp add: struct_unpack_def record_sizes)
  have "r \<noteq> []" using lr by auto
  have "rx_records r = Ok [(fid, seq, now_ns, rx)]"
    using \<open>r \<noteq> []\<close> lr u to_q_ok [OF q] to_q_ok [OF qr]
    by (subst rx_records.simps) (simp add: result_simps rx_record_of_def rx_records.simps [of "[]"])
  with l lr show ?thesis by blast
qed

lemma rx_records_append:
  assumes "length a mod 24 = 0" and "rx_records (a @ b) = Ok xs"
  shows "\<exists>us vs. rx_records a = Ok us \<and> rx_records b = Ok vs \<and> xs = us @ vs"
  using assms
proof (induction a arbitrary: xs rule: measure_induct_rule [where f = length])
  case (less a)
  show ?case
  proof (cases "a = []")
    case True
    with less.prems show ?thesis by (simp add: rx_records.simps [of "[]"])
  next
    case False
    then have len: "24 \<le> length a" using less.prems(1) by (cases "length a < 24") auto
    with less.prems(2) False obtain vs r rs where x: "struct_unpack RECORD (take 24 a) = Ok vs" "rx_record_of vs = Some r"
      "rx_records (drop 24 a @ b) = Ok rs" "xs = r # rs"
      by (subst (asm) rx_records.simps) (auto simp: result_simps split: option.splits)
    have m: "length (drop 24 a) mod 24 = 0" using less.prems(1) len by (simp add: le_mod_geq)
    have l: "length (drop 24 a) < length a" using len by simp
    obtain us ws where u: "rx_records (drop 24 a) = Ok us" "rx_records b = Ok ws" "rs = us @ ws"
      using less.IH [OF l m x(3)] by (elim exE conjE)
    with x False show ?thesis by (subst rx_records.simps) (simp add: result_simps)
  qed
qed

lemma rx_records_of_logged:
  "list_all2 (\<lambda>r x. rx_records r = Ok [x] \<and> length r = 24) rs xs \<Longrightarrow> rx_records (concat rs) = Ok xs"
proof (induction rule: list_all2_induct)
  case Nil
  then show ?case by (simp add: rx_records.simps)
next
  case (Cons r rs x xs)
  then have "r \<noteq> []" by auto
  have d: "take 24 (r @ concat rs) = r" "drop 24 (r @ concat rs) = concat rs" "take 24 r = r" "drop 24 r = []" using Cons by simp_all
  from \<open>r \<noteq> []\<close> have a: "rx_records (r @ concat rs) = bindR (struct_unpack RECORD r) (\<lambda>vs. case rx_record_of vs of None \<Rightarrow> Err StructError
      | Some y \<Rightarrow> bindR (rx_records (concat rs)) (\<lambda>rs. Ok (y # rs)))"
    by (subst rx_records.simps) (simp only: d append_is_Nil_conv simp_thms if_False)
  have "rx_records r = bindR (struct_unpack RECORD r) (\<lambda>vs. case rx_record_of vs of None \<Rightarrow> Err StructError
      | Some y \<Rightarrow> bindR (rx_records []) (\<lambda>rs. Ok (y # rs)))"
    using \<open>r \<noteq> []\<close> by (subst rx_records.simps) (simp only: d simp_thms if_False)
  with Cons have "bindR (struct_unpack RECORD r) (\<lambda>vs. case rx_record_of vs of None \<Rightarrow> Err StructError
      | Some y \<Rightarrow> bindR (rx_records []) (\<lambda>rs. Ok (y # rs))) = Ok [x]" by simp
  then have "\<exists>vs. struct_unpack RECORD r = Ok vs \<and> rx_record_of vs = Some x"
    by (auto simp: result_simps rx_records.simps [of "[]"] split: option.splits)
  with a Cons show ?case by (auto simp: result_simps)
qed

lemma rx_records_chunks:
  assumes "list_all whole_records ds" and "rx_records (concat ds) = Ok xs"
  shows "\<exists>rss. map rx_records ds = map Inr rss \<and> concat rss = xs"
  using assms
proof (induction ds arbitrary: xs)
  case Nil
  then show ?case by (simp add: rx_records.simps)
next
  case (Cons d ds)
  then obtain us vs where u: "rx_records d = Ok us" "rx_records (concat ds) = Ok vs" "xs = us @ vs"
    using rx_records_append [of d "concat ds" xs] by (auto simp: whole_records_def)
  from Cons.IH [OF _ u(2)] Cons.prems(1) obtain rss where "map rx_records ds = map Inr rss" "concat rss = vs" by auto
  with u show ?case by (intro exI [of _ "us # rss"]) simp
qed

text \<open>The packets of a run as they were sent (size, flow id, sequence number, time), and the datagrams that arrived.\<close>

definition arrived_as :: "int \<times> int \<times> int \<times> int \<Rightarrow> bytes \<times> int \<Rightarrow> bool" where
  "arrived_as x d = (case (x, d) of ((size_bytes, fid, seq, now_ns), (p, rx)) \<Rightarrow>
     packet size_bytes fid seq now_ns = Ok p \<and> - (2 ^ 63) \<le> rx \<and> rx < 2 ^ 63)"

definition seen_as :: "int \<times> int \<times> int \<times> int \<Rightarrow> bytes \<times> int \<Rightarrow> rx_record" where
  "seen_as x d = (case x of (size_bytes, fid, seq, now_ns) \<Rightarrow> (fid, seq, now_ns, snd d))"

lemma arrivals_logged:
  assumes "list_all2 arrived_as sent ds"
  shows "list_all2 (\<lambda>r x. rx_records r = Ok [x] \<and> length r = 24) (concat (map logged ds)) (map2 seen_as sent ds)"
  using assms
proof (induction rule: list_all2_induct)
  case (Cons x xs d ds)
  obtain size_bytes fid seq now_ns where x: "x = (size_bytes, fid, seq, now_ns)" by (metis prod_cases4)
  obtain p rx where d: "d = (p, rx)" by (cases d)
  have a: "packet size_bytes fid seq now_ns = Ok p" "- (2 ^ 63) \<le> rx" "rx < 2 ^ 63" using Cons.hyps(1) by (simp_all add: arrived_as_def x d)
  obtain r where "logged (p, rx) = [r]" "rx_records r = Ok [(fid, seq, now_ns, rx)]" "length r = 24"
    using packet_logged [OF a] by blast
  with Cons.IH show ?case by (simp add: x d seen_as_def)
qed simp

text \<open>C7. Between the sender and the analyzer no packet is lost, doubled or mixed up: whenever the analyzer polls the
  log, at whatever length it then has (in the middle of a record too), the records it gets, over all polls up to the
  end of the log, are those of the packets that arrived, in order, with the flow id, the sequence number and the
  send time of the sender and the receiver's time.\<close>

theorem analyzer_sees_each_packet:
  assumes "run_receiver [] start turns = Ok s" and "list_all2 arrived_as sent (arrivals turns)"
    and "grows [] files" and "last_seen [] files = rv_log s" and "tail_polls files (new_tail (calcsize RECORD)) = (ds, t)"
  shows "\<exists>rss. map rx_records ds = map Inr rss \<and> concat rss = map2 seen_as sent (arrivals turns)
    \<and> td_partial t = [] \<and> rv_received s = int (length sent) \<and> rv_malformed s = 0"
proof -
  note l = arrivals_logged [OF assms(2)]
  have n: "length (concat (map logged (arrivals turns))) = length sent" "length (arrivals turns) = length sent"
    using list_all2_lengthD [OF l] list_all2_lengthD [OF assms(2)] by simp_all
  have log: "rx_records (rv_log s) = Ok (map2 seen_as sent (arrivals turns))"
    using run_receiver_took(1) [OF assms(1)] rx_records_of_logged [OF l] by simp
  have "whole_records (concat rs)" if "list_all2 (\<lambda>r x. rx_records r = Ok [x] \<and> length r = 24) rs xs" for rs and xs :: "rx_record list"
    using that by (induction rule: list_all2_induct) (simp_all add: whole_records_def)
  from this [OF l] have w: "whole_records (rv_log s)" using run_receiver_took(1) [OF assms(1)] by simp
  note p = rec.polls_from_start [OF refl assms(5) [unfolded record_sizes] assms(3)]
  have "td_partial t = []" using p(3) w assms(4) by simp
  moreover have "concat ds = rv_log s" using p(1) assms(4) calculation by simp
  moreover from this obtain rss where "map rx_records ds = map Inr rss" "concat rss = map2 seen_as sent (arrivals turns)"
    using rx_records_chunks [OF p(2)] log by metis
  ultimately show ?thesis using run_receiver_took(2,3) [OF assms(1)] n by auto
qed

text \<open>One packet, received in the first turn; the analyzer polls before the log exists, in the middle of the record, and
  at the end.\<close>

definition demo_recv :: "bytes \<Rightarrow> recv_turn list" where
  "demo_recv p = [\<lparr>vt_over = False, vt_data = [(p, 456)], vt_now = Fin 0\<rparr>, \<lparr>vt_over = True, vt_data = [], vt_now = Fin 1\<rparr>]"

theorem analyzer_sees_each_packet_witness:
  "case packet 64 4096 7 123 of
      Inl e \<Rightarrow> False
    | Inr p \<Rightarrow>
        (case run_receiver [] (Fin 0) (demo_recv p) of
           Inl e \<Rightarrow> False
         | Inr s \<Rightarrow>
             (case tail_polls [None, Some (take 10 (rv_log s)), Some (rv_log s)] (new_tail (calcsize RECORD)) of
                (ds, t) \<Rightarrow> \<exists>rss. map rx_records ds = map Inr rss \<and> concat rss = [(4096, 7, 123, 456)]))"
proof -
  obtain p where p: "packet 64 4096 7 123 = Ok p"
    by (simp add: packet_def to_q_def HEADER_def pack_one_def pack_uint_def result_simps MAGIC_SB_def)
  obtain r where "logged (p, 456) = [r]" using packet_logged [OF p, of 456] by auto
  then have "log_packet (take RECV_BYTES p) 456 = Ok (Some r)" by (auto simp: logged_def split: sum.splits option.splits)
  then obtain s where s: "run_receiver [] (Fin 0) (demo_recv p) = Ok s"
    by (simp add: run_receiver_def demo_recv_def receive_def result_simps)
  have a: "arrivals (demo_recv p) = [(p, 456)]" by (simp add: arrivals_def demo_recv_def)
  have d: "list_all2 arrived_as [(64, 4096, 7, 123)] (arrivals (demo_recv p))" using p by (simp add: a arrived_as_def)
  obtain ds t where t: "tail_polls [None, Some (take 10 (rv_log s)), Some (rv_log s)] (new_tail (calcsize RECORD)) = (ds, t)"
    by (metis prod.exhaust)
  have "\<exists>rss. map rx_records ds = map Inr rss \<and> concat rss = [(4096, 7, 123, 456)]"
    using analyzer_sees_each_packet [OF s d _ _ t] take_is_prefix [of 10 "rv_log s"] by (auto simp: a seen_as_def)
  with p s t show ?thesis by simp
qed

end
