(* ===== verification/BenchSlots.thy ===== *)
theory BenchSlots
  imports BenchLogs
begin

text \<open>
  The accumulators a run of the scheduler benchmark keeps per cell, \<open>CellSched\<close> of
  \<^verbatim>\<open>use_cases/scheduler_benchmark/analyze.py\<close>, and the part of \<open>RunAnalyzer\<close> that feeds them from the gNB's
  log. What the regular expressions make of a line is the parameter \<open>classify\<close>: a \<open>log_line\<close> holds their groups.
\<close>

section \<open>Lines of the log\<close>

record dl_entry =
  de_rnti :: string
  de_rb0 :: int
  de_rb1 :: int
  de_newtx :: bool
  de_tbs :: int
  de_bo :: "int option"

record ul_entry =
  ule_rnti :: string
  ule_rb0 :: int
  ule_rb1 :: int
  ule_newtx :: bool
  ule_tbs :: int

record slot_line =
  sl_wall_ns :: int
  sl_sfn :: int
  sl_slot :: int
  sl_decision_us :: pyfloat
  sl_dl :: "dl_entry list"
  sl_ul :: "ul_entry list"
  sl_common :: "(int \<times> int) list"

datatype log_line = NofCrbs int | SlotDecisions slot_line | OtherLine

section \<open>The accumulators\<close>

record ue_segment =
  us_dl_prb :: int
  us_ul_prb :: int
  us_dl_newtx_bytes :: int
  us_dl_retx_bytes :: int
  us_ul_newtx_bytes :: int
  us_ul_retx_bytes :: int
  us_dl_grants :: int
  us_ul_grants :: int
  us_dl_wait_ms :: "pyfloat list"
  us_ul_gap_ms :: "pyfloat list"

record segment =
  sg_dl_prb :: int
  sg_ul_prb :: int
  sg_dl_common_prb :: int
  sg_decision_us :: "pyfloat list"
  sg_ue :: "(string \<times> ue_segment) list"
  sg_first_slot :: "int option"
  sg_last_slot :: "int option"

record recent_slot =
  rs_abs_slot :: int
  rs_wall_ns :: int
  rs_decision_us :: pyfloat
  rs_dl :: "(string \<times> int \<times> int \<times> bool) list"
  rs_ul :: "(string \<times> int \<times> int \<times> bool) list"

record cell_sched =
  cs_nof_prb :: int
  cs_unwrap_last :: "int option"
  cs_unwrap_base :: int
  cs_slot_samples :: "(int \<times> int) list"
  cs_seg :: "(int \<times> segment) list"
  cs_decision_us_all :: "pyfloat list"
  cs_last_dl_newtx :: "(string \<times> (int \<times> int)) list"
  cs_last_ul_newtx :: "(string \<times> int) list"
  cs_lines :: int
  cs_recent :: "recent_slot list"

definition new_cell :: cell_sched where
  "new_cell = \<lparr>cs_nof_prb = 106, cs_unwrap_last = None, cs_unwrap_base = 0, cs_slot_samples = [], cs_seg = [],
     cs_decision_us_all = [], cs_last_dl_newtx = [], cs_last_ul_newtx = [], cs_lines = 0, cs_recent = []\<rparr>"

definition new_segment :: segment where
  "new_segment = \<lparr>sg_dl_prb = 0, sg_ul_prb = 0, sg_dl_common_prb = 0, sg_decision_us = [], sg_ue = [],
     sg_first_slot = None, sg_last_slot = None\<rparr>"

definition new_ue_segment :: ue_segment where
  "new_ue_segment = \<lparr>us_dl_prb = 0, us_ul_prb = 0, us_dl_newtx_bytes = 0, us_dl_retx_bytes = 0, us_ul_newtx_bytes = 0,
     us_ul_retx_bytes = 0, us_dl_grants = 0, us_ul_grants = 0, us_dl_wait_ms = [], us_ul_gap_ms = []\<rparr>"

text \<open>\<open>segment\<close> and \<open>ue_segment\<close> make the entry they are asked for; the code changes what they return in place.\<close>

definition segment_of :: "int \<Rightarrow> cell_sched \<Rightarrow> segment" where
  "segment_of k s = (case map_of (cs_seg s) k of None \<Rightarrow> new_segment | Some g \<Rightarrow> g)"

definition in_segment :: "int \<Rightarrow> (segment \<Rightarrow> segment) \<Rightarrow> cell_sched \<Rightarrow> cell_sched" where
  "in_segment k f s = s\<lparr>cs_seg := AList.update k (f (segment_of k s)) (cs_seg s)\<rparr>"

definition ue_of :: "string \<Rightarrow> segment \<Rightarrow> ue_segment" where
  "ue_of ue g = (case map_of (sg_ue g) ue of None \<Rightarrow> new_ue_segment | Some u \<Rightarrow> u)"

definition in_ue :: "string \<Rightarrow> (ue_segment \<Rightarrow> ue_segment) \<Rightarrow> segment \<Rightarrow> segment" where
  "in_ue ue f g = g\<lparr>sg_ue := AList.update ue (f (ue_of ue g)) (sg_ue g)\<rparr>"

section \<open>Slot numbers\<close>

definition SLOT_MODULUS :: int where "SLOT_MODULUS = 1024 * 10"
definition SLOTS_PER_SECOND :: int where "SLOTS_PER_SECOND = 1000"
definition RECENT_SLOTS :: nat where "RECENT_SLOTS = 240"

definition abs_slot :: "int \<Rightarrow> int \<Rightarrow> cell_sched \<Rightarrow> int \<times> cell_sched" where
  "abs_slot sfn slot s =
     (let raw = sfn * 10 + slot;
          wrapped = (case cs_unwrap_last s of None \<Rightarrow> False | Some l \<Rightarrow> raw < l - SLOT_MODULUS div 2);
          late = (case cs_unwrap_last s of None \<Rightarrow> False | Some l \<Rightarrow> raw > l + SLOT_MODULUS div 2)
      in if wrapped
         then (raw + (cs_unwrap_base s + SLOT_MODULUS),
               s\<lparr>cs_unwrap_base := cs_unwrap_base s + SLOT_MODULUS, cs_unwrap_last := Some raw\<rparr>)
         else if late then (raw + cs_unwrap_base s - SLOT_MODULUS, s)
         else (raw + cs_unwrap_base s, s\<lparr>cs_unwrap_last := Some raw\<rparr>))"

text \<open>The slots between two times, interpolated between the samples; \<open>bisect_left\<close> is the number of earlier samples.\<close>

definition slot_at :: "(int \<times> int) list \<Rightarrow> int \<Rightarrow> pyfloat option result" where
  "slot_at samples w =
     (let i = length (takeWhile (\<lambda>x. fst x < w) samples)
      in if i = 0 then Ok (if w < fst (samples ! 0) then None else Some (fl (snd (samples ! 0))))
         else if length samples \<le> i then Ok None
         else let t0 = fst (samples ! (i - 1)); s0 = snd (samples ! (i - 1)); t1 = fst (samples ! i); s1 = snd (samples ! i)
              in if t1 = t0 then Ok (Some (fl s1))
                 else bindR (int_div ((s1 - s0) * (w - t0)) (t1 - t0)) (\<lambda>q. Ok (Some (fadd (fl s0) q))))"

definition slots_between :: "int \<Rightarrow> int \<Rightarrow> cell_sched \<Rightarrow> pyfloat option result" where
  "slots_between w0 w1 s =
     (if length (cs_slot_samples s) < 2 then Ok None
      else bindR (slot_at (cs_slot_samples s) w0) (\<lambda>a. bindR (slot_at (cs_slot_samples s) w1) (\<lambda>b.
        case (a, b) of (Some a, Some b) \<Rightarrow> Ok (Some (fmax (Fin 0) (fsub b a))) | _ \<Rightarrow> Ok None)))"

section \<open>Grants\<close>

definition slots_ms :: "int \<Rightarrow> pyfloat" where
  "slots_ms n = fquot (fmul (fl n) (Fin 1000)) (fl SLOTS_PER_SECOND)"

definition add_dl :: "dl_entry \<Rightarrow> ue_segment \<Rightarrow> ue_segment" where
  "add_dl d u = u\<lparr>us_dl_prb := us_dl_prb u + (de_rb1 d - de_rb0 d), us_dl_grants := us_dl_grants u + 1,
     us_dl_newtx_bytes := us_dl_newtx_bytes u + (if de_newtx d then de_tbs d else 0),
     us_dl_retx_bytes := us_dl_retx_bytes u + (if de_newtx d then 0 else de_tbs d)\<rparr>"

definition track_dl :: "(string \<times> string) list \<Rightarrow> int option \<Rightarrow> int \<Rightarrow> dl_entry \<Rightarrow> cell_sched \<Rightarrow> cell_sched" where
  "track_dl rnti k slot d s =
     (case map_of rnti (de_rnti d) of
        None \<Rightarrow> s
      | Some ue \<Rightarrow>
          let s = (case k of None \<Rightarrow> s
             | Some k \<Rightarrow> in_segment k (\<lambda>g. in_ue ue (add_dl d) (g\<lparr>sg_dl_prb := sg_dl_prb g + (de_rb1 d - de_rb0 d)\<rparr>)) s)
          in if de_newtx d
             then let s = (case (map_of (cs_last_dl_newtx s) ue, k) of
                      (Some (p, bo), Some k) \<Rightarrow>
                        if 0 < bo \<and> fle (Fin 0) (slots_ms (slot - p))
                        then in_segment k (in_ue ue (\<lambda>u. u\<lparr>us_dl_wait_ms := us_dl_wait_ms u @ [slots_ms (slot - p)]\<rparr>)) s
                        else s
                    | _ \<Rightarrow> s)
                  in s\<lparr>cs_last_dl_newtx := AList.update ue (slot, case de_bo d of None \<Rightarrow> 0 | Some b \<Rightarrow> b) (cs_last_dl_newtx s)\<rparr>
             else s)"

definition add_ul :: "ul_entry \<Rightarrow> ue_segment \<Rightarrow> ue_segment" where
  "add_ul e u = u\<lparr>us_ul_prb := us_ul_prb u + (ule_rb1 e - ule_rb0 e), us_ul_grants := us_ul_grants u + 1,
     us_ul_newtx_bytes := us_ul_newtx_bytes u + (if ule_newtx e then ule_tbs e else 0),
     us_ul_retx_bytes := us_ul_retx_bytes u + (if ule_newtx e then 0 else ule_tbs e)\<rparr>"

definition track_ul :: "(string \<times> string) list \<Rightarrow> int option \<Rightarrow> int \<Rightarrow> ul_entry \<Rightarrow> cell_sched \<Rightarrow> cell_sched" where
  "track_ul rnti k slot e s =
     (case map_of rnti (ule_rnti e) of
        None \<Rightarrow> s
      | Some ue \<Rightarrow>
          let s = (case k of None \<Rightarrow> s
             | Some k \<Rightarrow> in_segment k (\<lambda>g. in_ue ue (add_ul e) (g\<lparr>sg_ul_prb := sg_ul_prb g + (ule_rb1 e - ule_rb0 e)\<rparr>)) s)
          in if ule_newtx e
             then let s = (case (map_of (cs_last_ul_newtx s) ue, k) of
                      (Some p, Some k) \<Rightarrow>
                        if fle (Fin 0) (slots_ms (slot - p))
                        then in_segment k (in_ue ue (\<lambda>u. u\<lparr>us_ul_gap_ms := us_ul_gap_ms u @ [slots_ms (slot - p)]\<rparr>)) s
                        else s
                    | _ \<Rightarrow> s)
                  in s\<lparr>cs_last_ul_newtx := AList.update ue slot (cs_last_ul_newtx s)\<rparr>
             else s)"

definition track_gaps :: "(string \<times> string) list \<Rightarrow> int option \<Rightarrow> int \<Rightarrow> slot_line \<Rightarrow> cell_sched \<Rightarrow> cell_sched" where
  "track_gaps rnti k slot l s = fold (track_ul rnti k slot) (sl_ul l) (fold (track_dl rnti k slot) (sl_dl l) s)"

section \<open>The log\<close>

text \<open>The anchor of the grid timeline and the length of the run decide the segment of a time.\<close>

record run_clock =
  rc_anchor_ms :: "int option"
  rc_measure_seconds :: int

definition segment_of_ms :: "run_clock \<Rightarrow> pyfloat \<Rightarrow> int option result" where
  "segment_of_ms c unix_ms =
     (case rc_anchor_ms c of
        None \<Rightarrow> Ok None
      | Some a \<Rightarrow> bindR (ffloor (fquot (fsub unix_ms (fl a)) (Fin 1000))) (\<lambda>k.
          Ok (if 0 \<le> k \<and> k < rc_measure_seconds c then Some k else None)))"

definition owner :: "(string \<times> string) list \<Rightarrow> string \<Rightarrow> string" where
  "owner rnti r = (case map_of rnti r of None \<Rightarrow> ''other'' | Some ue \<Rightarrow> ue)"

definition recent_of :: "(string \<times> string) list \<Rightarrow> int \<Rightarrow> slot_line \<Rightarrow> recent_slot" where
  "recent_of rnti slot l =
     \<lparr>rs_abs_slot = slot, rs_wall_ns = sl_wall_ns l, rs_decision_us = sl_decision_us l,
      rs_dl = map (\<lambda>d. (owner rnti (de_rnti d), de_rb0 d, de_rb1 d, de_newtx d)) (sl_dl l)
        @ map (\<lambda>(rb0, rb1). (''common'', rb0, rb1, True)) (sl_common l),
      rs_ul = map (\<lambda>e. (owner rnti (ule_rnti e), ule_rb0 e, ule_rb1 e, ule_newtx e)) (sl_ul l)\<rparr>"

definition note_decision :: "int \<Rightarrow> slot_line \<Rightarrow> segment \<Rightarrow> segment" where
  "note_decision slot l g = g\<lparr>sg_decision_us := sg_decision_us g @ [sl_decision_us l],
     sg_first_slot := Some (case sg_first_slot g of None \<Rightarrow> slot | Some f \<Rightarrow> min f slot),
     sg_last_slot := Some (case sg_last_slot g of None \<Rightarrow> slot | Some f \<Rightarrow> max f slot),
     sg_dl_common_prb := sg_dl_common_prb g + sum_list (map (\<lambda>(rb0, rb1). rb1 - rb0) (sl_common l))\<rparr>"

definition slot_decisions :: "run_clock \<Rightarrow> (string \<times> string) list \<Rightarrow> slot_line \<Rightarrow> cell_sched \<Rightarrow> cell_sched result" where
  "slot_decisions c rnti l s =
     (case abs_slot (sl_sfn l) (sl_slot l) (s\<lparr>cs_lines := cs_lines s + 1\<rparr>) of
        (slot, s) \<Rightarrow>
          let s = (if cs_slot_samples s = [] \<or> 50000000 \<le> sl_wall_ns l - fst (last (cs_slot_samples s))
                   then s\<lparr>cs_slot_samples := cs_slot_samples s @ [(sl_wall_ns l, slot)]\<rparr> else s)
          in bindR (segment_of_ms c (fquot (fl (sl_wall_ns l)) (Fin 1000000))) (\<lambda>k.
             let s = s\<lparr>cs_recent := deque_append RECENT_SLOTS (recent_of rnti slot l) (cs_recent s)\<rparr>
             in Ok (case k of
                  None \<Rightarrow> track_gaps rnti None slot l s
                | Some k \<Rightarrow> track_gaps rnti (Some k) slot l
                    ((in_segment k (note_decision slot l) s)
                       \<lparr>cs_decision_us_all := cs_decision_us_all s @ [ieee_round binary32 (sl_decision_us l)]\<rparr>))))"

definition sched_line :: "run_clock \<Rightarrow> (string \<times> string) list \<Rightarrow> log_line \<Rightarrow> cell_sched \<Rightarrow> cell_sched result" where
  "sched_line c rnti l s =
     (case l of NofCrbs n \<Rightarrow> Ok (s\<lparr>cs_nof_prb := n\<rparr>) | SlotDecisions l \<Rightarrow> slot_decisions c rnti l s | OtherLine \<Rightarrow> Ok s)"

definition poll_sched ::
  "(string \<Rightarrow> log_line) \<Rightarrow> run_clock \<Rightarrow> (string \<times> string) list \<Rightarrow> string list \<Rightarrow> cell_sched \<Rightarrow> cell_sched result" where
  "poll_sched classify c rnti lines s = foldR (\<lambda>l. sched_line c rnti (classify l)) lines s"

section \<open>Unwrapped slot numbers are true\<close>

text \<open>The slot counter of the log wraps every 10.24 s. The unwrapped number of every line is the true slot, counted
  from the lap the log starts in, as long as no line is half a quarter of a lap away from the latest one.\<close>

fun abs_slots :: "(int \<times> int) list \<Rightarrow> cell_sched \<Rightarrow> int list \<times> cell_sched" where
  "abs_slots [] s = ([], s)"
| "abs_slots (x # xs) s = (case abs_slot (fst x) (snd x) s of (n, s) \<Rightarrow> case abs_slots xs s of (ns, s) \<Rightarrow> (n # ns, s))"

definition logged_slot :: "int \<Rightarrow> int \<times> int" where
  "logged_slot t = (t mod SLOT_MODULUS div 10, t mod SLOT_MODULUS mod 10)"

lemma abs_slots_Cons:
  "fst (abs_slots (x # xs) s) = fst (abs_slot (fst x) (snd x) s) # fst (abs_slots xs (snd (abs_slot (fst x) (snd x) s)))"
  by (simp split: prod.splits)

text \<open>Each true slot number is within 2560 slots of the greatest before it.\<close>

fun steady_log :: "int \<Rightarrow> int list \<Rightarrow> bool" where
  "steady_log m [] \<longleftrightarrow> True"
| "steady_log m (t # ts) \<longleftrightarrow> \<bar>t - m\<bar> < 2560 \<and> steady_log (max m t) ts"

text \<open>The reference line \<open>r\<close> of the unwrapping.\<close>

definition unwraps :: "int \<Rightarrow> int \<Rightarrow> cell_sched \<Rightarrow> bool" where
  "unwraps lap0 r s \<longleftrightarrow> cs_unwrap_last s = Some (r mod SLOT_MODULUS)
     \<and> cs_unwrap_base s = SLOT_MODULUS * (r div SLOT_MODULUS) - SLOT_MODULUS * lap0"

lemma logged_raw: "fst (logged_slot t) * 10 + snd (logged_slot t) = t mod SLOT_MODULUS"
  by (simp add: logged_slot_def)

lemma abs_slot_true:
  assumes "unwraps lap0 r s" and "\<bar>t - r\<bar> < 5120" and "abs_slot (fst (logged_slot t)) (snd (logged_slot t)) s = (n, s')"
  shows "n = t - SLOT_MODULUS * lap0 \<and> (unwraps lap0 t s' \<or> unwraps lap0 r s' \<and> t < r)"
proof -
  define M :: int where "M = SLOT_MODULUS"
  define a where "a = t div M" define b where "b = r div M"
  have M: "M = 10240" by (simp add: M_def SLOT_MODULUS_def)
  have t: "t = a * M + t mod M" "0 \<le> t mod M" "t mod M < M" and r: "r = b * M + r mod M" "0 \<le> r mod M" "r mod M < M"
    by (simp_all add: a_def b_def M)
  have "a = b \<or> a = b + 1 \<or> a = b - 1" using t r assms(2) unfolding M by linarith
  note raw = abs_slot_def logged_raw Let_def
  have l: "cs_unwrap_last s = Some (r mod SLOT_MODULUS)" and base: "cs_unwrap_base s = M * b - M * lap0"
    using assms(1) by (simp_all add: unwraps_def M_def b_def)
  have h: "SLOT_MODULUS div 2 = 5120" "SLOT_MODULUS = 10240" by (simp_all add: SLOT_MODULUS_def)
  from \<open>a = b \<or> a = b + 1 \<or> a = b - 1\<close> show ?thesis
  proof (elim disjE)
    assume 1: "a = b"
    then have "\<not> t mod 10240 < r mod 10240 - 5120" "\<not> t mod 10240 > r mod 10240 + 5120"
      using t r assms(2) unfolding M by (simp_all add: abs_less_iff)
    with assms(3) l have "n = t mod 10240 + cs_unwrap_base s" "s' = s\<lparr>cs_unwrap_last := Some (t mod 10240)\<rparr>"
      unfolding raw h by simp_all
    with 1 base t show ?thesis by (simp add: unwraps_def h M a_def)
  next
    assume 2: "a = b + 1"
    then have "t mod 10240 < r mod 10240 - 5120" using t r assms(2) unfolding M by (simp add: algebra_simps)
    with assms(3) l have "n = t mod 10240 + (cs_unwrap_base s + 10240)"
      "s' = s\<lparr>cs_unwrap_base := cs_unwrap_base s + 10240, cs_unwrap_last := Some (t mod 10240)\<rparr>"
      unfolding raw h by simp_all
    with 2 base t show ?thesis by (simp add: unwraps_def h M a_def)
  next
    assume 3: "a = b - 1"
    then have "t mod 10240 > r mod 10240 + 5120" and less: "t < r" using t r assms(2) unfolding M by (simp_all add: algebra_simps)
    with assms(3) l have "n = t mod 10240 + cs_unwrap_base s - 10240" "s' = s" unfolding raw h by auto
    with 3 base t less assms(1) show ?thesis by (simp add: h M)
  qed
qed

lemma abs_slots_true:
  assumes "unwraps lap0 r s" and "r \<le> m" and "m - r < 2560" and "steady_log m ts"
  shows "fst (abs_slots (map logged_slot ts) s) = map (\<lambda>t. t - SLOT_MODULUS * lap0) ts"
  using assms
proof (induction ts arbitrary: r m s)
  case (Cons t ts)
  obtain n s1 where n: "abs_slot (fst (logged_slot t)) (snd (logged_slot t)) s = (n, s1)" by (metis prod.exhaust)
  have "\<bar>t - r\<bar> < 5120" using Cons.prems(2-4) unfolding steady_log.simps by linarith
  from abs_slot_true [OF Cons.prems(1) this n] have f: "n = t - SLOT_MODULUS * lap0" "unwraps lap0 t s1 \<or> unwraps lap0 r s1 \<and> t < r"
    by simp_all
  have "fst (abs_slots (map logged_slot ts) s1) = map (\<lambda>t. t - SLOT_MODULUS * lap0) ts"
    using f(2)
  proof
    assume "unwraps lap0 t s1"
    moreover have "t \<le> max m t" "max m t - t < 2560" "steady_log (max m t) ts" using Cons.prems(4) by (auto simp: max_def)
    ultimately show ?thesis by (rule Cons.IH)
  next
    assume u: "unwraps lap0 r s1 \<and> t < r"
    then have "max m t = m" using Cons.prems(2) by simp
    with Cons.IH [of r s1 m] u Cons.prems show ?thesis by simp
  qed
  with n f(1) show ?case by (simp add: abs_slots_Cons del: abs_slots.simps)
qed simp

text \<open>C32. The scheduler log's slot numbers wrap every 10.24 s and its lines may come out of order. However long the log, the
  unwrapped number of each line is its true slot, counted from the start of the lap of the first line, provided no
  line is more than a quarter of a lap from the latest slot logged before it; lines that arrive after a
  wrap but belong before it included.\<close>

theorem unwrapped_slots_true:
  assumes "steady_log t ts"
  shows "fst (abs_slots (map logged_slot (t # ts)) new_cell) = map (\<lambda>t'. t' - SLOT_MODULUS * (t div SLOT_MODULUS)) (t # ts)"
proof -
  have "abs_slot (fst (logged_slot t)) (snd (logged_slot t)) new_cell
      = (t mod SLOT_MODULUS, new_cell\<lparr>cs_unwrap_last := Some (t mod SLOT_MODULUS)\<rparr>)"
    by (simp add: abs_slot_def logged_raw new_cell_def Let_def)
  moreover have "unwraps (t div SLOT_MODULUS) t (new_cell\<lparr>cs_unwrap_last := Some (t mod SLOT_MODULUS)\<rparr>)"
    by (simp add: unwraps_def new_cell_def)
  ultimately show ?thesis
    using abs_slots_true [OF _ order_refl _ assms] by (simp add: abs_slots_Cons minus_mult_div_eq_mod del: abs_slots.simps)
qed

theorem unwrapped_slots_true_witness:
  "fst (abs_slots (map logged_slot [10238, 10241, 10239, 12000]) new_cell) = [10238, 10241, 10239, 12000]"
  using unwrapped_slots_true [of 10238 "[10241, 10239, 12000]"] by (simp add: SLOT_MODULUS_def)

section \<open>The accumulators are sums over the log\<close>

text \<open>A downlink grant of a known UE: its segment, its slot, the UE and the entry.\<close>

type_synonym dl_grant = "int option \<times> int \<times> string \<times> dl_entry"

definition dl_grants_of :: "(string \<times> string) list \<Rightarrow> int option \<Rightarrow> int \<Rightarrow> dl_entry list \<Rightarrow> dl_grant list" where
  "dl_grants_of rnti k slot ds =
     concat (map (\<lambda>d. case map_of rnti (de_rnti d) of None \<Rightarrow> [] | Some ue \<Rightarrow> [(k, slot, ue, d)]) ds)"

definition granted :: "dl_grant \<Rightarrow> int" where
  "granted g = (case g of (k, slot, ue, d) \<Rightarrow> de_rb1 d - de_rb0 d)"

definition in_second :: "int \<Rightarrow> dl_grant list \<Rightarrow> dl_grant list" where
  "in_second k gs = filter (\<lambda>(j, slot, ue, d). j = Some k) gs"

definition of_ue :: "string \<Rightarrow> dl_grant list \<Rightarrow> dl_grant list" where
  "of_ue u gs = filter (\<lambda>(j, slot, ue, d). ue = u) gs"

definition newtx_of :: "string \<Rightarrow> dl_grant list \<Rightarrow> dl_grant list" where
  "newtx_of u gs = filter (\<lambda>(j, slot, ue, d). de_newtx d) (of_ue u gs)"

definition left_over :: "dl_grant \<Rightarrow> int" where
  "left_over g = (case g of (k, slot, ue, d) \<Rightarrow> case de_bo d of None \<Rightarrow> 0 | Some b \<Rightarrow> b)"

text \<open>The waits of a UE: between two grants of new data in a row, where the first left data waiting and the second is in
  the segment.\<close>

definition wait_between :: "int \<Rightarrow> dl_grant \<times> dl_grant \<Rightarrow> pyfloat list" where
  "wait_between k gh = (case gh of (g, h) \<Rightarrow>
     if fst h = Some k \<and> 0 < left_over g \<and> fle (Fin 0) (slots_ms (fst (snd h) - fst (snd g)))
     then [slots_ms (fst (snd h) - fst (snd g))] else [])"

definition dl_waits :: "int \<Rightarrow> string \<Rightarrow> dl_grant list \<Rightarrow> pyfloat list" where
  "dl_waits k u gs = concat (map (wait_between k) (zip (newtx_of u gs) (tl (newtx_of u gs))))"

definition dl_sums :: "dl_grant list \<Rightarrow> cell_sched \<Rightarrow> bool" where
  "dl_sums gs s \<longleftrightarrow>
     (\<forall>k. sg_dl_prb (segment_of k s) = sum_list (map granted (in_second k gs))
       \<and> (\<forall>u. us_dl_prb (ue_of u (segment_of k s)) = sum_list (map granted (in_second k (of_ue u gs)))
            \<and> us_dl_grants (ue_of u (segment_of k s)) = int (length (in_second k (of_ue u gs)))
            \<and> us_dl_newtx_bytes (ue_of u (segment_of k s))
                = sum_list (map (\<lambda>(j, slot, ue, d). de_tbs d) (in_second k (newtx_of u gs)))
            \<and> us_dl_wait_ms (ue_of u (segment_of k s)) = dl_waits k u gs))
     \<and> (\<forall>u. map_of (cs_last_dl_newtx s) u
           = (if newtx_of u gs = [] then None
              else Some (fst (snd (last (newtx_of u gs))), left_over (last (newtx_of u gs)))))"

lemma segment_of_in [simp]: "segment_of j (in_segment k f s) = (if j = k then f (segment_of k s) else segment_of j s)"
  by (simp add: segment_of_def in_segment_def)

lemma ue_of_in [simp]: "ue_of v (in_ue u f g) = (if v = u then f (ue_of u g) else ue_of v g)"
  by (simp add: ue_of_def in_ue_def)

lemma in_segment_keeps [simp]:
  "cs_last_dl_newtx (in_segment k f s) = cs_last_dl_newtx s" "cs_unwrap_last (in_segment k f s) = cs_unwrap_last s"
  "cs_unwrap_base (in_segment k f s) = cs_unwrap_base s"
  by (simp_all add: in_segment_def)

lemma in_ue_keeps [simp]: "sg_dl_prb (in_ue u f g) = sg_dl_prb g"
  by (simp add: in_ue_def)

lemma ue_of_segment_update [simp]: "ue_of u (g\<lparr>sg_dl_prb := x\<rparr>) = ue_of u g" "ue_of u (g\<lparr>sg_ul_prb := x\<rparr>) = ue_of u g"
  by (simp_all add: ue_of_def)

lemma segment_of_last [simp]: "segment_of k (s\<lparr>cs_last_dl_newtx := x\<rparr>) = segment_of k s"
  by (simp add: segment_of_def)

lemma in_second_simps [simp]: "in_second k [] = []" "in_second k [(j, n, v, d)] = (if j = Some k then [(j, n, v, d)] else [])"
  by (simp_all add: in_second_def)

lemma in_second_append: "in_second k (gs @ hs) = in_second k gs @ in_second k hs"
  by (simp add: in_second_def)

lemma grants_snoc:
  "in_second k (gs @ [(j, n, v, d)]) = in_second k gs @ (if j = Some k then [(j, n, v, d)] else [])"
  "of_ue u (gs @ [(j, n, v, d)]) = of_ue u gs @ (if v = u then [(j, n, v, d)] else [])"
  "newtx_of u (gs @ [(j, n, v, d)]) = newtx_of u gs @ (if v = u \<and> de_newtx d then [(j, n, v, d)] else [])"
  by (simp_all add: in_second_def of_ue_def newtx_of_def)

lemma zip_tl_snoc: "zip (xs @ [x]) (tl (xs @ [x])) = zip xs (tl xs) @ (if xs = [] then [] else [(last xs, x)])"
proof (induction xs)
  case (Cons y ys)
  then show ?case by (cases ys) simp_all
qed simp

lemma dl_waits_snoc:
  "dl_waits k u (gs @ [(j, n, v, d)]) = dl_waits k u gs @
     (if v = u \<and> de_newtx d \<and> newtx_of u gs \<noteq> [] then wait_between k (last (newtx_of u gs), (j, n, v, d)) else [])"
proof (cases "v = u \<and> de_newtx d")
  case True
  then show ?thesis unfolding dl_waits_def grants_snoc if_P [OF True] zip_tl_snoc by simp
next
  case False
  then show ?thesis unfolding dl_waits_def grants_snoc if_not_P [OF False] by auto
qed

lemma track_dl_sums:
  assumes "dl_sums gs s"
  shows "dl_sums (gs @ dl_grants_of rnti k slot [d]) (track_dl rnti k slot d s)"
proof (cases "map_of rnti (de_rnti d)")
  case None
  with assms show ?thesis by (simp add: track_dl_def dl_grants_of_def)
next
  case (Some v)
  then have g: "dl_grants_of rnti k slot [d] = [(k, slot, v, d)]" by (simp add: dl_grants_of_def)
  define s1 where "s1 = (case k of None \<Rightarrow> s
    | Some k \<Rightarrow> in_segment k (\<lambda>g. in_ue v (add_dl d) (g\<lparr>sg_dl_prb := sg_dl_prb g + (de_rb1 d - de_rb0 d)\<rparr>)) s)"
  have last: "cs_last_dl_newtx s1 = cs_last_dl_newtx s" by (simp add: s1_def split: option.split)
  note sums = assms [unfolded dl_sums_def]
  show ?thesis
  proof (cases "de_newtx d")
    case False
    then have "track_dl rnti k slot d s = s1" using Some by (simp add: track_dl_def s1_def cong: option.case_cong)
    then show ?thesis unfolding g dl_sums_def using sums False
      by (cases k) (auto simp: s1_def grants_snoc dl_waits_snoc add_dl_def granted_def in_second_append)
  next
    case True
    define w where "w = newtx_of v gs"
    have l: "map_of (cs_last_dl_newtx s) v = (if w = [] then None else Some (fst (snd (last w)), left_over (last w)))"
      using sums by (simp add: w_def)
    show ?thesis unfolding g dl_sums_def using sums True Some l
      by (cases k; cases "w = []")
        (auto simp: track_dl_def Let_def grants_snoc dl_waits_snoc add_dl_def granted_def wait_between_def left_over_def w_def in_second_append)
  qed
qed

text \<open>The rest of a line does not touch them.\<close>

definition same_dl :: "cell_sched \<Rightarrow> cell_sched \<Rightarrow> bool" where
  "same_dl s s' \<longleftrightarrow> (\<forall>k. sg_dl_prb (segment_of k s') = sg_dl_prb (segment_of k s)
       \<and> (\<forall>u. us_dl_prb (ue_of u (segment_of k s')) = us_dl_prb (ue_of u (segment_of k s))
            \<and> us_dl_grants (ue_of u (segment_of k s')) = us_dl_grants (ue_of u (segment_of k s))
            \<and> us_dl_newtx_bytes (ue_of u (segment_of k s')) = us_dl_newtx_bytes (ue_of u (segment_of k s))
            \<and> us_dl_wait_ms (ue_of u (segment_of k s')) = us_dl_wait_ms (ue_of u (segment_of k s))))
     \<and> cs_last_dl_newtx s' = cs_last_dl_newtx s"

lemma same_dl_sums: "same_dl s s' \<Longrightarrow> dl_sums gs s \<Longrightarrow> dl_sums gs s'"
  by (simp add: same_dl_def dl_sums_def)

lemma same_dl_refl [simp]: "same_dl s s" by (simp add: same_dl_def)

lemma same_dl_trans: "same_dl s s1 \<Longrightarrow> same_dl s1 s2 \<Longrightarrow> same_dl s s2"
  by (simp add: same_dl_def)

lemma same_dl_update:
  "same_dl s (s\<lparr>cs_lines := x1\<rparr>)" "same_dl s (s\<lparr>cs_slot_samples := x2\<rparr>)" "same_dl s (s\<lparr>cs_recent := x3\<rparr>)"
  "same_dl s (s\<lparr>cs_decision_us_all := x4\<rparr>)" "same_dl s (s\<lparr>cs_unwrap_last := x5\<rparr>)" "same_dl s (s\<lparr>cs_unwrap_base := x6\<rparr>)"
  "same_dl s (s\<lparr>cs_last_ul_newtx := x7\<rparr>)" "same_dl s (s\<lparr>cs_nof_prb := x8\<rparr>)"
  by (simp_all add: same_dl_def segment_of_def)

lemma same_dl_in_segment:
  assumes "\<And>g. sg_dl_prb (f g) = sg_dl_prb g"
    and "\<And>g u. us_dl_prb (ue_of u (f g)) = us_dl_prb (ue_of u g) \<and> us_dl_grants (ue_of u (f g)) = us_dl_grants (ue_of u g)
      \<and> us_dl_newtx_bytes (ue_of u (f g)) = us_dl_newtx_bytes (ue_of u g) \<and> us_dl_wait_ms (ue_of u (f g)) = us_dl_wait_ms (ue_of u g)"
  shows "same_dl s (in_segment k f s)"
  using assms by (simp add: same_dl_def)

lemma same_dl_note: "same_dl s (in_segment k (note_decision n l) s)"
  by (rule same_dl_in_segment) (simp_all add: note_decision_def ue_of_def)

lemma same_dl_track_ul: "same_dl s (track_ul rnti k n e s)"
proof (cases "map_of rnti (ule_rnti e)")
  case None
  then show ?thesis by (simp add: track_ul_def)
next
  case (Some v)
  define s1 where "s1 = (case k of None \<Rightarrow> s
    | Some k \<Rightarrow> in_segment k (\<lambda>g. in_ue v (add_ul e) (g\<lparr>sg_ul_prb := sg_ul_prb g + (ule_rb1 e - ule_rb0 e)\<rparr>)) s)"
  have 1: "same_dl s s1" unfolding s1_def
    by (auto split: option.split intro!: same_dl_in_segment simp: add_ul_def)
  define s2 where "s2 = (case (map_of (cs_last_ul_newtx s1) v, k) of
                      (Some p, Some k) \<Rightarrow>
                        if fle (Fin 0) (slots_ms (n - p))
                        then in_segment k (in_ue v (\<lambda>u. u\<lparr>us_ul_gap_ms := us_ul_gap_ms u @ [slots_ms (n - p)]\<rparr>)) s1
                        else s1
                    | _ \<Rightarrow> s1)"
  have 2: "same_dl s1 s2" unfolding s2_def
    by (auto split: option.split intro!: same_dl_in_segment)
  have "track_ul rnti k n e s = (if ule_newtx e then s2\<lparr>cs_last_ul_newtx := AList.update v n (cs_last_ul_newtx s2)\<rparr> else s1)"
    unfolding track_ul_def Let_def Some option.case s1_def [symmetric] s2_def [symmetric] by simp
  with 1 same_dl_trans [OF same_dl_trans [OF 1 2] same_dl_update(7)] show ?thesis by simp
qed

lemma same_dl_fold_ul: "same_dl s (fold (track_ul rnti k n) es s)"
  by (induction es arbitrary: s) (auto intro: same_dl_trans same_dl_track_ul)

lemma fold_dl_sums:
  "dl_sums gs s \<Longrightarrow> dl_sums (gs @ dl_grants_of rnti k n ds) (fold (track_dl rnti k n) ds s)"
proof (induction ds arbitrary: gs s)
  case (Cons d ds)
  from Cons.IH [OF track_dl_sums [OF Cons.prems]] show ?case by (simp add: dl_grants_of_def)
qed (simp add: dl_grants_of_def)

lemma track_gaps_sums: "dl_sums gs s \<Longrightarrow> dl_sums (gs @ dl_grants_of rnti k n (sl_dl l)) (track_gaps rnti k n l s)"
  unfolding track_gaps_def by (rule same_dl_sums [OF same_dl_fold_ul]) (rule fold_dl_sums)

text \<open>The grants of a log, from its lines, the slots they unwrap to and the segments of their times.\<close>

definition slot_lines :: "((string \<times> string) list \<times> log_line) list \<Rightarrow> ((string \<times> string) list \<times> slot_line) list" where
  "slot_lines xs = concat (map (\<lambda>(rnti, l). case l of SlotDecisions l \<Rightarrow> [(rnti, l)] | _ \<Rightarrow> []) xs)"

definition line_segment :: "run_clock \<Rightarrow> slot_line \<Rightarrow> int option" where
  "line_segment c l = (case segment_of_ms c (fquot (fl (sl_wall_ns l)) (Fin 1000000)) of Inl e \<Rightarrow> None | Inr k \<Rightarrow> k)"

definition log_grants_from :: "run_clock \<Rightarrow> ((string \<times> string) list \<times> log_line) list \<Rightarrow> cell_sched \<Rightarrow> dl_grant list" where
  "log_grants_from c xs s = concat (map2 (\<lambda>(rnti, l) n. dl_grants_of rnti (line_segment c l) n (sl_dl l)) (slot_lines xs)
     (fst (abs_slots (map (\<lambda>(rnti, l). (sl_sfn l, sl_slot l)) (slot_lines xs)) s)))"

lemma track_dl_unwrap [simp]:
  "cs_unwrap_last (track_dl rnti k n d s) = cs_unwrap_last s" "cs_unwrap_base (track_dl rnti k n d s) = cs_unwrap_base s"
  by (simp_all add: track_dl_def Let_def split: option.split prod.split)

lemma track_ul_unwrap [simp]:
  "cs_unwrap_last (track_ul rnti k n e s) = cs_unwrap_last s" "cs_unwrap_base (track_ul rnti k n e s) = cs_unwrap_base s"
  by (simp_all add: track_ul_def Let_def split: option.split prod.split)

lemma track_gaps_unwrap [simp]:
  "cs_unwrap_last (track_gaps rnti k n l s) = cs_unwrap_last s" "cs_unwrap_base (track_gaps rnti k n l s) = cs_unwrap_base s"
proof -
  have d: "cs_unwrap_last (fold (track_dl rnti k n) ds s) = cs_unwrap_last s \<and> cs_unwrap_base (fold (track_dl rnti k n) ds s) = cs_unwrap_base s"
    for ds s by (induction ds arbitrary: s) simp_all
  have u: "cs_unwrap_last (fold (track_ul rnti k n) es s) = cs_unwrap_last s \<and> cs_unwrap_base (fold (track_ul rnti k n) es s) = cs_unwrap_base s"
    for es s by (induction es arbitrary: s) simp_all
  show "cs_unwrap_last (track_gaps rnti k n l s) = cs_unwrap_last s" "cs_unwrap_base (track_gaps rnti k n l s) = cs_unwrap_base s"
    by (simp_all add: track_gaps_def d u)
qed

lemma abs_slot_same:
  assumes "cs_unwrap_last s = cs_unwrap_last s'" and "cs_unwrap_base s = cs_unwrap_base s'"
  shows "fst (abs_slot a b s) = fst (abs_slot a b s')
    \<and> cs_unwrap_last (snd (abs_slot a b s)) = cs_unwrap_last (snd (abs_slot a b s'))
    \<and> cs_unwrap_base (snd (abs_slot a b s)) = cs_unwrap_base (snd (abs_slot a b s'))"
  using assms by (simp add: abs_slot_def Let_def)

lemma abs_slots_same:
  "cs_unwrap_last s = cs_unwrap_last s' \<Longrightarrow> cs_unwrap_base s = cs_unwrap_base s' \<Longrightarrow> fst (abs_slots xs s) = fst (abs_slots xs s')"
proof (induction xs arbitrary: s s')
  case (Cons x xs)
  with abs_slot_same [OF Cons.prems, of "fst x" "snd x"] show ?case unfolding abs_slots_Cons by metis
qed simp

lemma same_dl_abs_slot: "same_dl s (snd (abs_slot a b s))"
  using same_dl_update(5,6) same_dl_trans by (simp add: abs_slot_def Let_def) (metis same_dl_refl)

lemma slot_decisions_facts:
  assumes "slot_decisions c rnti l s = Ok s'"
  obtains s1 where "same_dl s s1" "s' = track_gaps rnti (line_segment c l) (fst (abs_slot (sl_sfn l) (sl_slot l) s)) l s1"
    "cs_unwrap_last s1 = cs_unwrap_last (snd (abs_slot (sl_sfn l) (sl_slot l) s))"
    "cs_unwrap_base s1 = cs_unwrap_base (snd (abs_slot (sl_sfn l) (sl_slot l) s))"
proof -
  define a where "a = s\<lparr>cs_lines := cs_lines s + 1\<rparr>"
  define n where "n = fst (abs_slot (sl_sfn l) (sl_slot l) a)"
  define b where "b = snd (abs_slot (sl_sfn l) (sl_slot l) a)"
  define d where "d = (if cs_slot_samples b = [] \<or> 50000000 \<le> sl_wall_ns l - fst (last (cs_slot_samples b))
    then b\<lparr>cs_slot_samples := cs_slot_samples b @ [(sl_wall_ns l, n)]\<rparr> else b)"
  define e where "e = d\<lparr>cs_recent := deque_append RECENT_SLOTS (recent_of rnti n l) (cs_recent d)\<rparr>"
  have nb: "abs_slot (sl_sfn l) (sl_slot l) (s\<lparr>cs_lines := cs_lines s + 1\<rparr>) = (n, b)" by (simp add: n_def b_def a_def)
  obtain k where k: "segment_of_ms c (fquot (fl (sl_wall_ns l)) (Fin 1000000)) = Ok k"
    and s': "s' = (case k of None \<Rightarrow> track_gaps rnti None n l e
      | Some k \<Rightarrow> track_gaps rnti (Some k) n l ((in_segment k (note_decision n l) e)
          \<lparr>cs_decision_us_all := cs_decision_us_all e @ [ieee_round binary32 (sl_decision_us l)]\<rparr>))"
    using assms unfolding slot_decisions_def nb prod.case Let_def d_def [symmetric] e_def [symmetric] by (auto simp: result_simps)
  have ab: "fst (abs_slot (sl_sfn l) (sl_slot l) s) = n"
    "cs_unwrap_last (snd (abs_slot (sl_sfn l) (sl_slot l) s)) = cs_unwrap_last b"
    "cs_unwrap_base (snd (abs_slot (sl_sfn l) (sl_slot l) s)) = cs_unwrap_base b"
    using abs_slot_same [of s a "sl_sfn l" "sl_slot l"] by (simp_all add: n_def b_def a_def)
  have "same_dl s b" unfolding b_def a_def using same_dl_trans [OF same_dl_update(1) same_dl_abs_slot] .
  moreover have "same_dl b e" unfolding e_def d_def by (auto intro: same_dl_trans same_dl_update)
  ultimately have se: "same_dl s e" by (rule same_dl_trans)
  have ue: "cs_unwrap_last e = cs_unwrap_last b" "cs_unwrap_base e = cs_unwrap_base b" by (simp_all add: e_def d_def)
  have ls: "line_segment c l = k" using k by (simp add: line_segment_def)
  show thesis
  proof (cases k)
    case None
    with s' ls ab se ue show thesis by (intro that [of e]) simp_all
  next
    case (Some j)
    define f where "f = (in_segment j (note_decision n l) e)\<lparr>cs_decision_us_all := cs_decision_us_all e @ [ieee_round binary32 (sl_decision_us l)]\<rparr>"
    have "same_dl e f" unfolding f_def using same_dl_trans [OF same_dl_note same_dl_update(4)] by simp
    then have "same_dl s f" using se same_dl_trans by blast
    moreover have "s' = track_gaps rnti (Some j) n l f" using s' Some by (simp add: f_def)
    moreover have "cs_unwrap_last f = cs_unwrap_last b" "cs_unwrap_base f = cs_unwrap_base b" using ue by (simp_all add: f_def)
    ultimately show thesis using ls ab Some by (intro that [of f]) simp_all
  qed
qed

lemma sched_run_sums:
  assumes "foldR (\<lambda>(rnti, l). sched_line c rnti l) xs s = Ok s'" and "dl_sums gs s"
  shows "dl_sums (gs @ log_grants_from c xs s) s'"
  using assms
proof (induction xs arbitrary: gs s)
  case Nil
  then show ?case by (simp add: log_grants_from_def slot_lines_def)
next
  case (Cons x xs)
  obtain rnti l where x: "x = (rnti, l)" by (cases x)
  obtain s1 where s1: "sched_line c rnti l s = Ok s1" "foldR (\<lambda>(rnti, l). sched_line c rnti l) xs s1 = Ok s'"
    using Cons.prems(1) by (auto simp: x result_simps)
  show ?case
  proof (cases l)
    case (SlotDecisions sl)
    then have "slot_decisions c rnti sl s = Ok s1" using s1(1) by (simp add: sched_line_def)
    then obtain s0 where s0: "same_dl s s0" "s1 = track_gaps rnti (line_segment c sl) (fst (abs_slot (sl_sfn sl) (sl_slot sl) s)) sl s0"
      "cs_unwrap_last s0 = cs_unwrap_last (snd (abs_slot (sl_sfn sl) (sl_slot sl) s))"
      "cs_unwrap_base s0 = cs_unwrap_base (snd (abs_slot (sl_sfn sl) (sl_slot sl) s))" by (rule slot_decisions_facts)
    define hs where "hs = dl_grants_of rnti (line_segment c sl) (fst (abs_slot (sl_sfn sl) (sl_slot sl) s)) (sl_dl sl)"
    have "dl_sums (gs @ hs) s1" unfolding s0(2) hs_def by (rule track_gaps_sums) (rule same_dl_sums [OF s0(1) Cons.prems(2)])
    from Cons.IH [OF s1(2) this] have "dl_sums ((gs @ hs) @ log_grants_from c xs s1) s'" .
    moreover have u: "fst (abs_slots ys s1) = fst (abs_slots ys (snd (abs_slot (sl_sfn sl) (sl_slot sl) s)))" for ys
      by (rule abs_slots_same) (simp_all add: s0)
    have "log_grants_from c (x # xs) s = hs @ log_grants_from c xs s1"
      by (simp add: log_grants_from_def slot_lines_def x SlotDecisions abs_slots_Cons u hs_def del: abs_slots.simps)
    ultimately show ?thesis by simp
  next
    case (NofCrbs n)
    then have e: "s1 = s\<lparr>cs_nof_prb := n\<rparr>" using s1(1) by (simp add: sched_line_def)
    from Cons.IH [OF s1(2), of gs] same_dl_sums [OF same_dl_update(8) Cons.prems(2)]
    have "dl_sums (gs @ log_grants_from c xs s1) s'" by (simp add: e)
    moreover have "log_grants_from c (x # xs) s = log_grants_from c xs s1"
      using abs_slots_same [of s1 s] by (simp add: log_grants_from_def slot_lines_def x NofCrbs e)
    ultimately show ?thesis by simp
  next
    case OtherLine
    with s1 Cons.IH [OF s1(2), of gs] Cons.prems(2) show ?thesis
      by (simp add: sched_line_def x log_grants_from_def slot_lines_def)
  qed
qed


text \<open>Two grants of one UE, 30 slots apart in the second second of the run; the first leaves 500 bytes waiting.\<close>

definition demo_dl :: "int option \<Rightarrow> dl_entry" where
  "demo_dl bo = \<lparr>de_rnti = ''0x4601'', de_rb0 = 0, de_rb1 = 10, de_newtx = True, de_tbs = 1000, de_bo = bo\<rparr>"

definition demo_line :: "int \<Rightarrow> int \<Rightarrow> int option \<Rightarrow> slot_line" where
  "demo_line sfn slot bo = \<lparr>sl_wall_ns = 2000000000, sl_sfn = sfn, sl_slot = slot, sl_decision_us = Fin 7, sl_dl = [demo_dl bo],
     sl_ul = [], sl_common = []\<rparr>"

definition demo_clock :: run_clock where
  "demo_clock = \<lparr>rc_anchor_ms = Some 1000, rc_measure_seconds = 2\<rparr>"

definition demo_log :: "((string \<times> string) list \<times> log_line) list" where
  "demo_log = [([(''0x4601'', ''ue0'')], SlotDecisions (demo_line 0 5 (Some 500))), ([(''0x4601'', ''ue0'')], NofCrbs 106),
     ([(''0x4601'', ''ue0'')], SlotDecisions (demo_line 3 5 None))]"


end
