(* ===== verification/BenchFlows.thy ===== *)
theory BenchFlows
  imports BenchSlots
begin

text \<open>
  The packet accounting of \<^verbatim>\<open>use_cases/scheduler_benchmark/analyze.py\<close>: the state the analyzer keeps per flow, the
  segments of the send schedule, the records of the receivers, the progress of the senders, and the sent and received
  packets of a segment. \<open>bisect_left\<close> and \<open>bisect_right\<close> on a list in order are the numbers of its elements below and
  up to the key.
\<close>

section \<open>The state of a flow\<close>

record flow_state =
  fs_flow_id :: int
  fs_ue :: string
  fs_flow :: flow
  fs_pdb_ms :: int
  fs_offsets :: "pyfloat list"
  fs_sent_next_seq :: int
  fs_sender_done :: bool
  fs_received :: "bool list"
  fs_bounds :: "nat list option"
  fs_received_by_seg :: "(int \<times> int) list"
  fs_delay_ms :: "(int \<times> pyfloat list) list"
  fs_rx_bytes :: "(int \<times> int) list"
  fs_all_delays :: "pyfloat list"
  fs_duplicates :: int
  fs_unknown_seq :: int

definition new_flow :: "int \<Rightarrow> string \<Rightarrow> flow \<Rightarrow> int \<Rightarrow> pyfloat list \<Rightarrow> flow_state" where
  "new_flow fid ue f pdb_ms offsets =
     \<lparr>fs_flow_id = fid, fs_ue = ue, fs_flow = f, fs_pdb_ms = pdb_ms, fs_offsets = offsets, fs_sent_next_seq = 0,
      fs_sender_done = False, fs_received = replicate (length offsets) False, fs_bounds = None, fs_received_by_seg = [],
      fs_delay_ms = [], fs_rx_bytes = [], fs_all_delays = [], fs_duplicates = 0, fs_unknown_seq = 0\<rparr>"

type_synonym flow_table = "(int \<times> flow_state) list"

text \<open>\<open>build_flows\<close>, over the cells, UEs and flows of the run description; a schedule without an end is \<open>None\<close>.\<close>

definition run_duration :: "benchmark \<Rightarrow> pyfloat" where
  "run_duration bk = (case bk_traffic_duration_s bk of None \<Rightarrow> fl (bk_measure_seconds bk) | Some d \<Rightarrow> d)"

definition build_flow ::
  "random \<Rightarrow> (pyfloat \<Rightarrow> pyfloat) \<Rightarrow> benchmark \<Rightarrow> nat \<Rightarrow> bench_ue \<Rightarrow> nat \<times> flow \<Rightarrow> flow_table \<Rightarrow> flow_table result option" where
  "build_flow rand lg bk cell_index ue jf flows =
     bindO (flow_id (int cell_index) (bu_cell_index ue) (int (fst jf))) (\<lambda>fid.
     case flow_schedule rand lg (bk_seed bk) (bu_cell_index ue) (snd jf) (run_duration bk) of
       None \<Rightarrow> None
     | Some r \<Rightarrow> Some (bindR r (\<lambda>offsets.
         Ok (AList.update fid (new_flow fid (bu_device_id ue) (snd jf) (bu_pdb_ms ue) offsets) flows))))"

fun foldO :: "('a \<Rightarrow> 'b \<Rightarrow> 'b result option) \<Rightarrow> 'a list \<Rightarrow> 'b \<Rightarrow> 'b result option" where
  "foldO f [] b = Some (Ok b)"
| "foldO f (x # xs) b = (case f x b of None \<Rightarrow> None | Some r \<Rightarrow> bindO r (foldO f xs))"

definition build_flows :: "random \<Rightarrow> (pyfloat \<Rightarrow> pyfloat) \<Rightarrow> benchmark \<Rightarrow> flow_table result option" where
  "build_flows rand lg bk =
     foldO (\<lambda>ic. case map_of (bk_cells bk) (ce_name (snd ic)) of
         None \<Rightarrow> (\<lambda>flows. Some (Ok flows))
       | Some ues \<Rightarrow> foldO (\<lambda>ue. foldO (build_flow rand lg bk (fst ic) ue) (enum (bu_flows ue))) ues) (enum CELLS) []"

section \<open>Segments of a schedule\<close>

record run_times = run_clock +
  rc_traffic_start_ms :: "int option"

definition bisect_left :: "pyfloat list \<Rightarrow> pyfloat \<Rightarrow> nat" where
  "bisect_left xs x = length (takeWhile (\<lambda>y. flt y x) xs)"

definition bisect_right :: "nat list \<Rightarrow> nat \<Rightarrow> nat" where
  "bisect_right xs x = length (takeWhile (\<lambda>y. y \<le> x) xs)"

definition shift_of :: "int \<Rightarrow> int \<Rightarrow> pyfloat" where
  "shift_of anchor start = fquot (fl (anchor - start)) (Fin 1000)"

definition seg_bounds :: "pyfloat list \<Rightarrow> pyfloat \<Rightarrow> int \<Rightarrow> nat list" where
  "seg_bounds offsets shift measure_seconds =
     map (\<lambda>k. bisect_left offsets (fadd (fl (int k)) shift)) [0..<nat (measure_seconds + 1)]"

definition ensure_bounds :: "run_times \<Rightarrow> flow_state \<Rightarrow> nat list option \<times> flow_state" where
  "ensure_bounds t f =
     (let f = (case (fs_bounds f, rc_traffic_start_ms t, rc_anchor_ms t) of
         (None, Some start, Some anchor) \<Rightarrow> f\<lparr>fs_bounds := Some (seg_bounds (fs_offsets f) (shift_of anchor start) (rc_measure_seconds t))\<rparr>
       | _ \<Rightarrow> f)
      in (fs_bounds f, f))"

definition segment_of_seq :: "nat list \<Rightarrow> nat \<Rightarrow> int option result" where
  "segment_of_seq bounds seq =
     (if bounds = [] then Err IndexError
      else Ok (if seq < hd bounds \<or> last bounds \<le> seq then None else Some (int (bisect_right bounds seq) - 1)))"

definition nominal_segment :: "run_times \<Rightarrow> flow_state \<Rightarrow> nat \<Rightarrow> (int option \<times> flow_state) result" where
  "nominal_segment t f seq =
     (case ensure_bounds t f of
        (None, f) \<Rightarrow> Ok (None, f)
      | (Some bounds, f) \<Rightarrow> bindR (segment_of_seq bounds seq) (\<lambda>k. Ok (k, f)))"

section \<open>The receivers' records\<close>

definition count_of :: "int \<Rightarrow> (int \<times> int) list \<Rightarrow> int" where
  "count_of k d = (case map_of d k of None \<Rightarrow> 0 | Some n \<Rightarrow> n)"

definition file_delay :: "int option \<Rightarrow> pyfloat \<Rightarrow> flow_state \<Rightarrow> flow_state" where
  "file_delay k delay f =
     (case k of
        None \<Rightarrow> f
      | Some k \<Rightarrow> f\<lparr>fs_received_by_seg := AList.update k (count_of k (fs_received_by_seg f) + 1) (fs_received_by_seg f),
          fs_delay_ms := AList.update k ((case map_of (fs_delay_ms f) k of None \<Rightarrow> [] | Some ds \<Rightarrow> ds) @ [ieee_round binary32 delay])
            (fs_delay_ms f),
          fs_all_delays := fs_all_delays f @ [ieee_round binary32 delay]\<rparr>)"

definition file_bytes :: "int option \<Rightarrow> flow_state \<Rightarrow> flow_state" where
  "file_bytes k f =
     (case k of
        None \<Rightarrow> f
      | Some k \<Rightarrow> f\<lparr>fs_rx_bytes := AList.update k (count_of k (fs_rx_bytes f) + fw_size_bytes (fs_flow f)) (fs_rx_bytes f)\<rparr>)"

definition take_packet :: "run_times \<Rightarrow> nat \<Rightarrow> int \<Rightarrow> int \<Rightarrow> flow_state \<Rightarrow> flow_state result" where
  "take_packet t seq tx rx f =
     (if length (fs_offsets f) \<le> seq then Ok (f\<lparr>fs_unknown_seq := fs_unknown_seq f + 1\<rparr>)
      else if fs_received f ! seq then Ok (f\<lparr>fs_duplicates := fs_duplicates f + 1\<rparr>)
      else bindR (nominal_segment t (f\<lparr>fs_received := (fs_received f)[seq := True]\<rparr>) seq) (\<lambda>(k, f).
           bindR (segment_of_ms (run_clock.truncate t) (fquot (fl rx) (Fin 1000000))) (\<lambda>k_rx.
           Ok (file_bytes k_rx (file_delay k (fquot (fl (rx - tx)) (Fin 1000000)) f)))))"

definition rx_packet :: "run_times \<Rightarrow> rx_record \<Rightarrow> flow_table \<Rightarrow> flow_table result" where
  "rx_packet t r flows =
     (case r of (fid, seq, tx, rx) \<Rightarrow>
        case map_of flows fid of
          None \<Rightarrow> Ok flows
        | Some f \<Rightarrow> bindR (take_packet t (nat seq) tx rx f) (\<lambda>f. Ok (AList.update fid f flows)))"

text \<open>\<open>poll_receivers\<close>: the files are left unread until there is a schedule and an anchor.\<close>

definition poll_receivers :: "run_times \<Rightarrow> rx_record list \<Rightarrow> flow_table \<Rightarrow> flow_table result" where
  "poll_receivers t recs flows =
     (if flows = [] \<or> rc_traffic_start_ms t = None \<or> rc_anchor_ms t = None then Ok flows
      else foldR (rx_packet t) recs flows)"

section \<open>The senders' progress\<close>

definition note_sent :: "int \<times> int \<Rightarrow> flow_table \<Rightarrow> flow_table" where
  "note_sent x flows =
     (case map_of flows (fst x) of
        None \<Rightarrow> flows
      | Some f \<Rightarrow> AList.update (fst x) (f\<lparr>fs_sent_next_seq := max (fs_sent_next_seq f) (snd x)\<rparr>) flows)"

text \<open>A line of the sender's log: three integers, the flow id and the sequence number the second and third.\<close>

definition tick_of_line :: "string \<Rightarrow> (int \<times> int) option" where
  "tick_of_line line =
     (if line = [] \<or> str_startswith ''t_ns'' line then None
      else case mapR (\<lambda>v. case parse_int v of None \<Rightarrow> Err (ValueError ''invalid literal'') | Some i \<Rightarrow> Ok i) (str_split (CHR '','') line) of
        Inr [_, fid, seq] \<Rightarrow> Some (fid, seq)
      | _ \<Rightarrow> None)"

definition poll_sender_lines :: "string list \<Rightarrow> flow_table \<Rightarrow> flow_table" where
  "poll_sender_lines lines flows = fold note_sent (concat (map (\<lambda>l. case tick_of_line l of None \<Rightarrow> [] | Some x \<Rightarrow> [x]) lines)) flows"

section \<open>Sent and received packets of a segment\<close>

definition LIVE_LOSS_HORIZON_MS :: pyfloat where "LIVE_LOSS_HORIZON_MS = Fin 5000"

definition known_segments :: "run_times \<Rightarrow> pyfloat \<Rightarrow> bool \<Rightarrow> int result" where
  "known_segments t now_ms live =
     (if live
      then bindR (ffloor (fquot (fsub (fsub now_ms LIVE_LOSS_HORIZON_MS) (fl (the (rc_anchor_ms t)))) (Fin 1000))) (\<lambda>k.
           Ok (min (rc_measure_seconds t) k))
      else Ok (rc_measure_seconds t))"

definition sent_by_segment ::
  "run_times \<Rightarrow> pyfloat \<Rightarrow> bool \<Rightarrow> flow_state \<Rightarrow> ((int \<times> (int \<times> int)) list \<times> flow_state) result" where
  "sent_by_segment t now_ms live f =
     (case ensure_bounds t f of
        (None, f) \<Rightarrow> Ok ([], f)
      | (Some bounds, f) \<Rightarrow>
          bindR (known_segments t now_ms live) (\<lambda>last_k.
          Ok (concat (map (\<lambda>k.
              let lo = int (bounds ! k); hi = min (int (bounds ! (k + 1))) (fs_sent_next_seq f)
              in if hi \<le> lo then [] else [(int k, (hi - lo, count_of (int k) (fs_received_by_seg f)))])
            [0..<nat last_k]), f)))"

section \<open>Segments are the seconds of the schedule\<close>

lemma takeWhile_index:
  assumes "\<And>i j. i \<le> j \<Longrightarrow> j < length xs \<Longrightarrow> P (xs ! j) \<Longrightarrow> P (xs ! i)"
  shows "i < length (takeWhile P xs) \<longleftrightarrow> i < length xs \<and> P (xs ! i)"
proof
  assume i: "i < length (takeWhile P xs)"
  then show "i < length xs \<and> P (xs ! i)"
    using set_takeWhileD [OF nth_mem [OF i]] length_takeWhile_le [of P xs] by (auto simp: takeWhile_nth)
next
  assume i: "i < length xs \<and> P (xs ! i)"
  show "i < length (takeWhile P xs)"
  proof (rule ccontr)
    assume n: "\<not> i < length (takeWhile P xs)"
    then have "length (takeWhile P xs) < length xs" using i by simp
    then have "\<not> P (xs ! length (takeWhile P xs))" by (rule nth_length_takeWhile)
    with assms [of "length (takeWhile P xs)" i] n i show False by simp
  qed
qed

lemma fle_flt_trans: "fle a b \<Longrightarrow> flt b c \<Longrightarrow> flt a c"
  by (cases a; cases b; cases c) auto

lemma bisect_left_less:
  assumes "in_order xs"
  shows "i < bisect_left xs x \<longleftrightarrow> i < length xs \<and> flt (xs ! i) x"
  unfolding bisect_left_def
proof (rule takeWhile_index)
  fix i j assume ij: "i \<le> j" "j < length xs" "flt (xs ! j) x"
  have "fle (xs ! i) (xs ! j)"
    using assms ij by (cases "i = j") (auto simp: in_order_def sorted_wrt_iff_nth_less intro: fle_refl)
  with ij(3) show "flt (xs ! i) x" by (rule fle_flt_trans [rotated -1])
qed

lemma bisect_right_less: "sorted B \<Longrightarrow> i < bisect_right B x \<longleftrightarrow> i < length B \<and> B ! i \<le> x"
  unfolding bisect_right_def by (rule takeWhile_index) (meson le_trans sorted_nth_mono)

lemma segment_of_seq_facts:
  assumes "sorted B" and "length B = Suc n"
  shows "\<exists>r. segment_of_seq B seq = Ok r \<and> (\<forall>k<n. r = Some (int k) \<longleftrightarrow> B ! k \<le> seq \<and> seq < B ! Suc k)
    \<and> (\<forall>j. r = Some j \<longrightarrow> 0 \<le> j \<and> j < int n)"
proof -
  have ne: "B \<noteq> []" using assms(2) by auto
  with assms(2) have B: "B \<noteq> []" "hd B = B ! 0" "last B = B ! n" by (simp_all add: hd_conv_nth last_conv_nth)
  have mono: "i \<le> j \<Longrightarrow> j \<le> n \<Longrightarrow> B ! i \<le> B ! j" for i j using assms by (simp add: sorted_nth_mono)
  define c where "c = bisect_right B seq"
  have c: "i < c \<longleftrightarrow> i \<le> n \<and> B ! i \<le> seq" for i using bisect_right_less [OF assms(1), of i seq] assms(2) by (auto simp: c_def)
  show ?thesis
  proof (cases "seq < B ! 0 \<or> B ! n \<le> seq")
    case True
    have "\<not> (B ! k \<le> seq \<and> seq < B ! Suc k)" if "k < n" for k
      using True mono [of 0 k] mono [of "Suc k" n] that by auto
    with True B show ?thesis by (simp add: segment_of_seq_def)
  next
    case False
    then have "0 < c" "\<not> n < c" using c [of 0] c [of n] by auto
    have "int c - 1 = int k \<longleftrightarrow> B ! k \<le> seq \<and> seq < B ! Suc k" if "k < n" for k
      using c [of k] c [of "Suc k"] that by auto
    with False B \<open>0 < c\<close> \<open>\<not> n < c\<close> show ?thesis by (simp add: segment_of_seq_def flip: c_def)
  qed
qed

text \<open>The bounds of a schedule in order.\<close>

definition second_start :: "pyfloat \<Rightarrow> int \<Rightarrow> pyfloat" where
  "second_start shift k = fadd (fl k) shift"

lemma second_start_mono:
  assumes "shift = Fin x" and "0 \<le> j" and "j \<le> k" and "k < 2 ^ 53"
  shows "fle (second_start shift j) (second_start shift k)"
proof -
  have "fl j = Fin (of_int j)" "fl k = Fin (of_int k)" using assms by (simp_all add: fl_def rnd64_of_int)
  then show ?thesis using assms rnd64_mono [of "of_int j + x" "of_int k + x"] by (simp add: second_start_def)
qed

lemma seg_bounds_facts:
  assumes "in_order offs" and "shift = Fin x" and "0 \<le> m" and "m < 2 ^ 53"
  shows "length (seg_bounds offs shift m) = Suc (nat m)" and "sorted (seg_bounds offs shift m)"
    and "k \<le> nat m \<Longrightarrow> i < seg_bounds offs shift m ! k \<longleftrightarrow> i < length offs \<and> flt (offs ! i) (second_start shift (int k))"
proof -
  show len: "length (seg_bounds offs shift m) = Suc (nat m)" using assms(3) by (simp add: seg_bounds_def nat_add_distrib)
  have nth: "seg_bounds offs shift m ! k = bisect_left offs (second_start shift (int k))" if "k \<le> nat m" for k
    using that assms(3) by (simp add: seg_bounds_def second_start_def nat_add_distrib del: upt_Suc)
  then show less: "k \<le> nat m \<Longrightarrow> i < seg_bounds offs shift m ! k \<longleftrightarrow> i < length offs \<and> flt (offs ! i) (second_start shift (int k))" for k i
    using bisect_left_less [OF assms(1)] by simp
  have "seg_bounds offs shift m ! j \<le> seg_bounds offs shift m ! k" if "j \<le> k" "k \<le> nat m" for j k
  proof (rule ccontr)
    assume "\<not> seg_bounds offs shift m ! j \<le> seg_bounds offs shift m ! k"
    then have "seg_bounds offs shift m ! k < seg_bounds offs shift m ! j" by simp
    then have i: "seg_bounds offs shift m ! k < length offs"
      "flt (offs ! (seg_bounds offs shift m ! k)) (second_start shift (int j))" using less [of j] that by auto
    have "int k < 2 ^ 53" using that assms(3,4) by linarith
    with second_start_mono [OF assms(2), of "int j" "int k"] that i(2)
    have "flt (offs ! (seg_bounds offs shift m ! k)) (second_start shift (int k))" by (auto intro: flt_fle_trans)
    with less [OF that(2), of "seg_bounds offs shift m ! k"] i(1) show False by simp
  qed
  then show "sorted (seg_bounds offs shift m)" using len by (auto simp: sorted_iff_nth_mono)
qed

section \<open>Each packet counts once\<close>

text \<open>The bounds a flow has or gets.\<close>

definition bounds_set :: "run_times \<Rightarrow> nat list \<Rightarrow> flow_state \<Rightarrow> bool" where
  "bounds_set t B f \<longleftrightarrow> fs_bounds f = Some B \<or> fs_bounds f = None \<and>
     (\<exists>start anchor. rc_traffic_start_ms t = Some start \<and> rc_anchor_ms t = Some anchor
        \<and> B = seg_bounds (fs_offsets f) (shift_of anchor start) (rc_measure_seconds t))"

lemma ensure_bounds_set: "bounds_set t B f \<Longrightarrow> ensure_bounds t f = (Some B, f\<lparr>fs_bounds := Some B\<rparr>)"
  by (cases f) (auto simp: bounds_set_def ensure_bounds_def)

text \<open>The accounts of a flow, when \<open>R\<close> are the sequence numbers of the schedule that arrived.\<close>

definition counted :: "run_times \<Rightarrow> nat list \<Rightarrow> nat set \<Rightarrow> flow_state \<Rightarrow> bool" where
  "counted t B R f \<longleftrightarrow> length (fs_received f) = length (fs_offsets f) \<and> (\<forall>i<length (fs_offsets f). fs_received f ! i \<longleftrightarrow> i \<in> R)
     \<and> R \<subseteq> {..<length (fs_offsets f)} \<and> bounds_set t B f
     \<and> (\<forall>k<nat (rc_measure_seconds t). count_of (int k) (fs_received_by_seg f) = int (card {i \<in> R. B ! k \<le> i \<and> i < B ! Suc k})
          \<and> length (case map_of (fs_delay_ms f) (int k) of None \<Rightarrow> [] | Some ds \<Rightarrow> ds) = card {i \<in> R. B ! k \<le> i \<and> i < B ! Suc k})"

lemma count_of_update [simp]: "count_of j (AList.update k n d) = (if j = k then n else count_of j d)"
  by (simp add: count_of_def)

lemma file_bytes_keeps [simp]:
  "fs_received (file_bytes k f) = fs_received f" "fs_offsets (file_bytes k f) = fs_offsets f" "fs_bounds (file_bytes k f) = fs_bounds f"
  "fs_received_by_seg (file_bytes k f) = fs_received_by_seg f" "fs_delay_ms (file_bytes k f) = fs_delay_ms f"
  by (simp_all add: file_bytes_def split: option.split)

lemma file_delay_keeps [simp]:
  "fs_received (file_delay k d f) = fs_received f" "fs_offsets (file_delay k d f) = fs_offsets f" "fs_bounds (file_delay k d f) = fs_bounds f"
  by (simp_all add: file_delay_def split: option.split)

lemma take_packet_counted:
  assumes "take_packet t seq tx rx f = Ok f'" and "counted t B R f" and "sorted B" and "length B = Suc (nat (rc_measure_seconds t))"
  shows "counted t B (if seq < length (fs_offsets f) then insert seq R else R) f' \<and> fs_offsets f' = fs_offsets f"
proof -
  have cf: "length (fs_received f) = length (fs_offsets f)" "\<forall>i<length (fs_offsets f). fs_received f ! i \<longleftrightarrow> i \<in> R"
    "R \<subseteq> {..<length (fs_offsets f)}" "bounds_set t B f"
    using assms(2) by (simp_all add: counted_def)
  have cs: "count_of (int k) (fs_received_by_seg f) = int (card {i \<in> R. B ! k \<le> i \<and> i < B ! Suc k})"
    "length (case map_of (fs_delay_ms f) (int k) of None \<Rightarrow> [] | Some ds \<Rightarrow> ds) = card {i \<in> R. B ! k \<le> i \<and> i < B ! Suc k}"
    if "k < nat (rc_measure_seconds t)" for k
    using assms(2) that by (simp_all add: counted_def)
  show ?thesis
  proof (cases "length (fs_offsets f) \<le> seq")
    case True
    then have f': "f' = f\<lparr>fs_unknown_seq := fs_unknown_seq f + 1\<rparr>" using assms(1) by (simp add: take_packet_def)
    have "bounds_set t B f'" using cf(4) by (simp add: bounds_set_def f')
    with True cf cs show ?thesis by (simp add: counted_def f')
  next
    case seq: False
    show ?thesis
    proof (cases "fs_received f ! seq")
      case True
      then have f': "f' = f\<lparr>fs_duplicates := fs_duplicates f + 1\<rparr>" using assms(1) seq by (simp add: take_packet_def)
      have "bounds_set t B f'" using cf(4) by (simp add: bounds_set_def f')
      moreover have "insert seq R = R" using True cf(2) seq by auto
      ultimately show ?thesis using seq cf cs by (simp add: counted_def f')
    next
      case False
      then have new: "seq \<notin> R" using cf(2) seq by auto
      define g where "g = f\<lparr>fs_received := (fs_received f)[seq := True]\<rparr>"
      have "bounds_set t B g" using cf(4) by (simp add: bounds_set_def g_def)
      then have eb: "ensure_bounds t g = (Some B, g\<lparr>fs_bounds := Some B\<rparr>)" by (rule ensure_bounds_set)
      obtain r where r: "segment_of_seq B seq = Ok r"
        "\<And>k. k < nat (rc_measure_seconds t) \<Longrightarrow> r = Some (int k) \<longleftrightarrow> B ! k \<le> seq \<and> seq < B ! Suc k"
        using segment_of_seq_facts [OF assms(3,4), of seq] by blast
      have ns: "nominal_segment t g seq = Ok (r, g\<lparr>fs_bounds := Some B\<rparr>)" by (simp add: nominal_segment_def eb r(1) result_simps)
      obtain d k_rx where f': "f' = file_bytes k_rx (file_delay r d (g\<lparr>fs_bounds := Some B\<rparr>))"
        using assms(1) seq False ns by (auto simp: take_packet_def g_def result_simps)
      have fin: "finite R" using cf(3) finite_subset by blast
      have split: "{i \<in> insert seq R. B ! k \<le> i \<and> i < B ! Suc k}
          = (if B ! k \<le> seq \<and> seq < B ! Suc k then insert seq {i \<in> R. B ! k \<le> i \<and> i < B ! Suc k} else {i \<in> R. B ! k \<le> i \<and> i < B ! Suc k})" for k
        by auto
      have card: "card {i \<in> insert seq R. B ! k \<le> i \<and> i < B ! Suc k}
          = card {i \<in> R. B ! k \<le> i \<and> i < B ! Suc k} + (if r = Some (int k) then 1 else 0)" if "k < nat (rc_measure_seconds t)" for k
        using r(2) [OF that] new fin unfolding split by simp
      have "bounds_set t B f'" by (simp add: bounds_set_def f')
      moreover have "count_of (int k) (fs_received_by_seg f') = int (card {i \<in> insert seq R. B ! k \<le> i \<and> i < B ! Suc k})
          \<and> length (case map_of (fs_delay_ms f') (int k) of None \<Rightarrow> [] | Some ds \<Rightarrow> ds) = card {i \<in> insert seq R. B ! k \<le> i \<and> i < B ! Suc k}"
        if k: "k < nat (rc_measure_seconds t)" for k
        using cs [OF k] card [OF k] by (cases r; cases "r = Some (int k)") (simp_all add: f' g_def file_delay_def)
      moreover have "length (fs_received f') = length (fs_offsets f')" "fs_offsets f' = fs_offsets f"
        "\<forall>i<length (fs_offsets f'). fs_received f' ! i \<longleftrightarrow> i \<in> insert seq R" "insert seq R \<subseteq> {..<length (fs_offsets f')}"
        using cf(1-3) seq by (auto simp: f' g_def nth_list_update)
      ultimately show ?thesis using seq by (simp add: counted_def)
    qed
  qed
qed

definition seqs_in :: "int \<Rightarrow> rx_record list \<Rightarrow> nat set" where
  "seqs_in fid recs = {nat seq | seq tx rx. (fid, seq, tx, rx) \<in> set recs}"

lemma seqs_in_simps [simp]:
  "seqs_in fid [] = {}" "seqs_in fid ((v, seq, tx, rx) # recs) = (if v = fid then insert (nat seq) (seqs_in fid recs) else seqs_in fid recs)"
  by (auto simp: seqs_in_def)

lemma rx_packets_counted:
  assumes "foldR (rx_packet t) recs flows = Ok flows'" and "map_of flows fid = Some f" and "counted t B R f"
    and "sorted B" and "length B = Suc (nat (rc_measure_seconds t))"
  shows "\<exists>f'. map_of flows' fid = Some f' \<and> fs_offsets f' = fs_offsets f
    \<and> counted t B (R \<union> (seqs_in fid recs \<inter> {..<length (fs_offsets f)})) f'"
  using assms(1-3)
proof (induction recs arbitrary: flows f R)
  case Nil
  then show ?case by simp
next
  case (Cons r recs)
  obtain v seq tx rx where r: "r = (v, seq, tx, rx)" by (metis prod_cases4)
  obtain flows1 where 1: "rx_packet t r flows = Ok flows1" "foldR (rx_packet t) recs flows1 = Ok flows'"
    using Cons.prems(1) by (auto simp: result_simps)
  show ?case
  proof (cases "v = fid")
    case True
    then obtain f1 where f1: "take_packet t (nat seq) tx rx f = Ok f1" "flows1 = AList.update fid f1 flows"
      using 1(1) Cons.prems(2) by (auto simp: rx_packet_def r result_simps)
    from take_packet_counted [OF f1(1) Cons.prems(3) assms(4,5)]
    have c: "counted t B (if nat seq < length (fs_offsets f) then insert (nat seq) R else R) f1" "fs_offsets f1 = fs_offsets f" by simp_all
    have "map_of flows1 fid = Some f1" by (simp add: f1(2))
    have "(if nat seq < length (fs_offsets f) then insert (nat seq) R else R) \<union> (seqs_in fid recs \<inter> {..<length (fs_offsets f)})
        = R \<union> (seqs_in fid (r # recs) \<inter> {..<length (fs_offsets f)})" using True by (auto simp: r)
    with Cons.IH [OF 1(2) \<open>map_of flows1 fid = Some f1\<close> c(1)] c(2) show ?thesis by simp
  next
    case False
    then have "map_of flows1 fid = Some f"
      using 1(1) Cons.prems(2) by (auto simp: rx_packet_def r result_simps split: option.splits)
    from Cons.IH [OF 1(2) this Cons.prems(3)] False show ?thesis by (simp add: r)
  qed
qed

text \<open>The times of a run are known, and the schedule of the flow is in order; the grid starts \<open>x\<close> seconds after the
  traffic.\<close>

definition run_setup :: "run_times \<Rightarrow> pyfloat list \<Rightarrow> rat \<Rightarrow> bool" where
  "run_setup t offs x \<longleftrightarrow> (\<exists>anchor start. rc_anchor_ms t = Some anchor \<and> rc_traffic_start_ms t = Some start
       \<and> shift_of anchor start = Fin x)
     \<and> 0 \<le> rc_measure_seconds t \<and> rc_measure_seconds t < 2 ^ 53 \<and> in_order offs"

definition run_bounds :: "run_times \<Rightarrow> pyfloat list \<Rightarrow> rat \<Rightarrow> nat list" where
  "run_bounds t offs x = seg_bounds offs (Fin x) (rc_measure_seconds t)"

lemma run_bounds_facts:
  assumes "run_setup t offs x"
  shows "length (run_bounds t offs x) = Suc (nat (rc_measure_seconds t))" "sorted (run_bounds t offs x)"
    "k \<le> nat (rc_measure_seconds t) \<Longrightarrow> i < run_bounds t offs x ! k \<longleftrightarrow> i < length offs \<and> flt (offs ! i) (second_start (Fin x) (int k))"
  using assms seg_bounds_facts [of offs "Fin x" x "rc_measure_seconds t"] by (simp_all add: run_setup_def run_bounds_def)

lemma counted_new:
  assumes "run_setup t offs x"
  shows "counted t (run_bounds t offs x) {} (new_flow fid ue f pdb_ms offs)"
  using assms by (auto simp: run_setup_def run_bounds_def counted_def new_flow_def bounds_set_def count_of_def)

text \<open>The packets of a second: those the schedule sends in it.\<close>

definition scheduled_in :: "pyfloat list \<Rightarrow> rat \<Rightarrow> nat \<Rightarrow> nat set" where
  "scheduled_in offs x k = {i. i < length offs \<and> fle (second_start (Fin x) (int k)) (offs ! i)
     \<and> flt (offs ! i) (second_start (Fin x) (int k + 1))}"

lemma scheduled_in_bounds:
  assumes "run_setup t offs x" and "k < nat (rc_measure_seconds t)"
  shows "scheduled_in offs x k = {run_bounds t offs x ! k..<run_bounds t offs x ! Suc k}"
proof -
  have seconds: "0 \<le> rc_measure_seconds t" "rc_measure_seconds t < 2 ^ 53" and offs: "in_order offs"
    using assms(1) by (simp_all add: run_setup_def)
  have "\<bar>int k\<bar> < 2 ^ 53" using assms(2) seconds by linarith
  from rnd64_of_int [OF this] have "fl (int k) = Fin (of_int (int k))" by (simp add: fl_def)
  then have s: "second_start (Fin x) (int k) \<noteq> NaN" by (auto simp: second_start_def rnd64_def Let_def)
  have *: "\<not> flt (offs ! i) (second_start (Fin x) (int k)) \<longleftrightarrow> fle (second_start (Fin x) (int k)) (offs ! i)" if "i < length offs" for i
  proof -
    have "offs ! i \<noteq> NaN" using offs nth_mem [OF that] unfolding in_order_def by metis
    with s show ?thesis by (cases "offs ! i"; cases "second_start (Fin x) (int k)") auto
  qed
  have k: "k \<le> nat (rc_measure_seconds t)" "Suc k \<le> nat (rc_measure_seconds t)" "int (Suc k) = int k + 1" using assms(2) by simp_all
  have "i \<in> scheduled_in offs x k \<longleftrightarrow> i \<in> {run_bounds t offs x ! k..<run_bounds t offs x ! Suc k}" for i
    unfolding scheduled_in_def mem_Collect_eq atLeastLessThan_iff linorder_not_less [of i "run_bounds t offs x ! k", symmetric]
      run_bounds_facts(3) [OF assms(1) k(1)] run_bounds_facts(3) [OF assms(1) k(2)] k(3) using * by blast
  then show ?thesis by blast
qed

lemma counted_second:
  assumes "run_setup t offs x" and "counted t (run_bounds t offs x) R f" and "k < nat (rc_measure_seconds t)"
  shows "count_of (int k) (fs_received_by_seg f) = int (card (R \<inter> scheduled_in offs x k))"
proof -
  have "{i \<in> R. run_bounds t offs x ! k \<le> i \<and> i < run_bounds t offs x ! Suc k} = R \<inter> scheduled_in offs x k"
    unfolding scheduled_in_bounds [OF assms(1,3)] by auto
  moreover have "count_of (int k) (fs_received_by_seg f)
      = int (card {i \<in> R. run_bounds t offs x ! k \<le> i \<and> i < run_bounds t offs x ! Suc k})"
    using assms(2,3) unfolding counted_def by blast
  ultimately show ?thesis by simp
qed

lemma received_count_known:
  assumes "poll_receivers t recs flows = Ok flows'" and "map_of flows fid = Some (new_flow fid ue f pdb_ms offs)"
    and "run_setup t offs x"
  shows "\<exists>f'. map_of flows' fid = Some f' \<and> counted t (run_bounds t offs x) (seqs_in fid recs \<inter> {..<length offs}) f'"
proof -
  have "foldR (rx_packet t) recs flows = Ok flows'"
    using assms by (auto simp: poll_receivers_def run_setup_def split: if_splits)
  from rx_packets_counted [OF this assms(2) counted_new [OF assms(3)]] run_bounds_facts [OF assms(3)]
  show ?thesis by (auto simp: new_flow_def)
qed

text \<open>C4. Whatever comes in, in whatever order and however often, the packets the analyzer counts as received in a second
  are the different packets of the flow that arrived and that the send schedule, which is a function of the seed, puts
  into that second: a duplicate, an unknown number or another flow changes nothing.\<close>

theorem received_counts_distinct_packets:
  assumes "poll_receivers t recs flows = Ok flows'" and "map_of flows fid = Some (new_flow fid ue f pdb_ms offs)"
    and "run_setup t offs x" and "k < nat (rc_measure_seconds t)"
  shows "\<exists>f'. map_of flows' fid = Some f'
    \<and> count_of (int k) (fs_received_by_seg f') = int (card (seqs_in fid recs \<inter> scheduled_in offs x k))"
proof -
  obtain f' where "map_of flows' fid = Some f'" "counted t (run_bounds t offs x) (seqs_in fid recs \<inter> {..<length offs}) f'"
    using received_count_known [OF assms(1-3)] by blast
  moreover have "seqs_in fid recs \<inter> {..<length offs} \<inter> scheduled_in offs x k = seqs_in fid recs \<inter> scheduled_in offs x k"
    by (auto simp: scheduled_in_def)
  ultimately show ?thesis using counted_second [OF assms(3) _ assms(4)] by auto
qed

section \<open>Loss\<close>

lemma note_sent_all:
  "map_of flows fid = Some f \<Longrightarrow> \<exists>n. map_of (fold note_sent ticks flows) fid = Some (f\<lparr>fs_sent_next_seq := n\<rparr>)
    \<and> fs_sent_next_seq f \<le> n \<and> (\<forall>m. (fid, m) \<in> set ticks \<longrightarrow> m \<le> n)"
proof (induction ticks arbitrary: flows f)
  case Nil
  then show ?case by (intro exI [of _ "fs_sent_next_seq f"]) simp
next
  case (Cons x ticks)
  obtain v m where x: "x = (v, m)" by (cases x)
  show ?case
  proof (cases "v = fid")
    case True
    define f1 where "f1 = f\<lparr>fs_sent_next_seq := max (fs_sent_next_seq f) m\<rparr>"
    have "map_of (note_sent x flows) fid = Some f1" using Cons.prems True by (simp add: note_sent_def x f1_def)
    from Cons.IH [OF this] True show ?thesis by (fastforce simp: x f1_def)
  next
    case False
    then have "map_of (note_sent x flows) fid = Some f" using Cons.prems by (simp add: note_sent_def x split: option.split)
    from Cons.IH [OF this] False show ?thesis by (auto simp: x)
  qed
qed

lemma sent_by_segment_sane:
  assumes "sent_by_segment t now_ms live f = Ok (out, g)" and "run_setup t offs x" and "counted t (run_bounds t offs x) R f"
    and "\<forall>i\<in>R. int i < fs_sent_next_seq f" and "(k, s, r) \<in> set out"
  shows "0 < s \<and> 0 \<le> r \<and> r \<le> s"
proof -
  define B where "B = run_bounds t offs x"
  have eb: "ensure_bounds t f = (Some B, f\<lparr>fs_bounds := Some B\<rparr>)"
    using assms(3) by (intro ensure_bounds_set) (simp add: counted_def B_def)
  obtain last_k where last: "known_segments t now_ms live = Ok last_k"
    and out: "out = concat (map (\<lambda>k. let lo = int (B ! k); hi = min (int (B ! (k + 1))) (fs_sent_next_seq f)
      in if hi \<le> lo then [] else [(int k, (hi - lo, count_of (int k) (fs_received_by_seg f)))]) [0..<nat last_k])"
    using assms(1) by (auto simp: sent_by_segment_def eb result_simps Let_def cong: if_cong)
  have "last_k \<le> rc_measure_seconds t" using last by (auto simp: known_segments_def result_simps split: if_splits)
  moreover obtain i where i: "i < nat last_k" "k = int i" "s = min (int (B ! Suc i)) (fs_sent_next_seq f) - int (B ! i)"
    "r = count_of (int i) (fs_received_by_seg f)" "\<not> min (int (B ! Suc i)) (fs_sent_next_seq f) \<le> int (B ! i)"
    using assms(5) unfolding out by (auto simp: Let_def split: if_splits)
  ultimately have k: "i < nat (rc_measure_seconds t)" by simp
  have "R \<inter> scheduled_in offs x i \<subseteq> {B ! i..<nat (min (int (B ! Suc i)) (fs_sent_next_seq f))}"
    using assms(4) unfolding scheduled_in_bounds [OF assms(2) k] by (fastforce simp: B_def)
  then have "card (R \<inter> scheduled_in offs x i) \<le> nat (min (int (B ! Suc i)) (fs_sent_next_seq f)) - B ! i"
    using card_mono [OF finite_atLeastLessThan] by fastforce
  then show ?thesis using counted_second [OF assms(2,3) k] i by auto
qed

text \<open>No second reports more packets received than sent: the loss rate \<open>(sent - received) / sent\<close> the reports give is a
  rate between 0 and 1, and its denominator is never 0, if every packet that arrived was in the progress the sender
  had logged when the sent packets were read.\<close>

theorem loss_rate_is_a_rate:
  assumes "poll_receivers t recs flows = Ok flows'" and "map_of flows fid = Some (new_flow fid ue f pdb_ms offs)"
    and "run_setup t offs x" and "\<forall>i\<in>seqs_in fid recs. \<exists>n. (fid, n) \<in> set ticks \<and> int i < n"
    and "map_of (fold note_sent ticks flows') fid = Some g" and "sent_by_segment t now_ms live g = Ok (out, g')"
  shows "\<forall>(k, s, r)\<in>set out. 0 < s \<and> 0 \<le> r \<and> r \<le> s"
proof -
  obtain f' where f': "map_of flows' fid = Some f'" "counted t (run_bounds t offs x) (seqs_in fid recs \<inter> {..<length offs}) f'"
    using received_count_known [OF assms(1-3)] by blast
  from note_sent_all [OF f'(1), of ticks] assms(5)
  obtain n where n: "g = f'\<lparr>fs_sent_next_seq := n\<rparr>" "\<forall>m. (fid, m) \<in> set ticks \<longrightarrow> m \<le> n" by auto
  have "counted t (run_bounds t offs x) (seqs_in fid recs \<inter> {..<length offs}) g"
    using f'(2) unfolding n(1) by (simp add: counted_def bounds_set_def)
  moreover have "\<forall>i\<in>seqs_in fid recs \<inter> {..<length offs}. int i < fs_sent_next_seq g" using assms(4) n by fastforce
  ultimately show ?thesis using sent_by_segment_sane [OF assms(6,3)] by auto
qed

text \<open>A flow that sends at 0 s and 1 s; the second packet comes twice, an unknown one once.\<close>

definition demo_times :: run_times where
  "demo_times = \<lparr>rc_anchor_ms = Some 5000, rc_measure_seconds = 2, rc_traffic_start_ms = Some 5000\<rparr>"

definition demo_rx :: "rx_record list" where
  "demo_rx = [(0, 1, 5999000000, 6000000000), (0, 1, 5999000000, 6000000000), (0, 9, 5999000000, 6000000000)]"

definition demo_start :: flow_table where
  "demo_start = [(0, new_flow 0 ''ue0'' demo_flow 300 [Fin 0, Fin 1])]"

lemma demo_setup: "run_setup demo_times [Fin 0, Fin 1] 0"
  by (simp add: run_setup_def demo_times_def shift_of_def fquot_def fl_def in_order_def)

lemma demo_polled: "\<exists>flows. poll_receivers demo_times demo_rx demo_start = Ok flows"
proof -
  have s: "segment_of_ms (run_clock.truncate demo_times) (fquot (fl 6000000000) (Fin 1000000)) = Ok (Some 1)"
    by (simp add: segment_of_ms_def demo_times_def run_clock.truncate_def fl_def fquot_def fsub_def ffloor_def int_of_rat_def
        float_eval result_simps)
  have b: "seg_bounds [Fin 0, Fin 1] (shift_of 5000 5000) 2 = [0, 1, 2]"
    by (simp add: seg_bounds_def shift_of_def fquot_def fl_def bisect_left_def numeral_nat upt_rec float_eval)
  show ?thesis
    by (simp add: poll_receivers_def demo_start_def demo_rx_def rx_packet_def new_flow_def take_packet_def nominal_segment_def
        ensure_bounds_def s segment_of_seq_def bisect_right_def result_simps b [simplified])
      (simp add: demo_times_def b segment_of_seq_def bisect_right_def result_simps file_bytes_def file_delay_def take_packet_def rx_packet_def)
qed

theorem received_counts_distinct_packets_witness:
  "case poll_receivers demo_times demo_rx demo_start of
      Inl e \<Rightarrow> False
    | Inr flows \<Rightarrow> (case map_of flows 0 of None \<Rightarrow> False | Some f \<Rightarrow> count_of 1 (fs_received_by_seg f) = 1)"
proof -
  obtain flows where f: "poll_receivers demo_times demo_rx demo_start = Ok flows" using demo_polled by blast
  have "second_start (Fin 0) 1 = Fin 1" "second_start (Fin 0) 2 = Fin 2" by (simp_all add: second_start_def fl_def float_eval)
  then have "seqs_in 0 demo_rx \<inter> scheduled_in [Fin 0, Fin 1] 0 1 = {1}"
    by (auto simp: demo_rx_def scheduled_in_def less_Suc_eq numeral_2_eq_2)
  then have c: "card (seqs_in 0 demo_rx \<inter> scheduled_in [Fin 0, Fin 1] 0 1) = 1" by simp
  have s: "map_of demo_start 0 = Some (new_flow 0 ''ue0'' demo_flow 300 [Fin 0, Fin 1])" by (simp add: demo_start_def)
  have k: "1 < nat (rc_measure_seconds demo_times)" by (simp add: demo_times_def)
  from received_counts_distinct_packets [OF f s demo_setup k] c
  obtain f' where "map_of flows 0 = Some f'" "count_of 1 (fs_received_by_seg f') = 1" by auto
  with f show ?thesis by simp
qed

theorem loss_rate_is_a_rate_witness:
  "case poll_receivers demo_times demo_rx demo_start of
      Inl e \<Rightarrow> False
    | Inr flows \<Rightarrow>
        (case map_of (fold note_sent [(0, 10)] flows) 0 of
           None \<Rightarrow> False
         | Some g \<Rightarrow>
             (case sent_by_segment demo_times (Fin 0) False g of
                Inl e \<Rightarrow> False
              | Inr (out, g') \<Rightarrow> \<forall>(k, s, r)\<in>set out. 0 < s \<and> 0 \<le> r \<and> r \<le> s))"
proof -
  obtain flows where f: "poll_receivers demo_times demo_rx demo_start = Ok flows" using demo_polled by blast
  have s: "map_of demo_start 0 = Some (new_flow 0 ''ue0'' demo_flow 300 [Fin 0, Fin 1])" by (simp add: demo_start_def)
  have "\<exists>f'. map_of flows 0 = Some f'"
    using received_count_known [OF f s demo_setup] by blast
  then obtain f' where f': "map_of flows 0 = Some f'" by blast
  obtain n where g: "map_of (fold note_sent [(0, 10)] flows) 0 = Some (f'\<lparr>fs_sent_next_seq := n\<rparr>)"
    using note_sent_all [OF f', of "[(0, 10)]"] by blast
  have "\<exists>r. sent_by_segment demo_times (Fin 0) False (f'\<lparr>fs_sent_next_seq := n\<rparr>) = Ok r"
    by (simp add: sent_by_segment_def known_segments_def split: option.split prod.split)
  then obtain out g' where o: "sent_by_segment demo_times (Fin 0) False (f'\<lparr>fs_sent_next_seq := n\<rparr>) = Ok (out, g')"
    by (metis prod.exhaust)
  have "\<forall>i\<in>seqs_in 0 demo_rx. \<exists>n. (0, n) \<in> set [(0 :: int, 10 :: int)] \<and> int i < n" by (simp add: demo_rx_def)
  from loss_rate_is_a_rate [OF f s demo_setup this g o] f g o show ?thesis by simp
qed

end
