(* ===== verification/BenchStats.thy ===== *)
theory BenchStats
  imports BenchFlows
begin

text \<open>
  The statistics of \<^verbatim>\<open>use_cases/scheduler_benchmark/analyze.py\<close>: nearest-rank percentiles and summaries, Jain's
  index, the block length from the lag-1 autocorrelation, and the confidence interval of paired differences by batch
  means. \<open>statistics.stdev\<close> and \<open>math.sqrt\<close> are parameters.
\<close>

section \<open>Percentiles\<close>

text \<open>\<open>sorted\<close> on floats.\<close>

fun insert_asc :: "pyfloat \<Rightarrow> pyfloat list \<Rightarrow> pyfloat list" where
  "insert_asc x [] = [x]"
| "insert_asc x (y # ys) = (if flt y x then y # insert_asc x ys else x # y # ys)"

definition fsorted :: "pyfloat list \<Rightarrow> pyfloat list" where
  "fsorted xs = foldr insert_asc xs []"

definition fceil :: "pyfloat \<Rightarrow> int result" where
  "fceil = int_of_rat (\<lambda>r. \<lceil>r\<rceil>)"

definition nearest_rank :: "pyfloat \<Rightarrow> int \<Rightarrow> int result" where
  "nearest_rank q n = bindR (fceil (fmul q (fl n))) (\<lambda>c. Ok (max 0 (min (n - 1) (c - 1))))"

definition percentile :: "pyfloat list \<Rightarrow> pyfloat \<Rightarrow> pyfloat option result" where
  "percentile values q =
     (if values = [] then Ok None
      else bindR (nearest_rank q (int (length values))) (\<lambda>r. Ok (Some (fsorted values ! nat r))))"

record stat_summary =
  sy_count :: int
  sy_mean :: "pyfloat option"
  sy_p50 :: "pyfloat option"
  sy_p95 :: "pyfloat option"
  sy_p99 :: "pyfloat option"
  sy_max :: "pyfloat option"

definition summary :: "pyfloat list \<Rightarrow> stat_summary result" where
  "summary values =
     (if values = [] then Ok \<lparr>sy_count = 0, sy_mean = None, sy_p50 = None, sy_p95 = None, sy_p99 = None, sy_max = None\<rparr>
      else let ordered = fsorted values; n = int (length ordered)
           in bindR (fdiv (fsum ordered) (fl n)) (\<lambda>mean.
              bindR (nearest_rank (rnd64 (1/2)) n) (\<lambda>r50.
              bindR (nearest_rank (rnd64 (95/100)) n) (\<lambda>r95.
              bindR (nearest_rank (rnd64 (99/100)) n) (\<lambda>r99.
              Ok \<lparr>sy_count = n, sy_mean = Some mean, sy_p50 = Some (ordered ! nat r50), sy_p95 = Some (ordered ! nat r95),
                  sy_p99 = Some (ordered ! nat r99), sy_max = Some (last ordered)\<rparr>)))))"

section \<open>Jain's index\<close>

definition jain :: "pyfloat option list \<Rightarrow> pyfloat option result" where
  "jain values =
     (let vs = concat (map (\<lambda>v. case v of None \<Rightarrow> [] | Some v \<Rightarrow> [v]) values)
      in if vs = [] then Ok None
         else let total = fsum vs; squares = fsum (map (\<lambda>v. fmul v v) vs)
              in if squares = Fin 0 then Ok None
                 else bindR (fdiv (fmul total total) (fmul (fl (int (length vs))) squares)) (\<lambda>j. Ok (Some j)))"

section \<open>Batch means\<close>

definition BOOTSTRAP_BLOCK :: int where "BOOTSTRAP_BLOCK = 10"

text \<open>\<open>x ** 2\<close> raises when it is beyond the range.\<close>

definition fsquare :: "pyfloat \<Rightarrow> pyfloat result" where
  "fsquare x = (case x of Fin r \<Rightarrow> (case rnd64 (r * r) of Fin q \<Rightarrow> Ok (Fin q) | _ \<Rightarrow> Err OverflowError) | NaN \<Rightarrow> Ok NaN | _ \<Rightarrow> Ok PInf)"

definition bootstrap_block_length :: "pyfloat list \<Rightarrow> int result" where
  "bootstrap_block_length ds =
     (let n = int (length ds)
      in bindR (fdiv (fsum ds) (fl n)) (\<lambda>mean.
         bindR (mapR (\<lambda>d. fsquare (fsub d mean)) ds) (\<lambda>squares.
         let var = fsum squares
         in if var = Fin 0 then Ok BOOTSTRAP_BLOCK
            else bindR (fdiv (fsum (map (\<lambda>i. fmul (fsub (ds ! i) mean) (fsub (ds ! (i + 1)) mean)) [0..<length ds - 1])) var) (\<lambda>r.
                 let r = fmin (fmax r (Fin 0)) (rnd64 (95/100))
                 in bindR (fdiv (fadd (Fin 1) r) (fsub (Fin 1) r)) (\<lambda>tau.
                    bindR (fceil (fmul (Fin 2) tau)) (\<lambda>c.
                    Ok (min (max BOOTSTRAP_BLOCK c) (max BOOTSTRAP_BLOCK (n div 4)))))))))"

definition T_975 :: "(int \<times> rat) list" where
  "T_975 = [(1, 12706/1000), (2, 4303/1000), (3, 3182/1000), (4, 2776/1000), (5, 2571/1000), (6, 2447/1000), (7, 2365/1000),
     (8, 2306/1000), (9, 2262/1000), (10, 2228/1000), (11, 2201/1000), (12, 2179/1000), (13, 2160/1000), (14, 2145/1000),
     (15, 2131/1000), (16, 2120/1000), (17, 2110/1000), (18, 2101/1000), (19, 2093/1000), (20, 2086/1000), (21, 2080/1000),
     (22, 2074/1000), (23, 2069/1000), (24, 2064/1000), (25, 2060/1000), (26, 2056/1000), (27, 2052/1000), (28, 2048/1000),
     (29, 2045/1000), (30, 2042/1000)]"

definition t_quantile :: "int \<Rightarrow> pyfloat" where
  "t_quantile df = rnd64 (case map_of T_975 df of None \<Rightarrow> 196/100 | Some q \<Rightarrow> q)"

definition batch_means_ci ::
  "(pyfloat list \<Rightarrow> pyfloat result) \<Rightarrow> (pyfloat \<Rightarrow> pyfloat) \<Rightarrow> pyfloat list \<Rightarrow> (pyfloat \<times> pyfloat) option result" where
  "batch_means_ci stdev sqrtf ds =
     (let n = int (length ds)
      in if n < 2 * BOOTSTRAP_BLOCK then Ok None
         else bindR (bootstrap_block_length ds) (\<lambda>block.
           let m = n div block
           in if m < 3 then Ok None
              else bindR (mapR (\<lambda>i. fdiv (fsum (take (nat block) (drop (i * nat block) ds))) (fl block)) [0..<nat m]) (\<lambda>means.
                   bindR (fdiv (fsum (take (nat (m * block)) ds)) (fl (m * block))) (\<lambda>mean.
                   bindR (stdev means) (\<lambda>sd.
                   bindR (fdiv (fmul (t_quantile (m - 1)) sd) (sqrtf (fl m))) (\<lambda>half.
                   Ok (Some (fsub mean half, fadd mean half))))))))"

section \<open>Percentiles are in order\<close>

lemma set_insert_asc [simp]: "set (insert_asc x ys) = insert x (set ys)"
  by (induction ys) auto

lemma length_insert_asc [simp]: "length (insert_asc x ys) = Suc (length ys)"
  by (induction ys) auto

lemma fsorted_simps [simp]: "fsorted [] = []" "fsorted (x # xs) = insert_asc x (fsorted xs)"
  by (simp_all add: fsorted_def)

lemma set_fsorted [simp]: "set (fsorted xs) = set xs" by (induction xs) simp_all

lemma length_fsorted [simp]: "length (fsorted xs) = length xs" by (induction xs) simp_all

lemma not_flt_fle: "a \<noteq> NaN \<Longrightarrow> b \<noteq> NaN \<Longrightarrow> \<not> flt a b \<Longrightarrow> fle b a"
  by (cases a; cases b) auto

lemma in_order_insert_asc: "x \<noteq> NaN \<Longrightarrow> in_order ys \<Longrightarrow> in_order (insert_asc x ys)"
proof (induction ys)
  case Nil
  then show ?case by (simp add: in_order_def)
next
  case (Cons y ys)
  then have ys: "in_order ys" "y \<noteq> NaN" "\<forall>z\<in>set ys. fle y z" by (auto simp: in_order_def)
  show ?case
  proof (cases "flt y x")
    case True
    with Cons ys show ?thesis by (auto simp: in_order_def intro: flt_imp_fle)
  next
    case False
    with not_flt_fle [OF ys(2) Cons.prems(1)] have "fle x y" by simp
    with False Cons.prems ys show ?thesis by (auto simp: in_order_def intro: fle_trans)
  qed
qed

lemma in_order_fsorted: "NaN \<notin> set xs \<Longrightarrow> in_order (fsorted xs)"
  by (induction xs) (auto simp: in_order_insert_asc in_order_def [of "[]"])

lemma in_order_nth: "in_order xs \<Longrightarrow> i \<le> j \<Longrightarrow> j < length xs \<Longrightarrow> fle (xs ! i) (xs ! j)"
  by (cases "i = j") (auto simp: in_order_def sorted_wrt_iff_nth_less in_set_conv_nth intro!: fle_refl)

lemma nearest_rank_range: "nearest_rank q n = Ok r \<Longrightarrow> 0 < n \<Longrightarrow> 0 \<le> r \<and> r < n"
  by (auto simp: nearest_rank_def result_simps)

lemma fmul_mono_left:
  assumes "a \<le> b" and "0 \<le> c"
  shows "fle (rnd64 (a * c)) (rnd64 (b * c))"
  using assms by (intro rnd64_mono mult_right_mono)

lemma nearest_rank_mono:
  assumes "fle (Fin 0) p" and "fle p q" and "0 < n" and "nearest_rank p n = Ok i" and "nearest_rank q n = Ok j"
  shows "i \<le> j"
proof -
  obtain a b where ab: "fceil (fmul p (fl n)) = Ok a" "i = max 0 (min (n - 1) (a - 1))" "fceil (fmul q (fl n)) = Ok b" "j = max 0 (min (n - 1) (b - 1))"
    using assms(4,5) by (auto simp: nearest_rank_def result_simps)
  have "fle (Fin 0) (fl n)" using assms(3) by (simp add: fl_def fle_zero_rnd64)
  then have "fle (fmul p (fl n)) (fmul q (fl n))"
    using ab(1,3) assms(1,2) by (cases p; cases q; cases "fl n")
      (auto simp: fceil_def int_of_rat_def sgn_inf_def fmul_mono_left split: if_splits)
  then have "a \<le> b" using ab(1,3)
    by (cases "fmul p (fl n)"; cases "fmul q (fl n)") (auto simp: fceil_def int_of_rat_def intro: ceiling_mono)
  then show ?thesis using ab by auto
qed

lemma quantiles: "fle (Fin 0) (rnd64 (1/2))" "fle (rnd64 (1/2)) (rnd64 (95/100))" "fle (rnd64 (95/100)) (rnd64 (99/100))"
  by (rule fle_zero_rnd64) (auto intro: rnd64_mono)

lemma nearest_rank_ok:
  assumes "0 \<le> q" and "q \<le> 1" and "0 < n" and "n < 2 ^ 53"
  shows "\<exists>r. nearest_rank (rnd64 q) n = Ok r"
proof -
  obtain y where y: "rnd64 q = Fin y" "0 \<le> y" "y \<le> 1" using rnd64_between [of 0 1 q] assms(1,2) is_f64_of_int [of 1] by auto
  have f: "fl n = Fin (of_int n)" using rnd64_of_int [of n] assms(3,4) by (simp add: fl_def)
  have "y * of_int n \<le> 1 * of_int n" using y(3) assms(3) by (intro mult_right_mono) simp_all
  moreover have "is_f64 (of_int n)" using assms(3,4) by (intro is_f64_of_int) simp
  ultimately obtain z where "rnd64 (y * of_int n) = Fin z"
    using rnd64_between [of 0 "of_int n" "y * of_int n"] y(2) assms(3) by auto
  then show ?thesis by (simp add: nearest_rank_def fceil_def int_of_rat_def f y(1) result_simps)
qed

lemma summary_parts:
  assumes "summary values = Ok s" and "values \<noteq> []" and "NaN \<notin> set values"
  shows "\<exists>a b c d. sy_p50 s = Some a \<and> sy_p95 s = Some b \<and> sy_p99 s = Some c \<and> sy_max s = Some d
    \<and> {a, b, c, d} \<subseteq> set values \<and> fle a b \<and> fle b c \<and> fle c d \<and> list_all (\<lambda>v. fle v d) values \<and> sy_count s = int (length values)"
proof -
  define o' where "o' = fsorted values"
  define n where "n = int (length values)"
  have n: "0 < n" using assms(2) by (simp add: n_def)
  have o': "in_order o'" "length o' = length values" "set o' = set values" using in_order_fsorted [OF assms(3)] by (simp_all add: o'_def)
  obtain r50 r95 r99 where r: "nearest_rank (rnd64 (1/2)) n = Ok r50" "nearest_rank (rnd64 (95/100)) n = Ok r95"
    "nearest_rank (rnd64 (99/100)) n = Ok r99"
    and s: "sy_p50 s = Some (o' ! nat r50)" "sy_p95 s = Some (o' ! nat r95)" "sy_p99 s = Some (o' ! nat r99)"
      "sy_max s = Some (last o')" "sy_count s = n"
    using assms(1,2) by (auto simp: summary_def Let_def result_simps n_def o'_def)
  have le: "r50 \<le> r95" "r95 \<le> r99"
    using nearest_rank_mono [OF quantiles(1,2) n r(1,2)] nearest_rank_mono [OF _ quantiles(3) n r(2,3)] fle_trans [OF quantiles(1,2)]
    by simp_all
  have range: "0 \<le> r50" "r99 < n" "0 \<le> r95" "0 \<le> r99" using nearest_rank_range [OF r(1) n] nearest_rank_range [OF r(3) n] le by auto
  have last: "last o' = o' ! (length values - 1)" using assms(2) o'(2) last_conv_nth [of o'] by (metis length_0_conv)
  have idx: "nat r50 \<le> nat r95" "nat r95 \<le> nat r99" "nat r99 \<le> length values - 1" "length values - 1 < length o'"
    using le range n o'(2) by (auto simp: n_def)
  have "fle v (last o')" if v: "v \<in> set values" for v
  proof -
    obtain i where "i < length o'" "v = o' ! i" using v o'(3) by (metis in_set_conv_nth)
    then show ?thesis unfolding last using in_order_nth [OF o'(1), of i "length values - 1"] idx(4) o'(2) by simp
  qed
  moreover have "fle (o' ! nat r50) (o' ! nat r95)" "fle (o' ! nat r95) (o' ! nat r99)" "fle (o' ! nat r99) (last o')"
    unfolding last using idx by (auto intro: in_order_nth [OF o'(1)])
  moreover have "{o' ! nat r50, o' ! nat r95, o' ! nat r99, last o'} \<subseteq> set values"
    unfolding last o'(3) [symmetric] using idx by auto
  ultimately show ?thesis using s by (auto simp: list_all_iff n_def)
qed

text \<open>A summary never fails, its percentiles are values of the sample, in the order p50, p95, p99, max, and nothing in the
  sample is above the last; for any non-empty sample without a NaN.\<close>

theorem summary_in_order:
  assumes "values \<noteq> []" and "NaN \<notin> set values" and "int (length values) < 2 ^ 53"
  shows "\<exists>s a b c d. summary values = Ok s \<and> sy_p50 s = Some a \<and> sy_p95 s = Some b \<and> sy_p99 s = Some c \<and> sy_max s = Some d
    \<and> {a, b, c, d} \<subseteq> set values \<and> fle a b \<and> fle b c \<and> fle c d \<and> list_all (\<lambda>v. fle v d) values \<and> sy_count s = int (length values)"
proof -
  have n: "0 < int (length values)" using assms(1) by simp
  have "fl (int (length values)) = Fin (of_int (int (length values)))"
    unfolding fl_def by (rule rnd64_of_int) (use assms(3) in simp)
  then obtain m where "fdiv (fsum (fsorted values)) (fl (int (length values))) = Ok m"
    using assms(1) by (cases "fsum (fsorted values)") auto
  moreover obtain a b c where "nearest_rank (rnd64 (1/2)) (int (length values)) = Ok a"
    "nearest_rank (rnd64 (95/100)) (int (length values)) = Ok b" "nearest_rank (rnd64 (99/100)) (int (length values)) = Ok c"
    using nearest_rank_ok [of "1/2", OF _ _ n assms(3)] nearest_rank_ok [of "95/100", OF _ _ n assms(3)]
      nearest_rank_ok [of "99/100", OF _ _ n assms(3)] by auto
  ultimately obtain s where "summary values = Ok s" using assms(1) by (simp add: summary_def Let_def)
  with summary_parts [OF this assms(1,2)] show ?thesis by blast
qed

theorem summary_in_order_witness:
  "\<exists>s a b c d. summary [Fin 3, Fin 1, PInf] = Ok s \<and> sy_p50 s = Some a \<and> sy_p95 s = Some b \<and> sy_p99 s = Some c \<and> sy_max s = Some d
    \<and> {a, b, c, d} \<subseteq> set [Fin 3, Fin 1, PInf] \<and> fle a b \<and> fle b c \<and> fle c d
    \<and> list_all (\<lambda>v. fle v d) [Fin 3, Fin 1, PInf] \<and> sy_count s = int (length [Fin 3, Fin 1, PInf])"
  by (rule summary_in_order) simp_all

section \<open>When there is an interval\<close>

lemma block_length_bounds:
  "bootstrap_block_length ds = Ok b \<Longrightarrow> 10 \<le> b \<and> b \<le> max 10 (int (length ds) div 4)"
  by (auto simp: bootstrap_block_length_def Let_def result_simps BOOTSTRAP_BLOCK_def split: if_splits)

text \<open>The confidence interval of a paired difference exists exactly from 30 segments on, whatever the differences and
  however strong their autocorrelation: the block length stays between 10 and a quarter of the series, so that there
  are at least three batches. (Between 20 and 29 segments the function passes its own first check and still has no
  interval.)\<close>

theorem interval_from_thirty:
  assumes "batch_means_ci stdev sqrtf ds = Ok r"
  shows "r = None \<longleftrightarrow> length ds < 30"
proof (cases "length ds < 20")
  case True
  with assms show ?thesis by (simp add: batch_means_ci_def BOOTSTRAP_BLOCK_def Let_def)
next
  case False
  define n where "n = int (length ds)"
  have n: "20 \<le> n" using False by (simp add: n_def)
  then obtain b where b: "bootstrap_block_length ds = Ok b" and r: "(r = None) = (n div b < 3)"
    using assms by (auto simp: batch_means_ci_def BOOTSTRAP_BLOCK_def Let_def n_def result_simps split: if_splits)
  have bounds: "10 \<le> b" "b \<le> max 10 (n div 4)" using block_length_bounds [OF b] by (simp_all add: n_def)
  have "n div b < 3 \<longleftrightarrow> n < 30"
  proof (cases "n < 40")
    case True
    then have "b = 10" using bounds n by auto
    then show ?thesis by auto
  next
    case False
    then have "b * 4 \<le> n" using bounds by linarith
    then have "4 \<le> n div b" using bounds(1) zdiv_mono1 [of "b * 4" n b] by simp
    with False show ?thesis by simp
  qed
  with r show ?thesis by (simp add: n_def)
qed

lemma fsum_zeros: "fsum (replicate n (Fin 0)) = Fin 0"
  by (induction n) (simp_all add: fsum_def)

lemma demo_interval: "batch_means_ci (\<lambda>_. Ok (Fin 0)) (\<lambda>_. Fin 2) (replicate 30 (Fin 0)) = Ok (Some (Fin 0, Fin 0))"
proof -
  have m: "mapR (\<lambda>d. fsquare (fsub d (Fin 0))) (replicate n (Fin 0)) = Ok (replicate n (Fin 0))" for n
    by (induction n) (simp_all add: fsquare_def fsub_def result_simps)
  have b: "bootstrap_block_length (replicate 30 (Fin 0)) = Ok 10"
    by (simp add: bootstrap_block_length_def Let_def fsum_zeros fl_def float_eval m result_simps BOOTSTRAP_BLOCK_def del: replicate.simps)
  obtain y where y: "rnd64 (4303 / 1000) = Fin y"
    using rnd64_between [of 4 5 "4303 / 1000"] is_f64_of_int [of 4] is_f64_of_int [of 5] by auto
  show ?thesis
    by (simp add: batch_means_ci_def Let_def b y BOOTSTRAP_BLOCK_def fsum_zeros fl_def float_eval result_simps fsub_def
        numeral_3_eq_3 t_quantile_def T_975_def del: replicate.simps)
qed

theorem interval_from_thirty_witness: "(Some (Fin 0, Fin 0) :: (pyfloat \<times> pyfloat) option) = None \<longleftrightarrow> length (replicate 30 (Fin 0)) < 30"
  by (rule interval_from_thirty [OF demo_interval])

end
