(* ===== verification/BenchIngest.thy ===== *)
theory BenchIngest
  imports BenchStats Scenario StatusStore
begin

text \<open>
  The state of \<open>RunAnalyzer\<close> in \<^verbatim>\<open>use_cases/scheduler_benchmark/analyze.py\<close> and the polls that feed it: the
  bridge's status lines, the traffic start, the radio identities of the UEs, the scheduler's log and reports, the UEs'
  metrics, the senders' progress and the receivers' records. What a \<open>TailReader\<close> has new is the function
  \<open>new_lines\<close> from the file's name to the complete lines, what a whole file holds is \<open>text_of\<close>, and \<open>loads\<close>
  is \<open>json.loads\<close>. A row of the UEs' metrics that can not be read is skipped, any other exception ends the poll.
\<close>

section \<open>Values of a report\<close>

text \<open>\<open>x.get(k, d)\<close> of a value that must be an object, \<open>x[k]\<close>, and \<open>int(x)\<close>.\<close>

definition attr_get_or :: "string \<Rightarrow> pyval \<Rightarrow> pyval \<Rightarrow> pyval result" where
  "attr_get_or k d v = (case v of VDict m \<Rightarrow> Ok (vget_or k d m) | _ \<Rightarrow> Err (AttributeError ''get''))"

definition item_of :: "string \<Rightarrow> pyval \<Rightarrow> pyval result" where
  "item_of k v = (case v of VDict m \<Rightarrow> need (map_of m k) k | _ \<Rightarrow> Err (TypeError ''indices must be integers''))"

definition to_int :: "pyval \<Rightarrow> int result" where
  "to_int v =
     (case v of
        VInt i \<Rightarrow> Ok i
      | VBool b \<Rightarrow> Ok (of_bool b)
      | VFloat x \<Rightarrow> ftrunc x
      | VStr s \<Rightarrow> (case parse_int s of None \<Rightarrow> Err (ValueError ''invalid literal for int()'') | Some i \<Rightarrow> Ok i)
      | _ \<Rightarrow> Err (TypeError ''int() argument must be a string or a real number''))"

text \<open>\<open>for x in v or []\<close>.\<close>

definition items_or_none :: "pyval \<Rightarrow> pyval list result" where
  "items_or_none v = (if truthy v then iter_items v else Ok [])"

section \<open>The analyzer\<close>

record ue_side =
  ud_pci :: pyfloat
  ud_dl_snr :: pyfloat
  ud_dl_mcs :: pyfloat
  ud_rsrp :: pyfloat
  ud_dl_bler :: pyfloat
  ud_ul_bler :: pyfloat
  ud_cpu :: "pyfloat list"

record sionna_update =
  su_grid_index :: pyval
  su_scenario_time_s :: pyval
  su_lag_ms :: pyval
  su_skipped :: pyval
  su_positions :: pyval
  su_digest :: pyval
  su_generation_ms :: pyval
  su_fanout_ack_ms :: "pyval list"
  su_fanout_ok :: "bool option"
  su_channels :: "(pyval \<times> pydict) list"

type_synonym ue_rows = "(int \<times> (string \<times> pydict list) list) list"

record analyzer =
  an_benchmark :: benchmark
  an_cells :: "bench_cell list"
  an_ue_cell :: "(string \<times> string) list"
  an_ue_meta :: "(string \<times> bench_ue) list"
  an_times :: run_times
  an_flows :: flow_table
  an_rnti :: "(string \<times> (string \<times> string) list) list"
  an_sched :: "(string \<times> cell_sched) list"
  an_gnb_metrics :: "(string \<times> ue_rows) list"
  an_cell_metrics :: "(string \<times> (int \<times> pyval list) list) list"
  an_ue_header :: "(string \<times> string list) list"
  an_ue_side :: "(string \<times> (int \<times> ue_side) list) list"
  an_sionna :: "sionna_update list"
  an_ue_start_ms :: "(string \<times> int) list"
  an_sender_reports :: "(string \<times> pyval) list"

definition run_ues :: "benchmark \<Rightarrow> (string \<times> bench_ue) list" where
  "run_ues bk = concat (map (\<lambda>(name, ues). map (Pair name) ues) (bk_cells bk))"

definition new_analyzer :: "benchmark \<Rightarrow> analyzer" where
  "new_analyzer bk =
     (let cells = filter (\<lambda>c. map_of (bk_cells bk) (ce_name c) \<noteq> None) CELLS; names = map ce_name cells;
          ue_cell = fold (\<lambda>(name, ue). AList.update (bu_device_id ue) name) (run_ues bk) []
      in \<lparr>an_benchmark = bk, an_cells = cells, an_ue_cell = ue_cell,
          an_ue_meta = fold (\<lambda>(name, ue). AList.update (bu_device_id ue) ue) (run_ues bk) [],
          an_times = \<lparr>rc_anchor_ms = None, rc_measure_seconds = bk_measure_seconds bk, rc_traffic_start_ms = None\<rparr>,
          an_flows = [], an_rnti = map (\<lambda>n. (n, [])) names, an_sched = map (\<lambda>n. (n, new_cell)) names,
          an_gnb_metrics = map (\<lambda>n. (n, [])) names, an_cell_metrics = map (\<lambda>n. (n, [])) names, an_ue_header = [],
          an_ue_side = map (\<lambda>(ue, _). (ue, [])) ue_cell, an_sionna = [], an_ue_start_ms = [], an_sender_reports = []\<rparr>)"

definition clock_of :: "analyzer \<Rightarrow> run_clock" where
  "clock_of a = run_clock.truncate (an_times a)"

text \<open>The time of a record in milliseconds may be any JSON value.\<close>

definition segment_of_value :: "run_clock \<Rightarrow> pyval \<Rightarrow> int option result" where
  "segment_of_value c v =
     (if rc_anchor_ms c = None then Ok None
      else if is_num v then segment_of_ms c (num_of v) else Err (TypeError ''unsupported operand''))"

section \<open>The bridge's updates\<close>

definition link_status :: "pyval \<Rightarrow> (pyval \<times> pydict) list \<Rightarrow> (pyval \<times> pydict) list result" where
  "link_status status channels =
     (case status of
        VDict d \<Rightarrow>
          let link = vget ''link_id'' d
          in if \<not> truthy link then Ok channels
             else if \<not> hashable link then Err (TypeError ''unhashable type'')
             else Ok (AList.update (vnorm link)
               [(''path_power_db'', vget ''total_path_power_db'' d), (''tap_gain_db'', vget ''strongest_tap_gain_db'' d),
                (''rays'', vget ''ray_count'' d), (''taps'', vget ''tap_count'' d)] channels)
      | _ \<Rightarrow> Ok channels)"

definition note_anchor :: "pyval \<Rightarrow> analyzer \<Rightarrow> analyzer result" where
  "note_anchor anchor a =
     (if rc_anchor_ms (an_times a) = None \<and> truthy anchor
      then bindR (to_int anchor) (\<lambda>ms. Ok (a\<lparr>an_times := (an_times a)\<lparr>rc_anchor_ms := Some ms\<rparr>\<rparr>))
      else Ok a)"

definition update_of :: "pydict \<Rightarrow> pyval \<Rightarrow> sionna_update result" where
  "update_of record timeline =
     bindR (bindR (items_or_none (vget ''channels'' record)) (\<lambda>cs. foldR link_status cs [])) (\<lambda>channels.
     bindR (attr_get ''grid_index'' timeline) (\<lambda>grid_index. bindR (attr_get ''scenario_time_s'' timeline) (\<lambda>time_s.
     bindR (attr_get ''lag_ms'' timeline) (\<lambda>lag. bindR (attr_get ''skipped_grid_points'' timeline) (\<lambda>skipped.
     bindR (attr_get ''channel_generation'' (or_empty (vget ''timing_ms'' record))) (\<lambda>generation.
     bindR (items_or_none (vget ''fanout'' record)) (\<lambda>fanout.
     bindR (mapR (attr_get ''control_ack_unix_ms'') fanout) (\<lambda>acks.
     bindR (mapR (attr_get ''ok'') fanout) (\<lambda>oks.
     Ok \<lparr>su_grid_index = grid_index, su_scenario_time_s = time_s, su_lag_ms = lag, su_skipped = skipped,
         su_positions = vget ''positions'' record, su_digest = vget ''profile_sha256'' record, su_generation_ms = generation,
         su_fanout_ack_ms = acks, su_fanout_ok = (if fanout = [] then None else Some (list_all truthy oks)),
         su_channels = channels\<rparr>)))))))))"

definition sionna_record :: "pyval \<Rightarrow> analyzer \<Rightarrow> analyzer result" where
  "sionna_record v a =
     (case v of
        VDict record \<Rightarrow>
          let timeline = or_empty (vget ''timeline'' record)
          in bindR (attr_get ''phase'' timeline) (\<lambda>phase.
             if \<not> py_eq phase (VStr ''run'') then Ok a
             else bindR (attr_get ''anchor_unix_ms'' timeline) (\<lambda>anchor.
                  bindR (note_anchor anchor a) (\<lambda>a.
                  bindR (update_of record timeline) (\<lambda>u. Ok (a\<lparr>an_sionna := an_sionna a @ [u]\<rparr>)))))
      | _ \<Rightarrow> Err (AttributeError ''get''))"

definition sionna_line :: "(string \<Rightarrow> pyval option) \<Rightarrow> string \<Rightarrow> analyzer \<Rightarrow> analyzer result" where
  "sionna_line loads line a =
     (if \<not> contains_sub ''\"sionna_rt_update\"'' line then Ok a
      else case loads line of None \<Rightarrow> Ok a | Some v \<Rightarrow> sionna_record v a)"

definition poll_sionna :: "(string \<Rightarrow> pyval option) \<Rightarrow> (string \<Rightarrow> string list) \<Rightarrow> analyzer \<Rightarrow> analyzer result" where
  "poll_sionna loads new_lines a = foldR (sionna_line loads) (new_lines ''sionna-status.jsonl'') a"

section \<open>The start of the traffic\<close>

definition poll_traffic_meta :: "(string \<Rightarrow> pyval option) \<Rightarrow> (string \<Rightarrow> string option) \<Rightarrow> analyzer \<Rightarrow> analyzer result" where
  "poll_traffic_meta loads text_of a =
     (if rc_traffic_start_ms (an_times a) \<noteq> None then Ok a
      else case Option.bind (text_of ''traffic-start.json'') loads of
        None \<Rightarrow> Ok a
      | Some meta \<Rightarrow>
          bindR (bindR (item_of ''start_at_unix_ms'' meta) to_int) (\<lambda>start.
          bindR (bindR (item_of ''duration_s'' meta) to_float) (\<lambda>duration.
          Ok (a\<lparr>an_times := (an_times a)\<lparr>rc_traffic_start_ms := Some start\<rparr>,
                an_benchmark := (an_benchmark a)\<lparr>bk_traffic_duration_s := Some duration\<rparr>\<rparr>))))"

definition poll_flows :: "random \<Rightarrow> (pyfloat \<Rightarrow> pyfloat) \<Rightarrow> analyzer \<Rightarrow> analyzer result option" where
  "poll_flows rand lg a =
     (if an_flows a \<noteq> [] \<or> rc_traffic_start_ms (an_times a) = None then Some (Ok a)
      else case build_flows rand lg (an_benchmark a) of
        None \<Rightarrow> None
      | Some r \<Rightarrow> Some (bindR r (\<lambda>flows. Ok (a\<lparr>an_flows := flows\<rparr>))))"

section \<open>Radio identities\<close>

text \<open>\<open>RNTI_LINE.search\<close>: the first place where the message is followed by white space and a hexadecimal identity.\<close>

definition is_hex :: "char \<Rightarrow> bool" where
  "is_hex c \<longleftrightarrow> is_digit c \<or> c \<in> set ''abcdef''"

definition rnti_at :: "string \<Rightarrow> string option" where
  "rnti_at s =
     (let m = ''Random Access Complete.''; r = drop (length m) s; v = dropWhile is_space r
      in if str_startswith m s \<and> r \<noteq> v \<and> str_startswith ''c-rnti=0x'' v \<and> takeWhile is_hex (drop 9 v) \<noteq> []
         then Some (''0x'' @ takeWhile is_hex (drop 9 v)) else None)"

fun rnti_search :: "string \<Rightarrow> string option" where
  "rnti_search [] = None"
| "rnti_search (c # s) = (case rnti_at (c # s) of None \<Rightarrow> rnti_search s | Some r \<Rightarrow> Some r)"

definition in_cell :: "string \<Rightarrow> ('a \<Rightarrow> 'a result) \<Rightarrow> (string \<times> 'a) list \<Rightarrow> (string \<times> 'a) list result" where
  "in_cell cell f m = bindR (need (map_of m cell) cell) (\<lambda>x. bindR (f x) (\<lambda>x. Ok (AList.update cell x m)))"

definition rnti_line :: "string \<Rightarrow> string \<Rightarrow> string \<Rightarrow> analyzer \<Rightarrow> analyzer result" where
  "rnti_line ue cell line a =
     (case rnti_search line of
        None \<Rightarrow> Ok a
      | Some r \<Rightarrow> bindR (in_cell cell (\<lambda>m. Ok (AList.update r ue m)) (an_rnti a)) (\<lambda>m. Ok (a\<lparr>an_rnti := m\<rparr>)))"

definition note_ue_start :: "string \<Rightarrow> string option \<Rightarrow> analyzer \<Rightarrow> analyzer" where
  "note_ue_start ue text a =
     (if map_of (an_ue_start_ms a) ue \<noteq> None then a
      else case Option.bind text (\<lambda>t. parse_int (str_strip t)) of
        None \<Rightarrow> a
      | Some ms \<Rightarrow> a\<lparr>an_ue_start_ms := AList.update ue ms (an_ue_start_ms a)\<rparr>)"

definition poll_rnti_ue ::
  "(string \<Rightarrow> string list) \<Rightarrow> (string \<Rightarrow> string option) \<Rightarrow> string \<times> string \<Rightarrow> analyzer \<Rightarrow> analyzer result" where
  "poll_rnti_ue new_lines text_of uc a =
     bindR (foldR (rnti_line (fst uc) (snd uc)) (new_lines (''srsue-'' @ fst uc @ ''.log'')) a) (\<lambda>a.
     Ok (note_ue_start (fst uc) (text_of (''srsue-'' @ fst uc @ ''.start_unix_ms'')) a))"

definition poll_rnti :: "(string \<Rightarrow> string list) \<Rightarrow> (string \<Rightarrow> string option) \<Rightarrow> analyzer \<Rightarrow> analyzer result" where
  "poll_rnti new_lines text_of a = foldR (poll_rnti_ue new_lines text_of) (an_ue_cell a) a"

section \<open>The scheduler's log and reports\<close>

definition poll_cell_sched ::
  "(string \<Rightarrow> log_line) \<Rightarrow> (string \<Rightarrow> string list) \<Rightarrow> string \<Rightarrow> string \<Rightarrow> analyzer \<Rightarrow> analyzer result" where
  "poll_cell_sched classify new_lines cell gnb a =
     bindR (need (map_of (an_rnti a) cell) cell) (\<lambda>rnti.
     bindR (in_cell cell (poll_sched classify (clock_of a) rnti (new_lines (gnb @ ''-internal.log''))) (an_sched a)) (\<lambda>m.
     Ok (a\<lparr>an_sched := m\<rparr>)))"

fun str_hex :: "nat \<Rightarrow> string" where
  "str_hex n = (if n < 16 then [''0123456789abcdef'' ! n] else str_hex (n div 16) @ [''0123456789abcdef'' ! (n mod 16)])"

declare str_hex.simps [simp del]

text \<open>The identity of a row as the log writes it; \<open>str\<close> of another value is never one.\<close>

definition rnti_key :: "pyval \<Rightarrow> string option" where
  "rnti_key v =
     (if is_int v then Some (''0x'' @ (if int_of v < 0 then ''-'' else []) @ str_hex (nat \<bar>int_of v\<bar>))
      else case v of VStr s \<Rightarrow> Some s | _ \<Rightarrow> None)"

definition add_row :: "int \<Rightarrow> string \<Rightarrow> pydict \<Rightarrow> ue_rows \<Rightarrow> ue_rows" where
  "add_row k ue row m =
     (let ues = (case map_of m k of None \<Rightarrow> [] | Some ues \<Rightarrow> ues); rows = (case map_of ues ue of None \<Rightarrow> [] | Some rows \<Rightarrow> rows)
      in AList.update k (AList.update ue (rows @ [row]) ues) m)"

definition metrics_row :: "string \<Rightarrow> int \<Rightarrow> pyval \<Rightarrow> analyzer \<Rightarrow> analyzer result" where
  "metrics_row cell k row a =
     (case row of
        VDict d \<Rightarrow>
          bindR (need (map_of (an_rnti a) cell) cell) (\<lambda>rnti.
          case Option.bind (rnti_key (vget ''rnti'' d)) (map_of rnti) of
            None \<Rightarrow> Ok a
          | Some ue \<Rightarrow> bindR (in_cell cell (\<lambda>m. Ok (add_row k ue d m)) (an_gnb_metrics a)) (\<lambda>m. Ok (a\<lparr>an_gnb_metrics := m\<rparr>)))
      | _ \<Rightarrow> Err (AttributeError ''get''))"

definition add_cell_metrics :: "string \<Rightarrow> int \<Rightarrow> pyval \<Rightarrow> analyzer \<Rightarrow> analyzer result" where
  "add_cell_metrics cell k v a =
     bindR (in_cell cell (\<lambda>m. Ok (AList.update k ((case map_of m k of None \<Rightarrow> [] | Some vs \<Rightarrow> vs) @ [v]) m)) (an_cell_metrics a)) (\<lambda>m.
     Ok (a\<lparr>an_cell_metrics := m\<rparr>))"

text \<open>An entry that is no object fails in the test of its keys, the access to one or its \<open>get\<close>.\<close>

definition cell_entry :: "string \<Rightarrow> int \<Rightarrow> pyval \<Rightarrow> analyzer \<Rightarrow> analyzer result" where
  "cell_entry cell k entry a =
     (case entry of
        VDict d \<Rightarrow>
          bindR (case map_of d ''cell_metrics'' of None \<Rightarrow> Ok a | Some v \<Rightarrow> add_cell_metrics cell k v a) (\<lambda>a.
          bindR (items_or_none (vget ''ue_list'' d)) (\<lambda>rows. foldR (metrics_row cell k) rows a))
      | VList xs \<Rightarrow> Err (if VStr ''cell_metrics'' \<in> set xs then TypeError ''list indices must be integers'' else AttributeError ''get'')
      | VStr s \<Rightarrow> Err (if contains_sub ''cell_metrics'' s then TypeError ''string indices must be integers'' else AttributeError ''get'')
      | _ \<Rightarrow> Err (TypeError ''argument is not iterable''))"

definition metrics_line :: "(string \<Rightarrow> pyval option) \<Rightarrow> string \<Rightarrow> string \<Rightarrow> analyzer \<Rightarrow> analyzer result" where
  "metrics_line loads cell line a =
     (case loads line of
        None \<Rightarrow> Ok a
      | Some record \<Rightarrow>
          bindR (attr_get ''payload'' record) (\<lambda>payload.
          bindR (bindR (attr_get_or ''rx_unix_ms'' (VInt 0) record) (segment_of_value (clock_of a))) (\<lambda>k.
          bindR (bindR (attr_get ''cells'' (or_empty payload)) items_or_none) (\<lambda>entries.
          case k of None \<Rightarrow> Ok a | Some k \<Rightarrow> foldR (cell_entry cell k) entries a))))"

definition poll_gnb_metrics ::
  "(string \<Rightarrow> pyval option) \<Rightarrow> (string \<Rightarrow> string list) \<Rightarrow> string \<Rightarrow> analyzer \<Rightarrow> analyzer result" where
  "poll_gnb_metrics loads new_lines cell a =
     foldR (metrics_line loads cell) (new_lines (''gnb-metrics-'' @ cell @ ''.jsonl'')) a"

definition poll_cell ::
  "(string \<Rightarrow> pyval option) \<Rightarrow> (string \<Rightarrow> log_line) \<Rightarrow> (string \<Rightarrow> string list) \<Rightarrow> bench_cell \<Rightarrow> analyzer \<Rightarrow> analyzer result" where
  "poll_cell loads classify new_lines c a =
     bindR (poll_cell_sched classify new_lines (ce_name c) (bg_device_id (ce_gnb c)) a) (poll_gnb_metrics loads new_lines (ce_name c))"

section \<open>The UEs' metrics\<close>

type_synonym csv_row = "string \<rightharpoonup> string"

definition csv_float :: "csv_row \<Rightarrow> string \<Rightarrow> pyfloat result" where
  "csv_float row key =
     bindR (need (row key) key) (\<lambda>text.
     case parse_float text of None \<Rightarrow> Err (ValueError ''could not convert string to float'') | Some x \<Rightarrow> Ok x)"

definition side_of :: "string list \<Rightarrow> csv_row \<Rightarrow> ue_side result" where
  "side_of header row =
     bindR (csv_float row ''pci'') (\<lambda>pci. bindR (csv_float row ''dl_snr'') (\<lambda>snr. bindR (csv_float row ''dl_mcs'') (\<lambda>mcs.
     bindR (csv_float row ''rsrp'') (\<lambda>rsrp. bindR (csv_float row ''dl_bler'') (\<lambda>dl_bler. bindR (csv_float row ''ul_bler'') (\<lambda>ul_bler.
     bindR (mapR (csv_float row) (filter (str_startswith ''cpu_'') header)) (\<lambda>cpu.
     Ok \<lparr>ud_pci = pci, ud_dl_snr = snr, ud_dl_mcs = mcs, ud_rsrp = rsrp, ud_dl_bler = dl_bler, ud_ul_bler = ul_bler, ud_cpu = cpu\<rparr>)))))))"

definition ue_row :: "run_clock \<Rightarrow> int \<Rightarrow> string list \<Rightarrow> csv_row \<Rightarrow> (int \<times> ue_side) option result" where
  "ue_row c start header row =
     bindR (csv_float row ''time'') (\<lambda>t. bindR (float_of_int start) (\<lambda>s.
     bindR (segment_of_ms c (fadd s t)) (\<lambda>k.
     case k of None \<Rightarrow> Ok None | Some k \<Rightarrow> bindR (side_of header row) (\<lambda>side. Ok (Some (k, side))))))"

text \<open>\<open>except (KeyError, ValueError): continue\<close>.\<close>

definition unreadable :: "py_error \<Rightarrow> bool" where
  "unreadable e = (case e of KeyError k \<Rightarrow> True | ValueError m \<Rightarrow> True | _ \<Rightarrow> False)"

definition ue_line :: "string \<Rightarrow> string \<Rightarrow> analyzer \<Rightarrow> analyzer result" where
  "ue_line ue line a =
     (if line = [] then Ok a
      else if str_startswith ''time;'' line then Ok (a\<lparr>an_ue_header := AList.update ue (str_split (CHR '';'') line) (an_ue_header a)\<rparr>)
      else case (map_of (an_ue_header a) ue, map_of (an_ue_start_ms a) ue) of
        (Some header, Some start) \<Rightarrow>
          let cols = str_split (CHR '';'') line
          in if length cols \<noteq> length header then Ok a
             else (case ue_row (clock_of a) start header (map_of (rev (zip header cols))) of
                Inl e \<Rightarrow> if unreadable e then Ok a else Err e
              | Inr None \<Rightarrow> Ok a
              | Inr (Some (k, side)) \<Rightarrow>
                  bindR (in_cell ue (\<lambda>m. Ok (AList.update k side m)) (an_ue_side a)) (\<lambda>m. Ok (a\<lparr>an_ue_side := m\<rparr>)))
      | _ \<Rightarrow> Ok a)"

definition poll_ue_metrics :: "(string \<Rightarrow> string list) \<Rightarrow> analyzer \<Rightarrow> analyzer result" where
  "poll_ue_metrics new_lines a =
     foldR (\<lambda>uc. foldR (ue_line (fst uc)) (new_lines (''srsue-metrics-'' @ fst uc @ ''.csv''))) (an_ue_cell a) a"

section \<open>The senders and the receivers\<close>

definition note_done :: "string \<times> pyval \<Rightarrow> flow_table \<Rightarrow> flow_table result" where
  "note_done x flows =
     bindR (to_int (VStr (fst x))) (\<lambda>fid.
     case map_of flows fid of
       None \<Rightarrow> Ok flows
     | Some f \<Rightarrow> bindR (to_int (snd x)) (\<lambda>seq.
         Ok (AList.update fid (f\<lparr>fs_sent_next_seq := max (fs_sent_next_seq f) seq, fs_sender_done := True\<rparr>) flows)))"

definition sender_done_line :: "(string \<Rightarrow> pyval option) \<Rightarrow> string \<Rightarrow> string \<Rightarrow> analyzer \<Rightarrow> analyzer result" where
  "sender_done_line loads name line a =
     (if \<not> contains_sub ''\"traffic_sender_done\"'' line then Ok a
      else case loads line of
        None \<Rightarrow> Ok a
      | Some report \<Rightarrow>
          bindR (attr_get ''next_seq'' report) (\<lambda>v.
          case or_empty v of
            VDict progress \<Rightarrow> bindR (foldR note_done progress (an_flows a)) (\<lambda>flows.
              Ok (a\<lparr>an_sender_reports := AList.update name report (an_sender_reports a), an_flows := flows\<rparr>))
          | _ \<Rightarrow> Err (AttributeError ''items'')))"

definition progress_names :: "analyzer \<Rightarrow> string list" where
  "progress_names a = ''tx-dl.csv'' # map (\<lambda>uc. ''tx-ul-'' @ fst uc @ ''.csv'') (an_ue_cell a)"

definition sender_log_names :: "analyzer \<Rightarrow> string list" where
  "sender_log_names a = ''traffic-dl-send.log'' # map (\<lambda>uc. ''traffic-ul-send-'' @ fst uc @ ''.log'') (an_ue_cell a)"

definition poll_senders ::
  "(string \<Rightarrow> pyval option) \<Rightarrow> (string \<Rightarrow> string list) \<Rightarrow> (string \<Rightarrow> string option) \<Rightarrow> analyzer \<Rightarrow> analyzer result" where
  "poll_senders loads new_lines text_of a =
     foldR (\<lambda>name. case text_of name of None \<Rightarrow> Ok | Some text \<Rightarrow> foldR (sender_done_line loads name) (splitlines text))
       (sender_log_names a)
       (a\<lparr>an_flows := poll_sender_lines (concat (map new_lines (progress_names a))) (an_flows a)\<rparr>)"

definition receiver_names :: "analyzer \<Rightarrow> string list" where
  "receiver_names a = map (\<lambda>uc. ''rx-dl-'' @ fst uc @ ''.bin'') (an_ue_cell a) @ [''rx-ul.bin'']"

definition poll_received :: "(string \<Rightarrow> rx_record list) \<Rightarrow> analyzer \<Rightarrow> analyzer result" where
  "poll_received new_records a =
     bindR (poll_receivers (an_times a) (concat (map new_records (receiver_names a))) (an_flows a)) (\<lambda>flows.
     Ok (a\<lparr>an_flows := flows\<rparr>))"

section \<open>A poll\<close>

text \<open>What the files of the run have, and the values of the libraries. A schedule without an end is \<open>None\<close>.\<close>

record run_files =
  rf_loads :: "string \<Rightarrow> pyval option"
  rf_classify :: "string \<Rightarrow> log_line"
  rf_new_lines :: "string \<Rightarrow> string list"
  rf_text_of :: "string \<Rightarrow> string option"
  rf_new_records :: "string \<Rightarrow> rx_record list"

definition poll_logs :: "run_files \<Rightarrow> analyzer \<Rightarrow> analyzer result" where
  "poll_logs fs a =
     bindR (poll_rnti (rf_new_lines fs) (rf_text_of fs) a) (\<lambda>a.
     bindR (foldR (poll_cell (rf_loads fs) (rf_classify fs) (rf_new_lines fs)) (an_cells a) a) (\<lambda>a.
     bindR (poll_ue_metrics (rf_new_lines fs) a) (\<lambda>a.
     bindR (poll_senders (rf_loads fs) (rf_new_lines fs) (rf_text_of fs) a) (poll_received (rf_new_records fs)))))"

definition poll :: "random \<Rightarrow> (pyfloat \<Rightarrow> pyfloat) \<Rightarrow> run_files \<Rightarrow> analyzer \<Rightarrow> analyzer result option" where
  "poll rand lg fs a =
     bindO (bindR (poll_sionna (rf_loads fs) (rf_new_lines fs) a) (poll_traffic_meta (rf_loads fs) (rf_text_of fs))) (\<lambda>a.
     case poll_flows rand lg a of None \<Rightarrow> None | Some r \<Rightarrow> Some (bindR r (poll_logs fs)))"

section \<open>Everything is filed under its cell and a second of the run\<close>

lemma set_update_subset: "set (AList.update k v m) \<subseteq> insert (k, v) (set m)"
  by (induction m) auto

definition all_pairs :: "('k \<Rightarrow> 'v \<Rightarrow> bool) \<Rightarrow> ('k \<times> 'v) list \<Rightarrow> bool" where
  "all_pairs P m \<longleftrightarrow> (\<forall>(k, v) \<in> set m. P k v)"

lemma all_pairs_Nil [simp]: "all_pairs P []" by (simp add: all_pairs_def)

lemma all_pairs_update: "all_pairs P m \<Longrightarrow> P k v \<Longrightarrow> all_pairs P (AList.update k v m)"
  using set_update_subset [of k v m] by (fastforce simp: all_pairs_def)

lemma all_pairs_get: "all_pairs P m \<Longrightarrow> map_of m k = Some v \<Longrightarrow> P k v"
  by (auto simp: all_pairs_def dest: map_of_SomeD)

lemma all_pairs_mono: "all_pairs P m \<Longrightarrow> (\<And>k v. P k v \<Longrightarrow> Q k v) \<Longrightarrow> all_pairs Q m"
  by (auto simp: all_pairs_def)

lemma in_cell_pairs:
  assumes "in_cell c f m = Ok m'" and "all_pairs P m" and "\<And>x y. P c x \<Longrightarrow> f x = Ok y \<Longrightarrow> P c y"
  shows "all_pairs P m'"
proof -
  obtain x y where "map_of m c = Some x" "f x = Ok y" "m' = AList.update c y m"
    using assms(1) by (auto simp: in_cell_def need_def result_simps split: option.splits)
  with assms(3) [OF all_pairs_get [OF assms(2)]] assms(2) show ?thesis by (simp add: all_pairs_update)
qed

definition run_second :: "int \<Rightarrow> int \<Rightarrow> bool" where
  "run_second seconds k \<longleftrightarrow> 0 \<le> k \<and> k < seconds"

definition ues_of :: "(string \<Rightarrow> bool) \<Rightarrow> (string \<times> 'a) list \<Rightarrow> bool" where
  "ues_of mine ues = all_pairs (\<lambda>ue _. mine ue) ues"

definition sched_filed :: "(string \<Rightarrow> bool) \<Rightarrow> int \<Rightarrow> cell_sched \<Rightarrow> bool" where
  "sched_filed mine seconds s = all_pairs (\<lambda>k g. run_second seconds k \<and> ues_of mine (sg_ue g)) (cs_seg s)"

lemma segment_of_ms_second: "segment_of_ms c x = Ok (Some k) \<Longrightarrow> run_second (rc_measure_seconds c) k"
  by (auto simp: segment_of_ms_def run_second_def result_simps split: option.splits if_splits)

lemma sched_filed_in_segment:
  assumes "sched_filed mine n s" and "run_second n k" and "\<And>g. ues_of mine (sg_ue g) \<Longrightarrow> ues_of mine (sg_ue (f g))"
  shows "sched_filed mine n (in_segment k f s)"
proof -
  have "ues_of mine (sg_ue (segment_of k s))"
    using assms(1) all_pairs_get [of _ "cs_seg s" k]
    by (fastforce simp: sched_filed_def segment_of_def new_segment_def ues_of_def split: option.split)
  with assms show ?thesis by (auto simp: sched_filed_def in_segment_def intro: all_pairs_update)
qed

lemma ues_of_in_ue: "mine ue \<Longrightarrow> ues_of mine (sg_ue g) \<Longrightarrow> ues_of mine (sg_ue (in_ue ue f g))"
  by (auto simp: ues_of_def in_ue_def intro: all_pairs_update)

lemma sched_filed_cong: "cs_seg s' = cs_seg s \<Longrightarrow> sched_filed mine n s' = sched_filed mine n s"
  by (simp add: sched_filed_def)

lemma sched_filed_fields [simp]:
  "sched_filed mine n (s\<lparr>cs_last_dl_newtx := x\<rparr>) = sched_filed mine n s" "sched_filed mine n (s\<lparr>cs_last_ul_newtx := y\<rparr>) = sched_filed mine n s"
  "sched_filed mine n (s\<lparr>cs_decision_us_all := z\<rparr>) = sched_filed mine n s" "sched_filed mine n (s\<lparr>cs_recent := u\<rparr>) = sched_filed mine n s"
  "sched_filed mine n (s\<lparr>cs_slot_samples := v\<rparr>) = sched_filed mine n s" "sched_filed mine n (s\<lparr>cs_lines := l\<rparr>) = sched_filed mine n s"
  "sched_filed mine n (s\<lparr>cs_nof_prb := l\<rparr>) = sched_filed mine n s"
  "sched_filed mine n (s\<lparr>cs_unwrap_last := w\<rparr>) = sched_filed mine n s" "sched_filed mine n (s\<lparr>cs_unwrap_base := b\<rparr>) = sched_filed mine n s"
  by (simp_all add: sched_filed_def)

lemma sched_filed_in_ue [simp]:
  assumes "sched_filed mine n s" and "run_second n k" and "mine ue"
  shows "sched_filed mine n (in_segment k (in_ue ue f) s)"
    and "sched_filed mine n (in_segment k (\<lambda>g. in_ue ue f (g\<lparr>sg_dl_prb := p g\<rparr>)) s)"
    and "sched_filed mine n (in_segment k (\<lambda>g. in_ue ue f (g\<lparr>sg_ul_prb := p g\<rparr>)) s)"
  using assms by (auto intro!: sched_filed_in_segment ues_of_in_ue)

definition seconds_only :: "int \<Rightarrow> int option \<Rightarrow> bool" where
  "seconds_only n k = (case k of None \<Rightarrow> True | Some k \<Rightarrow> run_second n k)"

lemma sched_filed_track:
  assumes "all_pairs (\<lambda>r. mine) rnti" and "seconds_only n k" and "sched_filed mine n s"
  shows "sched_filed mine n (track_dl rnti k slot d s)" and "sched_filed mine n (track_ul rnti k slot e s)"
  using assms(2,3) all_pairs_get [OF assms(1)]
  by (auto simp: track_dl_def track_ul_def Let_def seconds_only_def split: option.split)

lemma sched_filed_fold:
  "(\<And>x s. sched_filed mine n s \<Longrightarrow> sched_filed mine n (f x s)) \<Longrightarrow> sched_filed mine n s \<Longrightarrow> sched_filed mine n (fold f xs s)"
  by (induction xs arbitrary: s) auto

lemma sched_filed_gaps:
  assumes "all_pairs (\<lambda>r. mine) rnti" and "seconds_only n k" and "sched_filed mine n s"
  shows "sched_filed mine n (track_gaps rnti k slot l s)"
  unfolding track_gaps_def using assms by (intro sched_filed_fold sched_filed_track)

lemma sched_filed_abs_slot:
  "abs_slot sfn slot s = (x, s') \<Longrightarrow> sched_filed mine n s' = sched_filed mine n s"
  by (auto simp: abs_slot_def Let_def split: if_splits)

lemma sched_filed_line:
  assumes "sched_line c rnti l s = Ok s'" and "all_pairs (\<lambda>r. mine) rnti" and "sched_filed mine (rc_measure_seconds c) s"
  shows "sched_filed mine (rc_measure_seconds c) s'"
proof (cases l)
  case (SlotDecisions l)
  obtain slot s1 where s1: "abs_slot (sl_sfn l) (sl_slot l) (s\<lparr>cs_lines := cs_lines s + 1\<rparr>) = (slot, s1)" by (cases "abs_slot (sl_sfn l) (sl_slot l) (s\<lparr>cs_lines := cs_lines s + 1\<rparr>)")
  define s2 where "s2 = (if cs_slot_samples s1 = [] \<or> 50000000 \<le> sl_wall_ns l - fst (last (cs_slot_samples s1))
     then s1\<lparr>cs_slot_samples := cs_slot_samples s1 @ [(sl_wall_ns l, slot)]\<rparr> else s1)"
  define s3 where "s3 = s2\<lparr>cs_recent := deque_append RECENT_SLOTS (recent_of rnti slot l) (cs_recent s2)\<rparr>"
  have s3: "sched_filed mine (rc_measure_seconds c) s3"
    using assms(3) sched_filed_abs_slot [OF s1] by (simp add: s3_def s2_def)
  obtain k where k: "segment_of_ms c (fquot (fl (sl_wall_ns l)) (Fin 1000000)) = Ok k"
    and s': "s' = (case k of None \<Rightarrow> track_gaps rnti None slot l s3
       | Some k \<Rightarrow> track_gaps rnti (Some k) slot l ((in_segment k (note_decision slot l) s3)
           \<lparr>cs_decision_us_all := cs_decision_us_all s3 @ [ieee_round binary32 (sl_decision_us l)]\<rparr>))"
    using assms(1) unfolding SlotDecisions sched_line_def log_line.case slot_decisions_def s1 prod.case Let_def s2_def [symmetric]
      s3_def [symmetric]
    by (auto simp: result_simps)
  show ?thesis
  proof (cases k)
    case None
    with s' s3 assms(2) show ?thesis by (simp add: sched_filed_gaps seconds_only_def)
  next
    case (Some j)
    have j: "run_second (rc_measure_seconds c) j" using k Some by (auto dest: segment_of_ms_second)
    have "sched_filed mine (rc_measure_seconds c) (in_segment j (note_decision slot l) s3)"
      using s3 j by (rule sched_filed_in_segment) (simp add: note_decision_def)
    with s' Some j assms(2) show ?thesis by (simp add: sched_filed_gaps seconds_only_def)
  qed
qed (use assms in \<open>auto simp: sched_line_def\<close>)

lemma sched_filed_poll:
  assumes "poll_sched classify c rnti lines s = Ok s'" and "all_pairs (\<lambda>r. mine) rnti" and "sched_filed mine (rc_measure_seconds c) s"
  shows "sched_filed mine (rc_measure_seconds c) s'"
  using assms(1,3) unfolding poll_sched_def
  by (rule foldR_invariant) (use assms(2) in \<open>blast intro: sched_filed_line\<close>)

text \<open>The state of a run with the UEs \<open>uc\<close> and \<open>n\<close> measured seconds: each radio identity of a cell is a UE of it, and so is
  each UE in its accumulators and its reports, and all of it is filed under a second of the run.\<close>

definition filed :: "(string \<times> string) list \<Rightarrow> int \<Rightarrow> analyzer \<Rightarrow> bool" where
  "filed uc n a \<longleftrightarrow> an_ue_cell a = uc \<and> rc_measure_seconds (an_times a) = n
     \<and> all_pairs (\<lambda>c. all_pairs (\<lambda>r ue. map_of uc ue = Some c)) (an_rnti a)
     \<and> all_pairs (\<lambda>c. sched_filed (\<lambda>ue. map_of uc ue = Some c) n) (an_sched a)
     \<and> all_pairs (\<lambda>c. all_pairs (\<lambda>k ues. run_second n k \<and> ues_of (\<lambda>ue. map_of uc ue = Some c) ues)) (an_gnb_metrics a)
     \<and> all_pairs (\<lambda>c. all_pairs (\<lambda>k vs. run_second n k)) (an_cell_metrics a)
     \<and> all_pairs (\<lambda>u. all_pairs (\<lambda>k side. run_second n k)) (an_ue_side a)"

lemma filed_fields [simp]:
  "filed uc n (a\<lparr>an_flows := f\<rparr>) = filed uc n a" "filed uc n (a\<lparr>an_sionna := g\<rparr>) = filed uc n a"
  "filed uc n (a\<lparr>an_benchmark := b\<rparr>) = filed uc n a" "filed uc n (a\<lparr>an_ue_header := h\<rparr>) = filed uc n a"
  "filed uc n (a\<lparr>an_ue_start_ms := i\<rparr>) = filed uc n a" "filed uc n (a\<lparr>an_sender_reports := j\<rparr>) = filed uc n a"
  by (simp_all add: filed_def)

lemma filed_times: "filed uc n a \<Longrightarrow> rc_measure_seconds t = n \<Longrightarrow> filed uc n (a\<lparr>an_times := t\<rparr>)"
  by (simp add: filed_def)

lemma filed_clock: "filed uc n a \<Longrightarrow> rc_measure_seconds (clock_of a) = n"
  by (simp add: filed_def clock_of_def run_clock.truncate_def)

lemma filed_fold:
  assumes "foldR f xs a = Ok b" and "filed uc n a"
    and "\<And>x a b. x \<in> set xs \<Longrightarrow> f x a = Ok b \<Longrightarrow> filed uc n a \<Longrightarrow> filed uc n b"
  shows "filed uc n b"
  using assms(1,2) by (rule foldR_invariant) (rule assms(3))

lemma filed_sionna: "poll_sionna loads new_lines a = Ok b \<Longrightarrow> filed uc n a \<Longrightarrow> filed uc n b"
  unfolding poll_sionna_def
proof (erule filed_fold)
  fix line a b assume "sionna_line loads line a = Ok b" and a: "filed uc n a"
  then show "filed uc n b"
    by (auto simp: sionna_line_def sionna_record_def note_anchor_def Let_def result_simps split: if_splits option.splits pyval.splits)
      (auto simp: filed_def)
qed

lemma filed_traffic_meta: "poll_traffic_meta loads text_of a = Ok b \<Longrightarrow> filed uc n a \<Longrightarrow> filed uc n b"
  by (auto simp: poll_traffic_meta_def result_simps split: if_splits option.splits) (auto simp: filed_def)

lemma filed_flows: "poll_flows rand lg a = Some (Ok b) \<Longrightarrow> filed uc n a \<Longrightarrow> filed uc n b"
  by (auto simp: poll_flows_def result_simps split: if_splits option.splits)

lemma filed_rnti:
  assumes "poll_rnti new_lines text_of a = Ok b" and "filed uc n a" and "distinct (dict_keys uc)"
  shows "filed uc n b"
  using assms(1,2) unfolding poll_rnti_def
proof (rule filed_fold)
  fix u a' b' assume u: "u \<in> set (an_ue_cell a)" and "poll_rnti_ue new_lines text_of u a' = Ok b'" and a': "filed uc n a'"
  then obtain a1 where a1: "foldR (rnti_line (fst u) (snd u)) (new_lines (''srsue-'' @ fst u @ ''.log'')) a' = Ok a1"
    and b': "b' = note_ue_start (fst u) (text_of (''srsue-'' @ fst u @ ''.start_unix_ms'')) a1"
    by (auto simp: poll_rnti_ue_def result_simps)
  have mine: "map_of uc (fst u) = Some (snd u)" using u assms(2,3) by (simp add: filed_def)
  from a1 a' have "filed uc n a1"
  proof (rule filed_fold)
    fix line a b assume step: "rnti_line (fst u) (snd u) line a = Ok b" and a: "filed uc n a"
    show "filed uc n b"
    proof (cases "rnti_search line")
      case None
      with step a show ?thesis by (simp add: rnti_line_def)
    next
      case (Some r)
      then obtain m where m: "in_cell (snd u) (\<lambda>m. Ok (AList.update r (fst u) m)) (an_rnti a) = Ok m" "b = a\<lparr>an_rnti := m\<rparr>"
        using step by (auto simp: rnti_line_def result_simps)
      have "all_pairs (\<lambda>c. all_pairs (\<lambda>r ue. map_of uc ue = Some c)) m"
        using m(1) by (rule in_cell_pairs) (use a mine in \<open>auto simp: filed_def intro: all_pairs_update\<close>)
      with a m(2) show ?thesis by (simp add: filed_def)
    qed
  qed
  then show "filed uc n b'" unfolding b' by (simp add: note_ue_start_def split: option.split)
qed

lemma filed_sched:
  assumes "poll_cell_sched classify new_lines cell gnb a = Ok b" and "filed uc n a"
  shows "filed uc n b"
proof -
  obtain rnti m where r: "map_of (an_rnti a) cell = Some rnti"
    and m: "in_cell cell (poll_sched classify (clock_of a) rnti (new_lines (gnb @ ''-internal.log''))) (an_sched a) = Ok m"
    and b: "b = a\<lparr>an_sched := m\<rparr>"
    using assms(1) by (auto simp: poll_cell_sched_def need_def result_simps split: option.splits)
  have "all_pairs (\<lambda>r ue. map_of uc ue = Some cell) rnti"
    using assms(2) r all_pairs_get [of "\<lambda>c. all_pairs (\<lambda>r ue. map_of uc ue = Some c)"] by (auto simp: filed_def)
  then have "all_pairs (\<lambda>c. sched_filed (\<lambda>ue. map_of uc ue = Some c) n) m"
    using sched_filed_poll [where c = "clock_of a"] filed_clock [OF assms(2)] assms(2)
    by (intro in_cell_pairs [OF m]) (auto simp: filed_def)
  with assms(2) b show ?thesis by (simp add: filed_def)
qed

lemma add_row_filed:
  assumes "all_pairs (\<lambda>k ues. run_second n k \<and> ues_of mine ues) m" and "run_second n k" and "mine ue"
  shows "all_pairs (\<lambda>k ues. run_second n k \<and> ues_of mine ues) (add_row k ue row m)"
proof -
  define ues where "ues = (case map_of m k of None \<Rightarrow> [] | Some ues \<Rightarrow> ues)"
  have "ues_of mine ues" using all_pairs_get [OF assms(1), of k] by (auto simp: ues_def ues_of_def split: option.split)
  then have "ues_of mine (AList.update ue rows ues)" for rows using assms(3) by (simp add: ues_of_def all_pairs_update)
  with assms(1,2) show ?thesis by (simp add: add_row_def Let_def all_pairs_update flip: ues_def)
qed

lemma filed_metrics_row:
  assumes "metrics_row cell k row a = Ok b" and "filed uc n a" and "run_second n k"
  shows "filed uc n b"
proof -
  obtain d rnti where d: "row = VDict d" and r: "map_of (an_rnti a) cell = Some rnti"
    using assms(1) by (auto simp: metrics_row_def need_def result_simps split: pyval.splits option.splits)
  show ?thesis
  proof (cases "Option.bind (rnti_key (vget ''rnti'' d)) (map_of rnti)")
    case None
    with assms(1,2) d r show ?thesis by (simp add: metrics_row_def need_def)
  next
    case (Some ue)
    have "all_pairs (\<lambda>r ue. map_of uc ue = Some cell) rnti"
      using assms(2) r all_pairs_get [of "\<lambda>c. all_pairs (\<lambda>r ue. map_of uc ue = Some c)"] by (auto simp: filed_def)
    then have mine: "map_of uc ue = Some cell" using Some by (auto simp: bind_eq_Some_conv dest: all_pairs_get)
    obtain m where m: "in_cell cell (\<lambda>m. Ok (add_row k ue d m)) (an_gnb_metrics a) = Ok m" "b = a\<lparr>an_gnb_metrics := m\<rparr>"
      using assms(1) d r Some by (auto simp: metrics_row_def need_def result_simps)
    have "all_pairs (\<lambda>c. all_pairs (\<lambda>k ues. run_second n k \<and> ues_of (\<lambda>ue. map_of uc ue = Some c) ues)) m"
      using m(1) by (rule in_cell_pairs) (use assms(2,3) mine in \<open>auto simp: filed_def intro: add_row_filed\<close>)
    with assms(2) m(2) show ?thesis by (simp add: filed_def)
  qed
qed

lemma filed_cell_metrics:
  assumes "add_cell_metrics cell k v a = Ok b" and "filed uc n a" and "run_second n k"
  shows "filed uc n b"
proof -
  obtain m where m: "in_cell cell (\<lambda>m. Ok (AList.update k ((case map_of m k of None \<Rightarrow> [] | Some vs \<Rightarrow> vs) @ [v]) m)) (an_cell_metrics a) = Ok m"
    "b = a\<lparr>an_cell_metrics := m\<rparr>"
    using assms(1) by (auto simp: add_cell_metrics_def result_simps)
  have "all_pairs (\<lambda>c. all_pairs (\<lambda>k vs. run_second n k)) m"
    using m(1) by (rule in_cell_pairs) (use assms(2,3) in \<open>auto simp: filed_def intro: all_pairs_update\<close>)
  with assms(2) m(2) show ?thesis by (simp add: filed_def)
qed

lemma filed_entry:
  assumes "cell_entry cell k e a = Ok b" and "filed uc n a" and "run_second n k"
  shows "filed uc n b"
proof -
  obtain d a1 rows where d: "e = VDict d"
    and a1: "(case map_of d ''cell_metrics'' of None \<Rightarrow> Ok a | Some v \<Rightarrow> add_cell_metrics cell k v a) = Ok a1"
    and b: "foldR (metrics_row cell k) rows a1 = Ok b"
    using assms(1) by (auto simp: cell_entry_def result_simps split: pyval.splits)
  have "filed uc n a1" using a1 assms(2,3) by (auto intro: filed_cell_metrics split: option.splits)
  with b show ?thesis by (rule filed_fold) (rule filed_metrics_row [OF _ _ assms(3)])
qed

lemma filed_gnb_metrics: "poll_gnb_metrics loads new_lines cell a = Ok b \<Longrightarrow> filed uc n a \<Longrightarrow> filed uc n b"
  unfolding poll_gnb_metrics_def
proof (erule filed_fold)
  fix line a b assume step: "metrics_line loads cell line a = Ok b" and a: "filed uc n a"
  show "filed uc n b"
  proof (cases "loads line")
    case None
    with step a show ?thesis by (simp add: metrics_line_def)
  next
    case (Some v)
    then obtain t k entries where k: "segment_of_value (clock_of a) t = Ok k"
      and b: "(case k of None \<Rightarrow> Ok a | Some k \<Rightarrow> foldR (cell_entry cell k) entries a) = Ok b"
      using step by (auto simp: metrics_line_def result_simps)
    show ?thesis
    proof (cases k)
      case (Some j)
      have "run_second n j"
        using k Some filed_clock [OF a] segment_of_ms_second by (fastforce simp: segment_of_value_def split: if_splits)
      with b Some a show ?thesis by (auto intro: filed_fold filed_entry)
    qed (use b a in simp)
  qed
qed

lemma filed_ue_line:
  assumes "ue_line ue line a = Ok b" and "filed uc n a"
  shows "filed uc n b"
proof (cases "\<exists>m. b = a \<or> b = a\<lparr>an_ue_header := m\<rparr>")
  case False
  then obtain header start row k side m where r: "ue_row (clock_of a) start header row = Ok (Some (k, side))"
    and m: "in_cell ue (\<lambda>m. Ok (AList.update k side m)) (an_ue_side a) = Ok m" "b = a\<lparr>an_ue_side := m\<rparr>"
    using assms(1) by (auto simp: ue_line_def Let_def result_simps split: if_splits option.splits sum.splits)
  have "run_second n k" using r segment_of_ms_second filed_clock [OF assms(2)]
    by (fastforce simp: ue_row_def result_simps split: option.splits)
  then have "all_pairs (\<lambda>u. all_pairs (\<lambda>k side. run_second n k)) m"
    using assms(2) by (intro in_cell_pairs [OF m(1)]) (auto simp: filed_def intro: all_pairs_update)
  with assms(2) m(2) show ?thesis by (simp add: filed_def)
qed (use assms(2) in auto)

lemma sender_done_shape:
  assumes "sender_done_line loads name line a = Ok b"
  shows "b = a \<or> (\<exists>r f. b = a\<lparr>an_sender_reports := r, an_flows := f\<rparr>)"
proof (cases "contains_sub ''\"traffic_sender_done\"'' line \<and> loads line \<noteq> None")
  case True
  then obtain report where l: "contains_sub ''\"traffic_sender_done\"'' line" "loads line = Some report" by blast
  then obtain v where "attr_get ''next_seq'' report = Ok v"
    using assms by (auto simp: sender_done_line_def result_simps)
  with assms l show ?thesis by (cases "or_empty v") (auto simp: sender_done_line_def result_simps)
qed (use assms in \<open>auto simp: sender_done_line_def split: if_splits\<close>)

lemma filed_senders: "poll_senders loads new_lines text_of a = Ok b \<Longrightarrow> filed uc n a \<Longrightarrow> filed uc n b"
  unfolding poll_senders_def
proof (erule filed_fold)
  fix name a b assume step: "(case text_of name of None \<Rightarrow> Ok | Some text \<Rightarrow> foldR (sender_done_line loads name) (splitlines text)) a = Ok b"
    and a: "filed uc n a"
  show "filed uc n b"
  proof (cases "text_of name")
    case (Some t)
    with step have "foldR (sender_done_line loads name) (splitlines t) a = Ok b" by simp
    then show ?thesis using a
      by (rule filed_fold) (auto dest!: sender_done_shape)
  qed (use step a in simp)
qed simp

lemma filed_poll:
  assumes "poll rand lg fs a = Some (Ok b)" and "filed uc n a" and "distinct (dict_keys uc)"
  shows "filed uc n b"
proof -
  obtain a1 a2 a3 where a1: "poll_sionna (rf_loads fs) (rf_new_lines fs) a = Ok a1"
    and a2: "poll_traffic_meta (rf_loads fs) (rf_text_of fs) a1 = Ok a2"
    and a3: "poll_flows rand lg a2 = Some (Ok a3)" and b: "poll_logs fs a3 = Ok b"
    using assms(1) by (auto simp: poll_def bindO_def result_simps split: sum.splits option.splits)
  have f3: "filed uc n a3" using a1 a2 a3 assms(2) by (blast intro: filed_sionna filed_traffic_meta filed_flows)
  obtain a4 a5 a6 a7 where a4: "poll_rnti (rf_new_lines fs) (rf_text_of fs) a3 = Ok a4"
    and a5: "foldR (poll_cell (rf_loads fs) (rf_classify fs) (rf_new_lines fs)) (an_cells a4) a4 = Ok a5"
    and a6: "poll_ue_metrics (rf_new_lines fs) a5 = Ok a6"
    and a7: "poll_senders (rf_loads fs) (rf_new_lines fs) (rf_text_of fs) a6 = Ok a7" and b7: "poll_received (rf_new_records fs) a7 = Ok b"
    using b by (auto simp: poll_logs_def result_simps)
  have "filed uc n a4" using a4 f3 assms(3) by (rule filed_rnti)
  with a5 have "filed uc n a5"
    by (rule filed_fold) (auto simp: poll_cell_def result_simps intro: filed_sched filed_gnb_metrics)
  with a6 have "filed uc n a6" unfolding poll_ue_metrics_def
    by (rule filed_fold) (erule (1) filed_fold, rule filed_ue_line)
  with a7 have "filed uc n a7" by (rule filed_senders)
  with b7 show ?thesis by (auto simp: poll_received_def result_simps)
qed

lemma distinct_fold_update:
  "distinct (dict_keys d) \<Longrightarrow> distinct (dict_keys (fold (\<lambda>(x, y). AList.update (f y) x) xs d))"
  by (induction xs arbitrary: d) (auto simp: distinct_update)

lemma filed_new: "filed (an_ue_cell (new_analyzer bk)) (bk_measure_seconds bk) (new_analyzer bk)"
  by (auto simp: filed_def new_analyzer_def Let_def all_pairs_def sched_filed_def new_cell_def)

text \<open>The polls of a run.\<close>

fun polls :: "random \<Rightarrow> (pyfloat \<Rightarrow> pyfloat) \<Rightarrow> run_files list \<Rightarrow> analyzer \<Rightarrow> analyzer result option" where
  "polls rand lg [] a = Some (Ok a)"
| "polls rand lg (fs # fss) a = (case poll rand lg fs a of None \<Rightarrow> None | Some r \<Rightarrow> bindO r (polls rand lg fss))"

lemma filed_polls:
  "polls rand lg fss a = Some (Ok b) \<Longrightarrow> filed uc n a \<Longrightarrow> distinct (dict_keys uc) \<Longrightarrow> filed uc n b"
  by (induction fss arbitrary: a) (auto simp: bindO_def split: option.splits sum.splits dest: filed_poll)

text \<open>C23. However many polls a run takes and whatever its files hold, nothing is filed in the wrong place: every grant, every row
  of the scheduler's reports and every radio identity kept for a cell belongs to a UE of that very cell, and everything
  with a second has one the run measures.\<close>

theorem nothing_filed_elsewhere:
  assumes "polls rand lg fss (new_analyzer bk) = Some (Ok a)"
  shows "filed (an_ue_cell (new_analyzer bk)) (bk_measure_seconds bk) a"
proof -
  have "distinct (dict_keys (an_ue_cell (new_analyzer bk)))"
    by (simp add: new_analyzer_def Let_def distinct_fold_update)
  with assms filed_new show ?thesis by (rule filed_polls)
qed

text \<open>A run of one poll: the bridge starts the timeline, the UE connects, the scheduler grants it 10 resource blocks.\<close>

definition demo_files :: run_files where
  "demo_files = \<lparr>rf_loads = (\<lambda>line. Some (VDict [(''timeline'', VDict [(''phase'', VStr ''run''), (''anchor_unix_ms'', VInt 5000)])])),
     rf_classify = (\<lambda>line. SlotDecisions \<lparr>sl_wall_ns = 6000000000, sl_sfn = 10, sl_slot = 1, sl_decision_us = Fin 7,
       sl_dl = [\<lparr>de_rnti = ''0x4601'', de_rb0 = 0, de_rb1 = 10, de_newtx = True, de_tbs = 300, de_bo = None\<rparr>], sl_ul = [], sl_common = []\<rparr>),
     rf_new_lines = (\<lambda>name. if name = ''sionna-status.jsonl'' then [''\"sionna_rt_update\"'']
       else if name = ''srsue-ue0.log'' then [''Random Access Complete.     c-rnti=0x4601'']
       else if name = ''gnb0-internal.log'' then [''Slot decisions''] else []),
     rf_text_of = (\<lambda>name. None), rf_new_records = (\<lambda>name. [])\<rparr>"

definition demo_polled_run :: "analyzer result option" where
  "demo_polled_run = polls half_rand flat_log [demo_files] (new_analyzer demo_benchmark)"

lemma demo_identity: "rnti_search ''Random Access Complete.     c-rnti=0x4601'' = Some ''0x4601''"
  by code_simp

lemma demo_second:
  "segment_of_ms \<lparr>rc_anchor_ms = Some 5000, rc_measure_seconds = 2\<rparr> (fquot (fl 6000000000) (Fin 1000000)) = Ok (Some 1)"
  by (simp add: segment_of_ms_def fl_def fquot_def fsub_def ffloor_def int_of_rat_def float_eval result_simps)

lemmas demo_setup_defs = demo_polled_run_def poll_def demo_files_def poll_sionna_def sionna_line_def contains_sub_def sionna_record_def
  or_empty_def attr_get_def note_anchor_def new_analyzer_def Let_def run_ues_def demo_benchmark_def CELLS_def demo_ue_def to_int_def
  update_of_def items_or_none_def poll_traffic_meta_def poll_flows_def bindO_def

lemmas demo_poll_defs = poll_logs_def poll_rnti_def poll_rnti_ue_def rnti_line_def demo_identity in_cell_def need_def note_ue_start_def
  poll_cell_def poll_cell_sched_def poll_sched_def sched_line_def slot_decisions_def abs_slot_def new_cell_def Let_def clock_of_def
  run_clock.truncate_def demo_second poll_gnb_metrics_def poll_ue_metrics_def poll_senders_def progress_names_def sender_log_names_def
  poll_sender_lines_def poll_received_def poll_receivers_def track_gaps_def track_dl_def in_segment_def segment_of_def new_segment_def
  in_ue_def ue_of_def new_ue_segment_def note_decision_def add_dl_def

lemma demo_polled_facts:
  "\<exists>a s g. demo_polled_run = Some (Ok a) \<and> map_of (an_sched a) ''a'' = Some s \<and> map_of (cs_seg s) 1 = Some g \<and> sg_dl_prb g = 10
     \<and> map fst (sg_ue g) = [''ue0'']"
  by (simp add: demo_setup_defs) (simp add: demo_poll_defs del: rnti_search.simps)

theorem nothing_filed_elsewhere_witness:
  "case demo_polled_run of
      Some (Inr a) \<Rightarrow> filed (an_ue_cell (new_analyzer demo_benchmark)) (bk_measure_seconds demo_benchmark) a
        \<and> map_option (\<lambda>s. map_option (\<lambda>g. (sg_dl_prb g, map fst (sg_ue g))) (map_of (cs_seg s) 1)) (map_of (an_sched a) ''a'') = Some (Some (10, [''ue0'']))
    | _ \<Rightarrow> False"
proof -
  obtain a s g where a: "demo_polled_run = Some (Ok a)" "map_of (an_sched a) ''a'' = Some s" "map_of (cs_seg s) 1 = Some g"
    "sg_dl_prb g = 10" "map fst (sg_ue g) = [''ue0'']"
    using demo_polled_facts by (elim exE conjE)
  have "filed (an_ue_cell (new_analyzer demo_benchmark)) (bk_measure_seconds demo_benchmark) a"
    by (rule nothing_filed_elsewhere [OF a(1) [unfolded demo_polled_run_def]])
  then show ?thesis unfolding a(1) option.case sum.case a(2) option.map a(3) a(4) a(5) by (intro conjI refl)
qed

end
