(* ===== verification/BenchReport.thy ===== *)
theory BenchReport
  imports BenchIngest
begin

text \<open>
  What \<open>RunAnalyzer\<close> reports, in \<^verbatim>\<open>use_cases/scheduler_benchmark/analyze.py\<close>: the validity and the metrics of
  each second, the metrics of a run and its UEs, and the paired comparison of the two cells. \<open>statistics.stdev\<close> and
  \<open>math.sqrt\<close> are parameters.
\<close>

section \<open>Numbers of the reports\<close>

text \<open>\<open>sum\<close> of JSON numbers, and \<open>a / b if b else None\<close>.\<close>

definition vadd :: "pyval \<Rightarrow> pyval \<Rightarrow> pyval result" where
  "vadd a b =
     (if is_int a \<and> is_int b then Ok (VInt (int_of a + int_of b))
      else if is_num a \<and> is_num b then Ok (VFloat (fadd (num_of a) (num_of b)))
      else Err (TypeError ''unsupported operand''))"

definition vsum :: "pyval list \<Rightarrow> pyval result" where
  "vsum vs = foldR (\<lambda>v acc. vadd acc v) vs (VInt 0)"

definition vdiv :: "pyval \<Rightarrow> pyval \<Rightarrow> pyfloat result" where
  "vdiv a b = (if is_int a \<and> is_int b then int_div (int_of a) (int_of b) else fdiv (num_of a) (num_of b))"

definition vgreater :: "pyval \<Rightarrow> pyval \<Rightarrow> bool result" where
  "vgreater a b = (if is_num a \<and> is_num b then Ok (flt (num_of b) (num_of a)) else Err (TypeError ''not supported between instances''))"

definition ratio :: "int \<Rightarrow> int \<Rightarrow> pyfloat option result" where
  "ratio a b = (if b = 0 then Ok None else bindR (int_div a b) (\<lambda>q. Ok (Some q)))"

definition mean_of :: "pyfloat list \<Rightarrow> pyfloat option" where
  "mean_of xs = (if xs = [] then None else Some (fquot (fsum xs) (fl (int (length xs)))))"

text \<open>\<open>_mean_valid\<close>: \<open>math.isfinite\<close> of an integer beyond the floats raises.\<close>

definition mean_valid :: "(pyfloat \<Rightarrow> bool) \<Rightarrow> pyval list \<Rightarrow> pyfloat option result" where
  "mean_valid good vs =
     bindR (mapR (\<lambda>v. if is_num v then bindR (to_float v) (\<lambda>x. Ok (if is_finite x \<and> good x then [x] else [])) else Ok []) vs) (\<lambda>xs.
     Ok (mean_of (concat xs)))"

definition mbps :: "int \<Rightarrow> pyfloat" where
  "mbps rx_bytes = fquot (fl (rx_bytes * 8)) (Fin 1000000)"

definition mbps_of_run :: "int \<Rightarrow> nat \<Rightarrow> pyfloat option" where
  "mbps_of_run rx_bytes n = (if n = 0 then None else Some (fquot (mbps rx_bytes) (fl (int n))))"

definition STARVATION_THRESHOLD_MS :: pyfloat where "STARVATION_THRESHOLD_MS = Fin 20"
definition CHANNEL_BANDWIDTH_HZ :: pyfloat where "CHANNEL_BANDWIDTH_HZ = Fin 20000000"
definition PRB_BANDWIDTH_HZ :: pyfloat where "PRB_BANDWIDTH_HZ = Fin 180000"

definition above :: "pyfloat \<Rightarrow> pyfloat list \<Rightarrow> int" where
  "above limit xs = int (length (filter (flt limit) xs))"

definition snr_plausible :: "pyfloat \<Rightarrow> bool" where
  "snr_plausible v \<longleftrightarrow> flt (rnd64 (- 999/10)) v \<and> flt v (rnd64 (999/10))"

section \<open>Valid seconds\<close>

datatype reason =
    NotInReport string
  | AllHarqFailed string
  | NoMetricsRow string
  | OutOfService string int pyfloat
  | NoSchedulerActivity string

definition metrics_of :: "analyzer \<Rightarrow> string \<Rightarrow> int \<Rightarrow> string \<Rightarrow> pydict list result" where
  "metrics_of a cell k ue =
     bindR (need (map_of (an_gnb_metrics a) cell) cell) (\<lambda>m.
     Ok (case map_of m k of None \<Rightarrow> [] | Some ues \<Rightarrow> (case map_of ues ue of None \<Rightarrow> [] | Some rows \<Rightarrow> rows)))"

definition harq_failed :: "pydict \<Rightarrow> bool result" where
  "harq_failed row =
     (if py_eq (vget_or ''dl_nof_ok'' (VInt 0) row) (VInt 0) then vgreater (vget_or ''dl_nof_nok'' (VInt 0) row) (VInt 0) else Ok False)"

fun allR :: "('a \<Rightarrow> bool result) \<Rightarrow> 'a list \<Rightarrow> bool result" where
  "allR f [] = Ok True"
| "allR f (x # xs) = bindR (f x) (\<lambda>b. if b then allR f xs else Ok False)"

definition gnb_reasons :: "analyzer \<Rightarrow> int \<Rightarrow> string \<Rightarrow> string \<Rightarrow> reason list result" where
  "gnb_reasons a k ue cell =
     bindR (need (map_of (an_gnb_metrics a) cell) cell) (\<lambda>m.
     if list_all (\<lambda>(j, ues). ues = []) m then Ok []
     else bindR (mapR (\<lambda>j. metrics_of a cell j ue) [k, k - 1, k + 1]) (\<lambda>rows.
          if concat rows = [] then Ok [NotInReport ue]
          else bindR (allR harq_failed (concat rows)) (\<lambda>failed. Ok (if failed then [AllHarqFailed ue] else []))))"

definition pci_of :: "analyzer \<Rightarrow> string \<Rightarrow> int result" where
  "pci_of a cell = (case filter (\<lambda>c. ce_name c = cell) (an_cells a) of [] \<Rightarrow> Err (KeyError cell) | c # _ \<Rightarrow> Ok (bg_pci (ce_gnb c)))"

definition first_some :: "'a option list \<Rightarrow> 'a option" where
  "first_some xs = (case dropWhile (\<lambda>x. x = None) xs of [] \<Rightarrow> None | x # _ \<Rightarrow> x)"

definition ue_reasons :: "analyzer \<Rightarrow> int \<Rightarrow> string \<Rightarrow> string \<Rightarrow> reason list result" where
  "ue_reasons a k ue cell =
     bindR (need (map_of (an_ue_side a) ue) ue) (\<lambda>m.
     if m = [] then Ok []
     else bindR (pci_of a cell) (\<lambda>pci.
          case first_some [map_of m k, map_of m (k - 1), map_of m (k + 1)] of
            None \<Rightarrow> Ok [NoMetricsRow ue]
          | Some side \<Rightarrow> bindR (ftrunc (ud_pci side)) (\<lambda>p.
              Ok (if p \<noteq> pci \<or> fle (ud_dl_snr side) (Fin 0) then [OutOfService ue p (ud_dl_snr side)] else []))))"

definition sched_reasons :: "int \<Rightarrow> string \<times> cell_sched \<Rightarrow> reason list" where
  "sched_reasons k cs = (if sg_first_slot (segment_of k (snd cs)) = None then [NoSchedulerActivity (fst cs)] else [])"

definition segment_validity :: "analyzer \<Rightarrow> int \<Rightarrow> reason list result" where
  "segment_validity a k =
     bindR (mapR (\<lambda>(ue, cell). bindR (gnb_reasons a k ue cell) (\<lambda>xs. bindR (ue_reasons a k ue cell) (\<lambda>ys. Ok (xs @ ys)))) (an_ue_cell a)) (\<lambda>rs.
     Ok (concat rs @ concat (map (sched_reasons k) (an_sched a))))"

section \<open>The metrics of a second\<close>

type_synonym sent_table = "(int \<times> (int \<times> int \<times> int) list) list"

record flow_second =
  fc_direction :: string
  fc_sent :: int
  fc_received :: int
  fc_rx_mbps :: pyfloat
  fc_delay_ms :: stat_summary
  fc_late :: int

record ue_second =
  uc_flows :: "(string \<times> flow_second) list"
  uc_dl_rx_mbps :: pyfloat
  uc_ul_rx_mbps :: pyfloat
  uc_dl_prb :: int
  uc_ul_prb :: int
  uc_dl_newtx_mbps :: pyfloat
  uc_ul_newtx_mbps :: pyfloat
  uc_dl_wait_ms_max :: pyfloat
  uc_starvation_events :: int
  uc_cqi :: "pyfloat option"
  uc_dl_mcs :: "pyfloat option"
  uc_ul_mcs :: "pyfloat option"
  uc_pusch_snr_db :: "pyfloat option"

record cell_second =
  cc_slots :: "pyfloat option"
  cc_dl_prb_util :: "pyfloat option"
  cc_ul_prb_util :: "pyfloat option"
  cc_decision_us_mean :: "pyfloat option"
  cc_dl_rx_mbps :: pyfloat
  cc_ul_rx_mbps :: pyfloat
  cc_jain_dl :: "pyfloat option"
  cc_ues :: "(string \<times> ue_second) list"

definition sent_received :: "sent_table \<Rightarrow> int \<Rightarrow> int \<Rightarrow> (int \<times> int) result" where
  "sent_received sent fid k =
     (case map_of sent fid of None \<Rightarrow> Err (KeyError ''flow'')
      | Some segs \<Rightarrow> Ok (case map_of segs k of None \<Rightarrow> (0, 0) | Some sr \<Rightarrow> sr))"

definition delays_of :: "flow_state \<Rightarrow> int \<Rightarrow> pyfloat list" where
  "delays_of f k = (case map_of (fs_delay_ms f) k of None \<Rightarrow> [] | Some ds \<Rightarrow> ds)"

definition late_of :: "flow_state \<Rightarrow> int \<Rightarrow> int" where
  "late_of f k = above (fl (fs_pdb_ms f)) (delays_of f k)"

definition ue_flows :: "analyzer \<Rightarrow> string \<Rightarrow> flow_table" where
  "ue_flows a ue = filter (\<lambda>x. fs_ue (snd x) = ue) (an_flows a)"

definition flow_in_second ::
  "sent_table \<Rightarrow> int \<Rightarrow> int \<times> flow_state \<Rightarrow> (string \<times> flow_second) list \<Rightarrow> (string \<times> flow_second) list result" where
  "flow_in_second sent k x acc =
     bindR (sent_received sent (fst x) k) (\<lambda>(s, r).
     bindR (summary (delays_of (snd x) k)) (\<lambda>delay.
     Ok (AList.update (fw_name (fs_flow (snd x)))
       \<lparr>fc_direction = fw_direction (fs_flow (snd x)), fc_sent = s, fc_received = r,
        fc_rx_mbps = mbps (count_of k (fs_rx_bytes (snd x))), fc_delay_ms = delay, fc_late = late_of (snd x) k\<rparr> acc)))"

definition toward :: "string \<Rightarrow> (string \<times> flow_second) list \<Rightarrow> pyfloat" where
  "toward direction flows = fsum (map (\<lambda>x. fc_rx_mbps (snd x)) (filter (\<lambda>x. fc_direction (snd x) = direction) flows))"

definition greatest :: "pyfloat list \<Rightarrow> pyfloat" where
  "greatest xs = (case xs of [] \<Rightarrow> Fin 0 | x # xs \<Rightarrow> foldl fmax x xs)"

definition link_means :: "pydict list \<Rightarrow> (pyfloat option \<times> pyfloat option \<times> pyfloat option \<times> pyfloat option) result" where
  "link_means rows =
     bindR (mean_valid (fle (Fin 0)) (map (vget ''cqi'') rows)) (\<lambda>cqi.
     bindR (mean_valid (\<lambda>_. True) (map (vget ''dl_mcs'') rows)) (\<lambda>dl.
     bindR (mean_valid (\<lambda>_. True) (map (vget ''ul_mcs'') rows)) (\<lambda>ul.
     bindR (mean_valid snr_plausible (map (vget ''pusch_snr_db'') rows)) (\<lambda>snr. Ok (cqi, dl, ul, snr)))))"

definition ue_in_second :: "analyzer \<Rightarrow> sent_table \<Rightarrow> string \<Rightarrow> int \<Rightarrow> string \<Rightarrow> ue_second result" where
  "ue_in_second a sent cell k ue =
     bindR (need (map_of (an_sched a) cell) cell) (\<lambda>state.
     bindR (foldR (flow_in_second sent k) (ue_flows a ue) []) (\<lambda>flows.
     bindR (bindR (metrics_of a cell k ue) link_means) (\<lambda>(cqi, dl_mcs, ul_mcs, snr).
     let u = ue_of ue (segment_of k state)
     in Ok \<lparr>uc_flows = flows, uc_dl_rx_mbps = toward ''dl'' flows, uc_ul_rx_mbps = toward ''ul'' flows,
          uc_dl_prb = us_dl_prb u, uc_ul_prb = us_ul_prb u, uc_dl_newtx_mbps = mbps (us_dl_newtx_bytes u),
          uc_ul_newtx_mbps = mbps (us_ul_newtx_bytes u), uc_dl_wait_ms_max = greatest (us_dl_wait_ms u),
          uc_starvation_events = above STARVATION_THRESHOLD_MS (us_dl_wait_ms u), uc_cqi = cqi, uc_dl_mcs = dl_mcs,
          uc_ul_mcs = ul_mcs, uc_pusch_snr_db = snr\<rparr>)))"

definition cell_ues :: "analyzer \<Rightarrow> string \<Rightarrow> string list" where
  "cell_ues a cell = map fst (filter (\<lambda>x. snd x = cell) (an_ue_cell a))"

definition second_ns :: "analyzer \<Rightarrow> int \<Rightarrow> int result" where
  "second_ns a k = (case rc_anchor_ms (an_times a) of None \<Rightarrow> Err (TypeError ''unsupported operand'') | Some t \<Rightarrow> Ok ((t + k * 1000) * 1000000))"

definition slots_of_second :: "analyzer \<Rightarrow> cell_sched \<Rightarrow> int \<Rightarrow> pyfloat option result" where
  "slots_of_second a state k = bindR (second_ns a k) (\<lambda>w0. slots_between w0 (w0 + 1000000000) state)"

definition prb_util :: "int \<Rightarrow> pyfloat \<Rightarrow> pyfloat option result" where
  "prb_util prb capacity = (if capacity = Fin 0 then Ok None else bindR (fdiv (fl prb) capacity) (\<lambda>u. Ok (Some u)))"

definition segment_cell_metrics :: "analyzer \<Rightarrow> sent_table \<Rightarrow> int \<Rightarrow> string \<Rightarrow> cell_second result" where
  "segment_cell_metrics a sent k cell =
     bindR (need (map_of (an_sched a) cell) cell) (\<lambda>state.
     bindR (slots_of_second a state k) (\<lambda>slots.
     bindR (mapR (\<lambda>ue. bindR (ue_in_second a sent cell k ue) (\<lambda>u. Ok (ue, u))) (cell_ues a cell)) (\<lambda>ues.
     let g = segment_of k state; capacity = fmul (or_zero slots) (fl (cs_nof_prb state))
     in bindR (prb_util (sg_dl_prb g + sg_dl_common_prb g) capacity) (\<lambda>dl_util.
        bindR (prb_util (sg_ul_prb g) capacity) (\<lambda>ul_util.
        bindR (jain (map (\<lambda>x. Some (uc_dl_rx_mbps (snd x))) ues)) (\<lambda>fairness.
        Ok \<lparr>cc_slots = slots, cc_dl_prb_util = dl_util, cc_ul_prb_util = ul_util, cc_decision_us_mean = mean_of (sg_decision_us g),
            cc_dl_rx_mbps = fsum (map (\<lambda>x. uc_dl_rx_mbps (snd x)) ues), cc_ul_rx_mbps = fsum (map (\<lambda>x. uc_ul_rx_mbps (snd x)) ues),
            cc_jain_dl = fairness, cc_ues = ues\<rparr>))))))"

section \<open>The metrics of a run\<close>

record flow_metrics =
  fm_direction :: string
  fm_offered_mbps :: pyfloat
  fm_throughput_mbps :: "pyfloat option"
  fm_sent :: int
  fm_received :: int
  fm_late :: int
  fm_drop_rate :: "pyfloat option"
  fm_pdb_violation_rate :: "pyfloat option"
  fm_delay_ms :: stat_summary

record starvation =
  sv_dl_wait_ms :: stat_summary
  sv_events :: int
  sv_events_per_s :: "pyfloat option"
  sv_ul_gap_ms :: stat_summary

record link_metrics =
  lm_cqi :: "pyfloat option"
  lm_dl_mcs :: "pyfloat option"
  lm_ul_mcs :: "pyfloat option"
  lm_dl_bler :: "pyfloat option"
  lm_ul_bler :: "pyfloat option"
  lm_pusch_snr_db :: "pyfloat option"

record ue_metrics =
  um_role :: string
  um_five_qi :: int
  um_pdb_ms :: int
  um_twin :: string
  um_dl_mbps :: pyfloat
  um_ul_mbps :: pyfloat
  um_dl_offered_mbps :: pyfloat
  um_ul_offered_mbps :: pyfloat
  um_dl_newtx_mbps :: "pyfloat option"
  um_ul_newtx_mbps :: "pyfloat option"
  um_dl_delay_ms :: stat_summary
  um_ul_delay_ms :: stat_summary
  um_sent :: int
  um_received :: int
  um_late :: int
  um_drop_rate :: "pyfloat option"
  um_pdb_violation_rate :: "pyfloat option"
  um_dl_prb_share :: "pyfloat option"
  um_starvation :: starvation
  um_link :: link_metrics
  um_flows :: "(string \<times> flow_metrics) list"

text \<open>The counts of a flow over the valid seconds \<open>ks\<close>: sent, received, late, the delays, the received bytes.\<close>

record flow_count =
  ft_sent :: int
  ft_received :: int
  ft_late :: int
  ft_delays :: "pyfloat list"
  ft_rx_bytes :: int

definition no_count :: flow_count where
  "no_count = \<lparr>ft_sent = 0, ft_received = 0, ft_late = 0, ft_delays = [], ft_rx_bytes = 0\<rparr>"

definition count_second :: "sent_table \<Rightarrow> int \<times> flow_state \<Rightarrow> int \<Rightarrow> flow_count \<Rightarrow> flow_count result" where
  "count_second sent x k c =
     bindR (sent_received sent (fst x) k) (\<lambda>(s, r).
     Ok \<lparr>ft_sent = ft_sent c + s, ft_received = ft_received c + r, ft_late = ft_late c + late_of (snd x) k,
         ft_delays = ft_delays c @ delays_of (snd x) k, ft_rx_bytes = ft_rx_bytes c + count_of k (fs_rx_bytes (snd x))\<rparr>)"

definition flow_metrics_of :: "nat \<Rightarrow> flow_state \<Rightarrow> flow_count \<Rightarrow> flow_metrics result" where
  "flow_metrics_of n f c =
     bindR (offered_rate_mbps (fs_flow f)) (\<lambda>offered.
     bindR (ratio (ft_sent c - ft_received c) (ft_sent c)) (\<lambda>drop_rate.
     bindR (ratio (ft_late c) (ft_sent c)) (\<lambda>violation.
     bindR (summary (ft_delays c)) (\<lambda>delay.
     Ok \<lparr>fm_direction = fw_direction (fs_flow f), fm_offered_mbps = offered, fm_throughput_mbps = mbps_of_run (ft_rx_bytes c) n,
         fm_sent = ft_sent c, fm_received = ft_received c, fm_late = ft_late c, fm_drop_rate = drop_rate,
         fm_pdb_violation_rate = violation, fm_delay_ms = delay\<rparr>))))"

text \<open>The sums of a UE over its flows, in a dictionary by direction.\<close>

record ue_count =
  ut_rx :: "string \<rightharpoonup> pyfloat"
  ut_offered :: "string \<rightharpoonup> pyfloat"
  ut_delays :: "string \<rightharpoonup> pyfloat list"
  ut_sent :: int
  ut_received :: int
  ut_late :: int
  ut_flows :: "(string \<times> flow_metrics) list"

definition no_ue_count :: ue_count where
  "no_ue_count = \<lparr>ut_rx = [''dl'' \<mapsto> Fin 0, ''ul'' \<mapsto> Fin 0], ut_offered = [''dl'' \<mapsto> Fin 0, ''ul'' \<mapsto> Fin 0],
     ut_delays = [''dl'' \<mapsto> [], ''ul'' \<mapsto> []], ut_sent = 0, ut_received = 0, ut_late = 0, ut_flows = []\<rparr>"

definition count_flow :: "sent_table \<Rightarrow> int list \<Rightarrow> int \<times> flow_state \<Rightarrow> ue_count \<Rightarrow> ue_count result" where
  "count_flow sent ks x u =
     (let f = snd x; d = fw_direction (fs_flow f)
      in bindR (foldR (count_second sent x) ks no_count) (\<lambda>c.
         bindR (flow_metrics_of (length ks) f c) (\<lambda>m.
         bindR (need (ut_rx u d) d) (\<lambda>rx. bindR (need (ut_offered u d) d) (\<lambda>offered. bindR (need (ut_delays u d) d) (\<lambda>delays.
         Ok \<lparr>ut_rx = (ut_rx u)(d \<mapsto> fadd rx (case mbps_of_run (ft_rx_bytes c) (length ks) of None \<Rightarrow> Fin 0 | Some v \<Rightarrow> v)),
             ut_offered = (ut_offered u)(d \<mapsto> fadd offered (fm_offered_mbps m)),
             ut_delays = (ut_delays u)(d \<mapsto> delays @ ft_delays c),
             ut_sent = ut_sent u + ft_sent c, ut_received = ut_received u + ft_received c, ut_late = ut_late u + ft_late c,
             ut_flows = AList.update (fw_name (fs_flow f)) m (ut_flows u)\<rparr>))))))"

definition block_errors :: "string \<Rightarrow> string \<Rightarrow> pydict list \<Rightarrow> pyfloat option result" where
  "block_errors ok nok rows =
     bindR (vsum (map (vget_or ok (VInt 0)) rows)) (\<lambda>a. bindR (vsum (map (vget_or nok (VInt 0)) rows)) (\<lambda>b.
     bindR (vadd a b) (\<lambda>all. if truthy all then bindR (vdiv b all) (\<lambda>q. Ok (Some q)) else Ok None)))"

definition link_of :: "pydict list \<Rightarrow> link_metrics result" where
  "link_of rows =
     bindR (block_errors ''dl_nof_ok'' ''dl_nof_nok'' rows) (\<lambda>dl. bindR (block_errors ''ul_nof_ok'' ''ul_nof_nok'' rows) (\<lambda>ul.
     bindR (link_means rows) (\<lambda>(cqi, dl_mcs, ul_mcs, snr).
     Ok \<lparr>lm_cqi = cqi, lm_dl_mcs = dl_mcs, lm_ul_mcs = ul_mcs, lm_dl_bler = dl, lm_ul_bler = ul, lm_pusch_snr_db = snr\<rparr>)))"

definition starvation_of :: "nat \<Rightarrow> ue_segment list \<Rightarrow> starvation result" where
  "starvation_of n segs =
     (let waits = concat (map us_dl_wait_ms segs); events = above STARVATION_THRESHOLD_MS waits
      in bindR (summary waits) (\<lambda>wait. bindR (summary (concat (map us_ul_gap_ms segs))) (\<lambda>gap.
         bindR (ratio events (int n)) (\<lambda>rate.
         Ok \<lparr>sv_dl_wait_ms = wait, sv_events = events, sv_events_per_s = rate, sv_ul_gap_ms = gap\<rparr>))))"

definition ue_metrics_of ::
  "analyzer \<Rightarrow> sent_table \<Rightarrow> string \<Rightarrow> int list \<Rightarrow> int \<Rightarrow> string \<Rightarrow> ue_metrics result" where
  "ue_metrics_of a sent cell ks total_dl_prb ue =
     bindR (need (map_of (an_sched a) cell) cell) (\<lambda>state.
     bindR (need (map_of (an_ue_meta a) ue) ue) (\<lambda>meta.
     bindR (foldR (count_flow sent ks) (ue_flows a ue) no_ue_count) (\<lambda>u.
     bindR (mapR (\<lambda>k. metrics_of a cell k ue) ks) (\<lambda>rows.
     let segs = map (\<lambda>k. ue_of ue (segment_of k state)) ks; n = length ks
     in bindR (summary (the (ut_delays u ''dl''))) (\<lambda>dl_delay. bindR (summary (the (ut_delays u ''ul''))) (\<lambda>ul_delay.
        bindR (ratio (ut_sent u - ut_received u) (ut_sent u)) (\<lambda>drop_rate. bindR (ratio (ut_late u) (ut_sent u)) (\<lambda>violation.
        bindR (ratio (sum_list (map us_dl_prb segs)) total_dl_prb) (\<lambda>share.
        bindR (starvation_of n segs) (\<lambda>starved. bindR (link_of (concat rows)) (\<lambda>link.
        Ok \<lparr>um_role = bu_role meta, um_five_qi = bu_five_qi meta, um_pdb_ms = bu_pdb_ms meta, um_twin = bu_twin meta,
            um_dl_mbps = the (ut_rx u ''dl''), um_ul_mbps = the (ut_rx u ''ul''), um_dl_offered_mbps = the (ut_offered u ''dl''),
            um_ul_offered_mbps = the (ut_offered u ''ul''),
            um_dl_newtx_mbps = mbps_of_run (sum_list (map us_dl_newtx_bytes segs)) n,
            um_ul_newtx_mbps = mbps_of_run (sum_list (map us_ul_newtx_bytes segs)) n,
            um_dl_delay_ms = dl_delay, um_ul_delay_ms = ul_delay, um_sent = ut_sent u, um_received = ut_received u,
            um_late = ut_late u, um_drop_rate = drop_rate, um_pdb_violation_rate = violation, um_dl_prb_share = share,
            um_starvation = starved, um_link = link, um_flows = ut_flows u\<rparr>)))))))))))"

record cell_run =
  cr_segments :: nat
  cr_dl_mbps :: "pyfloat option"
  cr_ul_mbps :: "pyfloat option"
  cr_mac_dl_mbps :: "pyfloat option"
  cr_mac_ul_mbps :: "pyfloat option"
  cr_jain_throughput :: "pyfloat option"
  cr_jain_over_offered :: "pyfloat option"
  cr_jain_prb_share :: "pyfloat option"
  cr_dl_prb_util :: "pyfloat option"
  cr_ul_prb_util :: "pyfloat option"
  cr_slots_per_s :: "pyfloat option"
  cr_nof_prb :: int
  cr_dl_app_bps_hz :: "pyfloat option"
  cr_ul_app_bps_hz :: "pyfloat option"
  cr_dl_mac_bps_hz :: "pyfloat option"
  cr_ul_mac_bps_hz :: "pyfloat option"
  cr_dl_per_used_prb :: "pyfloat option"
  cr_ul_per_used_prb :: "pyfloat option"
  cr_decision_us :: stat_summary
  cr_average_latency_us :: "pyfloat option"
  cr_max_latency_us :: "pyval option"
  cr_late_dl_harqs :: pyval
  cr_per_ue :: "(string \<times> ue_metrics) list"

text \<open>\<open>max(..., default=None)\<close> keeps the first of equal values.\<close>

definition vmax :: "pyval list \<Rightarrow> pyval option result" where
  "vmax vs =
     (case vs of [] \<Rightarrow> Ok None
      | v # vs \<Rightarrow> bindR (foldR (\<lambda>x best. bindR (vgreater x best) (\<lambda>g. Ok (if g then x else best))) vs v) (\<lambda>m. Ok (Some m)))"

definition when_measured :: "nat \<Rightarrow> 'a option result \<Rightarrow> 'a option result" where
  "when_measured n r = (if n = 0 then Ok None else r)"

definition per_used_prb :: "int \<Rightarrow> int \<Rightarrow> pyfloat option result" where
  "per_used_prb bits prb =
     (if prb = 0 then Ok None
      else bindR (fdiv (fl bits) (fquot (fmul (fl prb) PRB_BANDWIDTH_HZ) (fl SLOTS_PER_SECOND))) (\<lambda>q. Ok (Some q)))"

definition over_offered :: "ue_metrics \<Rightarrow> pyfloat option result" where
  "over_offered m = (if um_dl_offered_mbps m = Fin 0 then Ok None else bindR (fdiv (um_dl_mbps m) (um_dl_offered_mbps m)) (\<lambda>q. Ok (Some q)))"

definition bits_of :: "(ue_segment \<Rightarrow> int) \<Rightarrow> segment list \<Rightarrow> int" where
  "bits_of f segs = sum_list (map (\<lambda>g. sum_list (map (\<lambda>x. f (snd x)) (sg_ue g))) segs) * 8"

definition hz_of_bits :: "int \<Rightarrow> nat \<Rightarrow> pyfloat option result" where
  "hz_of_bits bits n = (if n = 0 then Ok None else bindR (int_div bits (int n)) (\<lambda>q. Ok (Some (fquot q CHANNEL_BANDWIDTH_HZ))))"

definition hz_of_mbps :: "pyfloat \<Rightarrow> pyfloat" where
  "hz_of_mbps rate = fquot (fmul rate (Fin 1000000)) CHANNEL_BANDWIDTH_HZ"

definition cell_metrics_of :: "analyzer \<Rightarrow> string \<Rightarrow> int list \<Rightarrow> (pyfloat option \<times> pyval option \<times> pyval) result" where
  "cell_metrics_of a cell ks =
     bindR (need (map_of (an_cell_metrics a) cell) cell) (\<lambda>m.
     let rows = concat (map (\<lambda>k. case map_of m k of None \<Rightarrow> [] | Some vs \<Rightarrow> vs) ks)
     in bindR (bindR (mapR (attr_get ''average_latency'') rows) (mean_valid (\<lambda>_. True))) (\<lambda>average.
        bindR (bindR (mapR (attr_get_or ''max_latency'' (VInt 0)) rows) vmax) (\<lambda>longest.
        bindR (bindR (mapR (attr_get_or ''late_dl_harqs'' (VInt 0)) rows) vsum) (\<lambda>harqs. Ok (average, longest, harqs)))))"

definition run_cell_metrics :: "analyzer \<Rightarrow> sent_table \<Rightarrow> int list \<Rightarrow> string \<Rightarrow> cell_run result" where
  "run_cell_metrics a sent ks cell =
     bindR (need (map_of (an_sched a) cell) cell) (\<lambda>state.
     let n = length ks; ues = cell_ues a cell; segs = map (\<lambda>k. segment_of k state) ks;
         total_dl_prb = sum_list (map (\<lambda>k. sum_list (map (\<lambda>u. us_dl_prb (ue_of u (segment_of k state))) ues)) ks);
         dl_bits = bits_of us_dl_newtx_bytes segs; ul_bits = bits_of us_ul_newtx_bytes segs;
         measured = (\<lambda>x. if n = 0 then None else Some x)
     in bindR (mapR (\<lambda>ue. bindR (ue_metrics_of a sent cell ks total_dl_prb ue) (\<lambda>m. Ok (ue, m))) ues) (\<lambda>per_ue.
        bindR (mapR (\<lambda>x. over_offered (snd x)) per_ue) (\<lambda>dl_norm.
        bindR (mapR (\<lambda>k. bindR (slots_of_second a state k) (\<lambda>s. Ok (or_zero s))) ks) (\<lambda>slots.
        bindR (cell_metrics_of a cell ks) (\<lambda>(average, longest, harqs).
        let agg_dl = fsum (map (\<lambda>x. um_dl_mbps (snd x)) per_ue); agg_ul = fsum (map (\<lambda>x. um_ul_mbps (snd x)) per_ue);
            capacity = fmul (fsum slots) (fl (cs_nof_prb state))
        in bindR (when_measured n (jain (map (\<lambda>x. Some (um_dl_mbps (snd x))) per_ue))) (\<lambda>j_throughput.
           bindR (when_measured n (jain dl_norm)) (\<lambda>j_norm.
           bindR (when_measured n (jain (map (\<lambda>x. um_dl_prb_share (snd x)) per_ue))) (\<lambda>j_share.
           bindR (prb_util (sum_list (map (\<lambda>g. sg_dl_prb g + sg_dl_common_prb g) segs)) capacity) (\<lambda>dl_util.
           bindR (prb_util (sum_list (map sg_ul_prb segs)) capacity) (\<lambda>ul_util.
           bindR (hz_of_bits dl_bits n) (\<lambda>dl_hz. bindR (hz_of_bits ul_bits n) (\<lambda>ul_hz.
           bindR (per_used_prb dl_bits (sum_list (map sg_dl_prb segs))) (\<lambda>dl_used.
           bindR (per_used_prb ul_bits (sum_list (map sg_ul_prb segs))) (\<lambda>ul_used.
           bindR (summary (concat (map sg_decision_us segs))) (\<lambda>decision.
           Ok \<lparr>cr_segments = n, cr_dl_mbps = measured agg_dl, cr_ul_mbps = measured agg_ul,
               cr_mac_dl_mbps = measured (fquot (fquot (fl dl_bits) (Fin 1000000)) (fl (int n))),
               cr_mac_ul_mbps = measured (fquot (fquot (fl ul_bits) (Fin 1000000)) (fl (int n))),
               cr_jain_throughput = j_throughput, cr_jain_over_offered = j_norm, cr_jain_prb_share = j_share,
               cr_dl_prb_util = dl_util, cr_ul_prb_util = ul_util, cr_slots_per_s = measured (fquot (fsum slots) (fl (int n))),
               cr_nof_prb = cs_nof_prb state, cr_dl_app_bps_hz = measured (hz_of_mbps agg_dl),
               cr_ul_app_bps_hz = measured (hz_of_mbps agg_ul), cr_dl_mac_bps_hz = dl_hz, cr_ul_mac_bps_hz = ul_hz,
               cr_dl_per_used_prb = dl_used, cr_ul_per_used_prb = ul_used, cr_decision_us = decision,
               cr_average_latency_us = average, cr_max_latency_us = longest, cr_late_dl_harqs = harqs, cr_per_ue = per_ue\<rparr>
           )))))))))))))))"

section \<open>The paired comparison\<close>

record series =
  ss_n :: nat
  ss_mean_x :: "pyfloat option"
  ss_mean_y :: "pyfloat option"
  ss_mean_diff :: "pyfloat option"
  ss_ci95 :: "(pyfloat \<times> pyfloat) option"
  ss_batch_length :: "int option"
  ss_x_higher :: nat
  ss_y_higher :: nat
  ss_ties :: nat

type_synonym cells_of_second = "(string \<times> cell_second) list"

definition pair_of ::
  "(string \<Rightarrow> cell_second \<Rightarrow> pyfloat option result) \<Rightarrow> string \<Rightarrow> string \<Rightarrow> cells_of_second \<Rightarrow> (pyfloat \<times> pyfloat) list result" where
  "pair_of extract x y seg =
     bindR (bindR (need (map_of seg x) x) (extract x)) (\<lambda>u. bindR (bindR (need (map_of seg y) y) (extract y)) (\<lambda>v.
     Ok (case (u, v) of (Some u, Some v) \<Rightarrow> [(u, v)] | _ \<Rightarrow> [])))"

definition series_of ::
  "(pyfloat list \<Rightarrow> pyfloat result) \<Rightarrow> (pyfloat \<Rightarrow> pyfloat) \<Rightarrow> (pyfloat \<times> pyfloat) list \<Rightarrow> series result" where
  "series_of stdev sqrtf ps =
     (let ds = map (\<lambda>(x, y). fsub x y) ps
      in bindR (batch_means_ci stdev sqrtf ds) (\<lambda>ci.
         bindR (if int (length ds) < 2 * BOOTSTRAP_BLOCK then Ok None else bindR (bootstrap_block_length ds) (\<lambda>b. Ok (Some b))) (\<lambda>block.
         Ok \<lparr>ss_n = length ds, ss_mean_x = mean_of (map fst ps), ss_mean_y = mean_of (map snd ps), ss_mean_diff = mean_of ds,
             ss_ci95 = ci, ss_batch_length = block, ss_x_higher = length (filter (flt (Fin 0)) ds),
             ss_y_higher = length (filter (\<lambda>d. flt d (Fin 0)) ds), ss_ties = length (filter (feq (Fin 0)) ds)\<rparr>)))"

definition compared ::
  "(pyfloat list \<Rightarrow> pyfloat result) \<Rightarrow> (pyfloat \<Rightarrow> pyfloat) \<Rightarrow> cells_of_second list \<Rightarrow> string \<Rightarrow> string
     \<Rightarrow> (string \<Rightarrow> cell_second \<Rightarrow> pyfloat option result) \<Rightarrow> series result" where
  "compared stdev sqrtf valid x y extract =
     bindR (mapR (pair_of extract x y) valid) (\<lambda>ps. series_of stdev sqrtf (concat ps))"

definition ue_at :: "benchmark \<Rightarrow> nat \<Rightarrow> string \<Rightarrow> cell_second \<Rightarrow> ue_second result" where
  "ue_at bk i cell seg =
     bindR (need (map_of (bk_cells bk) cell) cell) (\<lambda>ues.
     if length ues \<le> i then Err IndexError else need (map_of (cc_ues seg) (bu_device_id (ues ! i))) (bu_device_id (ues ! i)))"

definition flow_delay_p99 :: "ue_second \<Rightarrow> pyfloat option" where
  "flow_delay_p99 u =
     (let vs = concat (map (\<lambda>x. case sy_p99 (fc_delay_ms (snd x)) of None \<Rightarrow> [] | Some v \<Rightarrow> [v])
        (filter (\<lambda>x. fc_direction (snd x) = ''dl'') (uc_flows u)))
      in if vs = [] then None else Some (greatest vs))"

definition total :: "(flow_second \<Rightarrow> int) \<Rightarrow> ue_second \<Rightarrow> int" where
  "total f u = sum_list (map (\<lambda>x. f (snd x)) (uc_flows u))"

definition violation_of :: "ue_second \<Rightarrow> pyfloat option result" where
  "violation_of u = ratio (total fc_late u) (total fc_sent u)"

definition drop_of :: "ue_second \<Rightarrow> pyfloat option result" where
  "drop_of u = ratio (total fc_sent u - total fc_received u) (total fc_sent u)"

definition cell_extracts :: "(string \<times> (string \<Rightarrow> cell_second \<Rightarrow> pyfloat option result)) list" where
  "cell_extracts =
     [(''aggregate_dl_mbps'', \<lambda>c s. Ok (Some (cc_dl_rx_mbps s))), (''jain_dl'', \<lambda>c s. Ok (cc_jain_dl s)),
      (''dl_prb_util'', \<lambda>c s. Ok (cc_dl_prb_util s)), (''decision_us'', \<lambda>c s. Ok (cc_decision_us_mean s))]"

definition ue_extracts :: "benchmark \<Rightarrow> nat \<Rightarrow> (string \<times> (string \<Rightarrow> cell_second \<Rightarrow> pyfloat option result)) list" where
  "ue_extracts bk i =
     map (\<lambda>(name, f). (''ue'' @ str_nat i @ name, \<lambda>c s. bindR (ue_at bk i c s) f))
       [(''_dl_mbps'', \<lambda>u. Ok (Some (uc_dl_rx_mbps u))), (''_dl_delay_p99_ms'', \<lambda>u. Ok (flow_delay_p99 u)),
        (''_pdb_violation'', violation_of), (''_drop'', drop_of), (''_dl_wait_max_ms'', \<lambda>u. Ok (Some (uc_dl_wait_ms_max u)))]"

definition pairs ::
  "(pyfloat list \<Rightarrow> pyfloat result) \<Rightarrow> (pyfloat \<Rightarrow> pyfloat) \<Rightarrow> benchmark \<Rightarrow> cells_of_second list \<Rightarrow> string \<Rightarrow> string
     \<Rightarrow> (string \<times> series) list result" where
  "pairs stdev sqrtf bk valid x y =
     mapR (\<lambda>(name, extract). bindR (compared stdev sqrtf valid x y extract) (\<lambda>s. Ok (name, s)))
       (cell_extracts @ ue_extracts bk 0 @ ue_extracts bk 1)"

section \<open>The report\<close>

text \<open>The seconds of the run that are over; on a live run the current one is left out.\<close>

definition complete_seconds :: "run_times \<Rightarrow> pyfloat \<Rightarrow> bool \<Rightarrow> int result" where
  "complete_seconds t now_ms live =
     (case rc_anchor_ms t of
        None \<Rightarrow> Ok 0
      | Some anchor \<Rightarrow>
          bindR (if live then ffloor (fquot (fsub now_ms (fl anchor)) (Fin 1000)) else Ok (rc_measure_seconds t)) (\<lambda>elapsed.
          Ok (max 0 (min (rc_measure_seconds t) (elapsed - (if live then 1 else 0))))))"

definition sent_step ::
  "run_times \<Rightarrow> pyfloat \<Rightarrow> bool \<Rightarrow> int \<times> flow_state \<Rightarrow> sent_table \<times> flow_table \<Rightarrow> (sent_table \<times> flow_table) result" where
  "sent_step t now_ms live x acc =
     bindR (sent_by_segment t now_ms live (snd x)) (\<lambda>(out, f). Ok (fst acc @ [(fst x, out)], snd acc @ [(fst x, f)]))"

definition sent_of_run :: "run_times \<Rightarrow> pyfloat \<Rightarrow> bool \<Rightarrow> flow_table \<Rightarrow> (sent_table \<times> flow_table) result" where
  "sent_of_run t now_ms live flows = foldR (sent_step t now_ms live) flows ([], [])"

record segment_report =
  sr_k :: int
  sr_reasons :: "reason list"
  sr_cells :: cells_of_second

definition segment_report_of :: "analyzer \<Rightarrow> sent_table \<Rightarrow> int \<Rightarrow> segment_report result" where
  "segment_report_of a sent k =
     bindR (segment_validity a k) (\<lambda>reasons.
     bindR (mapR (\<lambda>c. bindR (segment_cell_metrics a sent k (ce_name c)) (\<lambda>m. Ok (ce_name c, m))) (an_cells a)) (\<lambda>cells.
     Ok \<lparr>sr_k = k, sr_reasons = reasons, sr_cells = cells\<rparr>))"

definition valid_segment :: "segment_report \<Rightarrow> bool" where
  "valid_segment s \<longleftrightarrow> sr_reasons s = []"

datatype comparison = SingleCell "string list" | Paired "(string \<times> series) list" bool

text \<open>\<open>lanes\<close> gives the scheduler of each cell of the run.\<close>

definition compare ::
  "(pyfloat list \<Rightarrow> pyfloat result) \<Rightarrow> (pyfloat \<Rightarrow> pyfloat) \<Rightarrow> benchmark \<Rightarrow> (string \<times> string) list
     \<Rightarrow> segment_report list \<Rightarrow> comparison result" where
  "compare stdev sqrtf bk lanes valid =
     (if length lanes = 1 then Ok (SingleCell (map fst lanes))
      else bindR (pairs stdev sqrtf bk (map sr_cells valid) ''a'' ''b'') (\<lambda>out.
           bindR (need (map_of lanes ''a'') ''a'') (\<lambda>a. bindR (need (map_of lanes ''b'') ''b'') (\<lambda>b. Ok (Paired out (a = b))))))"

record report =
  rp_anchor_ms :: "int option"
  rp_traffic_start_ms :: "int option"
  rp_complete :: int
  rp_segments :: "segment_report list"
  rp_lanes :: "(string \<times> cell_run) list"
  rp_comparison :: comparison

definition valid_seconds :: "report \<Rightarrow> int list" where
  "valid_seconds r = map sr_k (filter valid_segment (rp_segments r))"

definition report_of ::
  "(pyfloat list \<Rightarrow> pyfloat result) \<Rightarrow> (pyfloat \<Rightarrow> pyfloat) \<Rightarrow> (string \<Rightarrow> string) \<Rightarrow> pyfloat \<Rightarrow> bool \<Rightarrow> analyzer
     \<Rightarrow> (report \<times> analyzer) result" where
  "report_of stdev sqrtf scheduler now_ms live a =
     bindR (complete_seconds (an_times a) now_ms live) (\<lambda>complete.
     bindR (sent_of_run (an_times a) now_ms live (an_flows a)) (\<lambda>(sent, flows).
     let a = a\<lparr>an_flows := flows\<rparr>; cells = map fst (bk_cells (an_benchmark a))
     in bindR (mapR (\<lambda>k. segment_report_of a sent (int k)) [0..<nat complete]) (\<lambda>segments.
        let valid = filter valid_segment segments; ks = map sr_k valid
        in bindR (mapR (\<lambda>c. bindR (run_cell_metrics a sent ks c) (\<lambda>m. Ok (c, m))) cells) (\<lambda>lanes.
           bindR (compare stdev sqrtf (an_benchmark a) (map (\<lambda>c. (c, scheduler c)) cells) valid) (\<lambda>comparison.
           Ok (\<lparr>rp_anchor_ms = rc_anchor_ms (an_times a), rp_traffic_start_ms = rc_traffic_start_ms (an_times a),
                rp_complete = complete, rp_segments = segments, rp_lanes = lanes, rp_comparison = comparison\<rparr>, a))))))"

section \<open>Checks of the instruments\<close>

record flow_check =
  fk_scheduled :: nat
  fk_sent :: int
  fk_sender_done :: bool
  fk_received :: nat
  fk_duplicates :: int
  fk_unknown_seq :: int

definition flow_checks :: "analyzer \<Rightarrow> (string \<times> flow_check) list" where
  "flow_checks a = fold (\<lambda>x. let f = snd x in AList.update (fs_ue f @ ''.'' @ fw_name (fs_flow f))
     \<lparr>fk_scheduled = length (fs_offsets f), fk_sent = fs_sent_next_seq f, fk_sender_done = fs_sender_done f,
      fk_received = length (filter id (fs_received f)), fk_duplicates = fs_duplicates f, fk_unknown_seq = fs_unknown_seq f\<rparr>) (an_flows a) []"

definition fanout_all_ok :: "analyzer \<Rightarrow> bool" where
  "fanout_all_ok a = list_all (\<lambda>u. su_fanout_ok u \<noteq> Some False) (an_sionna a)"

definition sionna_digests :: "analyzer \<Rightarrow> nat" where
  "sionna_digests a = length (filter (\<lambda>u. truthy (su_digest u)) (an_sionna a))"

definition receiver_log_names :: "analyzer \<Rightarrow> string list" where
  "receiver_log_names a = map (\<lambda>x. ''traffic-dl-recv-'' @ fst x @ ''.log'') (an_ue_cell a) @ [''traffic-ul-recv.log'']"

definition receiver_log :: "(string \<Rightarrow> pyval option) \<Rightarrow> string \<Rightarrow> string \<Rightarrow> (string \<times> pyval) list \<Rightarrow> (string \<times> pyval) list" where
  "receiver_log loads name text logs =
     fold (\<lambda>line logs. if \<not> contains_sub ''\"traffic_receiver_done\"'' line then logs
       else case loads line of None \<Rightarrow> logs | Some v \<Rightarrow> AList.update name v logs) (splitlines text) logs"

definition receiver_logs :: "(string \<Rightarrow> pyval option) \<Rightarrow> (string \<Rightarrow> string option) \<Rightarrow> analyzer \<Rightarrow> (string \<times> pyval) list" where
  "receiver_logs loads text_of a =
     fold (\<lambda>name. case text_of name of None \<Rightarrow> id | Some text \<Rightarrow> receiver_log loads name text) (receiver_log_names a) []"

definition numbers :: "pyval list \<Rightarrow> pyfloat list result" where
  "numbers vs = mapR (\<lambda>v. if is_num v then to_float v else Err (TypeError ''unsupported operand'')) (filter (\<lambda>v. v \<noteq> VNone) vs)"

definition ack_skew :: "sionna_update \<Rightarrow> pyfloat list result" where
  "ack_skew u =
     (case su_fanout_ack_ms u of
        [x, y] \<Rightarrow> if x = VNone \<or> y = VNone then Ok []
          else bindR (numbers [x, y]) (\<lambda>xs. Ok [fabs (fsub (xs ! 0) (xs ! 1))])
      | _ \<Rightarrow> Ok [])"

definition sionna_summary :: "analyzer \<Rightarrow> (stat_summary \<times> stat_summary \<times> stat_summary) result" where
  "sionna_summary a =
     bindR (bindR (numbers (map su_lag_ms (an_sionna a))) summary) (\<lambda>lag.
     bindR (bindR (numbers (map su_generation_ms (an_sionna a))) summary) (\<lambda>generation.
     bindR (bindR (mapR ack_skew (an_sionna a)) (\<lambda>xs. summary (concat xs))) (\<lambda>skew. Ok (lag, generation, skew))))"

definition resource_grid :: "analyzer \<Rightarrow> (string \<times> int \<times> (int \<times> int \<times> pyfloat) list) list" where
  "resource_grid a = map (\<lambda>(cell, state). (cell, cs_nof_prb state,
     map (\<lambda>r. (rs_abs_slot r, rs_wall_ns r div 1000000, rs_decision_us r)) (cs_recent state))) (an_sched a)"

section \<open>The comparison is the same from both sides\<close>

lemma fneg_fneg [simp]: "fneg (fneg x) = x" by (cases x) simp_all

lemma fadd_fneg: "fadd (fneg a) (fneg b) = fneg (fadd a b)"
  by (cases a; cases b) (simp_all flip: rnd64_minus)

lemma fsub_exchange: "fsub b a = fneg (fsub a b)"
  by (cases a; cases b) (simp_all add: fsub_def rnd64_minus [symmetric] algebra_simps)

lemma fsub_fneg: "fsub (fneg a) (fneg b) = fneg (fsub a b)"
  unfolding fsub_def by (rule fadd_fneg)

lemma fneg_zero [simp]: "fneg a = Fin 0 \<longleftrightarrow> a = Fin 0" by (cases a) auto

lemma fmul_fneg: "fmul (fneg a) (fneg b) = fmul a b"
  by (cases a; cases b) (auto simp: sgn_inf_def)

lemma fdiv_fneg: "fdiv (fneg a) b = map_sum id fneg (fdiv a b)"
  by (cases a; cases b) (auto simp: sgn_inf_def simp flip: rnd64_minus)

lemma fquot_fneg: "fquot (fneg a) b = fneg (fquot a b)"
  by (simp add: fquot_def fdiv_fneg split: sum.split)

lemma fsum_fneg: "fsum (map fneg xs) = fneg (fsum xs)"
proof -
  have "fold (\<lambda>x acc. fadd acc x) (map fneg xs) (fneg a) = fneg (fold (\<lambda>x acc. fadd acc x) xs a)" for a
    by (induction xs arbitrary: a) (simp_all add: fadd_fneg)
  from this [of "Fin 0"] show ?thesis by (simp add: fsum_def)
qed

lemma mean_of_fneg: "mean_of (map fneg xs) = map_option fneg (mean_of xs)"
  by (simp add: mean_of_def fsum_fneg fquot_fneg)

lemma fsquare_fneg: "fsquare (fneg x) = fsquare x"
  by (cases x) (simp_all add: fsquare_def)

lemma mapR_cong_map: "(\<And>x. g (h x) = f x) \<Longrightarrow> mapR g (map h xs) = mapR f xs"
  by (induction xs) simp_all

lemma block_length_fneg: "bootstrap_block_length (map fneg ds) = bootstrap_block_length ds"
proof (cases "fdiv (fsum ds) (fl (int (length ds)))")
  case (Inl e)
  then show ?thesis by (simp add: bootstrap_block_length_def Let_def fsum_fneg fdiv_fneg)
next
  case (Inr mean)
  have q: "mapR (\<lambda>d. fsquare (fsub d (fneg mean))) (map fneg ds) = mapR (\<lambda>d. fsquare (fsub d mean)) ds"
    by (rule mapR_cong_map) (simp add: fsub_fneg fsquare_fneg)
  have p: "map (\<lambda>i. fmul (fsub (map fneg ds ! i) (fneg mean)) (fsub (map fneg ds ! (i + 1)) (fneg mean))) [0..<length ds - 1]
      = map (\<lambda>i. fmul (fsub (ds ! i) mean) (fsub (ds ! (i + 1)) mean)) [0..<length ds - 1]"
    by (rule map_cong) (auto simp: fsub_fneg fmul_fneg)
  show ?thesis
    unfolding bootstrap_block_length_def Let_def length_map fsum_fneg fdiv_fneg Inr map_sum.simps bindR_simps q p ..
qed

text \<open>What the comparison needs of \<open>statistics.stdev\<close>: the signs of the sample do not matter.\<close>

definition even_handed :: "(pyfloat list \<Rightarrow> pyfloat result) \<Rightarrow> bool" where
  "even_handed stdev \<longleftrightarrow> (\<forall>xs. stdev (map fneg xs) = stdev xs)"

definition mirror_ci :: "pyfloat \<times> pyfloat \<Rightarrow> pyfloat \<times> pyfloat" where
  "mirror_ci ci = (fneg (snd ci), fneg (fst ci))"

lemma mapR_map_sum: "mapR (\<lambda>x. map_sum id g (f x)) xs = map_sum id (map g) (mapR f xs)"
proof (induction xs)
  case (Cons x xs)
  then show ?case by (cases "f x"; cases "mapR f xs") simp_all
qed simp

lemma ci_fneg:
  assumes "even_handed stdev"
  shows "batch_means_ci stdev sqrtf (map fneg ds) = map_sum id (map_option mirror_ci) (batch_means_ci stdev sqrtf ds)"
proof (cases "int (length ds) < 2 * BOOTSTRAP_BLOCK")
  case False
  note long = this
  show ?thesis
  proof (cases "bootstrap_block_length ds")
    case (Inr block)
    define m where "m = int (length ds) div block"
    have means: "mapR (\<lambda>i. fdiv (fsum (take (nat block) (drop (i * nat block) (map fneg ds)))) (fl block)) [0..<nat m]
        = map_sum id (map fneg) (mapR (\<lambda>i. fdiv (fsum (take (nat block) (drop (i * nat block) ds))) (fl block)) [0..<nat m])"
      by (simp add: fsum_fneg fdiv_fneg mapR_map_sum drop_map take_map)
    have mean: "fdiv (fsum (take (nat (m * block)) (map fneg ds))) (fl (m * block))
        = map_sum id fneg (fdiv (fsum (take (nat (m * block)) ds)) (fl (m * block)))"
      by (simp add: fsum_fneg fdiv_fneg take_map)
    have half: "fsub (fneg x) h = fneg (fadd x h)" "fadd (fneg x) h = fneg (fsub x h)" for x h
      using fadd_fneg [of x h] fadd_fneg [of x "fneg h"] by (simp_all add: fsub_def)
    show ?thesis
      unfolding batch_means_ci_def Let_def length_map block_length_fneg Inr bindR_simps m_def [symmetric] means mean
      by (cases "mapR (\<lambda>i. fdiv (fsum (take (nat block) (drop (i * nat block) ds))) (fl block)) [0..<nat m]";
          cases "fdiv (fsum (take (nat (m * block)) ds)) (fl (m * block))") (use assms in \<open>simp_all add: even_handed_def half mirror_ci_def bindR_def split: sum.split\<close>)
  qed (use long in \<open>simp add: batch_means_ci_def Let_def block_length_fneg\<close>)
qed (simp add: batch_means_ci_def Let_def)

definition mirror :: "series \<Rightarrow> series" where
  "mirror s = \<lparr>ss_n = ss_n s, ss_mean_x = ss_mean_y s, ss_mean_y = ss_mean_x s, ss_mean_diff = map_option fneg (ss_mean_diff s),
     ss_ci95 = map_option mirror_ci (ss_ci95 s), ss_batch_length = ss_batch_length s, ss_x_higher = ss_y_higher s,
     ss_y_higher = ss_x_higher s, ss_ties = ss_ties s\<rparr>"

lemma flt_fneg: "flt (Fin 0) (fneg x) = flt x (Fin 0)" "flt (fneg x) (Fin 0) = flt (Fin 0) x" "feq (Fin 0) (fneg x) = feq (Fin 0) x"
  by (cases x; auto simp: feq_def)+

lemma series_mirrored:
  assumes "even_handed stdev"
  shows "series_of stdev sqrtf (map prod.swap ps) = map_sum id mirror (series_of stdev sqrtf ps)"
proof -
  define ds where "ds = map (\<lambda>(x, y). fsub x y) ps"
  have sw: "map (\<lambda>(x, y). fsub x y) (map prod.swap ps) = map fneg ds" by (auto simp: ds_def fsub_exchange [symmetric])
  have "length (filter (flt (Fin 0)) (map fneg ds)) = length (filter (\<lambda>d. flt d (Fin 0)) ds)"
    "length (filter (\<lambda>d. flt d (Fin 0)) (map fneg ds)) = length (filter (flt (Fin 0)) ds)"
    "length (filter (feq (Fin 0)) (map fneg ds)) = length (filter (feq (Fin 0)) ds)"
    by (simp_all add: filter_map o_def flt_fneg)
  moreover have sides: "map fst (map prod.swap ps) = map snd ps" "map snd (map prod.swap ps) = map fst ps" by simp_all
  ultimately show ?thesis
    unfolding series_of_def Let_def sw sides ds_def [symmetric] length_map block_length_fneg ci_fneg [OF assms] mean_of_fneg
    by (cases "batch_means_ci stdev sqrtf ds"; cases "bootstrap_block_length ds") (simp_all add: mirror_def)
qed

lemma pair_of_swap: "pair_of extract x y seg = Ok ps \<Longrightarrow> pair_of extract y x seg = Ok (map prod.swap ps)"
proof -
  assume "pair_of extract x y seg = Ok ps"
  then obtain s t u v where st: "need (map_of seg x) x = Ok s" "extract x s = Ok u" "need (map_of seg y) y = Ok t" "extract y t = Ok v"
    and ps: "ps = (case (u, v) of (Some u, Some v) \<Rightarrow> [(u, v)] | _ \<Rightarrow> [])"
    by (auto simp: pair_of_def result_simps)
  then show ?thesis by (cases u; cases v) (simp_all add: pair_of_def)
qed

lemma pairs_of_swap:
  "mapR (pair_of extract x y) segs = Ok ps \<Longrightarrow> mapR (pair_of extract y x) segs = Ok (map (map prod.swap) ps)"
  by (induction segs arbitrary: ps) (auto simp: result_simps pair_of_swap)

lemma compared_swap:
  assumes "even_handed stdev" and "compared stdev sqrtf valid x y extract = Ok s"
  shows "compared stdev sqrtf valid y x extract = Ok (mirror s)"
proof -
  obtain ps where ps: "mapR (pair_of extract x y) valid = Ok ps" "series_of stdev sqrtf (concat ps) = Ok s"
    using assms(2) by (auto simp: compared_def result_simps)
  have "concat (map (map prod.swap) ps) = map prod.swap (concat ps)" by (simp add: map_concat)
  with pairs_of_swap [OF ps(1)] series_mirrored [OF assms(1), of sqrtf "concat ps"] ps(2) show ?thesis by (simp add: compared_def)
qed

text \<open>C21. Which of the two cells is called x makes no difference to the comparison but its direction: with the cells exchanged
  every metric has the same seconds and the same number of them, the means change places, the mean difference changes its
  sign, the confidence interval is its mirror image with the same batch length, and the seconds one cell is ahead are the
  seconds the other is behind. Every rounding and every bound of the batch length is even-handed. The standard deviation of
  the library must not depend on the sign of its sample.\<close>

theorem comparison_mirrored:
  assumes "even_handed stdev" and "pairs stdev sqrtf bk valid x y = Ok out"
  shows "pairs stdev sqrtf bk valid y x = Ok (map (\<lambda>(name, s). (name, mirror s)) out)"
proof -
  have "mapR (\<lambda>(name, extract). bindR (compared stdev sqrtf valid y x extract) (\<lambda>s. Ok (name, s))) es
      = Ok (map (\<lambda>(name, s). (name, mirror s)) out)"
    if "mapR (\<lambda>(name, extract). bindR (compared stdev sqrtf valid x y extract) (\<lambda>s. Ok (name, s))) es = Ok out" for es out
    using that by (induction es arbitrary: out) (auto simp: result_simps compared_swap [OF assms(1)])
  with assms(2) show ?thesis by (simp add: pairs_def)
qed

text \<open>One second in which cell a delivers 3 and cell b 2 Mb/s, with two UEs each.\<close>

definition sample_ue :: "pyfloat \<Rightarrow> ue_second" where
  "sample_ue rate = \<lparr>uc_flows = [], uc_dl_rx_mbps = rate, uc_ul_rx_mbps = Fin 0, uc_dl_prb = 0, uc_ul_prb = 0, uc_dl_newtx_mbps = Fin 0,
     uc_ul_newtx_mbps = Fin 0, uc_dl_wait_ms_max = Fin 0, uc_starvation_events = 0, uc_cqi = None, uc_dl_mcs = None, uc_ul_mcs = None,
     uc_pusch_snr_db = None\<rparr>"

definition sample_cell :: "pyfloat \<Rightarrow> string \<Rightarrow> string \<Rightarrow> cell_second" where
  "sample_cell rate u v = \<lparr>cc_slots = None, cc_dl_prb_util = None, cc_ul_prb_util = None, cc_decision_us_mean = None, cc_dl_rx_mbps = rate,
     cc_ul_rx_mbps = Fin 0, cc_jain_dl = None, cc_ues = [(u, sample_ue rate), (v, sample_ue (Fin 0))]\<rparr>"

definition sample_seconds :: "cells_of_second list" where
  "sample_seconds = [[(''a'', sample_cell (Fin 3) ''ue0'' ''ue1''), (''b'', sample_cell (Fin 2) ''ue2'' ''ue3'')]]"

definition sample_run :: benchmark where
  "sample_run = demo_benchmark\<lparr>bk_cells := [(''a'', [demo_ue ''ue0'' ''10.45.1.2'', demo_ue ''ue1'' ''10.45.1.3'']),
     (''b'', [demo_ue ''ue2'' ''10.45.1.4'', demo_ue ''ue3'' ''10.45.1.5''])]\<rparr>"

definition spread :: "pyfloat list \<Rightarrow> pyfloat result" where
  "spread xs = Ok (greatest (map fabs xs))"

lemma fabs_of_fneg: "fabs (fneg x) = fabs x" by (cases x) simp_all

lemma spread_even: "even_handed spread"
  by (simp add: even_handed_def spread_def o_def fabs_of_fneg)

lemma sample_pairs: "\<exists>out. pairs spread id sample_run sample_seconds ''a'' ''b'' = Ok out
  \<and> map_option ss_mean_diff (map_of out ''aggregate_dl_mbps'') = Some (Some (Fin 1))"
  by (simp add: pairs_def cell_extracts_def ue_extracts_def compared_def pair_of_def sample_seconds_def need_def sample_cell_def
      series_of_def batch_means_ci_def BOOTSTRAP_BLOCK_def mean_of_def fsum_def fl_def fquot_def fsub_def ue_at_def sample_run_def
      demo_benchmark_def demo_ue_def sample_ue_def flow_delay_p99_def violation_of_def drop_of_def total_def ratio_def Let_def)

theorem comparison_mirrored_witness:
  "case pairs spread id sample_run sample_seconds ''a'' ''b'' of
      Inl e \<Rightarrow> False
    | Inr out \<Rightarrow> pairs spread id sample_run sample_seconds ''b'' ''a'' = Ok (map (\<lambda>(name, s). (name, mirror s)) out)
        \<and> map_option ss_mean_diff (map_of out ''aggregate_dl_mbps'') = Some (Some (Fin 1))"
proof -
  obtain out where o: "pairs spread id sample_run sample_seconds ''a'' ''b'' = Ok out"
    "map_option ss_mean_diff (map_of out ''aggregate_dl_mbps'') = Some (Some (Fin 1))" using sample_pairs by (elim exE conjE)
  show ?thesis unfolding o(1) sum.case using comparison_mirrored [OF spread_even o(1)] o(2) by (intro conjI)
qed

section \<open>Loss and lateness of a run are rates\<close>

text \<open>The accounts of a flow whose packets all arrived after they were sent.\<close>

definition accounted :: "run_times \<Rightarrow> flow_state \<Rightarrow> bool" where
  "accounted t f \<longleftrightarrow> (\<exists>R x. run_setup t (fs_offsets f) x \<and> counted t (run_bounds t (fs_offsets f) x) R f \<and> (\<forall>i\<in>R. int i < fs_sent_next_seq f))"

text \<open>A final report looks at every second of the run: what it takes as sent covers what has arrived, and the delays it
  looks at are those of the received packets.\<close>

lemma second_counts:
  assumes "accounted t f" and "sent_by_segment t now_ms False f = Ok (out, g)" and "run_second (rc_measure_seconds t) k"
  shows "\<exists>s. (case map_of out k of None \<Rightarrow> (0, 0) | Some sr \<Rightarrow> sr) = (s, int (length (delays_of f k))) \<and> int (length (delays_of f k)) \<le> s"
proof -
  obtain R x where R: "run_setup t (fs_offsets f) x" "counted t (run_bounds t (fs_offsets f) x) R f" "\<forall>i\<in>R. int i < fs_sent_next_seq f"
    using assms(1) by (auto simp: accounted_def)
  define B where "B = run_bounds t (fs_offsets f) x"
  have k: "0 \<le> k" "nat k < nat (rc_measure_seconds t)" "int (nat k) = k" using assms(3) by (simp_all add: run_second_def)
  have eb: "ensure_bounds t f = (Some B, f\<lparr>fs_bounds := Some B\<rparr>)"
    using R(2) by (intro ensure_bounds_set) (simp add: counted_def B_def)
  define hi where "hi = min (int (B ! Suc (nat k))) (fs_sent_next_seq f)"
  have out: "out = concat (map (\<lambda>k. let lo = int (B ! k); hi = min (int (B ! (k + 1))) (fs_sent_next_seq f)
      in if hi \<le> lo then [] else [(int k, (hi - lo, count_of (int k) (fs_received_by_seg f)))]) [0..<nat (rc_measure_seconds t)])"
    using assms(2) by (auto simp: sent_by_segment_def known_segments_def eb result_simps Let_def cong: if_cong)
  have row: "map_of (concat (map (\<lambda>i. if P i then [] else [(int i, v i)]) [0..<m])) (int j) = (if P j \<or> m \<le> j then None else Some (v j))"
    for P :: "nat \<Rightarrow> bool" and v :: "nat \<Rightarrow> int \<times> int" and m j
    by (induction m) (auto simp: map_add_def split: option.split)
  have m: "map_of out k = (if hi \<le> int (B ! nat k) then None else Some (hi - int (B ! nat k), count_of k (fs_received_by_seg f)))"
    using row [of "\<lambda>i. min (int (B ! (i + 1))) (fs_sent_next_seq f) \<le> int (B ! i)"
        "\<lambda>i. (min (int (B ! (i + 1))) (fs_sent_next_seq f) - int (B ! i), count_of (int i) (fs_received_by_seg f))" "nat (rc_measure_seconds t)" "nat k"]
    unfolding k(3) by (simp add: out hi_def Let_def linorder_not_le [THEN iffD2, OF k(2)] cong: if_cong)
  have c: "count_of k (fs_received_by_seg f) = int (card {i \<in> R. B ! nat k \<le> i \<and> i < B ! Suc (nat k)})"
    "length (delays_of f k) = card {i \<in> R. B ! nat k \<le> i \<and> i < B ! Suc (nat k)}"
  proof -
    have "\<forall>j<nat (rc_measure_seconds t). count_of (int j) (fs_received_by_seg f) = int (card {i \<in> R. B ! j \<le> i \<and> i < B ! Suc j})
        \<and> length (delays_of f (int j)) = card {i \<in> R. B ! j \<le> i \<and> i < B ! Suc j}"
      using R(2) unfolding counted_def B_def delays_of_def by blast
    from this [rule_format, OF k(2)] show "count_of k (fs_received_by_seg f) = int (card {i \<in> R. B ! nat k \<le> i \<and> i < B ! Suc (nat k)})"
      "length (delays_of f k) = card {i \<in> R. B ! nat k \<le> i \<and> i < B ! Suc (nat k)}" unfolding k(3) by blast+
  qed
  have "{i \<in> R. B ! nat k \<le> i \<and> i < B ! Suc (nat k)} \<subseteq> {B ! nat k..<nat hi}" using R(3) by (fastforce simp: hi_def)
  then have "card {i \<in> R. B ! nat k \<le> i \<and> i < B ! Suc (nat k)} \<le> nat hi - B ! nat k"
    using card_mono [OF finite_atLeastLessThan] by fastforce
  then have "int (card {i \<in> R. B ! nat k \<le> i \<and> i < B ! Suc (nat k)}) \<le> int (nat hi - B ! nat k)" by (rule zle_int [THEN iffD2])
  also have "\<dots> = max 0 (hi - int (B ! nat k))" by simp
  finally show ?thesis using m c by auto
qed

definition rate :: "pyfloat option \<Rightarrow> bool" where
  "rate x = (case x of None \<Rightarrow> True | Some (Fin q) \<Rightarrow> 0 \<le> q \<and> q \<le> 1 | _ \<Rightarrow> False)"

lemma ratio_rate:
  assumes "0 \<le> a" and "a \<le> b" and "ratio a b = Ok r"
  shows "rate r"
proof (cases "b = 0")
  case False
  then have b: "0 < b" using assms(1,2) by simp
  have "0 \<le> of_int a / (of_int b :: rat)" "of_int a / (of_int b :: rat) \<le> 1" using assms(1,2) b by simp_all
  then obtain q where "rnd64 (of_int a / of_int b) = Fin q" "0 \<le> q" "q \<le> 1" using rnd64_between [of 0 1] by auto
  with assms(3) b show ?thesis by (auto simp: ratio_def int_div_def rate_def)
qed (use assms(3) in \<open>simp add: ratio_def rate_def\<close>)

text \<open>The sent packets of every second of the run cover the received ones, for every flow.\<close>

definition covers :: "sent_table \<Rightarrow> int \<Rightarrow> int \<times> flow_state \<Rightarrow> bool" where
  "covers sent seconds x \<longleftrightarrow> (\<forall>k. run_second seconds k \<longrightarrow> (\<exists>s. sent_received sent (fst x) k = Ok (s, int (length (delays_of (snd x) k)))
     \<and> int (length (delays_of (snd x) k)) \<le> s))"

definition sane :: "int \<Rightarrow> int \<Rightarrow> int \<Rightarrow> bool" where
  "sane l r s \<longleftrightarrow> 0 \<le> l \<and> l \<le> r \<and> r \<le> s"

lemma sane_rates:
  assumes "sane l r s" and "ratio (s - r) s = Ok d" and "ratio l s = Ok v"
  shows "rate d \<and> rate v"
  using ratio_rate [OF _ _ assms(2)] ratio_rate [OF _ _ assms(3)] assms(1) by (simp add: sane_def)

lemma sane_add: "sane a b c \<Longrightarrow> sane d e f \<Longrightarrow> sane (a + d) (b + e) (c + f)"
  by (simp add: sane_def)

lemma late_bound: "0 \<le> late_of f k \<and> late_of f k \<le> int (length (delays_of f k))"
  by (simp add: late_of_def above_def)

definition sane_count :: "flow_count \<Rightarrow> bool" where
  "sane_count c \<longleftrightarrow> sane (ft_late c) (ft_received c) (ft_sent c)"

lemma count_seconds_sane:
  assumes "foldR (count_second sent x) ks no_count = Ok c" and "covers sent n x" and "list_all (run_second n) ks"
  shows "sane_count c"
  using assms(1)
proof (rule foldR_invariant)
  show "sane_count no_count" by (simp add: sane_count_def no_count_def sane_def)
next
  fix k c c' assume k: "k \<in> set ks" and c: "sane_count c" and "count_second sent x k c = Ok c'"
  moreover have "run_second n k" using k assms(3) by (simp add: list_all_iff)
  then obtain s where "sent_received sent (fst x) k = Ok (s, int (length (delays_of (snd x) k)))" "int (length (delays_of (snd x) k)) \<le> s"
    using assms(2) by (auto simp: covers_def)
  ultimately show "sane_count c'"
    using sane_add [of _ _ _ "late_of (snd x) k" "int (length (delays_of (snd x) k))" s] late_bound [of "snd x" k]
    by (auto simp: count_second_def sane_count_def sane_def)
qed

definition sane_flow :: "flow_metrics \<Rightarrow> bool" where
  "sane_flow m \<longleftrightarrow> sane (fm_late m) (fm_received m) (fm_sent m) \<and> rate (fm_drop_rate m) \<and> rate (fm_pdb_violation_rate m)"

lemma flow_metrics_sane: "flow_metrics_of n f c = Ok m \<Longrightarrow> sane_count c \<Longrightarrow> sane_flow m"
  by (auto simp: flow_metrics_of_def sane_flow_def sane_count_def result_simps dest: sane_rates)

definition sane_ue :: "ue_count \<Rightarrow> bool" where
  "sane_ue u \<longleftrightarrow> sane (ut_late u) (ut_received u) (ut_sent u) \<and> all_pairs (\<lambda>name. sane_flow) (ut_flows u)"

lemma count_flows_sane:
  assumes "foldR (count_flow sent ks) flows no_ue_count = Ok u" and "list_all (covers sent n) flows" and "list_all (run_second n) ks"
  shows "sane_ue u"
  using assms(1)
proof (rule foldR_invariant)
  show "sane_ue no_ue_count" by (simp add: sane_ue_def no_ue_count_def sane_def)
next
  fix x u u' assume x: "x \<in> set flows" and u: "sane_ue u" and step: "count_flow sent ks x u = Ok u'"
  obtain c m where c: "foldR (count_second sent x) ks no_count = Ok c" and m: "flow_metrics_of (length ks) (snd x) c = Ok m"
    and u': "ut_late u' = ut_late u + ft_late c" "ut_received u' = ut_received u + ft_received c" "ut_sent u' = ut_sent u + ft_sent c"
      "ut_flows u' = AList.update (fw_name (fs_flow (snd x))) m (ut_flows u)"
    using step by (auto simp: count_flow_def Let_def result_simps)
  have "covers sent n x" using x assms(2) by (simp add: list_all_iff)
  from count_seconds_sane [OF c this assms(3)] have "sane_count c" .
  moreover from flow_metrics_sane [OF m this] have "sane_flow m" .
  ultimately show "sane_ue u'" using u by (simp add: sane_ue_def u' sane_count_def sane_add all_pairs_update)
qed

definition rates_of_ue :: "ue_metrics \<Rightarrow> bool" where
  "rates_of_ue m \<longleftrightarrow> 0 \<le> um_late m \<and> um_late m \<le> um_received m \<and> um_received m \<le> um_sent m \<and> rate (um_drop_rate m)
     \<and> rate (um_pdb_violation_rate m) \<and> list_all (\<lambda>(name, f). 0 \<le> fm_late f \<and> fm_late f \<le> fm_received f \<and> fm_received f \<le> fm_sent f
         \<and> rate (fm_drop_rate f) \<and> rate (fm_pdb_violation_rate f)) (um_flows m)"

lemma ue_metrics_sane:
  assumes "ue_metrics_of a sent cell ks n ue = Ok m" and "list_all (covers sent s) (an_flows a)" and "list_all (run_second s) ks"
  shows "rates_of_ue m"
proof -
  obtain u d v where u: "foldR (count_flow sent ks) (ue_flows a ue) no_ue_count = Ok u"
    and d: "ratio (ut_sent u - ut_received u) (ut_sent u) = Ok d" and v: "ratio (ut_late u) (ut_sent u) = Ok v"
    and m: "um_late m = ut_late u" "um_received m = ut_received u" "um_sent m = ut_sent u" "um_drop_rate m = d"
      "um_pdb_violation_rate m = v" "um_flows m = ut_flows u"
    using assms(1) by (auto simp: ue_metrics_of_def Let_def result_simps)
  have "list_all (covers sent s) (ue_flows a ue)" using assms(2) by (auto simp: ue_flows_def list_all_iff)
  from count_flows_sane [OF u this assms(3)] sane_rates [OF _ d v] show ?thesis
    by (auto simp: rates_of_ue_def m sane_ue_def sane_def sane_flow_def all_pairs_def list_all_iff)
qed

lemma mapR_pairs: "mapR (\<lambda>x. bindR (f x) (\<lambda>y. Ok (x, y))) xs = Ok ps \<Longrightarrow> (\<And>x y. f x = Ok y \<Longrightarrow> P y) \<Longrightarrow> list_all (\<lambda>(x, y). P y) ps"
  by (induction xs arbitrary: ps) (auto simp: result_simps)

lemma run_rates_sane:
  assumes "run_cell_metrics a sent ks cell = Ok r" and "list_all (covers sent s) (an_flows a)" and "list_all (run_second s) ks"
  shows "list_all (\<lambda>(ue, m). rates_of_ue m) (cr_per_ue r)"
proof -
  obtain n where "mapR (\<lambda>ue. bindR (ue_metrics_of a sent cell ks n ue) (\<lambda>m. Ok (ue, m))) (cell_ues a cell) = Ok (cr_per_ue r)"
    using assms(1) by (auto simp: run_cell_metrics_def Let_def result_simps)
  then show ?thesis by (rule mapR_pairs) (rule ue_metrics_sane [OF _ assms(2,3)])
qed

lemma sent_of_run_covers:
  assumes "foldR (sent_step t now_ms False) flows (sent, acc) = Ok (sent', out')" and "all_pairs (\<lambda>fid. accounted t) flows"
    and "distinct (dict_keys sent @ dict_keys flows)" and "list_all (covers sent (rc_measure_seconds t)) acc"
  shows "list_all (covers sent' (rc_measure_seconds t)) out'"
  using assms
proof (induction flows arbitrary: sent acc)
  case (Cons x flows)
  obtain out f where o: "sent_by_segment t now_ms False (snd x) = Ok (out, f)"
    and r: "foldR (sent_step t now_ms False) flows (sent @ [(fst x, out)], acc @ [(fst x, f)]) = Ok (sent', out')"
  proof -
    obtain mid where "sent_step t now_ms False x (sent, acc) = Ok mid" "foldR (sent_step t now_ms False) flows mid = Ok (sent', out')"
      using Cons.prems(1) by (auto simp only: foldR.simps bindR_Inr_conv)
    moreover then obtain out f where "sent_by_segment t now_ms False (snd x) = Ok (out, f)"
      "mid = (sent @ [(fst x, out)], acc @ [(fst x, f)])"
      by (auto simp: sent_step_def bindR_Inr_conv)
    ultimately show thesis by (intro that) simp_all
  qed
  have ac: "accounted t (snd x)" "all_pairs (\<lambda>fid. accounted t) flows" using Cons.prems(2) by (cases x; simp add: all_pairs_def)+
  have new: "fst x \<notin> set (dict_keys sent)" using Cons.prems(3) by auto
  have f: "delays_of f = delays_of (snd x)"
    using o by (auto simp: sent_by_segment_def ensure_bounds_def delays_of_def fun_eq_iff Let_def result_simps split: option.splits prod.splits)
  have "covers (sent @ [(fst x, out)]) (rc_measure_seconds t) (fst x, f)"
    using second_counts [OF ac(1) o] new map_of_eq_None_iff [of sent "fst x"]
    by (auto simp: covers_def sent_received_def f map_add_def split: option.splits)
  moreover have "covers (sent @ [(fst x, out)]) n y" if "covers sent n y" for n y
  proof -
    have "sent_received (sent @ [(fst x, out)]) (fst y) k = Ok sr" if "sent_received sent (fst y) k = Ok sr" for k sr
      using that by (auto simp: sent_received_def map_add_def split: option.splits)
    with that show ?thesis by (fastforce simp: covers_def)
  qed
  ultimately have "list_all (covers (sent @ [(fst x, out)]) (rc_measure_seconds t)) (acc @ [(fst x, f)])"
    using Cons.prems(4) by (auto simp: list_all_iff)
  with Cons.IH [OF r ac(2)] Cons.prems(3) show ?case by auto
qed simp

lemma segment_report_k: "segment_report_of a sent k = Ok g \<Longrightarrow> sr_k g = k"
  by (auto simp: segment_report_of_def result_simps)

lemma report_rates:
  assumes "report_of stdev sqrtf scheduler now_ms False a = Ok (r, a')" and "all_pairs (\<lambda>fid. accounted (an_times a)) (an_flows a)"
    and "distinct (dict_keys (an_flows a))"
  shows "list_all (\<lambda>(cell, lane). list_all (\<lambda>(ue, m). rates_of_ue m) (cr_per_ue lane)) (rp_lanes r)"
proof -
  define n where "n = rc_measure_seconds (an_times a)"
  obtain c sent flows segments where c: "complete_seconds (an_times a) now_ms False = Ok c"
    and s: "sent_of_run (an_times a) now_ms False (an_flows a) = Ok (sent, flows)"
    and g: "mapR (\<lambda>k. segment_report_of (a\<lparr>an_flows := flows\<rparr>) sent (int k)) [0..<nat c] = Ok segments"
    and l: "mapR (\<lambda>c. bindR (run_cell_metrics (a\<lparr>an_flows := flows\<rparr>) sent (map sr_k (filter valid_segment segments)) c) (\<lambda>m. Ok (c, m)))
        (map fst (bk_cells (an_benchmark a))) = Ok (rp_lanes r)"
    using assms(1) by (auto simp: report_of_def Let_def result_simps)
  have cover: "list_all (covers sent n) (an_flows (a\<lparr>an_flows := flows\<rparr>))"
    using sent_of_run_covers [OF s [unfolded sent_of_run_def] assms(2)] assms(3) by (simp add: n_def)
  have "c \<le> max 0 n" using c by (auto simp: complete_seconds_def n_def result_simps split: option.splits)
  then have "run_second n (sr_k g)" if "g \<in> set segments" for g
  proof -
    obtain i where i: "i < length segments" "g = segments ! i" using \<open>g \<in> set segments\<close> by (auto simp: in_set_conv_nth)
    then have "i < nat c" "segment_report_of (a\<lparr>an_flows := flows\<rparr>) sent (int i) = Ok g"
      using mapR_Inr [OF g] by (auto simp: list_all2_conv_all_nth)
    then show ?thesis using segment_report_k \<open>c \<le> max 0 n\<close> by (fastforce simp: run_second_def)
  qed
  then have "list_all (run_second n) (map sr_k (filter valid_segment segments))" by (auto simp: list_all_iff)
  with cover have "list_all (\<lambda>(ue, m). rates_of_ue m) (cr_per_ue lane)"
    if "run_cell_metrics (a\<lparr>an_flows := flows\<rparr>) sent (map sr_k (filter valid_segment segments)) cell = Ok lane" for cell lane
    using run_rates_sane [OF that] by blast
  from mapR_pairs [OF l this] show ?thesis .
qed

definition keyed :: "int set \<Rightarrow> flow_table \<Rightarrow> bool" where
  "keyed K flows \<longleftrightarrow> distinct (dict_keys flows) \<and> set (dict_keys flows) = K"

lemma keyed_update: "keyed K flows \<Longrightarrow> map_of flows fid = Some f \<Longrightarrow> keyed K (AList.update fid g flows)"
proof -
  assume k: "keyed K flows" and "map_of flows fid = Some f"
  then have "fid \<in> K" by (metis keyed_def map_of_SomeD fst_conv image_eqI set_map)
  with k dict_keys_update [of fid g flows] show ?thesis by (simp add: keyed_def distinct_update insert_absorb del: set_map)
qed

lemma keyed_rx: "foldR (rx_packet t) recs flows = Ok flows' \<Longrightarrow> keyed K flows \<Longrightarrow> keyed K flows'"
  by (erule foldR_invariant) (auto simp: rx_packet_def result_simps keyed_update split: prod.splits option.splits)

lemma keyed_ticks: "keyed K flows \<Longrightarrow> keyed K (fold note_sent ticks flows)"
  by (induction ticks arbitrary: flows) (auto simp: note_sent_def keyed_update split: option.split)

text \<open>The flows of a run that starts, each with its schedule in order.\<close>

definition fresh_flows :: "run_times \<Rightarrow> flow_table \<Rightarrow> bool" where
  "fresh_flows t flows \<longleftrightarrow> distinct (dict_keys flows)
     \<and> list_all (\<lambda>(fid, f). \<exists>ue w pdb_ms offs x. f = new_flow fid ue w pdb_ms offs \<and> run_setup t offs x) flows"

lemma polled_accounted:
  assumes "poll_receivers t recs flows = Ok flows'" and "fresh_flows t flows"
    and "\<And>fid i. i \<in> seqs_in fid recs \<Longrightarrow> \<exists>n. (fid, n) \<in> set ticks \<and> int i < n"
  shows "all_pairs (\<lambda>fid. accounted t) (fold note_sent ticks flows') \<and> distinct (dict_keys (fold note_sent ticks flows'))"
proof (cases "flows = [] \<or> rc_traffic_start_ms t = None \<or> rc_anchor_ms t = None")
  case True
  then have "flows = []"
    using assms(2) by (cases flows) (auto simp: fresh_flows_def run_setup_def)
  with assms(1) have "flows' = []" by (simp add: poll_receivers_def)
  moreover have "fold note_sent ticks [] = []" by (induction ticks) (simp_all add: note_sent_def)
  ultimately show ?thesis by simp
next
  case False
  then have fold: "foldR (rx_packet t) recs flows = Ok flows'" using assms(1) by (simp add: poll_receivers_def split: if_splits)
  define final where "final = fold note_sent ticks flows'"
  have K: "keyed (set (dict_keys flows)) flows" using assms(2) by (simp add: keyed_def fresh_flows_def)
  then have keys: "keyed (set (dict_keys flows)) final" unfolding final_def by (intro keyed_ticks keyed_rx [OF fold])
  have "accounted t g" if "(fid, g) \<in> set final" for fid g
  proof -
    have g: "map_of final fid = Some g" using that keys by (simp add: keyed_def)
    have "fid \<in> set (dict_keys flows)" using that keys by (force simp: keyed_def)
    then obtain f0 where f0: "(fid, f0) \<in> set flows" by auto
    then have m0: "map_of flows fid = Some f0" using K by (simp add: keyed_def)
    obtain ue w pdb_ms offs x where new: "f0 = new_flow fid ue w pdb_ms offs" and x: "run_setup t offs x"
      using assms(2) f0 by (auto simp: fresh_flows_def list_all_iff)
    have start: "counted t (run_bounds t offs x) {} f0" unfolding new using x by (rule counted_new)
    obtain f1 where f1: "map_of flows' fid = Some f1" "fs_offsets f1 = offs"
      "counted t (run_bounds t offs x) (seqs_in fid recs \<inter> {..<length offs}) f1"
      using rx_packets_counted [OF fold m0 start run_bounds_facts(2,1) [OF x]] by (auto simp: new new_flow_def)
    obtain n where n: "g = f1\<lparr>fs_sent_next_seq := n\<rparr>" "\<forall>m. (fid, m) \<in> set ticks \<longrightarrow> m \<le> n"
      using note_sent_all [OF f1(1), of ticks] g by (auto simp: final_def)
    have "counted t (run_bounds t offs x) (seqs_in fid recs \<inter> {..<length offs}) g"
      using f1(3) unfolding n(1) by (simp add: counted_def bounds_set_def)
    moreover have "\<forall>i\<in>seqs_in fid recs \<inter> {..<length offs}. int i < fs_sent_next_seq g"
      using assms(3) n by fastforce
    ultimately show ?thesis unfolding accounted_def using x f1(2) n(1) by auto
  qed
  then show ?thesis using keys unfolding final_def [symmetric] by (auto simp: all_pairs_def keyed_def)
qed

text \<open>C20. In a final report the loss and the lateness of every UE and of every flow are rates: nothing is late that was not received,
  nothing received that was not sent, and drop and violation rates lie between 0 and 1, whatever arrived, in whatever order
  and how often, and whichever seconds were valid. The progress the senders logged must cover what arrived.\<close>

theorem reported_rates_are_rates:
  assumes "poll_receivers t recs flows = Ok flows'" and "fresh_flows t flows"
    and "\<And>fid i. i \<in> seqs_in fid recs \<Longrightarrow> \<exists>n. (fid, n) \<in> set ticks \<and> int i < n"
    and "an_times a = t" and "an_flows a = fold note_sent ticks flows'"
    and "report_of stdev sqrtf scheduler now_ms False a = Ok (r, a')"
  shows "list_all (\<lambda>(cell, lane). list_all (\<lambda>(ue, m). rates_of_ue m) (cr_per_ue lane)) (rp_lanes r)"
  using report_rates [OF assms(6)] polled_accounted [OF assms(1-3)] by (simp add: assms(4,5))

text \<open>One cell with one UE and one flow of one packet a second; the second packet comes twice, 400 ms late.\<close>

definition late_flow :: flow_state where
  "late_flow = new_flow 0 ''ue0'' (periodic ''dl_demo'' ''dl'' 1000 125000) 300 [Fin 0, Fin 1]"

definition late_rx :: "rx_record list" where
  "late_rx = [(0, 1, 5600000000, 6000000000), (0, 1, 5600000000, 6000000000), (0, 9, 5600000000, 6000000000)]"

definition late_counted :: flow_state where
  "late_counted = late_flow\<lparr>fs_received := [False, True], fs_bounds := Some [0, 1, 2], fs_received_by_seg := [(1, 1)],
     fs_delay_ms := [(1, [Fin 400])], fs_all_delays := [Fin 400], fs_rx_bytes := [(1, 125000)], fs_duplicates := 1, fs_unknown_seq := 1\<rparr>"

definition late_run :: analyzer where
  "late_run = (new_analyzer (demo_benchmark\<lparr>bk_cells := [(''a'', [demo_ue ''ue0'' ''10.45.1.2''])]\<rparr>))
     \<lparr>an_times := demo_times, an_flows := [(0, late_counted\<lparr>fs_sent_next_seq := 10\<rparr>)],
      an_sched := [(''a'', new_cell\<lparr>cs_seg := [(1, new_segment\<lparr>sg_first_slot := Some 0\<rparr>)]\<rparr>)]\<rparr>"

lemma late_polled: "poll_receivers demo_times late_rx [(0, late_flow)] = Ok [(0, late_counted)]"
proof -
  have s: "segment_of_ms (run_clock.truncate demo_times) (fquot (fl 6000000000) (Fin 1000000)) = Ok (Some 1)"
    by (simp add: segment_of_ms_def demo_times_def run_clock.truncate_def fl_def fquot_def fsub_def ffloor_def int_of_rat_def
        float_eval result_simps)
  have b: "seg_bounds [Fin 0, Fin 1] (shift_of 5000 5000) 2 = [0, 1, 2]"
    by (simp add: seg_bounds_def shift_of_def fquot_def fl_def bisect_left_def numeral_nat upt_rec float_eval)
  have d: "ieee_round binary32 (fquot (fl 400000000) (Fin 1000000)) = Fin 400" 
    by (simp add: fl_def fquot_def float_eval ieee_round_def) code_simp
  show ?thesis
    apply (simp add: poll_receivers_def late_rx_def rx_packet_def late_flow_def new_flow_def take_packet_def nominal_segment_def
        ensure_bounds_def s d segment_of_seq_def bisect_right_def result_simps b [simplified])
    apply (simp add: demo_times_def b segment_of_seq_def bisect_right_def result_simps file_bytes_def file_delay_def take_packet_def rx_packet_def
       late_counted_def late_flow_def new_flow_def count_of_def periodic_def plain_flow_def d)
    done
qed

lemma late_fields:
  "an_times late_run = demo_times" "an_cells late_run = take 1 CELLS" "an_ue_cell late_run = [(''ue0'', ''a'')]"
  "an_ue_meta late_run = [(''ue0'', demo_ue ''ue0'' ''10.45.1.2'')]" "an_gnb_metrics late_run = [(''a'', [])]"
  "an_cell_metrics late_run = [(''a'', [])]" "an_ue_side late_run = [(''ue0'', [])]"
  "an_sched late_run = [(''a'', new_cell\<lparr>cs_seg := [(1, new_segment\<lparr>sg_first_slot := Some 0\<rparr>)]\<rparr>)]"
  "an_flows late_run = [(0, late_counted\<lparr>fs_sent_next_seq := 10\<rparr>)]"
  "bk_cells (an_benchmark late_run) = [(''a'', [demo_ue ''ue0'' ''10.45.1.2''])]"
  by (simp_all add: late_run_def new_analyzer_def Let_def CELLS_def run_ues_def demo_benchmark_def demo_ue_def)

lemma late_sent: "sent_of_run demo_times (Fin 0) False (an_flows late_run) = Ok ([(0, [(0, (1, 0)), (1, (1, 1))])], an_flows late_run)"
  by (simp add: late_fields sent_of_run_def sent_step_def sent_by_segment_def ensure_bounds_def late_counted_def late_flow_def new_flow_def
      known_segments_def demo_times_def numeral_2_eq_2 count_of_def)

lemma late_seconds: "segment_validity late_run 0 = Ok [NoSchedulerActivity ''a'']" "segment_validity late_run 1 = Ok []"
  by (simp_all add: segment_validity_def late_fields gnb_reasons_def ue_reasons_def need_def sched_reasons_def segment_of_def new_cell_def new_segment_def)

lemma late_slots: "cs_slot_samples s = [] \<Longrightarrow> slots_of_second late_run s k = Ok None"
  by (simp add: slots_of_second_def second_ns_def late_fields demo_times_def slots_between_def)

lemma late_summary: "\<exists>s. summary [Fin 400] = Ok s"
  using nearest_rank_ok [of "1/2" 1] nearest_rank_ok [of "95/100" 1] nearest_rank_ok [of "99/100" 1]
  by (auto simp: summary_def fsum_def fl_def Let_def float_eval)

lemmas late_flow_defs = late_counted_def late_flow_def new_flow_def periodic_def plain_flow_def count_of_def delays_of_def late_of_def above_def
  fl_def mbps_def fquot_def float_eval

lemma late_metrics: "k = 0 \<or> k = 1 \<Longrightarrow> \<exists>m. segment_cell_metrics late_run [(0, [(0, (1, 0)), (1, (1, 1))])] k ''a'' = Ok m"
proof -
  obtain s where s: "summary [Fin 400] = Ok s" using late_summary ..
  assume "k = 0 \<or> k = 1"
  then show ?thesis
    by (auto simp: segment_cell_metrics_def late_fields need_def late_slots cell_ues_def ue_in_second_def ue_flows_def flow_in_second_def
        sent_received_def s late_flow_defs summary_def [of "[]"] metrics_of_def link_means_def mean_valid_def prb_util_def or_zero_def toward_def
        fsum_def jain_def new_cell_def segment_of_def new_segment_def ue_of_def new_ue_segment_def Let_def mean_of_def)
qed

lemma late_ue: "\<exists>m. ue_metrics_of late_run [(0, [(0, (1, 0)), (1, (1, 1))])] ''a'' [1] 0 ''ue0'' = Ok m \<and> (um_sent m, um_received m, um_late m) = (1, 1, 1)
  \<and> um_dl_mbps m = Fin 1 \<and> um_dl_offered_mbps m = Fin 1 \<and> um_dl_prb_share m = None"
proof -
  obtain s where s: "summary [Fin 400] = Ok s" using late_summary ..
  show ?thesis
    by (auto simp: ue_metrics_of_def late_fields need_def ue_flows_def count_flow_def count_second_def no_ue_count_def no_count_def sent_received_def
       s late_flow_defs summary_def [of "[]"] flow_metrics_of_def offered_rate_mbps_def ratio_def int_div_def mbps_of_run_def Let_def metrics_of_def
       starvation_of_def link_of_def block_errors_def vsum_def vadd_def link_means_def mean_valid_def segment_of_def new_segment_def
       new_cell_def ue_of_def new_ue_segment_def)
qed

lemma late_lane: "\<exists>r. run_cell_metrics late_run [(0, [(0, (1, 0)), (1, (1, 1))])] [1] ''a'' = Ok r
  \<and> map (\<lambda>(u, m). (um_sent m, um_received m, um_late m)) (cr_per_ue r) = [(1, 1, 1)]"
proof -
  obtain m where m: "ue_metrics_of late_run [(0, [(0, (1, 0)), (1, (1, 1))])] ''a'' [1] 0 ''ue0'' = Ok m"
    "(um_sent m, um_received m, um_late m) = (1, 1, 1)" "um_dl_mbps m = Fin 1" "um_dl_offered_mbps m = Fin 1" "um_dl_prb_share m = None"
    using late_ue by (elim exE conjE)
  then show ?thesis
    by (auto simp: run_cell_metrics_def late_fields need_def Let_def cell_ues_def segment_of_def new_segment_def ue_of_def new_ue_segment_def
        new_cell_def late_slots over_offered_def cell_metrics_of_def mean_valid_def mean_of_def vmax_def vsum_def jain_def fsum_def
        when_measured_def prb_util_def or_zero_def hz_of_bits_def bits_of_def int_div_def per_used_prb_def summary_def fl_def float_eval)
qed

lemma late_reported: "\<exists>r a'. report_of spread id (\<lambda>c. ''rr'') (Fin 0) False late_run = Ok (r, a') \<and> valid_seconds r = [1]
  \<and> map_option (\<lambda>l. map (\<lambda>(u, m). (um_sent m, um_received m, um_late m)) (cr_per_ue l)) (map_of (rp_lanes r) ''a'') = Some [(1, 1, 1)]"
proof -
  obtain x y where s: "segment_cell_metrics late_run [(0, [(0, (1, 0)), (1, (1, 1))])] 0 ''a'' = Ok x"
    "segment_cell_metrics late_run [(0, [(0, (1, 0)), (1, (1, 1))])] 1 ''a'' = Ok y" using late_metrics by blast
  obtain l where l: "run_cell_metrics late_run [(0, [(0, (1, 0)), (1, (1, 1))])] [1] ''a'' = Ok l"
    "map (\<lambda>(u, m). (um_sent m, um_received m, um_late m)) (cr_per_ue l) = [(1, 1, 1)]" using late_lane by (elim exE conjE)
  have up: "[0..<2] = [0, 1]" by (simp add: numeral_2_eq_2)
  have same: "late_run\<lparr>an_flows := an_flows late_run\<rparr> = late_run" by simp
  have c: "complete_seconds demo_times (Fin 0) False = Ok 2" by (simp add: complete_seconds_def demo_times_def)
  show ?thesis
    unfolding report_of_def late_sent c late_fields(1) bindR_simps prod.case same Let_def
    by (simp add: l up segment_report_of_def late_seconds s late_fields CELLS_def valid_segment_def compare_def valid_seconds_def)
qed

theorem reported_rates_are_rates_witness:
  "case report_of spread id (\<lambda>c. ''rr'') (Fin 0) False late_run of
      Inl e \<Rightarrow> False
    | Inr (r, a') \<Rightarrow> list_all (\<lambda>(cell, lane). list_all (\<lambda>(ue, m). rates_of_ue m) (cr_per_ue lane)) (rp_lanes r) \<and> valid_seconds r = [1]
        \<and> map_option (\<lambda>l. map (\<lambda>(u, m). (um_sent m, um_received m, um_late m)) (cr_per_ue l)) (map_of (rp_lanes r) ''a'') = Some [(1, 1, 1)]"
proof -
  obtain r a' where r: "report_of spread id (\<lambda>c. ''rr'') (Fin 0) False late_run = Ok (r, a')" "valid_seconds r = [1]"
    "map_option (\<lambda>l. map (\<lambda>(u, m). (um_sent m, um_received m, um_late m)) (cr_per_ue l)) (map_of (rp_lanes r) ''a'') = Some [(1, 1, 1)]"
    using late_reported by (elim exE conjE)
  have ordered: "run_setup demo_times [Fin 0, Fin 1] 0" by (rule demo_setup)
  then have "\<exists>ue w pdb_ms offs x. late_flow = new_flow 0 ue w pdb_ms offs \<and> run_setup demo_times offs x" unfolding late_flow_def by blast
  then have "fresh_flows demo_times [(0, late_flow)]" by (simp add: fresh_flows_def)
  moreover have "\<exists>n. (fid, n) \<in> set [(0, 10)] \<and> int i < n" if "i \<in> seqs_in fid late_rx" for fid i
    using that by (auto simp: late_rx_def split: if_splits)
  moreover have "an_flows late_run = fold note_sent [(0, 10)] [(0, late_counted)]"
    by (simp add: late_fields note_sent_def late_counted_def late_flow_def new_flow_def)
  ultimately have "list_all (\<lambda>(cell, lane). list_all (\<lambda>(ue, m). rates_of_ue m) (cr_per_ue lane)) (rp_lanes r)"
    using reported_rates_are_rates [OF late_polled _ _ late_fields(1) _ r(1), of "[(0, 10)]"] by blast
  then show ?thesis unfolding r(1) sum.case prod.case using r(2,3) by (intro conjI)
qed

section \<open>A live report counts more late packets than sent ones\<close>

text \<open>On a live run the sent packets of the last five seconds are left out, because their fate is not known, but the late
  ones of these seconds are counted: six packets sent and received, one a second and all late, are reported as six late of
  two sent, a violation rate of 3.\<close>

definition live_flow :: flow_state where
  "live_flow = late_counted\<lparr>fs_sent_next_seq := 6, fs_bounds := Some [0..<11],
     fs_received_by_seg := map (\<lambda>k. (k, 1)) [0..5], fs_delay_ms := map (\<lambda>k. (k, [Fin 400])) [0..5]\<rparr>"

theorem live_lateness_above_one:
  "\<exists>out f c. complete_seconds (demo_times\<lparr>rc_measure_seconds := 10\<rparr>) (Fin 12000) True = Ok 6
     \<and> sent_by_segment (demo_times\<lparr>rc_measure_seconds := 10\<rparr>) (Fin 12000) True live_flow = Ok (out, f)
     \<and> foldR (count_second [(0, out)] (0, f)) [0..5] no_count = Ok c \<and> ft_sent c = 2 \<and> ft_late c = 6
     \<and> ratio (ft_late c) (ft_sent c) = Ok (Some (Fin 3))"
proof -
  have e: "[0..5] = [0, 1, 2, 3, 4, 5 :: int]" by (simp add: upto.simps)
  have c: "complete_seconds (demo_times\<lparr>rc_measure_seconds := 10\<rparr>) (Fin 12000) True = Ok 6"
    by (simp add: complete_seconds_def demo_times_def fl_def fquot_def fsub_def ffloor_def int_of_rat_def float_eval)
  have s: "sent_by_segment (demo_times\<lparr>rc_measure_seconds := 10\<rparr>) (Fin 12000) True live_flow = Ok ([(0, (1, 1)), (1, (1, 1))], live_flow)"
    by (simp add: sent_by_segment_def ensure_bounds_def live_flow_def known_segments_def LIVE_LOSS_HORIZON_MS_def demo_times_def fl_def fquot_def
        fsub_def ffloor_def int_of_rat_def float_eval e count_of_def numeral_2_eq_2 late_counted_def late_flow_def new_flow_def)
  show ?thesis
    using c s by (simp add: e count_second_def sent_received_def no_count_def live_flow_def late_flow_defs ratio_def int_div_def)
qed

end
