(* ===== verification/BenchCampaign.thy ===== *)
theory BenchCampaign
  imports BenchReport
begin

text \<open>
  Several runs of the scheduler benchmark together, \<^verbatim>\<open>use_cases/scheduler_benchmark/campaign.py\<close>: the effect of the
  policies and the bias of the cells from pairs of runs with the policies swapped, and how far apart two runs of a seed
  solved the channel. \<open>math.sqrt\<close> is a parameter.
\<close>

section \<open>Effects and biases\<close>

record campaign_run =
  ru_dir :: string
  ru_seed :: int
  ru_a :: string
  ru_b :: string
  ru_pairs :: "(string \<times> series) list"

definition half_width :: "(pyfloat \<times> pyfloat) option \<Rightarrow> pyfloat option" where
  "half_width ci = map_option (\<lambda>(lo, hi). fquot (fsub hi lo) (Fin 2)) ci"

definition run_policies :: "campaign_run list \<Rightarrow> string list" where
  "run_policies runs = sort (remdups (concat (map (\<lambda>r. [ru_a r, ru_b r]) runs)))"

definition assignment :: "string \<Rightarrow> string \<Rightarrow> string" where
  "assignment x y = x @ ''|'' @ y"

definition add_run :: "campaign_run \<Rightarrow> (int \<times> (string \<times> campaign_run) list) list \<Rightarrow> (int \<times> (string \<times> campaign_run) list) list" where
  "add_run r by_seed =
     (if ru_a r = ru_b r then by_seed
      else AList.update (ru_seed r)
        (AList.update (assignment (ru_a r) (ru_b r)) r (case map_of by_seed (ru_seed r) of None \<Rightarrow> [] | Some m \<Rightarrow> m)) by_seed)"

definition by_seed_of :: "campaign_run list \<Rightarrow> (int \<times> (string \<times> campaign_run) list) list" where
  "by_seed_of runs = fold add_run runs []"

record swap_pair =
  sp_seed :: int
  sp_effect :: pyfloat
  sp_bias :: pyfloat
  sp_half_width :: "pyfloat option"
  sp_runs :: "string \<times> string"

definition mean_diff_of :: "string \<Rightarrow> campaign_run \<Rightarrow> pyfloat option" where
  "mean_diff_of key r = Option.bind (map_of (ru_pairs r) key) ss_mean_diff"

definition ci_of :: "string \<Rightarrow> campaign_run \<Rightarrow> (pyfloat \<times> pyfloat) option" where
  "ci_of key r = Option.bind (map_of (ru_pairs r) key) ss_ci95"

definition swap_pair_of ::
  "(pyfloat \<Rightarrow> pyfloat) \<Rightarrow> string \<Rightarrow> int \<Rightarrow> campaign_run \<Rightarrow> campaign_run \<Rightarrow> swap_pair option" where
  "swap_pair_of sqrtf key seed first second =
     (case (mean_diff_of key first, mean_diff_of key second) of
        (Some d1, Some d2) \<Rightarrow>
          Some \<lparr>sp_seed = seed, sp_effect = fquot (fsub d1 d2) (Fin 2), sp_bias = fquot (fadd d1 d2) (Fin 2),
            sp_half_width = (case (half_width (ci_of key first), half_width (ci_of key second)) of
               (Some h1, Some h2) \<Rightarrow> Some (fquot (sqrtf (fadd (fmul h1 h1) (fmul h2 h2))) (Fin 2)) | _ \<Rightarrow> None),
            sp_runs = (ru_dir first, ru_dir second)\<rparr>
      | _ \<Rightarrow> None)"

definition seed_pair ::
  "(pyfloat \<Rightarrow> pyfloat) \<Rightarrow> string \<Rightarrow> string \<Rightarrow> string \<Rightarrow> int \<times> (string \<times> campaign_run) list \<Rightarrow> swap_pair list" where
  "seed_pair sqrtf x y key sm =
     (case (map_of (snd sm) (assignment x y), map_of (snd sm) (assignment y x)) of
        (Some first, Some second) \<Rightarrow> (case swap_pair_of sqrtf key (fst sm) first second of None \<Rightarrow> [] | Some p \<Rightarrow> [p])
      | _ \<Rightarrow> [])"

record metric_effect =
  me_key :: string
  me_swap_pairs :: "swap_pair list"
  me_mean_effect :: "pyfloat option"
  me_mean_bias :: "pyfloat option"
  me_aa_bias :: "pyfloat option"

definition effect_of :: "(pyfloat \<Rightarrow> pyfloat) \<Rightarrow> campaign_run list \<Rightarrow> string \<Rightarrow> string \<Rightarrow> string \<Rightarrow> metric_effect" where
  "effect_of sqrtf runs x y key =
     (let sps = concat (map (seed_pair sqrtf x y key) (sort_key fst (by_seed_of runs)));
          aa = concat (map (\<lambda>r. case mean_diff_of key r of None \<Rightarrow> [] | Some d \<Rightarrow> [d]) (filter (\<lambda>r. ru_a r = ru_b r) runs))
      in \<lparr>me_key = key, me_swap_pairs = sps, me_mean_effect = mean_of (map sp_effect sps), me_mean_bias = mean_of (map sp_bias sps),
          me_aa_bias = mean_of aa\<rparr>)"

definition METRICS :: "string list" where
  "METRICS = [''aggregate_dl_mbps'', ''ue0_dl_mbps'', ''ue1_dl_mbps'', ''jain_dl'', ''ue0_dl_delay_p99_ms'', ''ue1_dl_delay_p99_ms'',
     ''ue0_pdb_violation'', ''ue1_pdb_violation'', ''ue0_drop'', ''ue1_drop'', ''dl_prb_util'', ''ue0_dl_wait_max_ms'',
     ''ue1_dl_wait_max_ms'', ''decision_us'']"

definition summarize :: "(pyfloat \<Rightarrow> pyfloat) \<Rightarrow> campaign_run list \<Rightarrow> metric_effect list" where
  "summarize sqrtf runs = (case run_policies runs of [x, y] \<Rightarrow> map (effect_of sqrtf runs x y) METRICS | _ \<Rightarrow> [])"

section \<open>How far apart two runs solved the channel\<close>

record digest_record =
  cn_digest :: string
  cn_taps :: "(string \<times> (pyfloat \<times> pyfloat \<times> pyfloat) list) list"
  cn_positions :: pyval

record channel_check =
  ck_common :: nat
  ck_identical :: nat
  ck_positions_differ :: nat
  ck_structure_differs :: nat
  ck_max_gain :: pyfloat
  ck_max_phase :: pyfloat
  ck_max_delay :: pyfloat

text \<open>Equality of JSON values: lists element by element, objects whatever the order of their keys.\<close>

function (sequential) json_eq :: "pyval \<Rightarrow> pyval \<Rightarrow> bool" where
  "json_eq (VList xs) (VList ys) \<longleftrightarrow> length xs = length ys \<and> list_all (\<lambda>(x, y). json_eq x y) (zip xs ys)"
| "json_eq (VDict d) (VDict e) \<longleftrightarrow> length d = length e
     \<and> list_all (\<lambda>(k, v). case map_of e k of None \<Rightarrow> False | Some w \<Rightarrow> json_eq v w) d"
| "json_eq v w \<longleftrightarrow> py_eq v w"
  by pat_completeness auto
termination
proof (relation "measure (\<lambda>(a, b). size a)")
  fix xs ys :: "pyval list" and x a b assume "x \<in> set (zip xs ys)" and "(a, b) = x"
  then have "a \<in> set xs" by (auto dest: set_zip_leftD)
  then have "size a \<le> size_list size xs" by (rule size_list_estimation') simp
  then show "((a, b), VList xs, VList ys) \<in> measure (\<lambda>(a, b). size a)" by simp
next
  fix d e :: pydict and x k v w assume "x \<in> set d" and "(k, v) = x"
  then have "size v \<le> size_list (size_prod (\<lambda>x. 0) size) d" by (intro size_list_estimation' [of x]) auto
  then show "((v, w), VDict d, VDict e) \<in> measure (\<lambda>(a, b). size a)" by simp
qed simp

definition TWO_PI :: rat where "TWO_PI = 884279719003555 / 140737488355328"

definition phase_distance :: "pyfloat \<Rightarrow> pyfloat \<Rightarrow> pyfloat" where
  "phase_distance p q = (let d = fmod (fabs (fsub p q)) TWO_PI in fmin d (fsub (Fin TWO_PI) d))"

definition compare_tap ::
  "(pyfloat \<times> pyfloat \<times> pyfloat) \<times> (pyfloat \<times> pyfloat \<times> pyfloat) \<Rightarrow> channel_check \<Rightarrow> channel_check" where
  "compare_tap xy c =
     (case xy of ((d1, g1, p1), (d2, g2, p2)) \<Rightarrow>
        c\<lparr>ck_max_delay := fmax (ck_max_delay c) (fabs (fsub d1 d2)), ck_max_gain := fmax (ck_max_gain c) (fabs (fsub g1 g2)),
          ck_max_phase := fmax (ck_max_phase c) (phase_distance p1 p2)\<rparr>)"

definition compare_point :: "digest_record \<times> digest_record \<Rightarrow> channel_check \<Rightarrow> channel_check" where
  "compare_point ab c =
     (case ab of (a, b) \<Rightarrow>
        let c = (if json_eq (cn_positions a) (cn_positions b) then c else c\<lparr>ck_positions_differ := ck_positions_differ c + 1\<rparr>)
        in if cn_digest a = cn_digest b then c\<lparr>ck_identical := ck_identical c + 1\<rparr>
           else if map fst (cn_taps a) \<noteq> map fst (cn_taps b)
             \<or> list_ex (\<lambda>(x, y). length (snd x) \<noteq> length (snd y)) (zip (cn_taps a) (cn_taps b))
           then c\<lparr>ck_structure_differs := ck_structure_differs c + 1\<rparr>
           else fold (\<lambda>(x, y). fold compare_tap (zip (snd x) (snd y))) (zip (cn_taps a) (cn_taps b)) c)"

definition reproducibility_of :: "(int \<times> digest_record) list \<Rightarrow> (int \<times> digest_record) list \<Rightarrow> channel_check" where
  "reproducibility_of a b =
     (let common = sort (filter (\<lambda>k. k \<in> set (dict_keys b)) (dict_keys a))
      in fold compare_point (map (\<lambda>k. (the (map_of a k), the (map_of b k))) common)
        \<lparr>ck_common = length common, ck_identical = 0, ck_positions_differ = 0, ck_structure_differs = 0, ck_max_gain = Fin 0,
         ck_max_phase = Fin 0, ck_max_delay = Fin 0\<rparr>)"

definition reproducibility ::
  "(campaign_run \<Rightarrow> (int \<times> digest_record) list) \<Rightarrow> campaign_run list \<Rightarrow> (int \<times> (string \<times> string) \<times> channel_check) list" where
  "reproducibility records runs =
     (let seeds = sort (remdups (map ru_seed runs))
      in concat (map (\<lambda>seed. let g = filter (\<lambda>r. ru_seed r = seed) runs
           in concat (map (\<lambda>i. map (\<lambda>j. (seed, (ru_dir (g ! i), ru_dir (g ! j)), reproducibility_of (records (g ! i)) (records (g ! j))))
                [i + 1..<length g]) [0..<length g])) seeds))"

section \<open>Swapped policies separate the effect from the bias\<close>

definition lookup_run :: "(int \<times> (string \<times> campaign_run) list) list \<Rightarrow> int \<Rightarrow> string \<Rightarrow> campaign_run option" where
  "lookup_run by_seed s k = Option.bind (map_of by_seed s) (\<lambda>m. map_of m k)"

definition assigned :: "int \<Rightarrow> string \<Rightarrow> campaign_run \<Rightarrow> bool" where
  "assigned s k r \<longleftrightarrow> ru_a r \<noteq> ru_b r \<and> ru_seed r = s \<and> assignment (ru_a r) (ru_b r) = k"

lemma lookup_add: "lookup_run (add_run r m) s k = (if assigned s k r then Some r else lookup_run m s k)"
  by (auto simp: lookup_run_def add_run_def assigned_def split: option.splits)

lemma lookup_fold: "lookup_run (fold add_run runs m) s k = (case filter (assigned s k) (rev runs) of [] \<Rightarrow> lookup_run m s k | r # _ \<Rightarrow> Some r)"
proof (induction runs arbitrary: m)
  case (Cons r runs)
  show ?case by (cases "filter (assigned s k) (rev runs)") (simp_all add: Cons.IH lookup_add)
qed (simp add: lookup_run_def)

lemma lookup_by_seed:
  "lookup_run (by_seed_of runs) s k = Some r \<Longrightarrow> r \<in> set runs \<and> assigned s k r"
  "r \<in> set runs \<Longrightarrow> assigned s k r \<Longrightarrow> lookup_run (by_seed_of runs) s k \<noteq> None"
proof -
  have e: "lookup_run (by_seed_of runs) s k = (case filter (assigned s k) (rev runs) of [] \<Rightarrow> None | r # _ \<Rightarrow> Some r)"
  proof -
    have "lookup_run [] s k = None" by (simp add: lookup_run_def)
    then show ?thesis by (simp only: by_seed_of_def lookup_fold)
  qed
  show "lookup_run (by_seed_of runs) s k = Some r \<Longrightarrow> r \<in> set runs \<and> assigned s k r"
    unfolding e by (cases "filter (assigned s k) (rev runs)") (auto dest!: arg_cong [where f = set])
  show "r \<in> set runs \<Longrightarrow> assigned s k r \<Longrightarrow> lookup_run (by_seed_of runs) s k \<noteq> None"
    unfolding e by (auto simp: filter_empty_conv split: list.split)
qed

lemma distinct_seeds: "distinct (dict_keys m) \<Longrightarrow> distinct (dict_keys (fold add_run runs m))"
  by (induction runs arbitrary: m) (auto simp: add_run_def distinct_update)

lemma split_at_first: "c \<notin> set x \<Longrightarrow> c \<notin> set a \<Longrightarrow> x @ c # y = a @ c # b \<longleftrightarrow> x = a \<and> y = b"
proof (induction x arbitrary: a)
  case Nil
  then show ?case by (cases a) auto
next
  case (Cons u x)
  then show ?case by (cases a) auto
qed

lemma assignment_inj: "CHR ''|'' \<notin> set x \<Longrightarrow> CHR ''|'' \<notin> set a \<Longrightarrow> assignment x y = assignment a b \<longleftrightarrow> x = a \<and> y = b"
  by (simp add: assignment_def split_at_first)


text \<open>A seed with both assignments, an effect of 1 and a bias of 3.\<close>

definition sample_campaign :: "campaign_run list" where
  "sample_campaign =
     (let s = (\<lambda>d. \<lparr>ss_n = 1, ss_mean_x = None, ss_mean_y = None, ss_mean_diff = Some (Fin d), ss_ci95 = None, ss_batch_length = None,
        ss_x_higher = 1, ss_y_higher = 0, ss_ties = 0\<rparr>)
      in [\<lparr>ru_dir = ''second'', ru_seed = 7, ru_a = ''rr'', ru_b = ''pf'', ru_pairs = [(''jain_dl'', s 2)]\<rparr>,
          \<lparr>ru_dir = ''first'', ru_seed = 7, ru_a = ''pf'', ru_b = ''rr'', ru_pairs = [(''jain_dl'', s 4)]\<rparr>])"


end
