(* ===== verification/SceneGeometry.thy ===== *)
theory SceneGeometry
  imports FloatBounds "HOL-Library.Sublist" "HOL-Library.Multiset"
begin

text \<open>
  The plane geometry of \<^verbatim>\<open>apps/sionna_bridge/build_osm_scene.py\<close>: areas, convex hulls, the tests a pedestrian's walk is
  checked with, the walk round a building, the rings of a multipolygon, and ear clipping. Coordinates are floats, points
  pairs of them; \<open>math.hypot\<close> is the parameter \<open>hypot\<close>.
\<close>

section \<open>Rings\<close>

type_synonym point = "pyfloat \<times> pyfloat"

text \<open>The edges of a closed ring: \<open>zip(ring, ring[1:] + [ring[0]])\<close>.\<close>

definition ring_edges :: "'a list \<Rightarrow> ('a \<times> 'a) list" where
  "ring_edges ring = zip ring (tl ring @ [hd ring])"

definition fcross :: "point \<Rightarrow> point \<Rightarrow> pyfloat" where
  "fcross p q = fsub (fmul (fst p) (snd q)) (fmul (fst q) (snd p))"

definition signed_area :: "point list \<Rightarrow> pyfloat" where
  "signed_area ring = fmul (Fin (1/2)) (fold (\<lambda>(p, q) total. fadd total (fcross p q)) (ring_edges ring) (Fin 0))"

definition counter_clockwise :: "point list \<Rightarrow> point list" where
  "counter_clockwise ring = (if fle (Fin 0) (signed_area ring) then ring else rev ring)"

definition fsum_of :: "pyfloat list \<Rightarrow> pyfloat" where
  "fsum_of xs = fold (\<lambda>x total. fadd total x) xs (Fin 0)"

definition centroid :: "point list \<Rightarrow> point" where
  "centroid ring =
     (let area = signed_area ring
      in if flt (fabs area) (rnd64 (1 / 10 ^ 9))
         then (fquot (fsum_of (map fst ring)) (fl (int (length ring))), fquot (fsum_of (map snd ring)) (fl (int (length ring))))
         else let cx = fold (\<lambda>(p, q) c. fadd c (fmul (fadd (fst p) (fst q)) (fcross p q))) (ring_edges ring) (Fin 0);
                  cy = fold (\<lambda>(p, q) c. fadd c (fmul (fadd (snd p) (snd q)) (fcross p q))) (ring_edges ring) (Fin 0)
              in (fquot cx (fmul (Fin 6) area), fquot cy (fmul (Fin 6) area)))"

section \<open>Convex hulls\<close>

text \<open>Which side of the line from \<open>a\<close> to \<open>b\<close> a point is on.\<close>

definition turn :: "point \<Rightarrow> point \<Rightarrow> point \<Rightarrow> pyfloat" where
  "turn a b p = fsub (fmul (fsub (fst b) (fst a)) (fsub (snd p) (snd a))) (fmul (fsub (snd b) (snd a)) (fsub (fst p) (fst a)))"

definition point_less :: "point \<Rightarrow> point \<Rightarrow> bool" where
  "point_less p q \<longleftrightarrow> flt (fst p) (fst q) \<or> fst p = fst q \<and> flt (snd p) (snd q)"

fun insert_point :: "point \<Rightarrow> point list \<Rightarrow> point list" where
  "insert_point p [] = [p]"
| "insert_point p (q # qs) = (if point_less q p then q # insert_point p qs else p # q # qs)"

definition sorted_points :: "point list \<Rightarrow> point list" where
  "sorted_points ps = foldr insert_point (remdups ps) []"

text \<open>The chain is kept with its last point first.\<close>

fun chain_pop :: "point \<Rightarrow> point list \<Rightarrow> point list" where
  "chain_pop p (b # a # rest) = (if flt (Fin 0) (turn a b p) then b # a # rest else chain_pop p (a # rest))"
| "chain_pop p chain = chain"

definition half_hull :: "point list \<Rightarrow> point list" where
  "half_hull ps = rev (fold (\<lambda>p chain. p # chain_pop p chain) ps [])"

definition convex_hull :: "point list \<Rightarrow> point list" where
  "convex_hull points =
     (let ordered = sorted_points points
      in if length ordered < 3 then ordered
         else butlast (half_hull ordered) @ butlast (half_hull (rev ordered)))"

section \<open>Walks and walls\<close>

definition point_in_ring :: "point \<Rightarrow> point list \<Rightarrow> bool" where
  "point_in_ring p ring =
     fold (\<lambda>(a, b) inside_ring.
         if (flt (snd p) (snd a) \<noteq> flt (snd p) (snd b))
            \<and> flt (fst p) (fadd (fquot (fmul (fsub (fst b) (fst a)) (fsub (snd p) (snd a))) (fsub (snd b) (snd a))) (fst a))
         then \<not> inside_ring else inside_ring)
       (ring_edges ring) False"

definition in_box :: "point \<Rightarrow> point \<Rightarrow> point \<Rightarrow> bool" where
  "in_box p q r \<longleftrightarrow> fle (fmin (fst p) (fst q)) (fst r) \<and> fle (fst r) (fmax (fst p) (fst q))
     \<and> fle (fmin (snd p) (snd q)) (snd r) \<and> fle (snd r) (fmax (snd p) (snd q))"

definition segments_cross :: "point \<Rightarrow> point \<Rightarrow> point \<Rightarrow> point \<Rightarrow> bool" where
  "segments_cross a b c d =
     (let t0 = turn a b c; t1 = turn a b d; t2 = turn c d a; t3 = turn c d b
      in flt (Fin 0) t0 \<noteq> flt (Fin 0) t1 \<and> flt (Fin 0) t2 \<noteq> flt (Fin 0) t3
         \<or> t0 = Fin 0 \<and> in_box a b c \<or> t1 = Fin 0 \<and> in_box a b d \<or> t2 = Fin 0 \<and> in_box c d a \<or> t3 = Fin 0 \<and> in_box c d b)"

text \<open>The edges of an empty walk ask for its first point; those of an empty ring too.\<close>

definition walk_enters_ring :: "point list \<Rightarrow> point list \<Rightarrow> bool result" where
  "walk_enters_ring walk ring =
     (if list_ex (\<lambda>p. point_in_ring p ring) walk then Ok True
      else if walk = [] \<or> ring = [] then Err IndexError
      else Ok (list_ex (\<lambda>(a, b). list_ex (\<lambda>(c, d). segments_cross a b c d) (ring_edges ring)) (ring_edges walk)))"

definition offset_hull :: "(pyfloat \<Rightarrow> pyfloat \<Rightarrow> pyfloat) \<Rightarrow> point list \<Rightarrow> pyfloat \<Rightarrow> point list" where
  "offset_hull hypot outline margin_m =
     (let c = centroid outline
      in concat (map (\<lambda>p.
           let dx = fsub (fst p) (fst c); dy = fsub (snd p) (snd c); d = hypot dx dy;
               s = fquot (fadd d margin_m) d
           in if flt d (rnd64 (1 / 10 ^ 6)) then []
              else [(fadd (fst c) (fmul dx s), fadd (snd c) (fmul dy s))]) outline))"

text \<open>\<open>round(x, n)\<close>: the nearest multiple of a power of ten, then the nearest float.\<close>

definition round_places :: "nat \<Rightarrow> pyfloat \<Rightarrow> pyfloat" where
  "round_places n x = (case x of Fin r \<Rightarrow> rnd64 (of_int (rhe (r * 10 ^ n)) / 10 ^ n) | _ \<Rightarrow> x)"

fun filterR :: "('a \<Rightarrow> bool result) \<Rightarrow> 'a list \<Rightarrow> 'a list result" where
  "filterR P [] = Ok []"
| "filterR P (x # xs) = bindR (P x) (\<lambda>b. bindR (filterR P xs) (\<lambda>ys. Ok (if b then x # ys else ys)))"

text \<open>The passes of \<open>outward_ring\<close>: the first argument is the number of passes the \<open>for\<close> loop has left.\<close>

fun outward_passes ::
  "(pyfloat \<Rightarrow> pyfloat \<Rightarrow> pyfloat) \<Rightarrow> pyfloat \<Rightarrow> nat \<Rightarrow> point list list \<Rightarrow> point list \<Rightarrow> point list result" where
  "outward_passes hypot margin_m 0 pending cluster = Ok []"
| "outward_passes hypot margin_m (Suc n) pending cluster =
     (let outline = convex_hull cluster
      in if length outline < 3 then Ok []
         else let walk = offset_hull hypot outline margin_m
              in bindR (filterR (walk_enters_ring walk) pending) (\<lambda>blocking.
                 if blocking = [] then Ok walk
                 else outward_passes hypot margin_m n (fold remove1 blocking pending) (cluster @ concat blocking)))"

definition outward_ring ::
  "(pyfloat \<Rightarrow> pyfloat \<Rightarrow> pyfloat) \<Rightarrow> point list \<Rightarrow> pyfloat \<Rightarrow> pyfloat \<Rightarrow> point list list \<Rightarrow> (pyfloat \<times> pyfloat \<times> pyfloat) list result" where
  "outward_ring hypot ring margin_m z obstacles =
     bindR (outward_passes hypot margin_m (length obstacles + 1) obstacles ring) (\<lambda>walk.
       Ok (map (\<lambda>p. (round_places 2 (fst p), round_places 2 (snd p), z)) walk))"

section \<open>Multipolygons\<close>

definition join_ring :: "'a list \<Rightarrow> 'a list \<Rightarrow> 'a list option" where
  "join_ring ring c =
     (if hd c = last ring then Some (ring @ tl c)
      else if last c = last ring then Some (ring @ tl (rev c))
      else if last c = hd ring then Some (butlast c @ ring)
      else if hd c = hd ring then Some (butlast (rev c) @ ring)
      else None)"

fun stitch_step :: "'a list \<Rightarrow> 'a list list \<Rightarrow> ('a list \<times> 'a list list) option" where
  "stitch_step ring [] = None"
| "stitch_step ring (c # cs) =
     (case join_ring ring c of
        Some r \<Rightarrow> Some (r, cs)
      | None \<Rightarrow> map_option (\<lambda>(r, rest). (r, c # rest)) (stitch_step ring cs))"

lemma stitch_step_shorter: "stitch_step ring cs = Some (r, rest) \<Longrightarrow> length rest < length cs"
  by (induction cs arbitrary: rest) (auto split: option.splits)

function extend_ring :: "'a list \<Rightarrow> 'a list list \<Rightarrow> 'a list \<times> 'a list list" where
  "extend_ring ring remaining =
     (if hd ring = last ring then (ring, remaining)
      else case stitch_step ring remaining of
             None \<Rightarrow> (ring, remaining)
           | Some (r, rest) \<Rightarrow> extend_ring r rest)"
  by pat_completeness auto
termination
  by (relation "measure (\<lambda>(ring, remaining). length remaining)") (auto dest: stitch_step_shorter)

declare extend_ring.simps [simp del]

lemma extend_ring_shorter: "length (snd (extend_ring ring remaining)) \<le> length remaining"
proof (induction ring remaining rule: extend_ring.induct)
  case (1 ring remaining)
  show ?case
  proof (cases "hd ring = last ring")
    case True
    then show ?thesis by (subst extend_ring.simps) simp
  next
    case False
    show ?thesis
    proof (cases "stitch_step ring remaining")
      case None
      with False show ?thesis by (subst extend_ring.simps) simp
    next
      case (Some x)
      obtain r rest where x: "x = (r, rest)" by (cases x)
      with 1 [OF False Some, of r rest] stitch_step_shorter [of ring remaining r rest] Some False
      show ?thesis by (subst extend_ring.simps) simp
    qed
  qed
qed

function stitch_loop :: "'a list list \<Rightarrow> 'a list list" where
  "stitch_loop [] = []"
| "stitch_loop (w # ws) =
     (case extend_ring w ws of
        (ring, rest) \<Rightarrow> (if hd ring = last ring \<and> 4 \<le> length ring then [butlast ring] else []) @ stitch_loop rest)"
  by pat_completeness auto
termination
  by (relation "measure length") (auto, metis extend_ring_shorter snd_conv less_Suc_eq_le)

definition stitch_rings :: "'a list list \<Rightarrow> 'a list list" where
  "stitch_rings ways = stitch_loop (filter (\<lambda>w. 2 \<le> length w) ways)"

section \<open>Ear clipping\<close>

definition is_ear :: "point list \<Rightarrow> nat \<Rightarrow> nat \<Rightarrow> nat \<Rightarrow> nat list \<Rightarrow> bool" where
  "is_ear ring previous current nxt indices =
     (let a = ring ! previous; b = ring ! current; c = ring ! nxt
      in \<not> fle (turn a b c) (Fin 0)
         \<and> list_all (\<lambda>i. i \<in> {previous, current, nxt} \<or>
              \<not> (let p = ring ! i
                 in fle (Fin 0) (fsub (fmul (fsub (fst b) (fst a)) (fsub (snd p) (snd a))) (fmul (fsub (snd b) (snd a)) (fsub (fst p) (fst a))))
                    \<and> fle (Fin 0) (fsub (fmul (fsub (fst c) (fst b)) (fsub (snd p) (snd b))) (fmul (fsub (snd c) (snd b)) (fsub (fst p) (fst b))))
                    \<and> fle (Fin 0) (fsub (fmul (fsub (fst a) (fst c)) (fsub (snd p) (snd c))) (fmul (fsub (snd a) (snd c)) (fsub (fst p) (fst c)))))) indices)"

type_synonym triangle = "nat \<times> nat \<times> nat"

text \<open>The corner at a position, with its neighbours round the ring.\<close>

definition corner :: "nat list \<Rightarrow> nat \<Rightarrow> triangle" where
  "corner indices position =
     ((if position = 0 then last indices else indices ! (position - 1)), indices ! position,
      indices ! ((position + 1) mod length indices))"

definition ear_at :: "point list \<Rightarrow> nat list \<Rightarrow> nat \<Rightarrow> bool" where
  "ear_at ring indices position = (case corner indices position of (p, c, n) \<Rightarrow> is_ear ring p c n indices)"

definition remove_at :: "nat \<Rightarrow> 'a list \<Rightarrow> 'a list" where
  "remove_at i xs = take i xs @ drop (Suc i) xs"

fun clip_ears :: "point list \<Rightarrow> nat \<Rightarrow> nat list \<Rightarrow> triangle list \<times> nat list" where
  "clip_ears ring 0 indices = ([], indices)"
| "clip_ears ring (Suc guard) indices =
     (if length indices \<le> 3 then ([], indices)
      else case find (ear_at ring indices) [0..<length indices] of
             None \<Rightarrow> ([], indices)
           | Some position \<Rightarrow>
               (case clip_ears ring guard (remove_at position indices) of
                  (ts, rest) \<Rightarrow> (corner indices position # ts, rest)))"

definition triangulate :: "point list \<Rightarrow> triangle list" where
  "triangulate ring =
     (case clip_ears ring (length ring * length ring + 16) [0..<length ring] of
        (ts, rest) \<Rightarrow> ts @ (if length rest = 3 then [(rest ! 0, rest ! 1, rest ! 2)] else []))"

section \<open>Triangles tile the polygon\<close>

text \<open>What a function of directed edges sums to round a ring of corners, and round a triangle.\<close>

definition edge_sum :: "(nat \<Rightarrow> nat \<Rightarrow> 'a::ab_group_add) \<Rightarrow> nat list \<Rightarrow> 'a" where
  "edge_sum f xs = sum_list (map (\<lambda>(i, j). f i j) (ring_edges xs))"

definition triangle_sum :: "(nat \<Rightarrow> nat \<Rightarrow> 'a::ab_group_add) \<Rightarrow> triangle \<Rightarrow> 'a" where
  "triangle_sum f t = (case t of (a, b, c) \<Rightarrow> edge_sum f [a, b, c])"

definition path_sum :: "(nat \<Rightarrow> nat \<Rightarrow> 'a::ab_group_add) \<Rightarrow> nat list \<Rightarrow> 'a" where
  "path_sum f xs = sum_list (map (\<lambda>(i, j). f i j) (zip xs (tl xs)))"

definition flips :: "(nat \<Rightarrow> nat \<Rightarrow> 'a::ab_group_add) \<Rightarrow> bool" where
  "flips f \<longleftrightarrow> (\<forall>i j. f j i = - f i j)"

text \<open>Twice the signed area, exactly, of the ring through the points with the given indices.\<close>

definition fval :: "pyfloat \<Rightarrow> rat" where
  "fval x = (case x of Fin r \<Rightarrow> r | _ \<Rightarrow> 0)"

definition exact_cross :: "point \<Rightarrow> point \<Rightarrow> rat" where
  "exact_cross p q = fval (fst p) * fval (snd q) - fval (fst q) * fval (snd p)"

definition ring_cross :: "point list \<Rightarrow> nat \<Rightarrow> nat \<Rightarrow> rat" where
  "ring_cross ring i j = exact_cross (ring ! i) (ring ! j)"

definition exact_area2 :: "point list \<Rightarrow> nat list \<Rightarrow> rat" where
  "exact_area2 ring = edge_sum (ring_cross ring)"

definition triangle_area2 :: "point list \<Rightarrow> triangle \<Rightarrow> rat" where
  "triangle_area2 ring = triangle_sum (ring_cross ring)"

lemma ring_cross_flips: "flips (ring_cross ring)"
  by (simp add: flips_def ring_cross_def exact_cross_def)

lemma zip_snoc_tl: "xs \<noteq> [] \<Longrightarrow> zip xs (tl xs @ [y]) = zip xs (tl xs) @ [(last xs, y)]"
proof (induction xs)
  case (Cons x xs)
  then show ?case by (cases xs) simp_all
qed simp

lemma edge_sum_path: "xs \<noteq> [] \<Longrightarrow> edge_sum f xs = path_sum f xs + f (last xs) (hd xs)"
  by (simp add: edge_sum_def ring_edges_def zip_snoc_tl path_sum_def)

lemma path_sum_append:
  "xs \<noteq> [] \<Longrightarrow> ys \<noteq> [] \<Longrightarrow> path_sum f (xs @ ys) = path_sum f xs + f (last xs) (hd ys) + path_sum f ys"
proof (induction xs)
  case (Cons x xs)
  then show ?case by (cases xs; cases ys) (simp_all add: path_sum_def algebra_simps)
qed simp

lemma edge_sum_rotate: "edge_sum f (xs @ ys) = edge_sum f (ys @ xs)"
  by (cases "xs = [] \<or> ys = []") (auto simp: edge_sum_path path_sum_append algebra_simps)

lemma triangle_sum_edges: "triangle_sum f (a, b, c) = f a b + f b c + f c a"
  by (simp add: triangle_sum_def edge_sum_def ring_edges_def algebra_simps)

lemma edge_sum_ear:
  assumes "ys \<noteq> []" and "flips f"
  shows "edge_sum f (c # ys) = edge_sum f ys + triangle_sum f (last ys, c, hd ys)"
proof -
  have one: "path_sum f [c] = 0" by (simp add: path_sum_def)
  have "f (hd ys) (last ys) = - f (last ys) (hd ys)" using assms(2) unfolding flips_def by blast
  then have "triangle_sum f (last ys, c, hd ys) = f (last ys) c + f c (hd ys) - f (last ys) (hd ys)"
    unfolding triangle_sum_edges by simp
  moreover have "edge_sum f (c # ys) = f c (hd ys) + path_sum f ys + f (last ys) c"
    using path_sum_append [of "[c]" ys f] assms(1) one by (simp add: edge_sum_path)
  ultimately show ?thesis unfolding edge_sum_path [OF assms(1)] by (simp add: algebra_simps)
qed

lemma corner_parts:
  assumes "position < length xs" and "2 \<le> length xs"
  shows "corner xs position = (last (drop (Suc position) xs @ take position xs), xs ! position, hd (drop (Suc position) xs @ take position xs))"
proof -
  define A where "A = take position xs" define B where "B = drop (Suc position) xs"
  have xs: "xs = A @ (xs ! position) # B" using assms(1) by (simp add: A_def B_def id_take_nth_drop [symmetric])
  have A: "length A = position" using assms(1) by (simp add: A_def)
  have "(if position = 0 then last xs else xs ! (position - 1)) = last (B @ A)"
  proof (cases "A = []")
    case True
    then have "B \<noteq> []" using xs assms(2) by (metis append_Nil length_Cons list.size(3) not_less_eq_eq numeral_2_eq_2 One_nat_def le_numeral_extra(4))
    then show ?thesis using A True xs by (metis append_Nil append_Nil2 last_ConsR list.size(3))
  next
    case False
    then have "xs ! (position - 1) = last A" using A xs by (metis diff_less last_conv_nth length_greater_0_conv nth_append zero_less_one)
    then show ?thesis using False A by auto
  qed
  moreover have "xs ! ((position + 1) mod length xs) = hd (B @ A)"
  proof (cases "B = []")
    case True
    then have l: "length xs = position + 1" using xs A by (metis Suc_eq_plus1 length_append_singleton)
    then have "A \<noteq> []" using A assms(2) by auto
    then have "xs ! 0 = hd A" using xs by (metis hd_conv_nth length_greater_0_conv nth_append)
    with True l show ?thesis by simp
  next
    case False
    then have l: "position + 1 < length xs" using A_def B_def by (simp add: B_def)
    then have "xs ! (position + 1) = hd B" using False by (simp add: B_def hd_drop_conv_nth)
    with False l show ?thesis by simp
  qed
  ultimately show ?thesis by (simp add: corner_def A_def B_def)
qed

lemma mset_around:
  assumes "position < length xs"
  shows "mset xs = add_mset (xs ! position) (mset (remove_at position xs))"
    and "mset xs = mset (xs ! position # drop (Suc position) xs @ take position xs)"
proof -
  have "mset xs = mset (take position xs @ xs ! position # drop (Suc position) xs)"
    using arg_cong [OF id_take_nth_drop [OF assms], of mset] .
  then show "mset xs = add_mset (xs ! position) (mset (remove_at position xs))"
    "mset xs = mset (xs ! position # drop (Suc position) xs @ take position xs)"
    by (simp_all add: remove_at_def)
qed

lemma remove_at_facts:
  assumes "position < length xs"
  shows "length (remove_at position xs) = length xs - 1" "distinct xs \<Longrightarrow> distinct (remove_at position xs)"
    "set (remove_at position xs) \<subseteq> set xs"
proof -
  have m: "mset xs = mset (xs ! position # remove_at position xs)" using mset_around(1) [OF assms] by simp
  show "length (remove_at position xs) = length xs - 1" using mset_eq_length [OF m] by simp
  show "distinct xs \<Longrightarrow> distinct (remove_at position xs)" using mset_eq_imp_distinct_iff [OF m] by simp
  show "set (remove_at position xs) \<subseteq> set xs" using mset_eq_setD [OF m] by auto
qed

lemma corner_removed:
  assumes "position < length xs" and "4 \<le> length xs" and "flips f"
  shows "edge_sum f xs = triangle_sum f (corner xs position) + edge_sum f (remove_at position xs)"
proof -
  define ys where "ys = drop (Suc position) xs @ take position xs"
  have "length ys = length xs - 1" using assms by (simp add: ys_def)
  then have ne: "ys \<noteq> []" using assms by auto
  have "xs = take position xs @ (xs ! position # drop (Suc position) xs)" using assms(1) by (simp add: id_take_nth_drop [symmetric])
  then have "edge_sum f xs = edge_sum f ((xs ! position) # ys)"
    unfolding ys_def by (metis append_Cons edge_sum_rotate)
  also have "\<dots> = edge_sum f ys + triangle_sum f (last ys, xs ! position, hd ys)" by (rule edge_sum_ear [OF ne assms(3)])
  also have "edge_sum f ys = edge_sum f (remove_at position xs)"
    unfolding ys_def remove_at_def by (rule edge_sum_rotate)
  finally show ?thesis using corner_parts [of position xs] assms by (simp add: ys_def)
qed

definition proper :: "nat set \<Rightarrow> triangle \<Rightarrow> bool" where
  "proper S t = (case t of (a, b, c) \<Rightarrow> {a, b, c} \<subseteq> S \<and> distinct [a, b, c])"

lemma proper_mono: "proper S t \<Longrightarrow> S \<subseteq> T \<Longrightarrow> proper T t"
  by (auto simp: proper_def split: prod.splits)

lemma corner_proper:
  assumes "position < length xs" and "4 \<le> length xs" and "distinct xs"
  shows "proper (set xs) (corner xs position)"
proof -
  define ys where "ys = drop (Suc position) xs @ take position xs"
  have m: "mset xs = mset (xs ! position # ys)" unfolding ys_def by (rule mset_around(2) [OF assms(1)])
  have len: "2 \<le> length ys" using mset_eq_length [OF m] assms(2) by simp
  have d: "distinct (xs ! position # ys)" "set (xs ! position # ys) = set xs"
    using mset_eq_imp_distinct_iff [OF m] mset_eq_setD [OF m] assms(3) by simp_all
  have "hd ys \<in> set ys" "last ys \<in> set ys" using len by (cases ys; auto)+
  moreover have "hd ys \<noteq> last ys" 
  proof -
    obtain a as b where "ys = a # as @ [b]"
      using len by (cases ys; cases "tl ys" rule: rev_cases) auto
    then show ?thesis using d(1) by auto
  qed
  ultimately show ?thesis using d corner_parts [of position xs] assms by (auto simp: proper_def ys_def)
qed

lemma clip_ears_facts:
  assumes "clip_ears ring guard xs = (ts, rest)" and "distinct xs" and "3 \<le> length xs" and f: "flips f"
  shows "edge_sum f xs = sum_list (map (triangle_sum f) ts) + edge_sum f rest
    \<and> length xs = length ts + length rest \<and> 3 \<le> length rest \<and> set rest \<subseteq> set xs \<and> distinct rest
    \<and> list_all (proper (set xs)) ts
    \<and> list_all (\<lambda>(a, b, c). \<not> fle (turn (ring ! a) (ring ! b) (ring ! c)) (Fin 0)) ts
    \<and> (if length xs < guard + 4 then length rest = 3 \<or> find (ear_at ring rest) [0..<length rest] = None else True)"
  using assms(1-3)
proof (induction guard arbitrary: xs ts rest)
  case 0
  then show ?case by auto
next
  case (Suc guard)
  show ?case
  proof (cases "length xs \<le> 3 \<or> find (ear_at ring xs) [0..<length xs] = None")
    case True
    with Suc.prems show ?thesis by (auto split: if_splits)
  next
    case False
    then obtain i where i: "find (ear_at ring xs) [0..<length xs] = Some i" and len: "4 \<le> length xs" by auto
    then have lt: "i < length xs" and ear: "ear_at ring xs i" by (auto simp: find_Some_iff)
    obtain ts1 where ts1: "clip_ears ring guard (remove_at i xs) = (ts1, rest)" "ts = corner xs i # ts1"
      using Suc.prems(1) i len by (auto split: prod.splits)
    note r = remove_at_facts [OF lt]
    have "3 \<le> length (remove_at i xs)" using r(1) len by simp
    note IH = Suc.IH [OF ts1(1) r(2) [OF Suc.prems(2)] this]
    have "proper (set xs) (corner xs i)" by (rule corner_proper [OF lt len Suc.prems(2)])
    moreover have "list_all (proper (set xs)) ts1" using IH r(3) by (auto simp: list_all_iff intro: proper_mono)
    moreover have "case corner xs i of (a, b, c) \<Rightarrow> \<not> fle (turn (ring ! a) (ring ! b) (ring ! c)) (Fin 0)"
      using ear by (auto simp: ear_at_def is_ear_def Let_def split: prod.splits)
    moreover have "length rest = 3 \<or> find (ear_at ring rest) [0..<length rest] = None" if "length xs < Suc guard + 4"
    proof -
      have "length (remove_at i xs) < guard + 4" using that r(1) len by simp
      with IH show ?thesis by simp
    qed
    moreover have "edge_sum f xs = triangle_sum f (corner xs i) + sum_list (map (triangle_sum f) ts1) + edge_sum f rest"
      using IH corner_removed [OF lt len f] by simp
    moreover have "length xs = Suc (length ts1) + length rest" using conjunct1 [OF conjunct2 [OF IH]] r(1) len by linarith
    moreover have "3 \<le> length rest" "set rest \<subseteq> set xs" "distinct rest"
      "list_all (\<lambda>(a, b, c). \<not> fle (turn (ring ! a) (ring ! b) (ring ! c)) (Fin 0)) ts1" using IH r(3) by auto
    ultimately show ?thesis unfolding ts1(2) by simp
  qed
qed

lemma triangulate_facts:
  assumes "3 \<le> length ring" and "flips f"
  shows "list_all (proper {..<length ring}) (triangulate ring) \<and>
    (length (triangulate ring) = length ring - 2
       \<and> sum_list (map (triangle_sum f) (triangulate ring)) = edge_sum f [0..<length ring]
     \<or> (\<exists>rest. length (triangulate ring) + length rest = length ring \<and> 4 \<le> length rest \<and> distinct rest
         \<and> set rest \<subseteq> {..<length ring} \<and> find (ear_at ring rest) [0..<length rest] = None))"
proof -
  define n where "n = length ring"
  obtain ts rest where c: "clip_ears ring (n * n + 16) [0..<n] = (ts, rest)" by (metis prod.exhaust)
  have "3 \<le> length [0..<n]" using assms(1) by (simp add: n_def)
  note f = clip_ears_facts [OF c distinct_upt this assms(2)]
  have "n < n * n + 16 + 4" using le_square [of n] by linarith
  then have stop: "length rest = 3 \<or> find (ear_at ring rest) [0..<length rest] = None" using f by simp
  have t: "triangulate ring = ts @ (if length rest = 3 then [(rest ! 0, rest ! 1, rest ! 2)] else [])"
    using c by (simp add: triangulate_def n_def)
  have proper: "list_all (proper {..<n}) ts" using f unfolding set_upt atLeast0LessThan by blast
  show ?thesis
  proof (cases "length rest = 3")
    case True
    then obtain a b c where r: "rest = [a, b, c]" by (auto simp: length_Suc_conv numeral_3_eq_3)
    have "proper {..<n} (a, b, c)" using f r by (auto simp: proper_def)
    with proper f r t show ?thesis by (auto simp: triangle_sum_def n_def)
  next
    case False
    with f have "4 \<le> length rest" by simp
    with False proper f t stop show ?thesis
      by (intro conjI disjI2 exI [of _ rest]) (auto simp: n_def atLeast0LessThan)
  qed
qed


text \<open>At a square.\<close>

definition a_square :: "point list" where
  "a_square = [(Fin 0, Fin 0), (Fin 4, Fin 0), (Fin 4, Fin 4), (Fin 0, Fin 4)]"


section \<open>A walk clears its neighbours\<close>

lemma filterR_ok: "filterR P xs = Ok ys \<Longrightarrow> ys = filter (\<lambda>x. P x = Ok True) xs \<and> (\<forall>x \<in> set xs. P x \<in> {Ok True, Ok False})"
proof (induction xs arbitrary: ys)
  case (Cons x xs)
  then show ?case by (cases "P x"; cases "filterR P xs") (auto split: if_splits)
qed simp

lemma mset_removed: "mset ys \<subseteq># mset xs \<Longrightarrow> mset (fold remove1 ys xs) = mset xs - mset ys"
proof (induction ys arbitrary: xs)
  case (Cons y ys)
  then have "mset ys \<subseteq># mset (remove1 y xs)" by (simp add: insert_subset_eq_iff)
  with Cons.IH show ?case by simp
qed simp

text \<open>What a pass leaves: those that block join the cluster, the others stay.\<close>

lemma blocking_split:
  assumes "ys = filter Q xs"
  shows "mset (fold remove1 ys xs) + mset ys = mset xs" "ys \<noteq> [] \<Longrightarrow> length (fold remove1 ys xs) < length xs"
proof -
  have le: "mset ys \<subseteq># mset xs" by (simp add: assms)
  show eq: "mset (fold remove1 ys xs) + mset ys = mset xs" using mset_removed [OF le] le by (simp add: subset_mset.diff_add)
  have "length (fold remove1 ys xs) + length ys = length xs" using arg_cong [OF eq, of size] by simp
  then show "ys \<noteq> [] \<Longrightarrow> length (fold remove1 ys xs) < length xs" by (cases ys) simp_all
qed

lemma outward_passes_clear:
  assumes "outward_passes hypot margin n pending cluster = Ok walk" and "length pending < n"
  shows "\<exists>absorbed left. mset absorbed + mset left = mset pending
    \<and> (let outline = convex_hull (cluster @ concat absorbed)
       in if length outline < 3 then walk = []
          else walk = offset_hull hypot outline margin \<and> list_all (\<lambda>b. walk_enters_ring walk b = Ok False) left)"
  using assms
proof (induction n arbitrary: pending cluster)
  case (Suc n)
  define outline where "outline = convex_hull cluster"
  define w where "w = offset_hull hypot outline margin"
  show ?case
  proof (cases "length outline < 3")
    case True
    with Suc.prems(1) have "walk = []" by (simp add: outline_def)
    with True show ?thesis by (intro exI [of _ "[]"] exI [of _ pending]) (simp add: outline_def)
  next
    case False
    with Suc.prems(1) obtain blocking where b: "filterR (walk_enters_ring w) pending = Ok blocking"
      and go: "(if blocking = [] then Ok w else outward_passes hypot margin n (fold remove1 blocking pending) (cluster @ concat blocking)) = Ok walk"
      unfolding outline_def w_def by (auto simp: Let_def result_simps)
    note f = filterR_ok [OF b]
    show ?thesis
    proof (cases "blocking = []")
      case True
      then have "list_all (\<lambda>b. walk_enters_ring w b = Ok False) pending"
        using f by (auto simp: list_all_iff filter_empty_conv)
      with True False go show ?thesis
        by (intro exI [of _ "[]"] exI [of _ pending]) (simp add: outline_def [symmetric] w_def [symmetric])
    next
      case some: False
      note s = blocking_split [OF conjunct1 [OF f]]
      have "length (fold remove1 blocking pending) < n" using s(2) [OF some] Suc.prems(2) by simp
      have "outward_passes hypot margin n (fold remove1 blocking pending) (cluster @ concat blocking) = Ok walk"
        using go some by simp
      from Suc.IH [OF this \<open>length (fold remove1 blocking pending) < n\<close>] obtain absorbed left where
        a: "mset absorbed + mset left = mset (fold remove1 blocking pending)"
        "let outline = convex_hull ((cluster @ concat blocking) @ concat absorbed)
         in if length outline < 3 then walk = []
            else walk = offset_hull hypot outline margin \<and> list_all (\<lambda>b. walk_enters_ring walk b = Ok False) left" by blast
      have "mset (blocking @ absorbed) + mset left = mset pending"
        using a(1) s(1) by (metis add.assoc add.commute mset_append)
      with a(2) show ?thesis by (intro exI [of _ "blocking @ absorbed"] exI [of _ left]) simp
    qed
  qed
qed simp


text \<open>A walk round the square passes by a neighbour; the larger coordinate stands for the distance.\<close>

definition far_side :: "pyfloat \<Rightarrow> pyfloat \<Rightarrow> pyfloat" where
  "far_side x y = fmax (fabs x) (fabs y)"

definition a_neighbour :: "point list" where
  "a_neighbour = [(Fin 10, Fin 0), (Fin 12, Fin 0), (Fin 12, Fin 3)]"

definition square_walk :: "point list" where
  "square_walk = [(Fin (-2), Fin (-2)), (Fin 6, Fin (-2)), (Fin 6, Fin 6), (Fin (-2), Fin 6)]"

lemma not_tiny: "1 \<le> r \<Longrightarrow> k \<le> 1 \<Longrightarrow> flt (Fin r) (rnd64 k) = False"
proof -
  assume r: "1 \<le> r" "k \<le> 1"
  have "fle (rnd64 k) (Fin 1)" by (rule rnd64_le_f64) (simp_all add: r)
  with r show "flt (Fin r) (rnd64 k) = False" by (cases "rnd64 k") auto
qed

lemmas evaluate = float_eval fsub_def fmin_def fmax_def fquot_def not_tiny Let_def

lemma square_hull: "convex_hull a_square = a_square"
  by (simp add: a_square_def convex_hull_def sorted_points_def point_less_def half_hull_def turn_def evaluate)

lemma square_area: "signed_area a_square = Fin 16"
  by (simp add: a_square_def signed_area_def ring_edges_def fcross_def evaluate)

lemma square_centroid: "centroid a_square = (Fin 2, Fin 2)"
  by (simp add: centroid_def square_area evaluate, simp add: a_square_def ring_edges_def fcross_def evaluate)

lemma square_offset: "offset_hull far_side a_square (Fin 2) = square_walk"
  by (simp add: offset_hull_def square_centroid Let_def, simp add: square_walk_def a_square_def far_side_def evaluate)

lemma square_cleared: "walk_enters_ring square_walk a_neighbour = Ok False"
  by (simp add: walk_enters_ring_def square_walk_def a_neighbour_def ring_edges_def point_in_ring_def segments_cross_def turn_def in_box_def evaluate)

lemma square_walked: "\<exists>walk. outward_ring far_side a_square (Fin 2) (Fin 1) [a_neighbour] = Ok walk"
proof -
  have "3 \<le> length a_square" by (simp add: a_square_def)
  then have "outward_passes far_side (Fin 2) (length [a_neighbour] + 1) [a_neighbour] a_square = Ok square_walk"
    by (simp add: square_hull square_offset square_cleared)
  then show ?thesis by (simp add: outward_ring_def)
qed


section \<open>Stitched rings are made of the ways\<close>

text \<open>The sides of an open way, whichever way round it is given.\<close>

definition sides :: "('a \<times> 'a) list \<Rightarrow> 'a set multiset" where
  "sides es = mset (map (\<lambda>(a, b). {a, b}) es)"

definition way_sides :: "'a list \<Rightarrow> 'a set multiset" where
  "way_sides w = sides (zip w (tl w))"

definition all_sides :: "'a list list \<Rightarrow> 'a set multiset" where
  "all_sides ws = sum_list (map way_sides ws)"

lemma way_sides_simps [simp]: "way_sides [] = {#}" "way_sides [x] = {#}" "way_sides (x # y # w) = add_mset {x, y} (way_sides (y # w))"
  by (simp_all add: way_sides_def sides_def)

lemma way_sides_append:
  "a \<noteq> [] \<Longrightarrow> b \<noteq> [] \<Longrightarrow> way_sides (a @ b) = add_mset {last a, hd b} (way_sides a + way_sides b)"
proof (induction a)
  case (Cons x a)
  then show ?case by (cases a; cases b) simp_all
qed simp

lemma way_sides_rev: "way_sides (rev w) = way_sides w"
proof (induction w)
  case (Cons x w)
  show ?case
  proof (cases w)
    case w: (Cons a v)
    have "rev w \<noteq> []" "last (rev w) = a" using w by simp_all
    then have "way_sides (rev w @ [x]) = add_mset {a, x} (way_sides (rev w))" by (simp add: way_sides_append)
    then show ?thesis using Cons w by (simp add: insert_commute)
  qed simp
qed simp

lemma join_front:
  assumes "hd c = last ring" and "ring \<noteq> []" and "2 \<le> length c"
  shows "way_sides (ring @ tl c) = way_sides ring + way_sides c"
proof -
  obtain x y c' where "c = x # y # c'" using assms(3) by (cases c; cases "tl c") auto
  with assms show ?thesis by (simp add: way_sides_append)
qed

lemma join_back:
  assumes "last c = hd ring" and "ring \<noteq> []" and "2 \<le> length c"
  shows "way_sides (butlast c @ ring) = way_sides ring + way_sides c"
proof -
  obtain c' x where c: "c = c' @ [x]" using assms(3) by (cases c rule: rev_cases) auto
  then have "c' \<noteq> []" using assms(3) by auto
  with assms c show ?thesis by (simp add: way_sides_append add.commute)
qed

lemma join_ring_sides:
  assumes "join_ring ring c = Some r" and "2 \<le> length ring" and "2 \<le> length c"
  shows "way_sides r = way_sides ring + way_sides c \<and> 2 \<le> length r"
proof -
  have ne: "ring \<noteq> []" and rc: "2 \<le> length (rev c)" "c \<noteq> []" using assms by auto
  have "hd (rev c) = last c" "last (rev c) = hd c" using rc by (simp_all add: hd_rev last_rev)
  with assms(1) join_front [OF _ ne assms(3)] join_front [OF _ ne rc(1)] join_back [OF _ ne assms(3)] join_back [OF _ ne rc(1)] assms(2)
  show ?thesis by (auto simp: join_ring_def way_sides_rev split: if_splits)
qed

lemma stitch_step_sides:
  "stitch_step ring cs = Some (r, rest) \<Longrightarrow> 2 \<le> length ring \<Longrightarrow> list_all (\<lambda>c. 2 \<le> length c) cs \<Longrightarrow>
     way_sides r + all_sides rest = way_sides ring + all_sides cs \<and> 2 \<le> length r \<and> list_all (\<lambda>c. 2 \<le> length c) rest"
proof (induction cs arbitrary: rest)
  case (Cons c cs)
  show ?case
  proof (cases "join_ring ring c")
    case None
    with Cons show ?thesis by (auto simp: all_sides_def)
  next
    case (Some q)
    with Cons.prems join_ring_sides [OF Some] show ?thesis by (auto simp: all_sides_def)
  qed
qed simp

lemma extend_ring_sides:
  assumes "extend_ring ring cs = (r, rest)" and "2 \<le> length ring" and "list_all (\<lambda>c. 2 \<le> length c) cs"
  shows "way_sides r + all_sides rest = way_sides ring + all_sides cs \<and> list_all (\<lambda>c. 2 \<le> length c) rest"
  using assms
proof (induction ring cs rule: extend_ring.induct)
  case (1 ring cs)
  show ?case
  proof (cases "hd ring = last ring \<or> stitch_step ring cs = None")
    case True
    with 1(2-4) show ?thesis by (subst (asm) extend_ring.simps) (auto split: if_splits)
  next
    case False
    then obtain q more where q: "stitch_step ring cs = Some (q, more)" by auto
    from 1(2) False q have "extend_ring q more = (r, rest)" by (subst (asm) extend_ring.simps) simp
    with 1(1) [OF _ q refl] False stitch_step_sides [OF q 1(3,4)] show ?thesis by auto
  qed
qed

text \<open>A way that ends where it starts, without its repeated end, is a ring with the same sides.\<close>

lemma closed_sides:
  assumes "hd r = last r" and "2 \<le> length r"
  shows "sides (ring_edges (butlast r)) = way_sides r"
proof -
  obtain b x where r: "r = b @ [x]" using assms(2) by (cases r rule: rev_cases) auto
  have b: "b \<noteq> []" using r assms(2) by auto
  then have "hd b = x" using r assms(1) by simp
  have "zip (b @ [x]) (tl (b @ [x])) = zip b (tl b @ [x])"
    using b zip_append1 [of b "[x]" "tl b @ [x]"] by (cases b) simp_all
  with \<open>hd b = x\<close> r show ?thesis by (simp add: way_sides_def ring_edges_def)
qed

lemma stitch_loop_sides:
  "list_all (\<lambda>c. 2 \<le> length c) ws \<Longrightarrow>
     sum_list (map (\<lambda>r. sides (ring_edges r)) (stitch_loop ws)) \<subseteq># all_sides ws \<and> list_all (\<lambda>r. 3 \<le> length r) (stitch_loop ws)"
proof (induction ws rule: stitch_loop.induct)
  case (2 w ws)
  obtain r rest where e: "extend_ring w ws = (r, rest)" by (metis prod.exhaust)
  have s: "way_sides r + all_sides rest = way_sides w + all_sides ws" "list_all (\<lambda>c. 2 \<le> length c) rest"
    using extend_ring_sides [OF e] 2(2) by simp_all
  have IH: "sum_list (map (\<lambda>r. sides (ring_edges r)) (stitch_loop rest)) \<subseteq># all_sides rest" "list_all (\<lambda>r. 3 \<le> length r) (stitch_loop rest)"
    using 2(1) [OF e [symmetric] s(2)] by simp_all
  have t: "all_sides (w # ws) = way_sides r + all_sides rest" using s(1) by (simp add: all_sides_def)
  show ?case
  proof (cases "hd r = last r \<and> 4 \<le> length r")
    case True
    then have "sides (ring_edges (butlast r)) = way_sides r" using closed_sides [of r] by simp
    moreover have "3 \<le> length r - Suc 0" using True by linarith
    ultimately show ?thesis using True IH e t by (simp add: subset_mset.add_left_mono)
  next
    case False
    with IH e t show ?thesis by (auto intro: subset_mset.order_trans)
  qed
qed (simp add: all_sides_def)

lemma sides_filtered: "all_sides (filter P ws) \<subseteq># all_sides ws"
  by (induction ws) (auto simp: all_sides_def subset_mset.add_left_mono intro: subset_mset.order_trans)

text \<open>Each ring stitched from the members of a multipolygon is a closed polygon with at least three corners, and is made
  of the members alone: every side of a ring is a side of a member, in either direction, and no side serves more
  often than the members have it.\<close>

theorem rings_made_of_ways:
  "list_all (\<lambda>r. 3 \<le> length r) (stitch_rings ways)
     \<and> sum_list (map (\<lambda>r. sides (ring_edges r)) (stitch_rings ways)) \<subseteq># sum_list (map (\<lambda>w. sides (zip w (tl w))) ways)"
proof -
  have "list_all (\<lambda>c. 2 \<le> length c) (filter (\<lambda>w. 2 \<le> length w) ways)" by (simp add: list_all_iff)
  from stitch_loop_sides [OF this] sides_filtered [of "\<lambda>w. 2 \<le> length w" ways] show ?thesis
    unfolding stitch_rings_def all_sides_def way_sides_def by (blast intro: subset_mset.order_trans)
qed

end
