(* ===== verification/SceneMesh.thy ===== *)
theory SceneMesh
  imports SceneGeometry
begin

text \<open>
  The meshes of \<^verbatim>\<open>apps/sionna_bridge/build_osm_scene.py\<close>: a building is its footprint extruded, a road a strip along its
  centreline, ground cover a polygon cut to the window, the ground a square. A mesh is its vertices and its faces, lists
  of vertex numbers. \<open>math.hypot\<close> and \<open>math.dist\<close> are the parameters \<open>hypot\<close> and \<open>gap\<close>.
\<close>

type_synonym mesh = "pyfloat list list \<times> nat list list"

definition at_height :: "pyfloat \<Rightarrow> point \<Rightarrow> pyfloat list" where
  "at_height z p = [fst p, snd p, z]"

section \<open>Buildings\<close>

definition wall :: "nat \<Rightarrow> nat \<Rightarrow> nat list list" where
  "wall n index = (let nxt = (index + 1) mod n in [[index, nxt, n + nxt], [index, n + nxt, n + index]])"

definition extrusion :: "point list \<Rightarrow> pyfloat \<Rightarrow> pyfloat \<Rightarrow> mesh" where
  "extrusion ring z_min z_max =
     (let n = length ring
      in (map (at_height z_min) ring @ map (at_height z_max) ring,
          concat (map (wall n) [0..<n]) @ map (\<lambda>(a, b, c). [n + a, n + b, n + c]) (triangulate ring)))"

section \<open>Cutting to the window\<close>

definition on_axis :: "nat \<Rightarrow> point \<Rightarrow> pyfloat" where
  "on_axis axis p = (if axis = 0 then fst p else snd p)"

definition inside_edge :: "pyfloat \<Rightarrow> nat \<Rightarrow> pyfloat \<Rightarrow> point \<Rightarrow> bool" where
  "inside_edge limit axis sign p \<longleftrightarrow> fle (fmul (on_axis axis p) sign) limit"

definition crossing :: "pyfloat \<Rightarrow> nat \<Rightarrow> pyfloat \<Rightarrow> point \<Rightarrow> point \<Rightarrow> point list" where
  "crossing limit axis sign current following =
     (let span = fsub (on_axis axis following) (on_axis axis current); other = 1 - axis;
          ratio = fquot (fsub (fmul sign limit) (on_axis axis current)) span;
          edge = round_places 3 (fmul sign limit);
          along = round_places 3 (fadd (on_axis other current) (fmul (fsub (on_axis other following) (on_axis other current)) ratio))
      in if flt (rnd64 (1 / 10 ^ 12)) (fabs span) then [if axis = 0 then (edge, along) else (along, edge)] else [])"

definition clip_edge :: "pyfloat \<Rightarrow> nat \<times> pyfloat \<Rightarrow> point list \<Rightarrow> point list" where
  "clip_edge limit side output =
     (case side of (axis, sign) \<Rightarrow>
        concat (map (\<lambda>(current, following).
            (if inside_edge limit axis sign current then [current] else [])
            @ (if inside_edge limit axis sign current \<noteq> inside_edge limit axis sign following
               then crossing limit axis sign current following else []))
          (ring_edges output)))"

definition window_sides :: "(nat \<times> pyfloat) list" where
  "window_sides = [(0, Fin 1), (0, Fin (-1)), (1, Fin 1), (1, Fin (-1))]"

definition clip_polygon :: "point list \<Rightarrow> pyfloat \<Rightarrow> point list" where
  "clip_polygon ring half_extent_m =
     fold (\<lambda>side output. if output = [] then [] else clip_edge half_extent_m side output) window_sides ring"

text \<open>Liang-Barsky: the part of a leg inside the window, from one share of it to another.\<close>

definition narrow_leg :: "pyfloat \<times> pyfloat \<Rightarrow> (pyfloat \<times> pyfloat) option \<Rightarrow> (pyfloat \<times> pyfloat) option" where
  "narrow_leg pq st =
     (case (pq, st) of
        (_, None) \<Rightarrow> None
      | ((p, q), Some (t0, t1)) \<Rightarrow>
          if flt (fabs p) (rnd64 (1 / 10 ^ 12)) then (if flt q (Fin 0) then None else Some (t0, t1))
          else let ratio = fquot q p
               in if flt p (Fin 0) then Some (fmax t0 ratio, t1) else Some (t0, fmin t1 ratio))"

definition leg_window :: "pyfloat \<Rightarrow> point \<Rightarrow> point \<Rightarrow> (pyfloat \<times> pyfloat) option" where
  "leg_window limit start stop =
     (let dx = fsub (fst stop) (fst start); dy = fsub (snd stop) (snd start)
      in case fold narrow_leg
           [(fneg dx, fadd (fst start) limit), (dx, fsub limit (fst start)),
            (fneg dy, fadd (snd start) limit), (dy, fsub limit (snd start))] (Some (Fin 0, Fin 1)) of
           None \<Rightarrow> None
         | Some (t0, t1) \<Rightarrow> if flt t1 t0 then None else Some (t0, t1))"

definition along_leg :: "point \<Rightarrow> point \<Rightarrow> pyfloat \<Rightarrow> point" where
  "along_leg start stop t =
     (fadd (fst start) (fmul (fsub (fst stop) (fst start)) t), fadd (snd start) (fmul (fsub (snd stop) (snd start)) t))"

definition clip_leg ::
  "(point \<Rightarrow> point \<Rightarrow> pyfloat) \<Rightarrow> pyfloat \<Rightarrow> point \<times> point \<Rightarrow> point list list \<times> point list \<Rightarrow> point list list \<times> point list" where
  "clip_leg gap limit leg st =
     (case (leg, st) of ((start, stop), (pieces, current)) \<Rightarrow>
        (case leg_window limit start stop of
           None \<Rightarrow> if current = [] then (pieces, []) else (pieces @ [current], [])
         | Some (t0, t1) \<Rightarrow>
             let a = along_leg start stop t0; b = along_leg start stop t1
             in if current \<noteq> [] \<and> flt (gap (last current) a) (rnd64 (1 / 10 ^ 6)) then (pieces, current @ [b])
                else ((if current = [] then pieces else pieces @ [current]), [a, b])))"

definition clip_polyline :: "(point \<Rightarrow> point \<Rightarrow> pyfloat) \<Rightarrow> point list \<Rightarrow> pyfloat \<Rightarrow> point list list" where
  "clip_polyline gap line half_extent_m =
     (case fold (clip_leg gap half_extent_m) (zip line (tl line)) ([], []) of
        (pieces, current) \<Rightarrow> filter (\<lambda>piece. 2 \<le> length piece) (if current = [] then pieces else pieces @ [current]))"

section \<open>Roads and the ground\<close>

definition road_quad ::
  "(pyfloat \<Rightarrow> pyfloat \<Rightarrow> pyfloat) \<Rightarrow> pyfloat \<Rightarrow> pyfloat \<Rightarrow> point \<times> point
     \<Rightarrow> mesh \<times> (nat \<times> point) list \<Rightarrow> mesh \<times> (nat \<times> point) list" where
  "road_quad hypot half z leg st =
     (case (leg, st) of (((x1, y1), (x2, y2)), ((vertices, faces), quads)) \<Rightarrow>
        (let dx = fsub x2 x1; dy = fsub y2 y1; span = hypot dx dy
         in if flt span (rnd64 (1 / 10 ^ 6)) then ((vertices, faces), quads)
            else let nx = fmul (fquot (fneg dy) span) half; ny = fmul (fquot dx span) half; base = length vertices
                 in ((vertices @ [[fadd x1 nx, fadd y1 ny, z], [fsub x1 nx, fsub y1 ny, z],
                                  [fsub x2 nx, fsub y2 ny, z], [fadd x2 nx, fadd y2 ny, z]],
                      faces @ [[base, base + 1, base + 2], [base, base + 2, base + 3]]),
                     quads @ [(base, (x1, y1))])))"

definition road_joint :: "pyfloat \<Rightarrow> (nat \<times> point) \<times> (nat \<times> point) \<Rightarrow> mesh \<Rightarrow> mesh" where
  "road_joint z pair m =
     (case (pair, m) of (((previous_base, _), (next_base, joint)), (vertices, faces)) \<Rightarrow>
        (let centre = length vertices
         in (vertices @ [[fst joint, snd joint, z]],
             faces @ [[centre, previous_base + 3, next_base], [centre, next_base + 1, previous_base + 2]])))"

definition road_strip :: "(pyfloat \<Rightarrow> pyfloat \<Rightarrow> pyfloat) \<Rightarrow> point list \<Rightarrow> pyfloat \<Rightarrow> pyfloat \<Rightarrow> mesh" where
  "road_strip hypot line width_m z =
     (case fold (road_quad hypot (fmul (Fin (1/2)) width_m) z) (zip line (tl line)) (([], []), []) of
        (m, quads) \<Rightarrow> fold (road_joint z) (zip quads (tl quads)) m)"

definition road_widths_m :: "(string \<times> pyfloat) list" where
  "road_widths_m =
     [(''motorway'', Fin 14), (''trunk'', Fin 12), (''primary'', Fin 11), (''secondary'', Fin 9), (''tertiary'', Fin 8),
      (''unclassified'', Fin (13/2)), (''residential'', Fin (13/2)), (''service'', Fin (9/2)), (''living_street'', Fin 5)]"

definition ground_skirt_m :: pyfloat where
  "ground_skirt_m =
     (let ws = map snd road_widths_m in fadd (fmul (Fin (1/2)) (fold (\<lambda>w m. fmax m w) (tl ws) (hd ws))) (Fin 2))"

definition ground_plane :: "pyfloat \<Rightarrow> mesh" where
  "ground_plane half_extent_m =
     (let e = fadd half_extent_m ground_skirt_m
      in ([[fneg e, fneg e, Fin 0], [e, fneg e, Fin 0], [e, e, Fin 0], [fneg e, e, Fin 0]], [[0, 1, 2], [0, 2, 3]]))"

section \<open>The meshes are well formed\<close>

definition faces_inside :: "mesh \<Rightarrow> bool" where
  "faces_inside m = list_all (\<lambda>f. length f = 3 \<and> list_all (\<lambda>i. i < length (fst m)) f) (snd m)"

lemma wall_inside:
  assumes "index < n"
  shows "list_all (\<lambda>f. length f = 3 \<and> list_all (\<lambda>i. i < n + n) f) (wall n index)"
proof -
  obtain nxt where nxt: "(index + 1) mod n = nxt" "nxt < n" using assms mod_less_divisor [of n "index + 1"] by auto
  show ?thesis unfolding wall_def Let_def nxt(1) using assms nxt(2) by simp
qed

lemma extrusion_inside:
  assumes "3 \<le> length ring"
  shows "faces_inside (extrusion ring z_min z_max)"
proof -
  define n where "n = length ring"
  have "list_all (proper {..<n}) (triangulate ring)"
    using triangulate_facts [OF assms ring_cross_flips] unfolding n_def by blast
  then have "list_all (\<lambda>f. length f = 3 \<and> list_all (\<lambda>i. i < n + n) f) (map (\<lambda>(a, b, c). [n + a, n + b, n + c]) (triangulate ring))"
    by (auto simp: list_all_iff proper_def)
  moreover have "list_all (\<lambda>f. length f = 3 \<and> list_all (\<lambda>i. i < n + n) f) (concat (map (wall n) [0..<n]))"
    using wall_inside [of _ n] by (simp add: list_all_iff)
  ultimately show ?thesis unfolding faces_inside_def extrusion_def Let_def n_def [symmetric] fst_conv snd_conv
    by (simp only: list_all_append length_append length_map n_def [symmetric] simp_thms)
qed

lemma faces_inside_more:
  "faces_inside (vs, fs) \<Longrightarrow> list_all (\<lambda>f. length f = 3 \<and> list_all (\<lambda>i. i < length vs + length extra) f) new \<Longrightarrow>
     faces_inside (vs @ extra, fs @ new)"
  by (auto simp: faces_inside_def list_all_iff intro: trans_less_add1)

text \<open>The four corners of each quad are there when it is joined to the next.\<close>

definition quads_inside :: "mesh \<times> (nat \<times> point) list \<Rightarrow> bool" where
  "quads_inside st \<longleftrightarrow> faces_inside (fst st) \<and> list_all (\<lambda>q. fst q + 3 < length (fst (fst st))) (snd st)"

lemma road_quad_inside: "quads_inside st \<Longrightarrow> quads_inside (road_quad hypot half z leg st)"
proof -
  assume a: "quads_inside st"
  obtain vs fs qs x1 y1 x2 y2 where e: "st = ((vs, fs), qs)" "leg = ((x1, y1), (x2, y2))" by (metis prod.exhaust)
  show ?thesis
  proof (cases "flt (hypot (fsub x2 x1) (fsub y2 y1)) (rnd64 (1 / 10 ^ 6))")
    case True
    with a show ?thesis by (simp add: road_quad_def e)
  next
    case False
    have f: "faces_inside (vs @ [p, q, r, s], fs @ [[length vs, length vs + 1, length vs + 2], [length vs, length vs + 2, length vs + 3]])" for p q r s
      using a by (intro faces_inside_more) (simp_all add: quads_inside_def e)
    from a have "list_all (\<lambda>q. fst q + 3 < length vs) qs" by (simp add: quads_inside_def e)
    then have "list_all (\<lambda>q. fst q + 3 < length vs + 4) qs" by (rule list.pred_mono_strong) simp
    with False f show ?thesis by (simp add: road_quad_def e Let_def quads_inside_def)
  qed
qed

lemma road_joint_inside:
  assumes "faces_inside m" and "fst (fst pair) + 3 < length (fst m)" and "fst (snd pair) + 3 < length (fst m)"
  shows "faces_inside (road_joint z pair m) \<and> length (fst m) \<le> length (fst (road_joint z pair m))"
proof -
  obtain a p b q vs fs where e: "pair = ((a, p), (b, q))" "m = (vs, fs)" by (metis prod.exhaust)
  have "faces_inside (vs @ [[fst q, snd q, z]], fs @ [[length vs, a + 3, b], [length vs, b + 1, a + 2]])"
    using assms e by (intro faces_inside_more) simp_all
  then show ?thesis by (simp add: road_joint_def e Let_def)
qed

lemma road_strip_inside: "faces_inside (road_strip hypot line width z)"
proof -
  obtain m qs where e: "fold (road_quad hypot (fmul (Fin (1/2)) width) z) (zip line (tl line)) (([], []), []) = (m, qs)"
    by (metis prod.exhaust)
  have "quads_inside (fold (road_quad hypot half z) legs st)" if "quads_inside st" for half legs st
    using that by (induction legs arbitrary: st) (simp_all add: road_quad_inside)
  from this [of "(([], []), [])" "fmul (Fin (1/2)) width" "zip line (tl line)"] e
  have m: "quads_inside (m, qs)" by (simp add: quads_inside_def faces_inside_def)
  have step: "faces_inside (fold (road_joint z) ps m)"
    if "faces_inside m" "\<forall>p \<in> set ps. fst (fst p) + 3 < length (fst m) \<and> fst (snd p) + 3 < length (fst m)" for ps m
    using that
  proof (induction ps arbitrary: m)
    case (Cons p ps)
    have p: "fst (fst p) + 3 < length (fst m)" "fst (snd p) + 3 < length (fst m)" using Cons.prems(2) by simp_all
    note j = road_joint_inside [OF Cons.prems(1) p, of z]
    with Cons.prems(2) have "\<forall>p \<in> set ps. fst (fst p) + 3 < length (fst (road_joint z p' m)) \<and> fst (snd p) + 3 < length (fst (road_joint z p' m))"
      if "p' = p" for p' using that by fastforce
    with Cons.IH [OF conjunct1 [OF j]] show ?case by simp
  qed simp
  have "set (tl qs) \<subseteq> set qs" by (cases qs) auto
  then have "\<forall>p \<in> set (zip qs (tl qs)). fst (fst p) + 3 < length (fst m) \<and> fst (snd p) + 3 < length (fst m)"
    using m by (fastforce simp: quads_inside_def list_all_iff dest: set_zip_leftD set_zip_rightD)
  with m show ?thesis by (simp add: road_strip_def e step quads_inside_def)
qed

section \<open>A building is closed but for its floor\<close>

lemma ring_edges_upt: "0 < n \<Longrightarrow> ring_edges [0..<n] = map (\<lambda>i. (i, (i + 1) mod n)) [0..<n]"
proof (rule nth_equalityI)
  assume n: "0 < n"
  fix i assume "i < length (ring_edges [0..<n])"
  then have i: "i < n" by (simp add: ring_edges_def)
  show "ring_edges [0..<n] ! i = map (\<lambda>i. (i, (i + 1) mod n)) [0..<n] ! i"
  proof (cases "Suc i < n")
    case True
    then have "i < n - 1" by linarith
    with i show ?thesis by (simp add: ring_edges_def nth_append nth_tl)
  next
    case False
    with i have "Suc i = n" by simp
    with i show ?thesis by (auto simp: ring_edges_def nth_append nth_tl)
  qed
qed (simp add: ring_edges_def)

lemma sum_list_minus: "sum_list (map (\<lambda>x. g x - h x) xs) = sum_list (map g xs) - (sum_list (map h xs) :: 'a::ab_group_add)"
  by (induction xs) simp_all

lemma edge_sum_upt: "0 < n \<Longrightarrow> edge_sum f [0..<n] = sum_list (map (\<lambda>i. f i ((i + 1) mod n)) [0..<n])"
  by (simp add: edge_sum_def ring_edges_upt comp_def)

text \<open>Round a ring, what is gained on the way to each next corner is lost again.\<close>

lemma around_zero: "0 < n \<Longrightarrow> sum_list (map (\<lambda>i. h ((i + 1) mod n) - (h i :: 'a::ab_group_add)) [0..<n]) = 0"
proof -
  assume n: "0 < n"
  then obtain m where m: "n = Suc m" by (cases n) auto
  have "map (\<lambda>i. h ((i + 1) mod n)) [0..<n] = map h (map Suc [0..<m]) @ [h 0]" by (auto simp: m)
  moreover have "[0..<n] = 0 # map Suc [0..<m]" unfolding m map_Suc_upt by (simp add: upt_conv_Cons del: upt_Suc)
  ultimately show ?thesis unfolding sum_list_minus by (simp add: add.commute)
qed

lemma wall_sum:
  assumes "flips f"
  shows "sum_list (map (edge_sum f) (wall n i)) =
    f i ((i + 1) mod n) + (f ((i + 1) mod n) (n + (i + 1) mod n) - f i (n + i)) - f (n + i) (n + (i + 1) mod n)"
proof -
  have e: "edge_sum f [a, b, c] = f a b + f b c + f c a" for a b c
    using triangle_sum_edges [of f a b c] by (simp add: triangle_sum_def)
  have neg: "f b a = - f a b" for a b using assms unfolding flips_def by blast
  show ?thesis unfolding wall_def Let_def list.map sum_list.Cons sum_list.Nil e
    using neg [of "n + i" i] neg [of "n + (i + 1) mod n" "n + i"] neg [of "n + (i + 1) mod n" i] by simp
qed

lemma extrusion_sum:
  assumes "flips f" and "3 \<le> length ring" and "length (triangulate ring) = length ring - 2"
  shows "sum_list (map (edge_sum f) (snd (extrusion ring z_min z_max))) = edge_sum f [0..<length ring]"
proof -
  define n where "n = length ring"
  define up where "up i j = f (n + i) (n + j)" for i j
  have n: "0 < n" "length ring = n" using assms(2) unfolding n_def by linarith+
  have up: "flips up" using assms(1) unfolding flips_def up_def by blast
  have flat: "sum_list (map g (concat (map h xs))) = sum_list (map (\<lambda>x. sum_list (map g (h x))) xs)" for g :: "nat list \<Rightarrow> 'a" and h :: "nat \<Rightarrow> nat list list" and xs
    by (induction xs) simp_all
  have walls: "sum_list (map (edge_sum f) (concat (map (wall n) [0..<n]))) = edge_sum f [0..<n] - edge_sum up [0..<n]"
    unfolding flat wall_sum [OF assms(1)] sum_list_minus sum_list_addf edge_sum_upt [OF n(1)] up_def
    using around_zero [OF n(1), of "\<lambda>i. f i (n + i)"] by (simp add: sum_list_minus)
  have "map (edge_sum f) (map (\<lambda>(a, b, c). [n + a, n + b, n + c]) ts) = map (triangle_sum up) ts" for ts
    by (simp add: triangle_sum_def edge_sum_def ring_edges_def up_def split: prod.split)
  then have "sum_list (map (edge_sum f) (map (\<lambda>(a, b, c). [n + a, n + b, n + c]) (triangulate ring))) = edge_sum up [0..<n]"
    using triangulate_facts [OF assms(2) up] assms(2,3) unfolding n(2) by (simp only:) auto
  with walls show ?thesis unfolding extrusion_def Let_def n(2) snd_conv map_append sum_list_append by simp
qed

definition directed_edges :: "nat list list \<Rightarrow> (nat \<times> nat) multiset" where
  "directed_edges fs = mset (concat (map ring_edges fs))"

definition tally :: "nat \<times> nat \<Rightarrow> nat \<Rightarrow> nat \<Rightarrow> int" where
  "tally e i j = of_bool ((i, j) = e) - of_bool ((i, j) = prod.swap e)"

lemma tally_flips: "flips (tally e)"
proof -
  have "((j, i) = e) = ((i, j) = prod.swap e)" "((j, i) = prod.swap e) = ((i, j) = e)" for i j
    by (cases e; auto)+
  then show ?thesis by (simp only: flips_def tally_def) simp
qed

lemma count_Cons: "int (count (mset (x # xs)) y) = of_bool (x = y) + int (count (mset xs) y)"
  by simp

lemma tally_sum:
  "sum_list (map (\<lambda>(i, j). tally (u, v) i j) es) = int (count (mset es) (u, v)) - int (count (mset es) (v, u))"
proof (induction es)
  case (Cons e es)
  have "(case e of (i, j) \<Rightarrow> tally (u, v) i j) = of_bool (e = (u, v)) - of_bool (e = (v, u))"
    by (cases e) (simp add: tally_def)
  then show ?case unfolding list.map sum_list.Cons Cons.IH count_Cons by simp
qed simp

lemma tally_faces:
  "sum_list (map (edge_sum (tally (u, v))) fs) = int (count (directed_edges fs) (u, v)) - int (count (directed_edges fs) (v, u))"
proof (induction fs)
  case (Cons g fs)
  have "edge_sum (tally (u, v)) g = int (count (mset (ring_edges g)) (u, v)) - int (count (mset (ring_edges g)) (v, u))"
    unfolding edge_sum_def by (rule tally_sum)
  with Cons show ?case by (simp add: directed_edges_def)
qed (simp add: directed_edges_def)

text \<open>C6. The extruded mesh of a footprint whose roof could be cut into triangles has all its faces inside its vertices, and
  is closed but for the floor: every edge is passed as often one way as the other, apart from the edges of the footprint on
  the ground. So every wall and roof face shows its neighbours the same side, and no ray slips between two of them.\<close>

theorem building_closed_but_floor:
  assumes "3 \<le> length ring" and "length (triangulate ring) = length ring - 2"
  shows "faces_inside (extrusion ring z_min z_max) \<and>
    (let es = directed_edges (snd (extrusion ring z_min z_max)); floor = mset (ring_edges [0..<length ring])
     in \<forall>u v. count es (u, v) + count floor (v, u) = count es (v, u) + count floor (u, v))"
proof -
  have "int (count (directed_edges (snd (extrusion ring z_min z_max))) (u, v)) + int (count (mset (ring_edges [0..<length ring])) (v, u))
      = int (count (directed_edges (snd (extrusion ring z_min z_max))) (v, u)) + int (count (mset (ring_edges [0..<length ring])) (u, v))" for u v
  proof -
    from extrusion_sum [OF tally_flips [of "(u, v)"] assms, of z_min z_max] show ?thesis
      unfolding tally_faces by (simp add: edge_sum_def tally_sum)
  qed
  then show ?thesis using extrusion_inside [OF assms(1)] by (simp add: Let_def flip: of_nat_add)
qed

lemma clip_ears_step:
  assumes "3 < length xs" and "find (ear_at ring xs) [0..<length xs] = Some i"
  shows "clip_ears ring (Suc k) xs = (corner xs i # fst (clip_ears ring k (remove_at i xs)), snd (clip_ears ring k (remove_at i xs)))"
  using assms by (simp split: prod.split)

lemma square_roof: "length (triangulate a_square) = 2"
proof -
  define xs :: "nat list" where "xs = [0, 1, 2, 3]"
  have up: "[0..<length a_square] = xs" "[0..<length xs] = xs" "length a_square = 4" "length xs = 4"
    by (simp_all add: a_square_def upt_rec xs_def)
  have "ear_at a_square xs 0"
    by (simp add: xs_def a_square_def ear_at_def corner_def is_ear_def turn_def evaluate)
  then have "find (ear_at a_square xs) xs = Some 0" by (simp add: xs_def)
  then have "find (ear_at a_square xs) [0..<length xs] = Some 0" by (simp only: up(2))
  from clip_ears_step [OF _ this, of 31] have "clip_ears a_square 32 xs =
      (corner xs 0 # fst (clip_ears a_square 31 (remove_at 0 xs)), snd (clip_ears a_square 31 (remove_at 0 xs)))" by (simp add: up)
  moreover have "clip_ears a_square (Suc 30) (remove_at 0 xs) = ([], [1, 2, 3])"
    unfolding clip_ears.simps(2) by (simp add: remove_at_def xs_def)
  then have "clip_ears a_square 31 (remove_at 0 xs) = ([], [1, 2, 3])" by simp
  ultimately show ?thesis unfolding triangulate_def up(1) by (simp add: up(3))
qed

theorem building_closed_but_floor_witness: "faces_inside (extrusion a_square (Fin 0) (Fin 12))"
proof -
  have "3 \<le> length a_square" "length (triangulate a_square) = length a_square - 2"
    by (simp_all add: square_roof, simp_all add: a_square_def)
  from conjunct1 [OF building_closed_but_floor [OF this]] show ?thesis .
qed

section \<open>Roads stay on their centreline\<close>

definition on_line :: "point list \<Rightarrow> point \<Rightarrow> bool" where
  "on_line line p \<longleftrightarrow> (\<exists>(a, b) \<in> set (zip line (tl line)). \<exists>t. 0 \<le> t \<and> t \<le> 1 \<and> p = along_leg a b (Fin t))"

definition in_leg :: "(pyfloat \<times> pyfloat) option \<Rightarrow> bool" where
  "in_leg st = (case st of None \<Rightarrow> True | Some (t0, t1) \<Rightarrow> fle (Fin 0) t0 \<and> fle t1 (Fin 1))"

lemma narrow_leg_range:
  assumes "in_leg st" shows "in_leg (narrow_leg pq st)"
proof (cases st)
  case (Some t)
  obtain p q t0 t1 where e: "pq = (p, q)" "t = (t0, t1)" by (metis prod.exhaust)
  have "fle (Fin 0) t0" "fle t1 (Fin 1)" using assms Some e by (simp_all add: in_leg_def)
  moreover from this have "fle (Fin 0) (fmax t0 r)" "fle (fmin t1 r) (Fin 1)" for r
    unfolding fmax_def fmin_def by (auto intro: fle_trans flt_imp_fle)
  ultimately show ?thesis using Some e by (simp add: narrow_leg_def in_leg_def Let_def)
qed (simp add: narrow_leg_def in_leg_def split: prod.splits)

lemma leg_window_range:
  assumes "leg_window limit a b = Some (t0, t1)"
  shows "\<exists>r s. t0 = Fin r \<and> t1 = Fin s \<and> 0 \<le> r \<and> r \<le> s \<and> s \<le> 1"
proof -
  have keep: "in_leg st \<Longrightarrow> in_leg (fold narrow_leg ps st)" for ps st
    by (induction ps arbitrary: st) (simp_all add: narrow_leg_range)
  define ps where "ps = [(fneg (fsub (fst b) (fst a)), fadd (fst a) limit), (fsub (fst b) (fst a), fsub limit (fst a)),
            (fneg (fsub (snd b) (snd a)), fadd (snd a) limit), (fsub (snd b) (snd a), fsub limit (snd a))]"
  have "in_leg (fold narrow_leg ps (Some (Fin 0, Fin 1)))" by (rule keep) (simp add: in_leg_def)
  moreover have "fold narrow_leg ps (Some (Fin 0, Fin 1)) = Some (t0, t1) \<and> \<not> flt t1 t0"
    using assms unfolding leg_window_def Let_def ps_def [symmetric] by (auto split: option.splits if_splits)
  ultimately have "fle (Fin 0) t0" "fle t1 (Fin 1)" "\<not> flt t1 t0" by (simp_all add: in_leg_def)
  then show ?thesis by (cases t0; cases t1) auto
qed

definition pieces_on_line :: "point list \<Rightarrow> point list list \<Rightarrow> bool" where
  "pieces_on_line line ps \<longleftrightarrow> list_all (\<lambda>piece. 2 \<le> length piece \<and> list_all (on_line line) piece) ps"

lemma pieces_on_line_simps [simp]:
  "pieces_on_line line []"
  "pieces_on_line line (ps @ qs) = (pieces_on_line line ps \<and> pieces_on_line line qs)"
  by (simp_all add: pieces_on_line_def)

definition cut_ok :: "point list \<Rightarrow> point list list \<times> point list \<Rightarrow> bool" where
  "cut_ok line st \<longleftrightarrow> pieces_on_line line (fst st) \<and> (snd st = [] \<or> pieces_on_line line [snd st])"

lemma clip_leg_on_line:
  assumes "(a, b) \<in> set (zip line (tl line))" and "cut_ok line st"
  shows "cut_ok line (clip_leg gap limit (a, b) st)"
proof -
  obtain pieces current where st: "st = (pieces, current)" by (cases st)
  then have old: "pieces_on_line line pieces" "current = [] \<or> pieces_on_line line [current]"
    using assms(2) by (simp_all add: cut_ok_def)
  show ?thesis
  proof (cases "leg_window limit a b")
    case None
    with old st show ?thesis by (auto simp: clip_leg_def cut_ok_def)
  next
    case (Some w)
    obtain t0 t1 where w: "w = (t0, t1)" by (cases w)
    from leg_window_range [OF Some [unfolded w]] obtain r s where t: "t0 = Fin r" "t1 = Fin s" "0 \<le> r" "r \<le> s" "s \<le> 1" by blast
    have rng: "0 \<le> s" "r \<le> 1" using t(3-5) by linarith+
    have on: "on_line line (along_leg a b t0)" "on_line line (along_leg a b t1)"
      unfolding on_line_def t(1,2) using assms(1) t(3-5) rng by blast+
    then have "pieces_on_line line [[along_leg a b t0, along_leg a b t1]]" by (simp add: pieces_on_line_def)
    moreover have "pieces_on_line line [current] \<Longrightarrow> pieces_on_line line [current @ [along_leg a b t1]]"
      using on(2) by (simp add: pieces_on_line_def)
    ultimately show ?thesis using old st Some w by (auto simp: clip_leg_def cut_ok_def Let_def)
  qed
qed

text \<open>Every piece a road is cut into has at least two points, and each of them lies on a leg of its centreline, between the
  ends of the leg: nothing of a road is drawn where it never runs.\<close>

theorem road_pieces_on_line: "pieces_on_line line (clip_polyline gap line half_extent_m)"
proof -
  have keep: "set legs \<subseteq> set (zip line (tl line)) \<Longrightarrow> cut_ok line st \<Longrightarrow> cut_ok line (fold (clip_leg gap half_extent_m) legs st)" for legs st
  proof (induction legs arbitrary: st)
    case (Cons leg legs)
    obtain a b where leg: "leg = (a, b)" by (cases leg)
    with Cons.prems(1) have "(a, b) \<in> set (zip line (tl line))" by simp
    from clip_leg_on_line [OF this Cons.prems(2)] Cons.prems(1) Cons.IH leg show ?case by simp
  qed simp
  obtain pieces current where e: "fold (clip_leg gap half_extent_m) (zip line (tl line)) ([], []) = (pieces, current)"
    by (metis prod.exhaust)
  have "cut_ok line ([], [])" by (simp add: cut_ok_def)
  from keep [OF subset_refl this] have "pieces_on_line line (if current = [] then pieces else pieces @ [current])"
    unfolding e by (auto simp: cut_ok_def)
  then show ?thesis unfolding clip_polyline_def e prod.case by (simp add: pieces_on_line_def list_all_iff)
qed

end
