(* ===== verification/SceneNames.thy ===== *)
theory SceneNames
  imports ProcParse SceneMesh
begin

text \<open>
  What \<^verbatim>\<open>apps/sionna_bridge/build_osm_scene.py\<close> decides from the tags of OpenStreetMap: the radio material and the height
  of a building, the kind of ground cover, and the mesh ids. Tags are the strings of a dictionary.
\<close>

type_synonym tags = "(string \<times> string) list"

section \<open>Tables\<close>

definition osm_material_tags :: "(string \<times> string) list" where
  "osm_material_tags =
     [(''brick'', ''brick''), (''brick_block'', ''brick''), (''concrete'', ''concrete''), (''cement_block'', ''concrete''),
      (''glass'', ''glass''), (''metal'', ''metal''), (''steel'', ''metal''), (''wood'', ''wood''), (''timber_framing'', ''wood''),
      (''stone'', ''marble''), (''marble'', ''marble''), (''granite'', ''marble''), (''plaster'', ''plasterboard''),
      (''plasterboard'', ''plasterboard'')]"

definition building_materials :: "(string \<times> string) list" where
  "building_materials =
     [(''glass'', ''glass''), (''commercial'', ''glass''), (''office'', ''glass''), (''retail'', ''glass''), (''university'', ''glass''),
      (''school'', ''concrete''), (''apartments'', ''concrete''), (''dormitory'', ''concrete''), (''residential'', ''concrete''),
      (''house'', ''brick''), (''semidetached_house'', ''brick''), (''detached'', ''brick''), (''terrace'', ''brick''),
      (''industrial'', ''metal''), (''warehouse'', ''metal''), (''train_station'', ''concrete''), (''transportation'', ''concrete''),
      (''container'', ''metal''), (''hangar'', ''metal''), (''roof'', ''metal''), (''guardhouse'', ''concrete''), (''civic'', ''concrete''),
      (''public'', ''concrete''), (''hospital'', ''concrete''), (''college'', ''glass'')]"

definition default_building_material :: string where "default_building_material = ''concrete''"

definition area_features :: "((string \<times> string) \<times> (string \<times> string)) list" where
  "area_features =
     [((''natural'', ''water''), (''water'', ''wet_ground'')), ((''natural'', ''wetland''), (''water'', ''wet_ground'')),
      ((''waterway'', ''riverbank''), (''water'', ''wet_ground'')), ((''waterway'', ''dock''), (''water'', ''wet_ground'')),
      ((''landuse'', ''reservoir''), (''water'', ''wet_ground'')), ((''landuse'', ''basin''), (''water'', ''wet_ground'')),
      ((''leisure'', ''swimming_pool''), (''water'', ''wet_ground'')),
      ((''landuse'', ''grass''), (''grass'', ''medium_dry_ground'')), ((''landuse'', ''meadow''), (''grass'', ''medium_dry_ground'')),
      ((''landuse'', ''village_green''), (''grass'', ''medium_dry_ground'')),
      ((''landuse'', ''recreation_ground''), (''grass'', ''medium_dry_ground'')),
      ((''landuse'', ''cemetery''), (''grass'', ''medium_dry_ground'')), ((''natural'', ''grassland''), (''grass'', ''medium_dry_ground'')),
      ((''natural'', ''scrub''), (''scrub'', ''medium_dry_ground'')), ((''natural'', ''heath''), (''scrub'', ''medium_dry_ground'')),
      ((''landuse'', ''forest''), (''wood'', ''medium_dry_ground'')), ((''natural'', ''wood''), (''wood'', ''medium_dry_ground'')),
      ((''natural'', ''sand''), (''sand'', ''very_dry_ground'')), ((''natural'', ''beach''), (''sand'', ''very_dry_ground'')),
      ((''leisure'', ''park''), (''park'', ''medium_dry_ground'')), ((''leisure'', ''garden''), (''park'', ''medium_dry_ground'')),
      ((''leisure'', ''golf_course''), (''grass'', ''medium_dry_ground'')), ((''leisure'', ''pitch''), (''pitch'', ''medium_dry_ground'')),
      ((''leisure'', ''track''), (''pitch'', ''medium_dry_ground''))]"

definition area_surface_z_m :: "string \<Rightarrow> pyfloat" where
  "area_surface_z_m kind = (if kind = ''water'' then rnd64 (2/100) else rnd64 (1/100))"

section \<open>Materials and heights\<close>

definition overridden :: "(string \<times> string) list \<Rightarrow> string option list \<Rightarrow> string option" where
  "overridden overrides keys =
     (case find (\<lambda>k. case k of None \<Rightarrow> False | Some key \<Rightarrow> key \<noteq> [] \<and> map_of overrides key \<noteq> None) keys of
        Some (Some key) \<Rightarrow> map_of overrides key | _ \<Rightarrow> None)"

definition building_material :: "tags \<Rightarrow> (string \<times> string) list option \<Rightarrow> string option \<Rightarrow> string \<times> string" where
  "building_material tags overrides mesh_id =
     (let building = get_or ''building'' [] tags
      in case (case overrides of None \<Rightarrow> None | Some os \<Rightarrow> overridden os [mesh_id, map_of tags ''name'', Some building]) of
           Some material \<Rightarrow> (material, ''override'')
         | None \<Rightarrow>
             (case find (\<lambda>key. map_of osm_material_tags (str_lower (get_or key [] tags)) \<noteq> None)
                     [''building:material'', ''material'', ''building:facade:material''] of
                Some key \<Rightarrow> (the (map_of osm_material_tags (str_lower (get_or key [] tags))), key)
              | None \<Rightarrow> (case map_of building_materials building of
                           Some material \<Rightarrow> (material, ''building tag'')
                         | None \<Rightarrow> (default_building_material, ''default''))))"

definition metres_per_level :: pyfloat where "metres_per_level = Fin (7/2)"
definition default_building_height_m :: pyfloat where "default_building_height_m = Fin 12"

definition building_height :: "tags \<Rightarrow> (pyfloat \<times> string) result" where
  "building_height tags =
     (let raw_height = get_or ''height'' [] tags; levels = get_or ''building:levels'' [] tags;
          by_levels = (if levels = [] then (default_building_height_m, ''default'')
                       else case parse_float levels of
                              Some n \<Rightarrow> (fmul n metres_per_level, levels @ '' levels'')
                            | None \<Rightarrow> (default_building_height_m, ''default''))
      in if raw_height = [] then Ok by_levels
         else case str_words raw_height of
                [] \<Rightarrow> Err IndexError
              | w # _ \<Rightarrow> (case parse_float w of Some h \<Rightarrow> Ok (h, ''height tag'') | None \<Rightarrow> Ok by_levels))"

definition area_feature :: "tags \<Rightarrow> (string \<times> string) option" where
  "area_feature tags =
     (case find (\<lambda>kv. map_of area_features kv \<noteq> None) tags of
        Some kv \<Rightarrow> map_of area_features kv | None \<Rightarrow> None)"

section \<open>Ids\<close>

definition slug_char :: "char \<Rightarrow> bool" where
  "slug_char c \<longleftrightarrow> is_digit c \<or> (97 \<le> (of_char c :: nat) \<and> of_char c \<le> (122 :: nat))"

fun slug_runs :: "bool \<Rightarrow> string \<Rightarrow> string" where
  "slug_runs in_run [] = []"
| "slug_runs in_run (c # cs) =
     (if slug_char c then c # slug_runs False cs
      else (if in_run then [] else [CHR ''_'']) @ slug_runs True cs)"

definition strip_underscores :: "string \<Rightarrow> string" where
  "strip_underscores s = rev (dropWhile (\<lambda>c. c = CHR ''_'') (rev (dropWhile (\<lambda>c. c = CHR ''_'') s)))"

definition slug :: "string \<Rightarrow> string" where
  "slug s = (let cleaned = strip_underscores (slug_runs False (str_lower s)) in if cleaned = [] then ''unnamed'' else cleaned)"

text \<open>The number an id is given: \<open>while f"{stem}_{n}" in taken: n += 1\<close>.\<close>

definition suffixed :: "string \<Rightarrow> nat \<Rightarrow> string" where
  "suffixed stem n = stem @ ''_'' @ str_nat n"

lemma suffixed_inj [simp]: "suffixed stem m = suffixed stem n \<longleftrightarrow> m = n"
  by (simp add: suffixed_def)

lemma finite_taken: "finite {k. n \<le> k \<and> suffixed stem k \<in> set taken}"
proof -
  have "inj (suffixed stem)" by (simp add: inj_def)
  then have "finite (suffixed stem -` set taken)" by (simp add: finite_vimageI)
  then show ?thesis by (rule rev_finite_subset) auto
qed

function free_number :: "string list \<Rightarrow> string \<Rightarrow> nat \<Rightarrow> nat" where
  "free_number taken stem n = (if suffixed stem n \<in> set taken then free_number taken stem (Suc n) else n)"
  by pat_completeness auto
termination
proof (relation "measure (\<lambda>(taken, stem, n). card {k. n \<le> k \<and> suffixed stem k \<in> set taken})")
  fix taken stem n assume t: "suffixed stem n \<in> set taken"
  define now where "now = {k. n \<le> k \<and> suffixed stem k \<in> set taken}"
  define later where "later = {k. Suc n \<le> k \<and> suffixed stem k \<in> set taken}"
  have "n \<in> now" "n \<notin> later" "later \<subseteq> now" using t by (auto simp: now_def later_def)
  then have "later \<subset> now" by blast
  moreover have "finite now" unfolding now_def by (rule finite_taken)
  ultimately have "card later < card now" by (rule psubset_card_mono [rotated])
  then show "((taken, stem, Suc n), taken, stem, n) \<in> measure (\<lambda>(taken, stem, n). card {k. n \<le> k \<and> suffixed stem k \<in> set taken})"
    by (simp add: now_def [symmetric] later_def [symmetric])
qed simp

declare free_number.simps [simp del]

text \<open>A building as far as its id needs it: its tags, and how many outer rings its relation has.\<close>

definition named_id :: "string list \<Rightarrow> tags \<Rightarrow> nat \<Rightarrow> string option" where
  "named_id taken tags parts =
     (let name = get_or ''name'' [] tags; base = slug name;
          candidate0 = (if str_startswith ''building'' base then base else ''building_'' @ base);
          candidate = (if 1 < parts
                       then candidate0 @ ''_part'' @ str_nat (length (filter (str_startswith candidate0) taken) + 1)
                       else candidate0)
      in if name = [] then None
         else Some (if candidate \<in> set taken then suffixed candidate (free_number taken candidate 2) else candidate))"

fun named_ids :: "string list \<Rightarrow> (tags \<times> nat) list \<Rightarrow> string option list \<times> string list" where
  "named_ids taken [] = ([], taken)"
| "named_ids taken ((tags, parts) # bs) =
     (let i = named_id taken tags parts
      in case named_ids (case i of None \<Rightarrow> taken | Some u \<Rightarrow> taken @ [u]) bs of (ids, t) \<Rightarrow> (i # ids, t))"

fun numbered_ids :: "string list \<Rightarrow> nat \<Rightarrow> string option list \<Rightarrow> string list" where
  "numbered_ids taken counter [] = []"
| "numbered_ids taken counter (Some i # ids) = i # numbered_ids taken counter ids"
| "numbered_ids taken counter (None # ids) =
     (let n = free_number taken ''building'' counter; i = suffixed ''building'' n
      in i # numbered_ids (taken @ [i]) n ids)"

definition assign_building_ids :: "(tags \<times> nat) list \<Rightarrow> string list" where
  "assign_building_ids buildings = (case named_ids [] buildings of (ids, taken) \<Rightarrow> numbered_ids taken 1 ids)"

section \<open>Ids are distinct\<close>

lemma free_number_free: "suffixed stem (free_number taken stem n) \<notin> set taken"
  by (induction taken stem n rule: free_number.induct) (subst free_number.simps, simp)

definition building_id :: "string \<Rightarrow> bool" where
  "building_id i \<longleftrightarrow> str_startswith ''building'' i"

lemma building_id_append: "building_id a \<Longrightarrow> building_id (a @ b)"
  by (simp add: building_id_def str_startswith_def)

lemma named_id_facts:
  assumes "named_id taken tags parts = Some u"
  shows "u \<notin> set taken \<and> building_id u"
proof -
  define base where "base = slug (get_or ''name'' [] tags)"
  define c0 where "c0 = (if str_startswith ''building'' base then base else ''building_'' @ base)"
  define c where "c = (if 1 < parts then c0 @ ''_part'' @ str_nat (length (filter (str_startswith c0) taken) + 1) else c0)"
  have u: "u = (if c \<in> set taken then suffixed c (free_number taken c 2) else c)"
    using assms unfolding named_id_def Let_def c_def c0_def base_def by (simp split: if_splits)
  have "building_id (''building_'' @ base)" by (simp add: building_id_def str_startswith_def)
  then have "building_id c0" unfolding c0_def building_id_def by simp
  then have "building_id c" unfolding c_def by (simp add: building_id_append)
  then show ?thesis unfolding u using free_number_free by (simp add: suffixed_def building_id_append)
qed

definition chosen :: "string option list \<Rightarrow> string list" where
  "chosen ids = map the (filter (\<lambda>i. i \<noteq> None) ids)"

lemma chosen_simps [simp]: "chosen [] = []" "chosen (None # ids) = chosen ids" "chosen (Some i # ids) = i # chosen ids"
  by (simp_all add: chosen_def)

lemma named_ids_facts:
  "named_ids taken bs = (ids, t) \<Longrightarrow> distinct taken \<Longrightarrow>
     t = taken @ chosen ids \<and> distinct t \<and> list_all building_id (chosen ids) \<and> length ids = length bs"
proof (induction taken bs arbitrary: ids t rule: named_ids.induct)
  case (2 taken tags parts bs)
  define i where "i = named_id taken tags parts"
  define taken' where "taken' = (case i of None \<Rightarrow> taken | Some u \<Rightarrow> taken @ [u])"
  obtain ids' where r: "named_ids taken' bs = (ids', t)" "ids = i # ids'"
    using 2(2) by (auto simp: i_def [symmetric] taken'_def [symmetric] Let_def split: prod.splits)
  have "distinct taken'" using 2(3) named_id_facts [of taken tags parts]
    by (auto simp: taken'_def i_def split: option.splits)
  from 2(1) [OF i_def, folded taken'_def, OF r(1) this] r(2) named_id_facts [of taken tags parts] show ?case
    by (cases i) (auto simp: taken'_def i_def)
qed simp

lemma numbered_ids_facts:
  "distinct (chosen ids) \<Longrightarrow> set (chosen ids) \<subseteq> set taken \<Longrightarrow> list_all building_id (chosen ids) \<Longrightarrow>
     distinct (numbered_ids taken counter ids)
     \<and> set (numbered_ids taken counter ids) \<subseteq> set (chosen ids) \<union> (- set taken)
     \<and> list_all building_id (numbered_ids taken counter ids)
     \<and> length (numbered_ids taken counter ids) = length ids"
proof (induction taken counter ids rule: numbered_ids.induct)
  case (2 taken counter i ids)
  then show ?case by auto
next
  case (3 taken counter ids)
  define n where "n = free_number taken ''building'' counter"
  define i where "i = suffixed ''building'' n"
  have new: "i \<notin> set taken" "building_id i"
    using free_number_free [of "''building''" taken counter] by (simp_all add: i_def n_def suffixed_def building_id_def str_startswith_def)
  have "set (chosen ids) \<subseteq> set (taken @ [i])" using 3(3) by auto
  from 3(1) [OF n_def i_def _ this] 3(2-4) have IH: "distinct (numbered_ids (taken @ [i]) n ids)"
    "set (numbered_ids (taken @ [i]) n ids) \<subseteq> set (chosen ids) \<union> (- set (taken @ [i]))"
    "list_all building_id (numbered_ids (taken @ [i]) n ids)" "length (numbered_ids (taken @ [i]) n ids) = length ids" by simp_all
  have e: "numbered_ids taken counter (None # ids) = i # numbered_ids (taken @ [i]) n ids" by (simp add: n_def i_def Let_def)
  have "i \<notin> set (chosen ids)" using new(1) 3(3) by auto
  with IH new 3(3) show ?case unfolding e by auto
qed simp

lemma building_ids_facts:
  "distinct (assign_building_ids buildings) \<and> list_all building_id (assign_building_ids buildings)
     \<and> length (assign_building_ids buildings) = length buildings"
proof -
  obtain ids taken where n: "named_ids [] buildings = (ids, taken)" by (metis prod.exhaust)
  from named_ids_facts [OF n] have f: "taken = chosen ids" "distinct taken" "list_all building_id (chosen ids)" "length ids = length buildings" by auto
  from numbered_ids_facts [of ids taken 1] f show ?thesis by (simp add: assign_building_ids_def n)
qed

end
