(* ===== verification/ScenePly.thy ===== *)
theory ScenePly
  imports FloatWire ProcParse
begin

text \<open>
  PLY meshes: \<^verbatim>\<open>write_ply\<close> of \<^verbatim>\<open>apps/sionna_bridge/build_osm_scene.py\<close>, which writes the meshes of a generated scene,
  and \<^verbatim>\<open>read_ply\<close> with its two readers, \<^verbatim>\<open>ply_bounds\<close> and \<^verbatim>\<open>write_rectangle_ply\<close> of \<^verbatim>\<open>apps/sionna_bridge/run_bridge.py\<close>,
  which read them back. A file is its bytes; an open handle is the bytes not read yet.
\<close>

section \<open>Bytes as text\<close>

text \<open>The whitespace of \<open>bytes.strip()\<close> and \<open>bytes.split()\<close>.\<close>

definition is_bspace :: "char \<Rightarrow> bool" where
  "is_bspace c \<longleftrightarrow> c \<in> {CHR '' '', CHR 0x09, CHR 0x0A, CHR 0x0B, CHR 0x0C, CHR 0x0D}"

definition bytes_strip :: "bytes \<Rightarrow> string" where
  "bytes_strip bs = rev (dropWhile is_bspace (rev (dropWhile is_bspace (bytes_chars bs))))"

fun words_of :: "(char \<Rightarrow> bool) \<Rightarrow> string \<Rightarrow> string \<Rightarrow> string list" where
  "words_of sp w [] = (if w = [] then [] else [rev w])"
| "words_of sp w (x # xs) =
     (if sp x then (if w = [] then words_of sp [] xs else rev w # words_of sp [] xs)
      else words_of sp (x # w) xs)"

definition bytes_split :: "bytes \<Rightarrow> string list" where
  "bytes_split bs = words_of is_bspace [] (bytes_chars bs)"

text \<open>\<open>int(b)\<close> and \<open>float(b)\<close> of bytes, which trim less than those of a \<open>str\<close>.\<close>

definition plain_space :: "string \<Rightarrow> bool" where
  "plain_space s \<longleftrightarrow> list_all (\<lambda>c. is_space c \<longrightarrow> is_bspace c) s"

definition int_of_bytes :: "string \<Rightarrow> int result" where
  "int_of_bytes s = (case parse_int s of Some i \<Rightarrow> if plain_space s then Ok i else Err (ValueError ''int'')
                     | None \<Rightarrow> Err (ValueError ''int''))"

definition float_of_bytes :: "string \<Rightarrow> pyfloat result" where
  "float_of_bytes s = (case parse_float s of Some x \<Rightarrow> if plain_space s then Ok x else Err (ValueError ''float'')
                       | None \<Rightarrow> Err (ValueError ''float''))"

text \<open>\<open>handle.readline()\<close>: up to and with the next newline; empty at the end of the file.\<close>

definition newline :: byte where "newline = 10"

definition readline :: "bytes \<Rightarrow> bytes \<times> bytes" where
  "readline bs =
     (let l = takeWhile (\<lambda>b. b \<noteq> newline) bs; r = dropWhile (\<lambda>b. b \<noteq> newline) bs
      in case r of [] \<Rightarrow> (l, []) | n # r' \<Rightarrow> (l @ [n], r'))"

definition decode_ascii :: "bytes \<Rightarrow> string result" where
  "decode_ascii bs = (if list_all (\<lambda>b. unat b < 128) bs then Ok (bytes_chars bs) else Err (ValueError ''ascii''))"

section \<open>Scalars\<close>

datatype ply_code = CI8 | CU8 | CI16 | CU16 | CI32 | CU32 | CF32 | CF64

definition ply_scalar_formats :: "(string \<times> ply_code) list" where
  "ply_scalar_formats =
     [(''char'', CI8), (''int8'', CI8), (''uchar'', CU8), (''uint8'', CU8), (''short'', CI16), (''int16'', CI16),
      (''ushort'', CU16), (''uint16'', CU16), (''int'', CI32), (''int32'', CI32), (''uint'', CU32), (''uint32'', CU32),
      (''float'', CF32), (''float32'', CF32), (''double'', CF64), (''float64'', CF64)]"

definition ply_width :: "ply_code \<Rightarrow> nat" where
  "ply_width c = (case c of CI8 \<Rightarrow> 1 | CU8 \<Rightarrow> 1 | CI16 \<Rightarrow> 2 | CU16 \<Rightarrow> 2 | CI32 \<Rightarrow> 4 | CU32 \<Rightarrow> 4 | CF32 \<Rightarrow> 4 | CF64 \<Rightarrow> 8)"

definition signed_of :: "nat \<Rightarrow> nat \<Rightarrow> int" where
  "signed_of k n = (if 2 * n < 256 ^ k then int n else int n - 256 ^ k)"

definition ply_value :: "ply_code \<Rightarrow> nat \<Rightarrow> pyval" where
  "ply_value c n =
     (case c of CI8 \<Rightarrow> VInt (signed_of 1 n) | CU8 \<Rightarrow> VInt (int n) | CI16 \<Rightarrow> VInt (signed_of 2 n) | CU16 \<Rightarrow> VInt (int n)
      | CI32 \<Rightarrow> VInt (signed_of 4 n) | CU32 \<Rightarrow> VInt (int n)
      | CF32 \<Rightarrow> VFloat (ieee_value binary32 n) | CF64 \<Rightarrow> VFloat (ieee_value binary64 n))"

text \<open>\<open>struct.Struct(prefix + codes).unpack(...)\<close>; with a prefix no field is padded.\<close>

fun ply_unpack :: "bool \<Rightarrow> ply_code list \<Rightarrow> bytes \<Rightarrow> pyval list" where
  "ply_unpack big [] bs = []"
| "ply_unpack big (c # cs) bs =
     (let f = take (ply_width c) bs in ply_value c (if big then be_dec f else le_dec f))
     # ply_unpack big cs (drop (ply_width c) bs)"

text \<open>\<open>unpack(handle.read(size))\<close>: a short read does not have the size.\<close>

definition read_codes :: "bool \<Rightarrow> ply_code list \<Rightarrow> bytes \<Rightarrow> (pyval list \<times> bytes) result" where
  "read_codes big cs bs =
     (let n = sum_list (map ply_width cs)
      in if length bs < n then Err StructError else Ok (ply_unpack big cs (take n bs), drop n bs))"

section \<open>Writing\<close>

definition unlines :: "string list \<Rightarrow> string" where
  "unlines ls = concat (map (\<lambda>l. l @ [CHR 0x0A]) ls)"

definition pack_i32 :: "int \<Rightarrow> bytes result" where
  "pack_i32 i = (if - (2 ^ 31) \<le> i \<and> i < 2 ^ 31 then Ok (le_enc 4 (nat (i mod 2 ^ 32))) else Err StructError)"

definition ply_header :: "nat \<Rightarrow> nat \<Rightarrow> string" where
  "ply_header nv nf = unlines
     [''ply'', ''format binary_little_endian 1.0'', ''element vertex '' @ str_nat nv,
      ''property float x'', ''property float y'', ''property float z'', ''element face '' @ str_nat nf,
      ''property list uchar int vertex_indices'', ''end_header'']"

definition pack_vertex :: "pyfloat list \<Rightarrow> bytes result" where
  "pack_vertex v = struct_pack [F32, F32, F32] (map VFloat v)"

definition pack_face :: "int list \<Rightarrow> bytes result" where
  "pack_face f = bindR (pack_uint 1 (int (length f))) (\<lambda>n. bindR (mapR pack_i32 f) (\<lambda>is. Ok (n @ concat is)))"

definition write_ply :: "pyfloat list list \<Rightarrow> int list list \<Rightarrow> bytes result" where
  "write_ply vertices faces =
     bindR (mapR pack_vertex vertices) (\<lambda>vs. bindR (mapR pack_face faces) (\<lambda>fs.
       Ok (encode_utf8 (ply_header (length vertices) (length faces)) @ concat vs @ concat fs)))"

text \<open>\<open>repr\<close> of a float is the parameter \<open>show_float\<close>.\<close>

definition write_rectangle_ply ::
  "(pyfloat \<Rightarrow> string) \<Rightarrow> pyfloat \<Rightarrow> pyfloat \<Rightarrow> pyfloat \<Rightarrow> pyfloat \<Rightarrow> pyfloat \<Rightarrow> bytes" where
  "write_rectangle_ply show_float x_min x_max y_min y_max z =
     (let row = (\<lambda>x y. show_float x @ '' '' @ show_float y @ '' '' @ show_float z)
      in encode_utf8 (unlines
        [''ply'', ''format ascii 1.0'', ''element vertex 4'', ''property float x'', ''property float y'',
         ''property float z'', ''element face 2'', ''property list uchar int vertex_indices'', ''end_header'',
         row x_min y_min, row x_max y_min, row x_max y_max, row x_min y_max, ''3 0 1 2'', ''3 0 2 3'']))"

section \<open>The header\<close>

datatype ply_property = ScalarP ply_code | ListP ply_code ply_code

record ply_element =
  pe_name :: string
  pe_count :: int
  pe_properties :: "ply_property list"

record ply_head =
  ph_encoding :: string
  ph_elements :: "ply_element list"

definition add_property :: "ply_property \<Rightarrow> ply_head \<Rightarrow> ply_head" where
  "add_property p h =
     h\<lparr>ph_elements := butlast (ph_elements h) @ [last (ph_elements h)\<lparr>pe_properties := pe_properties (last (ph_elements h)) @ [p]\<rparr>]\<rparr>"

text \<open>A header line; the flag says whether it was \<open>end_header\<close>.\<close>

definition header_line :: "string \<Rightarrow> ply_head \<Rightarrow> (ply_head \<times> bool) result" where
  "header_line raw h =
     (let line = str_strip raw; fields = str_words line
      in if take 1 fields = [''format''] then
           (if length fields < 2 then Err IndexError else Ok (h\<lparr>ph_encoding := fields ! 1\<rparr>, False))
         else if take 1 fields = [''element''] \<and> length fields = 3 then
           (case parse_int (fields ! 2) of
              None \<Rightarrow> Err (ValueError ''int'')
            | Some n \<Rightarrow> Ok (h\<lparr>ph_elements := ph_elements h @ [\<lparr>pe_name = fields ! 1, pe_count = n, pe_properties = []\<rparr>]\<rparr>, False))
         else if take 1 fields = [''property''] \<and> ph_elements h \<noteq> [] then
           (if length fields < 2 then Err IndexError
            else if fields ! 1 = ''list'' then
              (if length fields \<noteq> 5 then Err (ValueError ''unsupported PLY list property'')
               else case (map_of ply_scalar_formats (fields ! 2), map_of ply_scalar_formats (fields ! 3)) of
                      (Some c, Some i) \<Rightarrow> Ok (add_property (ListP c i) h, False)
                    | _ \<Rightarrow> Err (ValueError ''unsupported PLY list property''))
            else (case map_of ply_scalar_formats (fields ! 1) of
                    Some c \<Rightarrow> if length fields = 3 then Ok (add_property (ScalarP c) h, False)
                              else Err (ValueError ''unsupported PLY property'')
                  | None \<Rightarrow> Err (ValueError ''unsupported PLY property'')))
         else Ok (h, line = ''end_header''))"

lemma readline_shorter: "fst (readline bs) \<noteq> [] \<Longrightarrow> length (snd (readline bs)) < length bs"
proof (cases "dropWhile (\<lambda>b. b \<noteq> newline) bs")
  case Nil
  assume "fst (readline bs) \<noteq> []"
  with Nil show ?thesis by (cases bs) (simp_all add: readline_def)
next
  case (Cons n r)
  have "length (dropWhile (\<lambda>b. b \<noteq> newline) bs) \<le> length bs" by (rule length_dropWhile_le)
  with Cons show ?thesis by (simp add: readline_def)
qed

function read_header :: "ply_head \<Rightarrow> bytes \<Rightarrow> (ply_head \<times> bytes) result" where
  "read_header h bs =
     (if fst (readline bs) = [] then Err (ValueError ''truncated PLY header'')
      else bindR (decode_ascii (fst (readline bs))) (\<lambda>raw. bindR (header_line raw h) (\<lambda>(h', done).
        if done then Ok (h', snd (readline bs)) else read_header h' (snd (readline bs)))))"
  by pat_completeness auto
termination
  by (relation "measure (\<lambda>(h, bs). length bs)") (auto dest: readline_shorter)

declare read_header.simps [simp del]

section \<open>The readers\<close>

text \<open>\<open>xs[i]\<close> and \<open>xs[i:j]\<close>, where a negative index counts from the end.\<close>

definition py_item :: "'a list \<Rightarrow> int \<Rightarrow> 'a result" where
  "py_item xs i =
     (let n = int (length xs); k = (if i < 0 then n + i else i)
      in if 0 \<le> k \<and> k < n then Ok (xs ! nat k) else Err IndexError)"

definition py_range :: "'a list \<Rightarrow> int \<Rightarrow> int \<Rightarrow> 'a list" where
  "py_range xs i j =
     (let n = int (length xs); a = nat (if i < 0 then n + i else i); b = nat (if j < 0 then n + j else j)
      in take (b - a) (drop a xs))"

text \<open>\<open>_PlyAsciiReader.row\<close>: one line, a list of a count and as many integers.\<close>

definition ascii_property :: "string list \<Rightarrow> ply_property \<Rightarrow> int \<times> pyval list \<Rightarrow> (int \<times> pyval list) result" where
  "ascii_property ws p st =
     (case st of (cursor, values) \<Rightarrow>
        bindR (py_item ws cursor) (\<lambda>field.
          case p of
            ListP c i \<Rightarrow>
              bindR (int_of_bytes field) (\<lambda>count.
              bindR (mapR int_of_bytes (py_range ws (cursor + 1) (cursor + 1 + count))) (\<lambda>items.
                Ok (cursor + 1 + count, values @ [VList (map VInt items)])))
          | ScalarP c \<Rightarrow> bindR (float_of_bytes field) (\<lambda>x. Ok (cursor + 1, values @ [VFloat x]))))"

definition ascii_row :: "ply_property list \<Rightarrow> bytes \<Rightarrow> (pyval list \<times> bytes) result" where
  "ascii_row properties bs =
     (let ws = bytes_split (fst (readline bs))
      in if ws = [] then Err (ValueError ''truncated PLY body'')
         else bindR (foldR (ascii_property ws) properties (0, [])) (\<lambda>(cursor, values). Ok (values, snd (readline bs))))"

text \<open>\<open>_PlyBinaryReader.row\<close>: the run of scalars not read yet, the values, the handle.\<close>

definition flush :: "bool \<Rightarrow> ply_code list \<times> pyval list \<times> bytes \<Rightarrow> (pyval list \<times> bytes) result" where
  "flush big st =
     (case st of (run, values, bs) \<Rightarrow>
        if run = [] then Ok (values, bs) else bindR (read_codes big run bs) (\<lambda>(vs, r). Ok (values @ vs, r)))"

definition int_of_value :: "pyval \<Rightarrow> int result" where
  "int_of_value v = (case v of VInt i \<Rightarrow> Ok i | VFloat x \<Rightarrow> ftrunc x | _ \<Rightarrow> Err (TypeError ''int() argument''))"

definition binary_property ::
  "bool \<Rightarrow> ply_property \<Rightarrow> ply_code list \<times> pyval list \<times> bytes \<Rightarrow> (ply_code list \<times> pyval list \<times> bytes) result" where
  "binary_property big p st =
     (case p of
        ScalarP c \<Rightarrow> (case st of (run, values, bs) \<Rightarrow> Ok (run @ [c], values, bs))
      | ListP c i \<Rightarrow>
          bindR (flush big st) (\<lambda>(values, bs).
          bindR (read_codes big [c] bs) (\<lambda>(n, r).
          bindR (int_of_value (hd n)) (\<lambda>count.
          bindR (read_codes big (replicate (nat count) i) r) (\<lambda>(items, r').
            Ok ([], values @ [VList items], r'))))))"

definition binary_row :: "bool \<Rightarrow> ply_property list \<Rightarrow> bytes \<Rightarrow> (pyval list \<times> bytes) result" where
  "binary_row big properties bs = bindR (foldR (binary_property big) properties ([], [], bs)) (flush big)"

section \<open>Reading a mesh\<close>

type_synonym row_reader = "ply_property list \<Rightarrow> bytes \<Rightarrow> (pyval list \<times> bytes) result"

fun read_rows :: "row_reader \<Rightarrow> (pyval list \<Rightarrow> 'a result) \<Rightarrow> ply_property list \<Rightarrow> nat \<Rightarrow> bytes \<Rightarrow> ('a list \<times> bytes) result" where
  "read_rows row f ps 0 bs = Ok ([], bs)"
| "read_rows row f ps (Suc n) bs =
     bindR (row ps bs) (\<lambda>(values, r). bindR (f values) (\<lambda>x. bindR (read_rows row f ps n r) (\<lambda>(xs, r'). Ok (x # xs, r'))))"

definition float_of_value :: "pyval \<Rightarrow> pyfloat result" where
  "float_of_value v = (case v of VInt i \<Rightarrow> float_of_int i | VFloat x \<Rightarrow> Ok x | _ \<Rightarrow> Err (TypeError ''float() argument''))"

type_synonym vertex = "pyfloat \<times> pyfloat \<times> pyfloat"

definition vertex_of :: "pyval list \<Rightarrow> vertex result" where
  "vertex_of values =
     bindR (bindR (py_item values 0) float_of_value) (\<lambda>x.
     bindR (bindR (py_item values 1) float_of_value) (\<lambda>y.
     bindR (bindR (py_item values 2) float_of_value) (\<lambda>z. Ok (x, y, z))))"

definition face_of :: "pyval list \<Rightarrow> int list result" where
  "face_of values =
     bindR (py_item values 0) (\<lambda>v. mapR int_of_value (case v of VList xs \<Rightarrow> xs | _ \<Rightarrow> values))"

fun read_elements :: "row_reader \<Rightarrow> bool \<Rightarrow> ply_element list \<Rightarrow> vertex list \<Rightarrow> int list list \<Rightarrow> bytes \<Rightarrow> (vertex list \<times> int list list) result" where
  "read_elements row want_faces [] vertices faces bs = Ok (vertices, faces)"
| "read_elements row want_faces (e # es) vertices faces bs =
     (let n = nat (pe_count e); ps = pe_properties e
      in if pe_name e = ''vertex'' then
           bindR (read_rows row vertex_of ps n bs) (\<lambda>(vs, r). read_elements row want_faces es (vertices @ vs) faces r)
         else if pe_name e = ''face'' \<and> want_faces then
           bindR (read_rows row face_of ps n bs) (\<lambda>(fs, r). read_elements row want_faces es vertices (faces @ fs) r)
         else if \<not> want_faces \<and> vertices \<noteq> [] then Ok (vertices, faces)
         else bindR (read_rows row (\<lambda>_. Ok ()) ps n bs) (\<lambda>(_, r). read_elements row want_faces es vertices faces r))"

definition read_ply :: "bool \<Rightarrow> bytes \<Rightarrow> (vertex list \<times> int list list) result" where
  "read_ply want_faces bs =
     (if bytes_strip (fst (readline bs)) \<noteq> ''ply'' then Err (ValueError ''not a PLY file'')
      else bindR (read_header \<lparr>ph_encoding = [], ph_elements = []\<rparr> (snd (readline bs))) (\<lambda>(h, body).
        bindR (case find (\<lambda>e. pe_name e = ''vertex'') (ph_elements h) of
                 None \<Rightarrow> Err (ValueError ''PLY has no XYZ vertices'')
               | Some e \<Rightarrow> if pe_count e \<le> 0 \<or> length (pe_properties e) < 3
                           then Err (ValueError ''PLY has no XYZ vertices'') else Ok ()) (\<lambda>_.
        bindR (if ph_encoding h = ''ascii'' then Ok ascii_row
               else if ph_encoding h \<in> {''binary_little_endian'', ''binary_big_endian''}
                    then Ok (binary_row (ph_encoding h = ''binary_big_endian''))
               else Err (ValueError ''unsupported PLY encoding'')) (\<lambda>row.
          read_elements row want_faces (ph_elements h) [] [] body))))"

text \<open>\<open>min\<close> and \<open>max\<close> keep the first of equals.\<close>

definition coordinate :: "nat \<Rightarrow> vertex \<Rightarrow> pyfloat" where
  "coordinate i v = (case v of (x, y, z) \<Rightarrow> if i = 0 then x else if i = 1 then y else z)"

definition extreme :: "(pyfloat \<Rightarrow> pyfloat \<Rightarrow> pyfloat) \<Rightarrow> pyfloat list \<Rightarrow> pyfloat" where
  "extreme f xs = fold (\<lambda>x m. f m x) (tl xs) (hd xs)"

definition ply_bounds :: "bytes \<Rightarrow> (vertex \<times> vertex) result" where
  "ply_bounds bs =
     bindR (read_ply False bs) (\<lambda>(vs, _).
       if vs = [] then Err (ValueError ''min() iterable argument is empty'')
       else let corner = (\<lambda>f i. extreme f (map (coordinate i) vs))
            in Ok ((corner fmin 0, corner fmin 1, corner fmin 2), (corner fmax 0, corner fmax 1, corner fmax 2)))"

section \<open>What is written is read back\<close>

lemma of_char_newline: "(of_char c :: byte) = newline \<longleftrightarrow> c = CHR 0x0A"
proof
  assume "(of_char c :: byte) = newline"
  then have "unat (of_char c :: byte) = unat newline" by simp
  then have "(of_char c :: nat) = of_char (CHR 0x0A)" by (simp add: newline_def)
  then show "c = CHR 0x0A" by (simp only: of_char_eq_iff)
qed (simp add: newline_def)

lemma readline_line:
  assumes "CHR 0x0A \<notin> set l"
  shows "readline (encode_utf8 (l @ [CHR 0x0A]) @ rest) = (encode_utf8 (l @ [CHR 0x0A]), rest)"
proof -
  have l: "b \<noteq> newline" if "b \<in> set (encode_utf8 l)" for b
    using that assms by (auto simp: encode_utf8_def of_char_newline)
  have nl: "(of_char (CHR 0x0A) :: byte) = newline" by (simp only: of_char_newline)
  have "encode_utf8 (l @ [CHR 0x0A]) @ rest = encode_utf8 l @ newline # rest" by (simp only: encode_utf8_def map_append list.map nl) simp
  moreover have "encode_utf8 (l @ [CHR 0x0A]) = encode_utf8 l @ [newline]" by (simp only: encode_utf8_def map_append list.map nl)
  ultimately show ?thesis using l by (simp add: readline_def takeWhile_append2 dropWhile_append2)
qed

definition ascii_text :: "string \<Rightarrow> bool" where
  "ascii_text s \<longleftrightarrow> list_all (\<lambda>c. of_char c < (128 :: nat)) s"

lemma decode_ascii_text: "ascii_text s \<Longrightarrow> decode_ascii (encode_utf8 s) = Ok s"
  by (simp add: decode_ascii_def ascii_text_def list_all_iff, simp add: encode_utf8_def)

lemma header_step:
  assumes "header_line (l @ [CHR 0x0A]) h = Ok (h', stop)" and "CHR 0x0A \<notin> set l" and "ascii_text l"
  shows "read_header h (encode_utf8 (l @ [CHR 0x0A]) @ rest) = (if stop then Ok (h', rest) else read_header h' rest)"
proof -
  have "ascii_text (l @ [CHR 0x0A])" using assms(3) by (simp add: ascii_text_def)
  from decode_ascii_text [OF this] show ?thesis
    using assms(1) by (subst read_header.simps) (simp add: readline_line [OF assms(2)], simp add: encode_utf8_def)
qed

lemma words_of_number: "\<forall>c \<in> set s. \<not> is_space c \<Longrightarrow> str_words_acc w s = (if w = [] \<and> s = [] then [] else [rev w @ s])"
  by (induction s arbitrary: w) auto

lemma words_append_space: "is_space sp \<Longrightarrow> str_words_acc w (a @ sp # b) = str_words_acc w (a @ [sp]) @ str_words_acc [] b"
  by (induction a arbitrary: w) auto

lemma digit_plain: "is_digit c \<Longrightarrow> \<not> is_space c \<and> c \<noteq> CHR 0x0A \<and> of_char c < (128 :: nat)"
  by (auto simp: is_space_def is_digit_def)

lemma number_plain: "c \<in> set (str_nat n) \<Longrightarrow> \<not> is_space c \<and> c \<noteq> CHR 0x0A \<and> of_char c < (128 :: nat)"
  by (rule digit_plain [OF str_nat_digits])

lemma element_words:
  assumes "s \<in> {''element vertex '', ''element face ''}"
  shows "str_words (str_strip (s @ str_nat n @ [CHR 0x0A])) = str_words s @ [str_nat n]"
proof -
  have "rev (str_nat n) \<noteq> []" by simp
  then obtain c r where r: "rev (str_nat n) = c # r" by (cases "rev (str_nat n)") auto
  then have "c \<in> set (str_nat n)" by (metis list.set_intros(1) set_rev)
  then have c: "\<not> is_space c" using number_plain by blast
  have nl: "is_space (CHR 0x0A)" and e: "\<not> is_space (CHR ''e'')" by (simp_all add: is_space_def)
  have "dropWhile is_space (s @ str_nat n @ [CHR 0x0A]) = s @ str_nat n @ [CHR 0x0A]" using assms e by auto
  moreover have "rev (s @ str_nat n @ [CHR 0x0A]) = CHR 0x0A # (c # r) @ rev s" by (simp add: r)
  then have "rev (dropWhile is_space (rev (s @ str_nat n @ [CHR 0x0A]))) = rev ((c # r) @ rev s)" using c nl by simp
  then have "rev (dropWhile is_space (rev (s @ str_nat n @ [CHR 0x0A]))) = s @ str_nat n" unfolding r [symmetric] by simp
  ultimately have "str_strip (s @ str_nat n @ [CHR 0x0A]) = s @ str_nat n" by (simp add: str_strip_def)
  moreover have "str_words_acc [] (str_nat n) = [str_nat n]"
    using number_plain words_of_number [of "str_nat n" "[]"] by simp
  moreover obtain a where "s = a @ [CHR '' '']" using assms by (cases s rule: rev_cases) auto
  moreover have "is_space (CHR '' '')" by (simp add: is_space_def)
  ultimately show ?thesis using words_append_space [of "CHR '' ''" "[]" a "str_nat n"] by (simp add: str_words_def)
qed

definition scene_head :: "nat \<Rightarrow> nat \<Rightarrow> ply_head" where
  "scene_head nv nf = \<lparr>ph_encoding = ''binary_little_endian'', ph_elements =
     [\<lparr>pe_name = ''vertex'', pe_count = int nv, pe_properties = [ScalarP CF32, ScalarP CF32, ScalarP CF32]\<rparr>,
      \<lparr>pe_name = ''face'', pe_count = int nf, pe_properties = [ListP CU8 CI32]\<rparr>]\<rparr>"

lemmas line_eval = header_line_def str_strip_def str_words_def is_space_def ply_scalar_formats_def add_property_def

lemma parse_int_number: "parse_int (str_nat n) = Some (int n)"
proof -
  obtain c r where r: "rev (str_nat n) = c # r" by (cases "rev (str_nat n)") auto
  obtain d t where t: "str_nat n = d # t" by (cases "str_nat n") auto
  have cd: "c \<in> set (str_nat n)" "d \<in> set (str_nat n)" using r t by (metis list.set_intros(1) set_rev)+
  then have sp: "\<not> is_space c" "\<not> is_space d" using number_plain by blast+
  have "is_digit d" using cd(2) by (rule str_nat_digits)
  then have d: "d \<noteq> CHR ''-''" "d \<noteq> CHR ''+''" by (auto simp: is_digit_def)
  have "str_strip (str_nat n) = str_nat n" using sp r t by (simp add: str_strip_def) (metis rev.simps(2) rev_rev_ident)
  then show ?thesis using d parse_nat_str_nat [of n] t by (simp add: parse_int_def)
qed

lemma element_line:
  assumes "name \<in> {''vertex'', ''face''}"
  shows "header_line ((''element '' @ name @ '' '' @ str_nat n) @ [CHR 0x0A]) h =
    Ok (h\<lparr>ph_elements := ph_elements h @ [\<lparr>pe_name = name, pe_count = int n, pe_properties = []\<rparr>]\<rparr>, False)"
proof -
  have "''element '' @ name @ '' '' \<in> {''element vertex '', ''element face ''}" using assms by auto
  from element_words [OF this, of n]
  have w: "str_words (str_strip ((''element '' @ name @ '' '' @ str_nat n) @ [CHR 0x0A])) = [''element'', name, str_nat n]"
    using assms by (auto simp: str_words_def is_space_def)
  show ?thesis unfolding header_line_def w Let_def by (simp add: parse_int_number)
qed

lemma encode_append: "encode_utf8 (a @ b) = encode_utf8 a @ encode_utf8 b"
  by (simp add: encode_utf8_def)

lemma encode_unlines: "encode_utf8 (unlines (l # ls)) @ rest = encode_utf8 (l @ [CHR 0x0A]) @ encode_utf8 (unlines ls) @ rest"
  by (simp add: unlines_def encode_utf8_def)

lemma number_line:
  "ascii_text s \<Longrightarrow> CHR 0x0A \<notin> set s \<Longrightarrow> ascii_text (s @ str_nat n) \<and> CHR 0x0A \<notin> set (s @ str_nat n)"
  using number_plain by (auto simp: ascii_text_def list_all_iff)

lemma header_lines:
  assumes "list_all (\<lambda>l. CHR 0x0A \<notin> set l \<and> ascii_text l) (ls @ [l])"
    and "foldR (\<lambda>l h. bindR (header_line (l @ [CHR 0x0A]) h) (\<lambda>(h', stop). if stop then Err IndexError else Ok h')) ls h = Ok h1"
    and "header_line (l @ [CHR 0x0A]) h1 = Ok (h2, True)"
  shows "read_header h (encode_utf8 (unlines (ls @ [l])) @ body) = Ok (h2, body)"
  using assms
proof (induction ls arbitrary: h)
  case Nil
  then show ?case using header_step [of l h h2 True body] by (simp add: unlines_def)
next
  case (Cons x ls)
  from Cons.prems(2) obtain h' where h': "header_line (x @ [CHR 0x0A]) h = Ok (h', False)"
    and rest: "foldR (\<lambda>l h. bindR (header_line (l @ [CHR 0x0A]) h) (\<lambda>(h', stop). if stop then Err IndexError else Ok h')) ls h' = Ok h1"
    by (auto simp: result_simps split: if_splits prod.splits)
  have "CHR 0x0A \<notin> set x" "ascii_text x" using Cons.prems(1) by simp_all
  from header_step [OF h' this] Cons.IH [OF _ rest Cons.prems(3)] Cons.prems(1) show ?case
    by (simp add: encode_unlines)
qed

lemma scene_header:
  "read_header \<lparr>ph_encoding = [], ph_elements = []\<rparr> (snd (readline (encode_utf8 (ply_header nv nf) @ body))) = Ok (scene_head nv nf, body)"
  "bytes_strip (fst (readline (encode_utf8 (ply_header nv nf) @ body))) = ''ply''"
proof -
  define ls where "ls = [''format binary_little_endian 1.0'', ''element '' @ ''vertex'' @ '' '' @ str_nat nv,
    ''property float x'', ''property float y'', ''property float z'', ''element '' @ ''face'' @ '' '' @ str_nat nf,
    ''property list uchar int vertex_indices'']"
  have "ply_header nv nf = unlines (''ply'' # ls @ [''end_header''])" by (simp add: ply_header_def ls_def)
  then have "encode_utf8 (ply_header nv nf) @ body = encode_utf8 (''ply'' @ [CHR 0x0A]) @ encode_utf8 (unlines (ls @ [''end_header''])) @ body"
    by (simp only: encode_unlines append_Cons)
  moreover have "readline (encode_utf8 (''ply'' @ [CHR 0x0A]) @ rest) = (encode_utf8 (''ply'' @ [CHR 0x0A]), rest)" for rest
    by (rule readline_line) simp
  ultimately have r: "readline (encode_utf8 (ply_header nv nf) @ body)
      = (encode_utf8 (''ply'' @ [CHR 0x0A]), encode_utf8 (unlines (ls @ [''end_header''])) @ body)" by metis
  show "bytes_strip (fst (readline (encode_utf8 (ply_header nv nf) @ body))) = ''ply''"
    unfolding r fst_conv bytes_strip_def bytes_chars_encode by (simp add: is_bspace_def)
  have number: "ascii_text (s @ str_nat n)" "CHR 0x0A \<notin> set (str_nat n)" if "ascii_text s" for s n
    using number_line [of s n] number_plain that by (auto simp: ascii_text_def list_all_iff)
  have "list_all (\<lambda>l. CHR 0x0A \<notin> set l \<and> ascii_text l) (ls @ [''end_header''])"
    unfolding ls_def using number [of "''element vertex ''" nv] number [of "''element face ''" nf] by (simp add: ascii_text_def)
  moreover have "foldR (\<lambda>l h. bindR (header_line (l @ [CHR 0x0A]) h) (\<lambda>(h', stop). if stop then Err IndexError else Ok h')) ls
      \<lparr>ph_encoding = [], ph_elements = []\<rparr> = Ok (scene_head nv nf)"
    unfolding ls_def foldR.simps
    by (simp only: element_line [of "''vertex''"] element_line [of "''face''"] insert_iff simp_thms bindR_simps foldR.simps prod.case if_False)
      (simp add: line_eval scene_head_def)
  moreover have "header_line (''end_header'' @ [CHR 0x0A]) (scene_head nv nf) = Ok (scene_head nv nf, True)"
    by (simp add: line_eval)
  ultimately show "read_header \<lparr>ph_encoding = [], ph_elements = []\<rparr> (snd (readline (encode_utf8 (ply_header nv nf) @ body)))
      = Ok (scene_head nv nf, body)"
    unfolding r snd_conv by (rule header_lines)
qed

text \<open>Rows packed one after another are read one after another.\<close>

lemma read_packed:
  assumes "mapR enc xs = Ok bs"
    and "\<And>x b rest. enc x = Ok b \<Longrightarrow> bindR (row ps (b @ rest)) (\<lambda>(v, r). bindR (f v) (\<lambda>y. Ok (y, r))) = Ok (g x, rest)"
  shows "read_rows row f ps (length xs) (concat bs @ rest) = Ok (map g xs, rest)"
  using assms(1)
proof (induction xs arbitrary: bs)
  case (Cons x xs)
  then obtain b bs' where b: "enc x = Ok b" "mapR enc xs = Ok bs'" "bs = b # bs'" by (auto simp: result_simps)
  with assms(2) [OF b(1), of "concat bs' @ rest"] Cons.IH [OF b(2)] show ?case by (auto simp: result_simps)
qed simp

definition narrow :: "pyfloat \<Rightarrow> pyfloat" where "narrow = ieee_round binary32"

lemma vertex_row:
  assumes "pack_vertex v = Ok b"
  shows "bindR (binary_row False [ScalarP CF32, ScalarP CF32, ScalarP CF32] (b @ rest)) (\<lambda>(v, r). bindR (vertex_of v) (\<lambda>y. Ok (y, r)))
    = Ok ((narrow (v ! 0), narrow (v ! 1), narrow (v ! 2)), rest)"
proof -
  from assms obtain x y z i j k where v: "v = [x, y, z]"
    and c: "ieee_code binary32 x = Ok i" "ieee_code binary32 y = Ok j" "ieee_code binary32 z = Ok k"
    and b: "b = le_enc 4 i @ le_enc 4 j @ le_enc 4 k"
    by (auto simp: pack_vertex_def pack_one_def result_simps split: list.splits if_splits)
  note w = c [THEN ieee_code_width(1)] and val = c [THEN b32.ieee_code_value]
  have "read_codes False [CF32, CF32, CF32] (b @ rest) = Ok ([VFloat (narrow x), VFloat (narrow y), VFloat (narrow z)], rest)"
    using w val by (simp add: read_codes_def b ply_width_def ply_value_def le_dec_enc narrow_def)
  then show ?thesis
    by (simp add: binary_row_def binary_property_def flush_def vertex_of_def py_item_def float_of_value_def v)
qed

lemma i32_read:
  "mapR pack_i32 f = Ok is \<Longrightarrow>
     ply_unpack False (replicate (length f) CI32) (concat is) = map VInt f \<and> length (concat is) = 4 * length f"
proof (induction f arbitrary: "is")
  case (Cons i f)
  then obtain b is' where e: "mapR pack_i32 f = Ok is'" "is = b # is'" and "pack_i32 i = Ok b" by (auto simp: result_simps)
  then have r: "- (2 ^ 31) \<le> i" "i < 2 ^ 31" and b: "b = le_enc 4 (nat (i mod 2 ^ 32))"
    by (auto simp: pack_i32_def split: if_splits)
  have "0 \<le> i mod 2 ^ 32" "i mod 2 ^ 32 < 2 ^ 32" by simp_all
  then have "nat (i mod 2 ^ 32) < 256 ^ 4" by (simp add: nat_less_iff)
  moreover have "signed_of 4 (nat (i mod 2 ^ 32)) = i"
  proof (cases "0 \<le> i")
    case True
    then have "i mod 2 ^ 32 = i" using r by simp
    with True r show ?thesis by (simp add: signed_of_def)
  next
    case False
    have "i mod 2 ^ 32 = (i + 2 ^ 32) mod 2 ^ 32" by simp
    also have "\<dots> = i + 2 ^ 32" using False r by (intro mod_pos_pos_trivial) simp_all
    finally show ?thesis using False r by (simp add: signed_of_def)
  qed
  ultimately show ?case using Cons.IH [OF e(1)] unfolding e(2) b by (simp add: ply_width_def ply_value_def le_dec_enc Let_def)
qed simp

lemma ints_back: "mapR int_of_value (map VInt xs) = Ok xs"
  by (induction xs) (simp_all add: int_of_value_def)

lemma face_row:
  assumes "pack_face f = Ok b"
  shows "bindR (binary_row False [ListP CU8 CI32] (b @ rest)) (\<lambda>(v, r). bindR (face_of v) (\<lambda>y. Ok (y, r))) = Ok (f, rest)"
proof -
  from assms obtain "is" where len: "length f < 256" and "is": "mapR pack_i32 f = Ok is" and b: "b = le_enc 1 (length f) @ concat is"
    by (auto simp: pack_face_def pack_uint_def result_simps split: if_splits)
  note i = i32_read [OF "is"]
  have "le_dec (le_enc 1 (length f)) = length f" using len by (intro le_dec_enc) simp
  then have "read_codes False [CU8] (b @ rest) = Ok ([VInt (int (length f))], concat is @ rest)"
    unfolding b read_codes_def ply_unpack.simps ply_width_def ply_value_def by (simp del: le_enc.simps le_dec.simps add: One_nat_def [symmetric] del: One_nat_def)
  moreover have "read_codes False (replicate (length f) CI32) (concat is @ rest) = Ok (map VInt f, rest)"
    using i by (simp add: read_codes_def ply_width_def sum_list_replicate mult.commute)
  ultimately show ?thesis
    by (simp add: binary_row_def binary_property_def flush_def int_of_value_def face_of_def py_item_def ints_back)
qed

lemma written_read:
  assumes "write_ply vertices faces = Ok bs" and "vertices \<noteq> []"
  shows "read_ply True bs = Ok (map (\<lambda>v. (narrow (v ! 0), narrow (v ! 1), narrow (v ! 2))) vertices, faces)
    \<and> read_ply False bs = Ok (map (\<lambda>v. (narrow (v ! 0), narrow (v ! 1), narrow (v ! 2))) vertices, [])"
proof -
  from assms(1) obtain vs fs where e: "mapR pack_vertex vertices = Ok vs" "mapR pack_face faces = Ok fs"
    and bs: "bs = encode_utf8 (ply_header (length vertices) (length faces)) @ concat vs @ concat fs"
    by (auto simp: write_ply_def result_simps)
  note h = scene_header [of "length vertices" "length faces" "concat vs @ concat fs", folded bs]
  have "read_rows (binary_row False) vertex_of [ScalarP CF32, ScalarP CF32, ScalarP CF32] (length vertices) (concat vs @ concat fs)
      = Ok (map (\<lambda>v. (narrow (v ! 0), narrow (v ! 1), narrow (v ! 2))) vertices, concat fs)"
    by (rule read_packed [OF e(1)]) (rule vertex_row)
  moreover have "read_rows (binary_row False) face_of [ListP CU8 CI32] (length faces) (concat fs) = Ok (map (\<lambda>f. f) faces, [])"
    using read_packed [OF e(2), of "binary_row False" "[ListP CU8 CI32]" face_of "\<lambda>f. f" "[]"] face_row by simp
  ultimately show ?thesis using assms(2) h by (simp add: read_ply_def scene_head_def)
qed

text \<open>C35. A mesh the scene builder writes, the bridge reads back: the same faces, and the vertices with each coordinate rounded
  to the nearest single precision float. A caller who wants no faces gets the same vertices.\<close>

theorem mesh_roundtrip:
  assumes "write_ply vertices faces = Ok bs" and "vertices \<noteq> []"
  shows "read_ply True bs = Ok (map (\<lambda>v. (narrow (v ! 0), narrow (v ! 1), narrow (v ! 2))) vertices, faces)
    \<and> read_ply False bs = Ok (map (\<lambda>v. (narrow (v ! 0), narrow (v ! 1), narrow (v ! 2))) vertices, [])"
  using written_read [OF assms] .

text \<open>A triangle.\<close>

definition demo_mesh :: "pyfloat list list" where
  "demo_mesh = [[Fin 0, Fin 0, Fin 0], [Fin 0, Fin 0, Fin 0], [Fin 0, Fin 0, Fin 0]]"

lemma zero_packs: "\<exists>b. pack_vertex [Fin 0, Fin 0, Fin 0] = Ok b"
  by (simp add: pack_vertex_def pack_one_def ieee_code_def ff_quant_def quant_def Let_def binary32_def ff_huge_def)

lemma demo_written: "\<exists>bs. write_ply demo_mesh [[0, 1, 2]] = Ok bs"
  using zero_packs by (auto simp: write_ply_def demo_mesh_def pack_face_def pack_uint_def pack_i32_def)

theorem mesh_roundtrip_witness:
  "\<exists>bs. write_ply demo_mesh [[0, 1, 2]] = Ok bs \<and> snd (projr (read_ply True bs)) = [[0, 1, 2]]"
proof -
  obtain bs where w: "write_ply demo_mesh [[0, 1, 2]] = Ok bs" using demo_written ..
  from mesh_roundtrip [OF this] w show ?thesis by (auto simp: demo_mesh_def)
qed

end
