(* ===== verification/SceneBuild.thy ===== *)
theory SceneBuild
  imports SceneNames ScenePly
begin

text \<open>
  \<^verbatim>\<open>build\<close> of \<^verbatim>\<open>apps/sionna_bridge/build_osm_scene.py\<close>: from the elements of an Overpass answer to the meshes, the scene and
  the manifest. The elements are the JSON objects the code takes them for; \<open>math.cos(math.radians(x))\<close>, \<open>math.hypot\<close>
  and \<open>math.dist\<close> are the parameters \<open>cosd\<close>, \<open>hypot\<close> and \<open>gap\<close>. Areas and ids are compared as numbers, no NaN among them.
\<close>

section \<open>The projection\<close>

record projection =
  latitude :: pyfloat
  longitude :: pyfloat
  metres_per_degree_lon :: pyfloat

definition earth_metres_per_degree_lat :: pyfloat where "earth_metres_per_degree_lat = Fin 110574"

definition new_projection :: "(pyfloat \<Rightarrow> pyfloat) \<Rightarrow> pyfloat \<Rightarrow> pyfloat \<Rightarrow> projection" where
  "new_projection cosd lat lon =
     \<lparr>latitude = lat, longitude = lon, metres_per_degree_lon = fmul earth_metres_per_degree_lat (cosd lat)\<rparr>"

definition to_xy :: "projection \<Rightarrow> pyfloat \<Rightarrow> pyfloat \<Rightarrow> point" where
  "to_xy p lat lon =
     (fmul (fsub lon (longitude p)) (metres_per_degree_lon p), fmul (fsub lat (latitude p)) earth_metres_per_degree_lat)"

text \<open>A node of a geometry is its latitude and longitude.\<close>

definition project :: "projection \<Rightarrow> (pyfloat \<times> pyfloat) list \<Rightarrow> point list" where
  "project p geometry = map (\<lambda>node. let q = to_xy p (fst node) (snd node) in (round_places 3 (fst q), round_places 3 (snd q))) geometry"

definition point_inside :: "point list \<Rightarrow> pyfloat \<Rightarrow> bool" where
  "point_inside points half_extent_m = list_ex (\<lambda>p. fle (fabs (fst p)) half_extent_m \<and> fle (fabs (snd p)) half_extent_m) points"

section \<open>Collecting\<close>

record osm_member =
  om_role :: string
  om_geometry :: "(pyfloat \<times> pyfloat) list"

record osm_element =
  oe_id :: int
  oe_type :: string
  oe_tags :: tags
  oe_members :: "osm_member list"
  oe_geometry :: "(pyfloat \<times> pyfloat) list"

record building =
  sb_osm_id :: int
  sb_tags :: tags
  sb_ring :: "point list"
  sb_height_m :: pyfloat
  sb_height_source :: string
  sb_area_m2 :: pyfloat
  sb_outer_ring_count :: nat

record road =
  sr_osm_id :: int
  sr_tags :: tags
  sr_line :: "point list"
  sr_width_m :: pyfloat

record area =
  sa_osm_id :: int
  sa_tags :: tags
  sa_ring :: "point list"
  sa_kind :: string
  sa_material :: string
  sa_area_m2 :: pyfloat

record collected =
  co_buildings :: "building list"
  co_roads :: "road list"
  co_areas :: "area list"

definition add_area :: "pyfloat \<Rightarrow> int \<Rightarrow> tags \<Rightarrow> point list \<Rightarrow> collected \<Rightarrow> collected" where
  "add_area half_extent_m osm_id tags ring c =
     (let clipped = clip_polygon ring half_extent_m
      in case area_feature tags of
           None \<Rightarrow> c
         | Some (kind, material) \<Rightarrow>
             if length ring < 3 \<or> length clipped < 3 then c
             else c\<lparr>co_areas := co_areas c @
               [\<lparr>sa_osm_id = osm_id, sa_tags = tags, sa_ring = counter_clockwise clipped, sa_kind = kind, sa_material = material,
                 sa_area_m2 = fabs (signed_area clipped)\<rparr>]\<rparr>)"

definition add_building :: "pyfloat \<Rightarrow> int \<Rightarrow> tags \<Rightarrow> nat \<Rightarrow> point list \<Rightarrow> collected \<Rightarrow> collected result" where
  "add_building half_extent_m osm_id tags parts ring0 c =
     (let ring = counter_clockwise ring0
      in if length ring0 < 3 \<or> \<not> point_inside ring0 half_extent_m then Ok c
         else bindR (building_height tags) (\<lambda>(height, source).
           Ok (c\<lparr>co_buildings := co_buildings c @
             [\<lparr>sb_osm_id = osm_id, sb_tags = tags, sb_ring = ring, sb_height_m = height, sb_height_source = source,
               sb_area_m2 = fabs (signed_area ring), sb_outer_ring_count = parts\<rparr>]\<rparr>)))"

definition has_tag :: "string \<Rightarrow> tags \<Rightarrow> bool" where
  "has_tag k tags \<longleftrightarrow> map_of tags k \<noteq> None"

definition add_relation :: "projection \<Rightarrow> pyfloat \<Rightarrow> osm_element \<Rightarrow> collected \<Rightarrow> collected result" where
  "add_relation p half_extent_m e c =
     (let outers = map (\<lambda>m. project p (om_geometry m)) (filter (\<lambda>m. om_role m = ''outer'' \<and> om_geometry m \<noteq> []) (oe_members e));
          rings = stitch_rings outers
      in if has_tag ''building'' (oe_tags e)
         then foldR (add_building half_extent_m (oe_id e) (oe_tags e) (length rings)) rings c
         else Ok (fold (add_area half_extent_m (oe_id e) (oe_tags e)) rings c))"

definition closed_way :: "point list \<Rightarrow> bool" where
  "closed_way points \<longleftrightarrow> hd points = last points"

definition add_element :: "(point \<Rightarrow> point \<Rightarrow> pyfloat) \<Rightarrow> projection \<Rightarrow> pyfloat \<Rightarrow> osm_element \<Rightarrow> collected \<Rightarrow> collected result" where
  "add_element gap p half_extent_m e c =
     (let tags = oe_tags e; points = project p (oe_geometry e)
      in if oe_type e = ''relation'' then add_relation p half_extent_m e c
         else if oe_geometry e = [] then Ok c
         else if has_tag ''building'' tags then
           (if \<not> point_inside points half_extent_m then Ok c
            else add_building half_extent_m (oe_id e) tags 1 (if closed_way points then butlast points else points) c)
         else if has_tag ''highway'' tags then
           (case map_of road_widths_m (get_or ''highway'' [] tags) of
              None \<Rightarrow> Ok c
            | Some width \<Rightarrow>
                Ok (c\<lparr>co_roads := co_roads c @
                  map (\<lambda>piece. \<lparr>sr_osm_id = oe_id e, sr_tags = tags,
                                 sr_line = map (\<lambda>q. (round_places 3 (fst q), round_places 3 (snd q))) piece, sr_width_m = width\<rparr>)
                    (clip_polyline gap points half_extent_m)\<rparr>))
         else if closed_way points \<and> 4 \<le> length points then Ok (add_area half_extent_m (oe_id e) tags (butlast points) c)
         else Ok c)"

definition collect :: "(point \<Rightarrow> point \<Rightarrow> pyfloat) \<Rightarrow> projection \<Rightarrow> pyfloat \<Rightarrow> osm_element list \<Rightarrow> collected result" where
  "collect gap p half_extent_m elements =
     foldR (add_element gap p half_extent_m) elements \<lparr>co_buildings = [], co_roads = [], co_areas = []\<rparr>"

text \<open>\<open>list.sort(key=...)\<close>: stable.\<close>

fun insert_by :: "('a \<Rightarrow> 'a \<Rightarrow> bool) \<Rightarrow> 'a \<Rightarrow> 'a list \<Rightarrow> 'a list" where
  "insert_by before x [] = [x]"
| "insert_by before x (y # ys) = (if before y x then y # insert_by before x ys else x # y # ys)"

definition stable_sort :: "('a \<Rightarrow> 'a \<Rightarrow> bool) \<Rightarrow> 'a list \<Rightarrow> 'a list" where
  "stable_sort before xs = foldr (insert_by before) xs []"

definition larger_first :: "pyfloat \<times> int \<Rightarrow> pyfloat \<times> int \<Rightarrow> bool" where
  "larger_first a b \<longleftrightarrow> flt (fneg (fst a)) (fneg (fst b)) \<or> fst a = fst b \<and> snd a < snd b"

section \<open>Meshes, shapes and the manifest\<close>

record manifest_building =
  mb_id :: string
  mb_osm_id :: int
  mb_osm_name :: "string option"
  mb_osm_building :: "string option"
  mb_material :: string
  mb_material_source :: string
  mb_height_m :: pyfloat
  mb_height_source :: string
  mb_footprint_area_m2 :: pyfloat
  mb_outer_ring_count :: nat
  mb_centroid_m :: point
  mb_roof_center_m :: "pyfloat \<times> pyfloat \<times> pyfloat"
  mb_footprint_m :: "point list"
  mb_walk_ring_m :: "(pyfloat \<times> pyfloat \<times> pyfloat) list"

record manifest_road =
  mr_id :: string
  mr_osm_way :: int
  mr_osm_name :: "string option"
  mr_highway :: string
  mr_service :: "string option"
  mr_width_m :: pyfloat
  mr_centerline_m :: "point list"

record manifest_area =
  ma_id :: string
  ma_kind :: string
  ma_osm_id :: int
  ma_osm_name :: "string option"
  ma_material :: string
  ma_area_m2 :: pyfloat
  ma_surface_z_m :: pyfloat

text \<open>A shape is its mesh stem, its id and its material; a file its stem and its bytes.\<close>

type_synonym shape = "string \<times> string \<times> string"
type_synonym 'm part = "(string \<times> bytes) \<times> shape \<times> 'm"

definition write_mesh :: "string \<Rightarrow> mesh \<Rightarrow> (string \<times> bytes) result" where
  "write_mesh mesh_id m = bindR (write_ply (fst m) (map (map int) (snd m))) (\<lambda>bs. Ok (mesh_id, bs))"

definition build_building ::
  "(string \<times> string) list option \<Rightarrow> string \<times> building \<Rightarrow> manifest_building part result" where
  "build_building overrides ib =
     (case ib of (mesh_id, b) \<Rightarrow>
        bindR (write_mesh mesh_id (extrusion (sb_ring b) (Fin 0) (sb_height_m b))) (\<lambda>file.
          let m = building_material (sb_tags b) overrides (Some mesh_id); c = centroid (sb_ring b);
              cx = round_places 2 (fst c); cy = round_places 2 (snd c); h = round_places 2 (sb_height_m b)
          in Ok (file, (mesh_id, mesh_id, fst m),
            \<lparr>mb_id = mesh_id, mb_osm_id = sb_osm_id b, mb_osm_name = map_of (sb_tags b) ''name'',
             mb_osm_building = map_of (sb_tags b) ''building'', mb_material = fst m, mb_material_source = snd m,
             mb_height_m = h, mb_height_source = sb_height_source b, mb_footprint_area_m2 = round_places 1 (sb_area_m2 b),
             mb_outer_ring_count = sb_outer_ring_count b, mb_centroid_m = (cx, cy), mb_roof_center_m = (cx, cy, h),
             mb_footprint_m = sb_ring b, mb_walk_ring_m = []\<rparr>)))"

definition walk_ring ::
  "(pyfloat \<Rightarrow> pyfloat \<Rightarrow> pyfloat) \<Rightarrow> pyfloat \<Rightarrow> point list list \<Rightarrow> nat \<Rightarrow> manifest_building \<Rightarrow> manifest_building result" where
  "walk_ring hypot walk_margin_m rings index entry =
     bindR (outward_ring hypot (rings ! index) walk_margin_m (Fin (3/2)) (remove_at index rings)) (\<lambda>walk.
       Ok (entry\<lparr>mb_walk_ring_m := walk\<rparr>))"

fun build_roads :: "(pyfloat \<Rightarrow> pyfloat \<Rightarrow> pyfloat) \<Rightarrow> nat \<Rightarrow> road list \<Rightarrow> manifest_road part list result" where
  "build_roads hypot index [] = Ok []"
| "build_roads hypot index (r # rs) =
     (let m = road_strip hypot (sr_line r) (sr_width_m r) (rnd64 (3/100)); mesh_id = ''road_'' @ str_nat index
      in if snd m = [] then build_roads hypot (index + 1) rs
         else bindR (write_mesh mesh_id m) (\<lambda>file. bindR (build_roads hypot (index + 1) rs) (\<lambda>parts.
           Ok ((file, (mesh_id, mesh_id, ''concrete''),
             \<lparr>mr_id = mesh_id, mr_osm_way = sr_osm_id r, mr_osm_name = map_of (sr_tags r) ''name'',
              mr_highway = get_or ''highway'' [] (sr_tags r), mr_service = map_of (sr_tags r) ''service'',
              mr_width_m = sr_width_m r, mr_centerline_m = sr_line r\<rparr>) # parts))))"

fun build_areas :: "(string \<Rightarrow> nat) \<Rightarrow> area list \<Rightarrow> manifest_area part list result" where
  "build_areas counters [] = Ok []"
| "build_areas counters (a # as) =
     (let kind = sa_kind a; n = counters kind + 1; mesh_id = suffixed kind n; z = area_surface_z_m kind;
          m = (map (at_height z) (sa_ring a), map (\<lambda>(a, b, c). [a, b, c]) (triangulate (sa_ring a)))
      in if snd m = [] then build_areas (counters(kind := n)) as
         else bindR (write_mesh mesh_id m) (\<lambda>file. bindR (build_areas (counters(kind := n)) as) (\<lambda>parts.
           Ok ((file, (mesh_id, mesh_id, sa_material a),
             \<lparr>ma_id = mesh_id, ma_kind = kind, ma_osm_id = sa_osm_id a, ma_osm_name = map_of (sa_tags a) ''name'',
              ma_material = sa_material a, ma_area_m2 = round_places 1 (sa_area_m2 a), ma_surface_z_m = z\<rparr>) # parts))))"

section \<open>The scene file\<close>

text \<open>An element of a scene file: tag, attributes, children. Its text is layout only.\<close>

datatype xml = Elem (xml_tag: string) (xml_attrs: "(string \<times> string) list") (xml_children: "xml list")

definition scene_bsdf :: "string \<Rightarrow> xml" where
  "scene_bsdf material =
     Elem ''bsdf'' [(''type'', ''itu-radio-material''), (''id'', material)]
       [Elem ''string'' [(''name'', ''type''), (''value'', material)] [], Elem ''float'' [(''name'', ''thickness''), (''value'', ''0.2'')] []]"

definition scene_shape :: "shape \<Rightarrow> xml" where
  "scene_shape s =
     (case s of (mesh_stem, shape_id, material) \<Rightarrow>
        Elem ''shape'' [(''type'', ''ply''), (''id'', ''mesh-'' @ shape_id)]
          [Elem ''string'' [(''name'', ''filename''), (''value'', ''meshes/'' @ mesh_stem @ ''.ply'')] [],
           Elem ''boolean'' [(''name'', ''face_normals''), (''value'', ''true'')] [],
           Elem ''ref'' [(''id'', material), (''name'', ''bsdf'')] []])"

fun str_less :: "string \<Rightarrow> string \<Rightarrow> bool" where
  "str_less [] ys = (ys \<noteq> [])"
| "str_less (x # xs) [] = False"
| "str_less (x # xs) (y # ys) = (of_char x < (of_char y :: nat) \<or> x = y \<and> str_less xs ys)"

definition write_scene_xml :: "shape list \<Rightarrow> xml" where
  "write_scene_xml shapes =
     Elem ''scene'' [(''version'', ''2.1.0'')]
       (map scene_bsdf (stable_sort str_less (remdups (map (\<lambda>s. snd (snd s)) shapes))) @ map scene_shape shapes)"

section \<open>The scene\<close>

record built_scene =
  bs_files :: "(string \<times> bytes) list"
  bs_shapes :: "shape list"
  bs_xml :: xml
  bs_building_materials :: "(string \<times> nat) list"
  bs_ground_half_extent_m :: pyfloat
  bs_buildings :: "manifest_building list"
  bs_roads :: "manifest_road list"
  bs_areas :: "manifest_area list"

definition count_material :: "string \<Rightarrow> (string \<times> nat) list \<Rightarrow> (string \<times> nat) list" where
  "count_material m d = AList.update m ((case map_of d m of Some k \<Rightarrow> k | None \<Rightarrow> 0) + 1) d"

definition build ::
  "(point \<Rightarrow> point \<Rightarrow> pyfloat) \<Rightarrow> (pyfloat \<Rightarrow> pyfloat \<Rightarrow> pyfloat) \<Rightarrow> projection \<Rightarrow> pyfloat \<Rightarrow> pyfloat
     \<Rightarrow> (string \<times> string) list option \<Rightarrow> osm_element list \<Rightarrow> built_scene result" where
  "build gap hypot p half_extent_m walk_margin_m overrides elements =
     bindR (collect gap p half_extent_m elements) (\<lambda>c.
       let buildings = stable_sort (\<lambda>a b. larger_first (sb_area_m2 a, sb_osm_id a) (sb_area_m2 b, sb_osm_id b)) (co_buildings c);
           mesh_ids = assign_building_ids (map (\<lambda>b. (sb_tags b, sb_outer_ring_count b)) buildings);
           roads = stable_sort (\<lambda>a b. sr_osm_id a < sr_osm_id b) (co_roads c);
           areas = stable_sort (\<lambda>a b. larger_first (sa_area_m2 a, sa_osm_id a) (sa_area_m2 b, sa_osm_id b)) (co_areas c)
       in bindR (mapR (build_building overrides) (zip mesh_ids buildings)) (\<lambda>bs.
          bindR (mapR (\<lambda>(i, e). walk_ring hypot walk_margin_m (map sb_ring buildings) i e)
                   (zip [0..<length bs] (map (\<lambda>b. snd (snd b)) bs))) (\<lambda>entries.
          bindR (build_roads hypot 1 roads) (\<lambda>rs.
          bindR (build_areas (\<lambda>_. 0) areas) (\<lambda>as.
          bindR (write_mesh ''ground'' (ground_plane half_extent_m)) (\<lambda>ground.
            let shapes = map (\<lambda>b. fst (snd b)) bs @ map (\<lambda>r. fst (snd r)) rs @ map (\<lambda>a. fst (snd a)) as
                         @ [(''ground'', ''ground'', ''medium_dry_ground'')]
            in Ok \<lparr>bs_files = map fst bs @ map fst rs @ map fst as @ [ground],
                   bs_shapes = shapes, bs_xml = write_scene_xml shapes,
                   bs_building_materials = stable_sort (\<lambda>a b. str_less (fst a) (fst b)) (fold (\<lambda>e. count_material (mb_material e)) entries []),
                   bs_ground_half_extent_m = fadd half_extent_m ground_skirt_m,
                   bs_buildings = entries, bs_roads = map (\<lambda>r. snd (snd r)) rs, bs_areas = map (\<lambda>a. snd (snd a)) as\<rparr>))))))"

section \<open>No mesh replaces another\<close>

text \<open>The kind of a mesh id: what stands before its first underscore.\<close>

definition id_stem :: "string \<Rightarrow> string" where
  "id_stem i = takeWhile (\<lambda>c. c \<noteq> CHR ''_'') i"

definition area_kinds :: "string set" where
  "area_kinds = (\<lambda>f. fst (snd f)) ` set area_features"

lemma area_kind_plain:
  assumes "k \<in> area_kinds"
  shows "k \<notin> {''road'', ''ground''}" "CHR ''_'' \<notin> set k" "k \<noteq> [] \<and> hd k \<noteq> CHR ''b''"
  using assms by (auto simp: area_kinds_def area_features_def)

lemma id_stem_numbered: "CHR ''_'' \<notin> set k \<Longrightarrow> id_stem (suffixed k n) = k"
  by (induction k) (auto simp: id_stem_def suffixed_def)

lemma area_feature_kind: "area_feature tags = Some (kind, material) \<Longrightarrow> kind \<in> area_kinds"
proof -
  assume "area_feature tags = Some (kind, material)"
  then obtain kv where "map_of area_features kv = Some (kind, material)"
    by (auto simp: area_feature_def split: option.splits)
  then have "(kv, kind, material) \<in> set area_features" by (rule map_of_SomeD)
  then show ?thesis unfolding area_kinds_def by force
qed

definition kinds_known :: "collected \<Rightarrow> bool" where
  "kinds_known c \<longleftrightarrow> (\<forall>a \<in> set (co_areas c). sa_kind a \<in> area_kinds)"

lemma add_area_known: "kinds_known c \<Longrightarrow> kinds_known (add_area h i tags ring c)"
  by (auto simp: add_area_def kinds_known_def Let_def area_feature_kind split: option.splits)

lemma add_areas_known: "kinds_known c \<Longrightarrow> kinds_known (fold (add_area h i tags) rings c)"
  by (induction rings arbitrary: c) (simp_all add: add_area_known)

lemma add_building_areas: "add_building h i tags n ring c = Ok c' \<Longrightarrow> co_areas c' = co_areas c"
  by (auto simp: add_building_def Let_def result_simps split: if_splits)

lemma add_element_known:
  assumes "add_element gap p h e c = Ok c'" and "kinds_known c"
  shows "kinds_known c'"
proof -
  have buildings: "co_areas c' = co_areas c" if "foldR (add_building h i tags n) rings c = Ok c'" for i tags n rings
    using foldR_invariant [OF that, of "\<lambda>d. co_areas d = co_areas c"] add_building_areas by auto
  then have relation: "kinds_known c'" if "add_relation p h e c = Ok c'"
    using that assms(2) add_areas_known by (auto simp: add_relation_def Let_def kinds_known_def split: if_splits)
  show ?thesis
  proof (cases "oe_type e = ''relation''")
    case True
    with assms(1) relation show ?thesis by (simp add: add_element_def Let_def)
  next
    case False
    with assms show ?thesis
      by (auto simp: add_element_def Let_def add_area_known dest: add_building_areas split: if_splits option.splits)
        (auto simp: kinds_known_def dest: add_building_areas)
  qed
qed

lemma collect_known:
  assumes "collect gap p h es = Ok c" shows "kinds_known c"
proof (rule foldR_invariant [OF assms [unfolded collect_def]])
  show "kinds_known \<lparr>co_buildings = [], co_roads = [], co_areas = []\<rparr>" by (simp add: kinds_known_def)
qed (rule add_element_known)

lemma set_insert_by: "set (insert_by before x ys) = insert x (set ys)"
  by (induction ys) auto

lemma set_stable_sort: "set (stable_sort before xs) = set xs"
  by (induction xs) (simp_all add: stable_sort_def set_insert_by)

lemma length_insert_by: "length (insert_by before x ys) = Suc (length ys)"
  by (induction ys) auto

lemma length_stable_sort: "length (stable_sort before xs) = length xs"
  by (induction xs) (simp_all add: stable_sort_def length_insert_by)

text \<open>What a list of parts is made of: each file goes by the id of its shape.\<close>

definition part_ids :: "'m part list \<Rightarrow> string list \<Rightarrow> bool" where
  "part_ids ps ids \<longleftrightarrow> map (\<lambda>p. fst (fst p)) ps = ids \<and> map (\<lambda>p. fst (fst (snd p))) ps = ids \<and> map (\<lambda>p. fst (snd (fst (snd p)))) ps = ids"

lemma part_ids_simps [simp]:
  "part_ids [] ids \<longleftrightarrow> ids = []"
  "part_ids (((i, b), (j, k, m), e) # ps) (i' # ids) \<longleftrightarrow> i = i' \<and> j = i' \<and> k = i' \<and> part_ids ps ids"
  by (auto simp: part_ids_def)

lemma building_parts:
  "mapR (build_building overrides) (zip ids bs) = Ok ps \<Longrightarrow> length ids = length bs \<Longrightarrow> part_ids ps ids"
proof (induction ids arbitrary: bs ps)
  case (Cons i ids)
  then obtain b bs' where b: "bs = b # bs'" by (cases bs) auto
  with Cons show ?case by (auto simp: result_simps build_building_def write_mesh_def Let_def)
qed simp

lemma road_parts:
  "build_roads hypot k rs = Ok ps \<Longrightarrow>
     \<exists>ns. part_ids ps (map (suffixed ''road'') ns) \<and> distinct ns \<and> (\<forall>n \<in> set ns. k \<le> n)"
proof (induction rs arbitrary: k ps)
  case (Cons r rs)
  show ?case
  proof (cases "snd (road_strip hypot (sr_line r) (sr_width_m r) (rnd64 (3/100))) = []")
    case True
    with Cons.prems have "build_roads hypot (k + 1) rs = Ok ps" by (simp add: Let_def)
    from Cons.IH [OF this] show ?thesis by force
  next
    case False
    with Cons.prems obtain b m e ps' where p: "ps = ((''road_'' @ str_nat k, b), (''road_'' @ str_nat k, ''road_'' @ str_nat k, m), e) # ps'"
      and r: "build_roads hypot (k + 1) rs = Ok ps'"
      by (auto simp: Let_def result_simps write_mesh_def)
    from Cons.IH [OF r] obtain ns where ns: "part_ids ps' (map (suffixed ''road'') ns)" "distinct ns" "\<forall>n \<in> set ns. k + 1 \<le> n" by auto
    have "part_ids ps (map (suffixed ''road'') (k # ns))" using ns(1) p by (simp add: suffixed_def)
    moreover have "distinct (k # ns)" "\<forall>n \<in> set (k # ns). k \<le> n" using ns(2,3) by force+
    ultimately show ?thesis by blast
  qed
qed simp

lemma area_parts:
  "build_areas counters as = Ok ps \<Longrightarrow>
     \<exists>ks. part_ids ps (map (\<lambda>(k, n). suffixed k n) ks) \<and> distinct ks
       \<and> (\<forall>(k, n) \<in> set ks. counters k < n \<and> k \<in> sa_kind ` set as)"
proof (induction "as" arbitrary: counters ps)
  case (Cons a as)
  define k where "k = sa_kind a"
  define c where "c = counters(k := counters k + 1)"
  have later: "counters j < n" if "c j < n" for j n using that by (auto simp: c_def split: if_splits)
  show ?case
  proof (cases "triangulate (sa_ring a) = []")
    case True
    with Cons.prems have "build_areas c as = Ok ps" by (simp add: Let_def c_def k_def)
    from Cons.IH [OF this] show ?thesis using later by fastforce
  next
    case False
    with Cons.prems obtain b m e ps' where p: "ps = ((suffixed k (counters k + 1), b), (suffixed k (counters k + 1), suffixed k (counters k + 1), m), e) # ps'"
      and r: "build_areas c as = Ok ps'"
      by (auto simp: Let_def result_simps write_mesh_def c_def k_def)
    from Cons.IH [OF r] obtain ks where ks: "part_ids ps' (map (\<lambda>(k, n). suffixed k n) ks)" "distinct ks"
      "\<forall>(j, n) \<in> set ks. c j < n \<and> j \<in> sa_kind ` set as" by auto
    have "(k, counters k + 1) \<notin> set ks" using ks(3) by (auto simp: c_def)
    with ks(2) have "distinct ((k, counters k + 1) # ks)" by simp
    moreover have "\<forall>(j, n) \<in> set ((k, counters k + 1) # ks). counters j < n \<and> j \<in> sa_kind ` set (a # as)"
      using ks(3) later by (auto simp: k_def)
    moreover have "part_ids ps (map (\<lambda>(k, n). suffixed k n) ((k, counters k + 1) # ks))" using ks(1) p by simp
    ultimately show ?thesis by blast
  qed
qed simp

lemma part_ids_map:
  "part_ids ps ids \<Longrightarrow> map fst (map fst ps) = ids \<and> map fst (map (\<lambda>p. fst (snd p)) ps) = ids
     \<and> map (\<lambda>s. fst (snd s)) (map (\<lambda>p. fst (snd p)) ps) = ids"
  by (simp add: part_ids_def comp_def)

text \<open>The pieces of a scene that was built.\<close>

lemma build_parts:
  assumes "build gap hypot p h margin overrides es = Ok s"
  shows "\<exists>bids rns ks. map fst (bs_files s) = bids @ map (suffixed ''road'') rns @ map (\<lambda>(k, n). suffixed k n) ks @ [''ground'']
    \<and> map fst (bs_shapes s) = map fst (bs_files s) \<and> map (\<lambda>s. fst (snd s)) (bs_shapes s) = map fst (bs_files s)
    \<and> bs_xml s = write_scene_xml (bs_shapes s)
    \<and> distinct bids \<and> list_all building_id bids \<and> distinct rns \<and> distinct ks \<and> (\<forall>(k, n) \<in> set ks. k \<in> area_kinds)"
proof -
  obtain c where c: "collect gap p h es = Ok c" using assms by (auto simp: build_def result_simps)
  define buildings where "buildings = stable_sort (\<lambda>a b. larger_first (sb_area_m2 a, sb_osm_id a) (sb_area_m2 b, sb_osm_id b)) (co_buildings c)"
  define ids where "ids = assign_building_ids (map (\<lambda>b. (sb_tags b, sb_outer_ring_count b)) buildings)"
  define areas where "areas = stable_sort (\<lambda>a b. larger_first (sa_area_m2 a, sa_osm_id a) (sa_area_m2 b, sa_osm_id b)) (co_areas c)"
  from assms c obtain bs entries rs "as" ground where
    b: "mapR (build_building overrides) (zip ids buildings) = Ok bs" and
    r: "build_roads hypot 1 (stable_sort (\<lambda>a b. sr_osm_id a < sr_osm_id b) (co_roads c)) = Ok rs" and
    a: "build_areas (\<lambda>_. 0) areas = Ok as" and g: "write_mesh ''ground'' (ground_plane h) = Ok ground" and
    files: "bs_files s = map fst bs @ map fst rs @ map fst as @ [ground]" and
    shapes: "bs_shapes s = map (\<lambda>b. fst (snd b)) bs @ map (\<lambda>r. fst (snd r)) rs @ map (\<lambda>a. fst (snd a)) as @ [(''ground'', ''ground'', ''medium_dry_ground'')]" and
    xml: "bs_xml s = write_scene_xml (bs_shapes s)"
    unfolding build_def by (auto simp: Let_def result_simps buildings_def ids_def areas_def)
  note i = building_ids_facts [of "map (\<lambda>b. (sb_tags b, sb_outer_ring_count b)) buildings", folded ids_def]
  have "part_ids bs ids" by (rule building_parts [OF b]) (simp add: i)
  note bm = part_ids_map [OF this]
  from road_parts [OF r] obtain ns where ns: "part_ids rs (map (suffixed ''road'') ns)" "distinct ns" by blast
  note rm = part_ids_map [OF ns(1)]
  from area_parts [OF a] obtain ks where ks: "part_ids as (map (\<lambda>(k, n). suffixed k n) ks)" "distinct ks"
    "\<forall>(k, n) \<in> set ks. k \<in> sa_kind ` set areas" by blast
  note am = part_ids_map [OF ks(1)]
  have gm: "fst ground = ''ground''" using g by (auto simp: write_mesh_def result_simps)
  have "\<forall>(k, n) \<in> set ks. k \<in> area_kinds"
    using ks(3) collect_known [OF c] by (auto simp: areas_def set_stable_sort kinds_known_def)
  moreover have "map fst (bs_files s) = ids @ map (suffixed ''road'') ns @ map (\<lambda>(k, n). suffixed k n) ks @ [''ground'']"
    unfolding files map_append bm [THEN conjunct1] rm [THEN conjunct1] am [THEN conjunct1] by (simp add: gm)
  moreover have "map fst (bs_shapes s) = ids @ map (suffixed ''road'') ns @ map (\<lambda>(k, n). suffixed k n) ks @ [''ground'']"
    unfolding shapes map_append bm [THEN conjunct2, THEN conjunct1] rm [THEN conjunct2, THEN conjunct1] am [THEN conjunct2, THEN conjunct1] by simp
  moreover have "map (\<lambda>s. fst (snd s)) (bs_shapes s) = ids @ map (suffixed ''road'') ns @ map (\<lambda>(k, n). suffixed k n) ks @ [''ground'']"
    unfolding shapes map_append bm [THEN conjunct2, THEN conjunct2] rm [THEN conjunct2, THEN conjunct2] am [THEN conjunct2, THEN conjunct2] by simp
  ultimately show ?thesis using i ns(2) ks(2) xml by (intro exI [of _ ids] exI [of _ ns] exI [of _ ks]) simp
qed

lemma building_ids_apart:
  assumes "building_id i" shows "id_stem i \<notin> area_kinds \<union> {''road'', ''ground''}"
proof -
  obtain t where "i = ''building'' @ t" using assms by (auto simp: building_id_def str_startswith_def prefix_def)
  then have "hd (id_stem i) = CHR ''b''" by (simp add: id_stem_def)
  then show ?thesis using area_kind_plain(3) by auto
qed

text \<open>C33. A scene that was built has one mesh file for each of its shapes, under the id of the shape, and no two have the same
  id: no building, road, pond or lawn is written over another, whatever the names on the map.\<close>

theorem meshes_kept_apart:
  assumes "build gap hypot p h margin overrides es = Ok s"
  shows "distinct (map fst (bs_files s)) \<and> map fst (bs_shapes s) = map fst (bs_files s)
    \<and> map (\<lambda>sh. fst (snd sh)) (bs_shapes s) = map fst (bs_files s)"
proof -
  from build_parts [OF assms] obtain bids rns ks where
    f: "map fst (bs_files s) = bids @ map (suffixed ''road'') rns @ map (\<lambda>(k, n). suffixed k n) ks @ [''ground'']"
    and same: "map fst (bs_shapes s) = map fst (bs_files s)" "map (\<lambda>s. fst (snd s)) (bs_shapes s) = map fst (bs_files s)"
    and b: "distinct bids" "list_all building_id bids" and r: "distinct rns"
    and k: "distinct ks" "\<forall>(k, n) \<in> set ks. k \<in> area_kinds" by blast
  have ks: "id_stem (suffixed k n) = k" "k \<in> area_kinds" if "(k, n) \<in> set ks" for k n
    using that k(2) area_kind_plain(2) id_stem_numbered by blast+
  have "inj_on (\<lambda>(k, n). suffixed k n) (set ks)"
  proof (rule inj_onI, clarify)
    fix k m j n assume e: "(k, m) \<in> set ks" "(j, n) \<in> set ks" "suffixed k m = suffixed j n"
    then have "k = j" using ks(1) by metis
    with e(3) show "k = j \<and> m = n" by simp
  qed
  then have da: "distinct (map (\<lambda>(k, n). suffixed k n) ks)" using k(1) by (simp add: distinct_map)
  have dr: "distinct (map (suffixed ''road'') rns)" using r by (simp add: distinct_map inj_on_def)
  have sb: "id_stem i \<notin> area_kinds \<union> {''road'', ''ground''}" if "i \<in> set bids" for i
    using that b(2) building_ids_apart by (auto simp: list_all_iff)
  have sr: "id_stem i = ''road''" if "i \<in> set (map (suffixed ''road'') rns)" for i
    using that id_stem_numbered [of "''road''"] by auto
  have sa: "id_stem i \<in> area_kinds" if "i \<in> set (map (\<lambda>(k, n). suffixed k n) ks)" for i
    using that ks by auto
  have sg: "id_stem ''ground'' = ''ground''" by (simp add: id_stem_def)
  have apart: "''road'' \<notin> area_kinds" "''ground'' \<notin> area_kinds" using area_kind_plain(1) by auto
  define R where "R = map (suffixed ''road'') rns"
  define K where "K = map (\<lambda>(k, n). suffixed k n) ks"
  have "set K \<inter> {''ground''} = {}" using sa [folded K_def] sg apart by force
  moreover have "set R \<inter> set K = {}" using sa [folded K_def] sr [folded R_def] apart by (metis disjoint_iff)
  moreover have "set R \<inter> {''ground''} = {}" using sr [folded R_def] sg by force
  moreover have "set bids \<inter> set R = {}" using sb sr [folded R_def] by fastforce
  moreover have "set bids \<inter> set K = {}" using sb sa [folded K_def] by fastforce
  moreover have "set bids \<inter> {''ground''} = {}" using sb sg by force
  ultimately have "distinct (bids @ R @ K @ [''ground''])" using b(1) dr da by (auto simp: R_def [symmetric] K_def [symmetric])
  then show ?thesis using same unfolding f R_def K_def by simp
qed

section \<open>The bridge can read every mesh\<close>

definition readable :: "bytes \<Rightarrow> bool" where
  "readable bs \<longleftrightarrow> (\<exists>vs fs. read_ply True bs = Ok (vs, fs) \<and> read_ply False bs = Ok (vs, []) \<and> vs \<noteq> [] \<and> fs \<noteq> []
     \<and> list_all (\<lambda>f. length f = 3 \<and> list_all (\<lambda>i. 0 \<le> i \<and> i < int (length vs)) f) fs)"

lemma written_readable:
  assumes "write_mesh i m = Ok file" and "faces_inside m" and "snd m \<noteq> []"
  shows "readable (snd file)"
proof -
  obtain bs where w: "write_ply (fst m) (map (map int) (snd m)) = Ok bs" "file = (i, bs)"
    using assms(1) by (auto simp: write_mesh_def result_simps)
  have "fst m \<noteq> []"
  proof
    assume "fst m = []"
    moreover obtain f where "f \<in> set (snd m)" using assms(3) by (cases "snd m") auto
    ultimately show False using assms(2) by (cases f) (auto simp: faces_inside_def list_all_iff)
  qed
  from written_read [OF w(1) this] assms w(2) \<open>fst m \<noteq> []\<close> show ?thesis
    by (auto simp: readable_def faces_inside_def list_all_iff)
qed

definition rings_ok :: "collected \<Rightarrow> bool" where
  "rings_ok c \<longleftrightarrow> (\<forall>b \<in> set (co_buildings c). 3 \<le> length (sb_ring b))"

lemma length_counter_clockwise [simp]: "length (counter_clockwise ring) = length ring"
  by (simp add: counter_clockwise_def)

lemma add_building_rings: "add_building h i tags n ring c = Ok c' \<Longrightarrow> rings_ok c \<Longrightarrow> rings_ok c'"
  by (auto simp: add_building_def Let_def result_simps rings_ok_def not_less split: if_splits)

lemma add_area_buildings: "co_buildings (add_area h i tags ring c) = co_buildings c"
  by (auto simp: add_area_def Let_def split: option.splits)

lemma add_areas_buildings: "co_buildings (fold (add_area h i tags) rings c) = co_buildings c"
  by (induction rings arbitrary: c) (simp_all add: add_area_buildings)

lemma add_element_rings:
  assumes "add_element gap p h e c = Ok c'" and "rings_ok c"
  shows "rings_ok c'"
proof -
  have "rings_ok c'" if "foldR (add_building h i tags n) rings c = Ok c'" for i tags n rings
    using foldR_invariant [OF that, of rings_ok] assms(2) add_building_rings by blast
  then have relation: "rings_ok c'" if "add_relation p h e c = Ok c'"
    using that assms(2) by (auto simp: add_relation_def Let_def rings_ok_def add_areas_buildings split: if_splits)
  show ?thesis
  proof (cases "oe_type e = ''relation''")
    case True
    with assms(1) relation show ?thesis by (simp add: add_element_def Let_def)
  next
    case False
    with assms show ?thesis
      by (auto simp: add_element_def Let_def dest: add_building_rings split: if_splits option.splits)
        (auto simp: rings_ok_def add_area_buildings)
  qed
qed

lemma collect_rings:
  assumes "collect gap p h es = Ok c" shows "rings_ok c"
proof (rule foldR_invariant [OF assms [unfolded collect_def]])
  show "rings_ok \<lparr>co_buildings = [], co_roads = [], co_areas = []\<rparr>" by (simp add: rings_ok_def)
qed (rule add_element_rings)

lemma building_files:
  "mapR (build_building overrides) (zip ids bs) = Ok ps \<Longrightarrow> \<forall>b \<in> set bs. 3 \<le> length (sb_ring b) \<Longrightarrow>
     \<forall>q \<in> set ps. readable (snd (fst q))"
proof (induction ids arbitrary: bs ps)
  case (Cons i ids)
  show ?case
  proof (cases bs)
    case bs: (Cons b bs')
    with Cons.prems(1) obtain q ps' where q: "build_building overrides (i, b) = Ok q"
      and p: "ps = q # ps'" "mapR (build_building overrides) (zip ids bs') = Ok ps'"
      by (auto simp: result_simps)
    from q have w: "write_mesh i (extrusion (sb_ring b) (Fin 0) (sb_height_m b)) = Ok (fst q)"
      by (auto simp: build_building_def result_simps Let_def)
    have ring: "3 \<le> length (sb_ring b)" using Cons.prems(2) bs by simp
    then have "0 \<in> {0..<length (sb_ring b)}" by auto
    then have "snd (extrusion (sb_ring b) (Fin 0) (sb_height_m b)) \<noteq> []" by (auto simp: extrusion_def Let_def wall_def)
    from written_readable [OF w extrusion_inside [OF ring] this] Cons.IH [OF p(2)] Cons.prems(2) p(1) bs show ?thesis by simp
  qed (use Cons.prems in simp)
qed simp

lemma road_files: "build_roads hypot k rs = Ok ps \<Longrightarrow> \<forall>q \<in> set ps. readable (snd (fst q))"
proof (induction rs arbitrary: k ps)
  case (Cons r rs)
  define m where "m = road_strip hypot (sr_line r) (sr_width_m r) (rnd64 (3/100))"
  show ?case
  proof (cases "snd m = []")
    case True
    with Cons show ?thesis by (simp add: m_def Let_def)
  next
    case False
    with Cons.prems obtain mf sm e ps' where w: "write_mesh (''road_'' @ str_nat k) m = Ok mf"
      and p: "ps = (mf, sm, e) # ps'" "build_roads hypot (k + 1) rs = Ok ps'"
      by (auto simp: m_def [symmetric] Let_def result_simps)
    have inside: "faces_inside m" unfolding m_def by (rule road_strip_inside)
    from written_readable [OF w inside False] Cons.IH [OF p(2)] p(1) show ?thesis by simp
  qed
qed simp

lemma roof_needs_three: "triangulate ring \<noteq> [] \<Longrightarrow> 3 \<le> length ring"
proof (rule ccontr)
  assume t: "triangulate ring \<noteq> []" and "\<not> 3 \<le> length ring"
  then have l: "length ring < 3" by simp
  define g where "g = length ring * length ring + 16"
  have "clip_ears ring g [0..<length ring] = ([], [0..<length ring])" using l by (cases g) simp_all
  then show False using t l by (simp add: triangulate_def g_def)
qed

lemma area_files: "build_areas counters as = Ok ps \<Longrightarrow> \<forall>q \<in> set ps. readable (snd (fst q))"
proof (induction "as" arbitrary: counters ps)
  case (Cons a as)
  define k where "k = sa_kind a"
  define c where "c = counters(k := counters k + 1)"
  define m where "m = (map (at_height (area_surface_z_m k)) (sa_ring a), map (\<lambda>(a, b, c). [a, b, c]) (triangulate (sa_ring a)))"
  show ?case
  proof (cases "triangulate (sa_ring a) = []")
    case True
    with Cons.prems have "build_areas c as = Ok ps" by (simp add: Let_def c_def k_def)
    from Cons.IH [OF this] show ?thesis .
  next
    case False
    with Cons.prems obtain mf sm e ps' where w: "write_mesh (suffixed k (counters k + 1)) m = Ok mf"
      and p: "ps = (mf, sm, e) # ps'" "build_areas c as = Ok ps'"
      by (auto simp: Let_def result_simps c_def k_def m_def)
    have len: "3 \<le> length (sa_ring a)" by (rule roof_needs_three [OF False])
    then have "list_all (proper {..<length (sa_ring a)}) (triangulate (sa_ring a))"
      using triangulate_facts [OF len ring_cross_flips] by blast
    then have "faces_inside m" by (auto simp: faces_inside_def m_def list_all_iff proper_def)
    moreover have "snd m \<noteq> []" using False by (simp add: m_def)
    ultimately show ?thesis using written_readable [OF w] Cons.IH [OF p(2)] p(1) by simp
  qed
qed simp

lemma files_readable:
  assumes "build gap hypot p h margin overrides es = Ok s"
  shows "\<forall>file \<in> set (bs_files s). readable (snd file)"
proof -
  obtain c where c: "collect gap p h es = Ok c" using assms by (auto simp: build_def result_simps)
  define buildings where "buildings = stable_sort (\<lambda>a b. larger_first (sb_area_m2 a, sb_osm_id a) (sb_area_m2 b, sb_osm_id b)) (co_buildings c)"
  from assms c obtain ids bs rs "as" areas roads ground where
    b: "mapR (build_building overrides) (zip ids buildings) = Ok bs" and
    r: "build_roads hypot 1 roads = Ok rs" and
    a: "build_areas (\<lambda>_. 0) areas = Ok as" and g: "write_mesh ''ground'' (ground_plane h) = Ok ground" and
    files: "bs_files s = map fst bs @ map fst rs @ map fst as @ [ground]"
    unfolding build_def by (auto simp: Let_def result_simps buildings_def)
  have "\<forall>b \<in> set buildings. 3 \<le> length (sb_ring b)"
    using collect_rings [OF c] by (simp add: buildings_def set_stable_sort rings_ok_def)
  note bf = building_files [OF b this]
  have "readable (snd ground)" by (rule written_readable [OF g]) (simp_all add: ground_plane_def faces_inside_def Let_def)
  with bf road_files [OF r] area_files [OF a] show ?thesis unfolding files by auto
qed

text \<open>C34. Every mesh file of a scene that was built is one the bridge reads: it has vertices, and every face is a triangle of
  vertices that are there.\<close>

theorem built_meshes_readable:
  assumes "build gap hypot p h margin overrides es = Ok s"
  shows "\<forall>file \<in> set (bs_files s). readable (snd file)"
  by (rule files_readable [OF assms])

section \<open>A scene of bare ground\<close>

lemma int_packs:
  assumes "\<bar>n\<bar> < 2 ^ 24" shows "\<exists>k. ieee_code binary32 (Fin (of_int n)) = Ok k"
proof -
  have "quant 23 (- 149) (of_int n * pow2 0) = of_int n * pow2 0" by (rule quant_exact) (use assms in simp_all)
  then have q: "ff_quant binary32 (of_int n) = of_int n" by (simp add: ff_quant_def binary32_def ff_emin_def)
  have "\<bar>of_int n\<bar> < (2 ^ 24 :: rat)" using assms by (metis of_int_abs of_int_less_iff of_int_numeral of_int_power)
  then have "\<not> ff_huge binary32 \<le> \<bar>of_int n\<bar>" by (simp add: ff_huge_def binary32_def)
  then show ?thesis by (simp add: ieee_code_def q)
qed

lemma ground_written: "\<exists>file. write_mesh ''ground'' (ground_plane (Fin 230)) = Ok file"
proof -
  have e: "fadd (Fin 230) ground_skirt_m = Fin 239"
    by (simp add: ground_skirt_m_def road_widths_m_def fmax_def float_eval Let_def)
  obtain i j k where "ieee_code binary32 (Fin 239) = Ok i" "ieee_code binary32 (Fin (- 239)) = Ok j" "ieee_code binary32 (Fin 0) = Ok k"
    using int_packs [of 239] int_packs [of "- 239"] int_packs [of 0] by auto
  then show ?thesis
    by (simp add: write_mesh_def ground_plane_def e Let_def write_ply_def pack_vertex_def pack_one_def pack_face_def pack_uint_def pack_i32_def)
qed

definition bare_projection :: projection where
  "bare_projection = new_projection (\<lambda>_. Fin 1) (Fin 1) (Fin 104)"

lemma bare_scene: "\<exists>s. build (\<lambda>_ _. Fin 0) (\<lambda>_ _. Fin 0) bare_projection (Fin 230) (Fin 12) None [] = Ok s \<and> length (bs_files s) = 1"
  using ground_written by (auto simp: build_def collect_def stable_sort_def assign_building_ids_def Let_def)

theorem meshes_kept_apart_witness:
  "\<exists>s. build (\<lambda>_ _. Fin 0) (\<lambda>_ _. Fin 0) bare_projection (Fin 230) (Fin 12) None [] = Ok s \<and> distinct (map fst (bs_files s))"
  using bare_scene meshes_kept_apart by blast

theorem built_meshes_readable_witness:
  "\<exists>s. build (\<lambda>_ _. Fin 0) (\<lambda>_ _. Fin 0) bare_projection (Fin 230) (Fin 12) None [] = Ok s \<and> length (bs_files s) = 1
     \<and> (\<forall>file \<in> set (bs_files s). readable (snd file))"
  using bare_scene built_meshes_readable by blast

end
