(* ===== verification/SceneRead.thy ===== *)
theory SceneRead
  imports SceneBuild
begin

text \<open>
  What \<^verbatim>\<open>apps/sionna_bridge/run_bridge.py\<close> makes of a scene file: the footprints and the triangles for the dashboard, the
  name of the sidecar they are written to, the scene a name stands for, and the scene with a simple road. A scene file
  is its tree of elements, as \<open>ElementTree\<close> parses it; \<open>mesh_at\<close> gives the bytes of the mesh at a path, a path that
  is not absolute being taken under the directory of the scene.
\<close>

section \<open>Paths\<close>

definition path_name :: "string \<Rightarrow> string" where
  "path_name p = rev (takeWhile (\<lambda>c. c \<noteq> CHR ''/'') (rev p))"

definition path_parent :: "string \<Rightarrow> string" where
  "path_parent p = rev (drop 1 (dropWhile (\<lambda>c. c \<noteq> CHR ''/'') (rev p)))"

text \<open>\<open>path.suffix\<close> and \<open>path.stem\<close>: a dot at either end of the name starts no suffix.\<close>

definition file_suffix :: "string \<Rightarrow> string" where
  "file_suffix p =
     (let name = path_name p; tail = rev (takeWhile (\<lambda>c. c \<noteq> CHR ''.'') (rev name))
      in if tail = [] \<or> length name < length tail + 2 then [] else CHR ''.'' # tail)"

definition path_stem :: "string \<Rightarrow> string" where
  "path_stem p = take (length (path_name p) - length (file_suffix p)) (path_name p)"

definition join_path :: "string \<Rightarrow> string \<Rightarrow> string" where
  "join_path dir p = (if str_startswith ''/'' p then p else dir @ ''/'' @ p)"

definition scene_mesh_path :: "string option \<Rightarrow> string option" where
  "scene_mesh_path status_jsonl =
     map_option (\<lambda>p. join_path (path_parent p) (path_stem p @ ''-scene-mesh.json'')) status_jsonl"

definition scene_aliases :: "(string \<times> string) list" where
  "scene_aliases = [(''sionna_simple_test'', ''simple_street_canyon'')]"

text \<open>The file system and the built-in scenes of Sionna are the parameters \<open>is_file\<close>, \<open>resolved\<close> and \<open>builtin\<close>.\<close>

definition resolve_scene ::
  "(string \<Rightarrow> bool) \<Rightarrow> (string \<Rightarrow> string) \<Rightarrow> (string \<Rightarrow> string option) \<Rightarrow> string \<Rightarrow> string \<Rightarrow> string result" where
  "resolve_scene is_file resolved builtin scene_directory name =
     (let generated = join_path (join_path scene_directory name) ''scene.xml''
      in if file_suffix name = ''.xml'' then
           (if is_file name then Ok (resolved name) else Err (RuntimeError ''scene XML not found''))
         else if is_file generated then Ok (resolved generated)
         else case builtin (case map_of scene_aliases name of Some b \<Rightarrow> b | None \<Rightarrow> name) of
                Some p \<Rightarrow> Ok p
              | None \<Rightarrow> Err (RuntimeError ''unknown scene''))"

section \<open>Elements\<close>

definition attr :: "string \<Rightarrow> xml \<Rightarrow> string option" where
  "attr k e = map_of (xml_attrs e) k"

text \<open>\<open>find("./tag[@name='nm']")\<close> and \<open>findall("tag")\<close>.\<close>

definition is_named :: "string \<Rightarrow> string \<Rightarrow> xml \<Rightarrow> bool" where
  "is_named tag nm e \<longleftrightarrow> xml_tag e = tag \<and> attr ''name'' e = Some nm"

definition find_named :: "string \<Rightarrow> string \<Rightarrow> xml \<Rightarrow> xml option" where
  "find_named tag nm e = find (is_named tag nm) (xml_children e)"

definition find_all :: "string \<Rightarrow> xml \<Rightarrow> xml list" where
  "find_all tag e = filter (\<lambda>c. xml_tag c = tag) (xml_children e)"

definition attr_or :: "string \<Rightarrow> string \<Rightarrow> xml \<Rightarrow> string" where
  "attr_or k d e = (case attr k e of Some v \<Rightarrow> v | None \<Rightarrow> d)"

section \<open>The surfaces of a scene\<close>

definition surface_kinds :: "string list" where
  "surface_kinds = [''building'', ''road'', ''water'', ''grass'', ''park'', ''pitch'', ''wood'', ''scrub'', ''sand'']"

definition surface_kind :: "string \<Rightarrow> string" where
  "surface_kind object_id =
     (case find (\<lambda>kind. object_id = kind \<or> str_startswith (kind @ ''_'') object_id) surface_kinds of
        Some kind \<Rightarrow> kind | None \<Rightarrow> ''ground'')"

definition scene_materials :: "xml \<Rightarrow> (string \<times> string) list" where
  "scene_materials scene =
     fold (\<lambda>m materials.
         case attr ''id'' m of
           None \<Rightarrow> materials
         | Some i \<Rightarrow> if i = [] then materials
                    else AList.update i (case find_named ''string'' ''type'' m of Some t \<Rightarrow> attr_or ''value'' i t | None \<Rightarrow> i) materials)
       (find_all ''bsdf'' scene) []"

text \<open>The mesh of a shape, its id and its material; a shape without a mesh file is passed over.\<close>

definition shape_mesh :: "xml \<Rightarrow> string option" where
  "shape_mesh shape =
     (case find_named ''string'' ''filename'' shape of
        None \<Rightarrow> None | Some f \<Rightarrow> (case attr ''value'' f of Some (c # v) \<Rightarrow> Some (c # v) | _ \<Rightarrow> None))"

definition remove_prefix :: "string \<Rightarrow> string \<Rightarrow> string" where
  "remove_prefix p s = (if str_startswith p s then drop (length p) s else s)"

definition shape_id :: "string \<Rightarrow> xml \<Rightarrow> string" where
  "shape_id mesh_path shape = remove_prefix ''mesh-'' (attr_or ''id'' (path_stem mesh_path) shape)"

definition shape_material :: "(string \<times> string) list \<Rightarrow> xml \<Rightarrow> string" where
  "shape_material materials shape =
     (let material_id = (case find_named ''ref'' ''bsdf'' shape of Some r \<Rightarrow> attr_or ''id'' [] r | None \<Rightarrow> [])
      in get_or material_id material_id materials)"

record footprint =
  go_id :: string
  go_kind :: string
  go_material :: string
  go_footprint_xy_m :: "point list"
  go_z_min_m :: pyfloat
  go_z_max_m :: pyfloat
  go_centerline_xy_m :: "point list option"

definition shape_footprint :: "(string \<Rightarrow> bytes result) \<Rightarrow> string \<Rightarrow> (string \<times> string) list \<Rightarrow> xml \<Rightarrow> footprint list result" where
  "shape_footprint mesh_at dir materials shape =
     (case shape_mesh shape of
        None \<Rightarrow> Ok []
      | Some p \<Rightarrow>
          bindR (mesh_at (join_path dir p)) (\<lambda>bs. bindR (ply_bounds bs) (\<lambda>((x0, y0, z0), (x1, y1, z1)).
            let object_id = shape_id (join_path dir p) shape; center_y = fmul (Fin (1/2)) (fadd y0 y1)
            in Ok [\<lparr>go_id = object_id, go_kind = surface_kind object_id, go_material = shape_material materials shape,
                    go_footprint_xy_m = [(x0, y0), (x1, y0), (x1, y1), (x0, y1)], go_z_min_m = z0, go_z_max_m = z1,
                    go_centerline_xy_m = (if object_id = ''road'' then Some [(x0, center_y), (x1, center_y)] else None)\<rparr>])))"

definition scene_geometry :: "(string \<Rightarrow> bytes result) \<Rightarrow> string \<Rightarrow> xml \<Rightarrow> footprint list result" where
  "scene_geometry mesh_at dir scene =
     bindR (mapR (shape_footprint mesh_at dir (scene_materials scene)) (find_all ''shape'' scene)) (\<lambda>os. Ok (concat os))"

section \<open>The triangles of a scene\<close>

record solid =
  so_id :: string
  so_kind :: string
  so_material :: string
  so_positions :: "pyfloat list"
  so_indices :: "int list"

definition face_fan :: "int list \<Rightarrow> int list" where
  "face_fan face = concat (map (\<lambda>corner. [face ! 0, face ! corner, face ! (corner + 1)]) [1..<length face - 1])"

definition vertex_mm :: "vertex \<Rightarrow> pyfloat list" where
  "vertex_mm v = map (\<lambda>i. round_places 3 (coordinate i v)) [0, 1, 2]"

definition shape_solid :: "(string \<Rightarrow> bytes result) \<Rightarrow> string \<Rightarrow> (string \<times> string) list \<Rightarrow> xml \<Rightarrow> solid list result" where
  "shape_solid mesh_at dir materials shape =
     (case shape_mesh shape of
        None \<Rightarrow> Ok []
      | Some p \<Rightarrow>
          bindR (mesh_at (join_path dir p)) (\<lambda>bs. bindR (read_ply True bs) (\<lambda>(vertices, faces).
            let object_id = shape_id (join_path dir p) shape;
                positions = concat (map vertex_mm vertices); indices = concat (map face_fan faces)
            in if positions = [] \<or> indices = [] then Ok []
               else Ok [\<lparr>so_id = object_id, so_kind = surface_kind object_id, so_material = shape_material materials shape,
                         so_positions = positions, so_indices = indices\<rparr>])))"

text \<open>The manifest beside the scene, when there is one that parses.\<close>

record scene_source =
  ss_name :: pyval
  ss_attribution :: pyval
  ss_license :: pyval
  ss_origin_lat_lon :: pyval

definition manifest_get :: "pydict \<Rightarrow> string \<Rightarrow> pyval" where
  "manifest_get m k = (case map_of m k of Some v \<Rightarrow> v | None \<Rightarrow> VNone)"

definition scene_credit :: "pydict option \<Rightarrow> scene_source option" where
  "scene_credit manifest =
     (case manifest of
        None \<Rightarrow> None
      | Some m \<Rightarrow> if truthy (manifest_get m ''attribution'')
                 then Some \<lparr>ss_name = manifest_get m ''name'', ss_attribution = manifest_get m ''attribution'',
                            ss_license = manifest_get m ''license'', ss_origin_lat_lon = manifest_get m ''origin_lat_lon''\<rparr>
                 else None)"

definition scene_mesh :: "(string \<Rightarrow> bytes result) \<Rightarrow> string \<Rightarrow> pydict option \<Rightarrow> xml \<Rightarrow> (solid list \<times> scene_source option) result" where
  "scene_mesh mesh_at dir manifest scene =
     bindR (mapR (shape_solid mesh_at dir (scene_materials scene)) (find_all ''shape'' scene)) (\<lambda>os. Ok (concat os, scene_credit manifest))"

section \<open>A scene with a simple road\<close>

definition set_attr :: "string \<Rightarrow> string \<Rightarrow> xml \<Rightarrow> xml" where
  "set_attr k v e = Elem (xml_tag e) (AList.update k v (xml_attrs e)) (xml_children e)"

fun update_first :: "('a \<Rightarrow> bool) \<Rightarrow> ('a \<Rightarrow> 'a) \<Rightarrow> 'a list \<Rightarrow> 'a list" where
  "update_first P f [] = []"
| "update_first P f (x # xs) = (if P x then f x # xs else x # update_first P f xs)"

text \<open>The file a shape names, made absolute; \<open>resolved\<close> is \<open>(source_directory / p).resolve()\<close>.\<close>

definition named_file :: "xml \<Rightarrow> string option" where
  "named_file shape = Option.bind (find_named ''string'' ''filename'' shape) (attr ''value'')"

definition absolute_shape :: "(string \<Rightarrow> string) \<Rightarrow> xml \<Rightarrow> xml" where
  "absolute_shape resolved e =
     (if xml_tag e \<noteq> ''shape'' then e
      else case named_file e of
             None \<Rightarrow> e
           | Some p \<Rightarrow> Elem (xml_tag e) (xml_attrs e)
               (update_first (is_named ''string'' ''filename'') (set_attr ''value'' (resolved p)) (xml_children e)))"

definition is_floor :: "xml \<Rightarrow> bool" where
  "is_floor e \<longleftrightarrow> xml_tag e = ''shape'' \<and> named_file e \<noteq> None \<and> attr ''id'' e = Some ''mesh-floor''"

definition remove_last :: "('a \<Rightarrow> bool) \<Rightarrow> 'a list \<Rightarrow> 'a list" where
  "remove_last P xs = rev (takeWhile (\<lambda>x. \<not> P x) (rev xs) @ drop 1 (dropWhile (\<lambda>x. \<not> P x) (rev xs)))"

text \<open>The material of the floor: each floor shape with a reference replaces it.\<close>

definition material_of_floor :: "xml list \<Rightarrow> string" where
  "material_of_floor floors =
     fold (\<lambda>e m. case find_named ''ref'' ''bsdf'' e of Some r \<Rightarrow> attr_or ''id'' m r | None \<Rightarrow> m) floors ''concrete''"

definition road_bsdf :: xml where
  "road_bsdf =
     Elem ''bsdf'' [(''type'', ''itu-radio-material''), (''id'', ''road-surface'')]
       [Elem ''string'' [(''name'', ''type''), (''value'', ''concrete'')] [], Elem ''float'' [(''name'', ''thickness''), (''value'', ''0.1'')] []]"

definition surface_shape :: "(string \<Rightarrow> string) \<Rightarrow> string \<times> string \<Rightarrow> xml" where
  "surface_shape out s =
     (case s of (name, material) \<Rightarrow>
        Elem ''shape'' [(''type'', ''ply''), (''id'', ''mesh-'' @ name)]
          [Elem ''string'' [(''name'', ''filename''), (''value'', out (name @ ''.ply''))] [],
           Elem ''boolean'' [(''name'', ''face_normals''), (''value'', ''true'')] [],
           Elem ''ref'' [(''id'', material), (''name'', ''bsdf'')] []])"

text \<open>The rectangles the floor is cut into: name, south edge, north edge, material.\<close>

definition road_surfaces :: "pyfloat \<Rightarrow> vertex \<times> vertex \<Rightarrow> string \<Rightarrow> (string \<times> pyfloat \<times> pyfloat \<times> string) list result" where
  "road_surfaces road_width_m bounds material =
     (case bounds of ((x0, y0, z0), (x1, y1, z1)) \<Rightarrow>
        (let center_y = fmul (Fin (1/2)) (fadd y0 y1); half = fmul (Fin (1/2)) road_width_m;
             south = fsub center_y half; north = fadd center_y half
         in if fle south y0 \<or> fle y1 north then Err (RuntimeError ''road width must be smaller than the scene floor'')
            else Ok [(''ground-south'', y0, south, material), (''road'', south, north, ''road-surface''), (''ground-north'', north, y1, material)]))"

definition prepare_scene_with_simple_road ::
  "(pyfloat \<Rightarrow> string) \<Rightarrow> (string \<Rightarrow> string) \<Rightarrow> (string \<Rightarrow> bytes result) \<Rightarrow> (string \<Rightarrow> string) \<Rightarrow> pyfloat \<Rightarrow> xml
     \<Rightarrow> (xml \<times> (string \<times> bytes) list) result" where
  "prepare_scene_with_simple_road show_float resolved mesh_at out road_width_m scene =
     (let floors = filter is_floor (xml_children scene)
      in if floors = [] then Err (RuntimeError ''--simple-road requires a scene shape named mesh-floor'')
         else bindR (mesh_at (resolved (the (named_file (last floors))))) (\<lambda>bs. bindR (ply_bounds bs) (\<lambda>bounds.
              bindR (road_surfaces road_width_m bounds (material_of_floor floors)) (\<lambda>surfaces.
                let rest = map (absolute_shape resolved) (remove_last is_floor (xml_children scene));
                    before = takeWhile (\<lambda>e. xml_tag e \<noteq> ''shape'') rest; after = dropWhile (\<lambda>e. xml_tag e \<noteq> ''shape'') rest;
                    x0 = coordinate 0 (fst bounds); x1 = coordinate 0 (snd bounds); z1 = coordinate 2 (snd bounds)
                in Ok (Elem (xml_tag scene) (xml_attrs scene)
                         (before @ [road_bsdf] @ after @ map (\<lambda>(name, y0, y1, material). surface_shape out (name, material)) surfaces),
                       map (\<lambda>(name, y0, y1, material). (name @ ''.ply'', write_rectangle_ply show_float x0 x1 y0 y1 z1)) surfaces)))))"

section \<open>A built scene is shown as it was built\<close>

lemma shapes_of_scene: "find_all ''shape'' (write_scene_xml shapes) = map scene_shape shapes"
  by (auto simp: find_all_def write_scene_xml_def scene_bsdf_def scene_shape_def filter_empty_conv split: prod.splits)

lemma materials_of_scene:
  assumes "map_of (scene_materials (write_scene_xml shapes)) k = Some v" shows "v = k"
proof -
  have bsdf: "attr ''id'' (scene_bsdf m) = Some m" "find_named ''string'' ''type'' (scene_bsdf m) = Some (Elem ''string'' [(''name'', ''type''), (''value'', m)] [])" for m
    by (simp_all add: attr_def scene_bsdf_def find_named_def is_named_def)
  define step where "step = (\<lambda>m materials. case attr ''id'' m of
           None \<Rightarrow> materials
         | Some i \<Rightarrow> if i = [] then materials
                    else AList.update i (case find_named ''string'' ''type'' m of Some t \<Rightarrow> attr_or ''value'' i t | None \<Rightarrow> i) materials)"
  have one: "step (scene_bsdf m) d = (if m = [] then d else AList.update m m d)" for m d
    by (simp add: step_def bsdf) (simp add: attr_or_def attr_def)
  have "\<forall>k v. map_of (fold step (map scene_bsdf ms) d) k = Some v \<longrightarrow> v = k" if "\<forall>k v. map_of d k = Some v \<longrightarrow> v = k" for ms d
    using that
  proof (induction ms arbitrary: d)
    case (Cons m ms)
    have "\<forall>k v. map_of (step (scene_bsdf m) d) k = Some v \<longrightarrow> v = k" using Cons.prems by (simp add: one)
    from Cons.IH [OF this] show ?case by simp
  qed simp
  from this [of "[]"] have "\<forall>k v. map_of (fold step (map scene_bsdf ms) []) k = Some v \<longrightarrow> v = k" for ms by simp
  moreover have "find_all ''bsdf'' (write_scene_xml shapes) = map scene_bsdf (stable_sort str_less (remdups (map (\<lambda>s. snd (snd s)) shapes)))"
    by (auto simp: find_all_def write_scene_xml_def scene_bsdf_def scene_shape_def filter_empty_conv split: prod.splits)
  ultimately show ?thesis using assms by (simp add: scene_materials_def step_def)
qed

definition mesh_file :: "string \<Rightarrow> string" where "mesh_file i = ''meshes/'' @ i @ ''.ply''"

lemma scene_shape_facts:
  "shape_mesh (scene_shape (i, j, m)) = Some (mesh_file i)"
  "shape_id p (scene_shape (i, j, m)) = j"
  "find_named ''ref'' ''bsdf'' (scene_shape (i, j, m)) = Some (Elem ''ref'' [(''id'', m), (''name'', ''bsdf'')] [])"
  by (simp_all add: mesh_file_def shape_mesh_def scene_shape_def find_named_def is_named_def attr_def shape_id_def attr_or_def remove_prefix_def str_startswith_def)

lemma scene_shape_material: "shape_material (scene_materials (write_scene_xml shapes)) (scene_shape (i, j, m)) = m"
  using materials_of_scene [of shapes m]
  by (auto simp: shape_material_def scene_shape_facts attr_or_def attr_def get_or_def split: option.splits)

lemma mapR_exists:
  "\<forall>x \<in> set xs. \<exists>y. f x = Ok y \<and> P x y \<Longrightarrow> \<exists>ys. mapR f xs = Ok ys \<and> list_all2 P xs ys"
proof (induction xs)
  case (Cons x xs)
  then obtain y ys where "f x = Ok y" "P x y" "mapR f xs = Ok ys" "list_all2 P xs ys" by auto
  then show ?case by (intro exI [of _ "y # ys"]) simp
qed simp

lemma concat_singles: "list_all2 (\<lambda>x ys. \<exists>y. ys = [y] \<and> Q x y) xs yss \<Longrightarrow> list_all2 Q xs (concat yss)"
  by (induction rule: list_all2_induct) auto

text \<open>The files of a scene as they stand under its directory.\<close>

definition stored :: "(string \<Rightarrow> bytes result) \<Rightarrow> string \<Rightarrow> built_scene \<Rightarrow> bool" where
  "stored mesh_at dir s \<longleftrightarrow> (\<forall>(i, bs) \<in> set (bs_files s). mesh_at (join_path dir (mesh_file i)) = Ok bs)"

lemma fan_of_triangle: "length f = 3 \<Longrightarrow> face_fan f = f"
  by (auto simp: face_fan_def length_Suc_conv numeral_3_eq_3 numeral_2_eq_2)

lemma shape_shown:
  assumes "mesh_at (join_path dir (mesh_file i)) = Ok bs" and "readable bs"
  shows "\<exists>y. shape_footprint mesh_at dir (scene_materials (write_scene_xml shapes)) (scene_shape (i, j, m)) = Ok [y]
           \<and> go_id y = j \<and> go_material y = m \<and> go_kind y = surface_kind j"
    and "\<exists>y. shape_solid mesh_at dir (scene_materials (write_scene_xml shapes)) (scene_shape (i, j, m)) = Ok [y]
           \<and> so_id y = j \<and> so_material y = m \<and> so_kind y = surface_kind j"
proof -
  from assms(2) obtain vs fs where r: "read_ply True bs = Ok (vs, fs)" "read_ply False bs = Ok (vs, [])" "vs \<noteq> []" "fs \<noteq> []"
    "list_all (\<lambda>f. length f = 3 \<and> list_all (\<lambda>i. 0 \<le> i \<and> i < int (length vs)) f) fs" by (auto simp: readable_def)
  obtain lo hi where b: "ply_bounds bs = Ok (lo, hi)" using r by (auto simp: ply_bounds_def Let_def)
  show "\<exists>y. shape_footprint mesh_at dir (scene_materials (write_scene_xml shapes)) (scene_shape (i, j, m)) = Ok [y]
           \<and> go_id y = j \<and> go_material y = m \<and> go_kind y = surface_kind j"
    by (cases lo; cases hi) (simp add: shape_footprint_def scene_shape_facts assms(1) b Let_def scene_shape_material)
  have "concat (map vertex_mm vs) \<noteq> []" using r(3) by (cases vs) (simp_all add: vertex_mm_def)
  moreover have "concat (map face_fan fs) \<noteq> []" using r(4,5) by (cases fs) (auto simp: fan_of_triangle)
  ultimately show "\<exists>y. shape_solid mesh_at dir (scene_materials (write_scene_xml shapes)) (scene_shape (i, j, m)) = Ok [y]
           \<and> so_id y = j \<and> so_material y = m \<and> so_kind y = surface_kind j"
    by (simp only: shape_solid_def scene_shape_facts option.case assms(1) bindR_simps r(1) prod.case Let_def if_False simp_thms de_Morgan_disj)
      (simp add: scene_shape_material)
qed

lemma area_kinds_listed: "area_kinds = {''water'', ''grass'', ''scrub'', ''wood'', ''sand'', ''park'', ''pitch''}"
  unfolding area_kinds_def area_features_def by (simp add: insert_commute)

lemma kind_found:
  assumes "\<forall>j \<in> set ks. \<not> prefix (j @ ''_'') (k @ ''_'' @ t) \<and> k @ ''_'' @ t \<noteq> j"
  shows "find (\<lambda>kind. k @ ''_'' @ t = kind \<or> str_startswith (kind @ ''_'') (k @ ''_'' @ t)) (ks @ k # ls) = Some k"
  using assms by (induction ks) (auto simp: str_startswith_def)

lemma surface_kind_numbered:
  assumes "k \<in> area_kinds \<union> {''road''}" shows "surface_kind (suffixed k n) = k"
proof -
  have "k \<in> set surface_kinds" using assms unfolding area_kinds_listed surface_kinds_def by auto
  from split_list_first [OF this] obtain ks ls where s: "surface_kinds = ks @ k # ls" "k \<notin> set ks" by blast
  have plain: "CHR ''_'' \<notin> set j" if "j \<in> set surface_kinds" for j
    using that by (auto simp: surface_kinds_def)
  have stem: "id_stem (w @ ''_'' @ t) = w" if "w \<in> set surface_kinds" for w t
    using plain [OF that] unfolding id_stem_def by (induction w) auto
  have "j = k" if p: "prefix (j @ ''_'') (k @ ''_'' @ str_nat n)" and j: "j \<in> set surface_kinds" for j
  proof -
    from p obtain r where "k @ ''_'' @ str_nat n = j @ ''_'' @ r" by (auto simp: prefix_def)
    then have "id_stem (k @ ''_'' @ str_nat n) = id_stem (j @ ''_'' @ r)" by (rule arg_cong)
    then show ?thesis unfolding stem [OF j] stem [OF \<open>k \<in> set surface_kinds\<close>] by (rule sym)
  qed
  moreover have "k @ ''_'' @ str_nat n \<noteq> j" if "j \<in> set surface_kinds" for j
    using plain [OF that] by auto
  moreover have "set ks \<subseteq> set surface_kinds" unfolding s(1) by auto
  ultimately have "\<forall>j \<in> set ks. \<not> prefix (j @ ''_'') (k @ ''_'' @ str_nat n) \<and> k @ ''_'' @ str_nat n \<noteq> j"
    using s(2) by blast
  from kind_found [OF this, of ls] s(1) show ?thesis by (simp add: surface_kind_def suffixed_def)
qed

text \<open>What the loop over the shapes gives, when each shape of the list has a readable file.\<close>

lemma shapes_shown:
  assumes "\<forall>sh \<in> set shapes. \<exists>bs. mesh_at (join_path dir (mesh_file (fst sh))) = Ok bs \<and> readable bs"
  shows "\<exists>fs ss. scene_geometry mesh_at dir (write_scene_xml shapes) = Ok fs
    \<and> scene_mesh mesh_at dir manifest (write_scene_xml shapes) = Ok (ss, scene_credit manifest)
    \<and> list_all2 (\<lambda>sh y. go_id y = fst (snd sh) \<and> go_material y = snd (snd sh) \<and> go_kind y = surface_kind (fst (snd sh))) shapes fs
    \<and> list_all2 (\<lambda>sh y. so_id y = fst (snd sh) \<and> so_material y = snd (snd sh)) shapes ss"
proof -
  define ms where "ms = scene_materials (write_scene_xml shapes)"
  define F :: "shape \<Rightarrow> footprint \<Rightarrow> bool" where "F = (\<lambda>sh y. go_id y = fst (snd sh) \<and> go_material y = snd (snd sh) \<and> go_kind y = surface_kind (fst (snd sh)))"
  define S :: "shape \<Rightarrow> solid \<Rightarrow> bool" where "S = (\<lambda>sh y. so_id y = fst (snd sh) \<and> so_material y = snd (snd sh))"
  have each: "(\<exists>y. shape_footprint mesh_at dir ms (scene_shape sh) = Ok [y] \<and> F sh y) \<and> (\<exists>y. shape_solid mesh_at dir ms (scene_shape sh) = Ok [y] \<and> S sh y)"
    if sh: "sh \<in> set shapes" for sh
  proof -
    obtain i j m where e: "sh = (i, j, m)" by (metis prod.exhaust)
    from assms sh e obtain bs where bs: "mesh_at (join_path dir (mesh_file i)) = Ok bs" "readable bs" by fastforce
    from shape_shown [where mesh_at = mesh_at and dir = dir and i = i, OF bs, of shapes j m] show ?thesis unfolding e ms_def F_def S_def fst_conv snd_conv by blast
  qed
  have "\<forall>sh \<in> set shapes. \<exists>ys. shape_footprint mesh_at dir ms (scene_shape sh) = Ok ys \<and> (\<exists>y. ys = [y] \<and> F sh y)"
    using each by blast
  from mapR_exists [OF this] obtain fss where fss: "mapR (\<lambda>sh. shape_footprint mesh_at dir ms (scene_shape sh)) shapes = Ok fss"
    "list_all2 (\<lambda>sh ys. \<exists>y. ys = [y] \<and> F sh y) shapes fss" by blast
  have "\<forall>sh \<in> set shapes. \<exists>ys. shape_solid mesh_at dir ms (scene_shape sh) = Ok ys \<and> (\<exists>y. ys = [y] \<and> S sh y)"
    using each by blast
  from mapR_exists [OF this] obtain sss where sss: "mapR (\<lambda>sh. shape_solid mesh_at dir ms (scene_shape sh)) shapes = Ok sss"
    "list_all2 (\<lambda>sh ys. \<exists>y. ys = [y] \<and> S sh y) shapes sss" by blast
  have map_shapes: "mapR f (map scene_shape xs) = mapR (\<lambda>sh. f (scene_shape sh)) xs" for f :: "xml \<Rightarrow> 'z result" and xs
    by (induction xs) simp_all
  have "scene_geometry mesh_at dir (write_scene_xml shapes) = Ok (concat fss)"
    using fss(1) unfolding scene_geometry_def shapes_of_scene ms_def map_shapes by simp
  moreover have "scene_mesh mesh_at dir manifest (write_scene_xml shapes) = Ok (concat sss, scene_credit manifest)"
    using sss(1) unfolding scene_mesh_def shapes_of_scene ms_def map_shapes by simp
  ultimately show ?thesis using concat_singles [OF fss(2)] concat_singles [OF sss(2)] unfolding F_def S_def by blast
qed

lemma kind_in_id:
  assumes "i \<in> set (bids @ map (suffixed ''road'') rns @ map (\<lambda>(k, n). suffixed k n) ks @ [''ground''])"
    and "list_all building_id bids" and "\<forall>(k, n) \<in> set ks. k \<in> area_kinds"
  shows "building_id i \<or> surface_kind i = id_stem i"
proof -
  have "id_stem (suffixed k n) = k" if "k \<in> area_kinds \<union> {''road''}" for k n
    using that area_kind_plain(2) id_stem_numbered [of "''road''"] id_stem_numbered [of k] by auto
  moreover have "surface_kind ''ground'' = ''ground'' \<and> id_stem ''ground'' = ''ground''"
    by (simp add: surface_kind_def surface_kinds_def str_startswith_def id_stem_def)
  ultimately show ?thesis using assms surface_kind_numbered by (fastforce simp: list_all_iff)
qed



section \<open>A building the dashboard takes for ground\<close>

text \<open>The ids of the buildings are as the scene builder promises: all different, one per building, and each starting with
  \<open>building\<close>. But a name that merely starts with that word, as \<open>Buildings 5\<close> does, gets an id the bridge takes for
  ground: it looks for \<open>building_\<close>.\<close>

theorem building_ids_recognisable:
  "distinct (assign_building_ids buildings) \<and> length (assign_building_ids buildings) = length buildings
     \<and> list_all (\<lambda>i. building_id i \<and> (surface_kind i = ''building'' \<longleftrightarrow> i = ''building'' \<or> str_startswith ''building_'' i)) (assign_building_ids buildings)
     \<and> assign_building_ids [([(''name'', ''Buildings 5'')], 1)] = [''buildings_5''] \<and> surface_kind ''buildings_5'' = ''ground''"
proof -
  have "surface_kind i = ''building'' \<longleftrightarrow> i = ''building'' \<or> str_startswith ''building_'' i" for i
    by (auto simp: surface_kind_def surface_kinds_def split: if_splits)
  moreover have "slug ''Buildings 5'' = ''buildings_5''" by code_simp
  then have "assign_building_ids [([(''name'', ''Buildings 5'')], 1)] = [''buildings_5'']"
    by (simp add: assign_building_ids_def named_id_def get_or_def str_startswith_def)
  moreover have "surface_kind ''buildings_5'' = ''ground''"
    by (simp add: surface_kind_def surface_kinds_def str_startswith_def)
  ultimately show ?thesis using building_ids_facts [of buildings] by (simp add: list_all_iff)
qed

end
