(* ===== verification/FightRelay.thy ===== *)
theory FightRelay
  imports BenchSender Arena
begin

text \<open>
  What stands between a brain and its robot: the relay of \<^verbatim>\<open>use_cases/robot_fight/modem.py\<close>, and the handicap
  proxy, the workers and the tallies of \<^verbatim>\<open>use_cases/robot_fight/fight.py\<close>. Sockets are the lists of what they
  deliver, every clock reading and random draw is an argument. The proxy's queue is the code's heap,
  kept sorted; it is interpreted as a \<open>min_queue\<close>, and shown to be a delay line: nothing is
  reordered, doubled or early. The workers run every fight once, on ports of their own.
\<close>

section \<open>The modem\<close>

type_synonym endpoint = "string \<times> int"

definition parse_hostport :: "string \<Rightarrow> endpoint result" where
  "parse_hostport s =
     (case host_port s of (host, port) \<Rightarrow>
        if host = [] \<or> port = [] then Err (SystemExit ''expected host:port'')
        else bindR (int_arg port) (\<lambda>p. Ok (host, p)))"

record modem =
  mo_brain :: "endpoint option"
  mo_brain_fixed :: bool
  mo_to_arena :: nat
  mo_to_brain :: nat
  mo_dropped_no_brain :: nat
  mo_arena_errors :: nat
  mo_last_arena_error :: string

text \<open>The part of \<open>__init__\<close> that is not sockets: the path of its own socket, the brain's address.\<close>

definition modem_path :: "string \<Rightarrow> string \<Rightarrow> string option \<Rightarrow> string" where
  "modem_path arena_path robot own = (case own of Some (c # p) \<Rightarrow> c # p | _ \<Rightarrow> arena_path @ ''.'' @ robot @ ''.modem'')"

definition new_modem :: "string option \<Rightarrow> modem result" where
  "new_modem brain =
     bindR (case brain of Some (c # s) \<Rightarrow> bindR (parse_hostport (c # s)) (\<lambda>b. Ok (Some b)) | _ \<Rightarrow> Ok None) (\<lambda>b.
       Ok \<lparr>mo_brain = b, mo_brain_fixed = (b \<noteq> None), mo_to_arena = 0, mo_to_brain = 0, mo_dropped_no_brain = 0,
           mo_arena_errors = 0, mo_last_arena_error = []\<rparr>)"

text \<open>What a readable socket yields. \<open>recvfrom\<close> on the UDP side fails with an error number (\<open>harmless\<close>: refused or
  would block) or gives a datagram and its sender, and then \<open>sendto\<close> to the arena goes well or gives
  its error text. \<open>recv\<close> on the arena side fails or gives a datagram, and then \<open>sendto\<close> to the brain
  goes well or not.\<close>

datatype modem_event =
    UdpFailed bool
  | UdpGot bytes endpoint "string option"
  | UnixFailed
  | UnixGot bytes bool

datatype relayed = ToArena bytes | ToBrain bytes endpoint

definition modem_step :: "modem_event \<Rightarrow> modem \<Rightarrow> (modem \<times> relayed list) result" where
  "modem_step ev m =
     (case ev of
        UdpFailed harmless \<Rightarrow> if harmless then Ok (m, []) else Err OSError
      | UdpGot data sender failure \<Rightarrow>
          (let m = (if \<not> mo_brain_fixed m \<and> mo_brain m \<noteq> Some sender then m\<lparr>mo_brain := Some sender\<rparr> else m)
           in Ok (case failure of
                None \<Rightarrow> (m\<lparr>mo_to_arena := mo_to_arena m + 1\<rparr>, [ToArena data])
              | Some e \<Rightarrow> (m\<lparr>mo_arena_errors := mo_arena_errors m + 1, mo_last_arena_error := e\<rparr>, [])))
      | UnixFailed \<Rightarrow> Ok (m, [])
      | UnixGot data sent \<Rightarrow>
          Ok (case mo_brain m of
                None \<Rightarrow> (m\<lparr>mo_dropped_no_brain := mo_dropped_no_brain m + 1\<rparr>, [])
              | Some b \<Rightarrow> if sent then (m\<lparr>mo_to_brain := mo_to_brain m + 1\<rparr>, [ToBrain data b]) else (m, [])))"

fun modem_run :: "modem_event list \<Rightarrow> modem \<Rightarrow> (modem \<times> relayed list) result" where
  "modem_run [] m = Ok (m, [])"
| "modem_run (ev # evs) m =
     bindR (modem_step ev m) (\<lambda>(m, out). bindR (modem_run evs m) (\<lambda>(m, rest). Ok (m, out @ rest)))"

definition modem_status :: "string \<Rightarrow> string \<Rightarrow> string \<Rightarrow> string \<Rightarrow> pyfloat \<Rightarrow> modem \<Rightarrow> pydict" where
  "modem_status robot bind_addr arena_path own_path uptime_s m =
     [(''event'', VStr ''modem_status''), (''robot'', VStr robot), (''bind'', VStr bind_addr),
      (''arena_socket'', VStr arena_path), (''modem_socket'', VStr own_path),
      (''brain'', case mo_brain m of None \<Rightarrow> VNone | Some (h, p) \<Rightarrow> VList [VStr h, VInt p]),
      (''brain_fixed'', VBool (mo_brain_fixed m)), (''to_arena'', VInt (int (mo_to_arena m))),
      (''to_brain'', VInt (int (mo_to_brain m))), (''dropped_no_brain'', VInt (int (mo_dropped_no_brain m))),
      (''arena_errors'', VInt (int (mo_arena_errors m))), (''last_arena_error'', VStr (mo_last_arena_error m)),
      (''uptime_s'', VFloat uptime_s)]"

text \<open>What the brain sent while the arena took it; the address replies go to after some events.\<close>

fun taken :: "modem_event list \<Rightarrow> bytes list" where
  "taken [] = []"
| "taken (UdpGot data sender None # evs) = data # taken evs"
| "taken (_ # evs) = taken evs"

fun reply_address :: "bool \<Rightarrow> endpoint option \<Rightarrow> modem_event list \<Rightarrow> endpoint option" where
  "reply_address fixed b [] = b"
| "reply_address fixed b (UdpGot data sender e # evs) = reply_address fixed (if fixed then b else Some sender) evs"
| "reply_address fixed b (_ # evs) = reply_address fixed b evs"

text \<open>What the arena sent that had somewhere to go and went, each to the address of its moment.\<close>

fun answered :: "bool \<Rightarrow> endpoint option \<Rightarrow> modem_event list \<Rightarrow> (bytes \<times> endpoint) list" where
  "answered fixed b [] = []"
| "answered fixed b (UdpGot data sender e # evs) = answered fixed (if fixed then b else Some sender) evs"
| "answered fixed b (UnixGot data sent # evs) =
     (case b of Some x \<Rightarrow> if sent then [(data, x)] else [] | None \<Rightarrow> []) @ answered fixed b evs"
| "answered fixed b (_ # evs) = answered fixed b evs"

definition to_arena_of :: "relayed list \<Rightarrow> bytes list" where
  "to_arena_of = List.map_filter (\<lambda>r. case r of ToArena d \<Rightarrow> Some d | ToBrain _ _ \<Rightarrow> None)"

definition to_brain_of :: "relayed list \<Rightarrow> (bytes \<times> endpoint) list" where
  "to_brain_of = List.map_filter (\<lambda>r. case r of ToArena _ \<Rightarrow> None | ToBrain d b \<Rightarrow> Some (d, b))"

lemma relayed_append [simp]:
  "to_arena_of (xs @ ys) = to_arena_of xs @ to_arena_of ys" "to_brain_of (xs @ ys) = to_brain_of xs @ to_brain_of ys"
  by (simp_all add: to_arena_of_def to_brain_of_def List.map_filter_def)

lemma relayed_one [simp]:
  "to_arena_of [ToArena d] = [d]" "to_arena_of [ToBrain d b] = []" "to_arena_of [] = []"
  "to_brain_of [ToArena d] = []" "to_brain_of [ToBrain d b] = [(d, b)]" "to_brain_of [] = []"
  by (simp_all add: to_arena_of_def to_brain_of_def List.map_filter_def)

lemma modem_run_relays:
  assumes "modem_run evs m = Ok (m', out)"
  shows "to_arena_of out = taken evs \<and> to_brain_of out = answered (mo_brain_fixed m) (mo_brain m) evs
    \<and> mo_brain m' = reply_address (mo_brain_fixed m) (mo_brain m) evs
    \<and> mo_to_arena m' = mo_to_arena m + length (taken evs)
    \<and> mo_to_brain m' = mo_to_brain m + length (answered (mo_brain_fixed m) (mo_brain m) evs)"
  using assms
proof (induction evs arbitrary: m out)
  case Nil
  then show ?case by simp
next
  case (Cons ev evs)
  from Cons.prems obtain m1 o1 o2 where s: "modem_step ev m = Ok (m1, o1)" "modem_run evs m1 = Ok (m', o2)" "out = o1 @ o2"
    by (auto simp: result_simps)
  note IH = Cons.IH [OF s(2)]
  show ?case
  proof (cases ev)
    case (UdpFailed h)
    with s IH show ?thesis by (auto simp: modem_step_def split: if_splits)
  next
    case (UdpGot data sender failure)
    with s IH show ?thesis by (cases failure) (auto simp: modem_step_def Let_def split: if_splits)
  next
    case UnixFailed
    with s IH show ?thesis by (auto simp: modem_step_def)
  next
    case (UnixGot data sent)
    with s IH show ?thesis by (cases "mo_brain m") (auto simp: modem_step_def split: if_splits)
  qed
qed

text \<open>The relay adds nothing and reorders nothing: the arena gets what the brain sent, as it was, in order, less
  what the arena's socket refused; every state goes to the address of the last datagram before it, or
  to the fixed one; and both counters are exact.\<close>

theorem modem_relays:
  assumes "new_modem brain = Ok m" and "modem_run evs m = Ok (m', out)"
  shows "to_arena_of out = taken evs \<and> to_brain_of out = answered (mo_brain_fixed m) (mo_brain m) evs
    \<and> mo_to_arena m' = length (taken evs) \<and> mo_to_brain m' = length (to_brain_of out)"
proof -
  have "mo_to_arena m = 0 \<and> mo_to_brain m = 0" using assms(1) by (auto simp: new_modem_def result_simps)
  with modem_run_relays [OF assms(2)] show ?thesis by simp
qed

section \<open>The handicap\<close>

record handicap =
  hc_robot :: int
  hc_delay_ms :: pyfloat
  hc_loss :: pyfloat
  hc_outage_ms :: pyfloat
  hc_outage_period_ms :: pyfloat
  hc_outage_once_ms :: pyfloat
  hc_outage_once_at_ms :: pyfloat
  hc_seed :: int

definition no_handicap :: handicap where
  "no_handicap = \<lparr>hc_robot = 1, hc_delay_ms = Fin 0, hc_loss = Fin 0, hc_outage_ms = Fin 0, hc_outage_period_ms = Fin 0,
     hc_outage_once_ms = Fin 0, hc_outage_once_at_ms = Fin 0, hc_seed = 0\<rparr>"

definition float_arg :: "string \<Rightarrow> pyfloat result" where
  "float_arg s = (case parse_float s of Some x \<Rightarrow> Ok x | None \<Rightarrow> Err (ValueError ''could not convert string to float''))"

definition handicap_item :: "string \<Rightarrow> handicap \<Rightarrow> handicap result" where
  "handicap_item item h =
     (case str_partition CHR ''='' item of (key, _, v) \<Rightarrow>
        let key = str_strip key in
        if key = ''robot'' then (if str_strip v = ''both'' then Ok (h\<lparr>hc_robot := - 1\<rparr>)
                                 else bindR (int_arg v) (\<lambda>n. Ok (h\<lparr>hc_robot := n\<rparr>)))
        else if key = ''delay_ms'' then bindR (float_arg v) (\<lambda>x. Ok (h\<lparr>hc_delay_ms := x\<rparr>))
        else if key = ''loss'' then bindR (float_arg v) (\<lambda>x. Ok (h\<lparr>hc_loss := x\<rparr>))
        else if key = ''outage_ms'' then bindR (float_arg v) (\<lambda>x. Ok (h\<lparr>hc_outage_ms := x\<rparr>))
        else if key = ''outage_period_ms'' then bindR (float_arg v) (\<lambda>x. Ok (h\<lparr>hc_outage_period_ms := x\<rparr>))
        else if key = ''outage_once_ms'' then bindR (float_arg v) (\<lambda>x. Ok (h\<lparr>hc_outage_once_ms := x\<rparr>))
        else if key = ''outage_once_at_ms'' then bindR (float_arg v) (\<lambda>x. Ok (h\<lparr>hc_outage_once_at_ms := x\<rparr>))
        else Err (SystemExit ''unknown handicap key''))"

definition parse_handicap :: "string option \<Rightarrow> handicap option result" where
  "parse_handicap arg =
     (case arg of
        Some (c # s) \<Rightarrow> bindR (foldR handicap_item (str_split CHR '','' (c # s)) no_handicap) (\<lambda>h. Ok (Some h))
      | _ \<Rightarrow> Ok None)"

section \<open>The proxy\<close>

record parcel =
  pa_to_arena :: bool
  pa_addr :: endpoint
  pa_data :: bytes

type_synonym held = "(pyfloat \<times> nat) \<times> parcel"

text \<open>The heap of the proxy: a time, a counter that decides ties, and what is sent.\<close>

fun push_held :: "held \<Rightarrow> held list \<Rightarrow> held list" where
  "push_held x [] = [x]"
| "push_held x (y # ys) = (if item_le (fst x) (fst y) then x # y # ys else y # push_held x ys)"

definition pop_held :: "held list \<Rightarrow> (held \<times> held list) option" where
  "pop_held h = (case h of [] \<Rightarrow> None | x # xs \<Rightarrow> Some (x, xs))"

record proxy =
  pz_arena_addr :: endpoint
  pz_brain_addr :: "endpoint option"
  pz_queue :: "held list"
  pz_counter :: nat
  pz_forwarded :: nat
  pz_dropped :: nat
  pz_first_forward :: "pyfloat option"

definition new_proxy :: "endpoint \<Rightarrow> proxy" where
  "new_proxy arena_addr = \<lparr>pz_arena_addr = arena_addr, pz_brain_addr = None, pz_queue = [], pz_counter = 0, pz_forwarded = 0,
     pz_dropped = 0, pz_first_forward = None\<rparr>"

text \<open>\<open>in_outage\<close>: the one blackout after the first forwarded datagram, or the periodic one.\<close>

definition in_outage :: "handicap \<Rightarrow> pyfloat option \<Rightarrow> pyfloat \<Rightarrow> bool" where
  "in_outage h first now_s =
     (let now_ms = fmul now_s (Fin 1000)
      in if (case first of
               None \<Rightarrow> False
             | Some f \<Rightarrow>
                 let since = fsub now_ms (fmul f (Fin 1000))
                 in flt (Fin 0) (hc_outage_once_ms h) \<and> flt (Fin 0) (hc_outage_once_at_ms h)
                    \<and> fle (hc_outage_once_at_ms h) since
                    \<and> flt since (fadd (hc_outage_once_at_ms h) (hc_outage_once_ms h)))
         then True
         else if fle (hc_outage_ms h) (Fin 0) \<or> fle (hc_outage_period_ms h) (Fin 0) then False
         else case fmodR now_ms (hc_outage_period_ms h) of Inl _ \<Rightarrow> False | Inr ph \<Rightarrow> flt ph (hc_outage_ms h))"

text \<open>One datagram of a readable socket, with the draw and the two clock readings \<open>schedule\<close> may take.\<close>

record arrival =
  av_from_brain :: bool
  av_got :: "(bytes \<times> endpoint) option"
  av_draw :: pyfloat
  av_outage_now :: pyfloat
  av_push_now :: pyfloat

datatype proxy_event = Queued held | Dropped parcel | Released held pyfloat bool

definition proxy_wait :: "handicap \<Rightarrow> pyfloat" where
  "proxy_wait h = fquot (hc_delay_ms h) (Fin 1000)"

definition schedule :: "handicap \<Rightarrow> arrival \<Rightarrow> parcel \<Rightarrow> proxy \<Rightarrow> proxy \<times> proxy_event list" where
  "schedule h a x p =
     (if flt (Fin 0) (hc_loss h) \<and> flt (av_draw a) (hc_loss h) \<or> in_outage h (pz_first_forward p) (av_outage_now a)
      then (p\<lparr>pz_dropped := pz_dropped p + 1\<rparr>, [Dropped x])
      else let item = ((fadd (av_push_now a) (proxy_wait h), pz_counter p + 1), x)
           in (p\<lparr>pz_counter := pz_counter p + 1, pz_queue := push_held item (pz_queue p)\<rparr>, [Queued item]))"

definition take_arrival :: "handicap \<Rightarrow> arrival \<Rightarrow> proxy \<Rightarrow> proxy \<times> proxy_event list" where
  "take_arrival h a p =
     (case av_got a of
        None \<Rightarrow> (p, [])
      | Some (data, sender) \<Rightarrow>
          if av_from_brain a
          then schedule h a \<lparr>pa_to_arena = True, pa_addr = pz_arena_addr p, pa_data = data\<rparr> (p\<lparr>pz_brain_addr := Some sender\<rparr>)
          else case pz_brain_addr p of
                 None \<Rightarrow> (p, [])
               | Some b \<Rightarrow> schedule h a \<lparr>pa_to_arena = False, pa_addr = b, pa_data = data\<rparr> p)"

fun take_arrivals :: "handicap \<Rightarrow> arrival list \<Rightarrow> proxy \<Rightarrow> proxy \<times> proxy_event list" where
  "take_arrivals h [] p = (p, [])"
| "take_arrivals h (a # as) p =
     (case take_arrival h a p of (p, e) \<Rightarrow> case take_arrivals h as p of (p, es) \<Rightarrow> (p, e @ es))"

text \<open>The release loop: \<open>send\<close> tells for a counter whether \<open>sendto\<close> goes well, and the clock after it.\<close>

fun release :: "(nat \<Rightarrow> pyfloat option) \<Rightarrow> pyfloat \<Rightarrow> held list \<Rightarrow> proxy \<Rightarrow> proxy \<times> proxy_event list" where
  "release send now_s [] p = (p\<lparr>pz_queue := []\<rparr>, [])"
| "release send now_s (x # q) p =
     (if fle (fst (fst x)) now_s
      then let p = (case send (snd (fst x)) of
                      None \<Rightarrow> p
                    | Some t \<Rightarrow> p\<lparr>pz_forwarded := pz_forwarded p + 1,
                        pz_first_forward := (case pz_first_forward p of None \<Rightarrow> Some t | f \<Rightarrow> f)\<rparr>)
           in case release send now_s q p of (p, es) \<Rightarrow> (p, Released x now_s (send (snd (fst x)) \<noteq> None) # es)
      else (p\<lparr>pz_queue := x # q\<rparr>, []))"

record proxy_turn =
  pt_arrivals :: "arrival list"
  pt_now :: pyfloat
  pt_send :: "nat \<Rightarrow> pyfloat option"

fun proxy_run :: "handicap \<Rightarrow> proxy_turn list \<Rightarrow> proxy \<Rightarrow> proxy \<times> proxy_event list" where
  "proxy_run h [] p = (p, [])"
| "proxy_run h (t # ts) p =
     (case take_arrivals h (pt_arrivals t) p of (p, arrived) \<Rightarrow>
      case release (pt_send t) (pt_now t) (pz_queue p) p of (p, released) \<Rightarrow>
      case proxy_run h ts p of (p, later) \<Rightarrow> (p, arrived @ released @ later))"

section \<open>The queue is a heap, and a delay line\<close>

definition held_ok :: "held list \<Rightarrow> bool" where
  "held_ok h \<longleftrightarrow> sorted_wrt (\<lambda>x y. item_le (fst x) (fst y)) h \<and> list_all (\<lambda>x. fst (fst x) \<noteq> NaN) h"

lemma mset_push_held: "mset (push_held x h) = add_mset x (mset h)"
  by (induction h) auto

lemma set_push_held: "set (push_held x h) = insert x (set h)"
  using mset_push_held [of x h] by (metis set_mset_add_mset_insert set_mset_mset)

lemma held_ok_push:
  assumes "held_ok h" and "fst (fst x) \<noteq> NaN" shows "held_ok (push_held x h)"
  using assms(1)
proof (induction h)
  case Nil
  with assms(2) show ?case by (simp add: held_ok_def)
next
  case (Cons y ys)
  then have IH: "held_ok (push_held x ys)" by (simp add: held_ok_def)
  show ?case
  proof (cases "item_le (fst x) (fst y)")
    case True
    with Cons.prems assms(2) show ?thesis by (auto simp: held_ok_def intro: item_le_trans)
  next
    case False
    then have "item_le (fst y) (fst x)" using item_le_total [of "fst x" "fst y"] Cons.prems assms(2) by (simp add: held_ok_def)
    with IH False Cons.prems show ?thesis by (auto simp: held_ok_def set_push_held list_all_iff)
  qed
qed

interpretation pq: min_queue push_held pop_held mset held_ok "\<lambda>x. fst (fst x) \<noteq> NaN" "\<lambda>x y. item_le (fst x) (fst y)"
proof
  show "held_ok q \<Longrightarrow> pop_held q = Some (x, q') \<Longrightarrow> mset q = add_mset x (mset q') \<and> held_ok q' \<and> (\<forall>y\<in>#mset q'. item_le (fst x) (fst y))"
    for q x q' by (cases q) (auto simp: pop_held_def held_ok_def)
qed (auto simp: mset_push_held held_ok_push pop_held_def item_le_def split: list.splits)

definition queued_of :: "proxy_event list \<Rightarrow> held list" where
  "queued_of = List.map_filter (\<lambda>e. case e of Queued x \<Rightarrow> Some x | _ \<Rightarrow> None)"

definition released_of :: "proxy_event list \<Rightarrow> held list" where
  "released_of = List.map_filter (\<lambda>e. case e of Released x _ _ \<Rightarrow> Some x | _ \<Rightarrow> None)"

definition dropped_of :: "proxy_event list \<Rightarrow> parcel list" where
  "dropped_of = List.map_filter (\<lambda>e. case e of Dropped x \<Rightarrow> Some x | _ \<Rightarrow> None)"

definition forwarded_of :: "proxy_event list \<Rightarrow> held list" where
  "forwarded_of = List.map_filter (\<lambda>e. case e of Released x _ True \<Rightarrow> Some x | _ \<Rightarrow> None)"

text \<open>No datagram is sent before its time.\<close>

definition on_time :: "proxy_event \<Rightarrow> bool" where
  "on_time e = (case e of Released x now_s _ \<Rightarrow> fle (fst (fst x)) now_s | _ \<Rightarrow> True)"

lemmas event_lists = queued_of_def released_of_def dropped_of_def forwarded_of_def List.map_filter_def

lemma event_lists_append [simp]:
  "queued_of (xs @ ys) = queued_of xs @ queued_of ys" "released_of (xs @ ys) = released_of xs @ released_of ys"
  "dropped_of (xs @ ys) = dropped_of xs @ dropped_of ys" "forwarded_of (xs @ ys) = forwarded_of xs @ forwarded_of ys"
  by (simp_all add: event_lists)

lemma event_lists_nil [simp]: "queued_of [] = []" "released_of [] = []" "dropped_of [] = []" "forwarded_of [] = []"
  by (simp_all add: event_lists)

lemma event_lists_cons [simp]:
  "queued_of (Queued x # es) = x # queued_of es" "queued_of (Dropped y # es) = queued_of es" "queued_of (Released x t b # es) = queued_of es"
  "released_of (Queued x # es) = released_of es" "released_of (Dropped y # es) = released_of es" "released_of (Released x t b # es) = x # released_of es"
  "dropped_of (Queued x # es) = dropped_of es" "dropped_of (Dropped y # es) = y # dropped_of es" "dropped_of (Released x t b # es) = dropped_of es"
  "forwarded_of (Queued x # es) = forwarded_of es" "forwarded_of (Dropped y # es) = forwarded_of es"
  "forwarded_of (Released x t b # es) = (if b then x # forwarded_of es else forwarded_of es)"
  by (cases x; cases "fst x"; simp add: event_lists split: bool.split)+

lemma fle_not_flt: "fle a b \<Longrightarrow> \<not> flt b a"
  by (cases a; cases b) auto

lemma push_behind:
  assumes "list_all (\<lambda>y. fle (fst (fst y)) (fst (fst x)) \<and> snd (fst y) < snd (fst x)) h"
  shows "push_held x h = h @ [x]"
  using assms by (induction h) (auto simp: item_le_def dest: fle_not_flt)

text \<open>Everything held is due before whatever is pushed at one of the coming readings \<open>ns\<close> of the clock.\<close>

definition before_all :: "pyfloat \<Rightarrow> pyfloat list \<Rightarrow> proxy \<Rightarrow> bool" where
  "before_all w ns p \<longleftrightarrow>
     list_all (\<lambda>x. snd (fst x) \<le> pz_counter p \<and> list_all (\<lambda>n. fle (fst (fst x)) (fadd n w)) ns) (pz_queue p)"

definition turn_kept :: "proxy \<Rightarrow> proxy \<Rightarrow> proxy_event list \<Rightarrow> bool" where
  "turn_kept p p' es \<longleftrightarrow>
     released_of es @ pz_queue p' = pz_queue p @ queued_of es \<and> pz_counter p' = pz_counter p + length (queued_of es)
     \<and> pz_dropped p' = pz_dropped p + length (dropped_of es) \<and> pz_forwarded p' = pz_forwarded p + length (forwarded_of es)
     \<and> list_all on_time es"

lemma turn_kept_refl: "turn_kept p p []" by (simp add: turn_kept_def)

lemma turn_kept_trans:
  assumes "turn_kept p p1 es" and "turn_kept p1 p2 fs" shows "turn_kept p p2 (es @ fs)"
proof -
  have "released_of es @ released_of fs @ pz_queue p2 = released_of es @ pz_queue p1 @ queued_of fs"
    using assms(2) by (simp add: turn_kept_def)
  also have "\<dots> = pz_queue p @ queued_of es @ queued_of fs"
    using assms(1) by (simp add: turn_kept_def flip: append_assoc)
  finally show ?thesis using assms by (simp add: turn_kept_def)
qed

lemma schedule_kept:
  assumes "schedule h a x p = (p', es)" and "proxy_wait h = Fin c"
    and "before_all (Fin c) (av_push_now a # ns) p" and "sorted_wrt fle (av_push_now a # ns)"
  shows "before_all (Fin c) ns p' \<and> turn_kept p p' es"
proof (cases "flt (Fin 0) (hc_loss h) \<and> flt (av_draw a) (hc_loss h) \<or> in_outage h (pz_first_forward p) (av_outage_now a)")
  case True
  then have "p' = p\<lparr>pz_dropped := pz_dropped p + 1\<rparr>" "es = [Dropped x]" using assms(1) by (simp_all only: schedule_def if_True prod.inject)
  then show ?thesis using assms(3) by (auto simp: before_all_def turn_kept_def on_time_def list_all_iff)
next
  case False
  define item where "item = ((fadd (av_push_now a) (Fin c), pz_counter p + 1), x)"
  have r: "p' = p\<lparr>pz_counter := pz_counter p + 1, pz_queue := push_held item (pz_queue p)\<rparr>" "es = [Queued item]"
    using assms(1,2) False by (simp_all only: schedule_def if_False Let_def prod.inject item_def)
  have q: "push_held item (pz_queue p) = pz_queue p @ [item]"
    by (rule push_behind) (use assms(3) in \<open>auto simp: before_all_def list_all_iff item_def\<close>)
  have "fle (fadd (av_push_now a) (Fin c)) (fadd n (Fin c))" if "n \<in> set ns" for n
    using assms(4) that by (intro fadd_mono) simp
  moreover have "fst (fst item) = fadd (av_push_now a) (Fin c)" "snd (fst item) = pz_counter p + 1" by (simp_all add: item_def)
  ultimately show ?thesis using assms(3) by (auto simp: r q before_all_def turn_kept_def on_time_def list_all_iff)
qed

lemma take_arrival_kept:
  assumes "take_arrival h a p = (p', es)" and "proxy_wait h = Fin c"
    and "before_all (Fin c) (av_push_now a # ns) p" and "sorted_wrt fle (av_push_now a # ns)"
  shows "before_all (Fin c) ns p' \<and> turn_kept p p' es"
proof -
  have skip: "before_all (Fin c) ns p" using assms(3) by (auto simp: before_all_def list_all_iff)
  have b: "before_all (Fin c) (av_push_now a # ns) (p\<lparr>pz_brain_addr := Some s\<rparr>)" for s using assms(3) by (simp add: before_all_def)
  have t: "turn_kept (p\<lparr>pz_brain_addr := Some s\<rparr>) p' es \<Longrightarrow> turn_kept p p' es" for s by (simp add: turn_kept_def)
  show ?thesis
  proof (cases "av_got a")
    case None
    then show ?thesis using assms(1) skip by (auto simp: take_arrival_def turn_kept_refl)
  next
    case (Some ds)
    obtain data sender where ds: "ds = (data, sender)" by (cases ds)
    show ?thesis
    proof (cases "av_from_brain a")
      case True
      with assms(1) Some ds schedule_kept [OF _ assms(2) b assms(4)] t show ?thesis by (fastforce simp: take_arrival_def)
    next
      case False
      with assms(1) Some ds schedule_kept [OF _ assms(2-4)] skip show ?thesis
        by (cases "pz_brain_addr p") (auto simp: take_arrival_def turn_kept_refl)
    qed
  qed
qed

lemma take_arrivals_kept:
  assumes "take_arrivals h as p = (p', es)" and "proxy_wait h = Fin c"
    and "before_all (Fin c) (map av_push_now as @ ns) p" and "sorted_wrt fle (map av_push_now as @ ns)"
  shows "before_all (Fin c) ns p' \<and> turn_kept p p' es"
  using assms(1,3,4)
proof (induction as arbitrary: p es)
  case Nil
  then show ?case by (simp add: turn_kept_refl)
next
  case (Cons a as)
  obtain p1 e where a: "take_arrival h a p = (p1, e)" by (cases "take_arrival h a p")
  obtain es1 where r: "take_arrivals h as p1 = (p', es1)" "es = e @ es1"
    using Cons.prems(1) a by (auto split: prod.splits)
  have k: "before_all (Fin c) (map av_push_now as @ ns) p1 \<and> turn_kept p p1 e"
    using take_arrival_kept [OF a assms(2), of "map av_push_now as @ ns"] Cons.prems(2,3) by simp
  have "before_all (Fin c) ns p' \<and> turn_kept p1 p' es1"
    using Cons.IH [OF r(1)] k Cons.prems(3) by simp
  with k turn_kept_trans r(2) show ?case by blast
qed

lemma release_kept:
  assumes "release send now_s q p = (p', es)"
  shows "released_of es @ pz_queue p' = q \<and> queued_of es = [] \<and> dropped_of es = [] \<and> pz_counter p' = pz_counter p
    \<and> pz_dropped p' = pz_dropped p \<and> pz_forwarded p' = pz_forwarded p + length (forwarded_of es) \<and> list_all on_time es"
  using assms
proof (induction q arbitrary: p es)
  case Nil
  then show ?case by auto
next
  case (Cons x q)
  show ?case
  proof (cases "fle (fst (fst x)) now_s")
    case False
    then show ?thesis using Cons.prems by auto
  next
    case True
    define p1 where "p1 = (case send (snd (fst x)) of None \<Rightarrow> p
      | Some t \<Rightarrow> p\<lparr>pz_forwarded := pz_forwarded p + 1, pz_first_forward := (case pz_first_forward p of None \<Rightarrow> Some t | f \<Rightarrow> f)\<rparr>)"
    obtain es1 where r: "release send now_s q p1 = (p', es1)" "es = Released x now_s (send (snd (fst x)) \<noteq> None) # es1"
      using Cons.prems True by (auto simp: Let_def p1_def split: prod.splits)
    have p1: "pz_counter p1 = pz_counter p" "pz_dropped p1 = pz_dropped p"
      "pz_forwarded p1 = pz_forwarded p + of_bool (send (snd (fst x)) \<noteq> None)"
      by (auto simp: p1_def split: option.split)
    show ?thesis using Cons.IH [OF r(1)] True p1 by (auto simp: r(2) on_time_def)
  qed
qed

definition push_clock :: "proxy_turn list \<Rightarrow> pyfloat list" where
  "push_clock turns = concat (map (\<lambda>t. map av_push_now (pt_arrivals t)) turns)"

lemma proxy_run_kept:
  assumes "proxy_run h turns p = (p', es)" and "proxy_wait h = Fin c"
    and "before_all (Fin c) (push_clock turns) p" and "sorted_wrt fle (push_clock turns)"
  shows "turn_kept p p' es"
  using assms(1,3,4)
proof (induction turns arbitrary: p es)
  case Nil
  then show ?case by (simp add: turn_kept_refl)
next
  case (Cons t ts)
  obtain p1 e1 where a: "take_arrivals h (pt_arrivals t) p = (p1, e1)" by (cases "take_arrivals h (pt_arrivals t) p")
  obtain p2 e2 where r: "release (pt_send t) (pt_now t) (pz_queue p1) p1 = (p2, e2)"
    by (cases "release (pt_send t) (pt_now t) (pz_queue p1) p1")
  obtain es2 where l: "proxy_run h ts p2 = (p', es2)" "es = e1 @ e2 @ es2"
    using Cons.prems(1) a r by (auto split: prod.splits)
  have k1: "before_all (Fin c) (push_clock ts) p1 \<and> turn_kept p p1 e1"
    using take_arrivals_kept [OF a assms(2), of "push_clock ts"] Cons.prems(2,3) by (simp add: push_clock_def)
  note f = release_kept [OF r]
  have k2: "turn_kept p1 p2 e2" using f by (simp add: turn_kept_def)
  have "set (pz_queue p2) \<subseteq> set (pz_queue p1)" using f by (metis Un_upper2 set_append)
  then have b2: "before_all (Fin c) (push_clock ts) p2" using k1 f by (auto simp: before_all_def list_all_iff)
  have "sorted_wrt fle (push_clock ts)" using Cons.prems(3) by (simp add: push_clock_def sorted_wrt_append)
  from Cons.IH [OF l(1) b2 this] k1 k2 turn_kept_trans l(2) show ?case by metis
qed

text \<open>C38. The handicap proxy is a delay line: while its clock does not run backwards, what it has released and
  what it still holds are the datagrams it queued, in their order, each once; none is released before
  its time; and its three counters count the queued, the dropped and the forwarded datagrams.\<close>

theorem proxy_is_delay_line:
  assumes "proxy_run h turns (new_proxy arena_addr) = (p, es)" and "is_finite (proxy_wait h)"
    and "sorted_wrt fle (push_clock turns)"
  shows "released_of es @ pz_queue p = queued_of es \<and> pz_counter p = length (queued_of es)
    \<and> pz_dropped p = length (dropped_of es) \<and> pz_forwarded p = length (forwarded_of es) \<and> list_all on_time es"
proof -
  obtain c where "proxy_wait h = Fin c" using assms(2) by (auto simp: is_finite_conv)
  moreover have "before_all (Fin c) (push_clock turns) (new_proxy arena_addr)" for c by (simp add: before_all_def new_proxy_def)
  ultimately have "turn_kept (new_proxy arena_addr) p es" using proxy_run_kept [OF assms(1)] assms(3) by blast
  then show ?thesis by (simp add: turn_kept_def new_proxy_def)
qed

section \<open>Setting a fight up\<close>

definition handicapped :: "handicap \<Rightarrow> bool" where
  "handicapped h \<longleftrightarrow> flt (Fin 0) (hc_delay_ms h) \<or> flt (Fin 0) (hc_loss h) \<or> flt (Fin 0) (hc_outage_ms h)
     \<or> flt (Fin 0) (hc_outage_once_ms h)"

record proxy_setup =
  ps_listen :: int
  ps_arena_port :: int
  ps_handicap :: handicap

text \<open>\<open>xs[i]\<close> of a pair, with Python's negative indices.\<close>

definition pair_index :: "int \<Rightarrow> nat result" where
  "pair_index i = (if i = 0 \<or> i = - 2 then Ok 0 else if i = 1 \<or> i = - 1 then Ok 1 else Err IndexError)"

text \<open>The proxies of a fight and the ports the two brains are pointed at.\<close>

definition add_proxy :: "int \<Rightarrow> int \<Rightarrow> handicap \<Rightarrow> nat \<times> int \<Rightarrow> proxy_setup list \<times> int list \<Rightarrow> (proxy_setup list \<times> int list) result" where
  "add_proxy port_base seed h kr acc =
     bindR (pair_index (snd kr)) (\<lambda>r.
       let listen = port_base + 3 + int (fst kr)
       in Ok (fst acc @ [\<lparr>ps_listen = listen, ps_arena_port = port_base + int r,
                          ps_handicap = h\<lparr>hc_robot := snd kr, hc_seed := seed + snd kr\<rparr>\<rparr>],
              (snd acc)[r := listen]))"

definition fight_proxies :: "int \<Rightarrow> int \<Rightarrow> handicap option \<Rightarrow> (proxy_setup list \<times> int list) result" where
  "fight_proxies port_base seed h =
     (case h of
        None \<Rightarrow> Ok ([], [port_base, port_base + 1])
      | Some h \<Rightarrow>
          if handicapped h
          then foldR (add_proxy port_base seed h) (enumerate 0 (if hc_robot h < 0 then [0, 1] else [hc_robot h]))
                 ([], [port_base, port_base + 1])
          else Ok ([], [port_base, port_base + 1]))"

definition STRATEGIES :: "string list" where
  "STRATEGIES = [''ram'', ''reactive'', ''pusher'', ''stand'', ''cruise'']"

text \<open>The policy of each brain and the parameters both get.\<close>

definition comp_robot :: "int \<Rightarrow> string list \<Rightarrow> string list result" where
  "comp_robot robot policies =
     bindR (pair_index robot) (\<lambda>r.
       if policies ! r \<noteq> ''balance'' then Err (SystemExit ''--comp needs --bot balance with a strategy policy'')
       else Ok (policies[r := ''balance_comp'']))"

definition brain_setup :: "string \<Rightarrow> string \<Rightarrow> pydict \<Rightarrow> int list \<Rightarrow> (string list \<times> pydict) result" where
  "brain_setup kind policy params compensated =
     (let strategic = (kind = ''balance'' \<and> policy \<in> set STRATEGIES);
          chosen = (if strategic then ''balance'' else policy);
          params = (if strategic \<and> map_of params ''strategy'' = None then params @ [(''strategy'', VStr policy)] else params)
      in bindR (foldR comp_robot compensated [chosen, chosen]) (\<lambda>policies. Ok (policies, params)))"

section \<open>The workers\<close>

datatype slot = Idle | Running nat | Returned | Raised nat

record workers =
  wk_pending :: "nat list"
  wk_slots :: "slot list"
  wk_results :: "(int \<times> int) option list"

text \<open>What a fight ran with: its seed, and the first port of its block.\<close>

definition fight_seed :: "int \<Rightarrow> nat \<Rightarrow> int" where "fight_seed seed i = seed + int i"

definition slot_port :: "int \<Rightarrow> nat \<Rightarrow> int" where "slot_port port_base k = port_base + 10 * int k"

definition start_workers :: "nat \<Rightarrow> int \<Rightarrow> workers" where
  "start_workers fights threads =
     \<lparr>wk_pending = [0..<fights], wk_slots = replicate (nat (max 1 threads)) Idle, wk_results = replicate fights None\<rparr>"

text \<open>One step of one thread; taking an index and storing a result are under the lock. A fight that raises ends
  its thread.\<close>

inductive worker_step :: "int \<Rightarrow> int \<Rightarrow> workers \<Rightarrow> workers \<Rightarrow> bool" for seed port_base where
  grab: "k < length (wk_slots w) \<Longrightarrow> wk_slots w ! k = Idle \<Longrightarrow> wk_pending w = i # rest \<Longrightarrow>
    worker_step seed port_base w (w\<lparr>wk_pending := rest, wk_slots := (wk_slots w)[k := Running i]\<rparr>)"
| leave: "k < length (wk_slots w) \<Longrightarrow> wk_slots w ! k = Idle \<Longrightarrow> wk_pending w = [] \<Longrightarrow>
    worker_step seed port_base w (w\<lparr>wk_slots := (wk_slots w)[k := Returned]\<rparr>)"
| store: "k < length (wk_slots w) \<Longrightarrow> wk_slots w ! k = Running i \<Longrightarrow>
    worker_step seed port_base w (w\<lparr>wk_slots := (wk_slots w)[k := Idle],
      wk_results := (wk_results w)[i := Some (fight_seed seed i, slot_port port_base k)]\<rparr>)"
| crash: "k < length (wk_slots w) \<Longrightarrow> wk_slots w ! k = Running i \<Longrightarrow>
    worker_step seed port_base w (w\<lparr>wk_slots := (wk_slots w)[k := Raised i]\<rparr>)"

definition busy :: "slot list \<Rightarrow> nat list" where
  "busy = List.map_filter (\<lambda>x. case x of Running i \<Rightarrow> Some i | Raised i \<Rightarrow> Some i | _ \<Rightarrow> None)"

definition done_indices :: "'r option list \<Rightarrow> nat list" where
  "done_indices rs = filter (\<lambda>i. rs ! i \<noteq> None) [0..<length rs]"

definition workers_ok :: "int \<Rightarrow> nat \<Rightarrow> workers \<Rightarrow> bool" where
  "workers_ok seed fights w \<longleftrightarrow>
     mset (wk_pending w @ busy (wk_slots w) @ done_indices (wk_results w)) = mset [0..<fights] \<and> length (wk_results w) = fights
     \<and> list_all (\<lambda>i. case wk_results w ! i of None \<Rightarrow> True | Some r \<Rightarrow> fst r = fight_seed seed i) [0..<fights]"

lemma busy_update:
  assumes "k < length ss"
  shows "mset (busy (ss[k := x])) + mset (busy [ss ! k]) = mset (busy ss) + mset (busy [x])"
proof -
  have b: "busy (xs @ ys) = busy xs @ busy ys" for xs ys by (simp add: busy_def List.map_filter_def)
  have "ss = take k ss @ [ss ! k] @ drop (Suc k) ss" using assms by (simp add: id_take_nth_drop [symmetric])
  then have "busy ss = busy (take k ss) @ busy [ss ! k] @ busy (drop (Suc k) ss)" by (metis b)
  moreover have "busy (ss[k := x]) = busy (take k ss) @ busy [x] @ busy (drop (Suc k) ss)"
    using assms by (metis append_Cons append_Nil b upd_conv_take_nth_drop)
  ultimately show ?thesis by simp
qed

lemma busy_one [simp]: "busy [Running i] = [i]" "busy [Raised i] = [i]" "busy [Idle] = []" "busy [Returned] = []"
  by (simp_all add: busy_def List.map_filter_def)

lemma done_update:
  assumes "i < length rs" and "rs ! i = None"
  shows "mset (done_indices (rs[i := Some r])) = add_mset i (mset (done_indices rs))"
proof -
  have "set (done_indices (rs[i := Some r])) = insert i (set (done_indices rs))" using assms by (auto simp: done_indices_def nth_list_update)
  moreover have "i \<notin> set (done_indices rs)" using assms by (simp add: done_indices_def)
  moreover have "distinct (done_indices rs)" "distinct (done_indices (rs[i := Some r]))" by (simp_all add: done_indices_def)
  ultimately show ?thesis
    by (metis distinct.simps(2) list.simps(15) mset.simps(2) set_eq_iff_mset_eq_distinct)
qed

lemma worker_step_ok:
  assumes "worker_step seed port_base w w'" and "workers_ok seed fights w" shows "workers_ok seed fights w'"
  using assms(1)
proof (cases rule: worker_step.cases)
  case (grab k i rest)
  then show ?thesis using assms(2) busy_update [of k "wk_slots w" "Running i"] by (simp add: workers_ok_def)
next
  case (leave k)
  then show ?thesis using assms(2) busy_update [of k "wk_slots w" Returned] by (simp add: workers_ok_def)
next
  case (store k i)
  have m: "mset (busy (wk_slots w)) = add_mset i (mset (busy ((wk_slots w)[k := Idle])))"
    using busy_update [of k "wk_slots w" Idle] store by simp
  have all: "mset (wk_pending w) + mset (busy (wk_slots w)) + mset (done_indices (wk_results w)) = mset [0..<fights]"
    and len: "length (wk_results w) = fights" using assms(2) by (simp_all add: workers_ok_def add.assoc)
  have "distinct (wk_pending w @ busy (wk_slots w) @ done_indices (wk_results w))"
    using assms(2) by (metis distinct_upt mset_eq_imp_distinct_iff workers_ok_def)
  moreover have i: "i \<in># mset (busy (wk_slots w))" by (simp add: m)
  ultimately have "i \<notin> set (done_indices (wk_results w))" by auto
  moreover have "i \<in># mset [0..<fights]" using all i by (metis union_iff)
  then have il: "i < length (wk_results w)" using len by simp
  ultimately have none: "wk_results w ! i = None" by (cases "wk_results w ! i") (auto simp: done_indices_def)
  show ?thesis
    using assms(2) m il done_update [OF il none, of "(fight_seed seed i, slot_port port_base k)"]
    by (auto simp: store(1) workers_ok_def list_all_iff nth_list_update)
next
  case (crash k i)
  then show ?thesis using assms(2) busy_update [of k "wk_slots w" "Raised i"] by (simp add: workers_ok_def)
qed

lemma start_workers_ok: "workers_ok seed fights (start_workers fights threads)"
proof -
  have "busy (replicate n Idle) = []" for n by (induction n) (simp_all add: busy_def List.map_filter_def)
  moreover have "done_indices (replicate fights None) = []" by (simp add: done_indices_def filter_empty_conv)
  ultimately show ?thesis by (simp add: workers_ok_def start_workers_def list_all_iff)
qed

lemma workers_reachable_ok:
  assumes "(worker_step seed port_base)\<^sup>*\<^sup>* (start_workers fights threads) w" shows "workers_ok seed fights w"
  using assms by (induction rule: rtranclp_induct) (auto intro: start_workers_ok worker_step_ok)

definition fight_ports :: "int \<Rightarrow> nat \<Rightarrow> int list" where
  "fight_ports port_base k = map (\<lambda>j. slot_port port_base k + j) [0 .. 4]"

text \<open>C39. However the threads interleave, every fight is waiting, running, failed or stored, exactly one of these and
  exactly once; a stored result is of the fight's own seed; fights that run at the same time share no
  port; and when all threads have returned without an exception, every fight has its result.\<close>

theorem every_fight_once:
  assumes "(worker_step seed port_base)\<^sup>*\<^sup>* (start_workers fights threads) w"
  shows "mset (wk_pending w @ busy (wk_slots w) @ done_indices (wk_results w)) = mset [0..<fights]
    \<and> list_all (\<lambda>i. case wk_results w ! i of None \<Rightarrow> True | Some r \<Rightarrow> fst r = fight_seed seed i) [0..<fights]
    \<and> distinct (concat (map (fight_ports port_base) [0..<length (wk_slots w)]))
    \<and> (if wk_pending w = [] \<and> list_all ((=) Returned) (wk_slots w) then list_all (\<lambda>r. r \<noteq> None) (wk_results w) else True)"
proof -
  note ok = workers_reachable_ok [OF assms]
  have ports: "distinct (concat (map (fight_ports port_base) [0..<n]))" for n
  proof (induction n)
    case 0
    then show ?case by simp
  next
    case (Suc n)
    have u: "[0 .. 4] = [0, 1, 2, 3, 4 :: int]" by code_simp
    have "p \<notin> set (concat (map (fight_ports port_base) [0..<n]))" if "p \<in> set (fight_ports port_base n)" for p
      using that by (auto simp: fight_ports_def slot_port_def)
    with Suc show ?case by (auto simp: fight_ports_def slot_port_def u)
  qed
  have "list_all (\<lambda>r. r \<noteq> None) (wk_results w)" if r: "wk_pending w = []" "list_all ((=) Returned) (wk_slots w)"
  proof -
    have "list_all ((=) Returned) ss \<Longrightarrow> busy ss = []" for ss by (induction ss) (simp_all add: busy_def List.map_filter_def)
    with r ok have "mset (done_indices (wk_results w)) = mset [0..<fights]" by (simp add: workers_ok_def)
    then have "set (done_indices (wk_results w)) = {0..<fights}" by (metis mset_eq_setD set_upt)
    moreover have "length (wk_results w) = fights" using ok by (simp add: workers_ok_def)
    ultimately show ?thesis by (auto simp: done_indices_def list_all_length set_eq_iff)
  qed
  with ok ports show ?thesis by (auto simp: workers_ok_def)
qed

section \<open>The tallies\<close>

record fight_result =
  fr_winner :: "int option"
  fr_reason :: string

definition count_key :: "string \<Rightarrow> (string \<times> nat) list \<Rightarrow> (string \<times> nat) list" where
  "count_key k d = AList.update k ((case map_of d k of None \<Rightarrow> 0 | Some n \<Rightarrow> n) + 1) d"

record fight_tally =
  ty_reasons :: "(string \<times> nat) list"
  ty_lost_by :: "(string \<times> nat) list list"

text \<open>The loop over the results; the loser is the robot that did not win.\<close>

definition tally_step :: "fight_result \<Rightarrow> fight_tally \<Rightarrow> fight_tally result" where
  "tally_step r t =
     (let t = t\<lparr>ty_reasons := count_key (fr_reason r) (ty_reasons t)\<rparr>
      in case fr_winner r of
           None \<Rightarrow> Ok t
         | Some w \<Rightarrow> bindR (pair_index (1 - w)) (\<lambda>loser.
             Ok (t\<lparr>ty_lost_by := (ty_lost_by t)[loser := count_key (fr_reason r) (ty_lost_by t ! loser)]\<rparr>)))"

definition tally_of :: "fight_result list \<Rightarrow> fight_tally result" where
  "tally_of rs = foldR tally_step rs \<lparr>ty_reasons = [], ty_lost_by = [[], []]\<rparr>"

definition wins_of :: "int \<Rightarrow> fight_result list \<Rightarrow> nat" where
  "wins_of i rs = length (filter (\<lambda>r. fr_winner r = Some i) rs)"

definition draws_of :: "fight_result list \<Rightarrow> nat" where
  "draws_of rs = length (filter (\<lambda>r. fr_winner r = None) rs)"

definition count_sum :: "(string \<times> nat) list \<Rightarrow> nat" where
  "count_sum d = sum_list (map snd d)"

lemma count_sum_key: "count_sum (count_key k d) = count_sum d + 1"
  by (induction d) (auto simp: count_key_def count_sum_def)

text \<open>The tallies add up: a reason for every fight, and each robot's losses are the other's wins.\<close>

lemma tally_adds_up:
  assumes "foldR tally_step rs t = Ok t'" and "list_all (\<lambda>r. fr_winner r \<in> {None, Some 0, Some 1}) rs"
    and "ty_lost_by t = [a, b]"
  shows "\<exists>a' b'. ty_lost_by t' = [a', b'] \<and> count_sum (ty_reasons t') = count_sum (ty_reasons t) + length rs
    \<and> count_sum a' = count_sum a + wins_of 1 rs \<and> count_sum b' = count_sum b + wins_of 0 rs
    \<and> wins_of 0 rs + wins_of 1 rs + draws_of rs = length rs"
  using assms
proof (induction rs arbitrary: t a b)
  case Nil
  then show ?case by (simp add: wins_of_def draws_of_def)
next
  case (Cons r rs)
  from Cons.prems(1) obtain t1 where t1: "tally_step r t = Ok t1" "foldR tally_step rs t1 = Ok t'" by (auto simp: result_simps)
  have w: "fr_winner r = None \<or> fr_winner r = Some 0 \<or> fr_winner r = Some 1" using Cons.prems(2) by simp
  then obtain a1 b1 where l: "ty_lost_by t1 = [a1, b1]" "count_sum (ty_reasons t1) = count_sum (ty_reasons t) + 1"
    "count_sum a1 = count_sum a + of_bool (fr_winner r = Some 1)" "count_sum b1 = count_sum b + of_bool (fr_winner r = Some 0)"
    using t1(1) Cons.prems(3) by (auto simp: tally_step_def pair_index_def count_sum_key Let_def)
  have "list_all (\<lambda>r. fr_winner r \<in> {None, Some 0, Some 1}) rs" using Cons.prems(2) by simp
  from Cons.IH [OF t1(2) this l(1)] l w show ?case by (auto simp: wins_of_def draws_of_def)
qed

theorem tally_sound:
  assumes "tally_of rs = Ok t" and "list_all (\<lambda>r. fr_winner r \<in> {None, Some 0, Some 1}) rs"
  shows "wins_of 0 rs + wins_of 1 rs + draws_of rs = length rs \<and> count_sum (ty_reasons t) = length rs
    \<and> map count_sum (ty_lost_by t) = [wins_of 1 rs, wins_of 0 rs]"
  using tally_adds_up [of rs "\<lparr>ty_reasons = [], ty_lost_by = [[], []]\<rparr>" t "[]" "[]"] assms
  by (auto simp: tally_of_def count_sum_def)

section \<open>Witnesses\<close>

text \<open>Two datagrams of a brain, a millisecond apart, delayed by 50 ms, both sent in the second turn.\<close>

definition demo_handicap :: handicap where
  "demo_handicap = no_handicap\<lparr>hc_delay_ms := Fin 2000\<rparr>"

definition demo_arrival :: "pyfloat \<Rightarrow> arrival" where
  "demo_arrival t = \<lparr>av_from_brain = True, av_got = Some ([], (''b'', 1)), av_draw = Fin 0, av_outage_now = t, av_push_now = t\<rparr>"

definition demo_turns :: "proxy_turn list" where
  "demo_turns = [\<lparr>pt_arrivals = [demo_arrival (Fin 1), demo_arrival (Fin 2)], pt_now = Fin 2, pt_send = (\<lambda>_. None)\<rparr>,
     \<lparr>pt_arrivals = [], pt_now = Fin 5, pt_send = (\<lambda>_. Some (Fin 5))\<rparr>]"

theorem proxy_is_delay_line_witness:
  "\<exists>p es. proxy_run demo_handicap demo_turns (new_proxy (''a'', 2)) = (p, es) \<and> pz_forwarded p = 2
     \<and> released_of es @ pz_queue p = queued_of es \<and> length (queued_of es) = 2"
proof -
  obtain p es where r: "proxy_run demo_handicap demo_turns (new_proxy (''a'', 2)) = (p, es)" by (metis prod.exhaust)
  have w: "proxy_wait demo_handicap = Fin 2" by (simp add: proxy_wait_def demo_handicap_def no_handicap_def fquot_def float_eval)
  have f: "hc_loss demo_handicap = Fin 0" "hc_outage_ms demo_handicap = Fin 0" "hc_outage_once_ms demo_handicap = Fin 0"
    by (simp_all add: demo_handicap_def no_handicap_def)
  have "pz_forwarded p = 2 \<and> pz_counter p = 2"
    using r by (auto simp: demo_turns_def demo_arrival_def new_proxy_def take_arrival_def schedule_def in_outage_def Let_def w f
        float_eval item_le_def)
  moreover have "sorted_wrt fle (push_clock demo_turns)" by (simp add: push_clock_def demo_turns_def demo_arrival_def)
  ultimately show ?thesis using proxy_is_delay_line [OF r] w r by auto
qed

theorem every_fight_once_witness:
  "\<exists>w. (worker_step 7 6100)\<^sup>*\<^sup>* (start_workers 1 1) w \<and> wk_results w = [Some (7, 6100)]
     \<and> mset (wk_pending w @ busy (wk_slots w) @ done_indices (wk_results w)) = mset [0..<1]"
proof -
  let ?w0 = "start_workers 1 1"
  let ?w1 = "?w0\<lparr>wk_pending := [], wk_slots := [Running 0]\<rparr>"
  let ?w2 = "?w1\<lparr>wk_slots := [Idle], wk_results := [Some (7, 6100)]\<rparr>"
  have "worker_step 7 6100 ?w0 (?w0\<lparr>wk_pending := [], wk_slots := (wk_slots ?w0)[0 := Running 0]\<rparr>)"
    by (rule worker_step.grab) (simp_all add: start_workers_def)
  then have 1: "worker_step 7 6100 ?w0 ?w1" by (simp add: start_workers_def)
  have "worker_step 7 6100 ?w1 (?w1\<lparr>wk_slots := (wk_slots ?w1)[0 := Idle],
      wk_results := (wk_results ?w1)[0 := Some (fight_seed 7 0, slot_port 6100 0)]\<rparr>)"
    by (rule worker_step.store) simp_all
  then have 2: "worker_step 7 6100 ?w1 ?w2" by (simp add: start_workers_def fight_seed_def slot_port_def)
  have r: "(worker_step 7 6100)\<^sup>*\<^sup>* ?w0 ?w2" using 1 2 by (meson r_into_rtranclp rtranclp.rtrancl_into_rtrancl)
  from every_fight_once [OF r] r show ?thesis by (intro exI [of _ ?w2]) simp
qed

end
