(* ===== verification/BenchScenario.thy ===== *)
theory BenchScenario
  imports BenchTraffic Scenario ChannelAdapter
begin

text \<open>
  The seeded scenarios of the scheduler benchmark, \<^verbatim>\<open>use_cases/scheduler_benchmark/make_scenario.py\<close>: obstacle
  boxes and the slab test, the region a terminal may be in, random-waypoint routes, and the scenario
  that is written. The numbers of \<open>random.Random\<close>, \<open>math.hypot\<close>, \<open>math.dist\<close> and the manifest of a scene are
  parameters. The theorems: the slab test sees an end inside a box; every generation ends, and the terminals of
  a generated scenario walk in sight of the gNB; the bridge's loader takes their routes.
\<close>

section \<open>Boxes\<close>

record box =
  bx_low :: vec3
  bx_high :: vec3
  bx_label :: string

definition axes :: "vec3 \<Rightarrow> pyfloat list" where
  "axes v = (case v of (x, y, z) \<Rightarrow> [x, y, z])"

definition inflated :: "pyfloat \<Rightarrow> box \<Rightarrow> box" where
  "inflated margin b =
     (case (bx_low b, bx_high b) of ((lx, ly, lz), (hx, hy, hz)) \<Rightarrow>
        \<lparr>bx_low = (fsub lx margin, fsub ly margin, lz), bx_high = (fadd hx margin, fadd hy margin, fadd hz margin),
         bx_label = bx_label b\<rparr>)"

text \<open>One axis of the slab test: the interval of the segment that is left, or none.\<close>

definition slab_axis :: "pyfloat \<times> pyfloat \<times> pyfloat \<times> pyfloat \<Rightarrow> pyfloat \<times> pyfloat \<Rightarrow> (pyfloat \<times> pyfloat) option" where
  "slab_axis q t =
     (case (q, t) of ((a, b, low, high), (t_min, t_max)) \<Rightarrow>
        let delta = fsub b a in
        if flt (fabs delta) (rnd64 (1 / 10 ^ 12))
        then (if flt a low \<or> flt high a then None else Some (t_min, t_max))
        else let t0 = fquot (fsub low a) delta; t1 = fquot (fsub high a) delta;
                 (t0, t1) = (if flt t1 t0 then (t1, t0) else (t0, t1));
                 t_min = fmax t_min t0; t_max = fmin t_max t1
             in if flt t_max t_min then None else Some (t_min, t_max))"

fun slabs :: "(pyfloat \<times> pyfloat \<times> pyfloat \<times> pyfloat) list \<Rightarrow> pyfloat \<times> pyfloat \<Rightarrow> bool" where
  "slabs [] t = True"
| "slabs (q # qs) t = (case slab_axis q t of None \<Rightarrow> False | Some t \<Rightarrow> slabs qs t)"

definition segment_hits :: "box \<Rightarrow> vec3 \<Rightarrow> vec3 \<Rightarrow> bool" where
  "segment_hits bx a b =
     slabs (zip (axes a) (zip (axes b) (zip (axes (bx_low bx)) (axes (bx_high bx))))) (Fin 0, Fin 1)"

definition contains_xy :: "box \<Rightarrow> vec3 \<Rightarrow> bool" where
  "contains_xy bx p =
     (case (bx_low bx, bx_high bx, p) of ((lx, ly, _), (hx, hy, _), (x, y, _)) \<Rightarrow>
        fle lx x \<and> fle x hx \<and> fle ly y \<and> fle y hy)"

section \<open>The obstacles of a scene\<close>

text \<open>The manifest is the parsed JSON; a missing key or a value of the wrong shape raises.\<close>

definition key_of :: "string \<Rightarrow> pyval \<Rightarrow> pyval result" where
  "key_of k v = (case v of VDict d \<Rightarrow> (case map_of d k of Some x \<Rightarrow> Ok x | None \<Rightarrow> Err (KeyError k))
     | _ \<Rightarrow> Err (TypeError ''object is not subscriptable''))"

definition number_of :: "pyval \<Rightarrow> pyfloat result" where
  "number_of v = (if is_num v then to_float v else Err (TypeError ''unsupported operand type''))"

definition xy_of :: "pyval \<Rightarrow> (pyval \<times> pyval) result" where
  "xy_of v = (case v of
       VList [a, b] \<Rightarrow> Ok (a, b)
     | VList _ \<Rightarrow> Err (ValueError ''unpack'')
     | _ \<Rightarrow> Err (TypeError ''cannot unpack''))"

text \<open>The column of half width \<open>half\<close> about a centre; the height is read last.\<close>

definition column :: "pyval \<times> pyval \<Rightarrow> pyfloat \<Rightarrow> pyval result \<Rightarrow> string \<Rightarrow> box result" where
  "column c half h label =
     bindR (number_of (fst c)) (\<lambda>x. bindR (number_of (snd c)) (\<lambda>y. bindR (bindR h to_float) (\<lambda>height.
       Ok \<lparr>bx_low = (fsub x half, fsub y half, Fin 0), bx_high = (fadd x half, fadd y half, height), bx_label = label\<rparr>)))"

definition pillar_box :: "nat \<times> pyval \<Rightarrow> box result" where
  "pillar_box ip =
     bindR (bindR (key_of ''centre_m'' (snd ip)) xy_of) (\<lambda>c.
     bindR (bindR (key_of ''side_m'' (snd ip)) to_float) (\<lambda>side.
       column c (fquot side (Fin 2)) (key_of ''height_m'' (snd ip)) (''pillar_'' @ str_nat (fst ip))))"

definition mast_box :: "pyval \<Rightarrow> box result" where
  "mast_box m = bindR (bindR (key_of ''xy_m'' m) xy_of) (\<lambda>c. column c (Fin (1/4)) (key_of ''height_m'' m) ''mast'')"

text \<open>\<open>manifest.get(k) or other\<close>: an empty or missing value is the other one.\<close>

definition get_truthy :: "string \<Rightarrow> pyval \<Rightarrow> pydict \<Rightarrow> pyval" where
  "get_truthy k other d = (let v = vget k d in if truthy v then v else other)"

text \<open>\<open>manifests\<close> reads and parses the manifest of a scene; \<open>None\<close> when there is no such file.\<close>

definition scene_obstacles :: "(string \<Rightarrow> pyval option) \<Rightarrow> string \<Rightarrow> (box list \<times> pyfloat \<times> pydict) result" where
  "scene_obstacles manifests scene =
     (case manifests scene of
        None \<Rightarrow> Err (ValueError ''scene has no manifest'')
      | Some (VDict manifest) \<Rightarrow>
         (case get_truthy ''pillars'' (VList []) manifest of
            VList ps \<Rightarrow>
              bindR (mapR pillar_box (enumerate 0 ps)) (\<lambda>pillars.
              bindR (if truthy (vget ''mast'' manifest) then mapR mast_box [vget ''mast'' manifest] else Ok []) (\<lambda>mast.
              (case get_truthy ''ground'' (VDict []) manifest of
                 VDict g \<Rightarrow>
                   bindR (to_float (vget_or ''half_extent_m'' (VFloat (Fin 30)) g)) (\<lambda>half. Ok (pillars @ mast, half, manifest))
               | _ \<Rightarrow> Err (AttributeError ''get''))))
          | _ \<Rightarrow> Err (TypeError ''pillars''))
      | Some _ \<Rightarrow> Err (AttributeError ''get''))"

section \<open>The region\<close>

record region =
  rg_gnb :: vec3
  rg_boxes :: "box list"
  rg_limit :: pyfloat
  rg_min_d :: pyfloat
  rg_max_d :: pyfloat

definition OBSTACLE_MARGIN_M :: pyfloat where "OBSTACLE_MARGIN_M = Fin 1"
definition SAMPLE_STEP_M :: pyfloat where "SAMPLE_STEP_M = Fin (1/4)"
definition MAX_WAYPOINT_TRIES :: nat where "MAX_WAYPOINT_TRIES = 2000"
definition UE_HEIGHT_M :: pyfloat where "UE_HEIGHT_M = rnd64 (4/10)"

definition new_region :: "vec3 \<Rightarrow> box list \<Rightarrow> pyfloat \<Rightarrow> pyfloat \<Rightarrow> pyfloat \<Rightarrow> pyfloat \<Rightarrow> region result" where
  "new_region gnb boxes half_extent min_d max_d edge_margin =
     (let limit = fsub half_extent edge_margin
      in if fle limit (Fin 0) \<or> fle max_d min_d then Err (ValueError ''empty UE region'')
         else Ok \<lparr>rg_gnb = gnb, rg_boxes = map (inflated OBSTACLE_MARGIN_M) boxes, rg_limit = limit, rg_min_d = min_d,
                  rg_max_d = max_d\<rparr>)"

definition horizontal_distance :: "(pyfloat \<Rightarrow> pyfloat \<Rightarrow> pyfloat) \<Rightarrow> region \<Rightarrow> vec3 \<Rightarrow> pyfloat" where
  "horizontal_distance hypot rg p = hypot (fsub (fst p) (fst (rg_gnb rg))) (fsub (fst (snd p)) (fst (snd (rg_gnb rg))))"

definition allows :: "(pyfloat \<Rightarrow> pyfloat \<Rightarrow> pyfloat) \<Rightarrow> region \<Rightarrow> vec3 \<Rightarrow> bool" where
  "allows hypot rg p =
     (if flt (rg_limit rg) (fabs (fst p)) \<or> flt (rg_limit rg) (fabs (fst (snd p))) then False
      else if \<not> (fle (rg_min_d rg) (horizontal_distance hypot rg p) \<and> fle (horizontal_distance hypot rg p) (rg_max_d rg)) then False
      else \<not> list_ex (\<lambda>bx. contains_xy bx p \<or> bx_label bx \<noteq> ''mast'' \<and> segment_hits bx (rg_gnb rg) p) (rg_boxes rg))"

definition leg_point :: "vec3 \<Rightarrow> vec3 \<Rightarrow> int \<Rightarrow> int \<Rightarrow> vec3" where
  "leg_point a b steps k =
     (let mix = (\<lambda>x y. fadd x (fquot (fmul (fsub y x) (fl k)) (fl steps)))
      in (mix (fst a) (fst b), mix (fst (snd a)) (fst (snd b)), mix (snd (snd a)) (snd (snd b))))"

definition leg_steps :: "distance \<Rightarrow> vec3 \<Rightarrow> vec3 \<Rightarrow> int result" where
  "leg_steps d a b = bindR (int_of_rat ceiling (fquot (d a b) SAMPLE_STEP_M)) (\<lambda>n. Ok (max 1 n))"

definition leg_allowed :: "distance \<Rightarrow> (pyfloat \<Rightarrow> pyfloat \<Rightarrow> pyfloat) \<Rightarrow> region \<Rightarrow> vec3 \<Rightarrow> vec3 \<Rightarrow> bool result" where
  "leg_allowed d hypot rg a b =
     bindR (leg_steps d a b) (\<lambda>steps. Ok (list_all (\<lambda>k. allows hypot rg (leg_point a b steps k)) [0 .. steps]))"

section \<open>Routes\<close>

text \<open>\<open>sample\<close>: two numbers of the generator a try. The result is the point and the next number's index.\<close>

definition waypoint :: "region \<Rightarrow> (nat \<Rightarrow> pyfloat) \<Rightarrow> nat \<Rightarrow> vec3" where
  "waypoint rg draws n =
     (round_dec 3 (uniform (fneg (rg_limit rg)) (rg_limit rg) (draws n)),
      round_dec 3 (uniform (fneg (rg_limit rg)) (rg_limit rg) (draws (n + 1))), UE_HEIGHT_M)"

fun sample_from ::
  "(pyfloat \<Rightarrow> pyfloat \<Rightarrow> pyfloat) \<Rightarrow> region \<Rightarrow> (nat \<Rightarrow> pyfloat) \<Rightarrow> pyfloat option \<Rightarrow> nat \<Rightarrow> nat \<Rightarrow> (vec3 \<times> nat) result" where
  "sample_from hypot rg draws max_d 0 n = Err (ValueError ''could not sample an allowed waypoint; widen the region'')"
| "sample_from hypot rg draws max_d (Suc tries) n =
     (let p = waypoint rg draws n
      in if allows hypot rg p \<and> (case max_d of None \<Rightarrow> True | Some m \<Rightarrow> fle (horizontal_distance hypot rg p) m)
         then Ok (p, n + 2) else sample_from hypot rg draws max_d tries (n + 2))"

text \<open>The inner loop: a candidate at least two metres away whose leg is in sight.\<close>

fun next_waypoint ::
  "distance \<Rightarrow> (pyfloat \<Rightarrow> pyfloat \<Rightarrow> pyfloat) \<Rightarrow> region \<Rightarrow> (nat \<Rightarrow> pyfloat) \<Rightarrow> vec3 \<Rightarrow> nat \<Rightarrow> nat \<Rightarrow> (vec3 \<times> nat) result" where
  "next_waypoint d hypot rg draws here 0 n = Err (ValueError ''could not extend the route in line of sight'')"
| "next_waypoint d hypot rg draws here (Suc tries) n =
     bindR (sample_from hypot rg draws None MAX_WAYPOINT_TRIES n) (\<lambda>(c, n).
       if fle (Fin 2) (d here c)
       then bindR (leg_allowed d hypot rg here c) (\<lambda>ok. if ok then Ok (c, n) else next_waypoint d hypot rg draws here tries n)
       else next_waypoint d hypot rg draws here tries n)"

partial_function (option) extend_route ::
  "distance \<Rightarrow> (pyfloat \<Rightarrow> pyfloat \<Rightarrow> pyfloat) \<Rightarrow> region \<Rightarrow> (nat \<Rightarrow> pyfloat) \<Rightarrow> pyfloat \<Rightarrow> vec3 list \<Rightarrow> pyfloat \<Rightarrow> nat
     \<Rightarrow> vec3 list result option" where
  "extend_route d hypot rg draws length_m route gone n =
     (if flt gone length_m
      then (case next_waypoint d hypot rg draws (last route) MAX_WAYPOINT_TRIES n of
              Inl e \<Rightarrow> Some (Inl e)
            | Inr cn \<Rightarrow> extend_route d hypot rg draws length_m (route @ [fst cn]) (fadd gone (d (last route) (fst cn))) (snd cn))
      else Some (Inr route))"

definition random_waypoint_route ::
  "distance \<Rightarrow> (pyfloat \<Rightarrow> pyfloat \<Rightarrow> pyfloat) \<Rightarrow> region \<Rightarrow> (nat \<Rightarrow> pyfloat) \<Rightarrow> nat \<Rightarrow> pyfloat \<Rightarrow> pyfloat
     \<Rightarrow> vec3 list result option" where
  "random_waypoint_route d hypot rg draws n length_m start_max_d =
     (case sample_from hypot rg draws (Some start_max_d) MAX_WAYPOINT_TRIES n of
        Inl e \<Rightarrow> Some (Inl e)
      | Inr pn \<Rightarrow> extend_route d hypot rg draws length_m [fst pn] (Fin 0) (snd pn))"

section \<open>A scenario\<close>

text \<open>\<open>streams\<close> gives the numbers of \<open>random.Random\<close> for a seed string. The base scenario is the parsed JSON; a
  base whose nodes or solver is neither an object nor empty is refused with a \<open>TypeError\<close>.\<close>

record knobs =
  kn_duration_s :: pyfloat
  kn_speed_range :: "pyfloat \<times> pyfloat"
  kn_min_d :: pyfloat
  kn_max_d :: pyfloat
  kn_start_max_d :: pyfloat
  kn_edge_margin :: pyfloat

definition UE_IDS :: "string list" where "UE_IDS = [''ue0'', ''ue1'']"
definition GENERATOR_VERSION :: int where "GENERATOR_VERSION = 1"

definition stream_name :: "int \<Rightarrow> string \<Rightarrow> string" where
  "stream_name seed ue = ''scheduler-benchmark:'' @ str_int seed @ '':'' @ ue @ '':mobility''"

definition drawn_speed :: "(string \<Rightarrow> nat \<Rightarrow> pyfloat) \<Rightarrow> int \<Rightarrow> knobs \<Rightarrow> string \<Rightarrow> pyfloat" where
  "drawn_speed streams seed kn ue =
     round_dec 3 (uniform (fst (kn_speed_range kn)) (snd (kn_speed_range kn)) (streams (stream_name seed ue) 0))"

definition route_length :: "(string \<Rightarrow> nat \<Rightarrow> pyfloat) \<Rightarrow> int \<Rightarrow> knobs \<Rightarrow> string \<Rightarrow> pyfloat" where
  "route_length streams seed kn ue = fmul (fmul (drawn_speed streams seed kn ue) (kn_duration_s kn)) (rnd64 (105/100))"

definition point_value :: "vec3 \<Rightarrow> pyval" where
  "point_value p = VList (map VFloat (axes p))"

definition walking_node :: "vec3 list \<Rightarrow> pyfloat \<Rightarrow> pyval \<Rightarrow> pydict result" where
  "walking_node route speed node =
     (case node of
        VDict d \<Rightarrow>
          Ok (AList.update ''speed_mps'' (VFloat speed) (AList.update ''route_mode'' (VStr ''pingpong'')
               (AList.update ''route_m'' (VList (map point_value route)) (AList.update ''mobility'' (VStr ''robot'') d))))
      | _ \<Rightarrow> Err (TypeError ''item assignment''))"

definition route_summary :: "(pyfloat \<Rightarrow> pyfloat \<Rightarrow> pyfloat) \<Rightarrow> region \<Rightarrow> vec3 list \<Rightarrow> pyfloat \<Rightarrow> pyval" where
  "route_summary hypot rg route speed =
     VDict [(''speed_mps'', VFloat speed), (''waypoints'', VInt (int (length route))),
            (''start_gnb_distance_m'', VFloat (round_dec 3 (horizontal_distance hypot rg (hd route))))]"

text \<open>The loop over the terminals: their nodes and their summaries, from the nodes of the base.\<close>

fun generate_ues ::
  "distance \<Rightarrow> (pyfloat \<Rightarrow> pyfloat \<Rightarrow> pyfloat) \<Rightarrow> (string \<Rightarrow> nat \<Rightarrow> pyfloat) \<Rightarrow> region \<Rightarrow> int \<Rightarrow> knobs \<Rightarrow> pydict \<Rightarrow> string list
     \<Rightarrow> pydict \<times> pydict \<Rightarrow> (pydict \<times> pydict) result option" where
  "generate_ues d hypot streams rg seed kn base [] out = Some (Ok out)"
| "generate_ues d hypot streams rg seed kn base (ue # ues) out =
     (let speed = drawn_speed streams seed kn ue
      in case random_waypoint_route d hypot rg (streams (stream_name seed ue)) 1 (route_length streams seed kn ue) (kn_start_max_d kn) of
           None \<Rightarrow> None
         | Some (Inl e) \<Rightarrow> Some (Inl e)
         | Some (Inr route) \<Rightarrow>
             (case walking_node route speed (vget ue base) of
                Inl e \<Rightarrow> Some (Inl e)
              | Inr node \<Rightarrow>
                  generate_ues d hypot streams rg seed kn base ues
                    (AList.update ue (VDict node) (fst out), AList.update ue (route_summary hypot rg route speed) (snd out))))"

definition benchmark_of :: "int \<Rightarrow> knobs \<Rightarrow> pydict \<Rightarrow> pyval" where
  "benchmark_of seed kn routes =
     VDict [(''seed'', VInt seed), (''generator_version'', VInt GENERATOR_VERSION), (''duration_s'', VFloat (kn_duration_s kn)),
       (''speed_range_mps'', VList [VFloat (fst (kn_speed_range kn)), VFloat (snd (kn_speed_range kn))]),
       (''gnb_distance_range_m'', VList [VFloat (kn_min_d kn), VFloat (kn_max_d kn)]),
       (''start_max_gnb_distance_m'', VFloat (kn_start_max_d kn)), (''obstacle_margin_m'', VFloat OBSTACLE_MARGIN_M),
       (''line_of_sight'', VStr ''every leg sampled every 0.25 m clears every inflated obstacle box''),
       (''routes'', VDict routes)]"

definition description_of :: "int \<Rightarrow> string" where
  "description_of seed =
     ''Seeded scheduler-benchmark scenario (generator v'' @ str_int GENERATOR_VERSION @ '', seed '' @ str_int seed @ ''): ''
     @ ''random-waypoint UE routes kept in line of sight of gnb0; PathSolver seed = scenario seed.''"

text \<open>What is checked of the base: its scene, its three nodes, the gNB's position.\<close>

definition base_parts :: "pydict \<Rightarrow> (string \<times> pydict \<times> pyval list) result" where
  "base_parts base =
     (case vget ''scene'' base of
        VStr scene \<Rightarrow>
         (case get_truthy ''nodes'' (VDict []) base of
            VDict nodes \<Rightarrow>
              if \<not> list_all (\<lambda>k. map_of nodes k \<noteq> None) (''gnb0'' # UE_IDS)
              then Err (ValueError ''base scenario must define gnb0, ue0 and ue1'')
              else (case vget ''gnb0'' nodes of
                      VDict g \<Rightarrow>
                       (case vget ''start_m'' g of
                          VList xs \<Rightarrow> if length xs = 3 then Ok (scene, nodes, xs) else Err (ValueError ''base gnb0 needs start_m'')
                        | _ \<Rightarrow> Err (ValueError ''base gnb0 needs start_m''))
                    | _ \<Rightarrow> Err (AttributeError ''get''))
          | _ \<Rightarrow> Err (TypeError ''nodes must be an object''))
      | _ \<Rightarrow> Err (ValueError ''base scenario must name a repo scene''))"

definition solver_of :: "int \<Rightarrow> pydict \<Rightarrow> pydict result" where
  "solver_of seed base =
     (case get_truthy ''solver'' (VDict []) base of
        VDict s \<Rightarrow> Ok (AList.update ''seed'' (VInt seed) s)
      | _ \<Rightarrow> Err (TypeError ''solver must be an object''))"

definition region_of :: "(string \<Rightarrow> pyval option) \<Rightarrow> knobs \<Rightarrow> string \<Rightarrow> pyval list \<Rightarrow> region result" where
  "region_of manifests kn scene start =
     bindR (scene_obstacles manifests scene) (\<lambda>(boxes, half_extent, _).
     bindR (mapR to_float start) (\<lambda>g.
       new_region (g ! 0, g ! 1, g ! 2) boxes half_extent (kn_min_d kn) (kn_max_d kn) (kn_edge_margin kn)))"

definition generate ::
  "distance \<Rightarrow> (pyfloat \<Rightarrow> pyfloat \<Rightarrow> pyfloat) \<Rightarrow> (string \<Rightarrow> nat \<Rightarrow> pyfloat) \<Rightarrow> (string \<Rightarrow> pyval option) \<Rightarrow> int \<Rightarrow> knobs \<Rightarrow> pydict
     \<Rightarrow> pydict result option" where
  "generate d hypot streams manifests seed kn base =
     (if seed < 0 then Some (Err (ValueError ''seed must be non-negative''))
      else case bindR (base_parts base) (\<lambda>(scene, nodes, start).
                bindR (region_of manifests kn scene start) (\<lambda>rg.
                bindR (solver_of seed base) (\<lambda>solver. Ok (nodes, rg, solver)))) of
             Inl e \<Rightarrow> Some (Inl e)
           | Inr (nodes, rg, solver) \<Rightarrow>
              (case generate_ues d hypot streams rg seed kn nodes UE_IDS (nodes, []) of
                 None \<Rightarrow> None
               | Some (Inl e) \<Rightarrow> Some (Inl e)
               | Some (Inr (new_nodes, routes)) \<Rightarrow>
                   Some (Ok (AList.update ''benchmark'' (benchmark_of seed kn routes)
                     (AList.update ''nodes'' (VDict new_nodes) (AList.update ''solver'' (VDict solver)
                     (AList.update ''description'' (VStr (description_of seed))
                     (AList.update ''name'' (VStr (''scheduler-benchmark-seed'' @ str_int seed)) base))))))))"

text \<open>\<open>main\<close>: what is written, or the exit code. Only a \<open>ValueError\<close> is caught.\<close>

datatype run_outcome = Usage string | Refused | Raised py_error | Written pydict

definition make_scenario ::
  "distance \<Rightarrow> (pyfloat \<Rightarrow> pyfloat \<Rightarrow> pyfloat) \<Rightarrow> (string \<Rightarrow> nat \<Rightarrow> pyfloat) \<Rightarrow> (string \<Rightarrow> pyval option) \<Rightarrow> int \<Rightarrow> knobs \<Rightarrow> pydict
     \<Rightarrow> run_outcome option" where
  "make_scenario d hypot streams manifests seed kn base =
     (if \<not> (flt (Fin 0) (fst (kn_speed_range kn)) \<and> fle (fst (kn_speed_range kn)) (snd (kn_speed_range kn)))
      then Some (Usage ''speed range must be positive and ordered'')
      else if fle (kn_duration_s kn) (Fin 0) then Some (Usage ''--duration-s must be positive'')
      else map_option (\<lambda>r. case r of Inr out \<Rightarrow> Written out | Inl (ValueError _) \<Rightarrow> Refused | Inl e \<Rightarrow> Raised e)
             (generate d hypot streams manifests seed kn base))"

section \<open>The slab test sees an end inside the box\<close>

text \<open>An axis on which the segment's far end lies between the faces, and the segment either does not move or moves
  by something the test does not take for nothing.\<close>

definition end_between :: "pyfloat \<times> pyfloat \<times> pyfloat \<times> pyfloat \<Rightarrow> bool" where
  "end_between q \<longleftrightarrow>
     (case q of (a, b, low, high) \<Rightarrow>
        list_all is_finite [a, b, low, high] \<and> fle low b \<and> fle b high
        \<and> (a = b \<or> is_finite (fsub b a) \<and> \<not> flt (fabs (fsub b a)) (rnd64 (1 / 10 ^ 12))))"

lemma quot_le_one: "0 < D \<Longrightarrow> fle x (Fin D) \<Longrightarrow> fle (fquot x (Fin D)) (Fin 1)"
  using rnd64_mono [of _ 1] by (cases x) (auto simp: fquot_def sgn_inf_def divide_le_eq_1 is_f64_1 [unfolded is_f64_def])

lemma quot_ge_one: "0 < D \<Longrightarrow> fle (Fin D) x \<Longrightarrow> fle (Fin 1) (fquot x (Fin D))"
  using rnd64_mono [of 1] by (cases x) (auto simp: fquot_def sgn_inf_def le_divide_eq_1 is_f64_1 [unfolded is_f64_def])

lemma quot_neg_ge_one: "D < 0 \<Longrightarrow> fle x (Fin D) \<Longrightarrow> fle (Fin 1) (fquot x (Fin D))"
  using rnd64_mono [of 1] by (cases x) (auto simp: fquot_def sgn_inf_def le_divide_eq_1 is_f64_1 [unfolded is_f64_def])

lemma quot_neg_le_one: "D < 0 \<Longrightarrow> fle (Fin D) x \<Longrightarrow> fle (fquot x (Fin D)) (Fin 1)"
  using rnd64_mono [of _ 1] by (cases x) (auto simp: fquot_def sgn_inf_def divide_le_eq_1 is_f64_1 [unfolded is_f64_def])

lemma tiny_pos: "flt (Fin 0) (rnd64 (1 / 10 ^ 12))"
proof -
  have "is_f64 (of_int 1 * pow2 (- 40))" by (rule is_f64_scaled) simp_all
  then have "fle (Fin (pow2 (- 40))) (rnd64 (1 / 10 ^ 12))"
    by (intro rnd64_ge_f64) (simp_all add: pow2_def)
  then show ?thesis by (cases "rnd64 (1 / 10 ^ 12)") (auto intro: order_less_le_trans [OF pow2_pos])
qed

lemma slab_axis_end:
  assumes "end_between q" and "fle t_min (Fin 1)"
  obtains t where "slab_axis q (t_min, Fin 1) = Some (t, Fin 1)" and "fle t (Fin 1)"
proof -
  obtain a b low high where q: "q = (a, b, low, high)" by (cases q)
  obtain ra rb rl rh where f: "a = Fin ra" "b = Fin rb" "low = Fin rl" "high = Fin rh"
    using assms(1) by (auto simp: q end_between_def is_finite_conv)
  have between: "rl \<le> rb" "rb \<le> rh" using assms(1) by (simp_all add: q f end_between_def)
  define tiny where "tiny = rnd64 (1 / 10 ^ 12)"
  show thesis
  proof (cases "a = b")
    case True
    then have "fsub b a = Fin 0" using is_f64_0 by (simp add: f fsub_def is_f64_def)
    then have "slab_axis q (t_min, Fin 1) = Some (t_min, Fin 1)"
      using tiny_pos True between by (simp add: slab_axis_def q f)
    then show thesis using that assms(2) by blast
  next
    case False
    then obtain D where D: "fsub b a = Fin D" and big: "\<not> flt (fabs (fsub b a)) tiny"
      using assms(1) by (auto simp: q end_between_def is_finite_conv tiny_def)
    have nz: "D \<noteq> 0" using big D tiny_pos by (auto simp: tiny_def)
    have dd: "rnd64 (rb - ra) = Fin D" using D by (simp add: f fsub_def)
    have lo: "fle (fsub low a) (Fin D)" and hi: "fle (Fin D) (fsub high a)"
      using between rnd64_mono [of "rl - ra" "rb - ra"] rnd64_mono [of "rb - ra" "rh - ra"] dd by (simp_all add: f fsub_def)
    define t0 where "t0 = fquot (fsub low a) (Fin D)"
    define t1 where "t1 = fquot (fsub high a) (Fin D)"
    define u where "u = (if flt t1 t0 then (t1, t0) else (t0, t1))"
    have u: "fle (fst u) (Fin 1)" "fle (Fin 1) (snd u)"
    proof -
      have "fle t0 (Fin 1) \<and> fle (Fin 1) t1 \<or> fle t1 (Fin 1) \<and> fle (Fin 1) t0"
        using nz lo hi quot_le_one quot_ge_one quot_neg_le_one quot_neg_ge_one unfolding t0_def t1_def
        by (cases "0 < D") auto
      then show "fle (fst u) (Fin 1)" "fle (Fin 1) (snd u)"
        unfolding u_def by (cases t0; cases t1; auto)+
    qed
    have m: "fmin (Fin 1) (snd u) = Fin 1" using u(2) by (cases "snd u") (auto simp: fmin_def)
    have x: "fle (fmax t_min (fst u)) (Fin 1)" using u(1) assms(2) by (simp add: fmax_def)
    then have "\<not> flt (Fin 1) (fmax t_min (fst u))" by (cases "fmax t_min (fst u)") auto
    then have "slab_axis q (t_min, Fin 1) = Some (fmax t_min (fst u), Fin 1)"
      using big m by (simp add: slab_axis_def q D tiny_def t0_def [symmetric] t1_def [symmetric] u_def Let_def split: if_splits)
    then show thesis using that x by blast
  qed
qed

lemma slabs_end: "list_all end_between qs \<Longrightarrow> fle t_min (Fin 1) \<Longrightarrow> slabs qs (t_min, Fin 1)"
proof (induction qs arbitrary: t_min)
  case Nil
  then show ?case by simp
next
  case (Cons q qs)
  then obtain t where "slab_axis q (t_min, Fin 1) = Some (t, Fin 1)" "fle t (Fin 1)"
    using slab_axis_end [of q t_min] by auto
  with Cons show ?case by simp
qed

text \<open>A segment whose far end lies in a box is always seen to hit it, rounding included.\<close>

theorem slab_test_sees_end:
  assumes "list_all end_between (zip (axes a) (zip (axes b) (zip (axes (bx_low bx)) (axes (bx_high bx)))))"
  shows "segment_hits bx a b"
  unfolding segment_hits_def using assms by (rule slabs_end) simp

section \<open>Routes are found or refused\<close>

fun legs_in_sight :: "distance \<Rightarrow> (pyfloat \<Rightarrow> pyfloat \<Rightarrow> pyfloat) \<Rightarrow> region \<Rightarrow> vec3 list \<Rightarrow> bool" where
  "legs_in_sight d hypot rg (p # q # ps) \<longleftrightarrow>
     fle (Fin 2) (d p q) \<and> leg_allowed d hypot rg p q = Ok True \<and> legs_in_sight d hypot rg (q # ps)"
| "legs_in_sight d hypot rg ps \<longleftrightarrow> True"

lemma legs_in_sight_snoc:
  "ps \<noteq> [] \<Longrightarrow> legs_in_sight d hypot rg (ps @ [q]) \<longleftrightarrow>
     legs_in_sight d hypot rg ps \<and> fle (Fin 2) (d (last ps) q) \<and> leg_allowed d hypot rg (last ps) q = Ok True"
  by (induction ps rule: induct_list012) auto

lemma last_cumulative_snoc:
  "ps \<noteq> [] \<Longrightarrow> last (cumulative d l (ps @ [q])) = fadd (last (cumulative d l ps)) (d (last ps) q)"
proof (induction ps arbitrary: l rule: induct_list012)
  case (3 x y zs)
  have n: "cumulative d l ps \<noteq> []" for l ps by (cases "(d, l, ps)" rule: cumulative.cases) auto
  from 3 n show ?case by simp
qed auto

lemma sample_from_allowed:
  "sample_from hypot rg draws max_d tries n = Ok (p, n') \<Longrightarrow>
     allows hypot rg p \<and> (case max_d of None \<Rightarrow> True | Some m \<Rightarrow> fle (horizontal_distance hypot rg p) m)"
  by (induction tries arbitrary: n) (auto simp: Let_def split: if_splits)

lemma next_waypoint_allowed:
  "next_waypoint d hypot rg draws here tries n = Ok (c, n') \<Longrightarrow>
     allows hypot rg c \<and> fle (Fin 2) (d here c) \<and> leg_allowed d hypot rg here c = Ok True"
proof (induction tries arbitrary: n)
  case (Suc tries)
  then obtain c0 n0 where "sample_from hypot rg draws None MAX_WAYPOINT_TRIES n = Ok (c0, n0)" by (auto simp: result_simps)
  with Suc sample_from_allowed [OF this] show ?case by (auto simp: result_simps split: if_splits)
qed simp

text \<open>Two metres are never lost to rounding.\<close>

lemma two_metres:
  assumes "is_f64 t" and "0 \<le> t" and "t < 2 ^ 52" and "fle (Fin 2) x"
  shows "fadd (Fin t) x = PInf \<or> (\<exists>t'. fadd (Fin t) x = Fin t' \<and> is_f64 t' \<and> t + 1 \<le> t')"
proof (cases x)
  case (Fin r)
  define m where "m = \<lfloor>t\<rfloor> + 2"
  have fl: "of_int \<lfloor>t\<rfloor> \<le> t" "t < of_int \<lfloor>t\<rfloor> + 1" by linarith+
  have "\<lfloor>t\<rfloor> < 2 ^ 52" using assms(3) by (simp add: floor_less_iff)
  then have "is_f64 (of_int m)" using assms(2) by (intro is_f64_of_int) (simp add: m_def)
  moreover have "(of_int m :: rat) \<le> t + r" using add_mono [OF fl(1), of 2 r] assms(4) by (simp add: Fin m_def)
  ultimately have ge: "fle (Fin (of_int m)) (rnd64 (t + r))" by (rule rnd64_ge_f64)
  have "t + 1 \<le> of_int m" using fl(2) by (simp add: m_def)
  then show ?thesis using ge rnd64_is_f64 by (cases "rnd64 (t + r)") (auto simp: Fin)
qed (use assms(4) in auto)

definition route_in_sight :: "distance \<Rightarrow> (pyfloat \<Rightarrow> pyfloat \<Rightarrow> pyfloat) \<Rightarrow> region \<Rightarrow> pyfloat \<Rightarrow> vec3 list \<Rightarrow> bool" where
  "route_in_sight d hypot rg start_max_d route \<longleftrightarrow>
     route \<noteq> [] \<and> fle (horizontal_distance hypot rg (hd route)) start_max_d \<and> list_all (allows hypot rg) route
     \<and> legs_in_sight d hypot rg route"

lemma extend_route_total:
  assumes "route_in_sight d hypot rg start_max_d route" and "gone = last (cumulative d (Fin 0) route)"
    and "gone = PInf \<or> (\<exists>t. gone = Fin t \<and> is_f64 t \<and> 0 \<le> t)" and "L \<le> 2 ^ 52"
  shows "\<exists>r. extend_route d hypot rg draws (Fin L) route gone n = Some r
    \<and> (case r of Inl _ \<Rightarrow> True | Inr ps \<Rightarrow> route_in_sight d hypot rg start_max_d ps \<and> fle (Fin L) (last (cumulative d (Fin 0) ps)))"
  using assms(1-3)
proof (induction "case gone of Fin t \<Rightarrow> nat \<lceil>L - t\<rceil> | _ \<Rightarrow> 0" arbitrary: route gone n rule: less_induct)
  case less
  show ?case
  proof (cases "flt gone (Fin L)")
    case False
    then have "fle (Fin L) gone" using less.prems(3) by auto
    then show ?thesis using less.prems(1,2) False by (subst extend_route.simps) simp
  next
    case True
    then obtain t where t: "gone = Fin t" "is_f64 t" "0 \<le> t" "t < L" using less.prems(3) by auto
    show ?thesis
    proof (cases "next_waypoint d hypot rg draws (last route) MAX_WAYPOINT_TRIES n")
      case (Inl e)
      then show ?thesis using True by (subst extend_route.simps) simp
    next
      case (Inr cn)
      obtain c n' where cn: "cn = (c, n')" by (cases cn)
      note a = next_waypoint_allowed [OF Inr [unfolded cn]]
      define gone' where "gone' = fadd gone (d (last route) c)"
      have g: "gone' = PInf \<or> (\<exists>t'. gone' = Fin t' \<and> is_f64 t' \<and> t + 1 \<le> t')"
        unfolding gone'_def t(1) using t a assms(4) by (intro two_metres) auto
      have ne: "route \<noteq> []" using less.prems(1) by (simp add: route_in_sight_def)
      have r: "route_in_sight d hypot rg start_max_d (route @ [c])"
        using less.prems(1) a ne by (simp add: route_in_sight_def legs_in_sight_snoc)
      have l: "gone' = last (cumulative d (Fin 0) (route @ [c]))"
        using ne by (simp add: gone'_def less.prems(2) last_cumulative_snoc)
      have "(case gone' of Fin t \<Rightarrow> nat \<lceil>L - t\<rceil> | _ \<Rightarrow> 0) < (case gone of Fin t \<Rightarrow> nat \<lceil>L - t\<rceil> | _ \<Rightarrow> 0)"
      proof -
        have p: "0 < nat \<lceil>L - t\<rceil>" using t(4) by simp
        have "nat \<lceil>L - t'\<rceil> < nat \<lceil>L - t\<rceil>" if "t + 1 \<le> t'" for t'
        proof -
          have "\<lceil>L - t'\<rceil> \<le> \<lceil>L - t - 1\<rceil>" using that by (intro ceiling_mono) simp
          also have "\<lceil>L - t - 1\<rceil> = \<lceil>L - t\<rceil> - 1" by simp
          finally show ?thesis using p by linarith
        qed
        then show ?thesis using g p t(1) by auto
      qed
      moreover have "gone' = PInf \<or> (\<exists>t. gone' = Fin t \<and> is_f64 t \<and> 0 \<le> t)" using g t(3) by force
      ultimately have "\<exists>x. extend_route d hypot rg draws (Fin L) (route @ [c]) gone' n' = Some x
        \<and> (case x of Inl _ \<Rightarrow> True | Inr ps \<Rightarrow> route_in_sight d hypot rg start_max_d ps \<and> fle (Fin L) (last (cumulative d (Fin 0) ps)))"
        using less.hyps r l by blast
      then show ?thesis using True Inr by (subst extend_route.simps) (simp add: cn gone'_def)
    qed
  qed
qed

lemma route_found_or_refused:
  assumes "L \<le> 2 ^ 52"
  shows "\<exists>r. random_waypoint_route d hypot rg draws n (Fin L) start_max_d = Some r
    \<and> (case r of Inl _ \<Rightarrow> True
       | Inr ps \<Rightarrow> route_in_sight d hypot rg start_max_d ps \<and> fle (Fin L) (last (cumulative d (Fin 0) ps)))"
proof (cases "sample_from hypot rg draws (Some start_max_d) MAX_WAYPOINT_TRIES n")
  case (Inl e)
  then show ?thesis by (simp add: random_waypoint_route_def)
next
  case (Inr pn)
  obtain p n' where pn: "pn = (p, n')" by (cases pn)
  have "route_in_sight d hypot rg start_max_d [p]"
    using sample_from_allowed [OF Inr [unfolded pn]] by (simp add: route_in_sight_def)
  from extend_route_total [OF this _ _ assms, of "Fin 0" draws n'] show ?thesis
    by (simp add: random_waypoint_route_def Inr pn)
qed

section \<open>Generated scenarios\<close>

text \<open>The node \<open>node\<close> of a terminal walks a route: everything else is as in the base.\<close>

definition walks ::
  "distance \<Rightarrow> (pyfloat \<Rightarrow> pyfloat \<Rightarrow> pyfloat) \<Rightarrow> region \<Rightarrow> pyfloat \<Rightarrow> pyfloat \<Rightarrow> pyfloat \<Rightarrow> pyval \<Rightarrow> pyval \<Rightarrow> bool" where
  "walks d hypot rg start_max_d speed len before after \<longleftrightarrow>
     (\<exists>route old node. before = VDict old \<and> after = VDict node
        \<and> route_in_sight d hypot rg start_max_d route \<and> fle len (last (cumulative d (Fin 0) route))
        \<and> vget ''route_m'' node = VList (map point_value route) \<and> vget ''route_mode'' node = VStr ''pingpong''
        \<and> vget ''speed_mps'' node = VFloat speed \<and> vget ''mobility'' node = VStr ''robot''
        \<and> (\<forall>k. k \<notin> {''route_m'', ''route_mode'', ''speed_mps'', ''mobility''} \<longrightarrow> vget k node = vget k old))"

lemma walking_node_walks:
  assumes "walking_node route speed before = Ok node" and "route_in_sight d hypot rg start_max_d route"
    and "fle len (last (cumulative d (Fin 0) route))"
  shows "walks d hypot rg start_max_d speed len before (VDict node)"
  using assms by (auto simp: walks_def walking_node_def split: pyval.splits)

definition bounded_lengths :: "(string \<Rightarrow> nat \<Rightarrow> pyfloat) \<Rightarrow> int \<Rightarrow> knobs \<Rightarrow> bool" where
  "bounded_lengths streams seed kn \<longleftrightarrow>
     list_all (\<lambda>ue. case route_length streams seed kn ue of Fin L \<Rightarrow> L \<le> 2 ^ 52 | _ \<Rightarrow> False) UE_IDS"

lemma generate_ues_total:
  assumes "list_all (\<lambda>ue. case route_length streams seed kn ue of Fin L \<Rightarrow> L \<le> 2 ^ 52 | _ \<Rightarrow> False) ues" and "distinct ues"
  shows "\<exists>r. generate_ues d hypot streams rg seed kn base ues out = Some r
    \<and> (case r of Inl _ \<Rightarrow> True
       | Inr (nodes, routes) \<Rightarrow>
           (\<forall>ue \<in> set ues. walks d hypot rg (kn_start_max_d kn) (drawn_speed streams seed kn ue) (route_length streams seed kn ue)
              (vget ue base) (vget ue nodes))
           \<and> (\<forall>k. k \<notin> set ues \<longrightarrow> vget k nodes = vget k (fst out)))"
  using assms
proof (induction ues arbitrary: out)
  case Nil
  show ?case by (cases out) simp
next
  case (Cons ue ues)
  then obtain L where L: "route_length streams seed kn ue = Fin L" "L \<le> 2 ^ 52"
    by (cases "route_length streams seed kn ue") auto
  define speed where "speed = drawn_speed streams seed kn ue"
  obtain r where r: "random_waypoint_route d hypot rg (streams (stream_name seed ue)) 1 (Fin L) (kn_start_max_d kn) = Some r"
    and ok: "case r of Inl _ \<Rightarrow> True
       | Inr ps \<Rightarrow> route_in_sight d hypot rg (kn_start_max_d kn) ps \<and> fle (Fin L) (last (cumulative d (Fin 0) ps))"
    using route_found_or_refused [OF L(2)] by blast
  show ?case
  proof (cases r)
    case (Inl e)
    then show ?thesis using r L(1) by (simp add: Let_def)
  next
    case (Inr route)
    show ?thesis
    proof (cases "walking_node route speed (vget ue base)")
      case (Inl e)
      then show ?thesis using r L(1) Inr by (simp add: Let_def flip: speed_def)
    next
      case (Inr node)
      have w: "walks d hypot rg (kn_start_max_d kn) speed (Fin L) (vget ue base) (VDict node)"
        using walking_node_walks [OF Inr] ok \<open>r = Inr route\<close> by simp
      let ?out = "(AList.update ue (VDict node) (fst out), AList.update ue (route_summary hypot rg route speed) (snd out))"
      obtain r' where r': "generate_ues d hypot streams rg seed kn base ues ?out = Some r'"
        and rest: "case r' of Inl _ \<Rightarrow> True
         | Inr (nodes, routes) \<Rightarrow>
           (\<forall>ue \<in> set ues. walks d hypot rg (kn_start_max_d kn) (drawn_speed streams seed kn ue) (route_length streams seed kn ue)
              (vget ue base) (vget ue nodes))
           \<and> (\<forall>k. k \<notin> set ues \<longrightarrow> vget k nodes = vget k (fst ?out))"
        using Cons.IH [of ?out] Cons.prems by auto
      have "generate_ues d hypot streams rg seed kn base (ue # ues) out = Some r'"
        using r L(1) \<open>r = Inr route\<close> Inr r' by (simp add: Let_def flip: speed_def)
      moreover have "ue \<notin> set ues" using Cons.prems by simp
      ultimately show ?thesis
        using rest w L(1) by (intro exI [of _ r']) (auto simp: speed_def split: sum.splits)
    qed
  qed
qed

text \<open>C40. For every seed, base and manifest the generation of a scenario ends, unless its routes were to be longer
  than \<open>2 ^ 52\<close> metres: with an exception or a scenario. In a scenario each terminal walks, at the speed drawn
  for it, a route that starts near enough, whose points and leg samples are all allowed by the region of
  the base (on the ground, in range, clear of every inflated obstacle), whose legs are at least two metres and
  which is as long as asked for; every other node, and every other part of the base, is left as it was.\<close>

theorem generated_routes_in_sight:
  assumes "bounded_lengths streams seed kn"
  shows "\<exists>r. generate d hypot streams manifests seed kn base = Some r
    \<and> (case r of Inl _ \<Rightarrow> True
       | Inr out \<Rightarrow> 0 \<le> seed
         \<and> (\<exists>scene nodes start rg new. base_parts base = Ok (scene, nodes, start) \<and> region_of manifests kn scene start = Ok rg
           \<and> vget ''nodes'' out = VDict new
           \<and> (\<forall>ue \<in> set UE_IDS. walks d hypot rg (kn_start_max_d kn) (drawn_speed streams seed kn ue)
                (route_length streams seed kn ue) (vget ue nodes) (vget ue new))
           \<and> (\<forall>k. k \<notin> set UE_IDS \<longrightarrow> vget k new = vget k nodes))
         \<and> (\<exists>solver. solver_of seed base = Ok solver \<and> vget ''solver'' out = VDict solver)
         \<and> (\<forall>k. k \<notin> {''name'', ''description'', ''solver'', ''nodes'', ''benchmark''} \<longrightarrow> vget k out = vget k base))"
proof -
  have d: "distinct UE_IDS" by (simp add: UE_IDS_def)
  have b: "list_all (\<lambda>ue. case route_length streams seed kn ue of Fin L \<Rightarrow> L \<le> 2 ^ 52 | _ \<Rightarrow> False) UE_IDS"
    using assms by (simp add: bounded_lengths_def)
  show ?thesis
  proof (cases "seed < 0")
    case True
    then show ?thesis by (simp add: generate_def)
  next
    case False
    define prep where "prep = bindR (base_parts base) (\<lambda>(scene, nodes, start).
                bindR (region_of manifests kn scene start) (\<lambda>rg.
                bindR (solver_of seed base) (\<lambda>solver. Ok (nodes, rg, solver))))"
    show ?thesis
    proof (cases prep)
      case (Inl e)
      then show ?thesis using False by (simp add: generate_def flip: prep_def)
    next
      case (Inr p)
      then obtain scene nodes start rg solver where p: "prep = Ok (nodes, rg, solver)"
        "base_parts base = Ok (scene, nodes, start)" "region_of manifests kn scene start = Ok rg"
        "solver_of seed base = Ok solver" by (auto simp: prep_def result_simps)
      obtain r where "generate_ues d hypot streams rg seed kn nodes UE_IDS (nodes, []) = Some r"
        and "case r of Inl _ \<Rightarrow> True
       | Inr (new, routes) \<Rightarrow>
           (\<forall>ue \<in> set UE_IDS. walks d hypot rg (kn_start_max_d kn) (drawn_speed streams seed kn ue) (route_length streams seed kn ue)
              (vget ue nodes) (vget ue new))
           \<and> (\<forall>k. k \<notin> set UE_IDS \<longrightarrow> vget k new = vget k (fst (nodes, [] :: pydict)))"
        using generate_ues_total [OF b d] by blast
      moreover have "generate d hypot streams manifests seed kn base =
        (case generate_ues d hypot streams rg seed kn nodes UE_IDS (nodes, []) of
           None \<Rightarrow> None | Some (Inl e) \<Rightarrow> Some (Inl e)
         | Some (Inr (new_nodes, routes)) \<Rightarrow>
                   Some (Ok (AList.update ''benchmark'' (benchmark_of seed kn routes)
                     (AList.update ''nodes'' (VDict new_nodes) (AList.update ''solver'' (VDict solver)
                     (AList.update ''description'' (VStr (description_of seed))
                     (AList.update ''name'' (VStr (''scheduler-benchmark-seed'' @ str_int seed)) base)))))))"
        using False by (simp add: generate_def p(1) flip: prep_def)
      ultimately show ?thesis using False p(2-4) by (cases r) auto
    qed
  qed
qed

text \<open>A scene without obstacles, terminals drawn in its middle ten metres from the gNB.\<close>

definition sample_knobs :: knobs where
  "sample_knobs = \<lparr>kn_duration_s = Fin 4, kn_speed_range = (Fin (1/2), Fin (3/2)), kn_min_d = Fin 6, kn_max_d = Fin 40,
     kn_start_max_d = Fin 20, kn_edge_margin = Fin 3\<rparr>"

definition sample_base :: pydict where
  "sample_base = [(''scene'', VStr ''plain''), (''nodes'', VDict [(''gnb0'', VDict [(''start_m'', VList [VInt 0, VInt 0, VInt 5])]),
     (''ue0'', VDict []), (''ue1'', VDict [])])]"

definition sample_region :: region where
  "sample_region = \<lparr>rg_gnb = (Fin 0, Fin 0, Fin 5), rg_boxes = [], rg_limit = Fin 27, rg_min_d = Fin 6, rg_max_d = Fin 40\<rparr>"

lemma sample_floats:
  "rhe 0 = 0" "rhe 1000 = 1000"
  "rnd64 1 = Fin 1" "rnd64 0 = Fin 0" "rnd64 (1/2) = Fin (1/2)" "rnd64 27 = Fin 27" "rnd64 54 = Fin 54" "rnd64 10 = Fin 10" "rnd64 5 = Fin 5"
  unfolding rhe_def using is_f64_1 is_f64_0 is_f64_scaled [of 1 "- 1"] is_f64_of_int [of 27] is_f64_of_int [of 54] is_f64_of_int [of 10]
    is_f64_of_int [of 5]
  by (simp_all add: is_f64_def pow2_def)

lemma sample_bounded: "bounded_lengths (\<lambda>_ _. Fin (1/2)) 7 sample_knobs"
proof -
  have s: "drawn_speed (\<lambda>_ _. Fin (1/2)) 7 sample_knobs ue = Fin 1" for ue
    by (simp add: drawn_speed_def sample_knobs_def uniform_def round_dec_def fsub_def sample_floats)
  obtain y where y: "rnd64 (105/100) = Fin y" "1 \<le> y" "y \<le> 2" using rnd64_between [of 1 2 "105/100"] is_f64_of_int [of 2] by auto
  have "is_f64 4" "is_f64 8" using is_f64_of_int [of 4] is_f64_of_int [of 8] by simp_all
  then obtain z where z: "rnd64 (4 * y) = Fin z" "z \<le> 8" using rnd64_between [of 4 8 "4 * y"] y by auto
  have "fmul (Fin 1) (Fin 4) = Fin 4" using \<open>is_f64 4\<close> by (simp add: is_f64_def)
  then have "route_length (\<lambda>_ _. Fin (1/2)) 7 sample_knobs ue = Fin z" for ue
    unfolding route_length_def s using y(1) z(1) by (simp add: sample_knobs_def)
  then show ?thesis using z(2) by (simp add: bounded_lengths_def UE_IDS_def)
qed

theorem generated_routes_in_sight_witness:
  "region_of (\<lambda>_. Some (VDict [])) sample_knobs ''plain'' [VInt 0, VInt 0, VInt 5] = Ok sample_region
   \<and> allows (\<lambda>_ _. Fin 10) sample_region (waypoint sample_region (\<lambda>_. Fin (1/2)) 1)
   \<and> bounded_lengths (\<lambda>_ _. Fin (1/2)) 7 sample_knobs
   \<and> generate (\<lambda>_ _. Fin 3) (\<lambda>_ _. Fin 10) (\<lambda>_ _. Fin (1/2)) (\<lambda>_. Some (VDict [])) 7 sample_knobs sample_base \<noteq> None"
proof -
  have r: "region_of (\<lambda>_. Some (VDict [])) sample_knobs ''plain'' [VInt 0, VInt 0, VInt 5] = Ok sample_region"
    by (simp add: region_of_def scene_obstacles_def get_truthy_def vget_or_def new_region_def to_float_def float_of_int_def
        fsub_def sample_floats sample_knobs_def sample_region_def)
  have a: "allows (\<lambda>_ _. Fin 10) sample_region (waypoint sample_region (\<lambda>_. Fin (1/2)) 1)"
    by (simp add: waypoint_def uniform_def round_dec_def fsub_def sample_floats sample_region_def allows_def horizontal_distance_def)
  obtain out where
    "generate (\<lambda>_ _. Fin 3) (\<lambda>_ _. Fin 10) (\<lambda>_ _. Fin (1/2)) (\<lambda>_. Some (VDict [])) 7 sample_knobs sample_base = Some out"
    using generated_routes_in_sight [OF sample_bounded] by blast
  with r a sample_bounded show ?thesis by simp
qed

text \<open>The bridge's loader takes the route and the speed of a node that walks, when they are finite numbers.\<close>

theorem walking_node_loads:
  assumes "walking_node route speed (VDict old) = Ok node" and "flt (Fin 0) len"
    and "fle len (last (cumulative d (Fin 0) route))" and "list_all finite_vec route" and "is_finite speed" and "flt (Fin 0) speed"
  shows "walk_of ''pingpong'' None node = Ok (route, speed)"
proof -
  have "finite_vector (point_value p) = Ok p" if "finite_vec p" for p
    using that by (cases p) (simp add: finite_vector_def point_value_def axes_def finite_vec_def to_float_def)
  then have m: "mapR finite_vector (map point_value route) = Ok route"
    using assms(4) by (induction route) auto
  have len: "2 \<le> length route"
  proof (rule ccontr)
    assume "\<not> 2 \<le> length route"
    then have "last (cumulative d (Fin 0) route) = Fin 0" by (cases route; cases "tl route") auto
    then show False using assms(2,3) by (cases len) auto
  qed
  have "\<not> fle speed (Fin 0)" using assms(6) by (cases speed) auto
  then show ?thesis
    using m len assms(1,5) by (auto simp: walking_node_def walk_of_def walking_speed_def to_float_def)
qed

end
