(* ===== verification/Spec2Isabelle.thy ===== *)
theory Spec2Isabelle
  imports History Delivery WebSocket GnbMetrics StatusStore ProcParse Feeds ChannelAdapter ControlBatch FightLink PolicyFacts BridgeRecord BenchCampaign SceneRead FightRelay BenchScenario
begin

text \<open>
  A verification library for the Python programs around the OCUDU GPU channel: the dashboard, the Sionna
  bridge, the robot fight and the scheduler benchmark. Every definition is translated from the file its
  theory names, under the name it has there where HOL allows it, and computes where the code does; the
  theorems are about those definitions.

  \<^bold>\<open>How the program works.\<close> A native channel emulator (C++/CUDA) carries the samples of a radio network. The
  bridge \<^verbatim>\<open>apps/sionna_bridge/run_bridge.py\<close> moves the nodes of a scenario, traces their radio paths and sends
  the resulting tap profiles to one or several emulators as atomic batches over a request/reply socket
  (\<^verbatim>\<open>channel_adapter.py\<close>; the other end is \<^verbatim>\<open>src/control_server.cpp\<close>). It also appends status records to
  a file. The dashboard \<^verbatim>\<open>apps/dashboard/server.py\<close> tails that file, receives telemetry of the emulator and
  metrics of the base stations over a WebSocket of its own, and judges from all of them whether a batch is in
  force. The robot fight \<^verbatim>\<open>use_cases/robot_fight\<close> plays a game over the emulated network: an arena simulates two
  robots and exchanges UDP datagrams with two brains; its positions are published to the bridge. The scheduler
  benchmark \<^verbatim>\<open>use_cases/scheduler_benchmark\<close> compares two schedulers under one channel with seeded traffic.

  \<^bold>\<open>Base theories.\<close>
  \<^item> \<open>Prelude\<close>: the errors a Python function raises and the result type \<open>py_error + 'a\<close> with its sequencing, the
    string methods used, dictionaries as association lists in insertion order.
  \<^item> \<open>PyFloat\<close>, \<open>FloatBounds\<close>: binary64 floats as exact rationals with every operation rounded to nearest even;
    monotonicity and error bounds of rounding, clamping, remainders.
  \<^item> \<open>PyValue\<close>: the values of \<open>json.loads\<close>, with \<open>isinstance\<close>, truth and \<open>dict.get\<close>.
  \<^item> \<open>Bytes\<close>, \<open>FloatWire\<close>: byte strings, integer fields, UTF-8 validity, the codes of the \<open>struct\<close> module with the
    IEEE encodings of both float widths. The locales \<open>wire_format\<close> (a self-delimiting encoding) and
    \<open>format_ok\<close> (a binary interchange format) are interpreted on the integer fields, the WebSocket frames and
    the two float formats.

  \<^bold>\<open>Dashboard\<close> (\<^verbatim>\<open>apps/dashboard/server.py\<close>).
  \<^item> \<open>History\<close>: \<open>trim_history\<close>, \<open>slice_history\<close> and the chart rows. Slicing a trimmed history shows what slicing
    the whole history would.
  \<^item> \<open>Delivery\<close>: \<open>delivery_status\<close>. \<open>backend_applied\<close> is reported only with acknowledgement, fresh telemetry and no
    warm-up for every link.
  \<^item> \<open>WebSocket\<close>: the \<open>WebSocketClient\<close>, from the handshake to fragmented messages and the heartbeat, over a list of
    socket events. Messages are reassembled exactly however TCP cuts them, a silent peer is detected, sent
    frames decode by RFC 6455.
  \<^item> \<open>GnbMetrics\<close>: report detection, UE extraction, the feed record of a base station.
  \<^item> \<open>StatusStore\<close>: all methods of the store, the relation \<open>store_step\<close> of its updates, the invariant of its reachable
    states, and when a warm-up target is retired.
  \<^item> \<open>ProcParse\<close>, \<open>Feeds\<close>: the parsers of \<^verbatim>\<open>/proc\<close> and \<^verbatim>\<open>nvidia-smi\<close>, the file tail, the reconnect loop, argument
    checks and the request router, which never serves a file outside its directory.

  \<^bold>\<open>Bridge\<close> (\<^verbatim>\<open>apps/sionna_bridge\<close>).
  \<^item> \<open>ChannelAdapter\<close>: paths to taps (coherent delay bins, selection of the strongest) and the profile messages.
  \<^item> \<open>ControlBatch\<close>: the request socket, \<open>send_batch\<close>, and the batch handlers of the control server. The locale
    \<open>control_server\<close> states what a client may rely on; it is interpreted on the translated server. Whatever the
    network loses, a batch is installed wholly or not at all.
  \<^item> \<open>Motion\<close>, \<open>Scenario\<close>, \<open>BridgeArgs\<close>: \<open>Motion\<close>, \<open>load_scenario_config\<close>, the checks of \<open>parse_args\<close> and the built-in
    layouts. Moving nodes stay on their routes; accepted files and arguments are well formed.
  \<^item> \<open>BridgeTimeline\<close>: \<open>GridTimeline\<close> and the fan-out of a batch to several brokers under renamed nodes.
  \<^item> \<open>PositionFeed\<close>: \<open>ExternalPositionSource\<close>, refining the newest valid frame.
  \<^item> \<open>BridgeLoop\<close>: the update loop of \<open>main\<close>, composed of all of the above: what every broker holds after any run,
    and that grid runs do not depend on the clock.
  \<^item> \<open>BridgeProfiles\<close>: class \<open>SionnaScenario\<close>, from the solved tensors to the profiles. Links may share a solve, and
    each gets what a solve of its own would give it; every batch is complete and can be sent.
  \<^item> \<open>BridgeRecord\<close>: the status records, and that the dashboard shows every traced link of a record it takes in.

  \<^bold>\<open>Scenes\<close> (\<^verbatim>\<open>apps/sionna_bridge/build_osm_scene.py\<close> writes them, \<^verbatim>\<open>run_bridge.py\<close> reads them).
  \<^item> \<open>SceneGeometry\<close>: areas, hulls, the walk round a building, the rings of multipolygons, ear clipping. Triangles tile
    the footprint exactly; walks enter no neighbour; rings are made of the sides of their ways.
  \<^item> \<open>SceneMesh\<close>: extruded buildings, clipped ground cover and roads. A building is closed but for its floor.
  \<^item> \<open>SceneNames\<close>: materials, heights and mesh ids from the tags.
  \<^item> \<open>ScenePly\<close>: PLY files, written and read back, in ASCII and in both byte orders.
  \<^item> \<open>SceneBuild\<close>: \<open>build\<close> and the scene file: no mesh replaces another and each can be read.
  \<^item> \<open>SceneRead\<close>: what the bridge shows of a scene file, and the simple road. A built scene is shown as it was built.

  \<^bold>\<open>Robot fight\<close> (\<^verbatim>\<open>use_cases/robot_fight\<close>).
  \<^item> \<open>Protocol\<close>: the datagrams of \<^verbatim>\<open>protocol.py\<close>, with their round trip and total parsing.
  \<^item> \<open>Arena\<close>: command sockets, the staleness machine, the referee, STATE datagrams of \<^verbatim>\<open>arena.py\<close>.
  \<^item> \<open>Brain\<close>, \<open>BrainPolicy\<close>, \<open>PolicyFacts\<close>: the receiver, the link estimate and all policies of \<^verbatim>\<open>brain.py\<close>. The
    prediction loop of the delay-compensating policy always returns; its command history refines a scan of
    the whole history.
  \<^item> \<open>FightLink\<close>: arena and brain together: a round-trip sample is the elapsed time.
  \<^item> \<open>FightRelay\<close>: \<^verbatim>\<open>modem.py\<close>, and the handicap proxy, workers and tallies of \<^verbatim>\<open>fight.py\<close>. The proxy is a delay line
    (its heap is a \<open>min_queue\<close>); every fight runs once.

  \<^bold>\<open>Scheduler benchmark\<close> (\<^verbatim>\<open>use_cases/scheduler_benchmark\<close>).
  \<^item> \<open>BenchDefs\<close>: \<^verbatim>\<open>definitions.py\<close>: cells, 5QI table, traffic profiles and their overrides, flow ids.
  \<^item> \<open>BenchTraffic\<close>: the packet schedules of \<^verbatim>\<open>traffic.py\<close>: their order, when they end and when they never do.
  \<^item> \<open>BenchSender\<close>: its targets, event queue, packets and progress log. The locale \<open>min_queue\<close> is the contract of
    \<open>heapq\<close>; on it rests that both cells are offered the same packets at the same instants.
  \<^item> \<open>BenchLogs\<close>: the receiver, and the \<open>TailReader\<close> of \<^verbatim>\<open>analyze.py\<close>. The locale \<open>framing\<close> (whole units, nothing whole
    held back) is interpreted on records and on lines. What arrives is read exactly once, however it is polled.
  \<^item> \<open>BenchSlots\<close>: \<open>CellSched\<close> and the ingestion of the scheduler log: true slot numbers across wraps, and accumulators
    equal to the sums of one pass over the log.
  \<^item> \<open>BenchFlows\<close>: the accounting of packets: segments of the schedule, received and sent packets of a second.
  \<^item> \<open>BenchStats\<close>: percentiles, Jain's index, batch means and when they give an interval.
  \<^item> \<open>BenchIngest\<close>: the state of \<open>RunAnalyzer\<close> and its polls. Nothing is filed under another cell or outside the run.
  \<^item> \<open>BenchReport\<close>: valid seconds, the metrics of a second and of a run, the paired comparison. Loss and lateness are
    rates; the comparison is the same from both sides.
  \<^item> \<open>BenchCampaign\<close>: \<^verbatim>\<open>campaign.py\<close>: swapped policies separate the effect from the bias.
  \<^item> \<open>BenchScenario\<close>: \<^verbatim>\<open>make_scenario.py\<close>: obstacles, the slab test, random-waypoint routes. Every generation ends, and
    what it writes keeps the terminals in sight.

  \<^bold>\<open>Loops and fuel.\<close> Loops over data are structural recursions. Loops driven by the environment (sockets, clocks,
  signals, files) recurse over the list of what the environment delivers, one element per turn, so any finite
  run is covered. Loops that count in floats are \<open>partial_function (option)\<close>: \<open>None\<close> is not returning, and that
  they return is a theorem of its own. No definition takes fuel.

  \<^bold>\<open>Parameters.\<close> \<open>json.loads\<close> (\<open>loads\<close>), SHA-1, the transcendental functions (\<open>trig\<close>, \<open>mathlib\<close>, \<open>distance\<close>, logarithms),
  \<open>statistics.stdev\<close>, random draws, clock readings and socket events, the MuJoCo step, the Sionna path solver (\<open>solver\<close>, \<open>trace\<close>),
  \<open>json.dumps\<close> and SHA-256 (\<open>dumps\<close>, \<open>sha\<close>).

  \<^bold>\<open>Limits of the value model.\<close> The sign of a zero and NaN payloads are not represented; \<open>x ** 2\<close> is the correctly
  rounded square; sums of floats run from left to right; integers that meet floats are below 2^53 or
  rounded once; strings are byte strings; an error keeps the literal part of its message.

  \<^bold>\<open>Not modelled.\<close> The NVML sampler through \<open>ctypes\<close>, sockets, threads and files beneath the event lists, the
  times of the stages of a solve, the Overpass request, plotting, rendering of figures and of
  configuration texts, the shell gates, and the C++/CUDA engine apart from the batch handlers.
\<close>

end
